(* ===== verification/Prelude.thy ===== *)
theory Prelude
  imports Main "HOL-Library.Word" "HOL-Library.Sublist"
begin

text \<open>
  Shared vocabulary of the development: machine integers and byte strings
  (\<open>include/aethon/common/bytes.hpp\<close>), the error values of
  \<open>include/aethon/common/error.hpp\<close>, decimal and hexadecimal output as the stream
  inserters of the library print it, the collections of rewrite rules the component theories
  share, and generic facts on lists, words and runs of a state machine.

  Conventions. An unsigned C++ integer of w bits is a w-bit word, so its arithmetic wraps.
  A \<open>std::size_t\<close> that counts elements of a container in memory is a natural number.
  A function that may throw returns \<open>error + 'a\<close>, with \<open>Inl\<close> for the exception.
\<close>

unbundle bit_operations_syntax

section \<open>Named collections\<close>

named_theorems wire_simps \<open>evaluation of readers and writers on known prefixes\<close>
named_theorems inv_simps \<open>unfolding of component invariants\<close>

section \<open>Machine integers and byte strings\<close>

type_synonym u8 = "8 word"
type_synonym u16 = "16 word"
type_synonym u32 = "32 word"
type_synonym u64 = "64 word"
type_synonym bytes = "u8 list"
type_synonym device_id = u64

definition byte_of_char :: "char \<Rightarrow> u8" where
  "byte_of_char c = of_nat (of_char c)"

definition char_of_byte :: "u8 \<Rightarrow> char" where
  "char_of_byte b = char_of (unat b)"

lemma char_of_byte_of_char [simp]: "char_of_byte (byte_of_char c) = c"
proof -
  have "(of_char c :: nat) < 256" by (rule nat_of_char_less_256)
  then have "unat (of_nat (of_char c) :: u8) = of_char c"
    by (simp add: unat_of_nat take_bit_eq_mod)
  then show ?thesis
    by (simp add: char_of_byte_def byte_of_char_def)
qed

lemma map_char_of_byte_of_char [simp]: "map (char_of_byte \<circ> byte_of_char) s = s"
  by (induction s) auto

lemma unat_of_nat_u8: "n < 256 \<Longrightarrow> unat (of_nat n :: u8) = n"
  by (simp add: unat_of_nat take_bit_eq_mod)

lemma unat_of_nat_u16: "n < 65536 \<Longrightarrow> unat (of_nat n :: u16) = n"
  by (simp add: unat_of_nat take_bit_eq_mod)

lemma unat_of_nat_u32: "n < 4294967296 \<Longrightarrow> unat (of_nat n :: u32) = n"
  by (simp add: unat_of_nat take_bit_eq_mod)

lemma unat_of_nat_u64: "n < 18446744073709551616 \<Longrightarrow> unat (of_nat n :: u64) = n"
  by (simp add: unat_of_nat take_bit_eq_mod)

lemmas unat_of_nat_widths = unat_of_nat_u8 unat_of_nat_u16 unat_of_nat_u32 unat_of_nat_u64

lemma unat_u8_bound: "unat (w :: u8) < 256"
  using unsigned_less [of w, where ?'a = nat] by simp

lemma unat_u16_bound: "unat (w :: u16) < 65536"
  using unsigned_less [of w, where ?'a = nat] by simp

lemma unat_u32_bound: "unat (w :: u32) < 4294967296"
  using unsigned_less [of w, where ?'a = nat] by simp

lemma unat_u64_bound: "unat (w :: u64) < 18446744073709551616"
  using unsigned_less [of w, where ?'a = nat] by simp

lemmas unat_bounds = unat_u8_bound unat_u16_bound unat_u32_bound unat_u64_bound

section \<open>Errors\<close>

datatype error_code =
    EC_eof
  | EC_invalid_argument
  | EC_malformed_packet
  | EC_checksum_mismatch
  | EC_unsupported_version
  | EC_archive_corrupt
  | EC_routing_failed
  | EC_plugin_error
  | EC_invariant_violation

datatype error = Error (code: error_code) (what: string)

section \<open>Text output\<close>

text \<open>Decimal output of an unsigned integer, as \<open>operator<<\<close> and \<open>std::to_string\<close> print it.\<close>

definition digit_char :: "nat \<Rightarrow> char" where
  "digit_char d = char_of (48 + d)"

fun dec_nat :: "nat \<Rightarrow> string" where
  "dec_nat n = (if n < 10 then [digit_char n] else dec_nat (n div 10) @ [digit_char (n mod 10)])"

declare dec_nat.simps [simp del]

definition dec :: "'a::len word \<Rightarrow> string" where
  "dec w = dec_nat (unat w)"

definition yes_no :: "bool \<Rightarrow> string" where
  "yes_no b = (if b then ''yes'' else ''no'')"

abbreviation newline :: string where
  "newline \<equiv> [CHR 0x0A]"

abbreviation dquote :: string where
  "dquote \<equiv> [CHR 0x22]"

definition hex_alphabet :: string where
  "hex_alphabet = ''0123456789abcdef''"

definition hex_byte :: "u8 \<Rightarrow> string" where
  "hex_byte value =
     [hex_alphabet ! unat (drop_bit 4 value AND 0x0f), hex_alphabet ! unat (value AND 0x0f)]"

definition to_hex :: "bytes \<Rightarrow> nat \<Rightarrow> string" where
  "to_hex bs limit =
     (let count = (if length bs < limit then length bs else limit)
      in concat (map hex_byte (take count bs)) @ (if length bs > count then ''...'' else []))"

lemma length_hex_byte [simp]: "length (hex_byte b) = 2"
  by (simp add: hex_byte_def)

lemma length_to_hex:
  "length (to_hex bs limit) = 2 * min (length bs) limit + (if length bs > limit then 3 else 0)"
proof -
  have "length (concat (map hex_byte xs)) = 2 * length xs" for xs
    by (induction xs) auto
  then show ?thesis
    by (auto simp: to_hex_def Let_def)
qed

text \<open>Reading decimal digits back, used to show that distinct numbers print differently.\<close>

definition undigit :: "char \<Rightarrow> nat" where
  "undigit c = of_char c - 48"

definition undec :: "string \<Rightarrow> nat" where
  "undec s = foldl (\<lambda>acc c. 10 * acc + undigit c) 0 s"

lemma undigit_digit_char [simp]: "d < 10 \<Longrightarrow> undigit (digit_char d) = d"
  by (simp add: undigit_def digit_char_def)

lemma undec_dec_nat: "undec (dec_nat n) = n"
proof (induction n rule: dec_nat.induct)
  case (1 n)
  show ?case
  proof (cases "n < 10")
    case True
    then show ?thesis by (subst dec_nat.simps) (simp add: undec_def)
  next
    case False
    with 1 have "undec (dec_nat (n div 10)) = n div 10" by simp
    with False show ?thesis
      by (subst dec_nat.simps) (simp add: undec_def)
  qed
qed

lemma dec_nat_inject [simp]: "dec_nat m = dec_nat n \<longleftrightarrow> m = n"
  using undec_dec_nat by metis

lemma dec_inject [simp]: "dec (a :: 'a::len word) = dec b \<longleftrightarrow> a = b"
  by (simp add: dec_def word_unat_eq_iff)

section \<open>Generic facts on lists\<close>

lemma drop_append_length [simp]: "drop (length xs + n) (xs @ ys) = drop n ys"
  by simp

lemma nth_append_length_plus' [simp]: "(xs @ ys) ! (length xs + n) = ys ! n"
  by (simp add: nth_append)

lemma sum_list_filter_split:
  "(\<Sum>x\<leftarrow>xs. f x) = (\<Sum>x\<leftarrow>filter P xs. f x) + (\<Sum>x\<leftarrow>filter (\<lambda>x. \<not> P x) xs. f x :: nat)"
  by (induction xs) auto

lemma sum_list_update_nat:
  "i < length xs \<Longrightarrow> sum_list (xs[i := v]) + xs ! i = sum_list xs + (v :: nat)"
  by (induction xs arbitrary: i) (auto split: nat.splits)

lemma length_filter_id_update:
  "i < length ps \<Longrightarrow> \<not> ps ! i \<Longrightarrow>
   length (filter (\<lambda>p. p) (ps[i := True])) = Suc (length (filter (\<lambda>p. p) ps))"
  by (induction ps arbitrary: i) (auto split: nat.splits)

section \<open>Words as numbers\<close>

lemma unat_below: "unat (w :: 'a::len word) < 2 ^ LENGTH('a)"
  by (rule unsigned_less)

lemma unat_min_word: "unat (min a b) = min (unat a) (unat (b :: 'a::len word))"
  by (simp add: min_def word_le_nat_alt)

lemma unat_succ: "a < (b :: 'a::len word) \<Longrightarrow> unat (a + 1) = Suc (unat a)"
proof -
  assume "a < b"
  with unat_below [of b] have "Suc (unat a) < 2 ^ LENGTH('a)"
    by (simp only: word_less_nat_alt)
  then show ?thesis by (simp add: unat_word_ariths)
qed

section \<open>Exclusive or on words\<close>

lemma xor_cancel_right [simp]: "a XOR c = b XOR c \<longleftrightarrow> a = (b :: 'a::len word)"
proof
  assume "a XOR c = b XOR c"
  then have "(a XOR c) XOR c = (b XOR c) XOR c" by simp
  then show "a = b" by (simp add: xor.assoc)
qed simp

lemma xor_cancel_left [simp]: "c XOR a = c XOR b \<longleftrightarrow> a = (b :: 'a::len word)"
  using xor_cancel_right [of a c b] by (simp add: xor.commute)

section \<open>Runs of a state machine\<close>

text \<open>
  A component with state is a start state and one total step function over its calls; the
  invariant that every call keeps holds after every sequence of calls.
\<close>

locale state_machine =
  fixes init :: 's
    and step :: "'e \<Rightarrow> 's \<Rightarrow> 's"
    and inv :: "'s \<Rightarrow> bool"
  assumes inv_init: "inv init"
    and inv_step: "inv s \<Longrightarrow> inv (step e s)"
begin

lemma inv_run_from: "inv s \<Longrightarrow> inv (fold step es s)"
  by (induction es arbitrary: s) (auto intro: inv_step)

lemma inv_run: "inv (fold step es init)"
  by (rule inv_run_from [OF inv_init])

lemma inv_prefix_run: "prefix es es' \<Longrightarrow> inv (fold step es init)"
  by (rule inv_run)

end

text \<open>
  A component whose counter may wrap keeps its invariant only so long: the invariant carries the
  number of calls so far, and holds up to a limit for calls that are \<open>good\<close>.
\<close>

locale counted_machine =
  fixes init :: 's
    and step :: "'e \<Rightarrow> 's \<Rightarrow> 's"
    and inv :: "nat \<Rightarrow> 's \<Rightarrow> bool"
    and good :: "'e \<Rightarrow> bool"
    and limit :: nat
  assumes inv_init: "inv 0 init"
    and inv_step: "inv n s \<Longrightarrow> n < limit \<Longrightarrow> good e \<Longrightarrow> inv (Suc n) (step e s)"
begin

lemma inv_run: "length es \<le> limit \<Longrightarrow> \<forall>e \<in> set es. good e \<Longrightarrow> inv (length es) (fold step es init)"
proof (induction es rule: rev_induct)
  case (snoc e es)
  then show ?case by (simp add: inv_step)
qed (simp add: inv_init)

end

end
