(* ===== verification/Types.thy ===== *)
theory Types
  imports Prelude
begin

text \<open>
  The data model of \<open>include/aethon/protocol/types.hpp\<close>. Enumerations whose values are
  checked when they are decoded are datatypes. \<open>CompressionMode\<close> and \<open>EncryptionMode\<close>
  are cast from a raw byte without a check, so every byte is a value of these types and they
  are kept as bytes. A default-initialised struct is the constant \<open><name>_default\<close>.
\<close>

datatype protocol_version = V1 | V2 | V3

datatype packet_kind = PK_heartbeat | PK_observation | PK_spectrum | PK_control | PK_capabilities

type_synonym compression_mode = u8

definition CM_none :: compression_mode where "CM_none = 0"
definition CM_rle :: compression_mode where "CM_rle = 1"

type_synonym encryption_mode = u8

definition EM_none :: encryption_mode where "EM_none = 0"
definition EM_envelope :: encryption_mode where "EM_envelope = 1"

record fragment_info =
  fi_stream_id :: u32
  fi_sequence :: u16
  fi_count :: u16

record routing_info =
  ri_region :: u16
  ri_collector :: u16
  ri_priority :: u8
  ri_relay_path :: "u16 list"

definition routing_info_default :: routing_info where
  "routing_info_default = \<lparr>ri_region = 0, ri_collector = 0, ri_priority = 0, ri_relay_path = []\<rparr>"

record device_capabilities =
  dc_supports_compression :: bool
  dc_supports_encryption :: bool
  dc_has_gps_time :: bool
  dc_max_payload :: u16
  dc_sensor_bands :: "string list"

definition device_capabilities_default :: device_capabilities where
  "device_capabilities_default = \<lparr>dc_supports_compression = False, dc_supports_encryption = False,
     dc_has_gps_time = False, dc_max_payload = 4096, dc_sensor_bands = []\<rparr>"

record extension_header =
  eh_type :: u16
  eh_value :: bytes

record packet =
  p_version :: protocol_version
  p_kind :: packet_kind
  p_device :: device_id
  p_timestamp_ns :: u64
  p_sequence :: u32
  p_compression :: compression_mode
  p_encryption :: encryption_mode
  p_fragment :: "fragment_info option"
  p_route :: "routing_info option"
  p_capabilities :: "device_capabilities option"
  p_extensions :: "extension_header list"
  p_payload :: bytes

definition packet_default :: packet where
  "packet_default = \<lparr>p_version = V3, p_kind = PK_observation, p_device = 0, p_timestamp_ns = 0,
     p_sequence = 0, p_compression = CM_none, p_encryption = EM_none, p_fragment = None,
     p_route = None, p_capabilities = None, p_extensions = [], p_payload = []\<rparr>"

record negotiated_protocol =
  np_selected :: protocol_version
  np_compression :: bool
  np_encryption :: bool

text \<open>The numeric values of the scoped enumerations.\<close>

fun version_number :: "protocol_version \<Rightarrow> u8" where
  "version_number V1 = 1"
| "version_number V2 = 2"
| "version_number V3 = 3"

fun kind_number :: "packet_kind \<Rightarrow> u8" where
  "kind_number PK_heartbeat = 1"
| "kind_number PK_observation = 2"
| "kind_number PK_spectrum = 3"
| "kind_number PK_control = 4"
| "kind_number PK_capabilities = 5"

text \<open>The order on protocol versions that \<open>version >= ProtocolVersion::v2\<close> compares with.\<close>

instantiation protocol_version :: linorder
begin

definition less_eq_protocol_version :: "protocol_version \<Rightarrow> protocol_version \<Rightarrow> bool" where
  "less_eq_protocol_version a b \<longleftrightarrow> version_number a \<le> version_number b"

definition less_protocol_version :: "protocol_version \<Rightarrow> protocol_version \<Rightarrow> bool" where
  "less_protocol_version a b \<longleftrightarrow> version_number a < version_number b"

instance
proof
  fix x y :: protocol_version
  show "x \<le> y \<Longrightarrow> y \<le> x \<Longrightarrow> x = y"
    by (cases x; cases y) (simp_all add: less_eq_protocol_version_def word_le_nat_alt)
qed (auto simp: less_eq_protocol_version_def less_protocol_version_def)

end

end
