(* ===== verification/Binary.thy ===== *)
theory Binary
  imports Prelude
begin

text \<open>
  The bounds-checked little-endian cursor \<open>codec::BinaryReader\<close> and the append buffer
  \<open>codec::BinaryWriter\<close> (\<open>src/codec/binary_reader.cpp\<close>, \<open>src/codec/binary_writer.cpp\<close>).
  A reader operation maps the cursor to an error or a value with the moved cursor; a sequence
  of reads is \<open>rd_bind\<close>, which stops at the first exception. The locale \<open>codec\<close> is the
  contract between a writer and the reader that parses its output; it is interpreted here on
  the fixed-width integers and in the protocol theories on the packet sections.
\<close>

section \<open>BinaryReader\<close>

record binary_reader =
  br_data :: bytes
  br_offset :: nat

type_synonym 'a reader = "binary_reader \<Rightarrow> error + ('a \<times> binary_reader)"

definition br_init :: "bytes \<Rightarrow> binary_reader" where
  "br_init data = \<lparr>br_data = data, br_offset = 0\<rparr>"

definition br_remaining :: "binary_reader \<Rightarrow> nat" where
  "br_remaining r = length (br_data r) - br_offset r"

definition br_empty :: "binary_reader \<Rightarrow> bool" where
  "br_empty r \<longleftrightarrow> br_remaining r = 0"

definition rd_return :: "'a \<Rightarrow> 'a reader" where
  "rd_return x r = Inr (x, r)"

definition rd_fail :: "error \<Rightarrow> 'a reader" where
  "rd_fail e r = Inl e"

definition rd_bind :: "'a reader \<Rightarrow> ('a \<Rightarrow> 'b reader) \<Rightarrow> 'b reader" where
  "rd_bind p f r = (case p r of Inl e \<Rightarrow> Inl e | Inr (x, r') \<Rightarrow> f x r')"

definition br_require :: "nat \<Rightarrow> unit reader" where
  "br_require n r =
     (if br_remaining r < n then Inl (Error EC_eof ''binary reader reached end of input'')
      else Inr ((), r))"

definition br_u8 :: "u8 reader" where
  "br_u8 = rd_bind (br_require 1) (\<lambda>_ r.
     Inr (br_data r ! br_offset r, r\<lparr>br_offset := br_offset r + 1\<rparr>))"

definition br_u16 :: "u16 reader" where
  "br_u16 = rd_bind (br_require 2) (\<lambda>_ r.
     Inr (ucast (br_data r ! br_offset r) OR push_bit 8 (ucast (br_data r ! (br_offset r + 1))),
          r\<lparr>br_offset := br_offset r + 2\<rparr>))"

text \<open>The loops \<open>v |= data_[offset_ + i] << (8 * i)\<close> of \<open>u32\<close> and \<open>u64\<close>.\<close>

definition or_shifted :: "bytes \<Rightarrow> nat \<Rightarrow> nat \<Rightarrow> 'a::len word \<Rightarrow> 'a word" where
  "or_shifted data off i v = v OR push_bit (8 * i) (ucast (data ! (off + i)))"

definition br_u32 :: "u32 reader" where
  "br_u32 = rd_bind (br_require 4) (\<lambda>_ r.
     Inr (fold (or_shifted (br_data r) (br_offset r)) [0..<4] 0,
          r\<lparr>br_offset := br_offset r + 4\<rparr>))"

definition br_u64 :: "u64 reader" where
  "br_u64 = rd_bind (br_require 8) (\<lambda>_ r.
     Inr (fold (or_shifted (br_data r) (br_offset r)) [0..<8] 0,
          r\<lparr>br_offset := br_offset r + 8\<rparr>))"

definition br_bytes :: "nat \<Rightarrow> bytes reader" where
  "br_bytes n = rd_bind (br_require n) (\<lambda>_ r.
     Inr (take n (drop (br_offset r) (br_data r)), r\<lparr>br_offset := br_offset r + n\<rparr>))"

definition br_string :: "nat \<Rightarrow> string reader" where
  "br_string max_len = rd_bind br_u16 (\<lambda>n.
     if unat n > max_len
     then rd_fail (Error EC_malformed_packet ''string exceeds configured limit'')
     else rd_bind (br_bytes (unat n)) (\<lambda>raw. rd_return (map char_of_byte raw)))"

text \<open>A counted loop that pushes back one parsed element per iteration.\<close>

fun rd_repeat :: "nat \<Rightarrow> 'a reader \<Rightarrow> 'a list reader" where
  "rd_repeat 0 p = rd_return []"
| "rd_repeat (Suc n) p = rd_bind p (\<lambda>x. rd_bind (rd_repeat n p) (\<lambda>xs. rd_return (x # xs)))"

section \<open>BinaryWriter\<close>

type_synonym binary_writer = bytes

definition bw_u8 :: "u8 \<Rightarrow> binary_writer \<Rightarrow> binary_writer" where
  "bw_u8 value buffer = buffer @ [value]"

definition bw_u16 :: "u16 \<Rightarrow> binary_writer \<Rightarrow> binary_writer" where
  "bw_u16 value buffer = buffer @ [ucast (value AND 0xff), ucast (drop_bit 8 value AND 0xff)]"

definition byte_at :: "'a::len word \<Rightarrow> nat \<Rightarrow> u8" where
  "byte_at value i = ucast (drop_bit (8 * i) value AND 0xff)"

definition bw_u32 :: "u32 \<Rightarrow> binary_writer \<Rightarrow> binary_writer" where
  "bw_u32 value buffer = buffer @ map (byte_at value) [0..<4]"

definition bw_u64 :: "u64 \<Rightarrow> binary_writer \<Rightarrow> binary_writer" where
  "bw_u64 value buffer = buffer @ map (byte_at value) [0..<8]"

definition bw_bytes :: "bytes \<Rightarrow> binary_writer \<Rightarrow> binary_writer" where
  "bw_bytes value buffer = buffer @ value"

definition bw_string :: "string \<Rightarrow> binary_writer \<Rightarrow> error + binary_writer" where
  "bw_string value buffer =
     (if length value > 65535 then Inl (Error EC_invalid_argument ''wire string is too large'')
      else Inr (bw_u16 (of_nat (length value)) buffer @ map byte_of_char value))"

definition bw_take :: "binary_writer \<Rightarrow> bytes \<times> binary_writer" where
  "bw_take buffer = (buffer, [])"

text \<open>Sequencing of writer steps that may throw.\<close>

definition err_bind :: "error + 'a \<Rightarrow> ('a \<Rightarrow> error + 'b) \<Rightarrow> error + 'b" where
  "err_bind m f = (case m of Inl e \<Rightarrow> Inl e | Inr x \<Rightarrow> f x)"

lemma err_bind_simps [simp]:
  "err_bind (Inl e) f = Inl e"
  "err_bind (Inr x) f = f x"
  by (simp_all add: err_bind_def)

lemma err_bind_Inr_iff: "err_bind m f = Inr y \<longleftrightarrow> (\<exists>x. m = Inr x \<and> f x = Inr y)"
  by (cases m) auto

lemma err_bind_Inl_iff:
  "err_bind m f = Inl e \<longleftrightarrow> m = Inl e \<or> (\<exists>x. m = Inr x \<and> f x = Inl e)"
  by (cases m) auto

section \<open>The cursor as the bytes still ahead\<close>

definition br_rest :: "binary_reader \<Rightarrow> bytes" where
  "br_rest r = drop (br_offset r) (br_data r)"

definition br_advance :: "nat \<Rightarrow> binary_reader \<Rightarrow> binary_reader" where
  "br_advance n r = r\<lparr>br_offset := br_offset r + n\<rparr>"

lemma br_rest_init [simp]: "br_rest (br_init data) = data"
  by (simp add: br_rest_def br_init_def)

lemma br_rest_advance [simp]: "br_rest (br_advance n r) = drop n (br_rest r)"
  by (simp add: br_rest_def br_advance_def add.commute)

lemma br_advance_advance [simp]: "br_advance m (br_advance n r) = br_advance (n + m) r"
  by (simp add: br_advance_def)

lemma br_advance_0 [simp]: "br_advance 0 r = r"
  by (simp add: br_advance_def)

lemma br_remaining_rest: "br_remaining r = length (br_rest r)"
  by (simp add: br_remaining_def br_rest_def)

lemma br_empty_rest: "br_empty r \<longleftrightarrow> br_rest r = []"
  by (simp add: br_empty_def br_remaining_rest)

lemma br_rest_nth: "n < length (br_rest r) \<Longrightarrow> br_data r ! (br_offset r + n) = br_rest r ! n"
  by (simp add: br_rest_def)

lemma br_rest_nth0: "br_rest r \<noteq> [] \<Longrightarrow> br_data r ! br_offset r = br_rest r ! 0"
  using br_rest_nth [of 0 r] by simp

section \<open>The decoding contract\<close>

text \<open>
  \<open>decodes p bs x\<close>: wherever the bytes ahead start with \<open>bs\<close>, the reader \<open>p\<close> returns
  \<open>x\<close> and moves past exactly \<open>bs\<close>.
\<close>

definition decodes :: "'a reader \<Rightarrow> bytes \<Rightarrow> 'a \<Rightarrow> bool" where
  "decodes p bs x \<longleftrightarrow>
     (\<forall>r s. br_rest r = bs @ s \<longrightarrow> p r = Inr (x, br_advance (length bs) r))"

lemma decodesI:
  "(\<And>r s. br_rest r = bs @ s \<Longrightarrow> p r = Inr (x, br_advance (length bs) r)) \<Longrightarrow> decodes p bs x"
  by (simp add: decodes_def)

lemma decodesD:
  "decodes p bs x \<Longrightarrow> br_rest r = bs @ s \<Longrightarrow> p r = Inr (x, br_advance (length bs) r)"
  by (simp add: decodes_def)

lemma decodes_return: "decodes (rd_return x) [] x"
  by (simp add: decodes_def rd_return_def)

lemma decodes_bind:
  assumes "decodes p bs x" and "decodes (f x) cs y"
  shows "decodes (rd_bind p f) (bs @ cs) y"
proof (rule decodesI)
  fix r s
  assume r: "br_rest r = (bs @ cs) @ s"
  then have "p r = Inr (x, br_advance (length bs) r)"
    using decodesD [OF assms(1), of r "cs @ s"] by simp
  moreover have "br_rest (br_advance (length bs) r) = cs @ s"
    using r by simp
  then have "f x (br_advance (length bs) r) =
      Inr (y, br_advance (length cs) (br_advance (length bs) r))"
    by (rule decodesD [OF assms(2)])
  ultimately show "rd_bind p f r = Inr (y, br_advance (length (bs @ cs)) r)"
    by (simp add: rd_bind_def)
qed

lemma decodes_bind_eq:
  "decodes p bs x \<Longrightarrow> decodes (f x) cs y \<Longrightarrow> ds = bs @ cs \<Longrightarrow> decodes (rd_bind p f) ds y"
  by hypsubst (rule decodes_bind)

lemma decodes_bind_return:
  "decodes p bs x \<Longrightarrow> decodes (rd_bind p (\<lambda>x. rd_return (g x))) bs (g x)"
  by (rule decodes_bind_eq [OF _ decodes_return]) simp_all

locale codec =
  fixes enc :: "'a \<Rightarrow> bytes"
    and dec :: "'a reader"
    and ok :: "'a \<Rightarrow> bool"
  assumes roundtrip: "ok x \<Longrightarrow> decodes dec (enc x) x"
begin

lemma decode_prefix:
  "ok x \<Longrightarrow> dec (br_init (enc x @ s)) = Inr (x, br_advance (length (enc x)) (br_init (enc x @ s)))"
  by (rule decodesD [OF roundtrip, where s = s]) simp_all

text \<open>An encoding determines its value, and no encoding is a proper prefix of another.\<close>

lemma prefix_free:
  assumes "ok x" and "ok y" and "enc x @ s = enc y @ t"
  shows "x = y \<and> s = t"
proof -
  have "dec (br_init (enc x @ s)) = dec (br_init (enc y @ t))"
    using assms(3) by simp
  then have "x = y"
    using decode_prefix [OF assms(1), of s] decode_prefix [OF assms(2), of t] by simp
  with assms(3) show ?thesis by simp
qed

lemma enc_inject: "ok x \<Longrightarrow> ok y \<Longrightarrow> enc x = enc y \<Longrightarrow> x = y"
  using prefix_free [of x y "[]" "[]"] by simp

lemma repeat_roundtrip:
  "\<forall>x \<in> set xs. ok x \<Longrightarrow> decodes (rd_repeat (length xs) dec) (concat (map enc xs)) xs"
proof (induction xs)
  case Nil
  show ?case by (simp add: decodes_return)
next
  case (Cons x xs)
  then have "decodes dec (enc x) x"
    by (simp add: roundtrip)
  moreover have "decodes (rd_bind (rd_repeat (length xs) dec) (\<lambda>xs. rd_return (x # xs)))
      (concat (map enc xs)) (x # xs)"
    using Cons by (intro decodes_bind_return) simp
  ultimately have "decodes (rd_bind dec (\<lambda>x. rd_bind (rd_repeat (length xs) dec)
      (\<lambda>xs. rd_return (x # xs)))) (enc x @ concat (map enc xs)) (x # xs)"
    by (rule decodes_bind)
  then show ?case by simp
qed

lemma list_prefix_free:
  assumes "\<forall>x \<in> set xs. ok x" and "\<forall>y \<in> set ys. ok y"
    and "length xs = length ys" and "concat (map enc xs) = concat (map enc ys)"
  shows "xs = ys"
proof -
  let ?r = "br_init (concat (map enc xs))"
  have "rd_repeat (length xs) dec ?r = Inr (xs, br_advance (length (concat (map enc xs))) ?r)"
    by (rule decodesD [OF repeat_roundtrip [OF assms(1)], where s = "[]"]) simp
  moreover have "rd_repeat (length ys) dec ?r = Inr (ys, br_advance (length (concat (map enc ys))) ?r)"
    by (rule decodesD [OF repeat_roundtrip [OF assms(2)], where s = "[]"]) (simp add: assms(4))
  ultimately have "(Inr (xs, br_advance (length (concat (map enc xs))) ?r) :: error + _) =
      Inr (ys, br_advance (length (concat (map enc ys))) ?r)"
    unfolding assms(3) by (rule trans [OF sym])
  then show ?thesis by blast
qed

end

section \<open>Integers\<close>

lemma rd_bind_require:
  "n \<le> length (br_rest r) \<Longrightarrow> rd_bind (br_require n) f r = f () r"
  by (simp add: rd_bind_def br_require_def br_remaining_rest)

lemma rd_bind_require_short:
  "length (br_rest r) < n \<Longrightarrow>
   rd_bind (br_require n) f r = Inl (Error EC_eof ''binary reader reached end of input'')"
  by (simp add: rd_bind_def br_require_def br_remaining_rest)

lemma decodes_u8: "decodes br_u8 [v] v"
  by (rule decodesI)
    (simp add: br_u8_def rd_bind_require br_rest_nth0 br_advance_def)

lemma bit_mask_byte: "bit (0xff :: 'a::len word) n \<longleftrightarrow> n < 8 \<and> n < LENGTH('a)"
proof -
  have eq: "(0xff :: 'a word) = mask 8" by (simp add: mask_eq_exp_minus_1)
  show ?thesis by (subst eq) (auto simp: bit_mask_iff)
qed

lemma byte_mask: "ucast (w AND 0xff :: 'a::len word) = (ucast w :: u8)"
  by (rule bit_word_eqI) (auto simp: bit_simps bit_mask_byte simp del: bit_numeral_word_iff dest: bit_imp_le_length)

lemma bit_byte_at: "bit (byte_at v i) n \<longleftrightarrow> n < 8 \<and> bit v (8 * i + n)"
  by (auto simp: byte_at_def byte_mask bit_simps)

lemma upt4: "[0..<4] = [0, 1, 2, 3::nat]"
  by (simp add: upt_conv_Cons)

lemma upt8: "[0..<8] = [0, 1, 2, 3, 4, 5, 6, 7::nat]"
  by (simp add: upt_conv_Cons)

text \<open>
  The bytes written are the slices of the value, and or-ing the shifted slices rebuilds it:
  bit n of a partial join of i bytes is bit n of the value, for n below 8 * i.
\<close>

lemma bit_or_shifted_prefix:
  assumes "\<And>j. j < k \<Longrightarrow> data ! (off + j) = byte_at v j"
  shows "bit (fold (or_shifted data off) [0..<k] (0 :: 'a::len word)) n \<longleftrightarrow>
         n < 8 * k \<and> bit (v :: 'a word) n"
  using assms
proof (induction k)
  case (Suc k)
  have "fold (or_shifted data off) [0..<Suc k] (0 :: 'a word) =
      or_shifted data off k (fold (or_shifted data off) [0..<k] 0)"
    by simp
  moreover have "data ! (off + k) = byte_at v k"
    using Suc.prems by simp
  ultimately show ?case
    using Suc by (auto simp: or_shifted_def bit_simps bit_byte_at dest: bit_imp_le_length)
qed simp

lemma or_shifted_join:
  assumes "\<And>j. j < k \<Longrightarrow> data ! (off + j) = byte_at v j" and "LENGTH('a) \<le> 8 * k"
  shows "fold (or_shifted data off) [0..<k] (0 :: 'a::len word) = v"
proof (rule bit_word_eqI)
  fix n
  assume "n < LENGTH('a)"
  with assms(2) have "n < 8 * k" by simp
  then show "bit (fold (or_shifted data off) [0..<k] (0 :: 'a word)) n = bit v n"
    using bit_or_shifted_prefix [of k data off v n] assms(1) by simp
qed

lemma join_u16: "(ucast (ucast v :: u8) OR push_bit 8 (ucast (ucast (drop_bit 8 v) :: u8)) :: u16) = v"
  by (rule bit_word_eqI) (auto simp: bit_simps)

lemma decodes_u16: "decodes br_u16 (bw_u16 v []) v"
proof (rule decodesI)
  fix r s
  assume r: "br_rest r = bw_u16 v [] @ s"
  then have b: "br_data r ! br_offset r = ucast v" "br_data r ! Suc (br_offset r) = ucast (drop_bit 8 v)"
    using br_rest_nth [of 0 r] br_rest_nth [of 1 r] by (simp_all add: bw_u16_def byte_mask)
  show "br_u16 r = Inr (v, br_advance (length (bw_u16 v [])) r)"
    using r by (simp add: br_u16_def rd_bind_require bw_u16_def b join_u16 br_advance_def)
qed

lemma le_bytes_ahead:
  assumes "br_rest r = map (byte_at v) [0..<k] @ s" and "j < k"
  shows "br_data r ! (br_offset r + j) = byte_at v j"
  using assms br_rest_nth [of j r] by (simp add: nth_append)

lemma decodes_u32: "decodes br_u32 (bw_u32 v []) v"
proof (rule decodesI)
  fix r s
  assume "br_rest r = bw_u32 v [] @ s"
  then have r: "br_rest r = map (byte_at v) [0..<4] @ s"
    by (simp add: bw_u32_def)
  have "fold (or_shifted (br_data r) (br_offset r)) [0..<4] 0 = v"
    by (rule or_shifted_join [OF le_bytes_ahead [OF r]]) simp_all
  with r show "br_u32 r = Inr (v, br_advance (length (bw_u32 v [])) r)"
    by (simp add: br_u32_def rd_bind_require bw_u32_def br_advance_def)
qed

lemma decodes_u64: "decodes br_u64 (bw_u64 v []) v"
proof (rule decodesI)
  fix r s
  assume "br_rest r = bw_u64 v [] @ s"
  then have r: "br_rest r = map (byte_at v) [0..<8] @ s"
    by (simp add: bw_u64_def)
  have "fold (or_shifted (br_data r) (br_offset r)) [0..<8] 0 = v"
    by (rule or_shifted_join [OF le_bytes_ahead [OF r]]) simp_all
  with r show "br_u64 r = Inr (v, br_advance (length (bw_u64 v [])) r)"
    by (simp add: br_u64_def rd_bind_require bw_u64_def br_advance_def)
qed

lemma decodes_bytes: "n = length bs \<Longrightarrow> decodes (br_bytes n) bs bs"
  by (rule decodesI)
    (simp add: br_bytes_def rd_bind_require br_advance_def flip: br_rest_def)

interpretation u8_codec: codec "\<lambda>v. [v]" br_u8 "\<lambda>_. True"
  by unfold_locales (rule decodes_u8)

interpretation u16_codec: codec "\<lambda>v. bw_u16 v []" br_u16 "\<lambda>_. True"
  by unfold_locales (rule decodes_u16)

interpretation u32_codec: codec "\<lambda>v. bw_u32 v []" br_u32 "\<lambda>_. True"
  by unfold_locales (rule decodes_u32)

interpretation u64_codec: codec "\<lambda>v. bw_u64 v []" br_u64 "\<lambda>_. True"
  by unfold_locales (rule decodes_u64)

text \<open>A length-prefixed string: the writer's output without the error layer.\<close>

definition string_bytes :: "string \<Rightarrow> bytes" where
  "string_bytes s = bw_u16 (of_nat (length s)) [] @ map byte_of_char s"

lemma bw_string_ok: "length s \<le> 65535 \<Longrightarrow> bw_string s w = Inr (w @ string_bytes s)"
  by (simp add: bw_string_def string_bytes_def bw_u16_def)

lemma decodes_string:
  assumes "length s \<le> max_len" and "length s \<le> 65535"
  shows "decodes (br_string max_len) (string_bytes s) s"
proof -
  let ?n = "of_nat (length s) :: u16"
  have n: "unat ?n = length s"
    using assms(2) by (simp add: unat_of_nat_u16)
  have "decodes (rd_bind (br_bytes (unat ?n)) (\<lambda>raw. rd_return (map char_of_byte raw)))
      (map byte_of_char s) (map char_of_byte (map byte_of_char s))"
    by (intro decodes_bind_return decodes_bytes) (simp add: n)
  then have body: "decodes (rd_bind (br_bytes (unat ?n)) (\<lambda>raw. rd_return (map char_of_byte raw)))
      (map byte_of_char s) s"
    by simp
  show ?thesis
    unfolding br_string_def string_bytes_def
    by (rule decodes_bind [OF decodes_u16]) (use assms(1) body n in simp)
qed

interpretation string_codec: codec string_bytes "br_string max_len"
  "\<lambda>s. length s \<le> max_len \<and> length s \<le> 65535" for max_len
  by unfold_locales (simp add: decodes_string)

section \<open>Progress and safety of the reader\<close>

text \<open>
  \<open>rd_safe p\<close>: a successful read keeps the data and only moves the cursor forward,
  never past the end. Every read the code performs is bounds checked.
\<close>

definition rd_safe :: "'a reader \<Rightarrow> bool" where
  "rd_safe p \<longleftrightarrow>
     (\<forall>r x r'. p r = Inr (x, r') \<longrightarrow> br_offset r \<le> length (br_data r) \<longrightarrow>
        br_data r' = br_data r \<and> br_offset r \<le> br_offset r' \<and> br_offset r' \<le> length (br_data r))"

lemma rd_safeD:
  "rd_safe p \<Longrightarrow> p r = Inr (x, r') \<Longrightarrow> br_offset r \<le> length (br_data r) \<Longrightarrow>
   br_data r' = br_data r \<and> br_offset r \<le> br_offset r' \<and> br_offset r' \<le> length (br_data r)"
  unfolding rd_safe_def by blast

lemma rd_safe_return [simp]: "rd_safe (rd_return x)"
  by (simp add: rd_safe_def rd_return_def)

lemma rd_safe_fail [simp]: "rd_safe (rd_fail e)"
  by (simp add: rd_safe_def rd_fail_def)

lemma rd_safe_bind: "rd_safe p \<Longrightarrow> (\<And>x. rd_safe (f x)) \<Longrightarrow> rd_safe (rd_bind p f)"
proof -
  assume p: "rd_safe p" and f: "\<And>x. rd_safe (f x)"
  show "rd_safe (rd_bind p f)"
    unfolding rd_safe_def
  proof (intro allI impI)
    fix r y r''
    assume run: "rd_bind p f r = Inr (y, r'')" and off: "br_offset r \<le> length (br_data r)"
    from run obtain x r' where 1: "p r = Inr (x, r')" and 2: "f x r' = Inr (y, r'')"
      by (auto simp: rd_bind_def split: sum.splits)
    from rd_safeD [OF p 1 off] rd_safeD [OF f 2]
    show "br_data r'' = br_data r \<and> br_offset r \<le> br_offset r'' \<and> br_offset r'' \<le> length (br_data r)"
      by simp
  qed
qed

lemma rd_safe_step:
  "rd_safe (rd_bind (br_require n) (\<lambda>_ r. Inr (g r, r\<lparr>br_offset := br_offset r + n\<rparr>)))"
  by (auto simp: rd_safe_def rd_bind_def br_require_def br_remaining_def split: if_splits)

lemma rd_safe_prims [simp]:
  "rd_safe br_u8" "rd_safe br_u16" "rd_safe br_u32" "rd_safe br_u64" "rd_safe (br_bytes n)"
  unfolding br_u8_def br_u16_def br_u32_def br_u64_def br_bytes_def by (rule rd_safe_step)+

lemma rd_safe_string [simp]: "rd_safe (br_string n)"
  unfolding br_string_def by (auto intro!: rd_safe_bind)

lemma rd_safe_repeat: "rd_safe p \<Longrightarrow> rd_safe (rd_repeat n p)"
  by (induction n) (auto intro!: rd_safe_bind)

lemma br_u8_remaining: "br_u8 r = Inr (x, r') \<Longrightarrow> Suc (br_remaining r') = br_remaining r"
  by (auto simp: br_u8_def rd_bind_def br_require_def br_remaining_def split: if_splits)

lemma br_u16_remaining: "br_u16 r = Inr (x, r') \<Longrightarrow> br_remaining r' + 2 = br_remaining r"
  by (auto simp: br_u16_def rd_bind_def br_require_def br_remaining_def split: if_splits)

lemma br_bytes_remaining: "br_bytes n r = Inr (x, r') \<Longrightarrow> br_remaining r' + n = br_remaining r"
  by (auto simp: br_bytes_def rd_bind_def br_require_def br_remaining_def split: if_splits)

lemma br_bytes_length: "br_bytes n r = Inr (x, r') \<Longrightarrow> length x = n"
  by (auto simp: br_bytes_def rd_bind_def br_require_def br_remaining_def split: if_splits)

section \<open>Writer lemmas\<close>

lemma bw_append:
  "bw_u8 a w = w @ [a]"
  "bw_u16 b w = w @ bw_u16 b []"
  "bw_u32 c w = w @ bw_u32 c []"
  "bw_u64 d w = w @ bw_u64 d []"
  "bw_bytes bs w = w @ bs"
  by (simp_all add: bw_u8_def bw_u16_def bw_u32_def bw_u64_def bw_bytes_def)

lemma length_bw [simp]:
  "length (bw_u16 b []) = 2" "length (bw_u32 c []) = 4" "length (bw_u64 d []) = 8"
  by (simp_all add: bw_u16_def bw_u32_def bw_u64_def)

lemma length_string_bytes [simp]: "length (string_bytes s) = 2 + length s"
  by (simp add: string_bytes_def)

end
