(* ===== verification/Crc.thy ===== *)
theory Crc
  imports Binary
begin

text \<open>
  The checksums of \<open>src/codec/crc.cpp\<close>. The CRC-32C register step is linear over XOR and
  injective, and four bytes of input fit the register, so two messages of equal length that
  differ inside a window of at most four bytes have different checksums. The locale
  \<open>framed_checksum\<close> states this as the contract that the packet decoder and the archive
  reader rely on: a message followed by its little-endian checksum.
\<close>

section \<open>Definitions\<close>

definition crc16_bit :: "u16 \<Rightarrow> u16" where
  "crc16_bit crc =
     (if crc AND 0x8000 \<noteq> 0 then push_bit 1 crc XOR 0x1021 else push_bit 1 crc)"

definition crc16_byte :: "u16 \<Rightarrow> u8 \<Rightarrow> u16" where
  "crc16_byte crc byte = (crc16_bit ^^ 8) (crc XOR push_bit 8 (ucast byte))"

definition crc16_ccitt :: "bytes \<Rightarrow> u16 \<Rightarrow> u16" where
  "crc16_ccitt data seed = foldl crc16_byte seed data"

definition crc32c_bit :: "u32 \<Rightarrow> u32" where
  "crc32c_bit crc = drop_bit 1 crc XOR (0x82f63b78 AND (0 - (crc AND 1)))"

definition crc32c_byte :: "u32 \<Rightarrow> u8 \<Rightarrow> u32" where
  "crc32c_byte crc byte = (crc32c_bit ^^ 8) (crc XOR ucast byte)"

definition crc32c_seed :: "bytes \<Rightarrow> u32 \<Rightarrow> u32" where
  "crc32c_seed data seed = NOT (foldl crc32c_byte (NOT seed) data)"

text \<open>The default argument \<open>seed = 0xffffffff\<close>, the only seed the program uses.\<close>

definition crc32c :: "bytes \<Rightarrow> u32" where
  "crc32c data = crc32c_seed data 0xffffffff"

section \<open>The register step\<close>

lemma crc32c_bit_alt: "crc32c_bit c = drop_bit 1 c XOR (if bit c 0 then 0x82f63b78 else 0)"
proof -
  have "c AND 1 = (if bit c 0 then 1 else 0)"
    by (simp add: and_one_eq bit_0 odd_iff_mod_2_eq_one mod2_eq_if)
  then show ?thesis
    by (simp add: crc32c_bit_def)
qed

lemma crc32c_bit_xor: "crc32c_bit (a XOR b) = crc32c_bit a XOR crc32c_bit b"
  by (simp add: crc32c_bit_alt drop_bit_xor bit_xor_iff ac_simps)

lemma crc32c_bit_0 [simp]: "crc32c_bit 0 = 0"
  by (simp add: crc32c_bit_alt)

lemma crc32c_bit_eq_0: "crc32c_bit c = 0 \<Longrightarrow> c = 0"
proof -
  assume 0: "crc32c_bit c = 0"
  have low: "\<not> bit c 0"
  proof
    assume "bit c 0"
    moreover have "\<not> bit c 32" using bit_imp_le_length [of c 32] by auto
    ultimately have "bit (crc32c_bit c) 31"
      by (simp add: crc32c_bit_alt bit_simps)
    with 0 show False by simp
  qed
  with 0 have hi: "drop_bit 1 c = 0"
    by (simp add: crc32c_bit_alt)
  show "c = 0"
  proof (rule bit_word_eqI)
    fix n
    show "bit c n = bit 0 n"
    proof (cases n)
      case 0
      with low show ?thesis by simp
    next
      case (Suc m)
      have "bit c n = bit (drop_bit 1 c) m" using Suc by (simp add: bit_drop_bit_eq)
      then show ?thesis unfolding hi by simp
    qed
  qed
qed

lemma crc32c_bits_xor: "(crc32c_bit ^^ n) (a XOR b) = (crc32c_bit ^^ n) a XOR (crc32c_bit ^^ n) b"
  by (induction n) (simp_all add: crc32c_bit_xor)

lemma crc32c_bits_0 [simp]: "(crc32c_bit ^^ n) 0 = 0"
  by (induction n) simp_all

lemma crc32c_bits_inject [simp]: "(crc32c_bit ^^ n) a = (crc32c_bit ^^ n) b \<longleftrightarrow> a = b"
proof (induction n)
  case (Suc n)
  have "crc32c_bit x = crc32c_bit y \<longleftrightarrow> x = y" for x y
  proof
    assume "crc32c_bit x = crc32c_bit y"
    then have "crc32c_bit (x XOR y) = 0" by (simp add: crc32c_bit_xor)
    then have "x XOR y = 0" by (rule crc32c_bit_eq_0)
    then have "(x XOR y) XOR y = y" by simp
    then show "x = y" by (simp add: xor.assoc)
  qed simp
  with Suc show ?case by simp
qed simp

lemma crc32c_byte_inject_state: "crc32c_byte s b = crc32c_byte t b \<longleftrightarrow> s = t"
  unfolding crc32c_byte_def crc32c_bits_inject by (rule xor_cancel_right)

lemma crc32c_fold_inject: "foldl crc32c_byte s ys = foldl crc32c_byte t ys \<longleftrightarrow> s = t"
  by (induction ys arbitrary: s t) (simp_all add: crc32c_byte_inject_state)

section \<open>Up to four bytes at once\<close>

fun pack :: "bytes \<Rightarrow> u32" where
  "pack [] = 0"
| "pack (b # bs) = ucast b XOR push_bit 8 (pack bs)"

lemma bit_pack:
  "length bs \<le> 4 \<Longrightarrow> bit (pack bs) n \<longleftrightarrow> n div 8 < length bs \<and> bit (bs ! (n div 8)) (n mod 8)"
proof (induction bs arbitrary: n)
  case (Cons b bs)
  show ?case
  proof (cases "n < 8")
    case True
    then show ?thesis by (simp add: bit_simps)
  next
    case False
    then have n: "n = 8 + (n - 8)" by simp
    have d: "n div 8 = Suc ((n - 8) div 8)" "n mod 8 = (n - 8) mod 8"
      using False by (simp_all add: le_div_geq le_mod_geq)
    have "bit (pack (b # bs)) n \<longleftrightarrow> n < 32 \<and> bit (pack bs) (n - 8)"
      using False by (auto simp: bit_simps dest: bit_imp_le_length)
    also have "\<dots> \<longleftrightarrow> (n - 8) div 8 < length bs \<and> bit (bs ! ((n - 8) div 8)) ((n - 8) mod 8)"
      using Cons.IH [of "n - 8"] Cons.prems by (auto simp: less_eq_div_iff_mult_less_eq)
    finally show ?thesis by (simp add: d)
  qed
qed simp

lemma pack_bit_bound: "length bs \<le> 4 \<Longrightarrow> bit (pack bs) n \<Longrightarrow> n < 8 * length bs"
  by (simp add: bit_pack less_mult_imp_div_less) (simp add: div_less_iff_less_mult mult.commute)

lemma pack_inject:
  assumes "length bs = length cs" and "length bs \<le> 4" and "pack bs = pack cs"
  shows "bs = cs"
proof (rule nth_equalityI [OF assms(1)])
  fix i
  assume i: "i < length bs"
  show "bs ! i = cs ! i"
  proof (rule bit_word_eqI)
    fix j
    assume "j < LENGTH(8)"
    then have j: "j mod 8 = j" "(8 * i + j) div 8 = i" "(8 * i + j) mod 8 = j" by simp_all
    have "bit (pack bs) (8 * i + j) = bit (pack cs) (8 * i + j)"
      by (simp add: assms(3))
    then show "bit (bs ! i) j = bit (cs ! i) j"
      using assms(1,2) i by (simp add: bit_pack j)
  qed
qed

lemma crc32c_bit_shift:
  assumes "\<And>n. bit x n \<Longrightarrow> n + Suc m < 32"
  shows "crc32c_bit (push_bit (Suc m) x) = push_bit m x"
proof -
  have "drop_bit 1 (push_bit (Suc m) x) = push_bit m x"
  proof (rule bit_word_eqI)
    fix n
    assume "n < LENGTH(32)"
    show "bit (drop_bit 1 (push_bit (Suc m) x)) n = bit (push_bit m x) n"
    proof (cases "m \<le> n \<and> bit x (n - m)")
      case True
      with assms [of "n - m"] have "Suc n < 32" by simp
      with True show ?thesis
        by (simp add: bit_drop_bit_eq bit_push_bit_iff del: push_bit_Suc)
    next
      case False
      then show ?thesis
        by (auto simp: bit_drop_bit_eq bit_push_bit_iff simp del: push_bit_Suc)
    qed
  qed
  moreover have "\<not> bit (push_bit (Suc m) x) 0"
    by (simp add: bit_push_bit_iff del: push_bit_Suc)
  ultimately show ?thesis by (simp add: crc32c_bit_alt del: push_bit_Suc)
qed

lemma crc32c_bits_shift:
  "(\<And>n. bit x n \<Longrightarrow> n + m < 32) \<Longrightarrow> (crc32c_bit ^^ m) (push_bit m x) = x"
proof (induction m)
  case (Suc m)
  have "(crc32c_bit ^^ Suc m) (push_bit (Suc m) x) = (crc32c_bit ^^ m) (crc32c_bit (push_bit (Suc m) x))"
    by (simp add: funpow_swap1)
  also have "\<dots> = (crc32c_bit ^^ m) (push_bit m x)"
    using Suc.prems by (simp add: crc32c_bit_shift del: push_bit_Suc)
  also have "\<dots> = x"
    using Suc.prems by (intro Suc.IH) fastforce
  finally show ?case .
qed simp

lemma crc32c_fold_pack:
  "length bs \<le> 4 \<Longrightarrow> foldl crc32c_byte s bs = (crc32c_bit ^^ (8 * length bs)) (s XOR pack bs)"
proof (induction bs arbitrary: s)
  case (Cons b bs)
  let ?L = "crc32c_bit ^^ (8 * length bs)"
  have shift: "(crc32c_bit ^^ 8) (push_bit 8 (pack bs)) = pack bs"
  proof (rule crc32c_bits_shift)
    fix n
    assume "bit (pack bs) n"
    then have "n < 8 * length bs" using Cons.prems by (intro pack_bit_bound) simp
    with Cons.prems show "n + 8 < 32" by simp
  qed
  have "foldl crc32c_byte s (b # bs) = ?L ((crc32c_bit ^^ 8) (s XOR ucast b) XOR pack bs)"
    using Cons.IH [of "crc32c_byte s b"] Cons.prems by (simp add: crc32c_byte_def [of s b])
  also have "\<dots> = ?L ((crc32c_bit ^^ 8) (s XOR pack (b # bs)))"
    by (simp add: crc32c_bits_xor shift ac_simps)
  also have "\<dots> = (crc32c_bit ^^ (8 * length (b # bs))) (s XOR pack (b # bs))"
    using funpow_add [of "8 * length bs" 8 crc32c_bit] by (simp add: add.commute)
  finally show ?case .
qed simp

lemma bit_ones_u32: "bit (0xffffffff :: u32) n \<longleftrightarrow> n < 32"
proof -
  have eq: "(0xffffffff :: u32) = mask 32" by (simp add: mask_eq_exp_minus_1)
  show ?thesis by (subst eq) (auto simp: bit_mask_iff)
qed

lemma crc32c_fold: "crc32c data = NOT (foldl crc32c_byte 0 data)"
proof -
  have "bit (NOT (0xffffffff :: u32)) n = bit 0 n" if "n < LENGTH(32)" for n
    using that unfolding bit_not_iff bit_ones_u32 by simp
  then have "NOT (0xffffffff :: u32) = 0" by (rule bit_word_eqI)
  then show ?thesis by (simp only: crc32c_def crc32c_seed_def)
qed

lemma crc32c_burst:
  assumes "length w = length w'" and "length w \<le> 4"
    and "crc32c (xs @ w @ ys) = crc32c (xs @ w' @ ys)"
  shows "w = w'"
proof -
  let ?s = "foldl crc32c_byte 0 xs"
  from assms(3) have "foldl crc32c_byte ?s w = foldl crc32c_byte ?s w'"
    by (simp add: crc32c_fold crc32c_fold_inject)
  then have "?s XOR pack w = ?s XOR pack w'"
    using assms(1,2) by (simp add: crc32c_fold_pack)
  then have "pack w = pack w'"
    by (rule xor_cancel_left [THEN iffD1])
  with assms(1,2) show ?thesis by (rule pack_inject)
qed

section \<open>The checksum trailer\<close>

lemma pack_le_bytes: "pack (bw_u32 v []) = v"
proof (rule bit_word_eqI)
  fix n
  assume "n < LENGTH(32)"
  then have "n div 8 < 4" by simp
  then have "bw_u32 v [] ! (n div 8) = byte_at v (n div 8)"
    by (simp add: bw_u32_def)
  with \<open>n div 8 < 4\<close> show "bit (pack (bw_u32 v [])) n = bit v n"
    by (simp add: bit_pack bit_byte_at)
qed

definition crc32c_residue :: u32 where
  "crc32c_residue = NOT ((crc32c_bit ^^ 32) (NOT 0))"

lemma crc32c_trailer: "crc32c (m @ bw_u32 (crc32c m) []) = crc32c_residue"
proof -
  let ?s = "foldl crc32c_byte 0 m"
  have "foldl crc32c_byte ?s (bw_u32 (crc32c m) []) = (crc32c_bit ^^ 32) (?s XOR crc32c m)"
    by (simp add: crc32c_fold_pack pack_le_bytes)
  also have "?s XOR crc32c m = NOT 0"
    by (simp add: crc32c_fold)
  finally show ?thesis
    by (simp add: crc32c_fold [of "m @ _"] crc32c_residue_def)
qed

locale framed_checksum =
  fixes sum :: "bytes \<Rightarrow> 'c"
    and trailer :: "'c \<Rightarrow> bytes"
    and residue :: 'c
    and window :: nat
  assumes trailer_residue: "sum (m @ trailer (sum m)) = residue"
    and burst: "length w = length w' \<Longrightarrow> length w \<le> window \<Longrightarrow>
      sum (xs @ w @ ys) = sum (xs @ w' @ ys) \<Longrightarrow> w = w'"
begin

text \<open>A frame is intact when it ends in the checksum of what precedes it.\<close>

definition intact :: "bytes \<Rightarrow> bool" where
  "intact f \<longleftrightarrow> (\<exists>m. f = m @ trailer (sum m))"

lemma intact_residue: "intact f \<Longrightarrow> sum f = residue"
  by (auto simp: intact_def trailer_residue)

text \<open>Two intact frames never differ inside one window, trailer included.\<close>

lemma no_burst:
  assumes "intact (xs @ w @ ys)" and "intact (xs @ w' @ ys)"
    and "length w = length w'" and "length w \<le> window"
  shows "w = w'"
proof (rule burst [OF assms(3,4)])
  show "sum (xs @ w @ ys) = sum (xs @ w' @ ys)"
    using assms(1,2) by (simp add: intact_residue)
qed

end

interpretation crc32c_frame: framed_checksum crc32c "\<lambda>c. bw_u32 c []" crc32c_residue 4
  by unfold_locales (auto intro: crc32c_trailer crc32c_burst)

section \<open>The effective initial register\<close>

text \<open>
  The default seed is complemented before use, so the register starts at zero, not at all
  ones as in CRC-32C: bytes of value zero in front of a message leave the checksum unchanged.
\<close>

lemma crc32c_zero_step [simp]: "crc32c_byte 0 0 = 0"
  by (simp add: crc32c_byte_def)

section \<open>Properties\<close>

text \<open>
  The checksum register starts at zero instead of all ones, so the checksum of a message
  does not change when bytes of value zero are put in front of it.
\<close>

theorem crc32c_leading_zeros: "crc32c (replicate n 0 @ m) = crc32c m"
proof -
  have "foldl crc32c_byte 0 (replicate n 0) = 0" by (induction n) simp_all
  then show ?thesis by (simp add: crc32c_fold)
qed

end
