(* ===== verification/Packet.thy ===== *)
theory Packet
  imports Types Binary Crc
begin

text \<open>
  Packet frames: \<open>src/protocol/packet.cpp\<close>. A frame is magic, body length, body and CRC; the
  body holds the fixed header, a length-prefixed run of typed sections closed by a zero byte,
  and the length-prefixed payload.
\<close>

section \<open>Options and enumerations\<close>

definition packet_magic :: u32 where
  "packet_magic = 0x4e485441"

record decode_options =
  max_packet_size :: nat
  require_known_extensions :: bool

definition decode_options_default :: decode_options where
  "decode_options_default = \<lparr>max_packet_size = 1024 * 1024, require_known_extensions = False\<rparr>"

definition fragment_section :: u8 where "fragment_section = 1"
definition route_section :: u8 where "route_section = 2"
definition capabilities_section :: u8 where "capabilities_section = 3"
definition extension_section :: u8 where "extension_section = 4"

lemmas section_ids = fragment_section_def route_section_def capabilities_section_def extension_section_def

definition version_from :: "u8 \<Rightarrow> error + protocol_version" where
  "version_from raw =
     (if raw < 1 \<or> raw > 3 then Inl (Error EC_unsupported_version ''unsupported protocol version'')
      else Inr (if raw = 1 then V1 else if raw = 2 then V2 else V3))"

definition kind_from :: "u8 \<Rightarrow> error + packet_kind" where
  "kind_from raw =
     (if raw < 1 \<or> raw > 5 then Inl (Error EC_malformed_packet ''unknown packet kind'')
      else Inr (if raw = 1 then PK_heartbeat else if raw = 2 then PK_observation
                else if raw = 3 then PK_spectrum else if raw = 4 then PK_control
                else PK_capabilities))"

definition rd_lift :: "error + 'a \<Rightarrow> 'a reader" where
  "rd_lift m r = (case m of Inl e \<Rightarrow> Inl e | Inr x \<Rightarrow> Inr (x, r))"

section \<open>Section bodies\<close>

definition write_fragment :: "fragment_info \<Rightarrow> binary_writer \<Rightarrow> binary_writer" where
  "write_fragment f w = bw_u16 (fi_count f) (bw_u16 (fi_sequence f) (bw_u32 (fi_stream_id f) w))"

definition read_fragment :: "fragment_info reader" where
  "read_fragment =
     rd_bind br_u32 (\<lambda>stream_id. rd_bind br_u16 (\<lambda>sequence. rd_bind br_u16 (\<lambda>count.
       if count = 0 \<or> sequence \<ge> count
       then rd_fail (Error EC_malformed_packet ''invalid fragment coordinates'')
       else rd_return \<lparr>fi_stream_id = stream_id, fi_sequence = sequence, fi_count = count\<rparr>)))"

definition write_route :: "routing_info \<Rightarrow> binary_writer \<Rightarrow> error + binary_writer" where
  "write_route route w =
     (let w = bw_u8 (ri_priority route) (bw_u16 (ri_collector route) (bw_u16 (ri_region route) w))
      in if length (ri_relay_path route) > 32
         then Inl (Error EC_invalid_argument ''relay path is too deep'')
         else Inr (fold bw_u16 (ri_relay_path route)
                    (bw_u8 (of_nat (length (ri_relay_path route))) w)))"

definition read_route :: "routing_info reader" where
  "read_route =
     rd_bind br_u16 (\<lambda>region. rd_bind br_u16 (\<lambda>collector. rd_bind br_u8 (\<lambda>priority.
     rd_bind br_u8 (\<lambda>hops.
       if hops > 32 then rd_fail (Error EC_malformed_packet ''relay path is too deep'')
       else rd_bind (rd_repeat (unat hops) br_u16) (\<lambda>path.
         rd_return \<lparr>ri_region = region, ri_collector = collector, ri_priority = priority,
                    ri_relay_path = path\<rparr>)))))"

definition capability_flags :: "device_capabilities \<Rightarrow> u8" where
  "capability_flags caps =
     ((if dc_supports_compression caps then 1 else 0) OR
      (if dc_supports_encryption caps then 2 else 0)) OR
      (if dc_has_gps_time caps then 4 else 0)"

fun write_bands :: "string list \<Rightarrow> binary_writer \<Rightarrow> error + binary_writer" where
  "write_bands [] w = Inr w"
| "write_bands (band # bands) w = err_bind (bw_string band w) (write_bands bands)"

definition write_capabilities :: "device_capabilities \<Rightarrow> binary_writer \<Rightarrow> error + binary_writer" where
  "write_capabilities caps w =
     (let w = bw_u16 (dc_max_payload caps) (bw_u8 (capability_flags caps) w)
      in if length (dc_sensor_bands caps) > 16
         then Inl (Error EC_invalid_argument ''too many sensor bands'')
         else write_bands (dc_sensor_bands caps) (bw_u8 (of_nat (length (dc_sensor_bands caps))) w))"

definition read_capabilities :: "device_capabilities reader" where
  "read_capabilities =
     rd_bind br_u8 (\<lambda>flags. rd_bind br_u16 (\<lambda>max_payload. rd_bind br_u8 (\<lambda>count.
       if count > 16 then rd_fail (Error EC_malformed_packet ''too many bands'')
       else rd_bind (rd_repeat (unat count) (br_string 64)) (\<lambda>bands.
         rd_return \<lparr>dc_supports_compression = (flags AND 1 \<noteq> 0),
                    dc_supports_encryption = (flags AND 2 \<noteq> 0),
                    dc_has_gps_time = (flags AND 4 \<noteq> 0),
                    dc_max_payload = max_payload, dc_sensor_bands = bands\<rparr>))))"

definition write_extension :: "extension_header \<Rightarrow> binary_writer \<Rightarrow> binary_writer" where
  "write_extension ext w =
     bw_bytes (eh_value ext) (bw_u16 (of_nat (length (eh_value ext))) (bw_u16 (eh_type ext) w))"

definition read_extension :: "extension_header reader" where
  "read_extension =
     rd_bind br_u16 (\<lambda>type. rd_bind br_u16 (\<lambda>size. rd_bind (br_bytes (unat size)) (\<lambda>value.
       rd_return \<lparr>eh_type = type, eh_value = value\<rparr>)))"

definition write_section :: "u8 \<Rightarrow> bytes \<Rightarrow> binary_writer \<Rightarrow> error + binary_writer" where
  "write_section sid section out =
     (if length section > 65535
      then Inl (Error EC_invalid_argument ''packet section exceeds wire limit'')
      else Inr (bw_bytes section (bw_u16 (of_nat (length section)) (bw_u8 sid out))))"

section \<open>The section run\<close>

fun write_extensions :: "extension_header list \<Rightarrow> binary_writer \<Rightarrow> error + binary_writer" where
  "write_extensions [] out = Inr out"
| "write_extensions (ext # exts) out =
     err_bind (write_section extension_section (write_extension ext []) out) (write_extensions exts)"

definition encode_payload_sections :: "packet \<Rightarrow> error + bytes" where
  "encode_payload_sections p =
     err_bind (case p_fragment p of None \<Rightarrow> Inr []
               | Some f \<Rightarrow> write_section fragment_section (write_fragment f []) []) (\<lambda>out.
     err_bind (case p_route p of None \<Rightarrow> Inr out
               | Some route \<Rightarrow> err_bind (write_route route []) (\<lambda>s. write_section route_section s out)) (\<lambda>out.
     err_bind (case p_capabilities p of None \<Rightarrow> Inr out
               | Some caps \<Rightarrow> err_bind (write_capabilities caps []) (\<lambda>s. write_section capabilities_section s out)) (\<lambda>out.
     err_bind (write_extensions (p_extensions p) out) (\<lambda>out.
       Inr (bw_u8 0 out)))))"

text \<open>The switch on the section id; \<open>section\<close> is the reader over the section's bytes.\<close>

definition decode_section :: "decode_options \<Rightarrow> u8 \<Rightarrow> packet \<Rightarrow> packet reader" where
  "decode_section options sid p =
     (if sid = fragment_section then rd_bind read_fragment (\<lambda>f. rd_return (p\<lparr>p_fragment := Some f\<rparr>))
      else if sid = route_section then rd_bind read_route (\<lambda>r. rd_return (p\<lparr>p_route := Some r\<rparr>))
      else if sid = capabilities_section
      then rd_bind read_capabilities (\<lambda>c. rd_return (p\<lparr>p_capabilities := Some c\<rparr>))
      else if sid = extension_section
      then rd_bind read_extension (\<lambda>ext. rd_return (p\<lparr>p_extensions := p_extensions p @ [ext]\<rparr>))
      else if require_known_extensions options
      then rd_fail (Error EC_malformed_packet ''unknown section'')
      else rd_return p)"

function decode_sections_loop :: "decode_options \<Rightarrow> packet \<Rightarrow> binary_reader \<Rightarrow> error + packet" where
  "decode_sections_loop options p r =
     (if br_empty r then Inl (Error EC_malformed_packet ''missing section terminator'')
      else case br_u8 r of Inl e \<Rightarrow> Inl e | Inr (sid, r1) \<Rightarrow>
        if sid = 0
        then (if \<not> br_empty r1 then Inl (Error EC_malformed_packet ''trailing section bytes'') else Inr p)
        else case br_u16 r1 of Inl e \<Rightarrow> Inl e | Inr (len, r2) \<Rightarrow>
          case br_bytes (unat len) r2 of Inl e \<Rightarrow> Inl e | Inr (body, r3) \<Rightarrow>
            case decode_section options sid p (br_init body) of Inl e \<Rightarrow> Inl e | Inr (p', section) \<Rightarrow>
              if \<not> br_empty section
              then Inl (Error EC_malformed_packet ''section tail not consumed'')
              else decode_sections_loop options p' r3)"
  by pat_completeness auto
termination
  by (relation "measure (\<lambda>(options, p, r). br_remaining r)")
    (auto dest!: br_u8_remaining br_u16_remaining br_bytes_remaining)

declare decode_sections_loop.simps [simp del]

definition decode_payload_sections :: "decode_options \<Rightarrow> packet \<Rightarrow> bytes \<Rightarrow> error + packet" where
  "decode_payload_sections options p sections = decode_sections_loop options p (br_init sections)"

section \<open>Frames\<close>

definition encode_body :: "packet \<Rightarrow> bytes \<Rightarrow> bytes" where
  "encode_body p sections =
     bw_bytes (p_payload p) (bw_u32 (of_nat (length (p_payload p)))
       (bw_bytes sections (bw_u32 (of_nat (length sections))
         (bw_u8 (p_encryption p) (bw_u8 (p_compression p) (bw_u32 (p_sequence p)
           (bw_u64 (p_timestamp_ns p) (bw_u64 (p_device p)
             (bw_u8 (kind_number (p_kind p)) (bw_u8 (version_number (p_version p)) []))))))))))"

definition encode_packet :: "packet \<Rightarrow> error + bytes" where
  "encode_packet p =
     err_bind (encode_payload_sections p) (\<lambda>sections.
       let body = encode_body p sections;
           frame = bw_bytes body (bw_u32 (of_nat (length body)) (bw_u32 packet_magic []))
       in Inr (bw_u32 (crc32c frame) frame))"

definition decode_body :: "decode_options \<Rightarrow> packet reader" where
  "decode_body options =
     rd_bind (rd_bind br_u8 (\<lambda>raw. rd_lift (version_from raw))) (\<lambda>version.
     rd_bind (rd_bind br_u8 (\<lambda>raw. rd_lift (kind_from raw))) (\<lambda>kind.
     rd_bind br_u64 (\<lambda>device.
     rd_bind br_u64 (\<lambda>timestamp_ns.
     rd_bind br_u32 (\<lambda>sequence.
     rd_bind br_u8 (\<lambda>compression.
     rd_bind br_u8 (\<lambda>encryption.
     rd_bind br_u32 (\<lambda>section_len.
     rd_bind (br_bytes (unat section_len)) (\<lambda>sections.
     rd_bind (rd_lift (decode_payload_sections options
       (packet_default\<lparr>p_version := version, p_kind := kind, p_device := device,
          p_timestamp_ns := timestamp_ns, p_sequence := sequence, p_compression := compression,
          p_encryption := encryption\<rparr>) sections)) (\<lambda>p.
     rd_bind br_u32 (\<lambda>payload_len.
     rd_bind (br_bytes (unat payload_len)) (\<lambda>payload.
     \<lambda>r. if \<not> br_empty r then Inl (Error EC_malformed_packet ''trailing packet bytes'')
         else Inr (p\<lparr>p_payload := payload\<rparr>, r)))))))))))))"

text \<open>\<open>body_len + 12\<close> is computed in 32 bits, as in the source.\<close>

definition decode_packet :: "bytes \<Rightarrow> decode_options \<Rightarrow> error + packet" where
  "decode_packet frame options =
     (if length frame < 12 \<or> length frame > max_packet_size options
      then Inl (Error EC_malformed_packet ''packet length outside bounds'')
      else
        let expected_crc = crc32c (take (length frame - 4) frame)
        in case rd_bind br_u32 (\<lambda>magic.
             if magic \<noteq> packet_magic then rd_fail (Error EC_malformed_packet ''packet magic mismatch'')
             else rd_bind br_u32 (\<lambda>body_len.
               if unat (body_len + 12) \<noteq> length frame
               then rd_fail (Error EC_malformed_packet ''packet length mismatch'')
               else rd_bind (br_bytes (unat body_len)) (\<lambda>body.
                 rd_bind br_u32 (\<lambda>crc.
                   if crc \<noteq> expected_crc
                   then rd_fail (Error EC_checksum_mismatch ''packet crc mismatch'')
                   else rd_lift (map_sum id fst (decode_body options (br_init body)))))))
             (br_init frame)
           of Inl e \<Rightarrow> Inl e | Inr (p, r) \<Rightarrow> Inr p)"

definition negotiate :: "protocol_version \<Rightarrow> device_capabilities \<Rightarrow> negotiated_protocol" where
  "negotiate local_max remote =
     \<lparr>np_selected = local_max, np_compression = dc_supports_compression remote,
      np_encryption = dc_supports_encryption remote\<rparr>"

end
