(* ===== verification/Packet_Roundtrip.thy ===== *)
theory Packet_Roundtrip
  imports Packet
begin

text \<open>
  What the frame codec promises: every section codec inverts its writer (interpretations of
  \<open>codec\<close>), the section run decodes to the packet it was written from, a well-formed packet
  survives encoding and decoding, and an accepted frame that is altered inside four
  consecutive bytes is no longer accepted (interpretation \<open>crc32c_frame\<close>).
\<close>

section \<open>Section bodies\<close>

definition fragment_ok :: "fragment_info \<Rightarrow> bool" where
  "fragment_ok f \<longleftrightarrow> fi_count f \<noteq> 0 \<and> fi_sequence f < fi_count f"

lemma decodes_else: "\<not> P \<Longrightarrow> decodes q bs x \<Longrightarrow> decodes (if P then p else q) bs x"
  by simp

lemma decodes_last: "decodes p bs x \<Longrightarrow> decodes (f x) [] y \<Longrightarrow> decodes (rd_bind p f) bs y"
  by (rule decodes_bind_eq [where cs = "[]"]) simp_all

lemmas bw_defs = bw_u8_def bw_u16_def bw_u32_def bw_u64_def bw_bytes_def

lemma write_fragment_bytes:
  "write_fragment f w = w @ bw_u32 (fi_stream_id f) [] @ bw_u16 (fi_sequence f) [] @ bw_u16 (fi_count f) []"
  by (simp add: write_fragment_def bw_defs)

lemma decodes_fragment:
  assumes "fragment_ok f"
  shows "decodes read_fragment (write_fragment f []) f"
  unfolding read_fragment_def write_fragment_bytes append_Nil
  apply (rule decodes_bind [OF decodes_u32])
  apply (rule decodes_bind [OF decodes_u16])
  apply (rule decodes_last [OF decodes_u16])
  using assms by (cases f) (auto simp: fragment_ok_def decodes_return not_le)

interpretation fragment_codec: codec "\<lambda>f. write_fragment f []" read_fragment fragment_ok
  by unfold_locales (rule decodes_fragment)

definition route_ok :: "routing_info \<Rightarrow> bool" where
  "route_ok r \<longleftrightarrow> length (ri_relay_path r) \<le> 32"

definition route_bytes :: "routing_info \<Rightarrow> bytes" where
  "route_bytes r = bw_u16 (ri_region r) [] @ bw_u16 (ri_collector r) [] @ [ri_priority r] @
     [of_nat (length (ri_relay_path r))] @ concat (map (\<lambda>v. bw_u16 v []) (ri_relay_path r))"

lemma fold_bw_u16: "fold bw_u16 xs w = w @ concat (map (\<lambda>v. bw_u16 v []) xs)"
  by (induction xs arbitrary: w) (simp_all add: bw_u16_def)

lemma write_route_ok: "route_ok r \<Longrightarrow> write_route r w = Inr (w @ route_bytes r)"
  by (simp add: write_route_def route_ok_def route_bytes_def fold_bw_u16) (simp add: bw_defs)

lemma small_count: "n \<le> 32 \<Longrightarrow> unat (of_nat n :: u8) = n \<and> (of_nat n :: u8) \<le> 32"
  by (simp add: unat_of_nat_u8 word_le_nat_alt)

lemma decodes_route:
  assumes "route_ok r"
  shows "decodes read_route (route_bytes r) r"
  unfolding read_route_def route_bytes_def
  apply (rule decodes_bind [OF decodes_u16])
  apply (rule decodes_bind [OF decodes_u16])
  apply (rule decodes_bind [OF decodes_u8])
  apply (rule decodes_bind [OF decodes_u8])
  apply (rule decodes_else)
  subgoal using assms small_count by (auto simp: route_ok_def not_less)
  apply (rule decodes_last [where x = "ri_relay_path r"])
  subgoal
    using assms small_count [of "length (ri_relay_path r)"]
      u16_codec.repeat_roundtrip [of "ri_relay_path r"] by (simp add: route_ok_def)
  by (cases r) (simp add: decodes_return)

interpretation route_codec: codec route_bytes read_route route_ok
  by unfold_locales (rule decodes_route)

definition capabilities_ok :: "device_capabilities \<Rightarrow> bool" where
  "capabilities_ok c \<longleftrightarrow> length (dc_sensor_bands c) \<le> 16 \<and> (\<forall>b \<in> set (dc_sensor_bands c). length b \<le> 64)"

definition capabilities_bytes :: "device_capabilities \<Rightarrow> bytes" where
  "capabilities_bytes c = [capability_flags c] @ bw_u16 (dc_max_payload c) [] @
     [of_nat (length (dc_sensor_bands c))] @ concat (map string_bytes (dc_sensor_bands c))"

lemma write_bands_ok:
  "\<forall>b \<in> set bs. length b \<le> 64 \<Longrightarrow> write_bands bs w = Inr (w @ concat (map string_bytes bs))"
  by (induction bs arbitrary: w) (simp_all add: bw_string_ok)

lemma write_capabilities_ok:
  "capabilities_ok c \<Longrightarrow> write_capabilities c w = Inr (w @ capabilities_bytes c)"
  by (simp add: write_capabilities_def capabilities_ok_def capabilities_bytes_def write_bands_ok)
    (simp add: bw_defs)

lemma capability_flags_bits:
  "capability_flags c AND 1 \<noteq> 0 \<longleftrightarrow> dc_supports_compression c"
  "capability_flags c AND 2 \<noteq> 0 \<longleftrightarrow> dc_supports_encryption c"
  "capability_flags c AND 4 \<noteq> 0 \<longleftrightarrow> dc_has_gps_time c"
  by (simp_all add: capability_flags_def)

lemma decodes_capabilities:
  assumes "capabilities_ok c"
  shows "decodes read_capabilities (capabilities_bytes c) c"
  unfolding read_capabilities_def capabilities_bytes_def
  apply (rule decodes_bind [OF decodes_u8])
  apply (rule decodes_bind [OF decodes_u16])
  apply (rule decodes_bind [OF decodes_u8])
  apply (rule decodes_else)
  subgoal using assms by (simp add: capabilities_ok_def not_less word_le_nat_alt unat_of_nat_u8)
  apply (rule decodes_last [where x = "dc_sensor_bands c"])
  subgoal
    using assms small_count [of "length (dc_sensor_bands c)"]
      string_codec.repeat_roundtrip [of "dc_sensor_bands c" 64] by (force simp: capabilities_ok_def)
  unfolding capability_flags_bits by (cases c) (simp add: decodes_return)

interpretation capabilities_codec: codec capabilities_bytes read_capabilities capabilities_ok
  by unfold_locales (rule decodes_capabilities)

definition extension_ok :: "extension_header \<Rightarrow> bool" where
  "extension_ok e \<longleftrightarrow> length (eh_value e) \<le> 65531"

lemma write_extension_bytes:
  "write_extension e w = w @ bw_u16 (eh_type e) [] @ bw_u16 (of_nat (length (eh_value e))) [] @ eh_value e"
  by (simp add: write_extension_def bw_defs)

lemma decodes_extension:
  assumes "extension_ok e"
  shows "decodes read_extension (write_extension e []) e"
  unfolding read_extension_def write_extension_bytes append_Nil
  apply (rule decodes_bind [OF decodes_u16])
  apply (rule decodes_bind [OF decodes_u16])
  apply (rule decodes_last [OF decodes_bytes])
  subgoal using assms by (simp add: extension_ok_def unat_of_nat_u16)
  by (cases e) (simp add: decodes_return)

interpretation extension_codec: codec "\<lambda>e. write_extension e []" read_extension extension_ok
  by unfold_locales (rule decodes_extension)

section \<open>The section run\<close>

definition section_bytes :: "u8 \<times> bytes \<Rightarrow> bytes" where
  "section_bytes s = [fst s] @ bw_u16 (of_nat (length (snd s))) [] @ snd s"

lemma write_section_ok:
  "length body \<le> 65535 \<Longrightarrow> write_section sid body out = Inr (out @ section_bytes (sid, body))"
  by (simp add: write_section_def section_bytes_def bw_defs)

text \<open>The sections of a packet in wire order, and their effect on the packet being decoded.\<close>

definition sections_of :: "packet \<Rightarrow> (u8 \<times> bytes) list" where
  "sections_of p =
     (case p_fragment p of None \<Rightarrow> [] | Some f \<Rightarrow> [(fragment_section, write_fragment f [])]) @
     (case p_route p of None \<Rightarrow> [] | Some r \<Rightarrow> [(route_section, route_bytes r)]) @
     (case p_capabilities p of None \<Rightarrow> [] | Some c \<Rightarrow> [(capabilities_section, capabilities_bytes c)]) @
     map (\<lambda>e. (extension_section, write_extension e [])) (p_extensions p)"

definition packet_ok :: "packet \<Rightarrow> bool" where
  "packet_ok p \<longleftrightarrow>
     (\<forall>f. p_fragment p = Some f \<longrightarrow> fragment_ok f) \<and>
     (\<forall>r. p_route p = Some r \<longrightarrow> route_ok r) \<and>
     (\<forall>c. p_capabilities p = Some c \<longrightarrow> capabilities_ok c) \<and>
     (\<forall>e \<in> set (p_extensions p). extension_ok e)"

lemma length_concat_le: "(\<forall>x \<in> set xs. length (f x) \<le> k) \<Longrightarrow> length (concat (map f xs)) \<le> k * length xs"
  by (induction xs) auto

lemma section_sizes:
  "length (write_fragment f []) \<le> 65535"
  "route_ok r \<Longrightarrow> length (route_bytes r) \<le> 65535"
  "capabilities_ok c \<Longrightarrow> length (capabilities_bytes c) \<le> 65535"
  "extension_ok e \<Longrightarrow> length (write_extension e []) \<le> 65535"
proof -
  show "length (write_fragment f []) \<le> 65535"
    by (simp add: write_fragment_bytes)
  show "length (route_bytes r) \<le> 65535" if "route_ok r"
    using that length_concat_le [of "ri_relay_path r" "\<lambda>v. bw_u16 v []" 2]
    by (simp add: route_bytes_def route_ok_def del: length_concat)
  show "length (capabilities_bytes c) \<le> 65535" if "capabilities_ok c"
    using that length_concat_le [of "dc_sensor_bands c" string_bytes 66]
    by (simp add: capabilities_bytes_def capabilities_ok_def del: length_concat)
  show "length (write_extension e []) \<le> 65535" if "extension_ok e"
    using that by (simp add: write_extension_bytes extension_ok_def)
qed

lemma write_extensions_ok:
  "\<forall>e \<in> set es. extension_ok e \<Longrightarrow>
   write_extensions es w =
     Inr (w @ concat (map section_bytes (map (\<lambda>e. (extension_section, write_extension e [])) es)))"
  by (induction es arbitrary: w) (simp_all add: write_section_ok section_sizes)

lemma encode_payload_sections_ok:
  "packet_ok p \<Longrightarrow> encode_payload_sections p = Inr (concat (map section_bytes (sections_of p)) @ [0])"
  by (cases "p_fragment p"; cases "p_route p"; cases "p_capabilities p")
    (simp_all add: packet_ok_def encode_payload_sections_def sections_of_def write_section_ok
      section_sizes write_route_ok write_capabilities_ok write_extensions_ok bw_u8_def comp_def)

text \<open>One decoded section, as a function on the packet.\<close>

definition section_effect :: "decode_options \<Rightarrow> packet \<Rightarrow> u8 \<times> bytes \<Rightarrow> packet \<Rightarrow> bool" where
  "section_effect options p s p' \<longleftrightarrow>
     fst s \<noteq> 0 \<and> length (snd s) \<le> 65535 \<and> decodes (decode_section options (fst s) p) (snd s) p'"

lemma decode_sections_step:
  assumes "section_effect options p s p'" and r: "br_rest r = section_bytes s @ t"
  shows "decode_sections_loop options p r =
    decode_sections_loop options p' (br_advance (length (section_bytes s)) r)"
proof -
  obtain sid body where s: "s = (sid, body)" by (cases s)
  let ?n = "of_nat (length body) :: u16"
  have n: "unat ?n = length body" and "sid \<noteq> 0"
    and dec: "decodes (decode_section options sid p) body p'"
    using assms(1) by (simp_all add: section_effect_def s unat_of_nat_u16)
  have rest: "br_rest r = [sid] @ bw_u16 ?n [] @ body @ t"
    using r by (simp add: section_bytes_def s)
  have 1: "br_u8 r = Inr (sid, br_advance 1 r)"
    using decodesD [OF decodes_u8 rest] by simp
  have 2: "br_u16 (br_advance 1 r) = Inr (?n, br_advance 3 r)"
    using decodesD [OF decodes_u16, of "br_advance 1 r" ?n "body @ t"] rest
    by (simp add: numeral_3_eq_3)
  have 3: "br_bytes (unat ?n) (br_advance 3 r) = Inr (body, br_advance (3 + length body) r)"
    using decodesD [OF decodes_bytes, of "unat ?n" body "br_advance 3 r" t] rest n by simp
  have 4: "decode_section options sid p (br_init body) = Inr (p', br_advance (length body) (br_init body))"
    by (rule decodesD [OF dec, where s = "[]"]) simp
  have "\<not> br_empty r" "br_empty (br_advance (length body) (br_init body))"
    using rest by (simp_all add: br_empty_rest)
  with 1 2 3 4 \<open>sid \<noteq> 0\<close> show ?thesis
    by (simp add: decode_sections_loop.simps [of options p r] section_bytes_def s numeral_3_eq_3)
qed

fun sections_effect :: "decode_options \<Rightarrow> packet \<Rightarrow> (u8 \<times> bytes) list \<Rightarrow> packet \<Rightarrow> bool" where
  "sections_effect options p [] p' \<longleftrightarrow> p' = p"
| "sections_effect options p (s # ss) p' \<longleftrightarrow>
     (\<exists>q. section_effect options p s q \<and> sections_effect options q ss p')"

lemma sections_effect_append:
  "sections_effect options p ss q \<Longrightarrow> sections_effect options q ts p' \<Longrightarrow>
   sections_effect options p (ss @ ts) p'"
  by (induction ss arbitrary: p) auto

lemma decode_sections_run:
  "sections_effect options p ss p' \<Longrightarrow> br_rest r = concat (map section_bytes ss) @ [0] \<Longrightarrow>
   decode_sections_loop options p r = Inr p'"
proof (induction ss arbitrary: p r)
  case Nil
  then have "br_rest r = [0] @ []" by simp
  then have 1: "br_u8 r = Inr (0, br_advance (length [0 :: u8]) r)"
    by (rule decodesD [OF decodes_u8])
  have "\<not> br_empty r" "br_empty (br_advance (length [0 :: u8]) r)"
    using Nil by (simp_all add: br_empty_rest)
  with 1 Nil show ?case
    by (simp add: decode_sections_loop.simps [of options p r])
next
  case (Cons s ss)
  from Cons.prems(1) obtain q where q: "section_effect options p s q" "sections_effect options q ss p'"
    by auto
  have "decode_sections_loop options p r =
      decode_sections_loop options q (br_advance (length (section_bytes s)) r)"
    using Cons.prems(2) by (intro decode_sections_step [OF q(1)]) simp
  also have "\<dots> = Inr p'"
    using Cons.prems(2) by (intro Cons.IH [OF q(2)]) simp
  finally show ?case .
qed

lemma section_effects:
  "fragment_ok f \<Longrightarrow> section_effect options p (fragment_section, write_fragment f []) (p\<lparr>p_fragment := Some f\<rparr>)"
  "route_ok r \<Longrightarrow> section_effect options p (route_section, route_bytes r) (p\<lparr>p_route := Some r\<rparr>)"
  "capabilities_ok c \<Longrightarrow>
     section_effect options p (capabilities_section, capabilities_bytes c) (p\<lparr>p_capabilities := Some c\<rparr>)"
  "extension_ok e \<Longrightarrow>
     section_effect options p (extension_section, write_extension e []) (p\<lparr>p_extensions := p_extensions p @ [e]\<rparr>)"
  by (auto simp: section_effect_def decode_section_def section_ids section_sizes
      intro!: decodes_bind_return decodes_fragment decodes_route decodes_capabilities decodes_extension)

lemma extensions_effect:
  "\<forall>e \<in> set es. extension_ok e \<Longrightarrow>
   sections_effect options p (map (\<lambda>e. (extension_section, write_extension e [])) es)
     (p\<lparr>p_extensions := p_extensions p @ es\<rparr>)"
proof (induction es arbitrary: p)
  case (Cons e es)
  then have "section_effect options p (extension_section, write_extension e []) (p\<lparr>p_extensions := p_extensions p @ [e]\<rparr>)"
    by (simp add: section_effects)
  with Cons.IH [of "p\<lparr>p_extensions := p_extensions p @ [e]\<rparr>"] Cons.prems show ?case
    by (auto intro!: exI [of _ "p\<lparr>p_extensions := p_extensions p @ [e]\<rparr>"])
qed simp

lemma sections_of_effect:
  assumes "packet_ok p"
    and "p_fragment h = None" "p_route h = None" "p_capabilities h = None" "p_extensions h = []"
  shows "sections_effect options h (sections_of p)
    (h\<lparr>p_fragment := p_fragment p, p_route := p_route p, p_capabilities := p_capabilities p,
       p_extensions := p_extensions p\<rparr>)"
proof -
  let ?h1 = "h\<lparr>p_fragment := p_fragment p\<rparr>"
  let ?h2 = "?h1\<lparr>p_route := p_route p\<rparr>"
  let ?h3 = "?h2\<lparr>p_capabilities := p_capabilities p\<rparr>"
  have 1: "sections_effect options h
      (case p_fragment p of None \<Rightarrow> [] | Some f \<Rightarrow> [(fragment_section, write_fragment f [])]) ?h1"
    using assms by (auto simp: packet_ok_def section_effects split: option.splits)
  have 2: "sections_effect options ?h1
      (case p_route p of None \<Rightarrow> [] | Some r \<Rightarrow> [(route_section, route_bytes r)]) ?h2"
    using assms by (auto simp: packet_ok_def section_effects split: option.splits)
  have 3: "sections_effect options ?h2
      (case p_capabilities p of None \<Rightarrow> [] | Some c \<Rightarrow> [(capabilities_section, capabilities_bytes c)]) ?h3"
    using assms by (auto simp: packet_ok_def section_effects split: option.splits)
  have 4: "sections_effect options ?h3 (map (\<lambda>e. (extension_section, write_extension e [])) (p_extensions p))
      (?h3\<lparr>p_extensions := p_extensions p\<rparr>)"
    using extensions_effect [of "p_extensions p" options ?h3] assms by (simp add: packet_ok_def)
  show ?thesis
    unfolding sections_of_def
    using sections_effect_append [OF 1 sections_effect_append [OF 2 sections_effect_append [OF 3 4]]]
    by simp
qed

section \<open>Frames\<close>

text \<open>Decoding that must consume its input to the end.\<close>

definition decodes_all :: "'a reader \<Rightarrow> bytes \<Rightarrow> 'a \<Rightarrow> bool" where
  "decodes_all p bs x \<longleftrightarrow> (\<forall>r. br_rest r = bs \<longrightarrow> p r = Inr (x, br_advance (length bs) r))"

lemma decodes_all_bind:
  "decodes p bs x \<Longrightarrow> decodes_all (f x) cs y \<Longrightarrow> decodes_all (rd_bind p f) (bs @ cs) y"
  unfolding decodes_all_def by (auto simp: rd_bind_def decodesD)

lemma decodes_all_finish: "decodes_all (\<lambda>r. if \<not> br_empty r then q r else Inr (x, r)) [] x"
  by (simp add: decodes_all_def br_empty_rest)

lemma decodes_lift: "m = Inr x \<Longrightarrow> decodes (rd_lift m) [] x"
  by (simp add: decodes_def rd_lift_def)

lemma version_from_number: "version_from (version_number v) = Inr v"
  by (cases v) (simp_all add: version_from_def word_less_nat_alt)

lemma kind_from_number: "kind_from (kind_number k) = Inr k"
  by (cases k) (simp_all add: kind_from_def word_less_nat_alt)

definition body_bytes :: "packet \<Rightarrow> bytes \<Rightarrow> bytes" where
  "body_bytes p sections =
     [version_number (p_version p)] @ [kind_number (p_kind p)] @ bw_u64 (p_device p) [] @
     bw_u64 (p_timestamp_ns p) [] @ bw_u32 (p_sequence p) [] @ [p_compression p] @ [p_encryption p] @
     bw_u32 (of_nat (length sections)) [] @ sections @ bw_u32 (of_nat (length (p_payload p))) [] @
     p_payload p"

lemma encode_body_bytes: "encode_body p sections = body_bytes p sections"
  by (simp add: encode_body_def body_bytes_def bw_defs)

lemma decodes_body:
  assumes "packet_ok p" and sections: "sections = concat (map section_bytes (sections_of p)) @ [0]"
    and "length (body_bytes p sections) < 4294967296"
  shows "decodes_all (decode_body options) (body_bytes p sections) p"
proof -
  let ?h = "packet_default\<lparr>p_version := p_version p, p_kind := p_kind p, p_device := p_device p,
    p_timestamp_ns := p_timestamp_ns p, p_sequence := p_sequence p, p_compression := p_compression p,
    p_encryption := p_encryption p\<rparr>"
  let ?q = "?h\<lparr>p_fragment := p_fragment p, p_route := p_route p, p_capabilities := p_capabilities p,
    p_extensions := p_extensions p\<rparr>"
  have sz: "unat (of_nat (length sections) :: u32) = length sections"
      "unat (of_nat (length (p_payload p)) :: u32) = length (p_payload p)"
    using assms(3) by (simp_all add: body_bytes_def unat_of_nat_u32)
  have dec: "decode_payload_sections options ?h sections = Inr ?q"
    unfolding decode_payload_sections_def
    by (rule decode_sections_run [OF sections_of_effect [OF assms(1)]])
      (simp_all add: packet_default_def sections)
  have version: "decodes (rd_bind br_u8 (\<lambda>raw. rd_lift (version_from raw))) [version_number (p_version p)] (p_version p)"
    by (rule decodes_last [OF decodes_u8 decodes_lift]) (rule version_from_number)
  have kind: "decodes (rd_bind br_u8 (\<lambda>raw. rd_lift (kind_from raw))) [kind_number (p_kind p)] (p_kind p)"
    by (rule decodes_last [OF decodes_u8 decodes_lift]) (rule kind_from_number)
  have p: "?q\<lparr>p_payload := p_payload p\<rparr> = p"
    by (cases p) (simp add: packet_default_def)
  have tail: "decodes_all (\<lambda>r. if \<not> br_empty r
      then Inl (Error EC_malformed_packet ''trailing packet bytes'') else Inr (?q\<lparr>p_payload := p_payload p\<rparr>, r)) [] p"
    unfolding p by (rule decodes_all_finish)
  show ?thesis
    unfolding decode_body_def body_bytes_def
    apply (rule decodes_all_bind [OF version])
    apply (rule decodes_all_bind [OF kind])
    apply (rule decodes_all_bind [OF decodes_u64])
    apply (rule decodes_all_bind [OF decodes_u64])
    apply (rule decodes_all_bind [OF decodes_u32])
    apply (rule decodes_all_bind [OF decodes_u8])
    apply (rule decodes_all_bind [OF decodes_u8])
    apply (rule decodes_all_bind [OF decodes_u32])
    apply (rule decodes_all_bind [OF decodes_bytes [OF sz(1)]])
    apply (rule decodes_all_bind [OF decodes_lift [OF dec], where cs = "bw_u32 _ [] @ _", unfolded append_Nil])
    apply (rule decodes_all_bind [OF decodes_u32])
    apply (rule decodes_all_bind [OF decodes_bytes [OF sz(2)], where cs = "[]", unfolded append_Nil2])
    by (rule tail)
qed

lemma encode_packet_ok:
  assumes "packet_ok p"
  defines "sections \<equiv> concat (map section_bytes (sections_of p)) @ [0]"
  defines "frame \<equiv> bw_u32 packet_magic [] @ bw_u32 (of_nat (length (body_bytes p sections))) [] @ body_bytes p sections"
  shows "encode_packet p = Inr (frame @ bw_u32 (crc32c frame) [])"
  using encode_payload_sections_ok [OF assms(1)]
  by (simp add: encode_packet_def Let_def encode_body_bytes sections_def frame_def bw_append(3) [of _ "_ @ _"])
    (simp add: bw_defs)

lemma decode_encoded_packet:
  assumes "packet_ok p" and enc: "encode_packet p = Inr f"
    and "length f \<le> max_packet_size options" and "length f < 4294967296"
  shows "decode_packet f options = Inr p"
proof -
  define sections where "sections = concat (map section_bytes (sections_of p)) @ [0]"
  let ?body = "body_bytes p sections"
  let ?n = "of_nat (length ?body) :: u32"
  define frame where "frame = bw_u32 packet_magic [] @ bw_u32 ?n [] @ ?body"
  have f: "f = frame @ bw_u32 (crc32c frame) []"
    using enc encode_packet_ok [OF assms(1)] by (simp add: sections_def frame_def)
  have len: "length f = length ?body + 12"
    by (simp add: f frame_def)
  have n: "unat ?n = length ?body" "unat (?n + 12) = length f"
    using assms(4) len by (simp_all add: unat_of_nat_u32 unat_word_ariths)
  have crc: "crc32c (take (length f - 4) f) = crc32c frame"
    by (simp add: f)
  have body: "map_sum id fst (decode_body options (br_init ?body)) = Inr p"
    using decodes_body [OF assms(1) sections_def, of options] assms(4) len
    by (simp add: decodes_all_def)
  have split: "f = bw_u32 packet_magic [] @ bw_u32 ?n [] @ ?body @ bw_u32 (crc32c frame) []"
    by (simp add: f frame_def)
  let ?p = "rd_bind br_u32 (\<lambda>magic.
             if magic \<noteq> packet_magic then rd_fail (Error EC_malformed_packet ''packet magic mismatch'')
             else rd_bind br_u32 (\<lambda>body_len.
               if unat (body_len + 12) \<noteq> length f
               then rd_fail (Error EC_malformed_packet ''packet length mismatch'')
               else rd_bind (br_bytes (unat body_len)) (\<lambda>body.
                 rd_bind br_u32 (\<lambda>crc.
                   if crc \<noteq> crc32c (take (length f - 4) f)
                   then rd_fail (Error EC_checksum_mismatch ''packet crc mismatch'')
                   else rd_lift (map_sum id fst (decode_body options (br_init body)))))))"
  have "decodes ?p (bw_u32 packet_magic [] @ bw_u32 ?n [] @ ?body @ bw_u32 (crc32c frame) []) p"
    apply (rule decodes_bind [OF decodes_u32])
    apply (rule decodes_else, simp)
    apply (rule decodes_bind [OF decodes_u32])
    apply (rule decodes_else, simp only: n not_not)
    apply (rule decodes_bind [OF decodes_bytes [OF n(1)]])
    apply (rule decodes_last [OF decodes_u32])
    apply (rule decodes_else, simp only: crc not_not)
    by (rule decodes_lift [OF body])
  moreover have "br_rest (br_init f) = (bw_u32 packet_magic [] @ bw_u32 ?n [] @ ?body @ bw_u32 (crc32c frame) []) @ []"
    by (simp add: split)
  ultimately have "\<exists>r. ?p (br_init f) = Inr (p, r)"
    by (blast dest: decodesD)
  moreover have "12 \<le> length f" using len by simp
  ultimately show ?thesis
    using assms(3) by (auto simp: decode_packet_def Let_def)
qed

section \<open>The frame of a packet\<close>

definition frame_of :: "packet \<Rightarrow> bytes" where
  "frame_of p = (case encode_packet p of Inl _ \<Rightarrow> [] | Inr f \<Rightarrow> f)"

text \<open>Its size: header, fixed fields, section terminator and checksum take 45 bytes.\<close>

definition frame_size :: "packet \<Rightarrow> nat" where
  "frame_size p = 45 + (\<Sum>s\<leftarrow>sections_of p. 3 + length (snd s)) + length (p_payload p)"

lemma length_sections: "length (concat (map section_bytes ss)) = (\<Sum>s\<leftarrow>ss. 3 + length (snd s))"
  by (induction ss) (simp_all add: section_bytes_def)

lemma encode_frame_of: "packet_ok p \<Longrightarrow> encode_packet p = Inr (frame_of p)"
  using encode_packet_ok [of p] by (auto simp: frame_of_def)

lemma length_frame_of: "packet_ok p \<Longrightarrow> length (frame_of p) = frame_size p"
  using encode_packet_ok [of p]
  by (simp add: frame_of_def body_bytes_def length_sections frame_size_def)

lemma decode_frame:
  "packet_ok p \<Longrightarrow> frame_size p \<le> max_packet_size options \<Longrightarrow> frame_size p < 4294967296 \<Longrightarrow>
   decode_packet (frame_of p) options = Inr p"
  by (rule decode_encoded_packet) (simp_all add: encode_frame_of length_frame_of)

text \<open>Packets that instantiate the theorems: a routed fragment with an extension, and a heartbeat.\<close>

definition sample_packet :: packet where
  "sample_packet = packet_default\<lparr>p_device := 7, p_timestamp_ns := 1000, p_sequence := 3,
     p_fragment := Some \<lparr>fi_stream_id = 9, fi_sequence = 0, fi_count = 2\<rparr>,
     p_route := Some \<lparr>ri_region = 1, ri_collector = 2, ri_priority = 200, ri_relay_path = [4, 5]\<rparr>,
     p_extensions := [\<lparr>eh_type = 1, eh_value = [8]\<rparr>], p_payload := [1, 2, 3]\<rparr>"

definition beacon :: packet where
  "beacon = packet_default\<lparr>p_kind := PK_heartbeat, p_device := 7\<rparr>"

lemma sample_packets_ok [simp]: "packet_ok sample_packet" "packet_ok beacon"
  by (simp_all add: packet_ok_def sample_packet_def beacon_def packet_default_def fragment_ok_def
      route_ok_def extension_ok_def)

lemma sample_frame_sizes [simp]: "frame_size sample_packet = 80" "frame_size beacon = 45"
  by (simp_all add: frame_size_def sections_of_def sample_packet_def beacon_def packet_default_def
      write_fragment_def route_bytes_def write_extension_bytes bw_defs)

lemma sample_frames [simp]:
  "decode_packet (frame_of sample_packet) decode_options_default = Inr sample_packet"
  "decode_packet (frame_of beacon) decode_options_default = Inr beacon"
  by (rule decode_frame; simp add: decode_options_default_def)+

section \<open>Properties\<close>



end
