(* ===== verification/Packet_Integrity.thy ===== *)
theory Packet_Integrity
  imports Packet_Roundtrip
begin

text \<open>
  What acceptance by \<open>decode_packet\<close> implies about the bytes: the frame ends in the
  checksum of the bytes before it, so no other accepted frame differs from it inside four
  consecutive bytes only.
\<close>

section \<open>A 32-bit read determines its bytes\<close>

lemma bit_or_shifted:
  "bit (fold (or_shifted data off) [0..<k] (0 :: 'a::len word)) n \<longleftrightarrow>
     n < 8 * k \<and> n < LENGTH('a) \<and> bit (data ! (off + n div 8)) (n mod 8)"
proof (induction k)
  case (Suc k)
  have step: "fold (or_shifted data off) [0..<Suc k] (0 :: 'a word) =
      or_shifted data off k (fold (or_shifted data off) [0..<k] 0)"
    by simp
  show ?case
  proof (cases "n < 8 * k")
    case True
    with Suc step show ?thesis by (simp add: or_shifted_def bit_simps)
  next
    case False
    have idx: "n div 8 = k \<and> n mod 8 = n - 8 * k" if "n < 8 * k + 8"
    proof -
      from that False have "n = 8 * k + (n - 8 * k)" "n - 8 * k < 8" by simp_all
      then show ?thesis by (metis div_mult_self4 mod_mult_self4 div_less mod_less add.right_neutral zero_neq_numeral add.commute)
    qed
    have "bit (data ! (off + k)) (n - 8 * k) \<Longrightarrow> n - 8 * k < 8"
      by (auto dest: bit_imp_le_length)
    with False idx Suc step show ?thesis
      by (auto simp: or_shifted_def bit_simps)
  qed
qed simp

lemma or_shifted_pack:
  assumes "length bs = 4" and "\<And>j. j < 4 \<Longrightarrow> data ! (off + j) = bs ! j"
  shows "fold (or_shifted data off) [0..<4] 0 = pack bs"
proof (rule bit_word_eqI)
  fix n
  assume "n < LENGTH(32)"
  then have "n < 32" "n div 8 < 4" by simp_all
  then show "bit (fold (or_shifted data off) [0..<4] (0 :: u32)) n = bit (pack bs) n"
    using assms by (simp add: bit_or_shifted bit_pack del: upt_rec_numeral fold_simps)
qed

lemma br_u32_bytes:
  assumes "br_u32 r = Inr (v, r')"
  shows "take 4 (br_rest r) = bw_u32 v [] \<and> r' = br_advance 4 r"
proof -
  from assms have len: "4 \<le> length (br_rest r)"
    and v: "v = fold (or_shifted (br_data r) (br_offset r)) [0..<4] 0" and r': "r' = br_advance 4 r"
    by (auto simp: br_u32_def rd_bind_def br_require_def br_remaining_rest br_advance_def
        simp del: upt_rec_numeral fold_simps split: if_splits)
  let ?bs = "take 4 (br_rest r)"
  have "length ?bs = 4" using len by simp
  moreover have "br_data r ! (br_offset r + j) = ?bs ! j" if "j < 4" for j
    using that len by (simp add: br_rest_nth)
  ultimately have "v = pack ?bs" unfolding v by (rule or_shifted_pack)
  then have "pack ?bs = pack (bw_u32 v [])" by (simp only: pack_le_bytes)
  then have "?bs = bw_u32 v []"
    using \<open>length ?bs = 4\<close> by (intro pack_inject) simp_all
  with r' show ?thesis by simp
qed

lemma br_bytes_bytes:
  "br_bytes n r = Inr (bs, r') \<Longrightarrow> n \<le> length (br_rest r) \<and> bs = take n (br_rest r) \<and> r' = br_advance n r"
  by (auto simp: br_bytes_def rd_bind_def br_require_def br_remaining_rest br_advance_def br_rest_def
      split: if_splits)

section \<open>Accepted frames are intact\<close>

lemma rd_bind_Inr:
  "rd_bind p f r = Inr y \<longleftrightarrow> (\<exists>x r'. p r = Inr (x, r') \<and> f x r' = Inr y)"
  by (auto simp: rd_bind_def split: sum.splits)

lemma rd_if_fail_Inr:
  "(if P then rd_fail e else q) r = Inr y \<longleftrightarrow> \<not> P \<and> q r = Inr y"
  by (simp add: rd_fail_def)

lemma rd_lift_Inr: "rd_lift m r = Inr (x, r') \<longleftrightarrow> m = Inr x \<and> r' = r"
  by (auto simp: rd_lift_def split: sum.splits)

lemma case_sum_Inr:
  "(case m of Inl e \<Rightarrow> Inl e | Inr (x, r) \<Rightarrow> Inr x) = Inr y \<longleftrightarrow> (\<exists>r. m = Inr (y, r))"
  by (auto split: sum.splits)

lemma word_add_12:
  assumes "unat (n + 12 :: u32) = k" and "12 \<le> k"
  shows "unat n + 12 = k"
proof -
  have "unat (n + 12) = (unat n + 12) mod 4294967296"
    by (simp add: unat_word_ariths)
  moreover have "unat n + 12 < 4294967296"
  proof (rule ccontr)
    assume big: "\<not> unat n + 12 < 4294967296"
    then have "(unat n + 12) mod 4294967296 = unat n + 12 - 4294967296"
      using unat_u32_bound [of n] by (simp add: mod_if)
    with assms calculation unat_u32_bound [of n] show False by simp
  qed
  ultimately show ?thesis using assms by simp
qed

text \<open>The header and the trailer of an accepted frame.\<close>

lemma decode_packet_frame:
  assumes "decode_packet f options = Inr p"
  shows "12 \<le> length f" "length f \<le> max_packet_size options"
    "take 4 f = bw_u32 packet_magic []"
    "take 4 (drop 4 f) = bw_u32 (of_nat (length f - 12)) []" "length f < 4294967308"
    "f = take (length f - 4) f @ bw_u32 (crc32c (take (length f - 4) f)) []"
    "map_sum id fst (decode_body options (br_init (take (length f - 12) (drop 8 f)))) = Inr p"
proof -
  show len: "12 \<le> length f" and "length f \<le> max_packet_size options"
    using assms by (auto simp: decode_packet_def split: if_splits)
  from assms len obtain magic r1 n r2 body r3 crc r4 where
    1: "br_u32 (br_init f) = Inr (magic, r1)" and magic: "magic = packet_magic"
    and 2: "br_u32 r1 = Inr (n, r2)" and n: "unat (n + 12) = length f"
    and 3: "br_bytes (unat n) r2 = Inr (body, r3)"
    and 4: "br_u32 r3 = Inr (crc, r4)" and crc: "crc = crc32c (take (length f - 4) f)"
    and body: "map_sum id fst (decode_body options (br_init body)) = Inr p"
    by (auto simp: decode_packet_def Let_def rd_bind_Inr rd_if_fail_Inr rd_lift_Inr case_sum_Inr
        split: if_splits)
  from br_u32_bytes [OF 1] have r1: "r1 = br_advance 4 (br_init f)"
    and m: "take 4 f = bw_u32 magic []" by simp_all
  from m magic show "take 4 f = bw_u32 packet_magic []" by simp
  from br_u32_bytes [OF 2] r1 have r2: "r2 = br_advance 8 (br_init f)"
    and l: "take 4 (drop 4 f) = bw_u32 n []" by simp_all
  from n len have n': "unat n + 12 = length f" by (rule word_add_12)
  from br_bytes_bytes [OF 3] r2 have r3: "r3 = br_advance (8 + unat n) (br_init f)"
    and b: "body = take (unat n) (drop 8 f)" by simp_all
  from n' have k: "length f - 12 = unat n" by simp
  with l show "take 4 (drop 4 f) = bw_u32 (of_nat (length f - 12)) []" by simp
  show "length f < 4294967308" using n' unat_u32_bound [of n] by simp
  from k b body show "map_sum id fst (decode_body options (br_init (take (length f - 12) (drop 8 f)))) = Inr p"
    by (simp only:)
  from n' have "8 + unat n = length f - 4" by simp
  with r3 br_u32_bytes [OF 4] have "take 4 (drop (length f - 4) f) = bw_u32 crc []" by simp
  then have "drop (length f - 4) f = bw_u32 crc []" using len by simp
  with crc show "f = take (length f - 4) f @ bw_u32 (crc32c (take (length f - 4) f)) []"
    by (metis append_take_drop_id)
qed

lemma decode_packet_intact: "decode_packet f options = Inr p \<Longrightarrow> crc32c_frame.intact f"
  unfolding crc32c_frame.intact_def by (blast dest: decode_packet_frame(6))

section \<open>Properties\<close>

text \<open>
  C2. Corrupting at most four consecutive bytes of an accepted frame, wherever they are, makes
  every decoder reject it, whatever its options.
\<close>

theorem burst_rejected:
  assumes "decode_packet (xs @ w @ ys) options = Inr p"
    and "length w' = length w" and "length w \<le> 4" and "w' \<noteq> w"
  shows "\<exists>e. decode_packet (xs @ w' @ ys) options' = Inl e"
proof (rule ccontr)
  assume "\<not> ?thesis"
  then obtain p' where "decode_packet (xs @ w' @ ys) options' = Inr p'"
    by (cases "decode_packet (xs @ w' @ ys) options'") auto
  with assms(1) have "crc32c_frame.intact (xs @ w @ ys)" "crc32c_frame.intact (xs @ w' @ ys)"
    by (simp_all add: decode_packet_intact)
  then have "w = w'" using assms(2,3) by (intro crc32c_frame.no_burst) simp_all
  with assms(4) show False by simp
qed

lemma burst_rejected_witness:
  "\<exists>b xs. frame_of beacon = b # xs \<and> (\<exists>e. decode_packet ((b + 1) # xs) decode_options_default = Inl e)"
proof -
  have "length (frame_of beacon) = 45" by (simp add: length_frame_of)
  then obtain b xs where f: "frame_of beacon = b # xs" by (cases "frame_of beacon") auto
  have "\<exists>e. decode_packet ([] @ [b + 1] @ xs) decode_options_default = Inl e"
    by (rule burst_rejected [where w = "[b]" and options = decode_options_default and p = beacon])
      (use sample_frames(2) in \<open>simp_all add: f\<close>)
  with f show ?thesis by simp
qed

text \<open>
  An accepted byte string is exactly one frame: the magic, the length of the body, a body
  that decodes to the packet, and the checksum of everything before it; nothing is left over
  and the size limit held.
\<close>

theorem accepted_frame:
  assumes "decode_packet f options = Inr p"
  shows "\<exists>body. f = bw_u32 packet_magic [] @ bw_u32 (of_nat (length body)) [] @ body @
      bw_u32 (crc32c (take (length f - 4) f)) [] \<and>
    map_sum id fst (decode_body options (br_init body)) = Inr p \<and>
    length body < 4294967296 \<and> length f \<le> max_packet_size options"
proof -
  note frame = decode_packet_frame [OF assms]
  let ?body = "take (length f - 12) (drop 8 f)"
  have len: "length ?body = length f - 12" using frame(1) by simp
  have "take (length f - 4) f = take 4 f @ take 4 (drop 4 f) @ ?body"
  proof -
    have "length f - 4 = 4 + (4 + (length f - 12))" using frame(1) by simp
    then show ?thesis by (simp only: take_add drop_drop numeral_plus_numeral add_num_simps)
  qed
  with frame have "f = bw_u32 packet_magic [] @ bw_u32 (of_nat (length ?body)) [] @ ?body @
      bw_u32 (crc32c (take (length f - 4) f)) []"
    by (metis append_assoc len)
  with frame len show ?thesis by (intro exI [of _ ?body]) simp
qed

lemma accepted_frame_witness:
  "\<exists>body. frame_of beacon = bw_u32 packet_magic [] @ bw_u32 (of_nat (length body)) [] @ body @
      bw_u32 (crc32c (take (length (frame_of beacon) - 4) (frame_of beacon))) [] \<and>
    map_sum id fst (decode_body decode_options_default (br_init body)) = Inr beacon \<and>
    length body < 4294967296 \<and> length (frame_of beacon) \<le> max_packet_size decode_options_default"
  by (rule accepted_frame) (rule sample_frames)

end
