(* ===== verification/Tlv.thy ===== *)
theory Tlv
  imports Packet_Integrity
begin

text \<open>
  Nested type-length-value fields: \<open>src/protocol/tlv.cpp\<close>. Parsing inverts encoding, and
  with \<open>require_full_buffer\<close> a parsed buffer is the encoding of its fields, so the two are
  inverse to each other within the limits.
\<close>

section \<open>Definitions\<close>

record tlv_field =
  tf_type :: u16
  tf_value :: bytes

record tlv_parse_options =
  max_fields :: nat
  max_value_size :: nat
  require_full_buffer :: bool

definition tlv_parse_options_default :: tlv_parse_options where
  "tlv_parse_options_default =
     \<lparr>max_fields = 128, max_value_size = 64 * 1024, require_full_buffer = True\<rparr>"

function parse_tlv_loop :: "tlv_parse_options \<Rightarrow> tlv_field list \<Rightarrow> binary_reader \<Rightarrow> error + tlv_field list" where
  "parse_tlv_loop options parsed reader =
     (if br_empty reader then Inr parsed
      else if br_remaining reader < 4
      then (if require_full_buffer options
            then Inl (Error EC_malformed_packet ''truncated tlv header'') else Inr parsed)
      else if length parsed \<ge> max_fields options
      then Inl (Error EC_malformed_packet ''too many tlv fields'')
      else case br_u16 reader of Inl e \<Rightarrow> Inl e | Inr (type, r1) \<Rightarrow>
        case br_u16 r1 of Inl e \<Rightarrow> Inl e | Inr (len, r2) \<Rightarrow>
          if unat len > max_value_size options
          then Inl (Error EC_malformed_packet ''tlv field exceeds maximum value size'')
          else case br_bytes (unat len) r2 of Inl e \<Rightarrow> Inl e | Inr (value, r3) \<Rightarrow>
            parse_tlv_loop options (parsed @ [\<lparr>tf_type = type, tf_value = value\<rparr>]) r3)"
  by pat_completeness auto
termination
  by (relation "measure (\<lambda>(options, parsed, r). br_remaining r)")
    (auto dest!: br_u16_remaining br_bytes_remaining)

declare parse_tlv_loop.simps [simp del]

definition parse_tlv_fields :: "bytes \<Rightarrow> tlv_parse_options \<Rightarrow> error + tlv_field list" where
  "parse_tlv_fields data options = parse_tlv_loop options [] (br_init data)"

fun encode_tlv_loop :: "tlv_field list \<Rightarrow> binary_writer \<Rightarrow> error + bytes" where
  "encode_tlv_loop [] writer = Inr writer"
| "encode_tlv_loop (field # rest) writer =
     (if length (tf_value field) > 65535
      then Inl (Error EC_invalid_argument ''tlv field is too large to encode'')
      else encode_tlv_loop rest
        (bw_bytes (tf_value field) (bw_u16 (of_nat (length (tf_value field))) (bw_u16 (tf_type field) writer))))"

definition encode_tlv_fields :: "tlv_field list \<Rightarrow> error + bytes" where
  "encode_tlv_fields fs = encode_tlv_loop fs []"

definition find_tlv_field :: "tlv_field list \<Rightarrow> u16 \<Rightarrow> tlv_field option" where
  "find_tlv_field fs type = find (\<lambda>field. tf_type field = type) fs"

definition tlv_unsigned :: "tlv_field \<Rightarrow> u64 option" where
  "tlv_unsigned field =
     (if tf_value field = [] \<or> length (tf_value field) > 8 then None
      else Some (fold (or_shifted (tf_value field) 0) [0..<length (tf_value field)] 0))"

definition tlv_string :: "tlv_field \<Rightarrow> nat \<Rightarrow> string option" where
  "tlv_string field max_size =
     (if length (tf_value field) > max_size then None
      else if \<exists>byte \<in> set (tf_value field). byte = 0 then None
      else Some (map char_of_byte (tf_value field)))"

text \<open>The \<open>do ... while (value != 0)\<close> loop of \<open>make_tlv_u64\<close>.\<close>

lemma drop_bit_less: "drop_bit 8 (v :: u64) \<noteq> 0 \<Longrightarrow> unat (drop_bit 8 v) < unat v"
  by (cases "v = 0") (simp_all add: unat_drop_bit_eq drop_bit_eq_div unat_div word_unat_eq_iff)

function le_minimal :: "u64 \<Rightarrow> bytes" where
  "le_minimal value =
     (let byte = ucast (value AND 0xff); value' = drop_bit 8 value
      in if value' \<noteq> 0 then byte # le_minimal value' else [byte])"
  by pat_completeness auto
termination
  by (relation "measure unat") (simp_all add: drop_bit_less)

declare le_minimal.simps [simp del]

definition make_tlv_u64 :: "u16 \<Rightarrow> u64 \<Rightarrow> error + bytes" where
  "make_tlv_u64 type value = encode_tlv_fields [\<lparr>tf_type = type, tf_value = le_minimal value\<rparr>]"

definition make_tlv_string :: "u16 \<Rightarrow> string \<Rightarrow> error + bytes" where
  "make_tlv_string type value =
     (if length value > 65535 then Inl (Error EC_invalid_argument ''tlv string is too large'')
      else encode_tlv_fields [\<lparr>tf_type = type, tf_value = map byte_of_char value\<rparr>])"

section \<open>Parsing inverts encoding\<close>

definition tlv_bytes :: "tlv_field \<Rightarrow> bytes" where
  "tlv_bytes f = bw_u16 (tf_type f) [] @ bw_u16 (of_nat (length (tf_value f))) [] @ tf_value f"

lemma encode_tlv_loop_Inr:
  "encode_tlv_loop fs w = Inr bs \<longleftrightarrow>
   (\<forall>f \<in> set fs. length (tf_value f) \<le> 65535) \<and> bs = w @ concat (map tlv_bytes fs)"
  by (induction fs arbitrary: w) (auto simp: tlv_bytes_def bw_u16_def bw_bytes_def)

lemma encode_tlv_fields_Inr:
  "encode_tlv_fields fs = Inr bs \<longleftrightarrow>
   (\<forall>f \<in> set fs. length (tf_value f) \<le> 65535) \<and> bs = concat (map tlv_bytes fs)"
  by (simp add: encode_tlv_fields_def encode_tlv_loop_Inr)

definition tlv_within :: "tlv_parse_options \<Rightarrow> tlv_field list \<Rightarrow> bool" where
  "tlv_within options fs \<longleftrightarrow> length fs \<le> max_fields options \<and>
     (\<forall>f \<in> set fs. length (tf_value f) \<le> max_value_size options \<and> length (tf_value f) \<le> 65535)"

lemma parse_tlv_run:
  "\<lbrakk>br_rest r = concat (map tlv_bytes fs); length acc + length fs \<le> max_fields options;
    \<forall>f \<in> set fs. length (tf_value f) \<le> max_value_size options \<and> length (tf_value f) \<le> 65535\<rbrakk> \<Longrightarrow>
   parse_tlv_loop options acc r = Inr (acc @ fs)"
proof (induction fs arbitrary: acc r)
  case Nil
  then show ?case by (simp add: parse_tlv_loop.simps br_empty_rest)
next
  case (Cons f fs)
  let ?t = "concat (map tlv_bytes fs)"
  let ?n = "of_nat (length (tf_value f)) :: u16"
  have n: "unat ?n = length (tf_value f)"
    using Cons.prems(3) by (simp add: unat_of_nat_u16)
  have rest: "br_rest r = bw_u16 (tf_type f) [] @ bw_u16 ?n [] @ tf_value f @ ?t"
    using Cons.prems(1) by (simp add: tlv_bytes_def [of f])
  have 1: "br_u16 r = Inr (tf_type f, br_advance 2 r)"
    using decodesD [OF decodes_u16 rest] by simp
  have 2: "br_u16 (br_advance 2 r) = Inr (?n, br_advance 4 r)"
    using decodesD [OF decodes_u16, of "br_advance 2 r" ?n "tf_value f @ ?t"] rest by simp
  have 3: "br_bytes (unat ?n) (br_advance 4 r) = Inr (tf_value f, br_advance (4 + length (tf_value f)) r)"
    using decodesD [OF decodes_bytes [OF n], of "br_advance 4 r" ?t] rest by simp
  have "\<not> br_empty r" "\<not> br_remaining r < 4"
    using rest by (simp_all add: br_empty_rest br_remaining_rest flip: length_greater_0_conv)
  moreover have eq: "\<lparr>tf_type = tf_type f, tf_value = tf_value f\<rparr> = f" by simp
  ultimately have "parse_tlv_loop options acc r =
      parse_tlv_loop options (acc @ [f]) (br_advance (4 + length (tf_value f)) r)"
    using 1 2 3 n Cons.prems by (simp only: parse_tlv_loop.simps [of options acc r]) (simp add: eq)
  also have "\<dots> = Inr ((acc @ [f]) @ fs)"
    using Cons.prems rest by (intro Cons.IH) simp_all
  finally show ?case by simp
qed

lemma parse_encode_tlv:
  "tlv_within options fs \<Longrightarrow> encode_tlv_fields fs = Inr bs \<Longrightarrow> parse_tlv_fields bs options = Inr fs"
  using parse_tlv_run [of "br_init bs" fs "[]" options]
  by (simp add: parse_tlv_fields_def encode_tlv_fields_Inr tlv_within_def)

section \<open>Encoding inverts parsing\<close>

lemma split_u16:
  "ucast (ucast a OR push_bit 8 (ucast b) :: u16) = (a :: u8)"
  "drop_bit 8 (ucast a :: u16) = 0"
  "ucast (drop_bit 8 (push_bit 8 (ucast b) :: u16)) = (b :: u8)"
proof -
  have "\<not> bit a (8 + n)" for n
    using bit_imp_le_length [of a "8 + n"] by auto
  then show "drop_bit 8 (ucast a :: u16) = 0"
    by (intro bit_word_eqI) (simp add: bit_simps)
qed (rule bit_word_eqI; auto simp: bit_simps)+

lemma br_u16_bytes:
  assumes "br_u16 r = Inr (v, r')"
  shows "br_rest r = bw_u16 v [] @ br_rest r' \<and> r' = br_advance 2 r"
proof -
  from assms have len: "2 \<le> length (br_rest r)" and r': "r' = br_advance 2 r"
    and v: "v = ucast (br_data r ! (br_offset r + 0)) OR push_bit 8 (ucast (br_data r ! (br_offset r + 1)))"
    by (auto simp: br_u16_def rd_bind_def br_require_def br_remaining_rest br_advance_def split: if_splits)
  have v: "v = ucast (br_rest r ! 0) OR push_bit 8 (ucast (br_rest r ! 1))"
    using v len br_rest_nth [of 0 r] br_rest_nth [of 1 r] by (simp only:) 
  obtain a b t where rest: "br_rest r = a # b # t"
    using len by (cases "br_rest r"; cases "tl (br_rest r)") auto
  have "ucast v = a" "ucast (drop_bit 8 v) = b"
    unfolding v rest by (simp_all add: split_u16)
  then show ?thesis
    using rest r' by (simp add: bw_u16_def byte_mask)
qed

lemma parse_tlv_loop_step:
  assumes "parse_tlv_loop options acc r = Inr fs"
  obtains (stop) "fs = acc" "require_full_buffer options \<longrightarrow> br_rest r = []"
  | (field) f r' where "length acc < max_fields options" "length (tf_value f) \<le> max_value_size options"
      "length (tf_value f) \<le> 65535" "br_rest r = tlv_bytes f @ br_rest r'"
      "parse_tlv_loop options (acc @ [f]) r' = Inr fs"
proof (cases "br_empty r \<or> br_remaining r < 4")
  case True
  with assms have "fs = acc \<and> (require_full_buffer options \<longrightarrow> br_rest r = [])"
    by (simp only: parse_tlv_loop.simps [of options acc r])
      (simp add: br_empty_rest split: if_splits)
  then show ?thesis using stop by blast
next
  case False
  let ?step = "\<lambda>t r1 n r2 v r3. length acc < max_fields options \<and> br_u16 r = Inr (t, r1) \<and>
    br_u16 r1 = Inr (n, r2) \<and> unat n \<le> max_value_size options \<and> br_bytes (unat n) r2 = Inr (v, r3) \<and>
    parse_tlv_loop options (acc @ [\<lparr>tf_type = t, tf_value = v\<rparr>]) r3 = Inr fs"
  have "\<exists>t r1 n r2 v r3. ?step t r1 n r2 v r3"
    using assms False unfolding parse_tlv_loop.simps [of options acc r]
    by (auto split: if_splits sum.splits prod.splits)
  then obtain t r1 n r2 v r3 where "length acc < max_fields options"
    and 2: "br_u16 r = Inr (t, r1)" and 3: "br_u16 r1 = Inr (n, r2)"
    and n: "unat n \<le> max_value_size options" and 4: "br_bytes (unat n) r2 = Inr (v, r3)"
    and 5: "parse_tlv_loop options (acc @ [\<lparr>tf_type = t, tf_value = v\<rparr>]) r3 = Inr fs"
    by blast
  have len: "length v = unat n" using br_bytes_length [OF 4] .
  then have "br_rest r2 = v @ br_rest r3" using br_bytes_bytes [OF 4] by simp
  with br_u16_bytes [OF 2, THEN conjunct1] br_u16_bytes [OF 3, THEN conjunct1] len
  have "br_rest r = tlv_bytes \<lparr>tf_type = t, tf_value = v\<rparr> @ br_rest r3"
    by (simp add: tlv_bytes_def)
  moreover have "length v \<le> 65535"
    using len unat_u16_bound [of n] by simp
  moreover have "length v \<le> max_value_size options"
    using len n by simp
  ultimately show ?thesis
    by (intro field [of "\<lparr>tf_type = t, tf_value = v\<rparr>" r3]) (use \<open>length acc < max_fields options\<close> 5 in simp_all)
qed

lemma parse_tlv_inverse:
  "parse_tlv_loop options acc r = Inr fs \<Longrightarrow> length acc \<le> max_fields options \<Longrightarrow>
   \<exists>gs. fs = acc @ gs \<and> length fs \<le> max_fields options \<and>
        (\<forall>f \<in> set gs. length (tf_value f) \<le> max_value_size options \<and> length (tf_value f) \<le> 65535) \<and>
        (require_full_buffer options \<longrightarrow> br_rest r = concat (map tlv_bytes gs))"
proof (induction "max_fields options - length acc" arbitrary: acc r)
  case 0
  from 0(2) show ?case
    by (cases rule: parse_tlv_loop_step) (use 0 in auto)
next
  case (Suc n)
  from Suc(3) show ?case
  proof (cases rule: parse_tlv_loop_step)
    case stop
    with Suc show ?thesis by simp
  next
    case (field f r')
    have "n = max_fields options - length (acc @ [f])" "length (acc @ [f]) \<le> max_fields options"
      using Suc(2) by simp_all
    from Suc(1) [OF this(1) field(5) this(2)] obtain gs where
      "fs = (acc @ [f]) @ gs" "length fs \<le> max_fields options"
      "\<forall>f \<in> set gs. length (tf_value f) \<le> max_value_size options \<and> length (tf_value f) \<le> 65535"
      "require_full_buffer options \<longrightarrow> br_rest r' = concat (map tlv_bytes gs)"
      by blast
    then show ?thesis
      using field by (intro exI [of _ "f # gs"]) simp
  qed
qed

section \<open>Minimal little-endian integers\<close>

lemma le_minimal_bytes:
  "j < length (le_minimal v) \<Longrightarrow> le_minimal v ! j = byte_at v j"
proof (induction v arbitrary: j rule: le_minimal.induct)
  case (1 v)
  show ?case
  proof (cases j)
    case 0
    then show ?thesis by (subst le_minimal.simps) (simp add: Let_def byte_at_def)
  next
    case (Suc i)
    have "drop_bit 8 v \<noteq> 0" and i: "i < length (le_minimal (drop_bit 8 v))"
      using 1(2) Suc by (subst (asm) le_minimal.simps; simp add: Let_def split: if_splits)+
    then have "le_minimal v ! j = byte_at (drop_bit 8 v) i"
      using 1(1) [OF refl refl _ i] Suc by (subst le_minimal.simps) (simp add: Let_def)
    also have "\<dots> = byte_at v j"
      by (simp add: byte_at_def Suc ac_simps)
    finally show ?thesis .
  qed
qed

lemma le_minimal_bound:
  "k \<le> 8 \<Longrightarrow> unat v < 2 ^ (8 * k) \<Longrightarrow> 0 < k \<Longrightarrow> length (le_minimal v) \<le> k" for v :: u64
proof (induction v arbitrary: k rule: le_minimal.induct)
  case (1 v)
  show ?case
  proof (cases "drop_bit 8 v = 0")
    case True
    with 1 show ?thesis by (subst le_minimal.simps) (simp add: Let_def)
  next
    case False
    have div: "unat (drop_bit 8 v) = unat v div 256"
      by (simp add: drop_bit_eq_div unat_div)
    with False have "256 \<le> unat v"
      by (metis div_less not_less unat_eq_zero)
    with 1 have "k \<noteq> 1" by auto
    with 1 obtain i where i: "k = Suc i" "0 < i" by (cases k) auto
    have "unat v div 256 < 2 ^ (8 * i)"
      using 1 i by (simp add: less_mult_imp_div_less power_add mult.commute)
    with 1(1) [OF refl refl False, of i] 1(2) i False div
    show ?thesis by (subst le_minimal.simps) (simp add: Let_def)
  qed
qed

lemma le_minimal_nonempty: "le_minimal v \<noteq> []"
  by (subst le_minimal.simps) (simp add: Let_def)

lemma length_le_minimal: "length (le_minimal v) \<le> 8"
  by (rule le_minimal_bound) (use unat_u64_bound [of v] in simp_all)

text \<open>The bits above the emitted bytes are zero, so joining the emitted bytes is exact.\<close>

lemma le_minimal_high: "bit v n \<Longrightarrow> n < 8 * length (le_minimal v)"
proof (induction v arbitrary: n rule: le_minimal.induct)
  case (1 v)
  show ?case
  proof (cases "n < 8")
    case True
    then show ?thesis by (subst le_minimal.simps) (simp add: Let_def)
  next
    case False
    with 1(2) have b: "bit (drop_bit 8 v) (n - 8)" by (simp add: bit_drop_bit_eq)
    then have nz: "drop_bit 8 v \<noteq> 0" by auto
    from 1(1) [OF refl refl nz b] nz False show ?thesis
      by (subst le_minimal.simps) (simp add: Let_def)
  qed
qed

lemma tlv_unsigned_le_minimal: "tlv_unsigned \<lparr>tf_type = t, tf_value = le_minimal v\<rparr> = Some v"
proof -
  let ?n = "length (le_minimal v)"
  have "fold (or_shifted (le_minimal v) 0) [0..<?n] (0 :: u64) = v"
  proof (rule bit_word_eqI)
    fix n
    show "bit (fold (or_shifted (le_minimal v) 0) [0..<?n] (0 :: u64)) n = bit v n"
      using bit_or_shifted_prefix [of ?n "le_minimal v" 0 v n] le_minimal_high [of v n]
      by (auto simp: le_minimal_bytes)
  qed
  then show ?thesis
    using length_le_minimal [of v] by (simp add: tlv_unsigned_def le_minimal_nonempty)
qed

text \<open>A number made into a field by \<open>make_tlv_u64\<close> is read back from the wire.\<close>

lemma make_tlv_u64_bytes: "make_tlv_u64 t v = Inr (tlv_bytes \<lparr>tf_type = t, tf_value = le_minimal v\<rparr>)"
  using length_le_minimal [of v] by (simp add: make_tlv_u64_def encode_tlv_fields_Inr)

lemma parse_tlv_within: "parse_tlv_fields bs options = Inr fs \<Longrightarrow> tlv_within options fs"
  using parse_tlv_inverse [of options "[]" "br_init bs" fs]
  by (auto simp: parse_tlv_fields_def tlv_within_def)

lemma encode_parse_tlv:
  "parse_tlv_fields bs options = Inr fs \<Longrightarrow> require_full_buffer options \<Longrightarrow> encode_tlv_fields fs = Inr bs"
  using parse_tlv_inverse [of options "[]" "br_init bs" fs]
  by (auto simp: parse_tlv_fields_def encode_tlv_fields_Inr)

section \<open>Properties\<close>

text \<open>
  C22. With the whole buffer required, a byte string parses to a list of fields exactly when the
  list respects the parser's limits and encodes to that byte string: parser and encoder are
  inverse to each other, so there is one encoding per list and one list per encoding.
\<close>

theorem tlv_parse_iff_encode:
  assumes "require_full_buffer options"
  shows "parse_tlv_fields bs options = Inr fs \<longleftrightarrow> tlv_within options fs \<and> encode_tlv_fields fs = Inr bs"
  using assms parse_encode_tlv parse_tlv_within encode_parse_tlv by blast

lemma tlv_parse_iff_encode_witness:
  "parse_tlv_fields [7, 0, 2, 0, 5, 6] tlv_parse_options_default = Inr [\<lparr>tf_type = 7, tf_value = [5, 6]\<rparr>]"
  by (subst tlv_parse_iff_encode)
    (simp_all add: tlv_parse_options_default_def tlv_within_def encode_tlv_fields_Inr tlv_bytes_def bw_u16_def)

text \<open>
  A 64-bit number written by \<open>make_tlv_u64\<close> is found under its type and read back
  unchanged by a parser that allows one field of eight bytes.
\<close>

theorem tlv_u64_roundtrip:
  assumes "1 \<le> max_fields options" and "8 \<le> max_value_size options"
  shows "\<exists>bs field. make_tlv_u64 t v = Inr bs \<and> parse_tlv_fields bs options = Inr [field] \<and>
     find_tlv_field [field] t = Some field \<and> tlv_unsigned field = Some v"
  using parse_encode_tlv [of options "[\<lparr>tf_type = t, tf_value = le_minimal v\<rparr>]"] length_le_minimal [of v] assms
    make_tlv_u64_bytes [of t v]
  by (auto simp: make_tlv_u64_def tlv_within_def find_tlv_field_def tlv_unsigned_le_minimal)

lemma tlv_u64_roundtrip_witness:
  "\<exists>bs field. make_tlv_u64 3 65536 = Inr bs \<and> parse_tlv_fields bs tlv_parse_options_default = Inr [field] \<and>
     find_tlv_field [field] 3 = Some field \<and> tlv_unsigned field = Some 65536"
  by (rule tlv_u64_roundtrip) (simp_all add: tlv_parse_options_default_def)

end
