(* ===== verification/Transform.thy ===== *)
theory Transform
  imports Types Binary Crc
begin

text \<open>
  The payload transforms: \<open>src/compression/compressor.cpp\<close> and \<open>src/crypto/crypto.cpp\<close>.
  The abstract base classes are the locales \<open>compressor\<close> and \<open>cipher\<close>, interpreted on every
  implementation; \<open>make_compressor\<close> and \<open>make_cipher\<close> dispatch on the mode byte of a packet.
\<close>

section \<open>Compressors\<close>

definition null_compress :: "bytes \<Rightarrow> bytes" where
  "null_compress input = input"

definition null_decompress :: "bytes \<Rightarrow> nat \<Rightarrow> error + bytes" where
  "null_decompress input max_output = Inr input"

text \<open>The inner loop: how far the run of \<open>value\<close> reaches, at most 255.\<close>

fun rle_run :: "u8 \<Rightarrow> bytes \<Rightarrow> nat \<Rightarrow> nat" where
  "rle_run value [] run = run"
| "rle_run value (x # xs) run =
     (if x = value \<and> run < 255 then rle_run value xs (run + 1) else run)"

function rle_compress :: "bytes \<Rightarrow> bytes" where
  "rle_compress [] = []"
| "rle_compress (value # xs) =
     (let run = rle_run value xs 1
      in of_nat run # value # rle_compress (drop (run - 1) xs))"
  by pat_completeness auto
termination by (relation "measure length") (auto simp: less_Suc_eq_le)

declare rle_compress.simps(2) [simp del]

fun rle_expand :: "nat \<Rightarrow> bytes \<Rightarrow> bytes \<Rightarrow> error + bytes" where
  "rle_expand max_output out (run # value # rest) =
     (if length out + unat run > max_output
      then Inl (Error EC_malformed_packet ''rle output limit exceeded'')
      else rle_expand max_output (out @ replicate (unat run) value) rest)"
| "rle_expand max_output out _ = Inr out"

definition rle_decompress :: "bytes \<Rightarrow> nat \<Rightarrow> error + bytes" where
  "rle_decompress input max_output =
     (if length input mod 2 \<noteq> 0 then Inl (Error EC_malformed_packet ''malformed rle stream'')
      else rle_expand max_output [] input)"

datatype compressor = NullCompressor | RleCompressor

definition compress :: "compressor \<Rightarrow> bytes \<Rightarrow> bytes" where
  "compress c = (case c of NullCompressor \<Rightarrow> null_compress | RleCompressor \<Rightarrow> rle_compress)"

definition decompress :: "compressor \<Rightarrow> bytes \<Rightarrow> nat \<Rightarrow> error + bytes" where
  "decompress c = (case c of NullCompressor \<Rightarrow> null_decompress | RleCompressor \<Rightarrow> rle_decompress)"

definition make_compressor :: "compression_mode \<Rightarrow> error + compressor" where
  "make_compressor mode =
     (if mode = CM_none then Inr NullCompressor
      else if mode = CM_rle then Inr RleCompressor
      else Inl (Error EC_invalid_argument ''unsupported compression mode''))"

section \<open>Ciphers\<close>

record key_material =
  km_bytes :: bytes
  km_key_id :: u32

definition plain_seal :: "bytes \<Rightarrow> key_material \<Rightarrow> error + bytes" where
  "plain_seal input key = Inr input"

definition plain_open :: "bytes \<Rightarrow> key_material \<Rightarrow> error + bytes" where
  "plain_open input key = Inr input"

definition key_byte :: "key_material \<Rightarrow> nat \<Rightarrow> u8" where
  "key_byte key i = km_bytes key ! ((i + unat (km_key_id key)) mod length (km_bytes key))"

definition mask_bytes :: "key_material \<Rightarrow> bytes \<Rightarrow> bytes" where
  "mask_bytes key bs = map (\<lambda>i. bs ! i XOR key_byte key i) [0..<length bs]"

definition envelope_tag :: "key_material \<Rightarrow> bytes \<Rightarrow> u32" where
  "envelope_tag key plain = crc32c (km_bytes key) XOR crc32c plain"

definition envelope_seal :: "bytes \<Rightarrow> key_material \<Rightarrow> error + bytes" where
  "envelope_seal plain key =
     (if km_bytes key = [] then Inl (Error EC_invalid_argument ''missing key material'')
      else Inr (map (byte_at (envelope_tag key plain)) [0..<4] @ mask_bytes key plain))"

definition envelope_open :: "bytes \<Rightarrow> key_material \<Rightarrow> error + bytes" where
  "envelope_open sealed key =
     (if length sealed < 4 \<or> km_bytes key = [] then Inl (Error EC_malformed_packet ''bad envelope'')
      else let plain = mask_bytes key (drop 4 sealed); tag = fold (or_shifted sealed 0) [0..<4] 0
           in if tag \<noteq> envelope_tag key plain
              then Inl (Error EC_checksum_mismatch ''envelope tag mismatch'')
              else Inr plain)"

datatype cipher = PlainCipher | EnvelopeCipher

definition seal :: "cipher \<Rightarrow> bytes \<Rightarrow> key_material \<Rightarrow> error + bytes" where
  "seal c = (case c of PlainCipher \<Rightarrow> plain_seal | EnvelopeCipher \<Rightarrow> envelope_seal)"

definition open_sealed :: "cipher \<Rightarrow> bytes \<Rightarrow> key_material \<Rightarrow> error + bytes" where
  "open_sealed c = (case c of PlainCipher \<Rightarrow> plain_open | EnvelopeCipher \<Rightarrow> envelope_open)"

definition make_cipher :: "encryption_mode \<Rightarrow> error + cipher" where
  "make_cipher mode =
     (if mode = EM_none then Inr PlainCipher
      else if mode = EM_envelope then Inr EnvelopeCipher
      else Inl (Error EC_invalid_argument ''unsupported encryption mode''))"

section \<open>The compressor contract\<close>

locale lossless_compressor =
  fixes comp :: "bytes \<Rightarrow> bytes"
    and decomp :: "bytes \<Rightarrow> nat \<Rightarrow> error + bytes"
  assumes decomp_comp: "length xs \<le> limit \<Longrightarrow> decomp (comp xs) limit = Inr xs"
begin

lemma comp_inject: "comp xs = comp ys \<longleftrightarrow> xs = ys"
proof
  assume "comp xs = comp ys"
  moreover have "decomp (comp xs) (length xs + length ys) = Inr xs"
    "decomp (comp ys) (length xs + length ys) = Inr ys"
    by (rule decomp_comp, simp)+
  ultimately have "(Inr xs :: error + bytes) = Inr ys" by (simp only:)
  then show "xs = ys" by (rule sum.inject(2) [THEN iffD1])
qed simp

end

locale limited_compressor = lossless_compressor +
  assumes limit: "decomp ys limit = Inr xs \<Longrightarrow> length xs \<le> limit"
begin

lemma comp_over_limit: "limit < length xs \<Longrightarrow> \<exists>e. decomp (comp xs) limit = Inl e"
  if "\<And>ys l l' zs. decomp ys l = Inr zs \<Longrightarrow> l \<le> l' \<Longrightarrow> decomp ys l' = Inr zs" for xs limit
proof (cases "decomp (comp xs) limit")
  case (Inr zs)
  assume over: "limit < length xs"
  with that [OF Inr, of "length xs"] decomp_comp [of xs "length xs"] have "zs = xs" by simp
  with limit [OF Inr] over show ?thesis by simp
qed simp

end

interpretation null_compressor: lossless_compressor null_compress null_decompress
  by unfold_locales (simp add: null_compress_def null_decompress_def)

lemma rle_run_spec:
  "run \<le> 255 \<Longrightarrow> \<exists>k. rle_run v xs run = run + k \<and> run + k \<le> 255 \<and> k \<le> length xs \<and> take k xs = replicate k v"
proof (induction v xs run rule: rle_run.induct)
  case (2 v x xs run)
  show ?case
  proof (cases "x = v \<and> run < 255")
    case True
    with 2 obtain k where "rle_run v xs (run + 1) = run + 1 + k" "run + 1 + k \<le> 255"
      "k \<le> length xs" "take k xs = replicate k v"
      by auto
    with True show ?thesis by (intro exI [of _ "Suc k"]) simp
  next
    case False
    with 2 show ?thesis by (intro exI [of _ 0]) auto
  qed
qed simp

lemma rle_expand_compress:
  "length out + length xs \<le> limit \<Longrightarrow> rle_expand limit out (rle_compress xs) = Inr (out @ xs)"
proof (induction xs arbitrary: out rule: rle_compress.induct)
  case (2 v xs)
  obtain k where k: "rle_run v xs 1 = Suc k" "Suc k \<le> 255" "k \<le> length xs" "take k xs = replicate k v"
    using rle_run_spec [of 1 v xs] by auto
  have n: "unat (of_nat (Suc k) :: u8) = Suc k"
    using k(2) by (intro unat_of_nat_u8) simp
  have xs: "v # xs = replicate (Suc k) v @ drop k xs"
    using k(4) append_take_drop_id [of k xs] by simp
  have "rle_expand limit out (rle_compress (v # xs)) =
      rle_expand limit (out @ replicate (Suc k) v) (rle_compress (drop k xs))"
    using 2(2) k n by (simp add: rle_compress.simps(2) del: of_nat_Suc replicate_Suc)
  also have "\<dots> = Inr ((out @ replicate (Suc k) v) @ drop k xs)"
    using 2(1) [OF refl, of "out @ replicate (Suc k) v"] 2(2) k by simp
  also have "(out @ replicate (Suc k) v) @ drop k xs = out @ v # xs"
    by (simp only: xs append_assoc)
  finally show ?case .
qed simp

lemma even_rle_compress: "even (length (rle_compress xs))"
  by (induction xs rule: rle_compress.induct) (simp_all add: rle_compress.simps(2) Let_def)

lemma rle_expand_bound: "rle_expand limit out ys = Inr xs \<Longrightarrow> length out \<le> limit \<Longrightarrow> length xs \<le> limit"
  by (induction limit out ys rule: rle_expand.induct) (auto split: if_splits)

lemma rle_expand_mono: "rle_expand l out ys = Inr zs \<Longrightarrow> l \<le> l' \<Longrightarrow> rle_expand l' out ys = Inr zs"
  by (induction l out ys rule: rle_expand.induct) (auto split: if_splits)

interpretation rle_compressor: limited_compressor rle_compress rle_decompress
proof unfold_locales
  show "rle_decompress (rle_compress xs) limit = Inr xs" if "length xs \<le> limit" for xs limit
    using that rle_expand_compress [of "[]" xs limit] even_rle_compress [of xs]
    by (simp add: rle_decompress_def even_iff_mod_2_eq_zero)
  show "length xs \<le> limit" if "rle_decompress ys limit = Inr xs" for ys limit xs
    using that rle_expand_bound [of limit "[]" ys xs] by (auto simp: rle_decompress_def split: if_splits)
qed

lemma rle_decompress_mono: "rle_decompress ys l = Inr zs \<Longrightarrow> l \<le> l' \<Longrightarrow> rle_decompress ys l' = Inr zs"
  by (auto simp: rle_decompress_def split: if_splits intro: rle_expand_mono)

text \<open>Whatever mode is selected, decompression inverts compression.\<close>

interpretation any_compressor: lossless_compressor "compress c" "decompress c" for c
  by unfold_locales
    (cases c; simp add: compress_def decompress_def null_compressor.decomp_comp rle_compressor.decomp_comp)

section \<open>The cipher contract\<close>

locale sealing =
  fixes sealf :: "bytes \<Rightarrow> key_material \<Rightarrow> error + bytes"
    and openf :: "bytes \<Rightarrow> key_material \<Rightarrow> error + bytes"
    and usable :: "key_material \<Rightarrow> bool"
  assumes seal_usable: "usable key \<Longrightarrow> \<exists>s. sealf plain key = Inr s"
    and open_seal: "sealf plain key = Inr s \<Longrightarrow> openf s key = Inr plain"
begin

lemma seal_inject: "sealf p key = Inr s \<Longrightarrow> sealf q key = Inr s \<Longrightarrow> p = q"
  using open_seal [of p key s] open_seal [of q key s] by simp

end

interpretation plain_cipher: sealing plain_seal plain_open "\<lambda>_. True"
  by unfold_locales (simp_all add: plain_seal_def plain_open_def)

lemma length_mask_bytes [simp]: "length (mask_bytes key bs) = length bs"
  by (simp add: mask_bytes_def)

lemma mask_bytes_nth: "i < length bs \<Longrightarrow> mask_bytes key bs ! i = bs ! i XOR key_byte key i"
  by (simp add: mask_bytes_def)

lemma mask_bytes_mask [simp]: "mask_bytes key (mask_bytes key bs) = bs"
  by (rule nth_equalityI) (simp_all add: mask_bytes_nth xor.assoc)

lemma take_mask_bytes: "take n (mask_bytes key bs) = mask_bytes key (take n bs)"
  by (rule nth_equalityI) (simp_all add: mask_bytes_nth)

lemma tag_joined: "fold (or_shifted (map (byte_at (v :: u32)) [0..<4] @ bs) 0) [0..<4] 0 = v"
  by (rule or_shifted_join) (simp_all add: nth_append)

interpretation envelope_cipher: sealing envelope_seal envelope_open "\<lambda>key. km_bytes key \<noteq> []"
proof unfold_locales
  fix plain key s
  assume "envelope_seal plain key = Inr s"
  then show "envelope_open s key = Inr plain"
    using tag_joined [of "envelope_tag key plain" "mask_bytes key plain"]
    by (auto simp: envelope_seal_def envelope_open_def Let_def split: if_splits)
qed (simp add: envelope_seal_def)

interpretation any_cipher: sealing "seal c" "open_sealed c" "\<lambda>key. km_bytes key \<noteq> []" for c
proof unfold_locales
  show "\<exists>s. seal c plain key = Inr s" if "km_bytes key \<noteq> []" for plain key
    using that plain_cipher.seal_usable envelope_cipher.seal_usable by (cases c) (simp_all add: seal_def)
  show "open_sealed c s key = Inr plain" if "seal c plain key = Inr s" for plain key s
    using that plain_cipher.open_seal envelope_cipher.open_seal
    by (cases c) (simp_all add: seal_def open_sealed_def)
qed

section \<open>Tampering with an envelope\<close>

lemma mask_bytes_window:
  assumes "length w = length w'"
  obtains as u u' bs where "mask_bytes key (xs @ w @ ys) = as @ u @ bs"
    "mask_bytes key (xs @ w' @ ys) = as @ u' @ bs" "length u = length w" "length u' = length w"
    "u = u' \<longrightarrow> w = w'"
proof
  let ?m = "mask_bytes key (xs @ w @ ys)" and ?m' = "mask_bytes key (xs @ w' @ ys)"
  let ?i = "length xs" and ?n = "length w"
  have split: "m = take ?i m @ take ?n (drop ?i m) @ drop (?i + ?n) m" for m :: bytes
    by (metis add.commute append_take_drop_id drop_drop)
  show "?m = take ?i ?m @ take ?n (drop ?i ?m) @ drop (?i + ?n) ?m" by (rule split)
  have "take ?i ?m' = take ?i ?m"
    by (simp add: take_mask_bytes)
  moreover have "drop (?i + ?n) ?m' = drop (?i + ?n) ?m"
    by (rule nth_equalityI) (use assms in \<open>simp_all add: mask_bytes_nth nth_append\<close>)
  ultimately show "?m' = take ?i ?m @ take ?n (drop ?i ?m') @ drop (?i + ?n) ?m"
    using split [of ?m'] by simp
  show "take ?n (drop ?i ?m) = take ?n (drop ?i ?m') \<longrightarrow> w = w'"
  proof
    assume eq: "take ?n (drop ?i ?m) = take ?n (drop ?i ?m')"
    show "w = w'"
    proof (rule nth_equalityI [OF assms])
      fix j assume j: "j < ?n"
      have "?m ! (?i + j) = ?m' ! (?i + j)"
        using arg_cong [OF eq, of "\<lambda>l. l ! j"] j assms by simp
      then show "w ! j = w' ! j"
        using j assms by (simp add: mask_bytes_nth nth_append)
    qed
  qed
qed (use assms in simp_all)

lemma length_rle_compress: "length (rle_compress xs) \<le> 2 * length xs"
proof (induction xs rule: rle_compress.induct)
  case (2 v xs)
  from 2 [OF refl] show ?case by (simp add: rle_compress.simps(2) Let_def)
qed simp

lemma rle_over_limit: "limit < length xs \<Longrightarrow> \<exists>e. rle_decompress (rle_compress xs) limit = Inl e"
  by (rule rle_compressor.comp_over_limit [OF rle_decompress_mono])


lemma envelope_tamper_body:
  assumes "envelope_open (tag @ xs @ w @ ys) key = Inr p" and "length tag = 4"
    and "length w = length w'" and "length w \<le> 4" and "w \<noteq> w'"
  shows "envelope_open (tag @ xs @ w' @ ys) key = Inl (Error EC_checksum_mismatch ''envelope tag mismatch'')"
proof -
  obtain as u u' bs where m: "mask_bytes key (xs @ w @ ys) = as @ u @ bs"
    "mask_bytes key (xs @ w' @ ys) = as @ u' @ bs" and u: "length u = length w" "length u' = length w"
    "u = u' \<longrightarrow> w = w'"
    by (rule mask_bytes_window [OF assms(3)])
  have ne: "crc32c (as @ u @ bs) \<noteq> crc32c (as @ u' @ bs)"
    using crc32c_burst [of u u' as bs] u assms(4,5) by auto
  have tag: "fold (or_shifted (tag @ zs) 0) [0..<4] (0 :: u32) = fold (or_shifted tag 0) [0..<4] 0" for zs
    using assms(2) by (intro fold_cong refl) (simp add: or_shifted_def nth_append fun_eq_iff)
  from assms(1,2) have "fold (or_shifted tag 0) [0..<4] 0 = envelope_tag key (as @ u @ bs)" "km_bytes key \<noteq> []"
    by (auto simp: envelope_open_def Let_def m tag split: if_splits)
  with ne assms(2) show ?thesis
    by (simp add: envelope_open_def Let_def m tag envelope_tag_def)
qed


section \<open>Properties\<close>

text \<open>
  Whatever compressor is selected, decompression within a limit that admits the original
  returns it; and run-length decompression never produces more than the limit and reports an
  error when the original is longer. Run-length encoding at most doubles the data.
\<close>

theorem compression_roundtrip:
  "(length xs \<le> limit \<longrightarrow> decompress c (compress c xs) limit = Inr xs) \<and>
   (limit < length xs \<longrightarrow> (\<exists>e. rle_decompress (rle_compress xs) limit = Inl e)) \<and>
   (rle_decompress ys limit = Inr zs \<longrightarrow> length zs \<le> limit) \<and>
   length (rle_compress xs) \<le> 2 * length xs"
  using any_compressor.decomp_comp rle_over_limit rle_compressor.limit length_rle_compress by blast

lemma compression_roundtrip_witness:
  "decompress RleCompressor (compress RleCompressor [7, 7, 7, 1]) 4 = Inr [7, 7, 7, 1] \<and>
   (\<exists>e. rle_decompress (rle_compress [7, 7, 7, 1]) 3 = Inl e)"
  using compression_roundtrip [of "[7, 7, 7, 1]" 4 RleCompressor] compression_roundtrip [of "[7, 7, 7, 1]" 3 RleCompressor]
  by simp

text \<open>
  What a cipher seals under a non-empty key, it opens to the original; in the envelope,
  replacing at most four consecutive bytes of the sealed body is reported as a tag mismatch.
\<close>

theorem sealing_correct:
  assumes "km_bytes key \<noteq> []"
  shows "(\<exists>s. seal c plain key = Inr s \<and> open_sealed c s key = Inr plain) \<and>
    (\<forall>tag xs w w' ys p. envelope_open (tag @ xs @ w @ ys) key = Inr p \<and> length tag = 4 \<and>
      length w = length w' \<and> length w \<le> 4 \<and> w \<noteq> w' \<longrightarrow>
     envelope_open (tag @ xs @ w' @ ys) key = Inl (Error EC_checksum_mismatch ''envelope tag mismatch''))"
  using any_cipher.seal_usable [OF assms] any_cipher.open_seal envelope_tamper_body by blast

lemma sealing_correct_witness:
  "\<exists>tag b. envelope_open (tag @ [b]) \<lparr>km_bytes = [9], km_key_id = 1\<rparr> = Inr [5] \<and>
     envelope_open (tag @ [b + 1]) \<lparr>km_bytes = [9], km_key_id = 1\<rparr> =
       Inl (Error EC_checksum_mismatch ''envelope tag mismatch'')"
proof -
  let ?key = "\<lparr>km_bytes = [9], km_key_id = 1\<rparr>"
  have key: "km_bytes ?key \<noteq> []" by simp
  obtain s where s: "envelope_seal [5] ?key = Inr s" "envelope_open s ?key = Inr [5]"
    using sealing_correct [OF key, of EnvelopeCipher "[5]", THEN conjunct1] by (auto simp: seal_def open_sealed_def)
  then obtain tag b where tag: "s = tag @ [b]" "length tag = 4"
    by (auto simp: envelope_seal_def mask_bytes_def)
  have "envelope_open (tag @ [] @ [b + 1] @ []) ?key = Inl (Error EC_checksum_mismatch ''envelope tag mismatch'')"
    by (rule sealing_correct [OF key, THEN conjunct2, rule_format, where w = "[b]" and p = "[5]"])
      (use s tag in simp_all)
  with s tag show ?thesis by (intro exI [of _ tag] exI [of _ b]) simp
qed

end
