(* ===== verification/Batch.thy ===== *)
theory Batch
  imports Packet_Integrity "HOL-Library.Multiset" "HOL-Library.Product_Lexorder"
begin

text \<open>
  Building packets and handling batches of them: \<open>src/protocol/packet_builder.cpp\<close>,
  \<open>src/protocol/packet_batch.cpp\<close> and \<open>src/protocol/batch_codec.cpp\<close>. The batch codec is
  the packet codec repeated under a count, so its round trip is the frame round trip lifted
  through \<open>codec.repeat_roundtrip\<close>.
\<close>

section \<open>PacketBuilder\<close>

text \<open>The setters return the builder, so a chain of calls is a composition of updates.\<close>

type_synonym packet_builder = packet

definition builder_init :: packet_builder where
  "builder_init = packet_default"

definition pb_version :: "protocol_version \<Rightarrow> packet_builder \<Rightarrow> packet_builder" where
  "pb_version value b = b\<lparr>p_version := value\<rparr>"

definition pb_kind :: "packet_kind \<Rightarrow> packet_builder \<Rightarrow> packet_builder" where
  "pb_kind value b = b\<lparr>p_kind := value\<rparr>"

definition pb_device :: "device_id \<Rightarrow> packet_builder \<Rightarrow> packet_builder" where
  "pb_device value b = b\<lparr>p_device := value\<rparr>"

definition pb_timestamp :: "u64 \<Rightarrow> packet_builder \<Rightarrow> packet_builder" where
  "pb_timestamp value b = b\<lparr>p_timestamp_ns := value\<rparr>"

definition pb_sequence :: "u32 \<Rightarrow> packet_builder \<Rightarrow> packet_builder" where
  "pb_sequence value b = b\<lparr>p_sequence := value\<rparr>"

definition pb_payload :: "bytes \<Rightarrow> packet_builder \<Rightarrow> packet_builder" where
  "pb_payload value b = b\<lparr>p_payload := value\<rparr>"

definition pb_route :: "routing_info \<Rightarrow> packet_builder \<Rightarrow> packet_builder" where
  "pb_route value b = b\<lparr>p_route := Some value\<rparr>"

definition pb_fragment :: "fragment_info \<Rightarrow> packet_builder \<Rightarrow> packet_builder" where
  "pb_fragment value b = b\<lparr>p_fragment := Some value\<rparr>"

definition pb_capabilities :: "device_capabilities \<Rightarrow> packet_builder \<Rightarrow> packet_builder" where
  "pb_capabilities value b = b\<lparr>p_capabilities := Some value\<rparr>"

definition pb_extension :: "extension_header \<Rightarrow> packet_builder \<Rightarrow> packet_builder" where
  "pb_extension value b = b\<lparr>p_extensions := p_extensions b @ [value]\<rparr>"

definition pb_build :: "packet_builder \<Rightarrow> packet" where
  "pb_build b = b"

definition pb_reset :: "packet_builder \<Rightarrow> packet_builder" where
  "pb_reset b = packet_default"

lemmas builder_defs = builder_init_def pb_version_def pb_kind_def pb_device_def pb_timestamp_def
  pb_sequence_def pb_payload_def pb_route_def pb_fragment_def pb_capabilities_def
  pb_extension_def pb_build_def pb_reset_def

definition make_heartbeat :: "device_id \<Rightarrow> u64 \<Rightarrow> u32 \<Rightarrow> packet" where
  "make_heartbeat device timestamp_ns sequence =
     pb_build (pb_sequence sequence (pb_timestamp timestamp_ns (pb_device device
       (pb_kind PK_heartbeat builder_init))))"

definition make_observation :: "device_id \<Rightarrow> u64 \<Rightarrow> u32 \<Rightarrow> bytes \<Rightarrow> packet" where
  "make_observation device timestamp_ns sequence payload =
     pb_build (pb_payload payload (pb_sequence sequence (pb_timestamp timestamp_ns (pb_device device
       (pb_kind PK_observation builder_init)))))"

definition make_control :: "device_id \<Rightarrow> u64 \<Rightarrow> u32 \<Rightarrow> bytes \<Rightarrow> routing_info \<Rightarrow> packet" where
  "make_control device timestamp_ns sequence payload route =
     pb_build (pb_route route (pb_payload payload (pb_sequence sequence (pb_timestamp timestamp_ns
       (pb_device device (pb_kind PK_control builder_init))))))"

lemma heartbeat_ok: "packet_ok (make_heartbeat d t s)"
  by (simp add: make_heartbeat_def builder_defs packet_default_def packet_ok_def)

lemma observation_ok: "length bs < 2 ^ 32 \<Longrightarrow> packet_ok (make_observation d t s bs)"
  by (simp add: make_observation_def builder_defs packet_default_def packet_ok_def)

section \<open>PacketBatch\<close>

type_synonym packet_batch = "packet list"

record packet_batch_summary =
  pbs_packet_count :: u64
  pbs_payload_bytes :: u64
  pbs_first_timestamp_ns :: u64
  pbs_last_timestamp_ns :: u64

text \<open>
  \<open>std::sort\<close> leaves the order of packets that compare equal unspecified; the stable order
  is one of the permitted results.
\<close>

definition batch_order :: "packet \<Rightarrow> u64 \<times> device_id \<times> u32" where
  "batch_order p = (p_timestamp_ns p, p_device p, p_sequence p)"

definition sort_batch_by_time :: "packet_batch \<Rightarrow> packet_batch" where
  "sort_batch_by_time batch = sort_key batch_order batch"

definition summarize_step :: "packet \<Rightarrow> bool \<times> packet_batch_summary \<Rightarrow> bool \<times> packet_batch_summary" where
  "summarize_step packet state =
     (let have_time = fst state;
          summary = (snd state)\<lparr>pbs_payload_bytes :=
            pbs_payload_bytes (snd state) + of_nat (length (p_payload packet))\<rparr>
      in if \<not> have_time
         then (True, summary\<lparr>pbs_first_timestamp_ns := p_timestamp_ns packet,
                             pbs_last_timestamp_ns := p_timestamp_ns packet\<rparr>)
         else (have_time, summary\<lparr>
           pbs_first_timestamp_ns := min (pbs_first_timestamp_ns summary) (p_timestamp_ns packet),
           pbs_last_timestamp_ns := max (pbs_last_timestamp_ns summary) (p_timestamp_ns packet)\<rparr>))"

definition summarize_batch :: "packet_batch \<Rightarrow> packet_batch_summary" where
  "summarize_batch batch =
     snd (fold summarize_step batch
       (False, \<lparr>pbs_packet_count = of_nat (length batch), pbs_payload_bytes = 0,
                pbs_first_timestamp_ns = 0, pbs_last_timestamp_ns = 0\<rparr>))"

definition filter_batch_by_device :: "packet_batch \<Rightarrow> device_id \<Rightarrow> packet_batch" where
  "filter_batch_by_device batch device = filter (\<lambda>packet. p_device packet = device) batch"

definition filter_batch_by_kind :: "packet_batch \<Rightarrow> packet_kind \<Rightarrow> packet_batch" where
  "filter_batch_by_kind batch kind = filter (\<lambda>packet. p_kind packet = kind) batch"

definition render_batch_summary :: "packet_batch_summary \<Rightarrow> string" where
  "render_batch_summary summary =
     ''packet_batch'' @ newline @
     ''  packets: '' @ dec (pbs_packet_count summary) @ newline @
     ''  payload_bytes: '' @ dec (pbs_payload_bytes summary) @ newline @
     ''  first_timestamp_ns: '' @ dec (pbs_first_timestamp_ns summary) @ newline @
     ''  last_timestamp_ns: '' @ dec (pbs_last_timestamp_ns summary) @ newline"

lemma sort_batch_correct:
  "mset (sort_batch_by_time batch) = mset batch \<and> sorted (map batch_order (sort_batch_by_time batch))"
  by (simp add: sort_batch_by_time_def)

lemma summarize_run:
  "fold summarize_step ps (True, s) = (True, s\<lparr>
     pbs_payload_bytes := pbs_payload_bytes s + of_nat (\<Sum>p\<leftarrow>ps. length (p_payload p)),
     pbs_first_timestamp_ns := fold min (map p_timestamp_ns ps) (pbs_first_timestamp_ns s),
     pbs_last_timestamp_ns := fold max (map p_timestamp_ns ps) (pbs_last_timestamp_ns s)\<rparr>)"
proof (induction ps arbitrary: s)
  case (Cons p ps)
  have "fold summarize_step (p # ps) (True, s) =
      fold summarize_step ps (True, snd (summarize_step p (True, s)))"
    by (simp add: summarize_step_def Let_def)
  then show ?case
    by (simp only: Cons.IH) (simp add: summarize_step_def Let_def min.commute max.commute)
qed simp

lemma fold_min_Min: "fold min xs (x :: 'a::linorder) = Min (insert x (set xs))"
  by (metis Min.set_eq_fold list.simps(15) fold_simps(2))

lemma fold_max_Max: "fold max xs (x :: 'a::linorder) = Max (insert x (set xs))"
  by (metis Max.set_eq_fold list.simps(15) fold_simps(2))

section \<open>The batch codec\<close>

fun encode_batch_frames :: "packet list \<Rightarrow> binary_writer \<Rightarrow> error + binary_writer" where
  "encode_batch_frames [] writer = Inr writer"
| "encode_batch_frames (packet # packets) writer =
     err_bind (encode_packet packet) (\<lambda>frame.
       encode_batch_frames packets (bw_bytes frame (bw_u32 (of_nat (length frame)) writer)))"

definition encode_packet_batch :: "packet_batch \<Rightarrow> error + bytes" where
  "encode_packet_batch batch =
     (if length batch > 65535 then Inl (Error EC_invalid_argument ''packet batch is too large'')
      else encode_batch_frames batch (bw_u16 (of_nat (length batch)) []))"

definition read_batch_frame :: "packet reader" where
  "read_batch_frame = rd_bind br_u32 (\<lambda>frame_size. rd_bind (br_bytes (unat frame_size)) (\<lambda>frame.
     rd_lift (decode_packet frame decode_options_default)))"

definition decode_packet_batch :: "bytes \<Rightarrow> error + packet_batch" where
  "decode_packet_batch bs =
     (case rd_bind br_u16 (\<lambda>count. rd_repeat (unat count) read_batch_frame) (br_init bs) of
        Inl e \<Rightarrow> Inl e
      | Inr (packets, reader) \<Rightarrow>
          if \<not> br_empty reader then Inl (Error EC_malformed_packet ''trailing packet batch bytes'')
          else Inr packets)"

text \<open>A packet the batch can carry: well formed, and its frame fits the decoder's limit.\<close>

definition batch_frame_bytes :: "packet \<Rightarrow> bytes" where
  "batch_frame_bytes p = bw_u32 (of_nat (length (frame_of p))) [] @ frame_of p"

definition batchable :: "packet \<Rightarrow> bool" where
  "batchable p \<longleftrightarrow> packet_ok p \<and> length (frame_of p) \<le> 1048576"

lemma decode_frame_of:
  "batchable p \<Longrightarrow> decode_packet (frame_of p) decode_options_default = Inr p"
  by (rule decode_encoded_packet)
    (auto simp: batchable_def encode_frame_of decode_options_default_def)

interpretation batch_frame_codec: codec batch_frame_bytes read_batch_frame batchable
proof
  fix p
  assume p: "batchable p"
  then have n: "unat (of_nat (length (frame_of p)) :: u32) = length (frame_of p)"
    by (intro unat_of_nat_u32) (simp add: batchable_def)
  show "decodes read_batch_frame (batch_frame_bytes p) p"
    unfolding read_batch_frame_def batch_frame_bytes_def
    by (rule decodes_bind [OF decodes_u32], rule decodes_last [OF decodes_bytes])
      (simp_all add: n decodes_lift decode_frame_of [OF p])
qed

lemma encode_batch_frames_ok:
  "\<forall>p \<in> set ps. batchable p \<Longrightarrow> encode_batch_frames ps w = Inr (w @ concat (map batch_frame_bytes ps))"
  by (induction ps arbitrary: w)
    (simp_all add: encode_frame_of batchable_def batch_frame_bytes_def bw_defs)

section \<open>Properties\<close>

text \<open>
  A batch of well-formed packets whose frames fit the decoder's limit, at most 65535 of
  them, is encoded, and decoding the bytes gives the batch back: same packets, same order.
\<close>

theorem batch_roundtrip:
  assumes "\<forall>p \<in> set ps. batchable p" and "length ps \<le> 65535"
  shows "\<exists>bs. encode_packet_batch ps = Inr bs \<and> decode_packet_batch bs = Inr ps"
proof -
  let ?bs = "bw_u16 (of_nat (length ps)) [] @ concat (map batch_frame_bytes ps)"
  have enc: "encode_packet_batch ps = Inr ?bs"
    using assms by (simp add: encode_packet_batch_def encode_batch_frames_ok)
  have n: "unat (of_nat (length ps) :: u16) = length ps"
    using assms(2) by (intro unat_of_nat_u16) simp
  have "decodes (rd_bind br_u16 (\<lambda>count. rd_repeat (unat count) read_batch_frame)) ?bs ps"
    by (rule decodes_bind [OF decodes_u16]) (simp add: n batch_frame_codec.repeat_roundtrip assms(1))
  from decodesD [OF this, of "br_init ?bs" "[]"] enc show ?thesis
    by (simp add: decode_packet_batch_def br_empty_rest)
qed

lemma batch_roundtrip_witness:
  "\<exists>bs. encode_packet_batch [sample_packet, beacon] = Inr bs \<and> decode_packet_batch bs = Inr [sample_packet, beacon]"
  by (rule batch_roundtrip) (simp_all add: batchable_def length_frame_of)

text \<open>
  Sorting a batch keeps its packets and orders them by timestamp, and the summary of a
  non-empty batch is its size, its total payload, and its least and greatest timestamp.
\<close>

theorem batch_sort_summary:
  "mset (sort_batch_by_time batch) = mset batch \<and> sorted (map p_timestamp_ns (sort_batch_by_time batch)) \<and>
   (batch \<noteq> [] \<longrightarrow> summarize_batch batch =
     \<lparr>pbs_packet_count = of_nat (length batch),
      pbs_payload_bytes = of_nat (\<Sum>p\<leftarrow>batch. length (p_payload p)),
      pbs_first_timestamp_ns = Min (set (map p_timestamp_ns batch)),
      pbs_last_timestamp_ns = Max (set (map p_timestamp_ns batch))\<rparr>)"
proof (intro conjI impI)
  show "mset (sort_batch_by_time batch) = mset batch" using sort_batch_correct by simp
  have "sorted_wrt (\<lambda>p q. p_timestamp_ns p \<le> p_timestamp_ns q) (sort_batch_by_time batch)"
    by (rule sorted_wrt_mono_rel [where P = "\<lambda>p q. batch_order p \<le> batch_order q"])
      (use sort_batch_correct [of batch] in \<open>auto simp: batch_order_def sorted_wrt_map less_eq_prod_def\<close>)
  then show "sorted (map p_timestamp_ns (sort_batch_by_time batch))" by (simp add: sorted_wrt_map)
  assume "batch \<noteq> []"
  then show "summarize_batch batch =
     \<lparr>pbs_packet_count = of_nat (length batch),
      pbs_payload_bytes = of_nat (\<Sum>p\<leftarrow>batch. length (p_payload p)),
      pbs_first_timestamp_ns = Min (set (map p_timestamp_ns batch)),
      pbs_last_timestamp_ns = Max (set (map p_timestamp_ns batch))\<rparr>"
    by (cases batch)
      (simp_all add: summarize_batch_def summarize_step_def [of _ "(False, _)"] Let_def summarize_run
        fold_min_Min fold_max_Max)
qed

lemma batch_sort_summary_witness:
  "pbs_last_timestamp_ns (summarize_batch [sample_packet, beacon]) = 1000"
  using batch_sort_summary [of "[sample_packet, beacon]"]
  by (simp add: sample_packet_def beacon_def packet_default_def)

end
