(* ===== verification/Inspector.thy ===== *)
theory Inspector
  imports Types
begin

text \<open>
  Human-readable views of a packet and the version tables: \<open>src/protocol/inspector.cpp\<close>,
  \<open>src/protocol/version_matrix.cpp\<close> and \<open>src/protocol/negotiation.cpp\<close>. An
  \<open>ostringstream\<close> that is written piece by piece is the concatenation of the pieces.
\<close>

section \<open>Inspection\<close>

record packet_inspection =
  pi_version :: string
  pi_kind :: string
  pi_device :: string
  pi_timestamp_ns :: u64
  pi_sequence :: u32
  pi_payload_size :: nat
  pi_metadata :: "string list"
  pi_warnings :: "string list"

definition hex_digit :: "u64 \<Rightarrow> nat \<Rightarrow> char" where
  "hex_digit value i = hex_alphabet ! unat (drop_bit (4 * i) value AND 0x0f)"

definition hex_id :: "u64 \<Rightarrow> string" where
  "hex_id value = ''0x'' @ map (hex_digit value) (rev [0..<16])"

fun join_comma :: "string list \<Rightarrow> string" where
  "join_comma [] = []"
| "join_comma [s] = s"
| "join_comma (s # ss) = s @ '','' @ join_comma ss"

definition add_fragment_metadata :: "packet_inspection \<Rightarrow> fragment_info \<Rightarrow> packet_inspection" where
  "add_fragment_metadata inspection fragment =
     (let inspection = inspection\<lparr>pi_metadata := pi_metadata inspection @
            [''fragment stream='' @ dec (fi_stream_id fragment) @
             '' sequence='' @ dec (fi_sequence fragment) @
             '' count='' @ dec (fi_count fragment)]\<rparr>
      in if fi_count fragment = 0 \<or> fi_sequence fragment \<ge> fi_count fragment
         then inspection\<lparr>pi_warnings := pi_warnings inspection @ [''fragment coordinates are invalid'']\<rparr>
         else inspection)"

definition add_route_metadata :: "packet_inspection \<Rightarrow> routing_info \<Rightarrow> packet_inspection" where
  "add_route_metadata inspection route =
     inspection\<lparr>pi_metadata := pi_metadata inspection @
       [''route region='' @ dec (ri_region route) @
        '' collector='' @ dec (ri_collector route) @
        '' priority='' @ dec (ri_priority route) @
        (if ri_relay_path route \<noteq> []
         then '' relays='' @ join_comma (map dec (ri_relay_path route)) else [])]\<rparr>"

definition add_capability_metadata :: "packet_inspection \<Rightarrow> device_capabilities \<Rightarrow> packet_inspection" where
  "add_capability_metadata inspection caps =
     inspection\<lparr>pi_metadata := pi_metadata inspection @
       [''capabilities max_payload='' @ dec (dc_max_payload caps) @
        '' compression='' @ yes_no (dc_supports_compression caps) @
        '' encryption='' @ yes_no (dc_supports_encryption caps) @
        '' gps_time='' @ yes_no (dc_has_gps_time caps) @
        (if dc_sensor_bands caps \<noteq> []
         then '' bands='' @ join_comma (dc_sensor_bands caps) else [])]\<rparr>"

definition version_name :: "protocol_version \<Rightarrow> string" where
  "version_name version = (case version of V1 \<Rightarrow> ''v1'' | V2 \<Rightarrow> ''v2'' | V3 \<Rightarrow> ''v3'')"

definition packet_kind_name :: "packet_kind \<Rightarrow> string" where
  "packet_kind_name kind = (case kind of
     PK_heartbeat \<Rightarrow> ''heartbeat''
   | PK_observation \<Rightarrow> ''observation''
   | PK_spectrum \<Rightarrow> ''spectrum''
   | PK_control \<Rightarrow> ''control''
   | PK_capabilities \<Rightarrow> ''capabilities'')"

definition compression_name :: "compression_mode \<Rightarrow> string" where
  "compression_name mode =
     (if mode = CM_none then ''none'' else if mode = CM_rle then ''rle'' else ''unknown'')"

definition encryption_name :: "encryption_mode \<Rightarrow> string" where
  "encryption_name mode =
     (if mode = EM_none then ''none'' else if mode = EM_envelope then ''envelope'' else ''unknown'')"

definition extension_metadata :: "extension_header \<Rightarrow> string" where
  "extension_metadata extension =
     ''extension type='' @ dec (eh_type extension) @ '' bytes='' @ dec_nat (length (eh_value extension))"

definition inspect_packet :: "packet \<Rightarrow> packet_inspection" where
  "inspect_packet packet =
     (let inspection = \<lparr>pi_version = version_name (p_version packet),
            pi_kind = packet_kind_name (p_kind packet), pi_device = hex_id (p_device packet),
            pi_timestamp_ns = p_timestamp_ns packet, pi_sequence = p_sequence packet,
            pi_payload_size = length (p_payload packet),
            pi_metadata = [''compression='' @ compression_name (p_compression packet),
                           ''encryption='' @ encryption_name (p_encryption packet)],
            pi_warnings = []\<rparr>;
          inspection = (case p_fragment packet of None \<Rightarrow> inspection
            | Some fragment \<Rightarrow> add_fragment_metadata inspection fragment);
          inspection = (case p_route packet of None \<Rightarrow> inspection
            | Some route \<Rightarrow> add_route_metadata inspection route);
          inspection = (case p_capabilities packet of None \<Rightarrow> inspection
            | Some caps \<Rightarrow> add_capability_metadata inspection caps);
          inspection = inspection\<lparr>pi_metadata :=
            pi_metadata inspection @ map extension_metadata (p_extensions packet)\<rparr>
      in if p_payload packet = [] \<and> p_kind packet \<noteq> PK_heartbeat
         then inspection\<lparr>pi_warnings :=
           pi_warnings inspection @ [''non-heartbeat packet has empty payload'']\<rparr>
         else inspection)"

definition render_packet_inspection :: "packet_inspection \<Rightarrow> string" where
  "render_packet_inspection inspection =
     ''packet '' @ pi_kind inspection @ '' '' @ pi_version inspection @ newline @
     ''  device: '' @ pi_device inspection @ newline @
     ''  timestamp_ns: '' @ dec (pi_timestamp_ns inspection) @ newline @
     ''  sequence: '' @ dec (pi_sequence inspection) @ newline @
     ''  payload_size: '' @ dec_nat (pi_payload_size inspection) @ newline @
     concat (map (\<lambda>item. ''  meta: '' @ item @ newline) (pi_metadata inspection)) @
     concat (map (\<lambda>warning. ''  warning: '' @ warning @ newline) (pi_warnings inspection))"

text \<open>The device identifier is always eighteen characters and identifies the device.\<close>

lemma length_hex_id [simp]: "length (hex_id v) = 18"
  by (simp add: hex_id_def)

lemma hex_alphabet_distinct: "i < 16 \<Longrightarrow> j < 16 \<Longrightarrow> hex_alphabet ! i = hex_alphabet ! j \<longleftrightarrow> i = j"
proof -
  have "distinct hex_alphabet" "length hex_alphabet = 16"
    by (simp_all add: hex_alphabet_def)
  then show "i < 16 \<Longrightarrow> j < 16 \<Longrightarrow> hex_alphabet ! i = hex_alphabet ! j \<longleftrightarrow> i = j"
    by (simp add: nth_eq_iff_index_eq)
qed

lemma and_15: "w AND 0x0f = take_bit 4 (w :: u64)"
proof -
  have "(0x0f :: u64) = mask 4" by (simp add: mask_eq_exp_minus_1)
  then show ?thesis by (simp add: take_bit_eq_mask)
qed

lemma nibble_bound: "unat (w AND 0x0f :: u64) < 16"
  by (simp only: and_15 unsigned_take_bit_eq) (simp add: take_bit_eq_mod)

lemma hex_digit_inject: "hex_digit v i = hex_digit w i \<Longrightarrow> take_bit 4 (drop_bit (4 * i) v) = take_bit 4 (drop_bit (4 * i) w)"
  by (simp add: hex_digit_def hex_alphabet_distinct nibble_bound word_unat_eq_iff [symmetric] flip: and_15)

lemma hex_id_inject: "hex_id v = hex_id w \<longleftrightarrow> v = w"
proof
  assume "hex_id v = hex_id w"
  then have digits: "\<forall>i \<in> set (rev [0..<16]). hex_digit v i = hex_digit w i"
    by (simp only: hex_id_def append.simps list.inject map_eq_conv simp_thms)
  show "v = w"
  proof (rule bit_word_eqI)
    fix n
    assume "n < LENGTH(64)"
    then have "n div 4 \<in> set (rev [0..<16])" by auto
    then have "take_bit 4 (drop_bit (4 * (n div 4)) v) = take_bit 4 (drop_bit (4 * (n div 4)) w)"
      using digits hex_digit_inject by blast
    from arg_cong [OF this, of "\<lambda>x. bit x (n mod 4)"] show "bit v n = bit w n"
      by (simp add: bit_take_bit_iff bit_drop_bit_eq)
  qed
qed simp

text \<open>A packet draws a warning exactly when its fragment coordinates or its payload call for one.\<close>

lemma inspect_warnings:
  "pi_warnings (inspect_packet p) =
     (case p_fragment p of
        Some f \<Rightarrow> if fi_count f = 0 \<or> fi_sequence f \<ge> fi_count f
                  then [''fragment coordinates are invalid''] else []
      | None \<Rightarrow> []) @
     (if p_payload p = [] \<and> p_kind p \<noteq> PK_heartbeat
      then [''non-heartbeat packet has empty payload''] else [])"
  by (auto simp: inspect_packet_def add_fragment_metadata_def add_route_metadata_def
      add_capability_metadata_def Let_def split: option.split)

section \<open>The version matrix\<close>

datatype protocol_feature = PF_routing | PF_fragments | PF_capabilities | PF_extensions | PF_encryption

record version_feature =
  vf_version :: protocol_version
  vf_feature :: protocol_feature
  vf_supported :: bool

definition feature_supported :: "protocol_version \<Rightarrow> protocol_feature \<Rightarrow> bool" where
  "feature_supported version feature = (case feature of
     PF_routing \<Rightarrow> version \<ge> V2
   | PF_fragments \<Rightarrow> version \<ge> V2
   | PF_capabilities \<Rightarrow> version \<ge> V3
   | PF_extensions \<Rightarrow> version \<ge> V3
   | PF_encryption \<Rightarrow> version \<ge> V3)"

definition build_version_matrix :: "version_feature list" where
  "build_version_matrix =
     concat (map (\<lambda>version. map (\<lambda>feature.
         \<lparr>vf_version = version, vf_feature = feature, vf_supported = feature_supported version feature\<rparr>)
       [PF_routing, PF_fragments, PF_capabilities, PF_extensions, PF_encryption]) [V1, V2, V3])"

definition protocol_feature_name :: "protocol_feature \<Rightarrow> string" where
  "protocol_feature_name feature = (case feature of
     PF_routing \<Rightarrow> ''routing''
   | PF_fragments \<Rightarrow> ''fragments''
   | PF_capabilities \<Rightarrow> ''capabilities''
   | PF_extensions \<Rightarrow> ''extensions''
   | PF_encryption \<Rightarrow> ''encryption'')"

definition render_version_matrix :: string where
  "render_version_matrix =
     ''version_matrix'' @ newline @
     concat (map (\<lambda>item. ''  '' @ version_name (vf_version item) @ '' '' @
       protocol_feature_name (vf_feature item) @ ''='' @ yes_no (vf_supported item) @ newline)
       build_version_matrix)"

text \<open>A later version supports every feature of an earlier one.\<close>

lemma feature_monotone: "v \<le> w \<Longrightarrow> feature_supported v f \<Longrightarrow> feature_supported w f"
  by (cases f) (auto simp: feature_supported_def)

section \<open>Negotiation\<close>

datatype negotiation_decision =
    ND_accepted | ND_downgraded_version | ND_disabled_compression | ND_disabled_encryption
  | ND_rejected_payload_limit | ND_rejected_version

record negotiation_policy =
  ng_minimum_version :: protocol_version
  ng_maximum_version :: protocol_version
  ng_require_encryption :: bool
  ng_prefer_compression :: bool
  ng_minimum_payload :: u16

definition negotiation_policy_default :: negotiation_policy where
  "negotiation_policy_default = \<lparr>ng_minimum_version = V1, ng_maximum_version = V3,
     ng_require_encryption = False, ng_prefer_compression = True, ng_minimum_payload = 256\<rparr>"

record negotiation_note =
  nn_decision :: negotiation_decision
  nn_message :: string

record negotiation_result =
  nr_accepted :: bool
  nr_protocol :: negotiated_protocol
  nr_remote_max_payload :: u16
  nr_notes :: "negotiation_note list"

definition add_note :: "negotiation_result \<Rightarrow> negotiation_decision \<Rightarrow> string \<Rightarrow> negotiation_result" where
  "add_note result decision message =
     result\<lparr>nr_notes := nr_notes result @ [\<lparr>nn_decision = decision, nn_message = message\<rparr>]\<rparr>"

definition highest_common_version :: "negotiation_policy \<Rightarrow> protocol_version" where
  "highest_common_version policy =
     (if version_number (ng_maximum_version policy) < version_number (ng_minimum_version policy)
      then ng_minimum_version policy else ng_maximum_version policy)"

definition negotiate_protocol :: "negotiation_policy \<Rightarrow> device_capabilities \<Rightarrow> negotiation_result" where
  "negotiate_protocol policy remote =
     (let result = \<lparr>nr_accepted = False,
            nr_protocol = \<lparr>np_selected = highest_common_version policy, np_compression = False,
                           np_encryption = False\<rparr>,
            nr_remote_max_payload = dc_max_payload remote, nr_notes = []\<rparr>
      in if version_number (ng_maximum_version policy) < version_number (ng_minimum_version policy)
         then (add_note result ND_rejected_version ''invalid local version policy'')\<lparr>nr_accepted := False\<rparr>
         else if dc_max_payload remote < ng_minimum_payload policy
         then (add_note result ND_rejected_payload_limit
                (''remote max payload '' @ dec (dc_max_payload remote) @
                 '' is below required '' @ dec (ng_minimum_payload policy)))\<lparr>nr_accepted := False\<rparr>
         else if ng_require_encryption policy \<and> \<not> dc_supports_encryption remote
         then (add_note result ND_disabled_encryption ''remote does not support encryption'')\<lparr>nr_accepted := False\<rparr>
         else
           let result = result\<lparr>nr_protocol := (nr_protocol result)\<lparr>
                 np_compression := ng_prefer_compression policy \<and> dc_supports_compression remote,
                 np_encryption := dc_supports_encryption remote\<rparr>\<rparr>;
               result = (if ng_prefer_compression policy \<and> \<not> dc_supports_compression remote
                 then add_note result ND_disabled_compression ''compression disabled by remote capabilities''
                 else result);
               result = (if \<not> dc_supports_encryption remote
                 then add_note result ND_disabled_encryption ''encryption disabled by remote capabilities''
                 else result);
               result = (if nr_notes result = []
                 then add_note result ND_accepted ''negotiation accepted without downgrade''
                 else result)
           in result\<lparr>nr_accepted := True\<rparr>)"

definition version_allowed :: "protocol_version \<Rightarrow> negotiation_policy \<Rightarrow> bool" where
  "version_allowed version policy \<longleftrightarrow>
     version_number version \<ge> version_number (ng_minimum_version policy) \<and>
     version_number version \<le> version_number (ng_maximum_version policy)"

text \<open>\<open>std::clamp\<close>; the standard asks for lo <= hi and leaves the rest undefined.\<close>

definition clamp_version :: "protocol_version \<Rightarrow> negotiation_policy \<Rightarrow> protocol_version" where
  "clamp_version requested policy =
     (if version_number requested < version_number (ng_minimum_version policy)
      then ng_minimum_version policy
      else if version_number (ng_maximum_version policy) < version_number requested
      then ng_maximum_version policy else requested)"

definition negotiation_decision_name :: "negotiation_decision \<Rightarrow> string" where
  "negotiation_decision_name decision = (case decision of
     ND_accepted \<Rightarrow> ''accepted''
   | ND_downgraded_version \<Rightarrow> ''downgraded_version''
   | ND_disabled_compression \<Rightarrow> ''disabled_compression''
   | ND_disabled_encryption \<Rightarrow> ''disabled_encryption''
   | ND_rejected_payload_limit \<Rightarrow> ''rejected_payload_limit''
   | ND_rejected_version \<Rightarrow> ''rejected_version'')"

definition render_negotiation_result :: "negotiation_result \<Rightarrow> string" where
  "render_negotiation_result result =
     ''negotiation '' @ (if nr_accepted result then ''accepted'' else ''rejected'') @ newline @
     ''  version: '' @ version_name (np_selected (nr_protocol result)) @ newline @
     ''  compression: '' @ yes_no (np_compression (nr_protocol result)) @ newline @
     ''  encryption: '' @ yes_no (np_encryption (nr_protocol result)) @ newline @
     ''  remote_max_payload: '' @ dec (nr_remote_max_payload result) @ newline @
     concat (map (\<lambda>note. ''  note: '' @ negotiation_decision_name (nn_decision note) @ '' '' @
       nn_message note @ newline) (nr_notes result))"

lemmas negotiate_simps = negotiate_protocol_def add_note_def highest_common_version_def Let_def

lemma clamp_version_allowed:
  "version_number (ng_minimum_version policy) \<le> version_number (ng_maximum_version policy) \<Longrightarrow>
   version_allowed (clamp_version v policy) policy \<and>
   (version_allowed v policy \<longrightarrow> clamp_version v policy = v)"
  by (auto simp: version_allowed_def clamp_version_def not_less)

section \<open>Properties\<close>

text \<open>
  Negotiation succeeds exactly when the policy's version range is not empty, the remote
  takes payloads of the required size, and encryption is available where required. What is then
  agreed is an allowed version, encryption as the remote supports it, and compression only where
  both sides want it. Every outcome carries at least one note. (The version agreed is always the
  policy's maximum: the remote's versions are not consulted.)
\<close>

theorem negotiation_outcome:
  "let result = negotiate_protocol policy remote; agreed = nr_protocol result in
    (nr_accepted result \<longleftrightarrow>
      version_number (ng_minimum_version policy) \<le> version_number (ng_maximum_version policy) \<and>
      ng_minimum_payload policy \<le> dc_max_payload remote \<and>
      (ng_require_encryption policy \<longrightarrow> dc_supports_encryption remote)) \<and>
    (nr_accepted result \<longrightarrow>
      np_selected agreed = ng_maximum_version policy \<and> version_allowed (np_selected agreed) policy \<and>
      np_encryption agreed = dc_supports_encryption remote \<and>
      np_compression agreed = (ng_prefer_compression policy \<and> dc_supports_compression remote)) \<and>
    nr_notes result \<noteq> []"
  by (auto simp: negotiate_simps version_allowed_def not_less split: if_splits)

lemma negotiation_outcome_witness:
  "nr_accepted (negotiate_protocol negotiation_policy_default device_capabilities_default) \<and>
   np_selected (nr_protocol (negotiate_protocol negotiation_policy_default device_capabilities_default)) = V3"
  using negotiation_outcome [of negotiation_policy_default device_capabilities_default]
  by (simp add: negotiation_policy_default_def device_capabilities_default_def Let_def)

end
