(* ===== verification/Validator.thy ===== *)
theory Validator
  imports Tlv Inspector
begin

text \<open>
  The extension registry and the semantic packet checks: \<open>src/protocol/extension_registry.cpp\<close>
  and \<open>src/protocol/validator.cpp\<close>. The registry is a vector searched linearly; the locale
  \<open>keyed_registry\<close> states the laws its clients use.
\<close>

section \<open>ExtensionRegistry\<close>

datatype extension_value_kind = EV_opaque | EV_unsigned_integer | EV_utf8_string | EV_nested_tlv

record extension_descriptor =
  ed_type :: u16
  ed_name :: string
  ed_value_kind :: extension_value_kind
  ed_min_size :: nat
  ed_max_size :: nat
  ed_repeatable :: bool

record extension_validation_issue =
  ei_type :: u16
  ei_message :: string

type_synonym extension_registry = "extension_descriptor list"

fun registry_add :: "extension_descriptor \<Rightarrow> extension_registry \<Rightarrow> extension_registry" where
  "registry_add descriptor [] = [descriptor]"
| "registry_add descriptor (item # items) =
     (if ed_type item = ed_type descriptor then descriptor # items
      else item # registry_add descriptor items)"

definition registry_find :: "u16 \<Rightarrow> extension_registry \<Rightarrow> extension_descriptor option" where
  "registry_find type descriptors = find (\<lambda>descriptor. ed_type descriptor = type) descriptors"

definition default_extension_registry :: extension_registry where
  "default_extension_registry = fold registry_add
     [\<lparr>ed_type = 1, ed_name = ''collector_id'', ed_value_kind = EV_unsigned_integer,
       ed_min_size = 1, ed_max_size = 8, ed_repeatable = False\<rparr>,
      \<lparr>ed_type = 2, ed_name = ''site_name'', ed_value_kind = EV_utf8_string,
       ed_min_size = 1, ed_max_size = 128, ed_repeatable = False\<rparr>,
      \<lparr>ed_type = 3, ed_name = ''capture_tags'', ed_value_kind = EV_nested_tlv,
       ed_min_size = 0, ed_max_size = 4096, ed_repeatable = True\<rparr>,
      \<lparr>ed_type = 4, ed_name = ''firmware_build'', ed_value_kind = EV_utf8_string,
       ed_min_size = 1, ed_max_size = 128, ed_repeatable = False\<rparr>,
      \<lparr>ed_type = 5, ed_name = ''operator_note'', ed_value_kind = EV_utf8_string,
       ed_min_size = 0, ed_max_size = 512, ed_repeatable = True\<rparr>] []"

definition count_type :: "extension_header list \<Rightarrow> u16 \<Rightarrow> nat" where
  "count_type extensions type = length (filter (\<lambda>extension. eh_type extension = type) extensions)"

definition extension_issues ::
  "extension_header list \<Rightarrow> extension_registry \<Rightarrow> extension_header \<Rightarrow> extension_validation_issue list" where
  "extension_issues extensions registry extension =
     (let issue = (\<lambda>message. \<lparr>ei_type = eh_type extension, ei_message = message\<rparr>)
      in case registry_find (eh_type extension) registry of
        None \<Rightarrow> [issue ''unknown extension type'']
      | Some descriptor \<Rightarrow>
          (if length (eh_value extension) < ed_min_size descriptor
           then [issue ''extension value is shorter than allowed''] else []) @
          (if length (eh_value extension) > ed_max_size descriptor
           then [issue ''extension value is larger than allowed''] else []) @
          (if \<not> ed_repeatable descriptor \<and> count_type extensions (eh_type extension) > 1
           then [issue ''extension type is not repeatable''] else []))"

definition validate_extensions ::
  "extension_header list \<Rightarrow> extension_registry \<Rightarrow> extension_validation_issue list" where
  "validate_extensions extensions registry =
     concat (map (extension_issues extensions registry) extensions)"

definition extension_value_kind_name :: "extension_value_kind \<Rightarrow> string" where
  "extension_value_kind_name kind = (case kind of
     EV_opaque \<Rightarrow> ''opaque''
   | EV_unsigned_integer \<Rightarrow> ''unsigned_integer''
   | EV_utf8_string \<Rightarrow> ''utf8_string''
   | EV_nested_tlv \<Rightarrow> ''nested_tlv'')"

definition extension_field :: "extension_header \<Rightarrow> tlv_field" where
  "extension_field extension = \<lparr>tf_type = eh_type extension, tf_value = eh_value extension\<rparr>"

definition render_unsigned_value :: "extension_header \<Rightarrow> string" where
  "render_unsigned_value extension =
     (case tlv_unsigned (extension_field extension) of
        None \<Rightarrow> ''invalid_unsigned'' | Some value \<Rightarrow> dec value)"

definition render_string_value :: "extension_header \<Rightarrow> string" where
  "render_string_value extension =
     (case tlv_string (extension_field extension) 4096 of
        None \<Rightarrow> ''invalid_string'' | Some value \<Rightarrow> value)"

definition render_tlv_value :: "extension_header \<Rightarrow> string" where
  "render_tlv_value extension =
     (case parse_tlv_fields (eh_value extension)
        \<lparr>max_fields = 32, max_value_size = 4096, require_full_buffer = False\<rparr> of
        Inl _ \<Rightarrow> ''invalid_tlv'' | Inr fs \<Rightarrow> dec_nat (length fs) @ '' tlv fields'')"

definition render_extension :: "extension_header \<Rightarrow> extension_registry \<Rightarrow> string" where
  "render_extension extension registry =
     extension_metadata extension @
     (case registry_find (eh_type extension) registry of
        None \<Rightarrow> '' name=unknown value='' @ to_hex (eh_value extension) 64
      | Some descriptor \<Rightarrow>
          '' name='' @ ed_name descriptor @
          '' kind='' @ extension_value_kind_name (ed_value_kind descriptor) @ '' value='' @
          (case ed_value_kind descriptor of
             EV_opaque \<Rightarrow> to_hex (eh_value extension) 64
           | EV_unsigned_integer \<Rightarrow> render_unsigned_value extension
           | EV_utf8_string \<Rightarrow> render_string_value extension
           | EV_nested_tlv \<Rightarrow> render_tlv_value extension))"

section \<open>The registry contract\<close>

locale keyed_registry =
  fixes add :: "'d \<Rightarrow> 'r \<Rightarrow> 'r"
    and look :: "'k \<Rightarrow> 'r \<Rightarrow> 'd option"
    and key :: "'d \<Rightarrow> 'k"
    and none :: 'r
  assumes look_none: "look k none = None"
    and look_add: "look k (add d r) = (if key d = k then Some d else look k r)"
begin

text \<open>A registry built by a sequence of registrations answers with the last one for the key.\<close>

lemma look_fold: "look k (fold add ds r) =
    (case find (\<lambda>d. key d = k) (rev ds) of Some d \<Rightarrow> Some d | None \<Rightarrow> look k r)"
proof (induction ds arbitrary: r rule: rev_induct)
  case (snoc d ds)
  then show ?case by (simp add: look_add)
qed simp

lemma look_key: "look k (fold add ds none) = Some d \<Longrightarrow> key d = k \<and> d \<in> set ds"
  by (auto simp: look_fold look_none find_Some_iff split: option.splits) (simp add: rev_nth)

end

lemma registry_find_add:
  "registry_find type (registry_add descriptor ds) =
     (if ed_type descriptor = type then Some descriptor else registry_find type ds)"
  by (induction descriptor ds rule: registry_add.induct) (auto simp: registry_find_def)

interpretation extension_registry: keyed_registry registry_add registry_find ed_type "[]"
  by unfold_locales (simp_all add: registry_find_add registry_find_def [of _ "[]"])

lemma registry_add_types:
  "ed_type ` set (registry_add d ds) = insert (ed_type d) (ed_type ` set ds)"
  by (induction d ds rule: registry_add.induct) auto

lemma registry_add_distinct: "distinct (map ed_type ds) \<Longrightarrow> distinct (map ed_type (registry_add d ds))"
proof (induction d ds rule: registry_add.induct)
  case (2 d item items)
  then show ?case
    using registry_add_types [of d items] by (auto simp: image_iff)
qed simp

interpretation registry_types: state_machine "[]" registry_add "\<lambda>ds. distinct (map ed_type ds)"
  by unfold_locales (simp_all add: registry_add_distinct)

section \<open>Packet validation\<close>

datatype validation_severity = VS_note | VS_warning | VS_error

record packet_validation_rule_set =
  vr_max_timestamp_ns :: u64
  vr_max_sequence_jump :: u32
  vr_max_extensions :: nat
  vr_max_payload_size :: nat
  vr_require_route_for_control :: bool

definition packet_validation_rule_set_default :: packet_validation_rule_set where
  "packet_validation_rule_set_default = \<lparr>vr_max_timestamp_ns = 0, vr_max_sequence_jump = 1000000,
     vr_max_extensions = 64, vr_max_payload_size = 16 * 1024 * 1024, vr_require_route_for_control = True\<rparr>"

record packet_validation_issue =
  vi_severity :: validation_severity
  vi_code :: string
  vi_message :: string

type_synonym packet_validation_report = "packet_validation_issue list"

definition report_ok :: "packet_validation_report \<Rightarrow> bool" where
  "report_ok issues \<longleftrightarrow> (\<forall>issue \<in> set issues. vi_severity issue \<noteq> VS_error)"

definition add_issue ::
  "validation_severity \<Rightarrow> string \<Rightarrow> string \<Rightarrow> packet_validation_report \<Rightarrow> packet_validation_report" where
  "add_issue severity cd message report =
     report @ [\<lparr>vi_severity = severity, vi_code = cd, vi_message = message\<rparr>]"

definition validate_payload ::
  "packet \<Rightarrow> packet_validation_rule_set \<Rightarrow> packet_validation_report \<Rightarrow> packet_validation_report" where
  "validate_payload packet rules report =
     (let report = (if length (p_payload packet) > vr_max_payload_size rules
            then add_issue VS_error ''packet.payload_too_large''
                   ''packet payload exceeds configured maximum'' report else report)
      in if p_payload packet = [] \<and> p_kind packet \<noteq> PK_heartbeat
         then add_issue VS_warning ''packet.empty_payload''
                ''non-heartbeat packet has an empty payload'' report else report)"

definition validate_fragment :: "packet \<Rightarrow> packet_validation_report \<Rightarrow> packet_validation_report" where
  "validate_fragment packet report = (case p_fragment packet of
     None \<Rightarrow> report
   | Some fragment \<Rightarrow>
       let report = (if fi_count fragment = 0
             then add_issue VS_error ''fragment.zero_count'' ''fragment count is zero'' report
             else report)
       in if fi_sequence fragment \<ge> fi_count fragment
          then add_issue VS_error ''fragment.sequence_out_of_range''
                 ''fragment sequence is outside fragment count'' report
          else report)"

definition validate_route ::
  "packet \<Rightarrow> packet_validation_rule_set \<Rightarrow> packet_validation_report \<Rightarrow> packet_validation_report" where
  "validate_route packet rules report =
     (let report = (if p_kind packet = PK_control \<and> vr_require_route_for_control rules \<and> p_route packet = None
            then add_issue VS_warning ''route.missing_control_route''
                   ''control packet has no route information'' report else report)
      in case p_route packet of
        None \<Rightarrow> report
      | Some route \<Rightarrow>
          if length (ri_relay_path route) > 16
          then add_issue VS_warning ''route.long_relay_path''
                 ''relay path contains more than sixteen hops'' report
          else report)"

definition validate_capabilities :: "packet \<Rightarrow> packet_validation_report \<Rightarrow> packet_validation_report" where
  "validate_capabilities packet report = (case p_capabilities packet of
     None \<Rightarrow> report
   | Some caps \<Rightarrow>
       let report = (if dc_max_payload caps = 0
             then add_issue VS_error ''capabilities.zero_payload''
                    ''device capabilities report a zero max payload'' report else report)
       in if dc_sensor_bands caps = []
          then add_issue VS_warning ''capabilities.no_bands''
                 ''device capabilities contain no sensor bands'' report
          else report)"

definition validate_extensions_for_packet ::
  "packet \<Rightarrow> packet_validation_rule_set \<Rightarrow> extension_registry \<Rightarrow> packet_validation_report \<Rightarrow>
   packet_validation_report" where
  "validate_extensions_for_packet packet rules registry report =
     (let report = (if length (p_extensions packet) > vr_max_extensions rules
            then add_issue VS_error ''extension.too_many''
                   ''packet has more extensions than allowed'' report else report)
      in fold (\<lambda>issue. add_issue VS_warning ''extension.invalid'' (ei_message issue))
           (validate_extensions (p_extensions packet) registry) report)"

definition validate_packet_semantics ::
  "packet \<Rightarrow> packet_validation_rule_set \<Rightarrow> extension_registry \<Rightarrow> packet_validation_report" where
  "validate_packet_semantics packet rules registry =
     (let report = (if vr_max_timestamp_ns rules \<noteq> 0 \<and> p_timestamp_ns packet > vr_max_timestamp_ns rules
            then add_issue VS_warning ''packet.timestamp_future''
                   ''packet timestamp is greater than configured maximum'' [] else []);
          report = validate_payload packet rules report;
          report = validate_fragment packet report;
          report = validate_route packet rules report;
          report = validate_capabilities packet report;
          report = validate_extensions_for_packet packet rules registry report
      in if report = []
         then add_issue VS_note ''packet.ok'' ''packet semantic checks passed'' report
         else report)"

definition validation_severity_name :: "validation_severity \<Rightarrow> string" where
  "validation_severity_name severity = (case severity of
     VS_note \<Rightarrow> ''note'' | VS_warning \<Rightarrow> ''warning'' | VS_error \<Rightarrow> ''error'')"

definition render_packet_validation_report :: "packet_validation_report \<Rightarrow> string" where
  "render_packet_validation_report report =
     ''packet_validation'' @ newline @
     ''  ok: '' @ yes_no (report_ok report) @ newline @
     concat (map (\<lambda>issue. ''  issue: '' @ validation_severity_name (vi_severity issue) @ '' '' @
       vi_code issue @ '' '' @ vi_message issue @ newline) report)"

section \<open>What an accepted packet satisfies\<close>

lemma report_ok_add [simp]: "report_ok (add_issue s c m r) \<longleftrightarrow> s \<noteq> VS_error \<and> report_ok r"
  by (auto simp: report_ok_def add_issue_def)

lemma report_ok_Nil [simp]: "report_ok []"
  by (simp add: report_ok_def)

lemma report_ok_issues [simp]:
  "report_ok (fold (\<lambda>issue. add_issue VS_warning c (m issue)) issues r) = report_ok r"
  by (induction issues arbitrary: r) simp_all

lemma ok_payload: "report_ok (validate_payload p rules r) \<longleftrightarrow>
    report_ok r \<and> length (p_payload p) \<le> vr_max_payload_size rules"
  by (auto simp: validate_payload_def Let_def)

lemma ok_fragment: "report_ok (validate_fragment p r) \<longleftrightarrow>
    report_ok r \<and> (\<forall>f. p_fragment p = Some f \<longrightarrow> fi_sequence f < fi_count f)"
  by (auto simp: validate_fragment_def Let_def not_le split: option.split)

lemma ok_route: "report_ok (validate_route p rules r) \<longleftrightarrow> report_ok r"
  by (auto simp: validate_route_def Let_def split: option.split)

lemma ok_capabilities: "report_ok (validate_capabilities p r) \<longleftrightarrow>
    report_ok r \<and> (\<forall>c. p_capabilities p = Some c \<longrightarrow> dc_max_payload c \<noteq> 0)"
  by (auto simp: validate_capabilities_def Let_def split: option.split)

lemma ok_extensions: "report_ok (validate_extensions_for_packet p rules reg r) \<longleftrightarrow>
    report_ok r \<and> length (p_extensions p) \<le> vr_max_extensions rules"
  by (auto simp: validate_extensions_for_packet_def Let_def)

lemma ok_semantics:
  "report_ok (validate_packet_semantics p rules reg) \<longleftrightarrow>
     length (p_payload p) \<le> vr_max_payload_size rules \<and>
     (\<forall>f. p_fragment p = Some f \<longrightarrow> fi_sequence f < fi_count f) \<and>
     (\<forall>c. p_capabilities p = Some c \<longrightarrow> dc_max_payload c \<noteq> 0) \<and>
     length (p_extensions p) \<le> vr_max_extensions rules"
proof -
  have "report_ok (validate_packet_semantics p rules reg) =
      report_ok (validate_extensions_for_packet p rules reg (validate_capabilities p
        (validate_route p rules (validate_fragment p (validate_payload p rules
          (if vr_max_timestamp_ns rules \<noteq> 0 \<and> p_timestamp_ns p > vr_max_timestamp_ns rules
           then add_issue VS_warning ''packet.timestamp_future''
                  ''packet timestamp is greater than configured maximum'' [] else []))))))"
    unfolding validate_packet_semantics_def Let_def by (simp split: if_split)
  then show ?thesis
    by (simp add: ok_payload ok_fragment ok_route ok_capabilities ok_extensions split: if_split)
qed

section \<open>Properties\<close>

text \<open>
  The report of the semantic checks is free of errors exactly when the payload and the
  number of extensions are within the rules, fragment coordinates are in range, and announced
  capabilities take a payload; routes and unknown extensions only ever produce warnings. The
  report is never empty.
\<close>

theorem validation_verdict:
  "(report_ok (validate_packet_semantics p rules reg) \<longleftrightarrow>
     length (p_payload p) \<le> vr_max_payload_size rules \<and>
     (\<forall>f. p_fragment p = Some f \<longrightarrow> fi_sequence f < fi_count f) \<and>
     (\<forall>c. p_capabilities p = Some c \<longrightarrow> dc_max_payload c \<noteq> 0) \<and>
     length (p_extensions p) \<le> vr_max_extensions rules) \<and>
   validate_packet_semantics p rules reg \<noteq> []"
  by (simp add: ok_semantics, simp add: validate_packet_semantics_def Let_def add_issue_def)

lemma validation_verdict_witness:
  "report_ok (validate_packet_semantics packet_default packet_validation_rule_set_default []) \<and>
   \<not> report_ok (validate_packet_semantics
     (packet_default\<lparr>p_fragment := Some \<lparr>fi_stream_id = 1, fi_sequence = 2, fi_count = 2\<rparr>\<rparr>)
     packet_validation_rule_set_default [])"
  using validation_verdict [of packet_default packet_validation_rule_set_default "[]"]
    validation_verdict [of "packet_default\<lparr>p_fragment := Some \<lparr>fi_stream_id = 1, fi_sequence = 2, fi_count = 2\<rparr>\<rparr>"
      packet_validation_rule_set_default "[]"]
  by (simp add: packet_default_def packet_validation_rule_set_default_def)

end
