(* ===== verification/Stream_Parser.thy ===== *)
theory Stream_Parser
  imports Packet_Integrity
begin

text \<open>
  The incremental frame parser of \<open>src/stream/stream_parser.cpp\<close>. The deque is the list of
  bytes not yet consumed; the packet and error handlers are the log of events they receive.
  The parser refines the abstract view of the stream as one byte string: how the bytes are cut
  into calls of \<open>push\<close> makes no difference.
\<close>

section \<open>Definitions\<close>

datatype stream_event = Delivered packet | Failed error

definition le_word :: "u8 \<Rightarrow> u8 \<Rightarrow> u8 \<Rightarrow> u8 \<Rightarrow> u32" where
  "le_word b0 b1 b2 b3 =
     ucast b0 OR push_bit 8 (ucast b1) OR push_bit 16 (ucast b2) OR push_bit 24 (ucast b3)"

fun discard_until_magic :: "bytes \<Rightarrow> bytes" where
  "discard_until_magic (b0 # b1 # b2 # b3 # rest) =
     (if le_word b0 b1 b2 b3 = packet_magic then b0 # b1 # b2 # b3 # rest
      else discard_until_magic (b1 # b2 # b3 # rest))"
| "discard_until_magic buffer = buffer"

definition decode_event :: "decode_options \<Rightarrow> bytes \<Rightarrow> stream_event" where
  "decode_event options frame =
     (case decode_packet frame options of Inl e \<Rightarrow> Failed e | Inr packet \<Rightarrow> Delivered packet)"

definition try_extract_one :: "decode_options \<Rightarrow> bytes \<Rightarrow> bool \<times> stream_event list \<times> bytes" where
  "try_extract_one options buffer =
     (let buffer = discard_until_magic buffer
      in if length buffer < 8 then (False, [], buffer)
      else
        let body_len = le_word (buffer ! 4) (buffer ! 5) (buffer ! 6) (buffer ! 7);
            frame_len = unat body_len + 12
        in if frame_len > max_packet_size options
           then (True, [Failed (Error EC_malformed_packet
                          ''stream frame exceeds configured packet limit'')], tl buffer)
           else if length buffer < frame_len then (False, [], buffer)
           else (True, [decode_event options (take frame_len buffer)], drop frame_len buffer))"

lemma length_discard: "length (discard_until_magic buffer) \<le> length buffer"
  by (induction buffer rule: discard_until_magic.induct) auto

lemma try_extract_shrinks:
  "try_extract_one options buffer = (True, evs, buffer') \<Longrightarrow> length buffer' < length buffer"
  using length_discard [of buffer] by (auto simp: try_extract_one_def Let_def split: if_splits)

function drain :: "decode_options \<Rightarrow> bytes \<Rightarrow> stream_event list \<times> bytes" where
  "drain options buffer =
     (case try_extract_one options buffer of
        (again, evs, buffer') \<Rightarrow>
          if again then (let (evs', rest) = drain options buffer' in (evs @ evs', rest))
          else (evs, buffer'))"
  by pat_completeness auto
termination
  by (relation "measure (\<lambda>(_, buffer). length buffer)") (auto dest: try_extract_shrinks [OF sym])

declare drain.simps [simp del]

definition sp_push :: "decode_options \<Rightarrow> bytes \<Rightarrow> bytes \<Rightarrow> stream_event list \<times> bytes" where
  "sp_push options data buffer = drain options (buffer @ data)"

definition sp_clear :: "bytes \<Rightarrow> bytes" where
  "sp_clear buffer = []"

text \<open>A sequence of \<open>push\<close> calls, with the events of all of them.\<close>

fun sp_pushes :: "decode_options \<Rightarrow> bytes list \<Rightarrow> bytes \<Rightarrow> stream_event list \<times> bytes" where
  "sp_pushes options [] buffer = ([], buffer)"
| "sp_pushes options (chunk # chunks) buffer =
     (let (evs, buffer') = sp_push options chunk buffer;
          (evs', buffer'') = sp_pushes options chunks buffer'
      in (evs @ evs', buffer''))"

section \<open>Chunking does not matter\<close>

lemma discard_append: "discard_until_magic (discard_until_magic xs @ ys) = discard_until_magic (xs @ ys)"
  by (induction xs rule: discard_until_magic.induct) auto

lemma discard_long:
  "4 \<le> length (discard_until_magic xs) \<Longrightarrow> discard_until_magic (xs @ ys) = discard_until_magic xs @ ys"
  by (induction xs rule: discard_until_magic.induct) auto

lemma extract_append:
  assumes "try_extract_one options xs = (True, evs, rest)"
  shows "try_extract_one options (xs @ ys) = (True, evs, rest @ ys)"
proof -
  let ?b = "discard_until_magic xs"
  from assms have len: "8 \<le> length ?b"
    by (auto simp: try_extract_one_def Let_def split: if_splits)
  then have d: "discard_until_magic (xs @ ys) = ?b @ ys"
    by (simp add: discard_long)
  have nth: "(?b @ ys) ! 4 = ?b ! 4" "(?b @ ys) ! 5 = ?b ! 5" "(?b @ ys) ! 6 = ?b ! 6" "(?b @ ys) ! 7 = ?b ! 7"
    using len by (simp_all add: nth_append)
  have tl: "tl (?b @ ys) = tl ?b @ ys"
    using len by (cases ?b) auto
  show ?thesis
    using assms len by (auto simp: try_extract_one_def Let_def d nth tl split: if_splits)
qed

lemma extract_stop_append:
  assumes "try_extract_one options xs = (False, evs, rest)"
  shows "evs = [] \<and> rest = discard_until_magic xs \<and>
    try_extract_one options (xs @ ys) = try_extract_one options (rest @ ys)"
  using assms by (auto simp: try_extract_one_def Let_def discard_append split: if_splits)

lemma drain_cong: "try_extract_one options xs = try_extract_one options ys \<Longrightarrow> drain options xs = drain options ys"
  by (simp add: drain.simps)

lemma drain_append:
  "drain options (xs @ ys) =
     (let (evs, rest) = drain options xs; (evs', rest') = drain options (rest @ ys) in (evs @ evs', rest'))"
proof (induction options xs rule: drain.induct)
  case (1 options xs)
  obtain again evs rest where step: "try_extract_one options xs = (again, evs, rest)"
    by (cases "try_extract_one options xs")
  show ?case
  proof (cases again)
    case True
    with step have "try_extract_one options (xs @ ys) = (True, evs, rest @ ys)"
      by (simp add: extract_append)
    moreover have "drain options (rest @ ys) =
        (let (evs, rest) = drain options rest; (evs', rest') = drain options (rest @ ys) in (evs @ evs', rest'))"
      using 1 [OF step [symmetric] refl True] .
    ultimately show ?thesis
      using step True by (simp add: drain.simps [of options xs] drain.simps [of options "xs @ ys"] Let_def split_beta)
  next
    case False
    with step have "evs = []" "drain options (xs @ ys) = drain options (rest @ ys)"
      using extract_stop_append [of options xs evs rest ys] by (auto intro: drain_cong)
    with step False show ?thesis
      by (simp add: drain.simps [of options xs] split_beta)
  qed
qed

lemma drain_idem: "snd (drain options (snd (drain options xs))) = snd (drain options xs) \<and>
    fst (drain options (snd (drain options xs))) = []"
  using drain_append [of options xs "[]"] by (auto simp: Let_def split_beta prod_eq_iff)

text \<open>\<open>drained\<close> buffers are what \<open>push\<close> leaves behind; the empty buffer is one.\<close>

definition drained :: "decode_options \<Rightarrow> bytes \<Rightarrow> bool" where
  "drained options buffer \<longleftrightarrow> drain options buffer = ([], buffer)"

lemma drained_Nil [simp]: "drained options []"
  by (simp add: drained_def drain.simps try_extract_one_def)

lemma drained_push: "drained options (snd (sp_push options data buffer))"
  using drain_idem [of options "buffer @ data"] by (simp add: drained_def sp_push_def prod_eq_iff)

lemma pushes_concat:
  "drained options buffer \<Longrightarrow> sp_pushes options chunks buffer = sp_push options (concat chunks) buffer"
proof (induction chunks arbitrary: buffer)
  case Nil
  then show ?case by (simp add: sp_push_def drained_def)
next
  case (Cons c chunks)
  let ?r = "sp_push options c buffer"
  have "sp_pushes options chunks (snd ?r) = sp_push options (concat chunks) (snd ?r)"
    by (rule Cons.IH [OF drained_push])
  then show ?case
    using drain_append [of options "buffer @ c" "concat chunks"]
    by (simp add: sp_push_def Let_def split_beta)
qed

text \<open>What stays buffered is less than one frame of the largest permitted size.\<close>

lemma drain_bound: "length (snd (drain options xs)) < max 8 (max_packet_size options)"
proof (induction options xs rule: drain.induct)
  case (1 options xs)
  obtain again evs rest where step: "try_extract_one options xs = (again, evs, rest)"
    by (cases "try_extract_one options xs")
  show ?case
  proof (cases again)
    case True
    with 1 [OF step [symmetric] refl True] step show ?thesis
      by (simp add: drain.simps [of options xs] split_beta)
  next
    case False
    with step have "length rest < max 8 (max_packet_size options)"
      by (auto simp: try_extract_one_def Let_def split: if_splits)
    with step False show ?thesis by (simp add: drain.simps [of options xs])
  qed
qed

section \<open>Frames are delivered\<close>

lemma le_word_pack: "le_word b0 b1 b2 b3 = pack [b0, b1, b2, b3]"
proof -
  have "fold (or_shifted [b0, b1, b2, b3] 0) [0..<4] 0 = pack [b0, b1, b2, b3]"
    by (rule or_shifted_pack) simp_all
  then show ?thesis
    by (simp add: upt4 or_shifted_def le_word_def or.assoc del: upt_rec_numeral pack.simps)
qed

lemma le_word_eq: "le_word b0 b1 b2 b3 = v \<longleftrightarrow> [b0, b1, b2, b3] = bw_u32 v []"
proof
  assume "le_word b0 b1 b2 b3 = v"
  then have "pack [b0, b1, b2, b3] = pack (bw_u32 v [])"
    by (simp only: pack_le_bytes le_word_pack)
  then show "[b0, b1, b2, b3] = bw_u32 v []"
    by (rule pack_inject [rotated 2]) simp_all
next
  assume "[b0, b1, b2, b3] = bw_u32 v []"
  then show "le_word b0 b1 b2 b3 = v"
    by (simp only: le_word_pack pack_le_bytes)
qed

text \<open>Bytes in front of which no magic can be seen are dropped.\<close>

definition quiet :: "bytes \<Rightarrow> bytes \<Rightarrow> bool" where
  "quiet noise frame \<longleftrightarrow> (\<forall>i < length noise. take 4 (drop i (noise @ frame)) \<noteq> bw_u32 packet_magic [])"

lemma discard_magic: "take 4 xs = bw_u32 packet_magic [] \<Longrightarrow> discard_until_magic xs = xs"
  by (cases xs rule: discard_until_magic.cases)
    (auto simp: le_word_eq dest: arg_cong [where f = length])

lemma discard_quiet:
  "quiet noise xs \<Longrightarrow> 4 \<le> length xs \<Longrightarrow> discard_until_magic (noise @ xs) = discard_until_magic xs"
proof (induction noise)
  case (Cons b noise)
  have q: "quiet noise xs"
    using Cons.prems(1) by (auto simp: quiet_def dest: spec [where x = "Suc _"])
  obtain b1 b2 b3 t where t: "noise @ xs = b1 # b2 # b3 # t"
    using Cons.prems(2) by (cases "noise @ xs" rule: discard_until_magic.cases) (auto dest: arg_cong [where f = length])
  have "le_word b b1 b2 b3 \<noteq> packet_magic"
    using Cons.prems(1) t by (auto simp: quiet_def le_word_eq dest: spec [where x = 0])
  then have "discard_until_magic ((b # noise) @ xs) = discard_until_magic (noise @ xs)"
    by (simp add: t)
  with Cons.IH [OF q Cons.prems(2)] show ?case by simp
qed simp

lemma header_word:
  assumes "take 4 (drop 4 xs) = bw_u32 v []"
  shows "le_word (xs ! 4) (xs ! 5) (xs ! 6) (xs ! 7) = v"
proof -
  have len: "8 \<le> length xs"
    using arg_cong [OF assms, of length] by simp
  have "[xs ! 4, xs ! 5, xs ! 6, xs ! 7] = take 4 (drop 4 xs)"
    by (rule nth_equalityI) (use len in \<open>auto simp: less_Suc_eq_0_disj numeral_eq_Suc\<close>)
  with assms show ?thesis by (simp add: le_word_eq)
qed

lemma extract_header:
  assumes "take 4 xs = bw_u32 packet_magic []" and "take 4 (drop 4 xs) = bw_u32 (of_nat n) []"
    and "n < 4294967296" and "n + 12 \<le> max_packet_size options" and "n + 12 \<le> length xs"
  shows "try_extract_one options xs = (True, [decode_event options (take (n + 12) xs)], drop (n + 12) xs)"
  using assms header_word [OF assms(2)] unat_of_nat_u32 [OF assms(3)]
  by (simp add: try_extract_one_def Let_def discard_magic)

definition accepted :: "decode_options \<Rightarrow> bytes \<Rightarrow> packet \<Rightarrow> bool" where
  "accepted options f p \<longleftrightarrow> decode_packet f options = Inr p"

lemma extract_accepted:
  assumes "accepted options f p"
  shows "try_extract_one options (f @ rest) = (True, [Delivered p], rest)"
proof -
  note dec = assms [unfolded accepted_def]
  note frame = decode_packet_frame [OF dec]
  have "try_extract_one options (f @ rest) = (True,
      [decode_event options (take (length f - 12 + 12) (f @ rest))], drop (length f - 12 + 12) (f @ rest))"
    using frame by (intro extract_header) simp_all
  then show ?thesis
    using frame(1) dec by (simp add: decode_event_def)
qed

lemma drain_noise:
  assumes "quiet noise xs" and "4 \<le> length xs"
  shows "drain options (noise @ xs) = drain options xs"
  using discard_quiet [OF assms] by (intro drain_cong) (simp add: try_extract_one_def)

lemma drain_accepted:
  assumes "accepted options f p"
  shows "drain options (f @ rest) = (Delivered p # fst (drain options rest), snd (drain options rest))"
  using extract_accepted [OF assms] by (simp add: drain.simps [of options "f @ rest"] split_beta)

lemma drain_frames:
  "list_all2 (accepted options) fs ps \<Longrightarrow> drain options (concat fs) = (map Delivered ps, [])"
proof (induction fs ps rule: list_all2_induct)
  case Nil
  then show ?case using drained_Nil by (simp add: drained_def)
qed (simp add: drain_accepted)

text \<open>Frames preceded by quiet noise, cut into any chunks, are delivered once each and in order.\<close>

fun noisy_stream :: "(bytes \<times> bytes) list \<Rightarrow> bytes" where
  "noisy_stream [] = []"
| "noisy_stream ((noise, f) # fs) = noise @ f @ noisy_stream fs"

lemma quiet_append: "quiet noise f \<Longrightarrow> 4 \<le> length f \<Longrightarrow> quiet noise (f @ g)"
  by (auto simp: quiet_def)

lemma drain_noisy:
  "list_all2 (\<lambda>(noise, f) p. quiet noise f \<and> accepted options f p) nfs ps \<Longrightarrow>
   drain options (noisy_stream nfs) = (map Delivered ps, [])"
proof (induction nfs ps rule: list_all2_induct)
  case Nil
  then show ?case using drained_Nil by (simp add: drained_def)
next
  case (Cons nf nfs p ps)
  obtain noise f where nf: "nf = (noise, f)" by (cases nf)
  with Cons have q: "quiet noise f" and a: "accepted options f p" by simp_all
  have len: "12 \<le> length f"
    using a decode_packet_frame(1) by (auto simp: accepted_def)
  have "drain options (noise @ f @ noisy_stream nfs) = drain options (f @ noisy_stream nfs)"
    using len q by (intro drain_noise quiet_append) simp_all
  with drain_accepted [OF a] Cons.IH nf show ?case by simp
qed

section \<open>A false header\<close>

text \<open>
  Eight bytes that look like a header make the parser take the announced number of bytes in
  one piece, and a failed decode does not give them back: a complete frame among them is lost.
\<close>

lemma false_header_swallows:
  assumes "length g + 8 \<le> max_packet_size options" and "12 \<le> length g" and "length g < 4294967296"
  defines "h \<equiv> bw_u32 packet_magic [] @ bw_u32 (of_nat (length g - 4)) []"
  shows "sp_push options (h @ g) [] = ([decode_event options (h @ g)], [])"
proof -
  have "try_extract_one options (h @ g) = (True, [decode_event options (take (length g - 4 + 12) (h @ g))],
      drop (length g - 4 + 12) (h @ g))"
    using assms by (intro extract_header) (simp_all add: h_def)
  moreover have "length g - 4 + 12 = length (h @ g)"
    using assms(2) by (simp add: h_def)
  ultimately have "try_extract_one options (h @ g) = (True, [decode_event options (h @ g)], [])"
    by (simp only: order_refl take_all drop_all)
  then show ?thesis
    using drained_Nil by (simp add: sp_push_def drain.simps [of options "h @ g"] drained_def)
qed

text \<open>
  The decode of the swallowed bytes does fail: the checksum register after the false header
  is zero only for one announced length, which no sensible limit permits.
\<close>

lemma funpow_8: "(f ^^ 8) x = f (f (f (f (f (f (f (f x)))))))"
  by (simp add: numeral_eq_Suc)

lemma magic_register: "(crc32c_bit ^^ 32) packet_magic = 0xd0fa0b31"
proof -
  have "(32 :: nat) = 8 + 8 + 8 + 8" by simp
  then have "(crc32c_bit ^^ 32) packet_magic =
      (crc32c_bit ^^ 8) ((crc32c_bit ^^ 8) ((crc32c_bit ^^ 8) ((crc32c_bit ^^ 8) packet_magic)))"
    by (simp only: funpow_add comp_apply)
  also have "\<dots> = 0xd0fa0b31"
    unfolding funpow_8 packet_magic_def by (simp add: crc32c_bit_alt)
  finally show ?thesis .
qed

lemma header_register:
  assumes "foldl crc32c_byte 0 (bw_u32 packet_magic [] @ bw_u32 v []) = 0"
  shows "v = 0xd0fa0b31"
proof -
  have "foldl crc32c_byte 0 (bw_u32 packet_magic []) = 0xd0fa0b31"
    by (simp add: crc32c_fold_pack pack_le_bytes magic_register)
  with assms have "(crc32c_bit ^^ 32) (0xd0fa0b31 XOR v) = (crc32c_bit ^^ 32) 0"
    by (simp add: crc32c_fold_pack pack_le_bytes crc32c_bits_0)
  then have "0xd0fa0b31 XOR v = 0xd0fa0b31 XOR 0xd0fa0b31"
    by (simp only: crc32c_bits_inject xor_self_eq)
  then show ?thesis by (simp only: xor_cancel_left)
qed

lemma swallowed_frame_fails:
  assumes "accepted options g p" and "accepted options' (bw_u32 packet_magic [] @ bw_u32 v [] @ g) q"
  shows "v = 0xd0fa0b31"
proof -
  let ?h = "bw_u32 packet_magic [] @ bw_u32 v []"
  have "crc32c_frame.intact g" "crc32c_frame.intact (?h @ g)"
    using assms decode_packet_intact by (auto simp: accepted_def)
  then have "crc32c (?h @ g) = crc32c g"
    by (simp only: crc32c_frame.intact_residue)
  then have "foldl crc32c_byte 0 ?h = 0"
    by (simp only: crc32c_fold foldl_append crc32c_fold_inject bit.compl_eq_compl_iff)
  then show ?thesis by (rule header_register)
qed

section \<open>Properties\<close>

text \<open>
  C5. How the transport cuts the byte stream into chunks is invisible: pushing the chunks one
  by one delivers the same events, and leaves the same buffer, as pushing their concatenation.
\<close>

theorem stream_chunking: "sp_pushes options chunks [] = sp_push options (concat chunks) []"
  by (rule pushes_concat) (rule drained_Nil)

text \<open>
  C4. Accepted frames separated by bytes in which no magic can be seen are each delivered
  exactly once, in order, with nothing left in the buffer, however the stream is cut.
\<close>

theorem stream_delivery:
  assumes "list_all2 (\<lambda>(noise, f) p. quiet noise f \<and> accepted options f p) nfs ps"
    and "concat chunks = noisy_stream nfs"
  shows "sp_pushes options chunks [] = (map Delivered ps, [])"
  using drain_noisy [OF assms(1)] assms(2) by (simp add: pushes_concat sp_push_def)

lemma magic_bytes: "bw_u32 packet_magic [] = [65, 84, 72, 78]"
  by (simp add: bw_u32_def byte_at_def packet_magic_def upt_rec)

lemma quiet_sample: "quiet [1, 2] f"
proof -
  have "take 4 (drop i ([1, 2] @ f)) \<noteq> bw_u32 packet_magic []" if "i < 2" for i
    using that by (cases i) (auto simp: magic_bytes)
  then show ?thesis by (simp add: quiet_def)
qed

lemma stream_delivery_witness:
  "sp_pushes decode_options_default [[1], [2] @ frame_of sample_packet @ take 3 (frame_of beacon), drop 3 (frame_of beacon)] [] =
     (map Delivered [sample_packet, beacon], [])"
  by (rule stream_delivery [where nfs = "[([1, 2], frame_of sample_packet), ([], frame_of beacon)]"])
    (simp_all add: quiet_sample accepted_def, simp add: quiet_def)

text \<open>
  The parser's buffer stays below the packet size limit (at least eight bytes) whatever is
  pushed: a stream of garbage cannot make it grow.
\<close>

theorem stream_buffer_bound:
  "length (snd (sp_pushes options chunks [])) < max 8 (max_packet_size options)"
  using drain_bound by (simp add: pushes_concat sp_push_def)

text \<open>
  Eight bytes that look like a header make the parser swallow a following complete frame:
  the announced span fails to decode and is dropped whole, and the packet that would have been
  delivered without those bytes is lost.
\<close>

theorem false_header_loses_packet:
  assumes "accepted options g p" and "length g + 8 \<le> max_packet_size options"
    and "max_packet_size options \<le> 2147483648"
  shows "\<exists>e. sp_push options (bw_u32 packet_magic [] @ bw_u32 (of_nat (length g - 4)) [] @ g) [] = ([Failed e], []) \<and>
    sp_push options g [] = ([Delivered p], [])"
proof -
  define h where "h = bw_u32 packet_magic [] @ bw_u32 (of_nat (length g - 4)) []"
  have len: "12 \<le> length g" using assms(1) decode_packet_frame(1) by (auto simp: accepted_def)
  have "unat (of_nat (length g - 4) :: u32) = length g - 4"
    using assms by (intro unat_of_nat_u32) simp
  then have "(of_nat (length g - 4) :: u32) \<noteq> 0xd0fa0b31"
    using assms by auto
  then have "\<not> accepted options (h @ g) q" for q
    using swallowed_frame_fails [OF assms(1), of options "of_nat (length g - 4)" q]
    by (auto simp: h_def)
  then obtain e where "decode_event options (h @ g) = Failed e"
    by (cases "decode_packet (h @ g) options") (auto simp: accepted_def decode_event_def)
  moreover have "sp_push options (h @ g) [] = ([decode_event options (h @ g)], [])"
    unfolding h_def append_assoc
    using false_header_swallows [of g options] assms len by simp
  moreover have "sp_push options g [] = ([Delivered p], [])"
    using drain_frames [of options "[g]" "[p]"] assms(1) by (simp add: sp_push_def)
  ultimately show ?thesis by (simp add: h_def)
qed


lemma false_header_loses_packet_witness:
  "\<exists>e. sp_push decode_options_default (bw_u32 packet_magic [] @ bw_u32 (of_nat (length (frame_of beacon) - 4)) [] @ frame_of beacon) [] =
       ([Failed e], []) \<and>
     sp_push decode_options_default (frame_of beacon) [] = ([Delivered beacon], [])"
  by (rule false_header_loses_packet)
    (simp_all add: accepted_def length_frame_of, simp_all add: decode_options_default_def)

end
