(* ===== verification/Ordered_Map.thy ===== *)
theory Ordered_Map
  imports Prelude
begin

text \<open>
  \<open>std::map\<close>: a finite map that is iterated in increasing key order. The type holds the
  association lists whose keys strictly increase; \<open>om_entries\<close> is what a range-for over the
  map sees. \<open>operator[]\<close>, \<open>emplace\<close> and assignment are \<open>om_update\<close>, \<open>erase\<close> is
  \<open>om_delete\<close>, \<open>find\<close> is \<open>om_lookup\<close>, and a loop that rewrites each value in place is
  \<open>om_map\<close>.
\<close>

section \<open>Sorted association lists\<close>

fun upd_list :: "'k::linorder \<Rightarrow> 'v \<Rightarrow> ('k \<times> 'v) list \<Rightarrow> ('k \<times> 'v) list" where
  "upd_list k v [] = [(k, v)]"
| "upd_list k v ((k', v') # ps) =
     (if k < k' then (k, v) # (k', v') # ps
      else if k = k' then (k, v) # ps
      else (k', v') # upd_list k v ps)"

definition del_list :: "'k \<Rightarrow> ('k \<times> 'v) list \<Rightarrow> ('k \<times> 'v) list" where
  "del_list k ps = filter (\<lambda>p. fst p \<noteq> k) ps"

abbreviation sorted_keys :: "('k::linorder \<times> 'v) list \<Rightarrow> bool" where
  "sorted_keys ps \<equiv> sorted_wrt (<) (map fst ps)"

lemma set_keys_upd_list: "fst ` set (upd_list k v ps) = insert k (fst ` set ps)"
  by (induction k v ps rule: upd_list.induct) auto

lemma sorted_upd_list: "sorted_keys ps \<Longrightarrow> sorted_keys (upd_list k v ps)"
proof (induction k v ps rule: upd_list.induct)
  case (2 k v k' v' ps)
  have "\<forall>x \<in> fst ` set (upd_list k v ps). k' < x" if "\<not> k < k'" "k \<noteq> k'"
    using 2 that by (auto simp: set_keys_upd_list)
  with 2 show ?case by auto
qed auto

lemma sorted_del_list: "sorted_keys ps \<Longrightarrow> sorted_keys (del_list k ps)"
  by (induction ps) (auto simp: del_list_def)

lemma map_of_upd_list: "map_of (upd_list k v ps) = (map_of ps)(k \<mapsto> v)"
  by (induction k v ps rule: upd_list.induct) auto

lemma map_of_del_list: "map_of (del_list k ps) = (map_of ps)(k := None)"
  by (induction ps) (auto simp: del_list_def)

lemma sorted_keys_distinct: "sorted_keys ps \<Longrightarrow> distinct (map fst ps)"
  by (simp add: strict_sorted_iff)

lemma length_upd_list:
  "sorted_keys ps \<Longrightarrow>
   length (upd_list k v ps) = (if k \<in> fst ` set ps then length ps else Suc (length ps))"
  by (induction k v ps rule: upd_list.induct) auto

lemma length_del_list:
  "sorted_keys ps \<Longrightarrow>
   length (del_list k ps) = (if k \<in> fst ` set ps then length ps - 1 else length ps)"
proof (induction ps)
  case (Cons p ps)
  show ?case
  proof (cases "fst p = k")
    case True
    with Cons.prems have "\<forall>q \<in> set ps. fst q \<noteq> k" by auto
    then have "filter (\<lambda>q. fst q \<noteq> k) ps = ps" by (simp add: filter_id_conv)
    with True show ?thesis by (simp add: del_list_def)
  next
    case False
    then have "length (del_list k (p # ps)) = Suc (length (del_list k ps))"
      by (simp add: del_list_def)
    moreover have "length ps \<noteq> 0" if "k \<in> fst ` set ps"
      using that by auto
    ultimately show ?thesis
      using Cons False by (auto simp: image_iff)
  qed
qed (simp add: del_list_def)

section \<open>The type\<close>

typedef (overloaded) ('k, 'v) omap = "{ps :: ('k::linorder \<times> 'v) list. sorted_keys ps}"
  morphisms om_entries Om
  by (rule exI [of _ "[]"]) simp

setup_lifting type_definition_omap

lemma om_entries_sorted [simp]: "sorted_keys (om_entries m)"
  using om_entries [of m] by simp

lemma om_entries_distinct [simp]: "distinct (map fst (om_entries m))"
  by (simp add: sorted_keys_distinct)

lift_definition om_empty :: "('k::linorder, 'v) omap" is "[]"
  by simp

lift_definition om_lookup :: "('k::linorder, 'v) omap \<Rightarrow> 'k \<Rightarrow> 'v option" is map_of .

lift_definition om_update :: "'k::linorder \<Rightarrow> 'v \<Rightarrow> ('k, 'v) omap \<Rightarrow> ('k, 'v) omap" is upd_list
  by (rule sorted_upd_list)

lift_definition om_delete :: "'k::linorder \<Rightarrow> ('k, 'v) omap \<Rightarrow> ('k, 'v) omap" is del_list
  by (rule sorted_del_list)

lift_definition om_map :: "('k \<Rightarrow> 'v \<Rightarrow> 'w) \<Rightarrow> ('k::linorder, 'v) omap \<Rightarrow> ('k, 'w) omap"
  is "\<lambda>f. map (\<lambda>p. (fst p, f (fst p) (snd p)))"
  by (simp add: comp_def)

lift_definition om_filter :: "('k \<Rightarrow> 'v \<Rightarrow> bool) \<Rightarrow> ('k::linorder, 'v) omap \<Rightarrow> ('k, 'v) omap"
  is "\<lambda>P. filter (\<lambda>p. P (fst p) (snd p))"
  by (simp add: sorted_wrt_map sorted_wrt_filter)

definition om_values :: "('k::linorder, 'v) omap \<Rightarrow> 'v list" where
  "om_values m = map snd (om_entries m)"

definition om_size :: "('k::linorder, 'v) omap \<Rightarrow> nat" where
  "om_size m = length (om_entries m)"

text \<open>\<open>operator[]\<close> on a missing key inserts the value-initialised element first.\<close>

definition om_get :: "'v \<Rightarrow> ('k::linorder, 'v) omap \<Rightarrow> 'k \<Rightarrow> 'v" where
  "om_get d m k = (case om_lookup m k of None \<Rightarrow> d | Some v \<Rightarrow> v)"

section \<open>Laws\<close>

lemma om_entries_empty [simp]: "om_entries om_empty = []"
  by transfer simp

lemma om_entries_update [simp]: "om_entries (om_update k v m) = upd_list k v (om_entries m)"
  by transfer simp

lemma om_entries_delete [simp]: "om_entries (om_delete k m) = del_list k (om_entries m)"
  by transfer simp

lemma om_entries_map: "om_entries (om_map f m) = map (\<lambda>p. (fst p, f (fst p) (snd p))) (om_entries m)"
  by transfer simp

lemma om_entries_filter: "om_entries (om_filter P m) = filter (\<lambda>p. P (fst p) (snd p)) (om_entries m)"
  by transfer simp

lemma om_lookup_entries: "om_lookup m k = map_of (om_entries m) k"
  by transfer simp

lemma om_lookup_empty [simp]: "om_lookup om_empty k = None"
  by (simp add: om_lookup_entries)

lemma om_lookup_update [simp]:
  "om_lookup (om_update k v m) k' = (if k' = k then Some v else om_lookup m k')"
  by (simp add: om_lookup_entries map_of_upd_list)

lemma om_lookup_delete [simp]:
  "om_lookup (om_delete k m) k' = (if k' = k then None else om_lookup m k')"
  by (simp add: om_lookup_entries map_of_del_list)

lemma map_of_map_values: "map_of (map (\<lambda>p. (fst p, f (fst p) (snd p))) ps) k = map_option (f k) (map_of ps k)"
  by (induction ps) auto

lemma om_lookup_map [simp]: "om_lookup (om_map f m) k = map_option (f k) (om_lookup m k)"
  by (simp add: om_lookup_entries om_entries_map map_of_map_values)

lemma om_mem_entries: "(k, v) \<in> set (om_entries m) \<longleftrightarrow> om_lookup m k = Some v"
  by (simp add: om_lookup_entries)

lemma om_keys_lookup: "k \<in> fst ` set (om_entries m) \<longleftrightarrow> om_lookup m k \<noteq> None"
  by (simp add: om_lookup_entries map_of_eq_None_iff)

lemma om_lookup_filter:
  "om_lookup (om_filter P m) k =
   (case om_lookup m k of None \<Rightarrow> None | Some v \<Rightarrow> if P k v then Some v else None)"
proof -
  have "map_of (filter (\<lambda>p. P (fst p) (snd p)) ps) k =
      (case map_of ps k of None \<Rightarrow> None | Some v \<Rightarrow> if P k v then Some v else None)"
    if "distinct (map fst ps)" for ps
    using that
  proof (induction ps)
    case (Cons p ps)
    then have "map_of (filter Q ps) (fst p) = None" for Q
      by (auto simp: map_of_eq_None_iff)
    with Cons show ?case by auto
  qed simp
  then show ?thesis by (simp add: om_lookup_entries om_entries_filter)
qed

lemma om_values_lookup: "v \<in> set (om_values m) \<longleftrightarrow> (\<exists>k. om_lookup m k = Some v)"
  by (force simp: om_values_def om_mem_entries [symmetric])

lemma om_size_empty [simp]: "om_size om_empty = 0"
  by (simp add: om_size_def)

lemma om_size_update:
  "om_size (om_update k v m) = (if om_lookup m k = None then Suc (om_size m) else om_size m)"
  using length_upd_list [of "om_entries m" k v] om_keys_lookup [of k m]
  by (auto simp: om_size_def)

lemma om_size_delete:
  "om_size (om_delete k m) = (if om_lookup m k = None then om_size m else om_size m - 1)"
  using length_del_list [of "om_entries m" k] om_keys_lookup [of k m]
  by (auto simp: om_size_def)

lemma om_size_map [simp]: "om_size (om_map f m) = om_size m"
  by (simp add: om_size_def om_entries_map)

lemma om_size_0_iff: "om_size m = 0 \<longleftrightarrow> (\<forall>k. om_lookup m k = None)"
  by (metis om_keys_lookup om_size_def length_0_conv image_is_empty empty_iff set_empty all_not_in_conv)

text \<open>Two strictly sorted association lists with the same lookups are equal.\<close>

lemma sorted_keys_ext:
  assumes "sorted_keys ps" and "sorted_keys qs" and "map_of ps = map_of qs"
  shows "ps = qs"
proof -
  have d: "distinct (map fst ps)" "distinct (map fst qs)"
    using assms(1,2) by (simp_all add: sorted_keys_distinct)
  have same: "set ps = set qs"
    using assms(3) d by (metis map_of_eq_Some_iff subrelI subset_antisym)
  show ?thesis
  proof (rule map_sorted_distinct_set_unique)
    show "inj_on fst (set ps \<union> set qs)"
      using d same by (simp add: distinct_map)
    show "sorted (map fst ps)" "sorted (map fst qs)"
      using assms(1,2) by (simp_all add: strict_sorted_iff)
  qed (use d same in simp_all)
qed

lemma om_ext: "(\<And>k. om_lookup m k = om_lookup m' k) \<Longrightarrow> m = m'"
proof -
  assume "\<And>k. om_lookup m k = om_lookup m' k"
  then have "map_of (om_entries m) = map_of (om_entries m')"
    by (simp add: fun_eq_iff om_lookup_entries)
  then have "om_entries m = om_entries m'"
    by (intro sorted_keys_ext) simp_all
  then show "m = m'" by (simp add: om_entries_inject)
qed

lemma om_update_same [simp]: "om_update k v (om_update k v' m) = om_update k v m"
  by (rule om_ext) simp

lemma om_update_delete [simp]: "om_update k v (om_delete k m) = om_update k v m"
  by (rule om_ext) simp

lemma om_delete_update [simp]: "om_delete k (om_update k v m) = om_delete k m"
  by (rule om_ext) simp

lemma om_delete_none: "om_lookup m k = None \<Longrightarrow> om_delete k m = m"
  by (rule om_ext) auto

lemma om_get_update [simp]: "om_get d (om_update k v m) k' = (if k' = k then v else om_get d m k')"
  by (simp add: om_get_def)

lemma om_get_delete [simp]: "om_get d (om_delete k m) k' = (if k' = k then d else om_get d m k')"
  by (simp add: om_get_def)

section \<open>Loops that rewrite the values in place\<close>

text \<open>
  A range-for that modifies each value and threads other state, with \<open>continue\<close> and \<open>break\<close>
  as values left alone: the keys stay, and each value is the body's result for some state of
  the loop.
\<close>

fun map_state :: "('k \<Rightarrow> 'v \<Rightarrow> 's \<Rightarrow> 'v \<times> 's) \<Rightarrow> ('k \<times> 'v) list \<Rightarrow> 's \<Rightarrow> ('k \<times> 'v) list \<times> 's" where
  "map_state f [] s = ([], s)"
| "map_state f ((k, v) # ps) s =
     (let (v, s) = f k v s; (ps, s) = map_state f ps s in ((k, v) # ps, s))"

lemma map_state_keys: "map fst (fst (map_state f ps s)) = map fst ps"
proof (induction ps arbitrary: s)
  case (Cons p ps)
  then show ?case by (cases p) (simp add: split_beta Let_def)
qed simp

lift_definition om_loop :: "('k \<Rightarrow> 'v \<Rightarrow> 's \<Rightarrow> 'v \<times> 's) \<Rightarrow> 's \<Rightarrow> ('k::linorder, 'v) omap \<Rightarrow> ('k, 'v) omap"
  is "\<lambda>f s ps. fst (map_state f ps s)"
  by (simp add: map_state_keys)

definition om_loop_state :: "('k \<Rightarrow> 'v \<Rightarrow> 's \<Rightarrow> 'v \<times> 's) \<Rightarrow> 's \<Rightarrow> ('k::linorder, 'v) omap \<Rightarrow> 's" where
  "om_loop_state f s m = snd (map_state f (om_entries m) s)"

lemma om_entries_loop: "om_entries (om_loop f s m) = fst (map_state f (om_entries m) s)"
  by transfer simp

lemma om_keys_loop [simp]: "om_lookup (om_loop f s m) k = None \<longleftrightarrow> om_lookup m k = None"
proof -
  have "fst ` set (om_entries (om_loop f s m)) = fst ` set (om_entries m)"
    using map_state_keys [of f "om_entries m" s] by (metis om_entries_loop set_map)
  then show ?thesis by (metis om_keys_lookup)
qed

lemma om_size_loop [simp]: "om_size (om_loop f s m) = om_size m"
  using map_state_keys [of f "om_entries m" s] by (metis length_map om_entries_loop om_size_def)

lemma map_state_lookup:
  "map_of ps k = Some v \<Longrightarrow> \<exists>s'. map_of (fst (map_state f ps s)) k = Some (fst (f k v s'))"
proof (induction ps arbitrary: s)
  case (Cons p ps)
  show ?case
  proof (cases "fst p = k")
    case True
    with Cons.prems show ?thesis by (cases p) (auto simp: split_beta Let_def)
  next
    case False
    with Cons.prems have "map_of ps k = Some v" by (cases p) simp
    with Cons.IH False show ?thesis by (cases p) (simp add: split_beta Let_def)
  qed
qed simp

lemma om_lookup_loop:
  assumes "om_lookup m k = Some v"
  obtains s' where "om_lookup (om_loop f s m) k = Some (fst (f k v s'))"
  using map_state_lookup [of "om_entries m" k v f s] assms
  by (auto simp: om_lookup_entries om_entries_loop)

text \<open>A loop whose effect on a value does not depend on the state is a map.\<close>

lemma om_loop_map:
  assumes "\<And>k v s. fst (f k v s) = g k v"
  shows "om_loop f s m = om_map g m"
proof (rule om_ext)
  fix k
  show "om_lookup (om_loop f s m) k = om_lookup (om_map g m) k"
  proof (cases "om_lookup m k")
    case (Some v)
    then obtain s' where "om_lookup (om_loop f s m) k = Some (fst (f k v s'))"
      by (rule om_lookup_loop)
    with Some show ?thesis by (simp add: assms)
  qed simp
qed

text \<open>An invariant of the state along the loop.\<close>

lemma om_loop_state_inv:
  assumes "P s" and "\<And>k v s. om_lookup m k = Some v \<Longrightarrow> P s \<Longrightarrow> P (snd (f k v s))"
  shows "P (om_loop_state f s m)"
proof -
  have "P (snd (map_state f ps s))" if "set ps \<subseteq> set (om_entries m)" "P s" for ps s
    using that
  proof (induction ps arbitrary: s)
    case (Cons p ps)
    obtain k v where p: "p = (k, v)" by (cases p)
    with Cons.prems have "om_lookup m k = Some v" by (simp flip: om_mem_entries)
    with assms(2) Cons.prems(2) have "P (snd (f k v s))" by blast
    with Cons.IH Cons.prems(1) p show ?case by (simp add: split_beta Let_def)
  qed simp
  with assms(1) show ?thesis by (simp add: om_loop_state_def)
qed

text \<open>A loop that erases: the first \<open>limit\<close> keys of those that satisfy \<open>P\<close>.\<close>

definition om_erase_keys :: "'k list \<Rightarrow> ('k::linorder, 'v) omap \<Rightarrow> ('k, 'v) omap" where
  "om_erase_keys ks m = fold om_delete ks m"

lemma om_lookup_erase_keys [simp]:
  "om_lookup (om_erase_keys ks m) k = (if k \<in> set ks then None else om_lookup m k)"
  by (induction ks arbitrary: m) (auto simp: om_erase_keys_def)

section \<open>Counting\<close>

definition om_count :: "('k \<Rightarrow> 'v \<Rightarrow> bool) \<Rightarrow> ('k::linorder, 'v) omap \<Rightarrow> nat" where
  "om_count P m = length (filter (\<lambda>p. P (fst p) (snd p)) (om_entries m))"

definition om_keys_where :: "('k \<Rightarrow> 'v \<Rightarrow> bool) \<Rightarrow> ('k::linorder, 'v) omap \<Rightarrow> 'k set" where
  "om_keys_where P m = {k. \<exists>v. om_lookup m k = Some v \<and> P k v}"

lemma om_keys_where_set:
  "om_keys_where P m = fst ` set (filter (\<lambda>p. P (fst p) (snd p)) (om_entries m))"
  by (force simp: om_keys_where_def om_mem_entries [symmetric])

lemma finite_om_keys_where [simp]: "finite (om_keys_where P m)"
  by (simp add: om_keys_where_set)

lemma om_count_card: "om_count P m = card (om_keys_where P m)"
proof -
  have "distinct (map fst (filter (\<lambda>p. P (fst p) (snd p)) (om_entries m)))"
    by (rule distinct_map_filter) simp
  then have "card (set (map fst (filter (\<lambda>p. P (fst p) (snd p)) (om_entries m)))) =
      length (map fst (filter (\<lambda>p. P (fst p) (snd p)) (om_entries m)))"
    by (rule distinct_card)
  then show ?thesis by (simp add: om_keys_where_set om_count_def)
qed

lemma om_count_cong:
  "(\<And>k. (\<exists>v. om_lookup m k = Some v \<and> P k v) \<longleftrightarrow> (\<exists>v. om_lookup m' k = Some v \<and> Q k v)) \<Longrightarrow>
   om_count P m = om_count Q m'"
  by (simp add: om_count_card om_keys_where_def)

lemma om_count_empty [simp]: "om_count P om_empty = 0"
  by (simp add: om_count_def)

definition holds_at :: "('k \<Rightarrow> 'v \<Rightarrow> bool) \<Rightarrow> ('k::linorder, 'v) omap \<Rightarrow> 'k \<Rightarrow> bool" where
  "holds_at P m k \<longleftrightarrow> (\<exists>v. om_lookup m k = Some v \<and> P k v)"

lemma om_count_update:
  "om_count P (om_update k v m) + of_bool (holds_at P m k) = om_count P m + of_bool (P k v)"
proof -
  have split: "om_count P m' = card (om_keys_where P m' - {k}) + of_bool (holds_at P m' k)" for m'
  proof (cases "k \<in> om_keys_where P m'")
    case True
    then have "om_count P m' = Suc (card (om_keys_where P m' - {k}))"
      unfolding om_count_card by (intro card.remove) simp_all
    with True show ?thesis by (simp add: holds_at_def om_keys_where_def)
  next
    case False
    then show ?thesis by (simp add: om_count_card) (simp add: holds_at_def om_keys_where_def)
  qed
  have "om_keys_where P (om_update k v m) - {k} = om_keys_where P m - {k}"
    by (auto simp: om_keys_where_def split: if_splits)
  then show ?thesis
    using split [of "om_update k v m"] split [of m] by (simp add: holds_at_def [of P "om_update k v m"])
qed

lemma om_count_pos: "0 < om_count P m \<longleftrightarrow> (\<exists>k. holds_at P m k)"
  unfolding om_count_card card_gt_0_iff by (auto simp: om_keys_where_def holds_at_def
      simp del: finite_om_keys_where intro: finite_om_keys_where [of P m, unfolded om_keys_where_def])

end
