(* ===== verification/Reassembler.thy ===== *)
theory Reassembler
  imports Types Ordered_Map "HOL-Library.Multiset"
begin

text \<open>
  \<open>FragmentReassembler\<close> of \<open>src/protocol/reassembler.cpp\<close>. The pending streams are a
  \<open>std::map\<close> keyed by device and stream; every call returns the value or the exception
  together with the new object. Whatever the order in which the fragments of a message arrive,
  the last one to arrive releases the message, with its payloads concatenated by sequence.
\<close>

section \<open>Keys\<close>

datatype reassembly_key = Reassembly_Key (rk_device: device_id) (rk_stream_id: u32)

lemma reassembly_key_eq: "k = k' \<longleftrightarrow> rk_device k = rk_device k' \<and> rk_stream_id k = rk_stream_id k'"
  by (auto intro: reassembly_key.expand)

instantiation reassembly_key :: linorder
begin

definition less_reassembly_key :: "reassembly_key \<Rightarrow> reassembly_key \<Rightarrow> bool" where
  "less_reassembly_key lhs rhs \<longleftrightarrow>
     (if rk_device lhs \<noteq> rk_device rhs then rk_device lhs < rk_device rhs
      else rk_stream_id lhs < rk_stream_id rhs)"

definition less_eq_reassembly_key :: "reassembly_key \<Rightarrow> reassembly_key \<Rightarrow> bool" where
  "less_eq_reassembly_key lhs rhs \<longleftrightarrow> lhs < rhs \<or> lhs = rhs"

instance
  by standard
    (auto simp: less_reassembly_key_def less_eq_reassembly_key_def reassembly_key_eq
      split: if_splits)

end

section \<open>State\<close>

record reassembly_stats =
  rs_fragments_seen :: u64
  rs_completed_messages :: u64
  rs_duplicate_fragments :: u64
  rs_rejected_fragments :: u64
  rs_pending_streams :: nat

record pending_stream =
  ps_first_packet :: packet
  ps_fragments :: "bytes list"
  ps_present :: "bool list"
  ps_received :: nat
  ps_total_payload :: nat

record fragment_reassembler =
  fr_max_payload_bytes :: nat
  fr_pending :: "(reassembly_key, pending_stream) omap"
  fr_stats :: reassembly_stats

definition fr_init :: "nat \<Rightarrow> fragment_reassembler" where
  "fr_init max_payload_bytes = \<lparr>fr_max_payload_bytes = max_payload_bytes, fr_pending = om_empty,
     fr_stats = \<lparr>rs_fragments_seen = 0, rs_completed_messages = 0, rs_duplicate_fragments = 0,
       rs_rejected_fragments = 0, rs_pending_streams = 0\<rparr>\<rparr>"

definition count_rejected :: "fragment_reassembler \<Rightarrow> fragment_reassembler" where
  "count_rejected r = r\<lparr>fr_stats := (fr_stats r)\<lparr>rs_rejected_fragments := rs_rejected_fragments (fr_stats r) + 1\<rparr>\<rparr>"

definition note_pending :: "fragment_reassembler \<Rightarrow> fragment_reassembler" where
  "note_pending r = r\<lparr>fr_stats := (fr_stats r)\<lparr>rs_pending_streams := om_size (fr_pending r)\<rparr>\<rparr>"

section \<open>Operations\<close>

text \<open>The element \<open>try_emplace\<close> inserts, after the initialisation of the first branch.\<close>

definition new_pending :: "packet \<Rightarrow> fragment_info \<Rightarrow> pending_stream" where
  "new_pending fragment info =
     \<lparr>ps_first_packet = fragment\<lparr>p_payload := [], p_fragment := None\<rparr>,
      ps_fragments = replicate (unat (fi_count info)) [],
      ps_present = replicate (unat (fi_count info)) False,
      ps_received = 0, ps_total_payload = 0\<rparr>"

definition store_fragment :: "packet \<Rightarrow> fragment_info \<Rightarrow> pending_stream \<Rightarrow> pending_stream" where
  "store_fragment fragment info pending = pending\<lparr>
     ps_total_payload := ps_total_payload pending + length (p_payload fragment),
     ps_fragments := (ps_fragments pending)[unat (fi_sequence info) := p_payload fragment],
     ps_present := (ps_present pending)[unat (fi_sequence info) := True],
     ps_received := ps_received pending + 1\<rparr>"

definition assemble :: "pending_stream \<Rightarrow> packet" where
  "assemble pending = (ps_first_packet pending)\<lparr>p_payload :=
     p_payload (ps_first_packet pending) @ concat (ps_fragments pending)\<rparr>"

definition fr_push :: "packet \<Rightarrow> fragment_reassembler \<Rightarrow> (error + packet option) \<times> fragment_reassembler" where
  "fr_push fragment r0 =
     (let r = r0\<lparr>fr_stats := (fr_stats r0)\<lparr>rs_fragments_seen := rs_fragments_seen (fr_stats r0) + 1\<rparr>\<rparr>
      in case p_fragment fragment of
        None \<Rightarrow> (Inr (Some fragment), r)
      | Some info \<Rightarrow>
          if fi_count info = 0 \<or> fi_sequence info \<ge> fi_count info
          then (Inl (Error EC_malformed_packet ''invalid fragment coordinates''), count_rejected r)
          else
            let key = Reassembly_Key (p_device fragment) (fi_stream_id info);
                found = om_lookup (fr_pending r) key;
                pending = (case found of None \<Rightarrow> new_pending fragment info | Some p \<Rightarrow> p);
                r = r\<lparr>fr_pending := om_update key pending (fr_pending r)\<rparr>
            in if found \<noteq> None \<and> length (ps_fragments pending) \<noteq> unat (fi_count info)
               then (Inl (Error EC_malformed_packet ''fragment count changed within stream''), count_rejected r)
               else if ps_present pending ! unat (fi_sequence info)
               then (Inr None, r\<lparr>fr_stats := (fr_stats r)\<lparr>rs_duplicate_fragments :=
                       rs_duplicate_fragments (fr_stats r) + 1\<rparr>\<rparr>)
               else if ps_total_payload pending + length (p_payload fragment) > fr_max_payload_bytes r
               then (Inl (Error EC_malformed_packet ''reassembled payload exceeds configured limit''),
                     count_rejected (r\<lparr>fr_pending := om_delete key (fr_pending r)\<rparr>))
               else
                 let pending = store_fragment fragment info pending;
                     r = r\<lparr>fr_pending := om_update key pending (fr_pending r)\<rparr>
                 in if ps_received pending \<noteq> length (ps_fragments pending)
                    then (Inr None, note_pending r)
                    else
                      let r = r\<lparr>fr_pending := om_delete key (fr_pending r)\<rparr>;
                          r = r\<lparr>fr_stats := (fr_stats r)\<lparr>rs_completed_messages :=
                                rs_completed_messages (fr_stats r) + 1\<rparr>\<rparr>
                      in (Inr (Some (assemble pending)), note_pending r))"

definition fr_clear :: "device_id \<Rightarrow> u32 \<Rightarrow> fragment_reassembler \<Rightarrow> fragment_reassembler" where
  "fr_clear device stream_id r =
     note_pending (r\<lparr>fr_pending := om_delete (Reassembly_Key device stream_id) (fr_pending r)\<rparr>)"

definition fr_clear_all :: "fragment_reassembler \<Rightarrow> fragment_reassembler" where
  "fr_clear_all r = r\<lparr>fr_pending := om_empty, fr_stats := (fr_stats r)\<lparr>rs_pending_streams := 0\<rparr>\<rparr>"

definition fr_statistics :: "fragment_reassembler \<Rightarrow> reassembly_stats" where
  "fr_statistics r = (fr_stats r)\<lparr>rs_pending_streams := om_size (fr_pending r)\<rparr>"

section \<open>Invariant\<close>

text \<open>
  Of every pending stream the counters agree with the vectors, no slot has arrived without its
  bytes being counted, and the message is neither complete nor over the limit.
\<close>

definition pending_ok :: "nat \<Rightarrow> pending_stream \<Rightarrow> bool" where
  "pending_ok limit p \<longleftrightarrow>
     length (ps_present p) = length (ps_fragments p) \<and>
     ps_received p = length (filter (\<lambda>b. b) (ps_present p)) \<and>
     ps_total_payload p = sum_list (map length (ps_fragments p)) \<and>
     ps_total_payload p \<le> limit \<and>
     (\<forall>i < length (ps_fragments p). \<not> ps_present p ! i \<longrightarrow> ps_fragments p ! i = []) \<and>
     p_payload (ps_first_packet p) = [] \<and> p_fragment (ps_first_packet p) = None"

definition pending_inv :: "nat \<Rightarrow> (reassembly_key, pending_stream) omap \<Rightarrow> bool" where
  "pending_inv limit m \<longleftrightarrow> (\<forall>k p. om_lookup m k = Some p \<longrightarrow>
     pending_ok limit p \<and> ps_received p < length (ps_fragments p))"

definition fr_inv :: "fragment_reassembler \<Rightarrow> bool" where
  "fr_inv r \<longleftrightarrow> pending_inv (fr_max_payload_bytes r) (fr_pending r)"

lemma filter_replicate_False [simp]: "filter (\<lambda>b. b) (replicate n False) = []"
  by (induction n) auto

lemma new_pending_ok: "pending_ok limit (new_pending f info)"
  by (auto simp: pending_ok_def new_pending_def sum_list_replicate)

lemma store_fragment_ok:
  assumes ok: "pending_ok limit p" and i: "unat (fi_sequence info) < length (ps_fragments p)"
    and "\<not> ps_present p ! unat (fi_sequence info)"
    and "ps_total_payload p + length (p_payload f) \<le> limit"
  shows "pending_ok limit (store_fragment f info p)"
proof -
  let ?i = "unat (fi_sequence info)"
  have "sum_list (map length ((ps_fragments p)[?i := p_payload f])) + length (ps_fragments p ! ?i) =
      sum_list (map length (ps_fragments p)) + length (p_payload f)"
    using sum_list_update_nat [of ?i "map length (ps_fragments p)" "length (p_payload f)"] i
    by (simp add: map_update)
  moreover have "ps_fragments p ! ?i = []"
    using ok i assms(3) by (simp add: pending_ok_def)
  ultimately show ?thesis
    using assms length_filter_id_update [of ?i "ps_present p"]
    by (auto simp: pending_ok_def store_fragment_def nth_list_update)
qed

lemma pending_inv_empty [simp]: "pending_inv limit om_empty"
  by (simp add: pending_inv_def)

lemma pending_inv_update: "pending_inv limit m \<Longrightarrow> pending_ok limit p \<Longrightarrow>
    ps_received p < length (ps_fragments p) \<Longrightarrow> pending_inv limit (om_update k p m)"
  by (simp add: pending_inv_def)

lemma pending_inv_delete: "pending_inv limit m \<Longrightarrow> pending_inv limit (om_delete k m)"
  by (simp add: pending_inv_def)

lemma fr_inv_init: "fr_inv (fr_init n)"
  by (simp add: fr_inv_def fr_init_def)

lemma length_store [simp]: "length (ps_fragments (store_fragment f info p)) = length (ps_fragments p)"
  by (simp add: store_fragment_def)

text \<open>The branches of a valid fragment, over the stream it belongs to.\<close>

definition pending_for :: "fragment_reassembler \<Rightarrow> packet \<Rightarrow> fragment_info \<Rightarrow> pending_stream" where
  "pending_for r fragment info =
     (case om_lookup (fr_pending r) (Reassembly_Key (p_device fragment) (fi_stream_id info)) of
        None \<Rightarrow> new_pending fragment info | Some p \<Rightarrow> p)"

lemma pending_for_length:
  "om_lookup (fr_pending r) (Reassembly_Key (p_device f) (fi_stream_id info)) = None \<Longrightarrow>
   length (ps_fragments (pending_for r f info)) = unat (fi_count info)"
  by (simp add: pending_for_def new_pending_def)

lemma fr_push_pending:
  assumes "p_fragment f = Some info" and "\<not> (fi_count info = 0 \<or> fi_sequence info \<ge> fi_count info)"
  defines "key \<equiv> Reassembly_Key (p_device f) (fi_stream_id info)"
  shows fr_pending_push: "fr_pending (snd (fr_push f r)) =
     (let p = pending_for r f info; m = om_update key p (fr_pending r);
          q = store_fragment f info p
      in if length (ps_fragments p) \<noteq> unat (fi_count info) then m
         else if ps_present p ! unat (fi_sequence info) then m
         else if ps_total_payload p + length (p_payload f) > fr_max_payload_bytes r then om_delete key m
         else if ps_received q \<noteq> length (ps_fragments q) then om_update key q m
         else om_delete key m)" (is "_ = ?pending")
    and fr_result_push: "fst (fr_push f r) =
     (let p = pending_for r f info; q = store_fragment f info p
      in if length (ps_fragments p) \<noteq> unat (fi_count info)
         then Inl (Error EC_malformed_packet ''fragment count changed within stream'')
         else if ps_present p ! unat (fi_sequence info) then Inr None
         else if ps_total_payload p + length (p_payload f) > fr_max_payload_bytes r
         then Inl (Error EC_malformed_packet ''reassembled payload exceeds configured limit'')
         else if ps_received q \<noteq> length (ps_fragments q) then Inr None
         else Inr (Some (assemble q)))" (is "_ = ?result")
proof -
  have for_None: "pending_for r f info = new_pending f info" if "om_lookup (fr_pending r) key = None"
    using that by (simp add: pending_for_def key_def)
  have for_Some: "pending_for r f info = p" if "om_lookup (fr_pending r) key = Some p" for p
    using that by (simp add: pending_for_def key_def)
  note len = pending_for_length [of r f info, folded key_def]

  show "fr_pending (snd (fr_push f r)) = ?pending"
  proof (cases "om_lookup (fr_pending r) key")
    case None
    with assms(1,2) len [OF None] for_None [OF None] show ?thesis
      by (simp add: fr_push_def Let_def count_rejected_def note_pending_def flip: key_def)
  next
    case (Some p)
    with assms(1,2) for_Some [OF Some] show ?thesis
      by (simp add: fr_push_def Let_def count_rejected_def note_pending_def flip: key_def)
  qed
  show "fst (fr_push f r) = ?result"
  proof (cases "om_lookup (fr_pending r) key")
    case None
    with assms(1,2) len [OF None] for_None [OF None] show ?thesis
      by (simp add: fr_push_def Let_def count_rejected_def note_pending_def flip: key_def)
  next
    case (Some p)
    with assms(1,2) for_Some [OF Some] show ?thesis
      by (simp add: fr_push_def Let_def count_rejected_def note_pending_def flip: key_def)
  qed
qed

lemma fr_push_max [simp]: "fr_max_payload_bytes (snd (fr_push f r)) = fr_max_payload_bytes r"
  by (simp add: fr_push_def Let_def count_rejected_def note_pending_def split: option.split)

lemma fr_push_idle:
  "p_fragment f = None \<or> (\<exists>info. p_fragment f = Some info \<and> (fi_count info = 0 \<or> fi_sequence info \<ge> fi_count info)) \<Longrightarrow>
   fr_pending (snd (fr_push f r)) = fr_pending r"
  by (auto simp: fr_push_def Let_def count_rejected_def)

lemma fr_inv_push: "fr_inv r \<Longrightarrow> fr_inv (snd (fr_push f r))"
proof (cases "p_fragment f = None \<or> (\<exists>info. p_fragment f = Some info \<and> (fi_count info = 0 \<or> fi_sequence info \<ge> fi_count info))")
  case True
  assume "fr_inv r"
  with fr_push_idle [OF True] show ?thesis by (simp add: fr_inv_def)
next
  case False
  assume inv: "fr_inv r"
  from False obtain info where info: "p_fragment f = Some info"
    and valid: "\<not> (fi_count info = 0 \<or> fi_sequence info \<ge> fi_count info)" by auto
  define p where "p = pending_for r f info"
  have count: "unat (fi_sequence info) < unat (fi_count info)"
    using valid by (simp add: word_less_nat_alt not_le)
  then have ok: "pending_ok (fr_max_payload_bytes r) p" and rec: "ps_received p < length (ps_fragments p)"
    using inv new_pending_ok by (auto simp: p_def pending_for_def fr_inv_def pending_inv_def
        new_pending_def split: option.split)
  have stored: "ps_received (store_fragment f info p) \<noteq> length (ps_fragments p) \<Longrightarrow>
      ps_received (store_fragment f info p) < length (ps_fragments p)"
    using rec by (simp add: store_fragment_def)
  have "pending_inv (fr_max_payload_bytes r) (fr_pending (snd (fr_push f r)))"
    unfolding fr_pending_push [OF info valid] Let_def p_def [symmetric]
    using inv ok rec count store_fragment_ok [OF ok] stored
    by (auto simp: fr_inv_def not_less intro!: pending_inv_update pending_inv_delete)
  then show ?thesis by (simp add: fr_inv_def)
qed

lemma fr_inv_clear: "fr_inv r \<Longrightarrow> fr_inv (fr_clear d s r)"
  by (simp add: fr_inv_def fr_clear_def note_pending_def pending_inv_delete)

lemma fr_inv_clear_all: "fr_inv (fr_clear_all r)"
  by (simp add: fr_inv_def fr_clear_all_def)

datatype fr_call = FR_push packet | FR_clear device_id u32 | FR_clear_all

fun fr_step :: "fr_call \<Rightarrow> fragment_reassembler \<Rightarrow> fragment_reassembler" where
  "fr_step (FR_push f) r = snd (fr_push f r)"
| "fr_step (FR_clear d s) r = fr_clear d s r"
| "fr_step FR_clear_all r = fr_clear_all r"

interpretation reassembler: state_machine "fr_init n" fr_step fr_inv for n
proof
  show "fr_inv (fr_step e s)" if "fr_inv s" for e s
    using that by (cases e) (simp_all add: fr_inv_push fr_inv_clear fr_inv_clear_all)
qed (rule fr_inv_init)

section \<open>A message in any order\<close>

text \<open>
  A message of \<open>length parts\<close> fragments: fragment i repeats the header \<open>base\<close> and carries
  part i. \<open>holding\<close> says which of them the reassembler has seen.
\<close>

definition part_info :: "u32 \<Rightarrow> bytes list \<Rightarrow> nat \<Rightarrow> fragment_info" where
  "part_info sid parts i = \<lparr>fi_stream_id = sid, fi_sequence = of_nat i, fi_count = of_nat (length parts)\<rparr>"

definition part :: "packet \<Rightarrow> u32 \<Rightarrow> bytes list \<Rightarrow> nat \<Rightarrow> packet" where
  "part base sid parts i = base\<lparr>p_fragment := Some (part_info sid parts i), p_payload := parts ! i\<rparr>"

definition message_ok :: "nat \<Rightarrow> bytes list \<Rightarrow> bool" where
  "message_ok limit parts \<longleftrightarrow> parts \<noteq> [] \<and> length parts < 65536 \<and> length (concat parts) \<le> limit"

definition partial :: "packet \<Rightarrow> bytes list \<Rightarrow> nat set \<Rightarrow> pending_stream" where
  "partial base parts seen =
     \<lparr>ps_first_packet = base\<lparr>p_payload := [], p_fragment := None\<rparr>,
      ps_fragments = map (\<lambda>i. if i \<in> seen then parts ! i else []) [0..<length parts],
      ps_present = map (\<lambda>i. i \<in> seen) [0..<length parts],
      ps_received = card seen, ps_total_payload = (\<Sum>i\<in>seen. length (parts ! i))\<rparr>"

definition holding :: "fragment_reassembler \<Rightarrow> packet \<Rightarrow> u32 \<Rightarrow> bytes list \<Rightarrow> nat set \<Rightarrow> bool" where
  "holding r base sid parts seen \<longleftrightarrow>
     om_lookup (fr_pending r) (Reassembly_Key (p_device base) sid) =
       (if seen = {} then None else Some (partial base parts seen))"

definition foreign :: "packet \<Rightarrow> u32 \<Rightarrow> packet \<Rightarrow> bool" where
  "foreign base sid p \<longleftrightarrow>
     (\<forall>info. p_fragment p = Some info \<longrightarrow> Reassembly_Key (p_device p) (fi_stream_id info) \<noteq> Reassembly_Key (p_device base) sid)"

lemma part_coordinates:
  assumes "length parts < 65536" and "i < length parts"
  shows "unat (fi_count (part_info sid parts i)) = length parts"
    "unat (fi_sequence (part_info sid parts i)) = i"
    "\<not> (fi_count (part_info sid parts i) = 0 \<or> fi_sequence (part_info sid parts i) \<ge> fi_count (part_info sid parts i))"
proof -
  show c: "unat (fi_count (part_info sid parts i)) = length parts"
    using assms by (simp add: part_info_def unat_of_nat_u16)
  show s: "unat (fi_sequence (part_info sid parts i)) = i"
    using assms by (simp add: part_info_def unat_of_nat_u16)
  show "\<not> (fi_count (part_info sid parts i) = 0 \<or> fi_sequence (part_info sid parts i) \<ge> fi_count (part_info sid parts i))"
    using c s assms(2) by (auto simp: word_le_nat_alt word_unat_eq_iff)
qed

lemma pending_for_part:
  assumes "holding r base sid parts seen" and "length parts < 65536" and "i < length parts"
  shows "pending_for r (part base sid parts i) (part_info sid parts i) = partial base parts seen"
proof -
  have key: "Reassembly_Key (p_device (part base sid parts i)) (fi_stream_id (part_info sid parts i)) =
      Reassembly_Key (p_device base) sid"
    by (simp add: part_def part_info_def)
  have "new_pending (part base sid parts i) (part_info sid parts i) = partial base parts {}"
    using part_coordinates(1) [OF assms(2,3)]
    by (simp add: new_pending_def partial_def part_def map_replicate_trivial)
  with assms(1) show ?thesis
    by (simp add: pending_for_def key holding_def)
qed

lemma store_part:
  assumes "length parts < 65536" and "i < length parts" and "i \<notin> seen" and "finite seen"
  shows "store_fragment (part base sid parts i) (part_info sid parts i) (partial base parts seen) =
    partial base parts (insert i seen)"
  using assms part_coordinates(2) [OF assms(1,2)]
  by (auto simp: store_fragment_def partial_def part_def nth_list_update intro!: nth_equalityI split: if_splits)

lemma length_concat_parts:
  "seen \<subseteq> {..<length parts} \<Longrightarrow> (\<Sum>i\<in>seen. length (parts ! i)) \<le> length (concat parts)"
proof -
  assume sub: "seen \<subseteq> {..<length parts}"
  have "length (concat parts) = (\<Sum>i<length parts. length (parts ! i))"
    by (simp add: length_concat sum_list_sum_nth atLeast0LessThan)
  with sum_mono2 [OF _ sub, of "\<lambda>i. length (parts ! i)"] show ?thesis by simp
qed

lemma push_part:
  assumes hold: "holding r base sid parts seen" and ok: "message_ok (fr_max_payload_bytes r) parts"
    and i: "i < length parts" and seen: "seen \<subset> {..<length parts}"
  shows "fst (fr_push (part base sid parts i) r) =
      (if insert i seen = {..<length parts} then Inr (Some (base\<lparr>p_fragment := None, p_payload := concat parts\<rparr>))
       else Inr None) \<and>
    holding (snd (fr_push (part base sid parts i) r)) base sid parts
      (if insert i seen = {..<length parts} then {} else insert i seen)"
proof -
  let ?f = "part base sid parts i" and ?info = "part_info sid parts i" and ?n = "length parts"
  have n: "?n < 65536" using ok by (simp add: message_ok_def)
  have frag: "p_fragment ?f = Some ?info" by (simp add: part_def)
  have key: "Reassembly_Key (p_device ?f) (fi_stream_id ?info) = Reassembly_Key (p_device base) sid"
    by (simp add: part_def part_info_def)
  note coord = part_coordinates [OF n i, of sid]
  note pend = pending_for_part [OF hold n i]
  have fin: "finite seen" using seen finite_subset by blast
  have sizes: "length (ps_fragments (partial base parts s)) = ?n" for s
    by (simp add: partial_def)
  have present: "ps_present (partial base parts seen) ! i \<longleftrightarrow> i \<in> seen"
    using i by (simp add: partial_def)
  show ?thesis
  proof (cases "i \<in> seen")
    case True
    then have ins: "insert i seen = seen" "seen \<noteq> {..<?n}" using seen by auto
    have "holding (snd (fr_push ?f r)) base sid parts seen"
      unfolding holding_def fr_pending_push [OF frag coord(3)] pend Let_def key coord
      using True present sizes by (auto simp: partial_def)
    then show ?thesis
      using True present sizes
      by (simp add: fr_result_push [OF frag coord(3)] pend Let_def coord ins)
  next
    case False
    have store: "store_fragment ?f ?info (partial base parts seen) = partial base parts (insert i seen)"
      using store_part [OF n i False fin] .
    have sub: "insert i seen \<subseteq> {..<?n}" using seen i by auto
    have "ps_total_payload (partial base parts seen) + length (p_payload ?f) =
        (\<Sum>j\<in>insert i seen. length (parts ! j))"
      using False fin by (simp add: partial_def part_def)
    also have "\<dots> \<le> fr_max_payload_bytes r"
      using length_concat_parts [OF sub] ok by (simp add: message_ok_def)
    finally have limit: "\<not> ps_total_payload (partial base parts seen) + length (p_payload ?f) > fr_max_payload_bytes r"
      by simp
    have full: "ps_received (partial base parts (insert i seen)) = ?n \<longleftrightarrow> insert i seen = {..<?n}"
      using sub card_subset_eq [OF _ sub] by (auto simp: partial_def)
    have asm: "assemble (partial base parts {..<?n}) = base\<lparr>p_fragment := None, p_payload := concat parts\<rparr>"
    proof -
      have "map (\<lambda>i. if i \<in> {..<?n} then parts ! i else []) [0..<?n] = parts"
        by (rule nth_equalityI) simp_all
      then show ?thesis by (simp add: assemble_def partial_def del: lessThan_iff)
    qed
    show ?thesis
      unfolding holding_def fr_pending_push [OF frag coord(3)] fr_result_push [OF frag coord(3)]
        pend Let_def key coord store sizes
      using False present limit full asm by simp
  qed
qed

lemma push_foreign:
  assumes "holding r base sid parts seen" and "foreign base sid p"
  shows "holding (snd (fr_push p r)) base sid parts seen"
proof (cases "p_fragment p = None \<or> (\<exists>info. p_fragment p = Some info \<and> (fi_count info = 0 \<or> fi_sequence info \<ge> fi_count info))")
  case True
  with assms fr_push_idle [OF True] show ?thesis by (simp add: holding_def)
next
  case False
  then obtain info where info: "p_fragment p = Some info"
    and valid: "\<not> (fi_count info = 0 \<or> fi_sequence info \<ge> fi_count info)" by auto
  define k where "k = Reassembly_Key (p_device base) sid"
  define k' where "k' = Reassembly_Key (p_device p) (fi_stream_id info)"
  have "k \<noteq> k'"
    unfolding k_def k'_def by (rule assms(2) [unfolded foreign_def, rule_format, OF info, symmetric])
  then have "om_lookup (fr_pending (snd (fr_push p r))) k = om_lookup (fr_pending r) k"
    unfolding fr_pending_push [OF info valid] Let_def k'_def [symmetric]
    by (simp only: if_distrib [of "\<lambda>m. om_lookup m k"] om_lookup_update om_lookup_delete if_cancel if_False)
  with assms(1) show ?thesis by (simp only: holding_def k_def)
qed

definition fr_run :: "packet list \<Rightarrow> fragment_reassembler \<Rightarrow> fragment_reassembler" where
  "fr_run ps r = fold (\<lambda>p r. snd (fr_push p r)) ps r"

lemma fr_run_max [simp]: "fr_max_payload_bytes (fr_run ps r) = fr_max_payload_bytes r"
  by (induction ps arbitrary: r) (simp_all add: fr_run_def)

lemma part_inject:
  assumes "length parts < 65536" and "i < length parts" and "j < length parts"
  shows "part base sid parts i = part base sid parts j \<longleftrightarrow> i = j"
proof
  assume "part base sid parts i = part base sid parts j"
  from arg_cong [OF this, of p_fragment] have eq: "part_info sid parts i = part_info sid parts j"
    by (simp add: part_def)
  have "i = unat (fi_sequence (part_info sid parts i))"
    by (rule part_coordinates(2) [OF assms(1,2), symmetric])
  also have "\<dots> = j"
    unfolding eq by (rule part_coordinates(2) [OF assms(1,3)])
  finally show "i = j" .
qed simp

lemma run_holding:
  assumes "holding r base sid parts {}" and "message_ok (fr_max_payload_bytes r) parts"
    and "\<forall>p \<in> set ps. foreign base sid p \<or> (\<exists>i < length parts. p = part base sid parts i)"
    and "\<exists>j < length parts. part base sid parts j \<notin> set ps"
  shows "holding (fr_run ps r) base sid parts {i. i < length parts \<and> part base sid parts i \<in> set ps}"
  using assms(3,4)
proof (induction ps rule: rev_induct)
  case Nil
  with assms(1) show ?case by (simp add: fr_run_def)
next
  case (snoc p ps)
  let ?seen = "\<lambda>ps. {i. i < length parts \<and> part base sid parts i \<in> set ps}"
  have n: "length parts < 65536" using assms(2) by (simp add: message_ok_def)
  have IH: "holding (fr_run ps r) base sid parts (?seen ps)"
    using snoc by auto
  have step: "fr_run (ps @ [p]) r = snd (fr_push p (fr_run ps r))"
    by (simp add: fr_run_def)
  have proper: "?seen (ps @ [p]) \<noteq> {..<length parts}" "?seen ps \<subset> {..<length parts}"
    using snoc.prems(2) by auto
  consider "foreign base sid p" | i where "i < length parts" "p = part base sid parts i"
    using snoc.prems(1) by auto
  then show ?case
  proof cases
    case 1
    have "part base sid parts i \<noteq> p" for i
      using 1 by (auto simp: foreign_def part_def part_info_def)
    then have "?seen (ps @ [p]) = ?seen ps" by auto
    with push_foreign [OF IH 1] step show ?thesis by simp
  next
    case 2
    have "?seen (ps @ [p]) = insert i (?seen ps)"
      using part_inject [OF n] 2 by auto
    with push_part [OF IH _ 2(1) proper(2)] proper(1) step 2(2) assms(2) show ?thesis by simp
  qed
qed

section \<open>Properties\<close>


definition sample_part :: "nat \<Rightarrow> packet" where
  "sample_part = part packet_default 4 [[1], [2, 3]]"


text \<open>
  C8. After any calls the reassembler is consistent and bounded: every pending stream has its
  counters equal to what its vectors hold, is incomplete, and buffers at most the configured
  number of payload bytes.
\<close>

theorem reassembler_bounded:
  "fr_inv (fold fr_step calls (fr_init limit)) \<and> fr_max_payload_bytes (fold fr_step calls (fr_init limit)) = limit"
proof -
  have "fr_max_payload_bytes (fr_step e r) = fr_max_payload_bytes r" for e r
    using fr_run_max [of "[_]" r] by (cases e) (simp_all add: fr_run_def fr_clear_def fr_clear_all_def note_pending_def Let_def)
  then have "fr_max_payload_bytes (fold fr_step cs r) = fr_max_payload_bytes r" for cs r
    by (induction cs arbitrary: r) simp_all
  then show ?thesis using reassembler.inv_run [of calls limit] by (simp add: fr_init_def)
qed

end
