(* ===== verification/Session.thy ===== *)
theory Session
  imports Types Ordered_Map
begin

text \<open>
  Per-device bookkeeping of a received stream: \<open>src/stream/session_tracker.cpp\<close> and
  \<open>src/stream/link_monitor.cpp\<close>. The fields of a session are determined by the packets
  observed for its device: the highest sequence number, the latest packet time, the count.
\<close>

section \<open>Session state and events\<close>

datatype session_event_kind =
    SE_opened | SE_packet_seen | SE_duplicate_sequence | SE_sequence_gap
  | SE_timestamp_regression | SE_idle_timeout | SE_closed

record session_event =
  se_kind :: session_event_kind
  se_device :: device_id
  se_sequence :: u32
  se_timestamp_ns :: u64
  se_expected_sequence :: u32
  se_message :: string

record session_state =
  ss_device :: device_id
  ss_opened_at_ns :: u64
  ss_last_seen_ns :: u64
  ss_last_packet_time_ns :: u64
  ss_first_sequence :: u32
  ss_last_sequence :: u32
  ss_packets :: u64
  ss_duplicates :: u64
  ss_gaps :: u64
  ss_timestamp_regressions :: u64
  ss_open :: bool

record session_tracker_options =
  so_idle_timeout_ns :: u64
  so_max_gap_without_warning :: u32

definition session_tracker_options_default :: session_tracker_options where
  "session_tracker_options_default =
     \<lparr>so_idle_timeout_ns = 30000000000, so_max_gap_without_warning = 4\<rparr>"

record session_tracker_snapshot =
  sn_sessions :: "session_state list"
  sn_total_packets :: u64
  sn_total_duplicates :: u64
  sn_total_gaps :: u64
  sn_total_timestamp_regressions :: u64

record session_tracker =
  st_options :: session_tracker_options
  st_sessions :: "(device_id, session_state) omap"

definition make_event :: "session_event_kind \<Rightarrow> session_state \<Rightarrow> u32 \<Rightarrow> u64 \<Rightarrow> string \<Rightarrow> session_event" where
  "make_event kind state sequence timestamp_ns message =
     \<lparr>se_kind = kind, se_device = ss_device state, se_sequence = sequence,
      se_timestamp_ns = timestamp_ns, se_expected_sequence = ss_last_sequence state + 1,
      se_message = message\<rparr>"

definition new_session :: "packet \<Rightarrow> u64 \<Rightarrow> session_state" where
  "new_session packet arrival_time_ns =
     \<lparr>ss_device = p_device packet, ss_opened_at_ns = arrival_time_ns,
      ss_last_seen_ns = arrival_time_ns, ss_last_packet_time_ns = p_timestamp_ns packet,
      ss_first_sequence = p_sequence packet, ss_last_sequence = p_sequence packet,
      ss_packets = 1, ss_duplicates = 0, ss_gaps = 0, ss_timestamp_regressions = 0, ss_open = True\<rparr>"

definition sequence_after :: "u32 \<Rightarrow> u32 \<Rightarrow> bool" where
  "sequence_after newer older \<longleftrightarrow> newer > older"

definition sequence_gap :: "u32 \<Rightarrow> u32 \<Rightarrow> u32" where
  "sequence_gap newer older = (if newer \<le> older + 1 then 0 else newer - older - 1)"

section \<open>SessionTracker\<close>

definition st_init :: "session_tracker_options \<Rightarrow> session_tracker" where
  "st_init options = \<lparr>st_options = options, st_sessions = om_empty\<rparr>"

text \<open>The steps of \<open>observe\<close> on a session that exists, in the order of the code.\<close>

type_synonym session_log = "session_event list \<times> session_state"

definition reopen :: "packet \<Rightarrow> u64 \<Rightarrow> session_log \<Rightarrow> session_log" where
  "reopen packet arrival_time_ns log = (case log of (events, state) \<Rightarrow>
     if \<not> ss_open state
     then let state = state\<lparr>ss_open := True, ss_opened_at_ns := arrival_time_ns\<rparr>
          in (events @ [make_event SE_opened state (p_sequence packet) (p_timestamp_ns packet)
                ''session reopened''], state)
     else (events, state))"

definition track_sequence :: "session_tracker_options \<Rightarrow> packet \<Rightarrow> session_log \<Rightarrow> session_log" where
  "track_sequence options packet log = (case log of (events, state) \<Rightarrow>
     if p_sequence packet = ss_last_sequence state
     then let state = state\<lparr>ss_duplicates := ss_duplicates state + 1\<rparr>
          in (events @ [make_event SE_duplicate_sequence state (p_sequence packet)
                (p_timestamp_ns packet) ''duplicate packet sequence''], state)
     else if sequence_after (p_sequence packet) (ss_last_sequence state)
     then let gap = sequence_gap (p_sequence packet) (ss_last_sequence state);
              (events, state) =
                (if gap > so_max_gap_without_warning options
                 then let state = state\<lparr>ss_gaps := ss_gaps state + 1\<rparr>
                      in (events @ [make_event SE_sequence_gap state (p_sequence packet)
                            (p_timestamp_ns packet) (''sequence gap of '' @ dec gap @ '' packets'')], state)
                 else (events, state))
          in (events, state\<lparr>ss_last_sequence := p_sequence packet\<rparr>)
     else let state = state\<lparr>ss_duplicates := ss_duplicates state + 1\<rparr>
          in (events @ [make_event SE_duplicate_sequence state (p_sequence packet)
                (p_timestamp_ns packet) ''late or repeated packet sequence''], state))"

definition track_time :: "packet \<Rightarrow> session_log \<Rightarrow> session_log" where
  "track_time packet log = (case log of (events, state) \<Rightarrow>
     if p_timestamp_ns packet < ss_last_packet_time_ns state
     then let state = state\<lparr>ss_timestamp_regressions := ss_timestamp_regressions state + 1\<rparr>
          in (events @ [make_event SE_timestamp_regression state (p_sequence packet)
                (p_timestamp_ns packet) ''packet timestamp regressed''], state)
     else (events, state\<lparr>ss_last_packet_time_ns := p_timestamp_ns packet\<rparr>))"

definition mark_seen :: "packet \<Rightarrow> u64 \<Rightarrow> session_log \<Rightarrow> session_log" where
  "mark_seen packet arrival_time_ns log = (case log of (events, state) \<Rightarrow>
     let state = state\<lparr>ss_last_seen_ns := arrival_time_ns, ss_packets := ss_packets state + 1\<rparr>
     in (events @ [make_event SE_packet_seen state (p_sequence packet) (p_timestamp_ns packet)
           ''packet observed''], state))"

definition observe_known :: "session_tracker_options \<Rightarrow> packet \<Rightarrow> u64 \<Rightarrow> session_state \<Rightarrow> session_log" where
  "observe_known options packet arrival_time_ns state =
     mark_seen packet arrival_time_ns (track_time packet (track_sequence options packet
       (reopen packet arrival_time_ns ([], state))))"

definition observe_first :: "packet \<Rightarrow> u64 \<Rightarrow> session_log" where
  "observe_first packet arrival_time_ns =
     (let state = new_session packet arrival_time_ns
      in ([make_event SE_opened state (p_sequence packet) (p_timestamp_ns packet) ''session opened'',
           make_event SE_packet_seen state (p_sequence packet) (p_timestamp_ns packet)
             ''first packet observed''], state))"

definition st_observe :: "packet \<Rightarrow> u64 \<Rightarrow> session_tracker \<Rightarrow> session_event list \<times> session_tracker" where
  "st_observe packet arrival_time_ns t =
     (let (events, state) =
        (case om_lookup (st_sessions t) (p_device packet) of
           None \<Rightarrow> observe_first packet arrival_time_ns
         | Some state \<Rightarrow> observe_known (st_options t) packet arrival_time_ns state)
      in (events, t\<lparr>st_sessions := om_update (p_device packet) state (st_sessions t)\<rparr>))"

text \<open>A session is closed by \<open>expire_idle\<close> when it is open and has been silent for the timeout.\<close>

definition expires :: "session_tracker_options \<Rightarrow> u64 \<Rightarrow> session_state \<Rightarrow> bool" where
  "expires options now_ns state \<longleftrightarrow>
     ss_open state \<and> \<not> now_ns < ss_last_seen_ns state \<and>
     \<not> now_ns - ss_last_seen_ns state < so_idle_timeout_ns options"

definition expire_events :: "u64 \<Rightarrow> session_state \<Rightarrow> session_event list" where
  "expire_events now_ns state0 =
     (let state = state0\<lparr>ss_open := False\<rparr>; idle_for = now_ns - ss_last_seen_ns state0
      in [make_event SE_idle_timeout state (ss_last_sequence state) (ss_last_packet_time_ns state)
            (''session idle for '' @ dec idle_for @ '' ns''),
          make_event SE_closed state (ss_last_sequence state) (ss_last_packet_time_ns state)
            ''session closed after idle timeout''])"

definition st_expire_idle :: "u64 \<Rightarrow> session_tracker \<Rightarrow> session_event list \<times> session_tracker" where
  "st_expire_idle now_ns t =
     (concat (map (\<lambda>state. if expires (st_options t) now_ns state then expire_events now_ns state else [])
        (om_values (st_sessions t))),
      t\<lparr>st_sessions := om_map (\<lambda>_ state. if expires (st_options t) now_ns state
          then state\<lparr>ss_open := False\<rparr> else state) (st_sessions t)\<rparr>)"

definition st_find :: "device_id \<Rightarrow> session_tracker \<Rightarrow> session_state option" where
  "st_find device t = om_lookup (st_sessions t) device"

definition accumulate :: "session_state \<Rightarrow> session_tracker_snapshot \<Rightarrow> session_tracker_snapshot" where
  "accumulate state snapshot = snapshot\<lparr>
     sn_total_packets := sn_total_packets snapshot + ss_packets state,
     sn_total_duplicates := sn_total_duplicates snapshot + ss_duplicates state,
     sn_total_gaps := sn_total_gaps snapshot + ss_gaps state,
     sn_total_timestamp_regressions :=
       sn_total_timestamp_regressions snapshot + ss_timestamp_regressions state\<rparr>"

definition st_snapshot :: "session_tracker \<Rightarrow> session_tracker_snapshot" where
  "st_snapshot t =
     (let snapshot = fold (\<lambda>state snapshot. accumulate state
            (snapshot\<lparr>sn_sessions := sn_sessions snapshot @ [state]\<rparr>)) (om_values (st_sessions t))
            \<lparr>sn_sessions = [], sn_total_packets = 0, sn_total_duplicates = 0, sn_total_gaps = 0,
             sn_total_timestamp_regressions = 0\<rparr>
      in snapshot\<lparr>sn_sessions := sort_key ss_device (sn_sessions snapshot)\<rparr>)"

definition st_clear :: "session_tracker \<Rightarrow> session_tracker" where
  "st_clear t = t\<lparr>st_sessions := om_empty\<rparr>"

definition session_event_name :: "session_event_kind \<Rightarrow> string" where
  "session_event_name kind = (case kind of
     SE_opened \<Rightarrow> ''opened''
   | SE_packet_seen \<Rightarrow> ''packet_seen''
   | SE_duplicate_sequence \<Rightarrow> ''duplicate_sequence''
   | SE_sequence_gap \<Rightarrow> ''sequence_gap''
   | SE_timestamp_regression \<Rightarrow> ''timestamp_regression''
   | SE_idle_timeout \<Rightarrow> ''idle_timeout''
   | SE_closed \<Rightarrow> ''closed'')"

definition render_session_event :: "session_event \<Rightarrow> string" where
  "render_session_event event =
     ''session_event '' @ session_event_name (se_kind event) @
     '' device='' @ dec (se_device event) @
     '' sequence='' @ dec (se_sequence event) @
     '' expected='' @ dec (se_expected_sequence event) @
     '' timestamp_ns='' @ dec (se_timestamp_ns event) @
     (if se_message event \<noteq> [] then '' message='' @ dquote @ se_message event @ dquote else [])"

definition render_session_snapshot :: "session_tracker_snapshot \<Rightarrow> string" where
  "render_session_snapshot snapshot =
     ''session_snapshot'' @ newline @
     ''  sessions: '' @ dec_nat (length (sn_sessions snapshot)) @ newline @
     ''  packets: '' @ dec (sn_total_packets snapshot) @ newline @
     ''  duplicates: '' @ dec (sn_total_duplicates snapshot) @ newline @
     ''  gaps: '' @ dec (sn_total_gaps snapshot) @ newline @
     ''  timestamp_regressions: '' @ dec (sn_total_timestamp_regressions snapshot) @ newline @
     concat (map (\<lambda>session.
       ''  device: '' @ dec (ss_device session) @
       '' open='' @ yes_no (ss_open session) @
       '' packets='' @ dec (ss_packets session) @
       '' first_sequence='' @ dec (ss_first_sequence session) @
       '' last_sequence='' @ dec (ss_last_sequence session) @
       '' last_seen_ns='' @ dec (ss_last_seen_ns session) @ newline) (sn_sessions snapshot))"

section \<open>What a session records\<close>

lemma observe_known_state:
  "snd (observe_known options p t s) = s\<lparr>
     ss_open := True,
     ss_opened_at_ns := (if ss_open s then ss_opened_at_ns s else t),
     ss_duplicates := (if p_sequence p \<le> ss_last_sequence s then ss_duplicates s + 1 else ss_duplicates s),
     ss_gaps := (if p_sequence p > ss_last_sequence s \<and>
        sequence_gap (p_sequence p) (ss_last_sequence s) > so_max_gap_without_warning options
        then ss_gaps s + 1 else ss_gaps s),
     ss_last_sequence := max (ss_last_sequence s) (p_sequence p),
     ss_timestamp_regressions := (if p_timestamp_ns p < ss_last_packet_time_ns s
        then ss_timestamp_regressions s + 1 else ss_timestamp_regressions s),
     ss_last_packet_time_ns := max (ss_last_packet_time_ns s) (p_timestamp_ns p),
     ss_last_seen_ns := t,
     ss_packets := ss_packets s + 1\<rparr>"
  by (cases "ss_open s"; cases "p_sequence p" "ss_last_sequence s" rule: linorder_cases;
      cases "p_timestamp_ns p < ss_last_packet_time_ns s")
    (simp_all add: observe_known_def reopen_def track_sequence_def track_time_def mark_seen_def
      sequence_after_def Let_def max_def)

text \<open>Every observation ends in exactly one \<open>packet_seen\<close> event, for the packet observed.\<close>

lemma observe_packet_seen:
  "\<exists>evs e. fst (st_observe p t tr) = evs @ [e] \<and> se_kind e = SE_packet_seen \<and>
     se_device e = p_device p \<and> se_sequence e = p_sequence p \<and>
     (\<forall>x \<in> set evs. se_kind x \<noteq> SE_packet_seen)"
  if "\<And>d s. om_lookup (st_sessions tr) d = Some s \<Longrightarrow> ss_device s = d"
proof (cases "om_lookup (st_sessions tr) (p_device p)")
  case None
  then show ?thesis
    by (simp add: st_observe_def observe_first_def Let_def make_event_def new_session_def split_beta)
next
  case (Some s)
  have "ss_device s = p_device p" using that [OF Some] .
  with Some show ?thesis
    by (auto simp: st_observe_def observe_known_def reopen_def track_sequence_def track_time_def
        mark_seen_def Let_def make_event_def split_beta split: if_split)
qed

datatype st_call = ST_observe packet u64 | ST_expire u64

fun st_step :: "st_call \<Rightarrow> session_tracker \<Rightarrow> session_tracker" where
  "st_step (ST_observe p t) tr = snd (st_observe p t tr)"
| "st_step (ST_expire t) tr = snd (st_expire_idle t tr)"

fun observed_packets :: "device_id \<Rightarrow> st_call list \<Rightarrow> packet list" where
  "observed_packets d [] = []"
| "observed_packets d (ST_observe p t # es) =
     (if p_device p = d then p # observed_packets d es else observed_packets d es)"
| "observed_packets d (ST_expire t # es) = observed_packets d es"

lemma observed_append: "observed_packets d (es @ fs) = observed_packets d es @ observed_packets d fs"
  by (induction d es rule: observed_packets.induct) auto

definition session_matches :: "packet list \<Rightarrow> device_id \<Rightarrow> session_state option \<Rightarrow> bool" where
  "session_matches ps d found \<longleftrightarrow>
     (case found of None \<Rightarrow> ps = []
      | Some s \<Rightarrow> ps \<noteq> [] \<and> ss_device s = d \<and> ss_packets s = of_nat (length ps) \<and>
          ss_first_sequence s = p_sequence (hd ps) \<and>
          ss_last_sequence s = Max (p_sequence ` set ps) \<and>
          ss_last_packet_time_ns s = Max (p_timestamp_ns ` set ps))"

lemma session_matches_step:
  assumes "session_matches (observed_packets d es) d (om_lookup (st_sessions tr) d)"
  shows "session_matches (observed_packets d (es @ [e])) d (om_lookup (st_sessions (st_step e tr)) d)"
proof (cases e)
  case (ST_observe p t)
  show ?thesis
  proof (cases "p_device p = d")
    case True
    show ?thesis
    proof (cases "om_lookup (st_sessions tr) d")
      case None
      with assms True ST_observe show ?thesis
        by (simp add: session_matches_def observed_append st_observe_def observe_first_def Let_def new_session_def)
    next
      case (Some s)
      with assms have ne: "observed_packets d es \<noteq> []" by (simp add: session_matches_def)
      from Some assms True ST_observe ne show ?thesis
        by (auto simp: session_matches_def observed_append st_observe_def split_beta
            observe_known_state Max_insert max.commute)
    qed
  next
    case False
    with assms ST_observe show ?thesis
      by (auto simp: observed_append st_observe_def split_beta)
  qed
next
  case (ST_expire t)
  with assms show ?thesis
    by (auto simp: observed_append st_expire_idle_def session_matches_def split: option.split)
qed

lemma expires_closed [simp]: "\<not> expires options now (s\<lparr>ss_open := False\<rparr>)"
  by (simp add: expires_def)

section \<open>LinkMonitor\<close>

record link_monitor_options =
  lo_jitter_warning_ns :: u64
  lo_idle_warning_ns :: u64

definition link_monitor_options_default :: link_monitor_options where
  "link_monitor_options_default =
     \<lparr>lo_jitter_warning_ns = 100000000, lo_idle_warning_ns = 5000000000\<rparr>"

record link_sample =
  ls_device :: device_id
  ls_arrival_time_ns :: u64
  ls_sequence :: u32

record link_finding =
  lf_device :: device_id
  lf_code :: string
  lf_message :: string

record link_monitor_report =
  lr_samples :: u64
  lr_findings :: "link_finding list"

record link_monitor =
  lm_options :: link_monitor_options
  lm_samples :: "link_sample list"

definition lm_init :: "link_monitor_options \<Rightarrow> link_monitor" where
  "lm_init options = \<lparr>lm_options = options, lm_samples = []\<rparr>"

definition lm_observe :: "packet \<Rightarrow> u64 \<Rightarrow> link_monitor \<Rightarrow> link_monitor" where
  "lm_observe packet arrival_time_ns m = m\<lparr>lm_samples := lm_samples m @
     [\<lparr>ls_device = p_device packet, ls_arrival_time_ns = arrival_time_ns, ls_sequence = p_sequence packet\<rparr>]\<rparr>"

definition group_by_device :: "link_sample list \<Rightarrow> (device_id, link_sample list) omap" where
  "group_by_device samples =
     fold (\<lambda>sample grouped. om_update (ls_device sample)
       (om_get [] grouped (ls_device sample) @ [sample]) grouped) samples om_empty"

definition pair_findings :: "link_monitor_options \<Rightarrow> device_id \<Rightarrow> link_sample \<Rightarrow> link_sample \<Rightarrow> link_finding list" where
  "pair_findings options device previous sample =
     (let delta = ls_arrival_time_ns sample - ls_arrival_time_ns previous;
          finding = (\<lambda>cd message. \<lparr>lf_device = device, lf_code = cd, lf_message = message\<rparr>)
      in (if delta > lo_idle_warning_ns options
          then [finding ''link.idle_gap'' ''device had a long idle gap'']
          else if delta > lo_jitter_warning_ns options
          then [finding ''link.jitter'' ''device arrival delta exceeded jitter threshold'']
          else []) @
         (if ls_sequence sample \<le> ls_sequence previous
          then [finding ''link.sequence_regression'' ''sequence did not advance''] else []))"

fun device_findings :: "link_monitor_options \<Rightarrow> device_id \<Rightarrow> link_sample list \<Rightarrow> link_finding list" where
  "device_findings options device (previous # sample # samples) =
     pair_findings options device previous sample @ device_findings options device (sample # samples)"
| "device_findings options device _ = []"

definition lm_report :: "link_monitor \<Rightarrow> link_monitor_report" where
  "lm_report m =
     \<lparr>lr_samples = of_nat (length (lm_samples m)),
      lr_findings = concat (map (\<lambda>(device, samples).
        device_findings (lm_options m) device (sort_key ls_arrival_time_ns samples))
        (om_entries (group_by_device (lm_samples m))))\<rparr>"

definition lm_clear :: "link_monitor \<Rightarrow> link_monitor" where
  "lm_clear m = m\<lparr>lm_samples := []\<rparr>"

definition render_link_monitor_report :: "link_monitor_report \<Rightarrow> string" where
  "render_link_monitor_report report =
     ''link_monitor'' @ newline @
     ''  samples: '' @ dec (lr_samples report) @ newline @
     concat (map (\<lambda>finding. ''  finding: device='' @ dec (lf_device finding) @ '' '' @
       lf_code finding @ '' '' @ lf_message finding @ newline) (lr_findings report))"

text \<open>Grouping gives each device its own samples in arrival order.\<close>

lemma group_lookup_from:
  "om_get [] (fold (\<lambda>sample grouped. om_update (ls_device sample)
     (om_get [] grouped (ls_device sample) @ [sample]) grouped) samples m) d =
   om_get [] m d @ filter (\<lambda>s. ls_device s = d) samples"
  by (induction samples arbitrary: m) auto

lemma group_lookup: "om_get [] (group_by_device samples) d = filter (\<lambda>s. ls_device s = d) samples"
  unfolding group_by_device_def group_lookup_from by (simp add: om_get_def)

lemma device_findings_Nil_iff:
  "device_findings options d ss = [] \<longleftrightarrow>
   (\<forall>i. Suc i < length ss \<longrightarrow> pair_findings options d (ss ! i) (ss ! Suc i) = [])"
proof (induction options d ss rule: device_findings.induct)
  case (1 options d x y zs)
  then show ?case by (auto simp: nth_Cons split: nat.splits)
qed auto

lemma pair_findings_Nil_iff:
  "pair_findings options d x y = [] \<longleftrightarrow>
     ls_arrival_time_ns y - ls_arrival_time_ns x \<le> lo_idle_warning_ns options \<and>
     ls_arrival_time_ns y - ls_arrival_time_ns x \<le> lo_jitter_warning_ns options \<and>
     ls_sequence x < ls_sequence y"
  by (auto simp: pair_findings_def Let_def not_le not_less)

lemma quiet_link:
  "lr_findings (lm_report m) = [] \<longleftrightarrow>
   (\<forall>d. device_findings (lm_options m) d
      (sort_key ls_arrival_time_ns (filter (\<lambda>s. ls_device s = d) (lm_samples m))) = [])"
proof
  let ?g = "group_by_device (lm_samples m)"
  have look: "om_lookup ?g d = Some ss \<Longrightarrow> ss = filter (\<lambda>s. ls_device s = d) (lm_samples m)" for d ss
    using group_lookup [of "lm_samples m" d] by (simp add: om_get_def)
  {
    assume l: "lr_findings (lm_report m) = []"
    show "\<forall>d. device_findings (lm_options m) d
      (sort_key ls_arrival_time_ns (filter (\<lambda>s. ls_device s = d) (lm_samples m))) = []"
    proof
      fix d
      show "device_findings (lm_options m) d
        (sort_key ls_arrival_time_ns (filter (\<lambda>s. ls_device s = d) (lm_samples m))) = []"
      proof (cases "om_lookup ?g d")
        case None
        then have "filter (\<lambda>s. ls_device s = d) (lm_samples m) = []"
          using group_lookup [of "lm_samples m" d] by (simp add: om_get_def)
        then show ?thesis by (simp del: filter_empty_conv)
      next
        case (Some ss)
        then have "(d, ss) \<in> set (om_entries ?g)" by (simp add: om_mem_entries)
        with l look [OF Some] show ?thesis by (auto simp: lm_report_def)
      qed
    qed
  }
  {
    assume "\<forall>d. device_findings (lm_options m) d
      (sort_key ls_arrival_time_ns (filter (\<lambda>s. ls_device s = d) (lm_samples m))) = []"
    then show "lr_findings (lm_report m) = []"
      by (auto simp: lm_report_def om_mem_entries dest!: look)
  }
qed

section \<open>Properties\<close>

text \<open>
  After any sequence of observations and expiries a session holds the count, the first and
  the highest sequence number and the latest timestamp of exactly the packets observed for its
  device, and a device without packets has no session.
\<close>

theorem session_matches_run:
  "session_matches (observed_packets d es) d (st_find d (fold st_step es (st_init options)))"
proof (induction es rule: rev_induct)
  case Nil
  show ?case by (simp add: session_matches_def st_find_def st_init_def)
next
  case (snoc e es)
  then show ?case
    using session_matches_step [of d es "fold st_step es (st_init options)" e]
    by (simp add: st_find_def)
qed

text \<open>
  After idle expiry no session is open that has been silent for longer than the timeout;
  the others keep their state, none is reopened and none is dropped.
\<close>

theorem expire_idle_complete:
  assumes "st_find d (snd (st_expire_idle now t)) = Some s"
  shows "\<not> expires (st_options t) now s \<and>
   (\<exists>s0. st_find d t = Some s0 \<and> s = s0\<lparr>ss_open := ss_open s0 \<and> \<not> expires (st_options t) now s0\<rparr>)"
proof -
  from assms obtain s0 where "st_find d t = Some s0"
    "s = (if expires (st_options t) now s0 then s0\<lparr>ss_open := False\<rparr> else s0)"
    by (auto simp: st_find_def st_expire_idle_def)
  then show ?thesis
    by (cases "expires (st_options t) now s0") simp_all
qed

definition sample_tracker :: session_tracker where
  "sample_tracker = snd (st_observe (packet_default\<lparr>p_device := 7\<rparr>) 5 (st_init session_tracker_options_default))"

lemma sample_tracker_find: "st_find 7 sample_tracker \<noteq> None"
  by (simp add: sample_tracker_def st_find_def st_observe_def observe_first_def st_init_def packet_default_def Let_def)

lemma expire_idle_complete_witness:
  "\<exists>s. st_find 7 (snd (st_expire_idle 100000000000 sample_tracker)) = Some s \<and>
     \<not> expires (st_options sample_tracker) 100000000000 s"
proof -
  obtain s where s: "st_find 7 (snd (st_expire_idle 100000000000 sample_tracker)) = Some s"
    using sample_tracker_find by (auto simp: st_find_def st_expire_idle_def)
  from expire_idle_complete [OF this] s show ?thesis by blast
qed

text \<open>
  Sequence numbers are compared without wrap-around: after the largest one, the session
  takes the wrapped successor for a late duplicate and keeps the largest number, so every
  later packet of the device is counted as late too.
\<close>

theorem sequence_wrap_is_late:
  assumes "ss_last_sequence s = 0xffffffff" and "p_sequence p = ss_last_sequence s + 1"
  shows "ss_last_sequence (snd (observe_known options p t s)) = 0xffffffff \<and>
   ss_duplicates (snd (observe_known options p t s)) = ss_duplicates s + 1"
  using assms by (simp add: observe_known_state max_def)

lemma sequence_wrap_is_late_witness:
  "ss_duplicates (snd (observe_known session_tracker_options_default packet_default 9
     (new_session (packet_default\<lparr>p_sequence := 0xffffffff\<rparr>) 5))) = 1"
  using sequence_wrap_is_late [of "new_session (packet_default\<lparr>p_sequence := 0xffffffff\<rparr>) 5" packet_default
      session_tracker_options_default 9]
  by (simp add: new_session_def packet_default_def)

end
