(* ===== verification/Archive.thy ===== *)
theory Archive
  imports Batch
begin

text \<open>
  The packet archive of \<open>src/storage/archive.cpp\<close>: writer, sequential reader and time index.
  A file is the list of its bytes; opening it succeeds, and a write through the stream succeeds
  until the stream is closed. The reader keeps the position of its stream and whether a short
  read has put the stream into the failed state, in which \<open>peek\<close> reports the end of the file.
\<close>

section \<open>Data\<close>

record archive_record =
  rec_offset :: u64
  rec_capture_time_ns :: u64
  rec_packet :: packet

record archive_summary =
  as_format_version :: u32
  as_record_count :: u64
  as_first_time_ns :: u64
  as_last_time_ns :: u64

definition archive_summary_default :: archive_summary where
  "archive_summary_default =
     \<lparr>as_format_version = 1, as_record_count = 0, as_first_time_ns = 0, as_last_time_ns = 0\<rparr>"

record archive_index_entry =
  ix_capture_time_ns :: u64
  ix_offset :: u64
  ix_payload_size :: u64
  ix_device :: device_id
  ix_sequence :: u32

record archive_index =
  ai_summary :: archive_summary
  ai_records :: "archive_index_entry list"

record archive_writer =
  aw_file :: bytes
  aw_good :: bool
  aw_summary :: archive_summary
  aw_closed :: bool

record archive_reader =
  ar_file :: bytes
  ar_pos :: nat
  ar_failed :: bool
  ar_summary :: archive_summary

definition archive_magic :: bytes where
  "archive_magic = map byte_of_char ''AETHARC1''"

definition archive_header :: "archive_summary \<Rightarrow> bytes" where
  "archive_header s =
     bw_u64 (as_last_time_ns s) (bw_u64 (as_first_time_ns s) (bw_u64 (as_record_count s)
       (bw_u32 (as_format_version s) [])))"

section \<open>ArchiveWriter\<close>

text \<open>\<open>write_all\<close> at the stream position \<open>pos\<close>.\<close>

definition overwrite :: "nat \<Rightarrow> bytes \<Rightarrow> bytes \<Rightarrow> bytes" where
  "overwrite pos bs file = take pos file @ bs @ drop (pos + length bs) file"

definition aw_write_all :: "nat \<Rightarrow> bytes \<Rightarrow> archive_writer \<Rightarrow> (error + unit) \<times> archive_writer" where
  "aw_write_all pos bs w =
     (if aw_good w then (Inr (), w\<lparr>aw_file := overwrite pos bs (aw_file w)\<rparr>)
      else (Inl (Error EC_archive_corrupt ''failed to write archive data''), w))"

definition aw_open :: archive_writer where
  "aw_open =
     \<lparr>aw_file = archive_magic @ archive_header archive_summary_default, aw_good = True,
      aw_summary = archive_summary_default, aw_closed = False\<rparr>"

definition record_body :: "u64 \<Rightarrow> bytes \<Rightarrow> bytes" where
  "record_body capture_time_ns frame =
     bw_bytes frame (bw_u32 (of_nat (length frame)) (bw_u64 capture_time_ns []))"

definition record_bytes :: "u64 \<Rightarrow> bytes \<Rightarrow> bytes" where
  "record_bytes capture_time_ns frame =
     bw_u32 (crc32c (record_body capture_time_ns frame)) (record_body capture_time_ns frame)"

definition summary_add :: "u64 \<Rightarrow> archive_summary \<Rightarrow> archive_summary" where
  "summary_add capture_time_ns s =
     (let s = (if as_record_count s = 0
            then s\<lparr>as_first_time_ns := capture_time_ns, as_last_time_ns := capture_time_ns\<rparr>
            else s\<lparr>as_first_time_ns := min (as_first_time_ns s) capture_time_ns,
                   as_last_time_ns := max (as_last_time_ns s) capture_time_ns\<rparr>)
      in s\<lparr>as_record_count := as_record_count s + 1\<rparr>)"

definition aw_append :: "u64 \<Rightarrow> packet \<Rightarrow> archive_writer \<Rightarrow> (error + unit) \<times> archive_writer" where
  "aw_append capture_time_ns packet w =
     (case encode_packet packet of
        Inl e \<Rightarrow> (Inl e, w)
      | Inr frame \<Rightarrow>
          (case aw_write_all (length (aw_file w)) (record_bytes capture_time_ns frame) w of
             (Inl e, w) \<Rightarrow> (Inl e, w)
           | (Inr _, w) \<Rightarrow> (Inr (), w\<lparr>aw_summary := summary_add capture_time_ns (aw_summary w)\<rparr>)))"

definition aw_close :: "archive_writer \<Rightarrow> (error + unit) \<times> archive_writer" where
  "aw_close w =
     (if aw_closed w then (Inr (), w)
      else case aw_write_all (length archive_magic) (archive_header (aw_summary w)) w of
        (Inl e, w) \<Rightarrow> (Inl e, w)
      | (Inr _, w) \<Rightarrow> (Inr (), w\<lparr>aw_good := False, aw_closed := True\<rparr>))"

text \<open>The destructor closes an open archive and swallows the exception.\<close>

definition aw_destroy :: "archive_writer \<Rightarrow> archive_writer" where
  "aw_destroy w = (if \<not> aw_closed w then snd (aw_close w) else w)"

section \<open>ArchiveReader\<close>

definition ar_read_exact :: "nat \<Rightarrow> archive_reader \<Rightarrow> (error + bytes) \<times> archive_reader" where
  "ar_read_exact n r =
     (if ar_pos r + n \<le> length (ar_file r)
      then (Inr (take n (drop (ar_pos r) (ar_file r))), r\<lparr>ar_pos := ar_pos r + n\<rparr>)
      else (Inl (Error EC_archive_corrupt ''truncated archive record''), r\<lparr>ar_failed := True\<rparr>))"

definition read_header :: "archive_summary reader" where
  "read_header = rd_bind br_u32 (\<lambda>format_version. rd_bind br_u64 (\<lambda>record_count.
     rd_bind br_u64 (\<lambda>first_time_ns. rd_bind br_u64 (\<lambda>last_time_ns.
       rd_return \<lparr>as_format_version = format_version, as_record_count = record_count,
         as_first_time_ns = first_time_ns, as_last_time_ns = last_time_ns\<rparr>))))"

definition ar_open :: "bytes \<Rightarrow> error + archive_reader" where
  "ar_open file =
     (let r = \<lparr>ar_file = file, ar_pos = 0, ar_failed = False, ar_summary = archive_summary_default\<rparr>
      in case ar_read_exact (length archive_magic) r of
        (Inl e, r) \<Rightarrow> Inl e
      | (Inr magic, r) \<Rightarrow>
          if magic \<noteq> archive_magic then Inl (Error EC_archive_corrupt ''archive magic mismatch'')
          else case ar_read_exact 28 r of
            (Inl e, r) \<Rightarrow> Inl e
          | (Inr header, r) \<Rightarrow>
              (case read_header (br_init header) of
                 Inl e \<Rightarrow> Inl e
               | Inr (summary, _) \<Rightarrow> Inr (r\<lparr>ar_summary := summary\<rparr>)))"

definition validate_record_extent :: "u32 \<Rightarrow> archive_reader \<Rightarrow> error + unit" where
  "validate_record_extent frame_len r =
     (if unat frame_len > max_packet_size decode_options_default
      then Inl (Error EC_archive_corrupt ''archive record frame exceeds packet size limit'')
      else if length (ar_file r) - ar_pos r < unat frame_len + 4
      then Inl (Error EC_archive_corrupt ''archive record is truncated'')
      else Inr ())"

definition read_prefix :: "(u64 \<times> u32) reader" where
  "read_prefix = rd_bind br_u64 (\<lambda>capture_time_ns. rd_bind br_u32 (\<lambda>frame_len.
     rd_return (capture_time_ns, frame_len)))"

definition ar_next :: "archive_reader \<Rightarrow> (error + archive_record option) \<times> archive_reader" where
  "ar_next r0 =
     (if ar_failed r0 \<or> ar_pos r0 \<ge> length (ar_file r0) then (Inr None, r0)
      else case ar_read_exact 12 r0 of
        (Inl e, r) \<Rightarrow> (Inl e, r)
      | (Inr prefix_bytes, r) \<Rightarrow>
          (case read_prefix (br_init prefix_bytes) of
             Inl e \<Rightarrow> (Inl e, r)
           | Inr ((capture_time_ns, frame_len), _) \<Rightarrow>
               (case validate_record_extent frame_len r of
                  Inl e \<Rightarrow> (Inl e, r)
                | Inr _ \<Rightarrow>
                    (case ar_read_exact (unat frame_len) r of
                       (Inl e, r) \<Rightarrow> (Inl e, r)
                     | (Inr frame, r) \<Rightarrow>
                         (case ar_read_exact 4 r of
                            (Inl e, r) \<Rightarrow> (Inl e, r)
                          | (Inr crc_bytes, r) \<Rightarrow>
                              (case br_u32 (br_init crc_bytes) of
                                 Inl e \<Rightarrow> (Inl e, r)
                               | Inr (crc, _) \<Rightarrow>
                                   if crc32c (prefix_bytes @ frame) \<noteq> crc
                                   then (Inl (Error EC_checksum_mismatch ''archive record crc mismatch''), r)
                                   else (case decode_packet frame decode_options_default of
                                      Inl e \<Rightarrow> (Inl e, r)
                                    | Inr packet \<Rightarrow> (Inr (Some \<lparr>rec_offset = of_nat (ar_pos r0),
                                        rec_capture_time_ns = capture_time_ns, rec_packet = packet\<rparr>), r))))))))"

lemma ar_read_exact_ok: "ar_read_exact n r = (Inr bs, r') \<Longrightarrow>
    r' = r\<lparr>ar_pos := ar_pos r + n\<rparr> \<and> ar_pos r + n \<le> length (ar_file r) \<and>
    bs = take n (drop (ar_pos r) (ar_file r))"
  by (auto simp: ar_read_exact_def split: if_splits)

lemma ar_next_progress:
  "ar_next r = (Inr (Some rec), r') \<Longrightarrow>
   ar_file r' = ar_file r \<and> ar_pos r < ar_pos r' \<and> ar_pos r' \<le> length (ar_file r)"
  by (auto simp: ar_next_def split: if_splits sum.splits prod.splits dest!: ar_read_exact_ok)

function ar_records :: "archive_reader \<Rightarrow> error + archive_record list" where
  "ar_records r =
     (case ar_next r of
        (Inl e, _) \<Rightarrow> Inl e
      | (Inr None, _) \<Rightarrow> Inr []
      | (Inr (Some record), r') \<Rightarrow> err_bind (ar_records r') (\<lambda>records. Inr (record # records)))"
  by pat_completeness auto
termination
  by (relation "measure (\<lambda>r. length (ar_file r) - ar_pos r)")
    (auto dest!: ar_next_progress [OF sym])

declare ar_records.simps [simp del]

section \<open>The time index\<close>

definition index_entry :: "archive_record \<Rightarrow> archive_index_entry" where
  "index_entry record =
     \<lparr>ix_capture_time_ns = rec_capture_time_ns record, ix_offset = rec_offset record,
      ix_payload_size = of_nat (length (p_payload (rec_packet record))),
      ix_device = p_device (rec_packet record), ix_sequence = p_sequence (rec_packet record)\<rparr>"

definition index_order :: "archive_index_entry \<Rightarrow> u64 \<times> u64" where
  "index_order e = (ix_capture_time_ns e, ix_offset e)"

definition build_archive_index :: "bytes \<Rightarrow> error + archive_index" where
  "build_archive_index file =
     err_bind (ar_open file) (\<lambda>reader. err_bind (ar_records reader) (\<lambda>records.
       let entries = sort_key index_order (map index_entry records);
           summary = archive_summary_default\<lparr>as_format_version := as_format_version (ar_summary reader),
             as_record_count := of_nat (length entries)\<rparr>
       in Inr \<lparr>ai_summary = (if entries \<noteq> []
              then summary\<lparr>as_first_time_ns := ix_capture_time_ns (hd entries),
                           as_last_time_ns := ix_capture_time_ns (last entries)\<rparr>
              else summary), ai_records = entries\<rparr>))"

text \<open>\<open>std::lower_bound\<close>: halve the range of candidates while it is not empty.\<close>

function lower_bound :: "('a \<Rightarrow> bool) \<Rightarrow> 'a list \<Rightarrow> nat \<Rightarrow> nat \<Rightarrow> nat" where
  "lower_bound before xs first len =
     (if len = 0 then first
      else let half = len div 2; middle = first + half
           in if before (xs ! middle) then lower_bound before xs (middle + 1) (len - half - 1)
              else lower_bound before xs first half)"
  by pat_completeness auto
termination by (relation "measure (\<lambda>(_, _, _, len). len)") auto

declare lower_bound.simps [simp del]

definition find_record_at_or_after :: "archive_index \<Rightarrow> u64 \<Rightarrow> archive_index_entry option" where
  "find_record_at_or_after index capture_time_ns =
     (let records = ai_records index;
          it = lower_bound (\<lambda>entry. ix_capture_time_ns entry < capture_time_ns) records 0 (length records)
      in if it = length records then None else Some (records ! it))"

text \<open>On a partitioned list the search ends at the partition point.\<close>

lemma lower_bound_partition:
  assumes mono: "\<And>i j. i \<le> j \<Longrightarrow> j < length xs \<Longrightarrow> before (xs ! j) \<Longrightarrow> before (xs ! i)"
  shows "first + len \<le> length xs \<Longrightarrow> (\<forall>i < first. before (xs ! i)) \<Longrightarrow>
    (\<forall>i. first + len \<le> i \<longrightarrow> i < length xs \<longrightarrow> \<not> before (xs ! i)) \<Longrightarrow>
    lower_bound before xs first len \<le> length xs \<and>
    (\<forall>i < lower_bound before xs first len. before (xs ! i)) \<and>
    (\<forall>i. lower_bound before xs first len \<le> i \<longrightarrow> i < length xs \<longrightarrow> \<not> before (xs ! i))"
proof (induction len arbitrary: first rule: less_induct)
  case (less len)
  show ?case
  proof (cases "len = 0")
    case True
    with less.prems show ?thesis by (simp add: lower_bound.simps)
  next
    case False
    let ?half = "len div 2"
    let ?m = "first + ?half"
    have m: "?m < length xs" "?m < first + len" using False less.prems(1) by simp_all
    show ?thesis
    proof (cases "before (xs ! ?m)")
      case True
      have step: "lower_bound before xs first len = lower_bound before xs (?m + 1) (len - ?half - 1)"
        using False True by (simp add: lower_bound.simps [of before xs first len] Let_def)
      have "\<forall>i < ?m + 1. before (xs ! i)"
        using mono [OF _ m(1) True] by (simp add: less_Suc_eq_le)
      then show ?thesis
        unfolding step using False less.prems by (intro less.IH) simp_all
    next
      case False2: False
      have step: "lower_bound before xs first len = lower_bound before xs first ?half"
        using False False2 by (simp add: lower_bound.simps [of before xs first len] Let_def)
      have "\<forall>i. ?m \<le> i \<longrightarrow> i < length xs \<longrightarrow> \<not> before (xs ! i)"
        using mono False2 by blast
      then show ?thesis
        unfolding step using False less.prems m by (intro less.IH) simp_all
    qed
  qed
qed

text \<open>The lookup returns the earliest entry at or after the time, if there is one.\<close>

lemma find_record_spec:
  assumes "sorted (map ix_capture_time_ns (ai_records index))"
  shows "case find_record_at_or_after index t of
      None \<Rightarrow> \<forall>e \<in> set (ai_records index). ix_capture_time_ns e < t
    | Some e \<Rightarrow> e \<in> set (ai_records index) \<and> t \<le> ix_capture_time_ns e \<and>
        (\<forall>e' \<in> set (ai_records index). t \<le> ix_capture_time_ns e' \<longrightarrow> ix_capture_time_ns e \<le> ix_capture_time_ns e')"
proof -
  let ?rs = "ai_records index" and ?before = "\<lambda>entry. ix_capture_time_ns entry < t"
  let ?k = "lower_bound ?before ?rs 0 (length ?rs)"
  have le: "ix_capture_time_ns (?rs ! i) \<le> ix_capture_time_ns (?rs ! j)" if "i \<le> j" "j < length ?rs" for i j
    using sorted_nth_mono [OF assms, of i j] that by simp
  have "?k \<le> length ?rs \<and> (\<forall>i < ?k. ?before (?rs ! i)) \<and> (\<forall>i. ?k \<le> i \<longrightarrow> i < length ?rs \<longrightarrow> \<not> ?before (?rs ! i))"
    by (rule lower_bound_partition) (use le in \<open>auto intro: le_less_trans\<close>)
  then have k: "?k \<le> length ?rs" "\<And>i. i < ?k \<Longrightarrow> ?before (?rs ! i)"
    "\<And>i. ?k \<le> i \<Longrightarrow> i < length ?rs \<Longrightarrow> \<not> ?before (?rs ! i)" by blast+
  show ?thesis
  proof (cases "?k = length ?rs")
    case True
    with k show ?thesis
      by (auto simp: find_record_at_or_after_def in_set_conv_nth Let_def)
  next
    case False
    with k(1) have lt: "?k < length ?rs" by simp
    have least: "ix_capture_time_ns (?rs ! ?k) \<le> ix_capture_time_ns (?rs ! j)"
      if "j < length ?rs" "t \<le> ix_capture_time_ns (?rs ! j)" for j
      using that k(2) [of j] le [of ?k j] by (cases "j < ?k") (auto simp: not_less)
    then have "\<forall>e' \<in> set ?rs. t \<le> ix_capture_time_ns e' \<longrightarrow> ix_capture_time_ns (?rs ! ?k) \<le> ix_capture_time_ns e'"
      by (auto simp: in_set_conv_nth)
    with lt k(3) [of ?k] False show ?thesis
      by (simp add: find_record_at_or_after_def not_less Let_def)
  qed
qed

lemma build_index_spec:
  assumes "build_archive_index file = Inr index"
  shows "\<exists>reader records. ar_open file = Inr reader \<and> ar_records reader = Inr records \<and>
     mset (ai_records index) = mset (map index_entry records) \<and>
     sorted (map index_order (ai_records index)) \<and>
     as_record_count (ai_summary index) = of_nat (length records)"
proof -
  from assms obtain reader records where r: "ar_open file = Inr reader" "ar_records reader = Inr records"
    by (auto simp: build_archive_index_def err_bind_Inr_iff)
  let ?e = "sort_key index_order (map index_entry records)"
  have n: "length records = length ?e" by simp
  have "ai_records index = ?e" "as_record_count (ai_summary index) = of_nat (length ?e)"
    using assms r by (auto simp: build_archive_index_def Let_def simp del: length_sort)
  then show ?thesis
    using r by (simp add: n del: length_sort)
qed

lemma index_time_sorted:
  "build_archive_index file = Inr index \<Longrightarrow> sorted (map ix_capture_time_ns (ai_records index))"
proof -
  assume "build_archive_index file = Inr index"
  then have "sorted (map index_order (ai_records index))"
    using build_index_spec by blast
  then have "sorted_wrt (\<lambda>x y. ix_capture_time_ns x \<le> ix_capture_time_ns y) (ai_records index)"
    unfolding sorted_map
    by (rule sorted_wrt_mono_rel [rotated]) (auto simp: index_order_def less_eq_prod_def)
  then show ?thesis by (simp add: sorted_map)
qed

end
