(* ===== verification/Archive_Roundtrip.thy ===== *)
theory Archive_Roundtrip
  imports Archive
begin

text \<open>
  What the writer stores the reader returns. \<open>next_record\<close> reads one well-formed record;
  the writer's file is the header followed by such records, so a sequential read of a closed
  archive returns the appended packets in order, and the header holds their count and span.
\<close>

section \<open>One record\<close>

lemma record_body_bytes: "record_body t f = bw_u64 t [] @ bw_u32 (of_nat (length f)) [] @ f"
  by (simp add: record_body_def bw_defs)

lemma record_bytes_split:
  "record_bytes t f = (bw_u64 t [] @ bw_u32 (of_nat (length f)) []) @ f @ bw_u32 (crc32c (record_body t f)) []"
  by (simp add: record_bytes_def record_body_bytes bw_defs)

lemma length_record_bytes [simp]: "length (record_bytes t f) = length f + 16"
  by (simp add: record_bytes_split)

lemma read_prefix_bytes:
  "read_prefix (br_init (bw_u64 t [] @ bw_u32 n [])) = Inr ((t, n), br_advance 12 (br_init (bw_u64 t [] @ bw_u32 n [])))"
proof -
  have "decodes read_prefix (bw_u64 t [] @ bw_u32 n []) (t, n)"
    unfolding read_prefix_def
    by (rule decodes_bind [OF decodes_u64], rule decodes_last [OF decodes_u32], rule decodes_return)
  from decodesD [OF this, of _ "[]"] show ?thesis by simp
qed

lemma read_crc_bytes: "br_u32 (br_init (bw_u32 c [])) = Inr (c, br_advance 4 (br_init (bw_u32 c [])))"
  using decodesD [OF decodes_u32, of "br_init (bw_u32 c [])" c "[]"] by simp

lemma read_exact_append:
  "ar_file r = pre @ bs @ rest \<Longrightarrow> ar_pos r = length pre \<Longrightarrow> n = length bs \<Longrightarrow>
   ar_read_exact n r = (Inr bs, r\<lparr>ar_pos := length pre + n\<rparr>)"
  by (simp add: ar_read_exact_def)

lemma ar_next_steps:
  assumes "\<not> ar_failed r" and "ar_pos r < length (ar_file r)"
    and "ar_read_exact 12 r = (Inr hd12, r1)" and "read_prefix (br_init hd12) = Inr ((t, n), x)"
  shows "validate_record_extent n r1 = Inl e \<Longrightarrow> ar_next r = (Inl e, r1)"
    and "\<lbrakk>validate_record_extent n r1 = Inr (); ar_read_exact (unat n) r1 = (Inr frame, r2);
      ar_read_exact 4 r2 = (Inr cb, r3); br_u32 (br_init cb) = Inr (crc, y)\<rbrakk> \<Longrightarrow>
     ar_next r = (if crc32c (hd12 @ frame) \<noteq> crc
       then (Inl (Error EC_checksum_mismatch ''archive record crc mismatch''), r3)
       else case decode_packet frame decode_options_default of Inl e \<Rightarrow> (Inl e, r3)
         | Inr p \<Rightarrow> (Inr (Some \<lparr>rec_offset = of_nat (ar_pos r), rec_capture_time_ns = t, rec_packet = p\<rparr>), r3))"
  using assms by (simp_all add: ar_next_def)

lemma next_record:
  assumes contents: "ar_file r = pre @ record_bytes t f @ rest" and pos: "ar_pos r = length pre"
    and "\<not> ar_failed r" and small: "length f \<le> 1048576"
  shows "ar_next r =
    (case decode_packet f decode_options_default of
       Inl e \<Rightarrow> (Inl e, r\<lparr>ar_pos := length pre + length (record_bytes t f)\<rparr>)
     | Inr p \<Rightarrow> (Inr (Some \<lparr>rec_offset = of_nat (length pre), rec_capture_time_ns = t, rec_packet = p\<rparr>),
                r\<lparr>ar_pos := length pre + length (record_bytes t f)\<rparr>))"
proof -
  let ?n = "of_nat (length f) :: u32"
  let ?head = "bw_u64 t [] @ bw_u32 ?n []"
  let ?crc = "bw_u32 (crc32c (record_body t f)) []"
  let ?r1 = "r\<lparr>ar_pos := length pre + 12\<rparr>"
  let ?r2 = "r\<lparr>ar_pos := length pre + 12 + length f\<rparr>"
  have n: "unat ?n = length f" using small by (intro unat_of_nat_u32) simp
  have 1: "ar_read_exact 12 r = (Inr ?head, ?r1)"
    using contents pos by (intro read_exact_append [where rest = "f @ ?crc @ rest"]) (simp_all add: record_bytes_split)
  have ext: "validate_record_extent ?n ?r1 = Inr ()"
    using contents pos small by (simp add: validate_record_extent_def n decode_options_default_def)
  have 2: "ar_read_exact (unat ?n) ?r1 = (Inr f, ?r2)"
    using read_exact_append [of ?r1 "pre @ ?head" f "?crc @ rest" "unat ?n"] contents
    by (simp add: record_bytes_split n)
  have 3: "ar_read_exact 4 ?r2 = (Inr ?crc, r\<lparr>ar_pos := length pre + length (record_bytes t f)\<rparr>)"
    using contents
    by (subst read_exact_append [of ?r2 "pre @ ?head @ f" ?crc rest 4]) (simp_all add: record_bytes_split)
  have crc: "crc32c (?head @ f) = crc32c (record_body t f)"
    by (simp add: record_body_bytes)
  have lt: "ar_pos r < length (ar_file r)" using contents pos by simp
  show ?thesis
    unfolding ar_next_steps(2) [OF assms(3) lt 1 read_prefix_bytes ext 2 3 read_crc_bytes] crc pos by simp
qed

text \<open>
  The writer stores a frame of any length, but the reader refuses a record whose frame is
  longer than the default packet limit of 1048576 bytes.
\<close>

lemma next_oversize:
  assumes contents: "ar_file r = pre @ record_bytes t f @ rest" and pos: "ar_pos r = length pre"
    and "\<not> ar_failed r" and "1048576 < length f" and "length f < 4294967296"
  shows "\<exists>r'. ar_next r = (Inl (Error EC_archive_corrupt ''archive record frame exceeds packet size limit''), r')"
proof -
  let ?n = "of_nat (length f) :: u32"
  let ?head = "bw_u64 t [] @ bw_u32 ?n []"
  let ?r1 = "r\<lparr>ar_pos := length pre + 12\<rparr>"
  have n: "unat ?n = length f" using assms(5) by (intro unat_of_nat_u32) simp
  have 1: "ar_read_exact 12 r = (Inr ?head, ?r1)"
    using contents pos
    by (intro read_exact_append [where rest = "f @ bw_u32 (crc32c (record_body t f)) [] @ rest"])
      (simp_all add: record_bytes_split)
  have ext: "validate_record_extent ?n ?r1 =
      Inl (Error EC_archive_corrupt ''archive record frame exceeds packet size limit'')"
    using assms(4) by (simp add: validate_record_extent_def n decode_options_default_def)
  have lt: "ar_pos r < length (ar_file r)" using contents pos by simp
  show ?thesis
    unfolding ar_next_steps(1) [OF assms(3) lt 1 read_prefix_bytes ext] by simp
qed

section \<open>The whole archive\<close>

type_synonym capture = "u64 \<times> packet"

definition storable :: "capture list \<Rightarrow> bool" where
  "storable cs \<longleftrightarrow> (\<forall>c \<in> set cs. batchable (snd c))"

definition capture_bytes :: "capture \<Rightarrow> bytes" where
  "capture_bytes c = record_bytes (fst c) (frame_of (snd c))"

fun records_from :: "nat \<Rightarrow> capture list \<Rightarrow> archive_record list" where
  "records_from pos [] = []"
| "records_from pos (c # cs) =
     \<lparr>rec_offset = of_nat pos, rec_capture_time_ns = fst c, rec_packet = snd c\<rparr> #
     records_from (pos + length (capture_bytes c)) cs"

definition aw_append_all :: "capture list \<Rightarrow> archive_writer \<Rightarrow> archive_writer" where
  "aw_append_all cs w = fold (\<lambda>c w. snd (aw_append (fst c) (snd c) w)) cs w"

lemma header_length [simp]: "length (archive_header s) = 28"
  by (simp add: archive_header_def bw_defs)

lemma magic_length [simp]: "length archive_magic = 8"
  by (simp add: archive_magic_def)

lemma read_header_bytes: "\<exists>r. read_header (br_init (archive_header s)) = Inr (s, r)"
proof -
  have bytes: "archive_header s = bw_u32 (as_format_version s) [] @ bw_u64 (as_record_count s) [] @
      bw_u64 (as_first_time_ns s) [] @ bw_u64 (as_last_time_ns s) []"
    by (simp add: archive_header_def bw_defs)
  have "decodes read_header (archive_header s) s"
    unfolding read_header_def bytes
    by (rule decodes_bind [OF decodes_u32], rule decodes_bind [OF decodes_u64],
        rule decodes_bind [OF decodes_u64], rule decodes_last [OF decodes_u64])
      (cases s, simp add: decodes_return)
  from decodesD [OF this, of "br_init (archive_header s)" "[]"] show ?thesis by simp
qed

lemma open_header:
  "ar_open (archive_magic @ archive_header s @ rest) =
   Inr \<lparr>ar_file = archive_magic @ archive_header s @ rest, ar_pos = 36, ar_failed = False, ar_summary = s\<rparr>"
  using read_header_bytes [of s] by (auto simp: ar_open_def Let_def ar_read_exact_def)

lemma append_good:
  assumes "aw_good w" and "packet_ok p"
  shows "aw_append t p w = (Inr (), w\<lparr>aw_file := aw_file w @ capture_bytes (t, p),
     aw_summary := summary_add t (aw_summary w)\<rparr>)"
  using assms
  by (simp add: aw_append_def encode_frame_of aw_write_all_def overwrite_def capture_bytes_def)

lemma storable_ok: "storable cs \<Longrightarrow> \<forall>c \<in> set cs. packet_ok (snd c)"
  by (simp add: storable_def batchable_def)

lemma append_all_good:
  "aw_good w \<Longrightarrow> \<forall>c \<in> set cs. packet_ok (snd c) \<Longrightarrow> aw_append_all cs w =
     w\<lparr>aw_file := aw_file w @ concat (map capture_bytes cs),
       aw_summary := fold summary_add (map fst cs) (aw_summary w)\<rparr>"
  by (induction cs arbitrary: w) (simp_all add: aw_append_all_def append_good)

lemma read_records:
  "storable cs \<Longrightarrow> ar_file r = pre @ concat (map capture_bytes cs) \<Longrightarrow> ar_pos r = length pre \<Longrightarrow>
   \<not> ar_failed r \<Longrightarrow> ar_records r = Inr (records_from (length pre) cs)"
proof (induction cs arbitrary: r pre)
  case Nil
  then show ?case by (simp add: ar_records.simps [of r] ar_next_def)
next
  case (Cons c cs)
  let ?f = "frame_of (snd c)" and ?r' = "r\<lparr>ar_pos := length pre + length (capture_bytes c)\<rparr>"
  have ok: "batchable (snd c)" using Cons.prems(1) by (simp add: storable_def)
  have nx: "ar_next r = (Inr (Some \<lparr>rec_offset = of_nat (length pre), rec_capture_time_ns = fst c,
      rec_packet = snd c\<rparr>), ?r')"
    using next_record [of r pre "fst c" ?f "concat (map capture_bytes cs)"] Cons.prems ok
    by (simp add: capture_bytes_def [of c] decode_frame_of batchable_def)
  have "ar_records ?r' = Inr (records_from (length (pre @ capture_bytes c)) cs)"
    using Cons.prems by (intro Cons.IH) (simp_all add: storable_def)
  with nx show ?case by (simp add: ar_records.simps [of r])
qed

lemma archive_read_back:
  assumes "storable cs"
  defines "w \<equiv> snd (aw_close (aw_append_all cs aw_open))"
  shows "\<exists>r. ar_open (aw_file w) = Inr r \<and> ar_records r = Inr (records_from 36 cs) \<and>
    ar_summary r = fold summary_add (map fst cs) archive_summary_default"
proof -
  let ?s = "fold summary_add (map fst cs) archive_summary_default"
  have "aw_file w = archive_magic @ archive_header ?s @ concat (map capture_bytes cs)"
    using append_all_good [OF _ storable_ok [OF assms(1)], of aw_open]
    by (simp add: w_def aw_close_def aw_write_all_def aw_open_def overwrite_def)
  then show ?thesis
    using read_records [OF assms(1), of "\<lparr>ar_file = aw_file w, ar_pos = 36, ar_failed = False, ar_summary = ?s\<rparr>"
        "archive_magic @ archive_header ?s"]
    by (simp add: open_header)
qed

lemma records_from_captures: "map (\<lambda>r. (rec_capture_time_ns r, rec_packet r)) (records_from pos cs) = cs"
  by (induction pos cs rule: records_from.induct) simp_all

text \<open>The summary of a non-empty archive is the number of records and their time span.\<close>

lemma summary_run:
  "as_record_count s \<noteq> 0 \<Longrightarrow> unat (as_record_count s) + length ts < 18446744073709551616 \<Longrightarrow>
   fold summary_add ts s = s\<lparr>as_record_count := as_record_count s + of_nat (length ts),
     as_first_time_ns := Min (insert (as_first_time_ns s) (set ts)),
     as_last_time_ns := Max (insert (as_last_time_ns s) (set ts))\<rparr>"
proof (induction ts arbitrary: s)
  case (Cons t ts)
  let ?s = "summary_add t s"
  have s: "?s = s\<lparr>as_first_time_ns := min (as_first_time_ns s) t, as_last_time_ns := max (as_last_time_ns s) t,
      as_record_count := as_record_count s + 1\<rparr>"
    using Cons.prems(1) by (simp add: summary_add_def)
  have suc: "unat (as_record_count s + 1) = unat (as_record_count s) + 1"
    using Cons.prems(2) by (simp add: unat_word_ariths)
  then have "as_record_count ?s \<noteq> 0" "unat (as_record_count ?s) + length ts < 18446744073709551616"
    using Cons.prems(2) by (auto simp: s word_unat_eq_iff)
  from Cons.IH [OF this] show ?case
    by (cases "set ts = {}") (simp_all add: s ac_simps)
qed simp

lemma summary_captures:
  "ts \<noteq> [] \<Longrightarrow> length ts < 18446744073709551616 \<Longrightarrow>
   fold summary_add ts archive_summary_default =
     \<lparr>as_format_version = 1, as_record_count = of_nat (length ts),
      as_first_time_ns = Min (set ts), as_last_time_ns = Max (set ts)\<rparr>"
  by (cases ts) (simp_all add: summary_run summary_add_def archive_summary_default_def)

section \<open>Properties\<close>

definition archive_of :: "capture list \<Rightarrow> bytes" where
  "archive_of cs = aw_file (snd (aw_close (aw_append_all cs aw_open)))"


definition sample_captures :: "capture list" where
  "sample_captures = [(5, sample_packet), (3, beacon)]"

lemma sample_storable [simp]: "storable sample_captures"
  by (simp add: storable_def sample_captures_def batchable_def length_frame_of)


text \<open>
  C10. Corruption of at most four consecutive bytes of the timestamp or the frame of a stored
  record is reported as a checksum mismatch when the record is read, before the frame is decoded.
\<close>

theorem record_corruption_detected:
  assumes contents: "ar_file r = pre @ bw_u64 t' [] @ bw_u32 (of_nat (length f)) [] @ f' @
      bw_u32 (crc32c (record_body t f)) [] @ rest"
    and pos: "ar_pos r = length pre" and "\<not> ar_failed r" and "length f \<le> 1048576"
    and len: "length f' = length f"
    and burst: "record_body t f = xs @ w @ ys" "record_body t' f' = xs @ w' @ ys"
      "length w = length w'" "length w \<le> 4" "w \<noteq> w'"
  shows "fst (ar_next r) = Inl (Error EC_checksum_mismatch ''archive record crc mismatch'')"
proof -
  have ne: "crc32c (record_body t' f') \<noteq> crc32c (record_body t f)"
    using crc32c_burst [of w w' xs ys] burst by auto
  let ?n = "of_nat (length f) :: u32"
  let ?head = "bw_u64 t' [] @ bw_u32 ?n []"
  let ?crc = "bw_u32 (crc32c (record_body t f)) []"
  let ?r1 = "r\<lparr>ar_pos := length pre + 12\<rparr>"
  let ?r2 = "r\<lparr>ar_pos := length pre + 12 + length f\<rparr>"
  have n: "unat ?n = length f" using assms(4) by (intro unat_of_nat_u32) simp
  have 1: "ar_read_exact 12 r = (Inr ?head, ?r1)"
    using contents pos by (intro read_exact_append [where rest = "f' @ ?crc @ rest"]) simp_all
  have ext: "validate_record_extent ?n ?r1 = Inr ()"
    using contents pos assms(4) len by (simp add: validate_record_extent_def n decode_options_default_def)
  have 2: "ar_read_exact (unat ?n) ?r1 = (Inr f', ?r2)"
    using read_exact_append [of ?r1 "pre @ ?head" f' "?crc @ rest" "unat ?n"] contents len by (simp add: n)
  have 3: "ar_read_exact 4 ?r2 = (Inr ?crc, r\<lparr>ar_pos := length pre + 16 + length f\<rparr>)"
    using contents len
    by (subst read_exact_append [of ?r2 "pre @ ?head @ f'" ?crc rest 4]) simp_all
  have crc: "crc32c (?head @ f') \<noteq> crc32c (record_body t f)"
    using ne len by (simp add: record_body_bytes)
  have lt: "ar_pos r < length (ar_file r)" using contents pos by simp
  show ?thesis
    unfolding ar_next_steps(2) [OF assms(3) lt 1 read_prefix_bytes ext 2 3 read_crc_bytes]
    by (simp only: crc not_False_eq_True if_True fst_conv)
qed

lemma record_corruption_detected_witness:
  "fst (ar_next \<lparr>ar_file = bw_u64 7 [] @ bw_u32 1 [] @ [2] @ bw_u32 (crc32c (record_body 7 [1])) [],
     ar_pos = 0, ar_failed = False, ar_summary = archive_summary_default\<rparr>) =
   Inl (Error EC_checksum_mismatch ''archive record crc mismatch'')"
  by (rule record_corruption_detected [where pre = "[]" and t = 7 and f = "[1]" and f' = "[2]" and t' = 7
        and rest = "[]" and xs = "bw_u64 7 [] @ bw_u32 1 []" and w = "[1]" and w' = "[2]" and ys = "[]"])
    (simp_all add: record_body_bytes)

text \<open>
  The index of an archive holds an entry for every record the reader returns, and looking
  a time up gives an earliest entry at or after it, or nothing if all entries are earlier.
\<close>

theorem index_lookup:
  assumes "build_archive_index file = Inr index"
  shows "(\<exists>reader records. ar_open file = Inr reader \<and> ar_records reader = Inr records \<and>
      mset (ai_records index) = mset (map index_entry records)) \<and>
    (case find_record_at_or_after index t of
      None \<Rightarrow> \<forall>e \<in> set (ai_records index). ix_capture_time_ns e < t
    | Some e \<Rightarrow> e \<in> set (ai_records index) \<and> t \<le> ix_capture_time_ns e \<and>
        (\<forall>e' \<in> set (ai_records index). t \<le> ix_capture_time_ns e' \<longrightarrow> ix_capture_time_ns e \<le> ix_capture_time_ns e'))"
  using build_index_spec [OF assms] find_record_spec [OF index_time_sorted [OF assms]] by blast

lemma index_lookup_witness:
  "\<exists>index. build_archive_index (archive_of sample_captures) = Inr index \<and>
     (case find_record_at_or_after index 4 of
       None \<Rightarrow> \<forall>e \<in> set (ai_records index). ix_capture_time_ns e < 4
     | Some e \<Rightarrow> e \<in> set (ai_records index) \<and> 4 \<le> ix_capture_time_ns e \<and>
         (\<forall>e' \<in> set (ai_records index). 4 \<le> ix_capture_time_ns e' \<longrightarrow> ix_capture_time_ns e \<le> ix_capture_time_ns e'))"
proof -
  obtain index where "build_archive_index (archive_of sample_captures) = Inr index"
    using archive_read_back [OF sample_storable]
    by (auto simp: archive_of_def build_archive_index_def Let_def)
  with index_lookup [OF this, of 4] show ?thesis by blast
qed

end
