(* ===== verification/Recovery.thy ===== *)
theory Recovery
  imports Complex_Main Stream_Parser Archive_Roundtrip
begin

text \<open>
  Readers of archives that build on the codec and the sequential reader: the repair scanner
  (\<open>src/storage/repair.cpp\<close>), the record cursor (\<open>src/storage/record_cursor.cpp\<close>) and the
  replay engine (\<open>src/replay/replay_engine.cpp\<close>). The scanner is given the bytes of the file;
  the pauses of a timed replay are not modelled.
\<close>

section \<open>ArchiveRepairScanner\<close>

record salvaged_packet =
  sv_file_offset :: u64
  sv_inferred_capture_time_ns :: u64
  sv_packet :: packet

record repair_report =
  rp_bytes_scanned :: u64
  rp_candidate_frames :: u64
  rp_rejected_frames :: u64
  rp_packets :: "salvaged_packet list"

definition read_u32_le :: "bytes \<Rightarrow> nat \<Rightarrow> u32" where
  "read_u32_le bs offset = le_word (bs ! offset) (bs ! (offset + 1)) (bs ! (offset + 2)) (bs ! (offset + 3))"

definition infer_capture_time :: "bytes \<Rightarrow> nat \<Rightarrow> u64" where
  "infer_capture_time bs frame_offset =
     (if frame_offset < 12 then 0
      else
        let prefix_offset = frame_offset - 12;
            recorded_len = read_u32_le bs (prefix_offset + 8);
            body_len = read_u32_le bs (frame_offset + 4)
        in if recorded_len \<noteq> body_len + 12 then 0
           else case br_u64 (br_init (take 8 (drop prefix_offset bs))) of
             Inl _ \<Rightarrow> 0 | Inr (t, _) \<Rightarrow> t)"

definition reject :: "repair_report \<Rightarrow> repair_report" where
  "reject report = report\<lparr>rp_rejected_frames := rp_rejected_frames report + 1\<rparr>"

function scan_loop :: "decode_options \<Rightarrow> bytes \<Rightarrow> nat \<Rightarrow> repair_report \<Rightarrow> repair_report" where
  "scan_loop options bs offset report =
     (if offset + 12 \<le> length bs
      then
        if read_u32_le bs offset \<noteq> packet_magic then scan_loop options bs (offset + 1) report
        else
          let report = report\<lparr>rp_candidate_frames := rp_candidate_frames report + 1\<rparr>;
              body_len = read_u32_le bs (offset + 4);
              frame_len = unat body_len + 12
          in if frame_len > max_packet_size options \<or> offset + frame_len > length bs
             then scan_loop options bs (offset + 1) (reject report)
             else case decode_packet (take frame_len (drop offset bs)) options of
               Inr packet \<Rightarrow>
                 scan_loop options bs (offset + frame_len)
                   (report\<lparr>rp_packets := rp_packets report @
                      [\<lparr>sv_file_offset = of_nat offset,
                        sv_inferred_capture_time_ns = infer_capture_time bs offset,
                        sv_packet = packet\<rparr>]\<rparr>)
             | Inl _ \<Rightarrow> scan_loop options bs (offset + 1) (reject report)
      else report)"
  by pat_completeness auto
termination
  by (relation "measure (\<lambda>(_, bs, offset, _). length bs - offset)") auto

declare scan_loop.simps [simp del]

definition scan_bytes :: "decode_options \<Rightarrow> bytes \<Rightarrow> repair_report" where
  "scan_bytes options bs =
     (let report = \<lparr>rp_bytes_scanned = of_nat (length bs), rp_candidate_frames = 0,
            rp_rejected_frames = 0, rp_packets = []\<rparr>
      in if length bs < 12 then report else scan_loop options bs 0 report)"

definition salvage_time :: "salvaged_packet \<Rightarrow> u64" where
  "salvage_time item =
     (if sv_inferred_capture_time_ns item = 0 then p_timestamp_ns (sv_packet item)
      else sv_inferred_capture_time_ns item)"

fun append_salvaged :: "salvaged_packet list \<Rightarrow> archive_writer \<Rightarrow> error + archive_writer" where
  "append_salvaged [] w = Inr w"
| "append_salvaged (item # items) w =
     (case aw_append (salvage_time item) (sv_packet item) w of
        (Inl e, _) \<Rightarrow> Inl e | (Inr _, w) \<Rightarrow> append_salvaged items w)"

definition write_repaired_archive :: "repair_report \<Rightarrow> error + bytes" where
  "write_repaired_archive report =
     err_bind (append_salvaged (rp_packets report) aw_open) (\<lambda>w.
       case aw_close w of (Inl e, _) \<Rightarrow> Inl e | (Inr _, w) \<Rightarrow> Inr (aw_file w))"

text \<open>Every salvaged packet is the decoding of the bytes at its offset, and the frames do not overlap.\<close>

definition salvage_at :: "decode_options \<Rightarrow> bytes \<Rightarrow> nat \<times> nat \<times> salvaged_packet \<Rightarrow> bool" where
  "salvage_at options bs s = (case s of (offset, len, item) \<Rightarrow>
     offset + len \<le> length bs \<and> 12 \<le> len \<and>
     decode_packet (take len (drop offset bs)) options = Inr (sv_packet item) \<and>
     sv_file_offset item = of_nat offset \<and>
     sv_inferred_capture_time_ns item = infer_capture_time bs offset)"

definition apart :: "nat \<times> nat \<times> salvaged_packet \<Rightarrow> nat \<times> nat \<times> salvaged_packet \<Rightarrow> bool" where
  "apart s s' \<longleftrightarrow> fst s + fst (snd s) \<le> fst s'"

definition open_candidates :: "repair_report \<Rightarrow> u64" where
  "open_candidates report = rp_candidate_frames report - rp_rejected_frames report"

definition salvages :: "decode_options \<Rightarrow> bytes \<Rightarrow> nat \<Rightarrow> repair_report \<Rightarrow> repair_report \<Rightarrow> bool" where
  "salvages options bs offset report result \<longleftrightarrow>
     (\<exists>found. rp_packets result = rp_packets report @ map (snd \<circ> snd) found \<and>
        list_all (salvage_at options bs) found \<and> sorted_wrt apart found \<and>
        (\<forall>s \<in> set found. offset \<le> fst s) \<and>
        open_candidates result = open_candidates report + of_nat (length found))"

lemma salvages_done: "salvages options bs offset report report"
  by (auto simp: salvages_def)

lemma salvages_later:
  "salvages options bs (offset + 1) report' result \<Longrightarrow> rp_packets report' = rp_packets report \<Longrightarrow>
   open_candidates report' = open_candidates report \<Longrightarrow> salvages options bs offset report result"
  by (force simp: salvages_def)

lemma salvages_found:
  assumes "salvages options bs (offset + len) report' result"
    and "salvage_at options bs (offset, len, item)"
    and "rp_packets report' = rp_packets report @ [item]"
    and "open_candidates report' = open_candidates report + 1"
  shows "salvages options bs offset report result"
proof -
  from assms(1) obtain found where "rp_packets result = rp_packets report' @ map (snd \<circ> snd) found"
    "list_all (salvage_at options bs) found" "sorted_wrt apart found"
    "\<forall>s \<in> set found. offset + len \<le> fst s"
    "open_candidates result = open_candidates report' + of_nat (length found)"
    by (auto simp: salvages_def)
  with assms(2-4) show ?thesis
    unfolding salvages_def by (intro exI [of _ "(offset, len, item) # found"]) (auto simp: apart_def)
qed

lemma open_candidates_reject:
  "open_candidates (reject (report\<lparr>rp_candidate_frames := rp_candidate_frames report + 1\<rparr>)) = open_candidates report"
  by (simp add: open_candidates_def reject_def)

lemma scan_loop_sound: "salvages options bs offset report (scan_loop options bs offset report)"
proof (induction options bs offset report rule: scan_loop.induct)
  case (1 options bs offset report)
  let ?len = "unat (read_u32_le bs (offset + 4)) + 12"
  let ?report = "report\<lparr>rp_candidate_frames := rp_candidate_frames report + 1\<rparr>"
  let ?big = "?len > max_packet_size options \<or> offset + ?len > length bs"
  show ?case
  proof (cases "offset + 12 \<le> length bs \<and> read_u32_le bs offset = packet_magic")
    case False
    then show ?thesis
      using 1(1) salvages_later [of options bs offset report _ report] salvages_done
      by (auto simp: scan_loop.simps [of options bs offset])
  next
    case True
    show ?thesis
    proof (cases "\<not> ?big \<and> (\<exists>p. decode_packet (take ?len (drop offset bs)) options = Inr p)")
      case False
      then have "scan_loop options bs offset report = scan_loop options bs (offset + 1) (reject ?report)"
        using True by (auto simp: scan_loop.simps [of options bs offset] Let_def split: sum.split)
      moreover have "salvages options bs (offset + 1) (reject ?report) (scan_loop options bs (offset + 1) (reject ?report))"
      proof (cases ?big)
        case True
        with \<open>offset + 12 \<le> length bs \<and> _\<close> 1(2) [OF _ _ refl refl refl] show ?thesis by simp
      next
        case small: False
        with False obtain e where "decode_packet (take ?len (drop offset bs)) options = Inl e"
          by (cases "decode_packet (take ?len (drop offset bs)) options") auto
        from 1(3) [OF _ _ refl refl refl small this] True show ?thesis by simp
      qed
      ultimately show ?thesis
        using salvages_later open_candidates_reject by (simp add: reject_def)
    next
      case good: True
      then obtain p where dec: "decode_packet (take ?len (drop offset bs)) options = Inr p" by blast
      let ?item = "\<lparr>sv_file_offset = of_nat offset, sv_inferred_capture_time_ns = infer_capture_time bs offset, sv_packet = p\<rparr>"
      let ?report' = "?report\<lparr>rp_packets := rp_packets ?report @ [?item]\<rparr>"
      have "scan_loop options bs offset report = scan_loop options bs (offset + ?len) ?report'"
        using True good dec by (simp add: scan_loop.simps [of options bs offset] Let_def)
      moreover have "salvages options bs (offset + ?len) ?report' (scan_loop options bs (offset + ?len) ?report')"
        using True good 1(4) [OF _ _ refl refl refl _ dec] by simp
      moreover have "salvage_at options bs (offset, ?len, ?item)"
        using good dec by (simp add: salvage_at_def)
      ultimately show ?thesis
        by (auto intro: salvages_found simp: open_candidates_def)
    qed
  qed
qed

text \<open>
  Frames embedded in quiet bytes are all salvaged. Unlike the stream parser, the scanner moves
  by one byte after a candidate that fails, so nothing behind a false header is lost unless
  the header itself overlaps a magic number.
\<close>

lemma read_u32_le_drop:
  "offset + 4 \<le> length bs \<Longrightarrow> read_u32_le bs offset = v \<longleftrightarrow> take 4 (drop offset bs) = bw_u32 v []"
proof -
  assume len: "offset + 4 \<le> length bs"
  have "take 4 (drop offset bs) = [bs ! offset, bs ! (offset + 1), bs ! (offset + 2), bs ! (offset + 3)]"
    by (rule nth_equalityI) (use len in \<open>auto simp: less_Suc_eq_0_disj numeral_eq_Suc\<close>)
  then show ?thesis by (simp only: read_u32_le_def le_word_eq)
qed

lemma scan_quiet:
  assumes "\<forall>i < n. take 4 (drop (offset + i) bs) \<noteq> bw_u32 packet_magic []"
    and "offset + n + 12 \<le> length bs"
  shows "scan_loop options bs offset report = scan_loop options bs (offset + n) report"
  using assms
proof (induction n arbitrary: offset)
  case (Suc n)
  have "read_u32_le bs offset \<noteq> packet_magic"
    using Suc.prems read_u32_le_drop [of offset bs packet_magic] by auto
  then have "scan_loop options bs offset report = scan_loop options bs (offset + 1) report"
    using Suc.prems(2) by (simp add: scan_loop.simps [of options bs offset])
  also have "\<dots> = scan_loop options bs (offset + 1 + n) report"
    using Suc.prems by (intro Suc.IH) (auto dest: spec [where x = "Suc _"])
  finally show ?case by simp
qed simp

lemma scan_accepted:
  assumes "accepted options f p" and at: "drop offset bs = f @ rest"
  shows "\<exists>item. sv_packet item = p \<and> sv_file_offset item = of_nat offset \<and>
    sv_inferred_capture_time_ns item = infer_capture_time bs offset \<and>
    scan_loop options bs offset report = scan_loop options bs (offset + length f)
      (report\<lparr>rp_candidate_frames := rp_candidate_frames report + 1, rp_packets := rp_packets report @ [item]\<rparr>)"
proof -
  note dec = assms(1) [unfolded accepted_def]
  note frame = decode_packet_frame [OF dec]
  have len: "offset + length f \<le> length bs"
    using arg_cong [OF at, of length] frame(1) by simp
  have magic: "read_u32_le bs offset = packet_magic"
    using len frame(1,3) at by (simp add: read_u32_le_drop)
  have "drop (offset + 4) bs = drop 4 f @ rest"
    using arg_cong [OF at, of "drop 4"] frame(1) by (simp add: add.commute)
  then have "read_u32_le bs (offset + 4) = of_nat (length f - 12)"
    using len frame(1,4) by (simp add: read_u32_le_drop)
  moreover have "unat (of_nat (length f - 12) :: u32) = length f - 12"
    using frame(5) by (intro unat_of_nat_u32) simp
  ultimately have body: "unat (read_u32_le bs (offset + 4)) + 12 = length f"
    using frame(1) by simp
  have "take (length f) (drop offset bs) = f" using at by simp
  then have "scan_loop options bs offset report = scan_loop options bs (offset + length f)
      (report\<lparr>rp_candidate_frames := rp_candidate_frames report + 1, rp_packets := rp_packets report @
        [\<lparr>sv_file_offset = of_nat offset, sv_inferred_capture_time_ns = infer_capture_time bs offset,
          sv_packet = p\<rparr>]\<rparr>)"
    using magic len frame(1,2) dec body
    by (simp add: scan_loop.simps [of options bs offset] Let_def)
  then show ?thesis
    by (intro exI [of _ "\<lparr>sv_file_offset = of_nat offset, sv_inferred_capture_time_ns = infer_capture_time bs offset,
          sv_packet = p\<rparr>"]) simp
qed

lemma scan_noisy_from:
  "list_all2 (\<lambda>(noise, f) p. quiet noise f \<and> accepted options f p) nfs ps \<Longrightarrow>
   drop offset bs = noisy_stream nfs \<Longrightarrow> offset \<le> length bs \<Longrightarrow>
   map sv_packet (rp_packets (scan_loop options bs offset report)) = map sv_packet (rp_packets report) @ ps"
proof (induction nfs ps arbitrary: offset report rule: list_all2_induct)
  case Nil
  then show ?case by (simp add: scan_loop.simps [of options bs offset])
next
  case (Cons nf nfs p ps)
  obtain noise f where nf: "nf = (noise, f)" by (cases nf)
  with Cons have q: "quiet noise f" and a: "accepted options f p" by simp_all
  have len: "12 \<le> length f" using a decode_packet_frame(1) by (auto simp: accepted_def)
  have d: "drop offset bs = noise @ f @ noisy_stream nfs" using Cons.prems(1) nf by simp
  have total: "length bs = offset + (length noise + length f + length (noisy_stream nfs))"
    using arg_cong [OF d, of length] Cons.prems(2) by simp
  have d': "drop (offset + length noise) bs = f @ noisy_stream nfs"
    using arg_cong [OF d, of "drop (length noise)"] by (simp add: add.commute)
  have "take 4 (drop (offset + i) bs) \<noteq> bw_u32 packet_magic []" if "i < length noise" for i
  proof -
    have "quiet noise (f @ noisy_stream nfs)" using len q by (intro quiet_append) simp_all
    moreover have "drop (offset + i) bs = drop i (noise @ f @ noisy_stream nfs)"
      using arg_cong [OF d, of "drop i"] by (simp add: add.commute)
    ultimately show ?thesis using that by (simp only: quiet_def) blast
  qed
  then have skip: "scan_loop options bs offset report = scan_loop options bs (offset + length noise) report"
    using len total by (intro scan_quiet) simp_all
  obtain item where item: "sv_packet item = p"
    "scan_loop options bs (offset + length noise) report = scan_loop options bs (offset + length noise + length f)
      (report\<lparr>rp_candidate_frames := rp_candidate_frames report + 1, rp_packets := rp_packets report @ [item]\<rparr>)"
    using scan_accepted [OF a d'] by blast
  have "drop (offset + length noise + length f) bs = noisy_stream nfs"
    using arg_cong [OF d', of "drop (length f)"] by (simp add: add.commute)
  from Cons.IH [OF this] total item skip show ?case by simp
qed

section \<open>RecordCursor\<close>

record cursor_position =
  cp_records_seen :: u64
  cp_last_capture_time_ns :: u64
  cp_last_sequence :: u64

record record_cursor =
  rc_reader :: archive_reader
  rc_position :: cursor_position
  rc_exhausted :: bool

definition rc_open :: "bytes \<Rightarrow> error + record_cursor" where
  "rc_open file = err_bind (ar_open file) (\<lambda>reader.
     Inr \<lparr>rc_reader = reader, rc_position = \<lparr>cp_records_seen = 0, cp_last_capture_time_ns = 0,
       cp_last_sequence = 0\<rparr>, rc_exhausted = False\<rparr>)"

definition rc_next :: "record_cursor \<Rightarrow> (error + archive_record option) \<times> record_cursor" where
  "rc_next c =
     (if rc_exhausted c then (Inr None, c)
      else case ar_next (rc_reader c) of
        (Inl e, r) \<Rightarrow> (Inl e, c\<lparr>rc_reader := r\<rparr>)
      | (Inr None, r) \<Rightarrow> (Inr None, c\<lparr>rc_reader := r, rc_exhausted := True\<rparr>)
      | (Inr (Some record), r) \<Rightarrow> (Inr (Some record), c\<lparr>rc_reader := r, rc_position :=
          \<lparr>cp_records_seen = cp_records_seen (rc_position c) + 1,
           cp_last_capture_time_ns = rec_capture_time_ns record,
           cp_last_sequence = ucast (p_sequence (rec_packet record))\<rparr>\<rparr>))"

definition render_cursor_position :: "cursor_position \<Rightarrow> string" where
  "render_cursor_position position =
     ''record_cursor'' @ newline @
     ''  records_seen: '' @ dec (cp_records_seen position) @ newline @
     ''  last_capture_time_ns: '' @ dec (cp_last_capture_time_ns position) @ newline @
     ''  last_sequence: '' @ dec (cp_last_sequence position) @ newline"

text \<open>Draining a cursor gives the records of the reader, and then it is exhausted for good.\<close>

fun rc_take :: "nat \<Rightarrow> record_cursor \<Rightarrow> archive_record list \<times> record_cursor" where
  "rc_take 0 c = ([], c)"
| "rc_take (Suc n) c =
     (case rc_next c of
        (Inr (Some record), c) \<Rightarrow> (let (records, c) = rc_take n c in (record # records, c))
      | (_, c) \<Rightarrow> ([], c))"

lemma rc_take_records:
  "ar_records (rc_reader c) = Inr records \<Longrightarrow> \<not> rc_exhausted c \<Longrightarrow>
   fst (rc_take (Suc (length records)) c) = records \<and> rc_exhausted (snd (rc_take (Suc (length records)) c)) \<and>
   cp_records_seen (rc_position (snd (rc_take (Suc (length records)) c))) =
     cp_records_seen (rc_position c) + of_nat (length records)"
proof (induction records arbitrary: c)
  case Nil
  then have "\<exists>r. ar_next (rc_reader c) = (Inr None, r)"
    by (subst (asm) ar_records.simps) (auto simp: err_bind_Inr_iff split: prod.splits sum.splits option.splits)
  with Nil show ?case by (auto simp: rc_next_def)
next
  case (Cons rc records)
  then have "\<exists>r. ar_next (rc_reader c) = (Inr (Some rc), r) \<and> ar_records r = Inr records"
    by (subst (asm) ar_records.simps) (auto simp: err_bind_Inr_iff split: prod.splits sum.splits option.splits)
  then obtain r where r: "ar_next (rc_reader c) = (Inr (Some rc), r)" "ar_records r = Inr records" by blast
  let ?c = "snd (rc_next c)"
  have c: "rc_next c = (Inr (Some rc), ?c)" "rc_reader ?c = r" "\<not> rc_exhausted ?c"
    "cp_records_seen (rc_position ?c) = cp_records_seen (rc_position c) + 1"
    using r(1) Cons.prems(2) by (simp_all add: rc_next_def)
  from Cons.IH [of ?c] c r(2) have IH: "fst (rc_take (Suc (length records)) ?c) = records"
    "rc_exhausted (snd (rc_take (Suc (length records)) ?c))"
    "cp_records_seen (rc_position (snd (rc_take (Suc (length records)) ?c))) =
       cp_records_seen (rc_position ?c) + of_nat (length records)"
    by simp_all
  have "rc_take (Suc (length (rc # records))) c =
      (rc # fst (rc_take (Suc (length records)) ?c), snd (rc_take (Suc (length records)) ?c))"
    unfolding rc_take.simps(2) [of "Suc (length records)" c] length_Cons
    by (subst c(1)) (simp add: split_beta del: rc_take.simps)
  with IH c(4) show ?case by (simp del: rc_take.simps)
qed

section \<open>ReplayEngine\<close>

record replay_options =
  ro_speed :: rat
  ro_start_time_ns :: u64
  ro_end_time_ns :: u64
  ro_preserve_timing :: bool

record replay_stats =
  rt_records_seen :: u64
  rt_records_emitted :: u64
  rt_bytes_emitted :: u64

definition replay_engine :: "replay_options \<Rightarrow> error + replay_options" where
  "replay_engine options =
     (if ro_speed options \<le> 0 then Inl (Error EC_invalid_argument ''replay speed must be positive'')
      else Inr options)"

definition within_window :: "replay_options \<Rightarrow> u64 \<Rightarrow> bool" where
  "within_window options ts \<longleftrightarrow>
     (ro_start_time_ns options = 0 \<or> ts \<ge> ro_start_time_ns options) \<and>
     (ro_end_time_ns options = 0 \<or> ts \<le> ro_end_time_ns options)"

definition replay_emit :: "archive_record \<Rightarrow> replay_stats \<Rightarrow> replay_stats" where
  "replay_emit record stats = stats\<lparr>rt_records_emitted := rt_records_emitted stats + 1,
     rt_bytes_emitted := rt_bytes_emitted stats + of_nat (length (p_payload (rec_packet record)))\<rparr>"

text \<open>
  The result is what the handler received, in order, and the statistics or the exception that
  ended the run.
\<close>

function replay_loop ::
  "replay_options \<Rightarrow> replay_stats \<Rightarrow> archive_reader \<Rightarrow> archive_record list \<times> (error + replay_stats)" where
  "replay_loop options stats reader =
     (case ar_next reader of
        (Inl e, _) \<Rightarrow> ([], Inl e)
      | (Inr None, _) \<Rightarrow> ([], Inr stats)
      | (Inr (Some record), reader') \<Rightarrow>
          let stats = stats\<lparr>rt_records_seen := rt_records_seen stats + 1\<rparr>
          in if \<not> within_window options (rec_capture_time_ns record)
             then replay_loop options stats reader'
             else (let (emitted, result) = replay_loop options (replay_emit record stats) reader'
                   in (record # emitted, result)))"
  by pat_completeness auto
termination
  by (relation "measure (\<lambda>(_, _, r). length (ar_file r) - ar_pos r)")
    (auto dest!: ar_next_progress [OF sym])

declare replay_loop.simps [simp del]

definition replay_run :: "replay_options \<Rightarrow> archive_reader \<Rightarrow> archive_record list \<times> (error + replay_stats)" where
  "replay_run options reader =
     replay_loop options \<lparr>rt_records_seen = 0, rt_records_emitted = 0, rt_bytes_emitted = 0\<rparr> reader"

lemma replay_loop_records:
  fixes options :: replay_options
  assumes "ar_records reader = Inr records"
  defines "emitted \<equiv> filter (\<lambda>r. within_window options (rec_capture_time_ns r)) records"
  shows "replay_loop options stats reader = (emitted, Inr (stats\<lparr>
     rt_records_seen := rt_records_seen stats + of_nat (length records),
     rt_records_emitted := rt_records_emitted stats + of_nat (length emitted),
     rt_bytes_emitted := rt_bytes_emitted stats + of_nat (\<Sum>r\<leftarrow>emitted. length (p_payload (rec_packet r)))\<rparr>))"
  using assms(1) unfolding emitted_def
proof (induction records arbitrary: reader stats)
  case Nil
  then have "\<exists>r. ar_next reader = (Inr None, r)"
    by (subst (asm) ar_records.simps) (auto simp: err_bind_Inr_iff split: prod.splits sum.splits option.splits)
  then show ?case by (auto simp: replay_loop.simps [of options stats reader])
next
  case (Cons rc records)
  from Cons.prems have "\<exists>r. ar_next reader = (Inr (Some rc), r) \<and> ar_records r = Inr records"
    by (subst (asm) ar_records.simps) (auto simp: err_bind_Inr_iff split: prod.splits sum.splits option.splits)
  then obtain r where r: "ar_next reader = (Inr (Some rc), r)" "ar_records r = Inr records" by blast
  show ?case
    using r(1) Cons.IH [OF r(2)]
    by (simp add: replay_loop.simps [of options stats reader] Let_def replay_emit_def ac_simps)
qed

section \<open>Properties\<close>

text \<open>
  Everything the repair scanner salvages from arbitrary bytes is genuine: each packet is
  the decoding of the bytes at its reported offset, the frames do not overlap, and the accepted
  candidates (candidates less rejections) are exactly the salvaged packets.
\<close>

theorem repair_sound:
  "salvages options bs 0 \<lparr>rp_bytes_scanned = of_nat (length bs), rp_candidate_frames = 0,
     rp_rejected_frames = 0, rp_packets = []\<rparr> (scan_bytes options bs)"
  using scan_loop_sound salvages_done by (simp add: scan_bytes_def Let_def)

text \<open>
  C20. The repair scanner recovers every packet, in order, from frames embedded in bytes in
  which no magic can be seen.
\<close>

theorem repair_complete:
  assumes "list_all2 (\<lambda>(noise, f) p. quiet noise f \<and> accepted options f p) nfs ps"
    and "bs = noisy_stream nfs"
  shows "map sv_packet (rp_packets (scan_bytes options bs)) = ps"
proof (cases "length bs < 12")
  case True
  have "nfs = []"
  proof (cases nfs)
    case (Cons nf nfs')
    obtain noise f where "nf = (noise, f)" by (cases nf)
    with Cons assms(1) obtain p where "accepted options f p" by (auto simp: list_all2_Cons1)
    then have "12 \<le> length f" using decode_packet_frame(1) by (auto simp: accepted_def)
    with True assms(2) Cons \<open>nf = (noise, f)\<close> show ?thesis by simp
  qed simp
  with True assms show ?thesis by (simp add: scan_bytes_def Let_def)
next
  case False
  with scan_noisy_from [OF assms(1), of 0 bs] assms(2) show ?thesis
    by (simp add: scan_bytes_def Let_def)
qed

lemma repair_complete_witness:
  "map sv_packet (rp_packets (scan_bytes decode_options_default ([1, 2] @ frame_of sample_packet @ frame_of beacon))) =
     [sample_packet, beacon]"
  by (rule repair_complete [where nfs = "[([1, 2], frame_of sample_packet), ([], frame_of beacon)]"])
    (simp_all add: quiet_sample accepted_def, simp add: quiet_def)

lemma replay_archive:
  assumes "storable cs"
  shows "\<exists>r. ar_open (archive_of cs) = Inr r \<and>
    map (\<lambda>r. (rec_capture_time_ns r, rec_packet r)) (fst (replay_run options r)) =
      filter (\<lambda>c. within_window options (fst c)) cs \<and>
    snd (replay_run options r) = Inr
      \<lparr>rt_records_seen = of_nat (length cs),
       rt_records_emitted = of_nat (length (filter (\<lambda>c. within_window options (fst c)) cs)),
       rt_bytes_emitted = of_nat (\<Sum>c\<leftarrow>filter (\<lambda>c. within_window options (fst c)) cs. length (p_payload (snd c)))\<rparr>"
proof -
  let ?cap = "\<lambda>r. (rec_capture_time_ns r, rec_packet r)"
  obtain r where r: "ar_open (archive_of cs) = Inr r" "ar_records r = Inr (records_from 36 cs)"
    using archive_read_back [OF assms] by (auto simp: archive_of_def)
  have caps: "map ?cap (records_from 36 cs) = cs" by (rule records_from_captures)
  have window: "map ?cap (filter (\<lambda>r. within_window options (rec_capture_time_ns r)) rs) =
      filter (\<lambda>c. within_window options (fst c)) (map ?cap rs)" for rs
    by (induction rs) simp_all
  let ?e = "filter (\<lambda>r. within_window options (rec_capture_time_ns r)) (records_from 36 cs)"
  have e: "map ?cap ?e = filter (\<lambda>c. within_window options (fst c)) cs" by (simp only: window caps)
  have lens: "length (records_from 36 cs) = length cs"
    "length ?e = length (filter (\<lambda>c. within_window options (fst c)) cs)"
    using arg_cong [OF caps, of length] arg_cong [OF e, of length] by simp_all
  have bytes: "(\<Sum>r\<leftarrow>?e. length (p_payload (rec_packet r))) =
      (\<Sum>c\<leftarrow>map ?cap ?e. length (p_payload (snd c)))"
    by (simp add: comp_def)
  show ?thesis
    using r e by (simp add: replay_run_def replay_loop_records lens bytes del: map_map)
qed

text \<open>
  Replaying an archive hands the handler exactly the captures inside the time window, in
  order, and the statistics count the records seen, the records emitted and their payload bytes.
\<close>

theorem replay_window:
  assumes "storable cs"
  shows "\<exists>r. ar_open (archive_of cs) = Inr r \<and>
    map (\<lambda>r. (rec_capture_time_ns r, rec_packet r)) (fst (replay_run options r)) =
      filter (\<lambda>c. within_window options (fst c)) cs \<and>
    snd (replay_run options r) = Inr
      \<lparr>rt_records_seen = of_nat (length cs),
       rt_records_emitted = of_nat (length (filter (\<lambda>c. within_window options (fst c)) cs)),
       rt_bytes_emitted = of_nat (\<Sum>c\<leftarrow>filter (\<lambda>c. within_window options (fst c)) cs. length (p_payload (snd c)))\<rparr>"
  using assms by (rule replay_archive)

lemma replay_window_witness:
  "\<exists>r. ar_open (archive_of sample_captures) = Inr r \<and>
     snd (replay_run \<lparr>ro_speed = 1, ro_start_time_ns = 4, ro_end_time_ns = 0, ro_preserve_timing = False\<rparr> r) =
       Inr \<lparr>rt_records_seen = 2, rt_records_emitted = 1, rt_bytes_emitted = 3\<rparr>"
  using replay_window [OF sample_storable, of "\<lparr>ro_speed = 1, ro_start_time_ns = 4, ro_end_time_ns = 0,
      ro_preserve_timing = False\<rparr>"]
  by (auto simp: sample_captures_def within_window_def sample_packet_def)

end
