(* ===== verification/Range_Set.thy ===== *)
theory Range_Set
  imports Prelude
begin

text \<open>
  \<open>TimeRangeSet\<close> of \<open>src/storage/range_set.cpp\<close>: a sorted vector of closed 64-bit intervals,
  merged after every insertion. The set of times it represents is \<open>times\<close>; insertion is the
  union, and the queries are membership and intersection on it.
\<close>

section \<open>Definitions\<close>

record time_range =
  tr_start_ns :: u64
  tr_end_ns :: u64

type_synonym time_range_set = "time_range list"

definition ordered_range :: "time_range \<Rightarrow> time_range" where
  "ordered_range r =
     (if tr_end_ns r < tr_start_ns r then \<lparr>tr_start_ns = tr_end_ns r, tr_end_ns = tr_start_ns r\<rparr> else r)"

text \<open>One step of the merging loop; the vector \<open>merged\<close> is kept with its last element first.\<close>

definition merge_step :: "time_range \<Rightarrow> time_range list \<Rightarrow> time_range list" where
  "merge_step rg merged =
     (case merged of
        [] \<Rightarrow> [rg]
      | back # front \<Rightarrow>
          if tr_start_ns rg > tr_end_ns back + 1 then rg # back # front
          else back\<lparr>tr_end_ns := max (tr_end_ns back) (tr_end_ns rg)\<rparr> # front)"

definition normalize :: "time_range list \<Rightarrow> time_range list" where
  "normalize ranges = rev (fold merge_step (sort_key tr_start_ns ranges) [])"

definition trs_add :: "time_range \<Rightarrow> time_range_set \<Rightarrow> time_range_set" where
  "trs_add rg ranges = normalize (ranges @ [ordered_range rg])"

definition trs_contains :: "u64 \<Rightarrow> time_range_set \<Rightarrow> bool" where
  "trs_contains time_ns ranges \<longleftrightarrow>
     (\<exists>rg \<in> set ranges. time_ns \<ge> tr_start_ns rg \<and> time_ns \<le> tr_end_ns rg)"

definition trs_overlaps :: "time_range \<Rightarrow> time_range_set \<Rightarrow> bool" where
  "trs_overlaps range0 ranges =
     (let rg = ordered_range range0
      in \<exists>existing \<in> set ranges.
           tr_start_ns rg \<le> tr_end_ns existing \<and> tr_end_ns rg \<ge> tr_start_ns existing)"

definition render_time_range_set :: "time_range_set \<Rightarrow> string" where
  "render_time_range_set ranges =
     ''time_ranges'' @ newline @
     concat (map (\<lambda>rg. ''  range: '' @ dec (tr_start_ns rg) @ ''-'' @ dec (tr_end_ns rg) @ newline) ranges)"

section \<open>The times represented\<close>

definition span :: "time_range \<Rightarrow> u64 set" where
  "span r = {tr_start_ns r..tr_end_ns r}"

definition times :: "time_range list \<Rightarrow> u64 set" where
  "times rs = (\<Union>r \<in> set rs. span r)"

definition valid_range :: "time_range \<Rightarrow> bool" where
  "valid_range r \<longleftrightarrow> tr_start_ns r \<le> tr_end_ns r"

lemma contains_times: "trs_contains t rs \<longleftrightarrow> t \<in> times rs"
  by (auto simp: trs_contains_def times_def span_def)

lemma valid_ordered [simp]: "valid_range (ordered_range r)"
  by (auto simp: valid_range_def ordered_range_def)

lemma span_ordered: "span (ordered_range r) =
    {min (tr_start_ns r) (tr_end_ns r)..max (tr_start_ns r) (tr_end_ns r)}"
  by (auto simp: span_def ordered_range_def min_def max_def)

text \<open>Adjacent or overlapping intervals: their union is the interval the merge keeps.\<close>

lemma merge_interval:
  fixes bs be rs re :: u64
  assumes "bs \<le> rs" and "bs \<le> be" and "rs \<le> re" and "\<not> rs > be + 1"
  shows "{bs..max be re} = {bs..be} \<union> {rs..re}"
proof (cases "be + 1 = 0")
  case True
  then have "be = -1" by (simp add: eq_neg_iff_add_eq_0)
  then have "max be re = be" "{rs..re} \<subseteq> {bs..be}"
    using assms by (simp_all add: max_def word_order.extremum_unique)
  then show ?thesis by auto
next
  case False
  then have "unat (be + 1) = unat be + 1"
    using unatSuc [of be] by (simp add: add.commute)
  with assms(4) have "unat rs \<le> unat be + 1" by (simp add: word_less_nat_alt)
  then have "\<And>t. t < rs \<Longrightarrow> t \<le> be" by (simp add: word_less_nat_alt word_le_nat_alt)
  then show ?thesis
    using assms(1-3) by (auto simp: max_def not_le split: if_splits intro: order.trans less_imp_le)
qed

definition merge_inv :: "time_range list \<Rightarrow> bool" where
  "merge_inv merged \<longleftrightarrow> list_all valid_range merged \<and>
     sorted_wrt (\<lambda>r l. tr_start_ns l \<le> tr_start_ns r) merged"

lemma merge_step_times:
  assumes "merge_inv merged" and "valid_range r"
    and "\<forall>m \<in> set merged. tr_start_ns m \<le> tr_start_ns r"
  shows "times (merge_step r merged) = times merged \<union> span r" "merge_inv (merge_step r merged)"
    "\<forall>m \<in> set (merge_step r merged). tr_start_ns m \<le> tr_start_ns r"
proof (atomize (full), cases merged)
  case Nil
  then show "times (merge_step r merged) = times merged \<union> span r \<and> merge_inv (merge_step r merged) \<and>
    (\<forall>m \<in> set (merge_step r merged). tr_start_ns m \<le> tr_start_ns r)"
    using assms(2) by (simp add: merge_step_def times_def merge_inv_def)
next
  case (Cons b f)
  show "times (merge_step r merged) = times merged \<union> span r \<and> merge_inv (merge_step r merged) \<and>
    (\<forall>m \<in> set (merge_step r merged). tr_start_ns m \<le> tr_start_ns r)"
  proof (cases "tr_start_ns r > tr_end_ns b + 1")
    case True
    with Cons assms show ?thesis
      by (auto simp: merge_step_def times_def merge_inv_def)
  next
    case False
    have "span (b\<lparr>tr_end_ns := max (tr_end_ns b) (tr_end_ns r)\<rparr>) = span b \<union> span r"
      using merge_interval [OF _ _ _ False] Cons assms
      by (simp add: span_def merge_inv_def valid_range_def)
    with False Cons assms show ?thesis
      by (auto simp: merge_step_def times_def merge_inv_def valid_range_def max_def)
  qed
qed

lemma normalize_run:
  "\<lbrakk>merge_inv merged; list_all valid_range rs; sorted (map tr_start_ns rs);
    \<forall>m \<in> set merged. \<forall>r \<in> set rs. tr_start_ns m \<le> tr_start_ns r\<rbrakk> \<Longrightarrow>
   times (fold merge_step rs merged) = times merged \<union> times rs \<and> merge_inv (fold merge_step rs merged)"
proof (induction rs arbitrary: merged)
  case Nil
  then show ?case by (simp add: times_def)
next
  case (Cons r rs)
  note step = merge_step_times [of merged r]
  have pre: "merge_inv merged" "valid_range r" "\<forall>m \<in> set merged. tr_start_ns m \<le> tr_start_ns r"
    using Cons.prems by simp_all
  have "\<forall>m \<in> set (merge_step r merged). \<forall>r' \<in> set rs. tr_start_ns m \<le> tr_start_ns r'"
    using step(3) [OF pre] Cons.prems(3) by (auto intro: order.trans)
  with Cons.IH [of "merge_step r merged"] step(1,2) [OF pre] Cons.prems
  show ?case by (auto simp: times_def)
qed

lemma normalize_facts:
  assumes "list_all valid_range rs"
  shows normalize_times: "times (normalize rs) = times rs"
    and normalize_sorted: "list_all valid_range (normalize rs) \<and> sorted (map tr_start_ns (normalize rs))"
proof -
  let ?m = "fold merge_step (sort_key tr_start_ns rs) []"
  have run: "times ?m = times [] \<union> times (sort_key tr_start_ns rs) \<and> merge_inv ?m"
    by (rule normalize_run) (use assms in \<open>simp_all add: merge_inv_def list_all_iff del: sorted_map\<close>)
  then show "times (normalize rs) = times rs"
    by (simp add: normalize_def times_def)
  from run show "list_all valid_range (normalize rs) \<and> sorted (map tr_start_ns (normalize rs))"
    by (simp add: normalize_def merge_inv_def list_all_iff sorted_wrt_rev sorted_map)
qed

text \<open>The invariant of the class and what each operation means.\<close>

definition trs_inv :: "time_range_set \<Rightarrow> bool" where
  "trs_inv rs \<longleftrightarrow> list_all valid_range rs \<and> sorted (map tr_start_ns rs)"

lemma trs_inv_add: "trs_inv rs \<Longrightarrow> trs_inv (trs_add r rs)"
  using normalize_sorted [of "rs @ [ordered_range r]"] by (simp add: trs_inv_def trs_add_def)

interpretation time_ranges: state_machine "[]" trs_add trs_inv
  by unfold_locales (simp add: trs_inv_def, rule trs_inv_add)

lemma times_add: "trs_inv rs \<Longrightarrow> times (trs_add r rs) = times rs \<union> span (ordered_range r)"
  using normalize_times [of "rs @ [ordered_range r]"] by (auto simp: trs_inv_def trs_add_def times_def)

lemma interval_meet:
  fixes s e s' e' :: u64
  assumes "s \<le> e" and "s' \<le> e'"
  shows "s \<le> e' \<and> e \<ge> s' \<longleftrightarrow> {s..e} \<inter> {s'..e'} \<noteq> {}"
proof
  assume "s \<le> e' \<and> e \<ge> s'"
  then have "max s s' \<in> {s..e} \<inter> {s'..e'}" using assms by (simp add: max_def)
  then show "{s..e} \<inter> {s'..e'} \<noteq> {}" by blast
next
  assume "{s..e} \<inter> {s'..e'} \<noteq> {}"
  then have "\<exists>t. t \<in> {s..e} \<inter> {s'..e'}" by blast
  then show "s \<le> e' \<and> e \<ge> s'" by (auto intro: order.trans)
qed

lemma contains_fold:
  "trs_contains t (fold trs_add rs []) \<longleftrightarrow> (\<exists>r \<in> set rs. t \<in> span (ordered_range r))"
proof (induction rs rule: rev_induct)
  case (snoc r rs)
  with times_add [OF time_ranges.inv_run [of rs], of r] show ?case
    by (auto simp: contains_times)
qed (simp add: trs_contains_def)


lemma overlaps_times:
  assumes "list_all valid_range rs"
  shows "trs_overlaps r rs \<longleftrightarrow> span (ordered_range r) \<inter> times rs \<noteq> {}"
proof -
  let ?r = "ordered_range r"
  have "tr_start_ns ?r \<le> tr_end_ns x \<and> tr_end_ns ?r \<ge> tr_start_ns x \<longleftrightarrow> span ?r \<inter> span x \<noteq> {}"
    if "x \<in> set rs" for x
    unfolding span_def
    by (rule interval_meet) (use that assms valid_ordered [of r] in \<open>auto simp: list_all_iff valid_range_def\<close>)
  then have "trs_overlaps r rs \<longleftrightarrow> (\<exists>x \<in> set rs. span ?r \<inter> span x \<noteq> {})"
    by (simp add: trs_overlaps_def Let_def)
  then show ?thesis by (auto simp: times_def)
qed


section \<open>Properties\<close>

text \<open>
  However ranges are added, and in whichever direction they are given, a time is contained
  in the set exactly when it lies in one of them, a range overlaps the set exactly when it shares
  a time with one of them, and the stored ranges are valid and in order: merging loses nothing
  and adds nothing.
\<close>

theorem range_set_membership:
  "(trs_contains t (fold trs_add rs []) \<longleftrightarrow> (\<exists>r \<in> set rs. t \<in> span (ordered_range r))) \<and>
   (trs_overlaps x (fold trs_add rs []) \<longleftrightarrow> (\<exists>r \<in> set rs. span (ordered_range x) \<inter> span (ordered_range r) \<noteq> {})) \<and>
   trs_inv (fold trs_add rs [])"
proof -
  have inv: "trs_inv (fold trs_add rs [])" by (rule time_ranges.inv_run)
  have "times (fold trs_add rs []) = (\<Union>r \<in> set rs. span (ordered_range r))"
    using contains_fold by (auto simp: contains_times)
  with inv contains_fold overlaps_times [of "fold trs_add rs []" x] show ?thesis
    by (auto simp: trs_inv_def)
qed

text \<open>
  At the largest time the merge bound \<open>end_ns + 1\<close> wraps to zero, so a range that lies
  inside a stored one reaching that time is kept as a range of its own: the normal form is not
  disjoint there.
\<close>

theorem wrap_not_merged:
  "trs_add \<lparr>tr_start_ns = 5, tr_end_ns = 6\<rparr> (trs_add \<lparr>tr_start_ns = 0, tr_end_ns = -1\<rparr> []) =
     [\<lparr>tr_start_ns = 0, tr_end_ns = -1\<rparr>, \<lparr>tr_start_ns = 5, tr_end_ns = 6\<rparr>]"
  by (simp add: trs_add_def normalize_def ordered_range_def merge_step_def)

end
