(* ===== verification/Aggregate.thy ===== *)
theory Aggregate
  imports Prelude
begin

text \<open>
  The idiom the storage reports share: a vector is searched for the element with a key, one is
  pushed if there is none, and the element found is updated in place. The locale \<open>tally\<close> states
  what such a loop over records leaves in the vector.
\<close>

section \<open>Find or push, then update\<close>

fun upsert :: "('e \<Rightarrow> bool) \<Rightarrow> 'e \<Rightarrow> ('e \<Rightarrow> 'e) \<Rightarrow> 'e list \<Rightarrow> 'e list" where
  "upsert found fresh f [] = [f fresh]"
| "upsert found fresh f (e # es) = (if found e then f e # es else e # upsert found fresh f es)"

definition tally_add ::
  "('r \<Rightarrow> 'k) \<Rightarrow> ('e \<Rightarrow> 'k) \<Rightarrow> ('k \<Rightarrow> 'e) \<Rightarrow> ('r \<Rightarrow> 'e \<Rightarrow> 'e) \<Rightarrow> 'r \<Rightarrow> 'e list \<Rightarrow> 'e list" where
  "tally_add key_of key fresh add r es = upsert (\<lambda>e. key e = key_of r) (fresh (key_of r)) (add r) es"

definition tally_all ::
  "('r \<Rightarrow> 'k) \<Rightarrow> ('e \<Rightarrow> 'k) \<Rightarrow> ('k \<Rightarrow> 'e) \<Rightarrow> ('r \<Rightarrow> 'e \<Rightarrow> 'e) \<Rightarrow> 'r list \<Rightarrow> 'e list" where
  "tally_all key_of key fresh add rs = fold (tally_add key_of key fresh add) rs []"

section \<open>What the vector holds\<close>

locale tally =
  fixes key_of :: "'r \<Rightarrow> 'k"
    and key :: "'e \<Rightarrow> 'k"
    and fresh :: "'k \<Rightarrow> 'e"
    and add :: "'r \<Rightarrow> 'e \<Rightarrow> 'e"
  assumes key_fresh: "key (fresh k) = k"
    and key_add: "key e = key_of r \<Longrightarrow> key (add r e) = key e"
begin

lemma upsert_keys:
  "key ` set (tally_add key_of key fresh add r es) = insert (key_of r) (key ` set es)"
  by (induction es) (auto simp: tally_add_def key_fresh key_add)

lemma upsert_distinct:
  "distinct (map key es) \<Longrightarrow> distinct (map key (tally_add key_of key fresh add r es))"
proof (induction es)
  case (Cons e es)
  show ?case
  proof (cases "key e = key_of r")
    case True
    with Cons.prems show ?thesis by (simp add: tally_add_def key_add)
  next
    case False
    with Cons upsert_keys [of r es] show ?thesis by (auto simp: tally_add_def image_iff)
  qed
qed (simp add: tally_add_def)

lemma upsert_find:
  "find (\<lambda>e. key e = k) (tally_add key_of key fresh add r es) =
     (if k = key_of r
      then Some (add r (case find (\<lambda>e. key e = k) es of None \<Rightarrow> fresh k | Some e \<Rightarrow> e))
      else find (\<lambda>e. key e = k) es)"
  by (induction es) (auto simp: tally_add_def key_fresh key_add)

lemma all_snoc: "tally_all key_of key fresh add (rs @ [r]) =
    tally_add key_of key fresh add r (tally_all key_of key fresh add rs)"
  by (simp add: tally_all_def)

lemma all_distinct: "distinct (map key (tally_all key_of key fresh add rs))"
  by (induction rs rule: rev_induct) (simp_all add: all_snoc upsert_distinct, simp add: tally_all_def)

lemma all_keys: "key ` set (tally_all key_of key fresh add rs) = key_of ` set rs"
  by (induction rs rule: rev_induct) (simp_all add: all_snoc upsert_keys, simp add: tally_all_def)

text \<open>One element for every key that occurs, folded over the records with the key, in their order.\<close>

lemma all_find:
  "find (\<lambda>e. key e = k) (tally_all key_of key fresh add rs) =
     (if k \<in> key_of ` set rs then Some (fold add (filter (\<lambda>r. key_of r = k) rs) (fresh k)) else None)"
proof (induction rs rule: rev_induct)
  case (snoc r rs)
  show ?case
  proof (cases "key_of r = k")
    case True
    have none: "filter (\<lambda>r. key_of r = k) rs = []" if "k \<notin> key_of ` set rs"
      using that by (auto simp: filter_empty_conv)
    show ?thesis
      using True snoc none by (cases "k \<in> key_of ` set rs") (simp_all add: all_snoc upsert_find)
  next
    case False
    with snoc show ?thesis by (simp add: all_snoc upsert_find)
  qed
qed (simp add: tally_all_def)

lemma all_mem:
  assumes "e \<in> set (tally_all key_of key fresh add rs)"
  shows "e = fold add (filter (\<lambda>r. key_of r = key e) rs) (fresh (key e))" and "key e \<in> key_of ` set rs"
proof -
  show k: "key e \<in> key_of ` set rs" using all_keys [of rs] assms by blast
  have "find (\<lambda>x. key x = key e) es = Some e" if "distinct (map key es)" "e \<in> set es" for es
    using that by (induction es) (auto simp: image_iff)
  from this [OF all_distinct assms] k show "e = fold add (filter (\<lambda>r. key_of r = key e) rs) (fresh (key e))"
    by (simp add: all_find)
qed

text \<open>A quantity that every update adds up, summed over the vector, is its sum over the records.\<close>

lemma all_sum:
  fixes measure :: "'e \<Rightarrow> 'n::comm_monoid_add"
  assumes "\<And>k. measure (fresh k) = 0" and "\<And>r e. measure (add r e) = measure e + weight r"
  shows "(\<Sum>e\<leftarrow>tally_all key_of key fresh add rs. measure e) = (\<Sum>r\<leftarrow>rs. weight r)"
proof (induction rs rule: rev_induct)
  case (snoc r rs)
  have "(\<Sum>e\<leftarrow>tally_add key_of key fresh add r es. measure e) = (\<Sum>e\<leftarrow>es. measure e) + weight r" for es
    using assms by (induction es) (auto simp: tally_add_def ac_simps)
  with snoc show ?case by (simp add: all_snoc)
qed (simp add: tally_all_def)

end

end
