(* ===== verification/Query.thy ===== *)
theory Query
  imports Complex_Main "HOL-Library.Product_Lexorder" Aggregate Archive_Roundtrip Ordered_Map
begin

text \<open>
  Queries over an archive (\<open>src/storage/query.cpp\<close>) and compaction (\<open>src/storage/compaction.cpp\<close>).
  The statistics that the code takes by pointer are passed and returned; a caller that passes
  \<open>nullptr\<close> ignores them. Ratios are rationals; the rounding of doubles is the argument \<open>fl\<close>, their
  printing the argument \<open>show_double\<close>.
\<close>

section \<open>Data\<close>

record archive_query =
  aq_start_time_ns :: "u64 option"
  aq_end_time_ns :: "u64 option"
  aq_device :: "device_id option"
  aq_kind :: "packet_kind option"
  aq_min_payload_size :: "nat option"
  aq_max_payload_size :: "nat option"
  aq_limit :: nat

definition archive_query_default :: archive_query where
  "archive_query_default = \<lparr>aq_start_time_ns = None, aq_end_time_ns = None, aq_device = None, aq_kind = None,
     aq_min_payload_size = None, aq_max_payload_size = None, aq_limit = 0\<rparr>"

record query_stats =
  qs_scanned_records :: u64
  qs_matched_records :: u64
  qs_skipped_by_time :: u64
  qs_skipped_by_device :: u64
  qs_skipped_by_kind :: u64
  qs_skipped_by_payload :: u64

definition query_stats_default :: query_stats where
  "query_stats_default = \<lparr>qs_scanned_records = 0, qs_matched_records = 0, qs_skipped_by_time = 0,
     qs_skipped_by_device = 0, qs_skipped_by_kind = 0, qs_skipped_by_payload = 0\<rparr>"

record query_result =
  qr_records :: "archive_record list"
  qr_stats :: query_stats

record query_selectivity =
  sel_match_ratio :: rat
  sel_time_reject_ratio :: rat
  sel_device_reject_ratio :: rat
  sel_kind_reject_ratio :: rat
  sel_payload_reject_ratio :: rat

record device_archive_summary =
  da_device :: device_id
  da_record_count :: u64
  da_first_time_ns :: u64
  da_last_time_ns :: u64
  da_total_payload_bytes :: u64

section \<open>Matching\<close>

definition count_time_skip :: "query_stats \<Rightarrow> query_stats" where
  "count_time_skip s = s\<lparr>qs_skipped_by_time := qs_skipped_by_time s + 1\<rparr>"

definition count_device_skip :: "query_stats \<Rightarrow> query_stats" where
  "count_device_skip s = s\<lparr>qs_skipped_by_device := qs_skipped_by_device s + 1\<rparr>"

definition count_kind_skip :: "query_stats \<Rightarrow> query_stats" where
  "count_kind_skip s = s\<lparr>qs_skipped_by_kind := qs_skipped_by_kind s + 1\<rparr>"

definition count_payload_skip :: "query_stats \<Rightarrow> query_stats" where
  "count_payload_skip s = s\<lparr>qs_skipped_by_payload := qs_skipped_by_payload s + 1\<rparr>"

text \<open>A bound that is not set holds of everything.\<close>

definition bounded_by :: "('a \<Rightarrow> 'a \<Rightarrow> bool) \<Rightarrow> 'a option \<Rightarrow> 'a \<Rightarrow> bool" where
  "bounded_by ok bound x \<longleftrightarrow> (case bound of None \<Rightarrow> True | Some b \<Rightarrow> ok b x)"

definition time_matches :: "u64 \<Rightarrow> archive_query \<Rightarrow> query_stats \<Rightarrow> bool \<times> query_stats" where
  "time_matches capture_time_ns query stats =
     (if \<not> bounded_by (\<le>) (aq_start_time_ns query) capture_time_ns then (False, count_time_skip stats)
      else if \<not> bounded_by (\<ge>) (aq_end_time_ns query) capture_time_ns then (False, count_time_skip stats)
      else (True, stats))"

definition payload_matches :: "nat \<Rightarrow> archive_query \<Rightarrow> query_stats \<Rightarrow> bool \<times> query_stats" where
  "payload_matches payload_size query stats =
     (if \<not> bounded_by (\<le>) (aq_min_payload_size query) payload_size then (False, count_payload_skip stats)
      else if \<not> bounded_by (\<ge>) (aq_max_payload_size query) payload_size then (False, count_payload_skip stats)
      else (True, stats))"

definition matches_query :: "archive_record \<Rightarrow> archive_query \<Rightarrow> query_stats \<Rightarrow> bool \<times> query_stats" where
  "matches_query r query stats =
     (let stats = stats\<lparr>qs_scanned_records := qs_scanned_records stats + 1\<rparr>;
          (in_time, stats) = time_matches (rec_capture_time_ns r) query stats
      in if \<not> in_time then (False, stats)
         else if \<not> bounded_by (=) (aq_device query) (p_device (rec_packet r))
         then (False, count_device_skip stats)
         else if \<not> bounded_by (=) (aq_kind query) (p_kind (rec_packet r))
         then (False, count_kind_skip stats)
         else let (fits, stats) = payload_matches (length (p_payload (rec_packet r))) query stats
              in if \<not> fits then (False, stats)
                 else (True, stats\<lparr>qs_matched_records := qs_matched_records stats + 1\<rparr>))"

text \<open>The loop of \<open>query_archive\<close>, which stops reading once the limit is reached.\<close>

function query_loop :: "archive_query \<Rightarrow> query_result \<Rightarrow> archive_reader \<Rightarrow> error + query_result" where
  "query_loop query result reader =
     (case ar_next reader of
        (Inl e, _) \<Rightarrow> Inl e
      | (Inr None, _) \<Rightarrow> Inr result
      | (Inr (Some r), reader') \<Rightarrow>
          let (matched, stats) = matches_query r query (qr_stats result);
              result = result\<lparr>qr_stats := stats\<rparr>
          in if \<not> matched then query_loop query result reader'
             else let result = result\<lparr>qr_records := qr_records result @ [r]\<rparr>
                  in if aq_limit query \<noteq> 0 \<and> length (qr_records result) \<ge> aq_limit query then Inr result
                     else query_loop query result reader')"
  by pat_completeness auto
termination
  by (relation "measure (\<lambda>(_, _, r). length (ar_file r) - ar_pos r)")
    (auto dest!: ar_next_progress [OF sym])

declare query_loop.simps [simp del]

definition query_archive :: "bytes \<Rightarrow> archive_query \<Rightarrow> error + query_result" where
  "query_archive file query =
     err_bind (ar_open file) (\<lambda>reader.
       query_loop query \<lparr>qr_records = [], qr_stats = query_stats_default\<rparr> reader)"

section \<open>Summaries by device\<close>

definition fresh_device_summary :: "device_id \<Rightarrow> device_archive_summary" where
  "fresh_device_summary device =
     \<lparr>da_device = device, da_record_count = 0, da_first_time_ns = 0, da_last_time_ns = 0,
      da_total_payload_bytes = 0\<rparr>"

definition update_device_summary :: "archive_record \<Rightarrow> device_archive_summary \<Rightarrow> device_archive_summary" where
  "update_device_summary r s =
     (let s = (if da_record_count s = 0
               then s\<lparr>da_first_time_ns := rec_capture_time_ns r, da_last_time_ns := rec_capture_time_ns r\<rparr>
               else s\<lparr>da_first_time_ns := min (da_first_time_ns s) (rec_capture_time_ns r),
                      da_last_time_ns := max (da_last_time_ns s) (rec_capture_time_ns r)\<rparr>)
      in s\<lparr>da_record_count := da_record_count s + 1,
           da_total_payload_bytes := da_total_payload_bytes s + of_nat (length (p_payload (rec_packet r)))\<rparr>)"

definition record_device :: "archive_record \<Rightarrow> device_id" where
  "record_device r = p_device (rec_packet r)"

definition note_device_record ::
  "archive_record \<Rightarrow> device_archive_summary list \<Rightarrow> device_archive_summary list" where
  "note_device_record = tally_add record_device da_device fresh_device_summary update_device_summary"

definition device_order :: "device_archive_summary \<Rightarrow> int \<times> device_id" where
  "device_order s = (- uint (da_record_count s), da_device s)"

definition summarize_by_device :: "bytes \<Rightarrow> error + device_archive_summary list" where
  "summarize_by_device file =
     err_bind (ar_open file) (\<lambda>reader. err_bind (ar_records reader) (\<lambda>records.
       Inr (sort_key device_order (fold note_device_record records []))))"

section \<open>The index\<close>

fun filter_index_loop ::
  "archive_query \<Rightarrow> archive_index_entry list \<Rightarrow> archive_index_entry list \<Rightarrow> archive_index_entry list" where
  "filter_index_loop query out [] = out"
| "filter_index_loop query out (entry # entries) =
     (if \<not> fst (time_matches (ix_capture_time_ns entry) query query_stats_default)
      then filter_index_loop query out entries
      else if \<not> bounded_by (=) (aq_device query) (ix_device entry) then filter_index_loop query out entries
      else if \<not> fst (payload_matches (unat (ix_payload_size entry)) query query_stats_default)
      then filter_index_loop query out entries
      else let out = out @ [entry]
           in if aq_limit query \<noteq> 0 \<and> length out \<ge> aq_limit query then out
              else filter_index_loop query out entries)"

definition filter_index :: "archive_index \<Rightarrow> archive_query \<Rightarrow> archive_index_entry list" where
  "filter_index index query = filter_index_loop query [] (ai_records index)"

section \<open>Text output\<close>

definition described :: "string \<Rightarrow> ('a \<Rightarrow> string) \<Rightarrow> 'a option \<Rightarrow> string" where
  "described name f bound = (case bound of None \<Rightarrow> [] | Some b \<Rightarrow> '' '' @ name @ ''='' @ f b)"

definition describe_query :: "archive_query \<Rightarrow> string" where
  "describe_query query =
     ''archive_query'' @
     described ''start_time_ns'' dec (aq_start_time_ns query) @
     described ''end_time_ns'' dec (aq_end_time_ns query) @
     described ''device'' dec (aq_device query) @
     described ''kind'' (\<lambda>kind. dec (kind_number kind)) (aq_kind query) @
     described ''min_payload_size'' dec_nat (aq_min_payload_size query) @
     described ''max_payload_size'' dec_nat (aq_max_payload_size query) @
     described ''limit'' dec_nat (if aq_limit query \<noteq> 0 then Some (aq_limit query) else None)"

definition count_ratio :: "(rat \<Rightarrow> rat) \<Rightarrow> u64 \<Rightarrow> u64 \<Rightarrow> rat" where
  "count_ratio fl hits scanned = fl (fl (of_nat (unat hits)) / fl (of_nat (unat scanned)))"

definition calculate_selectivity :: "(rat \<Rightarrow> rat) \<Rightarrow> query_stats \<Rightarrow> query_selectivity" where
  "calculate_selectivity fl stats =
     (if qs_scanned_records stats = 0
      then \<lparr>sel_match_ratio = 0, sel_time_reject_ratio = 0, sel_device_reject_ratio = 0,
            sel_kind_reject_ratio = 0, sel_payload_reject_ratio = 0\<rparr>
      else \<lparr>sel_match_ratio = count_ratio fl (qs_matched_records stats) (qs_scanned_records stats),
            sel_time_reject_ratio = count_ratio fl (qs_skipped_by_time stats) (qs_scanned_records stats),
            sel_device_reject_ratio = count_ratio fl (qs_skipped_by_device stats) (qs_scanned_records stats),
            sel_kind_reject_ratio = count_ratio fl (qs_skipped_by_kind stats) (qs_scanned_records stats),
            sel_payload_reject_ratio = count_ratio fl (qs_skipped_by_payload stats) (qs_scanned_records stats)\<rparr>)"

definition render_query_stats :: "query_stats \<Rightarrow> string" where
  "render_query_stats stats =
     ''query_stats'' @ newline @
     ''  scanned_records: '' @ dec (qs_scanned_records stats) @ newline @
     ''  matched_records: '' @ dec (qs_matched_records stats) @ newline @
     ''  skipped_by_time: '' @ dec (qs_skipped_by_time stats) @ newline @
     ''  skipped_by_device: '' @ dec (qs_skipped_by_device stats) @ newline @
     ''  skipped_by_kind: '' @ dec (qs_skipped_by_kind stats) @ newline @
     ''  skipped_by_payload: '' @ dec (qs_skipped_by_payload stats) @ newline"

definition render_query_selectivity :: "(rat \<Rightarrow> string) \<Rightarrow> query_selectivity \<Rightarrow> string" where
  "render_query_selectivity show_double selectivity =
     ''query_selectivity'' @ newline @
     ''  match_ratio: '' @ show_double (sel_match_ratio selectivity) @ newline @
     ''  time_reject_ratio: '' @ show_double (sel_time_reject_ratio selectivity) @ newline @
     ''  device_reject_ratio: '' @ show_double (sel_device_reject_ratio selectivity) @ newline @
     ''  kind_reject_ratio: '' @ show_double (sel_kind_reject_ratio selectivity) @ newline @
     ''  payload_reject_ratio: '' @ show_double (sel_payload_reject_ratio selectivity) @ newline"

definition render_device_summaries :: "device_archive_summary list \<Rightarrow> string" where
  "render_device_summaries summaries =
     ''device_summaries'' @ newline @
     concat (map (\<lambda>s. ''  device: '' @ dec (da_device s) @
       '' records='' @ dec (da_record_count s) @
       '' first_time_ns='' @ dec (da_first_time_ns s) @
       '' last_time_ns='' @ dec (da_last_time_ns s) @
       '' payload_bytes='' @ dec (da_total_payload_bytes s) @ newline) summaries)"

section \<open>Compaction\<close>

record compaction_options =
  cn_query :: archive_query
  cn_drop_empty_payloads :: bool
  cn_keep_latest_per_device :: bool

record compaction_stats =
  cm_records_read :: u64
  cm_records_written :: u64
  cm_records_dropped_by_query :: u64
  cm_records_dropped_empty :: u64
  cm_records_dropped_superseded :: u64

definition compaction_stats_default :: compaction_stats where
  "compaction_stats_default = \<lparr>cm_records_read = 0, cm_records_written = 0, cm_records_dropped_by_query = 0,
     cm_records_dropped_empty = 0, cm_records_dropped_superseded = 0\<rparr>"

record compaction_plan =
  cp_source :: string
  cp_destination :: string
  cp_options :: compaction_options
  cp_stats :: compaction_stats
  cp_notes :: "string list"

definition note_sequence :: "archive_record \<Rightarrow> (device_id, u32) omap \<Rightarrow> (device_id, u32) omap" where
  "note_sequence r latest =
     (let current = om_get 0 latest (record_device r)
      in om_update (record_device r)
           (if p_sequence (rec_packet r) > current then p_sequence (rec_packet r) else current) latest)"

definition latest_sequences :: "bytes \<Rightarrow> error + (device_id, u32) omap" where
  "latest_sequences source =
     err_bind (ar_open source) (\<lambda>reader. err_bind (ar_records reader) (\<lambda>records.
       Inr (fold note_sequence records om_empty)))"

definition is_superseded :: "archive_record \<Rightarrow> (device_id, u32) omap \<Rightarrow> bool" where
  "is_superseded r latest =
     (case om_lookup latest (record_device r) of
        None \<Rightarrow> False
      | Some sequence \<Rightarrow> p_sequence (rec_packet r) < sequence)"

text \<open>
  The loop of \<open>compact_archive\<close>. An exception leaves the writer as it is; its destructor then
  closes the destination.
\<close>

function compact_loop ::
  "compaction_options \<Rightarrow> (device_id, u32) omap \<Rightarrow> compaction_stats \<Rightarrow> archive_writer \<Rightarrow> archive_reader \<Rightarrow>
   (error + compaction_stats) \<times> archive_writer" where
  "compact_loop options latest stats writer reader =
     (case ar_next reader of
        (Inl e, _) \<Rightarrow> (Inl e, writer)
      | (Inr None, _) \<Rightarrow> (Inr stats, writer)
      | (Inr (Some r), reader') \<Rightarrow>
          let stats = stats\<lparr>cm_records_read := cm_records_read stats + 1\<rparr>
          in if \<not> fst (matches_query r (cn_query options) query_stats_default)
             then compact_loop options latest
                    (stats\<lparr>cm_records_dropped_by_query := cm_records_dropped_by_query stats + 1\<rparr>) writer reader'
             else if cn_drop_empty_payloads options \<and> p_payload (rec_packet r) = []
             then compact_loop options latest
                    (stats\<lparr>cm_records_dropped_empty := cm_records_dropped_empty stats + 1\<rparr>) writer reader'
             else if cn_keep_latest_per_device options \<and> is_superseded r latest
             then compact_loop options latest
                    (stats\<lparr>cm_records_dropped_superseded := cm_records_dropped_superseded stats + 1\<rparr>) writer reader'
             else (case aw_append (rec_capture_time_ns r) (rec_packet r) writer of
                     (Inl e, writer) \<Rightarrow> (Inl e, writer)
                   | (Inr _, writer) \<Rightarrow>
                       compact_loop options latest
                         (stats\<lparr>cm_records_written := cm_records_written stats + 1\<rparr>) writer reader'))"
  by pat_completeness auto
termination
  by (relation "measure (\<lambda>(_, _, _, _, r). length (ar_file r) - ar_pos r)")
    (auto dest!: ar_next_progress [OF sym])

declare compact_loop.simps [simp del]

text \<open>The result and the destination file, if the function got as far as opening it.\<close>

definition compact_archive :: "bytes \<Rightarrow> compaction_options \<Rightarrow> (error + compaction_stats) \<times> bytes option" where
  "compact_archive source options =
     (case (if cn_keep_latest_per_device options then latest_sequences source else Inr om_empty) of
        Inl e \<Rightarrow> (Inl e, None)
      | Inr latest \<Rightarrow>
          (case ar_open source of
             Inl e \<Rightarrow> (Inl e, None)
           | Inr reader \<Rightarrow>
               (case compact_loop options latest compaction_stats_default aw_open reader of
                  (Inl e, writer) \<Rightarrow> (Inl e, Some (aw_file (aw_destroy writer)))
                | (Inr stats, writer) \<Rightarrow>
                    (case aw_close writer of
                       (Inl e, writer) \<Rightarrow> (Inl e, Some (aw_file (aw_destroy writer)))
                     | (Inr _, writer) \<Rightarrow> (Inr stats, Some (aw_file (aw_destroy writer)))))))"

definition plan_compaction ::
  "string \<Rightarrow> bytes \<Rightarrow> string \<Rightarrow> compaction_options \<Rightarrow> (error + compaction_plan) \<times> bytes option" where
  "plan_compaction source contents destination options =
     (case compact_archive contents options of
        (Inl e, written) \<Rightarrow> (Inl e, written)
      | (Inr stats, written) \<Rightarrow>
          (Inr \<lparr>cp_source = source, cp_destination = destination, cp_options = options, cp_stats = stats,
                cp_notes =
                  (if cm_records_written stats = 0 then [''compaction wrote no records''] else []) @
                  (if cm_records_dropped_superseded stats \<noteq> 0
                   then [''older per-device records were superseded''] else [])\<rparr>, written))"

definition render_compaction_stats :: "compaction_stats \<Rightarrow> string" where
  "render_compaction_stats stats =
     ''  records_read: '' @ dec (cm_records_read stats) @ newline @
     ''  records_written: '' @ dec (cm_records_written stats) @ newline @
     ''  records_dropped_by_query: '' @ dec (cm_records_dropped_by_query stats) @ newline @
     ''  records_dropped_empty: '' @ dec (cm_records_dropped_empty stats) @ newline @
     ''  records_dropped_superseded: '' @ dec (cm_records_dropped_superseded stats) @ newline"

definition render_compaction_plan :: "compaction_plan \<Rightarrow> string" where
  "render_compaction_plan plan =
     ''compaction_plan'' @ newline @
     ''  source: '' @ cp_source plan @ newline @
     ''  destination: '' @ cp_destination plan @ newline @
     render_compaction_stats (cp_stats plan) @
     concat (map (\<lambda>note. ''  note: '' @ note @ newline) (cp_notes plan))"

section \<open>What a query returns\<close>

definition query_accepts :: "archive_query \<Rightarrow> u64 \<Rightarrow> packet \<Rightarrow> bool" where
  "query_accepts query t p \<longleftrightarrow>
     bounded_by (\<le>) (aq_start_time_ns query) t \<and> bounded_by (\<ge>) (aq_end_time_ns query) t \<and>
     bounded_by (=) (aq_device query) (p_device p) \<and> bounded_by (=) (aq_kind query) (p_kind p) \<and>
     bounded_by (\<le>) (aq_min_payload_size query) (length (p_payload p)) \<and>
     bounded_by (\<ge>) (aq_max_payload_size query) (length (p_payload p))"

abbreviation record_accepted :: "archive_query \<Rightarrow> archive_record \<Rightarrow> bool" where
  "record_accepted query r \<equiv> query_accepts query (rec_capture_time_ns r) (rec_packet r)"

lemma matches_query_iff [simp]: "fst (matches_query r query stats) = record_accepted query r"
  by (auto simp: matches_query_def time_matches_def payload_matches_def query_accepts_def Let_def)

text \<open>Every scanned record is matched or skipped for one reason.\<close>

definition balanced :: "query_stats \<Rightarrow> bool" where
  "balanced s \<longleftrightarrow> qs_scanned_records s = qs_matched_records s + qs_skipped_by_time s +
     qs_skipped_by_device s + qs_skipped_by_kind s + qs_skipped_by_payload s"

lemma matches_query_stats:
  "qs_matched_records (snd (matches_query r query stats)) =
     qs_matched_records stats + of_bool (record_accepted query r)"
  "qs_scanned_records (snd (matches_query r query stats)) = qs_scanned_records stats + 1"
  "balanced stats \<Longrightarrow> balanced (snd (matches_query r query stats))"
  by (auto simp: matches_query_def time_matches_def payload_matches_def query_accepts_def Let_def balanced_def
      count_time_skip_def count_device_skip_def count_kind_skip_def count_payload_skip_def)

definition result_ok :: "query_result \<Rightarrow> bool" where
  "result_ok result \<longleftrightarrow> balanced (qr_stats result) \<and>
     qs_matched_records (qr_stats result) = of_nat (length (qr_records result))"

lemma result_ok_next:
  assumes "result_ok result"
  shows "result_ok (result\<lparr>qr_stats := snd (matches_query r query (qr_stats result)),
      qr_records := qr_records result @ (if record_accepted query r then [r] else [])\<rparr>)"
  using assms by (simp add: result_ok_def matches_query_stats)

fun ar_yields :: "archive_reader \<Rightarrow> archive_record list \<Rightarrow> bool" where
  "ar_yields reader [] \<longleftrightarrow> True"
| "ar_yields reader (r # rs) \<longleftrightarrow> (\<exists>reader'. ar_next reader = (Inr (Some r), reader') \<and> ar_yields reader' rs)"

lemma ar_records_Cons:
  assumes "ar_records reader = Inr (r # rs)"
  obtains reader' where "ar_next reader = (Inr (Some r), reader')" and "ar_records reader' = Inr rs"
  using assms by (subst (asm) ar_records.simps)
    (auto simp: err_bind_Inr_iff split: prod.splits sum.splits option.splits)

lemma ar_records_Nil:
  assumes "ar_records reader = Inr []"
  obtains reader' where "ar_next reader = (Inr None, reader')"
  using assms by (subst (asm) ar_records.simps)
    (auto simp: err_bind_Inr_iff split: prod.splits sum.splits option.splits)

lemma ar_records_yields: "ar_records reader = Inr rs \<Longrightarrow> ar_yields reader rs"
  by (induction rs arbitrary: reader) (auto elim!: ar_records_Cons)

lemma query_loop_step:
  assumes "ar_next reader = (Inr (Some r), reader')"
  shows "query_loop query result reader =
    (let result' = result\<lparr>qr_stats := snd (matches_query r query (qr_stats result)),
           qr_records := qr_records result @ (if record_accepted query r then [r] else [])\<rparr>
     in if record_accepted query r \<and> aq_limit query \<noteq> 0 \<and> length (qr_records result') \<ge> aq_limit query
        then Inr result' else query_loop query result' reader')"
  using matches_query_iff [of r query "qr_stats result"]
  by (subst query_loop.simps) (simp add: assms Let_def split_beta)

lemma query_loop_all:
  "ar_records reader = Inr rs \<Longrightarrow> result_ok result \<Longrightarrow>
   aq_limit query = 0 \<or> length (qr_records result) + length (filter (record_accepted query) rs) < aq_limit query \<Longrightarrow>
   \<exists>result'. query_loop query result reader = Inr result' \<and> result_ok result' \<and>
     qr_records result' = qr_records result @ filter (record_accepted query) rs \<and>
     qs_scanned_records (qr_stats result') = qs_scanned_records (qr_stats result) + of_nat (length rs)"
proof (induction rs arbitrary: reader result)
  case Nil
  then show ?case by (auto elim!: ar_records_Nil simp: query_loop.simps [of query result reader])
next
  case (Cons r rs)
  from Cons.prems(1) obtain reader' where nx: "ar_next reader = (Inr (Some r), reader')"
    and rest: "ar_records reader' = Inr rs" by (rule ar_records_Cons)
  note IH = Cons.IH [OF rest result_ok_next [OF Cons.prems(2), where r = r and query = query]]
  show ?case
    using IH Cons.prems(3) matches_query_stats(2) [of r query "qr_stats result"]
    by (cases "record_accepted query r") (auto simp: query_loop_step [OF nx] Let_def)
qed

lemma query_loop_limit:
  "ar_yields reader rs \<Longrightarrow> result_ok result \<Longrightarrow> aq_limit query \<noteq> 0 \<Longrightarrow> length (qr_records result) < aq_limit query \<Longrightarrow>
   aq_limit query \<le> length (qr_records result) + length (filter (record_accepted query) rs) \<Longrightarrow>
   \<exists>result'. query_loop query result reader = Inr result' \<and> result_ok result' \<and>
     qr_records result' = qr_records result @
       take (aq_limit query - length (qr_records result)) (filter (record_accepted query) rs)"
proof (induction rs arbitrary: reader result)
  case (Cons r rs)
  from Cons.prems(1) obtain reader' where nx: "ar_next reader = (Inr (Some r), reader')"
    and rest: "ar_yields reader' rs" by auto
  let ?result = "result\<lparr>qr_stats := snd (matches_query r query (qr_stats result)),
      qr_records := qr_records result @ (if record_accepted query r then [r] else [])\<rparr>"
  have ok: "result_ok ?result" using Cons.prems(2) by (rule result_ok_next)
  show ?case
  proof (cases "record_accepted query r \<and> length (qr_records ?result) \<ge> aq_limit query")
    case True
    with Cons.prems(4) have "aq_limit query - length (qr_records result) = 1" by (auto split: if_splits)
    with True ok Cons.prems(3) show ?thesis by (auto simp: query_loop_step [OF nx] Let_def)
  next
    case False
    then have "length (qr_records ?result) < aq_limit query" using Cons.prems(4) by (auto simp: not_le)
    from Cons.IH [OF rest ok Cons.prems(3) this] Cons.prems(5) False show ?thesis
      by (auto simp: query_loop_step [OF nx] Let_def take_Cons' split: if_splits)
  qed
qed simp

lemma result_ok_start: "result_ok \<lparr>qr_records = [], qr_stats = query_stats_default\<rparr>"
  by (simp add: result_ok_def balanced_def query_stats_default_def)

lemma query_archive_all:
  assumes "ar_open file = Inr reader" and "ar_records reader = Inr records" and "aq_limit query = 0"
  obtains result where "query_archive file query = Inr result"
    and "qr_records result = filter (record_accepted query) records" and "result_ok result"
    and "qs_scanned_records (qr_stats result) = of_nat (length records)"
  using query_loop_all [OF assms(2) result_ok_start, of query] assms(1,3)
  by (auto simp: query_archive_def err_bind_def query_stats_default_def)

section \<open>The index\<close>

lemma filter_index_loop_all:
  "aq_limit query = 0 \<Longrightarrow> filter_index_loop query out entries = out @ filter (\<lambda>e.
     fst (time_matches (ix_capture_time_ns e) query query_stats_default) \<and>
     bounded_by (=) (aq_device query) (ix_device e) \<and>
     fst (payload_matches (unat (ix_payload_size e)) query query_stats_default)) entries"
  by (induction query out entries rule: filter_index_loop.induct) (simp_all add: Let_def)

lemma index_entry_matches:
  assumes "length (p_payload (rec_packet r)) < 18446744073709551616"
  shows "fst (time_matches (ix_capture_time_ns (index_entry r)) query query_stats_default) \<and>
     bounded_by (=) (aq_device query) (ix_device (index_entry r)) \<and>
     fst (payload_matches (unat (ix_payload_size (index_entry r))) query query_stats_default) \<longleftrightarrow>
   record_accepted (query\<lparr>aq_kind := None\<rparr>) r"
  using assms by (auto simp: index_entry_def time_matches_def payload_matches_def query_accepts_def
      unat_of_nat_u64 bounded_by_def [of _ None])

lemma index_records:
  assumes "ar_open file = Inr reader" and "ar_records reader = Inr records" and "build_archive_index file = Inr index"
  shows "ai_records index = sort_key index_order (map index_entry records)"
  using assms by (auto simp: build_archive_index_def err_bind_def Let_def)

section \<open>What compaction keeps\<close>

lemma note_sequence_lookup:
  "om_lookup (note_sequence r latest) d =
     (if d = record_device r
      then Some (max (p_sequence (rec_packet r)) (case om_lookup latest d of None \<Rightarrow> 0 | Some n \<Rightarrow> n))
      else om_lookup latest d)"
  by (auto simp: note_sequence_def Let_def om_get_def max_def not_le split: option.split)

lemma latest_lookup:
  "om_lookup (fold note_sequence rs om_empty) d =
     (if d \<in> record_device ` set rs
      then Some (Max ((\<lambda>r. p_sequence (rec_packet r)) ` {r \<in> set rs. record_device r = d})) else None)"
proof (induction rs rule: rev_induct)
  case (snoc r rs)
  let ?S = "\<lambda>rs. (\<lambda>r. p_sequence (rec_packet r)) ` {r \<in> set rs. record_device r = d}"
  show ?case
  proof (cases "record_device r = d")
    case True
    have new: "?S (rs @ [r]) = insert (p_sequence (rec_packet r)) (?S rs)" using True by auto
    show ?thesis
    proof (cases "d \<in> record_device ` set rs")
      case False
      then have none: "?S rs = {}" by auto
      show ?thesis using True False snoc by (simp add: note_sequence_lookup) (simp only: new [simplified] none, simp)
    next
      case seen: True
      then have "?S rs \<noteq> {}" by auto
      with True seen snoc show ?thesis unfolding new by (simp add: note_sequence_lookup)
    qed
  next
    case False
    then have "?S (rs @ [r]) = ?S rs" by auto
    with False snoc show ?thesis by (simp add: note_sequence_lookup image_iff)
  qed
qed simp

lemma superseded_iff:
  "is_superseded r (fold note_sequence rs om_empty) \<longleftrightarrow>
     (\<exists>r' \<in> set rs. record_device r' = record_device r \<and> p_sequence (rec_packet r) < p_sequence (rec_packet r'))"
proof (cases "record_device r \<in> record_device ` set rs")
  case True
  let ?S = "(\<lambda>r. p_sequence (rec_packet r)) ` {r' \<in> set rs. record_device r' = record_device r}"
  have "finite ?S" "?S \<noteq> {}" using True by auto
  then show ?thesis using True by (auto simp: is_superseded_def latest_lookup Max_gr_iff)
next
  case False
  then show ?thesis by (auto simp: is_superseded_def latest_lookup image_iff)
qed

definition newest :: "capture list \<Rightarrow> packet \<Rightarrow> bool" where
  "newest cs p \<longleftrightarrow> (\<forall>c \<in> set cs. p_device (snd c) = p_device p \<longrightarrow> p_sequence (snd c) \<le> p_sequence p)"

definition survives :: "compaction_options \<Rightarrow> capture list \<Rightarrow> capture \<Rightarrow> bool" where
  "survives options cs c \<longleftrightarrow>
     query_accepts (cn_query options) (fst c) (snd c) \<and>
     \<not> (cn_drop_empty_payloads options \<and> p_payload (snd c) = []) \<and>
     (cn_keep_latest_per_device options \<longrightarrow> newest cs (snd c))"

definition compacted :: "compaction_options \<Rightarrow> capture list \<Rightarrow> capture list" where
  "compacted options cs = filter (survives options cs) cs"

abbreviation capture_of :: "archive_record \<Rightarrow> capture" where
  "capture_of r \<equiv> (rec_capture_time_ns r, rec_packet r)"

definition stats_balanced :: "compaction_stats \<Rightarrow> bool" where
  "stats_balanced s \<longleftrightarrow> cm_records_read s = cm_records_written s + cm_records_dropped_by_query s +
     cm_records_dropped_empty s + cm_records_dropped_superseded s"

lemma compact_loop_run:
  assumes latest: "\<And>r. r \<in> set rs \<Longrightarrow> cn_keep_latest_per_device options \<Longrightarrow>
      is_superseded r latest \<longleftrightarrow> \<not> newest cs (rec_packet r)"
    and "ar_records reader = Inr rs" and "aw_good writer" and "\<forall>r \<in> set rs. packet_ok (rec_packet r)"
  shows "\<exists>stats'. compact_loop options latest stats writer reader =
      (Inr stats', aw_append_all (filter (survives options cs) (map capture_of rs)) writer) \<and>
    cm_records_read stats' = cm_records_read stats + of_nat (length rs) \<and>
    cm_records_written stats' = cm_records_written stats +
      of_nat (length (filter (survives options cs) (map capture_of rs))) \<and>
    (stats_balanced stats \<longrightarrow> stats_balanced stats')"
  using assms
proof (induction rs arbitrary: reader writer stats)
  case Nil
  then show ?case
    by (auto elim!: ar_records_Nil simp: compact_loop.simps [of options latest stats writer reader] aw_append_all_def)
next
  case (Cons r rs)
  from Cons.prems(2) obtain reader' where nx: "ar_next reader = (Inr (Some r), reader')"
    and rest: "ar_records reader' = Inr rs" by (rule ar_records_Cons)
  have ok: "packet_ok (rec_packet r)" "\<forall>r \<in> set rs. packet_ok (rec_packet r)" using Cons.prems(4) by simp_all
  note latest = Cons.prems(1)
  note append = append_good [OF Cons.prems(3) ok(1), of "rec_capture_time_ns r"]
  have good: "aw_good (snd (aw_append (rec_capture_time_ns r) (rec_packet r) writer))"
    using append Cons.prems(3) by simp
  note IH = Cons.IH [OF _ rest _ ok(2)]
  note step = compact_loop.simps [of options latest stats writer reader]
  let ?s = "stats\<lparr>cm_records_read := cm_records_read stats + 1\<rparr>"
  consider (query) "\<not> record_accepted (cn_query options) r"
    | (empty) "record_accepted (cn_query options) r" "cn_drop_empty_payloads options" "p_payload (rec_packet r) = []"
    | (old) "record_accepted (cn_query options) r" "\<not> (cn_drop_empty_payloads options \<and> p_payload (rec_packet r) = [])"
        "cn_keep_latest_per_device options" "is_superseded r latest"
    | (kept) "record_accepted (cn_query options) r" "\<not> (cn_drop_empty_payloads options \<and> p_payload (rec_packet r) = [])"
        "cn_keep_latest_per_device options \<longrightarrow> \<not> is_superseded r latest" by blast
  then show ?case
  proof cases
    case query
    with IH [OF _ Cons.prems(3), of "?s\<lparr>cm_records_dropped_by_query := cm_records_dropped_by_query ?s + 1\<rparr>"] latest
    show ?thesis by (auto simp: step nx Let_def survives_def stats_balanced_def ac_simps)
  next
    case empty
    with IH [OF _ Cons.prems(3), of "?s\<lparr>cm_records_dropped_empty := cm_records_dropped_empty ?s + 1\<rparr>"] latest
    show ?thesis by (auto simp: step nx Let_def survives_def stats_balanced_def ac_simps)
  next
    case old
    with IH [OF _ Cons.prems(3), of "?s\<lparr>cm_records_dropped_superseded := cm_records_dropped_superseded ?s + 1\<rparr>"] latest
    show ?thesis by (auto simp: step nx Let_def survives_def stats_balanced_def ac_simps)
  next
    case kept
    with IH [OF _ good, of "?s\<lparr>cm_records_written := cm_records_written ?s + 1\<rparr>"] latest append
    show ?thesis by (auto simp: step nx Let_def survives_def stats_balanced_def aw_append_all_def ac_simps)
  qed
qed

section \<open>Summaries by device\<close>

interpretation device_summaries: tally record_device da_device fresh_device_summary update_device_summary
  by unfold_locales (simp_all add: fresh_device_summary_def update_device_summary_def)

lemma device_summary_run:
  assumes "rs \<noteq> []" and "length rs < 18446744073709551616"
  shows "fold update_device_summary rs (fresh_device_summary d) =
    \<lparr>da_device = d, da_record_count = of_nat (length rs),
     da_first_time_ns = Min (rec_capture_time_ns ` set rs), da_last_time_ns = Max (rec_capture_time_ns ` set rs),
     da_total_payload_bytes = (\<Sum>r\<leftarrow>rs. of_nat (length (p_payload (rec_packet r))))\<rparr>"
  using assms
proof (induction rs rule: rev_induct)
  case (snoc r rs)
  show ?case
  proof (cases "rs = []")
    case True
    then show ?thesis by (simp add: update_device_summary_def fresh_device_summary_def)
  next
    case False
    then have "(of_nat (length rs) :: u64) \<noteq> 0"
      using snoc.prems(2) by (simp add: word_unat_eq_iff unat_of_nat_u64)
    with False snoc show ?thesis
      by (simp add: update_device_summary_def Let_def Min_insert2 ac_simps)
  qed
qed simp

lemma note_device_record_all:
  "fold note_device_record rs [] = tally_all record_device da_device fresh_device_summary update_device_summary rs"
  by (simp add: tally_all_def note_device_record_def)

section \<open>Properties of queries\<close>

text \<open>The first \<open>n\<close> elements; a limit of 0 is no limit.\<close>

definition limited :: "nat \<Rightarrow> 'a list \<Rightarrow> 'a list" where
  "limited n xs = (if n = 0 then xs else take n xs)"


lemma archive_reads:
  assumes "storable cs"
  obtains reader where "ar_open (archive_of cs) = Inr reader" and "ar_records reader = Inr (records_from 36 cs)"
  using archive_read_back [OF assms] by (auto simp: archive_of_def)

lemma accepted_captures:
  "map capture_of (filter (record_accepted query) (records_from pos cs)) =
     filter (\<lambda>c. query_accepts query (fst c) (snd c)) cs"
  by (induction pos cs rule: records_from.induct) auto

definition beacon_query :: archive_query where
  "beacon_query = archive_query_default\<lparr>aq_kind := Some PK_heartbeat, aq_limit := 1\<rparr>"

lemma beacon_query_accepts [simp]:
  "filter (\<lambda>c. query_accepts beacon_query (fst c) (snd c)) sample_captures = [(3, beacon)]"
  by (simp add: sample_captures_def query_accepts_def bounded_by_def beacon_query_def archive_query_default_def
      sample_packet_def beacon_def packet_default_def)


text \<open>
  \<open>summarize_by_device\<close> has one entry for each device that occurs, with the number of its
  records, their time span and their payload bytes; the entries are ordered by falling record
  count and then by device, and the counts add up to the records of the archive.
\<close>

theorem device_summaries_exact:
  assumes "ar_open file = Inr reader" and "ar_records reader = Inr records"
    and "length records < 18446744073709551616"
  shows "\<exists>summaries. summarize_by_device file = Inr summaries \<and> sorted (map device_order summaries) \<and>
    distinct (map da_device summaries) \<and> da_device ` set summaries = record_device ` set records \<and>
    (\<Sum>s\<leftarrow>summaries. da_record_count s) = of_nat (length records) \<and>
    (\<forall>s \<in> set summaries. \<exists>rs. rs = filter (\<lambda>r. record_device r = da_device s) records \<and>
       da_record_count s = of_nat (length rs) \<and>
       da_first_time_ns s = Min (rec_capture_time_ns ` set rs) \<and> da_last_time_ns s = Max (rec_capture_time_ns ` set rs) \<and>
       da_total_payload_bytes s = (\<Sum>r\<leftarrow>rs. of_nat (length (p_payload (rec_packet r)))))"
proof -
  let ?all = "tally_all record_device da_device fresh_device_summary update_device_summary records"
  have found: "summarize_by_device file = Inr (sort_key device_order ?all)"
    using assms(1,2) by (simp add: summarize_by_device_def note_device_record_all)
  have total: "(\<Sum>s\<leftarrow>?all. da_record_count s) = of_nat (length records)"
    using device_summaries.all_sum [where measure = da_record_count and weight = "\<lambda>_. 1" and rs = records]
    by (simp add: fresh_device_summary_def update_device_summary_def Let_def sum_list_triv)
  have exact: "s = \<lparr>da_device = da_device s, da_record_count = of_nat (length rs),
     da_first_time_ns = Min (rec_capture_time_ns ` set rs), da_last_time_ns = Max (rec_capture_time_ns ` set rs),
     da_total_payload_bytes = (\<Sum>r\<leftarrow>rs. of_nat (length (p_payload (rec_packet r))))\<rparr>"
    if "s \<in> set ?all" and rs: "rs = filter (\<lambda>r. record_device r = da_device s) records" for s rs
  proof -
    have "rs \<noteq> []" using device_summaries.all_mem(2) [OF that(1)] rs by (auto simp: filter_empty_conv)
    moreover have "length rs < 18446744073709551616" using assms(3) rs length_filter_le order.strict_trans1 by blast
    ultimately show ?thesis using device_summaries.all_mem(1) [OF that(1)] rs by (simp add: device_summary_run)
  qed
  have "distinct (map da_device (sort_key device_order ?all))"
    using device_summaries.all_distinct [of records] by (simp add: distinct_map)
  moreover have "(\<Sum>s\<leftarrow>sort_key device_order ?all. da_record_count s) = (\<Sum>s\<leftarrow>?all. da_record_count s)"
    by (metis mset_map mset_sort sum_mset_sum_list)
  moreover have "\<forall>s \<in> set ?all. \<exists>rs. rs = filter (\<lambda>r. record_device r = da_device s) records \<and>
       da_record_count s = of_nat (length rs) \<and>
       da_first_time_ns s = Min (rec_capture_time_ns ` set rs) \<and> da_last_time_ns s = Max (rec_capture_time_ns ` set rs) \<and>
       da_total_payload_bytes s = (\<Sum>r\<leftarrow>rs. of_nat (length (p_payload (rec_packet r))))"
  proof
    fix s assume "s \<in> set ?all"
    from exact [OF this refl] show "\<exists>rs. rs = filter (\<lambda>r. record_device r = da_device s) records \<and>
       da_record_count s = of_nat (length rs) \<and>
       da_first_time_ns s = Min (rec_capture_time_ns ` set rs) \<and> da_last_time_ns s = Max (rec_capture_time_ns ` set rs) \<and>
       da_total_payload_bytes s = (\<Sum>r\<leftarrow>rs. of_nat (length (p_payload (rec_packet r))))"
      by (intro exI [of _ "filter (\<lambda>r. record_device r = da_device s) records"])
        (metis device_archive_summary.select_convs(2,3,4,5))
  qed
  ultimately show ?thesis
    using found total device_summaries.all_keys [of records] sorted_sort_key [of device_order ?all] by simp
qed

lemma device_summaries_exact_witness:
  "\<exists>s. summarize_by_device (archive_of sample_captures) = Inr [s] \<and> da_device s = 7 \<and> da_record_count s = 2"
proof -
  obtain reader where r: "ar_open (archive_of sample_captures) = Inr reader"
    "ar_records reader = Inr (records_from 36 sample_captures)"
    using archive_reads [OF sample_storable] .
  have recs: "record_device ` set (records_from 36 sample_captures) = {7}"
    "length (records_from 36 sample_captures) = 2"
    by (simp_all add: sample_captures_def record_device_def sample_packet_def beacon_def)
  from device_summaries_exact [OF r] recs obtain ss where ss: "summarize_by_device (archive_of sample_captures) = Inr ss"
    "distinct (map da_device ss)" "da_device ` set ss = {7}" "(\<Sum>s\<leftarrow>ss. da_record_count s) = 2" by auto
  have "length ss = 1" using distinct_card [OF ss(2)] ss(3) by simp
  then obtain s where "ss = [s]" by (auto simp: length_Suc_conv)
  with ss show ?thesis by auto
qed

lemma sort_key_filter_image:
  "filter P (sort_key f (map g xs)) = sort_key f (map g (filter (P \<circ> g) xs))"
  by (simp add: filter_sort filter_map)

lemma filter_index_loop_limited:
  assumes "aq_limit query = 0 \<or> length out < aq_limit query"
  shows "filter_index_loop query out entries = limited (aq_limit query) (out @ filter (\<lambda>e.
     fst (time_matches (ix_capture_time_ns e) query query_stats_default) \<and>
     bounded_by (=) (aq_device query) (ix_device e) \<and>
     fst (payload_matches (unat (ix_payload_size e)) query query_stats_default)) entries)"
  using assms
  by (induction query out entries rule: filter_index_loop.induct) (auto simp: Let_def limited_def not_le take_Cons')

text \<open>
  Filtering the index of an archive gives the index entries of exactly the records a query
  over the archive would accept, in index order and up to the limit, except that the packet kind
  of the query is ignored: the index does not hold it.
\<close>

theorem index_query_agrees:
  assumes "ar_open file = Inr reader" and "ar_records reader = Inr records" and "build_archive_index file = Inr index"
    and "\<forall>r \<in> set records. length (p_payload (rec_packet r)) < 18446744073709551616"
  shows "filter_index index query = limited (aq_limit query)
    (sort_key index_order (map index_entry (filter (record_accepted (query\<lparr>aq_kind := None\<rparr>)) records)))"
proof -
  have "sort_key index_order (map index_entry (filter ((\<lambda>e.
      fst (time_matches (ix_capture_time_ns e) query query_stats_default) \<and>
      bounded_by (=) (aq_device query) (ix_device e) \<and>
      fst (payload_matches (unat (ix_payload_size e)) query query_stats_default)) \<circ> index_entry) records)) =
    sort_key index_order (map index_entry (filter (record_accepted (query\<lparr>aq_kind := None\<rparr>)) records))"
    using index_entry_matches assms(4)
    by (intro arg_cong [where f = "\<lambda>rs. sort_key index_order (map index_entry rs)"] filter_cong) auto
  with filter_index_loop_limited [of query "[]" "ai_records index"] index_records [OF assms(1-3)] show ?thesis
    by (cases "aq_limit query = 0") (simp_all add: filter_index_def sort_key_filter_image)
qed

lemma sample_index_times:
  "map ix_capture_time_ns (sort_key index_order (map index_entry (records_from 36 sample_captures))) = [3, 5]"
  by (simp add: sample_captures_def index_entry_def index_order_def)

lemma index_query_agrees_witness:
  "\<exists>index. build_archive_index (archive_of sample_captures) = Inr index \<and>
     map ix_capture_time_ns (filter_index index (beacon_query\<lparr>aq_limit := 0\<rparr>)) = [3, 5] \<and>
     (\<exists>result. query_archive (archive_of sample_captures) (beacon_query\<lparr>aq_limit := 0\<rparr>) = Inr result \<and>
       map rec_capture_time_ns (qr_records result) = [3])"
proof -
  obtain reader where r: "ar_open (archive_of sample_captures) = Inr reader"
    "ar_records reader = Inr (records_from 36 sample_captures)"
    using archive_reads [OF sample_storable] .
  then obtain index where ix: "build_archive_index (archive_of sample_captures) = Inr index"
    by (auto simp: build_archive_index_def Let_def)
  let ?q = "beacon_query\<lparr>aq_limit := 0\<rparr>"
  have "filter (record_accepted (?q\<lparr>aq_kind := None\<rparr>)) (records_from 36 sample_captures) =
      records_from 36 sample_captures"
    by (simp add: filter_id_conv query_accepts_def bounded_by_def beacon_query_def archive_query_default_def)
  moreover have "\<forall>r \<in> set (records_from 36 sample_captures). length (p_payload (rec_packet r)) < 18446744073709551616"
    by (simp add: sample_captures_def sample_packet_def beacon_def packet_default_def)
  ultimately have entries: "map ix_capture_time_ns (filter_index index ?q) = [3, 5]"
    using index_query_agrees [OF r ix, of ?q] sample_index_times by (simp add: limited_def)
  obtain result where found: "query_archive (archive_of sample_captures) ?q = Inr result"
    "qr_records result = filter (record_accepted ?q) (records_from 36 sample_captures)"
    using query_archive_all [OF r, of ?q] by auto
  have "map capture_of (qr_records result) = [(3, beacon)]"
    using accepted_captures [of ?q 36 sample_captures] beacon_query_accepts
    by (simp add: found(2) query_accepts_def)
  then have times: "map rec_capture_time_ns (qr_records result) = [3]" by auto
  show ?thesis by (intro exI conjI) (rule ix entries found(1) times)+
qed

section \<open>Properties of compaction\<close>

lemma newest_records:
  "newest cs p \<longleftrightarrow> (\<forall>r \<in> set (records_from pos cs). p_device (rec_packet r) = p_device p \<longrightarrow>
     p_sequence (rec_packet r) \<le> p_sequence p)"
  by (induction pos cs rule: records_from.induct) (simp_all add: newest_def)

lemma set_records_from: "capture_of ` set (records_from pos cs) = set cs"
  using arg_cong [OF records_from_captures [of pos cs], of set] by simp

lemma compact_archive_run:
  assumes "storable cs"
  shows "\<exists>stats. compact_archive (archive_of cs) options = (Inr stats, Some (archive_of (compacted options cs))) \<and>
    cm_records_read stats = of_nat (length cs) \<and>
    cm_records_written stats = of_nat (length (compacted options cs)) \<and> stats_balanced stats"
proof -
  let ?rs = "records_from 36 cs"
  define latest where "latest = (if cn_keep_latest_per_device options then fold note_sequence ?rs om_empty else om_empty)"
  obtain reader where r: "ar_open (archive_of cs) = Inr reader" "ar_records reader = Inr ?rs"
    using archive_reads [OF assms] .
  have ok: "\<forall>r \<in> set ?rs. packet_ok (rec_packet r)"
    using storable_ok [OF assms] set_records_from [of 36 cs] by force
  have superseded: "is_superseded r latest \<longleftrightarrow> \<not> newest cs (rec_packet r)"
    if "r \<in> set ?rs" "cn_keep_latest_per_device options" for r
    using that(2) by (auto simp: latest_def superseded_iff newest_records [where pos = 36] record_device_def not_le)
  have length: "length ?rs = length cs" using arg_cong [OF records_from_captures [of 36 cs], of length] by simp
  have good: "aw_good aw_open" by (simp add: aw_open_def)
  have balanced: "stats_balanced compaction_stats_default"
    by (simp add: stats_balanced_def compaction_stats_default_def)
  obtain stats where run: "compact_loop options latest compaction_stats_default aw_open reader =
      (Inr stats, aw_append_all (compacted options cs) aw_open)"
    and counts: "cm_records_read stats = of_nat (length cs)"
      "cm_records_written stats = of_nat (length (compacted options cs))" "stats_balanced stats"
    using compact_loop_run [OF superseded r(2) good ok, where stats = compaction_stats_default] balanced
    by (auto simp: length records_from_captures compacted_def compaction_stats_default_def)
  have kept: "\<forall>c \<in> set (compacted options cs). packet_ok (snd c)"
    using storable_ok [OF assms] by (auto simp: compacted_def)
  have closed: "aw_close (aw_append_all (compacted options cs) aw_open) = (Inr (), w') \<Longrightarrow>
      aw_file (aw_destroy w') = aw_file w'" for w'
    using append_all_good [OF good kept] by (auto simp: aw_destroy_def aw_close_def aw_write_all_def aw_open_def split: if_splits)
  have "fst (aw_close (aw_append_all (compacted options cs) aw_open)) = Inr ()"
    using append_all_good [OF good kept] by (simp add: aw_close_def aw_write_all_def aw_open_def)
  then obtain w' where w': "aw_close (aw_append_all (compacted options cs) aw_open) = (Inr (), w')"
    by (metis prod.collapse)
  have "(if cn_keep_latest_per_device options then latest_sequences (archive_of cs) else Inr om_empty) = Inr latest"
    using r by (simp add: latest_sequences_def latest_def)
  then have "compact_archive (archive_of cs) options = (Inr stats, Some (aw_file w'))"
    using r(1) run w' closed [OF w'] by (simp only: compact_archive_def sum.case prod.case)
  moreover have "archive_of (compacted options cs) = aw_file w'" using w' by (simp add: archive_of_def)
  ultimately show ?thesis using counts by auto
qed

text \<open>
  C24. Compaction of a written archive leaves the archive of exactly the surviving captures, in
  their order: those the query accepts, with a payload if empty ones are dropped, and with
  \<open>keep_latest_per_device\<close> only those no other record of the device outnumbers. Every record is
  counted once, as written or as dropped for one reason.
\<close>

theorem compaction_keeps:
  assumes "storable cs"
  shows "\<exists>stats. compact_archive (archive_of cs) options = (Inr stats, Some (archive_of (compacted options cs))) \<and>
    cm_records_read stats = of_nat (length cs) \<and>
    cm_records_written stats = of_nat (length (compacted options cs)) \<and> stats_balanced stats"
  using assms by (rule compact_archive_run)

lemma compacted_subset: "set (compacted options cs) \<subseteq> set cs"
  by (auto simp: compacted_def)

lemma compacted_storable: "storable cs \<Longrightarrow> storable (compacted options cs)"
  using compacted_subset [of options cs] by (auto simp: storable_def)

lemma survives_subset: "survives options cs c \<Longrightarrow> set cs' \<subseteq> set cs \<Longrightarrow> survives options cs' c"
  by (auto simp: survives_def newest_def)

lemma compacted_idem: "compacted options (compacted options cs) = compacted options cs"
proof -
  have "\<forall>c \<in> set (compacted options cs). survives options (compacted options cs) c"
    using survives_subset [OF _ compacted_subset] by (auto simp: compacted_def)
  then show ?thesis by (simp add: compacted_def [of options "compacted options cs"] filter_id_conv)
qed

definition latest_only :: compaction_options where
  "latest_only = \<lparr>cn_query = archive_query_default, cn_drop_empty_payloads = True, cn_keep_latest_per_device = True\<rparr>"

lemma sample_compacted: "compacted latest_only sample_captures = [(5, sample_packet)]"
  by (simp add: compacted_def survives_def newest_def query_accepts_def bounded_by_def latest_only_def
      archive_query_default_def sample_captures_def sample_packet_def beacon_def packet_default_def)

lemma sample_count: "length sample_captures = 2"
  by (simp add: sample_captures_def)

lemma compaction_keeps_witness:
  "\<exists>stats. compact_archive (archive_of sample_captures) latest_only = (Inr stats, Some (archive_of [(5, sample_packet)])) \<and>
     cm_records_read stats = 2 \<and> cm_records_written stats = 1"
  using compaction_keeps [OF sample_storable, of latest_only] by (auto simp: sample_compacted sample_count)

text \<open>
  Compacting a compacted archive again with the same options changes nothing: the same file
  is written and no record is dropped.
\<close>

theorem compaction_idempotent:
  assumes "storable cs" and "compact_archive (archive_of cs) options = (Inr stats, Some destination)"
  shows "\<exists>stats'. compact_archive destination options = (Inr stats', Some destination) \<and>
    cm_records_read stats' = cm_records_written stats \<and> cm_records_written stats' = cm_records_written stats"
  using compact_archive_run [OF assms(1), of options] assms(2)
    compact_archive_run [OF compacted_storable [OF assms(1)], of options options]
  by (auto simp: compacted_idem)

lemma compaction_idempotent_witness:
  "\<exists>stats. compact_archive (archive_of [(5, sample_packet)]) latest_only = (Inr stats, Some (archive_of [(5, sample_packet)]))"
proof -
  obtain stats where "compact_archive (archive_of sample_captures) latest_only =
      (Inr stats, Some (archive_of [(5, sample_packet)]))"
    using compact_archive_run [OF sample_storable, of latest_only] by (auto simp: sample_compacted)
  from compaction_idempotent [OF sample_storable this] show ?thesis by blast
qed

text \<open>
  With \<open>keep_latest_per_device\<close> the newest record of a device is sought among all records,
  before the query and the payload filter apply: if the newest record of a device is filtered
  out, so are all its others, and the device disappears from the compacted archive although
  records of it match the query.
\<close>

theorem compaction_hides_device:
  assumes "storable cs" and "cn_keep_latest_per_device options" and "c \<in> set cs" and "p_device (snd c) = d"
    and "\<forall>c' \<in> set cs. p_device (snd c') = d \<and> p_sequence (snd c) \<le> p_sequence (snd c') \<longrightarrow>
      \<not> query_accepts (cn_query options) (fst c') (snd c')"
  shows "\<exists>stats kept. compact_archive (archive_of cs) options = (Inr stats, Some (archive_of kept)) \<and>
    d \<notin> (p_device \<circ> snd) ` set kept"
proof -
  have "d \<notin> (p_device \<circ> snd) ` set (compacted options cs)"
  proof
    assume "d \<in> (p_device \<circ> snd) ` set (compacted options cs)"
    then obtain c' where c': "c' \<in> set cs" "p_device (snd c') = d"
        "query_accepts (cn_query options) (fst c') (snd c')" "newest cs (snd c')"
      using assms(2) by (auto simp: compacted_def survives_def)
    with assms(3,4) have "p_sequence (snd c) \<le> p_sequence (snd c')" by (auto simp: newest_def)
    with c' assms(5) show False by blast
  qed
  with compact_archive_run [OF assms(1), of options] show ?thesis by blast
qed

definition heartbeats_only :: compaction_options where
  "heartbeats_only = latest_only\<lparr>cn_query := beacon_query, cn_drop_empty_payloads := False\<rparr>"

lemma compaction_hides_device_witness:
  "query_accepts (cn_query heartbeats_only) 3 beacon \<and> (3, beacon) \<in> set sample_captures \<and>
   (\<exists>stats kept. compact_archive (archive_of sample_captures) heartbeats_only = (Inr stats, Some (archive_of kept)) \<and>
      7 \<notin> (p_device \<circ> snd) ` set kept)"
proof -
  have "query_accepts (cn_query heartbeats_only) 3 beacon" "(3, beacon) \<in> set sample_captures"
    "(5, sample_packet) \<in> set sample_captures"
    "\<not> query_accepts (cn_query heartbeats_only) 5 sample_packet" "p_sequence beacon < p_sequence sample_packet"
    "set sample_captures = {(5, sample_packet), (3, beacon)}" "p_device sample_packet = 7"
    "cn_keep_latest_per_device heartbeats_only"
    by (simp_all add: query_accepts_def bounded_by_def heartbeats_only_def latest_only_def beacon_query_def
        archive_query_default_def sample_captures_def sample_packet_def beacon_def packet_default_def)
  with compaction_hides_device [OF sample_storable, of heartbeats_only "(5, sample_packet)" 7] show ?thesis
    by (auto simp: not_le)
qed

end
