(* ===== verification/Config.thy ===== *)
theory Config
  imports Prelude
begin

text \<open>
  Configuration: the parser (\<open>src/config/config_parser.cpp\<close>), the schema check
  (\<open>src/config/schema.cpp\<close>) and the collector profile (\<open>src/config/profile.cpp\<close>). The text is a
  list of characters; character classes are those of the C locale; an \<open>int\<close> has 32 bits.
\<close>

section \<open>Data\<close>

record config_entry =
  ce_key :: string
  ce_value :: string
  ce_line :: u32

record parsed_config =
  cfg_entries :: "config_entry list"
  cfg_values :: "string \<rightharpoonup> string"

definition parsed_config_empty :: parsed_config where
  "parsed_config_empty = \<lparr>cfg_entries = [], cfg_values = (\<lambda>_. None)\<rparr>"

record config_parser =
  cp_max_line_length :: nat
  cp_max_entries :: nat

definition config_parser_default :: config_parser where
  "config_parser_default = \<lparr>cp_max_line_length = 8192, cp_max_entries = 4096\<rparr>"

definition malformed_config :: "string \<Rightarrow> error" where
  "malformed_config message = Error EC_malformed_packet message"

section \<open>Characters\<close>

definition is_space :: "char \<Rightarrow> bool" where
  "is_space c \<longleftrightarrow> c \<in> {CHR '' '', CHR 0x09, CHR 0x0A, CHR 0x0B, CHR 0x0C, CHR 0x0D}"

definition is_digit :: "char \<Rightarrow> bool" where
  "is_digit c \<longleftrightarrow> 48 \<le> (of_char c :: nat) \<and> (of_char c :: nat) \<le> 57"

definition is_alnum :: "char \<Rightarrow> bool" where
  "is_alnum c \<longleftrightarrow> is_digit c \<or>
     (65 \<le> (of_char c :: nat) \<and> (of_char c :: nat) \<le> 90) \<or>
     (97 \<le> (of_char c :: nat) \<and> (of_char c :: nat) \<le> 122)"

abbreviation backslash :: char where
  "backslash \<equiv> CHR 0x5C"

abbreviation quote :: char where
  "quote \<equiv> CHR 0x22"

section \<open>The parser\<close>

definition trim :: "string \<Rightarrow> string" where
  "trim text = rev (dropWhile is_space (rev (dropWhile is_space text)))"

definition key_char :: "char \<Rightarrow> bool" where
  "key_char c \<longleftrightarrow> is_alnum c \<or> c = CHR ''.'' \<or> c = CHR ''_'' \<or> c = CHR ''-''"

definition valid_key :: "string \<Rightarrow> bool" where
  "valid_key key \<longleftrightarrow> \<not> (key = [] \<or> length key > 128) \<and> list_all key_char key"

text \<open>The loop of \<open>unquote\<close> over the characters between the quotes.\<close>

fun unquote_loop :: "bool \<Rightarrow> string \<Rightarrow> string \<Rightarrow> error + string" where
  "unquote_loop escaped out [] =
     (if escaped then Inl (malformed_config ''dangling escape in config value'') else Inr out)"
| "unquote_loop escaped out (c # cs) =
     (if escaped
      then (if c = CHR ''n'' then unquote_loop False (out @ newline) cs
            else if c = CHR ''t'' then unquote_loop False (out @ [CHR 0x09]) cs
            else if c = backslash \<or> c = quote then unquote_loop False (out @ [c]) cs
            else Inl (malformed_config ''invalid escape in config value''))
      else if c = backslash then unquote_loop True out cs
      else unquote_loop False (out @ [c]) cs)"

definition unquote :: "string \<Rightarrow> u32 \<Rightarrow> error + string" where
  "unquote text line_no =
     (if length text < 2 \<or> hd text \<noteq> quote then Inr text
      else if last text \<noteq> quote
      then Inl (malformed_config (''unterminated quoted config value at line '' @ dec line_no))
      else unquote_loop False [] (butlast (tl text)))"

fun strip_loop :: "bool \<Rightarrow> bool \<Rightarrow> string \<Rightarrow> string" where
  "strip_loop quoted escaped [] = []"
| "strip_loop quoted escaped (c # cs) =
     (if escaped then c # strip_loop quoted False cs
      else if c = backslash \<and> quoted then c # strip_loop quoted True cs
      else if c = quote then c # strip_loop (\<not> quoted) False cs
      else if c = CHR ''#'' \<and> \<not> quoted then []
      else c # strip_loop quoted False cs)"

definition strip_comment :: "string \<Rightarrow> string" where
  "strip_comment line = strip_loop False False line"

definition cfg_get :: "string \<Rightarrow> parsed_config \<Rightarrow> string option" where
  "cfg_get key config = cfg_values config key"

text \<open>\<open>std::from_chars\<close> for \<open>int\<close>, where the caller demands that the whole text is consumed.\<close>

definition digits_value :: "string \<Rightarrow> int" where
  "digits_value ds = foldl (\<lambda>acc c. 10 * acc + (of_char c - 48)) 0 ds"

definition from_chars :: "string \<Rightarrow> int option" where
  "from_chars text =
     (let negative = (text \<noteq> [] \<and> hd text = CHR ''-'');
          ds = (if negative then tl text else text);
          n = (if negative then - digits_value ds else digits_value ds)
      in if ds = [] \<or> \<not> list_all is_digit ds then None
         else if n < - 2147483648 \<or> n > 2147483647 then None
         else Some n)"

definition cfg_get_int :: "string \<Rightarrow> int \<Rightarrow> parsed_config \<Rightarrow> int" where
  "cfg_get_int key fallback config =
     (case cfg_get key config of
        None \<Rightarrow> fallback
      | Some text \<Rightarrow> (case from_chars text of None \<Rightarrow> fallback | Some n \<Rightarrow> n))"

definition cfg_get_bool :: "string \<Rightarrow> bool \<Rightarrow> parsed_config \<Rightarrow> bool" where
  "cfg_get_bool key fallback config =
     (case cfg_get key config of
        None \<Rightarrow> fallback
      | Some text \<Rightarrow> text = ''true'' \<or> text = ''1'' \<or> text = ''yes'')"

text \<open>One line of the text, without its newline.\<close>

definition parse_line :: "config_parser \<Rightarrow> string \<Rightarrow> u32 \<Rightarrow> parsed_config \<Rightarrow> error + parsed_config" where
  "parse_line parser raw line_no config =
     (let raw = (if raw \<noteq> [] \<and> last raw = CHR 0x0D then butlast raw else raw)
      in if length raw > cp_max_line_length parser
         then Inl (malformed_config ''configuration line is too long'')
         else
           let line = trim (strip_comment raw)
           in if line = [] then Inr config
              else if CHR ''='' \<notin> set line
              then Inl (malformed_config ''missing '=' in configuration entry'')
              else
                let key = trim (takeWhile (\<lambda>c. c \<noteq> CHR ''='') line);
                    text = trim (tl (dropWhile (\<lambda>c. c \<noteq> CHR ''='') line))
                in if \<not> valid_key key then Inl (malformed_config ''invalid configuration key'')
                   else if length (cfg_entries config) \<ge> cp_max_entries parser
                   then Inl (malformed_config ''too many configuration entries'')
                   else (case unquote text line_no of
                       Inl e \<Rightarrow> Inl e
                     | Inr text \<Rightarrow>
                         Inr (config\<lparr>cfg_values := (cfg_values config)(key \<mapsto> text),
                                     cfg_entries := cfg_entries config @
                                       [\<lparr>ce_key = key, ce_value = text, ce_line = line_no\<rparr>]\<rparr>)))"

text \<open>The loop of \<open>parse\<close> on the text from \<open>start\<close> on.\<close>

function parse_loop :: "config_parser \<Rightarrow> string \<Rightarrow> u32 \<Rightarrow> parsed_config \<Rightarrow> error + parsed_config" where
  "parse_loop parser text line_no config =
     (let raw = takeWhile (\<lambda>c. c \<noteq> CHR 0x0A) text;
          rest = dropWhile (\<lambda>c. c \<noteq> CHR 0x0A) text;
          line_no = line_no + 1
      in case parse_line parser raw line_no config of
           Inl e \<Rightarrow> Inl e
         | Inr config \<Rightarrow> if rest = [] then Inr config else parse_loop parser (tl rest) line_no config)"
  by pat_completeness auto
termination
proof (relation "measure (\<lambda>(_, text, _, _). length text)", goal_cases)
  case (2 parser body line_no config raw rest line_no' config')
  have "length rest \<le> length body"
    unfolding 2(2) by (rule length_dropWhile_le)
  with 2(5) show ?case by (cases rest) auto
qed simp

declare parse_loop.simps [simp del]

definition config_parse :: "config_parser \<Rightarrow> string \<Rightarrow> error + parsed_config" where
  "config_parse parser text = parse_loop parser text 0 parsed_config_empty"

definition parse_bytes :: "config_parser \<Rightarrow> bytes \<Rightarrow> error + parsed_config" where
  "parse_bytes parser bs =
     (if 0 \<in> set bs then Inl (malformed_config ''configuration contains nul byte'')
      else config_parse parser (map char_of_byte bs))"

section \<open>The schema\<close>

datatype config_value_type = VT_string | VT_integer | VT_boolean

record config_rule =
  cr_key :: string
  cr_type :: config_value_type
  cr_required :: bool
  cr_min_value :: "int option"
  cr_max_value :: "int option"

record config_issue =
  ci_key :: string
  ci_message :: string

type_synonym config_validation = "config_issue list"
type_synonym config_schema = "config_rule list"

definition validation_ok :: "config_validation \<Rightarrow> bool" where
  "validation_ok issues \<longleftrightarrow> issues = []"

definition parse_bool :: "string \<Rightarrow> bool" where
  "parse_bool text \<longleftrightarrow>
     text = ''true'' \<or> text = ''false'' \<or> text = ''1'' \<or> text = ''0'' \<or> text = ''yes'' \<or> text = ''no''"

definition add_rule ::
  "string \<Rightarrow> config_value_type \<Rightarrow> bool \<Rightarrow> int option \<Rightarrow> int option \<Rightarrow> config_schema \<Rightarrow> config_schema" where
  "add_rule key type required min_value max_value rules =
     rules @ [\<lparr>cr_key = key, cr_type = type, cr_required = required, cr_min_value = min_value,
               cr_max_value = max_value\<rparr>]"

definition require_string :: "string \<Rightarrow> config_schema \<Rightarrow> config_schema" where
  "require_string key = add_rule key VT_string True None None"

definition optional_string :: "string \<Rightarrow> config_schema \<Rightarrow> config_schema" where
  "optional_string key = add_rule key VT_string False None None"

definition require_bool :: "string \<Rightarrow> config_schema \<Rightarrow> config_schema" where
  "require_bool key = add_rule key VT_boolean True None None"

definition optional_bool :: "string \<Rightarrow> config_schema \<Rightarrow> config_schema" where
  "optional_bool key = add_rule key VT_boolean False None None"

definition require_int :: "string \<Rightarrow> int \<Rightarrow> int \<Rightarrow> config_schema \<Rightarrow> config_schema" where
  "require_int key min_value max_value = add_rule key VT_integer True (Some min_value) (Some max_value)"

definition optional_int :: "string \<Rightarrow> int \<Rightarrow> int \<Rightarrow> config_schema \<Rightarrow> config_schema" where
  "optional_int key min_value max_value = add_rule key VT_integer False (Some min_value) (Some max_value)"

definition rule_issues :: "parsed_config \<Rightarrow> config_rule \<Rightarrow> config_issue list" where
  "rule_issues config rule =
     (let issue = (\<lambda>message. [\<lparr>ci_key = cr_key rule, ci_message = message\<rparr>]) in
      case cfg_get (cr_key rule) config of
        None \<Rightarrow> if cr_required rule then issue ''required key is missing'' else []
      | Some text \<Rightarrow>
          (case cr_type rule of
             VT_boolean \<Rightarrow> if \<not> parse_bool text then issue ''value is not a boolean'' else []
           | VT_integer \<Rightarrow>
               (case from_chars text of
                  None \<Rightarrow> issue ''value is not an integer''
                | Some parsed \<Rightarrow>
                    (case cr_min_value rule of
                       None \<Rightarrow> []
                     | Some m \<Rightarrow> if parsed < m then issue ''value is below allowed range'' else []) @
                    (case cr_max_value rule of
                       None \<Rightarrow> []
                     | Some m \<Rightarrow> if parsed > m then issue ''value is above allowed range'' else []))
           | VT_string \<Rightarrow> if text = [] then issue ''string value is empty'' else []))"

definition schema_validate :: "parsed_config \<Rightarrow> config_schema \<Rightarrow> config_validation" where
  "schema_validate config rules = concat (map (rule_issues config) rules)"

definition collector_config_schema :: config_schema where
  "collector_config_schema =
     (optional_int ''routing.default_priority'' 0 255 \<circ>
      optional_int ''stream.max_packet_size'' 64 (16 * 1024 * 1024) \<circ>
      optional_string ''archive.path'' \<circ>
      require_bool ''archive.enabled'' \<circ>
      require_int ''collector.region'' 0 65535 \<circ>
      require_string ''collector.name'') []"

section \<open>The collector profile\<close>

record archive_profile =
  ap_enabled :: bool
  ap_path :: string
  ap_rotate_bytes :: u64

record stream_profile =
  sp_max_packet_size :: u64
  sp_idle_timeout_ns :: u64

record routing_profile =
  rp_region :: u16
  rp_default_priority :: u8

record collector_profile =
  cpr_name :: string
  cpr_archive :: archive_profile
  cpr_stream :: stream_profile
  cpr_routing :: routing_profile
  cpr_warnings :: "string list"

definition archive_profile_default :: archive_profile where
  "archive_profile_default = \<lparr>ap_enabled = False, ap_path = [], ap_rotate_bytes = 134217728\<rparr>"

definition stream_profile_default :: stream_profile where
  "stream_profile_default = \<lparr>sp_max_packet_size = 16777216, sp_idle_timeout_ns = 30000000000\<rparr>"

text \<open>\<open>static_cast<int>\<close> of a 64-bit number keeps its low 32 bits as a signed number.\<close>

definition to_int32 :: "u64 \<Rightarrow> int" where
  "to_int32 w = sint (ucast w :: u32)"

definition get_u64_or :: "parsed_config \<Rightarrow> string \<Rightarrow> u64 \<Rightarrow> u64" where
  "get_u64_or config key fallback =
     (let n = cfg_get_int key (to_int32 fallback) config
      in if n < 0 then fallback else of_int n)"

definition get_u8_or :: "parsed_config \<Rightarrow> string \<Rightarrow> u8 \<Rightarrow> u8" where
  "get_u8_or config key fallback =
     (let n = cfg_get_int key (uint fallback) config
      in if n < 0 \<or> n > 255 then fallback else of_int n)"

definition schema_warnings :: "config_validation \<Rightarrow> string list" where
  "schema_warnings issues = map (\<lambda>issue. ci_key issue @ '': '' @ ci_message issue) issues"

definition profile_warnings :: "collector_profile \<Rightarrow> string list" where
  "profile_warnings profile =
     (if cpr_name profile = [] then [''collector name is empty''] else []) @
     (if ap_enabled (cpr_archive profile) \<and> ap_path (cpr_archive profile) = []
      then [''archive is enabled without an archive path''] else []) @
     (if sp_max_packet_size (cpr_stream profile) < 64
      then [''stream max packet size is suspiciously small''] else []) @
     (if ap_rotate_bytes (cpr_archive profile) < sp_max_packet_size (cpr_stream profile)
      then [''archive rotation size is smaller than maximum packet size''] else [])"

definition value_or :: "string option \<Rightarrow> string \<Rightarrow> string" where
  "value_or v d = (case v of None \<Rightarrow> d | Some s \<Rightarrow> s)"

definition load_collector_profile :: "parsed_config \<Rightarrow> collector_profile" where
  "load_collector_profile config =
     (let profile =
        \<lparr>cpr_name = value_or (cfg_get ''collector.name'' config) ''aethon-collector'',
         cpr_archive =
           \<lparr>ap_enabled = cfg_get_bool ''archive.enabled'' False config,
            ap_path = value_or (cfg_get ''archive.path'' config) ''capture.ath'',
            ap_rotate_bytes = get_u64_or config ''archive.rotate_bytes'' (ap_rotate_bytes archive_profile_default)\<rparr>,
         cpr_stream =
           \<lparr>sp_max_packet_size =
              get_u64_or config ''stream.max_packet_size'' (sp_max_packet_size stream_profile_default),
            sp_idle_timeout_ns =
              get_u64_or config ''stream.idle_timeout_ns'' (sp_idle_timeout_ns stream_profile_default)\<rparr>,
         cpr_routing =
           \<lparr>rp_region = of_int (cfg_get_int ''collector.region'' 0 config),
            rp_default_priority = get_u8_or config ''routing.default_priority'' 0\<rparr>,
         cpr_warnings = schema_warnings (schema_validate config collector_config_schema)\<rparr>
      in profile\<lparr>cpr_warnings := cpr_warnings profile @ profile_warnings profile\<rparr>)"

definition render_collector_profile :: "collector_profile \<Rightarrow> string" where
  "render_collector_profile profile =
     ''collector_profile'' @ newline @
     ''  name: '' @ cpr_name profile @ newline @
     ''  archive_enabled: '' @ yes_no (ap_enabled (cpr_archive profile)) @ newline @
     ''  archive_path: '' @ ap_path (cpr_archive profile) @ newline @
     ''  archive_rotate_bytes: '' @ dec (ap_rotate_bytes (cpr_archive profile)) @ newline @
     ''  stream_max_packet_size: '' @ dec (sp_max_packet_size (cpr_stream profile)) @ newline @
     ''  stream_idle_timeout_ns: '' @ dec (sp_idle_timeout_ns (cpr_stream profile)) @ newline @
     ''  region: '' @ dec (rp_region (cpr_routing profile)) @ newline @
     ''  default_priority: '' @ dec (rp_default_priority (cpr_routing profile)) @ newline @
     concat (map (\<lambda>warning. ''  warning: '' @ warning @ newline) (cpr_warnings profile))"

section \<open>Writing a configuration\<close>

text \<open>
  The source has no writer; this is the text whose entries are the given keys and values: one
  line each, the value in quotes with the escapes the parser knows.
\<close>

definition quote_char :: "char \<Rightarrow> string" where
  "quote_char c =
     (if c = CHR 0x0A then [backslash, CHR ''n'']
      else if c = CHR 0x09 then [backslash, CHR ''t'']
      else if c = backslash \<or> c = quote then [backslash, c]
      else [c])"

definition quoted :: "string \<Rightarrow> string" where
  "quoted v = quote # concat (map quote_char v) @ [quote]"

definition config_line :: "string \<times> string \<Rightarrow> string" where
  "config_line kv = fst kv @ '' = '' @ quoted (snd kv)"

definition config_text :: "(string \<times> string) list \<Rightarrow> string" where
  "config_text kvs = concat (map (\<lambda>kv. config_line kv @ newline) kvs)"

lemma key_char_plain:
  assumes "key_char c"
  shows "\<not> is_space c" "c \<noteq> CHR ''=''" "c \<noteq> quote" "c \<noteq> CHR ''#''" "c \<noteq> CHR 0x0A" "c \<noteq> backslash"
  using assms by (auto simp: key_char_def is_alnum_def is_digit_def is_space_def)

lemma valid_key_chars: "valid_key k \<Longrightarrow> c \<in> set k \<Longrightarrow> key_char c"
  by (simp add: valid_key_def list_all_iff)

lemma strip_key: "list_all key_char k \<Longrightarrow> strip_loop False False (k @ rest) = k @ strip_loop False False rest"
  by (induction k) (auto dest: key_char_plain)

lemma strip_quoted:
  "strip_loop True False (concat (map quote_char v) @ quote # rest) =
   concat (map quote_char v) @ quote # strip_loop False False rest"
  by (induction v) (auto simp: quote_char_def)

lemma strip_config_line: "valid_key k \<Longrightarrow> strip_comment (config_line (k, v)) = config_line (k, v)"
  by (simp add: strip_comment_def config_line_def quoted_def valid_key_def strip_key strip_quoted)

lemma unquote_quoted_loop:
  "unquote_loop False out (concat (map quote_char v)) = Inr (out @ v)"
  by (induction v arbitrary: out) (auto simp: quote_char_def)

lemma unquote_quoted: "unquote (quoted v) n = Inr v"
  by (simp add: unquote_def quoted_def unquote_quoted_loop)

lemma trim_plain:
  assumes "x \<noteq> []" and "\<not> is_space (hd x)" and "\<not> is_space (last x)"
  shows "trim x = x" and "trim (CHR '' '' # x) = x" and "trim (x @ '' '') = x"
proof -
  have front: "dropWhile is_space (x @ y) = x @ y" for y
    using assms(1,2) by (cases x) simp_all
  have ending: "dropWhile is_space (rev x) = rev x"
    using assms(1,3) by (cases x rule: rev_cases) simp_all
  have space: "is_space (CHR '' '')" by (simp add: is_space_def)
  show "trim x = x" using front [of "[]"] ending by (simp add: trim_def)
  show "trim (CHR '' '' # x) = x" using front [of "[]"] ending space by (simp add: trim_def)
  show "trim (x @ '' '') = x" using front [of "'' ''"] ending space by (simp add: trim_def)
qed

lemma key_ends:
  assumes "valid_key k"
  shows "k \<noteq> []" "\<not> is_space (hd k)" "\<not> is_space (last k)"
proof -
  show "k \<noteq> []" using assms by (simp add: valid_key_def)
  then show "\<not> is_space (hd k)" "\<not> is_space (last k)"
    using assms by (auto intro!: key_char_plain(1) intro: valid_key_chars hd_in_set last_in_set)
qed

lemma quoted_ends: "quoted v \<noteq> []" "\<not> is_space (hd (quoted v))" "\<not> is_space (last (quoted v))"
  by (simp_all add: quoted_def is_space_def)

lemma config_line_split:
  assumes "valid_key k"
  shows "takeWhile (\<lambda>c. c \<noteq> CHR ''='') (config_line (k, v)) = k @ '' ''"
    and "dropWhile (\<lambda>c. c \<noteq> CHR ''='') (config_line (k, v)) = ''= '' @ quoted v"
proof -
  have key: "\<forall>c \<in> set k. c \<noteq> CHR ''=''"
    using assms by (auto dest: valid_key_chars key_char_plain(2))
  then show "takeWhile (\<lambda>c. c \<noteq> CHR ''='') (config_line (k, v)) = k @ '' ''"
    by (simp add: config_line_def takeWhile_append2)
  from key show "dropWhile (\<lambda>c. c \<noteq> CHR ''='') (config_line (k, v)) = ''= '' @ quoted v"
    by (simp add: config_line_def dropWhile_append2)
qed

lemma config_line_ends:
  assumes "valid_key k"
  shows "config_line (k, v) \<noteq> []" "\<not> is_space (hd (config_line (k, v)))" "last (config_line (k, v)) = quote"
    "CHR ''='' \<in> set (config_line (k, v))"
  using key_ends [OF assms] by (simp_all add: config_line_def quoted_def)

lemma no_newline:
  assumes "valid_key k"
  shows "\<forall>c \<in> set (config_line (k, v)). c \<noteq> CHR 0x0A"
  using assms by (auto simp: config_line_def quoted_def quote_char_def dest: valid_key_chars key_char_plain(5) split: if_splits)

definition entry_fits :: "config_parser \<Rightarrow> string \<times> string \<Rightarrow> bool" where
  "entry_fits parser kv \<longleftrightarrow> valid_key (fst kv) \<and> length (config_line kv) \<le> cp_max_line_length parser"

definition add_entry :: "u32 \<Rightarrow> string \<times> string \<Rightarrow> parsed_config \<Rightarrow> parsed_config" where
  "add_entry line_no kv config =
     config\<lparr>cfg_values := (cfg_values config)(fst kv \<mapsto> snd kv),
            cfg_entries := cfg_entries config @ [\<lparr>ce_key = fst kv, ce_value = snd kv, ce_line = line_no\<rparr>]\<rparr>"

lemma parse_config_line:
  assumes "entry_fits parser (k, v)" and "length (cfg_entries config) < cp_max_entries parser"
  shows "parse_line parser (config_line (k, v)) n config = Inr (add_entry n (k, v) config)"
proof -
  have k: "valid_key k" and len: "length (config_line (k, v)) \<le> cp_max_line_length parser"
    using assms(1) by (simp_all add: entry_fits_def)
  have line: "trim (strip_comment (config_line (k, v))) = config_line (k, v)"
    using config_line_ends(1-3) [OF k, of v]
    by (simp add: strip_config_line [OF k] trim_plain(1) is_space_def)
  have key: "trim (k @ '' '') = k" by (rule trim_plain(3) [OF key_ends [OF k]])
  have rest: "trim ('' '' @ quoted v) = quoted v"
    using trim_plain(2) [OF quoted_ends [of v]] by simp
  have "last (config_line (k, v)) \<noteq> CHR 0x0D" using config_line_ends(3) [OF k, of v] by simp
  then show ?thesis
    using len assms(2) k config_line_ends(1,4) [OF k, of v] key rest
    by (simp add: parse_line_def Let_def line config_line_split [OF k] unquote_quoted add_entry_def)
qed

fun add_entries :: "u32 \<Rightarrow> (string \<times> string) list \<Rightarrow> parsed_config \<Rightarrow> parsed_config" where
  "add_entries n [] config = config"
| "add_entries n (kv # kvs) config = add_entries (n + 1) kvs (add_entry (n + 1) kv config)"

lemma parse_empty_line: "parse_line parser [] n config = Inr config"
  by (simp add: parse_line_def strip_comment_def trim_def)

lemma parse_config_text:
  assumes "\<forall>kv \<in> set kvs. entry_fits parser kv"
    and "length (cfg_entries config) + length kvs \<le> cp_max_entries parser"
  shows "parse_loop parser (config_text kvs) n config = Inr (add_entries n kvs config)"
  using assms
proof (induction kvs arbitrary: n config)
  case Nil
  then show ?case
    by (subst parse_loop.simps) (simp add: config_text_def parse_empty_line)
next
  case (Cons kv kvs)
  obtain k v where kv: "kv = (k, v)" by (cases kv)
  have k: "valid_key k" using Cons.prems(1) kv by (simp add: entry_fits_def)
  have line: "takeWhile (\<lambda>c. c \<noteq> CHR 0x0A) (config_text (kv # kvs)) = config_line (k, v)"
    "dropWhile (\<lambda>c. c \<noteq> CHR 0x0A) (config_text (kv # kvs)) = CHR 0x0A # config_text kvs"
    using no_newline [OF k, of v]
    by (simp_all add: kv config_text_def takeWhile_append2 dropWhile_append2)
  have "parse_line parser (config_line (k, v)) (n + 1) config = Inr (add_entry (n + 1) kv config)"
    using Cons.prems parse_config_line [of parser k v config "n + 1"] kv by simp
  moreover have "parse_loop parser (config_text kvs) (n + 1) (add_entry (n + 1) kv config) =
      Inr (add_entries (n + 1) kvs (add_entry (n + 1) kv config))"
    using Cons.prems by (intro Cons.IH) (simp_all add: add_entry_def)
  ultimately show ?case
    by (subst parse_loop.simps) (simp add: line Let_def)
qed

lemma add_entries_result:
  "map (\<lambda>e. (ce_key e, ce_value e)) (cfg_entries (add_entries n kvs config)) =
     map (\<lambda>e. (ce_key e, ce_value e)) (cfg_entries config) @ kvs \<and>
   cfg_values (add_entries n kvs config) = cfg_values config ++ map_of (rev kvs)"
proof (induction kvs arbitrary: n config)
  case (Cons kv kvs)
  then show ?case by (cases kv) (simp add: add_entry_def map_add_def fun_eq_iff map_of_append split: option.split)
qed simp

section \<open>What the schema accepts\<close>

definition rule_holds :: "parsed_config \<Rightarrow> config_rule \<Rightarrow> bool" where
  "rule_holds config rule \<longleftrightarrow>
     (case cfg_get (cr_key rule) config of
        None \<Rightarrow> \<not> cr_required rule
      | Some v \<Rightarrow>
          (case cr_type rule of
             VT_boolean \<Rightarrow> parse_bool v
           | VT_string \<Rightarrow> v \<noteq> []
           | VT_integer \<Rightarrow> (\<exists>n. from_chars v = Some n \<and>
               (\<forall>m. cr_min_value rule = Some m \<longrightarrow> m \<le> n) \<and> (\<forall>m. cr_max_value rule = Some m \<longrightarrow> n \<le> m))))"

lemma rule_issues_empty: "rule_issues config rule = [] \<longleftrightarrow> rule_holds config rule"
  by (auto simp: rule_issues_def rule_holds_def Let_def not_less
      split: option.splits config_value_type.splits)

section \<open>Numbers as text\<close>

lemma digit_char_digit [simp]: "d < 10 \<Longrightarrow> is_digit (digit_char d)"
  by (simp add: is_digit_def digit_char_def)

lemma dec_nat_digits: "list_all is_digit (dec_nat n) \<and> dec_nat n \<noteq> []"
proof (induction n rule: dec_nat.induct)
  case (1 n)
  then show ?case by (subst (1 2) dec_nat.simps) simp
qed

lemma digits_value_undec: "list_all is_digit ds \<Longrightarrow> digits_value ds = int (undec ds)"
proof (induction ds rule: rev_induct)
  case (snoc c ds)
  then show ?case by (simp add: digits_value_def undec_def undigit_def is_digit_def of_nat_diff of_nat_of_char)
qed (simp add: digits_value_def undec_def)

lemma from_chars_dec_nat: "from_chars (dec_nat n) = (if n \<le> 2147483647 then Some (int n) else None)"
proof -
  have "hd (dec_nat n) \<noteq> CHR ''-''"
    using dec_nat_digits [of n] by (cases "dec_nat n") (auto simp: is_digit_def)
  then show ?thesis
    using dec_nat_digits [of n] by (simp add: from_chars_def digits_value_undec undec_dec_nat)
qed

section \<open>Properties\<close>

text \<open>
  C21. A configuration written one entry to a line, with quoted and escaped values, is parsed back
  to exactly its entries in order, whatever characters the values contain; looking a key up gives
  the last value written for it.
\<close>

theorem config_roundtrip:
  assumes "\<forall>kv \<in> set kvs. entry_fits parser kv" and "length kvs \<le> cp_max_entries parser"
  shows "\<exists>config. config_parse parser (config_text kvs) = Inr config \<and>
    map (\<lambda>e. (ce_key e, ce_value e)) (cfg_entries config) = kvs \<and>
    (\<forall>key. cfg_get key config = map_of (rev kvs) key)"
  using parse_config_text [OF assms(1), of parsed_config_empty 0] assms(2) add_entries_result [of 0 kvs parsed_config_empty]
  by (auto simp: config_parse_def cfg_get_def parsed_config_empty_def)

definition sample_entries :: "(string \<times> string) list" where
  "sample_entries = [(''a.b'', ''x # y''), (''a.b'', [CHR 0x0A, quote])]"

lemma config_roundtrip_witness:
  "\<exists>config. config_parse config_parser_default (config_text sample_entries) = Inr config \<and>
     cfg_get ''a.b'' config = Some [CHR 0x0A, quote]"
proof -
  have "\<forall>kv \<in> set sample_entries. entry_fits config_parser_default kv"
    by (simp add: sample_entries_def entry_fits_def valid_key_def key_char_def is_alnum_def is_digit_def
        config_line_def quoted_def quote_char_def config_parser_default_def)
  moreover have "length sample_entries \<le> cp_max_entries config_parser_default"
    by (simp add: sample_entries_def config_parser_default_def)
  ultimately obtain config where "config_parse config_parser_default (config_text sample_entries) = Inr config"
    "\<forall>key. cfg_get key config = map_of (rev sample_entries) key"
    using config_roundtrip [of sample_entries config_parser_default] by blast
  then show ?thesis by (simp add: sample_entries_def)
qed

text \<open>
  The schema has no objection to a configuration exactly when every rule holds: required keys
  are present, booleans are spelled as one, integers parse and lie in their range, strings are
  not empty.
\<close>

theorem schema_accepts_iff:
  "validation_ok (schema_validate config rules) \<longleftrightarrow> (\<forall>rule \<in> set rules. rule_holds config rule)"
  by (auto simp: validation_ok_def schema_validate_def rule_issues_empty)

text \<open>
  An idle timeout of \<open>2^31\<close> nanoseconds (2.1 seconds) or more cannot be configured: the value
  is read as an \<open>int\<close>, does not fit, and the default of 30 seconds is used; the schema has no rule
  for the key, so there is no warning either.
\<close>

theorem long_idle_timeout_ignored:
  assumes "cfg_get ''stream.idle_timeout_ns'' config = Some (dec_nat n)" and "2147483648 \<le> n"
  shows "sp_idle_timeout_ns (cpr_stream (load_collector_profile config)) = 30000000000 \<and>
    (\<forall>rule \<in> set collector_config_schema. cr_key rule \<noteq> ''stream.idle_timeout_ns'')"
proof -
  have "from_chars (dec_nat n) = None"
    using from_chars_dec_nat [of n] assms(2) by simp
  with assms(1) show ?thesis
    by (simp add: load_collector_profile_def Let_def get_u64_or_def cfg_get_int_def stream_profile_default_def
        to_int32_def collector_config_schema_def require_string_def require_int_def require_bool_def
        optional_string_def optional_int_def add_rule_def)
qed

definition five_seconds :: parsed_config where
  "five_seconds = parsed_config_empty\<lparr>cfg_values := [''stream.idle_timeout_ns'' \<mapsto> dec_nat 5000000000]\<rparr>"

lemma long_idle_timeout_ignored_witness:
  "sp_idle_timeout_ns (cpr_stream (load_collector_profile five_seconds)) = 30000000000"
  by (rule conjunct1 [OF long_idle_timeout_ignored [of _ 5000000000]])
    (simp_all add: five_seconds_def cfg_get_def)

end
