(* ===== verification/Query_Parser.thy ===== *)
theory Query_Parser
  imports Query Config
begin

text \<open>
  The query language (\<open>src/storage/query_parser.cpp\<close>): \<open>key=value\<close> words, values optionally quoted.
  A function that advances \<open>pos\<close> returns what it read and the text that is left.
\<close>

section \<open>Data\<close>

record query_token =
  qt_key :: string
  qt_value :: string

record query_diagnostic =
  qd_token :: string
  qd_message :: string

record parsed_query =
  pq_query :: archive_query
  pq_tokens :: "query_token list"
  pq_diagnostics :: "query_diagnostic list"

definition parsed_query_ok :: "parsed_query \<Rightarrow> bool" where
  "parsed_query_ok parsed \<longleftrightarrow> pq_diagnostics parsed = []"

section \<open>Values\<close>

definition lower_char :: "char \<Rightarrow> char" where
  "lower_char c = (if 65 \<le> (of_char c :: nat) \<and> (of_char c :: nat) \<le> 90 then char_of ((of_char c :: nat) + 32) else c)"

definition lower :: "string \<Rightarrow> string" where
  "lower text = map lower_char text"

text \<open>\<open>std::from_chars\<close> for an unsigned 64-bit integer, the whole text consumed.\<close>

definition parse_u64 :: "string \<Rightarrow> u64 option" where
  "parse_u64 text =
     (if text = [] \<or> \<not> list_all is_digit text then None
      else if digits_value text > 18446744073709551615 then None
      else Some (of_int (digits_value text)))"

definition parse_size :: "string \<Rightarrow> nat option" where
  "parse_size text = (case parse_u64 text of None \<Rightarrow> None | Some n \<Rightarrow> Some (unat n))"

definition parse_kind :: "string \<Rightarrow> packet_kind option" where
  "parse_kind text =
     (let name = lower text
      in if name = ''heartbeat'' \<or> name = ''1'' then Some PK_heartbeat
         else if name = ''observation'' \<or> name = ''2'' then Some PK_observation
         else if name = ''spectrum'' \<or> name = ''3'' then Some PK_spectrum
         else if name = ''control'' \<or> name = ''4'' then Some PK_control
         else if name = ''capabilities'' \<or> name = ''5'' then Some PK_capabilities
         else None)"

section \<open>Tokens\<close>

text \<open>The loop after the opening quote: whether the closing one was found, the value, the rest.\<close>

fun quoted_loop :: "string \<Rightarrow> string \<Rightarrow> bool \<times> string \<times> string" where
  "quoted_loop out [] = (False, out, [])"
| "quoted_loop out (c # cs) =
     (if c = quote then (True, out, cs)
      else if c = backslash \<and> cs \<noteq> []
      then (let escaped = hd cs in
          if escaped = CHR ''n'' then quoted_loop (out @ newline) (tl cs)
          else if escaped = CHR ''t'' then quoted_loop (out @ [CHR 0x09]) (tl cs)
          else quoted_loop (out @ [escaped]) (tl cs))
      else quoted_loop (out @ [c]) cs)"

definition parse_quoted :: "string \<Rightarrow> bool \<times> string \<times> string" where
  "parse_quoted text =
     (if text = [] \<or> hd text \<noteq> quote then (False, [], text) else quoted_loop [] (tl text))"

definition parse_bare :: "string \<Rightarrow> string \<times> string" where
  "parse_bare text = (takeWhile (\<lambda>c. \<not> is_space c) text, dropWhile (\<lambda>c. \<not> is_space c) text)"

definition parse_word :: "string \<Rightarrow> string \<times> string" where
  "parse_word text =
     (takeWhile (\<lambda>c. \<not> is_space c \<and> c \<noteq> CHR ''='') text, dropWhile (\<lambda>c. \<not> is_space c \<and> c \<noteq> CHR ''='') text)"

definition skip_spaces :: "string \<Rightarrow> string" where
  "skip_spaces text = dropWhile is_space text"

definition parse_value :: "string \<Rightarrow> string \<times> string" where
  "parse_value text =
     (if text \<noteq> [] \<and> hd text = quote
      then (let (closed, out, rest) = parse_quoted text in (if \<not> closed then [] else out, rest))
      else parse_bare text)"

lemma length_skip_spaces: "length (skip_spaces text) \<le> length text"
  by (simp add: skip_spaces_def length_dropWhile_le)

lemma length_quoted_loop: "length (snd (snd (quoted_loop out cs))) \<le> length cs"
proof (induction out cs rule: quoted_loop.induct)
  case (2 out c cs)
  have "length (tl cs) \<le> length cs" by simp
  note le_trans [OF _ this, trans]
  with 2 show ?case
    by (subst quoted_loop.simps) (auto simp: Let_def simp del: quoted_loop.simps length_tl intro: le_SucI le_trans)
qed simp

lemma length_parse_value: "length (snd (parse_value text)) \<le> length text"
proof (cases "text")
  case (Cons c cs)
  then show ?thesis
    using length_quoted_loop [of "[]" cs]
    by (auto simp: parse_value_def parse_quoted_def parse_bare_def split_beta length_dropWhile_le
        intro: le_trans [OF length_dropWhile_le])
qed (simp add: parse_value_def parse_bare_def)

function tokenize_query :: "string \<Rightarrow> query_token list" where
  "tokenize_query text =
     (let text = skip_spaces text
      in if text = [] then []
         else
           let (key, rest) = parse_word text;
               rest = skip_spaces rest
           in if rest = [] \<or> hd rest \<noteq> CHR ''=''
              then \<lparr>qt_key = key, qt_value = []\<rparr> # tokenize_query rest
              else let (v, rest) = parse_value (skip_spaces (tl rest))
                   in \<lparr>qt_key = key, qt_value = v\<rparr> # tokenize_query rest)"
  by pat_completeness auto

text \<open>Each turn of the loop consumes a character: a key, or the equals sign before the next value.\<close>

lemma parse_word_stops:
  assumes "text = skip_spaces t" and "text \<noteq> []" and "parse_word text = (key, rest)"
    and "skip_spaces rest = [] \<or> hd (skip_spaces rest) \<noteq> CHR ''=''"
  shows "length (skip_spaces rest) < length t"
proof -
  have head: "\<not> is_space (hd text)" using assms(1,2) hd_dropWhile [of is_space t] by (simp add: skip_spaces_def)
  have "key \<noteq> []"
  proof
    assume "key = []"
    with assms(2,3) head have "hd text = CHR ''=''" "rest = text"
      by (cases "text"; auto simp: parse_word_def split: if_splits)+
    moreover from this head have "skip_spaces rest = text" by (cases "text") (simp_all add: skip_spaces_def)
    ultimately show False using assms(2,4) by simp
  qed
  moreover have "text = key @ rest" using assms(3) by (auto simp: parse_word_def)
  ultimately have "length rest < length text" by simp
  with length_skip_spaces [of rest] length_skip_spaces [of t] assms(1) show ?thesis by simp
qed

lemma parse_value_shrinks:
  assumes "text = skip_spaces t" and "parse_word text = (key, rest)" and "skip_spaces rest \<noteq> []"
    and "parse_value (skip_spaces (tl (skip_spaces rest))) = (v, rest')"
  shows "length rest' < length t"
proof -
  have "length rest \<le> length text" using assms(2) by (auto simp: parse_word_def length_dropWhile_le)
  moreover have "length rest' \<le> length (tl (skip_spaces rest))"
    using length_parse_value [of "skip_spaces (tl (skip_spaces rest))"] assms(4)
      length_skip_spaces [of "tl (skip_spaces rest)"] by simp
  moreover have "length (tl (skip_spaces rest)) < length (skip_spaces rest)"
    using assms(3) by (cases "skip_spaces rest") simp_all
  ultimately show ?thesis
    using length_skip_spaces [of rest] length_skip_spaces [of t] assms(1) by simp
qed

termination tokenize_query
  by (relation "measure length") (auto intro: parse_word_stops [OF _ _ sym] parse_value_shrinks [OF _ sym _ sym])

declare tokenize_query.simps [simp del]

section \<open>Queries\<close>

definition add_diagnostic :: "string \<Rightarrow> string \<Rightarrow> parsed_query \<Rightarrow> parsed_query" where
  "add_diagnostic token message parsed =
     parsed\<lparr>pq_diagnostics := pq_diagnostics parsed @ [\<lparr>qd_token = token, qd_message = message\<rparr>]\<rparr>"

text \<open>Set a field of the query to the value read, or complain.\<close>

definition set_or_complain ::
  "'a option \<Rightarrow> ('a \<Rightarrow> archive_query \<Rightarrow> archive_query) \<Rightarrow> string \<Rightarrow> string \<Rightarrow> parsed_query \<Rightarrow> parsed_query" where
  "set_or_complain v f key message parsed =
     (case v of
        Some x \<Rightarrow> parsed\<lparr>pq_query := f x (pq_query parsed)\<rparr>
      | None \<Rightarrow> add_diagnostic key message parsed)"

definition apply_token :: "query_token \<Rightarrow> parsed_query \<Rightarrow> parsed_query" where
  "apply_token token parsed =
     (let key = lower (qt_key token); v = qt_value token
      in if key = ''start'' \<or> key = ''start_time'' \<or> key = ''start_time_ns''
         then set_or_complain (parse_u64 v) (\<lambda>x q. q\<lparr>aq_start_time_ns := Some x\<rparr>) (qt_key token)
                ''start time must be an unsigned integer'' parsed
         else if key = ''end'' \<or> key = ''end_time'' \<or> key = ''end_time_ns''
         then set_or_complain (parse_u64 v) (\<lambda>x q. q\<lparr>aq_end_time_ns := Some x\<rparr>) (qt_key token)
                ''end time must be an unsigned integer'' parsed
         else if key = ''device'' \<or> key = ''device_id''
         then set_or_complain (parse_u64 v) (\<lambda>x q. q\<lparr>aq_device := Some x\<rparr>) (qt_key token)
                ''device must be an unsigned integer'' parsed
         else if key = ''kind'' \<or> key = ''packet_kind''
         then set_or_complain (parse_kind v) (\<lambda>x q. q\<lparr>aq_kind := Some x\<rparr>) (qt_key token)
                ''packet kind is not recognized'' parsed
         else if key = ''min_payload'' \<or> key = ''min_payload_size''
         then set_or_complain (parse_size v) (\<lambda>x q. q\<lparr>aq_min_payload_size := Some x\<rparr>) (qt_key token)
                ''minimum payload size must be an unsigned integer'' parsed
         else if key = ''max_payload'' \<or> key = ''max_payload_size''
         then set_or_complain (parse_size v) (\<lambda>x q. q\<lparr>aq_max_payload_size := Some x\<rparr>) (qt_key token)
                ''maximum payload size must be an unsigned integer'' parsed
         else if key = ''limit''
         then set_or_complain (parse_size v) (\<lambda>x q. q\<lparr>aq_limit := x\<rparr>) (qt_key token)
                ''limit must be an unsigned integer'' parsed
         else add_diagnostic (qt_key token) ''unknown query key'' parsed)"

definition validate_query_ranges :: "parsed_query \<Rightarrow> parsed_query" where
  "validate_query_ranges parsed =
     (let parsed =
            (case (aq_start_time_ns (pq_query parsed), aq_end_time_ns (pq_query parsed)) of
               (Some a, Some b) \<Rightarrow> if a > b then add_diagnostic ''time'' ''start time is after end time'' parsed else parsed
             | _ \<Rightarrow> parsed)
      in case (aq_min_payload_size (pq_query parsed), aq_max_payload_size (pq_query parsed)) of
           (Some a, Some b) \<Rightarrow>
             if a > b
             then add_diagnostic ''payload'' ''minimum payload size exceeds maximum payload size'' parsed
             else parsed
         | _ \<Rightarrow> parsed)"

definition use_token :: "query_token \<Rightarrow> parsed_query \<Rightarrow> parsed_query" where
  "use_token token parsed =
     (if qt_key token = [] then add_diagnostic (qt_key token) ''query key is empty'' parsed
      else if qt_value token = [] then add_diagnostic (qt_key token) ''query value is empty'' parsed
      else apply_token token parsed)"

definition parse_archive_query :: "string \<Rightarrow> parsed_query" where
  "parse_archive_query text =
     (let tokens = tokenize_query text
      in validate_query_ranges (fold use_token tokens
           \<lparr>pq_query = archive_query_default, pq_tokens = tokens, pq_diagnostics = []\<rparr>))"

definition render_query_diagnostics :: "parsed_query \<Rightarrow> string" where
  "render_query_diagnostics parsed =
     (if pq_diagnostics parsed = [] then ''query diagnostics: ok'' @ newline
      else ''query diagnostics:'' @ newline @
        concat (map (\<lambda>d. ''  '' @ qd_token d @ '': '' @ qd_message d @ newline) (pq_diagnostics parsed)))"

section \<open>Words\<close>

definition plain_word :: "string \<Rightarrow> bool" where
  "plain_word s \<longleftrightarrow> s \<noteq> [] \<and> (\<forall>c \<in> set s. \<not> is_space c \<and> c \<noteq> CHR ''='' \<and> c \<noteq> quote)"

lemma plain_word_cons:
  assumes "plain_word s"
  obtains c cs where "s = c # cs" and "\<not> is_space c" and "c \<noteq> CHR ''=''" and "c \<noteq> quote"
  using assms by (cases s) (auto simp: plain_word_def)

lemma plain_takes:
  assumes "plain_word s" and "rest = [] \<or> is_space (hd rest)"
  shows "parse_bare (s @ rest) = (s, rest)"
proof -
  have "\<not> is_space c" if "c \<in> set s" for c using assms(1) that by (simp add: plain_word_def)
  with assms(2) show ?thesis by (cases rest) (simp_all add: parse_bare_def takeWhile_append dropWhile_append)
qed

lemma plain_key:
  assumes "plain_word s" and "rest = [] \<or> is_space (hd rest) \<or> hd rest = CHR ''=''"
  shows "parse_word (s @ rest) = (s, rest)"
proof -
  have "\<not> is_space c \<and> c \<noteq> CHR ''=''" if "c \<in> set s" for c using assms(1) that by (simp add: plain_word_def)
  with assms(2) show ?thesis by (cases rest) (auto simp: parse_word_def takeWhile_append dropWhile_append)
qed

lemma skip_plain [simp]: "plain_word s \<Longrightarrow> skip_spaces (s @ rest) = s @ rest"
  by (auto simp: skip_spaces_def elim: plain_word_cons)

lemma space_equals [simp]: "is_space CHR '' ''" "\<not> is_space CHR ''=''"
  by (simp_all add: is_space_def)

lemma skip_space [simp]: "skip_spaces (CHR '' '' # s) = skip_spaces s"
  by (simp add: skip_spaces_def)

lemma tokenize_word:
  assumes "plain_word k" and "plain_word v" and "rest = [] \<or> is_space (hd rest)"
  shows "tokenize_query (CHR '' '' # k @ CHR ''='' # v @ rest) = \<lparr>qt_key = k, qt_value = v\<rparr> # tokenize_query rest"
proof -
  have "parse_value (v @ rest) = (v, rest)"
    using plain_takes [OF assms(2,3)] assms(2) by (auto simp: parse_value_def elim: plain_word_cons)
  moreover have "skip_spaces (CHR ''='' # v @ rest) = CHR ''='' # v @ rest" by (simp add: skip_spaces_def)
  moreover have "k \<noteq> []" using assms(1) by (simp add: plain_word_def)
  ultimately show ?thesis
    using plain_key [OF assms(1), of "CHR ''='' # v @ rest"] assms(1,2)
    by (subst tokenize_query.simps) simp
qed

lemma tokenize_bare_word:
  assumes "plain_word k" and "rest = [] \<or> is_space (hd rest)" and "skip_spaces rest = [] \<or> hd (skip_spaces rest) \<noteq> CHR ''=''"
  shows "tokenize_query (k @ rest) = \<lparr>qt_key = k, qt_value = []\<rparr> # tokenize_query (skip_spaces rest)"
proof -
  have "k \<noteq> []" using assms(1) by (simp add: plain_word_def)
  then show ?thesis
    using plain_key [OF assms(1), of rest] assms by (subst tokenize_query.simps) auto
qed

type_synonym query_word = "string \<times> string"

definition query_words_text :: "query_word list \<Rightarrow> string" where
  "query_words_text ws = concat (map (\<lambda>w. CHR '' '' # fst w @ CHR ''='' # snd w) ws)"

definition word_token :: "query_word \<Rightarrow> query_token" where
  "word_token w = \<lparr>qt_key = fst w, qt_value = snd w\<rparr>"

lemma words_text_head: "query_words_text ws = [] \<or> is_space (hd (query_words_text ws))"
  by (cases ws) (simp_all add: query_words_text_def)

lemma tokenize_words:
  "\<forall>w \<in> set ws. plain_word (fst w) \<and> plain_word (snd w) \<Longrightarrow>
   tokenize_query (query_words_text ws) = map word_token ws"
proof (induction ws)
  case (Cons w ws)
  have "query_words_text (w # ws) = CHR '' '' # fst w @ CHR ''='' # snd w @ query_words_text ws"
    by (simp add: query_words_text_def)
  with tokenize_word [of "fst w" "snd w" "query_words_text ws"] words_text_head [of ws] Cons
  show ?case by (simp add: word_token_def)
qed (simp add: query_words_text_def tokenize_query.simps [of "[]"] skip_spaces_def)

section \<open>Numbers\<close>

lemma plain_digits: "list_all is_digit ds \<Longrightarrow> ds \<noteq> [] \<Longrightarrow> plain_word ds"
  by (auto simp: plain_word_def list_all_iff is_digit_def is_space_def)

lemma plain_dec_nat [simp]: "plain_word (dec_nat n)"
  using dec_nat_digits plain_digits by blast

lemma parse_u64_dec_nat: "n < 18446744073709551616 \<Longrightarrow> parse_u64 (dec_nat n) = Some (of_nat n)"
  using dec_nat_digits [of n] by (simp add: parse_u64_def digits_value_undec undec_dec_nat)

lemma parse_u64_dec [simp]: "parse_u64 (dec (w :: u64)) = Some w"
  using parse_u64_dec_nat [of "unat w"] unat_below [of w] by (simp add: dec_def)

lemma parse_size_dec [simp]: "n < 18446744073709551616 \<Longrightarrow> parse_size (dec_nat n) = Some n"
  by (simp add: parse_size_def parse_u64_dec_nat unat_of_nat_u64)

lemma parse_kind_number [simp]: "parse_kind (dec (kind_number kind)) = Some kind"
proof -
  have "map digit_char [1, 2, 3, 4, 5] = ''12345''" by code_simp
  then show ?thesis
    by (cases kind) (simp_all add: parse_kind_def Let_def dec_def dec_nat.simps lower_def lower_char_def)
qed

section \<open>What a description means to the parser\<close>

definition word_of :: "string \<Rightarrow> ('a \<Rightarrow> string) \<Rightarrow> 'a option \<Rightarrow> query_word list" where
  "word_of name f bound = (case bound of None \<Rightarrow> [] | Some b \<Rightarrow> [(name, f b)])"

definition query_words :: "archive_query \<Rightarrow> query_word list" where
  "query_words query =
     word_of ''start_time_ns'' dec (aq_start_time_ns query) @
     word_of ''end_time_ns'' dec (aq_end_time_ns query) @
     word_of ''device'' dec (aq_device query) @
     word_of ''kind'' (\<lambda>kind. dec (kind_number kind)) (aq_kind query) @
     word_of ''min_payload_size'' dec_nat (aq_min_payload_size query) @
     word_of ''max_payload_size'' dec_nat (aq_max_payload_size query) @
     word_of ''limit'' dec_nat (if aq_limit query \<noteq> 0 then Some (aq_limit query) else None)"

lemma describe_words: "describe_query query = ''archive_query'' @ query_words_text (query_words query)"
  by (simp add: describe_query_def described_def query_words_def word_of_def query_words_text_def split: option.split)

lemma plain_query_words: "\<forall>w \<in> set (query_words query). plain_word (fst w) \<and> plain_word (snd w)"
  by (auto simp: query_words_def word_of_def dec_def plain_word_def [of "_ # _"] is_space_def split: option.splits)

lemma lower_keys [simp]:
  "lower ''start_time_ns'' = ''start_time_ns''" "lower ''end_time_ns'' = ''end_time_ns''"
  "lower ''device'' = ''device''" "lower ''kind'' = ''kind''" "lower ''limit'' = ''limit''"
  "lower ''min_payload_size'' = ''min_payload_size''" "lower ''max_payload_size'' = ''max_payload_size''"
  by (simp_all add: lower_def lower_char_def)

lemma plain_nonempty: "plain_word s \<Longrightarrow> s \<noteq> []"
  by (simp add: plain_word_def)

lemma dec_nonempty [simp]: "dec w \<noteq> []" "dec_nat n \<noteq> []"
  by (simp_all add: dec_def plain_nonempty)

lemmas use_word_defs = word_of_def word_token_def use_token_def apply_token_def set_or_complain_def

definition override :: "'a option \<Rightarrow> 'a option \<Rightarrow> 'a option" where
  "override old b = (case b of None \<Rightarrow> old | Some x \<Rightarrow> Some x)"

lemma override_None [simp]: "override None b = b"
  by (simp add: override_def split: option.split)

lemma use_words:
  fixes parsed :: parsed_query
  shows "fold use_token (map word_token (word_of ''start_time_ns'' dec b)) parsed =
     parsed\<lparr>pq_query := pq_query parsed\<lparr>aq_start_time_ns := override (aq_start_time_ns (pq_query parsed)) b\<rparr>\<rparr>"
  "fold use_token (map word_token (word_of ''end_time_ns'' dec b)) parsed =
     parsed\<lparr>pq_query := pq_query parsed\<lparr>aq_end_time_ns := override (aq_end_time_ns (pq_query parsed)) b\<rparr>\<rparr>"
  "fold use_token (map word_token (word_of ''device'' dec b)) parsed =
     parsed\<lparr>pq_query := pq_query parsed\<lparr>aq_device := override (aq_device (pq_query parsed)) b\<rparr>\<rparr>"
  "fold use_token (map word_token (word_of ''kind'' (\<lambda>kind. dec (kind_number kind)) kind)) parsed =
     parsed\<lparr>pq_query := pq_query parsed\<lparr>aq_kind := override (aq_kind (pq_query parsed)) kind\<rparr>\<rparr>"
  by (simp_all add: use_word_defs override_def split: option.split)

lemma use_size_words:
  fixes parsed :: parsed_query
  assumes "\<forall>x. n = Some x \<longrightarrow> x < 18446744073709551616"
  shows "fold use_token (map word_token (word_of ''min_payload_size'' dec_nat n)) parsed =
     parsed\<lparr>pq_query := pq_query parsed\<lparr>aq_min_payload_size := override (aq_min_payload_size (pq_query parsed)) n\<rparr>\<rparr>"
  "fold use_token (map word_token (word_of ''max_payload_size'' dec_nat n)) parsed =
     parsed\<lparr>pq_query := pq_query parsed\<lparr>aq_max_payload_size := override (aq_max_payload_size (pq_query parsed)) n\<rparr>\<rparr>"
  using assms by (simp_all add: use_word_defs override_def split: option.split)

lemma use_limit_word:
  fixes parsed :: parsed_query
  assumes "n < 18446744073709551616"
  shows "fold use_token (map word_token (word_of ''limit'' dec_nat (if n \<noteq> 0 then Some n else None))) parsed =
     parsed\<lparr>pq_query := pq_query parsed\<lparr>aq_limit := (if n \<noteq> 0 then n else aq_limit (pq_query parsed))\<rparr>\<rparr>"
  using assms by (simp add: use_word_defs)

text \<open>Bounds in order and sizes that fit \<open>size_t\<close>.\<close>

definition describable :: "archive_query \<Rightarrow> bool" where
  "describable query \<longleftrightarrow>
     (\<forall>a b. aq_start_time_ns query = Some a \<and> aq_end_time_ns query = Some b \<longrightarrow> a \<le> b) \<and>
     (\<forall>a b. aq_min_payload_size query = Some a \<and> aq_max_payload_size query = Some b \<longrightarrow> a \<le> b) \<and>
     (\<forall>n. aq_min_payload_size query = Some n \<or> aq_max_payload_size query = Some n \<or> aq_limit query = n \<longrightarrow>
        n < 18446744073709551616)"

lemma use_query_words:
  fixes query :: archive_query
  assumes "describable query" and "pq_query parsed = archive_query_default"
  shows "validate_query_ranges (fold use_token (map word_token (query_words query)) parsed) = parsed\<lparr>pq_query := query\<rparr>"
proof -
  have bounded: "\<forall>x. aq_min_payload_size query = Some x \<longrightarrow> x < 18446744073709551616"
    "\<forall>x. aq_max_payload_size query = Some x \<longrightarrow> x < 18446744073709551616" "aq_limit query < 18446744073709551616"
    using assms(1) by (auto simp: describable_def)
  have "fold use_token (map word_token (query_words query)) parsed = parsed\<lparr>pq_query := query\<rparr>"
    unfolding query_words_def map_append fold_append comp_apply use_words
      use_size_words [OF bounded(1)] use_size_words [OF bounded(2)] use_limit_word [OF bounded(3)]
    by (simp add: assms(2) archive_query_default_def)
  with assms(1) show ?thesis
    by (auto simp: validate_query_ranges_def describable_def Let_def not_less [symmetric] split: option.split)
qed

section \<open>Properties\<close>

text \<open>
  What \<open>describe_query\<close> prints of a query, its bounds in order, is read back by
  \<open>parse_archive_query\<close>: the words after the title give exactly the query and no diagnostic, and
  the whole line gives the query and only complains about the title.
\<close>

theorem query_text_roundtrip:
  assumes "describable query"
  shows "\<exists>fields. describe_query query = ''archive_query'' @ fields \<and>
    parse_archive_query fields =
      \<lparr>pq_query = query, pq_tokens = tokenize_query fields, pq_diagnostics = []\<rparr> \<and>
    pq_query (parse_archive_query (describe_query query)) = query \<and>
    pq_diagnostics (parse_archive_query (describe_query query)) =
      [\<lparr>qd_token = ''archive_query'', qd_message = ''query value is empty''\<rparr>]"
proof -
  let ?fields = "query_words_text (query_words query)"
  have tokens: "tokenize_query ?fields = map word_token (query_words query)"
    by (rule tokenize_words [OF plain_query_words])
  have "skip_spaces ?fields = [] \<or> hd (skip_spaces ?fields) \<noteq> CHR ''=''"
    using plain_query_words [of query]
    by (cases "query_words query") (auto simp: query_words_text_def skip_spaces_def elim!: plain_word_cons)
  moreover have "tokenize_query (skip_spaces ?fields) = tokenize_query ?fields"
    by (subst (1 2) tokenize_query.simps) (simp add: skip_spaces_def)
  moreover have "plain_word ''archive_query''" by (simp add: plain_word_def is_space_def)
  ultimately have "tokenize_query (''archive_query'' @ ?fields) =
      \<lparr>qt_key = ''archive_query'', qt_value = []\<rparr> # map word_token (query_words query)"
    using tokenize_bare_word [of "''archive_query''" ?fields] words_text_head [of "query_words query"] tokens
    by simp
  moreover have "use_token \<lparr>qt_key = ''archive_query'', qt_value = []\<rparr> parsed =
      parsed\<lparr>pq_diagnostics := pq_diagnostics parsed @ [\<lparr>qd_token = ''archive_query'', qd_message = ''query value is empty''\<rparr>]\<rparr>"
    for parsed by (simp add: use_token_def add_diagnostic_def)
  ultimately show ?thesis
    using tokens by (intro exI [of _ ?fields])
      (simp add: describe_words parse_archive_query_def use_query_words [OF assms])
qed

lemma query_text_roundtrip_witness:
  "pq_query (parse_archive_query (describe_query (beacon_query\<lparr>aq_start_time_ns := Some 3\<rparr>))) =
     beacon_query\<lparr>aq_start_time_ns := Some 3\<rparr>"
  using query_text_roundtrip [of "beacon_query\<lparr>aq_start_time_ns := Some 3\<rparr>"]
  by (auto simp: describable_def beacon_query_def archive_query_default_def)

end
