(* ===== verification/Manifest.thy ===== *)
theory Manifest
  imports Query Inspector
begin

text \<open>
  Archive manifests (\<open>src/storage/manifest.cpp\<close>). The functions \<open>find_device\<close> and \<open>update_device\<close>
  of that file are copies of the ones of \<open>query.cpp\<close>; theory \<open>Query\<close> models them. Files are a map
  from paths to their bytes: a path without bytes is one that cannot be opened for reading.
\<close>

section \<open>Data\<close>

record packet_kind_count =
  pk_kind :: packet_kind
  pk_count :: u64

record archive_manifest =
  am_summary :: archive_summary
  am_devices :: "device_archive_summary list"
  am_packet_kinds :: "packet_kind_count list"
  am_warnings :: "string list"

type_synonym archive_files = "string \<Rightarrow> bytes option"

definition open_archive :: "archive_files \<Rightarrow> string \<Rightarrow> error + archive_reader" where
  "open_archive files path =
     (case files path of
        None \<Rightarrow> Inl (Error EC_archive_corrupt ''failed to open archive for reading'')
      | Some contents \<Rightarrow> ar_open contents)"

section \<open>Building a manifest\<close>

definition fresh_kind_count :: "packet_kind \<Rightarrow> packet_kind_count" where
  "fresh_kind_count kind = \<lparr>pk_kind = kind, pk_count = 0\<rparr>"

definition record_kind :: "archive_record \<Rightarrow> packet_kind" where
  "record_kind r = p_kind (rec_packet r)"

definition count_kind :: "archive_record \<Rightarrow> packet_kind_count \<Rightarrow> packet_kind_count" where
  "count_kind r c = c\<lparr>pk_count := pk_count c + 1\<rparr>"

text \<open>The local variables of the loop over the records.\<close>

record manifest_scan =
  ms_observed_count :: u64
  ms_first_observed :: u64
  ms_last_observed :: u64
  ms_previous_time :: u64
  ms_devices :: "device_archive_summary list"
  ms_kinds :: "packet_kind_count list"
  ms_warnings :: "string list"

definition manifest_scan_start :: manifest_scan where
  "manifest_scan_start = \<lparr>ms_observed_count = 0, ms_first_observed = 0, ms_last_observed = 0,
     ms_previous_time = 0, ms_devices = [], ms_kinds = [], ms_warnings = []\<rparr>"

definition unordered_warning :: string where
  "unordered_warning = ''archive records are not ordered by capture time''"

definition scan_record :: "archive_record \<Rightarrow> manifest_scan \<Rightarrow> manifest_scan" where
  "scan_record r s =
     (let t = rec_capture_time_ns r;
          s = (if ms_observed_count s = 0
               then s\<lparr>ms_first_observed := t, ms_last_observed := t\<rparr>
               else s\<lparr>ms_warnings := ms_warnings s @ (if t < ms_previous_time s then [unordered_warning] else []),
                      ms_first_observed := min (ms_first_observed s) t,
                      ms_last_observed := max (ms_last_observed s) t\<rparr>)
      in s\<lparr>ms_previous_time := t,
           ms_observed_count := ms_observed_count s + 1,
           ms_devices := tally_add record_device da_device fresh_device_summary update_device_summary r (ms_devices s),
           ms_kinds := tally_add record_kind pk_kind fresh_kind_count count_kind r (ms_kinds s)\<rparr>)"

definition sum_device_records :: "device_archive_summary list \<Rightarrow> u64" where
  "sum_device_records devices = (\<Sum>d\<leftarrow>devices. da_record_count d)"

definition sum_kind_records :: "packet_kind_count list \<Rightarrow> u64" where
  "sum_kind_records counts = (\<Sum>c\<leftarrow>counts. pk_count c)"

definition kind_order :: "packet_kind_count \<Rightarrow> int \<times> u8" where
  "kind_order c = (- uint (pk_count c), kind_number (pk_kind c))"

definition sort_manifest :: "archive_manifest \<Rightarrow> archive_manifest" where
  "sort_manifest m =
     m\<lparr>am_devices := sort_key device_order (am_devices m),
       am_packet_kinds := sort_key kind_order (am_packet_kinds m)\<rparr>"

definition validate_archive_manifest :: "archive_manifest \<Rightarrow> string list" where
  "validate_archive_manifest m =
     (let device_total = sum_device_records (am_devices m);
          kind_total = sum_kind_records (am_packet_kinds m);
          count = as_record_count (am_summary m)
      in (if device_total \<noteq> kind_total then [''device and packet-kind aggregates disagree''] else []) @
         (if count \<noteq> 0 \<and> device_total \<noteq> count
          then [''aggregate record count differs from archive summary''] else []) @
         (if count = 0 \<and> (am_devices m \<noteq> [] \<or> am_packet_kinds m \<noteq> [])
          then [''empty archive summary has non-empty aggregates''] else []) @
         concat (map (\<lambda>d.
           (if da_record_count d = 0 then [''device aggregate has zero records''] else []) @
           (if da_first_time_ns d > da_last_time_ns d
            then [''device aggregate has inverted time range''] else [])) (am_devices m)))"

definition header_warnings :: "archive_summary \<Rightarrow> manifest_scan \<Rightarrow> string list" where
  "header_warnings header s =
     (if ms_observed_count s \<noteq> as_record_count header
      then [''archive header record count differs from readable records''] else []) @
     (if ms_observed_count s \<noteq> 0 \<and> as_first_time_ns header \<noteq> ms_first_observed s
      then [''archive header first timestamp differs from readable records''] else []) @
     (if ms_observed_count s \<noteq> 0 \<and> as_last_time_ns header \<noteq> ms_last_observed s
      then [''archive header last timestamp differs from readable records''] else [])"

definition scanned_manifest :: "archive_summary \<Rightarrow> manifest_scan \<Rightarrow> archive_manifest" where
  "scanned_manifest header s =
     sort_manifest
       \<lparr>am_summary = \<lparr>as_format_version = as_format_version header, as_record_count = ms_observed_count s,
          as_first_time_ns = ms_first_observed s, as_last_time_ns = ms_last_observed s\<rparr>,
        am_devices = ms_devices s, am_packet_kinds = ms_kinds s,
        am_warnings = ms_warnings s @ header_warnings header s\<rparr>"

definition build_archive_manifest :: "archive_files \<Rightarrow> string \<Rightarrow> error + archive_manifest" where
  "build_archive_manifest files path =
     err_bind (open_archive files path) (\<lambda>reader. err_bind (ar_records reader) (\<lambda>records.
       let m = scanned_manifest (ar_summary reader) (fold scan_record records manifest_scan_start)
       in Inr (m\<lparr>am_warnings := am_warnings m @ validate_archive_manifest m\<rparr>)))"

definition render_archive_manifest :: "archive_manifest \<Rightarrow> string" where
  "render_archive_manifest m =
     ''archive_manifest'' @ newline @
     ''  records: '' @ dec (as_record_count (am_summary m)) @ newline @
     ''  first_time_ns: '' @ dec (as_first_time_ns (am_summary m)) @ newline @
     ''  last_time_ns: '' @ dec (as_last_time_ns (am_summary m)) @ newline @
     concat (map (\<lambda>d. ''  device: '' @ dec (da_device d) @
       '' records='' @ dec (da_record_count d) @
       '' first='' @ dec (da_first_time_ns d) @
       '' last='' @ dec (da_last_time_ns d) @
       '' payload_bytes='' @ dec (da_total_payload_bytes d) @ newline) (am_devices m)) @
     concat (map (\<lambda>c. ''  kind: '' @ packet_kind_name (pk_kind c) @
       '' records='' @ dec (pk_count c) @ newline) (am_packet_kinds m)) @
     concat (map (\<lambda>w. ''  warning: '' @ w @ newline) (am_warnings m))"

section \<open>What the scan computes\<close>

interpretation kind_counts: tally record_kind pk_kind fresh_kind_count count_kind
  by unfold_locales (simp_all add: fresh_kind_count_def count_kind_def)

lemma kind_count_run: "fold count_kind rs (fresh_kind_count k) = \<lparr>pk_kind = k, pk_count = of_nat (length rs)\<rparr>"
  by (induction rs rule: rev_induct) (simp_all add: count_kind_def fresh_kind_count_def)

text \<open>The number of places where a time is smaller than the one before it.\<close>

fun descents :: "u64 list \<Rightarrow> nat" where
  "descents (a # b # ts) = (if b < a then 1 else 0) + descents (b # ts)"
| "descents _ = 0"

lemma descents_snoc: "descents (ts @ [t]) = descents ts + (if ts \<noteq> [] \<and> t < last ts then 1 else 0)"
  by (induction ts rule: descents.induct) auto

definition scan_of :: "archive_record list \<Rightarrow> manifest_scan" where
  "scan_of rs = \<lparr>ms_observed_count = of_nat (length rs),
     ms_first_observed = (if rs = [] then 0 else Min (rec_capture_time_ns ` set rs)),
     ms_last_observed = (if rs = [] then 0 else Max (rec_capture_time_ns ` set rs)),
     ms_previous_time = (if rs = [] then 0 else rec_capture_time_ns (last rs)),
     ms_devices = tally_all record_device da_device fresh_device_summary update_device_summary rs,
     ms_kinds = tally_all record_kind pk_kind fresh_kind_count count_kind rs,
     ms_warnings = replicate (descents (map rec_capture_time_ns rs)) unordered_warning\<rparr>"

lemma of_nat_u64_zero: "n < 18446744073709551616 \<Longrightarrow> (of_nat n :: u64) = 0 \<longleftrightarrow> n = 0"
  by (simp add: word_unat_eq_iff unat_of_nat_u64)

lemma scan_of_snoc:
  assumes "length rs < 18446744073709551616"
  shows "scan_record r (scan_of rs) = scan_of (rs @ [r])"
proof (cases "rs = []")
  case True
  then show ?thesis by (simp add: scan_of_def scan_record_def tally_all_def Let_def)
next
  case False
  then have "(of_nat (length rs) :: u64) \<noteq> 0" using of_nat_u64_zero [OF assms] by simp
  with False show ?thesis
    by (simp add: scan_record_def scan_of_def Let_def descents_snoc last_map device_summaries.all_snoc
        kind_counts.all_snoc replicate_append_same min.commute max.commute ac_simps)
qed

lemma scan_records:
  "length rs < 18446744073709551616 \<Longrightarrow> fold scan_record rs manifest_scan_start = scan_of rs"
proof (induction rs rule: rev_induct)
  case Nil
  show ?case by (simp add: manifest_scan_start_def scan_of_def tally_all_def)
qed (simp add: scan_of_snoc)

section \<open>What a manifest says\<close>

lemma device_entry:
  assumes "s \<in> set (tally_all record_device da_device fresh_device_summary update_device_summary records)"
    and "length records < 18446744073709551616"
  shows "\<exists>rs. rs = filter (\<lambda>r. record_device r = da_device s) records \<and> rs \<noteq> [] \<and>
    s = \<lparr>da_device = da_device s, da_record_count = of_nat (length rs),
      da_first_time_ns = Min (rec_capture_time_ns ` set rs), da_last_time_ns = Max (rec_capture_time_ns ` set rs),
      da_total_payload_bytes = (\<Sum>r\<leftarrow>rs. of_nat (length (p_payload (rec_packet r))))\<rparr>"
proof -
  let ?rs = "filter (\<lambda>r. record_device r = da_device s) records"
  have "?rs \<noteq> []" using device_summaries.all_mem(2) [OF assms(1)] by (auto simp: filter_empty_conv)
  moreover have "length ?rs < 18446744073709551616"
    using assms(2) length_filter_le order.strict_trans1 by blast
  ultimately show ?thesis
    using device_summaries.all_mem(1) [OF assms(1)] device_summary_run [of ?rs "da_device s"] by simp
qed

lemma kind_entry:
  assumes "c \<in> set (tally_all record_kind pk_kind fresh_kind_count count_kind records)"
  shows "\<exists>rs. rs = filter (\<lambda>r. record_kind r = pk_kind c) records \<and> rs \<noteq> [] \<and> pk_count c = of_nat (length rs)"
proof -
  have "filter (\<lambda>r. record_kind r = pk_kind c) records \<noteq> []"
    using kind_counts.all_mem(2) [OF assms] by (auto simp: filter_empty_conv)
  moreover have "pk_count c = of_nat (length (filter (\<lambda>r. record_kind r = pk_kind c) records))"
    using arg_cong [OF kind_counts.all_mem(1) [OF assms], of pk_count] by (simp add: kind_count_run)
  ultimately show ?thesis by blast
qed

lemma sum_list_sort_key: "(\<Sum>x\<leftarrow>sort_key f xs. g x) = (\<Sum>x\<leftarrow>xs. g x :: 'a::comm_monoid_add)"
  by (metis mset_map mset_sort sum_mset_sum_list)

lemma device_count_sum:
  "sum_device_records (tally_all record_device da_device fresh_device_summary update_device_summary rs) = of_nat (length rs)"
  using device_summaries.all_sum [where measure = da_record_count and weight = "\<lambda>_. 1" and rs = rs]
  by (simp add: sum_device_records_def fresh_device_summary_def update_device_summary_def Let_def sum_list_triv)

lemma kind_count_sum:
  "sum_kind_records (tally_all record_kind pk_kind fresh_kind_count count_kind rs) = of_nat (length rs)"
  using kind_counts.all_sum [where measure = pk_count and weight = "\<lambda>_. 1" and rs = rs]
  by (simp add: sum_kind_records_def fresh_kind_count_def count_kind_def sum_list_triv)

definition time_span :: "archive_record list \<Rightarrow> u64 \<times> u64" where
  "time_span records = (if records = [] then (0, 0)
     else (Min (rec_capture_time_ns ` set records), Max (rec_capture_time_ns ` set records)))"

text \<open>A manifest whose numbers are those of the records.\<close>

definition manifest_of :: "archive_record list \<Rightarrow> archive_manifest \<Rightarrow> bool" where
  "manifest_of records m \<longleftrightarrow>
     as_record_count (am_summary m) = of_nat (length records) \<and>
     (as_first_time_ns (am_summary m), as_last_time_ns (am_summary m)) = time_span records \<and>
     distinct (map da_device (am_devices m)) \<and> da_device ` set (am_devices m) = record_device ` set records \<and>
     (\<forall>s \<in> set (am_devices m). \<exists>rs. rs = filter (\<lambda>r. record_device r = da_device s) records \<and>
        s = \<lparr>da_device = da_device s, da_record_count = of_nat (length rs),
          da_first_time_ns = Min (rec_capture_time_ns ` set rs), da_last_time_ns = Max (rec_capture_time_ns ` set rs),
          da_total_payload_bytes = (\<Sum>r\<leftarrow>rs. of_nat (length (p_payload (rec_packet r))))\<rparr>) \<and>
     distinct (map pk_kind (am_packet_kinds m)) \<and> pk_kind ` set (am_packet_kinds m) = record_kind ` set records \<and>
     (\<forall>c \<in> set (am_packet_kinds m).
        pk_count c = of_nat (length (filter (\<lambda>r. record_kind r = pk_kind c) records)))"

lemma scanned_manifest_of:
  assumes "length records < 18446744073709551616"
  shows "manifest_of records (scanned_manifest header (scan_of records))"
  using device_summaries.all_distinct [of records] device_summaries.all_keys [of records]
    kind_counts.all_distinct [of records] kind_counts.all_keys [of records]
    device_entry [OF _ assms] kind_entry [of _ records]
  by (simp add: manifest_of_def scanned_manifest_def sort_manifest_def scan_of_def time_span_def distinct_map)

lemma scanned_valid:
  assumes "length records < 18446744073709551616"
  shows "validate_archive_manifest (scanned_manifest header (scan_of records)) = []"
proof -
  have count: "sum_device_records (sort_key device_order xs) = sum_device_records xs"
    "sum_kind_records (sort_key kind_order ys) = sum_kind_records ys" for xs ys
    by (simp_all add: sum_device_records_def sum_kind_records_def sum_list_sort_key)
  have devices: "da_record_count d \<noteq> 0 \<and> \<not> da_last_time_ns d < da_first_time_ns d"
    if "d \<in> set (tally_all record_device da_device fresh_device_summary update_device_summary records)" for d
  proof -
    note entry = device_entry [OF that assms]
    obtain rs where rs: "rs = filter (\<lambda>r. record_device r = da_device d) records" "rs \<noteq> []"
      and d: "d = \<lparr>da_device = da_device d, da_record_count = of_nat (length rs),
        da_first_time_ns = Min (rec_capture_time_ns ` set rs), da_last_time_ns = Max (rec_capture_time_ns ` set rs),
        da_total_payload_bytes = (\<Sum>r\<leftarrow>rs. of_nat (length (p_payload (rec_packet r))))\<rparr>"
      using entry by blast
    have "length rs < 18446744073709551616" using assms rs(1) length_filter_le order.strict_trans1 by blast
    then have "(of_nat (length rs) :: u64) \<noteq> 0" using of_nat_u64_zero rs(2) by simp
    moreover have "Min (rec_capture_time_ns ` set rs) \<le> Max (rec_capture_time_ns ` set rs)"
      using rs(2) by (intro Min_le_iff [THEN iffD2] bexI [of _ "rec_capture_time_ns (hd rs)"]) auto
    ultimately show ?thesis by (subst (1 2 3) d) (simp add: not_less)
  qed
  have empty: "tally_all record_device da_device fresh_device_summary update_device_summary records = [] \<and>
      tally_all record_kind pk_kind fresh_kind_count count_kind records = []" if "(of_nat (length records) :: u64) = 0"
    using that of_nat_u64_zero [OF assms] by (simp add: tally_all_def)
  show ?thesis
    using devices empty
    by (auto simp: validate_archive_manifest_def scanned_manifest_def sort_manifest_def scan_of_def Let_def count
        device_count_sum kind_count_sum not_le)
qed

lemma build_manifest:
  assumes "open_archive files path = Inr reader" and "ar_records reader = Inr records"
    and "length records < 18446744073709551616"
  shows "build_archive_manifest files path = Inr (scanned_manifest (ar_summary reader) (scan_of records))"
  using assms by (simp add: build_archive_manifest_def scan_records scanned_valid Let_def)

lemma build_manifest_records:
  assumes "build_archive_manifest files path = Inr m"
  obtains contents reader records where "files path = Some contents" and "ar_open contents = Inr reader"
    and "ar_records reader = Inr records"
  using assms by (auto simp: build_archive_manifest_def open_archive_def err_bind_Inr_iff split: option.splits)

text \<open>
  C38. The manifest of a written archive is exact: the number and time span of its records, one
  entry for each device with count, span and payload bytes, one for each packet kind with its
  count, both ordered by falling count. It warns exactly once for every record that is older than
  its predecessor; none of the consistency warnings is ever given.
\<close>

theorem manifest_exact:
  assumes "files path = Some (archive_of cs)" and "storable cs" and "length cs < 18446744073709551616"
  shows "\<exists>m records. build_archive_manifest files path = Inr m \<and> map capture_of records = cs \<and>
    manifest_of records m \<and>
    sorted (map device_order (am_devices m)) \<and> sorted (map kind_order (am_packet_kinds m)) \<and>
    am_warnings m = replicate (descents (map fst cs)) unordered_warning"
proof -
  let ?rs = "records_from 36 cs"
  obtain reader where r: "ar_open (archive_of cs) = Inr reader" "ar_records reader = Inr ?rs"
    and header: "ar_summary reader = fold summary_add (map fst cs) archive_summary_default"
    using archive_read_back [OF assms(2)] by (auto simp: archive_of_def)
  have captures: "map capture_of ?rs = cs" by (rule records_from_captures)
  have len: "length ?rs = length cs" using arg_cong [OF captures, of length] by simp
  have times: "map rec_capture_time_ns ?rs = map fst cs" using arg_cong [OF captures, of "map fst"] by (simp add: comp_def)
  have build: "build_archive_manifest files path = Inr (scanned_manifest (ar_summary reader) (scan_of ?rs))"
    using assms(1,3) r by (intro build_manifest) (simp_all add: open_archive_def len)
  have "header_warnings (ar_summary reader) (scan_of ?rs) = []"
  proof (cases "cs = []")
    case True
    with len header show ?thesis by (simp add: header_warnings_def scan_of_def archive_summary_default_def)
  next
    case False
    have "rec_capture_time_ns ` set ?rs = fst ` set cs" using arg_cong [OF times, of set] by simp
    moreover have "?rs \<noteq> []" using False len by auto
    ultimately show ?thesis
      using False assms(3) summary_captures [of "map fst cs"]
      by (simp add: header_warnings_def scan_of_def header len)
  qed
  then have "am_warnings (scanned_manifest (ar_summary reader) (scan_of ?rs)) =
      replicate (descents (map fst cs)) unordered_warning"
    by (simp add: scanned_manifest_def sort_manifest_def) (simp add: scan_of_def times)
  moreover have "sorted (map device_order (am_devices (scanned_manifest (ar_summary reader) (scan_of ?rs))))"
    "sorted (map kind_order (am_packet_kinds (scanned_manifest (ar_summary reader) (scan_of ?rs))))"
    using sorted_sort_key by (simp_all add: scanned_manifest_def sort_manifest_def)
  ultimately show ?thesis
    using build captures scanned_manifest_of [of ?rs] assms(3) len by auto
qed

definition sample_files :: archive_files where
  "sample_files = [''a.ath'' \<mapsto> archive_of sample_captures, ''b.ath'' \<mapsto> archive_of []]"

lemma manifest_exact_witness:
  "\<exists>m. build_archive_manifest sample_files ''a.ath'' = Inr m \<and> as_record_count (am_summary m) = 2 \<and>
     da_device ` set (am_devices m) = {7} \<and> am_warnings m = [unordered_warning]"
proof -
  have descent: "descents (map fst sample_captures) = 1" by (simp add: sample_captures_def)
  have contents: "sample_files ''a.ath'' = Some (archive_of sample_captures)" by (simp add: sample_files_def)
  obtain m records where m: "build_archive_manifest sample_files ''a.ath'' = Inr m" "map capture_of records = sample_captures"
    "manifest_of records m" "am_warnings m = [unordered_warning]"
    using manifest_exact [where files = sample_files, OF contents sample_storable] descent by (auto simp: sample_count)
  have "length records = 2" using arg_cong [OF m(2), of length] by (simp add: sample_count)
  moreover have "record_device ` set records = (p_device \<circ> snd) ` set sample_captures"
    unfolding m(2) [symmetric] by (auto simp: record_device_def image_iff)
  then have "record_device ` set records = {7}" by (simp add: sample_captures_def sample_packet_def beacon_def)
  ultimately show ?thesis using m by (auto simp: manifest_of_def)
qed

end
