(* ===== verification/Catalog.thy ===== *)
theory Catalog
  imports "HOL-Library.Char_ord" "HOL-Library.List_Lexorder" Manifest
begin

text \<open>
  The archive catalog (\<open>src/storage/catalog.cpp\<close>): manifests by path, in time order. Paths are
  strings; two are equal as \<open>std::filesystem::path\<close> values when their root and their elements are,
  so that repeated separators do not matter. \<open>std::sort\<close> is modelled as a stable sort.
\<close>

section \<open>Paths\<close>

fun split_slash :: "string \<Rightarrow> string list" where
  "split_slash [] = [[]]"
| "split_slash (c # cs) =
     (if c = CHR ''/'' then [] # split_slash cs
      else (case split_slash cs of [] \<Rightarrow> [[c]] | part # parts \<Rightarrow> (c # part) # parts))"

definition path_elements :: "string \<Rightarrow> bool \<times> string list" where
  "path_elements p =
     (let names = filter (\<lambda>name. name \<noteq> []) (split_slash p)
      in (p \<noteq> [] \<and> hd p = CHR ''/'', names @ (if names \<noteq> [] \<and> last p = CHR ''/'' then [[]] else [])))"

definition path_eq :: "string \<Rightarrow> string \<Rightarrow> bool" where
  "path_eq p q \<longleftrightarrow> path_elements p = path_elements q"

text \<open>\<open>operator/\<close> of paths: an absolute right operand replaces the left one.\<close>

definition path_join :: "string \<Rightarrow> string \<Rightarrow> string" where
  "path_join directory name =
     (if name \<noteq> [] \<and> hd name = CHR ''/'' then name
      else if directory = [] \<or> last directory = CHR ''/'' then directory @ name
      else directory @ ''/'' @ name)"

section \<open>Data\<close>

record catalog_entry =
  ce_path :: string
  ce_manifest :: archive_manifest

record catalog_summary =
  cs_archive_count :: u64
  cs_record_count :: u64
  cs_device_count :: u64
  cs_first_time_ns :: u64
  cs_last_time_ns :: u64

definition catalog_summary_default :: catalog_summary where
  "catalog_summary_default = \<lparr>cs_archive_count = 0, cs_record_count = 0, cs_device_count = 0,
     cs_first_time_ns = 0, cs_last_time_ns = 0\<rparr>"

type_synonym archive_catalog = "catalog_entry list"

abbreviation ce_summary :: "catalog_entry \<Rightarrow> archive_summary" where
  "ce_summary entry \<equiv> am_summary (ce_manifest entry)"

section \<open>Operations\<close>

definition overlaps_query_time :: "archive_manifest \<Rightarrow> archive_query \<Rightarrow> bool" where
  "overlaps_query_time m query \<longleftrightarrow>
     \<not> (case aq_start_time_ns query of None \<Rightarrow> False | Some a \<Rightarrow> as_last_time_ns (am_summary m) < a) \<and>
     \<not> (case aq_end_time_ns query of None \<Rightarrow> False | Some b \<Rightarrow> as_first_time_ns (am_summary m) > b)"

definition contains_device :: "archive_manifest \<Rightarrow> device_id \<Rightarrow> bool" where
  "contains_device m device \<longleftrightarrow> list_ex (\<lambda>s. da_device s = device) (am_devices m)"

definition contains_kind :: "archive_manifest \<Rightarrow> packet_kind \<Rightarrow> bool" where
  "contains_kind m kind \<longleftrightarrow> list_ex (\<lambda>c. pk_kind c = kind) (am_packet_kinds m)"

definition entry_order :: "catalog_entry \<Rightarrow> u64 \<times> string" where
  "entry_order entry = (as_first_time_ns (ce_summary entry), ce_path entry)"

definition sort_entries :: "catalog_entry list \<Rightarrow> catalog_entry list" where
  "sort_entries entries = sort_key entry_order entries"

definition cat_remove :: "string \<Rightarrow> archive_catalog \<Rightarrow> archive_catalog" where
  "cat_remove path catalog = filter (\<lambda>entry. \<not> path_eq (ce_path entry) path) catalog"

definition cat_add :: "catalog_entry \<Rightarrow> archive_catalog \<Rightarrow> archive_catalog" where
  "cat_add entry catalog = sort_entries (cat_remove (ce_path entry) catalog @ [entry])"

definition cat_clear :: "archive_catalog \<Rightarrow> archive_catalog" where
  "cat_clear catalog = []"

text \<open>The loop of \<open>summary\<close>: the summary, the set of devices and \<open>have_time\<close>.\<close>

definition summarize_entry ::
  "catalog_entry \<Rightarrow> catalog_summary \<times> device_id set \<times> bool \<Rightarrow> catalog_summary \<times> device_id set \<times> bool" where
  "summarize_entry entry state =
     (let (s, devices, have_time) = state;
          a = ce_summary entry;
          s = s\<lparr>cs_record_count := cs_record_count s + as_record_count a\<rparr>;
          devices = fold insert (map da_device (am_devices (ce_manifest entry))) devices
      in if as_record_count a = 0 then (s, devices, have_time)
         else if \<not> have_time
         then (s\<lparr>cs_first_time_ns := as_first_time_ns a, cs_last_time_ns := as_last_time_ns a\<rparr>, devices, True)
         else (s\<lparr>cs_first_time_ns := min (cs_first_time_ns s) (as_first_time_ns a),
                 cs_last_time_ns := max (cs_last_time_ns s) (as_last_time_ns a)\<rparr>, devices, have_time))"

definition cat_summary :: "archive_catalog \<Rightarrow> catalog_summary" where
  "cat_summary catalog =
     (let start = catalog_summary_default\<lparr>cs_archive_count := of_nat (length catalog)\<rparr>;
          (s, devices, have_time) = fold summarize_entry catalog (start, {}, False)
      in s\<lparr>cs_device_count := of_nat (card devices)\<rparr>)"

definition entry_selected :: "archive_query \<Rightarrow> catalog_entry \<Rightarrow> bool" where
  "entry_selected query entry \<longleftrightarrow>
     overlaps_query_time (ce_manifest entry) query \<and>
     (case aq_device query of None \<Rightarrow> True | Some device \<Rightarrow> contains_device (ce_manifest entry) device) \<and>
     (case aq_kind query of None \<Rightarrow> True | Some kind \<Rightarrow> contains_kind (ce_manifest entry) kind)"

fun select_loop :: "archive_query \<Rightarrow> catalog_entry list \<Rightarrow> catalog_entry list \<Rightarrow> catalog_entry list" where
  "select_loop query selected [] = selected"
| "select_loop query selected (entry # entries) =
     (if \<not> entry_selected query entry then select_loop query selected entries
      else let selected = selected @ [entry]
           in if aq_limit query \<noteq> 0 \<and> length selected \<ge> aq_limit query then selected
              else select_loop query selected entries)"

definition cat_select :: "archive_query \<Rightarrow> archive_catalog \<Rightarrow> catalog_entry list" where
  "cat_select query catalog = select_loop query [] catalog"

definition find_covering_time :: "u64 \<Rightarrow> archive_catalog \<Rightarrow> catalog_entry option" where
  "find_covering_time t catalog =
     find (\<lambda>entry. as_record_count (ce_summary entry) \<noteq> 0 \<and>
       as_first_time_ns (ce_summary entry) \<le> t \<and> as_last_time_ns (ce_summary entry) \<ge> t) catalog"

fun build_catalog_from :: "archive_files \<Rightarrow> archive_catalog \<Rightarrow> string list \<Rightarrow> error + archive_catalog" where
  "build_catalog_from files catalog [] = Inr catalog"
| "build_catalog_from files catalog (path # paths) =
     err_bind (build_archive_manifest files path) (\<lambda>m.
       build_catalog_from files (cat_add \<lparr>ce_path = path, ce_manifest = m\<rparr> catalog) paths)"

definition build_catalog :: "archive_files \<Rightarrow> string list \<Rightarrow> error + archive_catalog" where
  "build_catalog files paths = build_catalog_from files [] paths"

definition render_catalog_summary :: "catalog_summary \<Rightarrow> string" where
  "render_catalog_summary s =
     ''archive_catalog'' @ newline @
     ''  archives: '' @ dec (cs_archive_count s) @ newline @
     ''  records: '' @ dec (cs_record_count s) @ newline @
     ''  devices: '' @ dec (cs_device_count s) @ newline @
     ''  first_time_ns: '' @ dec (cs_first_time_ns s) @ newline @
     ''  last_time_ns: '' @ dec (cs_last_time_ns s) @ newline"

definition render_catalog_entries :: "archive_catalog \<Rightarrow> string" where
  "render_catalog_entries catalog =
     render_catalog_summary (cat_summary catalog) @
     concat (map (\<lambda>entry. ''  entry: '' @ ce_path entry @
       '' records='' @ dec (as_record_count (ce_summary entry)) @
       '' first='' @ dec (as_first_time_ns (ce_summary entry)) @
       '' last='' @ dec (as_last_time_ns (ce_summary entry)) @ newline) catalog)"

section \<open>The catalog in order\<close>

text \<open>No two entries have the same path, and the entries are in the order of \<open>entry_order\<close>.\<close>

definition catalog_ok :: "archive_catalog \<Rightarrow> bool" where
  "catalog_ok catalog \<longleftrightarrow>
     distinct (map (path_elements \<circ> ce_path) catalog) \<and> sorted (map entry_order catalog)"

datatype catalog_call = CC_add catalog_entry | CC_remove string | CC_clear

fun cat_call :: "catalog_call \<Rightarrow> archive_catalog \<Rightarrow> archive_catalog" where
  "cat_call (CC_add entry) catalog = cat_add entry catalog"
| "cat_call (CC_remove path) catalog = cat_remove path catalog"
| "cat_call CC_clear catalog = cat_clear catalog"

lemma set_cat_add:
  "set (cat_add entry catalog) = insert entry {e \<in> set catalog. \<not> path_eq (ce_path e) (ce_path entry)}"
  by (auto simp: cat_add_def sort_entries_def cat_remove_def)

lemma distinct_sort_key: "distinct (map f (sort_key k xs)) = distinct (map f xs)"
  by (simp add: distinct_map)

lemma cat_call_ok: "catalog_ok catalog \<Longrightarrow> catalog_ok (cat_call call catalog)"
proof (cases call)
  case (CC_add entry)
  assume "catalog_ok catalog"
  then have "distinct (map (path_elements \<circ> ce_path) (cat_remove (ce_path entry) catalog))"
    by (auto simp: catalog_ok_def cat_remove_def distinct_map_filter)
  moreover have "path_elements (ce_path entry) \<notin> (path_elements \<circ> ce_path) ` set (cat_remove (ce_path entry) catalog)"
    by (auto simp: cat_remove_def path_eq_def)
  ultimately show ?thesis
    using CC_add sorted_sort_key [of entry_order]
    by (simp add: catalog_ok_def cat_add_def sort_entries_def distinct_sort_key)
qed (simp_all add: catalog_ok_def cat_remove_def cat_clear_def distinct_map_filter sorted_filter)

interpretation catalog_machine: state_machine "[]" cat_call catalog_ok
  by unfold_locales (simp add: catalog_ok_def, rule cat_call_ok)

text \<open>What the calls say about a path: the entry of the last call that concerns it.\<close>

fun tracked_entry :: "string \<Rightarrow> catalog_call list \<Rightarrow> catalog_entry option \<Rightarrow> catalog_entry option" where
  "tracked_entry path [] e = e"
| "tracked_entry path (CC_add entry # calls) e =
     tracked_entry path calls (if path_eq (ce_path entry) path then Some entry else e)"
| "tracked_entry path (CC_remove p # calls) e = tracked_entry path calls (if path_eq p path then None else e)"
| "tracked_entry path (CC_clear # calls) e = tracked_entry path calls None"

abbreviation entry_of :: "string \<Rightarrow> archive_catalog \<Rightarrow> catalog_entry option" where
  "entry_of path catalog \<equiv> find (\<lambda>entry. path_eq (ce_path entry) path) catalog"

lemma entry_of_iff:
  assumes "distinct (map (path_elements \<circ> ce_path) catalog)"
  shows "entry_of path catalog = Some e \<longleftrightarrow> e \<in> set catalog \<and> path_eq (ce_path e) path"
  using assms by (induction catalog) (auto simp: path_eq_def image_iff)

lemma path_eq_trans: "path_eq p q \<Longrightarrow> path_eq p r \<longleftrightarrow> path_eq q r"
  by (simp add: path_eq_def)

lemma entry_of_call:
  assumes "catalog_ok catalog"
  shows "entry_of path (cat_call call catalog) = tracked_entry path [call] (entry_of path catalog)"
proof -
  have ok: "catalog_ok (cat_call call catalog)" using assms by (rule cat_call_ok)
  have same: "entry_of path (cat_call call catalog) = Some e \<longleftrightarrow>
      tracked_entry path [call] (entry_of path catalog) = Some e" for e
  proof (cases call)
    case (CC_add entry)
    then show ?thesis
      using entry_of_iff [of "cat_call call catalog" path e] entry_of_iff [of catalog path e] assms ok
      by (auto simp: catalog_ok_def set_cat_add) (auto simp: path_eq_def)
  next
    case (CC_remove p)
    then show ?thesis
      using entry_of_iff [of "cat_call call catalog" path e] entry_of_iff [of catalog path e] assms ok
      by (auto simp: catalog_ok_def cat_remove_def) (auto simp: path_eq_def)
  qed (simp add: cat_clear_def)
  then show ?thesis by (metis not_Some_eq)
qed

lemma tracked_entry_append: "tracked_entry path (xs @ ys) e = tracked_entry path ys (tracked_entry path xs e)"
  by (induction path xs e rule: tracked_entry.induct) simp_all

lemma entry_of_run: "entry_of path (fold cat_call calls []) = tracked_entry path calls None"
proof (induction calls rule: rev_induct)
  case (snoc call calls)
  then show ?case
    using entry_of_call [OF catalog_machine.inv_run, of path call calls] by (simp add: tracked_entry_append)
qed simp

text \<open>
  After any calls of \<open>add\<close>, \<open>remove\<close> and \<open>clear\<close> the catalog is in the order of first time and
  path, holds each path once, and has for each path, however its separators are written, the entry
  added last unless the path was removed since.
\<close>

theorem catalog_tracks_calls:
  "catalog_ok (fold cat_call calls []) \<and>
   find (\<lambda>entry. path_eq (ce_path entry) path) (fold cat_call calls []) = tracked_entry path calls None"
  using catalog_machine.inv_run entry_of_run by blast

section \<open>Selecting archives\<close>

lemma select_loop_limited:
  "aq_limit query = 0 \<or> length out < aq_limit query \<Longrightarrow>
   select_loop query out entries = limited (aq_limit query) (out @ filter (entry_selected query) entries)"
  by (induction query out entries rule: select_loop.induct) (auto simp: Let_def limited_def not_le take_Cons')

lemma cat_select_limited: "cat_select query catalog = limited (aq_limit query) (filter (entry_selected query) catalog)"
  using select_loop_limited [of query "[]" catalog] by (cases "aq_limit query = 0") (simp_all add: cat_select_def)

lemma records_bounded:
  "ar_records reader = Inr records \<Longrightarrow> length records \<le> length (ar_file reader) - ar_pos reader"
proof (induction records arbitrary: reader)
  case (Cons r rs)
  then obtain reader' where nx: "ar_next reader = (Inr (Some r), reader')" and "ar_records reader' = Inr rs"
    by (blast elim: ar_records_Cons)
  with Cons.IH have "length rs \<le> length (ar_file reader') - ar_pos reader'" by blast
  moreover have step: "ar_file reader' = ar_file reader" "ar_pos reader < ar_pos reader'" "ar_pos reader' \<le> length (ar_file reader)"
    using ar_next_progress [OF nx] by simp_all
  ultimately have "length rs + ar_pos reader' \<le> length (ar_file reader)" by simp
  with step(2) have "Suc (length rs) + ar_pos reader \<le> length (ar_file reader)" by simp
  then show ?case by simp
qed simp

lemma ar_open_file: "ar_open contents = Inr reader \<Longrightarrow> ar_file reader = contents"
  by (auto simp: ar_open_def ar_read_exact_def Let_def err_bind_Inr_iff split: if_splits sum.splits prod.splits)

lemma build_catalog_entries:
  assumes "build_catalog_from files catalog paths = Inr catalog'"
    and "\<forall>e \<in> set catalog. build_archive_manifest files (ce_path e) = Inr (ce_manifest e)"
  shows "\<forall>e \<in> set catalog'. build_archive_manifest files (ce_path e) = Inr (ce_manifest e)"
  using assms
proof (induction paths arbitrary: catalog)
  case (Cons p paths)
  then obtain m where m: "build_archive_manifest files p = Inr m"
    "build_catalog_from files (cat_add \<lparr>ce_path = p, ce_manifest = m\<rparr> catalog) paths = Inr catalog'"
    by (auto simp: err_bind_Inr_iff)
  then show ?case using Cons.prems(2) by (intro Cons.IH [OF m(2)]) (simp add: set_cat_add)
qed simp

lemma build_catalog_paths:
  assumes "build_catalog_from files catalog paths = Inr catalog'"
    and "path \<in> set paths \<or> (\<exists>e \<in> set catalog. path_eq (ce_path e) path)"
  shows "\<exists>e \<in> set catalog'. path_eq (ce_path e) path"
  using assms
proof (induction paths arbitrary: catalog)
  case (Cons p paths)
  then obtain m where m: "build_archive_manifest files p = Inr m"
    "build_catalog_from files (cat_add \<lparr>ce_path = p, ce_manifest = m\<rparr> catalog) paths = Inr catalog'"
    by (auto simp: err_bind_Inr_iff)
  have "path \<in> set paths \<or> (\<exists>e \<in> set (cat_add \<lparr>ce_path = p, ce_manifest = m\<rparr> catalog). path_eq (ce_path e) path)"
    using Cons.prems(2) by (auto simp: set_cat_add path_eq_def)
  with Cons.IH [OF m(2)] show ?case .
qed auto

lemma time_span_bounds:
  assumes "manifest_of records m" and "r \<in> set records"
  shows "as_first_time_ns (am_summary m) \<le> rec_capture_time_ns r"
    and "rec_capture_time_ns r \<le> as_last_time_ns (am_summary m)"
proof -
  have "(as_first_time_ns (am_summary m), as_last_time_ns (am_summary m)) = time_span records"
    using assms(1) by (simp only: manifest_of_def)
  moreover have "records \<noteq> []" using assms(2) by auto
  ultimately have "as_first_time_ns (am_summary m) = Min (rec_capture_time_ns ` set records)"
    "as_last_time_ns (am_summary m) = Max (rec_capture_time_ns ` set records)" by (simp_all add: time_span_def)
  with assms(2) show "as_first_time_ns (am_summary m) \<le> rec_capture_time_ns r"
    "rec_capture_time_ns r \<le> as_last_time_ns (am_summary m)" by simp_all
qed

lemma entry_selected_complete:
  assumes "manifest_of records m" and "r \<in> set records" and "record_accepted query r"
  shows "entry_selected query \<lparr>ce_path = path, ce_manifest = m\<rparr>"
proof -
  let ?t = "rec_capture_time_ns r"
  have "as_first_time_ns (am_summary m) \<le> ?t" "?t \<le> as_last_time_ns (am_summary m)"
    using time_span_bounds assms(1,2) by blast+
  then have "overlaps_query_time m query"
    using assms(3) by (auto simp: overlaps_query_time_def query_accepts_def bounded_by_def not_less split: option.splits)
  moreover have "record_device r \<in> da_device ` set (am_devices m)" "record_kind r \<in> pk_kind ` set (am_packet_kinds m)"
    using assms(1,2) by (simp_all add: manifest_of_def)
  ultimately show ?thesis
    using assms(3)
    by (auto simp: entry_selected_def query_accepts_def bounded_by_def contains_device_def contains_kind_def
        list_ex_iff record_device_def record_kind_def split: option.splits)
qed

lemma covering_complete:
  assumes "manifest_of records (ce_manifest e)" and "r \<in> set records" and "length records < 18446744073709551616"
    and "e \<in> set catalog"
  shows "find_covering_time (rec_capture_time_ns r) catalog \<noteq> None"
proof -
  have "as_record_count (ce_summary e) \<noteq> 0"
    using assms(1,2) of_nat_u64_zero [OF assms(3)] by (auto simp: manifest_of_def)
  moreover have "as_first_time_ns (ce_summary e) \<le> rec_capture_time_ns r" "rec_capture_time_ns r \<le> as_last_time_ns (ce_summary e)"
    using time_span_bounds assms(1,2) by blast+
  ultimately show ?thesis using assms(4) by (auto simp: find_covering_time_def find_None_iff)
qed

lemma catalog_manifest:
  assumes "build_catalog files paths = Inr catalog" and "e \<in> set catalog"
    and "files (ce_path e) = Some contents" and "length contents < 18446744073709551616"
  obtains reader records where "ar_open contents = Inr reader" and "ar_records reader = Inr records"
    and "length records < 18446744073709551616" and "manifest_of records (ce_manifest e)"
proof -
  have build: "build_archive_manifest files (ce_path e) = Inr (ce_manifest e)"
    using build_catalog_entries assms(1,2) by (auto simp: build_catalog_def)
  then obtain reader records where r: "ar_open contents = Inr reader" "ar_records reader = Inr records"
    using assms(3) by (auto elim!: build_manifest_records)
  have len: "length records < 18446744073709551616"
    using records_bounded [OF r(2)] ar_open_file [OF r(1)] assms(4) by simp
  have "open_archive files (ce_path e) = Inr reader" using assms(3) r(1) by (simp add: open_archive_def)
  from build_manifest [OF this r(2) len] build have "manifest_of records (ce_manifest e)"
    using scanned_manifest_of [OF len] by simp
  with r len that show ?thesis by blast
qed

text \<open>
  C39. Every path handed to \<open>build_catalog\<close> is in the catalog, and \<open>select\<close> without a limit never
  leaves out an archive in which the query finds a record. For a time at which some archive of the
  catalog has a record, \<open>find_covering_time\<close> gives an archive whose span contains the time.
\<close>

theorem catalog_finds_archives:
  assumes "build_catalog files paths = Inr catalog" and "aq_limit query = 0"
    and "e \<in> set catalog" and "files (ce_path e) = Some contents" and "length contents < 18446744073709551616"
    and "query_archive contents query = Inr result" and "r \<in> set (qr_records result)"
  shows "(\<forall>path \<in> set paths. \<exists>e' \<in> set catalog. path_eq (ce_path e') path) \<and>
    e \<in> set (cat_select query catalog) \<and>
    (\<exists>e'. find_covering_time (rec_capture_time_ns r) catalog = Some e' \<and> e' \<in> set catalog \<and>
       as_first_time_ns (ce_summary e') \<le> rec_capture_time_ns r \<and>
       rec_capture_time_ns r \<le> as_last_time_ns (ce_summary e'))"
proof -
  obtain reader records where m: "ar_open contents = Inr reader" "ar_records reader = Inr records"
    "length records < 18446744073709551616" "manifest_of records (ce_manifest e)"
    using catalog_manifest [OF assms(1,3-5)] .
  obtain result' where "query_archive contents query = Inr result'"
    "qr_records result' = filter (record_accepted query) records"
    using query_archive_all [OF m(1,2) assms(2)] .
  then have r: "r \<in> set records" "record_accepted query r" using assms(6,7) by simp_all
  have "entry_selected query e"
    using entry_selected_complete [OF m(4) r, of "ce_path e"] by (cases e) simp
  then have selected: "e \<in> set (cat_select query catalog)"
    using assms(2,3) by (simp add: cat_select_limited limited_def)
  obtain e' where e': "find_covering_time (rec_capture_time_ns r) catalog = Some e'"
    using covering_complete [OF m(4) r(1) m(3) assms(3)] by auto
  then have "e' \<in> set catalog \<and> as_first_time_ns (ce_summary e') \<le> rec_capture_time_ns r \<and>
      rec_capture_time_ns r \<le> as_last_time_ns (ce_summary e')"
    by (auto simp: find_covering_time_def find_Some_iff)
  with e' selected build_catalog_paths assms(1) show ?thesis by (auto simp: build_catalog_def)
qed

lemma manifest_exists:
  assumes "files path = Some (archive_of cs)" and "storable cs" and "length cs < 18446744073709551616"
  obtains m where "build_archive_manifest files path = Inr m"
proof -
  obtain reader where r: "ar_open (archive_of cs) = Inr reader" "ar_records reader = Inr (records_from 36 cs)"
    using archive_reads [OF assms(2)] .
  have "length (records_from 36 cs) < 18446744073709551616"
    using arg_cong [OF records_from_captures [of 36 cs], of length] assms(3) by simp
  with assms(1) r that show ?thesis using build_manifest [of files path reader] by (simp add: open_archive_def)
qed

lemma sample_archive_length: "length (archive_of sample_captures) < 18446744073709551616"
  using sample_storable append_all_good [OF _ storable_ok [OF sample_storable], of aw_open]
  by (simp add: archive_of_def aw_close_def aw_write_all_def aw_open_def overwrite_def sample_captures_def
      storable_def batchable_def capture_bytes_def)

lemma sample_catalog:
  obtains catalog where "build_catalog sample_files [''b.ath'', ''a.ath''] = Inr catalog"
proof -
  have "sample_files ''a.ath'' = Some (archive_of sample_captures)" "sample_files ''b.ath'' = Some (archive_of [])"
    by (simp_all add: sample_files_def)
  then obtain a b where "build_archive_manifest sample_files ''a.ath'' = Inr a"
    "build_archive_manifest sample_files ''b.ath'' = Inr b"
    using manifest_exists [of sample_files "''a.ath''" sample_captures] manifest_exists [of sample_files "''b.ath''" "[]"]
    by (metis sample_storable sample_count storable_def list.size(3) empty_iff empty_set
        numeral_less_iff semiring_norm(76,78) zero_less_numeral)
  with that show ?thesis by (simp add: build_catalog_def)
qed

lemma catalog_finds_archives_witness:
  "\<exists>catalog e. build_catalog sample_files [''b.ath'', ''a.ath''] = Inr catalog \<and> path_eq (ce_path e) ''a.ath'' \<and>
     e \<in> set (cat_select (beacon_query\<lparr>aq_limit := 0\<rparr>) catalog)"
proof -
  let ?q = "beacon_query\<lparr>aq_limit := 0\<rparr>"
  obtain catalog where cat: "build_catalog sample_files [''b.ath'', ''a.ath''] = Inr catalog" by (rule sample_catalog)
  obtain e where e: "e \<in> set catalog" "path_eq (ce_path e) ''a.ath''"
    using build_catalog_paths [OF cat [unfolded build_catalog_def], of "''a.ath''"] by auto
  have "build_archive_manifest sample_files (ce_path e) = Inr (ce_manifest e)"
    using build_catalog_entries [OF cat [unfolded build_catalog_def]] e(1) by simp
  then have "ce_path e \<in> {''a.ath'', ''b.ath''}"
    by (elim build_manifest_records) (auto simp: sample_files_def split: if_splits)
  moreover have "\<not> path_eq ''b.ath'' ''a.ath''" by code_simp
  ultimately have contents: "sample_files (ce_path e) = Some (archive_of sample_captures)"
    using e(2) by (auto simp: sample_files_def)
  obtain reader where r: "ar_open (archive_of sample_captures) = Inr reader"
    "ar_records reader = Inr (records_from 36 sample_captures)"
    using archive_reads [OF sample_storable] .
  obtain result where found: "query_archive (archive_of sample_captures) ?q = Inr result"
    "qr_records result = filter (record_accepted ?q) (records_from 36 sample_captures)"
    using query_archive_all [OF r, of ?q] by auto
  have "map capture_of (qr_records result) = [(3, beacon)]"
    using accepted_captures [of ?q 36 sample_captures] beacon_query_accepts
    by (simp add: found(2) query_accepts_def)
  then have "hd (qr_records result) \<in> set (qr_records result)" by (auto simp: map_eq_Cons_conv)
  from catalog_finds_archives [OF cat _ e(1) contents sample_archive_length found(1) this]
  have "e \<in> set (cat_select ?q catalog)" by simp
  with cat e(2) show ?thesis by (intro exI conjI)
qed

end
