(* ===== verification/Segment.thy ===== *)
theory Segment
  imports Catalog
begin

text \<open>
  Segments (\<open>src/storage/segment.cpp\<close>): time is cut into ranges of equal width, and the plan lists
  for each range the archives of a catalog that reach into it. The loop over the ranges of an
  archive is a partial function: that it returns is proved.
\<close>

section \<open>Data\<close>

record segment_naming =
  sg_prefix :: string
  sg_extension :: string
  sg_width_ns :: u64

definition segment_naming_default :: segment_naming where
  "segment_naming_default = \<lparr>sg_prefix = ''aethon'', sg_extension = ''.ath'', sg_width_ns = 3600000000000\<rparr>"

record segment_range =
  sr_start_time_ns :: u64
  sr_end_time_ns :: u64

record segment_plan_entry =
  sp_range :: segment_range
  sp_path :: string
  sp_sources :: "string list"

type_synonym segment_plan = "segment_plan_entry list"

section \<open>Operations\<close>

definition padded_time :: "u64 \<Rightarrow> string" where
  "padded_time t = replicate (20 - length (dec t)) CHR ''0'' @ dec t"

definition segment_width :: "segment_naming \<Rightarrow> u64" where
  "segment_width naming = (if sg_width_ns naming = 0 then 1 else sg_width_ns naming)"

definition segment_for_time :: "u64 \<Rightarrow> segment_naming \<Rightarrow> segment_range" where
  "segment_for_time t naming =
     (let width = segment_width naming; start = (t div width) * width
      in \<lparr>sr_start_time_ns = start, sr_end_time_ns = start + width - 1\<rparr>)"

definition segment_path :: "string \<Rightarrow> segment_range \<Rightarrow> segment_naming \<Rightarrow> string" where
  "segment_path directory r naming =
     path_join directory
       (sg_prefix naming @ ''-'' @ padded_time (sr_start_time_ns r) @ ''-'' @
        padded_time (sr_end_time_ns r) @ sg_extension naming)"

text \<open>\<open>find_entry\<close>, and what the loop does with the entry found or with a new one.\<close>

fun note_segment ::
  "string \<Rightarrow> segment_naming \<Rightarrow> string \<Rightarrow> segment_range \<Rightarrow> segment_plan \<Rightarrow> segment_plan" where
  "note_segment directory naming source r [] =
     [\<lparr>sp_range = r, sp_path = segment_path directory r naming, sp_sources = [source]\<rparr>]"
| "note_segment directory naming source r (entry # entries) =
     (if sr_start_time_ns (sp_range entry) = sr_start_time_ns r \<and> sr_end_time_ns (sp_range entry) = sr_end_time_ns r
      then entry\<lparr>sp_sources := sp_sources entry @ [source]\<rparr> # entries
      else entry # note_segment directory naming source r entries)"

partial_function (option) segment_loop ::
  "string \<Rightarrow> segment_naming \<Rightarrow> string \<Rightarrow> u64 \<Rightarrow> u64 \<Rightarrow> segment_plan \<Rightarrow> segment_plan option" where
  "segment_loop directory naming source start stop plan =
     (if \<not> start \<le> stop then Some plan
      else let plan = note_segment directory naming source (segment_for_time start naming) plan
           in if start = stop then Some plan
              else segment_loop directory naming source (start + segment_width naming) stop plan)"

definition plan_entry :: "string \<Rightarrow> segment_naming \<Rightarrow> catalog_entry \<Rightarrow> segment_plan \<Rightarrow> segment_plan option" where
  "plan_entry directory naming entry plan =
     (if as_record_count (ce_summary entry) = 0 then Some plan
      else let first = segment_for_time (as_first_time_ns (ce_summary entry)) naming;
               last = segment_for_time (as_last_time_ns (ce_summary entry)) naming
           in segment_loop directory naming (ce_path entry) (sr_start_time_ns first) (sr_start_time_ns last) plan)"

fun plan_entries :: "string \<Rightarrow> segment_naming \<Rightarrow> archive_catalog \<Rightarrow> segment_plan \<Rightarrow> segment_plan option" where
  "plan_entries directory naming [] plan = Some plan"
| "plan_entries directory naming (entry # entries) plan =
     (case plan_entry directory naming entry plan of
        None \<Rightarrow> None
      | Some plan \<Rightarrow> plan_entries directory naming entries plan)"

definition plan_segments :: "archive_catalog \<Rightarrow> string \<Rightarrow> segment_naming \<Rightarrow> segment_plan option" where
  "plan_segments catalog directory naming =
     (case plan_entries directory naming catalog [] of
        None \<Rightarrow> None
      | Some plan \<Rightarrow> Some (sort_key (sr_start_time_ns \<circ> sp_range) plan))"

definition render_segment_plan :: "segment_plan \<Rightarrow> string" where
  "render_segment_plan plan =
     ''segment_plan'' @ newline @
     ''  entries: '' @ dec_nat (length plan) @ newline @
     concat (map (\<lambda>entry. ''  segment: '' @ sp_path entry @
       '' start='' @ dec (sr_start_time_ns (sp_range entry)) @
       '' end='' @ dec (sr_end_time_ns (sp_range entry)) @
       '' sources='' @ dec_nat (length (sp_sources entry)) @ newline @
       concat (map (\<lambda>source. ''    source: '' @ source @ newline) (sp_sources entry))) plan)"

section \<open>The ranges\<close>

lemma segment_width_pos: "0 < unat (segment_width naming)"
  by (simp add: segment_width_def unat_gt_0)

definition segment_start :: "segment_naming \<Rightarrow> u64 \<Rightarrow> u64" where
  "segment_start naming t = sr_start_time_ns (segment_for_time t naming)"

lemma unat_segment_start:
  "unat (segment_start naming t) = unat t div unat (segment_width naming) * unat (segment_width naming)"
proof -
  let ?w = "unat (segment_width naming)"
  have "unat t div ?w * ?w \<le> unat t" by (rule div_times_less_eq_dividend)
  then have "unat t div ?w * ?w < 2 ^ LENGTH(64)" using unat_below [of t] by (rule le_less_trans)
  then have "unat (t div segment_width naming) * ?w < 2 ^ LENGTH(64)" by (simp add: unat_div)
  then have "unat (t div segment_width naming * segment_width naming) = unat (t div segment_width naming) * ?w"
    by (rule unat_mult_lem [THEN iffD1])
  then show ?thesis by (simp add: segment_start_def segment_for_time_def Let_def unat_div)
qed

text \<open>A time lies in its range: the end of the range may have wrapped, its width has not.\<close>

lemma segment_start_le: "segment_start naming t \<le> t"
  by (simp add: word_le_nat_alt unat_segment_start)

lemma segment_start_idem: "segment_start naming (segment_start naming t) = segment_start naming t"
  by (simp add: word_unat_eq_iff unat_segment_start segment_width_pos [THEN gr_implies_not0])

lemma in_segment_iff:
  "segment_start naming t = s \<longleftrightarrow> segment_start naming s = s \<and> s \<le> t \<and> t - s < segment_width naming"
proof -
  let ?w = "unat (segment_width naming)"
  have w: "0 < ?w" by (rule segment_width_pos)
  show ?thesis
  proof
    assume s: "segment_start naming t = s"
    have le: "s \<le> t" using segment_start_le s by blast
    have "unat t - unat s = unat t mod ?w"
      using s unat_segment_start [of naming t] by (metis minus_div_mult_eq_mod)
    then have "unat (t - s) < ?w" using le w by (simp add: unat_sub)
    with le s segment_start_idem [of naming t] show "segment_start naming s = s \<and> s \<le> t \<and> t - s < segment_width naming"
      by (simp add: word_less_nat_alt)
  next
    assume s: "segment_start naming s = s \<and> s \<le> t \<and> t - s < segment_width naming"
    then have "unat t - unat s < ?w" "unat s \<le> unat t"
      by (auto simp: word_less_nat_alt word_le_nat_alt unat_sub)
    moreover obtain k where "unat s = k * ?w" using s unat_segment_start [of naming s] by metis
    ultimately have "unat t div ?w = k"
      using w by (intro div_nat_eqI) (auto simp: algebra_simps)
    with \<open>unat s = k * ?w\<close> show "segment_start naming t = s"
      by (simp add: word_unat_eq_iff unat_segment_start)
  qed
qed

lemma segment_start_mono: "a \<le> b \<Longrightarrow> segment_start naming a \<le> segment_start naming b"
  by (simp add: word_le_nat_alt unat_segment_start div_le_mono)

lemma next_segment:
  assumes "segment_start naming a = a" and "segment_start naming b = b" and "a < b"
  shows "unat (a + segment_width naming) = unat a + unat (segment_width naming)"
    and "a + segment_width naming \<le> b" and "segment_start naming (a + segment_width naming) = a + segment_width naming"
proof -
  let ?w = "unat (segment_width naming)"
  obtain j k where j: "unat a = j * ?w" and k: "unat b = k * ?w"
    using assms(1,2) unat_segment_start by metis
  have "j < k" using assms(3) j k by (simp add: word_less_nat_alt)
  then have "Suc j * ?w \<le> k * ?w" by (intro mult_le_mono1) simp
  then have le: "unat a + ?w \<le> unat b" using j k by simp
  then have "unat a + ?w < 2 ^ LENGTH(64)" using unat_below [of b] by (rule le_less_trans)
  then show sum: "unat (a + segment_width naming) = unat a + ?w" by (rule unat_add_lem [THEN iffD1])
  with le show "a + segment_width naming \<le> b" by (simp add: word_le_nat_alt)
  show "segment_start naming (a + segment_width naming) = a + segment_width naming"
    using segment_width_pos [of naming] j by (simp add: word_unat_eq_iff unat_segment_start sum)
qed

section \<open>The plan\<close>

abbreviation sp_start :: "segment_plan_entry \<Rightarrow> u64" where
  "sp_start e \<equiv> sr_start_time_ns (sp_range e)"

definition segment_entry_ok :: "string \<Rightarrow> segment_naming \<Rightarrow> segment_plan_entry \<Rightarrow> bool" where
  "segment_entry_ok directory naming e \<longleftrightarrow>
     segment_start naming (sp_start e) = sp_start e \<and>
     sp_range e = segment_for_time (sp_start e) naming \<and>
     sp_path e = segment_path directory (sp_range e) naming"

definition segment_plan_ok :: "string \<Rightarrow> segment_naming \<Rightarrow> segment_plan \<Rightarrow> bool" where
  "segment_plan_ok directory naming plan \<longleftrightarrow>
     distinct (map sp_start plan) \<and> (\<forall>e \<in> set plan. segment_entry_ok directory naming e)"

definition segment_lists :: "segment_plan \<Rightarrow> u64 \<Rightarrow> string \<Rightarrow> bool" where
  "segment_lists plan s source \<longleftrightarrow> (\<exists>e \<in> set plan. sp_start e = s \<and> source \<in> set (sp_sources e))"

lemma segment_lists_simps [simp]:
  "\<not> segment_lists [] s source"
  "segment_lists (e # plan) s source \<longleftrightarrow> sp_start e = s \<and> source \<in> set (sp_sources e) \<or> segment_lists plan s source"
  by (auto simp: segment_lists_def)

lemma segment_for_start: "segment_start naming s = s \<Longrightarrow> sr_start_time_ns (segment_for_time s naming) = s"
  by (simp add: segment_start_def)

lemma note_segment_starts:
  assumes "segment_start naming s = s" and "\<forall>e \<in> set plan. segment_entry_ok directory naming e"
  shows "sp_start ` set (note_segment directory naming source (segment_for_time s naming) plan) =
    insert s (sp_start ` set plan)"
  using assms
  by (induction plan) (auto simp: segment_for_start segment_entry_ok_def)

lemma note_segment_lists:
  assumes "segment_start naming s = s" and "\<forall>e \<in> set plan. segment_entry_ok directory naming e"
  shows "segment_lists (note_segment directory naming source (segment_for_time s naming) plan) s' source' \<longleftrightarrow>
    segment_lists plan s' source' \<or> s' = s \<and> source' = source"
  using assms by (induction plan) (auto simp: segment_for_start)

lemma note_segment_ok:
  assumes "segment_start naming s = s" and "segment_plan_ok directory naming plan"
  shows "segment_plan_ok directory naming (note_segment directory naming source (segment_for_time s naming) plan)"
  using assms(2)
proof (induction plan)
  case Nil
  then show ?case using assms(1) by (simp add: segment_plan_ok_def segment_entry_ok_def segment_for_start)
next
  case (Cons e plan)
  then have ok: "segment_plan_ok directory naming plan" "\<forall>e \<in> set plan. segment_entry_ok directory naming e"
    "segment_entry_ok directory naming e" by (simp_all add: segment_plan_ok_def)
  show ?case
  proof (cases "sp_start e = s")
    case True
    then have "sp_range e = segment_for_time s naming" using ok(3) by (simp add: segment_entry_ok_def)
    with Cons.prems show ?thesis by (simp add: segment_plan_ok_def segment_entry_ok_def)
  next
    case False
    with Cons.prems Cons.IH [OF ok(1)] note_segment_starts [OF assms(1) ok(2), of source] show ?thesis
      by (auto simp: segment_plan_ok_def segment_for_start [OF assms(1)])
  qed
qed

lemma segment_loop_run:
  assumes "segment_start naming a = a" and "segment_start naming b = b" and "segment_plan_ok directory naming plan"
  shows "\<exists>plan'. segment_loop directory naming source a b plan = Some plan' \<and> segment_plan_ok directory naming plan' \<and>
    (\<forall>s source'. segment_lists plan' s source' \<longleftrightarrow> segment_lists plan s source' \<or>
      source' = source \<and> segment_start naming s = s \<and> a \<le> s \<and> s \<le> b)"
  using assms
proof (induction "unat b - unat a" arbitrary: a plan rule: less_induct)
  case less
  let ?plan = "note_segment directory naming source (segment_for_time a naming) plan"
  have plan: "\<forall>e \<in> set plan. segment_entry_ok directory naming e" using less.prems(3) by (simp add: segment_plan_ok_def)
  have ok: "segment_plan_ok directory naming ?plan" using less.prems(1,3) by (rule note_segment_ok)
  note noted = note_segment_lists [OF less.prems(1) plan, of source]
  consider (above) "\<not> a \<le> b" | (last) "a = b" | (below) "a < b" by fastforce
  then show ?case
  proof cases
    case above
    then show ?thesis using less.prems(3) by (auto simp: segment_loop.simps [of _ _ _ a])
  next
    case last
    have "segment_loop directory naming source a b plan = Some ?plan"
      using last by (subst segment_loop.simps) (simp add: Let_def)
    moreover have "s = a \<longleftrightarrow> segment_start naming s = s \<and> a \<le> s \<and> s \<le> b" for s
      using last less.prems(1) by auto
    ultimately show ?thesis using ok noted by blast
  next
    case below
    let ?n = "a + segment_width naming"
    note n = next_segment [OF less.prems(1,2) below]
    have "unat b - unat ?n < unat b - unat a"
      using n(1) segment_width_pos [of naming] below by (simp add: word_less_nat_alt)
    from less.hyps [OF this n(3) less.prems(2) ok] obtain plan' where
      run: "segment_loop directory naming source ?n b ?plan = Some plan'" "segment_plan_ok directory naming plan'"
      and lists: "\<forall>s source'. segment_lists plan' s source' \<longleftrightarrow> segment_lists ?plan s source' \<or>
        source' = source \<and> segment_start naming s = s \<and> ?n \<le> s \<and> s \<le> b" by blast
    have "(s = a \<or> segment_start naming s = s \<and> ?n \<le> s \<and> s \<le> b) \<longleftrightarrow> segment_start naming s = s \<and> a \<le> s \<and> s \<le> b" for s
    proof -
      have "a \<le> ?n" using n(1) by (simp add: word_le_nat_alt)
      then have up: "?n \<le> s \<Longrightarrow> a \<le> s" by (rule order_trans)
      have step: "segment_start naming s = s \<Longrightarrow> a < s \<Longrightarrow> ?n \<le> s" using next_segment(2) [OF less.prems(1)] .
      have "a \<le> s \<longleftrightarrow> s = a \<or> a < s" by auto
      then show ?thesis using up step less.prems(1) below by auto
    qed
    moreover have "segment_loop directory naming source a b plan = Some plan'"
      using less_imp_neq [OF below] less_imp_le [OF below] run(1) by (subst segment_loop.simps) (simp add: Let_def)
    ultimately show ?thesis using run(2) lists noted by blast
  qed
qed

lemma plan_entry_run:
  assumes "segment_plan_ok directory naming plan"
  shows "\<exists>plan'. plan_entry directory naming entry plan = Some plan' \<and> segment_plan_ok directory naming plan' \<and>
    (\<forall>s source. segment_lists plan' s source \<longleftrightarrow> segment_lists plan s source \<or>
      as_record_count (ce_summary entry) \<noteq> 0 \<and> source = ce_path entry \<and> segment_start naming s = s \<and>
      segment_start naming (as_first_time_ns (ce_summary entry)) \<le> s \<and>
      s \<le> segment_start naming (as_last_time_ns (ce_summary entry)))"
proof (cases "as_record_count (ce_summary entry) = 0")
  case True
  with assms show ?thesis by (simp add: plan_entry_def)
next
  case False
  from segment_loop_run [OF segment_start_idem segment_start_idem assms] False show ?thesis
    by (simp add: plan_entry_def Let_def segment_start_def [symmetric])
qed

lemma plan_entries_run:
  "segment_plan_ok directory naming plan \<Longrightarrow>
   \<exists>plan'. plan_entries directory naming catalog plan = Some plan' \<and> segment_plan_ok directory naming plan' \<and>
    (\<forall>s source. segment_lists plan' s source \<longleftrightarrow> segment_lists plan s source \<or>
      (\<exists>entry \<in> set catalog. as_record_count (ce_summary entry) \<noteq> 0 \<and> source = ce_path entry \<and>
        segment_start naming s = s \<and> segment_start naming (as_first_time_ns (ce_summary entry)) \<le> s \<and>
        s \<le> segment_start naming (as_last_time_ns (ce_summary entry))))"
proof (induction catalog arbitrary: plan)
  case (Cons entry catalog)
  from plan_entry_run [OF Cons.prems, of entry] obtain plan1 where
    one: "plan_entry directory naming entry plan = Some plan1" "segment_plan_ok directory naming plan1"
    and lists: "\<forall>s source. segment_lists plan1 s source \<longleftrightarrow> segment_lists plan s source \<or>
      as_record_count (ce_summary entry) \<noteq> 0 \<and> source = ce_path entry \<and> segment_start naming s = s \<and>
      segment_start naming (as_first_time_ns (ce_summary entry)) \<le> s \<and>
      s \<le> segment_start naming (as_last_time_ns (ce_summary entry))" by blast
  from Cons.IH [OF one(2)] show ?case by (simp add: one(1) lists disj_assoc)
qed simp

text \<open>
  \<open>plan_segments\<close> returns for every catalog and width, also when the last range reaches the
  end of time. The plan has one entry for each range, in time order, named after it, and lists an
  archive under a range exactly when the archive has records and its span reaches into the range;
  so every time of the span lies in a range that lists the archive.
\<close>

theorem segments_cover:
  "\<exists>plan. plan_segments catalog directory naming = Some plan \<and>
    sorted (map sp_start plan) \<and> distinct (map sp_start plan) \<and>
    (\<forall>e \<in> set plan. sp_range e = segment_for_time (sp_start e) naming \<and>
      sp_path e = segment_path directory (sp_range e) naming) \<and>
    (\<forall>s source. segment_lists plan s source \<longleftrightarrow>
      (\<exists>entry \<in> set catalog. as_record_count (ce_summary entry) \<noteq> 0 \<and> source = ce_path entry \<and>
        segment_start naming s = s \<and> segment_start naming (as_first_time_ns (ce_summary entry)) \<le> s \<and>
        s \<le> segment_start naming (as_last_time_ns (ce_summary entry)))) \<and>
    (\<forall>entry \<in> set catalog. \<forall>t. as_record_count (ce_summary entry) \<noteq> 0 \<and>
      as_first_time_ns (ce_summary entry) \<le> t \<and> t \<le> as_last_time_ns (ce_summary entry) \<longrightarrow>
      segment_lists plan (segment_start naming t) (ce_path entry))"
proof -
  have "segment_plan_ok directory naming []" by (simp add: segment_plan_ok_def)
  from plan_entries_run [OF this, of catalog] obtain plan where
    run: "plan_entries directory naming catalog [] = Some plan" "segment_plan_ok directory naming plan"
    and lists: "\<And>s source. segment_lists plan s source \<longleftrightarrow>
      (\<exists>entry \<in> set catalog. as_record_count (ce_summary entry) \<noteq> 0 \<and> source = ce_path entry \<and>
        segment_start naming s = s \<and> segment_start naming (as_first_time_ns (ce_summary entry)) \<le> s \<and>
        s \<le> segment_start naming (as_last_time_ns (ce_summary entry)))" by auto
  let ?plan = "sort_key sp_start plan"
  have same: "segment_lists ?plan s source = segment_lists plan s source" for s source by (simp add: segment_lists_def)
  have "plan_segments catalog directory naming = Some ?plan" using run(1) by (simp add: plan_segments_def comp_def)
  moreover have "sorted (map sp_start ?plan)" by (rule sorted_sort_key)
  moreover have "distinct (map sp_start ?plan)" using run(2) by (simp add: segment_plan_ok_def distinct_map)
  moreover have "\<forall>e \<in> set ?plan. sp_range e = segment_for_time (sp_start e) naming \<and>
      sp_path e = segment_path directory (sp_range e) naming"
    using run(2) by (simp add: segment_plan_ok_def segment_entry_ok_def)
  moreover have "\<forall>entry \<in> set catalog. \<forall>t. as_record_count (ce_summary entry) \<noteq> 0 \<and>
      as_first_time_ns (ce_summary entry) \<le> t \<and> t \<le> as_last_time_ns (ce_summary entry) \<longrightarrow>
      segment_lists plan (segment_start naming t) (ce_path entry)"
    using segment_start_idem segment_start_mono by (auto simp: lists)
  ultimately show ?thesis unfolding same [symmetric] lists [symmetric] by (intro exI [of _ ?plan]) simp
qed

definition short_entry :: catalog_entry where
  "short_entry = \<lparr>ce_path = ''a.ath'', ce_manifest =
     \<lparr>am_summary = \<lparr>as_format_version = 1, as_record_count = 2, as_first_time_ns = 3, as_last_time_ns = 7\<rparr>,
      am_devices = [], am_packet_kinds = [], am_warnings = []\<rparr>\<rparr>"

lemma segments_cover_witness:
  "\<exists>plan. plan_segments [short_entry] ''out'' (segment_naming_default\<lparr>sg_width_ns := 2\<rparr>) = Some plan \<and>
     segment_lists plan 4 ''a.ath'' \<and> segment_lists plan 6 ''a.ath''"
proof -
  let ?naming = "segment_naming_default\<lparr>sg_width_ns := 2\<rparr>"
  have "segment_start ?naming 5 = 4" "segment_start ?naming 7 = 6" by code_simp+
  moreover obtain plan where "plan_segments [short_entry] ''out'' ?naming = Some plan"
    and lists: "\<forall>entry \<in> set [short_entry]. \<forall>t. as_record_count (ce_summary entry) \<noteq> 0 \<and>
      as_first_time_ns (ce_summary entry) \<le> t \<and> t \<le> as_last_time_ns (ce_summary entry) \<longrightarrow>
      segment_lists plan (segment_start ?naming t) (ce_path entry)"
    using segments_cover [of "[short_entry]" "''out''" ?naming] by blast
  moreover have "segment_lists plan (segment_start ?naming 5) (ce_path short_entry)"
    "segment_lists plan (segment_start ?naming 7) (ce_path short_entry)"
    by (rule lists [rule_format]; simp add: short_entry_def)+
  ultimately show ?thesis by (intro exI [of _ plan]) (simp add: short_entry_def)
qed

text \<open>The end of the last range of the default width wraps: it is smaller than its start.\<close>

lemma last_segment_wraps:
  "sr_end_time_ns (segment_for_time 18446744073709551615 segment_naming_default) <
   sr_start_time_ns (segment_for_time 18446744073709551615 segment_naming_default)"
  by code_simp

end
