(* ===== verification/Retention.thy ===== *)
theory Retention
  imports Manifest
begin

text \<open>
  Retention decisions on archives (\<open>src/storage/retention.cpp\<close>) and their simulation over time
  (\<open>src/storage/retention_simulator.cpp\<close>). \<open>std::sort\<close> is modelled as a stable sort.
\<close>

section \<open>Data\<close>

datatype retention_action = RA_keep | RA_compact | RA_archive | RA_delete_file

record retention_policy =
  rp_keep_after_time_ns :: u64
  rp_compact_before_time_ns :: u64
  rp_archive_before_time_ns :: u64
  rp_delete_before_time_ns :: u64
  rp_minimum_records_to_keep :: u64
  rp_minimum_payload_bytes_to_keep :: u64

record retention_candidate =
  rc_path :: string
  rc_manifest :: archive_manifest

record retention_decision =
  rd_path :: string
  rd_action :: retention_action
  rd_reason :: string
  rd_record_count :: u64
  rd_payload_bytes :: u64
  rd_last_time_ns :: u64

record retention_plan =
  rn_decisions :: "retention_decision list"
  rn_kept_records :: u64
  rn_compacted_records :: u64
  rn_archived_records :: u64
  rn_deleted_records :: u64

definition retention_plan_default :: retention_plan where
  "retention_plan_default = \<lparr>rn_decisions = [], rn_kept_records = 0, rn_compacted_records = 0,
     rn_archived_records = 0, rn_deleted_records = 0\<rparr>"

section \<open>Decisions\<close>

definition manifest_payload_bytes :: "archive_manifest \<Rightarrow> u64" where
  "manifest_payload_bytes m = (\<Sum>d\<leftarrow>am_devices m. da_total_payload_bytes d)"

definition make_retention_decision ::
  "retention_candidate \<Rightarrow> retention_action \<Rightarrow> string \<Rightarrow> retention_decision" where
  "make_retention_decision candidate action reason =
     \<lparr>rd_path = rc_path candidate, rd_action = action, rd_reason = reason,
      rd_record_count = as_record_count (am_summary (rc_manifest candidate)),
      rd_payload_bytes = manifest_payload_bytes (rc_manifest candidate),
      rd_last_time_ns = as_last_time_ns (am_summary (rc_manifest candidate))\<rparr>"

definition protected_by_record_floor :: "archive_manifest \<Rightarrow> retention_policy \<Rightarrow> bool" where
  "protected_by_record_floor m policy \<longleftrightarrow>
     rp_minimum_records_to_keep policy \<noteq> 0 \<and> as_record_count (am_summary m) < rp_minimum_records_to_keep policy"

definition protected_by_payload_floor :: "archive_manifest \<Rightarrow> retention_policy \<Rightarrow> bool" where
  "protected_by_payload_floor m policy \<longleftrightarrow>
     rp_minimum_payload_bytes_to_keep policy \<noteq> 0 \<and>
     manifest_payload_bytes m < rp_minimum_payload_bytes_to_keep policy"

definition decide_retention :: "retention_candidate \<Rightarrow> retention_policy \<Rightarrow> retention_decision" where
  "decide_retention candidate policy =
     (let m = rc_manifest candidate; last = as_last_time_ns (am_summary m)
      in if as_record_count (am_summary m) = 0
         then make_retention_decision candidate RA_delete_file ''empty archive''
         else if protected_by_record_floor m policy
         then make_retention_decision candidate RA_keep ''below minimum record floor''
         else if protected_by_payload_floor m policy
         then make_retention_decision candidate RA_keep ''below minimum payload floor''
         else if rp_keep_after_time_ns policy \<noteq> 0 \<and> last \<ge> rp_keep_after_time_ns policy
         then make_retention_decision candidate RA_keep ''inside active retention window''
         else if rp_delete_before_time_ns policy \<noteq> 0 \<and> last < rp_delete_before_time_ns policy
         then make_retention_decision candidate RA_delete_file ''older than delete threshold''
         else if rp_archive_before_time_ns policy \<noteq> 0 \<and> last < rp_archive_before_time_ns policy
         then make_retention_decision candidate RA_archive ''older than archive threshold''
         else if rp_compact_before_time_ns policy \<noteq> 0 \<and> last < rp_compact_before_time_ns policy
         then make_retention_decision candidate RA_compact ''older than compact threshold''
         else make_retention_decision candidate RA_keep ''no retention rule matched'')"

definition retention_accumulate :: "retention_decision \<Rightarrow> retention_plan \<Rightarrow> retention_plan" where
  "retention_accumulate d plan =
     (case rd_action d of
        RA_keep \<Rightarrow> plan\<lparr>rn_kept_records := rn_kept_records plan + rd_record_count d\<rparr>
      | RA_compact \<Rightarrow> plan\<lparr>rn_compacted_records := rn_compacted_records plan + rd_record_count d\<rparr>
      | RA_archive \<Rightarrow> plan\<lparr>rn_archived_records := rn_archived_records plan + rd_record_count d\<rparr>
      | RA_delete_file \<Rightarrow> plan\<lparr>rn_deleted_records := rn_deleted_records plan + rd_record_count d\<rparr>)"

definition plan_candidate :: "retention_policy \<Rightarrow> retention_candidate \<Rightarrow> retention_plan \<Rightarrow> retention_plan" where
  "plan_candidate policy candidate plan =
     (let decision = decide_retention candidate policy;
          plan = retention_accumulate decision plan
      in plan\<lparr>rn_decisions := rn_decisions plan @ [decision]\<rparr>)"

definition candidate_order :: "retention_candidate \<Rightarrow> u64" where
  "candidate_order candidate = as_last_time_ns (am_summary (rc_manifest candidate))"

definition build_retention_plan :: "retention_candidate list \<Rightarrow> retention_policy \<Rightarrow> retention_plan" where
  "build_retention_plan candidates policy =
     fold (plan_candidate policy) (sort_key candidate_order candidates) retention_plan_default"

definition retention_action_name :: "retention_action \<Rightarrow> string" where
  "retention_action_name action =
     (case action of
        RA_keep \<Rightarrow> ''keep'' | RA_compact \<Rightarrow> ''compact'' | RA_archive \<Rightarrow> ''archive'' | RA_delete_file \<Rightarrow> ''delete'')"

definition render_retention_plan :: "retention_plan \<Rightarrow> string" where
  "render_retention_plan plan =
     ''retention_plan'' @ newline @
     ''  decisions: '' @ dec_nat (length (rn_decisions plan)) @ newline @
     ''  kept_records: '' @ dec (rn_kept_records plan) @ newline @
     ''  compacted_records: '' @ dec (rn_compacted_records plan) @ newline @
     ''  archived_records: '' @ dec (rn_archived_records plan) @ newline @
     ''  deleted_records: '' @ dec (rn_deleted_records plan) @ newline @
     concat (map (\<lambda>d. ''  file: '' @ rd_path d @
       '' action='' @ retention_action_name (rd_action d) @
       '' records='' @ dec (rd_record_count d) @
       '' payload_bytes='' @ dec (rd_payload_bytes d) @
       '' last_time_ns='' @ dec (rd_last_time_ns d) @
       '' reason='' @ dquote @ rd_reason d @ dquote @ newline) (rn_decisions plan))"

section \<open>Simulation\<close>

record simulation_options =
  so_now_time_ns :: u64
  so_step_ns :: u64
  so_steps :: u32
  so_age_thresholds_with_time :: bool

record simulation_snapshot =
  ss_simulated_time_ns :: u64
  ss_policy :: retention_policy
  ss_plan :: retention_plan
  ss_kept_files :: u64
  ss_compacted_files :: u64
  ss_archived_files :: u64
  ss_deleted_files :: u64

record retention_simulation =
  rs_options :: simulation_options
  rs_snapshots :: "simulation_snapshot list"
  rs_total_kept_records :: u64
  rs_total_compacted_records :: u64
  rs_total_archived_records :: u64
  rs_total_deleted_records :: u64

definition count_action :: "retention_decision \<Rightarrow> simulation_snapshot \<Rightarrow> simulation_snapshot" where
  "count_action d s =
     (case rd_action d of
        RA_keep \<Rightarrow> s\<lparr>ss_kept_files := ss_kept_files s + 1\<rparr>
      | RA_compact \<Rightarrow> s\<lparr>ss_compacted_files := ss_compacted_files s + 1\<rparr>
      | RA_archive \<Rightarrow> s\<lparr>ss_archived_files := ss_archived_files s + 1\<rparr>
      | RA_delete_file \<Rightarrow> s\<lparr>ss_deleted_files := ss_deleted_files s + 1\<rparr>)"

definition make_snapshot :: "u64 \<Rightarrow> retention_policy \<Rightarrow> retention_plan \<Rightarrow> simulation_snapshot" where
  "make_snapshot t policy plan =
     fold count_action (rn_decisions plan)
       \<lparr>ss_simulated_time_ns = t, ss_policy = policy, ss_plan = plan,
        ss_kept_files = 0, ss_compacted_files = 0, ss_archived_files = 0, ss_deleted_files = 0\<rparr>"

definition simulation_accumulate :: "simulation_snapshot \<Rightarrow> retention_simulation \<Rightarrow> retention_simulation" where
  "simulation_accumulate s sim =
     sim\<lparr>rs_total_kept_records := rs_total_kept_records sim + rn_kept_records (ss_plan s),
         rs_total_compacted_records := rs_total_compacted_records sim + rn_compacted_records (ss_plan s),
         rs_total_archived_records := rs_total_archived_records sim + rn_archived_records (ss_plan s),
         rs_total_deleted_records := rs_total_deleted_records sim + rn_deleted_records (ss_plan s)\<rparr>"

definition aged :: "u64 \<Rightarrow> u64 \<Rightarrow> u64" where
  "aged delta threshold = (if threshold \<noteq> 0 then threshold + delta else threshold)"

definition advance_retention_policy :: "retention_policy \<Rightarrow> u64 \<Rightarrow> bool \<Rightarrow> retention_policy" where
  "advance_retention_policy policy delta age_thresholds =
     (if \<not> age_thresholds \<or> delta = 0 then policy
      else policy\<lparr>rp_keep_after_time_ns := aged delta (rp_keep_after_time_ns policy),
             rp_compact_before_time_ns := aged delta (rp_compact_before_time_ns policy),
             rp_archive_before_time_ns := aged delta (rp_archive_before_time_ns policy),
             rp_delete_before_time_ns := aged delta (rp_delete_before_time_ns policy)\<rparr>)"

definition simulation_step ::
  "retention_candidate list \<Rightarrow> retention_policy \<Rightarrow> simulation_options \<Rightarrow> nat \<Rightarrow>
   retention_simulation \<Rightarrow> retention_simulation" where
  "simulation_step candidates policy options step sim =
     (let delta = of_nat step * so_step_ns options;
          step_policy = advance_retention_policy policy delta (so_age_thresholds_with_time options);
          plan = build_retention_plan candidates step_policy;
          snapshot = make_snapshot (so_now_time_ns options + delta) step_policy plan;
          sim = simulation_accumulate snapshot sim
      in sim\<lparr>rs_snapshots := rs_snapshots sim @ [snapshot]\<rparr>)"

definition simulate_retention ::
  "retention_candidate list \<Rightarrow> retention_policy \<Rightarrow> simulation_options \<Rightarrow> retention_simulation" where
  "simulate_retention candidates policy options =
     (let steps = (if so_steps options = 0 then 1 else unat (so_steps options))
      in fold (simulation_step candidates policy options) [0..<steps]
           \<lparr>rs_options = options, rs_snapshots = [], rs_total_kept_records = 0, rs_total_compacted_records = 0,
            rs_total_archived_records = 0, rs_total_deleted_records = 0\<rparr>)"

fun candidates_from_paths :: "archive_files \<Rightarrow> string list \<Rightarrow> error + retention_candidate list" where
  "candidates_from_paths files [] = Inr []"
| "candidates_from_paths files (path # paths) =
     err_bind (build_archive_manifest files path) (\<lambda>m.
       err_bind (candidates_from_paths files paths) (\<lambda>candidates.
         Inr (\<lparr>rc_path = path, rc_manifest = m\<rparr> # candidates)))"

definition simulate_retention_paths ::
  "archive_files \<Rightarrow> string list \<Rightarrow> retention_policy \<Rightarrow> simulation_options \<Rightarrow> error + retention_simulation" where
  "simulate_retention_paths files paths policy options =
     err_bind (candidates_from_paths files paths) (\<lambda>candidates.
       Inr (simulate_retention candidates policy options))"

definition decisions_for_action :: "retention_plan \<Rightarrow> retention_action \<Rightarrow> retention_decision list" where
  "decisions_for_action plan action = filter (\<lambda>d. rd_action d = action) (rn_decisions plan)"

definition render_retention_snapshot :: "simulation_snapshot \<Rightarrow> string" where
  "render_retention_snapshot s =
     ''retention_snapshot'' @ newline @
     ''  simulated_time_ns: '' @ dec (ss_simulated_time_ns s) @ newline @
     ''  kept_files: '' @ dec (ss_kept_files s) @ newline @
     ''  compacted_files: '' @ dec (ss_compacted_files s) @ newline @
     ''  archived_files: '' @ dec (ss_archived_files s) @ newline @
     ''  deleted_files: '' @ dec (ss_deleted_files s) @ newline @
     ''  kept_records: '' @ dec (rn_kept_records (ss_plan s)) @ newline @
     ''  compacted_records: '' @ dec (rn_compacted_records (ss_plan s)) @ newline @
     ''  archived_records: '' @ dec (rn_archived_records (ss_plan s)) @ newline @
     ''  deleted_records: '' @ dec (rn_deleted_records (ss_plan s)) @ newline"

definition render_retention_simulation :: "retention_simulation \<Rightarrow> string" where
  "render_retention_simulation sim =
     ''retention_simulation'' @ newline @
     ''  snapshots: '' @ dec_nat (length (rs_snapshots sim)) @ newline @
     ''  total_kept_records: '' @ dec (rs_total_kept_records sim) @ newline @
     ''  total_compacted_records: '' @ dec (rs_total_compacted_records sim) @ newline @
     ''  total_archived_records: '' @ dec (rs_total_archived_records sim) @ newline @
     ''  total_deleted_records: '' @ dec (rs_total_deleted_records sim) @ newline @
     concat (map render_retention_snapshot (rs_snapshots sim))"

section \<open>The plan\<close>

definition counted :: "retention_plan \<Rightarrow> retention_action \<Rightarrow> u64" where
  "counted plan action =
     (case action of
        RA_keep \<Rightarrow> rn_kept_records plan | RA_compact \<Rightarrow> rn_compacted_records plan
      | RA_archive \<Rightarrow> rn_archived_records plan | RA_delete_file \<Rightarrow> rn_deleted_records plan)"

lemma plan_candidate_fields:
  "rn_decisions (plan_candidate policy c plan) = rn_decisions plan @ [decide_retention c policy]"
  "counted (plan_candidate policy c plan) action = counted plan action +
     (if rd_action (decide_retention c policy) = action then rd_record_count (decide_retention c policy) else 0)"
  by (simp_all add: plan_candidate_def retention_accumulate_def counted_def Let_def split: retention_action.split)

lemma plan_run:
  "rn_decisions (fold (plan_candidate policy) cs plan) = rn_decisions plan @ map (\<lambda>c. decide_retention c policy) cs"
  "counted (fold (plan_candidate policy) cs plan) action = counted plan action +
     (\<Sum>d\<leftarrow>filter (\<lambda>d. rd_action d = action) (map (\<lambda>c. decide_retention c policy) cs). rd_record_count d)"
  by (induction cs arbitrary: plan) (simp_all add: plan_candidate_fields ac_simps)

lemma plan_decisions:
  "rn_decisions (build_retention_plan cs policy) = map (\<lambda>c. decide_retention c policy) (sort_key candidate_order cs)"
  by (simp add: build_retention_plan_def plan_run retention_plan_default_def)

lemma counted_decisions:
  "counted (build_retention_plan cs policy) action =
     (\<Sum>d\<leftarrow>decisions_for_action (build_retention_plan cs policy) action. rd_record_count d)"
  unfolding decisions_for_action_def plan_decisions
  unfolding build_retention_plan_def plan_run
  by (simp add: counted_def retention_plan_default_def split: retention_action.split)

lemma retention_decision_fields [simp]:
  "rd_path (decide_retention c policy) = rc_path c"
  "rd_record_count (decide_retention c policy) = as_record_count (am_summary (rc_manifest c))"
  by (simp_all add: decide_retention_def make_retention_decision_def Let_def)

text \<open>An archive with records may be deleted only under the explicit deletion threshold.\<close>

definition deletable :: "retention_policy \<Rightarrow> retention_candidate \<Rightarrow> bool" where
  "deletable policy c \<longleftrightarrow>
     (let m = rc_manifest c; last = as_last_time_ns (am_summary m)
      in rp_delete_before_time_ns policy \<noteq> 0 \<and> last < rp_delete_before_time_ns policy \<and>
         (rp_keep_after_time_ns policy = 0 \<or> last < rp_keep_after_time_ns policy) \<and>
         rp_minimum_records_to_keep policy \<le> as_record_count (am_summary m) \<and>
         rp_minimum_payload_bytes_to_keep policy \<le> manifest_payload_bytes m)"

lemma delete_iff:
  "rd_action (decide_retention c policy) = RA_delete_file \<longleftrightarrow>
     as_record_count (am_summary (rc_manifest c)) = 0 \<or> deletable policy c"
  by (auto simp: decide_retention_def make_retention_decision_def deletable_def Let_def
      protected_by_record_floor_def protected_by_payload_floor_def not_less not_le)

lemma sum_by_action:
  "(\<Sum>d\<leftarrow>ds. rd_record_count d) =
     (\<Sum>d\<leftarrow>filter (\<lambda>d. rd_action d = RA_keep) ds. rd_record_count d) +
     (\<Sum>d\<leftarrow>filter (\<lambda>d. rd_action d = RA_compact) ds. rd_record_count d) +
     (\<Sum>d\<leftarrow>filter (\<lambda>d. rd_action d = RA_archive) ds. rd_record_count d) +
     (\<Sum>d\<leftarrow>filter (\<lambda>d. rd_action d = RA_delete_file) ds. rd_record_count d)"
proof (induction ds)
  case (Cons d ds)
  then show ?case by (cases "rd_action d") (simp_all add: ac_simps)
qed simp

lemma record_sum_sorted:
  "(\<Sum>d\<leftarrow>rn_decisions (build_retention_plan cs policy). rd_record_count d) =
     (\<Sum>c\<leftarrow>cs. as_record_count (am_summary (rc_manifest c)))"
  by (simp add: plan_decisions sum_list_sort_key comp_def)

text \<open>
  C40. A retention plan has one decision for each candidate, from the oldest to the newest, and its
  four counters are the records of the decisions with that action; together they are all records.
  A file with records is deleted exactly when its newest record is older than the deletion
  threshold, outside the window to keep, and the file is above both floors; an empty file always is.
\<close>

theorem retention_plan_safe:
  "map rd_path (rn_decisions (build_retention_plan cs policy)) = map rc_path (sort_key candidate_order cs) \<and>
   (let plan = build_retention_plan cs policy in
      (\<Sum>action\<leftarrow>[RA_keep, RA_compact, RA_archive, RA_delete_file]. counted plan action) =
        (\<Sum>c\<leftarrow>cs. as_record_count (am_summary (rc_manifest c))) \<and>
      counted plan action = (\<Sum>d\<leftarrow>decisions_for_action plan action. rd_record_count d) \<and>
      map rd_path (decisions_for_action plan RA_delete_file) =
        map rc_path (filter (\<lambda>c. as_record_count (am_summary (rc_manifest c)) = 0 \<or> deletable policy c)
          (sort_key candidate_order cs)))"
proof -
  have total: "(\<Sum>action\<leftarrow>[RA_keep, RA_compact, RA_archive, RA_delete_file]. counted (build_retention_plan cs policy) action) =
      (\<Sum>c\<leftarrow>cs. as_record_count (am_summary (rc_manifest c)))"
    using record_sum_sorted [of cs policy] sum_by_action [of "rn_decisions (build_retention_plan cs policy)"]
    by (simp add: counted_decisions decisions_for_action_def ac_simps)
  have "map rd_path (decisions_for_action (build_retention_plan cs policy) RA_delete_file) =
      map rc_path (filter (\<lambda>c. as_record_count (am_summary (rc_manifest c)) = 0 \<or> deletable policy c)
        (sort_key candidate_order cs))"
    by (simp add: decisions_for_action_def plan_decisions filter_map comp_def delete_iff)
  with total show ?thesis by (simp add: Let_def counted_decisions plan_decisions comp_def)
qed

section \<open>Ageing\<close>

fun severity :: "retention_action \<Rightarrow> nat" where
  "severity RA_keep = 0"
| "severity RA_compact = 1"
| "severity RA_archive = 2"
| "severity RA_delete_file = 3"

text \<open>No threshold that is set wraps when the given time is added.\<close>

definition ageable :: "retention_policy \<Rightarrow> u64 \<Rightarrow> bool" where
  "ageable policy delta \<longleftrightarrow>
     unat (rp_keep_after_time_ns policy) + unat delta < 18446744073709551616 \<and>
     unat (rp_compact_before_time_ns policy) + unat delta < 18446744073709551616 \<and>
     unat (rp_archive_before_time_ns policy) + unat delta < 18446744073709551616 \<and>
     unat (rp_delete_before_time_ns policy) + unat delta < 18446744073709551616"

lemma aged_mono:
  assumes "unat threshold + unat delta' < 18446744073709551616" and "delta \<le> delta'"
  shows "aged delta threshold \<le> aged delta' threshold" and "aged delta threshold = 0 \<longleftrightarrow> threshold = 0"
    and "aged delta' threshold = 0 \<longleftrightarrow> threshold = 0"
proof -
  have le: "unat delta \<le> unat delta'" using assms(2) by (simp add: word_le_nat_alt)
  then have "unat threshold + unat delta < 2 ^ LENGTH(64)" "unat threshold + unat delta' < 2 ^ LENGTH(64)"
    using assms(1) by simp_all
  then have sum: "unat (threshold + delta) = unat threshold + unat delta"
    "unat (threshold + delta') = unat threshold + unat delta'" by (simp_all only: unat_add_lem)
  with le show "aged delta threshold \<le> aged delta' threshold" by (simp add: aged_def word_le_nat_alt)
  show "aged delta threshold = 0 \<longleftrightarrow> threshold = 0" "aged delta' threshold = 0 \<longleftrightarrow> threshold = 0"
    using sum by (auto simp: aged_def word_unat_eq_iff)
qed

lemma advance_aged:
  "advance_retention_policy policy delta True =
     policy\<lparr>rp_keep_after_time_ns := aged delta (rp_keep_after_time_ns policy),
       rp_compact_before_time_ns := aged delta (rp_compact_before_time_ns policy),
       rp_archive_before_time_ns := aged delta (rp_archive_before_time_ns policy),
       rp_delete_before_time_ns := aged delta (rp_delete_before_time_ns policy)\<rparr>"
  by (simp add: advance_retention_policy_def aged_def)

definition older :: "u64 \<Rightarrow> retention_candidate \<Rightarrow> bool" where
  "older threshold c \<longleftrightarrow> threshold \<noteq> 0 \<and> as_last_time_ns (am_summary (rc_manifest c)) < threshold"

definition recent :: "u64 \<Rightarrow> retention_candidate \<Rightarrow> bool" where
  "recent threshold c \<longleftrightarrow> threshold \<noteq> 0 \<and> threshold \<le> as_last_time_ns (am_summary (rc_manifest c))"

lemma decide_severity:
  "severity (rd_action (decide_retention c policy)) =
     (if as_record_count (am_summary (rc_manifest c)) = 0 then 3
      else if protected_by_record_floor (rc_manifest c) policy \<or> protected_by_payload_floor (rc_manifest c) policy \<or>
        recent (rp_keep_after_time_ns policy) c then 0
      else if older (rp_delete_before_time_ns policy) c then 3
      else if older (rp_archive_before_time_ns policy) c then 2
      else if older (rp_compact_before_time_ns policy) c then 1 else 0)"
  by (simp add: decide_retention_def make_retention_decision_def Let_def recent_def older_def)

lemma aged_older:
  assumes "unat threshold + unat delta' < 18446744073709551616" and "delta \<le> delta'"
  shows "older (aged delta threshold) c \<Longrightarrow> older (aged delta' threshold) c"
    and "recent (aged delta' threshold) c \<Longrightarrow> recent (aged delta threshold) c"
  using aged_mono [OF assms] order.strict_trans2 order_trans by (auto simp: older_def recent_def)

lemma decide_ages:
  assumes "ageable policy delta'" and "delta \<le> delta'"
  shows "severity (rd_action (decide_retention c (advance_retention_policy policy delta True))) \<le>
    severity (rd_action (decide_retention c (advance_retention_policy policy delta' True)))"
proof -
  note thresholds = assms(1) [unfolded ageable_def]
  have "older (aged delta (rp_compact_before_time_ns policy)) c \<Longrightarrow> older (aged delta' (rp_compact_before_time_ns policy)) c"
    "older (aged delta (rp_archive_before_time_ns policy)) c \<Longrightarrow> older (aged delta' (rp_archive_before_time_ns policy)) c"
    "older (aged delta (rp_delete_before_time_ns policy)) c \<Longrightarrow> older (aged delta' (rp_delete_before_time_ns policy)) c"
    "recent (aged delta' (rp_keep_after_time_ns policy)) c \<Longrightarrow> recent (aged delta (rp_keep_after_time_ns policy)) c"
    using aged_older [OF _ assms(2)] thresholds by blast+
  then show ?thesis
    by (auto simp: decide_severity advance_aged protected_by_record_floor_def protected_by_payload_floor_def)
qed

definition snapshot_at ::
  "retention_candidate list \<Rightarrow> retention_policy \<Rightarrow> simulation_options \<Rightarrow> nat \<Rightarrow> simulation_snapshot" where
  "snapshot_at candidates policy options step =
     (let delta = of_nat step * so_step_ns options;
          step_policy = advance_retention_policy policy delta (so_age_thresholds_with_time options)
      in make_snapshot (so_now_time_ns options + delta) step_policy (build_retention_plan candidates step_policy))"

lemma simulation_snapshots:
  "rs_snapshots (fold (simulation_step candidates policy options) steps sim) =
     rs_snapshots sim @ map (snapshot_at candidates policy options) steps"
  by (induction steps arbitrary: sim)
    (simp_all add: simulation_step_def simulation_accumulate_def snapshot_at_def Let_def)

lemma simulate_snapshots:
  "rs_snapshots (simulate_retention candidates policy options) =
     map (snapshot_at candidates policy options) [0..<(if so_steps options = 0 then 1 else unat (so_steps options))]"
  by (simp add: simulate_retention_def simulation_snapshots Let_def)

lemma count_action_plan: "ss_plan (fold count_action ds s) = ss_plan s"
  by (induction ds arbitrary: s) (simp_all add: count_action_def split: retention_action.split)

lemma snapshot_plan:
  "ss_plan (snapshot_at candidates policy options step) = build_retention_plan candidates
     (advance_retention_policy policy (of_nat step * so_step_ns options) (so_age_thresholds_with_time options))"
  by (simp add: snapshot_at_def make_snapshot_def count_action_plan Let_def)

text \<open>
  In a simulation with ageing thresholds, none of which wraps within the simulated time, what
  happens to a file only becomes more severe from step to step: a file once compacted, archived or
  deleted is never treated more gently at a later step. There is one snapshot for each step, at
  least one, and all have the same files in the same order.
\<close>

theorem retention_ages:
  assumes "so_age_thresholds_with_time options" and "i \<le> j"
    and "j < length (rs_snapshots (simulate_retention candidates policy options))"
    and "j * unat (so_step_ns options) < 18446744073709551616"
    and "ageable policy (of_nat j * so_step_ns options)"
  shows "length (rs_snapshots (simulate_retention candidates policy options)) = max 1 (unat (so_steps options)) \<and>
    list_all2 (\<lambda>d d'. rd_path d = rd_path d' \<and> severity (rd_action d) \<le> severity (rd_action d'))
      (rn_decisions (ss_plan (rs_snapshots (simulate_retention candidates policy options) ! i)))
      (rn_decisions (ss_plan (rs_snapshots (simulate_retention candidates policy options) ! j)))"
proof -
  have steps: "(if so_steps options = 0 then 1 else unat (so_steps options)) = max 1 (unat (so_steps options))"
    using unat_gt_0 [of "so_steps options"] by auto
  have ij: "i < length (rs_snapshots (simulate_retention candidates policy options))" using assms(2,3) by simp
  have delta: "unat (of_nat k * so_step_ns options) = k * unat (so_step_ns options)" if "k \<le> j" for k
  proof (cases "so_step_ns options = 0")
    case False
    have le: "k * unat (so_step_ns options) \<le> j * unat (so_step_ns options)" using that by (rule mult_le_mono1)
    have "0 < unat (so_step_ns options)" using False by (simp add: unat_gt_0)
    then have "k * 1 \<le> k * unat (so_step_ns options)" by (intro mult_le_mono2) simp
    then have "k \<le> j * unat (so_step_ns options)" using le by linarith
    then have "k < 18446744073709551616" using assms(4) by (rule le_less_trans)
    then have k: "unat (of_nat k :: u64) = k" by (rule unat_of_nat_u64)
    have "k * unat (so_step_ns options) < 18446744073709551616" using le assms(4) by (rule le_less_trans)
    then have "unat (of_nat k :: u64) * unat (so_step_ns options) < 2 ^ LENGTH(64)" by (simp add: k)
    then have "unat ((of_nat k :: u64) * so_step_ns options) = unat (of_nat k :: u64) * unat (so_step_ns options)"
      by (rule unat_mult_lem [THEN iffD1])
    then show ?thesis by (simp only: k)
  qed simp
  have le: "(of_nat i * so_step_ns options :: u64) \<le> of_nat j * so_step_ns options"
    unfolding word_le_nat_alt delta [OF assms(2)] delta [OF order_refl] using assms(2) by (rule mult_le_mono1)
  have at: "ss_plan (rs_snapshots (simulate_retention candidates policy options) ! k) = build_retention_plan candidates
      (advance_retention_policy policy (of_nat k * so_step_ns options) True)"
    if "k < length (rs_snapshots (simulate_retention candidates policy options))" for k
    using that assms(1) by (simp add: simulate_snapshots snapshot_plan)
  show ?thesis
    using decide_ages [OF assms(5) le] steps
    by (simp add: at [OF ij] at [OF assms(3)] plan_decisions list_all2_map1 list_all2_map2 list.rel_refl)
      (simp add: simulate_snapshots)
qed

definition sample_policy :: retention_policy where
  "sample_policy = \<lparr>rp_keep_after_time_ns = 4, rp_compact_before_time_ns = 6, rp_archive_before_time_ns = 0,
     rp_delete_before_time_ns = 3, rp_minimum_records_to_keep = 1, rp_minimum_payload_bytes_to_keep = 0\<rparr>"

definition sample_candidate :: retention_candidate where
  "sample_candidate = \<lparr>rc_path = ''a.ath'', rc_manifest =
     \<lparr>am_summary = \<lparr>as_format_version = 1, as_record_count = 2, as_first_time_ns = 3, as_last_time_ns = 5\<rparr>,
      am_devices = [], am_packet_kinds = [], am_warnings = []\<rparr>\<rparr>"

definition four_steps :: simulation_options where
  "four_steps = \<lparr>so_now_time_ns = 0, so_step_ns = 2, so_steps = 4, so_age_thresholds_with_time = True\<rparr>"

lemma retention_ages_witness:
  "length (rs_snapshots (simulate_retention [sample_candidate] sample_policy four_steps)) = 4 \<and>
   list_all2 (\<lambda>d d'. rd_path d = rd_path d' \<and> severity (rd_action d) \<le> severity (rd_action d'))
     (rn_decisions (ss_plan (rs_snapshots (simulate_retention [sample_candidate] sample_policy four_steps) ! 1)))
     (rn_decisions (ss_plan (rs_snapshots (simulate_retention [sample_candidate] sample_policy four_steps) ! 2)))"
proof -
  have "length (rs_snapshots (simulate_retention [sample_candidate] sample_policy four_steps)) = 4"
    by (simp add: simulate_snapshots four_steps_def)
  then show ?thesis
    using retention_ages [of four_steps 1 2 "[sample_candidate]" sample_policy]
    by (simp add: four_steps_def ageable_def sample_policy_def)
qed

text \<open>A threshold that wraps to 0 is switched off: the file is deleted now, and kept a step later.\<close>

lemma wrapped_threshold_disables:
  "rd_action (decide_retention sample_candidate
     (sample_policy\<lparr>rp_keep_after_time_ns := 0, rp_compact_before_time_ns := 0,
        rp_delete_before_time_ns := 18446744073709551615\<rparr>)) = RA_delete_file \<and>
   rd_action (decide_retention sample_candidate
     (advance_retention_policy (sample_policy\<lparr>rp_keep_after_time_ns := 0, rp_compact_before_time_ns := 0,
        rp_delete_before_time_ns := 18446744073709551615\<rparr>) 1 True)) = RA_keep"
  by (simp add: decide_retention_def make_retention_decision_def protected_by_record_floor_def
      protected_by_payload_floor_def advance_aged aged_def sample_policy_def sample_candidate_def)

end
