(* ===== verification/Capacity.thy ===== *)
theory Capacity
  imports Catalog
begin

text \<open>
  The capacity forecast (\<open>src/storage/capacity_forecast.cpp\<close>). Doubles are rationals, their rounding
  is the argument \<open>fl\<close>, their conversion to an integer the argument \<open>to_u64\<close> and their printing
  \<open>show_double\<close>. \<open>std::sort\<close> is modelled as a stable sort.
\<close>

section \<open>Data\<close>

record capacity_sample =
  ca_time_ns :: u64
  ca_record_count :: u64
  ca_payload_bytes :: u64

record capacity_options =
  co_horizon_ns :: u64
  co_target_payload_bytes :: u64

definition capacity_options_default :: capacity_options where
  "capacity_options_default = \<lparr>co_horizon_ns = 86400000000000, co_target_payload_bytes = 10 * 1024 * 1024 * 1024\<rparr>"

record capacity_forecast =
  cf_current_payload_bytes :: u64
  cf_projected_payload_bytes :: u64
  cf_payload_bytes_per_ns :: rat
  cf_records_per_ns :: rat
  cf_exceeds_target :: bool
  cf_notes :: "string list"

definition capacity_forecast_default :: capacity_forecast where
  "capacity_forecast_default = \<lparr>cf_current_payload_bytes = 0, cf_projected_payload_bytes = 0,
     cf_payload_bytes_per_ns = 0, cf_records_per_ns = 0, cf_exceeds_target = False, cf_notes = []\<rparr>"

section \<open>Samples\<close>

definition manifest_payload :: "archive_manifest \<Rightarrow> u64" where
  "manifest_payload m = (\<Sum>d\<leftarrow>am_devices m. da_total_payload_bytes d)"

definition sorted_samples :: "capacity_sample list \<Rightarrow> capacity_sample list" where
  "sorted_samples samples = sort_key ca_time_ns samples"

fun cumulative_samples :: "u64 \<Rightarrow> u64 \<Rightarrow> archive_catalog \<Rightarrow> capacity_sample list" where
  "cumulative_samples records payload [] = []"
| "cumulative_samples records payload (entry # entries) =
     (let records = records + as_record_count (ce_summary entry);
          payload = payload + manifest_payload (ce_manifest entry)
      in \<lparr>ca_time_ns = as_last_time_ns (ce_summary entry), ca_record_count = records, ca_payload_bytes = payload\<rparr> #
         cumulative_samples records payload entries)"

definition samples_from_catalog :: "archive_catalog \<Rightarrow> capacity_sample list" where
  "samples_from_catalog catalog = sorted_samples (cumulative_samples 0 0 catalog)"

section \<open>The forecast\<close>

definition rate_between :: "(rat \<Rightarrow> rat) \<Rightarrow> u64 \<Rightarrow> u64 \<Rightarrow> u64 \<Rightarrow> u64 \<Rightarrow> rat" where
  "rate_between fl first_value last_value first_time last_time =
     (if last_time \<le> first_time then 0
      else if last_value < first_value then 0
      else fl (fl (of_nat (unat (last_value - first_value))) / fl (of_nat (unat (last_time - first_time)))))"

definition append_forecast_notes :: "capacity_options \<Rightarrow> nat \<Rightarrow> capacity_forecast \<Rightarrow> capacity_forecast" where
  "append_forecast_notes options sample_count forecast =
     forecast\<lparr>cf_notes := cf_notes forecast @
       (if sample_count < 2 then [''forecast is based on fewer than two samples''] else []) @
       (if cf_payload_bytes_per_ns forecast = 0 then [''payload growth rate is zero or unavailable''] else []) @
       (if cf_exceeds_target forecast then [''projected payload exceeds configured target''] else []) @
       (if co_horizon_ns options = 0 then [''forecast horizon is zero''] else [])\<rparr>"

definition forecast_capacity ::
  "(rat \<Rightarrow> rat) \<Rightarrow> (rat \<Rightarrow> u64) \<Rightarrow> capacity_sample list \<Rightarrow> capacity_options \<Rightarrow> capacity_forecast" where
  "forecast_capacity fl to_u64 input options =
     (let samples = sorted_samples input
      in if samples = []
         then capacity_forecast_default\<lparr>cf_notes := [''no capacity samples available'']\<rparr>
         else
           let first = hd samples; last = List.last samples;
               payload_rate = rate_between fl (ca_payload_bytes first) (ca_payload_bytes last)
                 (ca_time_ns first) (ca_time_ns last);
               record_rate = rate_between fl (ca_record_count first) (ca_record_count last)
                 (ca_time_ns first) (ca_time_ns last);
               projected_growth = fl (payload_rate * fl (of_nat (unat (co_horizon_ns options))));
               projected = ca_payload_bytes last + to_u64 projected_growth
           in append_forecast_notes options (length samples)
                \<lparr>cf_current_payload_bytes = ca_payload_bytes last, cf_projected_payload_bytes = projected,
                 cf_payload_bytes_per_ns = payload_rate, cf_records_per_ns = record_rate,
                 cf_exceeds_target = (co_target_payload_bytes options \<noteq> 0 \<and> projected > co_target_payload_bytes options),
                 cf_notes = []\<rparr>)"

definition render_capacity_forecast :: "(rat \<Rightarrow> string) \<Rightarrow> capacity_forecast \<Rightarrow> string" where
  "render_capacity_forecast show_double forecast =
     ''capacity_forecast'' @ newline @
     ''  current_payload_bytes: '' @ dec (cf_current_payload_bytes forecast) @ newline @
     ''  projected_payload_bytes: '' @ dec (cf_projected_payload_bytes forecast) @ newline @
     ''  payload_bytes_per_ns: '' @ show_double (cf_payload_bytes_per_ns forecast) @ newline @
     ''  records_per_ns: '' @ show_double (cf_records_per_ns forecast) @ newline @
     ''  exceeds_target: '' @ yes_no (cf_exceeds_target forecast) @ newline @
     concat (map (\<lambda>note. ''  note: '' @ note @ newline) (cf_notes forecast))"

section \<open>The last sample\<close>

lemma last_filter: "xs \<noteq> [] \<Longrightarrow> P (last xs) \<Longrightarrow> last (filter P xs) = last xs"
  by (induction xs rule: rev_induct) auto

lemma last_sort_key:
  assumes "\<forall>x \<in> set xs. f x \<le> f e" and "\<forall>y \<in> set ys. f y < f e"
  shows "last (sort_key f (xs @ e # ys)) = e"
proof -
  let ?zs = "sort_key f (xs @ e # ys)"
  have ne: "?zs \<noteq> []" by (metis append_is_Nil_conv list.distinct(1) set_empty set_sort)
  have "last ?zs \<in> set ?zs" using ne by (rule last_in_set)
  then have "f (last ?zs) \<le> f e" using assms by (auto intro: less_imp_le)
  moreover have "f e \<le> f (last ?zs)"
  proof -
    obtain zs where zs: "?zs = zs @ [last ?zs]" using ne by (metis append_butlast_last_id)
    have "sorted (map f (zs @ [last ?zs]))" using sorted_sort_key [of f "xs @ e # ys"] zs by metis
    moreover have "e \<in> set (zs @ [last ?zs])" unfolding zs [symmetric] by simp
    ultimately show ?thesis by (auto simp: sorted_append)
  qed
  ultimately have "f (last ?zs) = f e" by (rule order_antisym)
  then have "last ?zs = last (filter (\<lambda>z. f z = f e) ?zs)" using ne by (simp add: last_filter)
  also have "filter (\<lambda>z. f z = f e) ?zs = filter (\<lambda>z. f z = f e) (xs @ e # ys)"
    by (rule sort_key_stable)
  also have "filter (\<lambda>z. f z = f e) ys = []" using assms(2) by (auto simp: filter_empty_conv)
  then have "last (filter (\<lambda>z. f z = f e) (xs @ e # ys)) = e" by simp
  finally show ?thesis .
qed

definition payload_sum :: "archive_catalog \<Rightarrow> u64" where
  "payload_sum catalog = (\<Sum>entry\<leftarrow>catalog. manifest_payload (ce_manifest entry))"

lemma cumulative_times: "map ca_time_ns (cumulative_samples r p catalog) = map (\<lambda>e. as_last_time_ns (ce_summary e)) catalog"
  by (induction catalog arbitrary: r p) (simp_all add: Let_def)

lemma cumulative_append:
  "cumulative_samples r p (xs @ ys) = cumulative_samples r p xs @
     cumulative_samples (r + (\<Sum>e\<leftarrow>xs. as_record_count (ce_summary e))) (p + payload_sum xs) ys"
  by (induction xs arbitrary: r p) (simp_all add: Let_def payload_sum_def ac_simps)

lemma sorted_samples_idem: "sorted_samples (sorted_samples samples) = sorted_samples samples"
  by (simp add: sorted_samples_def sort_key_id_if_sorted)

text \<open>
  The forecast over a catalog takes as current payload that of the archives up to the one with
  the latest record, in the order of first times: what an archive that starts later but ends
  earlier holds is left out of the current and the projected payload.
\<close>

theorem forecast_current_payload:
  assumes "\<forall>x \<in> set xs. as_last_time_ns (ce_summary x) \<le> as_last_time_ns (ce_summary e)"
    and "\<forall>y \<in> set ys. as_last_time_ns (ce_summary y) < as_last_time_ns (ce_summary e)"
  shows "cf_current_payload_bytes (forecast_capacity fl to_u64 (samples_from_catalog (xs @ e # ys)) options) =
    payload_sum (xs @ [e])"
proof -
  let ?before = "cumulative_samples 0 0 xs"
  obtain s after where s: "cumulative_samples 0 0 (xs @ e # ys) = ?before @ s # after"
    and time: "ca_time_ns s = as_last_time_ns (ce_summary e)" and payload: "ca_payload_bytes s = payload_sum (xs @ [e])"
    and after: "map ca_time_ns after = map (\<lambda>e. as_last_time_ns (ce_summary e)) ys"
    by (simp add: cumulative_append Let_def payload_sum_def cumulative_times)
  have times: "ca_time_ns ` set ?before = (\<lambda>e. as_last_time_ns (ce_summary e)) ` set xs"
    "ca_time_ns ` set after = (\<lambda>e. as_last_time_ns (ce_summary e)) ` set ys"
    using arg_cong [OF cumulative_times [of 0 0 xs], of set] arg_cong [OF after, of set] by simp_all
  have "ca_time_ns x \<le> ca_time_ns s" if "x \<in> set ?before" for x
    using imageI [OF that, of ca_time_ns] assms(1) unfolding times time by auto
  moreover have "ca_time_ns y < ca_time_ns s" if "y \<in> set after" for y
    using imageI [OF that, of ca_time_ns] assms(2) unfolding times time by auto
  ultimately have "\<forall>x \<in> set ?before. ca_time_ns x \<le> ca_time_ns s" "\<forall>y \<in> set after. ca_time_ns y < ca_time_ns s"
    by blast+
  from last_sort_key [OF this] have last: "last (samples_from_catalog (xs @ e # ys)) = s"
    by (simp add: samples_from_catalog_def sorted_samples_def s)
  have "samples_from_catalog (xs @ e # ys) \<noteq> []"
    by (metis append_is_Nil_conv list.distinct(1) s samples_from_catalog_def set_empty set_sort sorted_samples_def)
  then show ?thesis
    using last payload
    by (simp add: forecast_capacity_def samples_from_catalog_def sorted_samples_idem append_forecast_notes_def Let_def)
qed

definition payload_entry :: "string \<Rightarrow> u64 \<Rightarrow> u64 \<Rightarrow> u64 \<Rightarrow> catalog_entry" where
  "payload_entry path t0 t1 payload = \<lparr>ce_path = path, ce_manifest =
     \<lparr>am_summary = \<lparr>as_format_version = 1, as_record_count = 1, as_first_time_ns = t0, as_last_time_ns = t1\<rparr>,
      am_devices = [\<lparr>da_device = 7, da_record_count = 1, da_first_time_ns = t0, da_last_time_ns = t1,
        da_total_payload_bytes = payload\<rparr>], am_packet_kinds = [], am_warnings = []\<rparr>\<rparr>"

lemma forecast_current_payload_witness:
  "catalog_ok [payload_entry ''a'' 0 100 10, payload_entry ''b'' 1 50 20] \<and>
   payload_sum [payload_entry ''a'' 0 100 10, payload_entry ''b'' 1 50 20] = 30 \<and>
   cf_current_payload_bytes (forecast_capacity (\<lambda>x. x) (\<lambda>x. of_int \<lfloor>x\<rfloor>)
     (samples_from_catalog [payload_entry ''a'' 0 100 10, payload_entry ''b'' 1 50 20]) capacity_options_default) = 10"
proof -
  have "path_elements ''a'' \<noteq> path_elements ''b''" by code_simp
  then show ?thesis
    using forecast_current_payload [of "[]" "payload_entry ''a'' 0 100 10" "[payload_entry ''b'' 1 50 20]"
        "\<lambda>x. x" "\<lambda>x. of_int \<lfloor>x\<rfloor>" capacity_options_default]
    by (simp add: payload_entry_def payload_sum_def manifest_payload_def catalog_ok_def entry_order_def)
qed

end
