(* ===== verification/Collection.thy ===== *)
theory Collection
  imports "HOL-Library.Multiset" Catalog
begin

text \<open>
  Collections of archives (\<open>src/storage/archive_collection.cpp\<close>): the index entries of several
  archives in one list, sorted by time, and by device; records are loaded again from their file.
\<close>

section \<open>Data\<close>

record collection_entry =
  cl_path :: string
  cl_manifest :: archive_manifest
  cl_index :: archive_index
  cl_ordinal :: u64

record record_ref =
  cr_path :: string
  cr_archive_ordinal :: u64
  cr_offset :: u64
  cr_capture_time_ns :: u64
  cr_payload_size :: u64
  cr_device :: device_id
  cr_sequence :: u32

record archive_collection =
  cx_archives :: "collection_entry list"
  cx_records :: "record_ref list"
  cx_records_by_device :: "(device_id, record_ref list) omap"
  cx_summary :: archive_summary

record search_options =
  se_query :: archive_query
  se_sort_by_time :: bool
  se_load_records :: bool

record search_result =
  sx_records :: "archive_record list"
  sx_refs :: "record_ref list"
  sx_stats :: query_stats

record coverage_window =
  cw_device :: device_id
  cw_first_time_ns :: u64
  cw_last_time_ns :: u64
  cw_record_count :: u64
  cw_archive_count :: u64

section \<open>Building\<close>

definition make_ref :: "collection_entry \<Rightarrow> archive_index_entry \<Rightarrow> record_ref" where
  "make_ref entry ix =
     \<lparr>cr_path = cl_path entry, cr_archive_ordinal = cl_ordinal entry, cr_offset = ix_offset ix,
      cr_capture_time_ns = ix_capture_time_ns ix, cr_payload_size = ix_payload_size ix,
      cr_device = ix_device ix, cr_sequence = ix_sequence ix\<rparr>"

definition add_record_ref :: "record_ref \<Rightarrow> archive_collection \<Rightarrow> archive_collection" where
  "add_record_ref ref c =
     (let s = cx_summary c;
          s = (if as_record_count s = 0
               then s\<lparr>as_first_time_ns := cr_capture_time_ns ref, as_last_time_ns := cr_capture_time_ns ref\<rparr>
               else s\<lparr>as_first_time_ns := min (as_first_time_ns s) (cr_capture_time_ns ref),
                      as_last_time_ns := max (as_last_time_ns s) (cr_capture_time_ns ref)\<rparr>)
      in c\<lparr>cx_records := cx_records c @ [ref],
           cx_records_by_device := om_update (cr_device ref)
             (om_get [] (cx_records_by_device c) (cr_device ref) @ [ref]) (cx_records_by_device c),
           cx_summary := s\<lparr>as_record_count := as_record_count s + 1\<rparr>\<rparr>)"

definition by_time :: "record_ref \<Rightarrow> u64 \<times> u64 \<times> u64" where
  "by_time ref = (cr_capture_time_ns ref, cr_archive_ordinal ref, cr_offset ref)"

definition sort_collection :: "archive_collection \<Rightarrow> archive_collection" where
  "sort_collection c =
     c\<lparr>cx_records := sort_key by_time (cx_records c),
       cx_records_by_device := om_map (\<lambda>device refs. sort_key by_time refs) (cx_records_by_device c)\<rparr>"

definition collection_of_entries :: "collection_entry list \<Rightarrow> archive_collection" where
  "collection_of_entries entries =
     sort_collection
       (fold (\<lambda>archive c. fold (\<lambda>ix c. add_record_ref (make_ref archive ix) c) (ai_records (cl_index archive)) c) entries
         \<lparr>cx_archives = entries, cx_records = [], cx_records_by_device = om_empty,
          cx_summary = archive_summary_default\<lparr>as_format_version := 1\<rparr>\<rparr>)"

definition open_archive_index :: "archive_files \<Rightarrow> string \<Rightarrow> error + archive_index" where
  "open_archive_index files path =
     (case files path of
        None \<Rightarrow> Inl (Error EC_archive_corrupt ''failed to open archive for reading'')
      | Some contents \<Rightarrow> build_archive_index contents)"

fun collection_entries :: "archive_files \<Rightarrow> u64 \<Rightarrow> string list \<Rightarrow> error + collection_entry list" where
  "collection_entries files ordinal [] = Inr []"
| "collection_entries files ordinal (path # paths) =
     err_bind (build_archive_manifest files path) (\<lambda>m.
     err_bind (open_archive_index files path) (\<lambda>index.
     err_bind (collection_entries files (ordinal + 1) paths) (\<lambda>entries.
       Inr (\<lparr>cl_path = path, cl_manifest = m, cl_index = index, cl_ordinal = ordinal\<rparr> # entries))))"

definition build_archive_collection :: "archive_files \<Rightarrow> string list \<Rightarrow> error + archive_collection" where
  "build_archive_collection files paths =
     err_bind (collection_entries files 0 paths) (\<lambda>entries. Inr (collection_of_entries entries))"

section \<open>Filtering\<close>

definition ref_matches_query :: "record_ref \<Rightarrow> archive_query \<Rightarrow> query_stats \<Rightarrow> bool \<times> query_stats" where
  "ref_matches_query ref query stats =
     (let stats = stats\<lparr>qs_scanned_records := qs_scanned_records stats + 1\<rparr>
      in if \<not> bounded_by (\<le>) (aq_start_time_ns query) (cr_capture_time_ns ref) then (False, count_time_skip stats)
         else if \<not> bounded_by (\<ge>) (aq_end_time_ns query) (cr_capture_time_ns ref) then (False, count_time_skip stats)
         else if \<not> bounded_by (=) (aq_device query) (cr_device ref) then (False, count_device_skip stats)
         else if \<not> bounded_by (\<le>) (aq_min_payload_size query) (unat (cr_payload_size ref))
         then (False, count_payload_skip stats)
         else if \<not> bounded_by (\<ge>) (aq_max_payload_size query) (unat (cr_payload_size ref))
         then (False, count_payload_skip stats)
         else (True, stats\<lparr>qs_matched_records := qs_matched_records stats + 1\<rparr>))"

text \<open>The list a query reads: all references, or those of its device; \<open>None\<close> if there are none.\<close>

definition query_source :: "archive_collection \<Rightarrow> archive_query \<Rightarrow> record_ref list option" where
  "query_source c query =
     (case aq_device query of
        None \<Rightarrow> Some (cx_records c)
      | Some device \<Rightarrow> om_lookup (cx_records_by_device c) device)"

fun filter_refs_loop :: "archive_query \<Rightarrow> record_ref list \<Rightarrow> record_ref list \<Rightarrow> record_ref list" where
  "filter_refs_loop query out [] = out"
| "filter_refs_loop query out (ref # refs) =
     (if fst (ref_matches_query ref query query_stats_default)
      then let out = out @ [ref]
           in if aq_limit query \<noteq> 0 \<and> length out \<ge> aq_limit query then out
              else filter_refs_loop query out refs
      else filter_refs_loop query out refs)"

definition filter_collection_refs :: "archive_collection \<Rightarrow> archive_query \<Rightarrow> record_ref list" where
  "filter_collection_refs c query =
     (case query_source c query of None \<Rightarrow> [] | Some source \<Rightarrow> filter_refs_loop query [] source)"

section \<open>Loading records\<close>

function load_loop :: "u64 \<Rightarrow> archive_reader \<Rightarrow> error + archive_record option" where
  "load_loop offset reader =
     (case ar_next reader of
        (Inl e, _) \<Rightarrow> Inl e
      | (Inr None, _) \<Rightarrow> Inr None
      | (Inr (Some r), reader') \<Rightarrow>
          if rec_offset r = offset then Inr (Some r)
          else if rec_offset r > offset then Inr None
          else load_loop offset reader')"
  by pat_completeness auto
termination
  by (relation "measure (\<lambda>(_, r). length (ar_file r) - ar_pos r)") (auto dest!: ar_next_progress [OF sym])

declare load_loop.simps [simp del]

definition load_record_at_offset :: "archive_files \<Rightarrow> string \<Rightarrow> u64 \<Rightarrow> error + archive_record option" where
  "load_record_at_offset files path offset =
     err_bind (open_archive files path) (\<lambda>reader. load_loop offset reader)"

definition load_collection_record :: "archive_files \<Rightarrow> record_ref \<Rightarrow> error + archive_record option" where
  "load_collection_record files ref =
     err_bind (load_record_at_offset files (cr_path ref) (cr_offset ref)) (\<lambda>found.
       case found of
         None \<Rightarrow> Inr None
       | Some r \<Rightarrow>
           if rec_capture_time_ns r \<noteq> cr_capture_time_ns ref \<or> p_device (rec_packet r) \<noteq> cr_device ref \<or>
              p_sequence (rec_packet r) \<noteq> cr_sequence ref
           then Inl (Error EC_archive_corrupt ''collection record reference does not match archive contents'')
           else Inr (Some r))"

section \<open>Searching\<close>

definition search_full :: "archive_query \<Rightarrow> search_result \<Rightarrow> bool" where
  "search_full query result \<longleftrightarrow> aq_limit query \<noteq> 0 \<and> length (sx_refs result) \<ge> aq_limit query"

definition take_ref :: "record_ref \<Rightarrow> archive_record option \<Rightarrow> search_result \<Rightarrow> search_result" where
  "take_ref ref loaded result =
     result\<lparr>sx_refs := sx_refs result @ [ref],
       sx_records := sx_records result @ (case loaded of None \<Rightarrow> [] | Some r \<Rightarrow> [r])\<rparr>"

fun search_loop ::
  "archive_files \<Rightarrow> search_options \<Rightarrow> search_result \<Rightarrow> record_ref list \<Rightarrow> error + search_result" where
  "search_loop files options result [] = Inr result"
| "search_loop files options result (ref # refs) =
     (let query = se_query options;
          (matched, stats) = ref_matches_query ref query (sx_stats result);
          result = result\<lparr>sx_stats := stats\<rparr>
      in if \<not> matched then search_loop files options result refs
         else (case aq_kind query of
             Some kind \<Rightarrow>
               err_bind (load_collection_record files ref) (\<lambda>loaded.
                 if \<not> (case loaded of None \<Rightarrow> False | Some r \<Rightarrow> p_kind (rec_packet r) = kind)
                 then search_loop files options
                   (result\<lparr>sx_stats := stats\<lparr>qs_matched_records := qs_matched_records stats - 1,
                      qs_skipped_by_kind := qs_skipped_by_kind stats + 1\<rparr>\<rparr>) refs
                 else let result = take_ref ref (if se_load_records options then loaded else None) result
                      in if search_full query result then Inr result
                         else search_loop files options result refs)
           | None \<Rightarrow>
               err_bind (if se_load_records options then load_collection_record files ref else Inr None) (\<lambda>loaded.
                 let result = take_ref ref loaded result
                 in if search_full query result then Inr result
                    else search_loop files options result refs)))"

definition search_archive_collection ::
  "archive_files \<Rightarrow> archive_collection \<Rightarrow> search_options \<Rightarrow> error + search_result" where
  "search_archive_collection files c options =
     (let start = \<lparr>sx_records = [], sx_refs = [], sx_stats = query_stats_default\<rparr>
      in case query_source c (se_query options) of
           None \<Rightarrow> Inr start
         | Some source \<Rightarrow>
             err_bind (search_loop files options start source) (\<lambda>result.
               Inr (if se_sort_by_time options
                    then result\<lparr>sx_records := sort_key rec_capture_time_ns (sx_records result),
                           sx_refs := sort_key cr_capture_time_ns (sx_refs result)\<rparr>
                    else result)))"

definition collection_record_at_or_after :: "archive_collection \<Rightarrow> u64 \<Rightarrow> record_ref option" where
  "collection_record_at_or_after c t =
     (case dropWhile (\<lambda>ref. cr_capture_time_ns ref < t) (cx_records c) of [] \<Rightarrow> None | ref # _ \<Rightarrow> Some ref)"

section \<open>Coverage\<close>

definition count_archives_for_refs :: "record_ref list \<Rightarrow> u64" where
  "count_archives_for_refs refs = of_nat (card (set (map cr_archive_ordinal refs)))"

definition coverage_of :: "device_id \<Rightarrow> record_ref list \<Rightarrow> coverage_window" where
  "coverage_of device refs =
     \<lparr>cw_device = device,
      cw_first_time_ns = fold (\<lambda>ref t. min t (cr_capture_time_ns ref)) refs (cr_capture_time_ns (hd refs)),
      cw_last_time_ns = fold (\<lambda>ref t. max t (cr_capture_time_ns ref)) refs (cr_capture_time_ns (hd refs)),
      cw_record_count = of_nat (length refs),
      cw_archive_count = count_archives_for_refs refs\<rparr>"

definition window_order :: "coverage_window \<Rightarrow> int \<times> device_id" where
  "window_order w = (- uint (cw_record_count w), cw_device w)"

definition collection_device_coverage :: "archive_collection \<Rightarrow> coverage_window list" where
  "collection_device_coverage c =
     sort_key window_order
       (map (\<lambda>p. coverage_of (fst p) (snd p))
         (filter (\<lambda>p. snd p \<noteq> []) (om_entries (cx_records_by_device c))))"

fun archives_of_refs :: "archive_collection \<Rightarrow> u64 set \<Rightarrow> record_ref list \<Rightarrow> string list" where
  "archives_of_refs c seen [] = []"
| "archives_of_refs c seen (ref # refs) =
     (if cr_archive_ordinal ref \<in> seen then archives_of_refs c seen refs
      else (case find (\<lambda>entry. cl_ordinal entry = cr_archive_ordinal ref) (cx_archives c) of
              None \<Rightarrow> [] | Some entry \<Rightarrow> [cl_path entry]) @
           archives_of_refs c (insert (cr_archive_ordinal ref) seen) refs)"

definition collection_archives_for_device :: "archive_collection \<Rightarrow> device_id \<Rightarrow> string list" where
  "collection_archives_for_device c device =
     (case om_lookup (cx_records_by_device c) device of
        None \<Rightarrow> [] | Some refs \<Rightarrow> archives_of_refs c {} refs)"

section \<open>Text output\<close>

definition render_archive_collection :: "archive_collection \<Rightarrow> string" where
  "render_archive_collection c =
     ''archive_collection'' @ newline @
     ''  archives: '' @ dec_nat (length (cx_archives c)) @ newline @
     ''  records: '' @ dec_nat (length (cx_records c)) @ newline @
     ''  first_time_ns: '' @ dec (as_first_time_ns (cx_summary c)) @ newline @
     ''  last_time_ns: '' @ dec (as_last_time_ns (cx_summary c)) @ newline @
     concat (map (\<lambda>a. ''  archive: '' @ cl_path a @
       '' ordinal='' @ dec (cl_ordinal a) @
       '' records='' @ dec_nat (length (ai_records (cl_index a))) @
       '' first_time_ns='' @ dec (as_first_time_ns (am_summary (cl_manifest a))) @
       '' last_time_ns='' @ dec (as_last_time_ns (am_summary (cl_manifest a))) @ newline) (cx_archives c))"

definition render_collection_search_result :: "search_result \<Rightarrow> string" where
  "render_collection_search_result result =
     ''collection_search_result'' @ newline @
     ''  refs: '' @ dec_nat (length (sx_refs result)) @ newline @
     ''  records: '' @ dec_nat (length (sx_records result)) @ newline @
     ''  scanned_records: '' @ dec (qs_scanned_records (sx_stats result)) @ newline @
     ''  matched_records: '' @ dec (qs_matched_records (sx_stats result)) @ newline @
     concat (map (\<lambda>ref. ''  ref: '' @ cr_path ref @
       '' ordinal='' @ dec (cr_archive_ordinal ref) @
       '' offset='' @ dec (cr_offset ref) @
       '' capture_time_ns='' @ dec (cr_capture_time_ns ref) @
       '' device='' @ dec (cr_device ref) @
       '' sequence='' @ dec (cr_sequence ref) @ newline) (sx_refs result))"

definition render_collection_coverage :: "coverage_window list \<Rightarrow> string" where
  "render_collection_coverage windows =
     ''collection_coverage'' @ newline @
     concat (map (\<lambda>w. ''  device: '' @ dec (cw_device w) @
       '' records='' @ dec (cw_record_count w) @
       '' archives='' @ dec (cw_archive_count w) @
       '' first_time_ns='' @ dec (cw_first_time_ns w) @
       '' last_time_ns='' @ dec (cw_last_time_ns w) @ newline) windows)"

section \<open>Stable sorting\<close>

text \<open>A stable sort of a list that is in the order of \<open>g\<close> breaks ties by \<open>g\<close>.\<close>

lemma sort_key_ties:
  fixes f :: "'a \<Rightarrow> 'k::linorder" and g :: "'a \<Rightarrow> 'l::linorder"
  assumes "sorted (map g xs)"
  shows "sort_key f xs = sort_key (\<lambda>x. (f x, g x)) xs"
proof (rule properties_for_sort_key)
  let ?ys = "sort_key (\<lambda>x. (f x, g x)) xs"
  show "mset ?ys = mset xs" by simp
  have "sorted (map (\<lambda>x. (f x, g x)) ?ys)" by (rule sorted_sort_key)
  then have "sorted_wrt (\<lambda>x y. (f x, g x) \<le> (f y, g y)) ?ys" by (simp add: sorted_wrt_map)
  then have "sorted_wrt (\<lambda>x y. f x \<le> f y) ?ys" by (rule sorted_wrt_mono_rel [rotated]) auto
  then show "sorted (map f ?ys)" by (simp add: sorted_wrt_map)
  show "filter (\<lambda>x. f k = f x) ?ys = filter (\<lambda>x. f k = f x) xs" for k
  proof -
    have "sorted_wrt (\<lambda>x y. g x \<le> g y) xs" using assms by (simp add: sorted_wrt_map)
    then have "sorted_wrt (\<lambda>x y. g x \<le> g y) (filter (\<lambda>x. f k = f x) xs)" by (rule sorted_wrt_filter)
    then have "sorted (map (\<lambda>x. (f x, g x)) (filter (\<lambda>x. f k = f x) xs))"
      unfolding sorted_wrt_map by (rule sorted_wrt_mono_rel [rotated]) auto
    then show ?thesis by (simp add: filter_sort sort_key_id_if_sorted)
  qed
qed

lemma sort_key_transport:
  assumes "mset xs = mset (map h zs)" and "inj_on k (h ` set zs)"
  shows "sort_key k xs = map h (sort_key (k \<circ> h) zs)"
proof (rule sort_key_inj_key_eq)
  show "mset xs = mset (map h (sort_key (k \<circ> h) zs))" using assms(1) by simp
  show "inj_on k (set xs)" using assms(2) mset_eq_setD [OF assms(1)] by simp
  show "sorted (map k (map h (sort_key (k \<circ> h) zs)))"
    using sorted_sort_key [of "k \<circ> h" zs] by (simp add: comp_def)
qed

section \<open>Records and their offsets\<close>

definition file_records :: "archive_files \<Rightarrow> string \<Rightarrow> archive_record list" where
  "file_records files path =
     (case err_bind (open_archive files path) ar_records of Inl _ \<Rightarrow> [] | Inr records \<Rightarrow> records)"

lemma next_offset: "ar_next reader = (Inr (Some r), reader') \<Longrightarrow> rec_offset r = of_nat (ar_pos reader)"
  by (auto simp: ar_next_def split: if_splits sum.splits prod.splits)

lemma records_offsets:
  "ar_records reader = Inr rs \<Longrightarrow> length (ar_file reader) < 18446744073709551616 \<Longrightarrow>
   sorted_wrt (\<lambda>a b. rec_offset a < rec_offset b) rs \<and> (\<forall>r \<in> set rs. of_nat (ar_pos reader) \<le> rec_offset r)"
proof (induction rs arbitrary: reader)
  case (Cons r rs)
  then obtain reader' where nx: "ar_next reader = (Inr (Some r), reader')" and rest: "ar_records reader' = Inr rs"
    by (blast elim: ar_records_Cons)
  have step: "ar_file reader' = ar_file reader" "ar_pos reader < ar_pos reader'" "ar_pos reader' \<le> length (ar_file reader)"
    using ar_next_progress [OF nx] by simp_all
  have IH: "sorted_wrt (\<lambda>a b. rec_offset a < rec_offset b) rs" "\<forall>r \<in> set rs. of_nat (ar_pos reader') \<le> rec_offset r"
    using Cons.IH [OF rest] Cons.prems(2) step(1) by simp_all
  have "(of_nat (ar_pos reader) :: u64) < of_nat (ar_pos reader')"
    using step Cons.prems(2) by (simp add: word_less_nat_alt unat_of_nat_u64)
  then have "of_nat (ar_pos reader) < rec_offset r'" if "r' \<in> set rs" for r'
    using IH(2) that by (auto intro: less_le_trans)
  with IH(1) next_offset [OF nx] show ?case by (auto intro: less_imp_le)
qed simp

lemma load_loop_found:
  "ar_records reader = Inr rs \<Longrightarrow> sorted_wrt (\<lambda>a b. rec_offset a < rec_offset b) rs \<Longrightarrow> r \<in> set rs \<Longrightarrow>
   load_loop (rec_offset r) reader = Inr (Some r)"
proof (induction rs arbitrary: reader)
  case (Cons r' rs)
  then obtain reader' where nx: "ar_next reader = (Inr (Some r'), reader')" and rest: "ar_records reader' = Inr rs"
    by (blast elim: ar_records_Cons)
  show ?case
  proof (cases "r = r'")
    case True
    then show ?thesis by (simp add: load_loop.simps [of _ reader] nx)
  next
    case False
    with Cons.prems have lt: "rec_offset r' < rec_offset r" and "r \<in> set rs" by auto
    with Cons.IH [OF rest] Cons.prems(2) have "load_loop (rec_offset r) reader' = Inr (Some r)" by simp
    with less_imp_neq [OF lt] less_not_sym [OF lt] show ?thesis by (simp add: load_loop.simps [of _ reader] nx)
  qed
qed simp

definition files_fit :: "archive_files \<Rightarrow> bool" where
  "files_fit files \<longleftrightarrow> (\<forall>path contents. files path = Some contents \<longrightarrow> length contents < 18446744073709551616)"

lemma file_records_reader:
  assumes "files_fit files" and "open_archive files path = Inr reader" and "ar_records reader = Inr rs"
  shows "file_records files path = rs" and "sorted_wrt (\<lambda>a b. rec_offset a < rec_offset b) rs"
proof -
  show "file_records files path = rs" using assms(2,3) by (simp add: file_records_def)
  have "length (ar_file reader) < 18446744073709551616"
    using assms(1,2) by (auto simp: open_archive_def files_fit_def ar_open_file split: option.splits)
  with records_offsets [OF assms(3)] show "sorted_wrt (\<lambda>a b. rec_offset a < rec_offset b) rs" by blast
qed

definition ref_of :: "string \<Rightarrow> u64 \<Rightarrow> archive_record \<Rightarrow> record_ref" where
  "ref_of path ordinal r =
     \<lparr>cr_path = path, cr_archive_ordinal = ordinal, cr_offset = rec_offset r,
      cr_capture_time_ns = rec_capture_time_ns r, cr_payload_size = of_nat (length (p_payload (rec_packet r))),
      cr_device = p_device (rec_packet r), cr_sequence = p_sequence (rec_packet r)\<rparr>"

lemma make_ref_index: "make_ref entry (index_entry r) = ref_of (cl_path entry) (cl_ordinal entry) r"
  by (simp add: make_ref_def index_entry_def ref_of_def)

lemma load_ref:
  assumes "files_fit files" and "open_archive files path = Inr reader" and "ar_records reader = Inr rs" and "r \<in> set rs"
  shows "load_collection_record files (ref_of path ordinal r) = Inr (Some r)"
  using load_loop_found [OF assms(3) file_records_reader(2) [OF assms(1-3)] assms(4)] assms(2)
  by (simp add: load_collection_record_def load_record_at_offset_def ref_of_def)

section \<open>What a collection holds\<close>

fun numbered :: "u64 \<Rightarrow> string list \<Rightarrow> (u64 \<times> string) list" where
  "numbered n [] = []"
| "numbered n (p # ps) = (n, p) # numbered (n + 1) ps"

lemma numbered_paths: "map snd (numbered n paths) = paths"
  by (induction n paths rule: numbered.induct) simp_all

lemma numbered_sorted:
  "unat n + length paths \<le> 18446744073709551615 \<Longrightarrow>
   sorted_wrt (<) (map fst (numbered n paths)) \<and> (\<forall>x \<in> set (numbered n paths). n \<le> fst x)"
proof (induction n paths rule: numbered.induct)
  case (2 n p ps)
  then have "unat n + 1 < 2 ^ LENGTH(64)" by simp
  then have suc: "unat (n + 1) = unat n + 1" by (simp add: unat_word_ariths)
  then have lt: "n < n + 1" by (simp add: word_less_nat_alt)
  have IH: "sorted_wrt (<) (map fst (numbered (n + 1) ps))" "\<forall>x \<in> set (numbered (n + 1) ps). n + 1 \<le> fst x"
    using 2 suc by simp_all
  have "n < fst x" if "x \<in> set (numbered (n + 1) ps)" for x
    using IH(2) that lt by (auto intro: less_le_trans)
  with IH(1) show ?case by (auto intro: less_imp_le)
qed simp

lemma collection_entries_run:
  "collection_entries files n paths = Inr entries \<Longrightarrow>
   map (\<lambda>e. (cl_ordinal e, cl_path e)) entries = numbered n paths \<and>
   (\<forall>e \<in> set entries. \<exists>reader. open_archive files (cl_path e) = Inr reader \<and>
      ar_records reader = Inr (file_records files (cl_path e)) \<and>
      ai_records (cl_index e) = sort_key index_order (map index_entry (file_records files (cl_path e))))"
proof (induction n paths arbitrary: entries rule: numbered.induct)
  case (2 n p ps)
  then obtain m index rest where m: "build_archive_manifest files p = Inr m" "open_archive_index files p = Inr index"
    "collection_entries files (n + 1) ps = Inr rest"
    and entries: "entries = \<lparr>cl_path = p, cl_manifest = m, cl_index = index, cl_ordinal = n\<rparr> # rest"
    by (auto simp: err_bind_Inr_iff)
  from m(1) obtain contents reader records where r: "files p = Some contents" "ar_open contents = Inr reader"
    "ar_records reader = Inr records" by (rule build_manifest_records)
  have "open_archive files p = Inr reader" using r by (simp add: open_archive_def)
  moreover from this have "file_records files p = records" using r by (simp add: file_records_def)
  moreover have "ai_records index = sort_key index_order (map index_entry records)"
    using index_records r m(2) by (simp add: open_archive_index_def)
  ultimately show ?case using "2.IH" [OF m(3)] r(3) by (auto simp: entries)
qed simp

definition all_refs :: "collection_entry list \<Rightarrow> record_ref list" where
  "all_refs entries = concat (map (\<lambda>e. map (make_ref e) (ai_records (cl_index e))) entries)"

lemma nested_add:
  "fold (\<lambda>archive c. fold (\<lambda>ix c. add_record_ref (make_ref archive ix) c) (ai_records (cl_index archive)) c) entries c =
   fold add_record_ref (all_refs entries) c"
  by (induction entries arbitrary: c) (simp_all add: all_refs_def fold_map comp_def)

lemma added_refs:
  "cx_records (fold add_record_ref refs c) = cx_records c @ refs"
  "cx_archives (fold add_record_ref refs c) = cx_archives c"
  by (induction refs arbitrary: c) (simp_all add: add_record_ref_def Let_def)

lemma added_by_device:
  assumes "cx_records_by_device c = om_empty"
  shows "om_lookup (cx_records_by_device (fold add_record_ref refs c)) d =
    (if d \<in> cr_device ` set refs then Some (filter (\<lambda>ref. cr_device ref = d) refs) else None)"
proof (induction refs rule: rev_induct)
  case (snoc ref refs)
  have none: "filter (\<lambda>ref. cr_device ref = d) refs = []" if "d \<notin> cr_device ` set refs"
    using that by (auto simp: filter_empty_conv)
  show ?case
  proof (cases "cr_device ref = d")
    case True
    then show ?thesis
      using snoc none by (cases "d \<in> cr_device ` set refs") (simp_all add: add_record_ref_def Let_def om_get_def)
  next
    case False
    with snoc show ?thesis by (simp add: add_record_ref_def Let_def image_iff)
  qed
qed (simp add: assms)

lemma collection_parts:
  "cx_records (collection_of_entries entries) = sort_key by_time (all_refs entries)"
  "om_lookup (cx_records_by_device (collection_of_entries entries)) d =
     (if d \<in> cr_device ` set (all_refs entries)
      then Some (sort_key by_time (filter (\<lambda>ref. cr_device ref = d) (all_refs entries))) else None)"
  by (simp_all add: collection_of_entries_def sort_collection_def nested_add added_refs added_by_device)

lemma collection_source:
  "query_source (collection_of_entries entries) query =
     (if \<exists>device. aq_device query = Some device \<and> device \<notin> cr_device ` set (all_refs entries) then None
      else Some (sort_key by_time
        (filter (\<lambda>ref. bounded_by (=) (aq_device query) (cr_device ref)) (all_refs entries))))"
  by (auto simp: query_source_def collection_parts bounded_by_def eq_commute [of _ "cr_device _"] split: option.split)

section \<open>What a search finds\<close>

abbreviation ref_accepted :: "archive_query \<Rightarrow> record_ref \<Rightarrow> bool" where
  "ref_accepted query ref \<equiv> fst (ref_matches_query ref query query_stats_default)"

lemma ref_matches_stats:
  "fst (ref_matches_query ref query stats) = ref_accepted query ref"
  "qs_matched_records (snd (ref_matches_query ref query stats)) = qs_matched_records stats + of_bool (ref_accepted query ref)"
  "qs_scanned_records (snd (ref_matches_query ref query stats)) = qs_scanned_records stats + 1"
  "balanced stats \<Longrightarrow> balanced (snd (ref_matches_query ref query stats))"
  by (auto simp: ref_matches_query_def Let_def balanced_def count_time_skip_def count_device_skip_def
      count_payload_skip_def)

lemma ref_accepted_record:
  assumes "length (p_payload (rec_packet r)) < 18446744073709551616"
  shows "ref_accepted query (ref_of path n r) \<and> bounded_by (=) (aq_kind query) (p_kind (rec_packet r)) \<longleftrightarrow>
    record_accepted query r"
  using assms by (auto simp: ref_matches_query_def ref_of_def query_accepts_def Let_def unat_of_nat_u64)

definition search_ok :: "search_result \<Rightarrow> bool" where
  "search_ok result \<longleftrightarrow> balanced (sx_stats result) \<and>
     qs_matched_records (sx_stats result) = of_nat (length (sx_refs result)) \<and>
     length (sx_records result) = length (sx_refs result)"

lemma search_loop_step:
  assumes "load_collection_record files ref = Inr (Some r)" and "se_load_records options"
    and "aq_limit (se_query options) = 0" and "search_ok result"
  shows "\<exists>result'. search_loop files options result (ref # refs) = search_loop files options result' refs \<and>
    search_ok result' \<and>
    sx_records result' = sx_records result @ (if ref_accepted (se_query options) ref \<and>
      bounded_by (=) (aq_kind (se_query options)) (p_kind (rec_packet r)) then [r] else [])"
proof -
  obtain st where split: "ref_matches_query ref (se_query options) (sx_stats result) =
      (ref_accepted (se_query options) ref, st)"
    using ref_matches_stats(1) [of ref "se_query options" "sx_stats result"]
    by (cases "ref_matches_query ref (se_query options) (sx_stats result)") simp
  note stats = ref_matches_stats [where ref = ref and query = "se_query options" and stats = "sx_stats result", unfolded split]
  have matched: "qs_matched_records st = qs_matched_records (sx_stats result) + of_bool (ref_accepted (se_query options) ref)"
    using stats(2) by simp
  have bal: "balanced st" using stats(4) assms(4) by (simp add: search_ok_def)
  show ?thesis
  proof (cases "ref_accepted (se_query options) ref")
    case False
    then show ?thesis
      using assms(4) bal matched by (intro exI [of _ "result\<lparr>sx_stats := st\<rparr>"])
        (simp add: split search_ok_def)
  next
    case True
    let ?take = "take_ref ref (Some r) (result\<lparr>sx_stats := st\<rparr>)"
    let ?skip = "result\<lparr>sx_stats := st\<lparr>qs_matched_records := qs_matched_records st - 1,
        qs_skipped_by_kind := qs_skipped_by_kind st + 1\<rparr>\<rparr>"
    have "search_ok ?take" using assms(4) bal matched True by (simp add: search_ok_def take_ref_def)
    moreover have "search_ok ?skip"
      using assms(4) bal matched True by (simp add: search_ok_def balanced_def)
    moreover have "\<not> search_full (se_query options) ?take" by (simp add: search_full_def assms(3))
    moreover have "sx_records ?take = sx_records result @ [r]" "sx_records ?skip = sx_records result"
      by (simp_all add: take_ref_def)
    ultimately show ?thesis
      using True assms(1,2)
      by (cases "bounded_by (=) (aq_kind (se_query options)) (p_kind (rec_packet r))")
        (auto simp: split bounded_by_def Let_def split: option.split)
  qed
qed

lemma search_loop_all:
  assumes "se_load_records options" and "aq_limit (se_query options) = 0"
  shows "search_ok result \<Longrightarrow>
   \<forall>x \<in> set xs. load_collection_record files (h x) = Inr (Some (snd x)) \<Longrightarrow>
   \<exists>result'. search_loop files options result (map h xs) = Inr result' \<and> search_ok result' \<and>
     sx_records result' = sx_records result @ map snd (filter (\<lambda>x. ref_accepted (se_query options) (h x) \<and>
       bounded_by (=) (aq_kind (se_query options)) (p_kind (rec_packet (snd x)))) xs)"
proof (induction xs arbitrary: result)
  case (Cons x xs)
  from search_loop_step [OF _ assms Cons.prems(1), of files "h x" "snd x" "map h xs"] Cons.prems(2)
  obtain result1 where step: "search_loop files options result (h x # map h xs) = search_loop files options result1 (map h xs)"
    and ok: "search_ok result1" and recs: "sx_records result1 = sx_records result @
      (if ref_accepted (se_query options) (h x) \<and>
        bounded_by (=) (aq_kind (se_query options)) (p_kind (rec_packet (snd x))) then [snd x] else [])" by auto
  from Cons.IH [OF ok] Cons.prems(2) step recs show ?case by auto
qed simp

lemma insort_key_map: "insort_key f (h x) (map h xs) = map h (insort_key (f \<circ> h) x xs)"
  by (induction xs) auto

lemma sort_key_map: "sort_key f (map h xs) = map h (sort_key (f \<circ> h) xs)"
  by (induction xs) (simp_all add: insort_key_map [unfolded comp_def] comp_def)

text \<open>The records of the files, numbered as the collection numbers them, in the order read.\<close>

type_synonym numbered_record = "(u64 \<times> string) \<times> archive_record"

definition numbered_records :: "archive_files \<Rightarrow> (u64 \<times> string) list \<Rightarrow> numbered_record list" where
  "numbered_records files xs = concat (map (\<lambda>x. map (Pair x) (file_records files (snd x))) xs)"

definition numbered_ref :: "numbered_record \<Rightarrow> record_ref" where
  "numbered_ref x = ref_of (snd (fst x)) (fst (fst x)) (snd x)"

definition numbered_order :: "numbered_record \<Rightarrow> u64 \<times> u64" where
  "numbered_order x = (fst (fst x), rec_offset (snd x))"

lemma set_numbered_records:
  "x \<in> set (numbered_records files xs) \<longleftrightarrow> fst x \<in> set xs \<and> snd x \<in> set (file_records files (snd (fst x)))"
  by (cases x) (auto simp: numbered_records_def)

lemma by_time_numbered: "by_time (numbered_ref x) = (rec_capture_time_ns (snd x), numbered_order x)"
  by (simp add: by_time_def numbered_ref_def ref_of_def numbered_order_def)

lemma numbered_records_sorted:
  "sorted_wrt (<) (map fst xs) \<Longrightarrow>
   \<forall>x \<in> set xs. sorted_wrt (\<lambda>a b. rec_offset a < rec_offset b) (file_records files (snd x)) \<Longrightarrow>
   sorted_wrt (\<lambda>x y. numbered_order x < numbered_order y) (numbered_records files xs)"
proof (induction xs)
  case (Cons x xs)
  have "sorted_wrt (\<lambda>x y. numbered_order x < numbered_order y) (map (Pair x) (file_records files (snd x)))"
    using Cons.prems(2) by (simp add: sorted_wrt_map numbered_order_def)
  moreover have "numbered_order a < numbered_order b"
    if "a \<in> set (map (Pair x) (file_records files (snd x)))" "b \<in> set (numbered_records files xs)" for a b
    using that Cons.prems(1) by (auto simp: set_numbered_records numbered_order_def)
  moreover have "sorted_wrt (\<lambda>x y. numbered_order x < numbered_order y) (numbered_records files xs)"
    using Cons by simp
  ultimately show ?case by (simp add: numbered_records_def sorted_wrt_append)
qed (simp add: numbered_records_def)

lemma all_refs_numbered:
  assumes "\<forall>e \<in> set entries. ai_records (cl_index e) =
    sort_key index_order (map index_entry (file_records files (cl_path e)))"
  shows "mset (all_refs entries) =
    mset (map numbered_ref (numbered_records files (map (\<lambda>e. (cl_ordinal e, cl_path e)) entries)))"
  using assms
proof (induction entries)
  case (Cons e es)
  then have "mset (map (make_ref e) (ai_records (cl_index e))) =
      mset (map (\<lambda>r. numbered_ref ((cl_ordinal e, cl_path e), r)) (file_records files (cl_path e)))"
    by (simp add: image_mset.compositionality comp_def make_ref_index numbered_ref_def)
  with Cons show ?case by (simp add: all_refs_def numbered_records_def comp_def)
qed (simp add: all_refs_def numbered_records_def)

text \<open>Sorting the references is sorting the numbered records, by time alone, stably.\<close>

lemma sort_refs:
  assumes "mset refs = mset (map numbered_ref xs)"
    and "sorted_wrt (\<lambda>x y. numbered_order x < numbered_order y) xs"
  shows "sort_key by_time refs = map numbered_ref (sort_key (rec_capture_time_ns \<circ> snd) xs)"
proof -
  have ordered: "sorted (map numbered_order xs)"
    unfolding sorted_wrt_map by (rule sorted_wrt_mono_rel [OF _ assms(2)]) (rule less_imp_le)
  have "by_time \<circ> numbered_ref = (\<lambda>x. ((rec_capture_time_ns \<circ> snd) x, numbered_order x))"
    by (simp add: fun_eq_iff by_time_numbered)
  then have "sort_key (rec_capture_time_ns \<circ> snd) xs = sort_key (by_time \<circ> numbered_ref) xs"
    using sort_key_ties [OF ordered, of "rec_capture_time_ns \<circ> snd"] by (simp only:)
  moreover have "inj_on numbered_order (set xs)"
  proof -
    have "sorted_wrt (<) (map numbered_order xs)" using assms(2) by (simp add: sorted_wrt_map)
    then have "distinct (map numbered_order xs)" by (rule strict_sorted_iff [THEN iffD1, THEN conjunct2])
    then show ?thesis by (simp add: distinct_map)
  qed
  then have "inj_on by_time (numbered_ref ` set xs)"
    by (intro inj_on_imageI) (auto simp: inj_on_def by_time_numbered comp_def)
  ultimately show ?thesis using sort_key_transport [OF assms(1)] by simp
qed

lemma filter_numbered:
  "map snd (filter (\<lambda>x. A (snd x)) (numbered_records files xs)) =
     concat (map (\<lambda>path. filter A (file_records files path)) (map snd xs))"
  by (induction xs) (simp_all add: numbered_records_def filter_map comp_def)

lemma collection_numbered:
  assumes "collection_entries files 0 paths = Inr entries" and "files_fit files" and "length paths < 18446744073709551616"
  shows "mset (all_refs entries) = mset (map numbered_ref (numbered_records files (numbered 0 paths)))"
    and "sorted_wrt (\<lambda>x y. numbered_order x < numbered_order y) (numbered_records files (numbered 0 paths))"
    and "x \<in> set (numbered_records files (numbered 0 paths)) \<Longrightarrow>
      load_collection_record files (numbered_ref x) = Inr (Some (snd x)) \<and> snd (fst x) \<in> set paths"
proof -
  note run = collection_entries_run [OF assms(1)]
  have reader: "\<exists>reader. open_archive files (snd y) = Inr reader \<and> ar_records reader = Inr (file_records files (snd y))"
    if "y \<in> set (numbered 0 paths)" for y
    using conjunct2 [OF run] that unfolding conjunct1 [OF run, symmetric] by auto
  show "mset (all_refs entries) = mset (map numbered_ref (numbered_records files (numbered 0 paths)))"
    unfolding conjunct1 [OF run, symmetric] by (rule all_refs_numbered) (use conjunct2 [OF run] in blast)
  have "sorted_wrt (\<lambda>a b. rec_offset a < rec_offset b) (file_records files (snd y))"
    if "y \<in> set (numbered 0 paths)" for y
    using reader [OF that] file_records_reader(2) [OF assms(2)] by auto
  moreover have "sorted_wrt (<) (map fst (numbered 0 paths))" using numbered_sorted [of 0 paths] assms(3) by simp
  ultimately show "sorted_wrt (\<lambda>x y. numbered_order x < numbered_order y) (numbered_records files (numbered 0 paths))"
    by (intro numbered_records_sorted) simp_all
  assume x: "x \<in> set (numbered_records files (numbered 0 paths))"
  then have fx: "fst x \<in> set (numbered 0 paths)" by (simp add: set_numbered_records)
  then have "snd (fst x) \<in> set (map snd (numbered 0 paths))" by simp
  with load_ref [OF assms(2)] reader [OF fx] x
  show "load_collection_record files (numbered_ref x) = Inr (Some (snd x)) \<and> snd (fst x) \<in> set paths"
    unfolding numbered_paths by (auto simp: set_numbered_records numbered_ref_def)
qed

section \<open>Properties\<close>

text \<open>
  C25. Searching a collection of archives is querying every archive and merging what they return by
  time: the references of the index are loaded again from their files, filtered by all criteria of
  the query, the packet kind included, and come out in the order of capture time, archives in the
  given order and records in file order for equal times. The counters balance.
\<close>

theorem collection_search_merges:
  assumes "build_archive_collection files paths = Inr c" and "files_fit files"
    and "length paths < 18446744073709551616"
    and "\<forall>path \<in> set paths. \<forall>r \<in> set (file_records files path). length (p_payload (rec_packet r)) < 18446744073709551616"
    and "aq_limit (se_query options) = 0" and "se_load_records options" and "se_sort_by_time options"
  shows "\<exists>result. search_archive_collection files c options = Inr result \<and>
    sx_records result = sort_key rec_capture_time_ns
      (concat (map (\<lambda>path. filter (record_accepted (se_query options)) (file_records files path)) paths)) \<and>
    qs_matched_records (sx_stats result) = of_nat (length (sx_records result)) \<and> balanced (sx_stats result)"
proof -
  let ?q = "se_query options" and ?P = "numbered_records files (numbered 0 paths)"
  let ?dev = "\<lambda>ref. bounded_by (=) (aq_device ?q) (cr_device ref)"
  let ?start = "\<lparr>sx_records = [], sx_refs = [], sx_stats = query_stats_default\<rparr>"
  obtain entries where e: "collection_entries files 0 paths = Inr entries" and c: "c = collection_of_entries entries"
    using assms(1) by (auto simp: build_archive_collection_def err_bind_Inr_iff)
  note P = collection_numbered [OF e assms(2,3)]
  define Q where "Q = sort_key (rec_capture_time_ns \<circ> snd) (filter (?dev \<circ> numbered_ref) ?P)"
  have "mset (filter ?dev (all_refs entries)) = mset (map numbered_ref (filter (?dev \<circ> numbered_ref) ?P))"
    using P(1) by (metis filter_map mset_filter)
  then have source: "sort_key by_time (filter ?dev (all_refs entries)) = map numbered_ref Q"
    using sort_refs sorted_wrt_filter [OF P(2)] unfolding Q_def by blast
  have query: "query_source c ?q = None \<and> Q = [] \<or> query_source c ?q = Some (map numbered_ref Q)"
  proof (cases "\<exists>device. aq_device ?q = Some device \<and> device \<notin> cr_device ` set (all_refs entries)")
    case True
    then have "filter ?dev (all_refs entries) = []" by (auto simp: bounded_by_def filter_empty_conv)
    with source True show ?thesis by (simp add: c collection_source)
  next
    case False
    then show ?thesis unfolding c collection_source source by (simp only: if_False simp_thms)
  qed
  have "search_ok ?start" by (simp add: search_ok_def balanced_def query_stats_default_def)
  moreover have "\<forall>x \<in> set Q. load_collection_record files (numbered_ref x) = Inr (Some (snd x))"
    using P(3) by (simp add: Q_def)
  ultimately obtain result where run: "search_loop files options ?start (map numbered_ref Q) = Inr result"
    and ok: "search_ok result" and recs: "sx_records result = map snd (filter (\<lambda>x. ref_accepted ?q (numbered_ref x) \<and>
      bounded_by (=) (aq_kind ?q) (p_kind (rec_packet (snd x)))) Q)"
    using search_loop_all [OF assms(6,5), of ?start Q files numbered_ref] by auto
  have accepted: "ref_accepted ?q (numbered_ref x) \<and> bounded_by (=) (aq_kind ?q) (p_kind (rec_packet (snd x))) \<longleftrightarrow>
      record_accepted ?q (snd x)" if "x \<in> set ?P" for x
  proof -
    have "length (p_payload (rec_packet (snd x))) < 18446744073709551616"
      using P(3) [OF that] that assms(4) by (auto simp: set_numbered_records)
    from ref_accepted_record [OF this] show ?thesis by (simp add: numbered_ref_def)
  qed
  have "sx_records result = map snd (filter (\<lambda>x. record_accepted ?q (snd x)) Q)"
    unfolding recs using accepted by (intro arg_cong [where f = "map snd"] filter_cong) (simp_all add: Q_def)
  also have "filter (\<lambda>x. record_accepted ?q (snd x)) Q =
      sort_key (rec_capture_time_ns \<circ> snd) (filter (\<lambda>x. record_accepted ?q (snd x)) ?P)"
    by (auto simp: Q_def filter_sort query_accepts_def numbered_ref_def ref_of_def
        intro!: arg_cong [where f = "sort_key (rec_capture_time_ns \<circ> snd)"] filter_cong)
  also have "map snd \<dots> = sort_key rec_capture_time_ns (map snd (filter (\<lambda>x. record_accepted ?q (snd x)) ?P))"
    by (simp add: sort_key_map)
  finally have records: "sx_records result = sort_key rec_capture_time_ns
      (concat (map (\<lambda>path. filter (record_accepted ?q) (file_records files path)) paths))"
    by (simp only: filter_numbered [where A = "record_accepted ?q"] numbered_paths)
  let ?sorted = "result\<lparr>sx_records := sort_key rec_capture_time_ns (sx_records result),
      sx_refs := sort_key cr_capture_time_ns (sx_refs result)\<rparr>"
  have "search_archive_collection files c options = Inr ?sorted \<or>
      search_archive_collection files c options = Inr ?start \<and> result = ?start"
    using query run assms(7) by (auto simp: search_archive_collection_def)
  moreover have "sort_key rec_capture_time_ns (sx_records result) = sx_records result"
    unfolding records by (simp add: sort_key_id_if_sorted)
  ultimately show ?thesis
    using ok records by (auto simp: search_ok_def)
qed

lemma limit_accepts: "query_accepts (query\<lparr>aq_limit := n\<rparr>) t p = query_accepts query t p"
  by (simp add: query_accepts_def)

definition load_heartbeats :: search_options where
  "load_heartbeats = \<lparr>se_query = beacon_query\<lparr>aq_limit := 0\<rparr>, se_sort_by_time = True, se_load_records = True\<rparr>"

lemma sample_files_fit: "files_fit sample_files"
  using sample_archive_length
  by (auto simp: files_fit_def sample_files_def archive_of_def aw_close_def aw_write_all_def aw_open_def
      aw_append_all_def overwrite_def split: if_splits)

lemma collection_search_merges_witness:
  "\<exists>c result. build_archive_collection sample_files [''b.ath'', ''a.ath''] = Inr c \<and>
     search_archive_collection sample_files c load_heartbeats = Inr result \<and>
     map capture_of (sx_records result) = [(3, beacon)]"
proof -
  have files: "sample_files ''a.ath'' = Some (archive_of sample_captures)" "sample_files ''b.ath'' = Some (archive_of [])"
    by (simp_all add: sample_files_def)
  obtain ra where a: "ar_open (archive_of sample_captures) = Inr ra" "ar_records ra = Inr (records_from 36 sample_captures)"
    using archive_reads [OF sample_storable] .
  have "storable []" by (simp add: storable_def)
  then obtain rb where b: "ar_open (archive_of []) = Inr rb" "ar_records rb = Inr (records_from 36 [])"
    using archive_reads by blast
  obtain catalog where "build_catalog sample_files [''b.ath'', ''a.ath''] = Inr catalog" by (rule sample_catalog)
  then obtain ma mb where m: "build_archive_manifest sample_files ''a.ath'' = Inr ma" "build_archive_manifest sample_files ''b.ath'' = Inr mb"
    by (auto simp: build_catalog_def err_bind_Inr_iff)
  obtain ia ib where i: "open_archive_index sample_files ''a.ath'' = Inr ia" "open_archive_index sample_files ''b.ath'' = Inr ib"
    using files a b by (simp add: open_archive_index_def build_archive_index_def Let_def)
  from m i obtain c where c: "build_archive_collection sample_files [''b.ath'', ''a.ath''] = Inr c"
    by (simp add: build_archive_collection_def)
  have recs: "file_records sample_files ''a.ath'' = records_from 36 sample_captures" "file_records sample_files ''b.ath'' = []"
    using files a b by (simp_all add: file_records_def open_archive_def)
  have payloads: "\<forall>path \<in> set [''b.ath'', ''a.ath'']. \<forall>r \<in> set (file_records sample_files path).
      length (p_payload (rec_packet r)) < 18446744073709551616"
    by (simp add: recs) (simp add: sample_captures_def sample_packet_def beacon_def packet_default_def)
  from collection_search_merges [OF c sample_files_fit _ payloads, of load_heartbeats] obtain result where
    found: "search_archive_collection sample_files c load_heartbeats = Inr result"
    and sx: "sx_records result = sort_key rec_capture_time_ns
      (filter (record_accepted (beacon_query\<lparr>aq_limit := 0\<rparr>)) (records_from 36 sample_captures))"
    by (auto simp: recs load_heartbeats_def)
  have one: "map capture_of (filter (record_accepted (beacon_query\<lparr>aq_limit := 0\<rparr>)) (records_from 36 sample_captures)) =
      [(3, beacon)]"
    unfolding accepted_captures limit_accepts by (rule beacon_query_accepts)
  then obtain r where "filter (record_accepted (beacon_query\<lparr>aq_limit := 0\<rparr>)) (records_from 36 sample_captures) = [r]"
    by (auto simp: map_eq_Cons_conv)
  with one sx have "map capture_of (sx_records result) = [(3, beacon)]" by simp
  with c found show ?thesis by (intro exI conjI)
qed

end
