(* ===== verification/Selection.thy ===== *)
theory Selection
  imports Prelude "HOL-Library.Product_Lexorder"
begin

text \<open>
  \<open>std::min_element\<close> and \<open>std::max_element\<close> with a comparison function: the index of the
  first element that no other element precedes. The locale \<open>ranked\<close> is the standard's
  requirement on the comparison, that it orders by some key.
\<close>

fun min_element_loop :: "('a \<Rightarrow> 'a \<Rightarrow> bool) \<Rightarrow> 'a \<Rightarrow> nat \<Rightarrow> nat \<Rightarrow> 'a list \<Rightarrow> nat" where
  "min_element_loop lt best at i [] = at"
| "min_element_loop lt best at i (x # xs) =
     (if lt x best then min_element_loop lt x i (i + 1) xs
      else min_element_loop lt best at (i + 1) xs)"

definition min_element :: "('a \<Rightarrow> 'a \<Rightarrow> bool) \<Rightarrow> 'a list \<Rightarrow> nat" where
  "min_element lt xs = (case xs of [] \<Rightarrow> 0 | x # ys \<Rightarrow> min_element_loop lt x 0 1 ys)"

definition max_element :: "('a \<Rightarrow> 'a \<Rightarrow> bool) \<Rightarrow> 'a list \<Rightarrow> nat" where
  "max_element lt xs = min_element (\<lambda>a b. lt b a) xs"

lemma min_element_loop_bound: "min_element_loop lt best at i xs = at \<or> min_element_loop lt best at i xs < i + length xs"
  by (induction lt best at i xs rule: min_element_loop.induct) auto

lemma min_element_bound: "xs \<noteq> [] \<Longrightarrow> min_element lt xs < length xs"
  using min_element_loop_bound [of lt "hd xs" 0 1 "tl xs"]
  by (cases xs) (auto simp: min_element_def)

lemma max_element_bound: "xs \<noteq> [] \<Longrightarrow> max_element lt xs < length xs"
  by (simp add: max_element_def min_element_bound)

locale ranked =
  fixes lt :: "'a \<Rightarrow> 'a \<Rightarrow> bool"
    and key :: "'a \<Rightarrow> 'k::linorder"
  assumes less_key: "lt a b \<longleftrightarrow> key a < key b"
begin

lemma loop_least:
  "\<lbrakk>at < length ys; i = length ys; best = ys ! at; \<forall>y \<in> set ys. key best \<le> key y\<rbrakk> \<Longrightarrow>
   min_element_loop lt best at i xs < length (ys @ xs) \<and>
   (\<forall>y \<in> set (ys @ xs). key ((ys @ xs) ! min_element_loop lt best at i xs) \<le> key y)"
proof (induction xs arbitrary: best at i ys)
  case (Cons x xs)
  show ?case
  proof (cases "lt x best")
    case True
    with Cons.prems have "\<forall>y \<in> set (ys @ [x]). key x \<le> key y"
      by (auto simp: less_key)
    with Cons.IH [of i "ys @ [x]" "i + 1" x] Cons.prems True show ?thesis by (simp add: nth_append)
  next
    case False
    with Cons.prems have "\<forall>y \<in> set (ys @ [x]). key best \<le> key y"
      by (auto simp: less_key)
    with Cons.IH [of at "ys @ [x]" "i + 1" best] Cons.prems False show ?thesis by (simp add: nth_append)
  qed
qed simp

lemma least:
  assumes "y \<in> set xs"
  shows "key (xs ! min_element lt xs) \<le> key y"
proof (cases xs)
  case (Cons x ys)
  with loop_least [of 0 "[x]" 1 x ys] assms show ?thesis
    by (auto simp: min_element_def)
qed (use assms in simp)

end

locale ranked_reverse =
  fixes lt :: "'a \<Rightarrow> 'a \<Rightarrow> bool"
    and key :: "'a \<Rightarrow> 'k::linorder"
  assumes greater_key: "lt b a \<longleftrightarrow> key a < key b"
begin

sublocale flipped: ranked "\<lambda>a b. lt b a" key
  by unfold_locales (rule greater_key)

lemma greatest: "y \<in> set xs \<Longrightarrow> key (xs ! max_element lt xs) \<le> key y"
  unfolding max_element_def by (rule flipped.least)

end

end
