(* ===== verification/Sampling.thy ===== *)
theory Sampling
  imports Collection Selection
begin

text \<open>
  Samples of the records of a collection (\<open>src/storage/archive_sampling.cpp\<close>). \<open>std::sort\<close> is modelled
  as a stable sort.
\<close>

section \<open>Data\<close>

datatype sampling_mode = SM_first_n | SM_every_nth | SM_time_bucket_first | SM_deterministic_hash | SM_payload_extremes

record sampling_options =
  sa_mode :: sampling_mode
  sa_limit :: nat
  sa_stride :: u64
  sa_bucket_width_ns :: u64
  sa_hash_modulus :: u64
  sa_hash_remainder :: u64
  sa_include_records :: bool

definition sampling_options_default :: sampling_options where
  "sampling_options_default = \<lparr>sa_mode = SM_first_n, sa_limit = 0, sa_stride = 1, sa_bucket_width_ns = 0,
     sa_hash_modulus = 1, sa_hash_remainder = 0, sa_include_records = True\<rparr>"

record sampled_ref =
  sr_ref :: record_ref
  sr_reason :: string
  sr_sample_rank :: u64

record record_sample =
  sm_options :: sampling_options
  sm_refs :: "sampled_ref list"
  sm_records :: "archive_record list"
  sm_candidates_seen :: u64
  sm_selected_count :: u64
  sm_rejected_count :: u64

record payload_bin =
  pb_min_payload_size :: u64
  pb_max_payload_size :: u64
  pb_record_count :: u64

section \<open>Selecting\<close>

definition reached_limit :: "record_sample \<Rightarrow> sampling_options \<Rightarrow> bool" where
  "reached_limit s options \<longleftrightarrow> sa_limit options \<noteq> 0 \<and> length (sm_refs s) \<ge> sa_limit options"

definition select_ref ::
  "archive_files \<Rightarrow> sampling_options \<Rightarrow> record_ref \<Rightarrow> string \<Rightarrow> record_sample \<Rightarrow> error + record_sample" where
  "select_ref files options ref reason s =
     (let sampled = \<lparr>sr_ref = ref, sr_reason = reason, sr_sample_rank = of_nat (length (sm_refs s))\<rparr>;
          s = s\<lparr>sm_refs := sm_refs s @ [sampled], sm_selected_count := sm_selected_count s + 1\<rparr>
      in if sa_include_records options
         then err_bind (load_collection_record files ref) (\<lambda>loaded.
           Inr (s\<lparr>sm_records := sm_records s @ (case loaded of None \<Rightarrow> [] | Some r \<Rightarrow> [r])\<rparr>))
         else Inr s)"

definition see_candidate :: "record_sample \<Rightarrow> record_sample" where
  "see_candidate s = s\<lparr>sm_candidates_seen := sm_candidates_seen s + 1\<rparr>"

definition reject_candidate :: "record_sample \<Rightarrow> record_sample" where
  "reject_candidate s = s\<lparr>sm_rejected_count := sm_rejected_count s + 1\<rparr>"

definition mix :: "u64 \<Rightarrow> u64 \<Rightarrow> u64" where
  "mix v hash = (hash XOR v) * 1099511628211"

definition deterministic_record_hash :: "record_ref \<Rightarrow> u64" where
  "deterministic_record_hash ref =
     (let hash = 1469598103934665603;
          hash = mix (cr_archive_ordinal ref) hash;
          hash = mix (cr_offset ref) hash;
          hash = mix (cr_capture_time_ns ref) hash;
          hash = mix (cr_payload_size ref) hash;
          hash = mix (cr_device ref) hash;
          hash = mix (ucast (cr_sequence ref)) hash
      in fold (\<lambda>c hash. mix (of_nat (of_char c)) hash) (cr_path ref) hash)"

definition should_take_hash :: "record_ref \<Rightarrow> sampling_options \<Rightarrow> bool" where
  "should_take_hash ref options \<longleftrightarrow>
     (let modulus = (if sa_hash_modulus options = 0 then 1 else sa_hash_modulus options)
      in deterministic_record_hash ref mod modulus = sa_hash_remainder options mod modulus)"

section \<open>The modes\<close>

fun sample_first_n ::
  "archive_files \<Rightarrow> sampling_options \<Rightarrow> record_ref list \<Rightarrow> record_sample \<Rightarrow> error + record_sample" where
  "sample_first_n files options [] s = Inr s"
| "sample_first_n files options (ref # refs) s =
     (let s = see_candidate s
      in if reached_limit s options then sample_first_n files options refs (reject_candidate s)
         else err_bind (select_ref files options ref ''first records in query order'' s) (\<lambda>s.
           sample_first_n files options refs s))"

fun sample_every_nth ::
  "archive_files \<Rightarrow> sampling_options \<Rightarrow> u64 \<Rightarrow> record_ref list \<Rightarrow> record_sample \<Rightarrow> error + record_sample" where
  "sample_every_nth files options index [] s = Inr s"
| "sample_every_nth files options index (ref # refs) s =
     (let stride = (if sa_stride options = 0 then 1 else sa_stride options);
          s = see_candidate s;
          take_it = (index mod stride = 0)
      in if \<not> take_it \<or> reached_limit s options
         then sample_every_nth files options (index + 1) refs (reject_candidate s)
         else err_bind (select_ref files options ref ''stride sample'' s) (\<lambda>s.
           sample_every_nth files options (index + 1) refs s))"

text \<open>The map \<open>seen_buckets\<close> is read only through its true entries: the set of buckets seen.\<close>

fun sample_time_buckets ::
  "archive_files \<Rightarrow> sampling_options \<Rightarrow> u64 set \<Rightarrow> record_ref list \<Rightarrow> record_sample \<Rightarrow> error + record_sample" where
  "sample_time_buckets files options seen [] s = Inr s"
| "sample_time_buckets files options seen (ref # refs) s =
     (let width = (if sa_bucket_width_ns options = 0 then 1 else sa_bucket_width_ns options);
          s = see_candidate s;
          bucket = cr_capture_time_ns ref div width
      in if bucket \<in> seen \<or> reached_limit s options
         then sample_time_buckets files options seen refs (reject_candidate s)
         else err_bind (select_ref files options ref ''first record in time bucket'' s) (\<lambda>s.
           sample_time_buckets files options (insert bucket seen) refs s))"

fun sample_hash ::
  "archive_files \<Rightarrow> sampling_options \<Rightarrow> record_ref list \<Rightarrow> record_sample \<Rightarrow> error + record_sample" where
  "sample_hash files options [] s = Inr s"
| "sample_hash files options (ref # refs) s =
     (let s = see_candidate s
      in if \<not> should_take_hash ref options \<or> reached_limit s options
         then sample_hash files options refs (reject_candidate s)
         else err_bind (select_ref files options ref ''deterministic hash match'' s) (\<lambda>s.
           sample_hash files options refs s))"

text \<open>
  The smallest and the largest payloads in turn. \<open>high\<close> would wrap at 0; the loop ends before.
  The check for it after a selection is skipped by the \<open>continue\<close> of a rejection, as in the code.
\<close>

definition payload_order :: "record_ref \<Rightarrow> u64 \<times> u64" where
  "payload_order ref = (cr_payload_size ref, cr_capture_time_ns ref)"

function extremes_loop ::
  "archive_files \<Rightarrow> sampling_options \<Rightarrow> record_ref list \<Rightarrow> nat \<Rightarrow> nat \<Rightarrow> bool \<Rightarrow> record_sample \<Rightarrow>
   error + record_sample" where
  "extremes_loop files options refs low high take_low s =
     (if \<not> (low < length refs \<and> low \<le> high) then Inr s
      else let s = see_candidate s;
               ref = (if take_low then refs ! low else refs ! high);
               low' = (if take_low then low + 1 else low);
               high' = (if take_low then high else if high = 0 then 18446744073709551615 else high - 1)
           in if reached_limit s options
              then extremes_loop files options refs low' high' (\<not> take_low) (reject_candidate s)
              else err_bind (select_ref files options ref ''payload size extreme'' s) (\<lambda>s.
                if high' \<ge> length refs then Inr s
                else extremes_loop files options refs low' high' (\<not> take_low) s))"
  by pat_completeness auto
termination
  by (relation "measure (\<lambda>(_, _, refs, low, _, take_low, _). 2 * (length refs - low) + (if take_low then 0 else 1))")
    (auto split: if_splits)

declare extremes_loop.simps [simp del]

definition sample_payload_extremes ::
  "archive_files \<Rightarrow> sampling_options \<Rightarrow> record_ref list \<Rightarrow> record_sample \<Rightarrow> error + record_sample" where
  "sample_payload_extremes files options refs s =
     (let refs = sort_key payload_order refs
      in extremes_loop files options refs 0 (if refs = [] then 0 else length refs - 1) True s)"

definition normalize_sample :: "record_sample \<Rightarrow> record_sample" where
  "normalize_sample s =
     (let refs = sort_key (cr_capture_time_ns \<circ> sr_ref) (sm_refs s)
      in s\<lparr>sm_refs := map (\<lambda>(i, sampled). sampled\<lparr>sr_sample_rank := of_nat i\<rparr>) (zip [0..<length refs] refs),
           sm_records := sort_key rec_capture_time_ns (sm_records s)\<rparr>)"

definition sampling_mode_name :: "sampling_mode \<Rightarrow> string" where
  "sampling_mode_name mode =
     (case mode of
        SM_first_n \<Rightarrow> ''first_n'' | SM_every_nth \<Rightarrow> ''every_nth'' | SM_time_bucket_first \<Rightarrow> ''time_bucket_first''
      | SM_deterministic_hash \<Rightarrow> ''deterministic_hash'' | SM_payload_extremes \<Rightarrow> ''payload_extremes'')"

definition sample_archive_collection ::
  "archive_files \<Rightarrow> archive_collection \<Rightarrow> sampling_options \<Rightarrow> archive_query \<Rightarrow> error + record_sample" where
  "sample_archive_collection files c options query =
     (let s = \<lparr>sm_options = options, sm_refs = [], sm_records = [], sm_candidates_seen = 0,
               sm_selected_count = 0, sm_rejected_count = 0\<rparr>;
          refs = filter_collection_refs c query
      in err_bind
           (case sa_mode options of
              SM_first_n \<Rightarrow> sample_first_n files options refs s
            | SM_every_nth \<Rightarrow> sample_every_nth files options 0 refs s
            | SM_time_bucket_first \<Rightarrow> sample_time_buckets files options {} refs s
            | SM_deterministic_hash \<Rightarrow> sample_hash files options refs s
            | SM_payload_extremes \<Rightarrow> sample_payload_extremes files options refs s)
           (\<lambda>s. Inr (normalize_sample s)))"

definition sample_archive_records ::
  "archive_files \<Rightarrow> string \<Rightarrow> sampling_options \<Rightarrow> archive_query \<Rightarrow> error + record_sample" where
  "sample_archive_records files path options query =
     err_bind (build_archive_collection files [path]) (\<lambda>c. sample_archive_collection files c options query)"

section \<open>Payload sizes\<close>

definition count_payload :: "u64 \<Rightarrow> record_ref \<Rightarrow> (u64, payload_bin) omap \<Rightarrow> (u64, payload_bin) omap" where
  "count_payload width ref bins =
     (let bucket = cr_payload_size ref div width;
          b = om_get \<lparr>pb_min_payload_size = 0, pb_max_payload_size = 0, pb_record_count = 0\<rparr> bins bucket;
          b = (if pb_record_count b = 0
               then b\<lparr>pb_min_payload_size := bucket * width, pb_max_payload_size := bucket * width + width - 1\<rparr>
               else b)
      in om_update bucket (b\<lparr>pb_record_count := pb_record_count b + 1\<rparr>) bins)"

definition build_payload_distribution :: "archive_collection \<Rightarrow> u64 \<Rightarrow> payload_bin list" where
  "build_payload_distribution c bin_width =
     (let width = (if bin_width = 0 then 1 else bin_width)
      in om_values (fold (count_payload width) (cx_records c) om_empty))"

definition payload_less :: "record_ref \<Rightarrow> record_ref \<Rightarrow> bool" where
  "payload_less l r = (payload_order l < payload_order r)"

interpretation payload_ranked: ranked payload_less payload_order
  by unfold_locales (simp add: payload_less_def)

definition find_smallest_payload_record :: "archive_collection \<Rightarrow> archive_query \<Rightarrow> record_ref option" where
  "find_smallest_payload_record c query =
     (let refs = filter_collection_refs c query
      in if refs = [] then None else Some (refs ! min_element payload_less refs))"

definition find_largest_payload_record :: "archive_collection \<Rightarrow> archive_query \<Rightarrow> record_ref option" where
  "find_largest_payload_record c query =
     (let refs = filter_collection_refs c query
      in if refs = [] then None else Some (refs ! max_element payload_less refs))"

section \<open>Text output\<close>

definition render_record_sample :: "record_sample \<Rightarrow> string" where
  "render_record_sample s =
     ''record_sample'' @ newline @
     ''  mode: '' @ sampling_mode_name (sa_mode (sm_options s)) @ newline @
     ''  candidates_seen: '' @ dec (sm_candidates_seen s) @ newline @
     ''  selected_count: '' @ dec (sm_selected_count s) @ newline @
     ''  rejected_count: '' @ dec (sm_rejected_count s) @ newline @
     concat (map (\<lambda>x. ''  sample: rank='' @ dec (sr_sample_rank x) @
       '' path='' @ cr_path (sr_ref x) @
       '' offset='' @ dec (cr_offset (sr_ref x)) @
       '' capture_time_ns='' @ dec (cr_capture_time_ns (sr_ref x)) @
       '' device='' @ dec (cr_device (sr_ref x)) @
       '' sequence='' @ dec (cr_sequence (sr_ref x)) @
       '' payload_size='' @ dec (cr_payload_size (sr_ref x)) @
       '' reason='' @ dquote @ sr_reason x @ dquote @ newline) (sm_refs s))"

definition render_payload_distribution :: "payload_bin list \<Rightarrow> string" where
  "render_payload_distribution bins =
     ''payload_distribution'' @ newline @
     concat (map (\<lambda>b. ''  bin: min='' @ dec (pb_min_payload_size b) @
       '' max='' @ dec (pb_max_payload_size b) @
       '' records='' @ dec (pb_record_count b) @ newline) bins)"

section \<open>What a sample holds\<close>

definition sample_ok :: "sampling_options \<Rightarrow> record_ref list \<Rightarrow> record_sample \<Rightarrow> bool" where
  "sample_ok options seen s \<longleftrightarrow>
     sm_selected_count s = of_nat (length (sm_refs s)) \<and>
     sm_candidates_seen s = sm_selected_count s + sm_rejected_count s \<and>
     sm_candidates_seen s = of_nat (length seen) \<and>
     (sa_limit options = 0 \<or> length (sm_refs s) \<le> sa_limit options) \<and>
     mset (map sr_ref (sm_refs s)) \<subseteq># mset seen"

lemma sample_rejected:
  "sample_ok options seen s \<Longrightarrow> sample_ok options (seen @ [ref]) (reject_candidate (see_candidate s))"
  by (auto simp: sample_ok_def reject_candidate_def see_candidate_def intro: subset_mset.order_trans)

lemma limit_seen: "reached_limit (see_candidate s) options = reached_limit s options"
  by (simp add: reached_limit_def see_candidate_def)

lemma sample_selected:
  assumes "sample_ok options seen s" and "\<not> reached_limit (see_candidate s) options"
    and "select_ref files options ref reason (see_candidate s) = Inr s'"
  shows "sample_ok options (seen @ [ref]) s'"
proof -
  have "sm_refs s' = sm_refs s @ [\<lparr>sr_ref = ref, sr_reason = reason, sr_sample_rank = of_nat (length (sm_refs s))\<rparr>]"
    "sm_selected_count s' = sm_selected_count s + 1" "sm_candidates_seen s' = sm_candidates_seen s + 1"
    "sm_rejected_count s' = sm_rejected_count s"
    using assms(3) by (auto simp: select_ref_def see_candidate_def Let_def err_bind_Inr_iff split: if_splits)
  then show ?thesis using assms(1,2) by (auto simp: sample_ok_def reached_limit_def see_candidate_def)
qed

text \<open>
  The four modes that go through the references in order are one loop over a state, which says
  whether to take a reference and how the state goes on.
\<close>

fun sample_loop ::
  "archive_files \<Rightarrow> sampling_options \<Rightarrow> string \<Rightarrow> ('st \<Rightarrow> record_ref \<Rightarrow> bool) \<Rightarrow> (bool \<Rightarrow> 'st \<Rightarrow> record_ref \<Rightarrow> 'st) \<Rightarrow>
   'st \<Rightarrow> record_ref list \<Rightarrow> record_sample \<Rightarrow> error + record_sample" where
  "sample_loop files options reason take_it step st [] s = Inr s"
| "sample_loop files options reason take_it step st (ref # refs) s =
     (if \<not> take_it st ref \<or> reached_limit (see_candidate s) options
      then sample_loop files options reason take_it step (step False st ref) refs (reject_candidate (see_candidate s))
      else err_bind (select_ref files options ref reason (see_candidate s)) (\<lambda>s.
        sample_loop files options reason take_it step (step True st ref) refs s))"

lemma sample_first_n_loop:
  "sample_first_n files options refs s =
     sample_loop files options ''first records in query order'' (\<lambda>_ _. True) (\<lambda>_ _ _. ()) () refs s"
  by (induction files options refs s rule: sample_first_n.induct) (auto simp: Let_def err_bind_def split: sum.split)

lemma sample_hash_loop:
  "sample_hash files options refs s =
     sample_loop files options ''deterministic hash match'' (\<lambda>_ ref. should_take_hash ref options) (\<lambda>_ _ _. ()) () refs s"
  by (induction files options refs s rule: sample_hash.induct) (auto simp: Let_def err_bind_def split: sum.split)

lemma sample_every_nth_loop:
  "sample_every_nth files options index refs s =
     sample_loop files options ''stride sample''
       (\<lambda>index _. index mod (if sa_stride options = 0 then 1 else sa_stride options) = 0) (\<lambda>_ index _. index + 1) index refs s"
proof (induction refs arbitrary: index s)
  case (Cons ref refs)
  note IH = ext [OF Cons.IH]
  show ?case by (simp only: sample_every_nth.simps sample_loop.simps Let_def IH)
qed simp

lemma sample_time_buckets_loop:
  "sample_time_buckets files options seen refs s =
     sample_loop files options ''first record in time bucket''
       (\<lambda>seen ref. cr_capture_time_ns ref div (if sa_bucket_width_ns options = 0 then 1 else sa_bucket_width_ns options) \<notin> seen)
       (\<lambda>taken seen ref. if taken then insert
          (cr_capture_time_ns ref div (if sa_bucket_width_ns options = 0 then 1 else sa_bucket_width_ns options)) seen else seen)
       seen refs s"
proof (induction refs arbitrary: seen s)
  case (Cons ref refs)
  note IH = ext [OF Cons.IH]
  show ?case by (simp only: sample_time_buckets.simps sample_loop.simps Let_def IH not_not if_True if_False)
qed simp

lemma sample_loop_ok:
  "sample_loop files options reason take_it step st refs s = Inr s' \<Longrightarrow> sample_ok options seen s \<Longrightarrow>
   sample_ok options (seen @ refs) s'"
proof (induction refs arbitrary: st s seen)
  case (Cons ref refs)
  show ?case
  proof (cases "\<not> take_it st ref \<or> reached_limit (see_candidate s) options")
    case True
    with Cons.prems(1) Cons.IH [OF _ sample_rejected [OF Cons.prems(2)], of _ ref] show ?thesis by simp
  next
    case False
    with Cons.prems(1) obtain s1 where s1: "select_ref files options ref reason (see_candidate s) = Inr s1"
      "sample_loop files options reason take_it step (step True st ref) refs s1 = Inr s'"
      by (auto simp: err_bind_Inr_iff)
    with Cons.IH [OF s1(2) sample_selected [OF Cons.prems(2) _ s1(1)]] False show ?thesis by simp
  qed
qed simp

text \<open>The two ends of the sorted references move towards each other and never over one reference twice.\<close>

lemma extremes_ok:
  "extremes_loop files options refs low high take_low s = Inr s' \<Longrightarrow> sample_ok options seen s \<Longrightarrow>
   high < length refs \<Longrightarrow> (take_low \<or> 0 < low) \<Longrightarrow>
   \<exists>more. mset more = mset (take (high + 1 - low) (drop low refs)) \<and> sample_ok options (seen @ more) s'"
proof (induction files options refs low high take_low s arbitrary: seen rule: extremes_loop.induct)
  case (1 files options refs low high take_low s)
  show ?case
  proof (cases "low < length refs \<and> low \<le> high")
    case False
    then have "extremes_loop files options refs low high take_low s = Inr s" by (simp add: extremes_loop.simps)
    with "1.prems" False show ?thesis by (intro exI [of _ "[]"]) auto
  next
    case True
    let ?ref = "if take_low then refs ! low else refs ! high"
    let ?low = "if take_low then low + 1 else low"
    let ?high = "if take_low then high else if high = 0 then 18446744073709551615 else high - 1"
    have pos: "\<not> take_low \<Longrightarrow> 0 < high" using True "1.prems"(4) by auto
    have high: "?high < length refs" using "1.prems"(3) pos by auto
    have split: "mset (take (high + 1 - low) (drop low refs)) =
        add_mset ?ref (mset (take (?high + 1 - ?low) (drop ?low refs)))"
    proof (cases take_low)
      case True
      then show ?thesis using \<open>low < length refs \<and> low \<le> high\<close>
        by (simp add: Cons_nth_drop_Suc [symmetric] Suc_diff_le)
    next
      case False
      have "high + 1 - low = Suc (high - low)" using \<open>low < length refs \<and> low \<le> high\<close> by (simp add: Suc_diff_le)
      then have "take (high + 1 - low) (drop low refs) = take (high - low) (drop low refs) @ [refs ! high]"
        using True "1.prems"(3) by (simp add: take_Suc_conv_app_nth)
      with False pos show ?thesis by simp
    qed
    note step = extremes_loop.simps [of files options refs low high take_low s]
    have goal: "\<exists>more. mset more = mset (take (high + 1 - low) (drop low refs)) \<and> sample_ok options (seen @ more) s'"
      if "\<exists>more. mset more = mset (take (?high + 1 - ?low) (drop ?low refs)) \<and> sample_ok options ((seen @ [?ref]) @ more) s'"
    proof -
      from that obtain xs where xs: "mset xs = mset (take (?high + 1 - ?low) (drop ?low refs))"
        "sample_ok options ((seen @ [?ref]) @ xs) s'" by (elim exE conjE)
      have "mset (?ref # xs) = mset (take (high + 1 - low) (drop low refs))" by (simp only: split xs(1) mset.simps)
      moreover have "sample_ok options (seen @ ?ref # xs) s'" using xs(2) by (simp only: append_assoc append.simps)
      ultimately show ?thesis by (intro exI conjI)
    qed
    show ?thesis
    proof (cases "reached_limit (see_candidate s) options")
      case reached: True
      then have "extremes_loop files options refs ?low ?high (\<not> take_low) (reject_candidate (see_candidate s)) = Inr s'"
        using "1.prems"(1) True by (subst (asm) step) (simp add: Let_def)
      from "1.IH"(1) [OF _ refl refl refl refl reached this sample_rejected [OF "1.prems"(2)] high] True
      show ?thesis by (intro goal) auto
    next
      case False
      then obtain s1 where s1: "select_ref files options ?ref ''payload size extreme'' (see_candidate s) = Inr s1"
        and run: "extremes_loop files options refs ?low ?high (\<not> take_low) s1 = Inr s'"
        using "1.prems"(1) True high by (subst (asm) step) (auto simp: Let_def err_bind_Inr_iff split: if_splits)
      from "1.IH"(2) [OF _ refl refl refl refl False _ run sample_selected [OF "1.prems"(2) False s1] high] True high
      show ?thesis by (intro goal) auto
    qed
  qed
qed

lemma sample_ok_mset: "mset xs = mset ys \<Longrightarrow> sample_ok options xs s = sample_ok options ys s"
  by (frule mset_eq_length) (simp only: sample_ok_def)

lemma payload_extremes_ok:
  assumes "sample_payload_extremes files options refs s = Inr s'" and "sample_ok options [] s"
  shows "sample_ok options refs s'"
proof (cases "refs = []")
  case True
  with assms show ?thesis by (simp add: sample_payload_extremes_def extremes_loop.simps)
next
  case False
  then have ne: "sort_key payload_order refs \<noteq> []" by (metis length_0_conv length_sort)
  have "extremes_loop files options (sort_key payload_order refs) 0 (length refs - 1) True s = Inr s'"
    using assms(1) ne by (simp add: sample_payload_extremes_def Let_def)
  from extremes_ok [OF this assms(2)] False
  obtain xs where "mset xs = mset (take (length refs - 1 + 1 - 0) (drop 0 (sort_key payload_order refs)))"
    "sample_ok options ([] @ xs) s'" by auto
  with False show ?thesis by (simp add: sample_ok_mset [of xs refs])
qed

lemma map_ranked: "map (\<lambda>(i, x). f x) (zip [0..<length xs] xs) = map f xs"
  by (rule nth_equalityI) auto

lemma map_ranks: "map (\<lambda>(i, x). f i) (zip [0..<length xs] xs) = map f [0..<length xs]"
  by (rule nth_equalityI) auto

lemma normalized_refs:
  "map sr_ref (sm_refs (normalize_sample s)) = map sr_ref (sort_key (cr_capture_time_ns \<circ> sr_ref) (sm_refs s))"
  "map sr_sample_rank (sm_refs (normalize_sample s)) = map of_nat [0..<length (sm_refs s)]"
proof -
  let ?xs = "sort_key (cr_capture_time_ns \<circ> sr_ref) (sm_refs s)"
  have "sm_refs (normalize_sample s) = map (\<lambda>(i, x). x\<lparr>sr_sample_rank := of_nat i\<rparr>) (zip [0..<length ?xs] ?xs)"
    by (simp add: normalize_sample_def Let_def)
  then show "map sr_ref (sm_refs (normalize_sample s)) = map sr_ref ?xs"
    "map sr_sample_rank (sm_refs (normalize_sample s)) = map of_nat [0..<length (sm_refs s)]"
    by (auto intro!: nth_equalityI)
qed

lemma normalize_sample_ok:
  assumes "sample_ok options refs s"
  shows "sample_ok options refs (normalize_sample s)"
proof -
  have "length (sm_refs (normalize_sample s)) = length (sm_refs s)" by (simp add: normalize_sample_def Let_def)
  moreover have "mset (map sr_ref (sm_refs (normalize_sample s))) = mset (map sr_ref (sm_refs s))"
    unfolding normalized_refs(1) mset_map mset_sort ..
  moreover have "sm_selected_count (normalize_sample s) = sm_selected_count s"
    "sm_rejected_count (normalize_sample s) = sm_rejected_count s"
    "sm_candidates_seen (normalize_sample s) = sm_candidates_seen s" by (simp_all add: normalize_sample_def Let_def)
  ultimately show ?thesis using assms unfolding sample_ok_def by metis
qed

definition empty_sample :: "sampling_options \<Rightarrow> record_sample" where
  "empty_sample options = \<lparr>sm_options = options, sm_refs = [], sm_records = [], sm_candidates_seen = 0,
     sm_selected_count = 0, sm_rejected_count = 0\<rparr>"

lemma empty_sample_ok [simp]: "sample_ok options [] (empty_sample options)"
  by (simp add: sample_ok_def empty_sample_def)

lemma sample_modes_ok:
  assumes "(case sa_mode options of
              SM_first_n \<Rightarrow> sample_first_n files options refs (empty_sample options)
            | SM_every_nth \<Rightarrow> sample_every_nth files options 0 refs (empty_sample options)
            | SM_time_bucket_first \<Rightarrow> sample_time_buckets files options {} refs (empty_sample options)
            | SM_deterministic_hash \<Rightarrow> sample_hash files options refs (empty_sample options)
            | SM_payload_extremes \<Rightarrow> sample_payload_extremes files options refs (empty_sample options)) = Inr s"
  shows "sample_ok options refs s"
proof -
  note loop = sample_loop_ok [where seen = "[]" and options = options, OF _ empty_sample_ok, unfolded append_Nil]
  show ?thesis using assms
    by (cases "sa_mode options")
      (auto simp: sample_first_n_loop sample_every_nth_loop sample_time_buckets_loop sample_hash_loop
        intro: loop payload_extremes_ok)
qed

text \<open>
  C26. A sample of a collection, in every mode, is sound: the references selected are among those the
  query finds, none more often than there; every reference found was seen, and either selected or
  rejected; the limit holds; the sample is in order of time, and its ranks are 0, 1, 2 and so on.
\<close>

theorem sample_sound:
  assumes "sample_archive_collection files c options query = Inr s"
  shows "mset (map sr_ref (sm_refs s)) \<subseteq># mset (filter_collection_refs c query) \<and>
     sm_candidates_seen s = of_nat (length (filter_collection_refs c query)) \<and>
     sm_candidates_seen s = sm_selected_count s + sm_rejected_count s \<and>
     sm_selected_count s = of_nat (length (sm_refs s)) \<and>
     (sa_limit options = 0 \<or> length (sm_refs s) \<le> sa_limit options) \<and>
     sorted (map (cr_capture_time_ns \<circ> sr_ref) (sm_refs s)) \<and>
     map sr_sample_rank (sm_refs s) = map of_nat [0..<length (sm_refs s)]"
proof -
  from assms obtain t where s: "s = normalize_sample t" and "sample_ok options (filter_collection_refs c query) t"
    unfolding sample_archive_collection_def Let_def err_bind_Inr_iff empty_sample_def [symmetric]
    using sample_modes_ok by blast
  then have ok: "sample_ok options (filter_collection_refs c query) s" by (simp add: normalize_sample_ok)
  have "map (cr_capture_time_ns \<circ> sr_ref) (sm_refs s) = map cr_capture_time_ns (map sr_ref (sm_refs s))" by simp
  then have "sorted (map (cr_capture_time_ns \<circ> sr_ref) (sm_refs s))"
    unfolding s normalized_refs(1) by (metis map_map sorted_sort_key)
  moreover have "map sr_sample_rank (sm_refs s) = map of_nat [0..<length (sm_refs s)]"
    unfolding s normalized_refs(2) by (simp add: normalize_sample_def Let_def)
  ultimately show ?thesis using ok unfolding sample_ok_def by (intro conjI) (elim conjE; assumption)+
qed

definition small_ref :: "u64 \<Rightarrow> u64 \<Rightarrow> record_ref" where
  "small_ref time bytes = \<lparr>cr_path = ''a'', cr_archive_ordinal = 0, cr_offset = 36 + 64 * time, cr_capture_time_ns = time,
     cr_payload_size = bytes, cr_device = 7, cr_sequence = ucast time\<rparr>"

definition small_collection :: archive_collection where
  "small_collection = \<lparr>cx_archives = [], cx_records = [small_ref 1 5, small_ref 2 9, small_ref 3 1, small_ref 4 6],
     cx_records_by_device = om_empty, cx_summary = archive_summary_default\<rparr>"

definition two_extremes :: sampling_options where
  "two_extremes = sampling_options_default\<lparr>sa_mode := SM_payload_extremes, sa_limit := 2, sa_include_records := False\<rparr>"

lemma small_ref_time [simp]: "cr_capture_time_ns (small_ref time bytes) = time"
  by (simp add: small_ref_def)

lemma small_refs:
  "filter_collection_refs small_collection archive_query_default =
     [small_ref 1 5, small_ref 2 9, small_ref 3 1, small_ref 4 6]"
  by (simp add: filter_collection_refs_def query_source_def archive_query_default_def small_collection_def
      ref_matches_query_def bounded_by_def Let_def)

lemma small_refs_sorted:
  "sort_key payload_order [small_ref 1 5, small_ref 2 9, small_ref 3 1, small_ref 4 6] =
     [small_ref 3 1, small_ref 1 5, small_ref 4 6, small_ref 2 9]"
  by (simp add: small_ref_def payload_order_def word_le_nat_alt)

lemma select_ref_light:
  "\<not> sa_include_records options \<Longrightarrow> select_ref files options ref reason s =
     Inr (s\<lparr>sm_refs := sm_refs s @ [\<lparr>sr_ref = ref, sr_reason = reason, sr_sample_rank = of_nat (length (sm_refs s))\<rparr>],
       sm_selected_count := sm_selected_count s + 1\<rparr>)"
  by (simp add: select_ref_def Let_def)

lemma extremes_loop_light:
  "\<not> sa_include_records options \<Longrightarrow> extremes_loop files options refs low high take_low s =
     (if low < length refs \<and> low \<le> high
      then let ref = (if take_low then refs ! low else refs ! high);
               low' = (if take_low then low + 1 else low);
               high' = (if take_low then high else if high = 0 then 18446744073709551615 else high - 1)
           in if reached_limit s options
              then extremes_loop files options refs low' high' (\<not> take_low) (reject_candidate (see_candidate s))
              else if high' \<ge> length refs
              then select_ref files options ref ''payload size extreme'' (see_candidate s)
              else extremes_loop files options refs low' high' (\<not> take_low)
                (projr (select_ref files options ref ''payload size extreme'' (see_candidate s)))
      else Inr s)"
  by (subst extremes_loop.simps) (auto simp: Let_def limit_seen select_ref_light)

lemma small_extremes:
  "\<exists>s. sample_payload_extremes files two_extremes
       [small_ref 1 5, small_ref 2 9, small_ref 3 1, small_ref 4 6] (empty_sample two_extremes) = Inr s \<and>
     map sr_ref (sm_refs s) = [small_ref 3 1, small_ref 2 9] \<and> sm_rejected_count s = 2"
  unfolding sample_payload_extremes_def small_refs_sorted Let_def
  by (simp add: extremes_loop_light select_ref_light two_extremes_def sampling_options_default_def empty_sample_def
      reached_limit_def see_candidate_def reject_candidate_def)

lemma sample_sound_witness:
  "\<exists>s. sample_archive_collection (\<lambda>_. None) small_collection two_extremes archive_query_default = Inr s \<and>
     map sr_ref (sm_refs s) = [small_ref 2 9, small_ref 3 1] \<and> sm_rejected_count s = 2 \<and>
     mset (map sr_ref (sm_refs s)) \<subseteq># mset [small_ref 1 5, small_ref 2 9, small_ref 3 1, small_ref 4 6]"
proof -
  from small_extremes [of "\<lambda>_. None"] obtain t where t: "sample_payload_extremes (\<lambda>_. None) two_extremes
       [small_ref 1 5, small_ref 2 9, small_ref 3 1, small_ref 4 6] (empty_sample two_extremes) = Inr t"
     "map sr_ref (sm_refs t) = [small_ref 3 1, small_ref 2 9]" "sm_rejected_count t = 2"
    by (elim exE conjE)
  have "sa_mode two_extremes = SM_payload_extremes" by (simp add: two_extremes_def)
  with t(1) have s: "sample_archive_collection (\<lambda>_. None) small_collection two_extremes archive_query_default =
      Inr (normalize_sample t)"
    by (simp add: sample_archive_collection_def small_refs empty_sample_def)
  have "map sr_ref (sm_refs (normalize_sample t)) = sort_key cr_capture_time_ns (map sr_ref (sm_refs t))"
    unfolding normalized_refs(1) by (simp add: sort_key_map)
  moreover have "\<dots> = [small_ref 2 9, small_ref 3 1]" unfolding t(2) by (simp add: word_le_nat_alt)
  moreover have "sm_rejected_count (normalize_sample t) = 2" using t(3) by (simp add: normalize_sample_def Let_def)
  ultimately show ?thesis using s sample_sound [OF s] unfolding small_refs by (intro exI [of _ "normalize_sample t"]) (simp only: simp_thms)
qed

end
