(* ===== verification/Rotation.thy ===== *)
theory Rotation
  imports Collection
begin

text \<open>
  Rotation of archives (\<open>src/storage/archive_rotation.cpp\<close>): the records of several archives in
  order of time, cut into shards by a policy, and the shards written as new archives. Files are a
  map from paths to bytes. A file that is being written is empty for readers until it is closed,
  since the stream keeps what it holds in its buffer. \<open>std::stable_sort\<close> is a sort by insertion
  with the comparison of the code.
\<close>

section \<open>Data\<close>

datatype rotation_reason =
    RR_none | RR_max_records | RR_max_payload_bytes | RR_max_span_ns | RR_max_file_bytes | RR_idle_gap
  | RR_explicit_boundary

datatype rotation_step_kind = RS_keep_current | RS_start_new_archive | RS_close_archive | RS_copy_record | RS_skip_record

record rotation_policy =
  ro_max_records_per_archive :: u64
  ro_max_payload_bytes_per_archive :: u64
  ro_max_capture_span_ns :: u64
  ro_max_estimated_file_bytes :: u64
  ro_idle_gap_ns :: u64
  ro_keep_empty_archives :: bool
  ro_output_prefix :: string
  ro_output_extension :: string

definition rotation_policy_default :: rotation_policy where
  "rotation_policy_default = \<lparr>ro_max_records_per_archive = 0, ro_max_payload_bytes_per_archive = 0,
     ro_max_capture_span_ns = 0, ro_max_estimated_file_bytes = 0, ro_idle_gap_ns = 0,
     ro_keep_empty_archives = False, ro_output_prefix = ''archive'', ro_output_extension = ''.ath''\<rparr>"

record rotation_input =
  rn_path :: string
  rn_manifest :: archive_manifest

record rotation_projection =
  rj_source_path :: string
  rj_source_offset :: u64
  rj_capture_time_ns :: u64
  rj_payload_size :: u64
  rj_device :: device_id
  rj_sequence :: u32

record rotation_shard =
  rh_output_path :: string
  rh_reason :: rotation_reason
  rh_record_count :: u64
  rh_payload_bytes :: u64
  rh_estimated_file_bytes :: u64
  rh_first_time_ns :: u64
  rh_last_time_ns :: u64
  rh_records :: "rotation_projection list"

definition rotation_shard_default :: rotation_shard where
  "rotation_shard_default = \<lparr>rh_output_path = [], rh_reason = RR_none, rh_record_count = 0, rh_payload_bytes = 0,
     rh_estimated_file_bytes = 0, rh_first_time_ns = 0, rh_last_time_ns = 0, rh_records = []\<rparr>"

record rotation_step =
  rt_kind :: rotation_step_kind
  rt_reason :: rotation_reason
  rt_source_path :: string
  rt_output_path :: string
  rt_capture_time_ns :: u64
  rt_source_offset :: u64
  rt_note :: string

record rotation_plan =
  rp_policy :: rotation_policy
  rp_shards :: "rotation_shard list"
  rp_steps :: "rotation_step list"
  rp_input_archives :: u64
  rp_input_records :: u64
  rp_output_records :: u64
  rp_skipped_records :: u64

record rotation_options =
  rx_overwrite_outputs :: bool
  rx_preserve_input_order :: bool

record rotation_report =
  rr_plan :: rotation_plan
  rr_written_archives :: "string list"
  rr_warnings :: "string list"
  rr_records_written :: u64
  rr_records_skipped :: u64

record mutable_shard =
  mu_shard :: rotation_shard
  mu_has_records :: bool

definition archive_header_bytes :: u64 where "archive_header_bytes = 36"
definition archive_record_overhead_bytes :: u64 where "archive_record_overhead_bytes = 16"

section \<open>Names and paths\<close>

definition format_shard_name :: "rotation_policy \<Rightarrow> u64 \<Rightarrow> string" where
  "format_shard_name policy shard_index =
     ro_output_prefix policy @ ''_'' @ replicate (6 - length (dec shard_index)) CHR ''0'' @ dec shard_index @
     ro_output_extension policy"

definition rotation_output_path :: "rotation_policy \<Rightarrow> string \<Rightarrow> u64 \<Rightarrow> string" where
  "rotation_output_path policy directory shard_index = path_join directory (format_shard_name policy shard_index)"

definition make_step ::
  "rotation_step_kind \<Rightarrow> rotation_reason \<Rightarrow> rotation_projection \<Rightarrow> string \<Rightarrow> string \<Rightarrow> rotation_step" where
  "make_step kind reason r output note =
     \<lparr>rt_kind = kind, rt_reason = reason, rt_source_path = rj_source_path r, rt_output_path = output,
      rt_capture_time_ns = rj_capture_time_ns r, rt_source_offset = rj_source_offset r, rt_note = note\<rparr>"

definition make_archive_step :: "rotation_step_kind \<Rightarrow> rotation_reason \<Rightarrow> string \<Rightarrow> string \<Rightarrow> rotation_step" where
  "make_archive_step kind reason output note =
     \<lparr>rt_kind = kind, rt_reason = reason, rt_source_path = [], rt_output_path = output,
      rt_capture_time_ns = 0, rt_source_offset = 0, rt_note = note\<rparr>"

section \<open>Boundaries\<close>

definition estimate_file_bytes_after :: "rotation_shard \<Rightarrow> rotation_projection \<Rightarrow> u64" where
  "estimate_file_bytes_after shard r =
     rh_estimated_file_bytes shard + archive_record_overhead_bytes + rj_payload_size r"

definition span_after :: "rotation_shard \<Rightarrow> rotation_projection \<Rightarrow> u64" where
  "span_after shard r =
     (if rh_record_count shard = 0 then 0
      else max (rh_last_time_ns shard) (rj_capture_time_ns r) - min (rh_first_time_ns shard) (rj_capture_time_ns r))"

definition boundary_reason :: "rotation_policy \<Rightarrow> rotation_shard \<Rightarrow> rotation_projection \<Rightarrow> rotation_reason option" where
  "boundary_reason policy shard r =
     (if rh_record_count shard = 0 then None
      else if ro_max_records_per_archive policy \<noteq> 0 \<and> rh_record_count shard \<ge> ro_max_records_per_archive policy
      then Some RR_max_records
      else if ro_max_payload_bytes_per_archive policy \<noteq> 0 \<and>
        rh_payload_bytes shard + rj_payload_size r > ro_max_payload_bytes_per_archive policy
      then Some RR_max_payload_bytes
      else if ro_max_capture_span_ns policy \<noteq> 0 \<and> span_after shard r > ro_max_capture_span_ns policy
      then Some RR_max_span_ns
      else if ro_max_estimated_file_bytes policy \<noteq> 0 \<and>
        estimate_file_bytes_after shard r > ro_max_estimated_file_bytes policy
      then Some RR_max_file_bytes
      else if ro_idle_gap_ns policy \<noteq> 0 \<and> rj_capture_time_ns r > rh_last_time_ns shard \<and>
        rj_capture_time_ns r - rh_last_time_ns shard > ro_idle_gap_ns policy
      then Some RR_idle_gap
      else None)"

definition rotation_policy_has_limits :: "rotation_policy \<Rightarrow> bool" where
  "rotation_policy_has_limits policy \<longleftrightarrow>
     ro_max_records_per_archive policy \<noteq> 0 \<or> ro_max_payload_bytes_per_archive policy \<noteq> 0 \<or>
     ro_max_capture_span_ns policy \<noteq> 0 \<or> ro_max_estimated_file_bytes policy \<noteq> 0 \<or> ro_idle_gap_ns policy \<noteq> 0"

definition append_record :: "rotation_projection \<Rightarrow> rotation_shard \<Rightarrow> rotation_shard" where
  "append_record r shard =
     (let shard = (if rh_record_count shard = 0
            then shard\<lparr>rh_first_time_ns := rj_capture_time_ns r, rh_last_time_ns := rj_capture_time_ns r,
                   rh_estimated_file_bytes := archive_header_bytes\<rparr>
            else shard\<lparr>rh_first_time_ns := min (rh_first_time_ns shard) (rj_capture_time_ns r),
                   rh_last_time_ns := max (rh_last_time_ns shard) (rj_capture_time_ns r)\<rparr>)
      in shard\<lparr>rh_record_count := rh_record_count shard + 1,
           rh_payload_bytes := rh_payload_bytes shard + rj_payload_size r,
           rh_estimated_file_bytes := rh_estimated_file_bytes shard + (archive_record_overhead_bytes + rj_payload_size r),
           rh_records := rh_records shard @ [r]\<rparr>)"

definition estimate_index_entry_bytes :: "archive_index_entry \<Rightarrow> u64" where
  "estimate_index_entry_bytes entry = archive_record_overhead_bytes + ix_payload_size entry"

definition estimate_archive_record_bytes :: "archive_record \<Rightarrow> u64" where
  "estimate_archive_record_bytes r = archive_record_overhead_bytes + of_nat (length (p_payload (rec_packet r)))"

section \<open>Planning\<close>

definition close_current_shard :: "rotation_reason \<Rightarrow> rotation_plan \<times> mutable_shard \<Rightarrow> rotation_plan \<times> mutable_shard" where
  "close_current_shard next_reason state =
     (let (plan, current) = state
      in if \<not> mu_has_records current \<and> \<not> ro_keep_empty_archives (rp_policy plan) then (plan, current)
         else let shard = (mu_shard current)\<lparr>rh_reason := next_reason\<rparr>
              in (plan\<lparr>rp_steps := rp_steps plan @ [make_archive_step RS_close_archive next_reason (rh_output_path shard)
                          ''close rotation shard''],
                       rp_output_records := rp_output_records plan + rh_record_count shard,
                       rp_shards := rp_shards plan @ [shard]\<rparr>,
                  \<lparr>mu_shard = rotation_shard_default, mu_has_records = False\<rparr>))"

definition start_shard ::
  "rotation_policy \<Rightarrow> string \<Rightarrow> u64 \<Rightarrow> rotation_reason \<Rightarrow> rotation_plan \<Rightarrow> rotation_plan \<times> mutable_shard" where
  "start_shard policy directory shard_index reason plan =
     (let shard = rotation_shard_default\<lparr>rh_output_path := rotation_output_path policy directory shard_index,
            rh_reason := reason, rh_estimated_file_bytes := archive_header_bytes\<rparr>
      in (plan\<lparr>rp_steps := rp_steps plan @ [make_archive_step RS_start_new_archive reason (rh_output_path shard)
                  ''start rotation shard'']\<rparr>,
          \<lparr>mu_shard = shard, mu_has_records = False\<rparr>))"

definition project_archive_records :: "archive_files \<Rightarrow> string \<Rightarrow> error + rotation_projection list" where
  "project_archive_records files path =
     err_bind (open_archive_index files path) (\<lambda>index.
       Inr (map (\<lambda>entry. \<lparr>rj_source_path = path, rj_source_offset = ix_offset entry,
         rj_capture_time_ns = ix_capture_time_ns entry, rj_payload_size = ix_payload_size entry,
         rj_device = ix_device entry, rj_sequence = ix_sequence entry\<rparr>) (ai_records index)))"

definition projection_less :: "rotation_projection \<Rightarrow> rotation_projection \<Rightarrow> bool" where
  "projection_less l r =
     (if rj_capture_time_ns l \<noteq> rj_capture_time_ns r then rj_capture_time_ns l < rj_capture_time_ns r
      else if \<not> path_eq (rj_source_path l) (rj_source_path r) then rj_source_path l < rj_source_path r
      else rj_source_offset l < rj_source_offset r)"

fun stable_insert :: "('a \<Rightarrow> 'a \<Rightarrow> bool) \<Rightarrow> 'a \<Rightarrow> 'a list \<Rightarrow> 'a list" where
  "stable_insert lt x [] = [x]"
| "stable_insert lt x (y # ys) = (if lt y x then y # stable_insert lt x ys else x # y # ys)"

definition stable_sort :: "('a \<Rightarrow> 'a \<Rightarrow> bool) \<Rightarrow> 'a list \<Rightarrow> 'a list" where
  "stable_sort lt xs = foldr (stable_insert lt) xs []"

fun projected_inputs :: "archive_files \<Rightarrow> rotation_input list \<Rightarrow> error + rotation_projection list" where
  "projected_inputs files [] = Inr []"
| "projected_inputs files (input # inputs) =
     err_bind (project_archive_records files (rn_path input)) (\<lambda>projected.
     err_bind (projected_inputs files inputs) (\<lambda>records. Inr (projected @ records)))"

definition collect_inputs :: "archive_files \<Rightarrow> rotation_input list \<Rightarrow> error + rotation_projection list" where
  "collect_inputs files inputs =
     err_bind (projected_inputs files inputs) (\<lambda>records. Inr (stable_sort projection_less records))"

type_synonym rotation_state = "rotation_plan \<times> mutable_shard \<times> u64"

definition rotate_record ::
  "rotation_policy \<Rightarrow> string \<Rightarrow> rotation_projection \<Rightarrow> rotation_state \<Rightarrow> rotation_state" where
  "rotate_record policy directory r state =
     (let (plan, current, shard_index) = state;
          (plan, current, shard_index) =
            (case boundary_reason policy (mu_shard current) r of
               None \<Rightarrow> (plan, current, shard_index)
             | Some reason \<Rightarrow>
                 let (plan, current) = close_current_shard reason (plan, current);
                     shard_index = shard_index + 1;
                     (plan, current) = start_shard policy directory shard_index reason plan
                 in (plan, current, shard_index));
          current = current\<lparr>mu_has_records := True, mu_shard := append_record r (mu_shard current)\<rparr>
      in (plan\<lparr>rp_steps := rp_steps plan @ [make_step RS_copy_record RR_none r (rh_output_path (mu_shard current))
             ''copy record into rotation shard'']\<rparr>, current, shard_index))"

definition plan_archive_rotation ::
  "archive_files \<Rightarrow> rotation_input list \<Rightarrow> rotation_policy \<Rightarrow> string \<Rightarrow> error + rotation_plan" where
  "plan_archive_rotation files inputs policy output_directory =
     (let plan = \<lparr>rp_policy = policy, rp_shards = [], rp_steps = [], rp_input_archives = of_nat (length inputs),
            rp_input_records = 0, rp_output_records = 0, rp_skipped_records = 0\<rparr>
      in if ro_output_prefix policy = []
         then Inl (Error EC_invalid_argument ''rotation output prefix must not be empty'')
         else if ro_output_extension policy = []
         then Inl (Error EC_invalid_argument ''rotation output extension must not be empty'')
         else err_bind (collect_inputs files inputs) (\<lambda>records.
           let plan = plan\<lparr>rp_input_records := of_nat (length records)\<rparr>
           in if records = []
              then Inr (if ro_keep_empty_archives policy
                        then fst (close_current_shard RR_none (start_shard policy output_directory 0 RR_none plan))
                        else plan)
              else let (plan, current) = start_shard policy output_directory 0 RR_none plan;
                       (plan, current, shard_index) =
                         fold (rotate_record policy output_directory) records (plan, current, 0)
                   in Inr (fst (close_current_shard RR_none (plan, current)))))"

fun rotation_inputs :: "archive_files \<Rightarrow> string list \<Rightarrow> error + rotation_input list" where
  "rotation_inputs files [] = Inr []"
| "rotation_inputs files (path # paths) =
     err_bind (build_archive_manifest files path) (\<lambda>m.
     err_bind (rotation_inputs files paths) (\<lambda>inputs. Inr (\<lparr>rn_path = path, rn_manifest = m\<rparr> # inputs)))"

definition plan_rotation_of_paths ::
  "archive_files \<Rightarrow> string list \<Rightarrow> rotation_policy \<Rightarrow> string \<Rightarrow> error + rotation_plan" where
  "plan_rotation_of_paths files inputs policy output_directory =
     err_bind (rotation_inputs files inputs) (\<lambda>archives.
       plan_archive_rotation files archives policy output_directory)"

section \<open>Validating and executing a plan\<close>

definition validate_shard ::
  "rotation_policy \<Rightarrow> rotation_shard \<Rightarrow> string list \<times> string set \<times> u64 \<Rightarrow> string list \<times> string set \<times> u64" where
  "validate_shard policy shard state =
     (let (warnings, outputs, counted) = state
      in (warnings @
          (if rh_output_path shard = [] then [''rotation shard has empty output path''] else []) @
          (if rh_output_path shard \<in> outputs then [''rotation plan contains duplicate output path''] else []) @
          (if rh_record_count shard \<noteq> of_nat (length (rh_records shard))
           then [''rotation shard record count differs from projected records''] else []) @
          (if rh_record_count shard = 0 \<and> \<not> ro_keep_empty_archives policy
           then [''rotation shard is empty but empty archives are disabled''] else []) @
          (if rh_record_count shard \<noteq> 0 \<and> rh_first_time_ns shard > rh_last_time_ns shard
           then [''rotation shard has inverted time range''] else []),
          insert (rh_output_path shard) outputs, counted + rh_record_count shard))"

definition validate_rotation_plan :: "rotation_plan \<Rightarrow> string list" where
  "validate_rotation_plan plan =
     (let (warnings, outputs, counted) = fold (validate_shard (rp_policy plan)) (rp_shards plan) ([], {}, 0)
      in warnings @
         (if counted \<noteq> rp_output_records plan
          then [''rotation output record total differs from shard totals''] else []) @
         (if rp_output_records plan + rp_skipped_records plan \<noteq> rp_input_records plan
          then [''rotation plan does not account for every input record''] else []))"

definition read_record_at :: "archive_files \<Rightarrow> string \<Rightarrow> u64 \<Rightarrow> error + archive_record option" where
  "read_record_at files path offset = err_bind (open_archive files path) (load_loop offset)"

definition ensure_output_available ::
  "archive_files \<Rightarrow> string \<Rightarrow> bool \<Rightarrow> string list \<Rightarrow> error + archive_files \<times> string list" where
  "ensure_output_available files path can_overwrite warnings =
     (if files path = None then Inr (files, warnings)
      else if \<not> can_overwrite then Inl (Error EC_invalid_argument ''rotation output already exists'')
      else Inr (files(path := None), warnings @ [''overwriting existing archive: '' @ path]))"

fun copy_records ::
  "archive_files \<Rightarrow> rotation_projection list \<Rightarrow> rotation_report \<Rightarrow> archive_writer \<Rightarrow>
   (error + rotation_report) \<times> archive_writer" where
  "copy_records files [] report writer = (Inr report, writer)"
| "copy_records files (r # rs) report writer =
     (case read_record_at files (rj_source_path r) (rj_source_offset r) of
        Inl e \<Rightarrow> (Inl e, writer)
      | Inr None \<Rightarrow>
          copy_records files rs
            (report\<lparr>rr_records_skipped := rr_records_skipped report + 1,
               rr_warnings := rr_warnings report @ [''missing projected record at offset '' @ dec (rj_source_offset r)]\<rparr>) writer
      | Inr (Some found) \<Rightarrow>
          (case aw_append (rec_capture_time_ns found) (rec_packet found) writer of
             (Inl e, writer) \<Rightarrow> (Inl e, writer)
           | (Inr _, writer) \<Rightarrow>
               copy_records files rs (report\<lparr>rr_records_written := rr_records_written report + 1\<rparr>) writer))"

fun execute_shards ::
  "rotation_options \<Rightarrow> rotation_shard list \<Rightarrow> rotation_report \<Rightarrow> archive_files \<Rightarrow>
   (error + rotation_report) \<times> archive_files" where
  "execute_shards options [] report files = (Inr report, files)"
| "execute_shards options (shard # shards) report files =
     (case ensure_output_available files (rh_output_path shard) (rx_overwrite_outputs options) (rr_warnings report) of
        Inl e \<Rightarrow> (Inl e, files)
      | Inr (files, warnings) \<Rightarrow>
          let path = rh_output_path shard;
              (result, writer) = copy_records (files(path := Some [])) (rh_records shard)
                (report\<lparr>rr_warnings := warnings\<rparr>) aw_open
          in case result of
               Inl e \<Rightarrow> (Inl e, files(path := Some (aw_file (aw_destroy writer))))
             | Inr report \<Rightarrow>
                 (case aw_close writer of
                    (Inl e, writer) \<Rightarrow> (Inl e, files(path := Some (aw_file (aw_destroy writer))))
                  | (Inr _, writer) \<Rightarrow>
                      execute_shards options shards
                        (report\<lparr>rr_written_archives := rr_written_archives report @ [path]\<rparr>)
                        (files(path := Some (aw_file writer)))))"

definition execute_archive_rotation ::
  "rotation_plan \<Rightarrow> rotation_options \<Rightarrow> archive_files \<Rightarrow> (error + rotation_report) \<times> archive_files" where
  "execute_archive_rotation plan options files =
     (if validate_rotation_plan plan \<noteq> []
      then (Inl (Error EC_invalid_argument ''rotation plan failed validation''), files)
      else execute_shards options (rp_shards plan)
        \<lparr>rr_plan = plan, rr_written_archives = [], rr_warnings = [], rr_records_written = 0, rr_records_skipped = 0\<rparr>
        files)"

section \<open>Text output\<close>

definition rotation_reason_name :: "rotation_reason \<Rightarrow> string" where
  "rotation_reason_name reason =
     (case reason of
        RR_none \<Rightarrow> ''none'' | RR_max_records \<Rightarrow> ''max_records'' | RR_max_payload_bytes \<Rightarrow> ''max_payload_bytes''
      | RR_max_span_ns \<Rightarrow> ''max_span_ns'' | RR_max_file_bytes \<Rightarrow> ''max_file_bytes'' | RR_idle_gap \<Rightarrow> ''idle_gap''
      | RR_explicit_boundary \<Rightarrow> ''explicit_boundary'')"

definition rotation_step_name :: "rotation_step_kind \<Rightarrow> string" where
  "rotation_step_name kind =
     (case kind of
        RS_keep_current \<Rightarrow> ''keep_current'' | RS_start_new_archive \<Rightarrow> ''start_new_archive''
      | RS_close_archive \<Rightarrow> ''close_archive'' | RS_copy_record \<Rightarrow> ''copy_record'' | RS_skip_record \<Rightarrow> ''skip_record'')"

definition render_rotation_plan :: "rotation_plan \<Rightarrow> string" where
  "render_rotation_plan plan =
     ''rotation_plan'' @ newline @
     ''  input_archives: '' @ dec (rp_input_archives plan) @ newline @
     ''  input_records: '' @ dec (rp_input_records plan) @ newline @
     ''  output_records: '' @ dec (rp_output_records plan) @ newline @
     ''  skipped_records: '' @ dec (rp_skipped_records plan) @ newline @
     ''  shards: '' @ dec_nat (length (rp_shards plan)) @ newline @
     concat (map (\<lambda>shard. ''  shard: '' @ rh_output_path shard @
       '' reason='' @ rotation_reason_name (rh_reason shard) @
       '' records='' @ dec (rh_record_count shard) @
       '' payload_bytes='' @ dec (rh_payload_bytes shard) @
       '' estimated_file_bytes='' @ dec (rh_estimated_file_bytes shard) @
       '' first_time_ns='' @ dec (rh_first_time_ns shard) @
       '' last_time_ns='' @ dec (rh_last_time_ns shard) @ newline) (rp_shards plan)) @
     concat (map (\<lambda>step. ''  step: '' @ rotation_step_name (rt_kind step) @
       '' reason='' @ rotation_reason_name (rt_reason step) @
       '' source='' @ rt_source_path step @
       '' output='' @ rt_output_path step @
       '' offset='' @ dec (rt_source_offset step) @
       '' capture_time_ns='' @ dec (rt_capture_time_ns step) @
       '' note='' @ dquote @ rt_note step @ dquote @ newline) (rp_steps plan))"

definition render_rotation_execution_report :: "rotation_report \<Rightarrow> string" where
  "render_rotation_execution_report report =
     ''rotation_execution'' @ newline @
     ''  written_archives: '' @ dec_nat (length (rr_written_archives report)) @ newline @
     ''  records_written: '' @ dec (rr_records_written report) @ newline @
     ''  records_skipped: '' @ dec (rr_records_skipped report) @ newline @
     concat (map (\<lambda>archive. ''  archive: '' @ archive @ newline) (rr_written_archives report)) @
     concat (map (\<lambda>warning. ''  warning: '' @ warning @ newline) (rr_warnings report))"

section \<open>Stable sorting\<close>

lemma stable_insert_key:
  "(\<And>y. y \<in> set ys \<Longrightarrow> lt y x \<longleftrightarrow> key y < (key x :: 'k::linorder)) \<Longrightarrow> stable_insert lt x ys = insort_key key x ys"
  by (induction ys) (auto simp: not_less)

lemma stable_sort_key:
  assumes "\<And>x y. x \<in> set xs \<Longrightarrow> y \<in> set xs \<Longrightarrow> lt x y \<longleftrightarrow> key x < (key y :: 'k::linorder)"
  shows "stable_sort lt xs = sort_key key xs"
  using assms unfolding stable_sort_def
proof (induction xs)
  case (Cons x xs)
  then have "foldr (stable_insert lt) xs [] = sort_key key xs" by simp
  moreover have "stable_insert lt x (sort_key key xs) = insort_key key x (sort_key key xs)"
    by (rule stable_insert_key) (use Cons.prems in auto)
  ultimately show ?case by simp
qed simp

lemma mset_stable_insert: "mset (stable_insert lt x ys) = add_mset x (mset ys)"
  by (induction ys) auto

lemma mset_stable_sort: "mset (stable_sort lt xs) = mset xs"
  unfolding stable_sort_def by (induction xs) (simp_all add: mset_stable_insert)

section \<open>Sound shards\<close>

definition shard_sound :: "rotation_policy \<Rightarrow> rotation_shard \<Rightarrow> bool" where
  "shard_sound policy s \<longleftrightarrow>
     (let rs = rh_records s; ts = rj_capture_time_ns ` set rs
      in rs \<noteq> [] \<and> rh_record_count s = of_nat (length rs) \<and>
         rh_payload_bytes s = (\<Sum>r\<leftarrow>rs. rj_payload_size r) \<and>
         rh_estimated_file_bytes s = 36 + (\<Sum>r\<leftarrow>rs. 16 + rj_payload_size r) \<and>
         rh_first_time_ns s = Min ts \<and> rh_last_time_ns s = Max ts \<and>
         (ro_max_records_per_archive policy \<noteq> 0 \<longrightarrow> length rs \<le> unat (ro_max_records_per_archive policy)) \<and>
         (ro_max_payload_bytes_per_archive policy \<noteq> 0 \<and> 1 < length rs \<longrightarrow>
            rh_payload_bytes s \<le> ro_max_payload_bytes_per_archive policy) \<and>
         (ro_max_capture_span_ns policy \<noteq> 0 \<longrightarrow> rh_last_time_ns s - rh_first_time_ns s \<le> ro_max_capture_span_ns policy) \<and>
         (ro_max_estimated_file_bytes policy \<noteq> 0 \<and> 1 < length rs \<longrightarrow>
            rh_estimated_file_bytes s \<le> ro_max_estimated_file_bytes policy) \<and>
         (ro_idle_gap_ns policy \<noteq> 0 \<longrightarrow>
            successively (\<lambda>a b. rj_capture_time_ns b - rj_capture_time_ns a \<le> ro_idle_gap_ns policy) rs))"

lemma first_sound:
  assumes "rh_records s = []" and "rh_record_count s = 0" and "rh_payload_bytes s = 0"
  shows "shard_sound policy (append_record r s)"
  using assms
  by (auto simp: shard_sound_def append_record_def Let_def archive_header_bytes_def archive_record_overhead_bytes_def
      Suc_le_eq unat_gt_0)

lemma sorted_last_Max: "sorted (map t xs) \<Longrightarrow> xs \<noteq> [] \<Longrightarrow> Max (t ` set xs) = (t (last xs) :: 'k::linorder)"
  by (induction xs) (auto simp: max_def)

lemma append_sound:
  assumes "shard_sound policy s" and "boundary_reason policy s r = None"
    and "length (rh_records s) < 18446744073709551615"
    and "sorted (map rj_capture_time_ns (rh_records s @ [r]))"
  shows "shard_sound policy (append_record r s)"
proof -
  let ?rs = "rh_records s" and ?t = rj_capture_time_ns
  from assms(1) have ne: "?rs \<noteq> []" and count: "rh_record_count s = of_nat (length ?rs)"
    and bytes: "rh_payload_bytes s = (\<Sum>r\<leftarrow>?rs. rj_payload_size r)"
    and est: "rh_estimated_file_bytes s = 36 + (\<Sum>r\<leftarrow>?rs. 16 + rj_payload_size r)"
    and span: "rh_first_time_ns s = Min (?t ` set ?rs)" "rh_last_time_ns s = Max (?t ` set ?rs)"
    and gap: "ro_idle_gap_ns policy \<noteq> 0 \<Longrightarrow> successively (\<lambda>a b. ?t b - ?t a \<le> ro_idle_gap_ns policy) ?rs"
    by (simp_all add: shard_sound_def Let_def)
  have unat: "unat (rh_record_count s) = length ?rs" using assms(3) by (simp add: count unat_of_nat_u64 del: unat_of_nat)
  then have nz: "rh_record_count s \<noteq> 0" using ne by auto
  have last: "rh_last_time_ns s = ?t (last ?rs)"
    using sorted_last_Max [of ?t ?rs] assms(4) ne span(2) by (simp add: sorted_append)
  have le: "?t (last ?rs) \<le> ?t r" using assms(4) ne by (auto simp: sorted_append)
  let ?s = "append_record r s"
  have fields: "rh_records ?s = ?rs @ [r]" "rh_record_count ?s = of_nat (length (?rs @ [r]))"
    "rh_payload_bytes ?s = rh_payload_bytes s + rj_payload_size r"
    "rh_estimated_file_bytes ?s = rh_estimated_file_bytes s + (16 + rj_payload_size r)"
    "rh_first_time_ns ?s = min (rh_first_time_ns s) (?t r)" "rh_last_time_ns ?s = max (rh_last_time_ns s) (?t r)"
    using nz by (simp_all add: append_record_def Let_def count archive_record_overhead_bytes_def)
  note limits = assms(2) [unfolded boundary_reason_def]
  have "ro_max_records_per_archive policy \<noteq> 0 \<longrightarrow> length (?rs @ [r]) \<le> unat (ro_max_records_per_archive policy)"
    using limits nz unat by (auto simp: word_le_nat_alt split: if_splits)
  moreover have "ro_max_payload_bytes_per_archive policy \<noteq> 0 \<longrightarrow>
      rh_payload_bytes ?s \<le> ro_max_payload_bytes_per_archive policy"
    using limits nz fields(3) by (auto split: if_splits)
  moreover have "ro_max_capture_span_ns policy \<noteq> 0 \<longrightarrow>
      rh_last_time_ns ?s - rh_first_time_ns ?s \<le> ro_max_capture_span_ns policy"
    using limits nz fields(5,6) by (auto simp: span_after_def split: if_splits)
  moreover have "ro_max_estimated_file_bytes policy \<noteq> 0 \<longrightarrow>
      rh_estimated_file_bytes ?s \<le> ro_max_estimated_file_bytes policy"
    using limits nz fields(4)
    by (auto simp: estimate_file_bytes_after_def archive_record_overhead_bytes_def add.assoc split: if_splits)
  moreover have "ro_idle_gap_ns policy \<noteq> 0 \<longrightarrow>
      successively (\<lambda>a b. ?t b - ?t a \<le> ro_idle_gap_ns policy) (?rs @ [r])"
  proof
    assume idle: "ro_idle_gap_ns policy \<noteq> 0"
    have "?t r - ?t (last ?rs) \<le> ro_idle_gap_ns policy"
    proof (cases "?t (last ?rs) < ?t r")
      case True
      with limits nz idle show ?thesis by (auto simp: last split: if_splits)
    next
      case False
      with le have "?t r = ?t (last ?rs)" by simp
      then show ?thesis by simp
    qed
    with gap [OF idle] ne show "successively (\<lambda>a b. ?t b - ?t a \<le> ro_idle_gap_ns policy) (?rs @ [r])"
      by (simp add: successively_append_iff)
  qed
  moreover have "rh_payload_bytes ?s = (\<Sum>r\<leftarrow>?rs @ [r]. rj_payload_size r)"
    "rh_estimated_file_bytes ?s = 36 + (\<Sum>r\<leftarrow>?rs @ [r]. 16 + rj_payload_size r)"
    "rh_first_time_ns ?s = Min (?t ` set (?rs @ [r]))" "rh_last_time_ns ?s = Max (?t ` set (?rs @ [r]))"
    using ne by (simp_all add: fields bytes est span min.commute max.commute add.assoc)
  ultimately show ?thesis
    unfolding shard_sound_def Let_def fields(1) using fields(2) by blast
qed

section \<open>The plan\<close>

definition rotation_inv :: "rotation_policy \<Rightarrow> string \<Rightarrow> rotation_projection list \<Rightarrow> rotation_state \<Rightarrow> bool" where
  "rotation_inv policy directory rs state \<longleftrightarrow>
     (let (plan, current, shard_index) = state
      in mu_has_records current \<and> shard_sound policy (mu_shard current) \<and>
         list_all (shard_sound policy) (rp_shards plan) \<and>
         concat (map rh_records (rp_shards plan)) @ rh_records (mu_shard current) = rs \<and>
         map rh_output_path (rp_shards plan @ [mu_shard current]) =
           map (\<lambda>i. rotation_output_path policy directory (of_nat i)) [0..<Suc (length (rp_shards plan))] \<and>
         shard_index = of_nat (length (rp_shards plan)) \<and> rp_policy plan = policy \<and>
         rp_output_records plan = of_nat (length (concat (map rh_records (rp_shards plan)))))"

lemma append_record_path [simp]:
  "rh_output_path (append_record r s) = rh_output_path s" "rh_records (append_record r s) = rh_records s @ [r]"
  by (simp_all add: append_record_def Let_def)

lemma close_sound:
  assumes "shard_sound policy s"
  shows "shard_sound policy (s\<lparr>rh_reason := reason\<rparr>)"
  using assms by (simp add: shard_sound_def)

lemma rotate_inv:
  assumes "rotation_inv policy directory rs state" and "sorted (map rj_capture_time_ns (rs @ [r]))"
    and "length rs < 18446744073709551615"
  shows "rotation_inv policy directory (rs @ [r]) (rotate_record policy directory r state)"
proof -
  obtain plan current n where state: "state = (plan, current, n)" by (cases state)
  have inv: "mu_has_records current" "shard_sound policy (mu_shard current)" "list_all (shard_sound policy) (rp_shards plan)"
    "concat (map rh_records (rp_shards plan)) @ rh_records (mu_shard current) = rs"
    "map rh_output_path (rp_shards plan @ [mu_shard current]) =
       map (\<lambda>i. rotation_output_path policy directory (of_nat i)) [0..<Suc (length (rp_shards plan))]"
    "n = of_nat (length (rp_shards plan))" "rp_policy plan = policy"
    "rp_output_records plan = of_nat (length (concat (map rh_records (rp_shards plan))))"
    using assms(1) by (simp_all add: rotation_inv_def state)
  show ?thesis
  proof (cases "boundary_reason policy (mu_shard current) r")
    case None
    have "sorted (map rj_capture_time_ns (rh_records (mu_shard current) @ [r]))"
      using assms(2) inv(4) [symmetric] by (simp add: sorted_append)
    moreover have "length (rh_records (mu_shard current)) < 18446744073709551615"
      using assms(3) inv(4) [symmetric] by simp
    ultimately have "shard_sound policy (append_record r (mu_shard current))"
      using append_sound inv(2) None by blast
    with inv None show ?thesis by (simp add: rotation_inv_def state rotate_record_def Let_def)
  next
    case (Some reason)
    have fresh: "shard_sound policy (append_record r
        (rotation_shard_default\<lparr>rh_output_path := rotation_output_path policy directory (n + 1),
           rh_reason := reason, rh_estimated_file_bytes := archive_header_bytes\<rparr>))"
      by (rule first_sound) (simp_all add: rotation_shard_default_def)
    have count: "rh_record_count (mu_shard current) = of_nat (length (rh_records (mu_shard current)))"
      using inv(2) by (simp add: shard_sound_def Let_def)
    have len: "(of_nat (length rs) :: u64) = of_nat (length (concat (map rh_records (rp_shards plan)))) +
        of_nat (length (rh_records (mu_shard current)))"
      unfolding inv(4) [symmetric] by simp
    from inv Some fresh close_sound [OF inv(2), of reason] show ?thesis
      by (simp add: rotation_inv_def state rotate_record_def Let_def close_current_shard_def start_shard_def
          rotation_shard_default_def count len add.commute [of 1])
  qed
qed

lemma rotate_all:
  "rs \<noteq> [] \<Longrightarrow> sorted (map rj_capture_time_ns rs) \<Longrightarrow> length rs < 18446744073709551616 \<Longrightarrow>
   mu_has_records current = False \<Longrightarrow> mu_shard current = rotation_shard_default\<lparr>rh_output_path :=
     rotation_output_path policy directory 0, rh_reason := RR_none, rh_estimated_file_bytes := archive_header_bytes\<rparr> \<Longrightarrow>
   rp_policy plan = policy \<Longrightarrow> rp_shards plan = [] \<Longrightarrow> rp_output_records plan = 0 \<Longrightarrow>
   rotation_inv policy directory rs (fold (rotate_record policy directory) rs (plan, current, 0))"
proof (induction rs rule: rev_nonempty_induct)
  case (single r)
  have "shard_sound policy (append_record r (mu_shard current))"
    using single by (intro first_sound) (simp_all add: rotation_shard_default_def)
  moreover have "boundary_reason policy (mu_shard current) r = None"
    using single by (simp add: boundary_reason_def rotation_shard_default_def)
  ultimately show ?case using single
    by (simp add: rotation_inv_def rotate_record_def Let_def rotation_shard_default_def)
next
  case (snoc r rs)
  then have "rotation_inv policy directory rs (fold (rotate_record policy directory) rs (plan, current, 0))"
    by (simp add: sorted_append)
  from rotate_inv [OF this, of r] snoc.prems show ?case by simp
qed

lemma rotate_counts:
  "rp_input_records (fst (rotate_record policy directory r state)) = rp_input_records (fst state)"
  "rp_skipped_records (fst (rotate_record policy directory r state)) = rp_skipped_records (fst state)"
  by (cases state; simp add: rotate_record_def Let_def close_current_shard_def start_shard_def split: option.split)+

lemma rotate_counts_all:
  "rp_input_records (fst (fold (rotate_record policy directory) rs state)) = rp_input_records (fst state)"
  "rp_skipped_records (fst (fold (rotate_record policy directory) rs state)) = rp_skipped_records (fst state)"
  by (induction rs arbitrary: state) (simp_all add: rotate_counts)

lemma undec_padded: "undec (replicate n CHR ''0'' @ s) = undec s"
proof -
  have "undigit CHR ''0'' = 0" using undigit_digit_char [of 0] by (simp add: digit_char_def char_of_def bit_0 bit_Suc)
  then show ?thesis by (induction n) (simp_all add: undec_def)
qed

lemma shard_name_inject: "format_shard_name policy a = format_shard_name policy b \<longleftrightarrow> a = b"
proof
  assume "format_shard_name policy a = format_shard_name policy b"
  then have "replicate (6 - length (dec a)) CHR ''0'' @ dec a = replicate (6 - length (dec b)) CHR ''0'' @ dec b"
    by (simp add: format_shard_name_def flip: append_assoc)
  then have "undec (dec a) = undec (dec b)" by (metis undec_padded)
  then show "a = b" by (simp add: dec_def undec_dec_nat word_unat_eq_iff)
qed simp

lemma output_path_inject:
  "ro_output_prefix policy \<noteq> [] \<Longrightarrow>
   rotation_output_path policy directory a = rotation_output_path policy directory b \<longleftrightarrow> a = b"
  using shard_name_inject [of policy a b]
  by (auto simp: rotation_output_path_def path_join_def format_shard_name_def)

lemma output_path_nonempty: "rotation_output_path policy directory a \<noteq> []"
  by (simp add: rotation_output_path_def path_join_def format_shard_name_def)

lemma sound_nonempty: "shard_sound policy s \<Longrightarrow> rh_records s \<noteq> []"
  by (simp add: shard_sound_def Let_def)

definition plan_of :: "rotation_policy \<Rightarrow> string \<Rightarrow> rotation_projection list \<Rightarrow> rotation_plan \<Rightarrow> bool" where
  "plan_of policy directory rs plan \<longleftrightarrow>
     rp_policy plan = policy \<and> concat (map rh_records (rp_shards plan)) = rs \<and>
     (if rs = []
      then \<forall>s \<in> set (rp_shards plan). ro_keep_empty_archives policy \<and> rh_records s = [] \<and> rh_record_count s = 0 \<and>
        rh_last_time_ns s = rh_first_time_ns s
      else \<forall>s \<in> set (rp_shards plan). shard_sound policy s) \<and>
     map rh_output_path (rp_shards plan) =
       map (\<lambda>i. rotation_output_path policy directory (of_nat i)) [0..<length (rp_shards plan)] \<and>
     length (rp_shards plan) \<le> max 1 (length rs) \<and>
     rp_output_records plan = of_nat (length rs) \<and> rp_input_records plan = of_nat (length rs) \<and>
     rp_skipped_records plan = 0"

lemma length_le_concat: "(\<And>s. s \<in> set ss \<Longrightarrow> f s \<noteq> []) \<Longrightarrow> length ss \<le> length (concat (map f ss))"
proof (induction ss)
  case (Cons s ss)
  then have "f s \<noteq> []" "length ss \<le> length (concat (map f ss))" by simp_all
  then show ?case by (cases "f s") simp_all
qed simp

lemma plan_rotation:
  assumes "ro_output_prefix policy \<noteq> []" and "ro_output_extension policy \<noteq> []"
    and "collect_inputs files inputs = Inr rs" and "sorted (map rj_capture_time_ns rs)"
    and "length rs < 18446744073709551616"
  shows "\<exists>plan. plan_archive_rotation files inputs policy directory = Inr plan \<and> plan_of policy directory rs plan"
proof (cases "rs = []")
  case True
  with assms show ?thesis
    by (cases "ro_keep_empty_archives policy")
      (simp_all add: plan_archive_rotation_def Let_def plan_of_def close_current_shard_def start_shard_def
        rotation_shard_default_def)
next
  case False
  define plan0 where "plan0 = \<lparr>rp_policy = policy, rp_shards = [], rp_steps = [],
    rp_input_archives = of_nat (length inputs), rp_input_records = of_nat (length rs), rp_output_records = 0,
    rp_skipped_records = 0\<rparr>"
  obtain plan1 current where start: "start_shard policy directory 0 RR_none plan0 = (plan1, current)" by fastforce
  then have p1: "rp_policy plan1 = policy" "rp_shards plan1 = []" "rp_output_records plan1 = 0"
    "rp_input_records plan1 = of_nat (length rs)" "rp_skipped_records plan1 = 0"
    and c: "mu_has_records current = False" "mu_shard current = rotation_shard_default\<lparr>rh_output_path :=
     rotation_output_path policy directory 0, rh_reason := RR_none, rh_estimated_file_bytes := archive_header_bytes\<rparr>"
    by (auto simp: start_shard_def Let_def plan0_def)
  obtain plan2 current2 n where run: "fold (rotate_record policy directory) rs (plan1, current, 0) = (plan2, current2, n)"
    by (cases "fold (rotate_record policy directory) rs (plan1, current, 0)") 
  have inv: "rotation_inv policy directory rs (plan2, current2, n)"
    using rotate_all [OF False assms(4,5) c p1(1-3)] run by simp
  have counts: "rp_input_records plan2 = of_nat (length rs)" "rp_skipped_records plan2 = 0"
    using rotate_counts_all [of policy directory rs "(plan1, current, 0)"] run p1 by simp_all
  have "plan_archive_rotation files inputs policy directory = Inr (fst (close_current_shard RR_none (plan2, current2)))"
    using assms(1-3) False start run by (simp add: plan_archive_rotation_def Let_def plan0_def)
  moreover have "plan_of policy directory rs (fst (close_current_shard RR_none (plan2, current2)))"
  proof -
    let ?shard = "(mu_shard current2)\<lparr>rh_reason := RR_none\<rparr>"
    have sound: "\<forall>s \<in> set (rp_shards plan2 @ [?shard]). shard_sound policy s"
      using inv by (auto simp: rotation_inv_def list_all_iff close_sound)
    then have "length (rp_shards plan2 @ [?shard]) \<le> length (concat (map rh_records (rp_shards plan2 @ [?shard])))"
      using sound_nonempty by (intro length_le_concat) blast
    moreover have all: "concat (map rh_records (rp_shards plan2 @ [?shard])) = rs"
      using inv by (simp add: rotation_inv_def)
    ultimately have len: "length (rp_shards plan2 @ [?shard]) \<le> length rs" by (simp only:)
    have "rh_record_count (mu_shard current2) = of_nat (length (rh_records (mu_shard current2)))"
      using inv by (simp add: rotation_inv_def shard_sound_def Let_def)
    moreover have "(of_nat (length rs) :: u64) = of_nat (length (concat (map rh_records (rp_shards plan2)))) +
        of_nat (length (rh_records (mu_shard current2)))"
      unfolding all [symmetric] by simp
    ultimately show ?thesis
      using inv sound all len False counts
      by (simp add: plan_of_def rotation_inv_def close_current_shard_def Let_def)
  qed
  ultimately show ?thesis by blast
qed

section \<open>Validation\<close>

definition shard_valid :: "rotation_policy \<Rightarrow> rotation_shard \<Rightarrow> bool" where
  "shard_valid policy s \<longleftrightarrow> rh_output_path s \<noteq> [] \<and> rh_record_count s = of_nat (length (rh_records s)) \<and>
     (rh_record_count s = 0 \<longrightarrow> ro_keep_empty_archives policy) \<and>
     (rh_record_count s \<noteq> 0 \<longrightarrow> rh_first_time_ns s \<le> rh_last_time_ns s)"

lemma validate_shards:
  "distinct (map rh_output_path ss) \<Longrightarrow> set (map rh_output_path ss) \<inter> outputs = {} \<Longrightarrow>
   \<forall>s \<in> set ss. shard_valid policy s \<Longrightarrow>
   fold (validate_shard policy) ss (w, outputs, c) =
     (w, outputs \<union> set (map rh_output_path ss), c + of_nat (length (concat (map rh_records ss))))"
proof (induction ss arbitrary: outputs c)
  case (Cons s ss)
  have "validate_shard policy s (w, outputs, c) =
      (w, insert (rh_output_path s) outputs, c + of_nat (length (rh_records s)))"
    using Cons.prems by (auto simp: validate_shard_def shard_valid_def not_less)
  moreover have "set (map rh_output_path ss) \<inter> insert (rh_output_path s) outputs = {}" using Cons.prems by auto
  from Cons.IH [OF _ this] Cons.prems have "fold (validate_shard policy) ss
      (w, insert (rh_output_path s) outputs, c + of_nat (length (rh_records s))) =
      (w, insert (rh_output_path s) outputs \<union> set (map rh_output_path ss),
       c + of_nat (length (rh_records s)) + of_nat (length (concat (map rh_records ss))))" by simp
  ultimately show ?case by (simp add: add.assoc)
qed simp

lemma sound_span: "shard_sound policy s \<Longrightarrow> rh_first_time_ns s \<le> rh_last_time_ns s"
  by (auto simp: shard_sound_def Let_def intro!: Min_le_iff [THEN iffD2] bexI [of _ "rj_capture_time_ns (hd (rh_records s))"])

lemma plan_valid:
  assumes "plan_of policy directory rs plan" and "ro_output_prefix policy \<noteq> []" and "length rs < 18446744073709551616"
  shows "distinct (map rh_output_path (rp_shards plan))" and "validate_rotation_plan plan = []"
proof -
  have paths: "map rh_output_path (rp_shards plan) =
      map (\<lambda>i. rotation_output_path policy directory (of_nat i)) [0..<length (rp_shards plan)]"
    and few: "length (rp_shards plan) \<le> max 1 (length rs)" using assms(1) by (simp_all add: plan_of_def)
  have "inj_on (\<lambda>i. rotation_output_path policy directory (of_nat i)) {0..<length (rp_shards plan)}"
  proof (rule inj_onI)
    fix i j
    assume ij: "i \<in> {0..<length (rp_shards plan)}" "j \<in> {0..<length (rp_shards plan)}"
      and "rotation_output_path policy directory (of_nat i) = rotation_output_path policy directory (of_nat j)"
    then have "(of_nat i :: u64) = of_nat j" using output_path_inject [OF assms(2)] by blast
    moreover have "i < 18446744073709551616" "j < 18446744073709551616" using ij few assms(3) by auto
    ultimately show "i = j" using unat_of_nat_u64 by metis
  qed
  then show distinct: "distinct (map rh_output_path (rp_shards plan))" unfolding paths by (simp add: distinct_map)
  have nonempty: "rh_output_path s \<noteq> []" if "s \<in> set (rp_shards plan)" for s
  proof -
    from that have "rh_output_path s \<in> set (map rh_output_path (rp_shards plan))" by simp
    then show ?thesis unfolding paths using output_path_nonempty [of policy directory, THEN not_sym] by auto
  qed
  have "\<forall>s \<in> set (rp_shards plan). shard_valid policy s"
  proof (cases "rs = []")
    case True
    with assms(1) nonempty show ?thesis by (auto simp: plan_of_def shard_valid_def)
  next
    case False
    have "rh_record_count s = of_nat (length (rh_records s)) \<and> rh_record_count s \<noteq> 0 \<and> rh_first_time_ns s \<le> rh_last_time_ns s"
      if s: "s \<in> set (rp_shards plan)" for s
    proof -
      have sound: "shard_sound policy s" using assms(1) False s by (simp add: plan_of_def)
      obtain ys zs where "rp_shards plan = ys @ s # zs" using split_list [OF s] by blast
      moreover have "rs = concat (map rh_records (rp_shards plan))" using assms(1) by (simp add: plan_of_def)
      ultimately have "length (rh_records s) \<le> length rs" by simp
      with assms(3) sound have "rh_record_count s \<noteq> 0"
        by (simp add: shard_sound_def Let_def of_nat_u64_zero)
      with sound sound_span show ?thesis by (simp add: shard_sound_def Let_def)
    qed
    with nonempty show ?thesis by (metis shard_valid_def)
  qed
  from validate_shards [OF distinct _ this, of "{}" "[]" 0] assms(1) show "validate_rotation_plan plan = []"
    by (simp add: validate_rotation_plan_def plan_of_def)
qed

section \<open>Execution\<close>

definition found_record :: "archive_files \<Rightarrow> rotation_projection \<Rightarrow> archive_record" where
  "found_record files r =
     (case read_record_at files (rj_source_path r) (rj_source_offset r) of
        Inr (Some found) \<Rightarrow> found | _ \<Rightarrow> \<lparr>rec_offset = 0, rec_capture_time_ns = 0, rec_packet = packet_default\<rparr>)"

definition copyable :: "archive_files \<Rightarrow> rotation_projection \<Rightarrow> bool" where
  "copyable files r \<longleftrightarrow>
     read_record_at files (rj_source_path r) (rj_source_offset r) = Inr (Some (found_record files r)) \<and>
     packet_ok (rec_packet (found_record files r))"

lemma read_record_cong: "files path = files' path \<Longrightarrow> read_record_at files path offset = read_record_at files' path offset"
  by (simp add: read_record_at_def open_archive_def)

lemma copyable_cong:
  "files (rj_source_path r) = files' (rj_source_path r) \<Longrightarrow>
   copyable files r = copyable files' r \<and> found_record files r = found_record files' r"
  using read_record_cong [of files "rj_source_path r" files'] by (simp add: copyable_def found_record_def)

abbreviation found_capture :: "archive_files \<Rightarrow> rotation_projection \<Rightarrow> capture" where
  "found_capture files r \<equiv> capture_of (found_record files r)"

lemma copy_records_run:
  "\<forall>r \<in> set rs. copyable files r \<Longrightarrow> aw_good w \<Longrightarrow>
   copy_records files rs report w =
     (Inr (report\<lparr>rr_records_written := rr_records_written report + of_nat (length rs)\<rparr>),
      aw_append_all (map (found_capture files) rs) w)"
proof (induction rs arbitrary: report w)
  case Nil
  then show ?case by (simp add: aw_append_all_def)
next
  case (Cons r rs)
  let ?f = "found_record files r"
  have r: "read_record_at files (rj_source_path r) (rj_source_offset r) = Inr (Some ?f)" "packet_ok (rec_packet ?f)"
    using Cons.prems(1) by (simp_all add: copyable_def)
  define w1 where "w1 = snd (aw_append (rec_capture_time_ns ?f) (rec_packet ?f) w)"
  have append: "aw_append (rec_capture_time_ns ?f) (rec_packet ?f) w = (Inr (), w1)" and good: "aw_good w1"
    using append_good [OF Cons.prems(2) r(2)] Cons.prems(2) by (simp_all add: w1_def)
  have "aw_append_all (map (found_capture files) (r # rs)) w = aw_append_all (map (found_capture files) rs) w1"
    by (simp add: aw_append_all_def w1_def)
  with Cons.IH [OF _ good] Cons.prems(1) r(1) append show ?case by (simp add: add.assoc)
qed

definition shard_archive :: "archive_files \<Rightarrow> rotation_shard \<Rightarrow> bytes" where
  "shard_archive files s = archive_of (map (found_capture files) (rh_records s))"

lemma append_all_close:
  assumes "\<forall>c \<in> set cs. packet_ok (snd c)"
  shows "\<exists>w. aw_close (aw_append_all cs aw_open) = (Inr (), w) \<and> aw_file w = archive_of cs"
  using append_all_good [OF _ assms, of aw_open]
  by (simp add: archive_of_def aw_close_def aw_write_all_def aw_open_def)

lemma execute_shards_run:
  assumes "distinct (map rh_output_path ss)"
    and "\<forall>s \<in> set ss. files (rh_output_path s) = None"
    and "\<forall>s \<in> set ss. \<forall>r \<in> set (rh_records s). copyable files r \<and> rj_source_path r \<notin> rh_output_path ` set ss"
  shows "execute_shards options ss report files =
    (Inr (report\<lparr>rr_records_written := rr_records_written report + of_nat (length (concat (map rh_records ss))),
       rr_written_archives := rr_written_archives report @ map rh_output_path ss\<rparr>),
     fold (\<lambda>s f. f(rh_output_path s := Some (shard_archive files s))) ss files)"
  using assms
proof (induction ss arbitrary: report files)
  case (Cons s ss)
  let ?path = "rh_output_path s"
  define files1 where "files1 = files(?path := Some (shard_archive files s))"
  have same: "copyable (files(?path := x)) r = copyable files r \<and> found_record (files(?path := x)) r = found_record files r"
    if "r \<in> set (rh_records s') " "s' \<in> set (s # ss)" for s' r x
    using that Cons.prems(3) by (intro copyable_cong) auto
  have copyable: "\<forall>r \<in> set (rh_records s). copyable (files(?path := Some [])) r" using Cons.prems(3) same by auto
  have captures: "map (found_capture (files(?path := Some []))) (rh_records s) = map (found_capture files) (rh_records s)"
    using same [of _ s] by auto
  have copy: "copy_records (files(?path := Some [])) (rh_records s) report aw_open =
      (Inr (report\<lparr>rr_records_written := rr_records_written report + of_nat (length (rh_records s))\<rparr>),
       aw_append_all (map (found_capture files) (rh_records s)) aw_open)"
    using copy_records_run [OF copyable, of aw_open report] captures by (simp add: aw_open_def)
  have "\<forall>c \<in> set (map (found_capture files) (rh_records s)). packet_ok (snd c)"
    using Cons.prems(3) by (auto simp: copyable_def)
  from append_all_close [OF this] obtain w where
    close: "aw_close (aw_append_all (map (found_capture files) (rh_records s)) aw_open) = (Inr (), w)"
    and contents: "aw_file w = shard_archive files s" by (auto simp: shard_archive_def)
  have step: "execute_shards options (s # ss) report files = execute_shards options ss
      (report\<lparr>rr_records_written := rr_records_written report + of_nat (length (rh_records s)),
         rr_written_archives := rr_written_archives report @ [?path]\<rparr>) files1"
    using Cons.prems(2) by (simp add: ensure_output_available_def Let_def copy close contents files1_def)
  have free: "\<forall>s \<in> set ss. files1 (rh_output_path s) = None"
    using Cons.prems(1,2) by (auto simp: files1_def) (metis imageI)
  have rest: "\<forall>s \<in> set ss. \<forall>r \<in> set (rh_records s). copyable files1 r \<and> rj_source_path r \<notin> rh_output_path ` set ss"
    using Cons.prems(3) same by (auto simp: files1_def)
  have archives: "shard_archive files1 s' = shard_archive files s'" if "s' \<in> set ss" for s'
    using that same [of _ s'] unfolding shard_archive_def files1_def by (auto intro!: arg_cong [where f = archive_of])
  have "fold (\<lambda>s f. f(rh_output_path s := Some (shard_archive files1 s))) ss files1 =
      fold (\<lambda>s f. f(rh_output_path s := Some (shard_archive files s))) ss files1"
    by (rule fold_cong) (simp_all add: archives)
  also have "\<dots> = fold (\<lambda>s f. f(rh_output_path s := Some (shard_archive files s))) (s # ss) files"
    by (simp add: files1_def)
  finally have written: "fold (\<lambda>s f. f(rh_output_path s := Some (shard_archive files1 s))) ss files1 =
      fold (\<lambda>s f. f(rh_output_path s := Some (shard_archive files s))) (s # ss) files" .
  have "distinct (map rh_output_path ss)" using Cons.prems(1) by simp
  note run = Cons.IH [OF this free rest]
  let ?report = "report\<lparr>rr_records_written := rr_records_written report + of_nat (length (rh_records s)),
     rr_written_archives := rr_written_archives report @ [?path]\<rparr>"
  have total: "?report\<lparr>rr_records_written := rr_records_written ?report + of_nat (length (concat (map rh_records ss))),
      rr_written_archives := rr_written_archives ?report @ map rh_output_path ss\<rparr> =
    report\<lparr>rr_records_written := rr_records_written report + of_nat (length (concat (map rh_records (s # ss)))),
      rr_written_archives := rr_written_archives report @ map rh_output_path (s # ss)\<rparr>"
    by (simp add: add.assoc)
  show ?case unfolding step run written total ..
qed simp

lemma written_files:
  "distinct (map rh_output_path ss) \<Longrightarrow>
   fold (\<lambda>s f. f(rh_output_path s := Some (g s))) ss files path =
     (case find (\<lambda>s. rh_output_path s = path) ss of None \<Rightarrow> files path | Some s \<Rightarrow> Some (g s))"
proof (induction ss arbitrary: files)
  case (Cons s ss)
  have "find (\<lambda>s. rh_output_path s = path) ss = None" if "rh_output_path s = path"
    using that Cons.prems by (auto simp: find_None_iff) (metis imageI)
  with Cons show ?case by (auto split: option.split)
qed simp

lemma find_distinct: "distinct (map f xs) \<Longrightarrow> x \<in> set xs \<Longrightarrow> find (\<lambda>y. f y = f x) xs = Some x"
  by (induction xs) (auto simp: rev_image_eqI)

section \<open>What rotation keeps\<close>

definition projection_of :: "string \<Rightarrow> archive_record \<Rightarrow> rotation_projection" where
  "projection_of path r =
     \<lparr>rj_source_path = path, rj_source_offset = rec_offset r, rj_capture_time_ns = rec_capture_time_ns r,
      rj_payload_size = of_nat (length (p_payload (rec_packet r))), rj_device = p_device (rec_packet r),
      rj_sequence = p_sequence (rec_packet r)\<rparr>"

definition projected_file :: "archive_files \<Rightarrow> string \<Rightarrow> rotation_projection list" where
  "projected_file files path =
     map (projection_of path) (sort_key (index_order \<circ> index_entry) (file_records files path))"

definition readable :: "archive_files \<Rightarrow> string \<Rightarrow> bool" where
  "readable files path \<longleftrightarrow>
     (\<exists>reader. open_archive files path = Inr reader \<and> ar_records reader = Inr (file_records files path))"

lemma project_file:
  assumes "readable files path"
  shows "project_archive_records files path = Inr (projected_file files path)"
proof -
  obtain contents reader where r: "files path = Some contents" "ar_open contents = Inr reader"
    "ar_records reader = Inr (file_records files path)"
    using assms by (auto simp: readable_def open_archive_def split: option.splits)
  then obtain index where index: "open_archive_index files path = Inr index"
    by (simp add: open_archive_index_def build_archive_index_def Let_def)
  then have "ai_records index = sort_key index_order (map index_entry (file_records files path))"
    using index_records r by (simp add: open_archive_index_def)
  with index show ?thesis
    by (simp add: project_archive_records_def projected_file_def sort_key_map projection_of_def index_entry_def comp_def)
qed

lemma projected_inputs_run:
  "\<forall>path \<in> set paths. readable files path \<Longrightarrow> map rn_path inputs = paths \<Longrightarrow>
   projected_inputs files inputs = Inr (concat (map (projected_file files) paths))"
  by (induction inputs arbitrary: paths) (auto simp: project_file)

definition projection_order :: "rotation_projection \<Rightarrow> u64 \<times> string \<times> u64" where
  "projection_order r = (rj_capture_time_ns r, rj_source_path r, rj_source_offset r)"

definition paths_normal :: "string list \<Rightarrow> bool" where
  "paths_normal paths \<longleftrightarrow> (\<forall>p \<in> set paths. \<forall>q \<in> set paths. path_eq p q \<longrightarrow> p = q)"

lemma projected_source: "r \<in> set (projected_file files path) \<Longrightarrow>
   rj_source_path r = path \<and> (\<exists>x \<in> set (file_records files path). r = projection_of path x)"
  by (auto simp: projected_file_def projection_of_def)

lemma collect_sorted:
  assumes "paths_normal paths" and "\<forall>path \<in> set paths. readable files path" and "map rn_path inputs = paths"
  shows "collect_inputs files inputs = Inr (sort_key projection_order (concat (map (projected_file files) paths)))"
proof -
  have "projection_less a b \<longleftrightarrow> projection_order a < projection_order b"
    if "a \<in> set (concat (map (projected_file files) paths))" "b \<in> set (concat (map (projected_file files) paths))" for a b
  proof -
    have "rj_source_path a \<in> set paths" "rj_source_path b \<in> set paths" using that projected_source by fastforce+
    then have "path_eq (rj_source_path a) (rj_source_path b) \<longleftrightarrow> rj_source_path a = rj_source_path b"
      using assms(1) by (auto simp: paths_normal_def path_eq_def)
    then show ?thesis by (auto simp: projection_less_def projection_order_def)
  qed
  then have "stable_sort projection_less (concat (map (projected_file files) paths)) =
      sort_key projection_order (concat (map (projected_file files) paths))" by (rule stable_sort_key)
  with projected_inputs_run [OF assms(2,3)] show ?thesis by (simp add: collect_inputs_def)
qed

lemma projection_times: "sorted (map rj_capture_time_ns (sort_key projection_order rs))"
proof -
  have "sorted (map projection_order (sort_key projection_order rs))" by (rule sorted_sort_key)
  then have "sorted_wrt (\<lambda>a b. projection_order a \<le> projection_order b) (sort_key projection_order rs)"
    by (simp add: sorted_wrt_map)
  then have "sorted_wrt (\<lambda>a b. rj_capture_time_ns a \<le> rj_capture_time_ns b) (sort_key projection_order rs)"
    by (rule sorted_wrt_mono_rel [rotated]) (auto simp: projection_order_def)
  then show ?thesis by (simp add: sorted_wrt_map)
qed

lemma inputs_run:
  "(\<And>path. path \<in> set paths \<Longrightarrow> \<exists>m. build_archive_manifest files path = Inr m) \<Longrightarrow>
   \<exists>inputs. rotation_inputs files paths = Inr inputs \<and> map rn_path inputs = paths"
proof (induction paths)
  case (Cons path paths)
  then obtain m inputs where "build_archive_manifest files path = Inr m" "rotation_inputs files paths = Inr inputs"
    "map rn_path inputs = paths" by (meson list.set_intros)
  then show ?case by simp
qed simp

lemma found_projection:
  assumes "files_fit files" and "readable files path" and "x \<in> set (file_records files path)"
  shows "read_record_at files path (rec_offset x) = Inr (Some x)" and "found_record files (projection_of path x) = x"
proof -
  from assms(2) obtain reader where r: "open_archive files path = Inr reader" "ar_records reader = Inr (file_records files path)"
    by (auto simp: readable_def)
  show "read_record_at files path (rec_offset x) = Inr (Some x)"
    using load_loop_found [OF r(2) file_records_reader(2) [OF assms(1) r] assms(3)] r(1) by (simp add: read_record_at_def)
  then show "found_record files (projection_of path x) = x" by (simp add: found_record_def projection_of_def)
qed

lemma manifest_readable: "build_archive_manifest files path = Inr m \<Longrightarrow> readable files path"
  by (auto simp: build_archive_manifest_def readable_def file_records_def err_bind_Inr_iff)

lemma inputs_readable:
  "rotation_inputs files paths = Inr inputs \<Longrightarrow> map rn_path inputs = paths \<and> (\<forall>path \<in> set paths. readable files path)"
  by (induction paths arbitrary: inputs) (auto simp: err_bind_Inr_iff manifest_readable)

lemma length_projected [simp]: "length (projected_file files path) = length (file_records files path)"
  by (simp add: projected_file_def)

lemma plan_of_paths:
  assumes "rotation_inputs files paths = Inr inputs" and "paths_normal paths"
    and "length (concat (map (file_records files) paths)) < 18446744073709551616"
    and "ro_output_prefix policy \<noteq> []" and "ro_output_extension policy \<noteq> []"
  shows "\<exists>plan. plan_rotation_of_paths files paths policy directory = Inr plan \<and>
    plan_of policy directory (sort_key projection_order (concat (map (projected_file files) paths))) plan"
proof -
  note r = inputs_readable [OF assms(1)]
  then have collect: "collect_inputs files inputs =
      Inr (sort_key projection_order (concat (map (projected_file files) paths)))"
    using collect_sorted [OF assms(2)] by blast
  have len: "length (sort_key projection_order (concat (map (projected_file files) paths))) < 18446744073709551616"
    using assms(3) by (simp add: length_concat comp_def)
  from plan_rotation [OF assms(4,5) collect projection_times len] assms(1) show ?thesis
    by (simp add: plan_rotation_of_paths_def)
qed

text \<open>
  Every shard of a rotation plan respects every limit of the policy: the number of records, the
  span of time and the gap between neighbours always, the payload bytes and the estimated file size
  unless the shard is a single record. The shards hold all records of the inputs in order of time,
  and the plan passes its own validation.
\<close>

theorem rotation_plan_limits:
  assumes "plan_rotation_of_paths files paths policy directory = Inr plan" and "paths_normal paths"
    and "length (concat (map (file_records files) paths)) < 18446744073709551616"
  shows "validate_rotation_plan plan = [] \<and>
    concat (map rh_records (rp_shards plan)) = sort_key projection_order (concat (map (projected_file files) paths)) \<and>
    (\<forall>s \<in> set (rp_shards plan).
       (ro_max_records_per_archive policy \<noteq> 0 \<longrightarrow> length (rh_records s) \<le> unat (ro_max_records_per_archive policy)) \<and>
       (ro_max_capture_span_ns policy \<noteq> 0 \<longrightarrow> rh_last_time_ns s - rh_first_time_ns s \<le> ro_max_capture_span_ns policy) \<and>
       (ro_idle_gap_ns policy \<noteq> 0 \<longrightarrow>
          successively (\<lambda>a b. rj_capture_time_ns b - rj_capture_time_ns a \<le> ro_idle_gap_ns policy) (rh_records s)) \<and>
       (ro_max_payload_bytes_per_archive policy \<noteq> 0 \<and> 1 < length (rh_records s) \<longrightarrow>
          (\<Sum>r\<leftarrow>rh_records s. rj_payload_size r) \<le> ro_max_payload_bytes_per_archive policy) \<and>
       (ro_max_estimated_file_bytes policy \<noteq> 0 \<and> 1 < length (rh_records s) \<longrightarrow>
          36 + (\<Sum>r\<leftarrow>rh_records s. 16 + rj_payload_size r) \<le> ro_max_estimated_file_bytes policy))"
proof -
  let ?rs = "sort_key projection_order (concat (map (projected_file files) paths))"
  from assms(1) obtain inputs where inputs: "rotation_inputs files paths = Inr inputs"
    and ok: "ro_output_prefix policy \<noteq> []" "ro_output_extension policy \<noteq> []"
    by (auto simp: plan_rotation_of_paths_def plan_archive_rotation_def err_bind_Inr_iff Let_def split: if_splits)
  from plan_of_paths [OF inputs assms(2,3) ok, of directory] assms(1) have plan: "plan_of policy directory ?rs plan" by auto
  have "length ?rs < 18446744073709551616" using assms(3) by (simp add: length_concat comp_def)
  note valid = plan_valid(2) [OF plan ok(1) this]
  show ?thesis
  proof (cases "?rs = []")
    case True
    with plan have "\<forall>s \<in> set (rp_shards plan). rh_records s = [] \<and> rh_last_time_ns s = rh_first_time_ns s"
      "concat (map rh_records (rp_shards plan)) = ?rs" by (auto simp: plan_of_def)
    with valid show ?thesis by auto
  next
    case False
    with plan have "\<forall>s \<in> set (rp_shards plan). shard_sound policy s" "concat (map rh_records (rp_shards plan)) = ?rs"
      by (auto simp: plan_of_def)
    with valid show ?thesis by (auto simp: shard_sound_def Let_def)
  qed
qed

lemma readable_inputs:
  assumes "\<forall>path \<in> set paths. readable files path"
  shows "\<exists>inputs. rotation_inputs files paths = Inr inputs"
proof -
  have "\<exists>m. build_archive_manifest files path = Inr m" if "path \<in> set paths" for path
    using assms that by (auto simp: readable_def build_archive_manifest_def Let_def)
  from inputs_run [OF this] show ?thesis by blast
qed

lemma read_archive:
  assumes "files path = Some (archive_of cs)" and "storable cs"
  shows "readable files path" and "map capture_of (file_records files path) = cs"
proof -
  obtain reader where r: "ar_open (archive_of cs) = Inr reader" "ar_records reader = Inr (records_from 36 cs)"
    using archive_read_back [OF assms(2)] by (auto simp: archive_of_def)
  with assms(1) have open_it: "open_archive files path = Inr reader" by (simp add: open_archive_def)
  with r(2) have records: "file_records files path = records_from 36 cs" by (simp add: file_records_def)
  with open_it r(2) show "readable files path" by (auto simp: readable_def)
  show "map capture_of (file_records files path) = cs" unfolding records by (rule records_from_captures)
qed

lemma mset_concat_map: "(\<And>x. x \<in> set xs \<Longrightarrow> mset (f x) = mset (g x)) \<Longrightarrow> mset (concat (map f xs)) = mset (concat (map g xs))"
  by (induction xs) simp_all

lemma found_captures:
  assumes "files_fit files" and "\<forall>path \<in> set paths. readable files path"
  shows "mset (map (found_capture files) (concat (map (projected_file files) paths))) =
    mset (concat (map (\<lambda>path. map capture_of (file_records files path)) paths))"
proof -
  have "map (found_capture files) (concat (map (projected_file files) paths)) =
      concat (map (\<lambda>path. map (found_capture files) (projected_file files path)) paths)"
    by (simp add: map_concat comp_def)
  moreover have each: "mset (map (found_capture files) (projected_file files path)) = mset (map capture_of (file_records files path))"
    if "path \<in> set paths" for path
  proof -
    have "map (found_capture files) (projected_file files path) =
        map capture_of (sort_key (index_order \<circ> index_entry) (file_records files path))"
      using found_projection(2) [OF assms(1)] assms(2) that by (simp add: projected_file_def)
    then show ?thesis by (simp only: mset_map mset_sort)
  qed
  have "mset (concat (map (\<lambda>path. map (found_capture files) (projected_file files path)) paths)) =
      mset (concat (map (\<lambda>path. map capture_of (file_records files path)) paths))"
    by (rule mset_concat_map) (rule each)
  ultimately show ?thesis by (simp only:)
qed

text \<open>
  C27. Rotating archives to paths that are not in use keeps every capture: the plan succeeds and
  executes without warning, and the archives written, read in order of the shards, hold exactly the
  captures of the inputs, each once, in order of time. No other file changes. The paths of the
  inputs must be different as paths when they are different as strings: otherwise the comparison the
  records are sorted with is not an order.
\<close>

theorem rotation_keeps_captures:
  assumes "\<forall>path \<in> set paths. files path = Some (archive_of (captures path)) \<and> storable (captures path)"
    and "files_fit files" and "paths_normal paths"
    and "length (concat (map captures paths)) < 18446744073709551616"
    and "ro_output_prefix policy \<noteq> []" and "ro_output_extension policy \<noteq> []"
    and "\<forall>i. files (rotation_output_path policy directory i) = None"
  shows "\<exists>plan report files' shards. plan_rotation_of_paths files paths policy directory = Inr plan \<and>
    execute_archive_rotation plan options files = (Inr report, files') \<and>
    map (\<lambda>s. files' (rh_output_path s)) (rp_shards plan) = map (\<lambda>cs. Some (archive_of cs)) shards \<and>
    mset (concat shards) = mset (concat (map captures paths)) \<and> sorted (map fst (concat shards)) \<and>
    rr_warnings report = [] \<and> rr_records_written report = of_nat (length (concat (map captures paths))) \<and>
    (\<forall>path. path \<notin> rh_output_path ` set (rp_shards plan) \<longrightarrow> files' path = files path)"
proof -
  let ?rs = "sort_key projection_order (concat (map (projected_file files) paths))"
  have readable: "\<forall>path \<in> set paths. readable files path"
    and recs: "\<And>path. path \<in> set paths \<Longrightarrow> map capture_of (file_records files path) = captures path"
    using assms(1) read_archive by blast+
  have lens: "length (concat (map (file_records files) paths)) = length (concat (map captures paths))"
    using arg_cong [OF recs, of _ length] by (simp add: length_concat comp_def cong: map_cong)
  obtain inputs where inputs: "rotation_inputs files paths = Inr inputs" using readable_inputs [OF readable] by blast
  have few: "length (concat (map (file_records files) paths)) < 18446744073709551616" using assms(4) lens by simp
  obtain plan where plan: "plan_rotation_of_paths files paths policy directory = Inr plan" "plan_of policy directory ?rs plan"
    using plan_of_paths [OF inputs assms(3) few assms(5,6)] by blast
  have len_rs: "length ?rs = length (concat (map captures paths))" using lens by (simp add: length_concat comp_def)
  with assms(4) have fit: "length ?rs < 18446744073709551616" by simp
  note valid = plan_valid [OF plan(2) assms(5) fit]
  let ?ss = "rp_shards plan"
  have all: "concat (map rh_records ?ss) = ?rs" using plan(2) by (simp add: plan_of_def)
  have outs: "set (map rh_output_path ?ss) \<subseteq> range (rotation_output_path policy directory)"
    using plan(2) unfolding plan_of_def by (elim conjE) (simp only: set_map, blast)
  then have free: "\<forall>s \<in> set ?ss. files (rh_output_path s) = None" using assms(7) by auto
  have copy: "copyable files r \<and> rj_source_path r \<notin> rh_output_path ` set ?ss" if "r \<in> set ?rs" for r
  proof -
    from that obtain path x where x: "path \<in> set paths" "x \<in> set (file_records files path)" "r = projection_of path x"
      using projected_source by fastforce
    have found: "read_record_at files path (rec_offset x) = Inr (Some x)" "found_record files r = x"
      using found_projection [OF assms(2) _ x(2)] readable x by simp_all
    have "capture_of x \<in> set (map capture_of (file_records files path))" using x(2) by simp
    then have "capture_of x \<in> set (captures path)" unfolding recs [OF x(1)] .
    moreover have "storable (captures path)" using assms(1) x(1) by blast
    ultimately have "packet_ok (snd (capture_of x))" using storable_ok by blast
    then have "packet_ok (rec_packet x)" by simp
    with found x(3) have "copyable files r" by (simp add: copyable_def projection_of_def)
    moreover have "files path \<noteq> None" using assms(1) x(1) by simp
    with assms(7) outs x(3) have "rj_source_path r \<notin> rh_output_path ` set ?ss" by (auto simp: projection_of_def)
    ultimately show ?thesis by simp
  qed
  have "\<forall>s \<in> set ?ss. \<forall>r \<in> set (rh_records s). copyable files r \<and> rj_source_path r \<notin> rh_output_path ` set ?ss"
  proof (intro ballI)
    fix s r
    assume "s \<in> set ?ss" "r \<in> set (rh_records s)"
    then have "r \<in> set (concat (map rh_records ?ss))" by auto
    then show "copyable files r \<and> rj_source_path r \<notin> rh_output_path ` set ?ss" unfolding all by (rule copy)
  qed
  note run = execute_shards_run [OF valid(1) free this]
  define files' where "files' = fold (\<lambda>s f. f(rh_output_path s := Some (shard_archive files s))) ?ss files"
  define report where "report = \<lparr>rr_plan = plan, rr_written_archives = map rh_output_path ?ss, rr_warnings = [],
    rr_records_written = of_nat (length ?rs), rr_records_skipped = 0\<rparr>"
  have execute: "execute_archive_rotation plan options files = (Inr report, files')"
    using run valid(2) all by (simp add: execute_archive_rotation_def report_def files'_def)
  let ?shards = "map (\<lambda>s. map (found_capture files) (rh_records s)) ?ss"
  have contents: "files' path = (case find (\<lambda>s. rh_output_path s = path) ?ss of None \<Rightarrow> files path
      | Some s \<Rightarrow> Some (shard_archive files s))" for path
    unfolding files'_def by (rule written_files [OF valid(1)])
  have written: "map (\<lambda>s. files' (rh_output_path s)) ?ss = map (\<lambda>cs. Some (archive_of cs)) ?shards"
  proof -
    have "files' (rh_output_path s) = Some (shard_archive files s)" if "s \<in> set ?ss" for s
    proof -
      have "find (\<lambda>t. rh_output_path t = rh_output_path s) ?ss = Some s"
        using valid(1) that by (rule find_distinct)
      then show ?thesis by (simp add: contents)
    qed
    then show ?thesis by (simp add: shard_archive_def)
  qed
  have others: "files' path = files path" if "path \<notin> rh_output_path ` set ?ss" for path
  proof -
    have "find (\<lambda>t. rh_output_path t = path) ?ss = None" using that by (auto simp: find_None_iff)
    then show ?thesis by (simp add: contents)
  qed
  have "concat ?shards = map (found_capture files) (concat (map rh_records ?ss))" by (simp add: map_concat comp_def)
  then have shards: "concat ?shards = map (found_capture files) ?rs" by (simp only: all)
  have "mset (map (found_capture files) ?rs) = mset (map (found_capture files) (concat (map (projected_file files) paths)))"
    by (simp only: mset_map mset_sort)
  also have "\<dots> = mset (concat (map (\<lambda>path. map capture_of (file_records files path)) paths))"
    by (rule found_captures [OF assms(2) readable])
  also have "\<dots> = mset (concat (map captures paths))" using recs by (simp cong: map_cong)
  finally have kept: "mset (concat ?shards) = mset (concat (map captures paths))" unfolding shards .
  have "fst (found_capture files r) = rj_capture_time_ns r" if "r \<in> set ?rs" for r
  proof -
    from that obtain path x where x: "path \<in> set paths" "x \<in> set (file_records files path)" "r = projection_of path x"
      using projected_source by fastforce
    with found_projection(2) [OF assms(2) _ x(2)] readable show ?thesis by (simp add: projection_of_def)
  qed
  then have "map fst (concat ?shards) = map rj_capture_time_ns ?rs" unfolding shards by simp
  then have "sorted (map fst (concat ?shards))" using projection_times by simp
  moreover have "rr_warnings report = []" "rr_records_written report = of_nat (length (concat (map captures paths)))"
    unfolding report_def len_rs [symmetric] by simp_all
  ultimately show ?thesis using plan(1) execute written kept others by blast
qed

text \<open>
  C31. With \<open>overwrite_outputs\<close>, a shard whose output path is the path of its first record's archive
  destroys that archive: it is removed before it is read, the rotation throws, and what is left is
  an archive without records.
\<close>

theorem rotation_overwrites_input:
  assumes "validate_rotation_plan plan = []" and "rp_shards plan = s # ss" and "rh_records s = r # rs"
    and "rj_source_path r = rh_output_path s" and "files (rh_output_path s) = Some contents"
    and "rx_overwrite_outputs options"
  shows "\<exists>e files'. execute_archive_rotation plan options files = (Inl e, files') \<and>
    files' (rh_output_path s) = Some (archive_of [])"
proof -
  obtain e where e: "ar_open [] = Inl e"
    by (simp add: ar_open_def Let_def ar_read_exact_def archive_magic_def)
  have "aw_file (aw_destroy aw_open) = archive_of []"
    by (simp add: aw_destroy_def archive_of_def aw_append_all_def aw_open_def)
  then show ?thesis using assms e
    by (simp add: execute_archive_rotation_def ensure_output_available_def Let_def read_record_at_def open_archive_def)
qed

section \<open>Witnesses\<close>

definition one_per_shard :: rotation_policy where
  "one_per_shard = rotation_policy_default\<lparr>ro_max_records_per_archive := 1\<rparr>"

definition sample_contents :: "string \<Rightarrow> capture list" where
  "sample_contents path = (if path = ''a.ath'' then sample_captures else [])"

lemma sample_paths_normal: "paths_normal [''a.ath'', ''b.ath'']"
  by (simp add: paths_normal_def path_eq_def path_elements_def Let_def)

lemma sample_contents_files:
  "\<forall>path \<in> set [''a.ath'', ''b.ath'']. sample_files path = Some (archive_of (sample_contents path)) \<and> storable (sample_contents path)"
  by (simp add: sample_files_def sample_contents_def storable_def [of "[]"])

lemma sample_rotation_free: "\<forall>i. sample_files (rotation_output_path one_per_shard ''out'' i) = None"
  by (simp add: sample_files_def rotation_output_path_def path_join_def format_shard_name_def one_per_shard_def
      rotation_policy_default_def)

lemma sample_rotation_ok:
  "ro_output_prefix one_per_shard \<noteq> []" "ro_output_extension one_per_shard \<noteq> []"
  "length (concat (map sample_contents [''a.ath'', ''b.ath''])) < 18446744073709551616"
  by (simp_all add: one_per_shard_def rotation_policy_default_def sample_contents_def sample_captures_def)

lemma rotation_keeps_captures_witness:
  "\<exists>plan report files' shards. plan_rotation_of_paths sample_files [''a.ath'', ''b.ath''] one_per_shard ''out'' = Inr plan \<and>
    execute_archive_rotation plan \<lparr>rx_overwrite_outputs = False, rx_preserve_input_order = True\<rparr> sample_files =
      (Inr report, files') \<and>
    map (\<lambda>s. files' (rh_output_path s)) (rp_shards plan) = map (\<lambda>cs. Some (archive_of cs)) shards \<and>
    map fst (concat shards) = [3, 5] \<and> rr_records_written report = 2"
proof -
  from rotation_keeps_captures [OF sample_contents_files sample_files_fit sample_paths_normal sample_rotation_ok(3)
      sample_rotation_ok(1,2) sample_rotation_free,
      where options = "\<lparr>rx_overwrite_outputs = False, rx_preserve_input_order = True\<rparr>"]
  obtain plan report files' shards where r:
    "plan_rotation_of_paths sample_files [''a.ath'', ''b.ath''] one_per_shard ''out'' = Inr plan"
    "execute_archive_rotation plan \<lparr>rx_overwrite_outputs = False, rx_preserve_input_order = True\<rparr> sample_files =
      (Inr report, files')"
    "map (\<lambda>s. files' (rh_output_path s)) (rp_shards plan) = map (\<lambda>cs. Some (archive_of cs)) shards"
    "mset (concat shards) = mset (concat (map sample_contents [''a.ath'', ''b.ath'']))"
    "sorted (map fst (concat shards))"
    "rr_records_written report = of_nat (length (concat (map sample_contents [''a.ath'', ''b.ath''])))"
    by (elim exE conjE)
  have "mset (map fst (concat shards)) = mset [3, 5]"
    using arg_cong [OF r(4), of "image_mset fst"] by (simp add: sample_contents_def sample_captures_def add_mset_commute)
  then have "map fst (concat shards) = sort [3, 5]" using r(5) by (metis properties_for_sort)
  then have "map fst (concat shards) = [3, 5]" by (simp add: word_le_nat_alt)
  moreover have "rr_records_written report = 2" using r(6) by (simp add: sample_contents_def sample_captures_def)
  ultimately show ?thesis using r(1-3) by (intro exI conjI)
qed

lemma sample_record_count: "length (concat (map (file_records sample_files) [''a.ath'', ''b.ath''])) < 18446744073709551616"
proof -
  have "length (concat (map (file_records sample_files) [''a.ath'', ''b.ath''])) =
      length (concat (map (\<lambda>p. map capture_of (file_records sample_files p)) [''a.ath'', ''b.ath'']))" by simp
  also have "\<dots> = length (concat (map sample_contents [''a.ath'', ''b.ath'']))"
    using read_archive(2) [of sample_files] sample_contents_files by simp
  finally show ?thesis using sample_rotation_ok(3) by (simp only:)
qed

lemma sample_rotation_plan:
  "\<exists>plan. plan_rotation_of_paths sample_files [''a.ath'', ''b.ath''] one_per_shard ''out'' = Inr plan"
proof -
  have "\<forall>path \<in> set [''a.ath'', ''b.ath'']. readable sample_files path"
    using sample_contents_files read_archive(1) by blast
  from readable_inputs [OF this] obtain inputs where
    "rotation_inputs sample_files [''a.ath'', ''b.ath''] = Inr inputs" by blast
  from plan_of_paths [OF this sample_paths_normal sample_record_count sample_rotation_ok(1,2)] show ?thesis by blast
qed

lemma rotation_plan_limits_witness:
  "\<exists>plan. plan_rotation_of_paths sample_files [''a.ath'', ''b.ath''] one_per_shard ''out'' = Inr plan \<and>
     validate_rotation_plan plan = [] \<and> list_all (\<lambda>s. length (rh_records s) \<le> 1) (rp_shards plan)"
proof -
  from sample_rotation_plan obtain plan where
    plan: "plan_rotation_of_paths sample_files [''a.ath'', ''b.ath''] one_per_shard ''out'' = Inr plan" by blast
  from rotation_plan_limits [OF plan sample_paths_normal sample_record_count] plan show ?thesis
    by (auto simp: list_all_iff one_per_shard_def)
qed

definition in_place :: string where
  "in_place = rotation_output_path rotation_policy_default ''out'' 0"

definition in_place_files :: archive_files where
  "in_place_files = [in_place \<mapsto> archive_of sample_captures]"

lemma rotation_overwrites_input_witness:
  "\<exists>plan e files'. plan_rotation_of_paths in_place_files [in_place] rotation_policy_default ''out'' = Inr plan \<and>
    execute_archive_rotation plan \<lparr>rx_overwrite_outputs = True, rx_preserve_input_order = True\<rparr> in_place_files =
      (Inl e, files') \<and> files' in_place = Some (archive_of [])"
proof -
  have contents: "in_place_files in_place = Some (archive_of sample_captures)" by (simp add: in_place_files_def)
  note r = read_archive [where files = in_place_files, OF contents sample_storable]
  obtain inputs where inputs: "rotation_inputs in_place_files [in_place] = Inr inputs"
    using readable_inputs [of "[in_place]" in_place_files] r(1) by auto
  have len: "length (file_records in_place_files in_place) = 2" using arg_cong [OF r(2), of length] by (simp add: sample_count)
  let ?rs = "sort_key projection_order (projected_file in_place_files in_place)"
  have ok: "ro_output_prefix rotation_policy_default \<noteq> []" "ro_output_extension rotation_policy_default \<noteq> []"
    by (simp_all add: rotation_policy_default_def)
  have normal: "paths_normal [in_place]" by (simp add: paths_normal_def)
  obtain plan where plan: "plan_rotation_of_paths in_place_files [in_place] rotation_policy_default ''out'' = Inr plan"
    "plan_of rotation_policy_default ''out'' ?rs plan"
    using plan_of_paths [OF inputs normal _ ok, of "''out''"] len by auto
  have n: "length ?rs = 2" using len by simp
  then have ne: "(?rs = []) = False" by (metis list.size(3) zero_neq_numeral)
  have valid: "validate_rotation_plan plan = []" using plan_valid(2) [OF plan(2) ok(1)] n by simp
  have all: "concat (map rh_records (rp_shards plan)) = ?rs"
    and sound: "\<forall>s \<in> set (rp_shards plan). shard_sound rotation_policy_default s"
    and paths: "map rh_output_path (rp_shards plan) =
       map (\<lambda>i. rotation_output_path rotation_policy_default ''out'' (of_nat i)) [0..<length (rp_shards plan)]"
    using plan(2) ne unfolding plan_of_def by (elim conjE; simp only: if_False)+
  obtain s ss where shards: "rp_shards plan = s # ss" using all n by (cases "rp_shards plan") auto
  obtain x rs where records: "rh_records s = x # rs" using sound sound_nonempty shards by (cases "rh_records s") auto
  have "x \<in> set ?rs" unfolding all [symmetric] by (simp add: shards records)
  then have "rj_source_path x = in_place" using projected_source by simp
  moreover have path: "rh_output_path s = in_place"
    using arg_cong [OF paths, of hd] by (simp add: shards in_place_def upt_conv_Cons del: upt_Suc)
  ultimately have source: "rj_source_path x = rh_output_path s" by simp
  show ?thesis
    using rotation_overwrites_input [OF valid shards records source, of in_place_files "archive_of sample_captures"
        "\<lparr>rx_overwrite_outputs = True, rx_preserve_input_order = True\<rparr>"] plan(1) contents path by auto
qed

end
