(* ===== verification/Archive_Audit.thy ===== *)
theory Archive_Audit
  imports Rotation
begin

text \<open>
  Audits of archives (\<open>src/storage/archive_audit.cpp\<close>): one pass over the records with checks of
  order, sequence, payload size and offset, then checks against header and manifest. An exception
  while reading ends the pass; what was found before stays in the report.
\<close>

section \<open>Data\<close>

datatype audit_severity = AS_info | AS_warning | AS_error

datatype audit_check =
    AC_readable | AC_header_matches_records | AC_ordered_timestamps | AC_monotonic_device_sequences
  | AC_payload_bounds | AC_duplicate_offsets | AC_manifest_consistency | AC_sparse_devices

record audit_options =
  ao_require_time_order :: bool
  ao_require_device_sequence_monotonicity :: bool
  ao_min_payload_size :: u64
  ao_max_payload_size :: u64
  ao_sparse_device_record_threshold :: u64
  ao_sparse_device_payload_threshold :: u64

definition audit_options_default :: audit_options where
  "audit_options_default = \<lparr>ao_require_time_order = True, ao_require_device_sequence_monotonicity = False,
     ao_min_payload_size = 0, ao_max_payload_size = 0, ao_sparse_device_record_threshold = 0,
     ao_sparse_device_payload_threshold = 0\<rparr>"

record audit_finding =
  fi_severity :: audit_severity
  fi_check :: audit_check
  fi_path :: string
  fi_offset :: u64
  fi_capture_time_ns :: u64
  fi_device :: device_id
  fi_sequence :: u32
  fi_message :: string

record audit_report =
  ad_path :: string
  ad_manifest :: archive_manifest
  ad_findings :: "audit_finding list"
  ad_records_scanned :: u64
  ad_bytes_estimated :: u64
  ad_min_payload_size :: u64
  ad_max_payload_size :: u64
  ad_first_offset :: u64
  ad_last_offset :: u64
  ad_readable :: bool

definition audit_report_default :: audit_report where
  "audit_report_default = \<lparr>ad_path = [],
     ad_manifest = \<lparr>am_summary = archive_summary_default, am_devices = [], am_packet_kinds = [], am_warnings = []\<rparr>,
     ad_findings = [], ad_records_scanned = 0, ad_bytes_estimated = 0, ad_min_payload_size = 0,
     ad_max_payload_size = 0, ad_first_offset = 0, ad_last_offset = 0, ad_readable = True\<rparr>"

record fleet_audit_report =
  fa_archives :: "audit_report list"
  fa_fleet_findings :: "audit_finding list"
  fa_archives_scanned :: u64
  fa_records_scanned :: u64
  fa_error_count :: u64
  fa_warning_count :: u64

section \<open>Findings\<close>

definition make_finding :: "audit_severity \<Rightarrow> audit_check \<Rightarrow> string \<Rightarrow> string \<Rightarrow> audit_finding" where
  "make_finding severity check path message =
     \<lparr>fi_severity = severity, fi_check = check, fi_path = path, fi_offset = 0, fi_capture_time_ns = 0,
      fi_device = 0, fi_sequence = 0, fi_message = message\<rparr>"

definition make_record_finding ::
  "audit_severity \<Rightarrow> audit_check \<Rightarrow> string \<Rightarrow> archive_record \<Rightarrow> string \<Rightarrow> audit_finding" where
  "make_record_finding severity check path r message =
     (make_finding severity check path message)\<lparr>fi_offset := rec_offset r,
        fi_capture_time_ns := rec_capture_time_ns r, fi_device := p_device (rec_packet r),
        fi_sequence := p_sequence (rec_packet r)\<rparr>"

definition push_findings :: "audit_finding list \<Rightarrow> audit_report \<Rightarrow> audit_report" where
  "push_findings findings report = report\<lparr>ad_findings := ad_findings report @ findings\<rparr>"

definition add_header_findings :: "archive_summary \<Rightarrow> audit_report \<Rightarrow> audit_report" where
  "add_header_findings header report =
     (let observed = am_summary (ad_manifest report);
          finding = (\<lambda>severity message. make_finding severity AC_header_matches_records (ad_path report) message)
      in push_findings
        ((if as_record_count header \<noteq> as_record_count observed
          then [finding AS_error ''archive header record count differs from readable records''] else []) @
         (if as_record_count observed \<noteq> 0 \<and> as_first_time_ns header \<noteq> as_first_time_ns observed
          then [finding AS_warning ''archive header first timestamp differs from observed first timestamp''] else []) @
         (if as_record_count observed \<noteq> 0 \<and> as_last_time_ns header \<noteq> as_last_time_ns observed
          then [finding AS_warning ''archive header last timestamp differs from observed last timestamp''] else []))
        report)"

definition add_manifest_findings :: "audit_report \<Rightarrow> audit_report" where
  "add_manifest_findings report =
     push_findings
       (map (make_finding AS_warning AC_manifest_consistency (ad_path report)) (am_warnings (ad_manifest report))) report"

definition check_payload_bounds :: "archive_record \<Rightarrow> audit_options \<Rightarrow> audit_report \<Rightarrow> audit_report" where
  "check_payload_bounds r options report =
     (let payload_size = of_nat (length (p_payload (rec_packet r)));
          report = (if ad_records_scanned report = 0
            then report\<lparr>ad_min_payload_size := payload_size, ad_max_payload_size := payload_size\<rparr>
            else report\<lparr>ad_min_payload_size := min (ad_min_payload_size report) payload_size,
                   ad_max_payload_size := max (ad_max_payload_size report) payload_size\<rparr>)
      in push_findings
        ((if ao_min_payload_size options \<noteq> 0 \<and> payload_size < ao_min_payload_size options
          then [make_record_finding AS_warning AC_payload_bounds (ad_path report) r
            ''record payload is below configured minimum''] else []) @
         (if ao_max_payload_size options \<noteq> 0 \<and> payload_size > ao_max_payload_size options
          then [make_record_finding AS_error AC_payload_bounds (ad_path report) r
            ''record payload exceeds configured maximum''] else []))
        report)"

definition check_time_order :: "archive_record \<Rightarrow> bool \<Rightarrow> u64 \<Rightarrow> audit_report \<Rightarrow> audit_report" where
  "check_time_order r has_previous previous_time report =
     push_findings
       (if has_previous \<and> rec_capture_time_ns r < previous_time
        then [make_record_finding AS_error AC_ordered_timestamps (ad_path report) r
          ''record capture timestamp moved backwards''] else []) report"

definition check_device_sequence ::
  "archive_record \<Rightarrow> (device_id, u32) omap \<Rightarrow> audit_report \<Rightarrow> audit_report \<times> (device_id, u32) omap" where
  "check_device_sequence r last_sequence report =
     (let device = p_device (rec_packet r); sequence = p_sequence (rec_packet r)
      in (push_findings
            (if (case om_lookup last_sequence device of None \<Rightarrow> False | Some n \<Rightarrow> sequence < n)
             then [make_record_finding AS_warning AC_monotonic_device_sequences (ad_path report) r
               ''device sequence moved backwards''] else []) report,
          om_update device (max (om_get 0 last_sequence device) sequence) last_sequence))"

definition check_duplicate_offset :: "archive_record \<Rightarrow> u64 set \<Rightarrow> audit_report \<Rightarrow> audit_report \<times> u64 set" where
  "check_duplicate_offset r offsets report =
     (push_findings
        (if rec_offset r \<in> offsets
         then [make_record_finding AS_error AC_duplicate_offsets (ad_path report) r
           ''archive reader returned the same record offset twice''] else []) report,
      insert (rec_offset r) offsets)"

definition add_sparse_device_findings :: "audit_options \<Rightarrow> audit_report \<Rightarrow> audit_report" where
  "add_sparse_device_findings options report =
     (let records = ao_sparse_device_record_threshold options; payload = ao_sparse_device_payload_threshold options
      in if records = 0 \<and> payload = 0 then report
         else push_findings
           (map (\<lambda>device. (make_finding AS_info AC_sparse_devices (ad_path report) ''device has sparse archive coverage'')
                \<lparr>fi_device := da_device device, fi_capture_time_ns := da_last_time_ns device\<rparr>)
             (filter (\<lambda>device. (records \<noteq> 0 \<and> da_record_count device < records) \<or>
                (payload \<noteq> 0 \<and> da_total_payload_bytes device < payload)) (am_devices (ad_manifest report)))) report)"

section \<open>The audit of an archive\<close>

text \<open>The local variables of the loop over the records.\<close>

record audit_state =
  at_report :: audit_report
  at_has_previous :: bool
  at_previous_time :: u64
  at_last_sequence :: "(device_id, u32) omap"
  at_offsets :: "u64 set"

definition audit_record :: "audit_options \<Rightarrow> archive_record \<Rightarrow> audit_state \<Rightarrow> audit_state" where
  "audit_record options r st =
     (let (report, offsets) = check_duplicate_offset r (at_offsets st) (at_report st);
          report = (if ao_require_time_order options
            then check_time_order r (at_has_previous st) (at_previous_time st) report else report);
          (report, last_sequence) = (if ao_require_device_sequence_monotonicity options
            then check_device_sequence r (at_last_sequence st) report else (report, at_last_sequence st));
          report = check_payload_bounds r options report;
          report = (if ad_records_scanned report = 0 then report\<lparr>ad_first_offset := rec_offset r\<rparr> else report);
          report = report\<lparr>ad_last_offset := rec_offset r,
            ad_bytes_estimated := ad_bytes_estimated report + estimate_archive_record_bytes r,
            ad_records_scanned := ad_records_scanned report + 1\<rparr>
      in \<lparr>at_report = report, at_has_previous = True, at_previous_time = rec_capture_time_ns r,
          at_last_sequence = last_sequence, at_offsets = offsets\<rparr>)"

function audit_loop :: "audit_options \<Rightarrow> audit_state \<Rightarrow> archive_reader \<Rightarrow> error option \<times> audit_state" where
  "audit_loop options st reader =
     (case ar_next reader of
        (Inl e, _) \<Rightarrow> (Some e, st)
      | (Inr None, _) \<Rightarrow> (None, st)
      | (Inr (Some r), reader') \<Rightarrow> audit_loop options (audit_record options r st) reader')"
  by pat_completeness auto
termination
  by (relation "measure (\<lambda>(_, _, r). length (ar_file r) - ar_pos r)") (auto dest!: ar_next_progress [OF sym])

declare audit_loop.simps [simp del]

definition unreadable :: "string \<Rightarrow> error \<Rightarrow> audit_report \<Rightarrow> audit_report" where
  "unreadable path error report =
     push_findings [make_finding AS_error AC_readable path (what error)] (report\<lparr>ad_readable := False\<rparr>)"

definition audit_archive_integrity :: "archive_files \<Rightarrow> string \<Rightarrow> audit_options \<Rightarrow> audit_report" where
  "audit_archive_integrity files path options =
     (let report = audit_report_default\<lparr>ad_path := path\<rparr>
      in case open_archive files path of
           Inl e \<Rightarrow> unreadable path e report
         | Inr reader \<Rightarrow>
             let header = ar_summary reader;
                 (failed, st) = audit_loop options
                   \<lparr>at_report = report, at_has_previous = False, at_previous_time = 0, at_last_sequence = om_empty,
                    at_offsets = {}\<rparr> reader;
                 report = at_report st
             in case failed of
                  Some e \<Rightarrow> unreadable path e report
                | None \<Rightarrow>
                    (case build_archive_manifest files path of
                       Inl e \<Rightarrow> unreadable path e report
                     | Inr m \<Rightarrow>
                         add_sparse_device_findings options
                           (add_manifest_findings (add_header_findings header (report\<lparr>ad_manifest := m\<rparr>)))))"

definition audit_report_ok :: "audit_report \<Rightarrow> bool" where
  "audit_report_ok report \<longleftrightarrow>
     ad_readable report \<and> list_all (\<lambda>finding. fi_severity finding \<noteq> AS_error) (ad_findings report)"

definition findings_by_severity :: "audit_report \<Rightarrow> audit_severity \<Rightarrow> audit_finding list" where
  "findings_by_severity report severity = filter (\<lambda>finding. fi_severity finding = severity) (ad_findings report)"

section \<open>The audit of a fleet\<close>

definition accumulate_fleet_counts :: "audit_report \<Rightarrow> fleet_audit_report \<Rightarrow> fleet_audit_report" where
  "accumulate_fleet_counts archive fleet =
     (let fleet = fleet\<lparr>fa_archives_scanned := fa_archives_scanned fleet + 1,
            fa_records_scanned := fa_records_scanned fleet + ad_records_scanned archive\<rparr>
      in fold (\<lambda>finding fleet.
           let fleet = (if fi_severity finding = AS_error
                 then fleet\<lparr>fa_error_count := fa_error_count fleet + 1\<rparr> else fleet)
           in if fi_severity finding = AS_warning
              then fleet\<lparr>fa_warning_count := fa_warning_count fleet + 1\<rparr> else fleet) (ad_findings archive) fleet)"

definition audit_into_fleet ::
  "archive_files \<Rightarrow> audit_options \<Rightarrow> string \<Rightarrow> fleet_audit_report \<Rightarrow> fleet_audit_report" where
  "audit_into_fleet files options path fleet =
     (let report = audit_archive_integrity files path options;
          fleet = accumulate_fleet_counts report fleet
      in fleet\<lparr>fa_archives := fa_archives fleet @ [report]\<rparr>)"

definition note_device ::
  "audit_report \<Rightarrow> device_archive_summary \<Rightarrow> audit_finding list \<times> (device_id, string) omap \<Rightarrow>
   audit_finding list \<times> (device_id, string) omap" where
  "note_device archive device state =
     (let (findings, last_seen_device) = state
      in (findings @
          (if (case om_lookup last_seen_device (da_device device) of None \<Rightarrow> False | Some path \<Rightarrow> \<not> path_eq path (ad_path archive))
           then [(make_finding AS_info AC_sparse_devices (ad_path archive) ''device appears in multiple archives'')
             \<lparr>fi_device := da_device device\<rparr>] else []),
          om_update (da_device device) (ad_path archive) last_seen_device))"

definition audit_archive_fleet :: "archive_files \<Rightarrow> string list \<Rightarrow> audit_options \<Rightarrow> fleet_audit_report" where
  "audit_archive_fleet files paths options =
     (let fleet = fold (audit_into_fleet files options) paths
            \<lparr>fa_archives = [], fa_fleet_findings = [], fa_archives_scanned = 0, fa_records_scanned = 0,
             fa_error_count = 0, fa_warning_count = 0\<rparr>;
          (findings, last_seen_device) =
            fold (\<lambda>archive. fold (note_device archive) (am_devices (ad_manifest archive))) (fa_archives fleet)
              (fa_fleet_findings fleet, om_empty)
      in fleet\<lparr>fa_fleet_findings := findings\<rparr>)"

definition fleet_audit_ok :: "fleet_audit_report \<Rightarrow> bool" where
  "fleet_audit_ok fleet \<longleftrightarrow> fa_error_count fleet = 0"

definition fleet_findings_by_severity :: "fleet_audit_report \<Rightarrow> audit_severity \<Rightarrow> audit_finding list" where
  "fleet_findings_by_severity fleet severity =
     concat (map (\<lambda>archive. findings_by_severity archive severity) (fa_archives fleet)) @
     filter (\<lambda>finding. fi_severity finding = severity) (fa_fleet_findings fleet)"

section \<open>Text output\<close>

definition audit_severity_name :: "audit_severity \<Rightarrow> string" where
  "audit_severity_name severity =
     (case severity of AS_info \<Rightarrow> ''info'' | AS_warning \<Rightarrow> ''warning'' | AS_error \<Rightarrow> ''error'')"

definition audit_check_name :: "audit_check \<Rightarrow> string" where
  "audit_check_name check =
     (case check of
        AC_readable \<Rightarrow> ''readable'' | AC_header_matches_records \<Rightarrow> ''header_matches_records''
      | AC_ordered_timestamps \<Rightarrow> ''ordered_timestamps'' | AC_monotonic_device_sequences \<Rightarrow> ''monotonic_device_sequences''
      | AC_payload_bounds \<Rightarrow> ''payload_bounds'' | AC_duplicate_offsets \<Rightarrow> ''duplicate_offsets''
      | AC_manifest_consistency \<Rightarrow> ''manifest_consistency'' | AC_sparse_devices \<Rightarrow> ''sparse_devices'')"

definition render_audit_finding :: "audit_finding \<Rightarrow> string" where
  "render_audit_finding finding =
     audit_severity_name (fi_severity finding) @
     '' check='' @ audit_check_name (fi_check finding) @
     '' path='' @ fi_path finding @
     '' offset='' @ dec (fi_offset finding) @
     '' capture_time_ns='' @ dec (fi_capture_time_ns finding) @
     '' device='' @ dec (fi_device finding) @
     '' sequence='' @ dec (fi_sequence finding) @
     '' message='' @ dquote @ fi_message finding @ dquote"

definition render_archive_audit_report :: "audit_report \<Rightarrow> string" where
  "render_archive_audit_report report =
     ''archive_audit'' @ newline @
     ''  path: '' @ ad_path report @ newline @
     ''  readable: '' @ (if ad_readable report then ''true'' else ''false'') @ newline @
     ''  records_scanned: '' @ dec (ad_records_scanned report) @ newline @
     ''  bytes_estimated: '' @ dec (ad_bytes_estimated report) @ newline @
     ''  min_payload_size: '' @ dec (ad_min_payload_size report) @ newline @
     ''  max_payload_size: '' @ dec (ad_max_payload_size report) @ newline @
     ''  first_offset: '' @ dec (ad_first_offset report) @ newline @
     ''  last_offset: '' @ dec (ad_last_offset report) @ newline @
     concat (map (\<lambda>finding. ''  finding: '' @ render_audit_finding finding @ newline) (ad_findings report))"

definition render_archive_fleet_audit_report :: "fleet_audit_report \<Rightarrow> string" where
  "render_archive_fleet_audit_report fleet =
     ''archive_fleet_audit'' @ newline @
     ''  archives_scanned: '' @ dec (fa_archives_scanned fleet) @ newline @
     ''  records_scanned: '' @ dec (fa_records_scanned fleet) @ newline @
     ''  error_count: '' @ dec (fa_error_count fleet) @ newline @
     ''  warning_count: '' @ dec (fa_warning_count fleet) @ newline @
     concat (map render_archive_audit_report (fa_archives fleet)) @
     concat (map (\<lambda>finding. ''  fleet_finding: '' @ render_audit_finding finding @ newline) (fa_fleet_findings fleet))"

section \<open>What the pass finds\<close>

lemma audit_loop_run: "ar_records reader = Inr rs \<Longrightarrow> audit_loop options st reader = (None, fold (audit_record options) rs st)"
proof (induction rs arbitrary: reader st)
  case Nil
  then show ?case by (auto elim!: ar_records_Nil simp: audit_loop.simps [of options st reader])
next
  case (Cons r rs)
  then obtain reader' where "ar_next reader = (Inr (Some r), reader')" "ar_records reader' = Inr rs"
    by (blast elim: ar_records_Cons)
  with Cons.IH show ?case by (simp add: audit_loop.simps [of options st reader])
qed

lemma audit_loop_fails: "ar_records reader = Inl e \<Longrightarrow> \<exists>st'. audit_loop options st reader = (Some e, st')"
proof (induction options st reader rule: audit_loop.induct)
  case (1 options st reader)
  then show ?case
    by (auto simp: audit_loop.simps [of options st reader] ar_records.simps [of reader] err_bind_Inl_iff
        split: prod.splits sum.splits option.splits)
qed

definition error_findings :: "audit_report \<Rightarrow> audit_finding list" where
  "error_findings report = findings_by_severity report AS_error"

lemma error_push [simp]:
  "error_findings (push_findings fs report) = error_findings report @ filter (\<lambda>f. fi_severity f = AS_error) fs"
  by (simp add: error_findings_def findings_by_severity_def push_findings_def)

lemma push_fields [simp]:
  "ad_path (push_findings fs report) = ad_path report" "ad_records_scanned (push_findings fs report) = ad_records_scanned report"
  "ad_readable (push_findings fs report) = ad_readable report" "ad_manifest (push_findings fs report) = ad_manifest report"
  by (simp_all add: push_findings_def)

lemma error_update [simp]:
  "error_findings (report\<lparr>ad_min_payload_size := a, ad_max_payload_size := b\<rparr>) = error_findings report"
  "error_findings (report\<lparr>ad_first_offset := a\<rparr>) = error_findings report"
  "error_findings (report\<lparr>ad_last_offset := a, ad_bytes_estimated := b, ad_records_scanned := n\<rparr>) = error_findings report"
  "error_findings (report\<lparr>ad_manifest := m\<rparr>) = error_findings report"
  by (simp_all add: error_findings_def findings_by_severity_def)

lemma finding_severity [simp]:
  "fi_severity (make_finding severity check path message) = severity"
  "fi_severity (make_record_finding severity check path r message) = severity"
  by (simp_all add: make_finding_def make_record_finding_def)

definition oversized :: "audit_options \<Rightarrow> archive_record \<Rightarrow> bool" where
  "oversized options r \<longleftrightarrow>
     ao_max_payload_size options \<noteq> 0 \<and> ao_max_payload_size options < of_nat (length (p_payload (rec_packet r)))"

lemma time_order_errors:
  "length (error_findings (check_time_order r h t report)) =
     length (error_findings report) + (if h \<and> rec_capture_time_ns r < t then 1 else 0)"
  by (simp add: check_time_order_def)

lemma sequence_errors: "error_findings (fst (check_device_sequence r m report)) = error_findings report"
  by (simp add: check_device_sequence_def Let_def)

lemma payload_errors:
  "length (error_findings (check_payload_bounds r options report)) =
     length (error_findings report) + (if oversized options r then 1 else 0)"
  by (simp add: check_payload_bounds_def Let_def oversized_def)

lemma check_scanned [simp]:
  "ad_records_scanned (check_time_order r h t report) = ad_records_scanned report"
  "ad_records_scanned (fst (check_device_sequence r m report)) = ad_records_scanned report"
  "ad_records_scanned (check_payload_bounds r options report) = ad_records_scanned report"
  "ad_readable (check_time_order r h t report) = ad_readable report"
  "ad_readable (fst (check_device_sequence r m report)) = ad_readable report"
  "ad_readable (check_payload_bounds r options report) = ad_readable report"
  by (simp_all add: check_time_order_def check_device_sequence_def check_payload_bounds_def Let_def)

lemma audit_record_step:
  fixes st options r
  defines "st' \<equiv> audit_record options r st"
  shows "length (error_findings (at_report st')) = length (error_findings (at_report st)) +
      (if rec_offset r \<in> at_offsets st then 1 else 0) +
      (if ao_require_time_order options \<and> at_has_previous st \<and> rec_capture_time_ns r < at_previous_time st then 1 else 0) +
      (if oversized options r then 1 else 0)"
    and "at_has_previous st'" and "at_previous_time st' = rec_capture_time_ns r"
    and "at_offsets st' = insert (rec_offset r) (at_offsets st)"
    and "ad_records_scanned (at_report st') = ad_records_scanned (at_report st) + 1"
    and "ad_readable (at_report st') = ad_readable (at_report st)"
proof -
  let ?a = "fst (check_duplicate_offset r (at_offsets st) (at_report st))"
  let ?b = "if ao_require_time_order options then check_time_order r (at_has_previous st) (at_previous_time st) ?a else ?a"
  let ?c = "if ao_require_device_sequence_monotonicity options
    then fst (check_device_sequence r (at_last_sequence st) ?b) else ?b"
  let ?d = "check_payload_bounds r options ?c"
  let ?e = "if ad_records_scanned ?d = 0 then ?d\<lparr>ad_first_offset := rec_offset r\<rparr> else ?d"
  have dup: "length (error_findings ?a) = length (error_findings (at_report st)) + (if rec_offset r \<in> at_offsets st then 1 else 0)"
    "ad_records_scanned ?a = ad_records_scanned (at_report st)" "ad_readable ?a = ad_readable (at_report st)"
    by (simp_all add: check_duplicate_offset_def)
  have report: "at_report st' = ?e\<lparr>ad_last_offset := rec_offset r,
      ad_bytes_estimated := ad_bytes_estimated ?e + estimate_archive_record_bytes r,
      ad_records_scanned := ad_records_scanned ?e + 1\<rparr>"
    by (simp add: st'_def audit_record_def check_duplicate_offset_def Let_def case_prod_beta)
  have "error_findings (at_report st') = error_findings ?d" unfolding report by simp
  then show "length (error_findings (at_report st')) = length (error_findings (at_report st)) +
      (if rec_offset r \<in> at_offsets st then 1 else 0) +
      (if ao_require_time_order options \<and> at_has_previous st \<and> rec_capture_time_ns r < at_previous_time st then 1 else 0) +
      (if oversized options r then 1 else 0)"
    using dup(1) by (simp add: payload_errors time_order_errors sequence_errors)
  show "ad_records_scanned (at_report st') = ad_records_scanned (at_report st) + 1"
    "ad_readable (at_report st') = ad_readable (at_report st)"
    unfolding report using dup(2,3) by simp_all
  show "at_has_previous st'" "at_previous_time st' = rec_capture_time_ns r"
    "at_offsets st' = insert (rec_offset r) (at_offsets st)"
    by (simp_all add: st'_def audit_record_def check_duplicate_offset_def Let_def case_prod_beta)
qed

definition audit_start :: "string \<Rightarrow> audit_state" where
  "audit_start path = \<lparr>at_report = audit_report_default\<lparr>ad_path := path\<rparr>, at_has_previous = False, at_previous_time = 0,
     at_last_sequence = om_empty, at_offsets = {}\<rparr>"

definition audited :: "audit_options \<Rightarrow> archive_record list \<Rightarrow> audit_state \<Rightarrow> bool" where
  "audited options rs st \<longleftrightarrow>
     length (error_findings (at_report st)) =
       (if ao_require_time_order options then descents (map rec_capture_time_ns rs) else 0) +
       length (filter (oversized options) rs) \<and>
     at_has_previous st = (rs \<noteq> []) \<and> (rs \<noteq> [] \<longrightarrow> at_previous_time st = last (map rec_capture_time_ns rs)) \<and>
     at_offsets st = set (map rec_offset rs) \<and>
     ad_records_scanned (at_report st) = of_nat (length rs) \<and> ad_readable (at_report st)"

lemma audit_records:
  "distinct (map rec_offset rs) \<Longrightarrow> audited options rs (fold (audit_record options) rs (audit_start path))"
proof (induction rs rule: rev_induct)
  case Nil
  then show ?case
    by (simp add: audited_def audit_start_def audit_report_default_def error_findings_def findings_by_severity_def)
next
  case (snoc r rs)
  let ?st = "fold (audit_record options) rs (audit_start path)"
  have IH: "audited options rs ?st" and new: "rec_offset r \<notin> set (map rec_offset rs)" using snoc by simp_all
  note step = audit_record_step [of options r ?st]
  show ?case using IH new step by (auto simp: audited_def descents_snoc)
qed

lemma manifest_header:
  assumes "build_archive_manifest files path = Inr m" and "open_archive files path = Inr reader"
    and "ar_records reader = Inr rs" and "length rs < 18446744073709551616"
  shows "as_record_count (am_summary m) = of_nat (length rs)"
  using build_manifest [OF assms(2-4)] assms(1) scanned_manifest_of [OF assms(4), of "ar_summary reader"]
  by (simp add: manifest_of_def)

lemma audit_of_records:
  fixes options :: audit_options
  assumes fit: "files_fit files" and reader: "open_archive files path = Inr reader" and records: "ar_records reader = Inr rs"
  defines "report \<equiv> audit_archive_integrity files path options"
  shows "length rs < 18446744073709551616" and "ad_readable report"
    and "ad_records_scanned report = of_nat (length rs)"
    and "length (error_findings report) =
      (if ao_require_time_order options then descents (map rec_capture_time_ns rs) else 0) +
      length (filter (oversized options) rs) + (if as_record_count (ar_summary reader) = of_nat (length rs) then 0 else 1)"
    and "as_record_count (ar_summary reader) \<noteq> of_nat (length rs) \<Longrightarrow>
      list_ex (\<lambda>finding. fi_check finding = AC_header_matches_records) (error_findings report)"
proof -
  let ?st = "fold (audit_record options) rs (audit_start path)"
  have "length (ar_file reader) < 18446744073709551616"
    using fit reader by (auto simp: open_archive_def files_fit_def ar_open_file split: option.splits)
  with records_bounded [OF records] show len: "length rs < 18446744073709551616" by simp
  have "sorted_wrt (\<lambda>a b. rec_offset a < rec_offset b) rs" by (rule file_records_reader(2) [OF fit reader records])
  then have "distinct (map rec_offset rs)" using strict_sorted_iff [of "map rec_offset rs"] by (simp add: sorted_wrt_map)
  then have audited: "audited options rs ?st" by (rule audit_records)
  obtain m where m: "build_archive_manifest files path = Inr m"
    using build_manifest [OF reader records len] by blast
  have run: "report = add_sparse_device_findings options
      (add_manifest_findings (add_header_findings (ar_summary reader) ((at_report ?st)\<lparr>ad_manifest := m\<rparr>)))"
    by (simp add: report_def audit_archive_integrity_def reader audit_loop_run [OF records] m Let_def
        flip: audit_start_def)
  have errors: "error_findings report = error_findings (at_report ?st) @
      (if as_record_count (ar_summary reader) = of_nat (length rs) then []
       else [make_finding AS_error AC_header_matches_records (ad_path (at_report ?st))
         ''archive header record count differs from readable records''])"
    using manifest_header [OF m reader records len]
    by (auto simp: run add_sparse_device_findings_def add_manifest_findings_def add_header_findings_def Let_def
        filter_empty_conv)
  show "ad_readable report" "ad_records_scanned report = of_nat (length rs)"
    using audited by (auto simp: run add_sparse_device_findings_def add_manifest_findings_def add_header_findings_def
        Let_def audited_def)
  show "length (error_findings report) =
      (if ao_require_time_order options then descents (map rec_capture_time_ns rs) else 0) +
      length (filter (oversized options) rs) + (if as_record_count (ar_summary reader) = of_nat (length rs) then 0 else 1)"
    using audited by (simp add: errors audited_def)
  show "as_record_count (ar_summary reader) \<noteq> of_nat (length rs) \<Longrightarrow>
      list_ex (\<lambda>finding. fi_check finding = AC_header_matches_records) (error_findings report)"
    by (simp add: errors make_finding_def)
qed

lemma audit_ok_iff: "audit_report_ok report \<longleftrightarrow> ad_readable report \<and> error_findings report = []"
  by (auto simp: audit_report_ok_def error_findings_def findings_by_severity_def list_all_iff filter_empty_conv)

lemma audit_unreadable:
  fixes options :: audit_options
  assumes "err_bind (open_archive files path) ar_records = Inl e"
  defines "report \<equiv> audit_archive_integrity files path options"
  shows "\<not> ad_readable report \<and> \<not> audit_report_ok report \<and> fi_message (last (ad_findings report)) = what e"
proof (cases "open_archive files path")
  case (Inr reader)
  then have "ar_records reader = Inl e"
    using assms(1) by simp
  with audit_loop_fails obtain st where "audit_loop options (audit_start path) reader = (Some e, st)" by blast
  with Inr show ?thesis
    by (simp add: report_def audit_archive_integrity_def audit_start_def unreadable_def audit_report_ok_def
        push_findings_def make_finding_def Let_def)
qed (use assms(1) in \<open>simp add: report_def audit_archive_integrity_def unreadable_def audit_report_ok_def
       push_findings_def make_finding_def\<close>)

text \<open>
  C29. The audit of a file is exact. When the file cannot be opened or one of its records cannot be
  read, the report says so, with the error, and is not ok. Otherwise every record is scanned, and
  there is exactly one error for every record older than its predecessor (if order is required), one
  for every payload above the maximum (if there is one) and one if the header counts other records
  than there are; the report is ok when there are none.
\<close>

theorem audit_exact:
  fixes files path options
  assumes "files_fit files"
  defines "report \<equiv> audit_archive_integrity files path options"
  shows "case err_bind (open_archive files path) (\<lambda>reader. err_bind (ar_records reader) (\<lambda>records. Inr (reader, records))) of
      Inl e \<Rightarrow> \<not> ad_readable report \<and> \<not> audit_report_ok report \<and>
        fi_message (last (ad_findings report)) = what e
    | Inr (reader, records) \<Rightarrow>
        ad_readable report \<and> ad_records_scanned report = of_nat (length records) \<and>
        length (findings_by_severity report AS_error) =
          (if ao_require_time_order options then descents (map rec_capture_time_ns records) else 0) +
          length (filter (oversized options) records) +
          (if as_record_count (ar_summary reader) = of_nat (length records) then 0 else 1) \<and>
        (audit_report_ok report \<longleftrightarrow> findings_by_severity report AS_error = [])"
proof (cases "err_bind (open_archive files path) ar_records")
  case (Inl e)
  with audit_unreadable [OF Inl, of options] show ?thesis
    by (cases "open_archive files path") (simp_all add: report_def)
next
  case (Inr rs)
  then obtain reader where reader: "open_archive files path = Inr reader" and records: "ar_records reader = Inr rs"
    by (auto simp: err_bind_Inr_iff)
  show ?thesis
    using audit_of_records(2-4) [OF assms(1) reader records, of options]
    by (simp add: reader records audit_ok_iff report_def error_findings_def)
qed

lemma audit_exact_witness:
  "length (findings_by_severity (audit_archive_integrity sample_files ''a.ath'' audit_options_default) AS_error) = 1 \<and>
   \<not> audit_report_ok (audit_archive_integrity sample_files ''a.ath'' audit_options_default) \<and>
   \<not> ad_readable (audit_archive_integrity sample_files ''c.ath'' audit_options_default)"
proof -
  obtain reader where r: "ar_open (archive_of sample_captures) = Inr reader" "ar_records reader = Inr (records_from 36 sample_captures)"
    and header: "ar_summary reader = fold summary_add (map fst sample_captures) archive_summary_default"
    using archive_read_back [OF sample_storable] by (auto simp: archive_of_def)
  have opened: "open_archive sample_files ''a.ath'' = Inr reader" using r(1) by (simp add: open_archive_def sample_files_def)
  have missing: "open_archive sample_files ''c.ath'' = Inl (Error EC_archive_corrupt ''failed to open archive for reading'')"
    by (simp add: open_archive_def sample_files_def)
  have times: "map rec_capture_time_ns (records_from 36 sample_captures) = [5, 3]" by (simp add: sample_captures_def)
  have none: "filter (oversized audit_options_default) (records_from 36 sample_captures) = []"
    by (simp add: oversized_def audit_options_default_def)
  have count: "as_record_count (ar_summary reader) = of_nat (length (records_from 36 sample_captures))"
    by (simp add: header sample_captures_def summary_add_def archive_summary_default_def)
  have order: "ao_require_time_order audit_options_default" by (simp add: audit_options_default_def)
  have one: "length (findings_by_severity (audit_archive_integrity sample_files ''a.ath'' audit_options_default) AS_error) = 1"
    and ok: "audit_report_ok (audit_archive_integrity sample_files ''a.ath'' audit_options_default) \<longleftrightarrow>
      findings_by_severity (audit_archive_integrity sample_files ''a.ath'' audit_options_default) AS_error = []"
    using audit_exact [OF sample_files_fit, of "''a.ath''" audit_options_default]
    unfolding opened by (simp_all add: r(2) times none count order)
  moreover have "\<not> ad_readable (audit_archive_integrity sample_files ''c.ath'' audit_options_default)"
    using audit_exact [OF sample_files_fit, of "''c.ath''" audit_options_default] by (simp add: missing)
  ultimately show ?thesis by auto
qed

end
