(* ===== verification/Payload.thy ===== *)
theory Payload
  imports Tlv
begin

text \<open>
  The payloads devices send inside packets (\<open>src/telemetry/payload.cpp\<close>): scalar observations,
  spectrum frames, control envelopes and capability reports, with their decoders, encoders,
  warnings and summaries. A signed field is a word of its width, read with \<open>sint\<close>; the casts
  between signed and unsigned of one width leave the word as it is. The locale \<open>exact_codec\<close>
  adds to \<open>codec\<close> that what is read is what would be written.
\<close>

section \<open>Data\<close>

datatype payload_format = PF_unknown | PF_scalar_observation | PF_spectrum_frame | PF_control_envelope | PF_capability_report

datatype reading_quality = RQ_good | RQ_clipped | RQ_interpolated | RQ_missing_calibration | RQ_receiver_saturated

fun format_number :: "payload_format \<Rightarrow> u8" where
  "format_number PF_unknown = 0"
| "format_number PF_scalar_observation = 1"
| "format_number PF_spectrum_frame = 2"
| "format_number PF_control_envelope = 3"
| "format_number PF_capability_report = 4"

record scalar_reading =
  sr_channel :: u16
  sr_value :: u32
  sr_scale :: u16
  sr_quality :: reading_quality

record scalar_observation =
  so_sample_time_ns :: u64
  so_sample_rate_hz :: u32
  so_readings :: "scalar_reading list"

record spectrum_bin =
  sb_power_dbm_x10 :: u16
  sb_noise_dbm_x10 :: u16

record spectrum_frame =
  sf_center_frequency_hz :: u64
  sf_span_hz :: u32
  sf_bin_width_hz :: u16
  sf_bins :: "spectrum_bin list"

record control_envelope =
  ce_command :: u16
  ce_flags :: u16
  ce_correlation_id :: u32
  ce_body :: bytes

record capability_report =
  cr_max_payload :: u16
  cr_compression :: bool
  cr_encryption :: bool
  cr_gps_time :: bool
  cr_bands :: "string list"

record decoded_payload =
  dp_format :: payload_format
  dp_scalar :: "scalar_observation option"
  dp_spectrum :: "spectrum_frame option"
  dp_control :: "control_envelope option"
  dp_capabilities :: "capability_report option"
  dp_warnings :: "string list"

record payload_summary =
  pu_format :: payload_format
  pu_logical_items :: nat
  pu_payload_bytes :: nat
  pu_description :: string
  pu_warnings :: "string list"

definition max_scalar_readings :: nat where "max_scalar_readings = 512"
definition max_spectrum_bins :: nat where "max_spectrum_bins = 8192"
definition max_capability_bands :: nat where "max_capability_bands = 128"
definition max_control_body :: nat where "max_control_body = 1024 * 1024"

section \<open>Checks\<close>

definition decode_quality :: "u8 \<Rightarrow> error + reading_quality" where
  "decode_quality v =
     (if v = 0 then Inr RQ_good else if v = 1 then Inr RQ_clipped else if v = 2 then Inr RQ_interpolated
      else if v = 3 then Inr RQ_missing_calibration else if v = 4 then Inr RQ_receiver_saturated
      else Inl (Error EC_malformed_packet ''unknown reading quality''))"

fun encode_quality :: "reading_quality \<Rightarrow> u8" where
  "encode_quality RQ_good = 0"
| "encode_quality RQ_clipped = 1"
| "encode_quality RQ_interpolated = 2"
| "encode_quality RQ_missing_calibration = 3"
| "encode_quality RQ_receiver_saturated = 4"

definition require_count :: "nat \<Rightarrow> nat \<Rightarrow> string \<Rightarrow> error + unit" where
  "require_count n limit label =
     (if n > limit then Inl (Error EC_malformed_packet (label @ '' count exceeds limit'')) else Inr ())"

definition require_u16_size :: "nat \<Rightarrow> string \<Rightarrow> error + unit" where
  "require_u16_size n label =
     (if n > 65535 then Inl (Error EC_invalid_argument (label @ '' is too large'')) else Inr ())"

text \<open>A check between two reads, the marker in front and the end of the payload.\<close>

definition rd_lift :: "error + 'a \<Rightarrow> 'a reader" where
  "rd_lift check = (case check of Inl e \<Rightarrow> rd_fail e | Inr x \<Rightarrow> rd_return x)"

definition read_marker :: "payload_format \<Rightarrow> string \<Rightarrow> unit reader" where
  "read_marker format label = rd_bind br_u8 (\<lambda>marker.
     if marker \<noteq> format_number format then rd_fail (Error EC_malformed_packet (label @ '' marker mismatch''))
     else rd_return ())"

definition read_whole :: "'a reader \<Rightarrow> string \<Rightarrow> bytes \<Rightarrow> error + 'a" where
  "read_whole p label payload =
     err_bind (p (br_init payload)) (\<lambda>(x, reader).
       if \<not> br_empty reader then Inl (Error EC_malformed_packet (''trailing '' @ label @ '' bytes'')) else Inr x)"

section \<open>Decoding\<close>

definition read_scalar_reading :: "scalar_reading reader" where
  "read_scalar_reading =
     rd_bind br_u16 (\<lambda>channel.
     rd_bind br_u32 (\<lambda>v.
     rd_bind br_u16 (\<lambda>scale.
     rd_bind br_u8 (\<lambda>q.
     rd_bind (rd_lift (decode_quality q)) (\<lambda>quality.
       rd_return \<lparr>sr_channel = channel, sr_value = v, sr_scale = scale, sr_quality = quality\<rparr>)))))"

definition read_scalar_observation :: "scalar_observation reader" where
  "read_scalar_observation =
     rd_bind (read_marker PF_scalar_observation ''scalar observation'') (\<lambda>_.
     rd_bind br_u64 (\<lambda>time.
     rd_bind br_u32 (\<lambda>rate.
     rd_bind br_u16 (\<lambda>n.
     rd_bind (rd_lift (require_count (unat n) max_scalar_readings ''scalar reading'')) (\<lambda>_.
     rd_bind (rd_repeat (unat n) read_scalar_reading) (\<lambda>readings.
       rd_return \<lparr>so_sample_time_ns = time, so_sample_rate_hz = rate, so_readings = readings\<rparr>))))))"

definition decode_scalar_observation :: "bytes \<Rightarrow> error + scalar_observation" where
  "decode_scalar_observation = read_whole read_scalar_observation ''scalar observation''"

definition read_spectrum_bin :: "spectrum_bin reader" where
  "read_spectrum_bin =
     rd_bind br_u16 (\<lambda>power.
     rd_bind br_u16 (\<lambda>noise.
       rd_return \<lparr>sb_power_dbm_x10 = power, sb_noise_dbm_x10 = noise\<rparr>))"

definition read_spectrum_frame :: "spectrum_frame reader" where
  "read_spectrum_frame =
     rd_bind (read_marker PF_spectrum_frame ''spectrum frame'') (\<lambda>_.
     rd_bind br_u64 (\<lambda>center.
     rd_bind br_u32 (\<lambda>span_hz.
     rd_bind br_u16 (\<lambda>width.
     rd_bind br_u16 (\<lambda>n.
     rd_bind (rd_lift (require_count (unat n) max_spectrum_bins ''spectrum bin'')) (\<lambda>_.
     rd_bind (rd_repeat (unat n) read_spectrum_bin) (\<lambda>bins.
       rd_return \<lparr>sf_center_frequency_hz = center, sf_span_hz = span_hz, sf_bin_width_hz = width,
         sf_bins = bins\<rparr>)))))))"

definition decode_spectrum_frame :: "bytes \<Rightarrow> error + spectrum_frame" where
  "decode_spectrum_frame = read_whole read_spectrum_frame ''spectrum frame''"

definition read_control_envelope :: "control_envelope reader" where
  "read_control_envelope =
     rd_bind (read_marker PF_control_envelope ''control envelope'') (\<lambda>_.
     rd_bind br_u16 (\<lambda>command.
     rd_bind br_u16 (\<lambda>flags.
     rd_bind br_u32 (\<lambda>correlation.
     rd_bind br_u32 (\<lambda>n.
     rd_bind (rd_lift (require_count (unat n) max_control_body ''control body'')) (\<lambda>_.
     rd_bind (br_bytes (unat n)) (\<lambda>body.
       rd_return \<lparr>ce_command = command, ce_flags = flags, ce_correlation_id = correlation,
         ce_body = body\<rparr>)))))))"

definition decode_control_envelope :: "bytes \<Rightarrow> error + control_envelope" where
  "decode_control_envelope = read_whole read_control_envelope ''control envelope''"

definition read_capability_report :: "capability_report reader" where
  "read_capability_report =
     rd_bind (read_marker PF_capability_report ''capability report'') (\<lambda>_.
     rd_bind br_u16 (\<lambda>max_payload.
     rd_bind br_u8 (\<lambda>flags.
     rd_bind br_u16 (\<lambda>n.
     rd_bind (rd_lift (require_count (unat n) max_capability_bands ''capability band'')) (\<lambda>_.
     rd_bind (rd_repeat (unat n) (br_string 128)) (\<lambda>bands.
       rd_return \<lparr>cr_max_payload = max_payload, cr_compression = (flags AND 0x01 \<noteq> 0),
         cr_encryption = (flags AND 0x02 \<noteq> 0), cr_gps_time = (flags AND 0x04 \<noteq> 0), cr_bands = bands\<rparr>))))))"

definition decode_capability_report :: "bytes \<Rightarrow> error + capability_report" where
  "decode_capability_report = read_whole read_capability_report ''capability report''"

section \<open>Encoding\<close>

definition write_scalar_reading :: "scalar_reading \<Rightarrow> binary_writer \<Rightarrow> binary_writer" where
  "write_scalar_reading reading w =
     bw_u8 (encode_quality (sr_quality reading)) (bw_u16 (sr_scale reading)
       (bw_u32 (sr_value reading) (bw_u16 (sr_channel reading) w)))"

definition encode_scalar_observation :: "scalar_observation \<Rightarrow> error + bytes" where
  "encode_scalar_observation ob =
     err_bind (require_u16_size (length (so_readings ob)) ''scalar reading list'') (\<lambda>_.
     err_bind (require_count (length (so_readings ob)) max_scalar_readings ''scalar reading'') (\<lambda>_.
       Inr (fold write_scalar_reading (so_readings ob)
         (bw_u16 (of_nat (length (so_readings ob))) (bw_u32 (so_sample_rate_hz ob)
           (bw_u64 (so_sample_time_ns ob) (bw_u8 (format_number PF_scalar_observation) [])))))))"

definition write_spectrum_bin :: "spectrum_bin \<Rightarrow> binary_writer \<Rightarrow> binary_writer" where
  "write_spectrum_bin b w = bw_u16 (sb_noise_dbm_x10 b) (bw_u16 (sb_power_dbm_x10 b) w)"

definition encode_spectrum_frame :: "spectrum_frame \<Rightarrow> error + bytes" where
  "encode_spectrum_frame frame =
     err_bind (require_u16_size (length (sf_bins frame)) ''spectrum bin list'') (\<lambda>_.
     err_bind (require_count (length (sf_bins frame)) max_spectrum_bins ''spectrum bin'') (\<lambda>_.
       Inr (fold write_spectrum_bin (sf_bins frame)
         (bw_u16 (of_nat (length (sf_bins frame))) (bw_u16 (sf_bin_width_hz frame) (bw_u32 (sf_span_hz frame)
           (bw_u64 (sf_center_frequency_hz frame) (bw_u8 (format_number PF_spectrum_frame) []))))))))"

definition encode_control_envelope :: "control_envelope \<Rightarrow> error + bytes" where
  "encode_control_envelope envelope =
     err_bind (require_count (length (ce_body envelope)) max_control_body ''control body'') (\<lambda>_.
       Inr (bw_bytes (ce_body envelope)
         (bw_u32 (of_nat (length (ce_body envelope))) (bw_u32 (ce_correlation_id envelope)
           (bw_u16 (ce_flags envelope) (bw_u16 (ce_command envelope)
             (bw_u8 (format_number PF_control_envelope) [])))))))"

fun write_bands :: "string list \<Rightarrow> binary_writer \<Rightarrow> error + binary_writer" where
  "write_bands [] w = Inr w"
| "write_bands (band # bands) w = err_bind (bw_string band w) (write_bands bands)"

definition capability_flags :: "capability_report \<Rightarrow> u8" where
  "capability_flags report =
     (let flags = 0;
          flags = (if cr_compression report then flags OR 0x01 else flags);
          flags = (if cr_encryption report then flags OR 0x02 else flags);
          flags = (if cr_gps_time report then flags OR 0x04 else flags)
      in flags)"

definition encode_capability_report :: "capability_report \<Rightarrow> error + bytes" where
  "encode_capability_report report =
     err_bind (require_u16_size (length (cr_bands report)) ''capability band list'') (\<lambda>_.
     err_bind (require_count (length (cr_bands report)) max_capability_bands ''capability band'') (\<lambda>_.
       write_bands (cr_bands report)
         (bw_u16 (of_nat (length (cr_bands report))) (bw_u8 (capability_flags report)
           (bw_u16 (cr_max_payload report) (bw_u8 (format_number PF_capability_report) []))))))"

section \<open>Names and the format of a payload\<close>

definition payload_format_name :: "payload_format \<Rightarrow> string" where
  "payload_format_name format =
     (case format of
        PF_unknown \<Rightarrow> ''unknown'' | PF_scalar_observation \<Rightarrow> ''scalar_observation''
      | PF_spectrum_frame \<Rightarrow> ''spectrum_frame'' | PF_control_envelope \<Rightarrow> ''control_envelope''
      | PF_capability_report \<Rightarrow> ''capability_report'')"

definition reading_quality_name :: "reading_quality \<Rightarrow> string" where
  "reading_quality_name quality =
     (case quality of
        RQ_good \<Rightarrow> ''good'' | RQ_clipped \<Rightarrow> ''clipped'' | RQ_interpolated \<Rightarrow> ''interpolated''
      | RQ_missing_calibration \<Rightarrow> ''missing_calibration'' | RQ_receiver_saturated \<Rightarrow> ''receiver_saturated'')"

text \<open>The cast of a number from 1 to 4.\<close>

definition format_of_number :: "u8 \<Rightarrow> payload_format" where
  "format_of_number v =
     (if v = 1 then PF_scalar_observation else if v = 2 then PF_spectrum_frame
      else if v = 3 then PF_control_envelope else if v = 4 then PF_capability_report else PF_unknown)"

definition format_of_kind :: "packet_kind \<Rightarrow> payload_format" where
  "format_of_kind kind =
     (case kind of
        PK_observation \<Rightarrow> PF_scalar_observation | PK_spectrum \<Rightarrow> PF_spectrum_frame
      | PK_control \<Rightarrow> PF_control_envelope | PK_capabilities \<Rightarrow> PF_capability_report
      | PK_heartbeat \<Rightarrow> PF_unknown)"

definition infer_payload_format :: "packet \<Rightarrow> payload_format" where
  "infer_payload_format packet =
     (case p_payload packet of
        marker # _ \<Rightarrow>
          if marker \<ge> format_number PF_scalar_observation \<and> marker \<le> format_number PF_capability_report
          then format_of_number marker else format_of_kind (p_kind packet)
      | [] \<Rightarrow> format_of_kind (p_kind packet))"

section \<open>Warnings\<close>

definition count_if :: "('a \<Rightarrow> bool) \<Rightarrow> 'a list \<Rightarrow> nat" where
  "count_if p xs = length (filter p xs)"

definition scalar_warnings :: "scalar_observation \<Rightarrow> string list" where
  "scalar_warnings ob =
     (let bad = count_if (\<lambda>reading. sr_quality reading \<noteq> RQ_good) (so_readings ob)
      in (if so_readings ob = [] then [''scalar observation contains no readings''] else []) @
         (if so_sample_rate_hz ob = 0 then [''scalar observation has zero sample rate''] else []) @
         (if bad \<noteq> 0 then [dec_nat bad @ '' scalar readings have degraded quality''] else []))"

definition spectrum_warnings :: "spectrum_frame \<Rightarrow> string list" where
  "spectrum_warnings frame =
     (let saturated = count_if (\<lambda>b. sint (sb_power_dbm_x10 b) \<ge> 0 \<or> sint (sb_noise_dbm_x10 b) \<ge> 0) (sf_bins frame)
      in (if sf_bins frame = [] then [''spectrum frame contains no bins''] else []) @
         (if sf_span_hz frame = 0 then [''spectrum frame has zero span''] else []) @
         (if sf_bin_width_hz frame = 0 then [''spectrum frame has zero bin width''] else []) @
         (if saturated \<noteq> 0 then [dec_nat saturated @ '' spectrum bins report non-negative RF power''] else []))"

definition control_warnings :: "control_envelope \<Rightarrow> string list" where
  "control_warnings envelope =
     (if ce_command envelope = 0 then [''control envelope has reserved command id''] else []) @
     (if ce_body envelope = [] then [''control envelope body is empty''] else [])"

definition capability_warnings :: "capability_report \<Rightarrow> string list" where
  "capability_warnings report =
     (if cr_max_payload report = 0 then [''capability report has zero max payload''] else []) @
     (if cr_bands report = [] then [''capability report has no sensor bands''] else [])"

section \<open>The payload of a packet\<close>

definition decode_packet_payload :: "packet \<Rightarrow> decoded_payload" where
  "decode_packet_payload packet =
     (let decoded = \<lparr>dp_format = infer_payload_format packet, dp_scalar = None, dp_spectrum = None,
            dp_control = None, dp_capabilities = None, dp_warnings = []\<rparr>;
          failed = (\<lambda>error. decoded\<lparr>dp_warnings := dp_warnings decoded @ [what error]\<rparr>)
      in if p_payload packet = [] then decoded\<lparr>dp_warnings := dp_warnings decoded @ [''packet payload is empty'']\<rparr>
         else (case dp_format decoded of
             PF_scalar_observation \<Rightarrow>
               (case decode_scalar_observation (p_payload packet) of Inl error \<Rightarrow> failed error
                | Inr ob \<Rightarrow> decoded\<lparr>dp_scalar := Some ob, dp_warnings := dp_warnings decoded @ scalar_warnings ob\<rparr>)
           | PF_spectrum_frame \<Rightarrow>
               (case decode_spectrum_frame (p_payload packet) of Inl error \<Rightarrow> failed error
                | Inr frame \<Rightarrow> decoded\<lparr>dp_spectrum := Some frame, dp_warnings := dp_warnings decoded @ spectrum_warnings frame\<rparr>)
           | PF_control_envelope \<Rightarrow>
               (case decode_control_envelope (p_payload packet) of Inl error \<Rightarrow> failed error
                | Inr envelope \<Rightarrow> decoded\<lparr>dp_control := Some envelope, dp_warnings := dp_warnings decoded @ control_warnings envelope\<rparr>)
           | PF_capability_report \<Rightarrow>
               (case decode_capability_report (p_payload packet) of Inl error \<Rightarrow> failed error
                | Inr report \<Rightarrow> decoded\<lparr>dp_capabilities := Some report, dp_warnings := dp_warnings decoded @ capability_warnings report\<rparr>)
           | PF_unknown \<Rightarrow> decoded\<lparr>dp_warnings := dp_warnings decoded @ [''unknown payload format'']\<rparr>))"

definition scalar_description :: "scalar_observation \<Rightarrow> string" where
  "scalar_description ob =
     dec_nat (length (so_readings ob)) @ '' scalar readings at '' @ dec (so_sample_rate_hz ob) @ '' Hz''"

definition spectrum_description :: "spectrum_frame \<Rightarrow> string" where
  "spectrum_description frame =
     dec_nat (length (sf_bins frame)) @ '' spectrum bins centered at '' @ dec (sf_center_frequency_hz frame) @ '' Hz''"

definition control_description :: "control_envelope \<Rightarrow> string" where
  "control_description envelope =
     ''control command '' @ dec (ce_command envelope) @ '' body='' @ dec_nat (length (ce_body envelope)) @ '' bytes''"

definition capability_description :: "capability_report \<Rightarrow> string" where
  "capability_description report =
     ''capabilities max_payload='' @ dec (cr_max_payload report) @ '' bands='' @ dec_nat (length (cr_bands report))"

definition summarize_payload :: "packet \<Rightarrow> payload_summary" where
  "summarize_payload packet =
     (let decoded = decode_packet_payload packet;
          (items, description) =
            (case dp_scalar decoded of
               Some ob \<Rightarrow> (length (so_readings ob), scalar_description ob)
             | None \<Rightarrow> (case dp_spectrum decoded of
               Some frame \<Rightarrow> (length (sf_bins frame), spectrum_description frame)
             | None \<Rightarrow> (case dp_control decoded of
               Some envelope \<Rightarrow> (length (ce_body envelope), control_description envelope)
             | None \<Rightarrow> (case dp_capabilities decoded of
               Some report \<Rightarrow> (length (cr_bands report), capability_description report)
             | None \<Rightarrow> (0, ''unparsed payload'')))))
      in \<lparr>pu_format = dp_format decoded, pu_logical_items = items, pu_payload_bytes = length (p_payload packet),
          pu_description = description, pu_warnings = dp_warnings decoded\<rparr>)"

definition render_payload_summary :: "payload_summary \<Rightarrow> string" where
  "render_payload_summary summary =
     ''payload '' @ payload_format_name (pu_format summary) @ newline @
     ''  bytes: '' @ dec_nat (pu_payload_bytes summary) @ newline @
     ''  logical_items: '' @ dec_nat (pu_logical_items summary) @ newline @
     ''  description: '' @ pu_description summary @ newline @
     concat (map (\<lambda>warning. ''  warning: '' @ warning @ newline) (pu_warnings summary))"

section \<open>Exact readers\<close>

text \<open>What an exact reader has read is what the writer would write of the value.\<close>

definition exact :: "'a reader \<Rightarrow> ('a \<Rightarrow> bytes) \<Rightarrow> bool" where
  "exact p enc \<longleftrightarrow> (\<forall>r x r'. p r = Inr (x, r') \<longrightarrow> br_rest r = enc x @ br_rest r')"

lemma exactD: "exact p enc \<Longrightarrow> p r = Inr (x, r') \<Longrightarrow> br_rest r = enc x @ br_rest r'"
  by (simp add: exact_def)

lemma exactI: "(\<And>r x r'. p r = Inr (x, r') \<Longrightarrow> br_rest r = enc x @ br_rest r') \<Longrightarrow> exact p enc"
  by (simp add: exact_def)

lemma rd_bind_Inr_iff: "rd_bind p f r = Inr (y, r'') \<longleftrightarrow> (\<exists>x r'. p r = Inr (x, r') \<and> f x r' = Inr (y, r''))"
  by (auto simp: rd_bind_def split: sum.splits)

lemma exact_u8: "exact br_u8 (\<lambda>v. [v])"
  unfolding exact_def
proof (intro allI impI)
  fix r v r'
  assume "br_u8 r = Inr (v, r')"
  then have len: "0 < length (br_rest r)" and v: "v = br_data r ! br_offset r" and r': "r' = br_advance 1 r"
    by (auto simp: br_u8_def rd_bind_def br_require_def br_remaining_rest br_advance_def split: if_splits)
  then show "br_rest r = [v] @ br_rest r'"
    by (cases "br_rest r") (simp_all add: br_rest_nth0)
qed

lemma exact_u16: "exact br_u16 (\<lambda>v. bw_u16 v [])"
  by (simp add: exact_def br_u16_bytes)

lemma bit_or_shifted_at:
  assumes "8 * k \<le> LENGTH('a)"
  shows "bit (fold (or_shifted data off) [0..<k] (0 :: 'a::len word)) n \<longleftrightarrow>
     n < 8 * k \<and> bit (data ! (off + n div 8)) (n mod 8)"
  using assms
proof (induction k)
  case (Suc k)
  have fold: "fold (or_shifted data off) [0..<Suc k] (0 :: 'a word) =
      fold (or_shifted data off) [0..<k] 0 OR push_bit (8 * k) (ucast (data ! (off + k)))"
    by (simp add: or_shifted_def [of data off k])
  show ?case
  proof (cases "n < 8 * k")
    case True
    then show ?thesis using Suc unfolding fold by (simp add: bit_simps)
  next
    case False
    then have "bit (fold (or_shifted data off) [0..<Suc k] (0 :: 'a word)) n \<longleftrightarrow>
        n < LENGTH('a) \<and> bit (data ! (off + k)) (n - 8 * k)"
      using Suc unfolding fold by (auto simp: bit_simps)
    moreover have "bit (data ! (off + k)) (n - 8 * k) \<Longrightarrow> n < 8 * Suc k"
      using bit_imp_le_length [of "data ! (off + k)" "n - 8 * k"] False by simp
    moreover have "n div 8 = k" "n mod 8 = n - 8 * k" if "n < 8 * Suc k"
      using that False by (auto simp: div_nat_eqI mod_nat_eqI)
    ultimately show ?thesis using Suc.prems by auto
  qed
qed simp

lemma byte_at_or_shifted:
  assumes "8 * k \<le> LENGTH('a)" and "i < k"
  shows "byte_at (fold (or_shifted data off) [0..<k] (0 :: 'a::len word)) i = data ! (off + i)"
proof (rule bit_word_eqI)
  fix n
  assume n: "n < LENGTH(8)"
  then have "8 * i + n < 8 * k" "(8 * i + n) div 8 = i" "(8 * i + n) mod 8 = n" using assms(2) by auto
  with n show "bit (byte_at (fold (or_shifted data off) [0..<k] (0 :: 'a word)) i) n = bit (data ! (off + i)) n"
    unfolding bit_byte_at bit_or_shifted_at [OF assms(1)] by simp
qed

lemma or_shifted_bytes:
  assumes "8 * k \<le> LENGTH('a)" and "k \<le> length (br_rest r)"
  shows "br_rest r = map (byte_at (fold (or_shifted (br_data r) (br_offset r)) [0..<k] (0 :: 'a::len word))) [0..<k] @
     br_rest (br_advance k r)"
proof -
  have "map (byte_at (fold (or_shifted (br_data r) (br_offset r)) [0..<k] (0 :: 'a word))) [0..<k] = take k (br_rest r)"
    using assms by (intro nth_equalityI) (simp_all add: byte_at_or_shifted br_rest_nth)
  then show ?thesis by simp
qed

lemma exact_u32: "exact br_u32 (\<lambda>v. bw_u32 v [])"
  unfolding exact_def
proof (intro allI impI)
  fix r v r'
  assume "br_u32 r = Inr (v, r')"
  then have "4 \<le> length (br_rest r)" "v = fold (or_shifted (br_data r) (br_offset r)) [0..<4] 0" "r' = br_advance 4 r"
    by (auto simp: br_u32_def rd_bind_def br_require_def br_remaining_rest br_advance_def split: if_splits)
  with or_shifted_bytes [of 4 r, where 'a = 32] show "br_rest r = bw_u32 v [] @ br_rest r'" by (simp add: bw_u32_def)
qed

lemma exact_u64: "exact br_u64 (\<lambda>v. bw_u64 v [])"
  unfolding exact_def
proof (intro allI impI)
  fix r v r'
  assume "br_u64 r = Inr (v, r')"
  then have "8 \<le> length (br_rest r)" "v = fold (or_shifted (br_data r) (br_offset r)) [0..<8] 0" "r' = br_advance 8 r"
    by (auto simp: br_u64_def rd_bind_def br_require_def br_remaining_rest br_advance_def split: if_splits)
  with or_shifted_bytes [of 8 r, where 'a = 64] show "br_rest r = bw_u64 v [] @ br_rest r'" by (simp add: bw_u64_def)
qed

lemma exact_bytes: "br_bytes n r = Inr (bs, r') \<Longrightarrow> br_rest r = bs @ br_rest r' \<and> length bs = n"
  by (auto simp: br_bytes_def rd_bind_def br_require_def br_remaining_rest br_rest_def add.commute split: if_splits
      simp flip: drop_drop)

lemma exact_repeat:
  "exact p enc \<Longrightarrow> rd_repeat n p r = Inr (xs, r') \<Longrightarrow> br_rest r = concat (map enc xs) @ br_rest r' \<and> length xs = n"
proof (induction n arbitrary: r xs)
  case 0
  then show ?case by (simp add: rd_return_def)
next
  case (Suc n)
  then obtain x r1 ys where x: "p r = Inr (x, r1)" "rd_repeat n p r1 = Inr (ys, r')" "xs = x # ys"
    by (auto simp: rd_bind_Inr_iff rd_return_def)
  with Suc.IH [OF Suc.prems(1) x(2)] exactD [OF Suc.prems(1) x(1)] show ?case by simp
qed

locale exact_codec = codec +
  assumes exact: "dec r = Inr (x, r') \<Longrightarrow> ok x \<and> br_rest r = enc x @ br_rest r'"
begin

lemma exact_dec: "exact dec enc"
  by (simp add: exactI exact)

lemma read_whole_iff: "read_whole dec label bs = Inr x \<longleftrightarrow> ok x \<and> enc x = bs"
proof
  assume "read_whole dec label bs = Inr x"
  then obtain r' where "dec (br_init bs) = Inr (x, r')" "br_empty r'"
    by (auto simp: read_whole_def err_bind_Inr_iff split: if_splits)
  with exact [OF this(1)] show "ok x \<and> enc x = bs" by (simp add: br_empty_rest)
next
  assume "ok x \<and> enc x = bs"
  with decode_prefix [of x "[]"] show "read_whole dec label bs = Inr x"
    by (auto simp: read_whole_def br_empty_rest)
qed

end

section \<open>Round trips\<close>

lemma rd_bind_return [simp]: "rd_bind (rd_return x) f = f x"
  by (rule ext) (simp add: rd_bind_def rd_return_def)

lemma rd_lift_simps [simp]: "rd_lift (Inr x) = rd_return x" "rd_lift (Inl e) = rd_fail e"
  by (simp_all add: rd_lift_def)

lemma rd_return_Inr_iff: "rd_return x r = Inr (y, r') \<longleftrightarrow> y = x \<and> r' = r"
  by (auto simp: rd_return_def)

lemma rd_lift_Inr_iff: "rd_lift m r = Inr (y, r') \<longleftrightarrow> m = Inr y \<and> r' = r"
  by (cases m) (auto simp: rd_fail_def rd_return_def)

lemma decodes_u8_last: "decodes (f v) [] y \<Longrightarrow> decodes (rd_bind br_u8 f) [v] y"
  by (rule decodes_bind_eq [OF decodes_u8, of _ _ "[]"]) simp_all

lemmas decodes_next = decodes_bind [OF decodes_u16] decodes_bind [OF decodes_u32] decodes_bind [OF decodes_u64]

lemma decodes_marker: "decodes (read_marker format label) [format_number format] ()"
  unfolding read_marker_def by (rule decodes_bind_eq [OF decodes_u8, of _ _ "[]"]) (simp_all add: decodes_return)

lemma read_marker_Inr_iff: "read_marker format label r = Inr (u, r') \<longleftrightarrow> br_u8 r = Inr (format_number format, r')"
  by (auto simp: read_marker_def rd_bind_Inr_iff rd_return_def rd_fail_def split: if_splits)

lemma fold_write: "(\<And>x w. wr x w = w @ enc x) \<Longrightarrow> fold wr xs w = w @ concat (map enc xs)"
  by (induction xs arbitrary: w) simp_all

lemma quality_roundtrip [simp]: "decode_quality (encode_quality q) = Inr q"
  by (cases q) (simp_all add: decode_quality_def)

lemma decode_quality_Inr: "decode_quality v = Inr q \<longleftrightarrow> v = encode_quality q"
  by (cases q) (auto simp: decode_quality_def split: if_splits)

text \<open>A counter that fits its width is read back as the number it stands for.\<close>

definition reading_bytes :: "scalar_reading \<Rightarrow> bytes" where
  "reading_bytes reading = bw_u16 (sr_channel reading) [] @ bw_u32 (sr_value reading) [] @
     bw_u16 (sr_scale reading) [] @ [encode_quality (sr_quality reading)]"

definition scalar_bytes :: "scalar_observation \<Rightarrow> bytes" where
  "scalar_bytes ob = [format_number PF_scalar_observation] @ bw_u64 (so_sample_time_ns ob) [] @
     bw_u32 (so_sample_rate_hz ob) [] @ bw_u16 (of_nat (length (so_readings ob))) [] @
     concat (map reading_bytes (so_readings ob))"

definition bin_bytes :: "spectrum_bin \<Rightarrow> bytes" where
  "bin_bytes b = bw_u16 (sb_power_dbm_x10 b) [] @ bw_u16 (sb_noise_dbm_x10 b) []"

definition spectrum_bytes :: "spectrum_frame \<Rightarrow> bytes" where
  "spectrum_bytes frame = [format_number PF_spectrum_frame] @ bw_u64 (sf_center_frequency_hz frame) [] @
     bw_u32 (sf_span_hz frame) [] @ bw_u16 (sf_bin_width_hz frame) [] @
     bw_u16 (of_nat (length (sf_bins frame))) [] @ concat (map bin_bytes (sf_bins frame))"

definition control_bytes :: "control_envelope \<Rightarrow> bytes" where
  "control_bytes envelope = [format_number PF_control_envelope] @ bw_u16 (ce_command envelope) [] @
     bw_u16 (ce_flags envelope) [] @ bw_u32 (ce_correlation_id envelope) [] @
     bw_u32 (of_nat (length (ce_body envelope))) [] @ ce_body envelope"

definition capability_bytes :: "capability_report \<Rightarrow> bytes" where
  "capability_bytes report = [format_number PF_capability_report] @ bw_u16 (cr_max_payload report) [] @
     [capability_flags report] @ bw_u16 (of_nat (length (cr_bands report))) [] @
     concat (map string_bytes (cr_bands report))"

lemma write_reading: "write_scalar_reading x w = w @ reading_bytes x"
  by (simp add: write_scalar_reading_def reading_bytes_def bw_u8_def bw_u16_def bw_u32_def)

lemma write_bin: "write_spectrum_bin x w = w @ bin_bytes x"
  by (simp add: write_spectrum_bin_def bin_bytes_def bw_u16_def)

interpretation reading_codec: exact_codec reading_bytes read_scalar_reading "\<lambda>_. True"
proof unfold_locales
  fix x
  have "decodes read_scalar_reading (reading_bytes x) \<lparr>sr_channel = sr_channel x, sr_value = sr_value x,
      sr_scale = sr_scale x, sr_quality = sr_quality x\<rparr>"
    unfolding read_scalar_reading_def reading_bytes_def
    by (rule decodes_next)+ (rule decodes_u8_last, simp add: decodes_return)
  then show "decodes read_scalar_reading (reading_bytes x) x" by (cases x) simp
next
  fix r x r'
  assume "read_scalar_reading r = Inr (x, r')"
  then show "True \<and> br_rest r = reading_bytes x @ br_rest r'"
    by (auto simp: read_scalar_reading_def rd_bind_Inr_iff rd_return_Inr_iff rd_lift_Inr_iff decode_quality_Inr
        reading_bytes_def dest!: exactD [OF exact_u16] exactD [OF exact_u32] exactD [OF exact_u8])
qed

interpretation bin_codec: exact_codec bin_bytes read_spectrum_bin "\<lambda>_. True"
proof unfold_locales
  fix x
  have "decodes read_spectrum_bin (bin_bytes x) \<lparr>sb_power_dbm_x10 = sb_power_dbm_x10 x, sb_noise_dbm_x10 = sb_noise_dbm_x10 x\<rparr>"
    unfolding read_spectrum_bin_def bin_bytes_def
    by (rule decodes_next, rule decodes_bind_return, rule decodes_u16)
  then show "decodes read_spectrum_bin (bin_bytes x) x" by (cases x) simp
next
  fix r x r'
  assume "read_spectrum_bin r = Inr (x, r')"
  then show "True \<and> br_rest r = bin_bytes x @ br_rest r'"
    by (auto simp: read_spectrum_bin_def rd_bind_Inr_iff rd_return_Inr_iff bin_bytes_def dest!: exactD [OF exact_u16])
qed

lemma counted: "n \<le> limit \<Longrightarrow> rd_lift (require_count n limit label) = rd_return ()"
  by (simp add: require_count_def)

lemma unat_length_u16: "n \<le> 65535 \<Longrightarrow> unat (of_nat n :: u16) = n"
  by (simp add: unat_of_nat_u16)

lemma length_as_word: "unat (n :: 'a::len word) = m \<Longrightarrow> n = of_nat m"
  by auto

interpretation scalar_codec: exact_codec scalar_bytes read_scalar_observation
  "\<lambda>ob. length (so_readings ob) \<le> max_scalar_readings"
proof unfold_locales
  fix ob :: scalar_observation
  assume ok: "length (so_readings ob) \<le> max_scalar_readings"
  then have n: "unat (of_nat (length (so_readings ob)) :: u16) = length (so_readings ob)"
    by (simp add: max_scalar_readings_def unat_of_nat_widths)
  have "decodes read_scalar_observation (scalar_bytes ob) \<lparr>so_sample_time_ns = so_sample_time_ns ob,
      so_sample_rate_hz = so_sample_rate_hz ob, so_readings = so_readings ob\<rparr>"
    unfolding read_scalar_observation_def scalar_bytes_def
    by (rule decodes_bind [OF decodes_marker], (rule decodes_next)+)
      (simp only: n counted [OF ok] rd_bind_return, rule decodes_bind_return, rule reading_codec.repeat_roundtrip, simp)
  then show "decodes read_scalar_observation (scalar_bytes ob) ob" by (cases ob) simp
next
  fix r ob r'
  assume "read_scalar_observation r = Inr (ob, r')"
  then show "length (so_readings ob) \<le> max_scalar_readings \<and> br_rest r = scalar_bytes ob @ br_rest r'"
    by (auto simp: read_scalar_observation_def rd_bind_Inr_iff rd_return_Inr_iff rd_lift_Inr_iff read_marker_Inr_iff
        scalar_bytes_def require_count_def split: if_splits
        dest!: exactD [OF exact_u16] exactD [OF exact_u32] exactD [OF exact_u64] exactD [OF exact_u8]
          exact_repeat [OF reading_codec.exact_dec] length_as_word)
qed

interpretation spectrum_codec: exact_codec spectrum_bytes read_spectrum_frame
  "\<lambda>frame. length (sf_bins frame) \<le> max_spectrum_bins"
proof unfold_locales
  fix frame :: spectrum_frame
  assume ok: "length (sf_bins frame) \<le> max_spectrum_bins"
  then have n: "unat (of_nat (length (sf_bins frame)) :: u16) = length (sf_bins frame)"
    by (simp add: max_spectrum_bins_def unat_of_nat_widths)
  have "decodes read_spectrum_frame (spectrum_bytes frame) \<lparr>sf_center_frequency_hz = sf_center_frequency_hz frame,
      sf_span_hz = sf_span_hz frame, sf_bin_width_hz = sf_bin_width_hz frame, sf_bins = sf_bins frame\<rparr>"
    unfolding read_spectrum_frame_def spectrum_bytes_def
    by (rule decodes_bind [OF decodes_marker], (rule decodes_next)+)
      (simp only: n counted [OF ok] rd_bind_return, rule decodes_bind_return, rule bin_codec.repeat_roundtrip, simp)
  then show "decodes read_spectrum_frame (spectrum_bytes frame) frame" by (cases frame) simp
next
  fix r frame r'
  assume "read_spectrum_frame r = Inr (frame, r')"
  then show "length (sf_bins frame) \<le> max_spectrum_bins \<and> br_rest r = spectrum_bytes frame @ br_rest r'"
    by (auto simp: read_spectrum_frame_def rd_bind_Inr_iff rd_return_Inr_iff rd_lift_Inr_iff read_marker_Inr_iff
        spectrum_bytes_def require_count_def split: if_splits
        dest!: exactD [OF exact_u16] exactD [OF exact_u32] exactD [OF exact_u64] exactD [OF exact_u8]
          exact_repeat [OF bin_codec.exact_dec] length_as_word)
qed

interpretation control_codec: exact_codec control_bytes read_control_envelope
  "\<lambda>envelope. length (ce_body envelope) \<le> max_control_body"
proof unfold_locales
  fix envelope :: control_envelope
  assume ok: "length (ce_body envelope) \<le> max_control_body"
  then have n: "unat (of_nat (length (ce_body envelope)) :: u32) = length (ce_body envelope)"
    by (simp add: max_control_body_def unat_of_nat_widths)
  have "decodes read_control_envelope (control_bytes envelope) \<lparr>ce_command = ce_command envelope,
      ce_flags = ce_flags envelope, ce_correlation_id = ce_correlation_id envelope, ce_body = ce_body envelope\<rparr>"
    unfolding read_control_envelope_def control_bytes_def
    by (rule decodes_bind [OF decodes_marker], (rule decodes_next)+)
      (simp only: n counted [OF ok] rd_bind_return, rule decodes_bind_return, rule decodes_bytes, rule refl)
  then show "decodes read_control_envelope (control_bytes envelope) envelope" by (cases envelope) simp
next
  fix r envelope r'
  assume "read_control_envelope r = Inr (envelope, r')"
  then show "length (ce_body envelope) \<le> max_control_body \<and> br_rest r = control_bytes envelope @ br_rest r'"
    by (auto simp: read_control_envelope_def rd_bind_Inr_iff rd_return_Inr_iff rd_lift_Inr_iff read_marker_Inr_iff
        control_bytes_def require_count_def split: if_splits
        dest!: exactD [OF exact_u16] exactD [OF exact_u32] exactD [OF exact_u64] exactD [OF exact_u8]
          exact_bytes length_as_word)
qed

lemma encode_scalar_iff:
  "encode_scalar_observation ob = Inr bs \<longleftrightarrow> length (so_readings ob) \<le> max_scalar_readings \<and> scalar_bytes ob = bs"
  by (auto simp: encode_scalar_observation_def require_u16_size_def require_count_def max_scalar_readings_def
      fold_write [OF write_reading] scalar_bytes_def bw_u8_def bw_u16_def bw_u32_def bw_u64_def)

lemma encode_spectrum_iff:
  "encode_spectrum_frame frame = Inr bs \<longleftrightarrow> length (sf_bins frame) \<le> max_spectrum_bins \<and> spectrum_bytes frame = bs"
  by (auto simp: encode_spectrum_frame_def require_u16_size_def require_count_def max_spectrum_bins_def
      fold_write [OF write_bin] spectrum_bytes_def bw_u8_def bw_u16_def bw_u32_def bw_u64_def)

lemma encode_control_iff:
  "encode_control_envelope envelope = Inr bs \<longleftrightarrow>
     length (ce_body envelope) \<le> max_control_body \<and> control_bytes envelope = bs"
  by (auto simp: encode_control_envelope_def require_count_def control_bytes_def
      bw_bytes_def bw_u8_def bw_u16_def bw_u32_def)

lemma flags_read [simp]:
  "capability_flags report AND 1 = 0 \<longleftrightarrow> \<not> cr_compression report"
  "capability_flags report AND 2 = 0 \<longleftrightarrow> \<not> cr_encryption report"
  "capability_flags report AND 4 = 0 \<longleftrightarrow> \<not> cr_gps_time report"
  by (simp_all add: capability_flags_def)

lemma write_bands_iff:
  "write_bands bands w = Inr bs \<longleftrightarrow> (\<forall>band \<in> set bands. length band \<le> 65535) \<and> bs = w @ concat (map string_bytes bands)"
proof (induction bands arbitrary: w)
  case (Cons band bands)
  show ?case
  proof (cases "length band \<le> 65535")
    case True
    then show ?thesis by (simp add: bw_string_ok Cons.IH)
  qed (simp add: bw_string_def)
qed auto

lemma encode_capability_iff:
  "encode_capability_report report = Inr bs \<longleftrightarrow> length (cr_bands report) \<le> max_capability_bands \<and>
     (\<forall>band \<in> set (cr_bands report). length band \<le> 65535) \<and> bs = capability_bytes report"
  by (auto simp: encode_capability_report_def require_u16_size_def require_count_def max_capability_bands_def
      write_bands_iff capability_bytes_def bw_u8_def bw_u16_def)

definition band_error :: error where
  "band_error = Error EC_malformed_packet ''string exceeds configured limit''"

lemma br_string_long:
  assumes "br_rest r = string_bytes s @ t" and "limit < length s" and "length s \<le> 65535"
  shows "br_string limit r = Inl band_error"
proof -
  have "br_u16 r = Inr (of_nat (length s), br_advance 2 r)"
    using decodesD [OF decodes_u16, of r "of_nat (length s)" "map byte_of_char s @ t"] assms(1)
    by (simp add: string_bytes_def)
  then show ?thesis using assms(2,3)
    by (simp add: br_string_def rd_bind_def unat_length_u16 rd_fail_def band_error_def del: unat_of_nat)
qed

lemma read_bands:
  assumes "\<forall>band \<in> set bands. length band \<le> 65535" and "br_rest r = concat (map string_bytes bands) @ t"
  shows "rd_repeat (length bands) (br_string limit) r =
    (if \<forall>band \<in> set bands. length band \<le> limit
     then Inr (bands, br_advance (length (concat (map string_bytes bands))) r) else Inl band_error)"
  using assms
proof (induction bands arbitrary: r)
  case Nil
  then show ?case by (simp add: rd_return_def)
next
  case (Cons band bands)
  show ?case
  proof (cases "length band \<le> limit")
    case True
    let ?r = "br_advance (length (string_bytes band)) r"
    have "br_string limit r = Inr (band, ?r)"
      using decodesD [OF decodes_string [OF True], of r "concat (map string_bytes bands) @ t"] Cons.prems by simp
    moreover have "br_rest ?r = concat (map string_bytes bands) @ t" using Cons.prems(2) by simp
    ultimately show ?thesis
      using Cons.IH [of ?r] Cons.prems(1) True by (simp add: rd_bind_def rd_return_def)
  next
    case False
    then have "br_string limit r = Inl band_error" using Cons.prems by (intro br_string_long) auto
    with False show ?thesis by (auto simp: rd_bind_def)
  qed
qed

lemma decode_capability_bytes:
  assumes "length (cr_bands report) \<le> max_capability_bands" and "\<forall>band \<in> set (cr_bands report). length band \<le> 65535"
  shows "decode_capability_report (capability_bytes report) =
    (if \<forall>band \<in> set (cr_bands report). length band \<le> 128 then Inr report else Inl band_error)"
proof -
  let ?bands = "cr_bands report"
  let ?head = "[format_number PF_capability_report] @ bw_u16 (cr_max_payload report) [] @
     [capability_flags report] @ bw_u16 (of_nat (length ?bands)) []"
  define start where "start = rd_bind (read_marker PF_capability_report ''capability report'') (\<lambda>_.
     rd_bind br_u16 (\<lambda>max_payload.
     rd_bind br_u8 (\<lambda>flags.
     rd_bind br_u16 (\<lambda>n. rd_return (max_payload, flags, n)))))"
  have "decodes start ?head (cr_max_payload report, capability_flags report, of_nat (length ?bands))"
    unfolding start_def
    by (rule decodes_bind [OF decodes_marker], rule decodes_bind [OF decodes_u16], rule decodes_bind [OF decodes_u8],
        rule decodes_bind_return, rule decodes_u16)
  from decodesD [OF this, of "br_init (capability_bytes report)" "concat (map string_bytes ?bands)"]
  obtain r where r: "start (br_init (capability_bytes report)) =
      Inr ((cr_max_payload report, capability_flags report, of_nat (length ?bands)), r)"
    "br_rest r = concat (map string_bytes ?bands)"
    by (simp add: capability_bytes_def)
  have n: "unat (of_nat (length ?bands) :: u16) = length ?bands"
    using assms(1) by (simp add: max_capability_bands_def unat_of_nat_u16)
  have "read_capability_report (br_init (capability_bytes report)) =
      rd_bind (rd_repeat (length ?bands) (br_string 128)) (\<lambda>bands.
       rd_return \<lparr>cr_max_payload = cr_max_payload report, cr_compression = cr_compression report,
         cr_encryption = cr_encryption report, cr_gps_time = cr_gps_time report, cr_bands = bands\<rparr>) r"
    using r(1) counted [OF assms(1), of "''capability band''"] unfolding start_def read_capability_report_def
    by (auto simp: rd_bind_def rd_return_def n [unfolded unat_of_nat] n split: sum.splits)
  moreover have "rd_repeat (length ?bands) (br_string 128) r =
      (if \<forall>band \<in> set ?bands. length band \<le> 128
       then Inr (?bands, br_advance (length (concat (map string_bytes ?bands))) r) else Inl band_error)"
    by (rule read_bands [OF assms(2), of r "[]"]) (simp add: r)
  ultimately show ?thesis
    by (simp add: decode_capability_report_def read_whole_def rd_bind_def rd_return_def br_empty_rest r(2))
qed

text \<open>
  C30. Encoding and decoding of scalar observations, spectrum frames and control envelopes are exact
  inverses: a payload decodes to a value exactly when the value encodes to the payload. A capability
  report that encodes decodes to itself, unless one of its bands is longer than 128 characters, which
  the encoder accepts and the decoder refuses.
\<close>

theorem payload_codecs_exact:
  "(decode_scalar_observation bs = Inr ob \<longleftrightarrow> encode_scalar_observation ob = Inr bs) \<and>
   (decode_spectrum_frame bs = Inr frame \<longleftrightarrow> encode_spectrum_frame frame = Inr bs) \<and>
   (decode_control_envelope bs = Inr envelope \<longleftrightarrow> encode_control_envelope envelope = Inr bs) \<and>
   (encode_capability_report report = Inr bs \<longrightarrow>
      decode_capability_report bs =
        (if list_all (\<lambda>band. length band \<le> 128) (cr_bands report) then Inr report
         else Inl (Error EC_malformed_packet ''string exceeds configured limit'')))"
proof (intro conjI impI)
  assume "encode_capability_report report = Inr bs"
  then show "decode_capability_report bs =
        (if list_all (\<lambda>band. length band \<le> 128) (cr_bands report) then Inr report
         else Inl (Error EC_malformed_packet ''string exceeds configured limit''))"
    using decode_capability_bytes [of report] by (simp add: encode_capability_iff list_all_iff band_error_def)
qed (simp_all add: decode_scalar_observation_def scalar_codec.read_whole_iff encode_scalar_iff
    decode_spectrum_frame_def spectrum_codec.read_whole_iff encode_spectrum_iff
    decode_control_envelope_def control_codec.read_whole_iff encode_control_iff)

definition two_bands :: capability_report where
  "two_bands = \<lparr>cr_max_payload = 512, cr_compression = True, cr_encryption = False, cr_gps_time = True,
     cr_bands = [''uhf'', replicate 129 CHR ''x'']\<rparr>"

lemma payload_codecs_exact_witness:
  "\<exists>bs. encode_capability_report two_bands = Inr bs \<and>
     decode_capability_report bs = Inl (Error EC_malformed_packet ''string exceeds configured limit'')"
proof -
  have enc: "encode_capability_report two_bands = Inr (capability_bytes two_bands)"
    by (simp add: encode_capability_iff two_bands_def max_capability_bands_def)
  have "\<not> list_all (\<lambda>band. length band \<le> 128) (cr_bands two_bands)" by (simp add: two_bands_def)
  with enc payload_codecs_exact [of "capability_bytes two_bands" _ _ _ two_bands] show ?thesis by (intro exI conjI) auto
qed

lemma marker_format:
  assumes "p_payload packet \<noteq> []" and "hd (p_payload packet) = format_number format" and "format \<noteq> PF_unknown"
  shows "infer_payload_format packet = format"
  using assms by (cases "p_payload packet"; cases format) (simp_all add: infer_payload_format_def format_of_number_def word_le_nat_alt)

text \<open>
  A packet whose payload was written by one of the encoders is recognised and decoded to the value
  written, whatever the kind of the packet: the marker in front decides. The only warnings are those
  about the value.
\<close>

theorem packet_payload_decoded:
  assumes "encode_scalar_observation ob = Inr (p_payload packet1)"
    and "encode_spectrum_frame frame = Inr (p_payload packet2)"
    and "encode_control_envelope envelope = Inr (p_payload packet3)"
    and "encode_capability_report report = Inr (p_payload packet4)"
    and "list_all (\<lambda>band. length band \<le> 128) (cr_bands report)"
  shows "decode_packet_payload packet1 = \<lparr>dp_format = PF_scalar_observation, dp_scalar = Some ob,
       dp_spectrum = None, dp_control = None, dp_capabilities = None, dp_warnings = scalar_warnings ob\<rparr> \<and>
     decode_packet_payload packet2 = \<lparr>dp_format = PF_spectrum_frame, dp_scalar = None,
       dp_spectrum = Some frame, dp_control = None, dp_capabilities = None, dp_warnings = spectrum_warnings frame\<rparr> \<and>
     decode_packet_payload packet3 = \<lparr>dp_format = PF_control_envelope, dp_scalar = None,
       dp_spectrum = None, dp_control = Some envelope, dp_capabilities = None, dp_warnings = control_warnings envelope\<rparr> \<and>
     decode_packet_payload packet4 = \<lparr>dp_format = PF_capability_report, dp_scalar = None,
       dp_spectrum = None, dp_control = None, dp_capabilities = Some report, dp_warnings = capability_warnings report\<rparr>"
proof -
  have "decode_scalar_observation (p_payload packet1) = Inr ob"
    using assms(1) by (simp add: decode_scalar_observation_def scalar_codec.read_whole_iff encode_scalar_iff)
  moreover have "decode_spectrum_frame (p_payload packet2) = Inr frame"
    using assms(2) by (simp add: decode_spectrum_frame_def spectrum_codec.read_whole_iff encode_spectrum_iff)
  moreover have "decode_control_envelope (p_payload packet3) = Inr envelope"
    using assms(3) by (simp add: decode_control_envelope_def control_codec.read_whole_iff encode_control_iff)
  moreover have "decode_capability_report (p_payload packet4) = Inr report"
    using assms(4,5) decode_capability_bytes [of report] by (simp add: encode_capability_iff list_all_iff)
  moreover have bytes: "p_payload packet1 = scalar_bytes ob" "p_payload packet2 = spectrum_bytes frame"
    "p_payload packet3 = control_bytes envelope" "p_payload packet4 = capability_bytes report"
    using assms(1-4) by (auto simp: encode_scalar_iff encode_spectrum_iff encode_control_iff encode_capability_iff)
  moreover have ne: "scalar_bytes ob \<noteq> []" "spectrum_bytes frame \<noteq> []" "control_bytes envelope \<noteq> []"
    "capability_bytes report \<noteq> []"
    by (simp_all add: scalar_bytes_def spectrum_bytes_def control_bytes_def capability_bytes_def)
  moreover have "infer_payload_format packet1 = PF_scalar_observation" "infer_payload_format packet2 = PF_spectrum_frame"
    "infer_payload_format packet3 = PF_control_envelope" "infer_payload_format packet4 = PF_capability_report"
    by (rule marker_format; simp add: bytes ne; simp add: scalar_bytes_def spectrum_bytes_def control_bytes_def capability_bytes_def)+
  ultimately show ?thesis by (simp add: decode_packet_payload_def)
qed

definition carrying :: "bytes \<Rightarrow> packet" where
  "carrying bs = packet_default\<lparr>p_kind := PK_heartbeat, p_payload := bs\<rparr>"

lemma carrying_payload [simp]: "p_payload (carrying bs) = bs"
  by (simp add: carrying_def)

definition one_reading :: scalar_observation where
  "one_reading = \<lparr>so_sample_time_ns = 5, so_sample_rate_hz = 0, so_readings =
     [\<lparr>sr_channel = 1, sr_value = - 7, sr_scale = - 1, sr_quality = RQ_clipped\<rparr>]\<rparr>"

definition one_bin :: spectrum_frame where
  "one_bin = \<lparr>sf_center_frequency_hz = 868000000, sf_span_hz = 1000, sf_bin_width_hz = 10,
     sf_bins = [\<lparr>sb_power_dbm_x10 = - 900, sb_noise_dbm_x10 = - 1200\<rparr>]\<rparr>"

definition ping :: control_envelope where
  "ping = \<lparr>ce_command = 3, ce_flags = 0, ce_correlation_id = 9, ce_body = []\<rparr>"

lemma packet_payload_decoded_witness:
  "dp_scalar (decode_packet_payload (carrying (scalar_bytes one_reading))) = Some one_reading \<and>
   dp_warnings (decode_packet_payload (carrying (scalar_bytes one_reading))) =
     [''scalar observation has zero sample rate'', ''1 scalar readings have degraded quality''] \<and>
   dp_control (decode_packet_payload (carrying (control_bytes ping))) = Some ping"
proof -
  have "encode_scalar_observation one_reading = Inr (p_payload (carrying (scalar_bytes one_reading)))"
    by (simp add: encode_scalar_iff one_reading_def max_scalar_readings_def)
  moreover have "encode_spectrum_frame one_bin = Inr (p_payload (carrying (spectrum_bytes one_bin)))"
    by (simp add: encode_spectrum_iff one_bin_def max_spectrum_bins_def)
  moreover have "encode_control_envelope ping = Inr (p_payload (carrying (control_bytes ping)))"
    by (simp add: encode_control_iff ping_def max_control_body_def)
  moreover have "encode_capability_report (two_bands\<lparr>cr_bands := [''uhf'']\<rparr>) =
      Inr (p_payload (carrying (capability_bytes (two_bands\<lparr>cr_bands := [''uhf'']\<rparr>))))"
    by (simp add: encode_capability_iff max_capability_bands_def)
  moreover have "list_all (\<lambda>band. length band \<le> 128) (cr_bands (two_bands\<lparr>cr_bands := [''uhf'']\<rparr>))" by simp
  ultimately have "decode_packet_payload (carrying (scalar_bytes one_reading)) =
      \<lparr>dp_format = PF_scalar_observation, dp_scalar = Some one_reading, dp_spectrum = None, dp_control = None,
       dp_capabilities = None, dp_warnings = scalar_warnings one_reading\<rparr>"
    "decode_packet_payload (carrying (control_bytes ping)) =
      \<lparr>dp_format = PF_control_envelope, dp_scalar = None, dp_spectrum = None, dp_control = Some ping,
       dp_capabilities = None, dp_warnings = control_warnings ping\<rparr>"
    by (rule packet_payload_decoded [THEN conjunct1], rule packet_payload_decoded [THEN conjunct2, THEN conjunct2, THEN conjunct1])
  moreover have "scalar_warnings one_reading =
      [''scalar observation has zero sample rate'', ''1 scalar readings have degraded quality'']"
    by (simp add: scalar_warnings_def one_reading_def count_if_def dec_nat.simps [of "Suc 0"] digit_char_def char_of_def bit_0 bit_Suc)
  ultimately show ?thesis by simp
qed

end
