(* ===== verification/Dispatch.thy ===== *)
theory Dispatch
  imports Types
begin

text \<open>
  The runtime's glue between components: the event dispatcher
  (\<open>src/runtime/event_dispatcher.cpp\<close>) and the packet pipeline
  (\<open>src/runtime/pipeline.cpp\<close>). A handler is a function on the state of the world it acts on,
  and a pipeline step a function that may change the packet and the context.
\<close>

section \<open>EventDispatcher\<close>

datatype runtime_event_kind =
    RE_packet_received | RE_packet_archived | RE_session_event | RE_warning | RE_error

record runtime_event =
  re_kind :: runtime_event_kind
  re_time_ns :: u64
  re_message :: string
  re_packet :: packet

type_synonym 'w event_handler = "runtime_event \<Rightarrow> 'w \<Rightarrow> 'w"
type_synonym 'w event_dispatcher = "'w event_handler list"

definition ed_subscribe :: "'w event_handler \<Rightarrow> 'w event_dispatcher \<Rightarrow> 'w event_dispatcher" where
  "ed_subscribe handler handlers = handlers @ [handler]"

definition ed_publish :: "runtime_event \<Rightarrow> 'w event_dispatcher \<Rightarrow> 'w \<Rightarrow> 'w" where
  "ed_publish event handlers world = fold (\<lambda>handler. handler event) handlers world"

definition ed_subscriber_count :: "'w event_dispatcher \<Rightarrow> nat" where
  "ed_subscriber_count handlers = length handlers"

definition ed_clear :: "'w event_dispatcher \<Rightarrow> 'w event_dispatcher" where
  "ed_clear handlers = []"

definition runtime_event_kind_name :: "runtime_event_kind \<Rightarrow> string" where
  "runtime_event_kind_name kind = (case kind of
     RE_packet_received \<Rightarrow> ''packet_received''
   | RE_packet_archived \<Rightarrow> ''packet_archived''
   | RE_session_event \<Rightarrow> ''session_event''
   | RE_warning \<Rightarrow> ''warning''
   | RE_error \<Rightarrow> ''error'')"

definition render_runtime_event :: "runtime_event \<Rightarrow> string" where
  "render_runtime_event event =
     ''runtime_event '' @ runtime_event_kind_name (re_kind event) @
     '' time_ns='' @ dec (re_time_ns event) @
     '' device='' @ dec (p_device (re_packet event)) @
     '' sequence='' @ dec (p_sequence (re_packet event)) @
     (if re_message event \<noteq> [] then '' message='' @ dquote @ re_message event @ dquote else [])"

text \<open>With handlers that only log, every subscriber sees every event once, in subscription order.\<close>

lemma publish_logs:
  "ed_publish event (map (\<lambda>n e log. log @ [(n, e)]) names) log = log @ map (\<lambda>n. (n, event)) names"
  by (induction names arbitrary: log) (simp_all add: ed_publish_def)

section \<open>PacketPipeline\<close>

datatype pipeline_step_result = PR_continue_processing | PR_drop_packet | PR_stop_pipeline

record pipeline_context =
  pc_arrival_time_ns :: u64
  pc_notes :: "string list"

type_synonym pipeline_step =
  "packet \<Rightarrow> pipeline_context \<Rightarrow> pipeline_step_result \<times> packet \<times> pipeline_context"

type_synonym packet_pipeline = "(string \<times> pipeline_step) list"

record pipeline_run_result =
  pr_accepted :: bool
  pr_notes :: "string list"

definition pipeline_step_result_name :: "pipeline_step_result \<Rightarrow> string" where
  "pipeline_step_result_name result = (case result of
     PR_continue_processing \<Rightarrow> ''continue'' | PR_drop_packet \<Rightarrow> ''drop'' | PR_stop_pipeline \<Rightarrow> ''stop'')"

definition pp_add_step :: "string \<Rightarrow> pipeline_step \<Rightarrow> packet_pipeline \<Rightarrow> packet_pipeline" where
  "pp_add_step name step steps = steps @ [(name, step)]"

fun pp_run_steps ::
  "packet_pipeline \<Rightarrow> packet \<Rightarrow> pipeline_context \<Rightarrow> pipeline_run_result \<times> packet" where
  "pp_run_steps [] packet context = (\<lparr>pr_accepted = True, pr_notes = pc_notes context\<rparr>, packet)"
| "pp_run_steps ((name, step) # steps) packet context =
     (case step packet context of (result, packet, context) \<Rightarrow>
        let context = context\<lparr>pc_notes := pc_notes context @
              [name @ '': '' @ pipeline_step_result_name result]\<rparr>
        in if result = PR_drop_packet
           then (\<lparr>pr_accepted = False, pr_notes = pc_notes context\<rparr>, packet)
           else if result = PR_stop_pipeline
           then (\<lparr>pr_accepted = True, pr_notes = pc_notes context\<rparr>, packet)
           else pp_run_steps steps packet context)"

definition pp_run :: "packet_pipeline \<Rightarrow> packet \<Rightarrow> u64 \<Rightarrow> pipeline_run_result \<times> packet" where
  "pp_run steps packet arrival_time_ns =
     pp_run_steps steps packet \<lparr>pc_arrival_time_ns = arrival_time_ns, pc_notes = []\<rparr>"

definition pp_step_names :: "packet_pipeline \<Rightarrow> string list" where
  "pp_step_names steps = map fst steps"

definition pp_clear :: "packet_pipeline \<Rightarrow> packet_pipeline" where
  "pp_clear steps = []"

definition make_payload_limit_step :: "nat \<Rightarrow> pipeline_step" where
  "make_payload_limit_step max_payload_size packet context =
     (if length (p_payload packet) > max_payload_size
      then (PR_drop_packet, packet, context\<lparr>pc_notes := pc_notes context @ [''payload limit exceeded'']\<rparr>)
      else (PR_continue_processing, packet, context))"

text \<open>\<open>std::binary_search\<close> on the sorted vector answers membership.\<close>

definition make_device_allowlist_step :: "device_id list \<Rightarrow> pipeline_step" where
  "make_device_allowlist_step devices packet context =
     (if p_device packet \<notin> set (sort devices)
      then (PR_drop_packet, packet, context\<lparr>pc_notes := pc_notes context @ [''device is not in allowlist'']\<rparr>)
      else (PR_continue_processing, packet, context))"

definition render_pipeline_result :: "pipeline_run_result \<Rightarrow> string" where
  "render_pipeline_result result =
     ''pipeline_result'' @ newline @
     ''  accepted: '' @ yes_no (pr_accepted result) @ newline @
     concat (map (\<lambda>note. ''  note: '' @ note @ newline) (pr_notes result))"

text \<open>
  A packet is accepted exactly when the steps up to the first that does not continue contain
  no drop: a step that stops shields the packet from every later step.
\<close>

fun step_results :: "packet_pipeline \<Rightarrow> packet \<Rightarrow> pipeline_context \<Rightarrow> pipeline_step_result list" where
  "step_results [] packet context = []"
| "step_results ((name, step) # steps) packet context =
     (case step packet context of (result, packet, context) \<Rightarrow>
        result # (if result = PR_continue_processing
          then step_results steps packet (context\<lparr>pc_notes := pc_notes context @
                 [name @ '': '' @ pipeline_step_result_name result]\<rparr>) else []))"

lemma pipeline_accepts_iff:
  "pr_accepted (fst (pp_run steps packet t)) \<longleftrightarrow>
   PR_drop_packet \<notin> set (step_results steps packet \<lparr>pc_arrival_time_ns = t, pc_notes = []\<rparr>)"
proof -
  have "pr_accepted (fst (pp_run_steps steps p c)) \<longleftrightarrow> PR_drop_packet \<notin> set (step_results steps p c)" for p c
  proof (induction steps p c rule: pp_run_steps.induct)
    case (2 name step steps p c)
    obtain r p' c' where step: "step p c = (r, p', c')" by (cases "step p c")
    with 2 [OF step [symmetric] refl refl] show ?case
      by (cases r) (simp_all add: Let_def)
  qed simp
  then show ?thesis by (simp add: pp_run_def)
qed

lemma guarded_pipeline:
  "pr_accepted (fst (pp_run [(n1, make_payload_limit_step limit), (n2, make_device_allowlist_step devices)] p t)) \<longleftrightarrow>
   length (p_payload p) \<le> limit \<and> p_device p \<in> set devices"
  by (auto simp: pp_run_def make_payload_limit_step_def make_device_allowlist_step_def Let_def)

end
