(* ===== verification/Ingest_Queue.thy ===== *)
theory Ingest_Queue
  imports Dispatch Selection Ordered_Map "HOL-Library.Multiset"
begin

text \<open>
  The bounded ingest queue of \<open>src/runtime/ingest_queue.cpp\<close>. An iterator into the deque is an
  index, \<open>end()\<close> is the length. The calls of \<open>dispatcher_.publish\<close> are logged in order.
\<close>

section \<open>Data\<close>

datatype ingest_priority = IP_low | IP_normal | IP_high | IP_critical

datatype ingest_admission_status =
    IS_accepted | IS_rejected_closed | IS_rejected_empty_payload | IS_rejected_payload_too_large
  | IS_rejected_queue_full | IS_replaced_older_packet

datatype ingest_overflow_policy = OP_reject_new | OP_drop_oldest | OP_drop_lowest_priority | OP_replace_same_device

datatype ingest_drain_mode = DM_fifo | DM_highest_priority_first | DM_earliest_deadline_first

record ingest_queue_config =
  ic_max_packets :: nat
  ic_max_payload_bytes :: nat
  ic_max_packet_payload_bytes :: nat
  ic_overflow_policy :: ingest_overflow_policy
  ic_drain_mode :: ingest_drain_mode
  ic_reject_empty_payload :: bool
  ic_publish_events :: bool

definition ingest_queue_config_default :: ingest_queue_config where
  "ingest_queue_config_default =
     \<lparr>ic_max_packets = 1024, ic_max_payload_bytes = 16 * 1024 * 1024,
      ic_max_packet_payload_bytes = 256 * 1024, ic_overflow_policy = OP_reject_new,
      ic_drain_mode = DM_fifo, ic_reject_empty_payload = False, ic_publish_events = True\<rparr>"

record ingest_envelope =
  ie_packet :: packet
  ie_arrival_time_ns :: u64
  ie_deadline_ns :: u64
  ie_priority :: ingest_priority
  ie_source :: string

record ingest_admission =
  ia_status :: ingest_admission_status
  ia_reason :: string
  ia_evicted :: "packet option"
  ia_queue_size :: nat
  ia_payload_bytes :: nat

record ingest_drain_result =
  dr_packets :: "ingest_envelope list"
  dr_remaining_packets :: nat
  dr_remaining_payload_bytes :: nat

record device_state =
  ds_queued_packets :: nat
  ds_queued_payload_bytes :: nat
  ds_newest_sequence :: u64
  ds_last_arrival_time_ns :: u64
  ds_highest_priority :: ingest_priority

definition device_state_default :: device_state where
  "device_state_default = \<lparr>ds_queued_packets = 0, ds_queued_payload_bytes = 0, ds_newest_sequence = 0,
     ds_last_arrival_time_ns = 0, ds_highest_priority = IP_low\<rparr>"

record ingest_queue_stats =
  is_accepted :: u64
  is_rejected :: u64
  is_evicted :: u64
  is_drained :: u64
  is_closed_rejections :: u64
  is_payload_rejections :: u64
  is_capacity_rejections :: u64
  is_queued_packets :: nat
  is_queued_payload_bytes :: nat
  is_high_water_packets :: nat
  is_high_water_payload_bytes :: nat

record ingest_queue =
  iq_config :: ingest_queue_config
  iq_queue :: "ingest_envelope list"
  iq_devices :: "(device_id, device_state) omap"
  iq_stats :: ingest_queue_stats
  iq_events :: "runtime_event list"
  iq_closed :: bool

definition iq_init :: "ingest_queue_config \<Rightarrow> ingest_queue" where
  "iq_init config = \<lparr>iq_config = config, iq_queue = [], iq_devices = om_empty,
     iq_stats = \<lparr>is_accepted = 0, is_rejected = 0, is_evicted = 0, is_drained = 0,
       is_closed_rejections = 0, is_payload_rejections = 0, is_capacity_rejections = 0,
       is_queued_packets = 0, is_queued_payload_bytes = 0, is_high_water_packets = 0,
       is_high_water_payload_bytes = 0\<rparr>,
     iq_events = [], iq_closed = False\<rparr>"

section \<open>Comparisons and selection\<close>

definition priority_rank :: "ingest_priority \<Rightarrow> nat" where
  "priority_rank priority =
     (case priority of IP_low \<Rightarrow> 0 | IP_normal \<Rightarrow> 1 | IP_high \<Rightarrow> 2 | IP_critical \<Rightarrow> 3)"

definition deadline_less :: "ingest_envelope \<Rightarrow> ingest_envelope \<Rightarrow> bool" where
  "deadline_less lhs rhs =
     (if ie_deadline_ns lhs = 0 \<and> ie_deadline_ns rhs = 0 then False
      else if ie_deadline_ns lhs = 0 then False
      else if ie_deadline_ns rhs = 0 then True
      else ie_deadline_ns lhs < ie_deadline_ns rhs)"

definition lowest_priority_less :: "ingest_envelope \<Rightarrow> ingest_envelope \<Rightarrow> bool" where
  "lowest_priority_less lhs rhs =
     (if priority_rank (ie_priority lhs) \<noteq> priority_rank (ie_priority rhs)
      then priority_rank (ie_priority lhs) < priority_rank (ie_priority rhs)
      else ie_arrival_time_ns lhs < ie_arrival_time_ns rhs)"

definition highest_priority_less :: "ingest_envelope \<Rightarrow> ingest_envelope \<Rightarrow> bool" where
  "highest_priority_less lhs rhs =
     (if priority_rank (ie_priority lhs) \<noteq> priority_rank (ie_priority rhs)
      then priority_rank (ie_priority lhs) < priority_rank (ie_priority rhs)
      else ie_arrival_time_ns lhs > ie_arrival_time_ns rhs)"

definition earliest_deadline_less :: "ingest_envelope \<Rightarrow> ingest_envelope \<Rightarrow> bool" where
  "earliest_deadline_less lhs rhs =
     (if deadline_less lhs rhs then True
      else if deadline_less rhs lhs then False
      else ie_arrival_time_ns lhs < ie_arrival_time_ns rhs)"

definition payload_size :: "ingest_envelope \<Rightarrow> nat" where
  "payload_size envelope = length (p_payload (ie_packet envelope))"

definition iq_would_exceed_capacity :: "ingest_envelope \<Rightarrow> ingest_queue \<Rightarrow> bool" where
  "iq_would_exceed_capacity envelope q \<longleftrightarrow>
     length (iq_queue q) \<ge> ic_max_packets (iq_config q) \<or>
     is_queued_payload_bytes (iq_stats q) + payload_size envelope > ic_max_payload_bytes (iq_config q)"

fun same_device_candidate ::
  "device_id \<Rightarrow> nat \<Rightarrow> (nat \<times> ingest_envelope) option \<Rightarrow> ingest_envelope list \<Rightarrow> (nat \<times> ingest_envelope) option" where
  "same_device_candidate device i candidate [] = candidate"
| "same_device_candidate device i candidate (e # es) =
     (if p_device (ie_packet e) \<noteq> device then same_device_candidate device (i + 1) candidate es
      else case candidate of
        None \<Rightarrow> same_device_candidate device (i + 1) (Some (i, e)) es
      | Some (k, c) \<Rightarrow>
          if ie_arrival_time_ns e < ie_arrival_time_ns c
          then same_device_candidate device (i + 1) (Some (i, e)) es
          else same_device_candidate device (i + 1) candidate es)"

definition iq_select_overflow_victim :: "ingest_envelope \<Rightarrow> ingest_queue \<Rightarrow> nat" where
  "iq_select_overflow_victim incoming q =
     (if iq_queue q = [] then length (iq_queue q)
      else case ic_overflow_policy (iq_config q) of
        OP_reject_new \<Rightarrow> length (iq_queue q)
      | OP_drop_oldest \<Rightarrow> 0
      | OP_drop_lowest_priority \<Rightarrow> min_element lowest_priority_less (iq_queue q)
      | OP_replace_same_device \<Rightarrow>
          (case same_device_candidate (p_device (ie_packet incoming)) 0 None (iq_queue q) of
             None \<Rightarrow> length (iq_queue q) | Some (k, _) \<Rightarrow> k))"

definition iq_select_next :: "ingest_queue \<Rightarrow> nat" where
  "iq_select_next q =
     (if iq_queue q = [] then length (iq_queue q)
      else case ic_drain_mode (iq_config q) of
        DM_fifo \<Rightarrow> 0
      | DM_highest_priority_first \<Rightarrow> max_element highest_priority_less (iq_queue q)
      | DM_earliest_deadline_first \<Rightarrow> min_element earliest_deadline_less (iq_queue q))"

section \<open>Per-device state\<close>

definition widen_device_state :: "ingest_envelope \<Rightarrow> device_state \<Rightarrow> device_state" where
  "widen_device_state envelope state = state\<lparr>
     ds_queued_packets := ds_queued_packets state + 1,
     ds_queued_payload_bytes := ds_queued_payload_bytes state + payload_size envelope,
     ds_newest_sequence := max (ds_newest_sequence state) (ucast (p_sequence (ie_packet envelope))),
     ds_last_arrival_time_ns := max (ds_last_arrival_time_ns state) (ie_arrival_time_ns envelope),
     ds_highest_priority :=
       (if priority_rank (ie_priority envelope) > priority_rank (ds_highest_priority state)
        then ie_priority envelope else ds_highest_priority state)\<rparr>"

definition iq_add_device_state :: "ingest_envelope \<Rightarrow> ingest_queue \<Rightarrow> ingest_queue" where
  "iq_add_device_state envelope q =
     (let device = p_device (ie_packet envelope)
      in q\<lparr>iq_devices := om_update device
            (widen_device_state envelope (om_get device_state_default (iq_devices q) device)) (iq_devices q)\<rparr>)"

definition iq_rebuild_device_state :: "device_id \<Rightarrow> ingest_queue \<Rightarrow> ingest_queue" where
  "iq_rebuild_device_state device q =
     (let rebuilt = fold widen_device_state
            (filter (\<lambda>envelope. p_device (ie_packet envelope) = device) (iq_queue q)) device_state_default
      in if ds_queued_packets rebuilt = 0 then q\<lparr>iq_devices := om_delete device (iq_devices q)\<rparr>
         else q\<lparr>iq_devices := om_update device rebuilt (iq_devices q)\<rparr>)"

definition iq_subtract_device_state :: "ingest_envelope \<Rightarrow> ingest_queue \<Rightarrow> ingest_queue" where
  "iq_subtract_device_state envelope q =
     (let device = p_device (ie_packet envelope)
      in case om_lookup (iq_devices q) device of
        None \<Rightarrow> q
      | Some found \<Rightarrow>
          let state = found\<lparr>
                ds_queued_packets := (if ds_queued_packets found > 0 then ds_queued_packets found - 1
                  else ds_queued_packets found),
                ds_queued_payload_bytes := (if ds_queued_payload_bytes found \<ge> payload_size envelope
                  then ds_queued_payload_bytes found - payload_size envelope else 0)\<rparr>;
              q = q\<lparr>iq_devices := om_update device state (iq_devices q)\<rparr>
          in if ds_queued_packets state = 0 then q\<lparr>iq_devices := om_delete device (iq_devices q)\<rparr>
             else if ds_highest_priority state = ie_priority envelope
                \<or> ds_newest_sequence state = ucast (p_sequence (ie_packet envelope))
                \<or> ds_last_arrival_time_ns state = ie_arrival_time_ns envelope
             then iq_rebuild_device_state device q
             else q)"

section \<open>Operations\<close>

definition iq_publish :: "runtime_event_kind \<Rightarrow> ingest_envelope \<Rightarrow> string \<Rightarrow> ingest_queue \<Rightarrow> ingest_queue" where
  "iq_publish kind envelope message q =
     (if \<not> ic_publish_events (iq_config q) then q
      else q\<lparr>iq_events := iq_events q @
        [\<lparr>re_kind = kind, re_time_ns = ie_arrival_time_ns envelope, re_message = message,
          re_packet = ie_packet envelope\<rparr>]\<rparr>)"

definition set_queued :: "ingest_queue \<Rightarrow> ingest_queue" where
  "set_queued q = q\<lparr>iq_stats := (iq_stats q)\<lparr>is_queued_packets := length (iq_queue q)\<rparr>\<rparr>"

definition iq_insert :: "ingest_envelope \<Rightarrow> ingest_queue \<Rightarrow> ingest_queue" where
  "iq_insert envelope q =
     (let q = q\<lparr>iq_stats := (iq_stats q)\<lparr>is_queued_payload_bytes :=
            is_queued_payload_bytes (iq_stats q) + payload_size envelope\<rparr>\<rparr>;
          q = iq_add_device_state envelope q;
          q = set_queued (q\<lparr>iq_queue := iq_queue q @ [envelope]\<rparr>)
      in if ic_publish_events (iq_config q)
         then iq_publish RE_packet_received envelope ''ingest packet accepted'' q else q)"

definition remove_index :: "nat \<Rightarrow> 'a list \<Rightarrow> 'a list" where
  "remove_index k xs = take k xs @ drop (k + 1) xs"

definition iq_remove_at :: "nat \<Rightarrow> ingest_queue \<Rightarrow> ingest_queue" where
  "iq_remove_at k q =
     (if k = length (iq_queue q) then q
      else
        let envelope = iq_queue q ! k;
            bytes = is_queued_payload_bytes (iq_stats q);
            q = q\<lparr>iq_stats := (iq_stats q)\<lparr>is_queued_payload_bytes :=
                  (if bytes \<ge> payload_size envelope then bytes - payload_size envelope else 0)\<rparr>\<rparr>;
            q = iq_subtract_device_state envelope q
        in set_queued (q\<lparr>iq_queue := remove_index k (iq_queue q)\<rparr>))"

definition iq_update_high_water :: "ingest_queue \<Rightarrow> ingest_queue" where
  "iq_update_high_water q = q\<lparr>iq_stats := (iq_stats q)\<lparr>
     is_high_water_packets := max (is_high_water_packets (iq_stats q)) (length (iq_queue q)),
     is_high_water_payload_bytes :=
       max (is_high_water_payload_bytes (iq_stats q)) (is_queued_payload_bytes (iq_stats q))\<rparr>\<rparr>"

definition iq_reject :: "ingest_admission_status \<Rightarrow> string \<Rightarrow> ingest_queue \<Rightarrow> ingest_admission" where
  "iq_reject status reason q =
     \<lparr>ia_status = status, ia_reason = reason, ia_evicted = None,
      ia_queue_size = length (iq_queue q), ia_payload_bytes = is_queued_payload_bytes (iq_stats q)\<rparr>"

definition infer_ingest_priority :: "packet \<Rightarrow> ingest_priority" where
  "infer_ingest_priority packet =
     (if (case p_route packet of None \<Rightarrow> False | Some r \<Rightarrow> ri_priority r \<ge> 200) then IP_critical
      else if (case p_route packet of None \<Rightarrow> False | Some r \<Rightarrow> ri_priority r \<ge> 128) then IP_high
      else case p_kind packet of
        PK_control \<Rightarrow> IP_critical
      | PK_heartbeat \<Rightarrow> IP_high
      | PK_capabilities \<Rightarrow> IP_high
      | PK_spectrum \<Rightarrow> IP_normal
      | PK_observation \<Rightarrow> IP_normal)"

text \<open>The admission after the guards; \<open>victim\<close> is the index of the packet to evict, if any.\<close>

definition iq_admit ::
  "ingest_envelope \<Rightarrow> nat option \<Rightarrow> ingest_queue \<Rightarrow> ingest_admission \<times> ingest_queue" where
  "iq_admit envelope victim q0 =
     (let (evicted, status, q) =
        (case victim of
           None \<Rightarrow> (None, IS_accepted, q0)
         | Some k \<Rightarrow>
             let q = iq_remove_at k q0;
                 q = q\<lparr>iq_stats := (iq_stats q)\<lparr>is_evicted := is_evicted (iq_stats q) + 1\<rparr>\<rparr>
             in (Some (ie_packet (iq_queue q0 ! k)),
                 if ic_overflow_policy (iq_config q) = OP_replace_same_device
                 then IS_replaced_older_packet else IS_accepted, q));
          q = iq_insert envelope q;
          q = q\<lparr>iq_stats := (iq_stats q)\<lparr>is_accepted := is_accepted (iq_stats q) + 1\<rparr>\<rparr>;
          q = iq_update_high_water q
      in (\<lparr>ia_status = status,
           ia_reason = (if status = IS_accepted then ''accepted'' else ''accepted after replacing older packet''),
           ia_evicted = evicted, ia_queue_size = length (iq_queue q),
           ia_payload_bytes = is_queued_payload_bytes (iq_stats q)\<rparr>, q))"

definition iq_push :: "ingest_envelope \<Rightarrow> ingest_queue \<Rightarrow> ingest_admission \<times> ingest_queue" where
  "iq_push envelope q =
     (if iq_closed q
      then let q = q\<lparr>iq_stats := (iq_stats q)\<lparr>is_rejected := is_rejected (iq_stats q) + 1,
                 is_closed_rejections := is_closed_rejections (iq_stats q) + 1\<rparr>\<rparr>
           in (iq_reject IS_rejected_closed ''ingest queue is closed'' q, q)
      else if ic_reject_empty_payload (iq_config q) \<and> p_payload (ie_packet envelope) = []
      then let q = q\<lparr>iq_stats := (iq_stats q)\<lparr>is_rejected := is_rejected (iq_stats q) + 1,
                 is_payload_rejections := is_payload_rejections (iq_stats q) + 1\<rparr>\<rparr>
           in (iq_reject IS_rejected_empty_payload ''packet payload is empty'' q, q)
      else if payload_size envelope > ic_max_packet_payload_bytes (iq_config q)
      then let q = q\<lparr>iq_stats := (iq_stats q)\<lparr>is_rejected := is_rejected (iq_stats q) + 1,
                 is_payload_rejections := is_payload_rejections (iq_stats q) + 1\<rparr>\<rparr>
           in (iq_reject IS_rejected_payload_too_large ''packet payload exceeds per-packet limit'' q, q)
      else
        let envelope = (if ie_priority envelope = IP_normal
              then envelope\<lparr>ie_priority := infer_ingest_priority (ie_packet envelope)\<rparr> else envelope)
        in if iq_would_exceed_capacity envelope q
           then let victim = iq_select_overflow_victim envelope q
                in if victim = length (iq_queue q)
                   then let q = q\<lparr>iq_stats := (iq_stats q)\<lparr>is_rejected := is_rejected (iq_stats q) + 1,
                              is_capacity_rejections := is_capacity_rejections (iq_stats q) + 1\<rparr>\<rparr>
                        in (iq_reject IS_rejected_queue_full ''ingest queue capacity reached'' q, q)
                   else iq_admit envelope (Some victim) q
           else iq_admit envelope None q)"

definition iq_peek :: "ingest_queue \<Rightarrow> ingest_envelope option" where
  "iq_peek q = (if iq_queue q = [] then None else Some (iq_queue q ! iq_select_next q))"

definition iq_pop :: "ingest_queue \<Rightarrow> ingest_envelope option \<times> ingest_queue" where
  "iq_pop q =
     (if iq_queue q = [] then (None, q)
      else
        let selected = iq_select_next q; envelope = iq_queue q ! selected;
            q = iq_remove_at selected q;
            q = q\<lparr>iq_stats := (iq_stats q)\<lparr>is_drained := is_drained (iq_stats q) + 1\<rparr>\<rparr>
        in (Some envelope, iq_publish RE_packet_received envelope ''ingest packet drained'' q))"

fun iq_drain_loop :: "nat \<Rightarrow> ingest_queue \<Rightarrow> ingest_envelope list \<times> ingest_queue" where
  "iq_drain_loop 0 q = ([], q)"
| "iq_drain_loop (Suc n) q =
     (case iq_pop q of
        (None, q) \<Rightarrow> ([], q)
      | (Some next, q) \<Rightarrow> (let (packets, q) = iq_drain_loop n q in (next # packets, q)))"

definition drain_result :: "ingest_envelope list \<times> ingest_queue \<Rightarrow> ingest_drain_result \<times> ingest_queue" where
  "drain_result r = (case r of (packets, q) \<Rightarrow>
     (\<lparr>dr_packets = packets, dr_remaining_packets = length (iq_queue q),
       dr_remaining_payload_bytes = is_queued_payload_bytes (iq_stats q)\<rparr>, q))"

definition iq_drain :: "nat \<Rightarrow> ingest_queue \<Rightarrow> ingest_drain_result \<times> ingest_queue" where
  "iq_drain max_packets q = drain_result (iq_drain_loop max_packets q)"

definition iq_close :: "ingest_queue \<Rightarrow> ingest_queue" where
  "iq_close q = q\<lparr>iq_closed := True\<rparr>"

definition iq_reopen :: "ingest_queue \<Rightarrow> ingest_queue" where
  "iq_reopen q = q\<lparr>iq_closed := False\<rparr>"

definition iq_clear :: "ingest_queue \<Rightarrow> ingest_queue" where
  "iq_clear q = q\<lparr>iq_queue := [], iq_devices := om_empty,
     iq_stats := (iq_stats q)\<lparr>is_queued_packets := 0, is_queued_payload_bytes := 0\<rparr>\<rparr>"

definition iq_statistics :: "ingest_queue \<Rightarrow> ingest_queue_stats" where
  "iq_statistics q = (iq_stats q)\<lparr>is_queued_packets := length (iq_queue q)\<rparr>"

definition iq_device_snapshots :: "ingest_queue \<Rightarrow> (device_id \<times> device_state) list" where
  "iq_device_snapshots q = om_entries (iq_devices q)"

section \<open>What the steps change\<close>

lemma select_next_bound: "iq_queue q \<noteq> [] \<Longrightarrow> iq_select_next q < length (iq_queue q)"
  by (simp add: iq_select_next_def min_element_bound max_element_bound split: ingest_drain_mode.split)

lemma candidate_bound:
  "same_device_candidate d i c es = Some (k, e) \<Longrightarrow> (\<forall>j x. c = Some (j, x) \<longrightarrow> j < i) \<Longrightarrow> k < i + length es"
  by (induction d i c es rule: same_device_candidate.induct) (fastforce split: if_splits option.splits)+

lemma victim_bound: "iq_queue q \<noteq> [] \<Longrightarrow> iq_select_overflow_victim e q \<le> length (iq_queue q)"
  using candidate_bound [of _ 0 None "iq_queue q"] min_element_bound [of "iq_queue q" lowest_priority_less]
  by (auto simp: iq_select_overflow_victim_def less_imp_le split: ingest_overflow_policy.split option.split)

lemma victim_valid:
  "iq_select_overflow_victim e q \<noteq> length (iq_queue q) \<Longrightarrow> iq_select_overflow_victim e q < length (iq_queue q)"
  using victim_bound [of q e] by (cases "iq_queue q = []") (auto simp: iq_select_overflow_victim_def)

lemma remove_index_length: "k < length xs \<Longrightarrow> length (remove_index k xs) = length xs - 1"
  by (simp add: remove_index_def)

lemma remove_index_split: "k < length xs \<Longrightarrow> xs = take k xs @ xs ! k # drop (k + 1) xs"
  by (simp add: id_take_nth_drop)

lemma remove_index_mset: "k < length xs \<Longrightarrow> add_mset (xs ! k) (mset (remove_index k xs)) = mset xs"
proof -
  assume "k < length xs"
  from arg_cong [OF remove_index_split [OF this], of mset] show ?thesis
    by (simp add: remove_index_def)
qed

lemma set_remove_index: "set (remove_index k xs) \<subseteq> set xs"
  by (auto simp: remove_index_def dest: in_set_takeD in_set_dropD)

lemma sum_remove_index: "k < length xs \<Longrightarrow> (\<Sum>x\<leftarrow>remove_index k xs. f x) + f (xs ! k) = (\<Sum>x\<leftarrow>xs. f x :: nat)"
proof -
  assume "k < length xs"
  from arg_cong [OF remove_index_split [OF this], of "\<lambda>xs. \<Sum>x\<leftarrow>xs. f x"] show ?thesis
    by (simp add: remove_index_def)
qed

lemma subtract_frame [simp]:
  "iq_queue (iq_subtract_device_state e q) = iq_queue q" "iq_stats (iq_subtract_device_state e q) = iq_stats q"
  "iq_config (iq_subtract_device_state e q) = iq_config q" "iq_closed (iq_subtract_device_state e q) = iq_closed q"
  by (simp_all add: iq_subtract_device_state_def iq_rebuild_device_state_def Let_def split: option.split)

lemma remove_frame [simp]:
  "k < length (iq_queue q) \<Longrightarrow> iq_queue (iq_remove_at k q) = remove_index k (iq_queue q)"
  "iq_config (iq_remove_at k q) = iq_config q" "iq_closed (iq_remove_at k q) = iq_closed q"
  by (simp_all add: iq_remove_at_def set_queued_def Let_def)

lemma insert_frame [simp]:
  "iq_queue (iq_insert e q) = iq_queue q @ [e]" "iq_config (iq_insert e q) = iq_config q"
  "iq_stats (iq_insert e q) = (iq_stats q)\<lparr>
     is_queued_payload_bytes := is_queued_payload_bytes (iq_stats q) + payload_size e,
     is_queued_packets := length (iq_queue q) + 1\<rparr>"
  by (simp_all add: iq_insert_def iq_add_device_state_def set_queued_def iq_publish_def Let_def)

lemma publish_frame [simp]:
  "iq_queue (iq_publish kind e m q) = iq_queue q" "iq_stats (iq_publish kind e m q) = iq_stats q"
  "iq_config (iq_publish kind e m q) = iq_config q" "iq_devices (iq_publish kind e m q) = iq_devices q"
  by (simp_all add: iq_publish_def)

lemma pop_shrinks: "iq_pop q = (Some e, q') \<Longrightarrow> length (iq_queue q') < length (iq_queue q)"
  using select_next_bound [of q] by (auto simp: iq_pop_def Let_def remove_index_length split: if_splits)

function iq_budget_loop ::
  "nat \<Rightarrow> nat \<Rightarrow> bool \<Rightarrow> ingest_queue \<Rightarrow> ingest_envelope list \<times> ingest_queue" where
  "iq_budget_loop max_payload_bytes used first q =
     (case iq_peek q of
        None \<Rightarrow> ([], q)
      | Some next \<Rightarrow>
          if \<not> first \<and> used + payload_size next > max_payload_bytes then ([], q)
          else if first \<and> payload_size next > max_payload_bytes then ([], q)
          else case iq_pop q of
            (None, q) \<Rightarrow> ([], q)
          | (Some removed, q) \<Rightarrow>
              (let (packets, q) = iq_budget_loop max_payload_bytes (used + payload_size next) False q
               in (removed # packets, q)))"
  by pat_completeness auto
termination
  by (relation "measure (\<lambda>(_, _, _, q). length (iq_queue q))") (auto dest: pop_shrinks [OF sym])

declare iq_budget_loop.simps [simp del]

definition iq_drain_payload_budget :: "nat \<Rightarrow> ingest_queue \<Rightarrow> ingest_drain_result \<times> ingest_queue" where
  "iq_drain_payload_budget max_payload_bytes q = drain_result (iq_budget_loop max_payload_bytes 0 True q)"

section \<open>Names and rendering\<close>

definition packet_label :: "packet \<Rightarrow> string" where
  "packet_label packet = ''device='' @ dec (p_device packet) @ '' sequence='' @ dec (p_sequence packet)"

definition ingest_priority_name :: "ingest_priority \<Rightarrow> string" where
  "ingest_priority_name priority = (case priority of
     IP_low \<Rightarrow> ''low'' | IP_normal \<Rightarrow> ''normal'' | IP_high \<Rightarrow> ''high'' | IP_critical \<Rightarrow> ''critical'')"

definition ingest_admission_status_name :: "ingest_admission_status \<Rightarrow> string" where
  "ingest_admission_status_name status = (case status of
     IS_accepted \<Rightarrow> ''accepted''
   | IS_rejected_closed \<Rightarrow> ''rejected_closed''
   | IS_rejected_empty_payload \<Rightarrow> ''rejected_empty_payload''
   | IS_rejected_payload_too_large \<Rightarrow> ''rejected_payload_too_large''
   | IS_rejected_queue_full \<Rightarrow> ''rejected_queue_full''
   | IS_replaced_older_packet \<Rightarrow> ''replaced_older_packet'')"

definition ingest_overflow_policy_name :: "ingest_overflow_policy \<Rightarrow> string" where
  "ingest_overflow_policy_name policy = (case policy of
     OP_reject_new \<Rightarrow> ''reject_new''
   | OP_drop_oldest \<Rightarrow> ''drop_oldest''
   | OP_drop_lowest_priority \<Rightarrow> ''drop_lowest_priority''
   | OP_replace_same_device \<Rightarrow> ''replace_same_device'')"

definition ingest_drain_mode_name :: "ingest_drain_mode \<Rightarrow> string" where
  "ingest_drain_mode_name mode = (case mode of
     DM_fifo \<Rightarrow> ''fifo''
   | DM_highest_priority_first \<Rightarrow> ''highest_priority_first''
   | DM_earliest_deadline_first \<Rightarrow> ''earliest_deadline_first'')"

definition render_ingest_admission :: "ingest_admission \<Rightarrow> string" where
  "render_ingest_admission admission =
     ''ingest_admission'' @ newline @
     ''  status: '' @ ingest_admission_status_name (ia_status admission) @ newline @
     ''  reason: '' @ ia_reason admission @ newline @
     ''  queue_size: '' @ dec_nat (ia_queue_size admission) @ newline @
     ''  payload_bytes: '' @ dec_nat (ia_payload_bytes admission) @ newline @
     (case ia_evicted admission of None \<Rightarrow> []
      | Some packet \<Rightarrow> ''  evicted: '' @ packet_label packet @ newline)"

definition render_ingest_queue_stats :: "ingest_queue_stats \<Rightarrow> string" where
  "render_ingest_queue_stats stats =
     ''ingest_queue_stats'' @ newline @
     ''  accepted: '' @ dec (is_accepted stats) @ newline @
     ''  rejected: '' @ dec (is_rejected stats) @ newline @
     ''  evicted: '' @ dec (is_evicted stats) @ newline @
     ''  drained: '' @ dec (is_drained stats) @ newline @
     ''  queued_packets: '' @ dec_nat (is_queued_packets stats) @ newline @
     ''  queued_payload_bytes: '' @ dec_nat (is_queued_payload_bytes stats) @ newline @
     ''  high_water_packets: '' @ dec_nat (is_high_water_packets stats) @ newline @
     ''  high_water_payload_bytes: '' @ dec_nat (is_high_water_payload_bytes stats) @ newline"

section \<open>Invariant\<close>

definition queued_bytes :: "ingest_queue \<Rightarrow> nat" where
  "queued_bytes q = (\<Sum>e\<leftarrow>iq_queue q. payload_size e)"

definition iq_inv :: "ingest_queue \<Rightarrow> bool" where
  "iq_inv q \<longleftrightarrow>
     is_queued_payload_bytes (iq_stats q) = queued_bytes q \<and>
     is_queued_packets (iq_stats q) = length (iq_queue q) \<and>
     length (iq_queue q) \<le> ic_max_packets (iq_config q) \<and>
     (\<forall>e \<in> set (iq_queue q). payload_size e \<le> ic_max_packet_payload_bytes (iq_config q)) \<and>
     length (iq_queue q) \<le> is_high_water_packets (iq_stats q) \<and>
     queued_bytes q \<le> is_high_water_payload_bytes (iq_stats q) \<and>
     (ic_overflow_policy (iq_config q) = OP_reject_new \<longrightarrow> queued_bytes q \<le> ic_max_payload_bytes (iq_config q))"

text \<open>Everything that was accepted is drained, evicted or still queued.\<close>

definition iq_conserved :: "ingest_queue \<Rightarrow> bool" where
  "iq_conserved q \<longleftrightarrow>
     is_accepted (iq_stats q) = is_drained (iq_stats q) + is_evicted (iq_stats q) + of_nat (length (iq_queue q))"

lemma remove_stats:
  assumes "iq_inv q" and "k < length (iq_queue q)"
  shows "iq_stats (iq_remove_at k q) = (iq_stats q)\<lparr>
      is_queued_payload_bytes := queued_bytes (iq_remove_at k q),
      is_queued_packets := length (iq_queue q) - 1\<rparr>"
    and "queued_bytes (iq_remove_at k q) + payload_size (iq_queue q ! k) = queued_bytes q"
proof -
  show eq: "queued_bytes (iq_remove_at k q) + payload_size (iq_queue q ! k) = queued_bytes q"
    using assms(2) by (simp add: queued_bytes_def sum_remove_index)
  then have "payload_size (iq_queue q ! k) \<le> queued_bytes q" "queued_bytes (iq_remove_at k q) = queued_bytes q - payload_size (iq_queue q ! k)"
    by simp_all
  with assms show "iq_stats (iq_remove_at k q) = (iq_stats q)\<lparr>
      is_queued_payload_bytes := queued_bytes (iq_remove_at k q),
      is_queued_packets := length (iq_queue q) - 1\<rparr>"
    by (simp add: iq_remove_at_def set_queued_def Let_def iq_inv_def remove_index_length)
qed

lemma inv_remove:
  assumes "iq_inv q" and "k < length (iq_queue q)"
  shows "iq_inv (iq_remove_at k q)"
  using assms remove_stats [OF assms] set_remove_index [of k "iq_queue q"]
  by (auto simp: iq_inv_def remove_index_length)

lemma inv_stats_update:
  "iq_inv q \<Longrightarrow> is_queued_payload_bytes s = is_queued_payload_bytes (iq_stats q) \<Longrightarrow>
   is_queued_packets s = is_queued_packets (iq_stats q) \<Longrightarrow>
   is_high_water_packets s = is_high_water_packets (iq_stats q) \<Longrightarrow>
   is_high_water_payload_bytes s = is_high_water_payload_bytes (iq_stats q) \<Longrightarrow> iq_inv (q\<lparr>iq_stats := s\<rparr>)"
  by (simp add: iq_inv_def queued_bytes_def)

lemma inv_admit_plain:
  assumes inv: "iq_inv q" and small: "payload_size e \<le> ic_max_packet_payload_bytes (iq_config q)"
    and room: "length (iq_queue q) < ic_max_packets (iq_config q)"
    and bytes: "ic_overflow_policy (iq_config q) = OP_reject_new \<longrightarrow>
      queued_bytes q + payload_size e \<le> ic_max_payload_bytes (iq_config q)"
  shows "iq_inv (snd (iq_admit e None q))"
  using assms
  by (auto simp: iq_admit_def iq_update_high_water_def iq_inv_def queued_bytes_def Let_def)

lemma inv_admit_victim:
  assumes "iq_inv q" and "k < length (iq_queue q)"
    and "payload_size e \<le> ic_max_packet_payload_bytes (iq_config q)"
    and "ic_overflow_policy (iq_config q) \<noteq> OP_reject_new"
  shows "iq_inv (snd (iq_admit e (Some k) q))"
proof -
  let ?q = "(iq_remove_at k q)\<lparr>iq_stats := (iq_stats (iq_remove_at k q))\<lparr>is_evicted := is_evicted (iq_stats (iq_remove_at k q)) + 1\<rparr>\<rparr>"
  have inv: "iq_inv ?q"
    by (rule inv_stats_update [OF inv_remove [OF assms(1,2)]]) simp_all
  have "length (iq_queue ?q) < ic_max_packets (iq_config ?q)"
    using assms(1,2) by (auto simp: iq_inv_def remove_index_length)
  then have "iq_inv (snd (iq_admit e None ?q))"
    by (intro inv_admit_plain inv) (use assms in simp_all)
  then show ?thesis by (simp add: iq_admit_def Let_def)
qed

lemma payload_size_priority [simp]: "payload_size (e\<lparr>ie_priority := p\<rparr>) = payload_size e"
  by (simp add: payload_size_def)

lemma reject_policy_no_victim:
  "iq_select_overflow_victim e q \<noteq> length (iq_queue q) \<Longrightarrow> ic_overflow_policy (iq_config q) \<noteq> OP_reject_new"
  by (auto simp: iq_select_overflow_victim_def split: if_splits)

text \<open>The outcomes of \<open>push\<close>: only rejection counters change, or the envelope is admitted.\<close>

definition only_rejections :: "ingest_queue_stats \<Rightarrow> ingest_queue_stats \<Rightarrow> bool" where
  "only_rejections s s' \<longleftrightarrow>
     is_accepted s' = is_accepted s \<and> is_evicted s' = is_evicted s \<and> is_drained s' = is_drained s \<and>
     is_queued_packets s' = is_queued_packets s \<and> is_queued_payload_bytes s' = is_queued_payload_bytes s \<and>
     is_high_water_packets s' = is_high_water_packets s \<and>
     is_high_water_payload_bytes s' = is_high_water_payload_bytes s"

definition prioritized :: "ingest_envelope \<Rightarrow> ingest_envelope" where
  "prioritized envelope = (if ie_priority envelope = IP_normal
     then envelope\<lparr>ie_priority := infer_ingest_priority (ie_packet envelope)\<rparr> else envelope)"

lemma payload_size_prioritized [simp]: "payload_size (prioritized e) = payload_size e"
  by (simp add: prioritized_def)

definition count_rejection ::
  "(ingest_queue_stats \<Rightarrow> ingest_queue_stats) \<Rightarrow> ingest_admission_status \<Rightarrow> string \<Rightarrow> ingest_queue \<Rightarrow>
   ingest_admission \<times> ingest_queue" where
  "count_rejection f status reason q =
     (let q = q\<lparr>iq_stats := f ((iq_stats q)\<lparr>is_rejected := is_rejected (iq_stats q) + 1\<rparr>)\<rparr>
      in (iq_reject status reason q, q))"

lemma iq_push_rejects:
  "iq_closed q \<Longrightarrow> iq_push e q = count_rejection
     (\<lambda>s. s\<lparr>is_closed_rejections := is_closed_rejections s + 1\<rparr>) IS_rejected_closed ''ingest queue is closed'' q"
  "\<lbrakk>\<not> iq_closed q; ic_reject_empty_payload (iq_config q) \<and> p_payload (ie_packet e) = []\<rbrakk> \<Longrightarrow>
   iq_push e q = count_rejection (\<lambda>s. s\<lparr>is_payload_rejections := is_payload_rejections s + 1\<rparr>)
     IS_rejected_empty_payload ''packet payload is empty'' q"
  "\<lbrakk>\<not> iq_closed q; \<not> (ic_reject_empty_payload (iq_config q) \<and> p_payload (ie_packet e) = []);
    payload_size e > ic_max_packet_payload_bytes (iq_config q)\<rbrakk> \<Longrightarrow>
   iq_push e q = count_rejection (\<lambda>s. s\<lparr>is_payload_rejections := is_payload_rejections s + 1\<rparr>)
     IS_rejected_payload_too_large ''packet payload exceeds per-packet limit'' q"
  "\<lbrakk>\<not> iq_closed q; \<not> (ic_reject_empty_payload (iq_config q) \<and> p_payload (ie_packet e) = []);
    \<not> payload_size e > ic_max_packet_payload_bytes (iq_config q);
    iq_would_exceed_capacity (prioritized e) q; iq_select_overflow_victim (prioritized e) q = length (iq_queue q)\<rbrakk> \<Longrightarrow>
   iq_push e q = count_rejection (\<lambda>s. s\<lparr>is_capacity_rejections := is_capacity_rejections s + 1\<rparr>)
     IS_rejected_queue_full ''ingest queue capacity reached'' q"
  unfolding iq_push_def count_rejection_def Let_def prioritized_def [symmetric] by simp_all blast+

lemma iq_push_admits:
  assumes "\<not> iq_closed q" "\<not> (ic_reject_empty_payload (iq_config q) \<and> p_payload (ie_packet e) = [])"
    "\<not> payload_size e > ic_max_packet_payload_bytes (iq_config q)"
  shows "\<not> iq_would_exceed_capacity (prioritized e) q \<Longrightarrow> iq_push e q = iq_admit (prioritized e) None q"
    "\<lbrakk>iq_would_exceed_capacity (prioritized e) q;
      iq_select_overflow_victim (prioritized e) q \<noteq> length (iq_queue q)\<rbrakk> \<Longrightarrow>
     iq_push e q = iq_admit (prioritized e) (Some (iq_select_overflow_victim (prioritized e) q)) q"
  using assms unfolding iq_push_def Let_def prioritized_def [symmetric] by simp_all blast+

lemma count_rejection_frame:
  "(\<And>s. only_rejections s (f s)) \<Longrightarrow> status \<notin> {IS_accepted, IS_replaced_older_packet} \<Longrightarrow>
   \<exists>s. snd (count_rejection f status reason q) = q\<lparr>iq_stats := s\<rparr> \<and> only_rejections (iq_stats q) s \<and>
     ia_status (fst (count_rejection f status reason q)) \<notin> {IS_accepted, IS_replaced_older_packet}"
  by (intro exI [of _ "f ((iq_stats q)\<lparr>is_rejected := is_rejected (iq_stats q) + 1\<rparr>)"])
    (simp add: count_rejection_def Let_def iq_reject_def only_rejections_def)

lemma iq_push_cases:
  obtains (rejected) s where "snd (iq_push e q) = q\<lparr>iq_stats := s\<rparr>" "only_rejections (iq_stats q) s"
      "ia_status (fst (iq_push e q)) \<notin> {IS_accepted, IS_replaced_older_packet}"
  | (admitted) "iq_push e q = iq_admit (prioritized e) None q" "\<not> iq_closed q"
      "\<not> iq_would_exceed_capacity (prioritized e) q"
      "payload_size e \<le> ic_max_packet_payload_bytes (iq_config q)"
  | (evicting) k where "iq_push e q = iq_admit (prioritized e) (Some k) q" "\<not> iq_closed q"
      "k < length (iq_queue q)" "ic_overflow_policy (iq_config q) \<noteq> OP_reject_new"
      "payload_size e \<le> ic_max_packet_payload_bytes (iq_config q)"
      "k = iq_select_overflow_victim (prioritized e) q"
proof -
  have rej: thesis if "iq_push e q = count_rejection f status reason q" "\<And>s. only_rejections s (f s)"
    "status \<notin> {IS_accepted, IS_replaced_older_packet}" for f status reason
    using count_rejection_frame [OF that(2,3), of reason q] rejected unfolding that(1) by blast
  let ?k = "iq_select_overflow_victim (prioritized e) q"
  consider (closed) "iq_closed q"
    | (empty) "\<not> iq_closed q" "ic_reject_empty_payload (iq_config q) \<and> p_payload (ie_packet e) = []"
    | (large) "\<not> iq_closed q" "\<not> (ic_reject_empty_payload (iq_config q) \<and> p_payload (ie_packet e) = [])"
        "payload_size e > ic_max_packet_payload_bytes (iq_config q)"
    | (valid) "\<not> iq_closed q" "\<not> (ic_reject_empty_payload (iq_config q) \<and> p_payload (ie_packet e) = [])"
        "\<not> payload_size e > ic_max_packet_payload_bytes (iq_config q)"
    by blast
  then show ?thesis
  proof cases
    case valid
    show ?thesis
    proof (cases "iq_would_exceed_capacity (prioritized e) q")
      case False
      with valid show ?thesis
        by (intro admitted iq_push_admits) simp_all
    next
      case True
      show ?thesis
      proof (cases "?k = length (iq_queue q)")
        case full: True
        show ?thesis
          by (rule rej [OF iq_push_rejects(4) [OF valid True full]]) (simp_all add: only_rejections_def)
      next
        case False
        have "iq_push e q = iq_admit (prioritized e) (Some ?k) q"
          using valid True False by (intro iq_push_admits) simp_all
        then show ?thesis
          using valid victim_valid [OF False] reject_policy_no_victim [OF False]
          by (intro evicting) simp_all
      qed
    qed
  qed (rule rej, rule iq_push_rejects; simp add: only_rejections_def)+
qed

lemma inv_push: "iq_inv q \<Longrightarrow> iq_inv (snd (iq_push e q))"
proof (cases rule: iq_push_cases [of e q])
  case (rejected s)
  assume "iq_inv q"
  with rejected show ?thesis
    by (simp add: only_rejections_def inv_stats_update)
next
  case admitted
  assume inv: "iq_inv q"
  with admitted show ?thesis
    by (auto simp: iq_would_exceed_capacity_def not_le not_less iq_inv_def [of q] intro!: inv_admit_plain)
next
  case (evicting k)
  assume "iq_inv q"
  with evicting show ?thesis by (simp add: inv_admit_victim)
qed

lemma inv_pop: "iq_inv q \<Longrightarrow> iq_inv (snd (iq_pop q))"
proof (cases "iq_queue q = []")
  case False
  assume inv: "iq_inv q"
  let ?r = "iq_remove_at (iq_select_next q) q"
  have "iq_inv (?r\<lparr>iq_stats := (iq_stats ?r)\<lparr>is_drained := is_drained (iq_stats ?r) + 1\<rparr>\<rparr>)"
    by (rule inv_stats_update [OF inv_remove [OF inv select_next_bound [OF False]]]) simp_all
  then show ?thesis
    using False by (simp add: iq_pop_def Let_def iq_inv_def queued_bytes_def)
qed (simp add: iq_pop_def)

lemma inv_clear: "iq_inv q \<Longrightarrow> iq_inv (iq_clear q)"
  by (simp add: iq_inv_def iq_clear_def queued_bytes_def)

lemma inv_closing: "iq_inv (iq_close q) = iq_inv q" "iq_inv (iq_reopen q) = iq_inv q"
  by (simp_all add: iq_inv_def iq_close_def iq_reopen_def queued_bytes_def)

datatype iq_call = IQ_push ingest_envelope | IQ_pop | IQ_close | IQ_reopen | IQ_clear

fun iq_step :: "iq_call \<Rightarrow> ingest_queue \<Rightarrow> ingest_queue" where
  "iq_step (IQ_push e) q = snd (iq_push e q)"
| "iq_step IQ_pop q = snd (iq_pop q)"
| "iq_step IQ_close q = iq_close q"
| "iq_step IQ_reopen q = iq_reopen q"
| "iq_step IQ_clear q = iq_clear q"

interpretation ingest: state_machine "iq_init config" iq_step iq_inv for config
proof
  show "iq_inv (iq_init config)"
    by (simp add: iq_inv_def iq_init_def queued_bytes_def)
  show "iq_inv (iq_step e q)" if "iq_inv q" for e q
    using that by (cases e) (simp_all add: inv_push inv_pop inv_clear inv_closing)
qed

section \<open>Conservation\<close>

lemma admit_counts:
  "is_accepted (iq_stats (snd (iq_admit e None q))) = is_accepted (iq_stats q) + 1"
  "is_drained (iq_stats (snd (iq_admit e None q))) = is_drained (iq_stats q)"
  "is_evicted (iq_stats (snd (iq_admit e None q))) = is_evicted (iq_stats q)"
  "iq_queue (snd (iq_admit e None q)) = iq_queue q @ [e]"
  by (simp_all add: iq_admit_def iq_update_high_water_def Let_def)

lemma remove_counts [simp]:
  "is_accepted (iq_stats (iq_remove_at k q)) = is_accepted (iq_stats q)"
  "is_drained (iq_stats (iq_remove_at k q)) = is_drained (iq_stats q)"
  "is_evicted (iq_stats (iq_remove_at k q)) = is_evicted (iq_stats q)"
  by (simp_all add: iq_remove_at_def set_queued_def Let_def)

lemma admit_victim_counts:
  assumes "k < length (iq_queue q)"
  shows "is_accepted (iq_stats (snd (iq_admit e (Some k) q))) = is_accepted (iq_stats q) + 1"
    "is_drained (iq_stats (snd (iq_admit e (Some k) q))) = is_drained (iq_stats q)"
    "is_evicted (iq_stats (snd (iq_admit e (Some k) q))) = is_evicted (iq_stats q) + 1"
    "iq_queue (snd (iq_admit e (Some k) q)) = remove_index k (iq_queue q) @ [e]"
  using assms by (simp_all add: iq_admit_def iq_update_high_water_def Let_def)

lemma of_nat_pred: "0 < n \<Longrightarrow> (of_nat n :: u64) = of_nat (n - 1) + 1"
  by (cases n) simp_all

lemma conserved_push: "iq_conserved q \<Longrightarrow> iq_conserved (snd (iq_push e q))"
proof (cases rule: iq_push_cases [of e q])
  case (rejected s)
  assume "iq_conserved q"
  with rejected show ?thesis by (simp add: iq_conserved_def only_rejections_def)
next
  case admitted
  assume "iq_conserved q"
  with admitted(1) show ?thesis by (simp add: iq_conserved_def admit_counts)
next
  case (evicting k)
  assume "iq_conserved q"
  with evicting(1,3) of_nat_pred [of "length (iq_queue q)"] show ?thesis
    by (simp add: iq_conserved_def admit_victim_counts remove_index_length)
qed

lemma conserved_pop: "iq_conserved q \<Longrightarrow> iq_conserved (snd (iq_pop q))"
  using select_next_bound [of q] of_nat_pred [of "length (iq_queue q)"]
  by (cases "iq_queue q = []") (simp_all add: iq_conserved_def iq_pop_def Let_def remove_index_length)

lemma conserved_closing: "iq_conserved (iq_close q) = iq_conserved q" "iq_conserved (iq_reopen q) = iq_conserved q"
  by (simp_all add: iq_conserved_def iq_close_def iq_reopen_def)

section \<open>Which packet leaves next\<close>

definition deadline_key :: "ingest_envelope \<Rightarrow> bool \<times> u64 \<times> u64" where
  "deadline_key e = (ie_deadline_ns e = 0, ie_deadline_ns e, ie_arrival_time_ns e)"

interpretation earliest: ranked earliest_deadline_less deadline_key
  by unfold_locales
    (auto simp: earliest_deadline_less_def deadline_less_def deadline_key_def less_prod_def split: if_splits)

interpretation lowest: ranked lowest_priority_less "\<lambda>e. (priority_rank (ie_priority e), ie_arrival_time_ns e)"
  by unfold_locales (auto simp: lowest_priority_less_def less_prod_def)

interpretation highest: ranked_reverse highest_priority_less "\<lambda>e. (- int (priority_rank (ie_priority e)), ie_arrival_time_ns e)"
  by unfold_locales (auto simp: highest_priority_less_def less_prod_def)

lemma pop_takes:
  "iq_queue q \<noteq> [] \<Longrightarrow> fst (iq_pop q) = Some (iq_queue q ! iq_select_next q) \<and>
   iq_queue (snd (iq_pop q)) = remove_index (iq_select_next q) (iq_queue q)"
  using select_next_bound [of q] by (simp add: iq_pop_def Let_def)

lemma pop_fifo:
  "ic_drain_mode (iq_config q) = DM_fifo \<Longrightarrow> iq_queue q = e # es \<Longrightarrow>
   fst (iq_pop q) = Some e \<and> iq_queue (snd (iq_pop q)) = es"
  using pop_takes [of q] by (simp add: iq_select_next_def remove_index_def)

lemma pop_priority:
  assumes "ic_drain_mode (iq_config q) = DM_highest_priority_first" and "fst (iq_pop q) = Some e"
    and "x \<in> set (iq_queue q)"
  shows "priority_rank (ie_priority x) < priority_rank (ie_priority e) \<or>
    priority_rank (ie_priority x) = priority_rank (ie_priority e) \<and> ie_arrival_time_ns e \<le> ie_arrival_time_ns x"
proof -
  have "iq_queue q \<noteq> []" using assms(3) by auto
  with assms(1,2) have "e = iq_queue q ! max_element highest_priority_less (iq_queue q)"
    using pop_takes [of q] by (simp add: iq_select_next_def)
  with highest.greatest [OF assms(3)] show ?thesis by (auto simp: less_eq_prod_def)
qed

lemma pop_deadline:
  assumes "ic_drain_mode (iq_config q) = DM_earliest_deadline_first" and "fst (iq_pop q) = Some e"
    and "x \<in> set (iq_queue q)" and "ie_deadline_ns x \<noteq> 0"
  shows "ie_deadline_ns e \<noteq> 0 \<and> ie_deadline_ns e \<le> ie_deadline_ns x"
proof -
  have "iq_queue q \<noteq> []" using assms(3) by auto
  with assms(1,2) have "e = iq_queue q ! min_element earliest_deadline_less (iq_queue q)"
    using pop_takes [of q] by (simp add: iq_select_next_def)
  with earliest.least [OF assms(3)] assms(4) show ?thesis
    by (auto simp: less_eq_prod_def deadline_key_def)
qed

text \<open>A drain hands out queued packets only, each once.\<close>

lemma drain_mset:
  "mset (fst (iq_drain_loop n q)) + mset (iq_queue (snd (iq_drain_loop n q))) = mset (iq_queue q)"
proof (induction n q rule: iq_drain_loop.induct)
  case (2 n q)
  show ?case
  proof (cases "iq_queue q = []")
    case False
    obtain q' where pop: "iq_pop q = (Some (iq_queue q ! iq_select_next q), q')"
      "iq_queue q' = remove_index (iq_select_next q) (iq_queue q)"
      using pop_takes [OF False] by (cases "iq_pop q") auto
    have "mset (fst (iq_drain_loop n q')) + mset (iq_queue (snd (iq_drain_loop n q'))) = mset (iq_queue q')"
      by (rule 2 [OF pop(1) [symmetric] refl])
    with pop remove_index_mset [OF select_next_bound [OF False]] show ?thesis
      by (simp add: split_beta)
  qed (simp add: iq_pop_def)
qed simp

lemma drain_length: "length (fst (iq_drain_loop n q)) = min n (length (iq_queue q))"
proof (induction n q rule: iq_drain_loop.induct)
  case (2 n q)
  show ?case
  proof (cases "iq_queue q = []")
    case False
    obtain q' where pop: "iq_pop q = (Some (iq_queue q ! iq_select_next q), q')"
      "length (iq_queue q') = length (iq_queue q) - 1"
      using pop_takes [OF False] remove_index_length [OF select_next_bound [OF False]]
      by (cases "iq_pop q") auto
    with 2 [OF pop(1) [symmetric] refl] False show ?thesis
      by (cases "iq_queue q") (simp_all add: split_beta)
  qed (simp add: iq_pop_def)
qed simp

text \<open>A drain within a payload budget never hands out more bytes than the budget.\<close>

lemma budget_loop_bound:
  "used \<le> budget \<Longrightarrow> (first \<longrightarrow> used = 0) \<Longrightarrow>
   used + (\<Sum>e\<leftarrow>fst (iq_budget_loop budget used first q). payload_size e) \<le> budget"
proof (induction budget used first q rule: iq_budget_loop.induct)
  case (1 budget used first q)
  show ?case
  proof (cases "iq_queue q = []")
    case True
    with 1(2) show ?thesis by (simp add: iq_budget_loop.simps [of budget used first q] iq_peek_def)
  next
    case False
    let ?e = "iq_queue q ! iq_select_next q"
    have peek: "iq_peek q = Some ?e" using False by (simp add: iq_peek_def)
    obtain q' where pop: "iq_pop q = (Some ?e, q')"
      using pop_takes [OF False] by (cases "iq_pop q") auto
    show ?thesis
    proof (cases "used + payload_size ?e > budget")
      case True
      with 1(2,3) peek show ?thesis
        by (auto simp: iq_budget_loop.simps [of budget used first q])
    next
      case fits: False
      with 1(3) have guards: "\<not> (\<not> first \<and> used + payload_size ?e > budget)" "\<not> (first \<and> payload_size ?e > budget)"
        by auto
      have "used + payload_size ?e + (\<Sum>e\<leftarrow>fst (iq_budget_loop budget (used + payload_size ?e) False q'). payload_size e) \<le> budget"
        using 1(1) [OF peek guards pop [symmetric] refl] fits by simp
      with peek guards pop show ?thesis
        by (simp add: iq_budget_loop.simps [of budget used first q] split_beta)
    qed
  qed
qed

section \<open>Two runs\<close>

definition small_envelope :: "u32 \<Rightarrow> ingest_envelope" where
  "small_envelope n = \<lparr>ie_packet = packet_default\<lparr>p_sequence := n, p_payload := [0]\<rparr>,
     ie_arrival_time_ns = ucast n, ie_deadline_ns = 0, ie_priority = IP_high, ie_source = []\<rparr>"

definition quiet_config :: ingest_queue_config where
  "quiet_config = \<lparr>ic_max_packets = 4, ic_max_payload_bytes = 8, ic_max_packet_payload_bytes = 8,
     ic_overflow_policy = OP_reject_new, ic_drain_mode = DM_fifo, ic_reject_empty_payload = True,
     ic_publish_events = False\<rparr>"

definition ghost_run :: ingest_queue where
  "ghost_run = fold iq_step [IQ_push (small_envelope 1), IQ_push (small_envelope 2), IQ_pop, IQ_pop]
     (iq_init quiet_config)"

definition overflow_run :: ingest_queue where
  "overflow_run = fold iq_step
     [IQ_push (small_envelope 1), IQ_push (small_envelope 2),
      IQ_push ((small_envelope 3)\<lparr>ie_packet := packet_default\<lparr>p_payload := [0, 0, 0]\<rparr>\<rparr>)]
     (iq_init (quiet_config\<lparr>ic_max_payload_bytes := 3, ic_overflow_policy := OP_drop_oldest\<rparr>))"

lemma iq_config_step: "iq_config (iq_step e q) = iq_config q"
proof (cases e)
  case (IQ_push envelope)
  then show ?thesis
    by (cases rule: iq_push_cases [of envelope q]) (simp_all add: iq_admit_def iq_update_high_water_def Let_def)
qed (simp_all add: iq_pop_def iq_close_def iq_reopen_def iq_clear_def Let_def)

lemma iq_config_run: "iq_config (fold iq_step es q) = iq_config q"
  by (induction es arbitrary: q) (simp_all add: iq_config_step)

section \<open>Properties\<close>

text \<open>
  C11. After any calls the counters of the queue equal what it holds, it never holds more
  packets than configured or a packet above the per-packet limit, the high-water marks bound
  what is queued, and when new packets are rejected on overflow the byte limit holds too.
\<close>

theorem ingest_queue_bounded:
  "iq_inv (fold iq_step es (iq_init config)) \<and> iq_config (fold iq_step es (iq_init config)) = config"
  using ingest.inv_run iq_config_run [of es "iq_init config"] by (simp add: iq_init_def)



text \<open>
  C13. \<open>pop\<close> removes exactly one queued packet, and the right one: the oldest entry in FIFO mode,
  one of the highest priority and among those of the earliest arrival in priority mode, and in
  deadline mode one whose deadline no queued deadline precedes. It returns nothing only if the
  queue is empty.
\<close>

theorem pop_next:
  assumes "iq_queue q \<noteq> []"
  shows "\<exists>e. fst (iq_pop q) = Some e \<and> mset (iq_queue q) = add_mset e (mset (iq_queue (snd (iq_pop q)))) \<and>
    (case ic_drain_mode (iq_config q) of
       DM_fifo \<Rightarrow> e = hd (iq_queue q) \<and> iq_queue (snd (iq_pop q)) = tl (iq_queue q)
     | DM_highest_priority_first \<Rightarrow> \<forall>x \<in> set (iq_queue q).
         priority_rank (ie_priority x) < priority_rank (ie_priority e) \<or>
         priority_rank (ie_priority x) = priority_rank (ie_priority e) \<and> ie_arrival_time_ns e \<le> ie_arrival_time_ns x
     | DM_earliest_deadline_first \<Rightarrow> \<forall>x \<in> set (iq_queue q). ie_deadline_ns x \<noteq> 0 \<longrightarrow>
         ie_deadline_ns e \<noteq> 0 \<and> ie_deadline_ns e \<le> ie_deadline_ns x)"
proof -
  note takes = pop_takes [OF assms]
  let ?e = "iq_queue q ! iq_select_next q"
  have e: "fst (iq_pop q) = Some ?e" using takes by simp
  have "mset (iq_queue q) = add_mset ?e (mset (iq_queue (snd (iq_pop q))))"
    using takes remove_index_mset [OF select_next_bound [OF assms]] by simp
  moreover have "?e = hd (iq_queue q) \<and> iq_queue (snd (iq_pop q)) = tl (iq_queue q)"
    if "ic_drain_mode (iq_config q) = DM_fifo"
    using pop_fifo [OF that, of "hd (iq_queue q)" "tl (iq_queue q)"] assms e by simp
  ultimately show ?thesis
    using e pop_priority [OF _ e] pop_deadline [OF _ e]
    by (intro exI [of _ ?e]) (simp split: ingest_drain_mode.split)
qed

lemma pop_next_witness:
  "fst (iq_pop ((iq_init quiet_config)\<lparr>iq_queue := [small_envelope 1, small_envelope 2]\<rparr>)) = Some (small_envelope 1)"
  using pop_next [of "(iq_init quiet_config)\<lparr>iq_queue := [small_envelope 1, small_envelope 2]\<rparr>"]
  by (simp add: iq_init_def quiet_config_def)

text \<open>
  Draining partitions the queued packets into those handed out and those still queued and
  hands out as many as were asked for and available; a drain with a payload budget hands out at
  most that many bytes.
\<close>

theorem drain_partition:
  "mset (dr_packets (fst (iq_drain n q))) + mset (iq_queue (snd (iq_drain n q))) = mset (iq_queue q) \<and>
   length (dr_packets (fst (iq_drain n q))) = min n (length (iq_queue q)) \<and>
   (\<Sum>e\<leftarrow>dr_packets (fst (iq_drain_payload_budget budget q)). payload_size e) \<le> budget"
  using drain_mset [of n q] drain_length [of n q] budget_loop_bound [of 0 budget True q]
  by (simp add: iq_drain_def iq_drain_payload_budget_def drain_result_def split_beta)

text \<open>
  \<open>remove_at\<close> adjusts the per-device state before it erases the packet from the deque, and a
  rebuild still counts the packet that leaves: after two packets of a device are pushed and
  popped, the queue is empty and the device is still listed with one queued packet.
\<close>

theorem ghost_device:
  "iq_queue ghost_run = [] \<and>
   map (\<lambda>d. (fst d, ds_queued_packets (snd d))) (iq_device_snapshots ghost_run) = [(0, 1)]"
  by code_simp

text \<open>
  \<open>push\<close> evicts at most one packet for a newcomer, whatever their sizes: with a byte limit of
  three and the policy that drops the oldest packet, four bytes end up queued.
\<close>

theorem payload_limit_exceeded: "queued_bytes overflow_run = 4"
  by code_simp

end
