(* ===== verification/Batching.thy ===== *)
theory Batching
  imports Ingest_Queue Packet_Roundtrip
begin

text \<open>
  The batching policy of \<open>src/runtime/batching_policy.cpp\<close>: envelopes are collected in one open
  batch that is closed by count, size, age, deadline, priority, device order or isolation.
\<close>

section \<open>Data\<close>

datatype batch_close_reason =
    BR_none | BR_max_packets | BR_max_payload_bytes | BR_max_age | BR_deadline | BR_priority_flush | BR_manual_flush

record batching_config =
  bc_max_packets :: nat
  bc_max_payload_bytes :: nat
  bc_max_age_ns :: u64
  bc_deadline_slack_ns :: u64
  bc_priority_flush_threshold :: ingest_priority
  bc_isolate_control_packets :: bool
  bc_preserve_device_order :: bool

definition batching_config_default :: batching_config where
  "batching_config_default =
     \<lparr>bc_max_packets = 64, bc_max_payload_bytes = 1024 * 1024, bc_max_age_ns = 5000000,
      bc_deadline_slack_ns = 0, bc_priority_flush_threshold = IP_critical,
      bc_isolate_control_packets = True, bc_preserve_device_order = True\<rparr>"

record batch_window =
  bw_first_arrival_time_ns :: u64
  bw_last_arrival_time_ns :: u64
  bw_earliest_deadline_ns :: u64

record ingest_batch =
  ib_packets :: "ingest_envelope list"
  ib_window :: batch_window
  ib_payload_bytes :: nat
  ib_highest_priority :: ingest_priority
  ib_close_reason :: batch_close_reason

definition ingest_batch_default :: ingest_batch where
  "ingest_batch_default =
     \<lparr>ib_packets = [],
      ib_window = \<lparr>bw_first_arrival_time_ns = 0, bw_last_arrival_time_ns = 0, bw_earliest_deadline_ns = 0\<rparr>,
      ib_payload_bytes = 0, ib_highest_priority = IP_low, ib_close_reason = BR_none\<rparr>"

record batch_candidate =
  bd_accepted :: bool
  bd_close_reason :: batch_close_reason
  bd_note :: string

record batching_stats =
  bs_packets_considered :: u64
  bs_packets_batched :: u64
  bs_batches_closed :: u64
  bs_manual_flushes :: u64
  bs_max_packet_closures :: u64
  bs_byte_limit_closures :: u64
  bs_age_closures :: u64
  bs_deadline_closures :: u64
  bs_priority_closures :: u64

definition batching_stats_default :: batching_stats where
  "batching_stats_default =
     \<lparr>bs_packets_considered = 0, bs_packets_batched = 0, bs_batches_closed = 0, bs_manual_flushes = 0,
      bs_max_packet_closures = 0, bs_byte_limit_closures = 0, bs_age_closures = 0,
      bs_deadline_closures = 0, bs_priority_closures = 0\<rparr>"

record batching_policy =
  bp_config :: batching_config
  bp_open :: "ingest_batch option"
  bp_stats :: batching_stats

section \<open>Operations\<close>

definition is_control_like :: "packet \<Rightarrow> bool" where
  "is_control_like p \<longleftrightarrow>
     p_kind p = PK_control \<or> p_kind p = PK_capabilities \<or> p_kind p = PK_heartbeat"

definition update_window :: "ingest_envelope \<Rightarrow> batch_window \<Rightarrow> batch_window" where
  "update_window envelope w =
     (let w = (if bw_first_arrival_time_ns w = 0
               then w\<lparr>bw_first_arrival_time_ns := ie_arrival_time_ns envelope\<rparr> else w);
          w = w\<lparr>bw_last_arrival_time_ns := max (bw_last_arrival_time_ns w) (ie_arrival_time_ns envelope)\<rparr>
      in if ie_deadline_ns envelope \<noteq> 0
         then (if bw_earliest_deadline_ns w = 0
               then w\<lparr>bw_earliest_deadline_ns := ie_deadline_ns envelope\<rparr>
               else w\<lparr>bw_earliest_deadline_ns := min (bw_earliest_deadline_ns w) (ie_deadline_ns envelope)\<rparr>)
         else w)"

definition bp_init :: "batching_config \<Rightarrow> batching_policy" where
  "bp_init config = \<lparr>bp_config = config, bp_open = None, bp_stats = batching_stats_default\<rparr>"

definition bp_empty :: "batching_policy \<Rightarrow> bool" where
  "bp_empty s \<longleftrightarrow> (case bp_open s of None \<Rightarrow> True | Some batch \<Rightarrow> ib_packets batch = [])"

definition window_too_old :: "batching_config \<Rightarrow> u64 \<Rightarrow> batch_window \<Rightarrow> bool" where
  "window_too_old config now_ns w \<longleftrightarrow>
     bw_first_arrival_time_ns w \<noteq> 0 \<and> now_ns \<ge> bw_first_arrival_time_ns w \<and>
     now_ns - bw_first_arrival_time_ns w \<ge> bc_max_age_ns config"

definition window_deadline_reached :: "batching_config \<Rightarrow> u64 \<Rightarrow> batch_window \<Rightarrow> bool" where
  "window_deadline_reached config now_ns w \<longleftrightarrow>
     bw_earliest_deadline_ns w \<noteq> 0 \<and> now_ns + bc_deadline_slack_ns config \<ge> bw_earliest_deadline_ns w"

definition infer_batch_close_reason :: "ingest_batch \<Rightarrow> batching_config \<Rightarrow> u64 \<Rightarrow> batch_close_reason" where
  "infer_batch_close_reason batch config now_ns =
     (if ib_packets batch = [] then BR_none
      else if length (ib_packets batch) \<ge> bc_max_packets config then BR_max_packets
      else if ib_payload_bytes batch \<ge> bc_max_payload_bytes config then BR_max_payload_bytes
      else if window_too_old config now_ns (ib_window batch) then BR_max_age
      else if window_deadline_reached config now_ns (ib_window batch) then BR_deadline
      else if priority_rank (ib_highest_priority batch) \<ge> priority_rank (bc_priority_flush_threshold config)
      then BR_priority_flush
      else BR_none)"

definition should_flush_open_batch :: "u64 \<Rightarrow> batching_policy \<Rightarrow> bool" where
  "should_flush_open_batch now_ns s \<longleftrightarrow>
     (case bp_open s of
        None \<Rightarrow> False
      | Some batch \<Rightarrow> ib_packets batch \<noteq> [] \<and> infer_batch_close_reason batch (bp_config s) now_ns \<noteq> BR_none)"

definition conflicts_with_device_order :: "ingest_envelope \<Rightarrow> ingest_batch \<Rightarrow> bool" where
  "conflicts_with_device_order envelope batch \<longleftrightarrow>
     (\<exists>existing \<in> set (ib_packets batch).
        p_device (ie_packet existing) = p_device (ie_packet envelope) \<and>
        p_sequence (ie_packet existing) > p_sequence (ie_packet envelope))"

definition candidate :: "bool \<Rightarrow> batch_close_reason \<Rightarrow> string \<Rightarrow> batch_candidate" where
  "candidate accepted reason note = \<lparr>bd_accepted = accepted, bd_close_reason = reason, bd_note = note\<rparr>"

definition bp_evaluate :: "ingest_envelope \<Rightarrow> u64 \<Rightarrow> batching_policy \<Rightarrow> batch_candidate" where
  "bp_evaluate envelope now_ns s =
     (case bp_open s of
        None \<Rightarrow> candidate True BR_none ''accepted''
      | Some batch \<Rightarrow>
          let config = bp_config s in
          if ib_packets batch = [] then candidate True BR_none ''accepted''
          else if length (ib_packets batch) \<ge> bc_max_packets config
          then candidate False BR_max_packets ''batch packet limit reached''
          else if ib_payload_bytes batch + payload_size envelope > bc_max_payload_bytes config
          then candidate False BR_max_payload_bytes ''batch payload limit reached''
          else if window_too_old config now_ns (ib_window batch)
          then candidate False BR_max_age ''batch age limit reached''
          else if window_deadline_reached config now_ns (ib_window batch)
          then candidate False BR_deadline ''batch deadline reached''
          else if bc_preserve_device_order config \<and> conflicts_with_device_order envelope batch
          then candidate False BR_manual_flush ''device sequence would move backwards''
          else if bc_isolate_control_packets config \<and>
                  is_control_like (ie_packet (hd (ib_packets batch))) \<noteq> is_control_like (ie_packet envelope)
          then candidate False BR_priority_flush ''control packets are isolated''
          else candidate True BR_none ''accepted'')"

definition append_to_batch :: "ingest_envelope \<Rightarrow> ingest_batch \<Rightarrow> ingest_batch" where
  "append_to_batch envelope batch =
     (let batch = batch\<lparr>ib_window := update_window envelope (ib_window batch),
                        ib_payload_bytes := ib_payload_bytes batch + payload_size envelope\<rparr>;
          batch = (if priority_rank (ie_priority envelope) > priority_rank (ib_highest_priority batch)
                   then batch\<lparr>ib_highest_priority := ie_priority envelope\<rparr> else batch)
      in batch\<lparr>ib_packets := ib_packets batch @ [envelope]\<rparr>)"

definition bp_append :: "ingest_envelope \<Rightarrow> batching_policy \<Rightarrow> batching_policy" where
  "bp_append envelope s =
     (let batch = (case bp_open s of None \<Rightarrow> ingest_batch_default | Some batch \<Rightarrow> batch)
      in s\<lparr>bp_open := Some (append_to_batch envelope batch),
           bp_stats := (bp_stats s)\<lparr>bs_packets_batched := bs_packets_batched (bp_stats s) + 1\<rparr>\<rparr>)"

fun count_close :: "batch_close_reason \<Rightarrow> batching_stats \<Rightarrow> batching_stats" where
  "count_close BR_none stats = stats"
| "count_close BR_max_packets stats = stats\<lparr>bs_max_packet_closures := bs_max_packet_closures stats + 1\<rparr>"
| "count_close BR_max_payload_bytes stats = stats\<lparr>bs_byte_limit_closures := bs_byte_limit_closures stats + 1\<rparr>"
| "count_close BR_max_age stats = stats\<lparr>bs_age_closures := bs_age_closures stats + 1\<rparr>"
| "count_close BR_deadline stats = stats\<lparr>bs_deadline_closures := bs_deadline_closures stats + 1\<rparr>"
| "count_close BR_priority_flush stats = stats\<lparr>bs_priority_closures := bs_priority_closures stats + 1\<rparr>"
| "count_close BR_manual_flush stats = stats"

text \<open>\<open>close\<close> dereferences \<open>open_\<close>; its callers have checked that there is a batch, which is passed.\<close>

definition bp_close :: "batch_close_reason \<Rightarrow> ingest_batch \<Rightarrow> batching_policy \<Rightarrow> ingest_batch \<times> batching_policy" where
  "bp_close reason batch s =
     (let stats = bp_stats s;
          stats = stats\<lparr>bs_batches_closed := bs_batches_closed stats + 1\<rparr>
      in (batch\<lparr>ib_close_reason := reason\<rparr>, s\<lparr>bp_open := None, bp_stats := count_close reason stats\<rparr>))"

text \<open>The steps of \<open>offer\<close>: each may close the open batch and passes the batches closed so far.\<close>

definition close_if ::
  "(batching_policy \<Rightarrow> ingest_batch \<Rightarrow> batch_close_reason option) \<Rightarrow>
   ingest_batch list \<times> batching_policy \<Rightarrow> ingest_batch list \<times> batching_policy" where
  "close_if reason = (\<lambda>(ready, s).
     case bp_open s of
       None \<Rightarrow> (ready, s)
     | Some batch \<Rightarrow>
         (case reason s batch of
            None \<Rightarrow> (ready, s)
          | Some r \<Rightarrow> (let (batch, s) = bp_close r batch s in (ready @ [batch], s))))"

definition flush_reason :: "u64 \<Rightarrow> batching_policy \<Rightarrow> ingest_batch \<Rightarrow> batch_close_reason option" where
  "flush_reason now_ns s batch =
     (if should_flush_open_batch now_ns s
      then Some (infer_batch_close_reason batch (bp_config s) now_ns) else None)"

definition refusal_reason :: "ingest_envelope \<Rightarrow> u64 \<Rightarrow> batching_policy \<Rightarrow> ingest_batch \<Rightarrow> batch_close_reason option" where
  "refusal_reason envelope now_ns s batch =
     (let c = bp_evaluate envelope now_ns s
      in if \<not> bd_accepted c then Some (bd_close_reason c) else None)"

definition isolation_reason :: "ingest_envelope \<Rightarrow> batching_policy \<Rightarrow> ingest_batch \<Rightarrow> batch_close_reason option" where
  "isolation_reason envelope s batch =
     (if bc_isolate_control_packets (bp_config s) \<and> is_control_like (ie_packet envelope) \<and> ib_packets batch \<noteq> []
      then Some BR_priority_flush else None)"

definition filled_reason :: "u64 \<Rightarrow> batching_policy \<Rightarrow> ingest_batch \<Rightarrow> batch_close_reason option" where
  "filled_reason now_ns s batch =
     (if should_flush_open_batch now_ns s
      then Some (infer_batch_close_reason batch (bp_config s) now_ns)
      else if priority_rank (ib_highest_priority batch) \<ge> priority_rank (bc_priority_flush_threshold (bp_config s))
      then Some BR_priority_flush else None)"

definition offer_priority :: "ingest_envelope \<Rightarrow> ingest_envelope" where
  "offer_priority envelope =
     (if ie_priority envelope = IP_normal
      then envelope\<lparr>ie_priority := infer_ingest_priority (ie_packet envelope)\<rparr> else envelope)"

definition bp_offer :: "ingest_envelope \<Rightarrow> u64 \<Rightarrow> batching_policy \<Rightarrow> ingest_batch list \<times> batching_policy" where
  "bp_offer envelope now_ns s =
     (let s = s\<lparr>bp_stats := (bp_stats s)\<lparr>bs_packets_considered := bs_packets_considered (bp_stats s) + 1\<rparr>\<rparr>;
          envelope = offer_priority envelope;
          (ready, s) = close_if (flush_reason now_ns) ([], s);
          (ready, s) = close_if (refusal_reason envelope now_ns) (ready, s);
          (ready, s) = close_if (isolation_reason envelope) (ready, s);
          s = bp_append envelope s
      in close_if (filled_reason now_ns) (ready, s))"

fun bp_offer_many :: "ingest_envelope list \<Rightarrow> u64 \<Rightarrow> batching_policy \<Rightarrow> ingest_batch list \<times> batching_policy" where
  "bp_offer_many [] now_ns s = ([], s)"
| "bp_offer_many (envelope # envelopes) now_ns s =
     (let (batches, s) = bp_offer envelope now_ns s;
          (ready, s) = bp_offer_many envelopes now_ns s
      in (batches @ ready, s))"

definition bp_flush :: "batching_policy \<Rightarrow> ingest_batch list \<times> batching_policy" where
  "bp_flush s =
     (let s = s\<lparr>bp_stats := (bp_stats s)\<lparr>bs_manual_flushes := bs_manual_flushes (bp_stats s) + 1\<rparr>\<rparr>
      in close_if (\<lambda>s batch. if ib_packets batch \<noteq> [] then Some BR_manual_flush else None) ([], s))"

definition bp_tick :: "u64 \<Rightarrow> batching_policy \<Rightarrow> ingest_batch list \<times> batching_policy" where
  "bp_tick now_ns s = close_if (flush_reason now_ns) ([], s)"

definition bp_reset :: "batching_policy \<Rightarrow> batching_policy" where
  "bp_reset s = s\<lparr>bp_open := None, bp_stats := batching_stats_default\<rparr>"

section \<open>Text output\<close>

fun batch_close_reason_name :: "batch_close_reason \<Rightarrow> string" where
  "batch_close_reason_name BR_none = ''none''"
| "batch_close_reason_name BR_max_packets = ''max_packets''"
| "batch_close_reason_name BR_max_payload_bytes = ''max_payload_bytes''"
| "batch_close_reason_name BR_max_age = ''max_age''"
| "batch_close_reason_name BR_deadline = ''deadline''"
| "batch_close_reason_name BR_priority_flush = ''priority_flush''"
| "batch_close_reason_name BR_manual_flush = ''manual_flush''"

definition render_packet_batch :: "ingest_batch \<Rightarrow> string" where
  "render_packet_batch batch =
     ''packet_batch'' @ newline @
     ''  packets: '' @ dec_nat (length (ib_packets batch)) @ newline @
     ''  payload_bytes: '' @ dec_nat (ib_payload_bytes batch) @ newline @
     ''  highest_priority: '' @ ingest_priority_name (ib_highest_priority batch) @ newline @
     ''  close_reason: '' @ batch_close_reason_name (ib_close_reason batch) @ newline @
     ''  first_arrival_time_ns: '' @ dec (bw_first_arrival_time_ns (ib_window batch)) @ newline @
     ''  last_arrival_time_ns: '' @ dec (bw_last_arrival_time_ns (ib_window batch)) @ newline @
     (if bw_earliest_deadline_ns (ib_window batch) \<noteq> 0
      then ''  earliest_deadline_ns: '' @ dec (bw_earliest_deadline_ns (ib_window batch)) @ newline else []) @
     concat (map (\<lambda>envelope.
       ''  packet: device='' @ dec (p_device (ie_packet envelope)) @
       '' sequence='' @ dec (p_sequence (ie_packet envelope)) @
       '' priority='' @ ingest_priority_name (ie_priority envelope) @ newline) (ib_packets batch))"

definition render_batching_stats :: "batching_stats \<Rightarrow> string" where
  "render_batching_stats stats =
     ''batching_policy_stats'' @ newline @
     ''  packets_considered: '' @ dec (bs_packets_considered stats) @ newline @
     ''  packets_batched: '' @ dec (bs_packets_batched stats) @ newline @
     ''  batches_closed: '' @ dec (bs_batches_closed stats) @ newline @
     ''  manual_flushes: '' @ dec (bs_manual_flushes stats) @ newline @
     ''  max_packet_closures: '' @ dec (bs_max_packet_closures stats) @ newline @
     ''  byte_limit_closures: '' @ dec (bs_byte_limit_closures stats) @ newline @
     ''  age_closures: '' @ dec (bs_age_closures stats) @ newline @
     ''  deadline_closures: '' @ dec (bs_deadline_closures stats) @ newline @
     ''  priority_closures: '' @ dec (bs_priority_closures stats) @ newline"

section \<open>Calls\<close>

datatype batch_call =
    BP_offer ingest_envelope u64
  | BP_offer_many "ingest_envelope list" u64
  | BP_flush
  | BP_tick u64
  | BP_reset

fun bp_step :: "batch_call \<Rightarrow> batching_policy \<Rightarrow> ingest_batch list \<times> batching_policy" where
  "bp_step (BP_offer envelope now_ns) s = bp_offer envelope now_ns s"
| "bp_step (BP_offer_many envelopes now_ns) s = bp_offer_many envelopes now_ns s"
| "bp_step BP_flush s = bp_flush s"
| "bp_step (BP_tick now_ns) s = bp_tick now_ns s"
| "bp_step BP_reset s = ([], bp_reset s)"

fun bp_run :: "batch_call list \<Rightarrow> batching_policy \<Rightarrow> ingest_batch list \<times> batching_policy" where
  "bp_run [] s = ([], s)"
| "bp_run (c # cs) s = (let (ready, s) = bp_step c s; (rest, s) = bp_run cs s in (ready @ rest, s))"

section \<open>Packets in hand\<close>

definition open_packets :: "batching_policy \<Rightarrow> ingest_envelope list" where
  "open_packets s = (case bp_open s of None \<Rightarrow> [] | Some batch \<Rightarrow> ib_packets batch)"

definition packets_of :: "ingest_batch list \<times> batching_policy \<Rightarrow> ingest_envelope list" where
  "packets_of x = concat (map ib_packets (fst x)) @ open_packets (snd x)"

lemma packets_of_start [simp]:
  "packets_of ([], s) = open_packets s" "open_packets (s\<lparr>bp_stats := stats\<rparr>) = open_packets s"
  by (simp_all add: packets_of_def open_packets_def)

text \<open>What the policy promises of every batch.\<close>

definition in_device_order :: "ingest_envelope list \<Rightarrow> bool" where
  "in_device_order es \<longleftrightarrow>
     sorted_wrt (\<lambda>a b. p_device (ie_packet a) = p_device (ie_packet b) \<longrightarrow>
       p_sequence (ie_packet a) \<le> p_sequence (ie_packet b)) es"

definition isolated :: "ingest_envelope list \<Rightarrow> bool" where
  "isolated es \<longleftrightarrow> length es = 1 \<or> (\<forall>e \<in> set es. \<not> is_control_like (ie_packet e))"

definition batch_ok :: "batching_config \<Rightarrow> ingest_batch \<Rightarrow> bool" where
  "batch_ok config batch \<longleftrightarrow>
     ib_packets batch \<noteq> [] \<and>
     ib_payload_bytes batch = (\<Sum>e\<leftarrow>ib_packets batch. payload_size e) \<and>
     length (ib_packets batch) \<le> max 1 (bc_max_packets config) \<and>
     (ib_payload_bytes batch \<le> bc_max_payload_bytes config \<or> length (ib_packets batch) = 1) \<and>
     (bc_preserve_device_order config \<longrightarrow> in_device_order (ib_packets batch)) \<and>
     (bc_isolate_control_packets config \<longrightarrow> isolated (ib_packets batch))"

definition batches_ok :: "ingest_batch list \<times> batching_policy \<Rightarrow> bool" where
  "batches_ok x \<longleftrightarrow>
     (\<forall>b \<in> set (fst x). batch_ok (bp_config (snd x)) b \<and> ib_close_reason b \<noteq> BR_none) \<and>
     (\<forall>b. bp_open (snd x) = Some b \<longrightarrow> batch_ok (bp_config (snd x)) b)"

lemma bp_close_simps [simp]:
  "fst (bp_close r b s) = b\<lparr>ib_close_reason := r\<rparr>" "bp_open (snd (bp_close r b s)) = None"
  "bp_config (snd (bp_close r b s)) = bp_config s"
  by (simp_all add: bp_close_def Let_def)

lemma batch_ok_reason [simp]: "batch_ok config (b\<lparr>ib_close_reason := r\<rparr>) = batch_ok config b"
  by (simp add: batch_ok_def)

lemma close_if_cases:
  obtains (kept) "close_if reason (ready, s) = (ready, s)"
      "\<And>b. bp_open s = Some b \<Longrightarrow> reason s b = None"
  | (closed) b r s' where "bp_open s = Some b" "reason s b = Some r"
      "close_if reason (ready, s) = (ready @ [b\<lparr>ib_close_reason := r\<rparr>], s')"
      "bp_open s' = None" "bp_config s' = bp_config s"
proof (cases "bp_open s")
  case None
  then show thesis by (intro kept) (simp_all add: close_if_def)
next
  case (Some b)
  show thesis
  proof (cases "reason s b")
    case None
    with Some show thesis by (intro kept) (simp_all add: close_if_def)
  next
    case (Some r)
    with \<open>bp_open s = Some b\<close> show thesis
      by (intro closed [of b r "snd (bp_close r b s)"]) (simp_all add: close_if_def split_beta)
  qed
qed

lemma packets_of_close_if [simp]: "packets_of (close_if reason x) = packets_of x"
proof (cases x)
  case (Pair ready s)
  show ?thesis
    by (cases rule: close_if_cases [of reason ready s])
      (simp_all add: Pair packets_of_def open_packets_def)
qed

lemma config_close_if [simp]: "bp_config (snd (close_if reason x)) = bp_config (snd x)"
proof (cases x)
  case (Pair ready s)
  show ?thesis
    by (cases rule: close_if_cases [of reason ready s]) (simp_all add: Pair)
qed

lemma batches_ok_close_if:
  assumes "batches_ok x" and "\<And>s b r. bp_open s = Some b \<Longrightarrow> batch_ok (bp_config s) b \<Longrightarrow> reason s b = Some r \<Longrightarrow> r \<noteq> BR_none"
  shows "batches_ok (close_if reason x)"
proof (cases x)
  case (Pair ready s)
  show ?thesis
  proof (cases rule: close_if_cases [of reason ready s])
    case (closed b r s')
    with assms(1) assms(2) [of s b r] show ?thesis by (auto simp: Pair batches_ok_def)
  qed (use assms(1) Pair in simp)
qed

text \<open>After the three checks the open batch, if there is one, admits the envelope.\<close>

definition admits_next :: "ingest_envelope \<Rightarrow> batching_policy \<Rightarrow> bool" where
  "admits_next e s \<longleftrightarrow>
     (\<forall>b. bp_open s = Some b \<longrightarrow>
        length (ib_packets b) < bc_max_packets (bp_config s) \<and>
        ib_payload_bytes b + payload_size e \<le> bc_max_payload_bytes (bp_config s) \<and>
        (bc_preserve_device_order (bp_config s) \<longrightarrow> \<not> conflicts_with_device_order e b) \<and>
        (bc_isolate_control_packets (bp_config s) \<longrightarrow>
           \<not> is_control_like (ie_packet e) \<and> \<not> is_control_like (ie_packet (hd (ib_packets b)))))"

lemma admits_after_checks:
  assumes "batches_ok x"
  shows "admits_next e (snd (close_if (isolation_reason e) (close_if (refusal_reason e now_ns) x)))"
proof -
  obtain ready s where y: "close_if (refusal_reason e now_ns) x = (ready, s)"
    by (cases "close_if (refusal_reason e now_ns) x")
  have accepted: "bd_accepted (bp_evaluate e now_ns s)" if "bp_open s \<noteq> None"
  proof -
    obtain ready0 s0 where x: "x = (ready0, s0)" by (cases x)
    show ?thesis
      by (cases rule: close_if_cases [of "refusal_reason e now_ns" ready0 s0])
        (use y that in \<open>auto simp: x refusal_reason_def Let_def split: if_splits\<close>)
  qed
  have nonempty: "ib_packets b \<noteq> []" if "bp_open s = Some b" for b
    using assms that y
    by (metis batch_ok_def batches_ok_def close_if_cases option.distinct(1) prod.collapse snd_conv)
  show ?thesis
    by (cases rule: close_if_cases [of "isolation_reason e" ready s])
      (use accepted nonempty in \<open>auto simp: y admits_next_def isolation_reason_def bp_evaluate_def Let_def
        candidate_def split: if_splits\<close>)
qed

lemma payload_append: "ib_payload_bytes (append_to_batch e b) = ib_payload_bytes b + payload_size e"
  "ib_packets (append_to_batch e b) = ib_packets b @ [e]"
  by (simp_all add: append_to_batch_def Let_def)

lemma batch_ok_append:
  assumes "batch_ok (bp_config s) b" and "bp_open s = Some b" and "admits_next e s"
  shows "batch_ok (bp_config s) (append_to_batch e b)"
proof -
  note adm = assms(3) [unfolded admits_next_def, rule_format, OF assms(2)]
  have "in_device_order (ib_packets b @ [e])" if "bc_preserve_device_order (bp_config s)"
    using that adm assms(1)
    by (fastforce simp: batch_ok_def in_device_order_def sorted_wrt_append conflicts_with_device_order_def not_less)
  moreover have "isolated (ib_packets b @ [e])" if "bc_isolate_control_packets (bp_config s)"
  proof -
    have "isolated (ib_packets b)" "ib_packets b \<noteq> []"
      using that assms(1) by (simp_all add: batch_ok_def)
    then have "\<forall>x \<in> set (ib_packets b). \<not> is_control_like (ie_packet x)"
      using that adm by (cases "ib_packets b") (auto simp: isolated_def)
    with that adm show ?thesis by (simp add: isolated_def)
  qed
  ultimately show ?thesis
    using assms(1) adm by (simp add: batch_ok_def payload_append)
qed

lemma batch_ok_single: "batch_ok config (append_to_batch e ingest_batch_default)"
  by (simp add: batch_ok_def payload_append ingest_batch_default_def in_device_order_def isolated_def)

lemma bp_append_simps [simp]:
  "bp_config (bp_append e s) = bp_config s" "open_packets (bp_append e s) = open_packets s @ [e]"
  by (simp_all add: bp_append_def Let_def open_packets_def payload_append ingest_batch_default_def split: option.split)

lemma batches_ok_append:
  assumes "batches_ok (ready, s)" and "admits_next e s"
  shows "batches_ok (ready, bp_append e s)"
proof (cases "bp_open s")
  case None
  with assms(1) show ?thesis by (simp add: batches_ok_def) (simp add: bp_append_def batch_ok_single)
next
  case (Some b)
  with assms batch_ok_append [of s b e] show ?thesis
    by (simp add: batches_ok_def) (simp add: bp_append_def)
qed

lemma flush_reason_some: "flush_reason t s b = Some r \<Longrightarrow> bp_open s = Some b \<Longrightarrow> r \<noteq> BR_none"
  by (auto simp: flush_reason_def should_flush_open_batch_def split: if_splits)

lemma filled_reason_some: "filled_reason t s b = Some r \<Longrightarrow> bp_open s = Some b \<Longrightarrow> r \<noteq> BR_none"
  by (auto simp: filled_reason_def should_flush_open_batch_def split: if_splits)

lemma refusal_reason_some: "refusal_reason e t s b = Some r \<Longrightarrow> bp_open s = Some b \<Longrightarrow> r \<noteq> BR_none"
  by (auto simp: refusal_reason_def bp_evaluate_def Let_def candidate_def split: if_splits)

lemma isolation_reason_some: "isolation_reason e s b = Some r \<Longrightarrow> r \<noteq> BR_none"
  by (auto simp: isolation_reason_def split: if_splits)

lemmas reason_some = flush_reason_some filled_reason_some refusal_reason_some isolation_reason_some

lemma offer_ok:
  assumes "batches_ok ([], s)"
  shows "batches_ok (bp_offer e t s) \<and> packets_of (bp_offer e t s) = open_packets s @ [offer_priority e] \<and>
    bp_config (snd (bp_offer e t s)) = bp_config s"
proof -
  let ?s = "s\<lparr>bp_stats := (bp_stats s)\<lparr>bs_packets_considered := bs_packets_considered (bp_stats s) + 1\<rparr>\<rparr>"
  let ?e = "offer_priority e"
  define x where "x = close_if (flush_reason t) ([], ?s)"
  define y where "y = close_if (isolation_reason ?e) (close_if (refusal_reason ?e t) x)"
  have offer: "bp_offer e t s = close_if (filled_reason t) (fst y, bp_append ?e (snd y))"
    by (simp add: bp_offer_def Let_def split_beta x_def y_def)
  have "batches_ok ([], ?s)" using assms by (simp add: batches_ok_def)
  then have x: "batches_ok x"
    unfolding x_def by (rule batches_ok_close_if) (rule flush_reason_some)
  then have "batches_ok y"
    unfolding y_def by (intro batches_ok_close_if) (auto dest: reason_some)
  then have "batches_ok (fst y, bp_append ?e (snd y))"
    using admits_after_checks [OF x, of ?e t] by (intro batches_ok_append) (simp_all add: y_def)
  then have "batches_ok (bp_offer e t s)"
    unfolding offer by (rule batches_ok_close_if) (rule filled_reason_some)
  moreover have "packets_of y = open_packets s"
    unfolding y_def x_def by simp
  then have "packets_of (bp_offer e t s) = open_packets s @ [?e]"
    unfolding offer packets_of_close_if by (simp add: packets_of_def)
  moreover have "bp_config (snd (bp_offer e t s)) = bp_config s"
    unfolding offer by (simp add: y_def x_def)
  ultimately show ?thesis by blast
qed

text \<open>A step sees only the open batch of the state before it.\<close>

fun offered :: "batch_call \<Rightarrow> ingest_envelope list" where
  "offered (BP_offer e t) = [offer_priority e]"
| "offered (BP_offer_many es t) = map offer_priority es"
| "offered _ = []"

definition step_ok :: "ingest_envelope list \<Rightarrow> batching_policy \<Rightarrow> ingest_batch list \<times> batching_policy \<Rightarrow> bool" where
  "step_ok es s x \<longleftrightarrow>
     batches_ok x \<and> packets_of x = open_packets s @ es \<and> bp_config (snd x) = bp_config s"

lemma batches_ok_append_ready:
  "batches_ok (a, s) \<Longrightarrow> batches_ok (b, s') \<Longrightarrow> bp_config s' = bp_config s \<Longrightarrow> batches_ok (a @ b, s')"
  by (auto simp: batches_ok_def)

lemma batches_ok_open: "batches_ok (a, s) \<Longrightarrow> batches_ok ([], s)"
  by (simp add: batches_ok_def)

lemma step_ok_seq:
  assumes "step_ok es s (a, s1)" and "step_ok fs s1 (b, s2)"
  shows "step_ok (es @ fs) s (a @ b, s2)"
proof -
  have "batches_ok (a @ b, s2)"
    using assms by (intro batches_ok_append_ready [of a s1]) (simp_all add: step_ok_def)
  moreover have "packets_of (a @ b, s2) = open_packets s @ es @ fs"
  proof -
    have "concat (map ib_packets a) @ open_packets s1 = open_packets s @ es"
      "concat (map ib_packets b) @ open_packets s2 = open_packets s1 @ fs"
      using assms by (simp_all add: step_ok_def packets_of_def)
    then have "concat (map ib_packets a) @ (concat (map ib_packets b) @ open_packets s2) = open_packets s @ es @ fs"
      by (simp flip: append_assoc)
    then show ?thesis by (simp add: packets_of_def)
  qed
  ultimately show ?thesis using assms by (simp add: step_ok_def)
qed

lemma offer_many_ok: "batches_ok ([], s) \<Longrightarrow> step_ok (map offer_priority es) s (bp_offer_many es t s)"
proof (induction es arbitrary: s)
  case (Cons e es)
  obtain a s1 where a: "bp_offer e t s = (a, s1)" by (cases "bp_offer e t s")
  obtain b s2 where b: "bp_offer_many es t s1 = (b, s2)" by (cases "bp_offer_many es t s1")
  have "step_ok [offer_priority e] s (a, s1)"
    using offer_ok [OF Cons.prems, of e t] by (simp add: step_ok_def a)
  moreover from this have "step_ok (map offer_priority es) s1 (b, s2)"
    using Cons.IH [of s1] b by (auto simp: step_ok_def dest: batches_ok_open)
  ultimately have "step_ok ([offer_priority e] @ map offer_priority es) s (a @ b, s2)"
    by (rule step_ok_seq)
  then show ?case by (simp add: a b)
qed (simp add: step_ok_def packets_of_def)

lemma bp_step_ok:
  assumes "batches_ok ([], s)" and "c \<noteq> BP_reset"
  shows "step_ok (offered c) s (bp_step c s)"
proof (cases c)
  case (BP_offer e t)
  with offer_ok [OF assms(1), of e t] show ?thesis by (simp add: step_ok_def)
next
  case (BP_offer_many es t)
  with offer_many_ok [OF assms(1)] show ?thesis by simp
next
  case BP_flush
  let ?s = "s\<lparr>bp_stats := (bp_stats s)\<lparr>bs_manual_flushes := bs_manual_flushes (bp_stats s) + 1\<rparr>\<rparr>"
  have "batches_ok ([], ?s)" using assms(1) by (simp add: batches_ok_def)
  then have "batches_ok (bp_flush s)"
    unfolding bp_flush_def Let_def by (rule batches_ok_close_if) (auto split: if_splits)
  with BP_flush show ?thesis
    by (simp add: step_ok_def bp_flush_def Let_def)
next
  case (BP_tick t)
  from assms(1) have "batches_ok (bp_tick t s)"
    unfolding bp_tick_def by (rule batches_ok_close_if) (rule flush_reason_some)
  with BP_tick show ?thesis by (simp add: step_ok_def bp_tick_def)
qed (use assms in simp)

lemma bp_run_ok:
  "batches_ok ([], s) \<Longrightarrow> BP_reset \<notin> set cs \<Longrightarrow> step_ok (concat (map offered cs)) s (bp_run cs s)"
proof (induction cs arbitrary: s)
  case (Cons c cs)
  obtain a s1 where a: "bp_step c s = (a, s1)" by (cases "bp_step c s")
  obtain b s2 where b: "bp_run cs s1 = (b, s2)" by (cases "bp_run cs s1")
  have "step_ok (offered c) s (a, s1)"
    using bp_step_ok [OF Cons.prems(1), of c] Cons.prems(2) a by auto
  moreover from this have "step_ok (concat (map offered cs)) s1 (b, s2)"
    using Cons.IH [of s1] Cons.prems(2) b by (auto simp: step_ok_def dest: batches_ok_open)
  ultimately have "step_ok (offered c @ concat (map offered cs)) s (a @ b, s2)"
    by (rule step_ok_seq)
  then show ?case by (simp add: a b)
qed (simp add: step_ok_def packets_of_def)

section \<open>Properties\<close>

text \<open>
  Whatever is offered, ticked and flushed, the closed batches followed by the open one hold
  exactly the offered envelopes in the order they were offered.
\<close>

theorem batching_conserves:
  assumes "BP_reset \<notin> set cs"
  shows "concat (map ib_packets (fst (bp_run cs (bp_init config)))) @ open_packets (snd (bp_run cs (bp_init config))) =
    concat (map offered cs)"
proof -
  have "batches_ok ([], bp_init config)" by (simp add: batches_ok_def bp_init_def)
  from bp_run_ok [OF this assms] show ?thesis
    by (simp add: step_ok_def packets_of_def) (simp add: open_packets_def bp_init_def)
qed

definition batched_beacon :: ingest_envelope where
  "batched_beacon = \<lparr>ie_packet = beacon, ie_arrival_time_ns = 5, ie_deadline_ns = 0,
     ie_priority = IP_low, ie_source = []\<rparr>"

lemma batching_conserves_witness:
  "concat (map ib_packets (fst (bp_run [BP_offer batched_beacon 6, BP_flush] (bp_init batching_config_default)))) @
     open_packets (snd (bp_run [BP_offer batched_beacon 6, BP_flush] (bp_init batching_config_default))) =
   [batched_beacon]"
  using batching_conserves [of "[BP_offer batched_beacon 6, BP_flush]" batching_config_default]
  by (simp add: offer_priority_def batched_beacon_def)

text \<open>
  Every batch the policy closes is non-empty, within the packet limit, within the byte limit
  unless it is a single packet, in sequence order for each device, and with isolation a control
  packet is alone in its batch; the reason it was closed for is recorded.
\<close>

theorem closed_batches_ok:
  assumes "BP_reset \<notin> set cs" and "b \<in> set (fst (bp_run cs (bp_init config)))"
  shows "batch_ok config b \<and> ib_close_reason b \<noteq> BR_none"
proof -
  have "batches_ok ([], bp_init config)" by (simp add: batches_ok_def bp_init_def)
  from bp_run_ok [OF this assms(1)] have "batches_ok (bp_run cs (bp_init config))"
    "bp_config (snd (bp_run cs (bp_init config))) = config"
    by (simp_all add: step_ok_def) (simp add: bp_init_def)
  with assms(2) show ?thesis by (auto simp: batches_ok_def)
qed

definition small_batches :: batching_config where
  "small_batches =
     \<lparr>bc_max_packets = 2, bc_max_payload_bytes = 8, bc_max_age_ns = 50, bc_deadline_slack_ns = 0,
      bc_priority_flush_threshold = IP_critical, bc_isolate_control_packets = True,
      bc_preserve_device_order = True\<rparr>"

definition sample_calls :: "batch_call list" where
  "sample_calls = [BP_offer batched_beacon 6, BP_flush]"

lemma sample_batches:
  "map (\<lambda>b. length (ib_packets b)) (fst (bp_run sample_calls (bp_init small_batches))) = [1]"
  by code_simp

lemma closed_batches_ok_witness:
  "\<exists>b. batch_ok small_batches b \<and> length (ib_packets b) = 1"
proof -
  have no_reset: "BP_reset \<notin> set sample_calls" by (simp add: sample_calls_def)
  obtain b where b: "b \<in> set (fst (bp_run sample_calls (bp_init small_batches)))"
    and one: "length (ib_packets b) = 1"
    using sample_batches by (cases "fst (bp_run sample_calls (bp_init small_batches))") auto
  from closed_batches_ok [OF no_reset b] one show ?thesis by blast
qed

end
