(* ===== verification/Fleet_Registry.thy ===== *)
theory Fleet_Registry
  imports Ordered_Map Types
begin

text \<open>
  The fleet registry (\<open>src/runtime/fleet_registry.cpp\<close>): a map from device to its record.
  Three operations reach a record through \<open>operator[]\<close>, which creates it on first use.
\<close>

section \<open>Data\<close>

datatype device_lifecycle = DL_unknown | DL_provisioned | DL_active | DL_quarantined | DL_retired

record device_owner =
  do_team :: string
  do_contact :: string
  do_site :: string

record device_record =
  dr_device :: device_id
  dr_serial :: string
  dr_lifecycle :: device_lifecycle
  dr_owner :: device_owner
  dr_capabilities :: device_capabilities
  dr_first_seen_ns :: u64
  dr_last_seen_ns :: u64
  dr_packets_seen :: u64
  dr_labels :: "string list"

definition device_record_default :: device_record where
  "device_record_default =
     \<lparr>dr_device = 0, dr_serial = [], dr_lifecycle = DL_unknown,
      dr_owner = \<lparr>do_team = [], do_contact = [], do_site = []\<rparr>,
      dr_capabilities = device_capabilities_default, dr_first_seen_ns = 0, dr_last_seen_ns = 0,
      dr_packets_seen = 0, dr_labels = []\<rparr>"

record fleet_summary =
  fs_total_devices :: u64
  fs_active_devices :: u64
  fs_quarantined_devices :: u64
  fs_retired_devices :: u64
  fs_packets_seen :: u64

definition fleet_summary_default :: fleet_summary where
  "fleet_summary_default = \<lparr>fs_total_devices = 0, fs_active_devices = 0, fs_quarantined_devices = 0,
     fs_retired_devices = 0, fs_packets_seen = 0\<rparr>"

type_synonym fleet_registry = "(device_id, device_record) omap"

section \<open>Operations\<close>

definition has_label :: "device_record \<Rightarrow> string \<Rightarrow> bool" where
  "has_label r label \<longleftrightarrow> label \<in> set (dr_labels r)"

definition update_seen_fields :: "u64 \<Rightarrow> device_record \<Rightarrow> device_record" where
  "update_seen_fields now_ns r =
     (let r = (if dr_first_seen_ns r = 0 then r\<lparr>dr_first_seen_ns := now_ns\<rparr> else r)
      in r\<lparr>dr_last_seen_ns := now_ns, dr_packets_seen := dr_packets_seen r + 1\<rparr>)"

definition fleet_accumulate :: "device_record \<Rightarrow> fleet_summary \<Rightarrow> fleet_summary" where
  "fleet_accumulate r summary =
     (let summary = summary\<lparr>fs_total_devices := fs_total_devices summary + 1,
            fs_packets_seen := fs_packets_seen summary + dr_packets_seen r\<rparr>
      in case dr_lifecycle r of
           DL_active \<Rightarrow> summary\<lparr>fs_active_devices := fs_active_devices summary + 1\<rparr>
         | DL_quarantined \<Rightarrow> summary\<lparr>fs_quarantined_devices := fs_quarantined_devices summary + 1\<rparr>
         | DL_retired \<Rightarrow> summary\<lparr>fs_retired_devices := fs_retired_devices summary + 1\<rparr>
         | DL_unknown \<Rightarrow> summary
         | DL_provisioned \<Rightarrow> summary)"

definition reg_upsert :: "device_record \<Rightarrow> fleet_registry \<Rightarrow> fleet_registry" where
  "reg_upsert r records = om_update (dr_device r) r records"

definition reg_erase :: "device_id \<Rightarrow> fleet_registry \<Rightarrow> bool \<times> fleet_registry" where
  "reg_erase device records = (om_lookup records device \<noteq> None, om_delete device records)"

definition reg_find :: "device_id \<Rightarrow> fleet_registry \<Rightarrow> device_record option" where
  "reg_find device records = om_lookup records device"

definition reg_mark_seen :: "packet \<Rightarrow> u64 \<Rightarrow> fleet_registry \<Rightarrow> fleet_registry" where
  "reg_mark_seen packet now_ns records =
     (let r = om_get device_record_default records (p_device packet);
          r = (if dr_device r = 0
               then r\<lparr>dr_device := p_device packet, dr_lifecycle := DL_active\<rparr> else r);
          r = (case p_capabilities packet of None \<Rightarrow> r | Some caps \<Rightarrow> r\<lparr>dr_capabilities := caps\<rparr>)
      in om_update (p_device packet) (update_seen_fields now_ns r) records)"

definition reg_set_lifecycle :: "device_id \<Rightarrow> device_lifecycle \<Rightarrow> fleet_registry \<Rightarrow> fleet_registry" where
  "reg_set_lifecycle device lifecycle records =
     (let r = om_get device_record_default records device;
          r = (if dr_device r = 0 then r\<lparr>dr_device := device\<rparr> else r)
      in om_update device (r\<lparr>dr_lifecycle := lifecycle\<rparr>) records)"

definition reg_add_label :: "device_id \<Rightarrow> string \<Rightarrow> fleet_registry \<Rightarrow> fleet_registry" where
  "reg_add_label device label records =
     (let r = om_get device_record_default records device;
          r = (if dr_device r = 0 then r\<lparr>dr_device := device\<rparr> else r)
      in om_update device (if \<not> has_label r label then r\<lparr>dr_labels := dr_labels r @ [label]\<rparr> else r) records)"

definition reg_by_lifecycle :: "device_lifecycle \<Rightarrow> fleet_registry \<Rightarrow> device_record list" where
  "reg_by_lifecycle lifecycle records = filter (\<lambda>r. dr_lifecycle r = lifecycle) (om_values records)"

definition reg_by_site :: "string \<Rightarrow> fleet_registry \<Rightarrow> device_record list" where
  "reg_by_site site records = filter (\<lambda>r. do_site (dr_owner r) = site) (om_values records)"

definition reg_summary :: "fleet_registry \<Rightarrow> fleet_summary" where
  "reg_summary records = fold fleet_accumulate (om_values records) fleet_summary_default"

definition lifecycle_name :: "device_lifecycle \<Rightarrow> string" where
  "lifecycle_name lifecycle = (case lifecycle of
     DL_unknown \<Rightarrow> ''unknown''
   | DL_provisioned \<Rightarrow> ''provisioned''
   | DL_active \<Rightarrow> ''active''
   | DL_quarantined \<Rightarrow> ''quarantined''
   | DL_retired \<Rightarrow> ''retired'')"

definition render_device_record :: "device_record \<Rightarrow> string" where
  "render_device_record r =
     ''device '' @ dec (dr_device r) @ newline @
     ''  serial: '' @ dr_serial r @ newline @
     ''  lifecycle: '' @ lifecycle_name (dr_lifecycle r) @ newline @
     ''  site: '' @ do_site (dr_owner r) @ newline @
     ''  packets_seen: '' @ dec (dr_packets_seen r) @ newline @
     ''  labels:'' @ concat (map (\<lambda>label. '' '' @ label) (dr_labels r)) @ newline"

definition render_fleet_summary :: "fleet_summary \<Rightarrow> string" where
  "render_fleet_summary summary =
     ''fleet_summary'' @ newline @
     ''  total_devices: '' @ dec (fs_total_devices summary) @ newline @
     ''  active_devices: '' @ dec (fs_active_devices summary) @ newline @
     ''  quarantined_devices: '' @ dec (fs_quarantined_devices summary) @ newline @
     ''  retired_devices: '' @ dec (fs_retired_devices summary) @ newline @
     ''  packets_seen: '' @ dec (fs_packets_seen summary) @ newline"

section \<open>Calls\<close>

datatype reg_call =
    REG_upsert device_record
  | REG_erase device_id
  | REG_mark_seen packet u64
  | REG_set_lifecycle device_id device_lifecycle
  | REG_add_label device_id string

fun reg_step :: "reg_call \<Rightarrow> fleet_registry \<Rightarrow> fleet_registry" where
  "reg_step (REG_upsert r) records = reg_upsert r records"
| "reg_step (REG_erase device) records = snd (reg_erase device records)"
| "reg_step (REG_mark_seen packet now_ns) records = reg_mark_seen packet now_ns records"
| "reg_step (REG_set_lifecycle device lifecycle) records = reg_set_lifecycle device lifecycle records"
| "reg_step (REG_add_label device label) records = reg_add_label device label records"

section \<open>The registry on all runs\<close>

definition filed :: "fleet_registry \<Rightarrow> bool" where
  "filed records \<longleftrightarrow> (\<forall>d r. om_lookup records d = Some r \<longrightarrow> dr_device r = d)"

lemma filed_get: "filed records \<Longrightarrow> dr_device (om_get device_record_default records d) \<in> {0, d}"
  by (auto simp: filed_def om_get_def device_record_default_def split: option.split)

lemma filed_step: "filed records \<Longrightarrow> filed (reg_step c records)"
proof (cases c)
  case (REG_mark_seen p t)
  assume f: "filed records"
  show ?thesis
    using f filed_get [OF f, of "p_device p"]
    by (auto simp: REG_mark_seen reg_mark_seen_def Let_def filed_def update_seen_fields_def split: option.splits)
next
  case (REG_set_lifecycle d l)
  assume f: "filed records"
  show ?thesis
    using f filed_get [OF f, of d] by (auto simp: REG_set_lifecycle reg_set_lifecycle_def Let_def filed_def)
next
  case (REG_add_label d l)
  assume f: "filed records"
  show ?thesis
    using f filed_get [OF f, of d] by (auto simp: REG_add_label reg_add_label_def Let_def filed_def)
qed (auto simp: filed_def reg_upsert_def reg_erase_def)

interpretation registry_files: state_machine om_empty reg_step filed
  by unfold_locales (auto simp: filed_step filed_def [of om_empty])

text \<open>What a sequence of calls says about one device, without the registry.\<close>

fun told_lifecycle :: "device_id \<Rightarrow> reg_call \<Rightarrow> device_lifecycle option \<Rightarrow> device_lifecycle option" where
  "told_lifecycle d (REG_upsert r) l = (if dr_device r = d then Some (dr_lifecycle r) else l)"
| "told_lifecycle d (REG_erase d') l = (if d' = d then None else l)"
| "told_lifecycle d (REG_mark_seen p t) l =
     (if p_device p \<noteq> d then l else if d = 0 then Some DL_active
      else case l of None \<Rightarrow> Some DL_active | Some x \<Rightarrow> Some x)"
| "told_lifecycle d (REG_set_lifecycle d' x) l = (if d' = d then Some x else l)"
| "told_lifecycle d (REG_add_label d' s) l =
     (if d' \<noteq> d then l else case l of None \<Rightarrow> Some DL_unknown | Some x \<Rightarrow> Some x)"

fun told_packets :: "device_id \<Rightarrow> reg_call \<Rightarrow> u64 \<Rightarrow> u64" where
  "told_packets d (REG_upsert r) n = (if dr_device r = d then dr_packets_seen r else n)"
| "told_packets d (REG_erase d') n = (if d' = d then 0 else n)"
| "told_packets d (REG_mark_seen p t) n = (if p_device p = d then n + 1 else n)"
| "told_packets d (REG_set_lifecycle d' x) n = n"
| "told_packets d (REG_add_label d' s) n = n"

lemma told_step:
  assumes "filed records"
  shows "map_option dr_lifecycle (reg_find d (reg_step c records)) =
      told_lifecycle d c (map_option dr_lifecycle (reg_find d records))"
    and "dr_packets_seen (om_get device_record_default (reg_step c records) d) =
      told_packets d c (dr_packets_seen (om_get device_record_default records d))"
proof -
  have "dr_device r = d" if "om_lookup records d = Some r" for r
    using assms that by (simp add: filed_def)
  then show "map_option dr_lifecycle (reg_find d (reg_step c records)) =
      told_lifecycle d c (map_option dr_lifecycle (reg_find d records))"
    by (cases c) (auto simp: reg_find_def reg_upsert_def reg_erase_def reg_mark_seen_def reg_set_lifecycle_def
        reg_add_label_def Let_def update_seen_fields_def om_get_def device_record_default_def split: option.splits)
  show "dr_packets_seen (om_get device_record_default (reg_step c records) d) =
      told_packets d c (dr_packets_seen (om_get device_record_default records d))"
    by (cases c) (auto simp: reg_upsert_def reg_erase_def reg_mark_seen_def reg_set_lifecycle_def
        reg_add_label_def Let_def update_seen_fields_def om_get_def device_record_default_def split: option.splits)
qed

lemma told_run:
  "map_option dr_lifecycle (reg_find d (fold reg_step cs om_empty)) = fold (told_lifecycle d) cs None \<and>
   dr_packets_seen (om_get device_record_default (fold reg_step cs om_empty) d) = fold (told_packets d) cs 0"
proof (induction cs rule: rev_induct)
  case Nil
  show ?case by (simp add: reg_find_def om_get_def device_record_default_def)
next
  case (snoc c cs)
  show ?case
    using snoc told_step [OF registry_files.inv_run [of cs], where d = d and c = c] by simp
qed

section \<open>The summary\<close>

lemma summary_fold:
  "fs_total_devices (fold fleet_accumulate rs s) = fs_total_devices s + of_nat (length rs)"
  "fs_active_devices (fold fleet_accumulate rs s) =
     fs_active_devices s + of_nat (length (filter (\<lambda>r. dr_lifecycle r = DL_active) rs))"
  "fs_quarantined_devices (fold fleet_accumulate rs s) =
     fs_quarantined_devices s + of_nat (length (filter (\<lambda>r. dr_lifecycle r = DL_quarantined) rs))"
  "fs_retired_devices (fold fleet_accumulate rs s) =
     fs_retired_devices s + of_nat (length (filter (\<lambda>r. dr_lifecycle r = DL_retired) rs))"
  "fs_packets_seen (fold fleet_accumulate rs s) = fs_packets_seen s + (\<Sum>r\<leftarrow>rs. dr_packets_seen r)"
  by (induction rs arbitrary: s)
    (simp_all add: fleet_accumulate_def Let_def add.assoc split: device_lifecycle.split)

section \<open>Properties\<close>

text \<open>
  After any calls the registry says of every device what the calls said: records are filed under
  their device; a device exists, with the life cycle it has, exactly as the last calls about it
  determine (a packet activates a device it meets first and leaves the state of others alone,
  except for device 0); its packet count is the number of packets seen since it was last written
  or erased; and the summary adds these up.
\<close>

theorem fleet_matches_calls:
  "let records = fold reg_step cs om_empty in
     (\<forall>d. map_option dr_lifecycle (reg_find d records) = fold (told_lifecycle d) cs None) \<and>
     (\<forall>d r. reg_find d records = Some r \<longrightarrow> dr_device r = d \<and> dr_packets_seen r = fold (told_packets d) cs 0) \<and>
     fs_total_devices (reg_summary records) = of_nat (om_size records) \<and>
     fs_quarantined_devices (reg_summary records) = of_nat (length (reg_by_lifecycle DL_quarantined records)) \<and>
     fs_active_devices (reg_summary records) = of_nat (length (reg_by_lifecycle DL_active records)) \<and>
     fs_packets_seen (reg_summary records) = (\<Sum>r\<leftarrow>om_values records. dr_packets_seen r)"
proof -
  let ?m = "fold reg_step cs om_empty"
  have device: "dr_device r = d" if "reg_find d ?m = Some r" for d r
    using registry_files.inv_run [of cs] that by (simp add: filed_def reg_find_def)
  have packets: "dr_packets_seen r = fold (told_packets d) cs 0" if "reg_find d ?m = Some r" for d r
    using told_run [of d cs] that by (simp add: om_get_def reg_find_def)
  have life: "map_option dr_lifecycle (reg_find d ?m) = fold (told_lifecycle d) cs None" for d
    using told_run [of d cs] by blast
  have size: "length (om_values ?m) = om_size ?m" by (simp add: om_values_def om_size_def)
  show ?thesis
    unfolding Let_def
    by (auto simp: device packets life reg_summary_def summary_fold reg_by_lifecycle_def fleet_summary_default_def size)
qed

lemma fleet_matches_calls_witness:
  "map_option dr_lifecycle (reg_find 7 (fold reg_step [REG_set_lifecycle 7 DL_quarantined,
     REG_mark_seen (packet_default\<lparr>p_device := 7\<rparr>) 5] om_empty)) = Some DL_quarantined"
proof -
  let ?cs = "[REG_set_lifecycle 7 DL_quarantined, REG_mark_seen (packet_default\<lparr>p_device := 7\<rparr>) 5]"
  have "map_option dr_lifecycle (reg_find 7 (fold reg_step ?cs om_empty)) = fold (told_lifecycle 7) ?cs None"
    using fleet_matches_calls [of ?cs] unfolding Let_def by blast
  then show ?thesis by simp
qed

text \<open>
  A packet of device 0 puts the device back into service whatever its state: the registry takes
  a record whose device is 0 for one that was just created.
\<close>

theorem device_zero_reactivated:
  assumes "p_device p = 0"
  shows "map_option dr_lifecycle (reg_find 0 (reg_mark_seen p now_ns (reg_set_lifecycle 0 lifecycle records))) =
    (if dr_device (om_get device_record_default records 0) = 0 then Some DL_active else Some lifecycle)"
  using assms
  by (auto simp: reg_find_def reg_mark_seen_def reg_set_lifecycle_def Let_def update_seen_fields_def split: option.split)

lemma device_zero_reactivated_witness:
  "map_option dr_lifecycle (reg_find 0 (reg_mark_seen packet_default 5 (reg_set_lifecycle 0 DL_quarantined om_empty))) =
     Some DL_active"
  using device_zero_reactivated [of packet_default 5 DL_quarantined om_empty]
  by (simp add: packet_default_def om_get_def device_record_default_def)

end
