(* ===== verification/Collector.thy ===== *)
theory Collector
  imports Validator Session Dispatch Recovery Config
begin

text \<open>
  The collector (\<open>src/runtime/collector.cpp\<close>) and the replay driver
  (\<open>src/runtime/replay_driver.cpp\<close>): validation, link monitor, session tracker, archive and event
  dispatcher put together, and the way back from an archive to events. The handlers act on a
  world; the archive file opens. An exception of \<open>append\<close> leaves \<open>accept\<close> with the state reached so far.
\<close>

section \<open>CollectorRuntime\<close>

record collector_stats =
  cs_packets_received :: u64
  cs_packets_archived :: u64
  cs_packets_rejected :: u64
  cs_warnings_emitted :: u64

definition collector_stats_default :: collector_stats where
  "collector_stats_default =
     \<lparr>cs_packets_received = 0, cs_packets_archived = 0, cs_packets_rejected = 0, cs_warnings_emitted = 0\<rparr>"

record collector_result =
  co_accepted :: bool
  co_messages :: "string list"

record 'w collector =
  co_profile :: collector_profile
  co_stats :: collector_stats
  co_dispatcher :: "'w event_dispatcher"
  co_sessions :: session_tracker
  co_links :: link_monitor
  co_archive :: "archive_writer option"
  co_world :: 'w

definition co_open_archive_if_needed :: "collector_profile \<Rightarrow> archive_writer option" where
  "co_open_archive_if_needed profile = (if \<not> ap_enabled (cpr_archive profile) then None else Some aw_open)"

definition co_init :: "collector_profile \<Rightarrow> 'w \<Rightarrow> 'w collector" where
  "co_init profile world =
     \<lparr>co_profile = profile, co_stats = collector_stats_default, co_dispatcher = [],
      co_sessions = st_init session_tracker_options_default,
      co_links = lm_init link_monitor_options_default,
      co_archive = co_open_archive_if_needed profile, co_world = world\<rparr>"

definition co_subscribe :: "'w event_handler \<Rightarrow> 'w collector \<Rightarrow> 'w collector" where
  "co_subscribe handler c = c\<lparr>co_dispatcher := ed_subscribe handler (co_dispatcher c)\<rparr>"

definition co_publish :: "runtime_event_kind \<Rightarrow> u64 \<Rightarrow> packet \<Rightarrow> string \<Rightarrow> 'w collector \<Rightarrow> 'w collector" where
  "co_publish kind time_ns packet message c =
     c\<lparr>co_world := ed_publish
         \<lparr>re_kind = kind, re_time_ns = time_ns, re_message = message, re_packet = packet\<rparr>
         (co_dispatcher c) (co_world c)\<rparr>"

definition co_count :: "(collector_stats \<Rightarrow> collector_stats) \<Rightarrow> 'w collector \<Rightarrow> 'w collector" where
  "co_count f c = c\<lparr>co_stats := f (co_stats c)\<rparr>"

text \<open>The loop over the issues of an accepted packet: messages so far and the collector.\<close>

definition co_warn ::
  "packet \<Rightarrow> u64 \<Rightarrow> packet_validation_issue \<Rightarrow> string list \<times> 'w collector \<Rightarrow> string list \<times> 'w collector" where
  "co_warn packet arrival_time_ns issue = (\<lambda>(messages, c).
     if vi_severity issue = VS_warning
     then (messages @ [vi_message issue],
           co_publish RE_warning arrival_time_ns packet (vi_message issue)
             (co_count (\<lambda>stats. stats\<lparr>cs_warnings_emitted := cs_warnings_emitted stats + 1\<rparr>) c))
     else (messages, c))"

definition co_observe :: "packet \<Rightarrow> u64 \<Rightarrow> 'w collector \<Rightarrow> 'w collector" where
  "co_observe packet arrival_time_ns c =
     (let c = c\<lparr>co_links := lm_observe packet arrival_time_ns (co_links c)\<rparr>;
          (events, sessions) = st_observe packet arrival_time_ns (co_sessions c);
          c = c\<lparr>co_sessions := sessions\<rparr>
      in fold (\<lambda>event. co_publish RE_session_event arrival_time_ns packet (render_session_event event)) events c)"

definition co_store :: "packet \<Rightarrow> u64 \<Rightarrow> 'w collector \<Rightarrow> (error + unit) \<times> 'w collector" where
  "co_store packet arrival_time_ns c =
     (case co_archive c of
        None \<Rightarrow> (Inr (), c)
      | Some w \<Rightarrow>
          (case aw_append arrival_time_ns packet w of
             (Inl e, w) \<Rightarrow> (Inl e, c\<lparr>co_archive := Some w\<rparr>)
           | (Inr _, w) \<Rightarrow>
               (Inr (), co_publish RE_packet_archived arrival_time_ns packet ''packet archived''
                  (co_count (\<lambda>stats. stats\<lparr>cs_packets_archived := cs_packets_archived stats + 1\<rparr>)
                    (c\<lparr>co_archive := Some w\<rparr>)))))"

definition co_accept :: "packet \<Rightarrow> u64 \<Rightarrow> 'w collector \<Rightarrow> (error + collector_result) \<times> 'w collector" where
  "co_accept packet arrival_time_ns c =
     (let c = co_count (\<lambda>stats. stats\<lparr>cs_packets_received := cs_packets_received stats + 1\<rparr>) c;
          validation = validate_packet_semantics packet packet_validation_rule_set_default default_extension_registry
      in if \<not> report_ok validation
         then (Inr \<lparr>co_accepted = False, co_messages = [render_packet_validation_report validation]\<rparr>,
               co_publish RE_error arrival_time_ns packet ''packet rejected by semantic validation''
                 (co_count (\<lambda>stats. stats\<lparr>cs_packets_rejected := cs_packets_rejected stats + 1\<rparr>) c))
         else
           let (messages, c) = fold (co_warn packet arrival_time_ns) validation ([], c);
               c = co_observe packet arrival_time_ns c
           in case co_store packet arrival_time_ns c of
                (Inl e, c) \<Rightarrow> (Inl e, c)
              | (Inr _, c) \<Rightarrow>
                  (Inr \<lparr>co_accepted = True, co_messages = messages\<rparr>,
                   co_publish RE_packet_received arrival_time_ns packet ''packet accepted'' c))"

text \<open>The destructor destroys the archive writer, which closes the archive; the file remains.\<close>

definition co_destroy :: "'w collector \<Rightarrow> bytes option" where
  "co_destroy c = map_option (\<lambda>w. aw_file (aw_destroy w)) (co_archive c)"

definition co_session_snapshot :: "'w collector \<Rightarrow> session_tracker_snapshot" where
  "co_session_snapshot c = st_snapshot (co_sessions c)"

definition co_link_report :: "'w collector \<Rightarrow> link_monitor_report" where
  "co_link_report c = lm_report (co_links c)"

definition render_collector_stats :: "collector_stats \<Rightarrow> string" where
  "render_collector_stats stats =
     ''collector_stats'' @ newline @
     ''  packets_received: '' @ dec (cs_packets_received stats) @ newline @
     ''  packets_archived: '' @ dec (cs_packets_archived stats) @ newline @
     ''  packets_rejected: '' @ dec (cs_packets_rejected stats) @ newline @
     ''  warnings_emitted: '' @ dec (cs_warnings_emitted stats) @ newline"

definition render_collector_result :: "collector_result \<Rightarrow> string" where
  "render_collector_result result =
     ''collector_result'' @ newline @
     ''  accepted: '' @ yes_no (co_accepted result) @ newline @
     concat (map (\<lambda>message. ''  message: '' @ message @ newline) (co_messages result))"

section \<open>ReplayDriver\<close>

record replay_driver_result =
  rd_stats :: replay_stats
  rd_events_published :: u64

definition replayed_event :: "archive_record \<Rightarrow> runtime_event" where
  "replayed_event r =
     \<lparr>re_kind = RE_packet_received, re_time_ns = rec_capture_time_ns r,
      re_message = ''replayed archive packet'', re_packet = rec_packet r\<rparr>"

definition rd_run ::
  "replay_options \<Rightarrow> 'w event_dispatcher \<Rightarrow> bytes \<Rightarrow> 'w \<Rightarrow> (error + replay_driver_result) \<times> 'w" where
  "rd_run options handlers archive world =
     (case ar_open archive of
        Inl e \<Rightarrow> (Inl e, world)
      | Inr reader \<Rightarrow>
          (case replay_engine options of
             Inl e \<Rightarrow> (Inl e, world)
           | Inr options \<Rightarrow>
               let (emitted, result) = replay_run options reader;
                   world = fold (\<lambda>r. ed_publish (replayed_event r) handlers) emitted world
               in case result of
                    Inl e \<Rightarrow> (Inl e, world)
                  | Inr stats \<Rightarrow>
                      (Inr \<lparr>rd_stats = stats, rd_events_published = of_nat (length emitted)\<rparr>, world)))"

definition render_replay_driver_result :: "replay_driver_result \<Rightarrow> string" where
  "render_replay_driver_result result =
     ''replay_driver_result'' @ newline @
     ''  records_seen: '' @ dec (rt_records_seen (rd_stats result)) @ newline @
     ''  records_emitted: '' @ dec (rt_records_emitted (rd_stats result)) @ newline @
     ''  events_published: '' @ dec (rd_events_published result) @ newline"

section \<open>What an accepted packet does to the collector\<close>

definition admitted :: "packet \<Rightarrow> bool" where
  "admitted p \<longleftrightarrow>
     report_ok (validate_packet_semantics p packet_validation_rule_set_default default_extension_registry)"

definition co_accept_all :: "capture list \<Rightarrow> 'w collector \<Rightarrow> 'w collector" where
  "co_accept_all cs c = fold (\<lambda>(t, p) c. snd (co_accept p t c)) cs c"

lemma publish_fields [simp]:
  "co_profile (co_publish k t p m c) = co_profile c"
  "co_stats (co_publish k t p m c) = co_stats c"
  "co_dispatcher (co_publish k t p m c) = co_dispatcher c"
  "co_sessions (co_publish k t p m c) = co_sessions c"
  "co_links (co_publish k t p m c) = co_links c"
  "co_archive (co_publish k t p m c) = co_archive c"
  by (simp_all add: co_publish_def)

lemma count_fields [simp]:
  "co_stats (co_count f c) = f (co_stats c)"
  "co_sessions (co_count f c) = co_sessions c"
  "co_links (co_count f c) = co_links c"
  "co_archive (co_count f c) = co_archive c"
  by (simp_all add: co_count_def)

lemma fold_field: "(\<And>x c. f (g x c) = f c) \<Longrightarrow> f (fold g xs c) = f c"
  by (induction xs arbitrary: c) simp_all

lemma observe_fields:
  "co_stats (co_observe p t c) = co_stats c"
  "co_archive (co_observe p t c) = co_archive c"
  "co_links (co_observe p t c) = lm_observe p t (co_links c)"
  "co_sessions (co_observe p t c) = snd (st_observe p t (co_sessions c))"
  by (simp_all add: co_observe_def Let_def split_beta fold_field [where f = co_stats]
      fold_field [where f = co_archive] fold_field [where f = co_links] fold_field [where f = co_sessions])

lemma warn_fields:
  "co_archive (snd (fold (co_warn p t) issues mc)) = co_archive (snd mc)"
  "co_links (snd (fold (co_warn p t) issues mc)) = co_links (snd mc)"
  "co_sessions (snd (fold (co_warn p t) issues mc)) = co_sessions (snd mc)"
  "cs_packets_received (co_stats (snd (fold (co_warn p t) issues mc))) = cs_packets_received (co_stats (snd mc))"
  "cs_packets_archived (co_stats (snd (fold (co_warn p t) issues mc))) = cs_packets_archived (co_stats (snd mc))"
  "cs_packets_rejected (co_stats (snd (fold (co_warn p t) issues mc))) = cs_packets_rejected (co_stats (snd mc))"
  by (induction issues arbitrary: mc) (simp_all add: co_warn_def split_beta)

text \<open>The state of the collector that its operations report: what a step does to it, by case.\<close>

lemma accept_rejected:
  assumes "\<not> admitted p"
  shows "co_sessions (snd (co_accept p t c)) = co_sessions c"
    and "co_links (snd (co_accept p t c)) = co_links c"
    and "co_archive (snd (co_accept p t c)) = co_archive c"
    and "co_stats (snd (co_accept p t c)) = (co_stats c)
      \<lparr>cs_packets_received := cs_packets_received (co_stats c) + 1,
       cs_packets_rejected := cs_packets_rejected (co_stats c) + 1\<rparr>"
  using assms by (simp_all add: co_accept_def Let_def admitted_def)

lemma accept_admitted:
  assumes "admitted p" and "co_archive c = Some w" and "aw_good w" and "packet_ok p"
  shows "co_sessions (snd (co_accept p t c)) = snd (st_observe p t (co_sessions c))"
    and "co_links (snd (co_accept p t c)) = lm_observe p t (co_links c)"
    and "co_archive (snd (co_accept p t c)) = Some (snd (aw_append t p w))"
    and "cs_packets_received (co_stats (snd (co_accept p t c))) = cs_packets_received (co_stats c) + 1"
    and "cs_packets_archived (co_stats (snd (co_accept p t c))) = cs_packets_archived (co_stats c) + 1"
    and "cs_packets_rejected (co_stats (snd (co_accept p t c))) = cs_packets_rejected (co_stats c)"
  using assms append_good [OF assms(3,4), of t]
  by (simp_all add: co_accept_def Let_def admitted_def split_beta co_store_def observe_fields warn_fields)

definition kept :: "capture list \<Rightarrow> capture list" where
  "kept cs = filter (\<lambda>c. admitted (snd c)) cs"

lemma kept_Cons [simp]:
  "kept [] = []" "kept (c # cs) = (if admitted (snd c) then c # kept cs else kept cs)"
  by (simp_all add: kept_def)

lemma accept_all_run:
  assumes "co_archive c = Some w" and "aw_good w" and "\<forall>c \<in> set (kept cs). packet_ok (snd c)"
  defines "c' \<equiv> co_accept_all cs c"
  shows "co_archive c' = Some (aw_append_all (kept cs) w) \<and>
    co_sessions c' = fold (\<lambda>(t, p) s. snd (st_observe p t s)) (kept cs) (co_sessions c) \<and>
    co_links c' = fold (\<lambda>(t, p). lm_observe p t) (kept cs) (co_links c) \<and>
    cs_packets_received (co_stats c') = cs_packets_received (co_stats c) + of_nat (length cs) \<and>
    cs_packets_archived (co_stats c') = cs_packets_archived (co_stats c) + of_nat (length (kept cs)) \<and>
    cs_packets_rejected (co_stats c') = cs_packets_rejected (co_stats c) + of_nat (length cs - length (kept cs))"
  using assms(1-3) unfolding c'_def
proof (induction cs arbitrary: c w)
  case Nil
  then show ?case by (simp add: co_accept_all_def aw_append_all_def)
next
  case (Cons cap cs)
  obtain t p where cap: "cap = (t, p)" by (cases cap)
  have len: "length (kept cs) \<le> length cs" by (simp add: kept_def)
  have step: "co_accept_all ((t, p) # cs) c = co_accept_all cs (snd (co_accept p t c))"
    by (simp add: co_accept_all_def)
  show ?case
  proof (cases "admitted p")
    case True
    have p: "packet_ok p" and good: "\<forall>c \<in> set (kept cs). packet_ok (snd c)"
      using Cons.prems(3) True cap by simp_all
    have w: "aw_good (snd (aw_append t p w))" using append_good [OF Cons.prems(2) p] Cons.prems(2) by simp
    note run = Cons.IH [OF accept_admitted(3) [OF True Cons.prems(1,2) p] w good]
    show ?thesis
      using run len True
      by (simp add: step cap accept_admitted [OF True Cons.prems(1,2) p] aw_append_all_def add.assoc)
  next
    case False
    then have good: "\<forall>c \<in> set (kept cs). packet_ok (snd c)" using Cons.prems(3) cap by simp
    have arch: "co_archive (snd (co_accept p t c)) = Some w"
      using Cons.prems(1) by (simp add: accept_rejected [OF False])
    show ?thesis
      using Cons.IH [OF arch Cons.prems(2) good] False len
      by (simp add: step cap accept_rejected [OF False] Suc_diff_le add.assoc)
  qed
qed

lemma init_fields:
  "co_archive (fold co_subscribe handlers (co_init profile world)) = co_open_archive_if_needed profile"
  "co_sessions (fold co_subscribe handlers (co_init profile world)) = st_init session_tracker_options_default"
  "co_links (fold co_subscribe handlers (co_init profile world)) = lm_init link_monitor_options_default"
  "co_stats (fold co_subscribe handlers (co_init profile world)) = collector_stats_default"
  by (simp_all add: co_subscribe_def co_init_def fold_field [where f = co_archive]
      fold_field [where f = co_sessions] fold_field [where f = co_links] fold_field [where f = co_stats])

lemma destroy_archive:
  assumes "co_archive c = Some (aw_append_all cs aw_open)" and "\<forall>c \<in> set cs. packet_ok (snd c)"
  shows "co_destroy c = Some (archive_of cs)"
  using assms append_all_good [OF _ assms(2), of aw_open]
  by (simp add: co_destroy_def archive_of_def aw_destroy_def aw_open_def)

lemma collector_run:
  fixes handlers :: "'w event_handler list"
  assumes "ap_enabled (cpr_archive profile)" and "\<forall>c \<in> set (kept cs). packet_ok (snd c)"
  shows "co_destroy (co_accept_all cs (fold co_subscribe handlers (co_init profile world))) =
      Some (archive_of (kept cs))"
    and "let c = co_accept_all cs (fold co_subscribe handlers (co_init profile world)) in
      co_sessions c = fold (\<lambda>(t, p) s. snd (st_observe p t s)) (kept cs) (st_init session_tracker_options_default) \<and>
      co_links c = fold (\<lambda>(t, p). lm_observe p t) (kept cs) (lm_init link_monitor_options_default) \<and>
      cs_packets_received (co_stats c) = of_nat (length cs) \<and>
      cs_packets_archived (co_stats c) = of_nat (length (kept cs)) \<and>
      cs_packets_rejected (co_stats c) = of_nat (length cs - length (kept cs))"
proof -
  have opened: "co_archive (fold co_subscribe handlers (co_init profile world)) = Some aw_open"
    using assms(1) by (simp add: init_fields co_open_archive_if_needed_def)
  have good: "aw_good aw_open" by (simp add: aw_open_def)
  note run = accept_all_run [OF opened good assms(2)]
  show "co_destroy (co_accept_all cs (fold co_subscribe handlers (co_init profile world))) =
      Some (archive_of (kept cs))"
    by (rule destroy_archive [OF conjunct1 [OF run] assms(2)])
  show "let c = co_accept_all cs (fold co_subscribe handlers (co_init profile world)) in
      co_sessions c = fold (\<lambda>(t, p) s. snd (st_observe p t s)) (kept cs) (st_init session_tracker_options_default) \<and>
      co_links c = fold (\<lambda>(t, p). lm_observe p t) (kept cs) (lm_init link_monitor_options_default) \<and>
      cs_packets_received (co_stats c) = of_nat (length cs) \<and>
      cs_packets_archived (co_stats c) = of_nat (length (kept cs)) \<and>
      cs_packets_rejected (co_stats c) = of_nat (length cs - length (kept cs))"
    unfolding Let_def using run by (simp add: init_fields collector_stats_default_def)
qed

section \<open>What a replay publishes\<close>

definition replay_events :: "replay_options \<Rightarrow> 'w event_dispatcher \<Rightarrow> capture list \<Rightarrow> 'w \<Rightarrow> 'w" where
  "replay_events options handlers cs world =
     fold (\<lambda>(t, p). ed_publish \<lparr>re_kind = RE_packet_received, re_time_ns = t,
         re_message = ''replayed archive packet'', re_packet = p\<rparr> handlers)
       (filter (\<lambda>c. within_window options (fst c)) cs) world"

lemma publish_records:
  "fold (\<lambda>r. ed_publish (replayed_event r) handlers) records world =
   fold (\<lambda>(t, p). ed_publish \<lparr>re_kind = RE_packet_received, re_time_ns = t,
         re_message = ''replayed archive packet'', re_packet = p\<rparr> handlers)
     (map (\<lambda>r. (rec_capture_time_ns r, rec_packet r)) records) world"
  by (induction records arbitrary: world) (simp_all add: replayed_event_def)

lemma replay_prefix:
  "storable cs \<Longrightarrow> ar_file r = pre @ concat (map capture_bytes cs) @ rest \<Longrightarrow> ar_pos r = length pre \<Longrightarrow>
   \<not> ar_failed r \<Longrightarrow> \<exists>stats'. replay_loop options stats r =
     (filter (\<lambda>r. within_window options (rec_capture_time_ns r)) (records_from (length pre) cs) @
        fst (replay_loop options stats' (r\<lparr>ar_pos := length (pre @ concat (map capture_bytes cs))\<rparr>)),
      snd (replay_loop options stats' (r\<lparr>ar_pos := length (pre @ concat (map capture_bytes cs))\<rparr>)))"
proof (induction cs arbitrary: r pre stats)
  case Nil
  then have "r\<lparr>ar_pos := length pre\<rparr> = r" by (cases r) simp
  then show ?case by (intro exI [of _ stats]) simp
next
  case (Cons c cs)
  let ?f = "frame_of (snd c)" and ?r' = "r\<lparr>ar_pos := length pre + length (capture_bytes c)\<rparr>"
  have ok: "batchable (snd c)" using Cons.prems(1) by (simp add: storable_def)
  have nx: "ar_next r = (Inr (Some \<lparr>rec_offset = of_nat (length pre), rec_capture_time_ns = fst c,
      rec_packet = snd c\<rparr>), ?r')"
    using next_record [of r pre "fst c" ?f "concat (map capture_bytes cs) @ rest"] Cons.prems ok
    by (simp add: capture_bytes_def [of c] decode_frame_of batchable_def)
  have IH: "\<exists>stats'. replay_loop options stats ?r' =
     (filter (\<lambda>r. within_window options (rec_capture_time_ns r)) (records_from (length (pre @ capture_bytes c)) cs) @
        fst (replay_loop options stats' (?r'\<lparr>ar_pos := length ((pre @ capture_bytes c) @ concat (map capture_bytes cs))\<rparr>)),
      snd (replay_loop options stats' (?r'\<lparr>ar_pos := length ((pre @ capture_bytes c) @ concat (map capture_bytes cs))\<rparr>)))"
    for stats
    using Cons.prems by (intro Cons.IH) (simp_all add: storable_def)
  show ?case
  proof (cases "within_window options (fst c)")
    case True
    then show ?thesis
      using IH [of "replay_emit \<lparr>rec_offset = of_nat (length pre), rec_capture_time_ns = fst c,
          rec_packet = snd c\<rparr> (stats\<lparr>rt_records_seen := rt_records_seen stats + 1\<rparr>)"]
      by (auto simp: replay_loop.simps [of options stats r] nx Let_def add.assoc)
  next
    case False
    then show ?thesis
      using IH [of "stats\<lparr>rt_records_seen := rt_records_seen stats + 1\<rparr>"]
      by (auto simp: replay_loop.simps [of options stats r] nx Let_def add.assoc)
  qed
qed

lemma archive_bytes:
  assumes "\<forall>c \<in> set cs. packet_ok (snd c)"
  shows "archive_of cs = archive_magic @
    archive_header (fold summary_add (map fst cs) archive_summary_default) @ concat (map capture_bytes cs)"
  using append_all_good [OF _ assms, of aw_open]
  by (simp add: archive_of_def aw_close_def aw_write_all_def aw_open_def overwrite_def)

lemma replay_stops:
  assumes "storable cs" and p: "packet_ok p" "1048576 < frame_size p" "frame_size p < 4294967296"
    and rest: "\<forall>c \<in> set cs'. packet_ok (snd c)" and speed: "0 < ro_speed options"
  shows "rd_run options handlers (archive_of (cs @ (t, p) # cs')) world =
    (Inl (Error EC_archive_corrupt ''archive record frame exceeds packet size limit''),
     replay_events options handlers cs world)"
proof -
  let ?all = "cs @ (t, p) # cs'"
  let ?s = "fold summary_add (map fst ?all) archive_summary_default"
  let ?pre = "archive_magic @ archive_header ?s"
  let ?tail = "record_bytes t (frame_of p) @ concat (map capture_bytes cs')"
  define bs where "bs = ?pre @ concat (map capture_bytes cs) @ ?tail"
  define r where "r = \<lparr>ar_file = bs, ar_pos = 36, ar_failed = False, ar_summary = ?s\<rparr>"
  have whole: "archive_of ?all = bs"
    using storable_ok [OF assms(1)] p(1) rest
    by (subst archive_bytes) (auto simp: bs_def capture_bytes_def [of "(t, p)"])
  have opened: "ar_open bs = Inr r"
    using open_header [of ?s "concat (map capture_bytes cs) @ ?tail"] by (simp add: bs_def r_def)
  let ?pos = "length (?pre @ concat (map capture_bytes cs))"
  obtain r' where nx: "ar_next (r\<lparr>ar_pos := ?pos\<rparr>) =
      (Inl (Error EC_archive_corrupt ''archive record frame exceeds packet size limit''), r')"
    using next_oversize [of "r\<lparr>ar_pos := ?pos\<rparr>" "?pre @ concat (map capture_bytes cs)" t "frame_of p"
        "concat (map capture_bytes cs')"] p
    by (auto simp: r_def bs_def length_frame_of)
  have stop: "replay_loop options stats (r\<lparr>ar_pos := ?pos\<rparr>) =
      ([], Inl (Error EC_archive_corrupt ''archive record frame exceeds packet size limit''))" for stats
    by (subst replay_loop.simps, subst nx, simp)
  have start: "ar_file r = ?pre @ concat (map capture_bytes cs) @ ?tail" "ar_pos r = length ?pre" "\<not> ar_failed r"
    by (simp_all add: r_def bs_def)
  have "replay_run options r =
     (filter (\<lambda>r. within_window options (rec_capture_time_ns r)) (records_from (length ?pre) cs),
      Inl (Error EC_archive_corrupt ''archive record frame exceeds packet size limit''))"
    using replay_prefix [OF assms(1) start, of options
        "\<lparr>rt_records_seen = 0, rt_records_emitted = 0, rt_bytes_emitted = 0\<rparr>"]
    unfolding replay_run_def stop by simp
  moreover have "map (\<lambda>r. (rec_capture_time_ns r, rec_packet r))
      (filter (\<lambda>r. within_window options (rec_capture_time_ns r)) (records_from n cs)) =
      filter (\<lambda>c. within_window options (fst c)) cs" for n
    using filter_map [of "\<lambda>c. within_window options (fst c)" "\<lambda>r. (rec_capture_time_ns r, rec_packet r)"
        "records_from n cs"]
    by (simp add: records_from_captures comp_def)
  ultimately show ?thesis
    using speed by (simp add: rd_run_def whole opened replay_engine_def publish_records replay_events_def)
qed

section \<open>Properties\<close>


definition sample_profile :: collector_profile where
  "sample_profile = \<lparr>cpr_name = ''site'',
     cpr_archive = \<lparr>ap_enabled = True, ap_path = ''capture.ath'', ap_rotate_bytes = 0\<rparr>,
     cpr_stream = stream_profile_default, cpr_routing = \<lparr>rp_region = 1, rp_default_priority = 0\<rparr>,
     cpr_warnings = []\<rparr>"

definition bad_fragment :: packet where
  "bad_fragment = beacon\<lparr>p_fragment := Some \<lparr>fi_stream_id = 1, fi_sequence = 0, fi_count = 0\<rparr>\<rparr>"

lemma sample_verdicts [simp]: "admitted sample_packet" "admitted beacon" "\<not> admitted bad_fragment"
  by (simp_all add: admitted_def ok_semantics bad_fragment_def beacon_def sample_packet_def packet_default_def
      packet_validation_rule_set_default_def)

lemma sample_kept: "kept [(5, sample_packet), (6, bad_fragment), (3, beacon)] = sample_captures"
  by (simp add: sample_captures_def)


text \<open>
  The accounts of a collector: every packet it received was archived or rejected, the archive
  counts exactly the packets that passed validation, and the sessions and the link samples are
  those of the admitted packets alone, in the order of arrival.
\<close>

theorem collector_accounts:
  assumes "ap_enabled (cpr_archive profile)" and "\<forall>(t, p) \<in> set cs. admitted p \<longrightarrow> packet_ok p"
  shows "let c = co_accept_all cs (fold co_subscribe handlers (co_init profile world)) in
    cs_packets_received (co_stats c) = of_nat (length cs) \<and>
    cs_packets_archived (co_stats c) = of_nat (length (filter (\<lambda>(t, p). admitted p) cs)) \<and>
    cs_packets_rejected (co_stats c) = of_nat (length (filter (\<lambda>(t, p). \<not> admitted p) cs)) \<and>
    co_session_snapshot c = st_snapshot (fold (\<lambda>(t, p) s. snd (st_observe p t s))
      (filter (\<lambda>(t, p). admitted p) cs) (st_init session_tracker_options_default)) \<and>
    co_link_report c = lm_report (fold (\<lambda>(t, p). lm_observe p t)
      (filter (\<lambda>(t, p). admitted p) cs) (lm_init link_monitor_options_default))"
proof -
  have kept: "kept cs = filter (\<lambda>(t, p). admitted p) cs"
    by (auto simp: kept_def intro!: filter_cong)
  have ok: "\<forall>c \<in> set (kept cs). packet_ok (snd c)" using assms(2) by (auto simp: kept_def)
  have len: "length cs - length (kept cs) = length (filter (\<lambda>(t, p). \<not> admitted p) cs)"
    using sum_length_filter_compl [of "\<lambda>(t, p). admitted p" cs] by (simp add: kept case_prod_unfold)
  show ?thesis
    using collector_run(2) [OF assms(1) ok, of handlers world]
    by (simp add: Let_def len co_session_snapshot_def co_link_report_def) (simp add: kept)
qed

lemma collector_accounts_witness:
  "let c = co_accept_all [(5, sample_packet), (6, bad_fragment), (3, beacon)] (co_init sample_profile ()) in
     cs_packets_received (co_stats c) = 3 \<and> cs_packets_archived (co_stats c) = 2 \<and>
     cs_packets_rejected (co_stats c) = 1"
  using collector_accounts [of sample_profile "[(5, sample_packet), (6, bad_fragment), (3, beacon)]" "[]" "()"]
  by (simp add: sample_profile_def Let_def)

text \<open>
  An admitted packet that cannot be encoded makes \<open>accept\<close> throw after the session tracker and
  the link monitor have recorded it: the exception is the encoder's, the packet counts as
  received but neither as archived nor as rejected, and the archive is as before.
\<close>

theorem accept_throws_after_counting:
  assumes "admitted p" and "co_archive c = Some w" and "encode_packet p = Inl e"
  shows "fst (co_accept p t c) = Inl e \<and>
    (let c' = snd (co_accept p t c) in
      co_archive c' = Some w \<and>
      co_sessions c' = snd (st_observe p t (co_sessions c)) \<and> co_links c' = lm_observe p t (co_links c) \<and>
      cs_packets_received (co_stats c') = cs_packets_received (co_stats c) + 1 \<and>
      cs_packets_archived (co_stats c') = cs_packets_archived (co_stats c) \<and>
      cs_packets_rejected (co_stats c') = cs_packets_rejected (co_stats c))"
  using assms
  by (simp add: co_accept_def Let_def admitted_def split_beta co_store_def aw_append_def observe_fields warn_fields)

definition deep_route :: packet where
  "deep_route = beacon\<lparr>p_route := Some \<lparr>ri_region = 1, ri_collector = 1, ri_priority = 0,
     ri_relay_path = replicate 33 4\<rparr>\<rparr>"

lemma accept_throws_after_counting_witness:
  "fst (co_accept deep_route 5 (co_init sample_profile ())) =
     Inl (Error EC_invalid_argument ''relay path is too deep'') \<and>
   cs_packets_rejected (co_stats (snd (co_accept deep_route 5 (co_init sample_profile ())))) = 0"
proof -
  have ok: "admitted deep_route"
    by (simp add: admitted_def ok_semantics deep_route_def beacon_def packet_default_def
        packet_validation_rule_set_default_def)
  have arch: "co_archive (co_init sample_profile ()) = Some aw_open"
    by (simp add: co_init_def co_open_archive_if_needed_def sample_profile_def)
  have enc: "encode_packet deep_route = Inl (Error EC_invalid_argument ''relay path is too deep'')"
    by (simp add: encode_packet_def encode_payload_sections_def deep_route_def beacon_def packet_default_def
        write_route_def Let_def err_bind_def)
  show ?thesis
    using accept_throws_after_counting [OF ok arch enc, of 5]
    by (simp add: Let_def co_init_def collector_stats_default_def)
qed

text \<open>
  The collector archives packets the archive's reader refuses. A valid packet whose frame is
  longer than 1048576 bytes is accepted and counted as archived like any other; a replay of the
  archive then publishes the packets before it and ends with an error, and every packet archived
  after it is lost to the replay.
\<close>

theorem oversize_packet_ends_replay:
  assumes "ap_enabled (cpr_archive profile)" and "0 < ro_speed options"
    and "storable (kept cs)" and "admitted p" and "packet_ok p"
    and "1048576 < frame_size p" and "frame_size p < 4294967296" and "\<forall>c \<in> set (kept cs'). packet_ok (snd c)"
  shows "\<exists>file.
    co_destroy (co_accept_all (cs @ (t, p) # cs') (fold co_subscribe watchers (co_init profile world))) = Some file \<and>
    cs_packets_archived (co_stats (co_accept_all (cs @ (t, p) # cs')
      (fold co_subscribe watchers (co_init profile world)))) = of_nat (length (kept cs) + 1 + length (kept cs')) \<and>
    rd_run options handlers file replay_world =
      (Inl (Error EC_archive_corrupt ''archive record frame exceeds packet size limit''),
       replay_events options handlers (kept cs) replay_world)"
proof -
  have kept: "kept (cs @ (t, p) # cs') = kept cs @ (t, p) # kept cs'"
    using assms(4) by (simp add: kept_def)
  have ok: "\<forall>c \<in> set (kept (cs @ (t, p) # cs')). packet_ok (snd c)"
    using storable_ok [OF assms(3)] assms(5,8) by (auto simp: kept)
  note run = collector_run [OF assms(1) ok, of watchers world]
  show ?thesis
    using run replay_stops [OF assms(3,5,6,7,8,2)] unfolding kept Let_def by simp
qed

definition large_packet :: packet where
  "large_packet = beacon\<lparr>p_payload := replicate 1048576 0\<rparr>"

lemma oversize_packet_ends_replay_witness:
  "\<exists>file. co_destroy (co_accept_all [(5, sample_packet), (6, large_packet), (7, beacon)]
       (co_init sample_profile ())) = Some file \<and>
     rd_run \<lparr>ro_speed = 1, ro_start_time_ns = 0, ro_end_time_ns = 0, ro_preserve_timing = False\<rparr>
       [\<lambda>e log. log @ [(re_time_ns e, re_packet e)]] file [] =
     (Inl (Error EC_archive_corrupt ''archive record frame exceeds packet size limit''), [(5, sample_packet)])"
proof -
  have large: "admitted large_packet" "packet_ok large_packet" "frame_size large_packet = 1048621"
    by (simp_all add: admitted_def ok_semantics large_packet_def beacon_def packet_default_def
        packet_validation_rule_set_default_def packet_ok_def frame_size_def sections_of_def)
  have "storable (kept [(5, sample_packet)])"
    by (simp add: storable_def batchable_def length_frame_of)
  then show ?thesis
    using oversize_packet_ends_replay [of sample_profile "\<lparr>ro_speed = 1, ro_start_time_ns = 0, ro_end_time_ns = 0,
        ro_preserve_timing = False\<rparr>" "[(5, sample_packet)]" large_packet "[(7, beacon)]" 6 "[]" "()"
        "[\<lambda>e log. log @ [(re_time_ns e, re_packet e)]]" "[]"] large
    by (auto simp: sample_profile_def replay_events_def within_window_def ed_publish_def)
qed

end
