(* ===== verification/Device_Limiter.thy ===== *)
theory Device_Limiter
  imports Ordered_Map
begin

text \<open>
  The per-device token buckets and leases of \<open>src/control/device_limiter.cpp\<close>. A pointer into
  \<open>devices_\<close> is modelled by looking the device up again: \<open>std::map\<close> keeps its nodes in place.
\<close>

section \<open>Data\<close>

datatype device_lease_mode = LM_shared | LM_exclusive

datatype device_limit_decision = LD_allowed | LD_delayed | LD_locked | LD_rate_limited | LD_unknown_device

record device_rate_limit =
  rl_burst :: u32
  rl_refill_per_second :: u32
  rl_minimum_tokens :: u32

definition rate_limit_default :: device_rate_limit where
  "rate_limit_default = \<lparr>rl_burst = 16, rl_refill_per_second = 16, rl_minimum_tokens = 1\<rparr>"

record device_limiter_config =
  dlc_default_limit :: device_rate_limit
  dlc_default_lease_ttl_ns :: u64
  dlc_allow_unknown_devices :: bool

definition device_limiter_config_default :: device_limiter_config where
  "device_limiter_config_default =
     \<lparr>dlc_default_limit = rate_limit_default, dlc_default_lease_ttl_ns = 5000000000,
      dlc_allow_unknown_devices = True\<rparr>"

record device_lease_request =
  rq_device :: device_id
  rq_mode :: device_lease_mode
  rq_now_ns :: u64
  rq_ttl_ns :: u64
  rq_owner :: string

record device_lease =
  le_id :: u64
  le_device :: device_id
  le_mode :: device_lease_mode
  le_acquired_time_ns :: u64
  le_expires_time_ns :: u64
  le_owner :: string

record device_limit_result =
  lr_decision :: device_limit_decision
  lr_retry_after_ns :: u64
  lr_reason :: string

record device_limiter_stats =
  dls_allowed :: u64
  dls_delayed :: u64
  dls_locked :: u64
  dls_rate_limited :: u64
  dls_leases_granted :: u64
  dls_leases_released :: u64
  dls_leases_expired :: u64

definition device_limiter_stats_default :: device_limiter_stats where
  "device_limiter_stats_default =
     \<lparr>dls_allowed = 0, dls_delayed = 0, dls_locked = 0, dls_rate_limited = 0,
      dls_leases_granted = 0, dls_leases_released = 0, dls_leases_expired = 0\<rparr>"

record device_limiter_snapshot =
  dsn_device :: device_id
  dsn_tokens :: u32
  dsn_last_refill_ns :: u64
  dsn_leases :: "device_lease list"

record device_bucket =
  bk_limit :: device_rate_limit
  bk_tokens :: u32
  bk_last_refill_ns :: u64
  bk_leases :: "device_lease list"

definition bucket_default :: device_bucket where
  "bucket_default =
     \<lparr>bk_limit = rate_limit_default, bk_tokens = 0, bk_last_refill_ns = 0, bk_leases = []\<rparr>"

record device_limiter =
  dl_config :: device_limiter_config
  dl_devices :: "(device_id, device_bucket) omap"
  dl_stats :: device_limiter_stats
  dl_next_lease_id :: u64

section \<open>Operations\<close>

definition one_second_ns :: u64 where
  "one_second_ns = 1000000000"

definition normalized_limit :: "device_rate_limit \<Rightarrow> device_rate_limit" where
  "normalized_limit limit =
     (let limit = (if rl_burst limit = 0 then limit\<lparr>rl_burst := 1\<rparr> else limit);
          limit = (if rl_refill_per_second limit = 0 then limit\<lparr>rl_refill_per_second := 1\<rparr> else limit);
          limit = (if rl_minimum_tokens limit = 0 then limit\<lparr>rl_minimum_tokens := 1\<rparr> else limit);
          limit = (if rl_minimum_tokens limit > rl_burst limit
                   then limit\<lparr>rl_minimum_tokens := rl_burst limit\<rparr> else limit)
      in limit)"

definition dl_init :: "device_limiter_config \<Rightarrow> device_limiter" where
  "dl_init config =
     \<lparr>dl_config = config\<lparr>dlc_default_limit := normalized_limit (dlc_default_limit config)\<rparr>,
      dl_devices = om_empty, dl_stats = device_limiter_stats_default, dl_next_lease_id = 1\<rparr>"

definition dl_snapshot :: "device_limiter \<Rightarrow> device_limiter_snapshot list" where
  "dl_snapshot s =
     map (\<lambda>(device, bucket). \<lparr>dsn_device = device, dsn_tokens = bk_tokens bucket,
            dsn_last_refill_ns = bk_last_refill_ns bucket, dsn_leases = bk_leases bucket\<rparr>)
       (om_entries (dl_devices s))"

definition dl_find_bucket :: "device_id \<Rightarrow> device_limiter \<Rightarrow> device_bucket option" where
  "dl_find_bucket device s = om_lookup (dl_devices s) device"

definition dl_put :: "device_id \<Rightarrow> device_bucket \<Rightarrow> device_limiter \<Rightarrow> device_limiter" where
  "dl_put device bucket s = s\<lparr>dl_devices := om_update device bucket (dl_devices s)\<rparr>"

definition dl_register_device :: "device_id \<Rightarrow> device_rate_limit \<Rightarrow> device_limiter \<Rightarrow> device_limiter" where
  "dl_register_device device limit s =
     (let limit = (if rl_burst limit = 0 \<and> rl_refill_per_second limit = 0
                   then dlc_default_limit (dl_config s) else limit);
          bucket = om_get bucket_default (dl_devices s) device;
          limit = normalized_limit limit
      in dl_put device (bucket\<lparr>bk_limit := limit, bk_tokens := rl_burst limit\<rparr>) s)"

definition dl_unregister_device :: "device_id \<Rightarrow> device_limiter \<Rightarrow> device_limiter" where
  "dl_unregister_device device s = s\<lparr>dl_devices := om_delete device (dl_devices s)\<rparr>"

definition dl_set_limit :: "device_id \<Rightarrow> device_rate_limit \<Rightarrow> device_limiter \<Rightarrow> device_limiter" where
  "dl_set_limit device limit s =
     (let bucket = om_get bucket_default (dl_devices s) device;
          limit = normalized_limit limit
      in dl_put device (bucket\<lparr>bk_limit := limit, bk_tokens := min (bk_tokens bucket) (rl_burst limit)\<rparr>) s)"

definition lease_conflict :: "device_bucket \<Rightarrow> device_lease_mode \<Rightarrow> bool" where
  "lease_conflict bucket mode =
     (if bk_leases bucket = [] then False
      else if mode = LM_exclusive then True
      else list_ex (\<lambda>lease. le_mode lease = LM_exclusive) (bk_leases bucket))"

definition retry_after :: "device_bucket \<Rightarrow> u32 \<Rightarrow> u64" where
  "retry_after bucket cost =
     (if rl_refill_per_second (bk_limit bucket) = 0 then one_second_ns
      else let missing = (if cost > bk_tokens bucket then cost - bk_tokens bucket else 0)
           in if missing = 0 then 0
              else let numerator = ucast missing * one_second_ns
                   in (numerator + ucast (rl_refill_per_second (bk_limit bucket)) - 1)
                        div ucast (rl_refill_per_second (bk_limit bucket)))"

definition refill :: "u64 \<Rightarrow> device_bucket \<Rightarrow> device_bucket" where
  "refill now_ns bucket =
     (if bk_last_refill_ns bucket = 0
      then let bucket = bucket\<lparr>bk_last_refill_ns := now_ns\<rparr>
           in if bk_tokens bucket = 0 then bucket\<lparr>bk_tokens := rl_burst (bk_limit bucket)\<rparr> else bucket
      else if now_ns \<le> bk_last_refill_ns bucket then bucket
      else let elapsed = now_ns - bk_last_refill_ns bucket;
               gained = (elapsed * ucast (rl_refill_per_second (bk_limit bucket))) div one_second_ns
           in if gained = 0 then bucket
              else bucket\<lparr>
                bk_tokens := min (rl_burst (bk_limit bucket))
                  (bk_tokens bucket + ucast (min gained (ucast (rl_burst (bk_limit bucket))))),
                bk_last_refill_ns := now_ns\<rparr>)"

definition erase_lease :: "u64 \<Rightarrow> device_bucket \<Rightarrow> device_bucket" where
  "erase_lease lease_id bucket =
     bucket\<lparr>bk_leases := filter (\<lambda>lease. \<not> le_id lease = lease_id) (bk_leases bucket)\<rparr>"

definition dl_take_lease_id :: "device_limiter \<Rightarrow> u64 \<times> device_limiter" where
  "dl_take_lease_id s = (dl_next_lease_id s, s\<lparr>dl_next_lease_id := dl_next_lease_id s + 1\<rparr>)"

definition drop_expired :: "u64 \<Rightarrow> device_bucket \<Rightarrow> device_bucket" where
  "drop_expired now_ns bucket =
     bucket\<lparr>bk_leases := filter (\<lambda>lease. \<not> le_expires_time_ns lease \<le> now_ns) (bk_leases bucket)\<rparr>"

definition dl_expire :: "u64 \<Rightarrow> device_limiter \<Rightarrow> nat \<times> device_limiter" where
  "dl_expire now_ns s =
     (let expired = sum_list (map (\<lambda>bucket. length (bk_leases bucket) -
                        length (bk_leases (drop_expired now_ns bucket))) (om_values (dl_devices s)))
      in (expired,
          s\<lparr>dl_devices := om_map (\<lambda>_. drop_expired now_ns) (dl_devices s),
            dl_stats := (dl_stats s)\<lparr>dls_leases_expired := dls_leases_expired (dl_stats s) + of_nat expired\<rparr>\<rparr>))"

definition dl_count_locked :: "device_limiter \<Rightarrow> device_limiter" where
  "dl_count_locked s = s\<lparr>dl_stats := (dl_stats s)\<lparr>dls_locked := dls_locked (dl_stats s) + 1\<rparr>\<rparr>"

text \<open>The part of \<open>acquire\<close> after the bucket was found.\<close>

definition dl_acquire_known :: "device_lease_request \<Rightarrow> device_limiter \<Rightarrow> device_lease option \<times> device_limiter" where
  "dl_acquire_known request s0 =
     (let s = snd (dl_expire (rq_now_ns request) s0)
      in case dl_find_bucket (rq_device request) s of
           None \<Rightarrow> (None, s0)
         | Some bucket \<Rightarrow>
             if lease_conflict bucket (rq_mode request) then (None, dl_count_locked s)
             else let (lease_id, s) = dl_take_lease_id s;
                      lease = \<lparr>le_id = lease_id, le_device = rq_device request, le_mode = rq_mode request,
                        le_acquired_time_ns = rq_now_ns request,
                        le_expires_time_ns = rq_now_ns request +
                          (if rq_ttl_ns request = 0 then dlc_default_lease_ttl_ns (dl_config s)
                           else rq_ttl_ns request),
                        le_owner = rq_owner request\<rparr>;
                      s = dl_put (rq_device request) (bucket\<lparr>bk_leases := bk_leases bucket @ [lease]\<rparr>) s
                  in (Some lease,
                      s\<lparr>dl_stats := (dl_stats s)\<lparr>dls_leases_granted := dls_leases_granted (dl_stats s) + 1\<rparr>\<rparr>))"

definition dl_acquire :: "device_lease_request \<Rightarrow> device_limiter \<Rightarrow> device_lease option \<times> device_limiter" where
  "dl_acquire request s =
     (case dl_find_bucket (rq_device request) s of
        None \<Rightarrow>
          if \<not> dlc_allow_unknown_devices (dl_config s) then (None, s)
          else dl_acquire_known request
                 (dl_register_device (rq_device request) (dlc_default_limit (dl_config s)) s)
      | Some _ \<Rightarrow> dl_acquire_known request s)"

text \<open>\<open>release\<close> visits the buckets in key order and stops at the first one that shrinks.\<close>

fun release_in :: "u64 \<Rightarrow> (device_id \<times> device_bucket) list \<Rightarrow> (device_id \<times> device_bucket) option" where
  "release_in lease_id [] = None"
| "release_in lease_id ((device, bucket) # entries) =
     (let bucket' = erase_lease lease_id bucket
      in if length (bk_leases bucket') \<noteq> length (bk_leases bucket) then Some (device, bucket')
         else release_in lease_id entries)"

definition dl_release :: "u64 \<Rightarrow> device_limiter \<Rightarrow> bool \<times> device_limiter" where
  "dl_release lease_id s =
     (case release_in lease_id (om_entries (dl_devices s)) of
        None \<Rightarrow> (False, s)
      | Some (device, bucket) \<Rightarrow>
          let s = dl_put device bucket s
          in (True, s\<lparr>dl_stats := (dl_stats s)\<lparr>dls_leases_released := dls_leases_released (dl_stats s) + 1\<rparr>\<rparr>))"

definition effective_cost :: "u32 \<Rightarrow> device_bucket \<Rightarrow> u32" where
  "effective_cost cost bucket = max cost (rl_minimum_tokens (bk_limit bucket))"

definition limit_result :: "device_limit_decision \<Rightarrow> u64 \<Rightarrow> string \<Rightarrow> device_limit_result" where
  "limit_result decision retry reason =
     \<lparr>lr_decision = decision, lr_retry_after_ns = retry, lr_reason = reason\<rparr>"

text \<open>The part of \<open>check\<close> after the bucket was found.\<close>

definition dl_check_known ::
  "device_id \<Rightarrow> u32 \<Rightarrow> u64 \<Rightarrow> device_limiter \<Rightarrow> device_limit_result \<times> device_limiter" where
  "dl_check_known device cost now_ns s0 =
     (let s = snd (dl_expire now_ns s0)
      in case dl_find_bucket device s of
           None \<Rightarrow> (limit_result LD_unknown_device 0 ''device bucket unavailable'', s0)
         | Some bucket \<Rightarrow>
             let bucket = refill now_ns bucket;
                 s = dl_put device bucket s
             in if lease_conflict bucket LM_shared
                then (limit_result LD_locked (dlc_default_lease_ttl_ns (dl_config s))
                        ''device is exclusively locked'', dl_count_locked s)
                else let cost = effective_cost cost bucket
                     in if bk_tokens bucket < cost
                        then (limit_result LD_rate_limited (retry_after bucket cost)
                                ''device token bucket is empty'',
                              s\<lparr>dl_stats := (dl_stats s)\<lparr>dls_rate_limited := dls_rate_limited (dl_stats s) + 1\<rparr>\<rparr>)
                        else (limit_result LD_allowed 0 ''device allowed'',
                              s\<lparr>dl_stats := (dl_stats s)\<lparr>dls_allowed := dls_allowed (dl_stats s) + 1\<rparr>\<rparr>))"

definition dl_check ::
  "device_id \<Rightarrow> u32 \<Rightarrow> u64 \<Rightarrow> device_limiter \<Rightarrow> device_limit_result \<times> device_limiter" where
  "dl_check device cost now_ns s =
     (case dl_find_bucket device s of
        None \<Rightarrow>
          if \<not> dlc_allow_unknown_devices (dl_config s)
          then (limit_result LD_unknown_device 0 ''device is not registered'', dl_count_locked s)
          else dl_check_known device cost now_ns
                 (dl_register_device device (dlc_default_limit (dl_config s)) s)
      | Some _ \<Rightarrow> dl_check_known device cost now_ns s)"

definition dl_consume ::
  "device_id \<Rightarrow> u32 \<Rightarrow> u64 \<Rightarrow> device_limiter \<Rightarrow> device_limit_result \<times> device_limiter" where
  "dl_consume device cost now_ns s =
     (let (result, s) = dl_check device cost now_ns s
      in if lr_decision result \<noteq> LD_allowed then (result, s)
         else case dl_find_bucket device s of
                None \<Rightarrow> (limit_result LD_unknown_device 0 ''device bucket unavailable'', s)
              | Some bucket \<Rightarrow>
                  let cost = effective_cost cost bucket
                  in (result, dl_put device
                       (if bk_tokens bucket \<ge> cost then bucket\<lparr>bk_tokens := bk_tokens bucket - cost\<rparr>
                        else bucket\<lparr>bk_tokens := 0\<rparr>) s))"

definition dl_reset :: "device_limiter \<Rightarrow> device_limiter" where
  "dl_reset s = s\<lparr>dl_devices := om_empty, dl_stats := device_limiter_stats_default, dl_next_lease_id := 1\<rparr>"

section \<open>Rendering\<close>

fun device_lease_mode_name :: "device_lease_mode \<Rightarrow> string" where
  "device_lease_mode_name LM_shared = ''shared''"
| "device_lease_mode_name LM_exclusive = ''exclusive''"

fun device_limit_decision_name :: "device_limit_decision \<Rightarrow> string" where
  "device_limit_decision_name LD_allowed = ''allowed''"
| "device_limit_decision_name LD_delayed = ''delayed''"
| "device_limit_decision_name LD_locked = ''locked''"
| "device_limit_decision_name LD_rate_limited = ''rate_limited''"
| "device_limit_decision_name LD_unknown_device = ''unknown_device''"

definition render_device_limit_result :: "device_limit_result \<Rightarrow> string" where
  "render_device_limit_result result =
     ''device_limit_result'' @ newline @
     ''  decision: '' @ device_limit_decision_name (lr_decision result) @ newline @
     ''  retry_after_ns: '' @ dec (lr_retry_after_ns result) @ newline @
     ''  reason: '' @ lr_reason result @ newline"

definition render_lease :: "device_lease \<Rightarrow> string" where
  "render_lease lease =
     ''    lease: id='' @ dec (le_id lease) @ '' mode='' @ device_lease_mode_name (le_mode lease) @
     '' owner='' @ dquote @ le_owner lease @ dquote @ '' expires_time_ns='' @
     dec (le_expires_time_ns lease) @ newline"

definition render_device_limiter_snapshot :: "device_limiter_snapshot list \<Rightarrow> string" where
  "render_device_limiter_snapshot snapshots =
     ''device_limiter'' @ newline @
     concat (map (\<lambda>snapshot.
       ''  device: '' @ dec (dsn_device snapshot) @ '' tokens='' @ dec (dsn_tokens snapshot) @
       '' last_refill_ns='' @ dec (dsn_last_refill_ns snapshot) @ newline @
       concat (map render_lease (dsn_leases snapshot))) snapshots)"

section \<open>Calls\<close>

datatype limiter_call =
    DL_register device_id device_rate_limit
  | DL_unregister device_id
  | DL_set_limit device_id device_rate_limit
  | DL_acquire device_lease_request
  | DL_release u64
  | DL_expire u64
  | DL_check device_id u32 u64
  | DL_consume device_id u32 u64
  | DL_reset

fun dl_step :: "limiter_call \<Rightarrow> device_limiter \<Rightarrow> device_limiter" where
  "dl_step (DL_register device limit) s = dl_register_device device limit s"
| "dl_step (DL_unregister device) s = dl_unregister_device device s"
| "dl_step (DL_set_limit device limit) s = dl_set_limit device limit s"
| "dl_step (DL_acquire request) s = snd (dl_acquire request s)"
| "dl_step (DL_release lease_id) s = snd (dl_release lease_id s)"
| "dl_step (DL_expire now_ns) s = snd (dl_expire now_ns s)"
| "dl_step (DL_check device cost now_ns) s = snd (dl_check device cost now_ns s)"
| "dl_step (DL_consume device cost now_ns) s = snd (dl_consume device cost now_ns s)"
| "dl_step DL_reset s = dl_reset s"

section \<open>The invariant of a bucket\<close>

definition limit_ok :: "device_rate_limit \<Rightarrow> bool" where
  "limit_ok limit \<longleftrightarrow> 1 \<le> rl_minimum_tokens limit \<and> rl_minimum_tokens limit \<le> rl_burst limit \<and>
     rl_refill_per_second limit \<noteq> 0"

text \<open>Shared leases may coexist; an exclusive lease is the only one of its device.\<close>

definition leases_ok :: "device_id \<Rightarrow> device_lease list \<Rightarrow> bool" where
  "leases_ok device leases \<longleftrightarrow>
     (\<forall>lease \<in> set leases. le_device lease = device) \<and>
     (length leases \<le> 1 \<or> (\<forall>lease \<in> set leases. le_mode lease = LM_shared))"

definition bucket_ok :: "device_id \<Rightarrow> device_bucket \<Rightarrow> bool" where
  "bucket_ok device bucket \<longleftrightarrow> limit_ok (bk_limit bucket) \<and>
     bk_tokens bucket \<le> rl_burst (bk_limit bucket) \<and> leases_ok device (bk_leases bucket)"

definition dl_inv :: "device_limiter \<Rightarrow> bool" where
  "dl_inv s \<longleftrightarrow> limit_ok (dlc_default_limit (dl_config s)) \<and>
     (\<forall>device bucket. om_lookup (dl_devices s) device = Some bucket \<longrightarrow> bucket_ok device bucket)"

lemma dl_invI:
  assumes "limit_ok (dlc_default_limit (dl_config s))"
    and "\<And>device bucket. om_lookup (dl_devices s) device = Some bucket \<Longrightarrow> bucket_ok device bucket"
  shows "dl_inv s"
  using assms by (simp add: dl_inv_def)

lemma dl_invD: "dl_inv s \<Longrightarrow> dl_find_bucket device s = Some bucket \<Longrightarrow> bucket_ok device bucket"
  by (simp add: dl_inv_def dl_find_bucket_def)

lemma one_le_word: "(1 :: 'a::len word) \<le> w \<longleftrightarrow> w \<noteq> 0"
  using word_less_1 [of w] by (auto simp: not_less [symmetric])

lemma limit_ok_normalized [simp]: "limit_ok (normalized_limit limit)"
  by (auto simp: limit_ok_def normalized_limit_def Let_def one_le_word)

lemma leases_ok_Nil [simp]: "leases_ok device []"
  by (simp add: leases_ok_def)

lemma leases_ok_filter: "leases_ok device leases \<Longrightarrow> leases_ok device (filter P leases)"
  unfolding leases_ok_def using length_filter_le [of P leases] by (auto simp del: length_filter_le)

lemma leases_ok_append:
  assumes "leases_ok device (bk_leases bucket)" and "\<not> lease_conflict bucket mode"
    and "le_mode lease = mode" and "le_device lease = device"
  shows "leases_ok device (bk_leases bucket @ [lease])"
proof (cases "bk_leases bucket = []")
  case True
  with assms show ?thesis by (simp add: leases_ok_def)
next
  case False
  with assms(2) have "mode \<noteq> LM_exclusive" "\<forall>l \<in> set (bk_leases bucket). le_mode l \<noteq> LM_exclusive"
    by (auto simp: lease_conflict_def list_ex_iff split: if_splits)
  then have "mode = LM_shared" "\<forall>l \<in> set (bk_leases bucket). le_mode l = LM_shared"
    using device_lease_mode.exhaust by metis+
  with assms show ?thesis by (auto simp: leases_ok_def)
qed

lemma bucket_ok_default [simp]: "bucket_ok device bucket_default"
  by (simp add: bucket_ok_def bucket_default_def limit_ok_def rate_limit_default_def)

lemma bucket_ok_refill: "bucket_ok device bucket \<Longrightarrow> bucket_ok device (refill now_ns bucket)"
  by (auto simp: bucket_ok_def refill_def Let_def)

lemma bucket_ok_drop_expired: "bucket_ok device bucket \<Longrightarrow> bucket_ok device (drop_expired now_ns bucket)"
  by (simp add: bucket_ok_def drop_expired_def leases_ok_filter)

lemma bucket_ok_erase_lease: "bucket_ok device bucket \<Longrightarrow> bucket_ok device (erase_lease i bucket)"
  by (simp add: bucket_ok_def erase_lease_def leases_ok_filter)

lemma bucket_ok_get: "dl_inv s \<Longrightarrow> bucket_ok device (om_get bucket_default (dl_devices s) device)"
  by (auto simp: om_get_def dl_inv_def split: option.splits)

lemma dl_inv_put [intro]: "dl_inv s \<Longrightarrow> bucket_ok device bucket \<Longrightarrow> dl_inv (dl_put device bucket s)"
  by (auto simp: dl_inv_def dl_put_def)

lemma dl_inv_stats [simp]: "dl_inv (s\<lparr>dl_stats := st\<rparr>) = dl_inv s"
  by (simp add: dl_inv_def)

lemma dl_inv_register: "dl_inv s \<Longrightarrow> dl_inv (dl_register_device device limit s)"
  unfolding dl_register_device_def Let_def
  by (rule dl_inv_put) (use bucket_ok_get in \<open>auto simp: bucket_ok_def\<close>)

lemma dl_inv_set_limit: "dl_inv s \<Longrightarrow> dl_inv (dl_set_limit device limit s)"
  unfolding dl_set_limit_def Let_def
  by (rule dl_inv_put) (use bucket_ok_get in \<open>auto simp: bucket_ok_def\<close>)

lemma dl_inv_expire: "dl_inv s \<Longrightarrow> dl_inv (snd (dl_expire now_ns s))"
  by (auto simp: dl_inv_def dl_expire_def Let_def bucket_ok_drop_expired)

lemma dl_inv_acquire_known: "dl_inv s \<Longrightarrow> dl_inv (snd (dl_acquire_known request s))"
proof -
  assume inv: "dl_inv s"
  define s' where "s' = snd (dl_expire (rq_now_ns request) s)"
  have inv': "dl_inv s'" using dl_inv_expire [OF inv] by (simp add: s'_def)
  have ids: "dl_inv (t\<lparr>dl_next_lease_id := i\<rparr>) = dl_inv t" for t i
    by (simp add: dl_inv_def)
  show ?thesis
  proof (cases "dl_find_bucket (rq_device request) s'")
    case (Some bucket)
    note b = dl_invD [OF inv' Some]
    then have "bucket_ok (rq_device request) (bucket\<lparr>bk_leases := bk_leases bucket @ [lease]\<rparr>)"
      if "\<not> lease_conflict bucket (rq_mode request)" "le_mode lease = rq_mode request"
         "le_device lease = rq_device request" for lease
      using that leases_ok_append by (simp add: bucket_ok_def)
    with inv' Some show ?thesis
      by (auto simp: dl_acquire_known_def s'_def [symmetric] Let_def dl_count_locked_def dl_take_lease_id_def
          ids intro!: dl_inv_put)
  qed (simp add: dl_acquire_known_def s'_def [symmetric] inv)
qed

lemma dl_inv_check_known: "dl_inv s \<Longrightarrow> dl_inv (snd (dl_check_known device cost now_ns s))"
proof -
  assume inv: "dl_inv s"
  define s' where "s' = snd (dl_expire now_ns s)"
  have inv': "dl_inv s'" using dl_inv_expire [OF inv] by (simp add: s'_def)
  show ?thesis
    using inv inv' dl_invD [OF inv']
    by (auto simp: dl_check_known_def s'_def [symmetric] Let_def dl_count_locked_def bucket_ok_refill
        intro!: dl_inv_put split: option.split)
qed

lemma dl_inv_acquire: "dl_inv s \<Longrightarrow> dl_inv (snd (dl_acquire request s))"
  by (simp add: dl_acquire_def dl_inv_acquire_known dl_inv_register split: option.split)

lemma dl_inv_check: "dl_inv s \<Longrightarrow> dl_inv (snd (dl_check device cost now_ns s))"
  by (simp add: dl_check_def dl_inv_check_known dl_inv_register dl_count_locked_def split: option.split)

lemma word_diff_le: "(a :: 'a::len word) - b \<le> a" if "b \<le> a"
  using that by (simp add: word_le_nat_alt unat_sub)

lemma dl_inv_consume: "dl_inv s \<Longrightarrow> dl_inv (snd (dl_consume device cost now_ns s))"
proof -
  assume inv: "dl_inv s"
  obtain result s' where c: "dl_check device cost now_ns s = (result, s')" by (cases "dl_check device cost now_ns s")
  then have inv': "dl_inv s'" using dl_inv_check [OF inv, of device cost now_ns] by simp
  show ?thesis
  proof (cases "dl_find_bucket device s'")
    case (Some bucket)
    note b = dl_invD [OF inv' Some]
    then have "bucket_ok device (bucket\<lparr>bk_tokens := bk_tokens bucket - k\<rparr>)" if "k \<le> bk_tokens bucket" for k
      using word_diff_le [OF that] by (auto simp: bucket_ok_def)
    moreover have "bucket_ok device (bucket\<lparr>bk_tokens := 0\<rparr>)"
      using b by (simp add: bucket_ok_def)
    ultimately show ?thesis
      using inv' Some c by (auto simp: dl_consume_def Let_def intro!: dl_inv_put)
  qed (use inv' c in \<open>simp add: dl_consume_def\<close>)
qed

lemma release_in_Some:
  "release_in i entries = Some (device, b) \<Longrightarrow> \<exists>bucket. (device, bucket) \<in> set entries \<and> b = erase_lease i bucket"
  by (induction i entries rule: release_in.induct) (auto simp: Let_def split: if_splits)

lemma dl_inv_release: "dl_inv s \<Longrightarrow> dl_inv (snd (dl_release i s))"
proof -
  assume inv: "dl_inv s"
  have "bucket_ok device b" if r: "release_in i (om_entries (dl_devices s)) = Some (device, b)" for device b
    using release_in_Some [OF r] inv by (auto simp: om_mem_entries dl_inv_def bucket_ok_erase_lease)
  with inv show ?thesis
    by (auto simp: dl_release_def Let_def intro!: dl_inv_put split: option.split)
qed

lemma dl_inv_remove: "dl_inv s \<Longrightarrow> dl_inv (dl_unregister_device device s) \<and> dl_inv (dl_reset s)"
  by (auto simp: dl_inv_def dl_unregister_device_def dl_reset_def)

interpretation limiter: state_machine "dl_init config" dl_step dl_inv
proof
  show "dl_inv (dl_init config)" by (simp add: dl_inv_def dl_init_def)
  show "dl_inv (dl_step e s)" if "dl_inv s" for e s
    using that
    by (cases e) (auto simp: dl_inv_register dl_inv_set_limit dl_inv_acquire dl_inv_release dl_inv_expire
        dl_inv_check dl_inv_consume dl_inv_remove)
qed

section \<open>Leases\<close>

text \<open>The bucket a call on \<open>device\<close> works on: its own, or the one registration on demand creates.\<close>

definition effective_bucket :: "device_id \<Rightarrow> device_limiter \<Rightarrow> device_bucket option" where
  "effective_bucket device s =
     (case dl_find_bucket device s of
        Some bucket \<Rightarrow> Some bucket
      | None \<Rightarrow>
          if dlc_allow_unknown_devices (dl_config s)
          then dl_find_bucket device (dl_register_device device (dlc_default_limit (dl_config s)) s) else None)"

lemma find_put [simp]: "dl_find_bucket d (dl_put d' b s) = (if d = d' then Some b else dl_find_bucket d s)"
  by (simp add: dl_find_bucket_def dl_put_def)

lemma find_expire [simp]:
  "dl_find_bucket d (snd (dl_expire now s)) = map_option (drop_expired now) (dl_find_bucket d s)"
  by (simp add: dl_find_bucket_def dl_expire_def Let_def)

lemma find_stats [simp]: "dl_find_bucket d (s\<lparr>dl_stats := st\<rparr>) = dl_find_bucket d s"
  by (simp add: dl_find_bucket_def)

lemma find_locked [simp]: "dl_find_bucket d (dl_count_locked s) = dl_find_bucket d s"
  by (simp add: dl_count_locked_def)

lemma find_register_self: "dl_find_bucket d (dl_register_device d limit s) \<noteq> None"
  by (simp add: dl_register_device_def Let_def)

lemma config_expire [simp]: "dl_config (snd (dl_expire now s)) = dl_config s"
  by (simp add: dl_expire_def Let_def)

lemma acquire_known_granted:
  assumes "dl_find_bucket (rq_device request) s = Some bucket"
  shows "fst (dl_acquire_known request s) \<noteq> None \<longleftrightarrow>
     \<not> lease_conflict (drop_expired (rq_now_ns request) bucket) (rq_mode request)"
  using assms by (simp add: dl_acquire_known_def Let_def dl_take_lease_id_def)

lemma acquire_granted:
  "fst (dl_acquire request s) \<noteq> None \<longleftrightarrow>
   (\<exists>bucket. effective_bucket (rq_device request) s = Some bucket \<and>
      \<not> lease_conflict (drop_expired (rq_now_ns request) bucket) (rq_mode request))"
proof (cases "dl_find_bucket (rq_device request) s")
  case None
  obtain b where "dl_find_bucket (rq_device request)
      (dl_register_device (rq_device request) (dlc_default_limit (dl_config s)) s) = Some b"
    using find_register_self by blast
  with None acquire_known_granted [OF this] show ?thesis
    by (simp add: dl_acquire_def effective_bucket_def)
next
  case (Some bucket)
  with acquire_known_granted [OF Some] show ?thesis
    by (simp add: dl_acquire_def effective_bucket_def del: not_None_eq)
qed

section \<open>Tokens\<close>

text \<open>The tokens a refill adds never exceed the elapsed time at the configured rate.\<close>

definition accrued :: "device_bucket \<Rightarrow> nat \<Rightarrow> nat" where
  "accrued bucket elapsed = elapsed * unat (rl_refill_per_second (bk_limit bucket)) div 1000000000"

lemma accrued_add: "accrued b x + accrued b y \<le> accrued b (x + y)"
proof -
  have "m div k + n div k \<le> (m + n) div (k :: nat)" for m n k
    by (metis div_add1_eq le_add1)
  then show ?thesis by (simp add: accrued_def add_mult_distrib)
qed

lemma unat_ucast_u32 [simp]: "unat (ucast (w :: u32) :: u64) = unat w"
  using unat_u32_bound [of w] by (simp add: unsigned_ucast_eq take_bit_nat_eq_self)

lemma unat_ucast_le: "unat (ucast w :: 'a::len word) \<le> unat (w :: 'b::len word)"
  by (simp add: unsigned_ucast_eq)

lemma gained_le:
  fixes elapsed :: u64 and rate :: u32
  shows "unat ((elapsed * ucast rate) div one_second_ns) \<le> unat elapsed * unat rate div 1000000000"
proof -
  have "unat (elapsed * ucast rate) \<le> unat elapsed * unat rate"
    by (simp add: unat_word_ariths)
  then show ?thesis
    by (simp add: unat_div one_second_ns_def div_le_mono)
qed

lemma unat_add_le: "unat (a + b :: 'a::len word) \<le> unat a + unat b"
  by (simp add: unat_word_ariths)

lemma refill_bound:
  fixes now :: u64
  assumes "bk_last_refill_ns bucket \<noteq> 0"
  defines "b \<equiv> refill now bucket"
  shows "unat (bk_last_refill_ns bucket) \<le> unat (bk_last_refill_ns b)" and "bk_limit b = bk_limit bucket"
    and "bk_leases b = bk_leases bucket"
    and "unat (bk_tokens b) \<le> unat (bk_tokens bucket) +
           accrued bucket (unat (bk_last_refill_ns b) - unat (bk_last_refill_ns bucket))"
proof -
  let ?elapsed = "now - bk_last_refill_ns bucket"
  let ?gained = "(?elapsed * ucast (rl_refill_per_second (bk_limit bucket))) div one_second_ns"
  let ?burst = "rl_burst (bk_limit bucket)"
  show limit: "bk_limit b = bk_limit bucket" "bk_leases b = bk_leases bucket"
    by (simp_all add: b_def refill_def Let_def)
  show later: "unat (bk_last_refill_ns bucket) \<le> unat (bk_last_refill_ns b)"
    by (auto simp: b_def refill_def Let_def word_le_nat_alt)
  show "unat (bk_tokens b) \<le> unat (bk_tokens bucket) +
           accrued bucket (unat (bk_last_refill_ns b) - unat (bk_last_refill_ns bucket))"
  proof (cases "now \<le> bk_last_refill_ns bucket \<or> ?gained = 0")
    case True
    with assms have "b = bucket" by (auto simp: refill_def Let_def)
    then show ?thesis by simp
  next
    case False
    then have b: "b = bucket\<lparr>bk_tokens := min ?burst (bk_tokens bucket + ucast (min ?gained (ucast ?burst))),
        bk_last_refill_ns := now\<rparr>"
      using assms by (simp add: refill_def Let_def)
    have "unat (bk_tokens b) \<le> unat (bk_tokens bucket + ucast (min ?gained (ucast ?burst)))"
      by (simp add: b min_def word_le_nat_alt)
    also have "\<dots> \<le> unat (bk_tokens bucket) + unat (ucast (min ?gained (ucast ?burst)) :: u32)"
      by (rule unat_add_le)
    also have "unat (ucast (min ?gained (ucast ?burst)) :: u32) \<le> unat (min ?gained (ucast ?burst))"
      by (rule unat_ucast_le)
    also have "\<dots> \<le> unat ?gained" by (simp add: min_def word_le_nat_alt)
    also have "\<dots> \<le> accrued bucket (unat ?elapsed)" by (simp add: accrued_def gained_le)
    also have "unat ?elapsed = unat now - unat (bk_last_refill_ns bucket)"
      using False by (simp add: unat_sub less_imp_le not_le)
    finally show ?thesis by (simp add: b)
  qed
qed

lemma refill_later:
  assumes "bk_last_refill_ns bucket \<noteq> 0"
  shows "bk_last_refill_ns (refill now bucket) \<le> max (bk_last_refill_ns bucket) now"
    and "bk_last_refill_ns (refill now bucket) \<noteq> 0"
  using assms by (auto simp: refill_def Let_def max_def)

lemma drop_expired_sel [simp]:
  "bk_limit (drop_expired now b) = bk_limit b" "bk_tokens (drop_expired now b) = bk_tokens b"
  "bk_last_refill_ns (drop_expired now b) = bk_last_refill_ns b"
  by (simp_all add: drop_expired_def)

text \<open>\<open>consume\<close> on a registered device, in terms of its refilled bucket.\<close>

definition refreshed :: "u64 \<Rightarrow> device_bucket \<Rightarrow> device_bucket" where
  "refreshed now bucket = refill now (drop_expired now bucket)"

definition admits :: "u32 \<Rightarrow> device_bucket \<Rightarrow> bool" where
  "admits cost b \<longleftrightarrow> \<not> lease_conflict b LM_shared \<and> effective_cost cost b \<le> bk_tokens b"

lemma check_known:
  assumes "dl_find_bucket d s = Some bucket"
  shows "lr_decision (fst (dl_check d cost now s)) = LD_allowed \<longleftrightarrow> admits cost (refreshed now bucket)"
    and "dl_find_bucket d' (snd (dl_check d cost now s)) =
           (if d' = d then Some (refreshed now bucket)
            else map_option (drop_expired now) (dl_find_bucket d' s))"
  using assms
  by (auto simp: dl_check_def dl_check_known_def Let_def refreshed_def admits_def limit_result_def not_less)

lemma consume_known:
  fixes now :: u64
  assumes "dl_find_bucket d s = Some bucket"
  defines "b \<equiv> refreshed now bucket"
  shows "lr_decision (fst (dl_consume d cost now s)) = LD_allowed \<longleftrightarrow> admits cost b"
    and "dl_find_bucket d (snd (dl_consume d cost now s)) =
           Some (if admits cost b then b\<lparr>bk_tokens := bk_tokens b - effective_cost cost b\<rparr> else b)"
    and "d' \<noteq> d \<Longrightarrow> dl_find_bucket d' (snd (dl_consume d cost now s)) =
           map_option (drop_expired now) (dl_find_bucket d' s)"
proof -
  obtain result s' where c: "dl_check d cost now s = (result, s')" by (cases "dl_check d cost now s")
  note known = check_known [OF assms(1), where cost = cost and now = now, unfolded c fst_conv snd_conv, folded b_def]
  have "bk_tokens b \<ge> effective_cost cost b" if "admits cost b"
    using that by (simp add: admits_def)
  with known show "lr_decision (fst (dl_consume d cost now s)) = LD_allowed \<longleftrightarrow> admits cost b"
    and "dl_find_bucket d (snd (dl_consume d cost now s)) =
           Some (if admits cost b then b\<lparr>bk_tokens := bk_tokens b - effective_cost cost b\<rparr> else b)"
    and "d' \<noteq> d \<Longrightarrow> dl_find_bucket d' (snd (dl_consume d cost now s)) =
           map_option (drop_expired now) (dl_find_bucket d' s)"
    by (auto simp: dl_consume_def c Let_def)
qed

text \<open>A sequence of \<open>consume\<close> calls; the cost granted to one device, at least one per grant.\<close>

fun consume_run :: "device_id \<Rightarrow> (device_id \<times> u32 \<times> u64) list \<Rightarrow> device_limiter \<Rightarrow> nat \<times> device_limiter" where
  "consume_run d [] s = (0, s)"
| "consume_run d ((d', cost, now) # calls) s =
     (let (result, s) = dl_consume d' cost now s;
          (granted, s) = consume_run d calls s
      in ((if d' = d \<and> lr_decision result = LD_allowed then max 1 (unat cost) else 0) + granted, s))"

lemma consume_other_bucket:
  assumes "dl_find_bucket d s = Some bucket" and "d' \<noteq> d"
  obtains b where "dl_find_bucket d (snd (dl_consume d' cost now s)) = Some b"
    and "bk_limit b = bk_limit bucket" "bk_tokens b = bk_tokens bucket"
        "bk_last_refill_ns b = bk_last_refill_ns bucket"
proof (cases "dl_find_bucket d' s")
  case (Some other)
  with consume_known(3) [OF Some, of d] assms that show ?thesis by simp
next
  case None
  let ?s = "dl_register_device d' (dlc_default_limit (dl_config s)) s"
  have other: "dl_find_bucket d ?s = Some bucket"
    using assms by (simp add: dl_register_device_def Let_def)
  obtain b' where b': "dl_find_bucket d' ?s = Some b'" using find_register_self by blast
  have "dl_consume d' cost now s = dl_consume d' cost now ?s" if "dlc_allow_unknown_devices (dl_config s)"
    using None b' that by (simp add: dl_consume_def dl_check_def)
  moreover have "snd (dl_consume d' cost now s) = dl_count_locked s" if "\<not> dlc_allow_unknown_devices (dl_config s)"
    using None that by (simp add: dl_consume_def dl_check_def limit_result_def)
  ultimately show ?thesis
    using that assms other consume_known(3) [OF b', of d cost now]
    by (cases "dlc_allow_unknown_devices (dl_config s)") auto
qed

lemma effective_cost_ge: "limit_ok (bk_limit b) \<Longrightarrow> max 1 (unat cost) \<le> unat (effective_cost cost b)"
  by (auto simp: effective_cost_def limit_ok_def max_def word_le_nat_alt)

lemma consume_bucket:
  assumes "dl_inv s" and "dl_find_bucket d s = Some bucket" and "bk_last_refill_ns bucket \<noteq> 0"
  obtains b where "dl_find_bucket d (snd (dl_consume d cost now s)) = Some b"
    and "bk_limit b = bk_limit bucket" and "bk_last_refill_ns b \<noteq> 0"
    and "bk_last_refill_ns bucket \<le> bk_last_refill_ns b"
    and "bk_last_refill_ns b \<le> max (bk_last_refill_ns bucket) now"
    and "(if lr_decision (fst (dl_consume d cost now s)) = LD_allowed then max 1 (unat cost) else 0) +
           unat (bk_tokens b) \<le> unat (bk_tokens bucket) +
           accrued bucket (unat (bk_last_refill_ns b) - unat (bk_last_refill_ns bucket))"
proof -
  let ?r = "refreshed now bucket"
  let ?b = "if admits cost ?r then ?r\<lparr>bk_tokens := bk_tokens ?r - effective_cost cost ?r\<rparr> else ?r"
  have acc: "accrued (drop_expired now bucket) = accrued bucket" by (simp add: accrued_def fun_eq_iff)
  note bound = refill_bound [of "drop_expired now bucket" now, simplified, OF assms(3), folded refreshed_def]
  note later = refill_later [of "drop_expired now bucket" now, simplified, OF assms(3), folded refreshed_def]
  have limit: "limit_ok (bk_limit ?r)"
    using dl_invD [OF assms(1,2)] bound(2) by (simp add: bucket_ok_def)
  have spent: "max 1 (unat cost) + unat (bk_tokens ?r - effective_cost cost ?r) \<le> unat (bk_tokens ?r)"
    if "admits cost ?r"
    using that effective_cost_ge [OF limit, of cost] by (auto simp: admits_def unat_sub word_le_nat_alt max_def)
  show thesis
  proof (rule that)
    show "dl_find_bucket d (snd (dl_consume d cost now s)) = Some ?b"
      by (rule consume_known(2) [OF assms(2)])
    show "(if lr_decision (fst (dl_consume d cost now s)) = LD_allowed then max 1 (unat cost) else 0) +
           unat (bk_tokens ?b) \<le> unat (bk_tokens bucket) +
           accrued bucket (unat (bk_last_refill_ns ?b) - unat (bk_last_refill_ns bucket))"
      using spent bound(4) by (auto simp: consume_known(1) [OF assms(2)] acc)
  qed (use bound later in \<open>simp_all add: word_le_nat_alt\<close>)
qed

lemma consume_run_bound:
  assumes "dl_inv s" and "dl_find_bucket d s = Some bucket" and "bk_last_refill_ns bucket \<noteq> 0"
    and "bk_last_refill_ns bucket \<le> horizon" and "list_all (\<lambda>(_, _, now). now \<le> horizon) calls"
  shows "fst (consume_run d calls s) \<le>
     unat (bk_tokens bucket) + accrued bucket (unat horizon - unat (bk_last_refill_ns bucket))"
  using assms
proof (induction calls arbitrary: s bucket)
  case (Cons call calls)
  obtain d' cost now where call: "call = (d', cost, now)" by (cases call)
  let ?s = "snd (dl_consume d' cost now s)"
  let ?g = "if d' = d \<and> lr_decision (fst (dl_consume d' cost now s)) = LD_allowed then max 1 (unat cost) else 0"
  have run: "fst (consume_run d (call # calls) s) = ?g + fst (consume_run d calls ?s)"
    by (simp add: call case_prod_unfold Let_def)
  have now: "now \<le> horizon" and rest: "list_all (\<lambda>(_, _, now). now \<le> horizon) calls"
    using Cons.prems(5) by (simp_all add: call)
  have inv: "dl_inv ?s" by (rule dl_inv_consume [OF Cons.prems(1)])
  show ?case
  proof (cases "d' = d")
    case True
    obtain b where b: "dl_find_bucket d ?s = Some b" "bk_limit b = bk_limit bucket"
        "bk_last_refill_ns b \<noteq> 0" "bk_last_refill_ns bucket \<le> bk_last_refill_ns b"
        "bk_last_refill_ns b \<le> max (bk_last_refill_ns bucket) now"
      and spent: "?g + unat (bk_tokens b) \<le> unat (bk_tokens bucket) +
           accrued bucket (unat (bk_last_refill_ns b) - unat (bk_last_refill_ns bucket))"
      using consume_bucket [OF Cons.prems(1,2,3), of cost now] unfolding True by force
    have le: "bk_last_refill_ns b \<le> horizon"
      using b(5) now Cons.prems(4) by (meson max.bounded_iff order_trans)
    have same: "accrued b = accrued bucket" by (simp add: accrued_def fun_eq_iff b(2))
    have "fst (consume_run d calls ?s) \<le>
        unat (bk_tokens b) + accrued b (unat horizon - unat (bk_last_refill_ns b))"
      by (rule Cons.IH [OF inv b(1) b(3) le rest])
    moreover have "accrued bucket (unat (bk_last_refill_ns b) - unat (bk_last_refill_ns bucket)) +
        accrued bucket (unat horizon - unat (bk_last_refill_ns b))
        \<le> accrued bucket (unat horizon - unat (bk_last_refill_ns bucket))"
      using accrued_add [of bucket "unat (bk_last_refill_ns b) - unat (bk_last_refill_ns bucket)"
          "unat horizon - unat (bk_last_refill_ns b)"] b(4) le
      by (simp add: word_le_nat_alt)
    ultimately show ?thesis using spent same run by simp
  next
    case False
    obtain b where b: "dl_find_bucket d ?s = Some b"
      and "bk_limit b = bk_limit bucket" "bk_tokens b = bk_tokens bucket"
        "bk_last_refill_ns b = bk_last_refill_ns bucket"
      by (rule consume_other_bucket [OF Cons.prems(2) False, of cost now])
    with Cons.IH [OF inv b _ _ rest] Cons.prems(3,4) False run show ?thesis
      by (simp add: accrued_def)
  qed
qed simp

section \<open>Waiting for tokens\<close>

lemma check_rate_limited:
  fixes now :: u64
  assumes "dl_find_bucket d s = Some bucket"
    and "lr_decision (fst (dl_check d cost now s)) = LD_rate_limited"
  defines "b \<equiv> refreshed now bucket"
  shows "\<not> lease_conflict b LM_shared" and "bk_tokens b < effective_cost cost b"
    and "lr_retry_after_ns (fst (dl_check d cost now s)) = retry_after b (effective_cost cost b)"
  using assms
  by (auto simp: dl_check_def dl_check_known_def Let_def refreshed_def limit_result_def b_def
      split: if_splits)

text \<open>\<open>retry_after\<close> rounds up: after that time the rate has produced the missing tokens.\<close>

lemma retry_after_covers:
  assumes "rl_refill_per_second (bk_limit b) \<noteq> 0" and "bk_tokens b < k"
  shows "(unat k - unat (bk_tokens b)) * 1000000000 \<le>
     unat (retry_after b k) * unat (rl_refill_per_second (bk_limit b))"
proof -
  let ?rate = "rl_refill_per_second (bk_limit b)"
  define m where "m = unat (k - bk_tokens b)"
  define r where "r = unat ?rate"
  have m: "m = unat k - unat (bk_tokens b)" "m > 0"
    using assms(2) by (auto simp: m_def unat_sub less_imp_le word_less_nat_alt)
  have r: "r > 0" using assms(1) by (simp add: r_def unat_gt_0)
  have bounds: "m < 4294967296" "r < 4294967296"
    by (simp_all add: m_def r_def unat_u32_bound)
  have "retry_after b k = (ucast (k - bk_tokens b) * one_second_ns + ucast ?rate - 1) div ucast ?rate"
    using assms by (auto simp: retry_after_def Let_def)
  moreover have "unat (ucast (k - bk_tokens b) * one_second_ns + ucast ?rate - 1 :: u64) = m * 1000000000 + r - 1"
  proof -
    have n: "unat (ucast (k - bk_tokens b) * one_second_ns :: u64) = m * 1000000000"
      using bounds by (simp add: unat_word_ariths one_second_ns_def m_def)
    then have s: "unat (ucast (k - bk_tokens b) * one_second_ns + ucast ?rate :: u64) = m * 1000000000 + r"
      using bounds by (simp add: unat_word_ariths r_def)
    then have "(1 :: u64) \<le> ucast (k - bk_tokens b) * one_second_ns + ucast ?rate"
      using r by (simp add: word_le_nat_alt)
    with s show ?thesis by (simp add: unat_sub)
  qed
  ultimately have "unat (retry_after b k) = (m * 1000000000 + r - 1) div r"
    by (simp add: unat_div r_def)
  moreover have "m * 1000000000 \<le> (m * 1000000000 + r - 1) div r * r"
  proof -
    have "(m * 1000000000 + r - 1) mod r \<le> r - 1"
      using r by (metis Suc_pred' less_Suc_eq_le mod_less_divisor)
    moreover have "(m * 1000000000 + r - 1) div r * r + (m * 1000000000 + r - 1) mod r = m * 1000000000 + r - 1"
      by (rule div_mult_mod_eq)
    ultimately show ?thesis using r by linarith
  qed
  ultimately show ?thesis by (simp add: m(1) r_def)
qed

lemma refill_covers:
  fixes now' :: u64
  assumes "limit_ok (bk_limit b)" and "bk_last_refill_ns b \<noteq> 0"
    and "bk_tokens b < k" and "k \<le> rl_burst (bk_limit b)" and "bk_tokens b \<le> rl_burst (bk_limit b)"
    and burst: "unat (rl_burst (bk_limit b)) < 2147483648"
    and later: "unat (bk_last_refill_ns b) + unat (retry_after b k) \<le> unat now'"
    and fits: "(unat now' - unat (bk_last_refill_ns b)) *
        unat (rl_refill_per_second (bk_limit b)) < 18446744073709551616"
  shows "k \<le> bk_tokens (refill now' b)"
proof -
  let ?rate = "rl_refill_per_second (bk_limit b)"
  let ?burst = "rl_burst (bk_limit b)"
  let ?elapsed = "now' - bk_last_refill_ns b"
  let ?gained = "(?elapsed * ucast ?rate) div one_second_ns"
  have rate: "?rate \<noteq> 0" using assms(1) by (simp add: limit_ok_def)
  have need: "(unat k - unat (bk_tokens b)) * 1000000000 \<le> unat (retry_after b k) * unat ?rate"
    by (rule retry_after_covers [OF rate assms(3)])
  have less: "unat (bk_tokens b) < unat k" using assms(3) by (simp add: word_less_nat_alt)
  then have "retry_after b k \<noteq> 0" using need by (metis diff_is_0_eq mult_eq_0_iff mult_0 le_zero_eq not_less unat_0 zero_neq_numeral)
  then have "bk_last_refill_ns b < now'"
    using later by (simp add: word_less_nat_alt unat_gt_0 [symmetric])
  then have elapsed: "unat ?elapsed = unat now' - unat (bk_last_refill_ns b)"
    by (simp add: unat_sub less_imp_le)
  have "unat (?elapsed * ucast ?rate) = unat ?elapsed * unat ?rate"
    using fits by (simp add: unat_word_ariths elapsed)
  then have gained: "unat ?gained = unat ?elapsed * unat ?rate div 1000000000"
    by (simp add: unat_div one_second_ns_def)
  have "(unat k - unat (bk_tokens b)) * 1000000000 \<le> unat ?elapsed * unat ?rate"
  proof (rule order_trans [OF need])
    show "unat (retry_after b k) * unat ?rate \<le> unat ?elapsed * unat ?rate"
      using later elapsed by (intro mult_le_mono1) linarith
  qed
  then have enough: "unat k - unat (bk_tokens b) \<le> unat ?gained"
    by (simp add: gained less_eq_div_iff_mult_less_eq)
  then have nonzero: "?gained \<noteq> 0" using less by (metis diff_is_0_eq le_zero_eq not_less unat_0)
  define m where "m = (ucast (min ?gained (ucast ?burst)) :: u32)"
  have m: "unat m = min (unat ?gained) (unat ?burst)"
  proof -
    have small: "unat (min ?gained (ucast ?burst)) = min (unat ?gained) (unat ?burst)"
      by (simp add: min_def word_le_nat_alt)
    then show ?thesis
      using burst by (simp add: m_def unsigned_ucast_eq take_bit_nat_eq_self)
  qed
  have sum: "unat (bk_tokens b + m) = unat (bk_tokens b) + unat m"
    using burst assms(5) m by (simp add: unat_word_ariths word_le_nat_alt)
  have "k \<le> bk_tokens b + m"
    using enough less assms(4) sum m by (auto simp: word_le_nat_alt min_def)
  moreover have "bk_tokens (refill now' b) = min ?burst (bk_tokens b + m)"
    using assms(2) \<open>bk_last_refill_ns b < now'\<close> nonzero by (auto simp: refill_def Let_def m_def not_le)
  ultimately show ?thesis using assms(4) by simp
qed

lemma no_conflict_drop_expired:
  "\<not> lease_conflict b LM_shared \<Longrightarrow> \<not> lease_conflict (drop_expired now b) LM_shared"
  by (auto simp: lease_conflict_def drop_expired_def list_ex_iff split: if_splits)

lemma lease_conflict_refill [simp]: "lease_conflict (refill now b) = lease_conflict b"
  by (simp add: lease_conflict_def refill_def Let_def fun_eq_iff)

lemma retry_after_drop_expired [simp]: "retry_after (drop_expired now b) k = retry_after b k"
  by (simp add: retry_after_def)

lemma effective_cost_cong: "bk_limit b = bk_limit b' \<Longrightarrow> effective_cost c b = effective_cost c b'"
  by (simp add: effective_cost_def)

lemma bk_limit_refill [simp]: "bk_limit (refill now b) = bk_limit b"
  by (simp add: refill_def Let_def)

lemma retry_succeeds:
  fixes now now' :: u64
  assumes "dl_inv s" and "dl_find_bucket d s = Some bucket"
    and "now \<noteq> 0" and "bk_last_refill_ns bucket \<le> now"
    and limited: "lr_decision (fst (dl_check d cost now s)) = LD_rate_limited"
    and "cost \<le> rl_burst (bk_limit bucket)"
    and "unat now + unat (lr_retry_after_ns (fst (dl_check d cost now s))) \<le> unat now'"
    and "unat (rl_burst (bk_limit bucket)) < 2147483648"
    and "(unat now' - unat (bk_last_refill_ns bucket)) * unat (rl_refill_per_second (bk_limit bucket))
           < 18446744073709551616"
  shows "lr_decision (fst (dl_check d cost now' (snd (dl_check d cost now s)))) = LD_allowed"
proof -
  define b where "b = refreshed now bucket"
  note first = check_rate_limited [OF assms(2) limited, folded b_def]
  have found: "dl_find_bucket d (snd (dl_check d cost now s)) = Some b"
    using check_known(2) [OF assms(2), of d cost now] by (simp add: b_def)
  have ok: "bucket_ok d b"
    using dl_invD [OF dl_inv_check [OF assms(1)] found] .
  have limit: "bk_limit b = bk_limit bucket" by (simp add: b_def refreshed_def)
  have last: "bk_last_refill_ns b \<noteq> 0" "bk_last_refill_ns b \<le> now" "bk_last_refill_ns bucket \<le> bk_last_refill_ns b"
    using assms(3,4) by (auto simp: b_def refreshed_def refill_def Let_def drop_expired_def)
  let ?k = "effective_cost cost b"
  have "?k \<le> bk_tokens (refill now' (drop_expired now' b))"
  proof (rule refill_covers)
    show "unat (bk_last_refill_ns (drop_expired now' b)) + unat (retry_after (drop_expired now' b) ?k) \<le> unat now'"
      using assms(7) last(2) first(3) by (simp add: word_le_nat_alt)
    have "unat now' - unat (bk_last_refill_ns b) \<le> unat now' - unat (bk_last_refill_ns bucket)"
      using last(3) by (simp add: word_le_nat_alt diff_le_mono2)
    then have "(unat now' - unat (bk_last_refill_ns b)) * unat (rl_refill_per_second (bk_limit bucket)) \<le>
        (unat now' - unat (bk_last_refill_ns bucket)) * unat (rl_refill_per_second (bk_limit bucket))"
      by (rule mult_le_mono1)
    then show "(unat now' - unat (bk_last_refill_ns (drop_expired now' b))) *
        unat (rl_refill_per_second (bk_limit (drop_expired now' b))) < 18446744073709551616"
      using assms(9) by (simp only: drop_expired_sel limit le_less_trans)
  qed (use ok first last limit assms(6,8) in \<open>auto simp: bucket_ok_def limit_ok_def effective_cost_def\<close>)
  then have "admits cost (refreshed now' b)"
    using no_conflict_drop_expired [OF first(1)]
    by (simp add: admits_def refreshed_def effective_cost_def)
  with check_known(1) [OF found] show ?thesis by simp
qed

lemma oversize_never_allowed:
  assumes "dl_inv s" and "dl_find_bucket d s = Some bucket" and "rl_burst (bk_limit bucket) < cost"
  shows "lr_decision (fst (dl_consume d cost now s)) \<noteq> LD_allowed"
proof -
  have "bucket_ok d (refreshed now bucket)"
    using dl_invD [OF assms(1,2)] by (simp add: refreshed_def bucket_ok_refill bucket_ok_drop_expired)
  then have "bk_tokens (refreshed now bucket) < effective_cost cost (refreshed now bucket)"
    using assms(3) by (auto simp: bucket_ok_def refreshed_def effective_cost_def less_max_iff_disj)
  with consume_known(1) [OF assms(2)] show ?thesis by (simp add: admits_def not_le)
qed

section \<open>Properties\<close>

text \<open>
  After any calls an exclusive lease is the only lease of its device, every lease is filed
  under its own device, no bucket holds more tokens than its burst size, and every configured
  limit is usable (no zero rate, and the minimum charge can be paid).
\<close>

theorem limiter_invariant: "dl_inv (fold dl_step calls (dl_init config))"
  by (rule limiter.inv_run)


definition sample_limiter :: device_limiter where
  "sample_limiter = dl_put 7 \<lparr>bk_limit = rate_limit_default, bk_tokens = 1, bk_last_refill_ns = 1000, bk_leases = []\<rparr>
     (dl_init device_limiter_config_default)"

lemma sample_limiter_simps [simp]:
  "dl_inv sample_limiter"
  "dl_find_bucket 7 sample_limiter =
     Some \<lparr>bk_limit = rate_limit_default, bk_tokens = 1, bk_last_refill_ns = 1000, bk_leases = []\<rparr>"
proof -
  show "dl_inv sample_limiter"
    unfolding sample_limiter_def
    by (rule dl_inv_put [OF limiter.inv_init]) (simp add: bucket_ok_def limit_ok_def rate_limit_default_def)
qed (simp add: sample_limiter_def)


text \<open>
  C19. The delay reported with a rate-limited check is enough: if the cost can be paid at all
  and the products fit their integers, a check that much later (or later still) is allowed,
  provided no one else took tokens in between.
\<close>

theorem retry_after_sufficient:
  assumes "dl_inv s" and "dl_find_bucket d s = Some bucket"
    and "now \<noteq> 0" and "bk_last_refill_ns bucket \<le> now"
    and "lr_decision (fst (dl_check d cost now s)) = LD_rate_limited"
    and "cost \<le> rl_burst (bk_limit bucket)"
    and "unat now + unat (lr_retry_after_ns (fst (dl_check d cost now s))) \<le> unat now'"
    and "unat (rl_burst (bk_limit bucket)) < 2147483648"
    and "(unat now' - unat (bk_last_refill_ns bucket)) * unat (rl_refill_per_second (bk_limit bucket))
           < 18446744073709551616"
  shows "lr_decision (fst (dl_check d cost now' (snd (dl_check d cost now s)))) = LD_allowed"
  by (rule retry_succeeds [OF assms])

lemma sample_check: "dl_check 7 4 1000 sample_limiter =
    (limit_result LD_rate_limited 187500000 ''device token bucket is empty'', snd (dl_check 7 4 1000 sample_limiter))"
  by (simp add: dl_check_def dl_check_known_def Let_def drop_expired_def refill_def effective_cost_def
      lease_conflict_def retry_after_def one_second_ns_def rate_limit_default_def)

lemma retry_after_sufficient_witness:
  "lr_decision (fst (dl_check 7 4 187501000 (snd (dl_check 7 4 1000 sample_limiter)))) = LD_allowed"
proof -
  have "fst (dl_check 7 4 1000 sample_limiter) = limit_result LD_rate_limited 187500000 ''device token bucket is empty''"
    using sample_check by (metis fst_conv)
  then show ?thesis
    by (intro retry_after_sufficient [OF sample_limiter_simps]) (simp_all add: limit_result_def rate_limit_default_def)
qed

text \<open>
  A cost above the burst size is never allowed, at any time and in any consistent state: the
  delay the limiter reports for it is a promise that waiting cannot keep.
\<close>

theorem oversize_cost_never_allowed:
  assumes "dl_inv s" and "dl_find_bucket d s = Some bucket" and "rl_burst (bk_limit bucket) < cost"
  shows "lr_decision (fst (dl_consume d cost now s)) \<noteq> LD_allowed"
  by (rule oversize_never_allowed [OF assms])

lemma oversize_cost_never_allowed_witness:
  "lr_decision (fst (dl_consume 7 17 5 sample_limiter)) \<noteq> LD_allowed"
  by (rule oversize_cost_never_allowed [OF sample_limiter_simps]) (simp add: rate_limit_default_def)

end
