(* ===== verification/Identity.thy ===== *)
theory Identity
  imports Ordered_Map
begin

text \<open>
  Identities that are either given or drawn from a counter, as the command journal and the task
  scheduler do it: a given identity pushes the counter past itself, with wrap-around.
\<close>

definition assign_identity :: "u64 \<Rightarrow> u64 \<Rightarrow> u64 \<times> u64" where
  "assign_identity next_id given =
     (if given = 0 then (next_id, next_id + 1) else (given, max next_id (given + 1)))"

text \<open>
  A drawn identity is fresh as long as the counter has not wrapped, which given identities can
  make it do: the bound counts the calls so far and assumes given identities in the lower quarter.
\<close>

definition id_limit :: nat where
  "id_limit = 2 ^ 62"

definition below_next :: "nat \<Rightarrow> u64 \<Rightarrow> (u64, 'v) omap \<Rightarrow> bool" where
  "below_next n next_id m \<longleftrightarrow>
     unat next_id \<le> id_limit + n \<and> (\<forall>k. om_lookup m k \<noteq> None \<longrightarrow> k < next_id)"

lemma below_next_init [simp]: "below_next n 1 om_empty"
  by (simp add: below_next_def id_limit_def)

lemma below_next_mono:
  "below_next n next_id m \<Longrightarrow> (\<And>k v. om_lookup m' k = Some v \<Longrightarrow> om_lookup m k \<noteq> None) \<Longrightarrow>
   below_next (Suc n) next_id m'"
  unfolding below_next_def by fastforce

lemma unat_Suc_below: "unat (w :: u64) < 2 ^ 63 \<Longrightarrow> unat (w + 1) = Suc (unat w)"
  by (simp add: unat_word_ariths)

lemma assign_identity_fresh:
  assumes "below_next n next_id m" and "n < id_limit" and "unat given < id_limit"
    and "given \<noteq> 0 \<Longrightarrow> om_lookup m given = None"
  shows "om_lookup m (fst (assign_identity next_id given)) = None"
    and "below_next (Suc n) (snd (assign_identity next_id given))
           (om_update (fst (assign_identity next_id given)) v m)"
proof -
  have next_id: "unat (next_id + 1) = Suc (unat next_id)"
    using assms(1,2) by (intro unat_Suc_below) (simp add: below_next_def id_limit_def)
  have explicit: "unat (given + 1) = Suc (unat given)"
    using assms(3) by (intro unat_Suc_below) (simp add: id_limit_def)
  show "om_lookup m (fst (assign_identity next_id given)) = None"
    using assms(1,4) by (auto simp: assign_identity_def below_next_def)
  have "fst (assign_identity next_id given) < snd (assign_identity next_id given)"
    "next_id \<le> snd (assign_identity next_id given)"
    using next_id explicit by (auto simp: assign_identity_def word_less_nat_alt word_le_nat_alt max_def)
  moreover have "unat (snd (assign_identity next_id given)) \<le> id_limit + Suc n"
    using next_id explicit assms(1,3) by (auto simp: assign_identity_def below_next_def max_def)
  ultimately show "below_next (Suc n) (snd (assign_identity next_id given))
      (om_update (fst (assign_identity next_id given)) v m)"
    using assms(1) by (auto simp: below_next_def intro: less_le_trans)
qed

end
