(* ===== verification/Command_Journal.thy ===== *)
theory Command_Journal
  imports Complex_Main Packet_Roundtrip Identity
begin

text \<open>
  The journal of control commands of \<open>src/src/control/command_journal.cpp\<close>: commands are
  appended, dispatched with exponential back-off, acknowledged, cancelled, expired and compacted.
  The back-off multiplies a \<open>long double\<close>; the multiplier is a rational here and the rounding to
  \<open>long double\<close>, which depends on the platform, is the argument \<open>fl\<close> of the operations.
\<close>

section \<open>Data\<close>

type_synonym command_id = u64

datatype command_kind = CK_configure | CK_start_stream | CK_stop_stream | CK_calibrate | CK_reset | CK_custom

datatype command_state = CS_pending | CS_sent | CS_acknowledged | CS_failed | CS_expired | CS_cancelled

datatype ack_status = AS_accepted | AS_rejected | AS_busy | AS_malformed | AS_unknown_command

record retry_policy =
  rp_max_attempts :: u32
  rp_initial_delay_ns :: u64
  rp_max_delay_ns :: u64
  rp_multiplier :: rat

definition retry_policy_default :: retry_policy where
  "retry_policy_default =
     \<lparr>rp_max_attempts = 3, rp_initial_delay_ns = 1000000, rp_max_delay_ns = 60000000000,
      rp_multiplier = 2\<rparr>"

record control_command =
  cc_id :: command_id
  cc_kind :: command_kind
  cc_device :: device_id
  cc_created_time_ns :: u64
  cc_expires_time_ns :: u64
  cc_payload :: bytes
  cc_label :: string

definition control_command_default :: control_command where
  "control_command_default =
     \<lparr>cc_id = 0, cc_kind = CK_custom, cc_device = 0, cc_created_time_ns = 0,
      cc_expires_time_ns = 0, cc_payload = [], cc_label = []\<rparr>"

record command_ack =
  ca_command_id :: command_id
  ca_device :: device_id
  ca_status :: ack_status
  ca_time_ns :: u64
  ca_message :: string

record journal_entry =
  je_command :: control_command
  je_state :: command_state
  je_attempts :: u32
  je_last_send_time_ns :: u64
  je_next_attempt_time_ns :: u64
  je_ack :: "command_ack option"
  je_notes :: "string list"

record journal_append_result =
  ja_appended :: bool
  ja_id :: command_id
  ja_reason :: string

record journal_dispatch =
  jd_id :: command_id
  jd_packet :: packet
  jd_attempt :: u32
  jd_next_attempt_time_ns :: u64

record journal_ack_result =
  jr_matched :: bool
  jr_state :: command_state
  jr_reason :: string

record command_journal_stats =
  cjs_appended :: u64
  cjs_dispatched :: u64
  cjs_acknowledged :: u64
  cjs_failed :: u64
  cjs_expired :: u64
  cjs_cancelled :: u64
  cjs_duplicate_rejections :: u64

definition command_journal_stats_default :: command_journal_stats where
  "command_journal_stats_default =
     \<lparr>cjs_appended = 0, cjs_dispatched = 0, cjs_acknowledged = 0, cjs_failed = 0,
      cjs_expired = 0, cjs_cancelled = 0, cjs_duplicate_rejections = 0\<rparr>"

record command_journal_config =
  cjc_max_entries :: nat
  cjc_default_ttl_ns :: u64
  cjc_controller_device :: device_id
  cjc_retry :: retry_policy

definition command_journal_config_default :: command_journal_config where
  "command_journal_config_default =
     \<lparr>cjc_max_entries = 4096, cjc_default_ttl_ns = 30000000000, cjc_controller_device = 0,
      cjc_retry = retry_policy_default\<rparr>"

record command_journal =
  cj_config :: command_journal_config
  cj_entries :: "(command_id, journal_entry) omap"
  cj_stats :: command_journal_stats
  cj_next_id :: command_id

section \<open>Helpers\<close>

definition encode_command_payload :: "command_id \<Rightarrow> command_kind \<Rightarrow> bytes \<Rightarrow> bytes" where
  "encode_command_payload cid kind body =
     map (\<lambda>shift. ucast (drop_bit shift cid AND 0xff)) [56, 48, 40, 32, 24, 16, 8, 0] @
     [case kind of CK_configure \<Rightarrow> 0 | CK_start_stream \<Rightarrow> 1 | CK_stop_stream \<Rightarrow> 2
      | CK_calibrate \<Rightarrow> 3 | CK_reset \<Rightarrow> 4 | CK_custom \<Rightarrow> 5] @ body"

definition same_active_intent :: "control_command \<Rightarrow> control_command \<Rightarrow> bool" where
  "same_active_intent lhs rhs \<longleftrightarrow>
     cc_device lhs = cc_device rhs \<and> cc_kind lhs = cc_kind rhs \<and> cc_label lhs = cc_label rhs \<and>
     cc_payload lhs = cc_payload rhs"

text \<open>The product is converted and multiplied in \<open>long double\<close>, and truncated.\<close>

definition saturating_multiply :: "(rat \<Rightarrow> rat) \<Rightarrow> u64 \<Rightarrow> rat \<Rightarrow> u64 \<Rightarrow> u64" where
  "saturating_multiply fl value multiplier limit =
     (if value \<ge> limit then limit
      else let scaled = fl (fl (of_nat (unat value)) * multiplier) in
        if scaled \<ge> fl (of_nat (unat limit)) then limit
        else max 1 (of_nat (nat \<lfloor>scaled\<rfloor>)))"

definition retry_delay :: "(rat \<Rightarrow> rat) \<Rightarrow> retry_policy \<Rightarrow> u32 \<Rightarrow> u64" where
  "retry_delay fl retry attempts =
     (if attempts = 0 then rp_initial_delay_ns retry
      else let delay = ((\<lambda>delay. saturating_multiply fl delay (rp_multiplier retry) (rp_max_delay_ns retry))
                          ^^ (unat attempts - 1)) (rp_initial_delay_ns retry)
           in min delay (rp_max_delay_ns retry))"

fun terminal :: "command_state \<Rightarrow> bool" where
  "terminal CS_acknowledged = True"
| "terminal CS_failed = True"
| "terminal CS_expired = True"
| "terminal CS_cancelled = True"
| "terminal CS_pending = False"
| "terminal CS_sent = False"

definition add_note :: "string \<Rightarrow> journal_entry \<Rightarrow> journal_entry" where
  "add_note message entry = entry\<lparr>je_notes := je_notes entry @ [message]\<rparr>"

definition make_command_packet :: "command_journal_config \<Rightarrow> journal_entry \<Rightarrow> packet" where
  "make_command_packet config entry =
     packet_default\<lparr>p_kind := PK_control, p_device := cc_device (je_command entry),
       p_timestamp_ns := je_last_send_time_ns entry,
       p_sequence := ucast (cc_id (je_command entry) AND 0xffffffff),
       p_payload := encode_command_payload (cc_id (je_command entry)) (cc_kind (je_command entry))
                      (cc_payload (je_command entry)),
       p_route := Some (routing_info_default\<lparr>
         ri_collector := ucast (cjc_controller_device config AND 0xffff), ri_priority := 255\<rparr>)\<rparr>"

section \<open>Operations\<close>

definition cj_init :: "command_journal_config \<Rightarrow> command_journal" where
  "cj_init config =
     \<lparr>cj_config = config, cj_entries = om_empty, cj_stats = command_journal_stats_default, cj_next_id = 1\<rparr>"

definition cj_size :: "command_journal \<Rightarrow> nat" where
  "cj_size j = om_size (cj_entries j)"

definition cj_empty :: "command_journal \<Rightarrow> bool" where
  "cj_empty j \<longleftrightarrow> om_size (cj_entries j) = 0"

definition cj_find :: "command_id \<Rightarrow> command_journal \<Rightarrow> journal_entry option" where
  "cj_find cid j = om_lookup (cj_entries j) cid"

definition cj_entry_list :: "command_journal \<Rightarrow> journal_entry list" where
  "cj_entry_list j = om_values (cj_entries j)"

definition cj_entries_for_device :: "device_id \<Rightarrow> command_journal \<Rightarrow> journal_entry list" where
  "cj_entries_for_device device j =
     filter (\<lambda>entry. cc_device (je_command entry) = device) (om_values (cj_entries j))"

definition cj_take_next_id :: "command_journal \<Rightarrow> command_id \<times> command_journal" where
  "cj_take_next_id j = (cj_next_id j, j\<lparr>cj_next_id := cj_next_id j + 1\<rparr>)"

definition cj_duplicate_active :: "control_command \<Rightarrow> command_journal \<Rightarrow> bool" where
  "cj_duplicate_active command j \<longleftrightarrow>
     (\<exists>entry \<in> set (om_values (cj_entries j)).
        \<not> terminal (je_state entry) \<and> same_active_intent (je_command entry) command)"

definition cj_count :: "(command_journal_stats \<Rightarrow> command_journal_stats) \<Rightarrow> command_journal \<Rightarrow> command_journal" where
  "cj_count f j = j\<lparr>cj_stats := f (cj_stats j)\<rparr>"

definition count_duplicate :: "command_journal_stats \<Rightarrow> command_journal_stats" where
  "count_duplicate stats = stats\<lparr>cjs_duplicate_rejections := cjs_duplicate_rejections stats + 1\<rparr>"

definition append_refused :: "string \<Rightarrow> journal_append_result" where
  "append_refused reason = \<lparr>ja_appended = False, ja_id = 0, ja_reason = reason\<rparr>"

text \<open>The identity the command gets, and the journal's next identity.\<close>

definition cj_assign_id :: "control_command \<Rightarrow> command_journal \<Rightarrow> command_id \<times> command_journal" where
  "cj_assign_id command j =
     (if cc_id command = 0 then cj_take_next_id j
      else (cc_id command, j\<lparr>cj_next_id := max (cj_next_id j) (cc_id command + 1)\<rparr>))"

definition fresh_entry :: "control_command \<Rightarrow> journal_entry" where
  "fresh_entry command =
     add_note ''command appended''
       \<lparr>je_command = command, je_state = CS_pending, je_attempts = 0, je_last_send_time_ns = 0,
        je_next_attempt_time_ns = cc_created_time_ns command, je_ack = None, je_notes = []\<rparr>"

definition cj_append :: "control_command \<Rightarrow> command_journal \<Rightarrow> journal_append_result \<times> command_journal" where
  "cj_append command j =
     (if om_size (cj_entries j) \<ge> cjc_max_entries (cj_config j)
      then (append_refused ''command journal capacity reached'', j)
      else if cj_duplicate_active command j
      then (append_refused ''duplicate active command'', cj_count count_duplicate j)
      else if cc_id command \<noteq> 0 \<and> om_lookup (cj_entries j) (cc_id command) \<noteq> None
      then (append_refused ''duplicate command id'', cj_count count_duplicate j)
      else
        let (cid, j) = cj_assign_id command j;
            command = command\<lparr>cc_id := cid\<rparr>;
            command = (if cc_expires_time_ns command = 0
                       then command\<lparr>cc_expires_time_ns :=
                              cc_created_time_ns command + cjc_default_ttl_ns (cj_config j)\<rparr>
                       else command);
            j = j\<lparr>cj_entries := om_update cid (fresh_entry command) (cj_entries j)\<rparr>
        in (\<lparr>ja_appended = True, ja_id = cid, ja_reason = ''appended''\<rparr>,
            cj_count (\<lambda>stats. stats\<lparr>cjs_appended := cjs_appended stats + 1\<rparr>) j))"

definition expired_at :: "u64 \<Rightarrow> journal_entry \<Rightarrow> bool" where
  "expired_at now_ns entry \<longleftrightarrow>
     cc_expires_time_ns (je_command entry) \<noteq> 0 \<and> now_ns \<ge> cc_expires_time_ns (je_command entry)"

definition send_entry :: "(rat \<Rightarrow> rat) \<Rightarrow> retry_policy \<Rightarrow> u64 \<Rightarrow> journal_entry \<Rightarrow> journal_entry" where
  "send_entry fl retry now_ns entry =
     add_note ''command dispatched''
       (entry\<lparr>je_attempts := je_attempts entry + 1, je_state := CS_sent,
          je_last_send_time_ns := now_ns,
          je_next_attempt_time_ns := now_ns + retry_delay fl retry (je_attempts entry + 1)\<rparr>)"

definition close_entry :: "command_state \<Rightarrow> string \<Rightarrow> journal_entry \<Rightarrow> journal_entry" where
  "close_entry state message entry = add_note message (entry\<lparr>je_state := state\<rparr>)"

text \<open>
  The body of the loop of \<open>due\<close>. Once \<open>max_count\<close> dispatches are collected the loop breaks;
  the count never goes down, so every later round leaves its entry alone.
\<close>

definition due_body ::
  "(rat \<Rightarrow> rat) \<Rightarrow> command_journal_config \<Rightarrow> u64 \<Rightarrow> nat \<Rightarrow> command_id \<Rightarrow> journal_entry \<Rightarrow>
   journal_dispatch list \<times> command_journal_stats \<Rightarrow>
   journal_entry \<times> journal_dispatch list \<times> command_journal_stats" where
  "due_body fl config now_ns max_count cid entry = (\<lambda>(dispatches, stats).
     if length dispatches \<ge> max_count then (entry, dispatches, stats)
     else if terminal (je_state entry) then (entry, dispatches, stats)
     else if expired_at now_ns entry
     then (close_entry CS_expired ''command expired before dispatch'' entry, dispatches,
           stats\<lparr>cjs_expired := cjs_expired stats + 1\<rparr>)
     else if je_next_attempt_time_ns entry > now_ns then (entry, dispatches, stats)
     else if je_attempts entry \<ge> rp_max_attempts (cjc_retry config)
     then (close_entry CS_failed ''retry attempts exhausted'' entry, dispatches,
           stats\<lparr>cjs_failed := cjs_failed stats + 1\<rparr>)
     else
       let entry = send_entry fl (cjc_retry config) now_ns entry in
       (entry,
        dispatches @ [\<lparr>jd_id = cid, jd_packet = make_command_packet config entry,
                       jd_attempt = je_attempts entry,
                       jd_next_attempt_time_ns = je_next_attempt_time_ns entry\<rparr>],
        stats\<lparr>cjs_dispatched := cjs_dispatched stats + 1\<rparr>))"

definition cj_due ::
  "(rat \<Rightarrow> rat) \<Rightarrow> u64 \<Rightarrow> nat \<Rightarrow> command_journal \<Rightarrow> journal_dispatch list \<times> command_journal" where
  "cj_due fl now_ns max_count j =
     (let body = due_body fl (cj_config j) now_ns max_count;
          (dispatches, stats) = om_loop_state body ([], cj_stats j) (cj_entries j)
      in (dispatches, j\<lparr>cj_entries := om_loop body ([], cj_stats j) (cj_entries j), cj_stats := stats\<rparr>))"

definition cj_put :: "command_id \<Rightarrow> journal_entry \<Rightarrow> command_journal \<Rightarrow> command_journal" where
  "cj_put cid entry j = j\<lparr>cj_entries := om_update cid entry (cj_entries j)\<rparr>"

definition ack_result :: "bool \<Rightarrow> command_state \<Rightarrow> string \<Rightarrow> journal_ack_result" where
  "ack_result matched state reason = \<lparr>jr_matched = matched, jr_state = state, jr_reason = reason\<rparr>"

definition cj_acknowledge ::
  "(rat \<Rightarrow> rat) \<Rightarrow> command_ack \<Rightarrow> command_journal \<Rightarrow> journal_ack_result \<times> command_journal" where
  "cj_acknowledge fl ack j =
     (case om_lookup (cj_entries j) (ca_command_id ack) of
        None \<Rightarrow> (ack_result False CS_pending ''ack did not match a journal entry'', j)
      | Some entry \<Rightarrow>
          if cc_device (je_command entry) \<noteq> ca_device ack
          then (ack_result False (je_state entry) ''ack device did not match command device'', j)
          else if terminal (je_state entry)
          then (ack_result True (je_state entry) ''ack matched a terminal command'', j)
          else
            let cid = ca_command_id ack; entry = entry\<lparr>je_ack := Some ack\<rparr> in
            case ca_status ack of
              AS_accepted \<Rightarrow>
                (ack_result True CS_acknowledged ''acknowledged'',
                 cj_count (\<lambda>stats. stats\<lparr>cjs_acknowledged := cjs_acknowledged stats + 1\<rparr>)
                   (cj_put cid (close_entry CS_acknowledged ''command acknowledged'' entry) j))
            | AS_busy \<Rightarrow>
                (ack_result True CS_pending ''device busy'',
                 cj_put cid
                   (add_note ''device busy; command rescheduled''
                     (entry\<lparr>je_state := CS_pending, je_next_attempt_time_ns :=
                        ca_time_ns ack + retry_delay fl (cjc_retry (cj_config j)) (je_attempts entry + 1)\<rparr>)) j)
            | _ \<Rightarrow>
                (ack_result True CS_failed ''command failed'',
                 cj_count (\<lambda>stats. stats\<lparr>cjs_failed := cjs_failed stats + 1\<rparr>)
                   (cj_put cid (close_entry CS_failed ''command failed by acknowledgement'' entry) j)))"

definition cj_cancel :: "command_id \<Rightarrow> string \<Rightarrow> command_journal \<Rightarrow> bool \<times> command_journal" where
  "cj_cancel cid reason j =
     (case om_lookup (cj_entries j) cid of
        None \<Rightarrow> (False, j)
      | Some entry \<Rightarrow>
          if terminal (je_state entry) then (False, j)
          else (True, cj_count (\<lambda>stats. stats\<lparr>cjs_cancelled := cjs_cancelled stats + 1\<rparr>)
                  (cj_put cid (close_entry CS_cancelled reason entry) j)))"

definition expire_body ::
  "u64 \<Rightarrow> command_id \<Rightarrow> journal_entry \<Rightarrow> journal_entry list \<times> command_journal_stats \<Rightarrow>
   journal_entry \<times> journal_entry list \<times> command_journal_stats" where
  "expire_body now_ns cid entry = (\<lambda>(expired, stats).
     if terminal (je_state entry) then (entry, expired, stats)
     else if expired_at now_ns entry
     then let entry = close_entry CS_expired ''command expired'' entry
          in (entry, expired @ [entry], stats\<lparr>cjs_expired := cjs_expired stats + 1\<rparr>)
     else (entry, expired, stats))"

definition cj_expire :: "u64 \<Rightarrow> command_journal \<Rightarrow> journal_entry list \<times> command_journal" where
  "cj_expire now_ns j =
     (let (expired, stats) = om_loop_state (expire_body now_ns) ([], cj_stats j) (cj_entries j)
      in (expired, j\<lparr>cj_entries := om_loop (expire_body now_ns) ([], cj_stats j) (cj_entries j),
                     cj_stats := stats\<rparr>))"

definition cj_compact_completed :: "nat \<Rightarrow> command_journal \<Rightarrow> command_journal" where
  "cj_compact_completed keep_recent j =
     (if om_size (cj_entries j) \<le> keep_recent then j
      else
        let terminal_ids = map fst (filter (\<lambda>p. terminal (je_state (snd p))) (om_entries (cj_entries j)));
            removable = (if om_size (cj_entries j) > keep_recent
                         then om_size (cj_entries j) - keep_recent else 0)
        in j\<lparr>cj_entries := om_erase_keys (take removable terminal_ids) (cj_entries j)\<rparr>)"

definition cj_clear :: "command_journal \<Rightarrow> command_journal" where
  "cj_clear j =
     j\<lparr>cj_entries := om_empty, cj_stats := command_journal_stats_default, cj_next_id := 1\<rparr>"

definition cj_require_entry :: "command_id \<Rightarrow> command_journal \<Rightarrow> string + journal_entry" where
  "cj_require_entry cid j =
     (case om_lookup (cj_entries j) cid of
        None \<Rightarrow> Inl ''command journal entry not found''
      | Some entry \<Rightarrow> Inr entry)"

section \<open>Commands and text output\<close>

definition make_configure_command :: "device_id \<Rightarrow> u64 \<Rightarrow> bytes \<Rightarrow> string \<Rightarrow> control_command" where
  "make_configure_command device now_ns payload label =
     control_command_default\<lparr>cc_kind := CK_configure, cc_device := device,
       cc_created_time_ns := now_ns, cc_payload := payload, cc_label := label\<rparr>"

definition make_start_stream_command :: "device_id \<Rightarrow> u64 \<Rightarrow> bytes \<Rightarrow> control_command" where
  "make_start_stream_command device now_ns payload =
     control_command_default\<lparr>cc_kind := CK_start_stream, cc_device := device,
       cc_created_time_ns := now_ns, cc_payload := payload, cc_label := ''start_stream''\<rparr>"

definition make_stop_stream_command :: "device_id \<Rightarrow> u64 \<Rightarrow> bytes \<Rightarrow> control_command" where
  "make_stop_stream_command device now_ns payload =
     control_command_default\<lparr>cc_kind := CK_stop_stream, cc_device := device,
       cc_created_time_ns := now_ns, cc_payload := payload, cc_label := ''stop_stream''\<rparr>"

fun command_kind_name :: "command_kind \<Rightarrow> string" where
  "command_kind_name CK_configure = ''configure''"
| "command_kind_name CK_start_stream = ''start_stream''"
| "command_kind_name CK_stop_stream = ''stop_stream''"
| "command_kind_name CK_calibrate = ''calibrate''"
| "command_kind_name CK_reset = ''reset''"
| "command_kind_name CK_custom = ''custom''"

fun command_state_name :: "command_state \<Rightarrow> string" where
  "command_state_name CS_pending = ''pending''"
| "command_state_name CS_sent = ''sent''"
| "command_state_name CS_acknowledged = ''acknowledged''"
| "command_state_name CS_failed = ''failed''"
| "command_state_name CS_expired = ''expired''"
| "command_state_name CS_cancelled = ''cancelled''"

fun ack_status_name :: "ack_status \<Rightarrow> string" where
  "ack_status_name AS_accepted = ''accepted''"
| "ack_status_name AS_rejected = ''rejected''"
| "ack_status_name AS_busy = ''busy''"
| "ack_status_name AS_malformed = ''malformed''"
| "ack_status_name AS_unknown_command = ''unknown_command''"

definition render_journal_entry :: "journal_entry \<Rightarrow> string" where
  "render_journal_entry entry =
     ''journal_entry'' @ newline @
     ''  id: '' @ dec (cc_id (je_command entry)) @ newline @
     ''  device: '' @ dec (cc_device (je_command entry)) @ newline @
     ''  kind: '' @ command_kind_name (cc_kind (je_command entry)) @ newline @
     ''  state: '' @ command_state_name (je_state entry) @ newline @
     ''  attempts: '' @ dec (je_attempts entry) @ newline @
     ''  created_time_ns: '' @ dec (cc_created_time_ns (je_command entry)) @ newline @
     ''  expires_time_ns: '' @ dec (cc_expires_time_ns (je_command entry)) @ newline @
     ''  last_send_time_ns: '' @ dec (je_last_send_time_ns entry) @ newline @
     ''  next_attempt_time_ns: '' @ dec (je_next_attempt_time_ns entry) @ newline @
     (if cc_label (je_command entry) \<noteq> []
      then ''  label: '' @ cc_label (je_command entry) @ newline else []) @
     (case je_ack entry of None \<Rightarrow> []
      | Some ack \<Rightarrow> ''  ack: '' @ ack_status_name (ca_status ack) @ '' time_ns='' @ dec (ca_time_ns ack) @
          '' message='' @ dquote @ ca_message ack @ dquote @ newline) @
     concat (map (\<lambda>note. ''  note: '' @ note @ newline) (je_notes entry))"

definition render_command_journal_stats :: "command_journal_stats \<Rightarrow> string" where
  "render_command_journal_stats stats =
     ''command_journal_stats'' @ newline @
     ''  appended: '' @ dec (cjs_appended stats) @ newline @
     ''  dispatched: '' @ dec (cjs_dispatched stats) @ newline @
     ''  acknowledged: '' @ dec (cjs_acknowledged stats) @ newline @
     ''  failed: '' @ dec (cjs_failed stats) @ newline @
     ''  expired: '' @ dec (cjs_expired stats) @ newline @
     ''  cancelled: '' @ dec (cjs_cancelled stats) @ newline @
     ''  duplicate_rejections: '' @ dec (cjs_duplicate_rejections stats) @ newline"

section \<open>Calls\<close>

datatype journal_call =
    CJ_append control_command
  | CJ_due u64 nat
  | CJ_acknowledge command_ack
  | CJ_cancel command_id string
  | CJ_expire u64
  | CJ_compact nat
  | CJ_clear

fun cj_step :: "(rat \<Rightarrow> rat) \<Rightarrow> journal_call \<Rightarrow> command_journal \<Rightarrow> command_journal" where
  "cj_step fl (CJ_append command) j = snd (cj_append command j)"
| "cj_step fl (CJ_due now_ns max_count) j = snd (cj_due fl now_ns max_count j)"
| "cj_step fl (CJ_acknowledge ack) j = snd (cj_acknowledge fl ack j)"
| "cj_step fl (CJ_cancel cid reason) j = snd (cj_cancel cid reason j)"
| "cj_step fl (CJ_expire now_ns) j = snd (cj_expire now_ns j)"
| "cj_step fl (CJ_compact keep_recent) j = cj_compact_completed keep_recent j"
| "cj_step fl CJ_clear j = cj_clear j"

end
