(* ===== verification/Command_Lifecycle.thy ===== *)
theory Command_Lifecycle
  imports Command_Journal
begin

text \<open>
  What the command journal promises about one command: the life it goes through whatever calls
  are made, the bound on its dispatches, and that polling at the back-off's pace ends it.
\<close>

section \<open>The life of a command\<close>

text \<open>
  The abstract contract: the state and the number of attempts of one command, absent before its
  append and after its compaction, and what each call may do to it.
\<close>

type_synonym life = "(command_state \<times> u32) option"

inductive life_step :: "u32 \<Rightarrow> journal_call \<Rightarrow> life \<Rightarrow> life \<Rightarrow> bool" for max_attempts where
  stay: "life_step max_attempts c x x"
| birth: "life_step max_attempts (CJ_append command) None (Some (CS_pending, 0))"
| dispatched: "\<not> terminal s \<Longrightarrow> n < max_attempts \<Longrightarrow>
    life_step max_attempts (CJ_due t k) (Some (s, n)) (Some (CS_sent, n + 1))"
| exhausted: "\<not> terminal s \<Longrightarrow> n \<ge> max_attempts \<Longrightarrow>
    life_step max_attempts (CJ_due t k) (Some (s, n)) (Some (CS_failed, n))"
| lapsed: "\<not> terminal s \<Longrightarrow> c = CJ_due t k \<or> c = CJ_expire t \<Longrightarrow>
    life_step max_attempts c (Some (s, n)) (Some (CS_expired, n))"
| accepted: "\<not> terminal s \<Longrightarrow> ca_status ack = AS_accepted \<Longrightarrow>
    life_step max_attempts (CJ_acknowledge ack) (Some (s, n)) (Some (CS_acknowledged, n))"
| busy: "\<not> terminal s \<Longrightarrow> ca_status ack = AS_busy \<Longrightarrow>
    life_step max_attempts (CJ_acknowledge ack) (Some (s, n)) (Some (CS_pending, n))"
| refused: "\<not> terminal s \<Longrightarrow> ca_status ack \<in> {AS_rejected, AS_malformed, AS_unknown_command} \<Longrightarrow>
    life_step max_attempts (CJ_acknowledge ack) (Some (s, n)) (Some (CS_failed, n))"
| cancelled: "\<not> terminal s \<Longrightarrow>
    life_step max_attempts (CJ_cancel cid reason) (Some (s, n)) (Some (CS_cancelled, n))"
| compacted: "terminal s \<Longrightarrow> life_step max_attempts (CJ_compact k) (Some (s, n)) None"
| cleared: "life_step max_attempts CJ_clear x None"

inductive_cases life_step_terminalE: "life_step m c (Some (s, n)) (Some (s', n'))"

lemma terminal_absorbing:
  "life_step m c (Some (s, n)) (Some (s', n')) \<Longrightarrow> terminal s \<Longrightarrow> s' = s \<and> n' = n"
  by (auto elim: life_step_terminalE)

definition life_of :: "journal_entry \<Rightarrow> command_state \<times> u32" where
  "life_of entry = (je_state entry, je_attempts entry)"

definition cj_life :: "command_id \<Rightarrow> command_journal \<Rightarrow> life" where
  "cj_life cid j = map_option life_of (cj_find cid j)"

abbreviation cj_max_attempts :: "command_journal \<Rightarrow> u32" where
  "cj_max_attempts j \<equiv> rp_max_attempts (cjc_retry (cj_config j))"

section \<open>Effects of the operations on one entry\<close>

lemma life_of_simps [simp]:
  "life_of (close_entry s m e) = (s, je_attempts e)"
  "life_of (send_entry fl retry t e) = (CS_sent, je_attempts e + 1)"
  "life_of (fresh_entry command) = (CS_pending, 0)"
  "life_of (add_note m e) = life_of e"
  by (simp_all add: life_of_def close_entry_def send_entry_def fresh_entry_def add_note_def)

lemma close_entry_simps [simp]:
  "je_state (close_entry s m e) = s" "je_attempts (close_entry s m e) = je_attempts e"
  "je_command (close_entry s m e) = je_command e"
  by (simp_all add: close_entry_def add_note_def)

lemma send_entry_simps [simp]:
  "je_state (send_entry fl retry t e) = CS_sent" "je_attempts (send_entry fl retry t e) = je_attempts e + 1"
  "je_command (send_entry fl retry t e) = je_command e"
  "je_last_send_time_ns (send_entry fl retry t e) = t"
  "je_next_attempt_time_ns (send_entry fl retry t e) = t + retry_delay fl retry (je_attempts e + 1)"
  by (simp_all add: send_entry_def add_note_def)

lemma fresh_entry_simps [simp]:
  "je_state (fresh_entry command) = CS_pending" "je_attempts (fresh_entry command) = 0"
  "je_command (fresh_entry command) = command"
  by (simp_all add: fresh_entry_def add_note_def)

lemma cj_count_simps [simp]:
  "cj_entries (cj_count f j) = cj_entries j" "cj_config (cj_count f j) = cj_config j"
  "cj_next_id (cj_count f j) = cj_next_id j" "cj_find cid (cj_count f j) = cj_find cid j"
  by (simp_all add: cj_count_def cj_find_def)

lemma cj_put_simps [simp]:
  "cj_entries (cj_put cid e j) = om_update cid e (cj_entries j)"
  "cj_config (cj_put cid e j) = cj_config j" "cj_next_id (cj_put cid e j) = cj_next_id j"
  "cj_find cid' (cj_put cid e j) = (if cid' = cid then Some e else cj_find cid' j)"
  by (simp_all add: cj_put_def cj_find_def)

lemma assign_id_simps [simp]:
  "cj_entries (snd (cj_assign_id command j)) = cj_entries j"
  "cj_config (snd (cj_assign_id command j)) = cj_config j"
  by (simp_all add: cj_assign_id_def cj_take_next_id_def)

text \<open>What a round of \<open>due\<close> makes of an entry while there is room for dispatches.\<close>

definition ready :: "u64 \<Rightarrow> retry_policy \<Rightarrow> journal_entry \<Rightarrow> bool" where
  "ready now_ns retry entry \<longleftrightarrow>
     \<not> terminal (je_state entry) \<and> \<not> expired_at now_ns entry \<and>
     je_next_attempt_time_ns entry \<le> now_ns \<and> je_attempts entry < rp_max_attempts retry"

definition due_entry :: "(rat \<Rightarrow> rat) \<Rightarrow> retry_policy \<Rightarrow> u64 \<Rightarrow> journal_entry \<Rightarrow> journal_entry" where
  "due_entry fl retry now_ns entry =
     (if terminal (je_state entry) then entry
      else if expired_at now_ns entry then close_entry CS_expired ''command expired before dispatch'' entry
      else if je_next_attempt_time_ns entry > now_ns then entry
      else if je_attempts entry \<ge> rp_max_attempts retry
      then close_entry CS_failed ''retry attempts exhausted'' entry
      else send_entry fl retry now_ns entry)"

lemma fst_due_body:
  "fst (due_body fl config now_ns k cid e s) =
     (if length (fst s) \<ge> k then e else due_entry fl (cjc_retry config) now_ns e)"
  by (simp add: due_body_def due_entry_def split_beta Let_def)

lemma fst_snd_due_body:
  "fst (snd (due_body fl config now_ns k cid e s)) =
     (if length (fst s) < k \<and> ready now_ns (cjc_retry config) e
      then fst s @ [\<lparr>jd_id = cid,
              jd_packet = make_command_packet config (send_entry fl (cjc_retry config) now_ns e),
              jd_attempt = je_attempts e + 1,
              jd_next_attempt_time_ns = now_ns + retry_delay fl (cjc_retry config) (je_attempts e + 1)\<rparr>]
      else fst s)"
  by (auto simp: due_body_def ready_def split_beta Let_def not_less not_le send_entry_def add_note_def)

lemma cj_due_simps:
  "cj_entries (snd (cj_due fl now_ns k j)) = om_loop (due_body fl (cj_config j) now_ns k) ([], cj_stats j) (cj_entries j)"
  "cj_config (snd (cj_due fl now_ns k j)) = cj_config j"
  "cj_next_id (snd (cj_due fl now_ns k j)) = cj_next_id j"
  "fst (cj_due fl now_ns k j) =
     fst (om_loop_state (due_body fl (cj_config j) now_ns k) ([], cj_stats j) (cj_entries j))"
  by (simp_all add: cj_due_def Let_def split_beta)

lemma cj_expire_simps:
  "cj_entries (snd (cj_expire now_ns j)) = om_loop (expire_body now_ns) ([], cj_stats j) (cj_entries j)"
  "cj_config (snd (cj_expire now_ns j)) = cj_config j"
  "cj_next_id (snd (cj_expire now_ns j)) = cj_next_id j"
  "fst (cj_expire now_ns j) = fst (om_loop_state (expire_body now_ns) ([], cj_stats j) (cj_entries j))"
  by (simp_all add: cj_expire_def Let_def split_beta)

lemma cj_compact_simps [simp]:
  "cj_config (cj_compact_completed k j) = cj_config j"
  "cj_next_id (cj_compact_completed k j) = cj_next_id j"
  by (simp_all add: cj_compact_completed_def Let_def)

definition expire_entry :: "u64 \<Rightarrow> journal_entry \<Rightarrow> journal_entry" where
  "expire_entry now_ns entry =
     (if \<not> terminal (je_state entry) \<and> expired_at now_ns entry
      then close_entry CS_expired ''command expired'' entry else entry)"

lemma cj_expire_entries: "cj_entries (snd (cj_expire now_ns j)) = om_map (\<lambda>_. expire_entry now_ns) (cj_entries j)"
  unfolding cj_expire_simps
  by (rule om_loop_map) (simp add: expire_body_def expire_entry_def split_beta Let_def)

lemma cj_find_due:
  assumes "cj_find cid j = Some e"
  obtains "cj_find cid (snd (cj_due fl now_ns k j)) = Some e"
  | "cj_find cid (snd (cj_due fl now_ns k j)) = Some (due_entry fl (cjc_retry (cj_config j)) now_ns e)"
proof -
  from assms have "om_lookup (cj_entries j) cid = Some e" by (simp add: cj_find_def)
  then obtain s where "cj_find cid (snd (cj_due fl now_ns k j)) =
      Some (fst (due_body fl (cj_config j) now_ns k cid e s))"
    by (rule om_lookup_loop [of _ _ _ "due_body fl (cj_config j) now_ns k" "([], cj_stats j)"])
      (simp add: cj_find_def cj_due_simps)
  with that show thesis by (simp add: fst_due_body split: if_splits)
qed

lemma cj_find_due_None [simp]: "cj_find cid (snd (cj_due fl now_ns k j)) = None \<longleftrightarrow> cj_find cid j = None"
  by (simp add: cj_find_def cj_due_simps)

lemma cj_find_dueD: "cj_find cid (snd (cj_due fl now_ns k j)) = Some e' \<Longrightarrow> \<exists>e. cj_find cid j = Some e"
  using cj_find_due_None [of cid fl now_ns k j] by auto

lemma cj_find_expire [simp]:
  "cj_find cid (snd (cj_expire now_ns j)) = map_option (expire_entry now_ns) (cj_find cid j)"
  by (simp add: cj_find_def cj_expire_entries)

text \<open>Compaction removes finished commands only, and only the surplus.\<close>

definition compacted_ids :: "nat \<Rightarrow> command_journal \<Rightarrow> command_id list" where
  "compacted_ids keep_recent j =
     take (cj_size j - keep_recent)
       (map fst (filter (\<lambda>p. terminal (je_state (snd p))) (om_entries (cj_entries j))))"

lemma cj_compact_entries:
  "cj_entries (cj_compact_completed k j) = om_erase_keys (compacted_ids k j) (cj_entries j)"
  by (auto simp: cj_compact_completed_def compacted_ids_def cj_size_def Let_def om_erase_keys_def)

lemma compacted_terminal:
  "cid \<in> set (compacted_ids k j) \<Longrightarrow> \<exists>e. cj_find cid j = Some e \<and> terminal (je_state e)"
  by (auto simp: compacted_ids_def cj_find_def om_mem_entries dest!: in_set_takeD)

lemma cj_find_compact:
  "cj_find cid (cj_compact_completed k j) = (if cid \<in> set (compacted_ids k j) then None else cj_find cid j)"
  by (simp add: cj_find_def cj_compact_entries)

lemma cj_find_clear [simp]: "cj_find cid (cj_clear j) = None"
  by (simp add: cj_clear_def cj_find_def)

text \<open>An append either leaves the entries alone or adds a fresh entry under the assigned identity.\<close>

lemma cj_append_config [simp]: "cj_config (snd (cj_append command j)) = cj_config j"
  by (simp add: cj_append_def Let_def split_beta)

lemma cj_append_cases:
  obtains (refused) "cj_entries (snd (cj_append command j)) = cj_entries j"
    "cj_next_id (snd (cj_append command j)) = cj_next_id j"
  | (appended) command' where
    "cj_entries (snd (cj_append command j)) =
       om_update (fst (cj_assign_id command j)) (fresh_entry command') (cj_entries j)"
    "cj_next_id (snd (cj_append command j)) = cj_next_id (snd (cj_assign_id command j))"
    "same_active_intent command' command"
    "\<not> cj_duplicate_active command j"
    "cc_id command \<noteq> 0 \<Longrightarrow> cj_find (cc_id command) j = None"
    "cj_size j < cjc_max_entries (cj_config j)"
proof (cases "om_size (cj_entries j) \<ge> cjc_max_entries (cj_config j) \<or> cj_duplicate_active command j \<or>
    (cc_id command \<noteq> 0 \<and> om_lookup (cj_entries j) (cc_id command) \<noteq> None)")
  case True
  then show thesis by (intro refused) (auto simp: cj_append_def)
next
  case False
  then show thesis
    by (intro appended [of "let command = command\<lparr>cc_id := fst (cj_assign_id command j)\<rparr>
          in if cc_expires_time_ns command = 0
             then command\<lparr>cc_expires_time_ns :=
               cc_created_time_ns command + cjc_default_ttl_ns (cj_config j)\<rparr> else command"])
      (auto simp: cj_append_def Let_def split_beta same_active_intent_def cj_size_def cj_find_def)
qed

section \<open>Identities stay below the next one\<close>

definition ids_below :: "nat \<Rightarrow> command_journal \<Rightarrow> bool" where
  "ids_below n j \<longleftrightarrow> below_next n (cj_next_id j) (cj_entries j)"

fun low_id :: "journal_call \<Rightarrow> bool" where
  "low_id (CJ_append command) \<longleftrightarrow> unat (cc_id command) < id_limit"
| "low_id _ \<longleftrightarrow> True"

lemma ids_below_weaken:
  "ids_below n j \<Longrightarrow> (\<And>cid e. cj_find cid j' = Some e \<Longrightarrow> cj_find cid j \<noteq> None) \<Longrightarrow>
   cj_next_id j' = cj_next_id j \<Longrightarrow> ids_below (Suc n) j'"
  unfolding ids_below_def cj_find_def by (simp add: below_next_mono)

lemma cj_assign_id_identity:
  "fst (cj_assign_id command j) = fst (assign_identity (cj_next_id j) (cc_id command))"
  "cj_next_id (snd (cj_assign_id command j)) = snd (assign_identity (cj_next_id j) (cc_id command))"
  by (simp_all add: cj_assign_id_def cj_take_next_id_def assign_identity_def)

lemma cj_acknowledge_cases:
  obtains (ignored) "snd (cj_acknowledge fl ack j) = j"
  | (answered) e e' where "cj_find (ca_command_id ack) j = Some e" "\<not> terminal (je_state e)"
    "cj_entries (snd (cj_acknowledge fl ack j)) = om_update (ca_command_id ack) e' (cj_entries j)"
    "cj_next_id (snd (cj_acknowledge fl ack j)) = cj_next_id j"
    "je_command e' = je_command e"
    "life_step m (CJ_acknowledge ack) (Some (life_of e)) (Some (life_of e'))"
proof (cases "cj_find (ca_command_id ack) j")
  case (Some e)
  show thesis
  proof (cases "cc_device (je_command e) \<noteq> ca_device ack \<or> terminal (je_state e)")
    case True
    with Some show thesis by (intro ignored) (auto simp: cj_acknowledge_def cj_find_def)
  next
    case False
    with Some show thesis
      by (cases "ca_status ack";
          intro answered [of e "the (cj_find (ca_command_id ack) (snd (cj_acknowledge fl ack j)))"])
        (auto simp: cj_acknowledge_def cj_find_def Let_def life_of_def close_entry_def add_note_def
          intro: accepted busy refused)
  qed
qed (simp add: ignored cj_acknowledge_def cj_find_def)

lemma cj_acknowledge_config [simp]: "cj_config (snd (cj_acknowledge fl ack j)) = cj_config j"
  by (auto simp: cj_acknowledge_def Let_def split: option.split ack_status.split)

lemma cj_cancel_cases:
  obtains (ignored) "snd (cj_cancel cid reason j) = j"
  | (closed) e where "cj_find cid j = Some e" "\<not> terminal (je_state e)"
    "cj_entries (snd (cj_cancel cid reason j)) = om_update cid (close_entry CS_cancelled reason e) (cj_entries j)"
    "cj_next_id (snd (cj_cancel cid reason j)) = cj_next_id j"
  by (cases "cj_find cid j"; cases "terminal (je_state (the (cj_find cid j)))")
    (auto simp: cj_cancel_def cj_find_def)

lemma cj_cancel_config [simp]: "cj_config (snd (cj_cancel cid reason j)) = cj_config j"
  by (simp add: cj_cancel_def split: option.split)

lemma cj_step_config [simp]: "cj_config (cj_step fl c j) = cj_config j"
  by (cases c) (simp_all add: cj_due_simps cj_expire_simps, simp add: cj_clear_def)

lemma cj_config_run [simp]: "cj_config (fold (cj_step fl) cs j) = cj_config j"
  by (induction cs arbitrary: j) simp_all

lemma ids_below_step:
  assumes "ids_below n j" and "n < id_limit" and "low_id c"
  shows "ids_below (Suc n) (cj_step fl c j)"
proof (cases c)
  case (CJ_append command)
  show ?thesis
  proof (cases rule: cj_append_cases [of command j])
    case refused
    with assms CJ_append show ?thesis by (auto intro: ids_below_weaken simp: cj_find_def)
  next
    case (appended command')
    from assms CJ_append appended(5) show ?thesis
      by (simp add: ids_below_def appended(1,2) cj_assign_id_identity cj_find_def assign_identity_fresh(2))
  qed
next
  case (CJ_acknowledge ack)
  show ?thesis
    by (cases rule: cj_acknowledge_cases [of fl ack j])
      (use assms CJ_acknowledge in \<open>auto intro!: ids_below_weaken [OF assms(1)] simp: cj_find_def split: if_splits\<close>)
next
  case (CJ_cancel cid reason)
  show ?thesis
    by (cases rule: cj_cancel_cases [of cid reason j])
      (use assms CJ_cancel in \<open>auto intro!: ids_below_weaken [OF assms(1)] simp: cj_find_def split: if_splits\<close>)
next
  case CJ_clear
  then show ?thesis by (simp add: ids_below_def cj_clear_def)
qed (use assms in \<open>auto intro!: ids_below_weaken [OF assms(1)] simp: cj_due_simps(3) cj_expire_simps(3)
      cj_find_compact dest: cj_find_dueD split: if_splits\<close>)

interpretation journal_ids: counted_machine "cj_init config" "cj_step fl" ids_below low_id id_limit
  by unfold_locales
    (simp_all add: ids_below_step, simp add: ids_below_def cj_init_def)

section \<open>Refinement\<close>

lemma due_entry_life:
  "life_step (rp_max_attempts retry) (CJ_due t k) (Some (life_of e)) (Some (life_of (due_entry fl retry t e)))"
  by (auto simp: due_entry_def stay life_of_def [of e] intro: dispatched exhausted lapsed)

lemma expire_entry_life:
  "life_step m (CJ_expire t) (Some (life_of e)) (Some (life_of (expire_entry t e)))"
  by (auto simp: expire_entry_def stay life_of_def [of e] intro: lapsed)

lemma cj_step_life:
  assumes "ids_below n j" and "n < id_limit" and "low_id c"
  shows "life_step (cj_max_attempts j) c (cj_life cid j) (cj_life cid (cj_step fl c j))"
proof (cases c)
  case (CJ_append command)
  show ?thesis
  proof (cases rule: cj_append_cases [of command j])
    case refused
    with CJ_append show ?thesis by (simp add: cj_life_def cj_find_def stay)
  next
    case (appended command')
    have "cj_find (fst (cj_assign_id command j)) j = None"
      using assms CJ_append appended(5)
      by (simp add: cj_find_def cj_assign_id_identity ids_below_def assign_identity_fresh(1))
    with appended(1) CJ_append show ?thesis
      by (auto simp: cj_life_def cj_find_def intro: stay birth)
  qed
next
  case (CJ_due t k)
  show ?thesis
  proof (cases "cj_find cid j")
    case (Some e)
    show ?thesis
      by (cases rule: cj_find_due [OF Some, of fl t k]) (simp_all add: Some CJ_due cj_life_def stay due_entry_life)
  next
    case None
    then have "cj_find cid (snd (cj_due fl t k j)) = None" by simp
    with None show ?thesis by (simp add: CJ_due cj_life_def stay del: cj_find_due_None)
  qed
next
  case (CJ_acknowledge ack)
  show ?thesis
    by (cases rule: cj_acknowledge_cases [where fl = fl and ack = ack and j = j and m = "cj_max_attempts j"])
      (simp_all add: CJ_acknowledge cj_life_def cj_find_def stay)
next
  case (CJ_cancel cid' reason)
  show ?thesis
    by (cases rule: cj_cancel_cases [of cid' reason j])
      (auto simp: CJ_cancel cj_life_def cj_find_def stay life_of_def [of "_ :: journal_entry"] intro: cancelled)
next
  case (CJ_expire t)
  then show ?thesis
    by (cases "cj_find cid j") (simp_all add: cj_life_def stay expire_entry_life)
next
  case (CJ_compact k)
  then show ?thesis
    by (auto simp: cj_life_def cj_find_compact stay life_of_def [of "_ :: journal_entry"] intro: compacted
        dest!: compacted_terminal)
next
  case CJ_clear
  then show ?thesis by (simp add: cj_life_def cleared)
qed

section \<open>Active commands differ\<close>

definition intents_distinct :: "command_journal \<Rightarrow> bool" where
  "intents_distinct j \<longleftrightarrow>
     (\<forall>cid cid' e e'. cj_find cid j = Some e \<and> cj_find cid' j = Some e' \<and> cid \<noteq> cid' \<and>
        \<not> terminal (je_state e) \<and> \<not> terminal (je_state e') \<longrightarrow>
        \<not> same_active_intent (je_command e) (je_command e'))"

lemma same_active_intent_sym: "same_active_intent a b \<longleftrightarrow> same_active_intent b a"
  by (auto simp: same_active_intent_def)

lemma same_active_intent_trans:
  "same_active_intent a b \<Longrightarrow> same_active_intent b c \<Longrightarrow> same_active_intent a c"
  by (auto simp: same_active_intent_def)

lemma not_duplicate_activeD:
  "\<not> cj_duplicate_active command j \<Longrightarrow> cj_find cid j = Some e \<Longrightarrow> \<not> terminal (je_state e) \<Longrightarrow>
   \<not> same_active_intent (je_command e) command"
  by (auto simp: cj_duplicate_active_def om_values_lookup cj_find_def)

text \<open>A call that adds nothing only finishes commands or removes them.\<close>

definition narrows :: "command_journal \<Rightarrow> command_journal \<Rightarrow> bool" where
  "narrows j j' \<longleftrightarrow>
     (\<forall>cid e'. cj_find cid j' = Some e' \<longrightarrow>
        (\<exists>e. cj_find cid j = Some e \<and> je_command e' = je_command e \<and>
             (terminal (je_state e) \<longrightarrow> terminal (je_state e'))))"

lemma intents_distinct_narrows:
  assumes "intents_distinct j" and "narrows j j'"
  shows "intents_distinct j'"
  unfolding intents_distinct_def
proof (intro allI impI, elim conjE)
  fix cid cid' a' b'
  assume find: "cj_find cid j' = Some a'" "cj_find cid' j' = Some b'" and "cid \<noteq> cid'"
    and active: "\<not> terminal (je_state a')" "\<not> terminal (je_state b')"
  from find assms(2) active obtain a b where "cj_find cid j = Some a" "cj_find cid' j = Some b"
    "je_command a' = je_command a" "je_command b' = je_command b"
    "\<not> terminal (je_state a)" "\<not> terminal (je_state b)"
    unfolding narrows_def by metis
  with assms(1) \<open>cid \<noteq> cid'\<close> show "\<not> same_active_intent (je_command a') (je_command b')"
    unfolding intents_distinct_def by metis
qed

lemma due_entry_command [simp]:
  "je_command (due_entry fl retry t e) = je_command e"
  "terminal (je_state e) \<Longrightarrow> due_entry fl retry t e = e"
  by (simp_all add: due_entry_def)

lemma expire_entry_command [simp]:
  "je_command (expire_entry t e) = je_command e"
  "terminal (je_state e) \<Longrightarrow> expire_entry t e = e"
  by (simp_all add: expire_entry_def)

lemma narrows_due: "narrows j (snd (cj_due fl t k j))"
  unfolding narrows_def
proof (intro allI impI)
  fix cid e'
  assume new: "cj_find cid (snd (cj_due fl t k j)) = Some e'"
  then obtain e where old: "cj_find cid j = Some e" by (auto dest: cj_find_dueD)
  from new show "\<exists>e. cj_find cid j = Some e \<and> je_command e' = je_command e \<and>
      (terminal (je_state e) \<longrightarrow> terminal (je_state e'))"
    by (cases rule: cj_find_due [OF old, of fl t k]) (auto simp: old)
qed

lemma narrows_answer:
  assumes "cj_find cid j = Some e" and "\<not> terminal (je_state e)" and "je_command e' = je_command e"
    and "cj_entries j' = om_update cid e' (cj_entries j)"
  shows "narrows j j'"
  using assms by (auto simp: narrows_def cj_find_def)

lemma narrows_refl [simp]: "narrows j j"
  by (simp add: narrows_def)

lemma narrows_step:
  assumes "\<And>command. c \<noteq> CJ_append command"
  shows "narrows j (cj_step fl c j)"
proof (cases c)
  case (CJ_acknowledge ack)
  then show ?thesis
    by (cases rule: cj_acknowledge_cases [of fl ack j]) (auto intro: narrows_answer)
next
  case (CJ_cancel cid reason)
  then show ?thesis
    by (cases rule: cj_cancel_cases [of cid reason j]) (auto intro: narrows_answer [OF _ _ close_entry_simps(3)])
qed (use assms in \<open>auto simp: narrows_due narrows_def [of _ "snd (cj_expire _ _)"]
      narrows_def [of _ "cj_compact_completed _ _"] narrows_def [of _ "cj_clear _"] cj_find_compact
      split: if_splits\<close>)

lemma intents_distinct_append:
  assumes "intents_distinct j"
  shows "intents_distinct (snd (cj_append command j))"
proof (cases rule: cj_append_cases [of command j])
  case refused
  with assms show ?thesis by (simp add: intents_distinct_def cj_find_def)
next
  case (appended command')
  have other: "\<not> same_active_intent (je_command e) command'"
    if "cj_find cid j = Some e" "\<not> terminal (je_state e)" for cid e
    using not_duplicate_activeD [OF appended(4) that] appended(3)
    by (blast intro: same_active_intent_trans)
  show ?thesis
    unfolding intents_distinct_def
  proof (intro allI impI, elim conjE)
    fix cid cid' a b
    let ?new = "fst (cj_assign_id command j)"
    assume "cj_find cid (snd (cj_append command j)) = Some a"
      and "cj_find cid' (snd (cj_append command j)) = Some b"
      and "cid \<noteq> cid'" and "\<not> terminal (je_state a)" and "\<not> terminal (je_state b)"
    with assms other show "\<not> same_active_intent (je_command a) (je_command b)"
      by (auto simp: cj_find_def appended(1) intents_distinct_def same_active_intent_sym [of command']
          split: if_splits)
  qed
qed

lemma intents_distinct_step: "intents_distinct j \<Longrightarrow> intents_distinct (cj_step fl c j)"
  by (cases c) (simp add: intents_distinct_append,
      (rule intents_distinct_narrows, assumption, rule narrows_step, simp)+)

interpretation journal_intents: state_machine "cj_init config" "cj_step fl" intents_distinct
  by unfold_locales
    (simp_all add: intents_distinct_step, simp add: intents_distinct_def cj_init_def cj_find_def)

section \<open>What a poll dispatches\<close>

lemma map_state_dispatches:
  "map jd_id (fst (snd (map_state (due_body fl config t k) ps (ds, stats)))) =
   map jd_id ds @ take (k - length ds) (map fst (filter (\<lambda>p. ready t (cjc_retry config) (snd p)) ps))"
proof (induction ps arbitrary: ds stats)
  case (Cons p ps)
  obtain cid e where p: "p = (cid, e)" by (cases p)
  let ?s = "snd (due_body fl config t k cid e (ds, stats))"
  have "map jd_id (fst (snd (map_state (due_body fl config t k) ps ?s))) =
      map jd_id (fst ?s) @ take (k - length (fst ?s)) (map fst (filter (\<lambda>p. ready t (cjc_retry config) (snd p)) ps))"
    using Cons.IH [of "fst ?s" "snd ?s"] by simp
  then show ?case
    by (cases "length ds < k") (simp_all add: p split_beta Let_def fst_snd_due_body Suc_diff_Suc [symmetric] take_Cons')
qed simp

lemma map_state_dispatch_contents:
  "d \<in> set (fst (snd (map_state (due_body fl config t k) ps (ds, stats)))) \<Longrightarrow> d \<notin> set ds \<Longrightarrow>
   \<exists>e. (jd_id d, e) \<in> set ps \<and> ready t (cjc_retry config) e \<and>
       jd_packet d = make_command_packet config (send_entry fl (cjc_retry config) t e) \<and>
       jd_attempt d = je_attempts e + 1"
proof (induction ps arbitrary: ds stats)
  case (Cons p ps)
  obtain cid e where p: "p = (cid, e)" by (cases p)
  let ?s = "snd (due_body fl config t k cid e (ds, stats))"
  show ?case
  proof (cases "d \<in> set (fst ?s)")
    case True
    with Cons.prems(2) show ?thesis
      by (auto simp: p fst_snd_due_body split: if_splits intro!: exI [of _ e])
  next
    case False
    with Cons.IH [of "fst ?s" "snd ?s"] Cons.prems(1) show ?thesis
      by (auto simp: p split_beta Let_def)
  qed
qed simp

lemma due_contents:
  assumes "d \<in> set (fst (cj_due fl t k j))"
  obtains e where "cj_find (jd_id d) j = Some e" "ready t (cjc_retry (cj_config j)) e"
    "jd_packet d = make_command_packet (cj_config j) (send_entry fl (cjc_retry (cj_config j)) t e)"
    "jd_attempt d = je_attempts e + 1"
  using assms map_state_dispatch_contents [of d fl "cj_config j" t k "om_entries (cj_entries j)" "[]" "cj_stats j"]
  by (auto simp: cj_due_simps om_loop_state_def cj_find_def om_mem_entries)

lemma map_state_room:
  "length ds + length ps \<le> k \<Longrightarrow>
   fst (map_state (due_body fl config t k) ps (ds, stats)) =
     map (\<lambda>p. (fst p, due_entry fl (cjc_retry config) t (snd p))) ps"
proof (induction ps arbitrary: ds stats)
  case (Cons p ps)
  obtain cid e where p: "p = (cid, e)" by (cases p)
  let ?s = "snd (due_body fl config t k cid e (ds, stats))"
  have "length (fst ?s) + length ps \<le> k"
    using Cons.prems by (simp add: fst_snd_due_body)
  with Cons.IH [of "fst ?s" "snd ?s"] Cons.prems show ?case
    by (simp add: p split_beta Let_def fst_due_body)
qed simp

text \<open>A poll with room for every entry treats each of them.\<close>

lemma cj_find_due_all:
  assumes "cj_size j \<le> k"
  shows "cj_find cid (snd (cj_due fl t k j)) =
    map_option (due_entry fl (cjc_retry (cj_config j)) t) (cj_find cid j)"
proof -
  have "om_entries (cj_entries (snd (cj_due fl t k j))) =
      map (\<lambda>p. (fst p, due_entry fl (cjc_retry (cj_config j)) t (snd p))) (om_entries (cj_entries j))"
    using assms by (simp add: cj_due_simps om_entries_loop map_state_room cj_size_def om_size_def)
  then show ?thesis by (simp add: cj_find_def om_lookup_entries
      map_of_map_values [of "\<lambda>_. due_entry fl (cjc_retry (cj_config j)) t"])
qed

lemma cj_size_due [simp]: "cj_size (snd (cj_due fl t k j)) = cj_size j"
  by (simp add: cj_size_def cj_due_simps)

section \<open>Back-off\<close>

lemma retry_delay_le: "attempts \<noteq> 0 \<Longrightarrow> retry_delay fl retry attempts \<le> rp_max_delay_ns retry"
  by (simp add: retry_delay_def Let_def)

text \<open>
  With a whole multiplier, and a rounding that is monotone and exact on 64-bit integers (as
  \<open>long double\<close> is where it has a 64-bit significand), the product saturates exactly.
\<close>

definition exact_rounding :: "(rat \<Rightarrow> rat) \<Rightarrow> bool" where
  "exact_rounding fl \<longleftrightarrow> mono fl \<and> (\<forall>n < 2 ^ 64. fl (of_nat n) = of_nat n)"

lemma exact_roundingD:
  "exact_rounding fl \<Longrightarrow> x \<le> y \<Longrightarrow> fl x \<le> fl y"
  "exact_rounding fl \<Longrightarrow> n < 2 ^ 64 \<Longrightarrow> fl (of_nat n) = of_nat n"
  by (auto simp: exact_rounding_def dest: monoD)

lemma saturating_multiply_exact:
  assumes "exact_rounding fl" and "v \<noteq> 0" and "0 < m"
  shows "unat (saturating_multiply fl v (of_nat m) limit) = min (unat limit) (unat v * m)"
proof (cases "v \<ge> limit")
  case True
  have "unat limit \<le> unat v" using True by (simp add: word_le_nat_alt)
  also have "unat v \<le> unat v * m" using assms(3) by simp
  finally show ?thesis using True by (simp add: saturating_multiply_def min_def)
next
  case False
  have unat: "fl (of_nat (unat w)) = of_nat (unat w)" for w :: u64
    using unat_below [of w] by (intro exact_roundingD(2) [OF assms(1)]) simp
  have prod: "fl (of_nat (unat v)) * of_nat m = of_nat (unat v * m)" by (simp only: unat of_nat_mult)
  show ?thesis
  proof (cases "unat limit \<le> unat v * m")
    case True
    then have "fl (of_nat (unat limit)) \<le> fl (of_nat (unat v * m))"
      by (intro exact_roundingD(1) [OF assms(1)]) (simp only: of_nat_le_iff)
    with False True show ?thesis unfolding saturating_multiply_def Let_def prod by simp
  next
    case small: False
    with unat_below [of limit] have below: "unat v * m < 2 ^ 64" by simp
    then have scaled: "fl (of_nat (unat v * m)) = of_nat (unat v * m)"
      by (rule exact_roundingD(2) [OF assms(1)])
    have "0 < unat v * m" using assms(2,3) by (simp add: unat_gt_0)
    have word: "unat (of_nat (unat v * m) :: u64) = unat v * m"
      using below by (simp add: unat_of_nat del: of_nat_mult)
    have "1 \<le> (of_nat (unat v * m) :: u64)"
      using \<open>0 < unat v * m\<close> word by (simp only: word_le_nat_alt) simp
    then have "max 1 (of_nat (unat v * m) :: u64) = of_nat (unat v * m)" by (rule max_absorb2)
    moreover have "\<not> fl (of_nat (unat limit)) \<le> fl (of_nat (unat v * m))"
      using small by (simp only: unat scaled of_nat_le_iff) simp
    ultimately show ?thesis
      using False small word unfolding saturating_multiply_def Let_def prod scaled
      by (simp only: floor_of_nat nat_int if_False min_def)
  qed
qed

lemma iterated_delay:
  assumes "exact_rounding fl" and "initial \<noteq> 0" and "0 < m"
  shows "min (unat limit) (unat (((\<lambda>d. saturating_multiply fl d (of_nat m) limit) ^^ n) initial)) =
         min (unat limit) (unat initial * m ^ n)"
proof (induction n)
  case (Suc n)
  define d where "d = ((\<lambda>d. saturating_multiply fl d (of_nat m) limit) ^^ n) initial"
  have IH: "min (unat limit) (unat d) = min (unat limit) (unat initial * m ^ n)"
    using Suc.IH by (simp add: d_def)
  have "min (unat limit) (unat (saturating_multiply fl d (of_nat m) limit)) = min (unat limit) (unat initial * m ^ n * m)"
  proof (cases "limit \<le> d")
    case True
    then have "unat limit \<le> unat initial * m ^ n"
      using IH by (simp add: word_le_nat_alt min_def split: if_splits)
    also have "\<dots> \<le> unat initial * m ^ n * m" using assms(3) by simp
    finally show ?thesis using True by (simp add: saturating_multiply_def min_def)
  next
    case False
    then have d: "unat d = unat initial * m ^ n"
      using IH by (simp add: word_le_nat_alt min_def split: if_splits)
    with assms(2,3) have "d \<noteq> 0" by (metis mult_eq_0_iff power_not_zero unat_0 unat_0_iff neq0_conv)
    then show ?thesis by (simp add: saturating_multiply_exact assms d)
  qed
  then show ?case by (simp add: d_def ac_simps)
qed simp

section \<open>Polling at the pace of the back-off\<close>

text \<open>The times of a caller that waits at least \<open>delay\<close> between its calls, without overflow.\<close>

fun spaced :: "u64 \<Rightarrow> u64 \<Rightarrow> u64 list \<Rightarrow> bool" where
  "spaced delay from [] \<longleftrightarrow> True"
| "spaced delay from (t # ts) \<longleftrightarrow>
     from \<le> t \<and> unat t + unat delay < 2 ^ 64 \<and> spaced delay (t + delay) ts"

definition poll_all :: "(rat \<Rightarrow> rat) \<Rightarrow> u64 list \<Rightarrow> command_journal \<Rightarrow> command_journal" where
  "poll_all fl ts j = fold (\<lambda>t j. snd (cj_due fl t (cj_size j) j)) ts j"

lemma poll_all_simps [simp]:
  "poll_all fl [] j = j"
  "poll_all fl (t # ts) j = poll_all fl ts (snd (cj_due fl t (cj_size j) j))"
  by (simp_all add: poll_all_def)

lemma poll_all_terminal:
  "cj_find cid j = Some e \<Longrightarrow> terminal (je_state e) \<Longrightarrow> cj_find cid (poll_all fl ts j) = Some e"
  by (induction ts arbitrary: j) (simp_all add: cj_find_due_all)

lemma poll_all_terminates:
  assumes "cj_find cid j = Some e" and "je_next_attempt_time_ns e \<le> from"
    and "spaced (rp_max_delay_ns (cjc_retry (cj_config j))) from ts"
    and "unat (cj_max_attempts j) - unat (je_attempts e) < length ts"
  shows "\<exists>e'. cj_find cid (poll_all fl ts j) = Some e' \<and> terminal (je_state e')"
  using assms
proof (induction ts arbitrary: j e "from")
  case (Cons t ts)
  let ?retry = "cjc_retry (cj_config j)"
  let ?j = "snd (cj_due fl t (cj_size j) j)"
  let ?e = "due_entry fl ?retry t e"
  have find: "cj_find cid ?j = Some ?e"
    using Cons.prems(1) by (simp add: cj_find_due_all)
  show ?case
  proof (cases "terminal (je_state ?e)")
    case True
    with find poll_all_terminal [OF find, of fl ts] show ?thesis by simp
  next
    case False
    moreover have "je_next_attempt_time_ns e \<le> t"
      using Cons.prems(2,3) by (auto intro: order_trans)
    ultimately have sent: "?e = send_entry fl ?retry t e" "je_attempts e < rp_max_attempts ?retry"
      by (auto simp: due_entry_def not_less not_le split: if_splits)
    have attempts: "unat (je_attempts e + 1) = Suc (unat (je_attempts e))"
      using sent(2) by (rule unat_succ)
    then have delay: "retry_delay fl ?retry (je_attempts e + 1) \<le> rp_max_delay_ns ?retry"
      by (intro retry_delay_le) (metis nat.distinct(1) unat_0)
    have "\<exists>e'. cj_find cid (poll_all fl ts ?j) = Some e' \<and> terminal (je_state e')"
    proof (rule Cons.IH [OF find])
      show "je_next_attempt_time_ns ?e \<le> t + rp_max_delay_ns ?retry"
        using delay Cons.prems(3) by (simp add: sent(1) word_le_nat_alt unat_word_ariths)
      show "spaced (rp_max_delay_ns (cjc_retry (cj_config ?j))) (t + rp_max_delay_ns ?retry) ts"
        using Cons.prems(3) by (simp add: cj_due_simps)
      show "unat (cj_max_attempts ?j) - unat (je_attempts ?e) < length ts"
        using Cons.prems(4) sent(2) by (simp add: sent(1) cj_due_simps attempts word_less_nat_alt)
    qed
    then show ?thesis by simp
  qed
qed simp

section \<open>The packet of a command\<close>

lemma command_packet_ok [simp]: "packet_ok (make_command_packet config e)"
  by (simp add: packet_ok_def make_command_packet_def packet_default_def route_ok_def routing_info_default_def)

lemma command_frame_size: "frame_size (make_command_packet config e) = 63 + length (cc_payload (je_command e))"
  by (simp add: frame_size_def sections_of_def make_command_packet_def packet_default_def
      route_bytes_def routing_info_default_def bw_defs encode_command_payload_def)

lemma payload_byte_bit:
  "n < 8 \<Longrightarrow> bit (ucast (drop_bit s (w :: u64) AND 0xff) :: u8) n = bit w (s + n)"
  using bit_mask_iff [of 8 n, where ?'a = "64 word"]
  by (simp add: bit_simps mask_eq_exp_minus_1)

lemma id_bytes_inject:
  assumes "map (\<lambda>shift. ucast (drop_bit shift (a :: u64) AND 0xff) :: u8) [56, 48, 40, 32, 24, 16, 8, 0] =
           map (\<lambda>shift. ucast (drop_bit shift b AND 0xff)) [56, 48, 40, 32, 24, 16, 8, 0]"
  shows "a = b"
proof (rule bit_word_eqI)
  fix n assume "n < LENGTH(64)"
  then have "n div 8 < 8" by simp
  then have "n div 8 \<in> {0, 1, 2, 3, 4, 5, 6, 7}" by auto
  then have "8 * (n div 8) \<in> set [56, 48, 40, 32, 24, 16, 8, 0]" by auto
  then have "(ucast (drop_bit (8 * (n div 8)) a AND 0xff) :: u8) = ucast (drop_bit (8 * (n div 8)) b AND 0xff)"
    by (rule bspec [OF map_eq_conv [THEN iffD1, OF assms]])
  then have "bit a (8 * (n div 8) + n mod 8) = bit b (8 * (n div 8) + n mod 8)"
    using payload_byte_bit [of "n mod 8"] by (metis mod_less_divisor zero_less_numeral)
  then show "bit a n = bit b n" by simp
qed

lemma encode_command_payload_inject:
  "encode_command_payload a k b = encode_command_payload a' k' b' \<longleftrightarrow> a = a' \<and> k = k' \<and> b = b'"
proof
  assume eq: "encode_command_payload a k b = encode_command_payload a' k' b'"
  from eq have "a = a'"
    unfolding encode_command_payload_def append_eq_append_conv_if
    by (intro id_bytes_inject) simp
  with eq show "a = a' \<and> k = k' \<and> b = b'"
    by (cases k; cases k') (simp_all add: encode_command_payload_def)
qed simp

lemma poll_ids:
  "map jd_id (fst (cj_due fl t k j)) =
   take k (map fst (filter (\<lambda>p. ready t (cjc_retry (cj_config j)) (snd p)) (om_entries (cj_entries j))))"
  using map_state_dispatches [of fl "cj_config j" t k "om_entries (cj_entries j)" "[]" "cj_stats j"]
  by (simp add: cj_due_simps om_loop_state_def)

section \<open>Properties\<close>

text \<open>
  C6. Along every run whose explicit identities stay below the limit, each call moves each
  command only as the life cycle allows: an append starts it pending with no attempts, only a
  poll sends it and only while attempts remain, a poll or a sweep may expire it, an answer ends
  or reschedules it, a finished command never changes, and only compaction removes it.
\<close>

theorem command_lifecycle:
  assumes "length cs < id_limit" and "\<forall>c \<in> set cs. low_id c" and "low_id c"
  shows "life_step (rp_max_attempts (cjc_retry config)) c
           (cj_life cid (fold (cj_step fl) cs (cj_init config)))
           (cj_life cid (cj_step fl c (fold (cj_step fl) cs (cj_init config))))"
proof -
  let ?j = "fold (cj_step fl) cs (cj_init config)"
  have "ids_below (length cs) ?j"
    using assms(1,2) by (intro journal_ids.inv_run) simp_all
  then have "life_step (cj_max_attempts ?j) c (cj_life cid ?j) (cj_life cid (cj_step fl c ?j))"
    using assms(1,3) by (rule cj_step_life)
  then show ?thesis by (simp add: cj_init_def)
qed

definition sample_command :: control_command where
  "sample_command = make_start_stream_command 7 100 [1, 2]"

lemma command_lifecycle_witness:
  "life_step 3 (CJ_due 200 1)
     (cj_life 1 (fold (cj_step (\<lambda>x. x)) [CJ_append sample_command] (cj_init command_journal_config_default)))
     (cj_life 1 (cj_step (\<lambda>x. x) (CJ_due 200 1)
       (fold (cj_step (\<lambda>x. x)) [CJ_append sample_command] (cj_init command_journal_config_default))))"
  using command_lifecycle [of "[CJ_append sample_command]" "CJ_due 200 1" command_journal_config_default 1 "\<lambda>x. x"]
  by (simp add: id_limit_def sample_command_def make_start_stream_command_def control_command_default_def
      command_journal_config_default_def retry_policy_default_def)

text \<open>
  C14. Whatever the calls, no two unfinished commands of the journal have the same device, kind,
  label and payload.
\<close>

theorem active_commands_distinct:
  assumes "cj_find cid (fold (cj_step fl) cs (cj_init config)) = Some e"
    and "cj_find cid' (fold (cj_step fl) cs (cj_init config)) = Some e'"
    and "cid \<noteq> cid'" and "\<not> terminal (je_state e)" and "\<not> terminal (je_state e')"
  shows "\<not> same_active_intent (je_command e) (je_command e')"
  using journal_intents.inv_run [of fl cs config] assms unfolding intents_distinct_def by metis

definition two_commands :: "journal_call list" where
  "two_commands = [CJ_append sample_command, CJ_append (sample_command\<lparr>cc_device := 8\<rparr>)]"

lemmas append_eval = cj_append_def cj_init_def cj_find_def cj_count_def cj_assign_id_def
  cj_take_next_id_def cj_duplicate_active_def om_values_def sample_command_def
  make_start_stream_command_def control_command_default_def command_journal_config_default_def
  retry_policy_default_def om_size_def count_duplicate_def append_refused_def same_active_intent_def

lemma two_commands_entries:
  "cj_find 1 (fold (cj_step fl) two_commands (cj_init command_journal_config_default)) =
     Some (fresh_entry (sample_command\<lparr>cc_id := 1, cc_expires_time_ns := 30000000100\<rparr>))"
  "cj_find 2 (fold (cj_step fl) two_commands (cj_init command_journal_config_default)) =
     Some (fresh_entry (sample_command\<lparr>cc_id := 2, cc_device := 8, cc_expires_time_ns := 30000000100\<rparr>))"
  by (simp_all add: two_commands_def append_eval)

lemma active_commands_distinct_witness:
  "\<not> same_active_intent (je_command (fresh_entry (sample_command\<lparr>cc_id := 1, cc_expires_time_ns := 30000000100\<rparr>)))
     (je_command (fresh_entry (sample_command\<lparr>cc_id := 2, cc_device := 8, cc_expires_time_ns := 30000000100\<rparr>)))"
  by (rule active_commands_distinct [OF two_commands_entries(1) [of "\<lambda>x. x"] two_commands_entries(2)]) simp_all

text \<open>
  A poll dispatches the first \<open>k\<close> commands, by identity, that are unfinished, unexpired, due
  and have attempts left.
\<close>

theorem poll_dispatches:
  "map jd_id (fst (cj_due fl t k j)) =
   take k (map fst (filter (\<lambda>p. ready t (cjc_retry (cj_config j)) (snd p)) (om_entries (cj_entries j))))"
  by (rule poll_ids)

text \<open>
  C15. A command that is polled at intervals of at least the longest delay is finished after one
  poll more than the attempts it has left, whatever else the journal holds.
\<close>

theorem polling_terminates:
  assumes "cj_find cid j = Some e"
    and "spaced (rp_max_delay_ns (cjc_retry (cj_config j))) (je_next_attempt_time_ns e) ts"
    and "unat (rp_max_attempts (cjc_retry (cj_config j))) - unat (je_attempts e) < length ts"
  shows "\<exists>e'. cj_find cid (poll_all fl ts j) = Some e' \<and> terminal (je_state e')"
  using assms(1) order_refl assms(2,3) by (rule poll_all_terminates)

definition sample_journal :: command_journal where
  "sample_journal = snd (cj_append sample_command (cj_init command_journal_config_default))"

lemma sample_journal_entry:
  "cj_find 1 sample_journal = Some (fresh_entry (sample_command\<lparr>cc_id := 1, cc_expires_time_ns := 30000000100\<rparr>))"
  "cj_config sample_journal = command_journal_config_default"
  by (simp_all add: sample_journal_def append_eval)

lemma polling_terminates_witness:
  "\<exists>e'. cj_find 1 (poll_all (\<lambda>x. x) [100, 60000000100, 120000000100, 180000000100] sample_journal) = Some e' \<and>
     terminal (je_state e')"
  by (rule polling_terminates [OF sample_journal_entry(1)])
    (simp_all add: sample_journal_entry(2) command_journal_config_default_def retry_policy_default_def
      fresh_entry_def add_note_def sample_command_def make_start_stream_command_def control_command_default_def)

text \<open>
  With a whole multiplier the delay before attempt \<open>n\<close> is exactly the initial delay times
  the multiplier to the power \<open>n - 1\<close>, capped at the longest delay: the multiplication never
  wraps.
\<close>

theorem backoff_closed_form:
  assumes "exact_rounding fl" and "rp_multiplier retry = of_nat m" and "0 < m"
    and "rp_initial_delay_ns retry \<noteq> 0" and "attempts \<noteq> 0"
  shows "unat (retry_delay fl retry attempts) =
    min (unat (rp_max_delay_ns retry)) (unat (rp_initial_delay_ns retry) * m ^ (unat attempts - 1))"
  using iterated_delay [OF assms(1,4,3), of "rp_max_delay_ns retry" "unat attempts - 1"] assms(2,5)
  by (simp add: retry_delay_def Let_def unat_min_word min.commute)

lemma backoff_closed_form_witness:
  "unat (retry_delay (\<lambda>x. x) retry_policy_default 3) = 4000000"
proof -
  have "exact_rounding (\<lambda>x. x)" by (simp add: exact_rounding_def mono_def)
  from backoff_closed_form [OF this, of retry_policy_default 2 3] show ?thesis
    by (simp add: retry_policy_default_def)
qed

text \<open>
  The packet of a dispatched command encodes, and any decoder whose limit admits it gets a
  control packet for the command's device whose payload determines the command's identity, kind
  and body.
\<close>

theorem dispatched_command_received:
  assumes "d \<in> set (fst (cj_due fl t k j))" and "cj_find (jd_id d) j = Some e"
    and "63 + length (cc_payload (je_command e)) \<le> max_packet_size options"
    and "63 + length (cc_payload (je_command e)) < 4294967296"
  shows "\<exists>f p. encode_packet (jd_packet d) = Inr f \<and> decode_packet f options = Inr p \<and>
    p_kind p = PK_control \<and> p_device p = cc_device (je_command e) \<and> p_timestamp_ns p = t \<and>
    (\<forall>cid kind body. p_payload p = encode_command_payload cid kind body \<longleftrightarrow>
       cid = cc_id (je_command e) \<and> kind = cc_kind (je_command e) \<and> body = cc_payload (je_command e))"
proof -
  obtain e' where "cj_find (jd_id d) j = Some e'" and
    packet: "jd_packet d = make_command_packet (cj_config j) (send_entry fl (cjc_retry (cj_config j)) t e')"
    using assms(1) by (rule due_contents)
  with assms(2) have "e' = e" by simp
  have "decode_packet (frame_of (jd_packet d)) options = Inr (jd_packet d)"
    using assms(3,4) by (intro decode_frame) (simp_all add: packet command_frame_size \<open>e' = e\<close>)
  moreover have "encode_packet (jd_packet d) = Inr (frame_of (jd_packet d))"
    by (simp add: packet encode_frame_of)
  ultimately show ?thesis
    by (intro exI [of _ "frame_of (jd_packet d)"] exI [of _ "jd_packet d"])
      (auto simp: packet \<open>e' = e\<close> make_command_packet_def encode_command_payload_inject)
qed

lemma sample_dispatch:
  "\<exists>d. d \<in> set (fst (cj_due fl 200 1 sample_journal)) \<and> jd_id d = 1"
proof -
  have "map jd_id (fst (cj_due fl 200 1 sample_journal)) = [1]"
    by (simp add: poll_ids ready_def expired_at_def sample_journal_entry(2))
      (simp add: sample_journal_def append_eval ready_def expired_at_def fresh_entry_def add_note_def)
  then show ?thesis by (cases "fst (cj_due fl 200 1 sample_journal)") auto
qed

lemma dispatched_command_received_witness:
  "\<exists>(d :: journal_dispatch) f p. jd_id d = 1 \<and> encode_packet (jd_packet d) = Inr f \<and>
     decode_packet f decode_options_default = Inr p \<and> p_device p = 7 \<and>
     p_payload p = encode_command_payload 1 CK_start_stream [1, 2]"
proof -
  obtain d where d: "d \<in> set (fst (cj_due (\<lambda>x. x) 200 1 sample_journal))" "jd_id d = 1"
    using sample_dispatch by blast
  let ?e = "fresh_entry (sample_command\<lparr>cc_id := 1, cc_expires_time_ns := 30000000100\<rparr>)"
  have e: "cj_find (jd_id d) sample_journal = Some ?e"
    by (simp add: d(2) sample_journal_entry)
  have command: "cc_id (je_command ?e) = 1" "cc_kind (je_command ?e) = CK_start_stream"
    "cc_device (je_command ?e) = 7" "cc_payload (je_command ?e) = [1, 2]"
    by (simp_all add: sample_command_def make_start_stream_command_def control_command_default_def)
  have "63 + length (cc_payload (je_command ?e)) \<le> max_packet_size decode_options_default"
    "63 + length (cc_payload (je_command ?e)) < 4294967296"
    by (simp_all only: command) (simp_all add: decode_options_default_def)
  from dispatched_command_received [OF d(1) e this] obtain f p where
    "encode_packet (jd_packet d) = Inr f" "decode_packet f decode_options_default = Inr p" "p_device p = 7"
    and "\<forall>cid kind body. p_payload p = encode_command_payload cid kind body \<longleftrightarrow>
      cid = 1 \<and> kind = CK_start_stream \<and> body = [1, 2]"
    unfolding command by (elim exE conjE) (rule that)
  with d(2) show ?thesis by - (rule exI [of _ d], rule exI [of _ f], rule exI [of _ p], simp)
qed

text \<open>
  An append without an identity takes the next one even when the journal holds it: the
  append succeeds and the entry that was there is gone. The counter gets there when an explicit
  identity is the largest 64-bit value, because its successor wraps to zero.
\<close>

theorem automatic_identity_overwrites:
  assumes "cj_find (cj_next_id j) j = Some e" and "cc_id command = 0"
    and "cj_size j < cjc_max_entries (cj_config j)" and "\<not> cj_duplicate_active command j"
  shows "ja_appended (fst (cj_append command j)) \<and> ja_id (fst (cj_append command j)) = cj_next_id j \<and>
    cj_size (snd (cj_append command j)) = cj_size j \<and>
    (\<exists>e'. cj_find (cj_next_id j) (snd (cj_append command j)) = Some e' \<and>
       je_state e' = CS_pending \<and> cc_payload (je_command e') = cc_payload command)"
  using assms
  by (auto simp: cj_append_def cj_assign_id_def cj_take_next_id_def Let_def cj_find_def cj_size_def
      om_size_update cj_count_def)

definition full_counter :: command_journal where
  "full_counter = fold (cj_step (\<lambda>x. x))
     [CJ_append (sample_command\<lparr>cc_id := 18446744073709551614\<rparr>),
      CJ_append (sample_command\<lparr>cc_id := 18446744073709551615, cc_device := 8\<rparr>)]
     (cj_init command_journal_config_default)"

lemma automatic_identity_overwrites_witness:
  "cj_size (snd (cj_append (sample_command\<lparr>cc_device := 9\<rparr>) full_counter)) = cj_size full_counter \<and>
   ja_appended (fst (cj_append (sample_command\<lparr>cc_device := 9\<rparr>) full_counter))"
proof -
  let ?command = "sample_command\<lparr>cc_device := 9\<rparr>"
  have "cj_next_id full_counter = 18446744073709551615" "cj_size full_counter = 2"
    "cj_size full_counter < cjc_max_entries (cj_config full_counter)"
    "\<not> cj_duplicate_active ?command full_counter"
    "\<exists>e. cj_find 18446744073709551615 full_counter = Some e" "cc_id ?command = 0"
    by (simp_all add: full_counter_def append_eval cj_size_def)
  then obtain e where "cj_find (cj_next_id full_counter) full_counter = Some e"
    "cj_size full_counter < cjc_max_entries (cj_config full_counter)"
    "\<not> cj_duplicate_active ?command full_counter" "cc_id ?command = 0"
    by metis
  from automatic_identity_overwrites [OF this(1,4,2,3)] show ?thesis by simp
qed

end
