(* ===== verification/Ack_Tracker.thy ===== *)
theory Ack_Tracker
  imports Command_Lifecycle
begin

text \<open>
  The tracker of acknowledgements of \<open>src/control/ack_tracker.cpp\<close>: expectations by command, the
  classification of each acknowledgement, timeouts, cancellation, compaction and the summaries.
\<close>

section \<open>Data\<close>

datatype expectation_state = XS_waiting | XS_satisfied | XS_timed_out | XS_cancelled

datatype observation_kind = OK_matched | OK_duplicate | OK_unexpected | OK_stale | OK_rejected

record ack_expectation =
  ae_command_id :: command_id
  ae_device :: device_id
  ae_created_time_ns :: u64
  ae_deadline_ns :: u64
  ae_required_accepts :: u32
  ae_label :: string

record ack_observation =
  ao_kind :: observation_kind
  ao_command_id :: command_id
  ao_device :: device_id
  ao_time_ns :: u64
  ao_message :: string

record expectation_snapshot =
  xs_expectation :: ack_expectation
  xs_state :: expectation_state
  xs_accepts_seen :: u32
  xs_rejects_seen :: u32
  xs_last_observation_time_ns :: u64
  xs_observations :: "ack_observation list"

record ack_record =
  ar_expectation :: ack_expectation
  ar_state :: expectation_state
  ar_accepts_seen :: u32
  ar_rejects_seen :: u32
  ar_last_observation_time_ns :: u64
  ar_observations :: "ack_observation list"

record ack_tracker_stats =
  ats_registered :: u64
  ats_matched :: u64
  ats_duplicates :: u64
  ats_unexpected :: u64
  ats_stale :: u64
  ats_rejected :: u64
  ats_timed_out :: u64
  ats_cancelled :: u64

definition ack_tracker_stats_default :: ack_tracker_stats where
  "ack_tracker_stats_default =
     \<lparr>ats_registered = 0, ats_matched = 0, ats_duplicates = 0, ats_unexpected = 0, ats_stale = 0,
      ats_rejected = 0, ats_timed_out = 0, ats_cancelled = 0\<rparr>"

record ack_device_summary =
  ads_device :: device_id
  ads_waiting :: u32
  ads_satisfied :: u32
  ads_timed_out :: u32
  ads_cancelled :: u32
  ads_observations :: u32

definition ack_device_summary_default :: ack_device_summary where
  "ack_device_summary_default =
     \<lparr>ads_device = 0, ads_waiting = 0, ads_satisfied = 0, ads_timed_out = 0, ads_cancelled = 0,
      ads_observations = 0\<rparr>"

record ack_tracker =
  at_records :: "(command_id, ack_record) omap"
  at_stats :: ack_tracker_stats

section \<open>Classification\<close>

definition accepted_status :: "ack_status \<Rightarrow> bool" where
  "accepted_status status \<longleftrightarrow> status = AS_accepted"

definition rejected_status :: "ack_status \<Rightarrow> bool" where
  "rejected_status status \<longleftrightarrow>
     status = AS_rejected \<or> status = AS_malformed \<or> status = AS_unknown_command"

definition ack_message :: "command_ack \<Rightarrow> string" where
  "ack_message ack =
     (if ca_message ack \<noteq> [] then ca_message ack
      else ''ack '' @ ack_status_name (ca_status ack) @ '' for command '' @ dec (ca_command_id ack))"

fun ack_terminal :: "expectation_state \<Rightarrow> bool" where
  "ack_terminal XS_satisfied = True"
| "ack_terminal XS_timed_out = True"
| "ack_terminal XS_cancelled = True"
| "ack_terminal XS_waiting = False"

definition observed :: "observation_kind \<Rightarrow> command_ack \<Rightarrow> string \<Rightarrow> ack_observation" where
  "observed kind ack message =
     \<lparr>ao_kind = kind, ao_command_id = ca_command_id ack, ao_device = ca_device ack,
      ao_time_ns = ca_time_ns ack, ao_message = message\<rparr>"

definition at_classify :: "ack_record \<Rightarrow> command_ack \<Rightarrow> ack_observation" where
  "at_classify r ack =
     (if ack_terminal (ar_state r) then observed OK_duplicate ack ''ack matched a terminal expectation''
      else if ca_device ack \<noteq> ae_device (ar_expectation r)
      then observed OK_unexpected ack ''ack device did not match expectation''
      else if ae_deadline_ns (ar_expectation r) \<noteq> 0 \<and> ca_time_ns ack > ae_deadline_ns (ar_expectation r)
      then observed OK_stale ack ''ack arrived after deadline''
      else if accepted_status (ca_status ack)
      then (if ar_accepts_seen r \<ge> ae_required_accepts (ar_expectation r)
            then observed OK_duplicate ack ''ack acceptance was already satisfied''
            else observed OK_matched ack (ack_message ack))
      else if rejected_status (ca_status ack) then observed OK_rejected ack (ack_message ack)
      else observed OK_matched ack (ack_message ack))"

definition record_observation :: "ack_observation \<Rightarrow> ack_record \<Rightarrow> ack_record" where
  "record_observation observation r =
     (let r = r\<lparr>ar_last_observation_time_ns := max (ar_last_observation_time_ns r) (ao_time_ns observation)\<rparr>;
          r = (case ao_kind observation of
                 OK_matched \<Rightarrow>
                   (let r = r\<lparr>ar_accepts_seen := ar_accepts_seen r + 1\<rparr>
                    in if ar_accepts_seen r \<ge> ae_required_accepts (ar_expectation r)
                       then r\<lparr>ar_state := XS_satisfied\<rparr> else r)
               | OK_rejected \<Rightarrow> r\<lparr>ar_rejects_seen := ar_rejects_seen r + 1, ar_state := XS_satisfied\<rparr>
               | _ \<Rightarrow> r)
      in r\<lparr>ar_observations := ar_observations r @ [observation]\<rparr>)"

definition at_snapshot :: "ack_record \<Rightarrow> expectation_snapshot" where
  "at_snapshot r =
     \<lparr>xs_expectation = ar_expectation r, xs_state = ar_state r, xs_accepts_seen = ar_accepts_seen r,
      xs_rejects_seen = ar_rejects_seen r,
      xs_last_observation_time_ns = ar_last_observation_time_ns r,
      xs_observations = ar_observations r\<rparr>"

section \<open>Operations\<close>

definition at_init :: ack_tracker where
  "at_init = \<lparr>at_records = om_empty, at_stats = ack_tracker_stats_default\<rparr>"

definition at_size :: "ack_tracker \<Rightarrow> nat" where
  "at_size t = om_size (at_records t)"

definition at_empty :: "ack_tracker \<Rightarrow> bool" where
  "at_empty t \<longleftrightarrow> om_size (at_records t) = 0"

definition at_find :: "command_id \<Rightarrow> ack_tracker \<Rightarrow> expectation_snapshot option" where
  "at_find cid t = map_option at_snapshot (om_lookup (at_records t) cid)"

definition at_snapshots :: "ack_tracker \<Rightarrow> expectation_snapshot list" where
  "at_snapshots t = map at_snapshot (om_values (at_records t))"

definition at_waiting_for_device :: "device_id \<Rightarrow> ack_tracker \<Rightarrow> expectation_snapshot list" where
  "at_waiting_for_device device t =
     map at_snapshot
       (filter (\<lambda>r. ae_device (ar_expectation r) = device \<and> ar_state r = XS_waiting) (om_values (at_records t)))"

definition at_put :: "command_id \<Rightarrow> ack_record \<Rightarrow> ack_tracker \<Rightarrow> ack_tracker" where
  "at_put cid r t = t\<lparr>at_records := om_update cid r (at_records t)\<rparr>"

definition at_count :: "(ack_tracker_stats \<Rightarrow> ack_tracker_stats) \<Rightarrow> ack_tracker \<Rightarrow> ack_tracker" where
  "at_count f t = t\<lparr>at_stats := f (at_stats t)\<rparr>"

definition fresh_record :: "ack_expectation \<Rightarrow> ack_record" where
  "fresh_record expectation =
     \<lparr>ar_expectation = expectation, ar_state = XS_waiting, ar_accepts_seen = 0, ar_rejects_seen = 0,
      ar_last_observation_time_ns = 0, ar_observations = []\<rparr>"

definition at_expect :: "ack_expectation \<Rightarrow> ack_tracker \<Rightarrow> bool \<times> ack_tracker" where
  "at_expect expectation t =
     (if ae_command_id expectation = 0 then (False, t)
      else if (case om_lookup (at_records t) (ae_command_id expectation) of
                 None \<Rightarrow> False | Some r \<Rightarrow> \<not> ack_terminal (ar_state r)) then (False, t)
      else
        let expectation = (if ae_required_accepts expectation = 0
                           then expectation\<lparr>ae_required_accepts := 1\<rparr> else expectation)
        in (True, at_count (\<lambda>stats. stats\<lparr>ats_registered := ats_registered stats + 1\<rparr>)
              (at_put (ae_command_id expectation) (fresh_record expectation) t)))"

fun count_observation :: "observation_kind \<Rightarrow> ack_tracker_stats \<Rightarrow> ack_tracker_stats" where
  "count_observation OK_matched stats = stats\<lparr>ats_matched := ats_matched stats + 1\<rparr>"
| "count_observation OK_duplicate stats = stats\<lparr>ats_duplicates := ats_duplicates stats + 1\<rparr>"
| "count_observation OK_unexpected stats = stats\<lparr>ats_unexpected := ats_unexpected stats + 1\<rparr>"
| "count_observation OK_stale stats = stats\<lparr>ats_stale := ats_stale stats + 1\<rparr>"
| "count_observation OK_rejected stats = stats\<lparr>ats_rejected := ats_rejected stats + 1\<rparr>"

definition at_observe :: "command_ack \<Rightarrow> ack_tracker \<Rightarrow> ack_observation \<times> ack_tracker" where
  "at_observe ack t =
     (case om_lookup (at_records t) (ca_command_id ack) of
        None \<Rightarrow> (observed OK_unexpected ack ''ack did not match any expectation'',
                 at_count (count_observation OK_unexpected) t)
      | Some r \<Rightarrow>
          let observation = at_classify r ack;
              t = at_put (ca_command_id ack) (record_observation observation r) t
          in (observation, at_count (count_observation (ao_kind observation)) t))"

definition timeout_body ::
  "u64 \<Rightarrow> command_id \<Rightarrow> ack_record \<Rightarrow> expectation_snapshot list \<times> ack_tracker_stats \<Rightarrow>
   ack_record \<times> expectation_snapshot list \<times> ack_tracker_stats" where
  "timeout_body now_ns cid r = (\<lambda>(result, stats).
     if ar_state r \<noteq> XS_waiting then (r, result, stats)
     else if ae_deadline_ns (ar_expectation r) \<noteq> 0 \<and> now_ns \<ge> ae_deadline_ns (ar_expectation r)
     then let r = r\<lparr>ar_state := XS_timed_out\<rparr>;
              r = record_observation
                    \<lparr>ao_kind = OK_stale, ao_command_id = ae_command_id (ar_expectation r),
                     ao_device = ae_device (ar_expectation r), ao_time_ns = now_ns,
                     ao_message = ''ack expectation timed out''\<rparr> r
          in (r, result @ [at_snapshot r], stats\<lparr>ats_timed_out := ats_timed_out stats + 1\<rparr>)
     else (r, result, stats))"

definition at_timeouts :: "u64 \<Rightarrow> ack_tracker \<Rightarrow> expectation_snapshot list \<times> ack_tracker" where
  "at_timeouts now_ns t =
     (let (result, stats) = om_loop_state (timeout_body now_ns) ([], at_stats t) (at_records t)
      in (result, t\<lparr>at_records := om_loop (timeout_body now_ns) ([], at_stats t) (at_records t),
                    at_stats := stats\<rparr>))"

definition at_cancel :: "command_id \<Rightarrow> string \<Rightarrow> ack_tracker \<Rightarrow> bool \<times> ack_tracker" where
  "at_cancel cid message t =
     (case om_lookup (at_records t) cid of
        None \<Rightarrow> (False, t)
      | Some r \<Rightarrow>
          if ack_terminal (ar_state r) then (False, t)
          else
            let r = r\<lparr>ar_state := XS_cancelled\<rparr>;
                r = record_observation
                      \<lparr>ao_kind = OK_stale, ao_command_id = cid, ao_device = ae_device (ar_expectation r),
                       ao_time_ns = ar_last_observation_time_ns r, ao_message = message\<rparr> r
            in (True, at_count (\<lambda>stats. stats\<lparr>ats_cancelled := ats_cancelled stats + 1\<rparr>) (at_put cid r t)))"

definition at_compact_terminal :: "nat \<Rightarrow> ack_tracker \<Rightarrow> ack_tracker" where
  "at_compact_terminal keep_recent t =
     (if om_size (at_records t) \<le> keep_recent then t
      else
        let removable = map fst (filter (\<lambda>p. ack_terminal (ar_state (snd p))) (om_entries (at_records t)));
            limit = (if om_size (at_records t) > keep_recent then om_size (at_records t) - keep_recent else 0)
        in t\<lparr>at_records := om_erase_keys (take limit removable) (at_records t)\<rparr>)"

definition at_reset :: "ack_tracker \<Rightarrow> ack_tracker" where
  "at_reset t = t\<lparr>at_records := om_empty, at_stats := ack_tracker_stats_default\<rparr>"

definition expectation_from_entry :: "journal_entry \<Rightarrow> u64 \<Rightarrow> ack_expectation" where
  "expectation_from_entry entry timeout_ns =
     (let created = (if je_last_send_time_ns entry = 0 then cc_created_time_ns (je_command entry)
                     else je_last_send_time_ns entry)
      in \<lparr>ae_command_id = cc_id (je_command entry), ae_device = cc_device (je_command entry),
          ae_created_time_ns = created, ae_deadline_ns = created + timeout_ns,
          ae_required_accepts = 1, ae_label = cc_label (je_command entry)\<rparr>)"

section \<open>Summaries and text output\<close>

definition summarize_snapshot ::
  "expectation_snapshot \<Rightarrow> (device_id, ack_device_summary) omap \<Rightarrow> (device_id, ack_device_summary) omap" where
  "summarize_snapshot snapshot by_device =
     (let device = ae_device (xs_expectation snapshot);
          summary = om_get ack_device_summary_default by_device device;
          summary = summary\<lparr>ads_device := device\<rparr>;
          summary = summary\<lparr>ads_observations :=
                      ads_observations summary + of_nat (length (xs_observations snapshot))\<rparr>;
          summary = (case xs_state snapshot of
                       XS_waiting \<Rightarrow> summary\<lparr>ads_waiting := ads_waiting summary + 1\<rparr>
                     | XS_satisfied \<Rightarrow> summary\<lparr>ads_satisfied := ads_satisfied summary + 1\<rparr>
                     | XS_timed_out \<Rightarrow> summary\<lparr>ads_timed_out := ads_timed_out summary + 1\<rparr>
                     | XS_cancelled \<Rightarrow> summary\<lparr>ads_cancelled := ads_cancelled summary + 1\<rparr>)
      in om_update device summary by_device)"

definition summarize_ack_devices :: "expectation_snapshot list \<Rightarrow> ack_device_summary list" where
  "summarize_ack_devices snapshots = om_values (fold summarize_snapshot snapshots om_empty)"

fun ack_expectation_state_name :: "expectation_state \<Rightarrow> string" where
  "ack_expectation_state_name XS_waiting = ''waiting''"
| "ack_expectation_state_name XS_satisfied = ''satisfied''"
| "ack_expectation_state_name XS_timed_out = ''timed_out''"
| "ack_expectation_state_name XS_cancelled = ''cancelled''"

fun ack_observation_kind_name :: "observation_kind \<Rightarrow> string" where
  "ack_observation_kind_name OK_matched = ''matched''"
| "ack_observation_kind_name OK_duplicate = ''duplicate''"
| "ack_observation_kind_name OK_unexpected = ''unexpected''"
| "ack_observation_kind_name OK_stale = ''stale''"
| "ack_observation_kind_name OK_rejected = ''rejected''"

definition render_ack_observation :: "ack_observation \<Rightarrow> string" where
  "render_ack_observation observation =
     ''ack_observation'' @ newline @
     ''  kind: '' @ ack_observation_kind_name (ao_kind observation) @ newline @
     ''  command_id: '' @ dec (ao_command_id observation) @ newline @
     ''  device: '' @ dec (ao_device observation) @ newline @
     ''  time_ns: '' @ dec (ao_time_ns observation) @ newline @
     ''  message: '' @ ao_message observation @ newline"

definition render_ack_tracker_stats :: "ack_tracker_stats \<Rightarrow> string" where
  "render_ack_tracker_stats stats =
     ''ack_tracker_stats'' @ newline @
     ''  registered: '' @ dec (ats_registered stats) @ newline @
     ''  matched: '' @ dec (ats_matched stats) @ newline @
     ''  duplicates: '' @ dec (ats_duplicates stats) @ newline @
     ''  unexpected: '' @ dec (ats_unexpected stats) @ newline @
     ''  stale: '' @ dec (ats_stale stats) @ newline @
     ''  rejected: '' @ dec (ats_rejected stats) @ newline @
     ''  timed_out: '' @ dec (ats_timed_out stats) @ newline @
     ''  cancelled: '' @ dec (ats_cancelled stats) @ newline"

definition render_ack_expectation_snapshot :: "expectation_snapshot \<Rightarrow> string" where
  "render_ack_expectation_snapshot snapshot =
     ''ack_expectation'' @ newline @
     ''  command_id: '' @ dec (ae_command_id (xs_expectation snapshot)) @ newline @
     ''  device: '' @ dec (ae_device (xs_expectation snapshot)) @ newline @
     ''  state: '' @ ack_expectation_state_name (xs_state snapshot) @ newline @
     ''  accepts_seen: '' @ dec (xs_accepts_seen snapshot) @ newline @
     ''  rejects_seen: '' @ dec (xs_rejects_seen snapshot) @ newline @
     ''  deadline_ns: '' @ dec (ae_deadline_ns (xs_expectation snapshot)) @ newline @
     (if ae_label (xs_expectation snapshot) \<noteq> []
      then ''  label: '' @ ae_label (xs_expectation snapshot) @ newline else []) @
     concat (map (\<lambda>observation.
       ''  observation: '' @ ack_observation_kind_name (ao_kind observation) @
       '' time_ns='' @ dec (ao_time_ns observation) @
       '' message='' @ dquote @ ao_message observation @ dquote @ newline) (xs_observations snapshot))"

definition render_ack_device_summaries :: "ack_device_summary list \<Rightarrow> string" where
  "render_ack_device_summaries summaries =
     ''ack_device_summaries'' @ newline @
     concat (map (\<lambda>summary.
       ''  device: '' @ dec (ads_device summary) @ '' waiting='' @ dec (ads_waiting summary) @
       '' satisfied='' @ dec (ads_satisfied summary) @ '' timed_out='' @ dec (ads_timed_out summary) @
       '' cancelled='' @ dec (ads_cancelled summary) @
       '' observations='' @ dec (ads_observations summary) @ newline) summaries)"

section \<open>Calls\<close>

datatype tracker_call =
    AT_expect ack_expectation
  | AT_observe command_ack
  | AT_timeouts u64
  | AT_cancel command_id string
  | AT_compact nat
  | AT_reset

fun at_step :: "tracker_call \<Rightarrow> ack_tracker \<Rightarrow> ack_tracker" where
  "at_step (AT_expect expectation) t = snd (at_expect expectation t)"
| "at_step (AT_observe ack) t = snd (at_observe ack t)"
| "at_step (AT_timeouts now_ns) t = snd (at_timeouts now_ns t)"
| "at_step (AT_cancel cid message) t = snd (at_cancel cid message t)"
| "at_step (AT_compact keep_recent) t = at_compact_terminal keep_recent t"
| "at_step AT_reset t = at_reset t"

section \<open>Well-formed records\<close>

definition observations_of :: "observation_kind \<Rightarrow> ack_record \<Rightarrow> nat" where
  "observations_of kind r = length (filter (\<lambda>obs. ao_kind obs = kind) (ar_observations r))"

definition record_ok :: "command_id \<Rightarrow> ack_record \<Rightarrow> bool" where
  "record_ok cid r \<longleftrightarrow>
     cid \<noteq> 0 \<and> ae_command_id (ar_expectation r) = cid \<and> ae_required_accepts (ar_expectation r) \<noteq> 0 \<and>
     (\<forall>obs \<in> set (ar_observations r). ao_time_ns obs \<le> ar_last_observation_time_ns r) \<and>
     unat (ar_accepts_seen r) = observations_of OK_matched r \<and>
     unat (ar_rejects_seen r) = observations_of OK_rejected r \<and>
     ar_accepts_seen r \<le> ae_required_accepts (ar_expectation r) \<and> ar_rejects_seen r \<le> 1 \<and>
     (ar_state r = XS_waiting \<longrightarrow>
        ar_accepts_seen r < ae_required_accepts (ar_expectation r) \<and> ar_rejects_seen r = 0) \<and>
     (ar_state r = XS_satisfied \<longrightarrow>
        ar_accepts_seen r = ae_required_accepts (ar_expectation r) \<or> ar_rejects_seen r = 1)"

definition tracker_ok :: "ack_tracker \<Rightarrow> bool" where
  "tracker_ok t \<longleftrightarrow> (\<forall>cid r. om_lookup (at_records t) cid = Some r \<longrightarrow> record_ok cid r)"

lemma tracker_okD: "tracker_ok t \<Longrightarrow> om_lookup (at_records t) cid = Some r \<Longrightarrow> record_ok cid r"
  by (simp add: tracker_ok_def)

lemma at_simps [simp]:
  "at_records (at_put cid r t) = om_update cid r (at_records t)" "at_records (at_count f t) = at_records t"
  by (simp_all add: at_put_def at_count_def)

lemma observed_simps [simp]:
  "ao_kind (observed kind ack m) = kind" "ao_time_ns (observed kind ack m) = ca_time_ns ack"
  by (simp_all add: observed_def)

lemma ack_terminal_iff: "ack_terminal st \<longleftrightarrow> st \<noteq> XS_waiting"
  by (cases st) simp_all

text \<open>An observation that is neither a match nor a rejection only adds to the history.\<close>

lemma record_silent:
  assumes "ao_kind obs \<notin> {OK_matched, OK_rejected}"
  shows "ar_state (record_observation obs r) = ar_state r"
    and "ar_accepts_seen (record_observation obs r) = ar_accepts_seen r"
    and "ar_rejects_seen (record_observation obs r) = ar_rejects_seen r"
    and "ar_expectation (record_observation obs r) = ar_expectation r"
    and "ar_observations (record_observation obs r) = ar_observations r @ [obs]"
    and "ar_last_observation_time_ns (record_observation obs r) = max (ar_last_observation_time_ns r) (ao_time_ns obs)"
  using assms by (cases "ao_kind obs"; simp add: record_observation_def)+

lemma record_ok_silent:
  assumes "record_ok cid r" and "ao_kind obs \<notin> {OK_matched, OK_rejected}"
  shows "record_ok cid (record_observation obs r)"
  using assms(1) unfolding record_ok_def record_silent [OF assms(2)] observations_of_def
  using assms(2) by (auto simp: le_max_iff_disj)

text \<open>Closing a record that waits.\<close>

lemma record_ok_closed:
  "record_ok cid r \<Longrightarrow> st \<in> {XS_timed_out, XS_cancelled} \<Longrightarrow> record_ok cid (r\<lparr>ar_state := st\<rparr>)"
  by (auto simp: record_ok_def observations_of_def)

lemma record_ok_matched:
  assumes "record_ok cid r" and "ar_state r = XS_waiting" and "ao_kind obs = OK_matched"
  shows "record_ok cid (record_observation obs r)"
proof -
  have "ar_accepts_seen r < ae_required_accepts (ar_expectation r)"
    using assms(1,2) by (simp add: record_ok_def)
  then have "unat (ar_accepts_seen r + 1) = Suc (unat (ar_accepts_seen r))"
    and "ar_accepts_seen r + 1 \<le> ae_required_accepts (ar_expectation r)"
    by (rule unat_succ, rule inc_le)
  with assms show ?thesis
    by (auto simp: record_ok_def record_observation_def observations_of_def Let_def le_max_iff_disj)
qed

lemma record_ok_rejected:
  assumes "record_ok cid r" and "ar_state r = XS_waiting" and "ao_kind obs = OK_rejected"
  shows "record_ok cid (record_observation obs r)"
  using assms by (auto simp: record_ok_def record_observation_def observations_of_def le_max_iff_disj)

lemma classify_kind:
  "ar_state r \<noteq> XS_waiting \<Longrightarrow> ao_kind (at_classify r ack) = OK_duplicate"
  by (simp add: at_classify_def ack_terminal_iff)

lemma record_ok_observed:
  assumes "record_ok cid r"
  shows "record_ok cid (record_observation (at_classify r ack) r)"
proof (cases "ao_kind (at_classify r ack) \<in> {OK_matched, OK_rejected}")
  case True
  then have "ao_kind (at_classify r ack) \<noteq> OK_duplicate" by auto
  then have "ar_state r = XS_waiting" using classify_kind by blast
  with True assms show ?thesis by (auto intro: record_ok_matched record_ok_rejected)
qed (simp add: assms record_ok_silent)

section \<open>Every call keeps the records well formed\<close>

definition timeout_record :: "u64 \<Rightarrow> ack_record \<Rightarrow> ack_record" where
  "timeout_record now_ns r =
     (if ar_state r = XS_waiting \<and> ae_deadline_ns (ar_expectation r) \<noteq> 0 \<and> now_ns \<ge> ae_deadline_ns (ar_expectation r)
      then record_observation
        \<lparr>ao_kind = OK_stale, ao_command_id = ae_command_id (ar_expectation r),
         ao_device = ae_device (ar_expectation r), ao_time_ns = now_ns,
         ao_message = ''ack expectation timed out''\<rparr> (r\<lparr>ar_state := XS_timed_out\<rparr>)
      else r)"

lemma at_timeouts_records: "at_records (snd (at_timeouts t s)) = om_map (\<lambda>_. timeout_record t) (at_records s)"
proof -
  have "om_loop (timeout_body t) x (at_records s) = om_map (\<lambda>_. timeout_record t) (at_records s)" for x
    by (rule om_loop_map) (simp add: timeout_body_def timeout_record_def split_beta Let_def)
  then show ?thesis by (simp add: at_timeouts_def split_beta)
qed

lemma timeout_record_ok: "record_ok cid r \<Longrightarrow> record_ok cid (timeout_record t r)"
  by (simp add: timeout_record_def record_ok_silent record_ok_closed)

lemma tracker_ok_put: "tracker_ok t \<Longrightarrow> record_ok cid r \<Longrightarrow> tracker_ok (at_put cid r t)"
  by (simp add: tracker_ok_def)

lemma tracker_ok_count [simp]: "tracker_ok (at_count f t) = tracker_ok t"
  by (simp add: tracker_ok_def)

lemma fresh_record_ok:
  "ae_command_id e \<noteq> 0 \<Longrightarrow> ae_required_accepts e \<noteq> 0 \<Longrightarrow> record_ok (ae_command_id e) (fresh_record e)"
  by (simp add: record_ok_def fresh_record_def observations_of_def word_neq_0_conv)

lemma tracker_ok_expect: "tracker_ok t \<Longrightarrow> tracker_ok (snd (at_expect e t))"
  using fresh_record_ok [of e] fresh_record_ok [of "e\<lparr>ae_required_accepts := 1\<rparr>"]
  by (auto simp: at_expect_def Let_def intro: tracker_ok_put split: option.split)

lemma tracker_ok_observe: "tracker_ok t \<Longrightarrow> tracker_ok (snd (at_observe ack t))"
  by (auto simp: at_observe_def Let_def intro!: tracker_ok_put record_ok_observed
      dest: tracker_okD split: option.split)

lemma tracker_ok_cancel: "tracker_ok t \<Longrightarrow> tracker_ok (snd (at_cancel cid m t))"
  by (auto simp: at_cancel_def Let_def intro!: tracker_ok_put record_ok_silent record_ok_closed
      dest: tracker_okD split: option.split)

lemma lookup_compact_terminal:
  "om_lookup (at_records (at_compact_terminal k t)) cid = Some r \<Longrightarrow> om_lookup (at_records t) cid = Some r"
  by (auto simp: at_compact_terminal_def Let_def split: if_splits)

lemma tracker_ok_step: "tracker_ok t \<Longrightarrow> tracker_ok (at_step c t)"
proof (cases c)
  case (AT_timeouts now_ns)
  assume "tracker_ok t"
  with AT_timeouts show ?thesis
    by (auto simp: tracker_ok_def at_timeouts_records intro: timeout_record_ok)
next
  case (AT_compact k)
  assume "tracker_ok t"
  with AT_compact show ?thesis
    by (auto simp: tracker_ok_def dest: lookup_compact_terminal)
qed (simp_all add: tracker_ok_expect tracker_ok_observe tracker_ok_cancel, simp add: tracker_ok_def at_reset_def)

interpretation tracker_runs: state_machine at_init at_step tracker_ok
  by unfold_locales (simp add: tracker_ok_def at_init_def, rule tracker_ok_step)

section \<open>Properties\<close>

text \<open>
  C17. Every record after any calls is well formed: filed under the identity of its command, no
  more acceptances than required, both counters equal to the observations in its history, the
  latest time at least that of each of them, waiting only while acceptances are missing and none
  was refused, satisfied only with all acceptances or a refusal.
\<close>

theorem tracker_records_typed:
  assumes "om_lookup (at_records (fold at_step cs at_init)) cid = Some r"
  shows "record_ok cid r"
  using tracker_runs.inv_run assms by (rule tracker_okD)

definition sample_expectation :: ack_expectation where
  "sample_expectation =
     \<lparr>ae_command_id = 1, ae_device = 7, ae_created_time_ns = 100, ae_deadline_ns = 500,
      ae_required_accepts = 1, ae_label = []\<rparr>"

lemma tracker_records_typed_witness: "record_ok 1 (fresh_record sample_expectation)"
proof (rule tracker_records_typed)
  show "om_lookup (at_records (fold at_step [AT_expect sample_expectation] at_init)) 1 =
      Some (fresh_record sample_expectation)"
    by (simp add: at_expect_def at_init_def sample_expectation_def)
qed

text \<open>
  A verdict is final: as long as its command is not expected anew, compacted or reset away,
  no call changes the state or the counters of a record that no longer waits.
\<close>

theorem verdict_final:
  assumes "om_lookup (at_records t) cid = Some r" and "ar_state r \<noteq> XS_waiting"
    and "\<forall>e. c \<noteq> AT_expect e" and "\<forall>k. c \<noteq> AT_compact k" and "c \<noteq> AT_reset"
  shows "\<exists>r'. om_lookup (at_records (at_step c t)) cid = Some r' \<and> ar_state r' = ar_state r \<and>
           ar_accepts_seen r' = ar_accepts_seen r \<and> ar_rejects_seen r' = ar_rejects_seen r"
proof (cases c)
  case (AT_observe ack)
  have "ao_kind (at_classify r ack) \<notin> {OK_matched, OK_rejected}"
    using classify_kind [OF assms(2), of ack] by simp
  from record_silent(1-3) [OF this, of r] assms(1) AT_observe show ?thesis
    by (auto simp: at_observe_def Let_def split: option.split)
next
  case (AT_cancel cid' m)
  with assms(1,2) show ?thesis
    by (auto simp: at_cancel_def Let_def ack_terminal_iff split: option.split)
next
  case (AT_timeouts now_ns)
  with assms(1,2) show ?thesis by (simp add: at_timeouts_records timeout_record_def)
qed (use assms in simp_all)

definition waiting_tracker :: ack_tracker where
  "waiting_tracker = fold at_step [AT_expect sample_expectation] at_init"

lemma verdict_final_witness:
  "\<exists>r'. om_lookup (at_records (at_step (AT_timeouts 900)
       (at_step (AT_cancel 1 []) waiting_tracker))) 1 = Some r' \<and> ar_state r' = XS_cancelled"
proof -
  obtain r where r: "om_lookup (at_records (at_step (AT_cancel 1 []) waiting_tracker)) 1 = Some r"
    "ar_state r = XS_cancelled"
    by (simp add: waiting_tracker_def at_expect_def at_init_def sample_expectation_def at_cancel_def
        Let_def fresh_record_def record_silent)
  with verdict_final [OF r(1), of "AT_timeouts 900"] show ?thesis by auto
qed

text \<open>
  After a sweep no waiting record is past its deadline, the reported records are exactly those
  that were, in the order of their commands, and every other record is as it was.
\<close>

theorem timeouts_complete:
  "map (\<lambda>x. ae_command_id (xs_expectation x)) (fst (at_timeouts now_ns t)) =
     map (\<lambda>p. ae_command_id (ar_expectation (snd p))) (filter (\<lambda>p. ar_state (snd p) = XS_waiting \<and>
       ae_deadline_ns (ar_expectation (snd p)) \<noteq> 0 \<and> ae_deadline_ns (ar_expectation (snd p)) \<le> now_ns)
       (om_entries (at_records t))) \<and>
   at_records (snd (at_timeouts now_ns t)) = om_map (\<lambda>_. timeout_record now_ns) (at_records t)"
proof -
  have "map (\<lambda>x. ae_command_id (xs_expectation x)) (fst (snd (map_state (timeout_body now_ns) ps (xs, stats)))) =
      map (\<lambda>x. ae_command_id (xs_expectation x)) xs @
      map (\<lambda>p. ae_command_id (ar_expectation (snd p))) (filter (\<lambda>p. ar_state (snd p) = XS_waiting \<and>
        ae_deadline_ns (ar_expectation (snd p)) \<noteq> 0 \<and> ae_deadline_ns (ar_expectation (snd p)) \<le> now_ns) ps)"
    for ps xs stats
  proof (induction ps arbitrary: xs stats)
    case (Cons p ps)
    then show ?case
      by (cases p) (simp add: timeout_body_def split_beta Let_def at_snapshot_def record_silent)
  qed simp
  from this [of "om_entries (at_records t)" "[]" "at_stats t"] show ?thesis
    by (simp add: at_timeouts_records) (simp add: at_timeouts_def om_loop_state_def split_beta)
qed

text \<open>
  The journal and the tracker judge the same busy answer differently: the journal puts the
  command back to be sent again, the tracker counts the answer as the one acceptance it needs and
  closes the expectation, so the answer to the repeated command is a duplicate.
\<close>

theorem busy_answer_diverges:
  assumes "cj_find (ca_command_id ack) j = Some e" and "\<not> terminal (je_state e)"
    and "cc_id (je_command e) = ca_command_id ack" and "cc_device (je_command e) = ca_device ack"
    and "ca_status ack = AS_busy" and "ca_command_id ack \<noteq> 0"
    and "om_lookup (at_records t) (ca_command_id ack) = None"
    and "\<not> ca_time_ns ack > ae_deadline_ns (expectation_from_entry e timeout_ns)"
  shows "\<exists>e' r. cj_find (ca_command_id ack) (snd (cj_acknowledge fl ack j)) = Some e' \<and> je_state e' = CS_pending \<and>
    om_lookup (at_records (snd (at_observe ack (snd (at_expect (expectation_from_entry e timeout_ns) t)))))
      (ca_command_id ack) = Some r \<and> ar_state r = XS_satisfied"
proof -
  have journal: "\<exists>e'. cj_find (ca_command_id ack) (snd (cj_acknowledge fl ack j)) = Some e' \<and> je_state e' = CS_pending"
    using assms(1,2,4,5) by (simp add: cj_acknowledge_def cj_find_def Let_def add_note_def)
  let ?x = "expectation_from_entry e timeout_ns"
  have x: "ae_command_id ?x = ca_command_id ack" "ae_device ?x = ca_device ack" "ae_required_accepts ?x = 1"
    using assms(3,4) by (simp_all add: expectation_from_entry_def Let_def)
  have expected: "om_lookup (at_records (snd (at_expect ?x t))) (ca_command_id ack) = Some (fresh_record ?x)"
    using assms(6,7) x by (simp add: at_expect_def Let_def)
  have "ao_kind (at_classify (fresh_record ?x) ack) = OK_matched"
    using assms(5,8) x by (simp add: at_classify_def fresh_record_def accepted_status_def rejected_status_def)
  then have "ar_state (record_observation (at_classify (fresh_record ?x) ack) (fresh_record ?x)) = XS_satisfied"
    using x by (simp add: record_observation_def fresh_record_def Let_def)
  with journal expected show ?thesis by (simp add: at_observe_def Let_def)
qed

definition busy_ack :: command_ack where
  "busy_ack = \<lparr>ca_command_id = 1, ca_device = 7, ca_status = AS_busy, ca_time_ns = 150, ca_message = []\<rparr>"

lemma busy_answer_diverges_witness:
  "\<exists>e' r. cj_find 1 (snd (cj_acknowledge (\<lambda>x. x) busy_ack sample_journal)) = Some e' \<and> je_state e' = CS_pending \<and>
    om_lookup (at_records (snd (at_observe busy_ack (snd (at_expect (expectation_from_entry
      (fresh_entry (sample_command\<lparr>cc_id := 1, cc_expires_time_ns := 30000000100\<rparr>)) 500) at_init))))) 1 = Some r \<and>
    ar_state r = XS_satisfied"
proof -
  let ?e = "fresh_entry (sample_command\<lparr>cc_id := 1, cc_expires_time_ns := 30000000100\<rparr>)"
  have find: "cj_find (ca_command_id busy_ack) sample_journal = Some ?e"
    by (simp add: busy_ack_def sample_journal_entry)
  have "\<not> ca_time_ns busy_ack > ae_deadline_ns (expectation_from_entry ?e 500)"
    by (simp add: busy_ack_def expectation_from_entry_def fresh_entry_def add_note_def append_eval Let_def)
  from busy_answer_diverges [OF find _ _ _ _ _ _ this, of at_init "\<lambda>x. x"] show ?thesis
    by (simp add: busy_ack_def append_eval at_init_def)
qed

end
