(* ===== verification/Backpressure.thy ===== *)
theory Backpressure
  imports Complex_Main Ordered_Map Ingest_Queue
begin

text \<open>
  The backpressure controller (\<open>src/control/backpressure_controller.cpp\<close>): the last sample of the
  queue is classified into a pressure level, and each packet is admitted, delayed, thinned out or
  rejected by the level and the state of its device. A \<open>double\<close> is a rational number; the
  rounding of conversions and of the division is the argument \<open>fl\<close>.
\<close>

section \<open>Data\<close>

datatype pressure_level = PL_nominal | PL_watch | PL_throttle | PL_shed | PL_stop

datatype admission_action = AA_accept | AA_delay | AA_downsample | AA_shed | AA_reject

record backpressure_thresholds =
  bt_watch_ratio :: rat
  bt_throttle_ratio :: rat
  bt_shed_ratio :: rat
  bt_stop_ratio :: rat
  bt_stale_sample_ns :: u64

record backpressure_config =
  bpc_queue_capacity_packets :: nat
  bpc_payload_capacity_bytes :: nat
  bpc_min_delay_ns :: u64
  bpc_max_delay_ns :: u64
  bpc_max_downsample_factor :: u32
  bpc_protect_control_packets :: bool
  bpc_thresholds :: backpressure_thresholds

definition backpressure_config_default :: "(rat \<Rightarrow> rat) \<Rightarrow> backpressure_config" where
  "backpressure_config_default fl =
     \<lparr>bpc_queue_capacity_packets = 1024, bpc_payload_capacity_bytes = 16 * 1024 * 1024,
      bpc_min_delay_ns = 50000, bpc_max_delay_ns = 50000000, bpc_max_downsample_factor = 16,
      bpc_protect_control_packets = True,
      bpc_thresholds = \<lparr>bt_watch_ratio = fl (50 / 100), bt_throttle_ratio = fl (70 / 100),
        bt_shed_ratio = fl (85 / 100), bt_stop_ratio = fl (97 / 100), bt_stale_sample_ns = 1000000000\<rparr>\<rparr>"

record pressure_sample =
  ps_time_ns :: u64
  ps_queued_packets :: nat
  ps_queued_payload_bytes :: nat
  ps_inflight_batches :: nat
  ps_stalled_devices :: nat

definition pressure_sample_default :: pressure_sample where
  "pressure_sample_default = \<lparr>ps_time_ns = 0, ps_queued_packets = 0, ps_queued_payload_bytes = 0,
     ps_inflight_batches = 0, ps_stalled_devices = 0\<rparr>"

record device_pressure =
  dp_device :: device_id
  dp_last_seen_ns :: u64
  dp_admitted_packets :: u64
  dp_delayed_packets :: u64
  dp_downsampled_packets :: u64
  dp_shed_packets :: u64
  dp_rejected_packets :: u64
  dp_current_downsample_factor :: u32
  dp_next_admit_time_ns :: u64
  dp_last_level :: pressure_level

definition device_pressure_default :: device_pressure where
  "device_pressure_default =
     \<lparr>dp_device = 0, dp_last_seen_ns = 0, dp_admitted_packets = 0, dp_delayed_packets = 0,
      dp_downsampled_packets = 0, dp_shed_packets = 0, dp_rejected_packets = 0,
      dp_current_downsample_factor = 1, dp_next_admit_time_ns = 0, dp_last_level = PL_nominal\<rparr>"

record admission_decision =
  ad_action :: admission_action
  ad_pressure :: pressure_level
  ad_delay_ns :: u64
  ad_downsample_factor :: u32
  ad_reason :: string

record backpressure_snapshot =
  bps_sample :: pressure_sample
  bps_level :: pressure_level
  bps_packet_ratio :: rat
  bps_payload_ratio :: rat
  bps_decisions :: u64
  bps_devices :: "device_pressure list"

record backpressure =
  bc_config :: backpressure_config
  bc_sample :: pressure_sample
  bc_level :: pressure_level
  bc_devices :: "(device_id, device_pressure) omap"
  bc_decisions :: u64

section \<open>Classification\<close>

fun level_rank :: "pressure_level \<Rightarrow> nat" where
  "level_rank PL_nominal = 0"
| "level_rank PL_watch = 1"
| "level_rank PL_throttle = 2"
| "level_rank PL_shed = 3"
| "level_rank PL_stop = 4"

definition max_level :: "pressure_level \<Rightarrow> pressure_level \<Rightarrow> pressure_level" where
  "max_level lhs rhs = (if level_rank lhs \<ge> level_rank rhs then lhs else rhs)"

definition pressure_ratio :: "(rat \<Rightarrow> rat) \<Rightarrow> nat \<Rightarrow> nat \<Rightarrow> rat" where
  "pressure_ratio fl used capacity =
     (if capacity = 0 then (if used = 0 then 0 else 1)
      else fl (fl (of_nat used) / fl (of_nat capacity)))"

definition ratio_level :: "backpressure_thresholds \<Rightarrow> rat \<Rightarrow> pressure_level" where
  "ratio_level thresholds ratio =
     (if ratio \<ge> bt_stop_ratio thresholds then PL_stop
      else if ratio \<ge> bt_shed_ratio thresholds then PL_shed
      else if ratio \<ge> bt_throttle_ratio thresholds then PL_throttle
      else if ratio \<ge> bt_watch_ratio thresholds then PL_watch
      else PL_nominal)"

definition classify_pressure :: "(rat \<Rightarrow> rat) \<Rightarrow> pressure_sample \<Rightarrow> backpressure_config \<Rightarrow> pressure_level" where
  "classify_pressure fl sample config =
     (let packet = pressure_ratio fl (ps_queued_packets sample) (bpc_queue_capacity_packets config);
          payload = pressure_ratio fl (ps_queued_payload_bytes sample) (bpc_payload_capacity_bytes config);
          level = ratio_level (bpc_thresholds config) (max packet payload);
          level = (if ps_stalled_devices sample > 0 \<and> level_rank level < level_rank PL_throttle
                   then PL_throttle else level)
      in if ps_inflight_batches sample > bpc_queue_capacity_packets config div 4 \<and>
            bpc_queue_capacity_packets config \<ge> 4
         then max_level level PL_watch else level)"

section \<open>Decisions\<close>

definition clamp_delay :: "u64 \<Rightarrow> u64 \<Rightarrow> u64 \<Rightarrow> u64" where
  "clamp_delay delay min_delay max_delay =
     (if delay < min_delay then min_delay else if delay > max_delay then max_delay else delay)"

definition device_reason :: "packet \<Rightarrow> string \<Rightarrow> string" where
  "device_reason packet ending = ''device '' @ dec (p_device packet) @ '' '' @ ending"

definition is_protected :: "backpressure_config \<Rightarrow> packet \<Rightarrow> bool" where
  "is_protected config packet \<longleftrightarrow>
     (if \<not> bpc_protect_control_packets config then False
      else p_kind packet = PK_control \<or> p_kind packet = PK_heartbeat \<or> p_kind packet = PK_capabilities)"

definition delay_for :: "backpressure_config \<Rightarrow> pressure_level \<Rightarrow> device_pressure \<Rightarrow> u64" where
  "delay_for config level device =
     (let repeats = min (dp_delayed_packets device + 1) 32;
          base = (case level of
             PL_nominal \<Rightarrow> 0
           | PL_watch \<Rightarrow> 0
           | PL_throttle \<Rightarrow> bpc_min_delay_ns config * 2
           | PL_shed \<Rightarrow> bpc_min_delay_ns config * 8
           | PL_stop \<Rightarrow> bpc_max_delay_ns config)
      in if base = 0 then 0
         else clamp_delay (base * repeats) (bpc_min_delay_ns config) (bpc_max_delay_ns config))"

definition downsample_for :: "backpressure_config \<Rightarrow> pressure_level \<Rightarrow> device_pressure \<Rightarrow> u32" where
  "downsample_for config level device =
     (let factor = (case level of
             PL_nominal \<Rightarrow> 1
           | PL_watch \<Rightarrow> 1
           | PL_throttle \<Rightarrow> 1
           | PL_shed \<Rightarrow> max 2 (dp_current_downsample_factor device * 2)
           | PL_stop \<Rightarrow> bpc_max_downsample_factor config)
      in min factor (bpc_max_downsample_factor config))"

definition make_decision ::
  "backpressure_config \<Rightarrow> pressure_level \<Rightarrow> packet \<Rightarrow> device_pressure \<Rightarrow> u64 \<Rightarrow> admission_decision" where
  "make_decision config level packet device time_ns =
     (let d = \<lparr>ad_action = AA_accept, ad_pressure = level, ad_delay_ns = 0,
               ad_downsample_factor = dp_current_downsample_factor device, ad_reason = []\<rparr>
      in if is_protected config packet \<and> level \<noteq> PL_stop
         then d\<lparr>ad_action := AA_accept, ad_downsample_factor := 1,
                ad_reason := device_reason packet ''accepted as protected control traffic''\<rparr>
         else if time_ns < dp_next_admit_time_ns device
         then d\<lparr>ad_action := AA_delay, ad_delay_ns := dp_next_admit_time_ns device - time_ns,
                ad_reason := device_reason packet ''is still inside a prior delay window''\<rparr>
         else (case level of
             PL_nominal \<Rightarrow> d\<lparr>ad_action := AA_accept, ad_downsample_factor := 1,
               ad_reason := device_reason packet ''accepted under nominal pressure''\<rparr>
           | PL_watch \<Rightarrow> d\<lparr>ad_action := AA_accept, ad_downsample_factor := 1,
               ad_reason := device_reason packet ''accepted while pressure is watched''\<rparr>
           | PL_throttle \<Rightarrow> d\<lparr>ad_action := AA_delay, ad_delay_ns := delay_for config level device,
               ad_reason := device_reason packet ''delayed by throttle pressure''\<rparr>
           | PL_shed \<Rightarrow> d\<lparr>ad_action := AA_downsample, ad_downsample_factor := downsample_for config level device,
               ad_reason := device_reason packet ''downsampled by shed pressure''\<rparr>
           | PL_stop \<Rightarrow> d\<lparr>ad_action := AA_reject, ad_downsample_factor := bpc_max_downsample_factor config,
               ad_reason := device_reason packet ''rejected by stop pressure''\<rparr>))"

definition apply_decision ::
  "backpressure_config \<Rightarrow> admission_decision \<Rightarrow> u64 \<Rightarrow> device_pressure \<Rightarrow> device_pressure" where
  "apply_decision config decision time_ns device =
     (let device = device\<lparr>dp_last_level := ad_pressure decision\<rparr>
      in case ad_action decision of
           AA_accept \<Rightarrow> device\<lparr>dp_admitted_packets := dp_admitted_packets device + 1,
             dp_current_downsample_factor := 1, dp_next_admit_time_ns := time_ns\<rparr>
         | AA_delay \<Rightarrow> device\<lparr>dp_delayed_packets := dp_delayed_packets device + 1,
             dp_next_admit_time_ns := time_ns + ad_delay_ns decision\<rparr>
         | AA_downsample \<Rightarrow> device\<lparr>dp_downsampled_packets := dp_downsampled_packets device + 1,
             dp_current_downsample_factor := max 1 (ad_downsample_factor decision),
             dp_next_admit_time_ns := time_ns\<rparr>
         | AA_shed \<Rightarrow> device\<lparr>dp_shed_packets := dp_shed_packets device + 1, dp_next_admit_time_ns := time_ns\<rparr>
         | AA_reject \<Rightarrow> device\<lparr>dp_rejected_packets := dp_rejected_packets device + 1,
             dp_current_downsample_factor := max 1 (ad_downsample_factor decision),
             dp_next_admit_time_ns := time_ns + bpc_max_delay_ns config\<rparr>)"

section \<open>The controller\<close>

definition bc_init :: "backpressure_config \<Rightarrow> backpressure" where
  "bc_init config = \<lparr>bc_config = config, bc_sample = pressure_sample_default, bc_level = PL_nominal,
     bc_devices = om_empty, bc_decisions = 0\<rparr>"

definition bc_snapshot :: "(rat \<Rightarrow> rat) \<Rightarrow> backpressure \<Rightarrow> backpressure_snapshot" where
  "bc_snapshot fl c =
     \<lparr>bps_sample = bc_sample c, bps_level = bc_level c,
      bps_packet_ratio = pressure_ratio fl (ps_queued_packets (bc_sample c))
        (bpc_queue_capacity_packets (bc_config c)),
      bps_payload_ratio = pressure_ratio fl (ps_queued_payload_bytes (bc_sample c))
        (bpc_payload_capacity_bytes (bc_config c)),
      bps_decisions = bc_decisions c, bps_devices = om_values (bc_devices c)\<rparr>"

definition bc_observe_sample :: "(rat \<Rightarrow> rat) \<Rightarrow> pressure_sample \<Rightarrow> backpressure \<Rightarrow> backpressure" where
  "bc_observe_sample fl sample c =
     c\<lparr>bc_sample := sample, bc_level := classify_pressure fl sample (bc_config c)\<rparr>"

definition bc_observe_queue :: "(rat \<Rightarrow> rat) \<Rightarrow> ingest_queue_stats \<Rightarrow> u64 \<Rightarrow> backpressure \<Rightarrow> backpressure" where
  "bc_observe_queue fl stats time_ns c =
     bc_observe_sample fl (pressure_sample_default\<lparr>ps_time_ns := time_ns,
       ps_queued_packets := is_queued_packets stats,
       ps_queued_payload_bytes := is_queued_payload_bytes stats\<rparr>) c"

text \<open>The device's record as \<open>decide\<close> finds or creates it, and as it leaves it.\<close>

definition touched_device :: "packet \<Rightarrow> u64 \<Rightarrow> backpressure \<Rightarrow> device_pressure" where
  "touched_device packet time_ns c =
     (let device = om_get device_pressure_default (bc_devices c) (p_device packet);
          device = (if dp_device device = 0 \<and> p_device packet \<noteq> 0
                    then device\<lparr>dp_device := p_device packet\<rparr> else device);
          device = (if dp_device device = 0 then device\<lparr>dp_device := p_device packet\<rparr> else device)
      in device\<lparr>dp_last_seen_ns := time_ns, dp_last_level := bc_level c\<rparr>)"

definition bc_decide :: "packet \<Rightarrow> u64 \<Rightarrow> backpressure \<Rightarrow> admission_decision \<times> backpressure" where
  "bc_decide packet time_ns c =
     (let device = touched_device packet time_ns c;
          decision = make_decision (bc_config c) (bc_level c) packet device time_ns;
          device = apply_decision (bc_config c) decision time_ns device
      in (decision, c\<lparr>bc_devices := om_update (p_device packet) device (bc_devices c),
                      bc_decisions := bc_decisions c + 1\<rparr>))"

definition bc_note_batch_completed ::
  "(rat \<Rightarrow> rat) \<Rightarrow> nat \<Rightarrow> nat \<Rightarrow> u64 \<Rightarrow> backpressure \<Rightarrow> backpressure" where
  "bc_note_batch_completed fl packet_count payload_bytes time_ns c =
     (let sample = bc_sample c;
          sample = (if ps_queued_packets sample \<ge> packet_count
            then sample\<lparr>ps_queued_packets := ps_queued_packets sample - packet_count\<rparr>
            else sample\<lparr>ps_queued_packets := 0\<rparr>);
          sample = (if ps_queued_payload_bytes sample \<ge> payload_bytes
            then sample\<lparr>ps_queued_payload_bytes := ps_queued_payload_bytes sample - payload_bytes\<rparr>
            else sample\<lparr>ps_queued_payload_bytes := 0\<rparr>);
          sample = sample\<lparr>ps_time_ns := time_ns\<rparr>
      in c\<lparr>bc_sample := sample, bc_level := classify_pressure fl sample (bc_config c)\<rparr>)"

definition bc_reset_device :: "device_id \<Rightarrow> backpressure \<Rightarrow> backpressure" where
  "bc_reset_device device c = c\<lparr>bc_devices := om_delete device (bc_devices c)\<rparr>"

definition bc_reset :: "backpressure \<Rightarrow> backpressure" where
  "bc_reset c = c\<lparr>bc_sample := pressure_sample_default, bc_level := PL_nominal, bc_devices := om_empty,
     bc_decisions := 0\<rparr>"

section \<open>Text output\<close>

fun pressure_level_name :: "pressure_level \<Rightarrow> string" where
  "pressure_level_name PL_nominal = ''nominal''"
| "pressure_level_name PL_watch = ''watch''"
| "pressure_level_name PL_throttle = ''throttle''"
| "pressure_level_name PL_shed = ''shed''"
| "pressure_level_name PL_stop = ''stop''"

fun admission_action_name :: "admission_action \<Rightarrow> string" where
  "admission_action_name AA_accept = ''accept''"
| "admission_action_name AA_delay = ''delay''"
| "admission_action_name AA_downsample = ''downsample''"
| "admission_action_name AA_shed = ''shed''"
| "admission_action_name AA_reject = ''reject''"

definition render_admission_decision :: "admission_decision \<Rightarrow> string" where
  "render_admission_decision decision =
     ''admission_decision'' @ newline @
     ''  action: '' @ admission_action_name (ad_action decision) @ newline @
     ''  pressure: '' @ pressure_level_name (ad_pressure decision) @ newline @
     ''  delay_ns: '' @ dec (ad_delay_ns decision) @ newline @
     ''  downsample_factor: '' @ dec (ad_downsample_factor decision) @ newline @
     ''  reason: '' @ ad_reason decision @ newline"

text \<open>How the stream prints a \<open>double\<close> is the argument \<open>show_double\<close>.\<close>

definition render_backpressure_snapshot :: "(rat \<Rightarrow> string) \<Rightarrow> backpressure_snapshot \<Rightarrow> string" where
  "render_backpressure_snapshot show_double snapshot =
     ''backpressure_snapshot'' @ newline @
     ''  level: '' @ pressure_level_name (bps_level snapshot) @ newline @
     ''  time_ns: '' @ dec (ps_time_ns (bps_sample snapshot)) @ newline @
     ''  queued_packets: '' @ dec_nat (ps_queued_packets (bps_sample snapshot)) @ newline @
     ''  queued_payload_bytes: '' @ dec_nat (ps_queued_payload_bytes (bps_sample snapshot)) @ newline @
     ''  packet_ratio: '' @ show_double (bps_packet_ratio snapshot) @ newline @
     ''  payload_ratio: '' @ show_double (bps_payload_ratio snapshot) @ newline @
     ''  decisions: '' @ dec (bps_decisions snapshot) @ newline @
     concat (map (\<lambda>device.
       ''  device: '' @ dec (dp_device device) @
       '' admitted='' @ dec (dp_admitted_packets device) @
       '' delayed='' @ dec (dp_delayed_packets device) @
       '' downsampled='' @ dec (dp_downsampled_packets device) @
       '' rejected='' @ dec (dp_rejected_packets device) @
       '' factor='' @ dec (dp_current_downsample_factor device) @ newline) (bps_devices snapshot))"

section \<open>The devices on all runs\<close>

datatype bc_call =
    BC_observe_sample pressure_sample
  | BC_observe_queue ingest_queue_stats u64
  | BC_decide packet u64
  | BC_note_batch_completed nat nat u64
  | BC_reset_device device_id
  | BC_reset

fun bc_step :: "(rat \<Rightarrow> rat) \<Rightarrow> bc_call \<Rightarrow> backpressure \<Rightarrow> backpressure" where
  "bc_step fl (BC_observe_sample sample) c = bc_observe_sample fl sample c"
| "bc_step fl (BC_observe_queue stats time_ns) c = bc_observe_queue fl stats time_ns c"
| "bc_step fl (BC_decide packet time_ns) c = snd (bc_decide packet time_ns c)"
| "bc_step fl (BC_note_batch_completed packets bytes time_ns) c = bc_note_batch_completed fl packets bytes time_ns c"
| "bc_step fl (BC_reset_device device) c = bc_reset_device device c"
| "bc_step fl BC_reset c = bc_reset c"

text \<open>The decisions about a device since it was last forgotten, and all of them since the last reset.\<close>

fun decided :: "device_id \<Rightarrow> bc_call \<Rightarrow> u64 \<Rightarrow> u64" where
  "decided d (BC_decide p t) n = (if p_device p = d then n + 1 else n)"
| "decided d (BC_reset_device d') n = (if d' = d then 0 else n)"
| "decided d BC_reset n = 0"
| "decided d call n = n"

fun decided_all :: "bc_call \<Rightarrow> u64 \<Rightarrow> u64" where
  "decided_all (BC_decide p t) n = n + 1"
| "decided_all BC_reset n = 0"
| "decided_all call n = n"

definition dp_decisions :: "device_pressure \<Rightarrow> u64" where
  "dp_decisions r = dp_admitted_packets r + dp_delayed_packets r + dp_downsampled_packets r + dp_rejected_packets r"

definition pressure_ok :: "backpressure_config \<Rightarrow> device_id \<Rightarrow> device_pressure \<Rightarrow> bool" where
  "pressure_ok config d r \<longleftrightarrow>
     dp_device r = d \<and> 1 \<le> dp_current_downsample_factor r \<and>
     dp_current_downsample_factor r \<le> max 1 (bpc_max_downsample_factor config) \<and> dp_shed_packets r = 0"

lemma decision_fields:
  "ad_action (make_decision config level p r t) \<noteq> AA_shed"
  "ad_pressure (make_decision config level p r t) = level"
  "ad_action (make_decision config level p r t) \<in> {AA_downsample, AA_reject} \<Longrightarrow>
     ad_downsample_factor (make_decision config level p r t) \<le> bpc_max_downsample_factor config"
  by (auto simp: make_decision_def Let_def downsample_for_def split: pressure_level.split if_splits)

lemma apply_decision_ok:
  assumes "pressure_ok config d r" and "ad_action a \<noteq> AA_shed"
    and "ad_action a \<in> {AA_downsample, AA_reject} \<Longrightarrow> ad_downsample_factor a \<le> bpc_max_downsample_factor config"
  shows "pressure_ok config d (apply_decision config a t r)"
    and "dp_decisions (apply_decision config a t r) = dp_decisions r + 1"
proof -
  have bound: "max 1 x \<le> max 1 y" if "x \<le> y" for x y :: u32
    using that by (rule max.mono [OF order.refl])
  show "pressure_ok config d (apply_decision config a t r)"
    using assms bound by (cases "ad_action a") (simp_all add: pressure_ok_def apply_decision_def Let_def)
  show "dp_decisions (apply_decision config a t r) = dp_decisions r + 1"
    using assms(2) by (cases "ad_action a") (simp_all add: apply_decision_def Let_def dp_decisions_def)
qed

lemma touched_device_fields:
  "touched_device p t c = (let r = om_get device_pressure_default (bc_devices c) (p_device p) in
     r\<lparr>dp_device := (if dp_device r = 0 then p_device p else dp_device r),
       dp_last_seen_ns := t, dp_last_level := bc_level c\<rparr>)"
  by (simp add: touched_device_def Let_def)

lemma no_decisions [simp]: "dp_decisions device_pressure_default = 0"
  by (simp add: dp_decisions_def device_pressure_default_def)

lemma touched_device_ok:
  assumes "\<And>r. om_lookup (bc_devices c) (p_device p) = Some r \<Longrightarrow> pressure_ok (bc_config c) (p_device p) r"
  shows "pressure_ok (bc_config c) (p_device p) (touched_device p t c)"
    and "dp_decisions (touched_device p t c) =
      dp_decisions (om_get device_pressure_default (bc_devices c) (p_device p))"
proof -
  let ?r = "om_get device_pressure_default (bc_devices c) (p_device p)"
  have touched: "touched_device p t c = ?r\<lparr>dp_device := (if dp_device ?r = 0 then p_device p else dp_device ?r),
      dp_last_seen_ns := t, dp_last_level := bc_level c\<rparr>"
    by (simp add: touched_device_fields Let_def)
  show "dp_decisions (touched_device p t c) = dp_decisions ?r" by (simp add: touched dp_decisions_def)
  show "pressure_ok (bc_config c) (p_device p) (touched_device p t c)"
  proof (cases "om_lookup (bc_devices c) (p_device p)")
    case None
    then show ?thesis by (simp add: touched om_get_def pressure_ok_def device_pressure_default_def)
  next
    case (Some r)
    with assms [OF Some] show ?thesis by (simp add: touched om_get_def pressure_ok_def)
  qed
qed

definition level_known :: "(rat \<Rightarrow> rat) \<Rightarrow> backpressure \<Rightarrow> bool" where
  "level_known fl c \<longleftrightarrow>
     bc_level c = classify_pressure fl (bc_sample c) (bc_config c) \<or>
     bc_level c = PL_nominal \<and> bc_sample c = pressure_sample_default"

definition backpressure_ok :: "(rat \<Rightarrow> rat) \<Rightarrow> backpressure_config \<Rightarrow> backpressure \<Rightarrow> bool" where
  "backpressure_ok fl config c \<longleftrightarrow>
     bc_config c = config \<and> level_known fl c \<and>
     (\<forall>d r. om_lookup (bc_devices c) d = Some r \<longrightarrow> pressure_ok config d r)"

lemma backpressure_ok_step: "backpressure_ok fl config c \<Longrightarrow> backpressure_ok fl config (bc_step fl call c)"
proof (cases call)
  case (BC_decide p t)
  assume ok: "backpressure_ok fl config c"
  then have "pressure_ok config (p_device p) (touched_device p t c)"
    using touched_device_ok(1) [of c p t] by (simp add: backpressure_ok_def)
  then have "pressure_ok config (p_device p)
      (apply_decision config (make_decision config (bc_level c) p (touched_device p t c) t) t (touched_device p t c))"
    by (intro apply_decision_ok decision_fields)
  with ok show ?thesis by (auto simp: BC_decide bc_decide_def Let_def backpressure_ok_def level_known_def)
qed (auto simp: backpressure_ok_def level_known_def bc_observe_sample_def bc_observe_queue_def
    bc_note_batch_completed_def bc_reset_device_def bc_reset_def Let_def split: if_splits)

lemma backpressure_ok_init: "backpressure_ok fl config (bc_init config)"
  by (simp add: backpressure_ok_def bc_init_def level_known_def)

interpretation backpressure_runs: state_machine "bc_init config" "bc_step fl" "backpressure_ok fl config"
  by unfold_locales (simp_all add: backpressure_ok_init backpressure_ok_step)

lemma decided_step:
  "dp_decisions (om_get device_pressure_default (bc_devices (bc_step fl call c)) d) =
     decided d call (dp_decisions (om_get device_pressure_default (bc_devices c) d))"
proof (cases call)
  case (BC_decide p t)
  have "dp_decisions (apply_decision config (make_decision config level p r t) t r) = dp_decisions r + 1"
    for config level r
    using decision_fields(1) [of config level p r t]
    by (cases "ad_action (make_decision config level p r t)")
      (simp_all add: apply_decision_def Let_def dp_decisions_def)
  moreover have "dp_decisions (touched_device p t c) =
      dp_decisions (om_get device_pressure_default (bc_devices c) (p_device p))"
    by (simp add: touched_device_def Let_def dp_decisions_def)
  ultimately show ?thesis by (simp add: BC_decide bc_decide_def Let_def)
qed (simp_all add: bc_observe_sample_def bc_observe_queue_def bc_note_batch_completed_def bc_reset_device_def
    bc_reset_def Let_def om_get_def [of _ om_empty])

lemma decided_run:
  "dp_decisions (om_get device_pressure_default (bc_devices (fold (bc_step fl) calls (bc_init config))) d) =
     fold (decided d) calls 0"
proof (induction calls rule: rev_induct)
  case Nil
  show ?case by (simp add: bc_init_def om_get_def dp_decisions_def device_pressure_default_def)
qed (simp add: decided_step)

lemma decided_all_step: "bc_decisions (bc_step fl call c) = decided_all call (bc_decisions c)"
  by (cases call) (simp_all add: bc_observe_sample_def bc_observe_queue_def bc_decide_def
      bc_note_batch_completed_def bc_reset_device_def bc_reset_def Let_def)

lemma decided_all_run: "bc_decisions (fold (bc_step fl) calls (bc_init config)) = fold decided_all calls 0"
  by (induction calls rule: rev_induct) (simp_all add: decided_all_step, simp add: bc_init_def)

section \<open>Pressure and decisions\<close>

definition sample_le :: "pressure_sample \<Rightarrow> pressure_sample \<Rightarrow> bool" where
  "sample_le s s' \<longleftrightarrow>
     ps_queued_packets s \<le> ps_queued_packets s' \<and> ps_queued_payload_bytes s \<le> ps_queued_payload_bytes s' \<and>
     ps_inflight_batches s \<le> ps_inflight_batches s' \<and> ps_stalled_devices s \<le> ps_stalled_devices s'"

lemma pressure_ratio_mono:
  assumes "mono fl" and "fl 0 = 0" and "m \<le> n"
  shows "pressure_ratio fl m capacity \<le> pressure_ratio fl n capacity"
proof (cases "capacity = 0")
  case False
  have "fl (of_nat m) / fl (of_nat capacity) \<le> fl (of_nat n) / fl (of_nat capacity)"
  proof (rule divide_right_mono)
    show "fl (of_nat m) \<le> fl (of_nat n)" using assms(1,3) by (simp add: monoD)
    show "0 \<le> fl (of_nat capacity)" using monoD [OF assms(1), of 0 "of_nat capacity"] assms(2) by simp
  qed
  with False show ?thesis using assms(1) by (simp add: pressure_ratio_def monoD)
qed (use assms(3) in \<open>simp add: pressure_ratio_def\<close>)

lemma ratio_level_mono: "q \<le> r \<Longrightarrow> level_rank (ratio_level thresholds q) \<le> level_rank (ratio_level thresholds r)"
  by (simp add: ratio_level_def)

lemma level_rank_max [simp]: "level_rank (max_level a b) = max (level_rank a) (level_rank b)"
  by (simp add: max_level_def)

lemma classify_rank:
  "level_rank (classify_pressure fl s config) =
    max (max (level_rank (ratio_level (bpc_thresholds config)
          (max (pressure_ratio fl (ps_queued_packets s) (bpc_queue_capacity_packets config))
               (pressure_ratio fl (ps_queued_payload_bytes s) (bpc_payload_capacity_bytes config)))))
        (if ps_stalled_devices s > 0 then 2 else 0))
      (if ps_inflight_batches s > bpc_queue_capacity_packets config div 4 \<and> bpc_queue_capacity_packets config \<ge> 4
       then 1 else 0)"
  by (simp add: classify_pressure_def Let_def)

fun bc_decide_many :: "(packet \<times> u64) list \<Rightarrow> backpressure \<Rightarrow> admission_decision list \<times> backpressure" where
  "bc_decide_many [] c = ([], c)"
| "bc_decide_many ((p, t) # xs) c =
     (let (decision, c) = bc_decide p t c; (decisions, c) = bc_decide_many xs c in (decision # decisions, c))"

lemma decide_keeps [simp]:
  "bc_level (snd (bc_decide p t c)) = bc_level c" "bc_config (snd (bc_decide p t c)) = bc_config c"
  by (simp_all add: bc_decide_def Let_def)

lemma throttle_delays:
  "bc_level c = PL_throttle \<Longrightarrow> \<not> is_protected (bc_config c) p \<Longrightarrow> ad_action (fst (bc_decide p t c)) = AA_delay"
  by (simp add: bc_decide_def make_decision_def Let_def)

section \<open>Properties\<close>

text \<open>
  The accounts of the controller after any calls: the level is that of the last sample, every
  device is filed under its number with a downsampling factor between 1 and the configured
  maximum, its counters add up to the decisions made about it since it was last forgotten (none
  of them is ever \<open>shed\<close>), and the controller counts all decisions since the last reset.
\<close>

theorem backpressure_accounts:
  "let c = fold (bc_step fl) calls (bc_init config) in
     (bc_level c = classify_pressure fl (bc_sample c) config \<or>
      bc_level c = PL_nominal \<and> bc_sample c = pressure_sample_default) \<and>
     bc_decisions c = fold decided_all calls 0 \<and>
     (\<forall>d r. om_lookup (bc_devices c) d = Some r \<longrightarrow>
        dp_device r = d \<and> 1 \<le> dp_current_downsample_factor r \<and>
        dp_current_downsample_factor r \<le> max 1 (bpc_max_downsample_factor config) \<and>
        dp_shed_packets r = 0 \<and>
        dp_admitted_packets r + dp_delayed_packets r + dp_downsampled_packets r + dp_rejected_packets r =
          fold (decided d) calls 0)"
proof -
  let ?c = "fold (bc_step fl) calls (bc_init config)"
  have ok: "backpressure_ok fl config ?c" by (rule backpressure_runs.inv_run)
  have "dp_decisions r = fold (decided d) calls 0" if "om_lookup (bc_devices ?c) d = Some r" for d r
    using decided_run [of fl calls config d] that by (simp add: om_get_def)
  with ok show ?thesis
    by (auto simp: Let_def backpressure_ok_def level_known_def pressure_ok_def dp_decisions_def decided_all_run)
qed

definition two_decisions :: backpressure where
  "two_decisions = fold (bc_step (\<lambda>x. x)) [BC_decide (packet_default\<lparr>p_device := 7\<rparr>) 5, BC_decide packet_default 6]
     (bc_init (backpressure_config_default (\<lambda>x. x)))"

lemma backpressure_accounts_witness:
  "bc_decisions two_decisions = 2 \<and>
   (\<exists>r. om_lookup (bc_devices two_decisions) 7 = Some r \<and> dp_device r = 7 \<and>
     dp_admitted_packets r + dp_delayed_packets r + dp_downsampled_packets r + dp_rejected_packets r = 1)"
proof -
  have "om_lookup (bc_devices two_decisions) 7 \<noteq> None"
    by (simp add: two_decisions_def bc_decide_def Let_def packet_default_def)
  then obtain r where r: "om_lookup (bc_devices two_decisions) 7 = Some r" by blast
  have decided: "fold (decided 7) [BC_decide (packet_default\<lparr>p_device := 7\<rparr>) 5, BC_decide packet_default 6] 0 = 1"
    "fold decided_all [BC_decide (packet_default\<lparr>p_device := 7\<rparr>) 5, BC_decide packet_default 6] 0 = 2"
    by (simp_all add: packet_default_def)
  note accounts = backpressure_accounts [of "\<lambda>x. x"
      "[BC_decide (packet_default\<lparr>p_device := 7\<rparr>) 5, BC_decide packet_default 6]"
      "backpressure_config_default (\<lambda>x. x)", unfolded Let_def two_decisions_def [symmetric] decided(2)]
  then have "bc_decisions two_decisions = 2" by (elim conjE)
  moreover have "dp_device r = 7 \<and>
      dp_admitted_packets r + dp_delayed_packets r + dp_downsampled_packets r + dp_rejected_packets r = 1"
    using accounts r decided(1) by (elim conjE allE [where x = 7]) (elim allE [where x = r], simp)
  ultimately show ?thesis using r by blast
qed

text \<open>
  More load never lowers the level: if a sample has at least as many queued packets, queued
  bytes, batches in flight and stalled devices as another, it is classified at least as high,
  whatever the thresholds and whatever monotone rounding the division of doubles has.
\<close>

theorem pressure_monotone:
  assumes "mono fl" and "fl 0 = 0" and "sample_le s s'"
  shows "level_rank (classify_pressure fl s config) \<le> level_rank (classify_pressure fl s' config)"
proof -
  let ?q = "\<lambda>s. max (pressure_ratio fl (ps_queued_packets s) (bpc_queue_capacity_packets config))
    (pressure_ratio fl (ps_queued_payload_bytes s) (bpc_payload_capacity_bytes config))"
  have "?q s \<le> ?q s'"
    using assms by (intro max.mono pressure_ratio_mono) (simp_all add: sample_le_def)
  then have "level_rank (ratio_level (bpc_thresholds config) (?q s)) \<le>
      level_rank (ratio_level (bpc_thresholds config) (?q s'))"
    by (rule ratio_level_mono)
  then show ?thesis
    unfolding classify_rank using assms(3) by (intro max.mono) (auto simp: sample_le_def)
qed

lemma pressure_monotone_witness:
  "level_rank (classify_pressure (\<lambda>x. x) pressure_sample_default (backpressure_config_default (\<lambda>x. x))) \<le>
   level_rank (classify_pressure (\<lambda>x. x) (pressure_sample_default\<lparr>ps_queued_packets := 900\<rparr>)
     (backpressure_config_default (\<lambda>x. x)))"
  by (rule pressure_monotone) (simp_all add: mono_def sample_le_def pressure_sample_default_def)

text \<open>
  Throttling never ends by waiting. While the level is \<open>throttle\<close> every unprotected packet is
  delayed, at whatever times the packets come, so also one that comes after the delay it was
  told to wait; under the higher level \<open>shed\<close> such a packet is let through, thinned out.
\<close>

theorem throttle_never_admits:
  assumes "\<forall>(p, t) \<in> set xs. \<not> is_protected (bc_config c) p"
  shows "(bc_level c = PL_throttle \<longrightarrow> list_all (\<lambda>d. ad_action d = AA_delay) (fst (bc_decide_many xs c))) \<and>
    (bc_level c = PL_shed \<longrightarrow> (\<forall>(p, t) \<in> set xs.
       dp_next_admit_time_ns (om_get device_pressure_default (bc_devices c) (p_device p)) \<le> t \<longrightarrow>
       ad_action (fst (bc_decide p t c)) = AA_downsample))"
proof
  show "bc_level c = PL_throttle \<longrightarrow> list_all (\<lambda>d. ad_action d = AA_delay) (fst (bc_decide_many xs c))"
    using assms
  proof (induction xs arbitrary: c)
    case (Cons x xs)
    obtain p t where x: "x = (p, t)" by (cases x)
    with Cons.prems Cons.IH [of "snd (bc_decide p t c)"] throttle_delays [of c p t] show ?case
      by (simp add: split_beta Let_def)
  qed simp
  show "bc_level c = PL_shed \<longrightarrow> (\<forall>(p, t) \<in> set xs.
       dp_next_admit_time_ns (om_get device_pressure_default (bc_devices c) (p_device p)) \<le> t \<longrightarrow>
       ad_action (fst (bc_decide p t c)) = AA_downsample)"
    using assms by (auto simp: bc_decide_def make_decision_def touched_device_fields Let_def not_less)
qed

definition stalled_controller :: backpressure where
  "stalled_controller = bc_observe_sample (\<lambda>x. x) (pressure_sample_default\<lparr>ps_stalled_devices := 1\<rparr>)
     (bc_init (backpressure_config_default (\<lambda>x. x)))"

lemma throttle_never_admits_witness:
  "list_all (\<lambda>d. ad_action d = AA_delay)
     (fst (bc_decide_many [(packet_default, 0), (packet_default, 100000), (packet_default, 1000000)]
       stalled_controller))"
proof -
  have "bc_level stalled_controller = PL_throttle"
    by (simp add: stalled_controller_def bc_observe_sample_def classify_pressure_def Let_def pressure_ratio_def
        ratio_level_def bc_init_def backpressure_config_default_def pressure_sample_default_def)
  then show ?thesis
    using throttle_never_admits [of "[(packet_default, 0), (packet_default, 100000), (packet_default, 1000000)]"
        stalled_controller]
    by (simp add: is_protected_def packet_default_def)
qed

end
