(* ===== verification/Scheduler.thy ===== *)
theory Scheduler
  imports Identity Ingest_Queue
begin

text \<open>
  The task scheduler of \<open>src/runtime/scheduler.cpp\<close>: tasks are enqueued, leased by deadline,
  priority and age under a per-device burst, completed, retried, cancelled and expired. An
  iterator into \<open>tasks_\<close> is its key; \<open>reserve\<close> has no effect on the values.
\<close>

section \<open>Data\<close>

type_synonym task_id = u64

datatype task_kind = TK_ingest | TK_batch | TK_dispatch | TK_maintenance | TK_control

datatype task_state = TS_queued | TS_running | TS_completed | TS_cancelled | TS_expired

datatype pick_reason = PR_none | PR_ready | PR_deadline | PR_priority | PR_fairness

record scheduler_task =
  sk_id :: task_id
  sk_kind :: task_kind
  sk_device :: device_id
  sk_enqueue_time_ns :: u64
  sk_ready_time_ns :: u64
  sk_deadline_ns :: u64
  sk_priority :: ingest_priority
  sk_cost :: u32
  sk_label :: string

definition scheduler_task_default :: scheduler_task where
  "scheduler_task_default =
     \<lparr>sk_id = 0, sk_kind = TK_maintenance, sk_device = 0, sk_enqueue_time_ns = 0,
      sk_ready_time_ns = 0, sk_deadline_ns = 0, sk_priority = IP_normal, sk_cost = 1, sk_label = []\<rparr>"

record scheduler_lease =
  sl_task :: scheduler_task
  sl_reason :: pick_reason
  sl_lease_time_ns :: u64

record scheduler_completion =
  sc_id :: task_id
  sc_success :: bool
  sc_complete_time_ns :: u64
  sc_retry_ready_time_ns :: u64
  sc_note :: string

record scheduler_stats =
  ss_enqueued :: u64
  ss_leased :: u64
  ss_completed :: u64
  ss_cancelled :: u64
  ss_expired :: u64
  ss_retried :: u64
  ss_duplicate_rejections :: u64

definition scheduler_stats_default :: scheduler_stats where
  "scheduler_stats_default =
     \<lparr>ss_enqueued = 0, ss_leased = 0, ss_completed = 0, ss_cancelled = 0, ss_expired = 0,
      ss_retried = 0, ss_duplicate_rejections = 0\<rparr>"

record scheduler_config =
  scf_max_tasks :: nat
  scf_per_device_burst :: u32
  scf_fairness_window_ns :: u64
  scf_reject_duplicate_labels :: bool

definition scheduler_config_default :: scheduler_config where
  "scheduler_config_default =
     \<lparr>scf_max_tasks = 4096, scf_per_device_burst = 8, scf_fairness_window_ns = 1000000,
      scf_reject_duplicate_labels = True\<rparr>"

record task_record =
  tr_task :: scheduler_task
  tr_state :: task_state
  tr_attempts :: u32
  tr_last_lease_time_ns :: u64
  tr_notes :: "string list"

record snapshot_task =
  snt_task :: scheduler_task
  snt_state :: task_state
  snt_attempts :: u32
  snt_last_lease_time_ns :: u64
  snt_notes :: "string list"

record scheduler_snapshot =
  ssn_stats :: scheduler_stats
  ssn_queued :: nat
  ssn_running :: nat
  ssn_tasks :: "snapshot_task list"

record scheduler =
  rs_config :: scheduler_config
  rs_tasks :: "(task_id, task_record) omap"
  rs_running_by_device :: "(device_id, u32) omap"
  rs_stats :: scheduler_stats
  rs_next_id :: task_id

section \<open>Helpers\<close>

definition priority_score :: "ingest_priority \<Rightarrow> u8" where
  "priority_score priority = of_nat (priority_rank priority)"

fun is_terminal :: "task_state \<Rightarrow> bool" where
  "is_terminal TS_completed = True"
| "is_terminal TS_cancelled = True"
| "is_terminal TS_expired = True"
| "is_terminal TS_queued = False"
| "is_terminal TS_running = False"

definition has_deadline :: "scheduler_task \<Rightarrow> bool" where
  "has_deadline task \<longleftrightarrow> sk_deadline_ns task \<noteq> 0"

definition task_note :: "string \<Rightarrow> task_record \<Rightarrow> task_record" where
  "task_note message r = r\<lparr>tr_notes := tr_notes r @ [message]\<rparr>"

section \<open>Operations\<close>

definition rs_init :: "scheduler_config \<Rightarrow> scheduler" where
  "rs_init config =
     \<lparr>rs_config = config, rs_tasks = om_empty, rs_running_by_device = om_empty,
      rs_stats = scheduler_stats_default, rs_next_id = 1\<rparr>"

definition rs_size :: "scheduler \<Rightarrow> nat" where
  "rs_size s = om_size (rs_tasks s)"

definition rs_empty :: "scheduler \<Rightarrow> bool" where
  "rs_empty s \<longleftrightarrow> om_size (rs_tasks s) = 0"

definition rs_snapshot :: "scheduler \<Rightarrow> scheduler_snapshot" where
  "rs_snapshot s =
     \<lparr>ssn_stats = rs_stats s,
      ssn_queued = length (filter (\<lambda>r. tr_state r = TS_queued) (om_values (rs_tasks s))),
      ssn_running = length (filter (\<lambda>r. tr_state r = TS_running) (om_values (rs_tasks s))),
      ssn_tasks = map (\<lambda>r. \<lparr>snt_task = tr_task r, snt_state = tr_state r, snt_attempts = tr_attempts r,
                              snt_last_lease_time_ns = tr_last_lease_time_ns r, snt_notes = tr_notes r\<rparr>)
                    (om_values (rs_tasks s))\<rparr>"

definition rs_count :: "(scheduler_stats \<Rightarrow> scheduler_stats) \<Rightarrow> scheduler \<Rightarrow> scheduler" where
  "rs_count f s = s\<lparr>rs_stats := f (rs_stats s)\<rparr>"

definition rs_take_next_id :: "scheduler \<Rightarrow> task_id \<times> scheduler" where
  "rs_take_next_id s = (rs_next_id s, s\<lparr>rs_next_id := rs_next_id s + 1\<rparr>)"

definition rs_duplicate_label :: "scheduler_task \<Rightarrow> scheduler \<Rightarrow> bool" where
  "rs_duplicate_label task s \<longleftrightarrow>
     sk_label task \<noteq> [] \<and>
     (\<exists>r \<in> set (om_values (rs_tasks s)).
        \<not> is_terminal (tr_state r) \<and> sk_device (tr_task r) = sk_device task \<and>
        sk_kind (tr_task r) = sk_kind task \<and> sk_label (tr_task r) = sk_label task)"

definition count_duplicate_task :: "scheduler_stats \<Rightarrow> scheduler_stats" where
  "count_duplicate_task stats = stats\<lparr>ss_duplicate_rejections := ss_duplicate_rejections stats + 1\<rparr>"

definition rs_assign_id :: "scheduler_task \<Rightarrow> scheduler \<Rightarrow> task_id \<times> scheduler" where
  "rs_assign_id task s =
     (if sk_id task = 0 then rs_take_next_id s
      else (sk_id task, s\<lparr>rs_next_id := max (rs_next_id s) (sk_id task + 1)\<rparr>))"

definition fresh_task :: "scheduler_task \<Rightarrow> task_record" where
  "fresh_task task =
     task_note ''task enqueued''
       \<lparr>tr_task = task, tr_state = TS_queued, tr_attempts = 0, tr_last_lease_time_ns = 0, tr_notes = []\<rparr>"

text \<open>The left summand is the text of the \<open>std::runtime_error\<close>.\<close>

definition rs_enqueue :: "scheduler_task \<Rightarrow> scheduler \<Rightarrow> (string + task_id) \<times> scheduler" where
  "rs_enqueue task s =
     (if om_size (rs_tasks s) \<ge> scf_max_tasks (rs_config s)
      then (Inl ''runtime scheduler capacity reached'', s)
      else if scf_reject_duplicate_labels (rs_config s) \<and> rs_duplicate_label task s
      then (Inr 0, rs_count count_duplicate_task s)
      else if sk_id task \<noteq> 0 \<and> om_lookup (rs_tasks s) (sk_id task) \<noteq> None
      then (Inr 0, rs_count count_duplicate_task s)
      else
        let (tid, s) = rs_assign_id task s;
            s = s\<lparr>rs_tasks := om_update tid (fresh_task (task\<lparr>sk_id := tid\<rparr>)) (rs_tasks s)\<rparr>
        in (Inr tid, rs_count (\<lambda>stats. stats\<lparr>ss_enqueued := ss_enqueued stats + 1\<rparr>) s))"

definition device_burst_available :: "device_id \<Rightarrow> scheduler \<Rightarrow> bool" where
  "device_burst_available device s =
     (case om_lookup (rs_running_by_device s) device of
        None \<Rightarrow> True
      | Some running \<Rightarrow> running < scf_per_device_burst (rs_config s))"

text \<open>Whether a candidate replaces the best task so far.\<close>

definition due_within_window :: "scheduler_config \<Rightarrow> u64 \<Rightarrow> scheduler_task \<Rightarrow> bool" where
  "due_within_window config now_ns task \<longleftrightarrow>
     has_deadline task \<and> sk_deadline_ns task \<le> now_ns + scf_fairness_window_ns config"

definition preferred :: "scheduler_config \<Rightarrow> u64 \<Rightarrow> task_record \<Rightarrow> task_record \<Rightarrow> bool" where
  "preferred config now_ns r best =
     (let lhs = tr_task r; rhs = tr_task best;
          lhs_due = due_within_window config now_ns lhs;
          rhs_due = due_within_window config now_ns rhs
      in if lhs_due \<noteq> rhs_due then lhs_due
         else if has_deadline lhs \<and> has_deadline rhs \<and> sk_deadline_ns lhs \<noteq> sk_deadline_ns rhs
         then sk_deadline_ns lhs < sk_deadline_ns rhs
         else if priority_score (sk_priority lhs) \<noteq> priority_score (sk_priority rhs)
         then priority_score (sk_priority lhs) > priority_score (sk_priority rhs)
         else if tr_attempts r \<noteq> tr_attempts best then tr_attempts r < tr_attempts best
         else sk_enqueue_time_ns lhs < sk_enqueue_time_ns rhs)"

definition eligible :: "u64 \<Rightarrow> scheduler \<Rightarrow> task_record \<Rightarrow> bool" where
  "eligible now_ns s r \<longleftrightarrow>
     tr_state r = TS_queued \<and> \<not> sk_ready_time_ns (tr_task r) > now_ns \<and>
     device_burst_available (sk_device (tr_task r)) s"

fun select_loop ::
  "u64 \<Rightarrow> scheduler \<Rightarrow> (task_id \<times> task_record) option \<Rightarrow> (task_id \<times> task_record) list \<Rightarrow>
   (task_id \<times> task_record) option" where
  "select_loop now_ns s best [] = best"
| "select_loop now_ns s best ((tid, r) # rest) =
     (if \<not> eligible now_ns s r then select_loop now_ns s best rest
      else case best of
          None \<Rightarrow> select_loop now_ns s (Some (tid, r)) rest
        | Some b \<Rightarrow> select_loop now_ns s
            (if preferred (rs_config s) now_ns r (snd b) then Some (tid, r) else best) rest)"

definition rs_select :: "u64 \<Rightarrow> scheduler \<Rightarrow> (task_id \<times> task_record) option" where
  "rs_select now_ns s = select_loop now_ns s None (om_entries (rs_tasks s))"

definition rs_pick_reason :: "task_record \<Rightarrow> u64 \<Rightarrow> scheduler \<Rightarrow> pick_reason" where
  "rs_pick_reason r now_ns s =
     (if sk_deadline_ns (tr_task r) \<noteq> 0 \<and>
         sk_deadline_ns (tr_task r) \<le> now_ns + scf_fairness_window_ns (rs_config s) then PR_deadline
      else if priority_score (sk_priority (tr_task r)) \<ge> priority_score IP_high then PR_priority
      else if tr_attempts r > 0 then PR_fairness
      else PR_ready)"

definition leased_record :: "u64 \<Rightarrow> task_record \<Rightarrow> task_record" where
  "leased_record now_ns r =
     task_note ''task leased''
       (r\<lparr>tr_state := TS_running, tr_last_lease_time_ns := now_ns, tr_attempts := tr_attempts r + 1\<rparr>)"

definition rs_put :: "task_id \<Rightarrow> task_record \<Rightarrow> scheduler \<Rightarrow> scheduler" where
  "rs_put tid r s = s\<lparr>rs_tasks := om_update tid r (rs_tasks s)\<rparr>"

definition rs_record_lease :: "task_id \<Rightarrow> task_record \<Rightarrow> u64 \<Rightarrow> scheduler \<Rightarrow> scheduler" where
  "rs_record_lease tid r now_ns s =
     (let device = sk_device (tr_task r) in
      rs_put tid (leased_record now_ns r)
        (s\<lparr>rs_running_by_device :=
             om_update device (om_get 0 (rs_running_by_device s) device + 1) (rs_running_by_device s)\<rparr>))"

definition rs_lease_next :: "u64 \<Rightarrow> scheduler \<Rightarrow> scheduler_lease option \<times> scheduler" where
  "rs_lease_next now_ns s =
     (case rs_select now_ns s of
        None \<Rightarrow> (None, s)
      | Some (tid, r) \<Rightarrow>
          (Some \<lparr>sl_task = tr_task r, sl_reason = rs_pick_reason r now_ns s, sl_lease_time_ns = now_ns\<rparr>,
           rs_count (\<lambda>stats. stats\<lparr>ss_leased := ss_leased stats + 1\<rparr>) (rs_record_lease tid r now_ns s)))"

fun rs_lease_many :: "u64 \<Rightarrow> nat \<Rightarrow> scheduler \<Rightarrow> scheduler_lease list \<times> scheduler" where
  "rs_lease_many now_ns 0 s = ([], s)"
| "rs_lease_many now_ns (Suc n) s =
     (case rs_lease_next now_ns s of
        (None, s) \<Rightarrow> ([], s)
      | (Some lease, s) \<Rightarrow> (let (leases, s) = rs_lease_many now_ns n s in (lease # leases, s)))"

definition rs_release_device :: "device_id \<Rightarrow> scheduler \<Rightarrow> scheduler" where
  "rs_release_device device s =
     (case om_lookup (rs_running_by_device s) device of
        None \<Rightarrow> s
      | Some running \<Rightarrow>
          s\<lparr>rs_running_by_device :=
              (if running \<le> 1 then om_delete device (rs_running_by_device s)
               else om_update device (running - 1) (rs_running_by_device s))\<rparr>)"

definition rs_complete :: "scheduler_completion \<Rightarrow> scheduler \<Rightarrow> bool \<times> scheduler" where
  "rs_complete completion s =
     (case om_lookup (rs_tasks s) (sc_id completion) of
        None \<Rightarrow> (False, s)
      | Some r \<Rightarrow>
          if tr_state r \<noteq> TS_running then (False, s)
          else
            let s = rs_release_device (sk_device (tr_task r)) s in
            if sc_success completion
            then (True,
              rs_count (\<lambda>stats. stats\<lparr>ss_completed := ss_completed stats + 1\<rparr>)
                (rs_put (sc_id completion)
                  (task_note (if sc_note completion = [] then ''task completed'' else sc_note completion)
                    (r\<lparr>tr_state := TS_completed\<rparr>)) s))
            else (True,
              rs_count (\<lambda>stats. stats\<lparr>ss_retried := ss_retried stats + 1\<rparr>)
                (rs_put (sc_id completion)
                  (task_note (if sc_note completion = [] then ''task rescheduled after failure''
                              else sc_note completion)
                    (r\<lparr>tr_state := TS_queued,
                       tr_task := (tr_task r)\<lparr>sk_ready_time_ns := sc_retry_ready_time_ns completion\<rparr>\<rparr>)) s)))"

definition rs_cancel :: "task_id \<Rightarrow> string \<Rightarrow> scheduler \<Rightarrow> bool \<times> scheduler" where
  "rs_cancel tid note_text s =
     (case om_lookup (rs_tasks s) tid of
        None \<Rightarrow> (False, s)
      | Some r \<Rightarrow>
          if is_terminal (tr_state r) then (False, s)
          else
            let s = (if tr_state r = TS_running then rs_release_device (sk_device (tr_task r)) s else s)
            in (True, rs_count (\<lambda>stats. stats\<lparr>ss_cancelled := ss_cancelled stats + 1\<rparr>)
                 (rs_put tid (task_note note_text (r\<lparr>tr_state := TS_cancelled\<rparr>)) s)))"

definition expire_task ::
  "u64 \<Rightarrow> task_id \<Rightarrow> task_record \<Rightarrow> scheduler_task list \<times> scheduler_stats \<Rightarrow>
   task_record \<times> scheduler_task list \<times> scheduler_stats" where
  "expire_task now_ns tid r = (\<lambda>(expired, stats).
     if tr_state r \<noteq> TS_queued then (r, expired, stats)
     else if sk_deadline_ns (tr_task r) \<noteq> 0 \<and> now_ns > sk_deadline_ns (tr_task r)
     then (task_note ''task expired before lease'' (r\<lparr>tr_state := TS_expired\<rparr>),
           expired @ [tr_task r], stats\<lparr>ss_expired := ss_expired stats + 1\<rparr>)
     else (r, expired, stats))"

definition rs_expire :: "u64 \<Rightarrow> scheduler \<Rightarrow> scheduler_task list \<times> scheduler" where
  "rs_expire now_ns s =
     (let (expired, stats) = om_loop_state (expire_task now_ns) ([], rs_stats s) (rs_tasks s)
      in (expired, s\<lparr>rs_tasks := om_loop (expire_task now_ns) ([], rs_stats s) (rs_tasks s),
                     rs_stats := stats\<rparr>))"

definition rs_clear_completed :: "scheduler \<Rightarrow> scheduler" where
  "rs_clear_completed s = s\<lparr>rs_tasks := om_filter (\<lambda>_ r. \<not> is_terminal (tr_state r)) (rs_tasks s)\<rparr>"

definition rs_reset :: "scheduler \<Rightarrow> scheduler" where
  "rs_reset s =
     s\<lparr>rs_tasks := om_empty, rs_running_by_device := om_empty,
       rs_stats := scheduler_stats_default, rs_next_id := 1\<rparr>"

section \<open>Text output\<close>

fun scheduler_task_kind_name :: "task_kind \<Rightarrow> string" where
  "scheduler_task_kind_name TK_ingest = ''ingest''"
| "scheduler_task_kind_name TK_batch = ''batch''"
| "scheduler_task_kind_name TK_dispatch = ''dispatch''"
| "scheduler_task_kind_name TK_maintenance = ''maintenance''"
| "scheduler_task_kind_name TK_control = ''control''"

fun scheduler_task_state_name :: "task_state \<Rightarrow> string" where
  "scheduler_task_state_name TS_queued = ''queued''"
| "scheduler_task_state_name TS_running = ''running''"
| "scheduler_task_state_name TS_completed = ''completed''"
| "scheduler_task_state_name TS_cancelled = ''cancelled''"
| "scheduler_task_state_name TS_expired = ''expired''"

fun scheduler_pick_reason_name :: "pick_reason \<Rightarrow> string" where
  "scheduler_pick_reason_name PR_none = ''none''"
| "scheduler_pick_reason_name PR_ready = ''ready''"
| "scheduler_pick_reason_name PR_deadline = ''deadline''"
| "scheduler_pick_reason_name PR_priority = ''priority''"
| "scheduler_pick_reason_name PR_fairness = ''fairness''"

definition render_scheduler_snapshot :: "scheduler_snapshot \<Rightarrow> string" where
  "render_scheduler_snapshot snapshot =
     ''runtime_scheduler'' @ newline @
     ''  queued: '' @ dec_nat (ssn_queued snapshot) @ newline @
     ''  running: '' @ dec_nat (ssn_running snapshot) @ newline @
     ''  enqueued: '' @ dec (ss_enqueued (ssn_stats snapshot)) @ newline @
     ''  leased: '' @ dec (ss_leased (ssn_stats snapshot)) @ newline @
     ''  completed: '' @ dec (ss_completed (ssn_stats snapshot)) @ newline @
     ''  cancelled: '' @ dec (ss_cancelled (ssn_stats snapshot)) @ newline @
     ''  expired: '' @ dec (ss_expired (ssn_stats snapshot)) @ newline @
     ''  retried: '' @ dec (ss_retried (ssn_stats snapshot)) @ newline @
     concat (map (\<lambda>task.
       ''  task: id='' @ dec (sk_id (snt_task task)) @ '' device='' @ dec (sk_device (snt_task task)) @
       '' kind='' @ scheduler_task_kind_name (sk_kind (snt_task task)) @
       '' state='' @ scheduler_task_state_name (snt_state task) @
       '' attempts='' @ dec (snt_attempts task) @
       '' label='' @ dquote @ sk_label (snt_task task) @ dquote @ newline) (ssn_tasks snapshot))"

section \<open>Calls\<close>

datatype scheduler_call =
    RS_enqueue scheduler_task
  | RS_lease u64
  | RS_lease_many u64 nat
  | RS_complete scheduler_completion
  | RS_cancel task_id string
  | RS_expire u64
  | RS_clear_completed
  | RS_reset

fun rs_step :: "scheduler_call \<Rightarrow> scheduler \<Rightarrow> scheduler" where
  "rs_step (RS_enqueue task) s = snd (rs_enqueue task s)"
| "rs_step (RS_lease now_ns) s = snd (rs_lease_next now_ns s)"
| "rs_step (RS_lease_many now_ns n) s = snd (rs_lease_many now_ns n s)"
| "rs_step (RS_complete completion) s = snd (rs_complete completion s)"
| "rs_step (RS_cancel tid note_text) s = snd (rs_cancel tid note_text s)"
| "rs_step (RS_expire now_ns) s = snd (rs_expire now_ns s)"
| "rs_step RS_clear_completed s = rs_clear_completed s"
| "rs_step RS_reset s = rs_reset s"

end
