(* ===== verification/Scheduler_Laws.thy ===== *)
theory Scheduler_Laws
  imports Scheduler
begin

text \<open>
  The scheduler's bookkeeping: the running count of each device is exact and within its burst,
  leasing stops only when nothing is eligible, and tasks move through their states as they should.
\<close>

section \<open>Running tasks per device\<close>

definition runs_on :: "device_id \<Rightarrow> task_id \<Rightarrow> task_record \<Rightarrow> bool" where
  "runs_on device tid r \<longleftrightarrow> tr_state r = TS_running \<and> sk_device (tr_task r) = device"

abbreviation running_tasks :: "device_id \<Rightarrow> scheduler \<Rightarrow> nat" where
  "running_tasks device s \<equiv> om_count (runs_on device) (rs_tasks s)"

abbreviation burst_limit :: "scheduler \<Rightarrow> nat" where
  "burst_limit s \<equiv> max 1 (unat (scf_per_device_burst (rs_config s)))"

definition counts_exact :: "scheduler \<Rightarrow> bool" where
  "counts_exact s \<longleftrightarrow>
     (\<forall>device.
        unat (om_get 0 (rs_running_by_device s) device) = running_tasks device s \<and>
        running_tasks device s \<le> burst_limit s)"

definition keys_are_ids :: "scheduler \<Rightarrow> bool" where
  "keys_are_ids s \<longleftrightarrow> (\<forall>tid r. om_lookup (rs_tasks s) tid = Some r \<longrightarrow> sk_id (tr_task r) = tid)"

definition scheduler_inv :: "nat \<Rightarrow> scheduler \<Rightarrow> bool" where
  "scheduler_inv n s \<longleftrightarrow> below_next n (rs_next_id s) (rs_tasks s) \<and> counts_exact s \<and> keys_are_ids s"

lemma rs_count_simps [simp]:
  "rs_tasks (rs_count f s) = rs_tasks s" "rs_config (rs_count f s) = rs_config s"
  "rs_running_by_device (rs_count f s) = rs_running_by_device s" "rs_next_id (rs_count f s) = rs_next_id s"
  by (simp_all add: rs_count_def)

lemma rs_put_simps [simp]:
  "rs_tasks (rs_put tid r s) = om_update tid r (rs_tasks s)" "rs_config (rs_put tid r s) = rs_config s"
  "rs_running_by_device (rs_put tid r s) = rs_running_by_device s" "rs_next_id (rs_put tid r s) = rs_next_id s"
  by (simp_all add: rs_put_def)

lemma task_note_simps [simp]:
  "tr_task (task_note m r) = tr_task r" "tr_state (task_note m r) = tr_state r"
  "tr_attempts (task_note m r) = tr_attempts r"
  by (simp_all add: task_note_def)

lemma leased_record_simps [simp]:
  "tr_task (leased_record t r) = tr_task r" "tr_state (leased_record t r) = TS_running"
  "tr_attempts (leased_record t r) = tr_attempts r + 1"
  by (simp_all add: leased_record_def)

lemma fresh_task_simps [simp]:
  "tr_task (fresh_task task) = task" "tr_state (fresh_task task) = TS_queued" "tr_attempts (fresh_task task) = 0"
  by (simp_all add: fresh_task_def)

lemma release_simps [simp]:
  "rs_tasks (rs_release_device d s) = rs_tasks s" "rs_config (rs_release_device d s) = rs_config s"
  "rs_next_id (rs_release_device d s) = rs_next_id s"
  by (simp_all add: rs_release_device_def split: option.split)

lemma record_lease_simps [simp]:
  "rs_tasks (rs_record_lease tid r t s) = om_update tid (leased_record t r) (rs_tasks s)"
  "rs_config (rs_record_lease tid r t s) = rs_config s"
  "rs_next_id (rs_record_lease tid r t s) = rs_next_id s"
  "rs_running_by_device (rs_record_lease tid r t s) =
     om_update (sk_device (tr_task r)) (om_get 0 (rs_running_by_device s) (sk_device (tr_task r)) + 1)
       (rs_running_by_device s)"
  by (simp_all add: rs_record_lease_def Let_def)

lemma counts_exactD:
  assumes "counts_exact s"
  shows "unat (om_get 0 (rs_running_by_device s) d) = running_tasks d s"
    and "running_tasks d s \<le> burst_limit s"
  using assms by (simp_all add: counts_exact_def)

lemma counts_exact_cong:
  assumes "counts_exact s" and "rs_running_by_device s' = rs_running_by_device s"
    and "rs_config s' = rs_config s" and "\<And>d. running_tasks d s' = running_tasks d s"
  shows "counts_exact s'"
  using assms by (simp add: counts_exact_def)

text \<open>Replacing an entry that does not run by one that does not run.\<close>

lemma running_put_idle:
  assumes "\<And>r'. om_lookup (rs_tasks s) tid = Some r' \<Longrightarrow> tr_state r' \<noteq> TS_running"
    and "tr_state r \<noteq> TS_running"
  shows "om_count (runs_on d) (om_update tid r (rs_tasks s)) = running_tasks d s"
proof -
  have "\<not> holds_at (runs_on d) (rs_tasks s) tid" "\<not> runs_on d tid r"
    using assms by (auto simp: holds_at_def runs_on_def)
  with om_count_update [of "runs_on d" tid r "rs_tasks s"] show ?thesis by simp
qed

text \<open>A lease adds one on the task's device, a release takes one away.\<close>

lemma counts_exact_lease:
  assumes "counts_exact s" and "om_lookup (rs_tasks s) tid = Some r" and "tr_state r \<noteq> TS_running"
    and "device_burst_available (sk_device (tr_task r)) s"
  shows "counts_exact (rs_record_lease tid r t s)"
proof -
  let ?d = "sk_device (tr_task r)"
  have room: "running_tasks ?d s < burst_limit s"
    using assms(4) counts_exactD(1) [OF assms(1), of ?d]
    by (auto simp: device_burst_available_def om_get_def word_less_nat_alt split: option.splits)
  have new: "om_count (runs_on d) (om_update tid (leased_record t r) (rs_tasks s)) =
      running_tasks d s + of_bool (d = ?d)" for d
    using om_count_update [of "runs_on d" tid "leased_record t r" "rs_tasks s"] assms(2,3)
    by (auto simp: holds_at_def runs_on_def)
  have "unat (om_get 0 (rs_running_by_device s) ?d + 1) = Suc (running_tasks ?d s)"
    using room counts_exactD(1) [OF assms(1), of ?d] unat_below [of "scf_per_device_burst (rs_config s)"]
    by (simp add: unat_word_ariths)
  then show ?thesis
    using room counts_exactD [OF assms(1)] unfolding counts_exact_def by (auto simp: new)
qed

lemma counts_exact_release:
  assumes "counts_exact s" and "om_lookup (rs_tasks s) tid = Some r" and "tr_state r = TS_running"
    and "tr_state r' \<noteq> TS_running"
  shows "counts_exact (rs_put tid r' (rs_release_device (sk_device (tr_task r)) s))"
proof -
  let ?d = "sk_device (tr_task r)" and ?s = "rs_put tid r' (rs_release_device (sk_device (tr_task r)) s)"
  have new: "om_count (runs_on d) (om_update tid r' (rs_tasks s)) + of_bool (d = ?d) = running_tasks d s" for d
    using om_count_update [of "runs_on d" tid r' "rs_tasks s"] assms(2-)
    by (auto simp: holds_at_def runs_on_def)
  have pos: "0 < running_tasks ?d s"
    using new [of ?d] by simp
  obtain c where c: "om_lookup (rs_running_by_device s) ?d = Some c" "unat c = running_tasks ?d s"
    using pos counts_exactD(1) [OF assms(1), of ?d] by (auto simp: om_get_def split: option.splits)
  have dec: "unat (c - 1) = running_tasks ?d s - 1" if "\<not> c \<le> 1"
    using that c(2) by (simp add: unat_sub word_le_nat_alt)
  have one: "running_tasks ?d s = 1" if "c \<le> 1"
    using that c(2) pos by (simp add: word_le_nat_alt)
  have get: "unat (om_get 0 (rs_running_by_device (rs_release_device ?d s)) d) =
      (if d = ?d then running_tasks d s - 1 else running_tasks d s)" for d
    using one dec counts_exactD(1) [OF assms(1), of d] by (simp add: rs_release_device_def c)
  show ?thesis
    unfolding counts_exact_def
  proof
    fix d
    show "unat (om_get 0 (rs_running_by_device ?s) d) = running_tasks d ?s \<and> running_tasks d ?s \<le> burst_limit ?s"
      using get [of d] new [of d] counts_exactD(2) [OF assms(1), of d] by auto
  qed
qed

section \<open>Selection\<close>

lemma select_loop_None:
  "select_loop t s best ps = None \<longleftrightarrow> best = None \<and> (\<forall>p \<in> set ps. \<not> eligible t s (snd p))"
proof (induction ps arbitrary: best)
  case (Cons p ps)
  then show ?case by (cases p; cases best) (simp_all del: not_None_eq)
qed simp

lemma select_loop_Some:
  "select_loop t s best ps = Some x \<Longrightarrow> best = Some x \<or> (x \<in> set ps \<and> eligible t s (snd x))"
proof (induction ps arbitrary: best)
  case (Cons p ps)
  then show ?case by (cases p; cases best) (force split: if_splits)+
qed simp

lemma rs_select_None:
  "rs_select t s = None \<longleftrightarrow> (\<forall>tid r. om_lookup (rs_tasks s) tid = Some r \<longrightarrow> \<not> eligible t s r)"
  by (force simp: rs_select_def select_loop_None om_mem_entries [symmetric])

lemma rs_select_Some:
  assumes "rs_select t s = Some (tid, r)"
  shows "om_lookup (rs_tasks s) tid = Some r" and "eligible t s r"
  using select_loop_Some [of t s None "om_entries (rs_tasks s)" "(tid, r)"] assms
  by (simp_all add: rs_select_def om_mem_entries)

lemma rs_lease_next_cases:
  obtains (nothing) "rs_lease_next t s = (None, s)"
      "\<And>tid r. om_lookup (rs_tasks s) tid = Some r \<Longrightarrow> \<not> eligible t s r"
  | (leased) tid r f where "om_lookup (rs_tasks s) tid = Some r" "eligible t s r"
      "fst (rs_lease_next t s) = Some \<lparr>sl_task = tr_task r, sl_reason = rs_pick_reason r t s, sl_lease_time_ns = t\<rparr>"
      "snd (rs_lease_next t s) = rs_count f (rs_record_lease tid r t s)"
proof (cases "rs_select t s")
  case None
  then have "rs_lease_next t s = (None, s)" by (simp add: rs_lease_next_def)
  then show thesis by (rule nothing) (use None in \<open>auto simp: rs_select_None\<close>)
next
  case (Some x)
  obtain tid r where "x = (tid, r)" by (cases x)
  with Some have select: "rs_select t s = Some (tid, r)" by simp
  show thesis
    by (rule leased [OF rs_select_Some [OF select]]) (simp_all add: rs_lease_next_def select)
qed

section \<open>The invariant\<close>

lemma scheduler_invI:
  "below_next n (rs_next_id s) (rs_tasks s) \<Longrightarrow> counts_exact s \<Longrightarrow> keys_are_ids s \<Longrightarrow> scheduler_inv n s"
  by (simp add: scheduler_inv_def)

lemma below_next_put:
  "below_next n k m \<Longrightarrow> om_lookup m tid = Some r \<Longrightarrow> below_next n k (om_update tid r' m)"
  by (auto simp: below_next_def split: if_splits)

lemma below_next_Suc: "below_next n k m \<Longrightarrow> below_next (Suc n) k m"
  by (auto simp: below_next_def)

lemma keys_are_ids_put:
  "keys_are_ids s \<Longrightarrow> sk_id (tr_task r) = tid \<Longrightarrow> rs_tasks s' = om_update tid r (rs_tasks s) \<Longrightarrow> keys_are_ids s'"
  by (simp add: keys_are_ids_def)

lemma inv_lease_next: "scheduler_inv n s \<Longrightarrow> scheduler_inv n (snd (rs_lease_next t s))"
proof (cases rule: rs_lease_next_cases [of t s])
  case (leased tid r f)
  assume inv: "scheduler_inv n s"
  then have "counts_exact (rs_record_lease tid r t s)"
    using leased(1,2) by (intro counts_exact_lease) (auto simp: scheduler_inv_def eligible_def)
  then have "counts_exact (rs_count f (rs_record_lease tid r t s))"
    by (rule counts_exact_cong) simp_all
  with inv leased(1) show ?thesis
    unfolding leased(4) scheduler_inv_def
    by (simp add: below_next_put) (simp add: keys_are_ids_def)
qed simp

lemma inv_lease_many: "scheduler_inv n s \<Longrightarrow> scheduler_inv n (snd (rs_lease_many t k s))"
proof (induction k arbitrary: s)
  case (Suc k)
  show ?case
    using inv_lease_next [OF Suc.prems, of t] Suc.IH [of "snd (rs_lease_next t s)"]
    by (auto simp: split_beta split: prod.split option.split)
qed simp

lemma rs_assign_id_identity:
  "fst (rs_assign_id task s) = fst (assign_identity (rs_next_id s) (sk_id task))"
  "rs_next_id (snd (rs_assign_id task s)) = snd (assign_identity (rs_next_id s) (sk_id task))"
  "rs_tasks (snd (rs_assign_id task s)) = rs_tasks s" "rs_config (snd (rs_assign_id task s)) = rs_config s"
  "rs_running_by_device (snd (rs_assign_id task s)) = rs_running_by_device s"
  by (simp_all add: rs_assign_id_def rs_take_next_id_def assign_identity_def)

lemma rs_enqueue_cases:
  obtains (refused) f where "snd (rs_enqueue task s) = s \<or> snd (rs_enqueue task s) = rs_count f s"
  | (added) "rs_tasks (snd (rs_enqueue task s)) =
        om_update (fst (rs_assign_id task s)) (fresh_task (task\<lparr>sk_id := fst (rs_assign_id task s)\<rparr>)) (rs_tasks s)"
      "rs_next_id (snd (rs_enqueue task s)) = rs_next_id (snd (rs_assign_id task s))"
      "rs_running_by_device (snd (rs_enqueue task s)) = rs_running_by_device s"
      "rs_config (snd (rs_enqueue task s)) = rs_config s"
      "sk_id task \<noteq> 0 \<Longrightarrow> om_lookup (rs_tasks s) (sk_id task) = None"
proof (cases "om_size (rs_tasks s) \<ge> scf_max_tasks (rs_config s) \<or>
    (scf_reject_duplicate_labels (rs_config s) \<and> rs_duplicate_label task s) \<or>
    (sk_id task \<noteq> 0 \<and> om_lookup (rs_tasks s) (sk_id task) \<noteq> None)")
  case True
  then show thesis by (intro refused [of count_duplicate_task]) (auto simp: rs_enqueue_def)
next
  case False
  then have "rs_enqueue task s =
      (Inr (fst (rs_assign_id task s)),
       rs_count (\<lambda>stats. stats\<lparr>ss_enqueued := ss_enqueued stats + 1\<rparr>)
         ((snd (rs_assign_id task s))\<lparr>rs_tasks := om_update (fst (rs_assign_id task s))
            (fresh_task (task\<lparr>sk_id := fst (rs_assign_id task s)\<rparr>)) (rs_tasks s)\<rparr>))"
    unfolding rs_enqueue_def Let_def split_beta rs_assign_id_identity(3) by presburger
  with False show thesis by (intro added) (auto simp: rs_assign_id_identity)
qed

lemma inv_enqueue:
  assumes "scheduler_inv n s" and "n < id_limit" and "unat (sk_id task) < id_limit"
  shows "scheduler_inv (Suc n) (snd (rs_enqueue task s))"
proof (cases rule: rs_enqueue_cases [of task s])
  case (refused f)
  moreover have "scheduler_inv (Suc n) s"
    using assms(1) by (simp add: scheduler_inv_def below_next_Suc)
  moreover from this have "scheduler_inv (Suc n) (rs_count f s)"
    by (simp add: scheduler_inv_def counts_exact_def keys_are_ids_def)
  ultimately show ?thesis by auto
next
  case added
  let ?tid = "fst (rs_assign_id task s)" and ?s = "snd (rs_enqueue task s)"
  have below: "below_next n (rs_next_id s) (rs_tasks s)" and exact: "counts_exact s" and keys: "keys_are_ids s"
    using assms(1) by (simp_all add: scheduler_inv_def)
  note fresh = assign_identity_fresh [OF below assms(2,3) added(5)]
  show ?thesis
  proof (rule scheduler_invI)
    show "below_next (Suc n) (rs_next_id ?s) (rs_tasks ?s)"
      using fresh(2) by (simp add: added rs_assign_id_identity)
    show "counts_exact ?s"
      using exact added(3,4)
    proof (rule counts_exact_cong)
      show "running_tasks d ?s = running_tasks d s" for d
        unfolding added(1) by (rule running_put_idle) (simp_all add: fresh(1) rs_assign_id_identity)
    qed
    show "keys_are_ids ?s"
      by (rule keys_are_ids_put [OF keys _ added(1)]) simp
  qed
qed

lemma inv_release:
  assumes "scheduler_inv n s" and "om_lookup (rs_tasks s) tid = Some r" and "tr_state r = TS_running"
    and "tr_state r' \<noteq> TS_running" and "sk_id (tr_task r') = sk_id (tr_task r)"
  shows "scheduler_inv n (rs_count f (rs_put tid r' (rs_release_device (sk_device (tr_task r)) s)))"
proof -
  have "counts_exact (rs_put tid r' (rs_release_device (sk_device (tr_task r)) s))"
    using assms by (intro counts_exact_release) (simp_all add: scheduler_inv_def)
  then have "counts_exact (rs_count f (rs_put tid r' (rs_release_device (sk_device (tr_task r)) s)))"
    by (rule counts_exact_cong) simp_all
  with assms show ?thesis
    by (simp add: scheduler_inv_def below_next_put) (simp add: keys_are_ids_def)
qed

lemma inv_put_idle:
  assumes "scheduler_inv n s" and "om_lookup (rs_tasks s) tid = Some r" and "tr_state r \<noteq> TS_running"
    and "tr_state r' \<noteq> TS_running" and "sk_id (tr_task r') = sk_id (tr_task r)"
  shows "scheduler_inv n (rs_count f (rs_put tid r' s))"
proof (rule scheduler_invI)
  show "counts_exact (rs_count f (rs_put tid r' s))"
  proof (rule counts_exact_cong)
    show "counts_exact s" using assms(1) by (simp add: scheduler_inv_def)
    show "running_tasks d (rs_count f (rs_put tid r' s)) = running_tasks d s" for d
      using running_put_idle [of s tid r' d] assms(2-4) by simp
  qed simp_all
  show "below_next n (rs_next_id (rs_count f (rs_put tid r' s))) (rs_tasks (rs_count f (rs_put tid r' s)))"
    using assms(1,2) by (simp add: scheduler_inv_def below_next_put)
  show "keys_are_ids (rs_count f (rs_put tid r' s))"
    using assms(1,2,5) by (simp add: scheduler_inv_def keys_are_ids_def)
qed

lemma inv_complete: "scheduler_inv n s \<Longrightarrow> scheduler_inv n (snd (rs_complete completion s))"
  by (auto simp: rs_complete_def Let_def intro!: inv_release split: option.split)

lemma inv_cancel: "scheduler_inv n s \<Longrightarrow> scheduler_inv n (snd (rs_cancel tid m s))"
proof (cases "om_lookup (rs_tasks s) tid")
  case (Some r)
  assume "scheduler_inv n s"
  note inv = this Some
  show ?thesis
  proof (cases "tr_state r = TS_running")
    case True
    with inv show ?thesis by (auto simp: rs_cancel_def Let_def intro!: inv_release)
  next
    case False
    with inv show ?thesis by (auto simp: rs_cancel_def Let_def intro!: inv_put_idle [of _ _ _ r])
  qed
qed (simp add: rs_cancel_def)

definition expire_record :: "u64 \<Rightarrow> task_record \<Rightarrow> task_record" where
  "expire_record now_ns r =
     (if tr_state r = TS_queued \<and> sk_deadline_ns (tr_task r) \<noteq> 0 \<and> now_ns > sk_deadline_ns (tr_task r)
      then task_note ''task expired before lease'' (r\<lparr>tr_state := TS_expired\<rparr>) else r)"

lemma rs_expire_simps:
  "rs_tasks (snd (rs_expire t s)) = om_map (\<lambda>_. expire_record t) (rs_tasks s)"
  "rs_config (snd (rs_expire t s)) = rs_config s" "rs_next_id (snd (rs_expire t s)) = rs_next_id s"
  "rs_running_by_device (snd (rs_expire t s)) = rs_running_by_device s"
proof -
  have "om_loop (expire_task t) x (rs_tasks s) = om_map (\<lambda>_. expire_record t) (rs_tasks s)" for x
    by (rule om_loop_map) (simp add: expire_task_def expire_record_def split_beta)
  then show "rs_tasks (snd (rs_expire t s)) = om_map (\<lambda>_. expire_record t) (rs_tasks s)"
    by (simp add: rs_expire_def split_beta)
qed (simp_all add: rs_expire_def split_beta)

lemma expire_record_simps [simp]:
  "tr_task (expire_record t r) = tr_task r" "tr_attempts (expire_record t r) = tr_attempts r"
  "tr_state (expire_record t r) = TS_running \<longleftrightarrow> tr_state r = TS_running"
  by (simp_all add: expire_record_def)

lemma inv_expire:
  assumes "scheduler_inv n s"
  shows "scheduler_inv (Suc n) (snd (rs_expire t s))"
proof (rule scheduler_invI)
  show "counts_exact (snd (rs_expire t s))"
  proof (rule counts_exact_cong)
    show "counts_exact s" using assms by (simp add: scheduler_inv_def)
    show "running_tasks d (snd (rs_expire t s)) = running_tasks d s" for d
      by (rule om_count_cong) (auto simp: rs_expire_simps runs_on_def)
  qed (simp_all add: rs_expire_simps)
  show "below_next (Suc n) (rs_next_id (snd (rs_expire t s))) (rs_tasks (snd (rs_expire t s)))"
    using assms by (auto simp: rs_expire_simps scheduler_inv_def below_next_def)
  show "keys_are_ids (snd (rs_expire t s))"
    using assms by (auto simp: rs_expire_simps scheduler_inv_def keys_are_ids_def)
qed

lemma lookup_clear_completed:
  "om_lookup (rs_tasks (rs_clear_completed s)) tid = Some r \<longleftrightarrow>
   om_lookup (rs_tasks s) tid = Some r \<and> \<not> is_terminal (tr_state r)"
  by (auto simp: rs_clear_completed_def om_lookup_filter split: option.splits)

lemma rs_clear_simps [simp]:
  "rs_config (rs_clear_completed s) = rs_config s" "rs_next_id (rs_clear_completed s) = rs_next_id s"
  "rs_running_by_device (rs_clear_completed s) = rs_running_by_device s"
  by (simp_all add: rs_clear_completed_def)

lemma inv_clear_completed:
  assumes "scheduler_inv n s"
  shows "scheduler_inv (Suc n) (rs_clear_completed s)"
proof (rule scheduler_invI)
  show "counts_exact (rs_clear_completed s)"
  proof (rule counts_exact_cong)
    show "counts_exact s" using assms by (simp add: scheduler_inv_def)
    show "running_tasks d (rs_clear_completed s) = running_tasks d s" for d
      by (rule om_count_cong) (auto simp: lookup_clear_completed runs_on_def)
  qed simp_all
  show "below_next (Suc n) (rs_next_id (rs_clear_completed s)) (rs_tasks (rs_clear_completed s))"
    using assms by (auto simp: lookup_clear_completed scheduler_inv_def intro: below_next_mono)
  show "keys_are_ids (rs_clear_completed s)"
    using assms by (auto simp: lookup_clear_completed scheduler_inv_def keys_are_ids_def)
qed

lemma inv_empty:
  "rs_tasks s = om_empty \<Longrightarrow> rs_running_by_device s = om_empty \<Longrightarrow> rs_next_id s = 1 \<Longrightarrow> scheduler_inv n s"
  by (simp add: scheduler_inv_def counts_exact_def keys_are_ids_def om_get_def)

lemma scheduler_inv_Suc: "scheduler_inv n s \<Longrightarrow> scheduler_inv (Suc n) s"
  by (simp add: scheduler_inv_def below_next_Suc)

fun low_task :: "scheduler_call \<Rightarrow> bool" where
  "low_task (RS_enqueue task) \<longleftrightarrow> unat (sk_id task) < id_limit"
| "low_task _ \<longleftrightarrow> True"

lemma scheduler_inv_step:
  "scheduler_inv n s \<Longrightarrow> n < id_limit \<Longrightarrow> low_task c \<Longrightarrow> scheduler_inv (Suc n) (rs_step c s)"
  by (cases c)
    (simp_all add: inv_enqueue inv_expire inv_clear_completed scheduler_inv_Suc inv_lease_next inv_lease_many
      inv_complete inv_cancel, simp add: inv_empty rs_reset_def)

interpretation scheduler_runs: counted_machine "rs_init config" "rs_step" scheduler_inv low_task id_limit
  by unfold_locales (simp add: inv_empty rs_init_def, rule scheduler_inv_step)

section \<open>Leasing several tasks\<close>

lemma lease_many_work_conserving:
  "length (fst (rs_lease_many t k s)) = k \<or>
   (\<forall>tid r. om_lookup (rs_tasks (snd (rs_lease_many t k s))) tid = Some r \<longrightarrow>
      \<not> eligible t (snd (rs_lease_many t k s)) r)"
proof (induction k arbitrary: s)
  case (Suc k)
  show ?case
  proof (cases rule: rs_lease_next_cases [of t s])
    case nothing
    then show ?thesis by simp
  next
    case (leased tid r f)
    with Suc.IH [of "snd (rs_lease_next t s)"] show ?thesis
      by (cases "rs_lease_next t s") (simp add: split_beta)
  qed
qed simp

definition queued_ids :: "scheduler \<Rightarrow> task_id set" where
  "queued_ids s = {tid. \<exists>r. om_lookup (rs_tasks s) tid = Some r \<and> tr_state r = TS_queued}"

lemma lease_many_distinct:
  "keys_are_ids s \<Longrightarrow>
   distinct (map (\<lambda>l. sk_id (sl_task l)) (fst (rs_lease_many t k s))) \<and>
   (\<lambda>l. sk_id (sl_task l)) ` set (fst (rs_lease_many t k s)) \<subseteq> queued_ids s"
proof (induction k arbitrary: s)
  case (Suc k)
  show ?case
  proof (cases rule: rs_lease_next_cases [of t s])
    case nothing
    then show ?thesis by simp
  next
    case (leased tid r f)
    let ?s = "snd (rs_lease_next t s)"
    have tid: "sk_id (tr_task r) = tid"
      using Suc.prems leased(1) by (simp add: keys_are_ids_def)
    have "keys_are_ids ?s"
      using Suc.prems tid unfolding leased(4) by (simp add: keys_are_ids_def)
    note IH = Suc.IH [OF this]
    have "queued_ids ?s = queued_ids s - {tid}"
      unfolding leased(4) by (auto simp: queued_ids_def split: if_splits)
    moreover have "tid \<in> queued_ids s"
      using leased(1,2) by (auto simp: queued_ids_def eligible_def)
    moreover have "rs_lease_many t (Suc k) s =
        (\<lparr>sl_task = tr_task r, sl_reason = rs_pick_reason r t s, sl_lease_time_ns = t\<rparr> # fst (rs_lease_many t k ?s),
         snd (rs_lease_many t k ?s))"
      using leased(3) by (cases "rs_lease_next t s") (simp add: split_beta)
    ultimately show ?thesis using IH tid by auto
  qed
qed simp

lemma lease_many_keeps_running:
  "om_lookup (rs_tasks s) tid = Some r \<Longrightarrow> tr_state r = TS_running \<Longrightarrow>
   om_lookup (rs_tasks (snd (rs_lease_many t k s))) tid = Some r"
proof (induction k arbitrary: s)
  case (Suc k)
  show ?case
  proof (cases rule: rs_lease_next_cases [of t s])
    case nothing
    with Suc.prems show ?thesis by simp
  next
    case (leased tid' r' f)
    have "om_lookup (rs_tasks (snd (rs_lease_next t s))) tid = Some r"
      using Suc.prems leased(1,2) unfolding leased(4) by (auto simp: eligible_def)
    from Suc.IH [OF this Suc.prems(2)] leased(3) show ?thesis
      by (cases "rs_lease_next t s") (simp add: split_beta)
  qed
qed simp

lemma lease_many_run:
  "keys_are_ids s \<Longrightarrow> l \<in> set (fst (rs_lease_many t k s)) \<Longrightarrow>
   \<exists>r. om_lookup (rs_tasks (snd (rs_lease_many t k s))) (sk_id (sl_task l)) = Some r \<and>
     tr_state r = TS_running \<and> tr_task r = sl_task l"
proof (induction k arbitrary: s)
  case (Suc k)
  show ?case
  proof (cases rule: rs_lease_next_cases [of t s])
    case nothing
    with Suc.prems show ?thesis by simp
  next
    case (leased tid r f)
    let ?s = "snd (rs_lease_next t s)"
    have tid: "sk_id (tr_task r) = tid"
      using Suc.prems(1) leased(1) by (simp add: keys_are_ids_def)
    have keys: "keys_are_ids ?s"
      using Suc.prems(1) tid unfolding leased(4) by (simp add: keys_are_ids_def)
    have many: "rs_lease_many t (Suc k) s =
        (\<lparr>sl_task = tr_task r, sl_reason = rs_pick_reason r t s, sl_lease_time_ns = t\<rparr> # fst (rs_lease_many t k ?s),
         snd (rs_lease_many t k ?s))"
      using leased(3) by (cases "rs_lease_next t s") (simp add: split_beta)
    have "om_lookup (rs_tasks (snd (rs_lease_many t k ?s))) tid = Some (leased_record t r)"
      by (rule lease_many_keeps_running) (simp_all add: leased(4))
    with Suc.IH [OF keys] Suc.prems(2) tid show ?thesis unfolding many by auto
  qed
qed simp

section \<open>Properties\<close>

text \<open>
  C16. Along every run whose explicit identities stay below the limit, the scheduler's count for
  each device is exactly the number of its running tasks, and that is at most the per-device
  burst (one if the burst is zero).
\<close>

theorem running_counts_exact:
  assumes "length cs \<le> id_limit" and "\<forall>c \<in> set cs. low_task c"
  shows "unat (om_get 0 (rs_running_by_device (fold rs_step cs (rs_init config))) device) =
           om_count (runs_on device) (rs_tasks (fold rs_step cs (rs_init config))) \<and>
         om_count (runs_on device) (rs_tasks (fold rs_step cs (rs_init config)))
           \<le> max 1 (unat (scf_per_device_burst (rs_config (fold rs_step cs (rs_init config)))))"
  using scheduler_runs.inv_run [OF assms, of config] unfolding scheduler_inv_def counts_exact_def by blast

definition sample_task :: scheduler_task where
  "sample_task = scheduler_task_default\<lparr>sk_device := 7\<rparr>"

lemma running_counts_exact_witness:
  "unat (om_get 0 (rs_running_by_device (fold rs_step [RS_enqueue sample_task, RS_lease 5]
       (rs_init scheduler_config_default))) 7) =
     om_count (runs_on 7) (rs_tasks (fold rs_step [RS_enqueue sample_task, RS_lease 5]
       (rs_init scheduler_config_default)))"
proof -
  have "\<forall>c \<in> set [RS_enqueue sample_task, RS_lease 5]. low_task c"
    by (simp add: sample_task_def scheduler_task_default_def id_limit_def)
  then show ?thesis
    by (intro conjunct1 [OF running_counts_exact]) (simp_all add: id_limit_def)
qed

text \<open>
  Leasing up to \<open>k\<close> tasks hands out distinct tasks that were queued and now run, and stops
  early only when no task is eligible any more: queued, ready, and on a device with burst left.
\<close>

theorem lease_many_correct:
  assumes "length cs \<le> id_limit" and "\<forall>c \<in> set cs. low_task c"
    and "s = fold rs_step cs (rs_init config)" and "rs_lease_many t k s = (leases, s')"
  shows "distinct (map (\<lambda>l. sk_id (sl_task l)) leases) \<and>
    (\<forall>l \<in> set leases.
       (\<exists>r. om_lookup (rs_tasks s) (sk_id (sl_task l)) = Some r \<and> tr_state r = TS_queued) \<and>
       (\<exists>r. om_lookup (rs_tasks s') (sk_id (sl_task l)) = Some r \<and> tr_state r = TS_running \<and>
          tr_task r = sl_task l)) \<and>
    (length leases = k \<or> (\<forall>tid r. om_lookup (rs_tasks s') tid = Some r \<longrightarrow> \<not> eligible t s' r))"
proof -
  have keys: "keys_are_ids s"
    using scheduler_runs.inv_run [OF assms(1,2), of config] assms(3) by (simp add: scheduler_inv_def)
  show ?thesis
    using lease_many_distinct [OF keys, of t k] lease_many_run [OF keys, of _ t k]
      lease_many_work_conserving [of t k s] assms(4)
    by (auto simp: queued_ids_def)
qed

lemma lease_many_correct_witness:
  "distinct (map (\<lambda>l. sk_id (sl_task l)) (fst (rs_lease_many 5 2 (fold rs_step [RS_enqueue sample_task]
     (rs_init scheduler_config_default)))))"
proof -
  have "\<forall>c \<in> set [RS_enqueue sample_task]. low_task c"
    by (simp add: sample_task_def scheduler_task_default_def id_limit_def)
  then show ?thesis
    by (intro conjunct1 [OF lease_many_correct [OF _ _ refl prod.collapse [symmetric]]])
      (simp_all add: id_limit_def)
qed

definition cycle_tasks :: "scheduler_task list" where
  "cycle_tasks =
     [scheduler_task_default\<lparr>sk_device := 1, sk_deadline_ns := 100000000, sk_priority := IP_low\<rparr>,
      scheduler_task_default\<lparr>sk_device := 2, sk_priority := IP_normal\<rparr>,
      scheduler_task_default\<lparr>sk_device := 3, sk_deadline_ns := 200000000, sk_priority := IP_high\<rparr>]"

definition first_device :: "scheduler_task list \<Rightarrow> device_id option" where
  "first_device tasks =
     map_option (\<lambda>l. sk_device (sl_task l))
       (fst (rs_lease_next 0 (fold rs_step (map RS_enqueue tasks) (rs_init scheduler_config_default))))"

text \<open>
  The comparison that selects a task is not transitive: an early deadline beats a late one,
  priority decides when one of the two has no deadline. Of three waiting tasks, the one leased
  first depends on their identities, and a waiting task is preferred to it.
\<close>

theorem selection_cycle:
  "first_device cycle_tasks = Some 3 \<and> first_device (rotate1 cycle_tasks) = Some 1 \<and>
   preferred scheduler_config_default 0 (fresh_task (cycle_tasks ! 0)) (fresh_task (cycle_tasks ! 2)) \<and>
   preferred scheduler_config_default 0 (fresh_task (cycle_tasks ! 1)) (fresh_task (cycle_tasks ! 0)) \<and>
   preferred scheduler_config_default 0 (fresh_task (cycle_tasks ! 2)) (fresh_task (cycle_tasks ! 1))"
  by (simp add: first_device_def cycle_tasks_def rs_lease_next_def rs_select_def rs_enqueue_def rs_init_def
      rs_assign_id_def rs_take_next_id_def rs_duplicate_label_def om_size_def rs_count_def eligible_def
      device_burst_available_def preferred_def due_within_window_def has_deadline_def priority_score_def
      priority_rank_def scheduler_task_default_def scheduler_config_default_def Let_def fresh_task_def
      task_note_def)

end
