(* ===== verification/Manifest_Diff.thy ===== *)
theory Manifest_Diff
  imports "HOL-Library.Char_ord" "HOL-Library.List_Lexorder" Retention Ordered_Map
begin

text \<open>
  The difference of two archive manifests (\<open>src/storage/manifest_diff.cpp\<close>): one entry for a
  changed summary, one per device and per packet kind that was added, removed or changed, one per
  warning that came or went. A signed 64-bit difference is the 64-bit word of the subtraction,
  read with \<open>sint\<close> where it is printed. The locale \<open>keyed_diff\<close> states what the comparison of
  two maps by key owes to the totals of the maps.
\<close>

section \<open>Entries\<close>

datatype manifest_diff_kind =
    MD_summary_changed
  | MD_device_added
  | MD_device_removed
  | MD_device_changed
  | MD_kind_added
  | MD_kind_removed
  | MD_kind_changed
  | MD_warning_added
  | MD_warning_removed

record manifest_diff_entry =
  md_kind :: manifest_diff_kind
  md_key :: string
  md_before :: string
  md_after :: string
  md_record_delta :: u64
  md_payload_delta :: u64

record manifest_diff =
  mf_before :: archive_manifest
  mf_after :: archive_manifest
  mf_entries :: "manifest_diff_entry list"
  mf_record_delta :: u64
  mf_payload_delta :: u64
  mf_device_delta :: u64
  mf_kind_delta :: u64

text \<open>\<open>std::map<PacketKind, ...>\<close> orders its keys by the value of the enumeration.\<close>

instantiation packet_kind :: linorder
begin

definition less_eq_packet_kind :: "packet_kind \<Rightarrow> packet_kind \<Rightarrow> bool" where
  "less_eq_packet_kind a b \<longleftrightarrow> kind_number a \<le> kind_number b"

definition less_packet_kind :: "packet_kind \<Rightarrow> packet_kind \<Rightarrow> bool" where
  "less_packet_kind a b \<longleftrightarrow> kind_number a < kind_number b"

instance
proof
  fix a b :: packet_kind
  show "a \<le> b \<Longrightarrow> b \<le> a \<Longrightarrow> a = b"
    by (cases a; cases b; simp add: less_eq_packet_kind_def word_le_nat_alt)
qed (auto simp: less_eq_packet_kind_def less_packet_kind_def)

end

definition summary_string :: "archive_summary \<Rightarrow> string" where
  "summary_string s =
     ''records='' @ dec (as_record_count s) @ '' first='' @ dec (as_first_time_ns s)
     @ '' last='' @ dec (as_last_time_ns s) @ '' version='' @ dec (as_format_version s)"

definition device_string :: "device_archive_summary \<Rightarrow> string" where
  "device_string d =
     ''device='' @ dec (da_device d) @ '' records='' @ dec (da_record_count d)
     @ '' first='' @ dec (da_first_time_ns d) @ '' last='' @ dec (da_last_time_ns d)
     @ '' payload_bytes='' @ dec (da_total_payload_bytes d)"

definition kind_string :: "packet_kind_count \<Rightarrow> string" where
  "kind_string c = ''kind='' @ packet_kind_name (pk_kind c) @ '' records='' @ dec (pk_count c)"

definition make_entry ::
  "manifest_diff_kind \<Rightarrow> string \<Rightarrow> string \<Rightarrow> string \<Rightarrow> u64 \<Rightarrow> u64 \<Rightarrow> manifest_diff_entry" where
  "make_entry kind key before after record_delta payload_delta =
     \<lparr>md_kind = kind, md_key = key, md_before = before, md_after = after,
      md_record_delta = record_delta, md_payload_delta = payload_delta\<rparr>"

section \<open>Comparing manifests\<close>

definition map_by :: "('v \<Rightarrow> 'k::linorder) \<Rightarrow> 'v list \<Rightarrow> ('k, 'v) omap" where
  "map_by key vs = fold (\<lambda>v m. om_update (key v) v m) vs om_empty"

definition map_devices :: "archive_manifest \<Rightarrow> (device_id, device_archive_summary) omap" where
  "map_devices m = map_by da_device (am_devices m)"

definition map_kinds :: "archive_manifest \<Rightarrow> (packet_kind, packet_kind_count) omap" where
  "map_kinds m = map_by pk_kind (am_packet_kinds m)"

text \<open>A \<open>std::set\<close> filled from a list, in the order it is iterated.\<close>

definition set_of :: "'k::linorder list \<Rightarrow> 'k list" where
  "set_of ks = map fst (om_entries (map_by id ks))"

definition union_keys :: "('k::linorder, 'v) omap \<Rightarrow> ('k, 'v) omap \<Rightarrow> 'k list" where
  "union_keys before after = set_of (map fst (om_entries before) @ map fst (om_entries after))"

definition diff_summary :: "archive_manifest \<Rightarrow> archive_manifest \<Rightarrow> manifest_diff_entry list" where
  "diff_summary before after =
     (let b = am_summary before; a = am_summary after
      in if as_format_version b = as_format_version a \<and> as_record_count b = as_record_count a
            \<and> as_first_time_ns b = as_first_time_ns a \<and> as_last_time_ns b = as_last_time_ns a
         then []
         else [make_entry MD_summary_changed ''summary'' (summary_string b) (summary_string a)
                 (as_record_count a - as_record_count b)
                 (manifest_payload_bytes after - manifest_payload_bytes before)])"

definition device_entry ::
  "device_id \<Rightarrow> device_archive_summary option \<Rightarrow> device_archive_summary option \<Rightarrow> manifest_diff_entry list" where
  "device_entry device before after =
     (case before of
        None \<Rightarrow>
          (case after of
             None \<Rightarrow> []
           | Some a \<Rightarrow> [make_entry MD_device_added (dec device) [] (device_string a)
                         (da_record_count a) (da_total_payload_bytes a)])
      | Some b \<Rightarrow>
          (case after of
             None \<Rightarrow> [make_entry MD_device_removed (dec device) (device_string b) []
                        (- da_record_count b) (- da_total_payload_bytes b)]
           | Some a \<Rightarrow>
               if device_string b \<noteq> device_string a
               then [make_entry MD_device_changed (dec device) (device_string b) (device_string a)
                       (da_record_count a - da_record_count b)
                       (da_total_payload_bytes a - da_total_payload_bytes b)]
               else []))"

definition kind_entry ::
  "packet_kind \<Rightarrow> packet_kind_count option \<Rightarrow> packet_kind_count option \<Rightarrow> manifest_diff_entry list" where
  "kind_entry kind before after =
     (case before of
        None \<Rightarrow>
          (case after of
             None \<Rightarrow> []
           | Some a \<Rightarrow> [make_entry MD_kind_added (packet_kind_name kind) [] (kind_string a) (pk_count a) 0])
      | Some b \<Rightarrow>
          (case after of
             None \<Rightarrow> [make_entry MD_kind_removed (packet_kind_name kind) (kind_string b) [] (- pk_count b) 0]
           | Some a \<Rightarrow>
               if pk_count b \<noteq> pk_count a
               then [make_entry MD_kind_changed (packet_kind_name kind) (kind_string b) (kind_string a)
                       (pk_count a - pk_count b) 0]
               else []))"

definition diff_maps ::
  "('k::linorder \<Rightarrow> 'v option \<Rightarrow> 'v option \<Rightarrow> 'e list) \<Rightarrow> ('k, 'v) omap \<Rightarrow> ('k, 'v) omap \<Rightarrow> 'e list" where
  "diff_maps entry before after =
     concat (map (\<lambda>k. entry k (om_lookup before k) (om_lookup after k)) (union_keys before after))"

definition diff_devices :: "archive_manifest \<Rightarrow> archive_manifest \<Rightarrow> manifest_diff_entry list" where
  "diff_devices before after = diff_maps device_entry (map_devices before) (map_devices after)"

definition diff_kinds :: "archive_manifest \<Rightarrow> archive_manifest \<Rightarrow> manifest_diff_entry list" where
  "diff_kinds before after = diff_maps kind_entry (map_kinds before) (map_kinds after)"

definition diff_warnings :: "archive_manifest \<Rightarrow> archive_manifest \<Rightarrow> manifest_diff_entry list" where
  "diff_warnings before after =
     (let b = set_of (am_warnings before); a = set_of (am_warnings after)
      in map (\<lambda>w. make_entry MD_warning_removed w w [] 0 0) (filter (\<lambda>w. w \<notin> set a) b)
         @ map (\<lambda>w. make_entry MD_warning_added w [] w 0 0) (filter (\<lambda>w. w \<notin> set b) a))"

definition diff_archive_manifests :: "archive_manifest \<Rightarrow> archive_manifest \<Rightarrow> manifest_diff" where
  "diff_archive_manifests before after =
     \<lparr>mf_before = before, mf_after = after,
      mf_entries = diff_summary before after @ diff_devices before after
        @ diff_kinds before after @ diff_warnings before after,
      mf_record_delta = as_record_count (am_summary after) - as_record_count (am_summary before),
      mf_payload_delta = manifest_payload_bytes after - manifest_payload_bytes before,
      mf_device_delta = of_nat (length (am_devices after)) - of_nat (length (am_devices before)),
      mf_kind_delta = of_nat (length (am_packet_kinds after)) - of_nat (length (am_packet_kinds before))\<rparr>"

definition manifest_diff_empty :: "manifest_diff \<Rightarrow> bool" where
  "manifest_diff_empty diff = (mf_entries diff = [])"

definition manifest_diff_entries_by_kind :: "manifest_diff \<Rightarrow> manifest_diff_kind \<Rightarrow> manifest_diff_entry list" where
  "manifest_diff_entries_by_kind diff kind = filter (\<lambda>e. md_kind e = kind) (mf_entries diff)"

section \<open>Rendering\<close>

definition manifest_diff_kind_name :: "manifest_diff_kind \<Rightarrow> string" where
  "manifest_diff_kind_name kind = (case kind of
     MD_summary_changed \<Rightarrow> ''summary_changed''
   | MD_device_added \<Rightarrow> ''device_added''
   | MD_device_removed \<Rightarrow> ''device_removed''
   | MD_device_changed \<Rightarrow> ''device_changed''
   | MD_kind_added \<Rightarrow> ''kind_added''
   | MD_kind_removed \<Rightarrow> ''kind_removed''
   | MD_kind_changed \<Rightarrow> ''kind_changed''
   | MD_warning_added \<Rightarrow> ''warning_added''
   | MD_warning_removed \<Rightarrow> ''warning_removed'')"

definition dec_signed :: "u64 \<Rightarrow> string" where
  "dec_signed w = (if sint w < 0 then ''-'' @ dec_nat (nat (- sint w)) else dec_nat (nat (sint w)))"

definition render_manifest_diff_entry :: "manifest_diff_entry \<Rightarrow> string" where
  "render_manifest_diff_entry e =
     manifest_diff_kind_name (md_kind e) @ '' key='' @ md_key e
     @ '' record_delta='' @ dec_signed (md_record_delta e)
     @ '' payload_delta='' @ dec_signed (md_payload_delta e)
     @ '' before='' @ dquote @ md_before e @ dquote @ '' after='' @ dquote @ md_after e @ dquote"

definition render_manifest_diff :: "manifest_diff \<Rightarrow> string" where
  "render_manifest_diff diff =
     ''manifest_diff'' @ newline
     @ ''  record_delta: '' @ dec_signed (mf_record_delta diff) @ newline
     @ ''  payload_delta: '' @ dec_signed (mf_payload_delta diff) @ newline
     @ ''  device_delta: '' @ dec_signed (mf_device_delta diff) @ newline
     @ ''  kind_delta: '' @ dec_signed (mf_kind_delta diff) @ newline
     @ concat (map (\<lambda>e. ''  entry: '' @ render_manifest_diff_entry e @ newline) (mf_entries diff))"

section \<open>Maps filled from lists\<close>

lemma lookup_map_by: "om_lookup (map_by key vs) k = find (\<lambda>v. key v = k) (rev vs)"
  by (induction vs rule: rev_induct) (auto simp: map_by_def)

lemma set_of_set [simp]: "set (set_of ks) = set ks"
proof -
  have "k \<in> set (set_of ks) \<longleftrightarrow> om_lookup (map_by id ks) k \<noteq> None" for k
    by (simp add: set_of_def om_keys_lookup)
  then show ?thesis
    by (auto simp: lookup_map_by find_None_iff)
qed

lemma set_of_distinct [simp]: "distinct (set_of ks)"
  by (simp add: set_of_def)

lemma union_keys_set: "k \<in> set (union_keys b a) \<longleftrightarrow> om_lookup b k \<noteq> None \<or> om_lookup a k \<noteq> None"
  by (simp add: union_keys_def om_keys_lookup)

lemma union_keys_distinct [simp]: "distinct (union_keys b a)"
  by (simp add: union_keys_def)

lemma upd_list_mset:
  "k \<notin> fst ` set ps \<Longrightarrow> mset (map snd (upd_list k v ps)) = add_mset v (mset (map snd ps))"
  by (induction k v ps rule: upd_list.induct) auto

lemma values_of_fold:
  assumes "distinct (map key vs)" and "\<And>v. v \<in> set vs \<Longrightarrow> om_lookup m (key v) = None"
  shows "mset (om_values (fold (\<lambda>v m. om_update (key v) v m) vs m)) = mset vs + mset (om_values m)"
  using assms
proof (induction vs arbitrary: m)
  case (Cons v vs)
  have "key v \<notin> fst ` set (om_entries m)"
    using Cons.prems(2) [of v] by (simp add: om_keys_lookup del: image_iff)
  then have "mset (om_values (om_update (key v) v m)) = add_mset v (mset (om_values m))"
    using upd_list_mset [of "key v" "om_entries m" v] by (simp add: om_values_def)
  moreover have "om_lookup (om_update (key v) v m) (key w) = None" if "w \<in> set vs" for w
    using Cons.prems that by (auto simp: rev_image_eqI)
  ultimately show ?case
    using Cons.IH [of "om_update (key v) v m"] Cons.prems(1) by simp
qed simp

lemma values_map_by: "distinct (map key vs) \<Longrightarrow> mset (om_values (map_by key vs)) = mset vs"
  using values_of_fold [of key vs om_empty] by (simp add: map_by_def om_values_def)

section \<open>What a comparison by key owes to the totals\<close>

definition weigh :: "('v \<Rightarrow> u64) \<Rightarrow> 'v option \<Rightarrow> u64" where
  "weigh weight v = (case v of None \<Rightarrow> 0 | Some x \<Rightarrow> weight x)"

lemma sum_weigh:
  assumes "finite K" and "\<And>k. om_lookup m k \<noteq> None \<Longrightarrow> k \<in> K"
  shows "(\<Sum>k\<in>K. weigh weight (om_lookup m k)) = (\<Sum>v\<leftarrow>om_values m. weight v)"
proof -
  have "(\<Sum>v\<leftarrow>om_values m. weight v) = (\<Sum>k\<leftarrow>map fst (om_entries m). weigh weight (om_lookup m k))"
  proof -
    have "map (weight \<circ> snd) (om_entries m) = map (\<lambda>p. weigh weight (om_lookup m (fst p))) (om_entries m)"
    proof (rule map_cong [OF refl])
      fix p
      assume "p \<in> set (om_entries m)"
      then have "om_lookup m (fst p) = Some (snd p)"
        by (simp flip: om_mem_entries)
      then show "(weight \<circ> snd) p = weigh weight (om_lookup m (fst p))"
        by (simp add: weigh_def)
    qed
    then have "sum_list (map (weight \<circ> snd) (om_entries m))
        = sum_list (map (\<lambda>p. weigh weight (om_lookup m (fst p))) (om_entries m))"
      by (rule arg_cong)
    then show ?thesis
      by (simp add: om_values_def comp_def)
  qed
  also have "\<dots> = (\<Sum>k\<in>fst ` set (om_entries m). weigh weight (om_lookup m k))"
    by (simp add: sum_list_distinct_conv_sum_set del: map_map)
  also have "\<dots> = (\<Sum>k\<in>K. weigh weight (om_lookup m k))"
  proof (rule sum.mono_neutral_left)
    show "finite K" by (rule assms(1))
    show "fst ` set (om_entries m) \<subseteq> K"
      using assms(2) om_keys_lookup [of _ m] by blast
    show "\<forall>k \<in> K - fst ` set (om_entries m). weigh weight (om_lookup m k) = 0"
      using om_keys_lookup [of _ m] by (auto simp: weigh_def)
  qed
  finally show ?thesis ..
qed

locale keyed_diff =
  fixes entry :: "'k::linorder \<Rightarrow> 'v option \<Rightarrow> 'v option \<Rightarrow> 'e list"
    and weight :: "'v \<Rightarrow> u64"
    and delta :: "'e \<Rightarrow> u64"
  assumes entry_delta:
    "(\<Sum>e\<leftarrow>entry k before after. delta e) = weigh weight after - weigh weight before"
begin

lemma deltas_account:
  "(\<Sum>e\<leftarrow>diff_maps entry before after. delta e)
     = (\<Sum>v\<leftarrow>om_values after. weight v) - (\<Sum>v\<leftarrow>om_values before. weight v)"
proof -
  have "(\<Sum>e\<leftarrow>concat (map (\<lambda>k. entry k (om_lookup before k) (om_lookup after k)) ks). delta e)
      = (\<Sum>k\<leftarrow>ks. weigh weight (om_lookup after k) - weigh weight (om_lookup before k))" for ks
    by (induction ks) (simp_all add: entry_delta)
  then have "(\<Sum>e\<leftarrow>diff_maps entry before after. delta e)
      = (\<Sum>k\<in>set (union_keys before after). weigh weight (om_lookup after k) - weigh weight (om_lookup before k))"
    by (simp add: diff_maps_def sum_list_distinct_conv_sum_set)
  also have "\<dots> = (\<Sum>v\<leftarrow>om_values after. weight v) - (\<Sum>v\<leftarrow>om_values before. weight v)"
    unfolding sum_subtractf
    by (intro arg_cong2 [where f = "(-)"] sum_weigh) (simp_all add: union_keys_set)
  finally show ?thesis .
qed

end

lemma sum_values_map_by:
  "distinct (map key vs) \<Longrightarrow> (\<Sum>v\<leftarrow>om_values (map_by key vs). weight v) = (\<Sum>v\<leftarrow>vs. weight v :: u64)"
proof -
  assume "distinct (map key vs)"
  then have "mset (map weight (om_values (map_by key vs))) = mset (map weight vs)"
    by (simp add: values_map_by)
  then show ?thesis
    by (metis sum_mset_sum_list)
qed

section \<open>Equal texts are equal aggregates\<close>

lemma dec_nat_no_blank: "c \<in> set (dec_nat n) \<Longrightarrow> c \<noteq> CHR '' ''"
proof (induction n rule: dec_nat.induct)
  case (1 n)
  have digit: "digit_char d \<noteq> CHR '' ''" if "d < 10" for d
  proof -
    have "\<forall>d \<in> set [0..<10]. digit_char d \<noteq> CHR '' ''"
      by code_simp
    then show ?thesis
      using that by simp
  qed
  show ?case
    using 1 digit [of n] digit [of "n mod 10"] by (subst (asm) dec_nat.simps) (auto split: if_splits)
qed

lemma dec_blank: "dec (a :: 'a::len word) @ CHR '' '' # s = dec b @ CHR '' '' # t \<longleftrightarrow> a = b \<and> s = t"
proof -
  have part: "takeWhile (\<lambda>c. c \<noteq> CHR '' '') (dec w @ CHR '' '' # s) = dec w" for w :: "'a word" and s
    using dec_nat_no_blank by (simp add: dec_def takeWhile_append2)
  show ?thesis
    using part [of a s] part [of b t] by auto
qed

lemma device_string_inject: "device_string a = device_string b \<longleftrightarrow> a = b"
proof
  assume "device_string a = device_string b"
  then show "a = b"
    by (cases a; cases b) (simp add: device_string_def dec_blank)
qed simp

section \<open>The entries account for the totals\<close>

interpretation device_records: keyed_diff device_entry da_record_count md_record_delta
  by unfold_locales
    (simp add: device_entry_def weigh_def make_entry_def device_string_inject split: option.split)

interpretation device_payload: keyed_diff device_entry da_total_payload_bytes md_payload_delta
  by unfold_locales
    (simp add: device_entry_def weigh_def make_entry_def device_string_inject split: option.split)

interpretation kind_records: keyed_diff kind_entry pk_count md_record_delta
  by unfold_locales (simp add: kind_entry_def weigh_def make_entry_def split: option.split)

definition device_entries :: "manifest_diff \<Rightarrow> manifest_diff_entry list" where
  "device_entries diff =
     filter (\<lambda>e. md_kind e \<in> {MD_device_added, MD_device_removed, MD_device_changed}) (mf_entries diff)"

definition kind_entries :: "manifest_diff \<Rightarrow> manifest_diff_entry list" where
  "kind_entries diff =
     filter (\<lambda>e. md_kind e \<in> {MD_kind_added, MD_kind_removed, MD_kind_changed}) (mf_entries diff)"

lemma in_diff_maps: "e \<in> set (diff_maps entry b a) \<Longrightarrow> \<exists>k. e \<in> set (entry k (om_lookup b k) (om_lookup a k))"
  by (auto simp: diff_maps_def)

lemma device_entry_kind:
  "e \<in> set (device_entry k b a) \<Longrightarrow> md_kind e \<in> {MD_device_added, MD_device_removed, MD_device_changed}"
  by (auto simp: device_entry_def make_entry_def split: option.splits if_splits)

lemma kind_entry_kind:
  "e \<in> set (kind_entry k b a) \<Longrightarrow> md_kind e \<in> {MD_kind_added, MD_kind_removed, MD_kind_changed}"
  by (auto simp: kind_entry_def make_entry_def split: option.splits if_splits)

lemma diff_devices_kind:
  "e \<in> set (diff_devices b a) \<Longrightarrow> md_kind e \<in> {MD_device_added, MD_device_removed, MD_device_changed}"
  unfolding diff_devices_def by (drule in_diff_maps) (erule exE, rule device_entry_kind)

lemma diff_kinds_kind:
  "e \<in> set (diff_kinds b a) \<Longrightarrow> md_kind e \<in> {MD_kind_added, MD_kind_removed, MD_kind_changed}"
  unfolding diff_kinds_def by (drule in_diff_maps) (erule exE, rule kind_entry_kind)

lemma diff_summary_kind: "e \<in> set (diff_summary b a) \<Longrightarrow> md_kind e = MD_summary_changed"
  by (auto simp: diff_summary_def make_entry_def Let_def split: if_splits)

lemma diff_warnings_kind:
  "e \<in> set (diff_warnings b a) \<Longrightarrow> md_kind e \<in> {MD_warning_removed, MD_warning_added}"
  by (auto simp: diff_warnings_def make_entry_def Let_def)

lemma filter_part:
  "\<forall>e \<in> set xs. \<not> P e \<Longrightarrow> \<forall>e \<in> set ys. P e \<Longrightarrow> \<forall>e \<in> set zs. \<not> P e \<Longrightarrow>
     filter P (xs @ ys @ zs) = ys"
  by (simp add: filter_id_conv filter_empty_conv)

lemma device_entries_diff: "device_entries (diff_archive_manifests b a) = diff_devices b a"
  unfolding device_entries_def diff_archive_manifests_def manifest_diff.simps
  by (rule filter_part)
    (auto dest!: diff_summary_kind diff_devices_kind diff_kinds_kind diff_warnings_kind)

lemma kind_entries_diff: "kind_entries (diff_archive_manifests b a) = diff_kinds b a"
  unfolding kind_entries_def diff_archive_manifests_def manifest_diff.simps append_assoc [symmetric, of "diff_summary b a"]
  by (rule filter_part)
    (auto dest!: diff_summary_kind diff_devices_kind diff_kinds_kind diff_warnings_kind)

section \<open>When nothing changed\<close>

lemma diff_maps_empty:
  "diff_maps entry b a = [] \<longleftrightarrow>
     (\<forall>k. om_lookup b k \<noteq> None \<or> om_lookup a k \<noteq> None \<longrightarrow> entry k (om_lookup b k) (om_lookup a k) = [])"
  using union_keys_set [of _ b a] by (auto simp: diff_maps_def)

lemma device_entry_empty: "device_entry k b a = [] \<longleftrightarrow> b = a"
  by (auto simp: device_entry_def device_string_inject split: option.split)

lemma kind_entry_empty: "kind_entry k b a = [] \<longleftrightarrow> map_option pk_count b = map_option pk_count a"
  by (auto simp: kind_entry_def split: option.split)

lemma lookup_distinct:
  assumes "distinct (map key vs)"
  shows "om_lookup (map_by key vs) k = Some v \<longleftrightarrow> v \<in> set vs \<and> key v = k"
proof
  assume "om_lookup (map_by key vs) k = Some v"
  then show "v \<in> set vs \<and> key v = k"
    by (auto simp: lookup_map_by find_Some_iff rev_nth)
next
  assume v: "v \<in> set vs \<and> key v = k"
  then obtain w where w: "om_lookup (map_by key vs) k = Some w"
    by (cases "om_lookup (map_by key vs) k") (auto simp: lookup_map_by find_None_iff)
  then have "w \<in> set vs" "key w = k"
    by (auto simp: lookup_map_by find_Some_iff rev_nth)
  then show "om_lookup (map_by key vs) k = Some v"
    using w v assms by (auto simp: distinct_map inj_on_def)
qed

lemma same_lookups:
  assumes "distinct (map key us)" and "distinct (map key vs)"
  shows "(\<forall>k. om_lookup (map_by key us) k = om_lookup (map_by key vs) k) \<longleftrightarrow> set us = set vs"
proof
  assume same: "\<forall>k. om_lookup (map_by key us) k = om_lookup (map_by key vs) k"
  have "v \<in> set us \<longleftrightarrow> v \<in> set vs" for v
    using lookup_distinct [OF assms(1), of "key v" v] lookup_distinct [OF assms(2), of "key v" v] same by simp
  then show "set us = set vs"
    by blast
next
  assume same: "set us = set vs"
  show "\<forall>k. om_lookup (map_by key us) k = om_lookup (map_by key vs) k"
  proof
    fix k
    show "om_lookup (map_by key us) k = om_lookup (map_by key vs) k"
      using lookup_distinct [OF assms(1), of k] lookup_distinct [OF assms(2), of k] same
      by (cases "om_lookup (map_by key us) k"; cases "om_lookup (map_by key vs) k") auto
  qed
qed

lemma kind_lookup: "om_lookup (map_kinds m) k = Some c \<Longrightarrow> pk_kind c = k"
  by (auto simp: map_kinds_def lookup_map_by find_Some_iff)

lemma kind_count_eq: "pk_kind c = pk_kind d \<Longrightarrow> pk_count c = pk_count d \<Longrightarrow> c = (d :: packet_kind_count)"
  by (cases c; cases d) simp

lemma kind_counts_same:
  "map_option pk_count (om_lookup (map_kinds b) k) = map_option pk_count (om_lookup (map_kinds a) k)
     \<longleftrightarrow> om_lookup (map_kinds b) k = om_lookup (map_kinds a) k"
proof (cases "om_lookup (map_kinds b) k"; cases "om_lookup (map_kinds a) k")
  fix c d
  assume cd: "om_lookup (map_kinds b) k = Some c" "om_lookup (map_kinds a) k = Some d"
  then have "pk_kind c = pk_kind d"
    using kind_lookup by metis
  then show ?thesis
    using cd kind_count_eq by auto
qed simp_all

lemma warnings_same: "diff_warnings b a = [] \<longleftrightarrow> set (am_warnings b) = set (am_warnings a)"
  by (auto simp: diff_warnings_def Let_def filter_empty_conv)

lemma summary_same: "diff_summary b a = [] \<longleftrightarrow> am_summary b = am_summary a"
  by (cases "am_summary b"; cases "am_summary a") (auto simp: diff_summary_def Let_def)

lemma devices_same:
  assumes "distinct (map da_device (am_devices b))" and "distinct (map da_device (am_devices a))"
  shows "diff_devices b a = [] \<longleftrightarrow> set (am_devices b) = set (am_devices a)"
proof -
  have "diff_devices b a = [] \<longleftrightarrow> (\<forall>k. om_lookup (map_devices b) k = om_lookup (map_devices a) k)"
    unfolding diff_devices_def diff_maps_empty device_entry_empty by (metis option.exhaust)
  then show ?thesis
    using same_lookups [OF assms] by (simp add: map_devices_def)
qed

lemma kinds_same:
  assumes "distinct (map pk_kind (am_packet_kinds b))" and "distinct (map pk_kind (am_packet_kinds a))"
  shows "diff_kinds b a = [] \<longleftrightarrow> set (am_packet_kinds b) = set (am_packet_kinds a)"
proof -
  have "diff_kinds b a = [] \<longleftrightarrow> (\<forall>k. om_lookup (map_kinds b) k = om_lookup (map_kinds a) k)"
    unfolding diff_kinds_def diff_maps_empty kind_entry_empty kind_counts_same by (metis option.exhaust)
  then show ?thesis
    using same_lookups [OF assms] by (simp add: map_kinds_def)
qed

definition aggregated :: "archive_manifest \<Rightarrow> bool" where
  "aggregated m \<longleftrightarrow> distinct (map da_device (am_devices m)) \<and> distinct (map pk_kind (am_packet_kinds m))"

section \<open>The property of the comparison\<close>

text \<open>
  C36. For manifests with one aggregate per device and per kind, the difference is empty
  exactly if the summaries, the aggregates and the warnings are the same up to order, and its
  device and kind entries account for the whole change: their record and payload deltas add up
  to the difference of the totals of the two manifests.
\<close>

theorem manifest_diff_accounts:
  assumes "aggregated before" and "aggregated after"
  shows "(manifest_diff_empty (diff_archive_manifests before after) \<longleftrightarrow>
      am_summary before = am_summary after \<and> set (am_devices before) = set (am_devices after)
      \<and> set (am_packet_kinds before) = set (am_packet_kinds after)
      \<and> set (am_warnings before) = set (am_warnings after))
    \<and> (\<Sum>e\<leftarrow>device_entries (diff_archive_manifests before after). md_record_delta e)
        = sum_device_records (am_devices after) - sum_device_records (am_devices before)
    \<and> (\<Sum>e\<leftarrow>device_entries (diff_archive_manifests before after). md_payload_delta e)
        = mf_payload_delta (diff_archive_manifests before after)
    \<and> (\<Sum>e\<leftarrow>kind_entries (diff_archive_manifests before after). md_record_delta e)
        = sum_kind_records (am_packet_kinds after) - sum_kind_records (am_packet_kinds before)"
proof -
  have devices: "distinct (map da_device (am_devices before))" "distinct (map da_device (am_devices after))"
    and kinds: "distinct (map pk_kind (am_packet_kinds before))" "distinct (map pk_kind (am_packet_kinds after))"
    using assms by (simp_all add: aggregated_def)
  show ?thesis
  proof (intro conjI)
    show "manifest_diff_empty (diff_archive_manifests before after) \<longleftrightarrow>
      am_summary before = am_summary after \<and> set (am_devices before) = set (am_devices after)
      \<and> set (am_packet_kinds before) = set (am_packet_kinds after)
      \<and> set (am_warnings before) = set (am_warnings after)"
      by (simp add: manifest_diff_empty_def diff_archive_manifests_def summary_same warnings_same
          devices_same [OF devices] kinds_same [OF kinds])
  qed (simp_all add: device_entries_diff kind_entries_diff diff_devices_def diff_kinds_def map_devices_def
      map_kinds_def device_records.deltas_account device_payload.deltas_account kind_records.deltas_account
      sum_values_map_by devices kinds sum_device_records_def sum_kind_records_def
      manifest_payload_bytes_def diff_archive_manifests_def [of before after, THEN arg_cong [where f = mf_payload_delta]])
qed

definition sample_aggregate :: "device_id \<Rightarrow> u64 \<Rightarrow> device_archive_summary" where
  "sample_aggregate device n =
     \<lparr>da_device = device, da_record_count = n, da_first_time_ns = 1, da_last_time_ns = 9,
      da_total_payload_bytes = 10 * n\<rparr>"

definition sample_manifest :: "device_archive_summary list \<Rightarrow> archive_manifest" where
  "sample_manifest devices =
     \<lparr>am_summary = \<lparr>as_format_version = 1, as_record_count = 0, as_first_time_ns = 0, as_last_time_ns = 0\<rparr>,
      am_devices = devices, am_packet_kinds = [], am_warnings = []\<rparr>"

lemma manifest_diff_accounts_witness:
  "(\<Sum>e\<leftarrow>device_entries (diff_archive_manifests
       (sample_manifest [sample_aggregate 1 3, sample_aggregate 2 4])
       (sample_manifest [sample_aggregate 3 9])). md_record_delta e) = 2"
  using manifest_diff_accounts
    [of "sample_manifest [sample_aggregate 1 3, sample_aggregate 2 4]" "sample_manifest [sample_aggregate 3 9]"]
  by (simp add: aggregated_def sample_manifest_def sample_aggregate_def sum_device_records_def)

end
