(* ===== verification/Grouping.thy ===== *)
theory Grouping
  imports Ordered_Map
begin

text \<open>
  Loops of the form \<open>for (r : rs) { auto& v = groups[key(r)]; add r to v; }\<close> over a \<open>std::map\<close>, and
  what they leave: for each key that occurs, in increasing order, the elements with this key added
  one after the other to a value-initialised group.
\<close>

definition group_by ::
  "('r \<Rightarrow> 'k::linorder) \<Rightarrow> 'v \<Rightarrow> ('r \<Rightarrow> 'v \<Rightarrow> 'v) \<Rightarrow> 'r list \<Rightarrow> ('k, 'v) omap" where
  "group_by key fresh add rs =
     fold (\<lambda>r m. om_update (key r) (add r (om_get fresh m (key r))) m) rs om_empty"

definition group_keys :: "('r \<Rightarrow> 'k::linorder) \<Rightarrow> 'r list \<Rightarrow> 'k list" where
  "group_keys key rs = sorted_list_of_set (key ` set rs)"

abbreviation members :: "('r \<Rightarrow> 'k) \<Rightarrow> 'r list \<Rightarrow> 'k \<Rightarrow> 'r list" where
  "members key rs k \<equiv> filter (\<lambda>r. key r = k) rs"

lemma lookup_group_by:
  "om_lookup (group_by key fresh add rs) k
     = (if k \<in> key ` set rs then Some (fold add (members key rs k) fresh) else None)"
proof (induction rs arbitrary: k rule: rev_induct)
  case (snoc r rs)
  have step: "group_by key fresh add (rs @ [r])
      = om_update (key r) (add r (om_get fresh (group_by key fresh add rs) (key r))) (group_by key fresh add rs)"
    by (simp add: group_by_def)
  have "om_get fresh (group_by key fresh add rs) (key r) = fold add (members key rs (key r)) fresh"
  proof (cases "key r \<in> key ` set rs")
    case False
    then have "members key rs (key r) = []"
      by (auto simp: filter_empty_conv rev_image_eqI)
    then show ?thesis
      using False snoc by (simp add: om_get_def)
  qed (simp add: snoc om_get_def)
  then show ?case
    by (cases "k = key r") (simp_all add: step snoc)
qed (simp add: group_by_def)

lemma om_keys_sorted:
  assumes "\<And>k. om_lookup m k \<noteq> None \<longleftrightarrow> k \<in> K" and "finite K"
  shows "map fst (om_entries m) = sorted_list_of_set K"
proof -
  have "set (map fst (om_entries m)) = K"
    using om_keys_lookup [of _ m] assms(1) by auto
  then show ?thesis
    using om_entries_sorted [of m] sorted_list_of_set.idem_if_sorted_distinct [of "map fst (om_entries m)"]
    by (simp add: strict_sorted_iff del: set_map)
qed

lemma om_entries_keys:
  "om_entries m = map (\<lambda>k. (k, the (om_lookup m k))) (map fst (om_entries m))"
proof -
  have "p = (fst p, the (om_lookup m (fst p)))" if "p \<in> set (om_entries m)" for p
    using that om_mem_entries [of "fst p" "snd p" m] by simp
  then have "om_entries m = map (\<lambda>p. (fst p, the (om_lookup m (fst p)))) (om_entries m)"
    by (simp add: map_idI)
  then show ?thesis
    by (simp add: comp_def)
qed

lemma group_entries:
  "om_entries (group_by key fresh add rs)
     = map (\<lambda>k. (k, fold add (members key rs k) fresh)) (group_keys key rs)"
proof -
  have "map fst (om_entries (group_by key fresh add rs)) = group_keys key rs"
    unfolding group_keys_def by (rule om_keys_sorted) (simp_all add: lookup_group_by)
  then have "om_entries (group_by key fresh add rs)
      = map (\<lambda>k. (k, the (om_lookup (group_by key fresh add rs) k))) (group_keys key rs)"
    using om_entries_keys [of "group_by key fresh add rs"] by simp
  also have "\<dots> = map (\<lambda>k. (k, fold add (members key rs k) fresh)) (group_keys key rs)"
    by (rule map_cong) (simp_all add: lookup_group_by group_keys_def)
  finally show ?thesis .
qed

lemma group_values:
  "om_values (group_by key fresh add rs)
     = map (\<lambda>k. fold add (members key rs k) fresh) (group_keys key rs)"
  by (simp add: om_values_def group_entries)

lemma group_keys_set [simp]: "set (group_keys key rs) = key ` set rs"
  by (simp add: group_keys_def)

lemma group_keys_sorted [simp]: "sorted_wrt (<) (group_keys key rs)"
  by (simp add: group_keys_def)

lemma group_keys_distinct [simp]: "distinct (group_keys key rs)"
  by (simp add: group_keys_def)

text \<open>The groups hold every element once.\<close>

lemma members_partition:
  assumes "key ` set rs \<subseteq> set ks" and "distinct ks"
  shows "(\<Sum>k\<leftarrow>ks. \<Sum>r\<leftarrow>members key rs k. f r) = (\<Sum>r\<leftarrow>rs. f r :: 'a::comm_monoid_add)"
  using assms(1)
proof (induction rs)
  case (Cons r rs)
  have one: "(\<Sum>k\<leftarrow>ks'. if key r = k then f r else 0) = f r" if "key r \<in> set ks'" "distinct ks'" for ks'
    using that
  proof (induction ks')
    case (Cons k ks')
    have "(\<Sum>k\<leftarrow>ks'. if key r = k then f r else 0) = 0" if "key r \<notin> set ks'"
      using that by (induction ks') auto
    then show ?case
      using Cons by auto
  qed simp
  have "(\<Sum>k\<leftarrow>ks. \<Sum>r\<leftarrow>members key (r # rs) k. f r)
      = (\<Sum>k\<leftarrow>ks. (if key r = k then f r else 0) + (\<Sum>r\<leftarrow>members key rs k. f r))"
    by (intro arg_cong [where f = sum_list] map_cong) auto
  also have "\<dots> = (\<Sum>k\<leftarrow>ks. if key r = k then f r else 0) + (\<Sum>k\<leftarrow>ks. \<Sum>r\<leftarrow>members key rs k. f r)"
    by (rule sum_list_addf)
  finally show ?case
    using Cons one [of ks] assms(2) by simp
qed simp

lemma groups_total: "(\<Sum>k\<leftarrow>group_keys key rs. \<Sum>r\<leftarrow>members key rs k. f r) = (\<Sum>r\<leftarrow>rs. f r :: 'a::comm_monoid_add)"
  by (rule members_partition) simp_all

end
