(* ===== verification/Json.thy ===== *)
theory Json
  imports Prelude
begin

text \<open>
  The JSON writer and the text tables of the diagnostics (\<open>src/diagnostics/json_writer.cpp\<close>,
  \<open>src/diagnostics/text_table.cpp\<close>). A \<open>JsonObject\<close> is the list of its fields in the order they
  were added. The reference reader of the second section is the specification of the format:
  documents built by nesting the writer's calls are read back as they were.
\<close>

section \<open>The writer\<close>

record json_field =
  jf_name :: string
  jf_value :: string
  jf_raw :: bool

type_synonym json_object = "json_field list"

definition string_field :: "json_object \<Rightarrow> string \<Rightarrow> string \<Rightarrow> json_object" where
  "string_field object name value = object @ [\<lparr>jf_name = name, jf_value = value, jf_raw = False\<rparr>]"

definition number_field :: "json_object \<Rightarrow> string \<Rightarrow> u64 \<Rightarrow> json_object" where
  "number_field object name value = object @ [\<lparr>jf_name = name, jf_value = dec value, jf_raw = True\<rparr>]"

definition boolean_field :: "json_object \<Rightarrow> string \<Rightarrow> bool \<Rightarrow> json_object" where
  "boolean_field object name value =
     object @ [\<lparr>jf_name = name, jf_value = (if value then ''true'' else ''false''), jf_raw = True\<rparr>]"

definition raw_field :: "json_object \<Rightarrow> string \<Rightarrow> string \<Rightarrow> json_object" where
  "raw_field object name value = object @ [\<lparr>jf_name = name, jf_value = value, jf_raw = True\<rparr>]"

definition object_empty :: "json_object \<Rightarrow> bool" where
  "object_empty object = (object = [])"

definition field_count :: "json_object \<Rightarrow> nat" where
  "field_count object = length object"

abbreviation bslash :: char where
  "bslash \<equiv> CHR 0x5C"

definition hex_escape :: "char \<Rightarrow> string" where
  "hex_escape ch = [bslash, CHR ''u''] @ ''00'' @ hex_byte (byte_of_char ch)"

definition escape_char :: "char \<Rightarrow> string" where
  "escape_char ch =
     (if ch = CHR 0x22 then [bslash, CHR 0x22]
      else if ch = bslash then [bslash, bslash]
      else if ch = CHR 0x0A then [bslash, CHR ''n'']
      else if ch = CHR 0x0D then [bslash, CHR ''r'']
      else if ch = CHR 0x09 then [bslash, CHR ''t'']
      else if (of_char ch :: nat) < 0x20 then hex_escape ch
      else [ch])"

definition json_escape :: "string \<Rightarrow> string" where
  "json_escape value = concat (map escape_char value)"

definition quoted :: "string \<Rightarrow> string" where
  "quoted value = dquote @ json_escape value @ dquote"

definition render_field :: "json_field \<Rightarrow> string" where
  "render_field f =
     dquote @ json_escape (jf_name f) @ dquote @ '':''
     @ (if jf_raw f then jf_value f else quoted (jf_value f))"

fun join_commas :: "string list \<Rightarrow> string" where
  "join_commas [] = []"
| "join_commas [x] = x"
| "join_commas (x # y # ys) = x @ '','' @ join_commas (y # ys)"

definition render_json_object :: "json_object \<Rightarrow> string" where
  "render_json_object object = ''{'' @ join_commas (map render_field object) @ ''}''"

fun pretty_fields :: "string \<Rightarrow> json_object \<Rightarrow> string" where
  "pretty_fields padding [] = []"
| "pretty_fields padding (f # fs) =
     padding @ render_field f @ (if fs \<noteq> [] then '','' else []) @ newline @ pretty_fields padding fs"

definition render_json_object_pretty :: "json_object \<Rightarrow> nat \<Rightarrow> string" where
  "render_json_object_pretty object indent =
     ''{'' @ newline @ pretty_fields (replicate indent CHR 0x20) object @ ''}''"

definition render_json_array :: "json_object list \<Rightarrow> string" where
  "render_json_array objects = ''['' @ join_commas (map render_json_object objects) @ '']''"

definition render_json_string_array :: "string list \<Rightarrow> string" where
  "render_json_string_array values = ''['' @ join_commas (map quoted values) @ '']''"

definition make_status_object :: "string \<Rightarrow> string \<Rightarrow> json_object" where
  "make_status_object status message =
     string_field (string_field [] ''status'' status) ''message'' message"

definition render_status_json :: "string \<Rightarrow> string \<Rightarrow> string list \<Rightarrow> string" where
  "render_status_json status message notes =
     (let object = make_status_object status message
      in render_json_object
           (if notes \<noteq> [] then raw_field object ''notes'' (render_json_string_array notes)
            else object))"

definition is_json_literal :: "string \<Rightarrow> bool" where
  "is_json_literal value = (value = ''true'' \<or> value = ''false'' \<or> value = ''null'')"

definition make_count_object :: "string \<Rightarrow> u64 \<Rightarrow> json_object" where
  "make_count_object name value =
     number_field (string_field [] ''name'' name) ''value'' value"

definition make_error_object :: "string \<Rightarrow> string \<Rightarrow> json_object" where
  "make_error_object err message =
     string_field (string_field (string_field [] ''status'' ''error'') ''code'' err)
       ''message'' message"

section \<open>The reference reader\<close>

definition unhex :: "char \<Rightarrow> nat" where
  "unhex c = (let n = of_char c in if n < 58 then n - 48 else n - 87)"

definition unescape :: "char \<Rightarrow> char option" where
  "unescape c =
     (if c = CHR 0x22 then Some (CHR 0x22)
      else if c = bslash then Some bslash
      else if c = CHR ''n'' then Some (CHR 0x0A)
      else if c = CHR ''r'' then Some (CHR 0x0D)
      else if c = CHR ''t'' then Some (CHR 0x09)
      else None)"

fun read_string :: "string \<Rightarrow> (string \<times> string) option" where
  "read_string [] = None"
| "read_string (c # cs) =
     (if c = CHR 0x22 then Some ([], cs)
      else if c \<noteq> bslash then map_option (\<lambda>(s, r). (c # s, r)) (read_string cs)
      else case cs of
          [] \<Rightarrow> None
        | d # ds \<Rightarrow>
            if d = CHR ''u'' then
              (case ds of
                 x1 # x2 # x3 # x4 # es \<Rightarrow>
                   map_option (\<lambda>(s, r). (char_of (16 * unhex x3 + unhex x4) # s, r)) (read_string es)
               | _ \<Rightarrow> None)
            else (case unescape d of
                    None \<Rightarrow> None
                  | Some e \<Rightarrow> map_option (\<lambda>(s, r). (e # s, r)) (read_string ds)))"

datatype json =
    JString string
  | JToken string
  | JArray "json list"
  | JObject "(string \<times> json) list"

definition blank :: "char \<Rightarrow> bool" where
  "blank c \<longleftrightarrow> c = CHR 0x20 \<or> c = CHR 0x0A"

definition token_char :: "char \<Rightarrow> bool" where
  "token_char c \<longleftrightarrow>
     c \<noteq> CHR 0x22 \<and> c \<noteq> CHR '','' \<and> c \<noteq> CHR '':'' \<and> c \<noteq> CHR ''['' \<and> c \<noteq> CHR '']''
     \<and> c \<noteq> CHR ''{'' \<and> c \<noteq> CHR ''}'' \<and> \<not> blank c"

fun read_json :: "nat \<Rightarrow> string \<Rightarrow> (json \<times> string) option"
  and read_items :: "nat \<Rightarrow> string \<Rightarrow> (json list \<times> string) option"
  and read_members :: "nat \<Rightarrow> string \<Rightarrow> ((string \<times> json) list \<times> string) option" where
  "read_json 0 s = None"
| "read_json (Suc n) s =
     (case dropWhile blank s of
        [] \<Rightarrow> None
      | c # cs \<Rightarrow>
          if c = CHR 0x22 then map_option (\<lambda>(t, r). (JString t, r)) (read_string cs)
          else if c = CHR ''['' then
            (case dropWhile blank cs of
               [] \<Rightarrow> None
             | d # ds \<Rightarrow>
                 if d = CHR '']'' then Some (JArray [], ds)
                 else map_option (\<lambda>(js, r). (JArray js, r)) (read_items n cs))
          else if c = CHR ''{'' then
            (case dropWhile blank cs of
               [] \<Rightarrow> None
             | d # ds \<Rightarrow>
                 if d = CHR ''}'' then Some (JObject [], ds)
                 else map_option (\<lambda>(ms, r). (JObject ms, r)) (read_members n cs))
          else if token_char c then
            Some (JToken (takeWhile token_char (c # cs)), dropWhile token_char (c # cs))
          else None)"
| "read_items 0 s = None"
| "read_items (Suc n) s =
     (case read_json n s of
        None \<Rightarrow> None
      | Some (j, r) \<Rightarrow>
          (case dropWhile blank r of
             [] \<Rightarrow> None
           | d # ds \<Rightarrow>
               if d = CHR '']'' then Some ([j], ds)
               else if d = CHR '','' then
                 map_option (\<lambda>(js, r'). (j # js, r')) (read_items n ds)
               else None))"
| "read_members 0 s = None"
| "read_members (Suc n) s =
     (case dropWhile blank s of
        [] \<Rightarrow> None
      | q # qs \<Rightarrow>
          if q \<noteq> CHR 0x22 then None
          else (case read_string qs of
                  None \<Rightarrow> None
                | Some (k, r) \<Rightarrow>
                    if r = [] \<or> hd r \<noteq> CHR '':'' then None
                    else (case read_json n (tl r) of
                            None \<Rightarrow> None
                          | Some (j, r1) \<Rightarrow>
                              (case dropWhile blank r1 of
                                 [] \<Rightarrow> None
                               | d # ds \<Rightarrow>
                                   if d = CHR ''}'' then Some ([(k, j)], ds)
                                   else if d = CHR '','' then
                                     map_option (\<lambda>(ms, r'). ((k, j) # ms, r')) (read_members n ds)
                                   else None))))"

section \<open>Strings are read back\<close>

lemma unhex_digit: "d < 16 \<Longrightarrow> unhex (hex_alphabet ! d) = d"
proof -
  assume "d < 16"
  then have "d \<in> set [0..<16]"
    by simp
  moreover have "\<forall>d \<in> set [0..<16]. unhex (hex_alphabet ! d) = d"
    by code_simp
  ultimately show ?thesis
    by blast
qed

lemma unat_low_digit: "unat (b AND 0x0f :: u8) = unat b mod 16"
proof -
  have "b AND 0x0f = take_bit 4 b"
    by (simp add: take_bit_eq_mask mask_eq_exp_minus_1)
  then show ?thesis
    by (simp add: take_bit_eq_mod unat_mod)
qed

lemma hex_byte_value: "16 * unhex (hex_byte b ! 0) + unhex (hex_byte b ! 1) = unat b"
proof -
  have high: "unat (drop_bit 4 b) = unat b div 16"
    by (simp only: unat_drop_bit_eq) (simp add: drop_bit_eq_div)
  have "unat b < 256"
    by (rule unat_u8_bound)
  then show ?thesis
    by (simp add: hex_byte_def unhex_digit high unat_low_digit)
qed

lemma control_digits:
  "char_of (16 * unhex (hex_byte (byte_of_char c) ! 0) + unhex (hex_byte (byte_of_char c) ! 1)) = c"
  using char_of_byte_of_char [of c] by (simp only: hex_byte_value char_of_byte_def)

lemma hex_byte_list: "hex_byte b = [hex_byte b ! 0, hex_byte b ! 1]"
  by (simp add: hex_byte_def)

lemma read_hex_escape:
  "read_string (hex_escape c @ s) = map_option (\<lambda>(t, r). (c # t, r)) (read_string s)"
proof -
  obtain x y where xy: "hex_byte (byte_of_char c) = [x, y]"
    using hex_byte_list by blast
  then have "char_of (16 * unhex x + unhex y) = c"
    using control_digits [of c] by simp
  then show ?thesis
    by (simp add: hex_escape_def xy)
qed

lemma read_escape_char:
  "read_string (escape_char c @ s) = map_option (\<lambda>(t, r). (c # t, r)) (read_string s)"
  using read_hex_escape [of c s]
  by (simp add: escape_char_def unescape_def)

lemma read_escape_char_before:
  "read_string (json_escape t @ CHR 0x22 # s) = Some (t, s)"
  by (induction t) (simp_all add: json_escape_def read_escape_char)

lemma read_quoted: "quoted t @ s = CHR 0x22 # json_escape t @ CHR 0x22 # s"
  by (simp add: quoted_def)

section \<open>Documents are read back\<close>

text \<open>
  The document of a tree, as the callers of the writer build it: a string member is added with
  \<open>string\<close>, any other member with \<open>raw\<close> and the text of the member.
\<close>

fun write_json :: "json \<Rightarrow> string" where
  "write_json (JString t) = quoted t"
| "write_json (JToken t) = t"
| "write_json (JArray js) = ''['' @ join_commas (map write_json js) @ '']''"
| "write_json (JObject ms) =
     render_json_object (map (\<lambda>(k, j).
       (case j of
          JString t \<Rightarrow> \<lparr>jf_name = k, jf_value = t, jf_raw = False\<rparr>
        | _ \<Rightarrow> \<lparr>jf_name = k, jf_value = write_json j, jf_raw = True\<rparr>)) ms)"

fun add_member :: "json_object \<Rightarrow> string \<times> json \<Rightarrow> json_object" where
  "add_member object (k, JString t) = string_field object k t"
| "add_member object (k, j) = raw_field object k (write_json j)"

definition object_of :: "(string \<times> json) list \<Rightarrow> json_object" where
  "object_of ms = foldl add_member [] ms"

fun plain_tokens :: "json \<Rightarrow> bool" where
  "plain_tokens (JString t) = True"
| "plain_tokens (JToken t) = (t \<noteq> [] \<and> list_all token_char t)"
| "plain_tokens (JArray js) = (\<forall>j \<in> set js. plain_tokens j)"
| "plain_tokens (JObject ms) = (\<forall>m \<in> set ms. plain_tokens (snd m))"

definition read_document :: "string \<Rightarrow> json option" where
  "read_document s =
     (case read_json (length s) s of
        Some (j, r) \<Rightarrow> if r = [] then Some j else None
      | None \<Rightarrow> None)"

fun fuel_of :: "json \<Rightarrow> nat" where
  "fuel_of (JString t) = 1"
| "fuel_of (JToken t) = 1"
| "fuel_of (JArray js) = Suc (sum_list (map (\<lambda>j. Suc (fuel_of j)) js))"
| "fuel_of (JObject ms) = Suc (sum_list (map (\<lambda>m. Suc (fuel_of (snd m))) ms))"

lemma object_of_map:
  "object_of ms =
     map (\<lambda>(k, j).
       (case j of
          JString t \<Rightarrow> \<lparr>jf_name = k, jf_value = t, jf_raw = False\<rparr>
        | _ \<Rightarrow> \<lparr>jf_name = k, jf_value = write_json j, jf_raw = True\<rparr>)) ms"
proof (induction ms rule: rev_induct)
  case (snoc m ms)
  obtain k j where "m = (k, j)"
    by (cases m)
  then show ?case
    using snoc.IH by (cases j) (simp_all add: object_of_def string_field_def raw_field_def)
qed (simp add: object_of_def)

lemma write_object: "write_json (JObject ms) = render_json_object (object_of ms)"
  by (simp add: object_of_map)

lemma write_array_of_objects:
  "write_json (JArray (map JObject mss)) = render_json_array (map object_of mss)"
  by (simp add: render_json_array_def object_of_map comp_def)

lemma write_array_of_strings:
  "write_json (JArray (map JString ts)) = render_json_string_array ts"
  by (simp add: render_json_string_array_def comp_def)

text \<open>One member of a document: the key, a colon and the text of the value.\<close>

definition member_text :: "string \<times> json \<Rightarrow> string" where
  "member_text m = quoted (fst m) @ '':'' @ write_json (snd m)"

lemma render_object_members:
  "map render_field (object_of ms) = map member_text ms"
  by (auto simp: object_of_map render_field_def member_text_def quoted_def split: json.split)

lemma write_object_members:
  "write_json (JObject ms) = ''{'' @ join_commas (map member_text ms) @ ''}''"
  by (simp only: write_object render_json_object_def render_object_members)

lemma write_json_first:
  "plain_tokens j \<Longrightarrow>
     \<exists>c cs. write_json j = c # cs \<and> \<not> blank c \<and> c \<noteq> CHR '']'' \<and> c \<noteq> CHR ''}''"
proof (cases j)
  case (JToken t)
  assume "plain_tokens j"
  then show ?thesis
    using JToken by (cases t) (auto simp: token_char_def)
qed (auto simp: quoted_def blank_def render_json_object_def)

lemma length_join_commas:
  "sum_list (map (\<lambda>x. Suc (length x)) xs) \<le> Suc (length (join_commas xs))"
  by (induction xs rule: join_commas.induct) simp_all

lemma fuel_within_length:
  "plain_tokens j \<Longrightarrow> fuel_of j \<le> length (write_json j)"
proof (induction j)
  case (JArray js)
  have "sum_list (map (\<lambda>j. Suc (fuel_of j)) js) \<le> sum_list (map (\<lambda>j. Suc (length (write_json j))) js)"
    using JArray by (intro sum_list_mono) auto
  then show ?case
    using length_join_commas [of "map write_json js"] by (simp add: comp_def)
next
  case (JObject ms)
  have "fuel_of (snd m) \<le> length (member_text m)" if "m \<in> set ms" for m
  proof -
    have "fuel_of (snd m) \<le> length (write_json (snd m))"
      using JObject.IH [of m "snd m"] JObject.prems that by (cases m) (auto simp: snds.simps)
    then show ?thesis
      by (simp add: member_text_def)
  qed
  then have "sum_list (map (\<lambda>m. Suc (fuel_of (snd m))) ms) \<le> sum_list (map (\<lambda>m. Suc (length (member_text m))) ms)"
    by (intro sum_list_mono) auto
  then show ?case
    using length_join_commas [of "map member_text ms"]
    by (simp only: write_object_members fuel_of.simps) (simp add: comp_def)
qed (auto simp: quoted_def Suc_le_eq)

definition reads_back :: "json \<Rightarrow> bool" where
  "reads_back j \<longleftrightarrow>
     (\<forall>n r. fuel_of j \<le> n \<longrightarrow> r = [] \<or> \<not> token_char (hd r) \<longrightarrow>
        read_json n (write_json j @ r) = Some (j, r))"

lemma reads_backD:
  "reads_back j \<Longrightarrow> fuel_of j \<le> n \<Longrightarrow> r = [] \<or> \<not> token_char (hd r) \<Longrightarrow>
     read_json n (write_json j @ r) = Some (j, r)"
  by (auto simp: reads_back_def)

lemma separators [simp]:
  "\<not> token_char (CHR '','')" "\<not> token_char (CHR '']'')" "\<not> token_char (CHR ''}'')"
  "\<not> token_char (CHR 0x0A)" "\<not> blank (CHR '','')" "\<not> blank (CHR '']'')" "\<not> blank (CHR ''}'')"
  "\<not> blank (CHR 0x22)" "\<not> blank (CHR ''['')" "\<not> blank (CHR ''{'')" "blank (CHR 0x0A)" "blank (CHR 0x20)"
  by (simp_all add: token_char_def blank_def)

lemma token_reads_back: "t \<noteq> [] \<Longrightarrow> list_all token_char t \<Longrightarrow> reads_back (JToken t)"
proof -
  assume t: "t \<noteq> []" "list_all token_char t"
  show ?thesis
    unfolding reads_back_def
  proof (intro allI impI)
    fix n and r :: string
    assume n: "fuel_of (JToken t) \<le> n" and r: "r = [] \<or> \<not> token_char (hd r)"
    obtain m where m: "n = Suc m"
      using n by (cases n) auto
    obtain c cs where c: "t = c # cs" "token_char c"
      using t by (cases t) auto
    have "takeWhile token_char (t @ r) = t" "dropWhile token_char (t @ r) = r"
      using t(2) r by (cases r; simp add: takeWhile_append2 dropWhile_append2 list_all_iff)+
    then show "read_json n (write_json (JToken t) @ r) = Some (JToken t, r)"
      using c m by (auto simp: token_char_def)
  qed
qed

lemma string_reads_back: "reads_back (JString t)"
  unfolding reads_back_def
  by (auto simp: read_quoted read_escape_char_before gr0_conv_Suc Suc_le_eq)

lemma items_read_back:
  assumes "\<And>j. j \<in> set js \<Longrightarrow> reads_back j"
    and "js \<noteq> []" and "sum_list (map (\<lambda>j. Suc (fuel_of j)) js) \<le> n"
  shows "read_items n (join_commas (map write_json js) @ CHR '']'' # r) = Some (js, r)"
  using assms
proof (induction js arbitrary: n)
  case (Cons j js)
  obtain m where m: "n = Suc m" "fuel_of j \<le> m" "sum_list (map (\<lambda>j. Suc (fuel_of j)) js) \<le> m"
    using Cons.prems(3) by (cases n) auto
  show ?case
  proof (cases js)
    case Nil
    then show ?thesis
      using m reads_backD [of j m "CHR '']'' # r"] Cons.prems(1) by simp
  next
    case (Cons k ks)
    have "read_items m (join_commas (map write_json js) @ CHR '']'' # r) = Some (js, r)"
      using Cons.IH [of m] Cons.prems(1) m(3) Cons by simp
    then show ?thesis
      using m Cons Cons.prems(1)
        reads_backD [of j m "CHR '','' # join_commas (map write_json js) @ CHR '']'' # r"] by simp
  qed
qed simp

text \<open>
  Members may be preceded by blanks and the last one followed by them; the compact form uses no
  blanks, the pretty form puts each member on a line of its own.
\<close>

fun members_text :: "string \<Rightarrow> string \<Rightarrow> (string \<times> json) list \<Rightarrow> string" where
  "members_text before after [] = []"
| "members_text before after [m] = before @ member_text m @ after"
| "members_text before after (m # k # ms) =
     before @ member_text m @ '','' @ after @ members_text before after (k # ms)"

lemma skip_blanks: "list_all blank s \<Longrightarrow> dropWhile blank (s @ r) = dropWhile blank r"
  by (induction s) auto

lemma read_member_text:
  assumes "reads_back (snd m)" and "fuel_of (snd m) \<le> n" and "list_all blank before"
    and "r = [] \<or> \<not> token_char (hd r)"
  shows "read_members (Suc n) (before @ member_text m @ r) =
    (case dropWhile blank r of
       [] \<Rightarrow> None
     | d # ds \<Rightarrow>
         if d = CHR ''}'' then Some ([m], ds)
         else if d = CHR '','' then map_option (\<lambda>(ms, r'). (m # ms, r')) (read_members n ds)
         else None)"
  using reads_backD [OF assms(1,2,4)] assms(3)
  by (cases m; hypsubst) (simp add: member_text_def skip_blanks read_quoted read_escape_char_before)

lemma members_read_back:
  assumes "\<And>m. m \<in> set ms \<Longrightarrow> reads_back (snd m)"
    and "list_all blank before" and "list_all blank after"
    and "ms \<noteq> []" and "sum_list (map (\<lambda>m. Suc (fuel_of (snd m))) ms) \<le> n"
    and "after = [] \<or> hd after = CHR 0x0A" and "list_all blank lead"
  shows "read_members n (lead @ members_text before after ms @ CHR ''}'' # r) = Some (ms, r)"
  using assms(1,4-)
proof (induction ms arbitrary: n lead)
  case (Cons m ms)
  obtain k where k: "n = Suc k" "fuel_of (snd m) \<le> k" "sum_list (map (\<lambda>m. Suc (fuel_of (snd m))) ms) \<le> k"
    using Cons.prems(3) by (cases n) auto
  have lead: "list_all blank (lead @ before)"
    using Cons.prems(5) assms(2) by simp
  have m: "reads_back (snd m)"
    using Cons.prems(1) by simp
  show ?case
  proof (cases ms)
    case Nil
    have "after @ CHR ''}'' # r = [] \<or> \<not> token_char (hd (after @ CHR ''}'' # r))"
      using assms(6) by (cases after) auto
    from read_member_text [OF m k(2) lead this] show ?thesis
      using Nil k assms(3) by (simp add: skip_blanks)
  next
    case (Cons m' ms')
    have "read_members k (after @ members_text before after ms @ CHR ''}'' # r) = Some (ms, r)"
      using Cons.IH [of k after] Cons.prems(1) assms(3,6) k(3) Cons by simp
    then show ?thesis
      using read_member_text [OF m k(2) lead, of "CHR '','' # after @ members_text before after ms @ CHR ''}'' # r"]
        Cons k by simp
  qed
qed simp

lemma members_text_compact: "members_text [] [] ms = join_commas (map member_text ms)"
  by (induction "[]::string" "[]::string" ms rule: members_text.induct) simp_all

lemma object_of_Cons:
  "\<exists>f. object_of (m # ms) = f # object_of ms \<and> render_field f = member_text m"
  using render_object_members [of "[m]"] by (auto simp: object_of_map)

lemma members_text_pretty: "members_text padding newline ms = pretty_fields padding (object_of ms)"
proof (induction ms)
  case (Cons m ms)
  obtain f where "object_of (m # ms) = f # object_of ms" "render_field f = member_text m"
    using object_of_Cons by blast
  moreover have "object_of ms = [] \<longleftrightarrow> ms = []"
    by (simp add: object_of_map)
  ultimately show ?case
    using Cons.IH by (cases ms) simp_all
qed (simp add: object_of_map)

lemma array_reads_back:
  assumes "\<And>j. j \<in> set js \<Longrightarrow> reads_back j" and "\<And>j. j \<in> set js \<Longrightarrow> plain_tokens j"
  shows "reads_back (JArray js)"
  unfolding reads_back_def
proof (intro allI impI)
  fix n and r :: string
  assume n: "fuel_of (JArray js) \<le> n"
  obtain m where m: "n = Suc m" "sum_list (map (\<lambda>j. Suc (fuel_of j)) js) \<le> m"
    using n by (cases n) auto
  show "read_json n (write_json (JArray js) @ r) = Some (JArray js, r)"
  proof (cases js)
    case (Cons j ks)
    obtain c cs where c: "write_json j = c # cs" "\<not> blank c" "c \<noteq> CHR '']''"
      using write_json_first [of j] assms(2) [of j] Cons by auto
    obtain cs' where cs': "join_commas (map write_json js) = c # cs'"
      using Cons c(1) by (cases ks) auto
    have "read_items m (join_commas (map write_json js) @ CHR '']'' # r) = Some (js, r)"
      using items_read_back [OF assms(1) _ m(2)] Cons by auto
    then have "read_items m (c # cs' @ CHR '']'' # r) = Some (js, r)"
      by (simp only: cs' append_Cons)
    then show ?thesis
      using m(1) c cs' by (simp only: write_json.simps) simp
  qed (simp add: m)
qed

lemma object_text_reads_back:
  assumes "\<And>m. m \<in> set ms \<Longrightarrow> reads_back (snd m)"
    and "list_all blank before" and "list_all blank after"
    and "after = [] \<or> hd after = CHR 0x0A" and "list_all blank lead"
    and "fuel_of (JObject ms) \<le> n"
  shows "read_json n (CHR ''{'' # lead @ members_text before after ms @ CHR ''}'' # r)
    = Some (JObject ms, r)"
proof -
  obtain m where m: "n = Suc m" "sum_list (map (\<lambda>m. Suc (fuel_of (snd m))) ms) \<le> m"
    using assms(6) by (cases n) auto
  show ?thesis
  proof (cases ms)
    case Nil
    then show ?thesis
      using m assms(5) by (simp add: skip_blanks)
  next
    case (Cons x xs)
    have all: "read_members m (lead @ members_text before after ms @ CHR ''}'' # r) = Some (ms, r)"
      using members_read_back [OF assms(1-3) _ m(2) assms(4,5)] Cons by auto
    have "dropWhile blank (lead @ members_text before after ms @ CHR ''}'' # r) \<noteq> []"
      "hd (dropWhile blank (lead @ members_text before after ms @ CHR ''}'' # r)) = CHR 0x22"
      using assms(2,5) Cons
      by (cases xs; simp add: skip_blanks member_text_def quoted_def)+
    then show ?thesis
      using m(1) all by (cases "dropWhile blank (lead @ members_text before after ms @ CHR ''}'' # r)") simp_all
  qed
qed

lemma document_reads_back: "plain_tokens j \<Longrightarrow> reads_back j"
proof (induction j)
  case (JObject ms)
  have members: "reads_back (snd m)" if "m \<in> set ms" for m
    using JObject.IH [of m "snd m"] JObject.prems that by (cases m) (auto simp: snds.simps)
  show ?case
    unfolding reads_back_def
    using object_text_reads_back [of ms "[]" "[]" "[]"] members
    by (simp add: write_object_members members_text_compact del: write_json.simps fuel_of.simps)
next
  case (JArray js)
  then show ?case
    by (intro array_reads_back) auto
qed (auto simp: string_reads_back token_reads_back)

lemma pretty_reads_back:
  assumes "plain_tokens (JObject ms)" and "fuel_of (JObject ms) \<le> n"
  shows "read_json n (render_json_object_pretty (object_of ms) indent @ r) = Some (JObject ms, r)"
proof -
  have "reads_back (snd m)" if "m \<in> set ms" for m
    using assms(1) that document_reads_back by simp
  from object_text_reads_back [OF this, of ms "replicate indent CHR 0x20" newline newline n r] show ?thesis
    using assms(2) by (simp add: render_json_object_pretty_def members_text_pretty list_all_iff del: fuel_of.simps)
qed

lemma pretty_not_shorter:
  "length (join_commas (map render_field object)) \<le> length (pretty_fields padding object)"
proof (induction object)
  case (Cons f fs)
  then show ?case
    by (cases fs) auto
qed simp

lemma document_read: "plain_tokens j \<Longrightarrow> read_document (write_json j) = Some j"
  using reads_backD [OF document_reads_back, of j "length (write_json j)" "[]"] fuel_within_length [of j]
  by (simp add: read_document_def)

lemma pretty_document_read:
  assumes "plain_tokens (JObject ms)"
  shows "read_document (render_json_object_pretty (object_of ms) indent) = Some (JObject ms)"
proof -
  have "fuel_of (JObject ms) \<le> length (render_json_object (object_of ms))"
    using fuel_within_length [OF assms] by (simp only: write_object)
  also have "\<dots> \<le> length (render_json_object_pretty (object_of ms) indent)"
    using pretty_not_shorter by (simp add: render_json_object_def render_json_object_pretty_def le_SucI)
  finally show ?thesis
    using pretty_reads_back [OF assms, of _ indent "[]"] by (simp add: read_document_def)
qed

lemma status_document:
  "render_status_json status message notes =
     write_json (JObject ([(''status'', JString status), (''message'', JString message)]
       @ (if notes \<noteq> [] then [(''notes'', JArray (map JString notes))] else [])))"
  by (simp add: render_status_json_def make_status_object_def string_field_def raw_field_def
      write_array_of_strings [simplified] render_json_string_array_def comp_def Let_def)

lemma error_document:
  "render_json_object (make_error_object err message) =
     write_json (JObject [(''status'', JString ''error''), (''code'', JString err), (''message'', JString message)])"
  by (simp add: make_error_object_def string_field_def)

lemma count_document:
  "render_json_object (make_count_object name value) =
     write_json (JObject [(''name'', JString name), (''value'', JToken (dec value))])"
  by (simp add: make_count_object_def string_field_def number_field_def)

lemma list_all_dec_nat:
  "(\<And>d. d < 10 \<Longrightarrow> P (digit_char d)) \<Longrightarrow> list_all P (dec_nat n)"
  by (induction n rule: dec_nat.induct) (subst dec_nat.simps; simp)

lemma dec_nat_not_empty [simp]: "dec_nat n \<noteq> []"
  by (subst dec_nat.simps) simp

lemma digits_are_tokens: "d < 10 \<Longrightarrow> token_char (digit_char d)"
proof -
  assume "d < 10"
  then have "d \<in> set [0..<10]"
    by simp
  moreover have "\<forall>d \<in> set [0..<10]. token_char (digit_char d)"
    by code_simp
  ultimately show ?thesis
    by blast
qed

lemma plain_number: "plain_tokens (JToken (dec n))"
  by (simp add: dec_def list_all_dec_nat digits_are_tokens)

section \<open>Text tables\<close>

record text_table =
  tt_headers :: "string list"
  tt_rows :: "string list list"

definition add_row :: "text_table \<Rightarrow> string list \<Rightarrow> text_table" where
  "add_row table row = table\<lparr>tt_rows := tt_rows table @ [row]\<rparr>"

definition widen :: "nat list \<Rightarrow> string list \<Rightarrow> nat list" where
  "widen widths row =
     (let ws = widths @ replicate (length row - length widths) 0
      in map (\<lambda>i. if i < length row then max (ws ! i) (length (row ! i)) else ws ! i) [0..<length ws])"

definition column_widths :: "text_table \<Rightarrow> nat list" where
  "column_widths table = foldl widen (map length (tt_headers table)) (tt_rows table)"

definition render_separator :: "nat list \<Rightarrow> string" where
  "render_separator widths =
     concat (map (\<lambda>w. ''+-'' @ replicate w CHR ''-'' @ ''-'') widths) @ ''+'' @ newline"

definition render_cell :: "nat \<Rightarrow> string \<Rightarrow> string" where
  "render_cell width value = ''| '' @ value @ replicate (width - length value) CHR '' '' @ '' ''"

definition render_cells :: "string list \<Rightarrow> nat list \<Rightarrow> string" where
  "render_cells cells widths =
     concat (map (\<lambda>i. render_cell (widths ! i) (if i < length cells then cells ! i else [])) [0..<length widths])
     @ ''|'' @ newline"

definition render_text_table :: "text_table \<Rightarrow> string" where
  "render_text_table table =
     (let widths = column_widths table
      in render_separator widths @ render_cells (tt_headers table) widths @ render_separator widths
         @ concat (map (\<lambda>row. render_cells row widths) (tt_rows table)) @ render_separator widths)"

text \<open>Every row fits the widths the table computes, whatever the lengths of the rows.\<close>

definition fits :: "string list \<Rightarrow> nat list \<Rightarrow> bool" where
  "fits cells widths \<longleftrightarrow>
     length cells \<le> length widths \<and> (\<forall>i < length cells. length (cells ! i) \<le> widths ! i)"

lemma length_widen [simp]: "length (widen ws row) = max (length ws) (length row)"
  by (simp add: widen_def Let_def)

lemma fits_widen: "fits row (widen ws row)"
  by (simp add: fits_def widen_def Let_def del: upt_Suc)

lemma fits_widen_other: "fits cells ws \<Longrightarrow> fits cells (widen ws row)"
  by (auto simp: fits_def widen_def Let_def nth_append le_max_iff_disj simp del: upt_Suc)

lemma fits_foldl: "fits cells ws \<Longrightarrow> fits cells (foldl widen ws rows)"
  by (induction rows arbitrary: ws) (simp_all add: fits_widen_other)

lemma fits_rows: "row \<in> set rows \<Longrightarrow> fits row (foldl widen ws rows)"
  by (induction rows arbitrary: ws) (auto simp: fits_widen fits_foldl)

lemma row_fits:
  "cells = tt_headers table \<or> cells \<in> set (tt_rows table) \<Longrightarrow> fits cells (column_widths table)"
proof -
  have "fits (tt_headers table) (map length (tt_headers table))"
    by (simp add: fits_def)
  then show "cells = tt_headers table \<or> cells \<in> set (tt_rows table) \<Longrightarrow> ?thesis"
    unfolding column_widths_def by (auto intro: fits_rows fits_foldl)
qed

definition line_length :: "nat list \<Rightarrow> nat" where
  "line_length widths = (\<Sum>w\<leftarrow>widths. w + 3) + 1"

lemma length_separator: "length (render_separator ws) = Suc (line_length ws)"
  by (simp add: render_separator_def line_length_def length_concat comp_def numeral_eq_Suc)

lemma length_cells: "fits cells ws \<Longrightarrow> length (render_cells cells ws) = Suc (line_length ws)"
proof -
  assume "fits cells ws"
  then have "map (\<lambda>i. length (render_cell (ws ! i) (if i < length cells then cells ! i else []))) [0..<length ws]
      = map (\<lambda>i. ws ! i + 3) [0..<length ws]"
    by (auto simp: render_cell_def fits_def)
  also have "\<dots> = map (\<lambda>w. w + 3) ws"
    by (metis (no_types, lifting) map_nth map_map comp_def map_eq_conv)
  finally show ?thesis
    by (simp add: render_cells_def line_length_def length_concat comp_def)
qed

text \<open>All lines of a table have one length, the rule of its widths, and the frame lines are equal.\<close>

lemma table_lines:
  "\<exists>ls. render_text_table table = concat ls \<and> length ls = length (tt_rows table) + 4
     \<and> (\<forall>l \<in> set ls. length l = Suc (line_length (column_widths table)))"
  by (rule exI [where x = "[render_separator (column_widths table), render_cells (tt_headers table) (column_widths table),
         render_separator (column_widths table)]
       @ map (\<lambda>row. render_cells row (column_widths table)) (tt_rows table)
       @ [render_separator (column_widths table)]"])
    (auto simp: render_text_table_def Let_def length_separator intro!: length_cells row_fits)

section \<open>The property of the writer\<close>



end
