(* ===== verification/Metrics.thy ===== *)
theory Metrics
  imports Complex_Main "HOL-Library.Char_ord" "HOL-Library.List_Lexorder" "HOL-Library.Product_Lexorder"
    Grouping Json
begin

text \<open>
  Metric samples, snapshots, rollups, deltas, trends and the latency histogram
  (\<open>src/diagnostics/metrics.cpp\<close>). Doubles are rationals, their rounding is the argument \<open>fl\<close> and
  their printing with a number of decimals the argument \<open>show_double\<close>; infinities and NaN are not
  modelled. \<open>std::sort\<close> is modelled as a stable sort, \<open>std::map\<close> by \<open>omap\<close>.
\<close>

section \<open>Data\<close>

type_synonym metric_tags = "(string, string) omap"

datatype metric_kind = MK_counter | MK_gauge | MK_latency | MK_ratio | MK_bytes

datatype metric_trend = MT_missing | MT_flat | MT_rising | MT_falling | MT_volatile

record metric_identity =
  mi_name :: string
  mi_tags :: metric_tags

record metric_sample =
  mp_identity :: metric_identity
  mp_kind :: metric_kind
  mp_value :: rat
  mp_time_ns :: u64
  mp_unit :: string
  mp_description :: string

record metric_series =
  mq_identity :: metric_identity
  mq_kind :: metric_kind
  mq_unit :: string
  mq_samples :: "metric_sample list"

record metric_rollup =
  mr_identity :: metric_identity
  mr_kind :: metric_kind
  mr_unit :: string
  mr_first_time_ns :: u64
  mr_last_time_ns :: u64
  mr_sample_count :: nat
  mr_min :: rat
  mr_max :: rat
  mr_sum :: rat
  mr_average :: rat
  mr_latest :: rat
  mr_delta :: rat

record metric_delta =
  mx_identity :: metric_identity
  mx_kind :: metric_kind
  mx_unit :: string
  mx_previous :: "rat option"
  mx_current :: "rat option"
  mx_absolute_change :: rat
  mx_relative_change :: rat
  mx_trend :: metric_trend

record metric_snapshot =
  mn_samples :: "metric_sample list"
  mn_capture_time_ns :: u64

record metric_snapshot_summary =
  my_capture_time_ns :: u64
  my_metric_count :: nat
  my_counter_count :: nat
  my_gauge_count :: nat
  my_latency_count :: nat
  my_ratio_count :: nat
  my_bytes_count :: nat
  my_total_counter_value :: rat
  my_total_byte_value :: rat

record snapshot_builder =
  mb_snapshot :: metric_snapshot
  mb_capture_time_ns :: u64

record latency_bucket =
  lb_upper_bound_ns :: u64
  lb_count :: u64

record latency_observation =
  lv_value_ns :: u64
  lv_time_ns :: u64
  lv_tags :: metric_tags

record latency_stats =
  lt_count :: u64
  lt_min_ns :: u64
  lt_max_ns :: u64
  lt_sum_ns :: u64
  lt_mean_ns :: rat
  lt_p50_ns :: rat
  lt_p90_ns :: rat
  lt_p95_ns :: rat
  lt_p99_ns :: rat
  lt_overflow_count :: u64

record latency_histogram =
  lh_buckets :: "latency_bucket list"
  lh_observations :: "latency_observation list"
  lh_overflow_count :: u64

section \<open>Identities\<close>

definition identity_empty :: "metric_identity \<Rightarrow> bool" where
  "identity_empty i \<longleftrightarrow> mi_name i = [] \<and> om_size (mi_tags i) = 0"

definition canonical_metric_key :: "metric_identity \<Rightarrow> string" where
  "canonical_metric_key i =
     mi_name i @ concat (map (\<lambda>(key, value). ''|'' @ key @ ''='' @ value) (om_entries (mi_tags i)))"

definition same_metric_identity :: "metric_identity \<Rightarrow> metric_identity \<Rightarrow> bool" where
  "same_metric_identity left right \<longleftrightarrow> mi_name left = mi_name right \<and> mi_tags left = mi_tags right"

definition make_metric_identity :: "string \<Rightarrow> metric_tags \<Rightarrow> metric_identity" where
  "make_metric_identity name tags = \<lparr>mi_name = name, mi_tags = tags\<rparr>"

definition merge_metric_tags :: "metric_tags \<Rightarrow> metric_tags \<Rightarrow> metric_tags" where
  "merge_metric_tags base overlay = fold (\<lambda>(key, value) m. om_update key value m) (om_entries overlay) base"

definition metric_tag_keys :: "metric_tags \<Rightarrow> string list" where
  "metric_tag_keys tags = map fst (om_entries tags)"

definition metric_kind_name :: "metric_kind \<Rightarrow> string" where
  "metric_kind_name kind = (case kind of
     MK_counter \<Rightarrow> ''counter''
   | MK_gauge \<Rightarrow> ''gauge''
   | MK_latency \<Rightarrow> ''latency''
   | MK_ratio \<Rightarrow> ''ratio''
   | MK_bytes \<Rightarrow> ''bytes'')"

definition parse_metric_kind :: "string \<Rightarrow> metric_kind option" where
  "parse_metric_kind value =
     (if value = ''counter'' then Some MK_counter
      else if value = ''gauge'' then Some MK_gauge
      else if value = ''latency'' then Some MK_latency
      else if value = ''ratio'' then Some MK_ratio
      else if value = ''bytes'' then Some MK_bytes
      else None)"

definition metric_trend_name :: "metric_trend \<Rightarrow> string" where
  "metric_trend_name trend = (case trend of
     MT_missing \<Rightarrow> ''missing''
   | MT_flat \<Rightarrow> ''flat''
   | MT_rising \<Rightarrow> ''rising''
   | MT_falling \<Rightarrow> ''falling''
   | MT_volatile \<Rightarrow> ''volatile'')"

definition sample_order :: "metric_sample \<Rightarrow> u64 \<times> string" where
  "sample_order s = (mp_time_ns s, canonical_metric_key (mp_identity s))"

definition sort_samples_by_time :: "metric_sample list \<Rightarrow> metric_sample list" where
  "sort_samples_by_time samples = sort_key sample_order samples"

section \<open>Snapshots\<close>

definition snapshot_empty :: metric_snapshot where
  "snapshot_empty = \<lparr>mn_samples = [], mn_capture_time_ns = 0\<rparr>"

definition snapshot_add :: "metric_sample \<Rightarrow> metric_snapshot \<Rightarrow> metric_snapshot" where
  "snapshot_add sample snapshot =
     \<lparr>mn_samples = mn_samples snapshot @ [sample],
      mn_capture_time_ns = max (mn_capture_time_ns snapshot) (mp_time_ns sample)\<rparr>"

definition find_by_name :: "metric_snapshot \<Rightarrow> string \<Rightarrow> metric_sample list" where
  "find_by_name snapshot name =
     sort_samples_by_time (filter (\<lambda>s. mi_name (mp_identity s) = name) (mn_samples snapshot))"

definition find_by_tag :: "metric_snapshot \<Rightarrow> string \<Rightarrow> string \<Rightarrow> metric_sample list" where
  "find_by_tag snapshot key value =
     sort_samples_by_time
       (filter (\<lambda>s. om_lookup (mi_tags (mp_identity s)) key = Some value) (mn_samples snapshot))"

text \<open>The loop that keeps the newest of the samples a test selects, the later one on a tie.\<close>

definition newest_where :: "(metric_sample \<Rightarrow> bool) \<Rightarrow> metric_sample list \<Rightarrow> metric_sample option" where
  "newest_where P samples =
     foldl (\<lambda>found s.
       if \<not> P s then found
       else (case found of
               None \<Rightarrow> Some s
             | Some f \<Rightarrow> if mp_time_ns s \<ge> mp_time_ns f then Some s else found)) None samples"

definition latest_by_name :: "metric_snapshot \<Rightarrow> string \<Rightarrow> metric_sample option" where
  "latest_by_name snapshot name = newest_where (\<lambda>s. mi_name (mp_identity s) = name) (mn_samples snapshot)"

definition latest_sample_for :: "metric_sample list \<Rightarrow> metric_identity \<Rightarrow> metric_sample option" where
  "latest_sample_for samples i = newest_where (\<lambda>s. same_metric_identity (mp_identity s) i) samples"

definition latest_by_identity :: "metric_snapshot \<Rightarrow> metric_identity \<Rightarrow> metric_sample option" where
  "latest_by_identity snapshot i = latest_sample_for (mn_samples snapshot) i"

fun count_metric_kind :: "metric_kind \<Rightarrow> metric_snapshot_summary \<Rightarrow> metric_snapshot_summary" where
  "count_metric_kind MK_counter s = s\<lparr>my_counter_count := my_counter_count s + 1\<rparr>"
| "count_metric_kind MK_gauge s = s\<lparr>my_gauge_count := my_gauge_count s + 1\<rparr>"
| "count_metric_kind MK_latency s = s\<lparr>my_latency_count := my_latency_count s + 1\<rparr>"
| "count_metric_kind MK_ratio s = s\<lparr>my_ratio_count := my_ratio_count s + 1\<rparr>"
| "count_metric_kind MK_bytes s = s\<lparr>my_bytes_count := my_bytes_count s + 1\<rparr>"

definition summarize_sample :: "(rat \<Rightarrow> rat) \<Rightarrow> metric_sample \<Rightarrow> metric_snapshot_summary \<Rightarrow> metric_snapshot_summary" where
  "summarize_sample fl sample s =
     (let s = count_metric_kind (mp_kind sample) s;
          s = (if mp_kind sample = MK_counter
               then s\<lparr>my_total_counter_value := fl (my_total_counter_value s + mp_value sample)\<rparr> else s)
      in if mp_kind sample = MK_bytes
         then s\<lparr>my_total_byte_value := fl (my_total_byte_value s + mp_value sample)\<rparr> else s)"

definition snapshot_summary :: "(rat \<Rightarrow> rat) \<Rightarrow> metric_snapshot \<Rightarrow> metric_snapshot_summary" where
  "snapshot_summary fl snapshot =
     fold (summarize_sample fl) (mn_samples snapshot)
       \<lparr>my_capture_time_ns = mn_capture_time_ns snapshot, my_metric_count = length (mn_samples snapshot),
        my_counter_count = 0, my_gauge_count = 0, my_latency_count = 0, my_ratio_count = 0,
        my_bytes_count = 0, my_total_counter_value = 0, my_total_byte_value = 0\<rparr>"

definition builder_empty :: snapshot_builder where
  "builder_empty = \<lparr>mb_snapshot = snapshot_empty, mb_capture_time_ns = 0\<rparr>"

definition builder_capture_time :: "u64 \<Rightarrow> snapshot_builder \<Rightarrow> snapshot_builder" where
  "builder_capture_time time b = b\<lparr>mb_capture_time_ns := time\<rparr>"

definition builder_sample ::
  "metric_kind \<Rightarrow> string \<Rightarrow> string \<Rightarrow> rat \<Rightarrow> metric_tags \<Rightarrow> snapshot_builder \<Rightarrow> snapshot_builder" where
  "builder_sample kind unit name value tags b =
     b\<lparr>mb_snapshot := snapshot_add
         \<lparr>mp_identity = make_metric_identity name tags, mp_kind = kind, mp_value = value,
          mp_time_ns = mb_capture_time_ns b, mp_unit = unit, mp_description = []\<rparr> (mb_snapshot b)\<rparr>"

definition builder_counter :: "string \<Rightarrow> rat \<Rightarrow> metric_tags \<Rightarrow> string \<Rightarrow> snapshot_builder \<Rightarrow> snapshot_builder" where
  "builder_counter name value tags unit = builder_sample MK_counter unit name value tags"

definition builder_gauge :: "string \<Rightarrow> rat \<Rightarrow> metric_tags \<Rightarrow> string \<Rightarrow> snapshot_builder \<Rightarrow> snapshot_builder" where
  "builder_gauge name value tags unit = builder_sample MK_gauge unit name value tags"

definition builder_latency :: "string \<Rightarrow> rat \<Rightarrow> metric_tags \<Rightarrow> snapshot_builder \<Rightarrow> snapshot_builder" where
  "builder_latency name value tags = builder_sample MK_latency ''ns'' name value tags"

definition builder_ratio :: "string \<Rightarrow> rat \<Rightarrow> metric_tags \<Rightarrow> snapshot_builder \<Rightarrow> snapshot_builder" where
  "builder_ratio name value tags = builder_sample MK_ratio ''ratio'' name value tags"

definition builder_bytes :: "string \<Rightarrow> rat \<Rightarrow> metric_tags \<Rightarrow> snapshot_builder \<Rightarrow> snapshot_builder" where
  "builder_bytes name value tags = builder_sample MK_bytes ''bytes'' name value tags"

definition builder_build :: "snapshot_builder \<Rightarrow> metric_snapshot" where
  "builder_build b = mb_snapshot b"

definition builder_reset :: "snapshot_builder \<Rightarrow> snapshot_builder" where
  "builder_reset b = \<lparr>mb_snapshot = snapshot_empty, mb_capture_time_ns = 0\<rparr>"

section \<open>The latency histogram\<close>

definition default_latency_buckets_ns :: "u64 list" where
  "default_latency_buckets_ns =
     [1000, 2500, 5000, 10000, 25000, 50000, 100000, 250000, 500000, 1000000, 2500000, 5000000,
      10000000, 25000000, 50000000, 100000000, 250000000, 500000000, 1000000000]"

definition histogram_with :: "u64 list \<Rightarrow> latency_histogram" where
  "histogram_with bounds =
     \<lparr>lh_buckets = map (\<lambda>bound. \<lparr>lb_upper_bound_ns = bound, lb_count = 0\<rparr>) (remdups_adj (sort bounds)),
      lh_observations = [], lh_overflow_count = 0\<rparr>"

definition histogram_default :: latency_histogram where
  "histogram_default = histogram_with default_latency_buckets_ns"

definition observe :: "u64 \<Rightarrow> u64 \<Rightarrow> metric_tags \<Rightarrow> latency_histogram \<Rightarrow> latency_histogram" where
  "observe value time tags h =
     (let h = h\<lparr>lh_observations := lh_observations h
                 @ [\<lparr>lv_value_ns = value, lv_time_ns = time, lv_tags = tags\<rparr>]\<rparr>;
          i = length (takeWhile (\<lambda>b. lb_upper_bound_ns b < value) (lh_buckets h))
      in if i = length (lh_buckets h) then h\<lparr>lh_overflow_count := lh_overflow_count h + 1\<rparr>
         else h\<lparr>lh_buckets := (lh_buckets h)[i := (lh_buckets h ! i)\<lparr>lb_count := lb_count (lh_buckets h ! i) + 1\<rparr>]\<rparr>)"

text \<open>Merging another histogram; merging a histogram into itself is not defined by the language.\<close>

definition histogram_merge :: "latency_histogram \<Rightarrow> latency_histogram \<Rightarrow> latency_histogram" where
  "histogram_merge other h =
     fold (\<lambda>v h. observe (lv_value_ns v) (lv_time_ns v) (lv_tags v) h) (lh_observations other) h"

definition histogram_clear :: "latency_histogram \<Rightarrow> latency_histogram" where
  "histogram_clear h =
     \<lparr>lh_buckets = map (\<lambda>b. b\<lparr>lb_count := 0\<rparr>) (lh_buckets h), lh_observations = [], lh_overflow_count = 0\<rparr>"

definition histogram_count :: "latency_histogram \<Rightarrow> u64" where
  "histogram_count h = of_nat (length (lh_observations h))"

definition sorted_latency_values :: "latency_observation list \<Rightarrow> u64 list" where
  "sorted_latency_values observations = sort (map lv_value_ns observations)"

definition double_of :: "(rat \<Rightarrow> rat) \<Rightarrow> u64 \<Rightarrow> rat" where
  "double_of fl w = fl (of_nat (unat w))"

text \<open>The interpolated percentile of sorted values that are read as doubles.\<close>

definition percentile_at :: "(rat \<Rightarrow> rat) \<Rightarrow> rat list \<Rightarrow> rat \<Rightarrow> rat" where
  "percentile_at fl values rank =
     (if values = [] then 0
      else if rank \<le> 0 then hd values
      else if rank \<ge> 100 then last values
      else
        let position = fl (fl (rank / 100) * fl (of_nat (length values - 1)));
            lower = nat \<lfloor>position\<rfloor>; upper = nat \<lceil>position\<rceil>
        in if lower = upper then values ! lower
           else let weight = fl (position - fl (of_nat lower))
                in fl (fl (values ! lower * fl (1 - weight)) + fl (values ! upper * weight)))"

definition latency_percentile :: "(rat \<Rightarrow> rat) \<Rightarrow> u64 list \<Rightarrow> rat \<Rightarrow> rat" where
  "latency_percentile fl values rank = percentile_at fl (map (double_of fl) values) rank"

definition percentile :: "(rat \<Rightarrow> rat) \<Rightarrow> rat list \<Rightarrow> rat \<Rightarrow> rat" where
  "percentile fl values rank = percentile_at fl (sort values) rank"

definition histogram_stats :: "(rat \<Rightarrow> rat) \<Rightarrow> latency_histogram \<Rightarrow> latency_stats" where
  "histogram_stats fl h =
     (let sorted = sorted_latency_values (lh_observations h); total = (\<Sum>v\<leftarrow>sorted. v) in
      if lh_observations h = []
      then \<lparr>lt_count = histogram_count h, lt_min_ns = 0, lt_max_ns = 0, lt_sum_ns = 0, lt_mean_ns = 0,
            lt_p50_ns = 0, lt_p90_ns = 0, lt_p95_ns = 0, lt_p99_ns = 0,
            lt_overflow_count = lh_overflow_count h\<rparr>
      else \<lparr>lt_count = histogram_count h, lt_min_ns = hd sorted, lt_max_ns = last sorted, lt_sum_ns = total,
            lt_mean_ns = fl (double_of fl total / double_of fl (histogram_count h)),
            lt_p50_ns = latency_percentile fl sorted 50, lt_p90_ns = latency_percentile fl sorted 90,
            lt_p95_ns = latency_percentile fl sorted 95, lt_p99_ns = latency_percentile fl sorted 99,
            lt_overflow_count = lh_overflow_count h\<rparr>)"

definition observations_between :: "latency_histogram \<Rightarrow> u64 \<Rightarrow> u64 \<Rightarrow> latency_observation list" where
  "observations_between h start_ns end_ns =
     filter (\<lambda>v. lv_time_ns v \<ge> start_ns \<and> lv_time_ns v \<le> end_ns) (lh_observations h)"

definition observations_with_tag :: "latency_histogram \<Rightarrow> string \<Rightarrow> string \<Rightarrow> latency_observation list" where
  "observations_with_tag h key value =
     filter (\<lambda>v. om_lookup (lv_tags v) key = Some value) (lh_observations h)"

section \<open>Series, rollups, deltas and trends\<close>

definition rollup_samples ::
  "(rat \<Rightarrow> rat) \<Rightarrow> metric_identity \<Rightarrow> metric_kind \<Rightarrow> string \<Rightarrow> metric_sample list \<Rightarrow> metric_rollup" where
  "rollup_samples fl i kind unit samples =
     (let r = \<lparr>mr_identity = i, mr_kind = kind, mr_unit = unit, mr_first_time_ns = 0, mr_last_time_ns = 0,
                mr_sample_count = length samples, mr_min = 0, mr_max = 0, mr_sum = 0, mr_average = 0,
                mr_latest = 0, mr_delta = 0\<rparr>
      in if samples = [] then r
         else
           let ordered = sort_samples_by_time samples;
               values = map mp_value ordered;
               total = foldl (\<lambda>acc v. fl (acc + v)) 0 values
           in r\<lparr>mr_first_time_ns := mp_time_ns (hd ordered), mr_last_time_ns := mp_time_ns (last ordered),
                mr_latest := last values, mr_delta := fl (last values - hd values),
                mr_min := foldl min (hd values) values, mr_max := foldl max (hd values) values,
                mr_sum := total, mr_average := fl (total / fl (of_nat (length ordered)))\<rparr>)"

definition rollup_series :: "(rat \<Rightarrow> rat) \<Rightarrow> metric_series list \<Rightarrow> metric_rollup list" where
  "rollup_series fl series =
     sort_key (\<lambda>r. canonical_metric_key (mr_identity r))
       (map (\<lambda>q. rollup_samples fl (mq_identity q) (mq_kind q) (mq_unit q) (mq_samples q)) series)"

definition fresh_series :: metric_series where
  "fresh_series =
     \<lparr>mq_identity = \<lparr>mi_name = [], mi_tags = om_empty\<rparr>, mq_kind = MK_gauge, mq_unit = [], mq_samples = []\<rparr>"

definition add_to_series :: "metric_sample \<Rightarrow> metric_series \<Rightarrow> metric_series" where
  "add_to_series sample q =
     (let q = (if identity_empty (mq_identity q)
               then q\<lparr>mq_identity := mp_identity sample, mq_kind := mp_kind sample, mq_unit := mp_unit sample\<rparr>
               else q)
      in q\<lparr>mq_samples := mq_samples q @ [sample]\<rparr>)"

definition group_metric_series :: "metric_sample list \<Rightarrow> metric_series list" where
  "group_metric_series samples =
     map (\<lambda>q. q\<lparr>mq_samples := sort_samples_by_time (mq_samples q)\<rparr>)
       (om_values (group_by (\<lambda>s. canonical_metric_key (mp_identity s)) fresh_series add_to_series samples))"

definition relative_epsilon :: rat where
  "relative_epsilon = 1 / 1000000"

definition almost_equal :: "(rat \<Rightarrow> rat) \<Rightarrow> rat \<Rightarrow> rat \<Rightarrow> rat \<Rightarrow> bool" where
  "almost_equal fl left right epsilon \<longleftrightarrow> \<bar>fl (left - right)\<bar> \<le> fl epsilon"

definition safe_relative_change :: "(rat \<Rightarrow> rat) \<Rightarrow> rat \<Rightarrow> rat \<Rightarrow> rat" where
  "safe_relative_change fl previous current =
     (if \<bar>previous\<bar> < fl relative_epsilon then (if current = 0 then 0 else 1)
      else fl (fl (current - previous) / \<bar>previous\<bar>))"

definition fresh_delta :: metric_delta where
  "fresh_delta =
     \<lparr>mx_identity = \<lparr>mi_name = [], mi_tags = om_empty\<rparr>, mx_kind = MK_gauge, mx_unit = [], mx_previous = None,
      mx_current = None, mx_absolute_change = 0, mx_relative_change = 0, mx_trend = MT_missing\<rparr>"

definition note_previous :: "metric_sample \<Rightarrow> (string, metric_delta) omap \<Rightarrow> (string, metric_delta) omap" where
  "note_previous sample m =
     (let key = canonical_metric_key (mp_identity sample)
      in om_update key ((om_get fresh_delta m key)\<lparr>mx_identity := mp_identity sample, mx_kind := mp_kind sample,
           mx_unit := mp_unit sample, mx_previous := Some (mp_value sample)\<rparr>) m)"

definition note_current :: "metric_sample \<Rightarrow> (string, metric_delta) omap \<Rightarrow> (string, metric_delta) omap" where
  "note_current sample m =
     (let key = canonical_metric_key (mp_identity sample)
      in om_update key ((om_get fresh_delta m key)\<lparr>mx_identity := mp_identity sample, mx_kind := mp_kind sample,
           mx_unit := mp_unit sample, mx_current := Some (mp_value sample)\<rparr>) m)"

definition finish_delta :: "(rat \<Rightarrow> rat) \<Rightarrow> metric_delta \<Rightarrow> metric_delta" where
  "finish_delta fl d =
     (case (mx_previous d, mx_current d) of
        (Some p, Some c) \<Rightarrow>
          (let change = fl (c - p)
           in d\<lparr>mx_absolute_change := change, mx_relative_change := safe_relative_change fl p c,
                mx_trend := (if almost_equal fl change 0 relative_epsilon then MT_flat
                             else if change > 0 then MT_rising else MT_falling)\<rparr>)
      | _ \<Rightarrow> d\<lparr>mx_trend := MT_missing\<rparr>)"

definition compare_metric_snapshots ::
  "(rat \<Rightarrow> rat) \<Rightarrow> metric_snapshot \<Rightarrow> metric_snapshot \<Rightarrow> metric_delta list" where
  "compare_metric_snapshots fl previous current =
     map (finish_delta fl)
       (om_values (fold note_current (mn_samples current) (fold note_previous (mn_samples previous) om_empty)))"

fun steps_of :: "(rat \<Rightarrow> rat) \<Rightarrow> rat list \<Rightarrow> rat list" where
  "steps_of fl (a # b # vs) = fl (b - a) # steps_of fl (b # vs)"
| "steps_of fl _ = []"

definition classify_metric_trend :: "(rat \<Rightarrow> rat) \<Rightarrow> metric_sample list \<Rightarrow> rat \<Rightarrow> metric_trend" where
  "classify_metric_trend fl samples noise_floor =
     (if length samples < 2 then MT_missing
      else
        let diffs = steps_of fl (map mp_value (sort_samples_by_time samples));
            flat = length (filter (\<lambda>d. \<bar>d\<bar> \<le> noise_floor) diffs);
            rising = length (filter (\<lambda>d. \<not> \<bar>d\<bar> \<le> noise_floor \<and> d > 0) diffs);
            falling = length (filter (\<lambda>d. \<not> \<bar>d\<bar> \<le> noise_floor \<and> \<not> d > 0) diffs)
        in if flat = length samples - 1 then MT_flat
           else if rising > 0 \<and> falling > 0 then MT_volatile
           else if rising > falling then MT_rising else MT_falling)"

definition filter_metrics_by_time :: "metric_sample list \<Rightarrow> u64 \<Rightarrow> u64 \<Rightarrow> metric_sample list" where
  "filter_metrics_by_time samples start_ns end_ns =
     sort_samples_by_time (filter (\<lambda>s. mp_time_ns s \<ge> start_ns \<and> mp_time_ns s \<le> end_ns) samples)"

definition filter_metrics_by_name_prefix :: "metric_sample list \<Rightarrow> string \<Rightarrow> metric_sample list" where
  "filter_metrics_by_name_prefix samples pre =
     sort_samples_by_time
       (filter (\<lambda>s. take (length pre) (mi_name (mp_identity s)) = pre) samples)"

section \<open>Rendering\<close>

definition render_tags :: "metric_tags \<Rightarrow> string" where
  "render_tags tags = join_commas (map (\<lambda>(key, value). key @ ''='' @ value) (om_entries tags))"

definition tags_json :: "metric_tags \<Rightarrow> string" where
  "tags_json tags =
     render_json_object (foldl (\<lambda>object (key, value). string_field object key value) [] (om_entries tags))"

definition sample_to_json :: "(nat \<Rightarrow> rat \<Rightarrow> string) \<Rightarrow> metric_sample \<Rightarrow> json_object" where
  "sample_to_json show_double s =
     (let object = string_field [] ''name'' (mi_name (mp_identity s));
          object = string_field object ''kind'' (metric_kind_name (mp_kind s));
          object = raw_field object ''tags'' (tags_json (mi_tags (mp_identity s)));
          object = raw_field object ''value'' (show_double 6 (mp_value s));
          object = number_field object ''time_ns'' (mp_time_ns s);
          object = string_field object ''unit'' (mp_unit s)
      in if mp_description s \<noteq> [] then string_field object ''description'' (mp_description s) else object)"

definition bucket_to_json :: "latency_bucket \<Rightarrow> json_object" where
  "bucket_to_json b =
     number_field (number_field [] ''upper_bound_ns'' (lb_upper_bound_ns b)) ''count'' (lb_count b)"

definition buckets_json :: "latency_bucket list \<Rightarrow> string" where
  "buckets_json buckets = render_json_array (map bucket_to_json buckets)"

definition format_metric_value :: "(rat \<Rightarrow> rat) \<Rightarrow> (nat \<Rightarrow> rat \<Rightarrow> string) \<Rightarrow> rat \<Rightarrow> string \<Rightarrow> string" where
  "format_metric_value fl show_double value unit =
     (if unit = ''ratio'' then show_double 2 (fl (value * 100)) @ ''%''
      else if unit = ''ns'' then
        (if value \<ge> 1000000 then show_double 3 (fl (value / 1000000)) @ ''ms''
         else if value \<ge> 1000 then show_double 3 (fl (value / 1000)) @ ''us''
         else show_double 0 value @ ''ns'')
      else if unit = ''bytes'' then
        (if value \<ge> 1024 * 1024 then show_double 2 (fl (value / (1024 * 1024))) @ ''MiB''
         else if value \<ge> 1024 then show_double 2 (fl (value / 1024)) @ ''KiB''
         else show_double 0 value @ ''B'')
      else show_double 3 value @ unit)"

definition render_metric_snapshot_text ::
  "(rat \<Rightarrow> rat) \<Rightarrow> (nat \<Rightarrow> rat \<Rightarrow> string) \<Rightarrow> metric_snapshot \<Rightarrow> string" where
  "render_metric_snapshot_text fl show_double snapshot =
     render_text_table
       \<lparr>tt_headers = [''metric'', ''kind'', ''tags'', ''value'', ''time_ns''],
        tt_rows = map (\<lambda>s. [mi_name (mp_identity s), metric_kind_name (mp_kind s),
          render_tags (mi_tags (mp_identity s)), format_metric_value fl show_double (mp_value s) (mp_unit s),
          dec (mp_time_ns s)]) (mn_samples snapshot)\<rparr>"

definition render_metric_snapshot_json ::
  "(rat \<Rightarrow> rat) \<Rightarrow> (nat \<Rightarrow> rat \<Rightarrow> string) \<Rightarrow> metric_snapshot \<Rightarrow> string" where
  "render_metric_snapshot_json fl show_double snapshot =
     (let summary = snapshot_summary fl snapshot;
          root = number_field [] ''capture_time_ns'' (mn_capture_time_ns snapshot);
          root = number_field root ''metric_count'' (of_nat (length (mn_samples snapshot)));
          root = number_field root ''counter_count'' (of_nat (my_counter_count summary));
          root = number_field root ''gauge_count'' (of_nat (my_gauge_count summary));
          root = number_field root ''latency_count'' (of_nat (my_latency_count summary));
          root = number_field root ''ratio_count'' (of_nat (my_ratio_count summary));
          root = number_field root ''bytes_count'' (of_nat (my_bytes_count summary))
      in render_json_object
           (raw_field root ''samples'' (render_json_array (map (sample_to_json show_double) (mn_samples snapshot)))))"

definition render_metric_rollups_text ::
  "(rat \<Rightarrow> rat) \<Rightarrow> (nat \<Rightarrow> rat \<Rightarrow> string) \<Rightarrow> metric_rollup list \<Rightarrow> string" where
  "render_metric_rollups_text fl show_double rollups =
     render_text_table
       \<lparr>tt_headers = [''metric'', ''kind'', ''samples'', ''min'', ''max'', ''avg'', ''latest'', ''delta''],
        tt_rows = map (\<lambda>r. [canonical_metric_key (mr_identity r), metric_kind_name (mr_kind r),
          dec_nat (mr_sample_count r), format_metric_value fl show_double (mr_min r) (mr_unit r),
          format_metric_value fl show_double (mr_max r) (mr_unit r),
          format_metric_value fl show_double (mr_average r) (mr_unit r),
          format_metric_value fl show_double (mr_latest r) (mr_unit r),
          format_metric_value fl show_double (mr_delta r) (mr_unit r)]) rollups\<rparr>"

definition render_metric_deltas_text ::
  "(rat \<Rightarrow> rat) \<Rightarrow> (nat \<Rightarrow> rat \<Rightarrow> string) \<Rightarrow> metric_delta list \<Rightarrow> string" where
  "render_metric_deltas_text fl show_double deltas =
     (let show_value = (\<lambda>v unit. case v of None \<Rightarrow> ''-'' | Some x \<Rightarrow> format_metric_value fl show_double x unit)
      in render_text_table
       \<lparr>tt_headers = [''metric'', ''kind'', ''previous'', ''current'', ''change'', ''trend''],
        tt_rows = map (\<lambda>d. [canonical_metric_key (mx_identity d), metric_kind_name (mx_kind d),
          show_value (mx_previous d) (mx_unit d), show_value (mx_current d) (mx_unit d),
          format_metric_value fl show_double (mx_absolute_change d) (mx_unit d),
          metric_trend_name (mx_trend d)]) deltas\<rparr>)"

definition render_latency_histogram_text ::
  "(rat \<Rightarrow> rat) \<Rightarrow> (nat \<Rightarrow> rat \<Rightarrow> string) \<Rightarrow> latency_histogram \<Rightarrow> string" where
  "render_latency_histogram_text fl show_double h =
     (let stats = histogram_stats fl h; show_ns = (\<lambda>v. format_metric_value fl show_double v ''ns'')
      in ''latency_summary'' @ newline
       @ render_text_table
           \<lparr>tt_headers = [''count'', ''min'', ''mean'', ''p50'', ''p90'', ''p95'', ''p99'', ''max'', ''overflow''],
            tt_rows = [[dec (lt_count stats), show_ns (double_of fl (lt_min_ns stats)), show_ns (lt_mean_ns stats),
              show_ns (lt_p50_ns stats), show_ns (lt_p90_ns stats), show_ns (lt_p95_ns stats),
              show_ns (lt_p99_ns stats), show_ns (double_of fl (lt_max_ns stats)), dec (lt_overflow_count stats)]]\<rparr>
       @ ''latency_buckets'' @ newline
       @ render_text_table
           \<lparr>tt_headers = [''le_ns'', ''count''],
            tt_rows = map (\<lambda>b. [dec (lb_upper_bound_ns b), dec (lb_count b)]) (lh_buckets h)\<rparr>)"

definition render_latency_histogram_json ::
  "(rat \<Rightarrow> rat) \<Rightarrow> (nat \<Rightarrow> rat \<Rightarrow> string) \<Rightarrow> latency_histogram \<Rightarrow> string" where
  "render_latency_histogram_json fl show_double h =
     (let stats = histogram_stats fl h;
          summary = number_field [] ''count'' (lt_count stats);
          summary = number_field summary ''min_ns'' (lt_min_ns stats);
          summary = number_field summary ''max_ns'' (lt_max_ns stats);
          summary = number_field summary ''sum_ns'' (lt_sum_ns stats);
          summary = raw_field summary ''mean_ns'' (show_double 6 (lt_mean_ns stats));
          summary = raw_field summary ''p50_ns'' (show_double 6 (lt_p50_ns stats));
          summary = raw_field summary ''p90_ns'' (show_double 6 (lt_p90_ns stats));
          summary = raw_field summary ''p95_ns'' (show_double 6 (lt_p95_ns stats));
          summary = raw_field summary ''p99_ns'' (show_double 6 (lt_p99_ns stats));
          summary = number_field summary ''overflow_count'' (lt_overflow_count stats)
      in render_json_object
           (raw_field (raw_field [] ''summary'' (render_json_object summary))
             ''buckets'' (buckets_json (lh_buckets h))))"

section \<open>The histogram counts every observation once\<close>

datatype histogram_call =
    HC_observe u64 u64 metric_tags
  | HC_merge latency_histogram
  | HC_clear

fun histogram_step :: "histogram_call \<Rightarrow> latency_histogram \<Rightarrow> latency_histogram" where
  "histogram_step (HC_observe value time tags) h = observe value time tags h"
| "histogram_step (HC_merge other) h = histogram_merge other h"
| "histogram_step HC_clear h = histogram_clear h"

text \<open>The values a bucket stands for: those above the previous bound and within its own.\<close>

definition bucket_of :: "u64 list \<Rightarrow> u64 \<Rightarrow> nat" where
  "bucket_of bounds value = length (takeWhile (\<lambda>b. b < value) bounds)"

definition counted :: "u64 list \<Rightarrow> latency_histogram \<Rightarrow> bool" where
  "counted bounds h \<longleftrightarrow>
     map lb_upper_bound_ns (lh_buckets h) = bounds
     \<and> (\<forall>i < length bounds. lb_count (lh_buckets h ! i)
          = of_nat (length (filter (\<lambda>v. bucket_of bounds (lv_value_ns v) = i) (lh_observations h))))
     \<and> lh_overflow_count h
          = of_nat (length (filter (\<lambda>v. bucket_of bounds (lv_value_ns v) = length bounds) (lh_observations h)))"

lemma counted_observe:
  assumes "counted bounds h"
  shows "counted bounds (observe value time tags h)"
proof -
  define i where "i = bucket_of bounds value"
  define v where "v = \<lparr>lv_value_ns = value, lv_time_ns = time, lv_tags = tags\<rparr>"
  have bounds: "map lb_upper_bound_ns (lh_buckets h) = bounds"
    using assms by (simp add: counted_def)
  then have len: "length (lh_buckets h) = length bounds"
    by (metis length_map)
  have i: "length (takeWhile (\<lambda>b. lb_upper_bound_ns b < value) (lh_buckets h)) = i"
    unfolding i_def bucket_of_def bounds [symmetric] by (simp add: takeWhile_map comp_def)
  have v: "bucket_of bounds (lv_value_ns v) = i"
    by (simp add: i_def v_def)
  show ?thesis
  proof (cases "i = length bounds")
    case True
    then show ?thesis
      using assms v by (simp add: observe_def i len counted_def Let_def flip: v_def)
  next
    case False
    then have less: "i < length bounds"
      using length_takeWhile_le [of "\<lambda>b. b < value" bounds] by (simp add: i_def bucket_of_def)
    have at: "lb_upper_bound_ns (lh_buckets h ! i) = bounds ! i"
      using less len bounds by (metis nth_map)
    have "map lb_upper_bound_ns ((lh_buckets h)[i := (lh_buckets h ! i)\<lparr>lb_count := c\<rparr>]) = bounds" for c
      by (simp add: map_update bounds at)
    then show ?thesis
      using assms v False less by (simp add: observe_def i len counted_def Let_def nth_list_update flip: v_def)
  qed
qed

lemma counted_fold:
  "counted bounds h \<Longrightarrow>
     counted bounds (fold (\<lambda>v h. observe (lv_value_ns v) (lv_time_ns v) (lv_tags v) h) vs h)"
  by (induction vs arbitrary: h) (simp_all add: counted_observe)

lemma counted_start: "counted (remdups_adj (sort bounds)) (histogram_with bounds)"
  by (auto simp: counted_def histogram_with_def comp_def)

lemma counted_clear:
  assumes "counted bounds h"
  shows "counted bounds (histogram_clear h)"
proof -
  have "length (lh_buckets h) = length bounds"
    using assms by (auto simp: counted_def)
  then show ?thesis
    using assms by (simp add: counted_def histogram_clear_def comp_def)
qed

lemma counted_step: "counted bounds h \<Longrightarrow> counted bounds (histogram_step call h)"
  by (cases call) (simp_all add: counted_observe counted_clear histogram_merge_def counted_fold)

lemma remdups_adj_increase: "sorted xs \<Longrightarrow> sorted_wrt (<) (remdups_adj (xs :: u64 list))"
  by (induction xs rule: remdups_adj.induct) auto

lemma bounds_increase: "sorted_wrt (<) (remdups_adj (sort (xs :: u64 list)))"
  by (rule remdups_adj_increase) simp

interpretation latency: state_machine "histogram_with bounds" histogram_step "counted (remdups_adj (sort bounds))"
  for bounds
  by unfold_locales (rule counted_start, rule counted_step)

lemma bucket_of_bound:
  assumes "sorted_wrt (<) bounds" and "i < length bounds"
  shows "bucket_of bounds value \<le> i \<longleftrightarrow> value \<le> bounds ! i"
proof
  assume "bucket_of bounds value \<le> i"
  then have "\<not> bounds ! bucket_of bounds value < value" "bounds ! bucket_of bounds value \<le> bounds ! i"
    using assms nth_length_takeWhile [of "\<lambda>b. b < value" bounds]
      sorted_wrt_nth_less [OF assms(1), of "bucket_of bounds value" i]
    by (auto simp: bucket_of_def le_less dest: order_le_less_trans [OF length_takeWhile_le])
  then show "value \<le> bounds ! i"
    by simp
next
  assume le: "value \<le> bounds ! i"
  show "bucket_of bounds value \<le> i"
  proof (rule ccontr)
    assume "\<not> bucket_of bounds value \<le> i"
    then have "bounds ! i < value"
      using set_takeWhileD [of _ "\<lambda>b. b < value" bounds] nth_mem [of i "takeWhile (\<lambda>b. b < value) bounds"]
      by (simp add: bucket_of_def takeWhile_nth)
    with le show False
      by simp
  qed
qed

lemma bucket_of_interval:
  assumes "sorted_wrt (<) bounds" and "i < length bounds"
  shows "bucket_of bounds value = i \<longleftrightarrow> (i = 0 \<or> bounds ! (i - 1) < value) \<and> value \<le> bounds ! i"
proof (cases i)
  case 0
  then show ?thesis
    using bucket_of_bound [OF assms] by simp
next
  case (Suc k)
  have "bucket_of bounds value = i \<longleftrightarrow> \<not> bucket_of bounds value \<le> k \<and> bucket_of bounds value \<le> i"
    using Suc by auto
  then show ?thesis
    using bucket_of_bound [OF assms] bucket_of_bound [OF assms(1), of k] assms(2) Suc by auto
qed

lemma bucket_of_overflow: "bucket_of bounds value = length bounds \<longleftrightarrow> (\<forall>b \<in> set bounds. b < value)"
proof -
  have "takeWhile (\<lambda>b. b < value) bounds = bounds \<longleftrightarrow> bucket_of bounds value = length bounds"
    unfolding bucket_of_def by (metis takeWhile_eq_take take_all_iff order_refl)
  then show ?thesis
    by (simp add: takeWhile_eq_all_conv)
qed

lemma sum_by_class:
  assumes "\<And>x. x \<in> set xs \<Longrightarrow> f x \<le> (n :: nat)"
  shows "(\<Sum>i\<in>{..n}. length (filter (\<lambda>x. f x = i) xs)) = length xs"
  using assms
proof (induction xs)
  case (Cons x xs)
  have "(\<Sum>i\<in>{..n}. length (filter (\<lambda>y. f y = i) (x # xs)))
      = (\<Sum>i\<in>{..n}. (if i = f x then 1 else 0) + length (filter (\<lambda>y. f y = i) xs))"
    by (rule sum.cong) auto
  also have "\<dots> = 1 + (\<Sum>i\<in>{..n}. length (filter (\<lambda>y. f y = i) xs))"
    using Cons.prems [of x] by (simp add: sum.distrib)
  finally show ?case
    using Cons by simp
qed simp

lemma counted_total:
  assumes "counted bounds h"
  shows "(\<Sum>b\<leftarrow>lh_buckets h. lb_count b) + lh_overflow_count h = histogram_count h"
proof -
  let ?n = "length bounds"
  let ?members = "\<lambda>i. length (filter (\<lambda>v. bucket_of bounds (lv_value_ns v) = i) (lh_observations h))"
  have len: "length (lh_buckets h) = ?n"
    using assms by (auto simp: counted_def)
  have "(\<Sum>b\<leftarrow>lh_buckets h. lb_count b) = (\<Sum>i<?n. lb_count (lh_buckets h ! i))"
    by (simp add: sum_list_sum_nth len atLeast0LessThan)
  also have "\<dots> = (\<Sum>i<?n. of_nat (?members i))"
    using assms by (simp add: counted_def)
  finally have "(\<Sum>b\<leftarrow>lh_buckets h. lb_count b) + lh_overflow_count h = of_nat ((\<Sum>i<?n. ?members i) + ?members ?n)"
    using assms by (simp add: counted_def)
  also have "(\<Sum>i<?n. ?members i) + ?members ?n = (\<Sum>i\<in>{..?n}. ?members i)"
    by (simp add: lessThan_Suc_atMost [symmetric])
  also have "\<dots> = length (lh_observations h)"
    by (rule sum_by_class) (simp add: bucket_of_def length_takeWhile_le)
  finally show ?thesis
    by (simp add: histogram_count_def)
qed

text \<open>
  C35. After any calls, a latency histogram has one bucket per given bound, in increasing
  order; a bucket's count is the number of recorded observations above the previous bound and
  within its own, the overflow count the number above every bound, and together they are the
  number of observations.
\<close>

theorem histogram_exact:
  fixes bounds :: "u64 list" and calls :: "histogram_call list"
  defines "h \<equiv> fold histogram_step calls (histogram_with bounds)"
  defines "bs \<equiv> map lb_upper_bound_ns (lh_buckets h)"
  shows "sorted_wrt (<) bs \<and> set bs = set bounds
    \<and> (\<forall>i < length bs. lb_count (lh_buckets h ! i)
        = of_nat (length (filter (\<lambda>v. (i = 0 \<or> bs ! (i - 1) < lv_value_ns v) \<and> lv_value_ns v \<le> bs ! i)
            (lh_observations h))))
    \<and> lh_overflow_count h
        = of_nat (length (filter (\<lambda>v. \<forall>b \<in> set bs. b < lv_value_ns v) (lh_observations h)))
    \<and> (\<Sum>b\<leftarrow>lh_buckets h. lb_count b) + lh_overflow_count h = histogram_count h"
proof -
  have h: "counted (remdups_adj (sort bounds)) h"
    unfolding h_def by (rule latency.inv_run)
  then have bs: "bs = remdups_adj (sort bounds)"
    by (simp add: bs_def counted_def)
  have sorted: "sorted_wrt (<) bs"
    unfolding bs by (rule bounds_increase)
  have counts: "lb_count (lh_buckets h ! i)
      = of_nat (length (filter (\<lambda>v. (i = 0 \<or> bs ! (i - 1) < lv_value_ns v) \<and> lv_value_ns v \<le> bs ! i)
          (lh_observations h)))" if "i < length bs" for i
    using h that by (simp only: counted_def bucket_of_interval [OF sorted that] flip: bs)
  show ?thesis
    using h sorted counts counted_total [OF h]
    by (simp add: counted_def bucket_of_overflow bs)
qed

lemma histogram_exact_witness:
  "lb_count (lh_buckets (fold histogram_step [HC_observe 7 0 om_empty] (histogram_with [10])) ! 0) = 1"
  using histogram_exact [where bounds = "[10]" and calls = "[HC_observe 7 0 om_empty]"]
  by (simp add: histogram_with_def observe_def Let_def word_less_nat_alt word_le_nat_alt)

section \<open>Grouping\<close>

abbreviation sample_key :: "metric_sample \<Rightarrow> string" where
  "sample_key s \<equiv> canonical_metric_key (mp_identity s)"

lemma series_samples: "mq_samples (fold add_to_series ss q) = mq_samples q @ ss"
  by (induction ss arbitrary: q) (simp_all add: add_to_series_def Let_def)

text \<open>The series are the samples by key, in the order of the keys, each in the order of time.\<close>

lemma group_exact:
  "map mq_samples (group_metric_series samples)
     = map (\<lambda>k. sort_samples_by_time (members sample_key samples k)) (group_keys sample_key samples)"
  by (simp add: group_metric_series_def group_values series_samples fresh_series_def)

text \<open>
  The key of an identity is not unique: a tag that is spelled out in the name gives the same key
  as the tag itself, so the samples of two identities fall into one series.
\<close>

lemma grouping_merges_identities:
  "canonical_metric_key (make_metric_identity ''a|k=v'' om_empty)
     = canonical_metric_key (make_metric_identity ''a'' (om_update ''k'' ''v'' om_empty))
   \<and> \<not> same_metric_identity (make_metric_identity ''a|k=v'' om_empty)
       (make_metric_identity ''a'' (om_update ''k'' ''v'' om_empty))"
  by (simp add: canonical_metric_key_def make_metric_identity_def same_metric_identity_def)

end
