(* ===== verification/Alerts.thy ===== *)
theory Alerts
  imports Metrics
begin

text \<open>
  Alert rules over metric samples (\<open>src/diagnostics/alert_rules.cpp\<close>): threshold, missing, stale,
  rate and trend conditions, suppression intervals, the duration gate, summaries and reports.
  As in \<open>Metrics\<close> doubles are rationals rounded by \<open>fl\<close> and printed by \<open>show_double\<close>. The last
  section says when a rule fires, over the sets of samples its condition selects.
\<close>

section \<open>Data\<close>

datatype alert_severity = SV_info | SV_warning | SV_critical

datatype alert_comparator = CO_less_than | CO_less_or_equal | CO_greater_than | CO_greater_or_equal | CO_equal | CO_not_equal

datatype alert_condition_kind = AK_threshold | AK_missing | AK_stale | AK_rate_of_change | AK_trend

datatype alert_state = AS_inactive | AS_active | AS_suppressed | AS_no_data

record threshold_condition =
  ct_metric_name :: string
  ct_required_tags :: metric_tags
  ct_comparator :: alert_comparator
  ct_threshold :: rat

record missing_condition =
  cm_metric_name :: string
  cm_required_tags :: metric_tags

record stale_condition =
  cs_metric_name :: string
  cs_required_tags :: metric_tags
  cs_max_age_ns :: u64

record rate_condition =
  cr_metric_name :: string
  cr_required_tags :: metric_tags
  cr_comparator :: alert_comparator
  cr_threshold_per_second :: rat

record trend_condition =
  cq_metric_name :: string
  cq_required_tags :: metric_tags
  cq_expected :: metric_trend
  cq_noise_floor :: rat

record alert_condition =
  ak_kind :: alert_condition_kind
  ak_threshold :: threshold_condition
  ak_missing :: missing_condition
  ak_stale :: stale_condition
  ak_rate :: rate_condition
  ak_trend :: trend_condition

record alert_suppression =
  su_reason :: string
  su_start_time_ns :: u64
  su_end_time_ns :: u64

record alert_rule =
  al_id :: string
  al_title :: string
  al_description :: string
  al_severity :: alert_severity
  al_condition :: alert_condition
  al_evaluation_window_ns :: u64
  al_min_duration_ns :: u64
  al_labels :: "string list"
  al_suppressions :: "alert_suppression list"
  al_enabled :: bool

record alert_evidence =
  av_metric_name :: string
  av_tags :: metric_tags
  av_observed_value :: "rat option"
  av_comparison_value :: "rat option"
  av_observed_time_ns :: u64
  av_message :: string

record alert_evaluation =
  ax_rule_id :: string
  ax_title :: string
  ax_severity :: alert_severity
  ax_state :: alert_state
  ax_evaluated_at_ns :: u64
  ax_active_since_ns :: u64
  ax_active_duration_ns :: u64
  ax_reason :: string
  ax_labels :: "string list"
  ax_evidence :: "alert_evidence list"

record alert_summary =
  ay_evaluated_at_ns :: u64
  ay_total_rules :: nat
  ay_disabled_rules :: nat
  ay_inactive_rules :: nat
  ay_active_rules :: nat
  ay_suppressed_rules :: nat
  ay_no_data_rules :: nat
  ay_critical_active :: nat
  ay_warning_active :: nat
  ay_info_active :: nat

record alert_context =
  ac_current :: metric_snapshot
  ac_history :: "metric_sample list"
  ac_evaluation_time_ns :: u64

type_synonym alert_rule_set = "alert_rule list"

section \<open>Names\<close>

definition alert_severity_name :: "alert_severity \<Rightarrow> string" where
  "alert_severity_name s = (case s of SV_info \<Rightarrow> ''info'' | SV_warning \<Rightarrow> ''warning'' | SV_critical \<Rightarrow> ''critical'')"

definition parse_alert_severity :: "string \<Rightarrow> alert_severity option" where
  "parse_alert_severity value =
     (if value = ''info'' then Some SV_info
      else if value = ''warning'' then Some SV_warning
      else if value = ''critical'' then Some SV_critical
      else None)"

definition alert_comparator_name :: "alert_comparator \<Rightarrow> string" where
  "alert_comparator_name c = (case c of
     CO_less_than \<Rightarrow> ''<''
   | CO_less_or_equal \<Rightarrow> ''<=''
   | CO_greater_than \<Rightarrow> ''>''
   | CO_greater_or_equal \<Rightarrow> ''>=''
   | CO_equal \<Rightarrow> ''==''
   | CO_not_equal \<Rightarrow> ''!='')"

definition parse_alert_comparator :: "string \<Rightarrow> alert_comparator option" where
  "parse_alert_comparator value =
     (if value = ''<'' then Some CO_less_than
      else if value = ''<='' then Some CO_less_or_equal
      else if value = ''>'' then Some CO_greater_than
      else if value = ''>='' then Some CO_greater_or_equal
      else if value = ''=='' \<or> value = ''='' then Some CO_equal
      else if value = ''!='' then Some CO_not_equal
      else None)"

definition alert_condition_kind_name :: "alert_condition_kind \<Rightarrow> string" where
  "alert_condition_kind_name k = (case k of
     AK_threshold \<Rightarrow> ''threshold''
   | AK_missing \<Rightarrow> ''missing''
   | AK_stale \<Rightarrow> ''stale''
   | AK_rate_of_change \<Rightarrow> ''rate_of_change''
   | AK_trend \<Rightarrow> ''trend'')"

definition alert_state_name :: "alert_state \<Rightarrow> string" where
  "alert_state_name s = (case s of
     AS_inactive \<Rightarrow> ''inactive''
   | AS_active \<Rightarrow> ''active''
   | AS_suppressed \<Rightarrow> ''suppressed''
   | AS_no_data \<Rightarrow> ''no_data'')"

definition compare_alert_value :: "rat \<Rightarrow> alert_comparator \<Rightarrow> rat \<Rightarrow> bool" where
  "compare_alert_value left c right = (case c of
     CO_less_than \<Rightarrow> left < right
   | CO_less_or_equal \<Rightarrow> left \<le> right
   | CO_greater_than \<Rightarrow> left > right
   | CO_greater_or_equal \<Rightarrow> left \<ge> right
   | CO_equal \<Rightarrow> left = right
   | CO_not_equal \<Rightarrow> left \<noteq> right)"

section \<open>Conditions\<close>

definition condition_default :: alert_condition where
  "condition_default =
     \<lparr>ak_kind = AK_threshold,
      ak_threshold = \<lparr>ct_metric_name = [], ct_required_tags = om_empty,
        ct_comparator = CO_greater_or_equal, ct_threshold = 0\<rparr>,
      ak_missing = \<lparr>cm_metric_name = [], cm_required_tags = om_empty\<rparr>,
      ak_stale = \<lparr>cs_metric_name = [], cs_required_tags = om_empty, cs_max_age_ns = 0\<rparr>,
      ak_rate = \<lparr>cr_metric_name = [], cr_required_tags = om_empty,
        cr_comparator = CO_greater_or_equal, cr_threshold_per_second = 0\<rparr>,
      ak_trend = \<lparr>cq_metric_name = [], cq_required_tags = om_empty,
        cq_expected = MT_rising, cq_noise_floor = 0\<rparr>\<rparr>"

definition make_threshold_condition :: "string \<Rightarrow> alert_comparator \<Rightarrow> rat \<Rightarrow> metric_tags \<Rightarrow> alert_condition" where
  "make_threshold_condition name comparator threshold tags =
     condition_default\<lparr>ak_kind := AK_threshold,
       ak_threshold := \<lparr>ct_metric_name = name, ct_required_tags = tags, ct_comparator = comparator,
         ct_threshold = threshold\<rparr>\<rparr>"

definition make_missing_condition :: "string \<Rightarrow> metric_tags \<Rightarrow> alert_condition" where
  "make_missing_condition name tags =
     condition_default\<lparr>ak_kind := AK_missing, ak_missing := \<lparr>cm_metric_name = name, cm_required_tags = tags\<rparr>\<rparr>"

definition make_stale_condition :: "string \<Rightarrow> u64 \<Rightarrow> metric_tags \<Rightarrow> alert_condition" where
  "make_stale_condition name max_age tags =
     condition_default\<lparr>ak_kind := AK_stale,
       ak_stale := \<lparr>cs_metric_name = name, cs_required_tags = tags, cs_max_age_ns = max_age\<rparr>\<rparr>"

definition make_rate_condition :: "string \<Rightarrow> alert_comparator \<Rightarrow> rat \<Rightarrow> metric_tags \<Rightarrow> alert_condition" where
  "make_rate_condition name comparator threshold_per_second tags =
     condition_default\<lparr>ak_kind := AK_rate_of_change,
       ak_rate := \<lparr>cr_metric_name = name, cr_required_tags = tags, cr_comparator = comparator,
         cr_threshold_per_second = threshold_per_second\<rparr>\<rparr>"

definition make_trend_condition :: "string \<Rightarrow> metric_trend \<Rightarrow> rat \<Rightarrow> metric_tags \<Rightarrow> alert_condition" where
  "make_trend_condition name expected noise_floor tags =
     condition_default\<lparr>ak_kind := AK_trend,
       ak_trend := \<lparr>cq_metric_name = name, cq_required_tags = tags, cq_expected = expected,
         cq_noise_floor = noise_floor\<rparr>\<rparr>"

section \<open>Selecting samples\<close>

definition tags_match :: "metric_tags \<Rightarrow> metric_tags \<Rightarrow> bool" where
  "tags_match candidate required =
     list_all (\<lambda>(key, value). om_lookup candidate key = Some value) (om_entries required)"

definition newest_sample :: "metric_sample list \<Rightarrow> metric_sample option" where
  "newest_sample samples = newest_where (\<lambda>_. True) samples"

definition oldest_sample :: "metric_sample list \<Rightarrow> metric_sample option" where
  "oldest_sample samples =
     foldl (\<lambda>found s.
       case found of
         None \<Rightarrow> Some s
       | Some f \<Rightarrow> if mp_time_ns s < mp_time_ns f then Some s else found) None samples"

definition selects :: "string \<Rightarrow> metric_tags \<Rightarrow> metric_sample \<Rightarrow> bool" where
  "selects name tags s \<longleftrightarrow> mi_name (mp_identity s) = name \<and> tags_match (mi_tags (mp_identity s)) tags"

definition select_current_samples :: "metric_snapshot \<Rightarrow> string \<Rightarrow> metric_tags \<Rightarrow> metric_sample list" where
  "select_current_samples snapshot name tags = filter (selects name tags) (mn_samples snapshot)"

definition select_alert_metric_history ::
  "alert_context \<Rightarrow> string \<Rightarrow> metric_tags \<Rightarrow> u64 \<Rightarrow> metric_sample list" where
  "select_alert_metric_history ctx name tags window =
     (let now = ac_evaluation_time_ns ctx;
          start = (if window = 0 \<or> now < window then 0 else now - window);
          inside = (\<lambda>s. mp_time_ns s \<ge> start \<and> mp_time_ns s \<le> now);
          select = filter (\<lambda>s. selects name tags s \<and> inside s)
      in sort_key mp_time_ns (select (ac_history ctx) @ select (mn_samples (ac_current ctx))))"

section \<open>Evaluating a rule\<close>

definition active_at :: "alert_suppression \<Rightarrow> u64 \<Rightarrow> bool" where
  "active_at u time \<longleftrightarrow> time \<ge> su_start_time_ns u \<and> time \<le> su_end_time_ns u"

definition firing :: "alert_evaluation \<Rightarrow> bool" where
  "firing e \<longleftrightarrow> ax_state e = AS_active"

definition base_evaluation :: "alert_rule \<Rightarrow> alert_context \<Rightarrow> alert_evaluation" where
  "base_evaluation rule ctx =
     \<lparr>ax_rule_id = al_id rule, ax_title = al_title rule, ax_severity = al_severity rule,
      ax_state = AS_inactive, ax_evaluated_at_ns = ac_evaluation_time_ns ctx, ax_active_since_ns = 0,
      ax_active_duration_ns = 0, ax_reason = [], ax_labels = al_labels rule, ax_evidence = []\<rparr>"

definition rule_suppressed :: "alert_rule \<Rightarrow> u64 \<Rightarrow> string option" where
  "rule_suppressed rule time = map_option su_reason (find (\<lambda>u. active_at u time) (al_suppressions rule))"

definition decided :: "alert_evaluation \<Rightarrow> alert_state \<Rightarrow> string \<Rightarrow> alert_evidence list \<Rightarrow> alert_evaluation" where
  "decided e state reason evidence =
     e\<lparr>ax_state := state, ax_reason := reason, ax_evidence := ax_evidence e @ evidence\<rparr>"

definition finish_duration_gate ::
  "alert_evaluation \<Rightarrow> alert_rule \<Rightarrow> metric_sample list \<Rightarrow> alert_evaluation" where
  "finish_duration_gate e rule history =
     (if ax_state e \<noteq> AS_active \<or> al_min_duration_ns rule = 0 then e
      else case (oldest_sample history, newest_sample history) of
          (Some earliest, Some latest) \<Rightarrow>
            (let duration = (if mp_time_ns latest \<ge> mp_time_ns earliest
                             then mp_time_ns latest - mp_time_ns earliest else 0);
                 e = e\<lparr>ax_active_since_ns := mp_time_ns earliest, ax_active_duration_ns := duration\<rparr>
             in if duration < al_min_duration_ns rule
                then e\<lparr>ax_state := AS_inactive, ax_reason := ''condition active but below minimum duration''\<rparr>
                else e)
        | _ \<Rightarrow> e\<lparr>ax_state := AS_no_data, ax_reason := ''condition has no history for duration gate''\<rparr>)"

definition threshold_evidence :: "(nat \<Rightarrow> rat \<Rightarrow> string) \<Rightarrow> threshold_condition \<Rightarrow> metric_sample \<Rightarrow> alert_evidence" where
  "threshold_evidence show_double c s =
     \<lparr>av_metric_name = mi_name (mp_identity s), av_tags = mi_tags (mp_identity s),
      av_observed_value = Some (mp_value s), av_comparison_value = Some (ct_threshold c),
      av_observed_time_ns = mp_time_ns s,
      av_message = show_double 3 (mp_value s) @ '' '' @ alert_comparator_name (ct_comparator c)
        @ '' '' @ show_double 3 (ct_threshold c)\<rparr>"

definition evaluate_threshold ::
  "(nat \<Rightarrow> rat \<Rightarrow> string) \<Rightarrow> alert_rule \<Rightarrow> alert_context \<Rightarrow> alert_evaluation" where
  "evaluate_threshold show_double rule ctx =
     (let e = base_evaluation rule ctx;
          c = ak_threshold (al_condition rule);
          current = select_current_samples (ac_current ctx) (ct_metric_name c) (ct_required_tags c)
      in if current = [] then decided e AS_no_data ''metric not present in current snapshot'' []
         else
           let matched = list_ex (\<lambda>s. compare_alert_value (mp_value s) (ct_comparator c) (ct_threshold c)) current;
               e = decided e (if matched then AS_active else AS_inactive)
                     (if matched then ''threshold condition matched'' else ''threshold condition did not match'')
                     (map (threshold_evidence show_double c) current)
           in finish_duration_gate e rule
                (select_alert_metric_history ctx (ct_metric_name c) (ct_required_tags c)
                  (al_evaluation_window_ns rule)))"

definition evaluate_missing :: "alert_rule \<Rightarrow> alert_context \<Rightarrow> alert_evaluation" where
  "evaluate_missing rule ctx =
     (let e = base_evaluation rule ctx;
          c = ak_missing (al_condition rule);
          current = select_current_samples (ac_current ctx) (cm_metric_name c) (cm_required_tags c);
          evidence = \<lparr>av_metric_name = cm_metric_name c, av_tags = cm_required_tags c, av_observed_value = None,
            av_comparison_value = None, av_observed_time_ns = ac_evaluation_time_ns ctx, av_message = []\<rparr>
      in if current = []
         then decided e AS_active ''metric is absent'' [evidence\<lparr>av_message := ''required metric missing''\<rparr>]
         else decided e AS_inactive ''metric is present''
                [evidence\<lparr>av_observed_value := map_option mp_value (newest_sample current),
                   av_message := ''required metric present''\<rparr>])"

definition evaluate_stale :: "(rat \<Rightarrow> rat) \<Rightarrow> alert_rule \<Rightarrow> alert_context \<Rightarrow> alert_evaluation" where
  "evaluate_stale fl rule ctx =
     (let e = base_evaluation rule ctx;
          c = ak_stale (al_condition rule);
          now = ac_evaluation_time_ns ctx;
          found = select_current_samples (ac_current ctx) (cs_metric_name c) (cs_required_tags c);
          current = (if found = []
            then select_alert_metric_history ctx (cs_metric_name c) (cs_required_tags c)
                   (if al_evaluation_window_ns rule = 0 then cs_max_age_ns c else al_evaluation_window_ns rule)
            else found);
          evidence = \<lparr>av_metric_name = cs_metric_name c, av_tags = cs_required_tags c, av_observed_value = None,
            av_comparison_value = Some (double_of fl (cs_max_age_ns c)), av_observed_time_ns = now, av_message = []\<rparr>
      in case newest_sample current of
           None \<Rightarrow> decided e AS_no_data ''metric has no samples''
                     [evidence\<lparr>av_message := ''no sample available for staleness check''\<rparr>]
         | Some newest \<Rightarrow>
             let age = (if now \<ge> mp_time_ns newest then now - mp_time_ns newest else 0);
                 evidence = evidence\<lparr>av_observed_value := Some (double_of fl age),
                   av_message := ''sample age '' @ dec age @ ''ns''\<rparr>
             in if age > cs_max_age_ns c then decided e AS_active ''metric is stale'' [evidence]
                else decided e AS_inactive ''metric is fresh'' [evidence])"

definition rate_over :: "(rat \<Rightarrow> rat) \<Rightarrow> metric_sample \<Rightarrow> metric_sample \<Rightarrow> rat" where
  "rate_over fl oldest newest =
     fl (fl (mp_value newest - mp_value oldest)
       / fl (double_of fl (mp_time_ns newest - mp_time_ns oldest) / 1000000000))"

definition evaluate_rate ::
  "(rat \<Rightarrow> rat) \<Rightarrow> (nat \<Rightarrow> rat \<Rightarrow> string) \<Rightarrow> alert_rule \<Rightarrow> alert_context \<Rightarrow> alert_evaluation" where
  "evaluate_rate fl show_double rule ctx =
     (let e = base_evaluation rule ctx;
          c = ak_rate (al_condition rule);
          history = select_alert_metric_history ctx (cr_metric_name c) (cr_required_tags c)
            (al_evaluation_window_ns rule)
      in if length history < 2 then decided e AS_no_data ''rate condition needs at least two samples'' []
         else
           let oldest = the (oldest_sample history); newest = the (newest_sample history);
               elapsed = (if mp_time_ns newest > mp_time_ns oldest then mp_time_ns newest - mp_time_ns oldest else 0)
           in if elapsed = 0 then decided e AS_no_data ''rate condition has zero elapsed time'' []
              else
                let rate = rate_over fl oldest newest;
                    matched = compare_alert_value rate (cr_comparator c) (cr_threshold_per_second c);
                    evidence = \<lparr>av_metric_name = cr_metric_name c, av_tags = cr_required_tags c,
                      av_observed_value = Some rate, av_comparison_value = Some (cr_threshold_per_second c),
                      av_observed_time_ns = mp_time_ns newest, av_message = ''rate '' @ show_double 3 rate @ ''/s''\<rparr>
                in finish_duration_gate
                     (decided e (if matched then AS_active else AS_inactive)
                       (if matched then ''rate condition matched'' else ''rate condition did not match'') [evidence])
                     rule history)"

definition evaluate_trend :: "(rat \<Rightarrow> rat) \<Rightarrow> alert_rule \<Rightarrow> alert_context \<Rightarrow> alert_evaluation" where
  "evaluate_trend fl rule ctx =
     (let e = base_evaluation rule ctx;
          c = ak_trend (al_condition rule);
          history = select_alert_metric_history ctx (cq_metric_name c) (cq_required_tags c)
            (al_evaluation_window_ns rule)
      in if length history < 2 then decided e AS_no_data ''trend condition needs at least two samples'' []
         else
           let observed = classify_metric_trend fl history (cq_noise_floor c);
               matched = (observed = cq_expected c);
               evidence = \<lparr>av_metric_name = cq_metric_name c, av_tags = cq_required_tags c,
                 av_observed_value = None, av_comparison_value = None,
                 av_observed_time_ns = (case newest_sample history of
                     Some s \<Rightarrow> mp_time_ns s | None \<Rightarrow> ac_evaluation_time_ns ctx),
                 av_message = ''trend '' @ metric_trend_name observed @ '' expected ''
                   @ metric_trend_name (cq_expected c)\<rparr>
           in finish_duration_gate
                (decided e (if matched then AS_active else AS_inactive)
                  (if matched then ''trend condition matched'' else ''trend condition did not match'') [evidence])
                rule history)"

definition evaluate_alert_rule ::
  "(rat \<Rightarrow> rat) \<Rightarrow> (nat \<Rightarrow> rat \<Rightarrow> string) \<Rightarrow> alert_rule \<Rightarrow> alert_context \<Rightarrow> alert_evaluation" where
  "evaluate_alert_rule fl show_double rule ctx =
     (if \<not> al_enabled rule then decided (base_evaluation rule ctx) AS_inactive ''rule disabled'' []
      else case rule_suppressed rule (ac_evaluation_time_ns ctx) of
          Some reason \<Rightarrow>
            decided (base_evaluation rule ctx) AS_suppressed
              (if reason = [] then ''rule suppressed'' else reason) []
        | None \<Rightarrow>
            (case ak_kind (al_condition rule) of
               AK_threshold \<Rightarrow> evaluate_threshold show_double rule ctx
             | AK_missing \<Rightarrow> evaluate_missing rule ctx
             | AK_stale \<Rightarrow> evaluate_stale fl rule ctx
             | AK_rate_of_change \<Rightarrow> evaluate_rate fl show_double rule ctx
             | AK_trend \<Rightarrow> evaluate_trend fl rule ctx))"

section \<open>Rule sets and summaries\<close>

definition rules_add :: "alert_rule \<Rightarrow> alert_rule_set \<Rightarrow> alert_rule_set" where
  "rules_add rule rules = rules @ [rule]"

definition rules_clear :: "alert_rule_set \<Rightarrow> alert_rule_set" where
  "rules_clear rules = []"

definition rules_find :: "alert_rule_set \<Rightarrow> string \<Rightarrow> alert_rule option" where
  "rules_find rules i = find (\<lambda>r. al_id r = i) rules"

definition rules_evaluate ::
  "(rat \<Rightarrow> rat) \<Rightarrow> (nat \<Rightarrow> rat \<Rightarrow> string) \<Rightarrow> alert_rule_set \<Rightarrow> alert_context \<Rightarrow> alert_evaluation list" where
  "rules_evaluate fl show_double rules ctx = map (\<lambda>r. evaluate_alert_rule fl show_double r ctx) rules"

definition count_severity :: "alert_severity \<Rightarrow> alert_summary \<Rightarrow> alert_summary" where
  "count_severity severity s =
     (if severity = SV_critical then s\<lparr>ay_critical_active := ay_critical_active s + 1\<rparr>
      else if severity = SV_warning then s\<lparr>ay_warning_active := ay_warning_active s + 1\<rparr>
      else s\<lparr>ay_info_active := ay_info_active s + 1\<rparr>)"

definition count_evaluation :: "alert_evaluation \<Rightarrow> alert_summary \<Rightarrow> alert_summary" where
  "count_evaluation e s =
     (let s = (case ax_state e of
                 AS_inactive \<Rightarrow> s\<lparr>ay_inactive_rules := ay_inactive_rules s + 1\<rparr>
               | AS_active \<Rightarrow> count_severity (ax_severity e) (s\<lparr>ay_active_rules := ay_active_rules s + 1\<rparr>)
               | AS_suppressed \<Rightarrow> s\<lparr>ay_suppressed_rules := ay_suppressed_rules s + 1\<rparr>
               | AS_no_data \<Rightarrow> s\<lparr>ay_no_data_rules := ay_no_data_rules s + 1\<rparr>)
      in if ax_reason e = ''rule disabled'' then s\<lparr>ay_disabled_rules := ay_disabled_rules s + 1\<rparr> else s)"

definition summarize_alert_evaluations :: "alert_evaluation list \<Rightarrow> u64 \<Rightarrow> alert_summary" where
  "summarize_alert_evaluations evaluations time =
     fold count_evaluation evaluations
       \<lparr>ay_evaluated_at_ns = time, ay_total_rules = length evaluations, ay_disabled_rules = 0,
        ay_inactive_rules = 0, ay_active_rules = 0, ay_suppressed_rules = 0, ay_no_data_rules = 0,
        ay_critical_active = 0, ay_warning_active = 0, ay_info_active = 0\<rparr>"

definition firing_alerts :: "alert_evaluation list \<Rightarrow> alert_evaluation list" where
  "firing_alerts evaluations = filter firing evaluations"

definition alerts_by_severity :: "alert_evaluation list \<Rightarrow> alert_severity \<Rightarrow> alert_evaluation list" where
  "alerts_by_severity evaluations severity = filter (\<lambda>e. ax_severity e = severity) evaluations"

section \<open>Reports\<close>

definition evidence_json :: "(nat \<Rightarrow> rat \<Rightarrow> string) \<Rightarrow> alert_evidence \<Rightarrow> json_object" where
  "evidence_json show_double e =
     (let show_value = (\<lambda>v. case v of None \<Rightarrow> ''null'' | Some x \<Rightarrow> show_double 3 x);
          object = string_field [] ''metric_name'' (av_metric_name e);
          object = raw_field object ''tags'' (tags_json (av_tags e));
          object = raw_field object ''observed_value'' (show_value (av_observed_value e));
          object = raw_field object ''comparison_value'' (show_value (av_comparison_value e));
          object = number_field object ''observed_time_ns'' (av_observed_time_ns e)
      in string_field object ''message'' (av_message e))"

definition evaluation_json :: "(nat \<Rightarrow> rat \<Rightarrow> string) \<Rightarrow> alert_evaluation \<Rightarrow> json_object" where
  "evaluation_json show_double e =
     (let object = string_field [] ''rule_id'' (ax_rule_id e);
          object = string_field object ''title'' (ax_title e);
          object = string_field object ''severity'' (alert_severity_name (ax_severity e));
          object = string_field object ''state'' (alert_state_name (ax_state e));
          object = number_field object ''evaluated_at_ns'' (ax_evaluated_at_ns e);
          object = number_field object ''active_since_ns'' (ax_active_since_ns e);
          object = number_field object ''active_duration_ns'' (ax_active_duration_ns e);
          object = string_field object ''reason'' (ax_reason e);
          object = raw_field object ''labels'' (render_json_string_array (ax_labels e))
      in raw_field object ''evidence'' (render_json_array (map (evidence_json show_double) (ax_evidence e))))"

fun join_semicolons :: "string list \<Rightarrow> string" where
  "join_semicolons [] = []"
| "join_semicolons [x] = x"
| "join_semicolons (x # y # ys) = x @ ''; '' @ join_semicolons (y # ys)"

definition evidence_text :: "(nat \<Rightarrow> rat \<Rightarrow> string) \<Rightarrow> alert_evidence \<Rightarrow> string" where
  "evidence_text show_double e =
     av_metric_name e
     @ (if om_size (av_tags e) \<noteq> 0 then ''['' @ render_tags (av_tags e) @ '']'' else [])
     @ (case av_observed_value e of None \<Rightarrow> [] | Some v \<Rightarrow> ''='' @ show_double 3 v)"

definition render_alert_evaluations_text :: "(nat \<Rightarrow> rat \<Rightarrow> string) \<Rightarrow> alert_evaluation list \<Rightarrow> string" where
  "render_alert_evaluations_text show_double evaluations =
     render_text_table
       \<lparr>tt_headers = [''rule'', ''severity'', ''state'', ''reason'', ''evidence''],
        tt_rows = map (\<lambda>e. [ax_rule_id e, alert_severity_name (ax_severity e), alert_state_name (ax_state e),
          ax_reason e, join_semicolons (map (evidence_text show_double) (ax_evidence e))]) evaluations\<rparr>"

definition render_alert_evaluations_json :: "(nat \<Rightarrow> rat \<Rightarrow> string) \<Rightarrow> alert_evaluation list \<Rightarrow> string" where
  "render_alert_evaluations_json show_double evaluations =
     render_json_array (map (evaluation_json show_double) evaluations)"

definition render_alert_summary_text :: "alert_summary \<Rightarrow> string" where
  "render_alert_summary_text s =
     render_text_table
       \<lparr>tt_headers = [''evaluated_at_ns'', ''total'', ''active'', ''suppressed'', ''no_data'', ''critical'', ''warning'', ''info''],
        tt_rows = [[dec (ay_evaluated_at_ns s), dec_nat (ay_total_rules s), dec_nat (ay_active_rules s),
          dec_nat (ay_suppressed_rules s), dec_nat (ay_no_data_rules s), dec_nat (ay_critical_active s),
          dec_nat (ay_warning_active s), dec_nat (ay_info_active s)]]\<rparr>"

section \<open>Newest and oldest\<close>

lemma newest_sample_spec:
  "(newest_sample xs = None \<longleftrightarrow> xs = []) \<and>
   (\<forall>s. newest_sample xs = Some s \<longrightarrow> s \<in> set xs \<and> (\<forall>x \<in> set xs. mp_time_ns x \<le> mp_time_ns s))"
proof (induction xs rule: rev_induct)
  case (snoc x xs)
  have "newest_sample (xs @ [x]) = (case newest_sample xs of None \<Rightarrow> Some x
      | Some f \<Rightarrow> if mp_time_ns x \<ge> mp_time_ns f then Some x else Some f)"
    by (simp add: newest_sample_def newest_where_def split: option.split)
  then show ?case
    using snoc by (cases "newest_sample xs") (auto split: if_splits intro: order_trans)
qed (simp add: newest_sample_def newest_where_def)

lemma oldest_sample_spec:
  "(oldest_sample xs = None \<longleftrightarrow> xs = []) \<and>
   (\<forall>s. oldest_sample xs = Some s \<longrightarrow> s \<in> set xs \<and> (\<forall>x \<in> set xs. mp_time_ns s \<le> mp_time_ns x))"
proof (induction xs rule: rev_induct)
  case (snoc x xs)
  have "oldest_sample (xs @ [x]) = (case oldest_sample xs of None \<Rightarrow> Some x
      | Some f \<Rightarrow> if mp_time_ns x < mp_time_ns f then Some x else Some f)"
    by (simp add: oldest_sample_def split: option.split)
  then show ?case
    using snoc by (cases "oldest_sample xs") (auto split: if_splits intro: order_trans less_imp_le)
qed (simp add: oldest_sample_def)

lemma newest_exists:
  assumes "xs \<noteq> []"
  obtains s where "newest_sample xs = Some s" "s \<in> set xs" "\<forall>x \<in> set xs. mp_time_ns x \<le> mp_time_ns s"
  using newest_sample_spec [of xs] assms by (cases "newest_sample xs") auto

lemma oldest_exists:
  assumes "xs \<noteq> []"
  obtains s where "oldest_sample xs = Some s" "s \<in> set xs" "\<forall>x \<in> set xs. mp_time_ns s \<le> mp_time_ns x"
  using oldest_sample_spec [of xs] assms by (cases "oldest_sample xs") auto

section \<open>When a rule fires\<close>

text \<open>The times a window of a given length covers, the whole past when the length is 0 or too long.\<close>

definition in_window :: "u64 \<Rightarrow> u64 \<Rightarrow> u64 \<Rightarrow> bool" where
  "in_window now window time \<longleftrightarrow> (window = 0 \<or> now < window \<or> now - window \<le> time) \<and> time \<le> now"

definition matching :: "alert_context \<Rightarrow> string \<Rightarrow> metric_tags \<Rightarrow> u64 \<Rightarrow> metric_sample set" where
  "matching ctx name tags window =
     {s \<in> set (ac_history ctx) \<union> set (mn_samples (ac_current ctx)).
        selects name tags s \<and> in_window (ac_evaluation_time_ns ctx) window (mp_time_ns s)}"

definition reporting :: "alert_context \<Rightarrow> string \<Rightarrow> metric_tags \<Rightarrow> metric_sample set" where
  "reporting ctx name tags = {s \<in> set (mn_samples (ac_current ctx)). selects name tags s}"

definition spans :: "u64 \<Rightarrow> metric_sample set \<Rightarrow> bool" where
  "spans duration S \<longleftrightarrow> duration = 0 \<or>
     (\<exists>a \<in> S. \<exists>b \<in> S. mp_time_ns a \<le> mp_time_ns b \<and> duration \<le> mp_time_ns b - mp_time_ns a)"

definition fires_on_threshold :: "alert_rule \<Rightarrow> alert_context \<Rightarrow> bool" where
  "fires_on_threshold rule ctx \<longleftrightarrow>
     (let c = ak_threshold (al_condition rule) in
        (\<exists>s \<in> reporting ctx (ct_metric_name c) (ct_required_tags c).
           compare_alert_value (mp_value s) (ct_comparator c) (ct_threshold c))
        \<and> spans (al_min_duration_ns rule)
            (matching ctx (ct_metric_name c) (ct_required_tags c) (al_evaluation_window_ns rule)))"

definition fires_on_missing :: "alert_rule \<Rightarrow> alert_context \<Rightarrow> bool" where
  "fires_on_missing rule ctx \<longleftrightarrow>
     (let c = ak_missing (al_condition rule) in reporting ctx (cm_metric_name c) (cm_required_tags c) = {})"

definition fires_on_stale :: "alert_rule \<Rightarrow> alert_context \<Rightarrow> bool" where
  "fires_on_stale rule ctx \<longleftrightarrow>
     (let c = ak_stale (al_condition rule);
          now = ac_evaluation_time_ns ctx;
          R = reporting ctx (cs_metric_name c) (cs_required_tags c);
          S = (if R = {}
               then matching ctx (cs_metric_name c) (cs_required_tags c)
                      (if al_evaluation_window_ns rule = 0 then cs_max_age_ns c else al_evaluation_window_ns rule)
               else R)
      in S \<noteq> {} \<and> (\<forall>s \<in> S. mp_time_ns s \<le> now \<and> now - mp_time_ns s > cs_max_age_ns c))"

definition fires_on_rate :: "(rat \<Rightarrow> rat) \<Rightarrow> alert_rule \<Rightarrow> alert_context \<Rightarrow> bool" where
  "fires_on_rate fl rule ctx \<longleftrightarrow>
     (let c = ak_rate (al_condition rule);
          H = select_alert_metric_history ctx (cr_metric_name c) (cr_required_tags c) (al_evaluation_window_ns rule)
      in (\<exists>a b. oldest_sample H = Some a \<and> newest_sample H = Some b \<and> mp_time_ns a < mp_time_ns b
            \<and> compare_alert_value (rate_over fl a b) (cr_comparator c) (cr_threshold_per_second c))
         \<and> spans (al_min_duration_ns rule) (set H))"

definition fires_on_trend :: "(rat \<Rightarrow> rat) \<Rightarrow> alert_rule \<Rightarrow> alert_context \<Rightarrow> bool" where
  "fires_on_trend fl rule ctx \<longleftrightarrow>
     (let c = ak_trend (al_condition rule);
          H = select_alert_metric_history ctx (cq_metric_name c) (cq_required_tags c) (al_evaluation_window_ns rule)
      in 2 \<le> length H \<and> classify_metric_trend fl H (cq_noise_floor c) = cq_expected c
         \<and> spans (al_min_duration_ns rule) (set H))"

lemma history_set: "set (select_alert_metric_history ctx name tags window) = matching ctx name tags window"
  by (auto simp: select_alert_metric_history_def matching_def in_window_def Let_def)

lemma current_set: "set (select_current_samples (ac_current ctx) name tags) = reporting ctx name tags"
  by (auto simp: select_current_samples_def reporting_def)

lemma reporting_empty: "reporting ctx name tags = {} \<longleftrightarrow> select_current_samples (ac_current ctx) name tags = []"
  using current_set [of ctx name tags] by auto

lemma spans_extremes:
  assumes "a \<in> set H" "\<forall>x \<in> set H. mp_time_ns a \<le> mp_time_ns x"
    and "b \<in> set H" "\<forall>x \<in> set H. mp_time_ns x \<le> mp_time_ns b"
  shows "spans duration (set H) \<longleftrightarrow> duration \<le> mp_time_ns b - mp_time_ns a"
proof
  assume spans: "spans duration (set H)"
  have mono: "mp_time_ns y - mp_time_ns x \<le> mp_time_ns b - mp_time_ns a"
    if "x \<in> set H" "y \<in> set H" "mp_time_ns x \<le> mp_time_ns y" for x y
  proof -
    have "mp_time_ns a \<le> mp_time_ns x" "mp_time_ns y \<le> mp_time_ns b" "mp_time_ns a \<le> mp_time_ns b"
      using that assms by (auto intro: order_trans)
    then show ?thesis
      using that(3) by (simp add: word_le_nat_alt unat_sub)
  qed
  show "duration \<le> mp_time_ns b - mp_time_ns a"
    using spans mono by (auto simp: spans_def intro: order_trans)
next
  assume "duration \<le> mp_time_ns b - mp_time_ns a"
  then show "spans duration (set H)"
    using assms by (auto simp: spans_def)
qed

lemma firing_gate:
  "firing (finish_duration_gate e rule H) \<longleftrightarrow> firing e \<and> spans (al_min_duration_ns rule) (set H)"
proof (cases "ax_state e \<noteq> AS_active \<or> al_min_duration_ns rule = 0")
  case True
  then show ?thesis
    by (auto simp: finish_duration_gate_def firing_def spans_def)
next
  case False
  show ?thesis
  proof (cases "H = []")
    case True
    then show ?thesis
      using False by (simp add: finish_duration_gate_def firing_def spans_def oldest_sample_def)
  next
    case H: False
    obtain a where a: "oldest_sample H = Some a" "a \<in> set H" "\<forall>x \<in> set H. mp_time_ns a \<le> mp_time_ns x"
      by (rule oldest_exists [OF H])
    obtain b where b: "newest_sample H = Some b" "b \<in> set H" "\<forall>x \<in> set H. mp_time_ns x \<le> mp_time_ns b"
      by (rule newest_exists [OF H])
    have order: "mp_time_ns a \<le> mp_time_ns b"
      using a(2) b(3) by (rule bspec [rotated])
    have active: "ax_state e = AS_active" "al_min_duration_ns rule \<noteq> 0"
      using False by simp_all
    have "firing (finish_duration_gate e rule H) \<longleftrightarrow> \<not> mp_time_ns b - mp_time_ns a < al_min_duration_ns rule"
      by (simp add: finish_duration_gate_def firing_def active a(1) b(1) order Let_def)
    then show ?thesis
      by (simp only: spans_extremes [OF a(2,3) b(2,3)] not_less firing_def active simp_thms)
  qed
qed

lemma firing_decided [simp]: "firing (decided e state reason evidence) \<longleftrightarrow> state = AS_active"
  by (simp add: firing_def decided_def)

lemma firing_threshold: "firing (evaluate_threshold show_double rule ctx) \<longleftrightarrow> fires_on_threshold rule ctx"
  by (simp add: evaluate_threshold_def fires_on_threshold_def Let_def firing_gate history_set
      list_ex_iff current_set flip: reporting_empty)

lemma firing_missing: "firing (evaluate_missing rule ctx) \<longleftrightarrow> fires_on_missing rule ctx"
  by (simp add: evaluate_missing_def fires_on_missing_def Let_def reporting_empty)

lemma newest_age:
  assumes "newest_sample xs = Some n"
  shows "(if now \<ge> mp_time_ns n then now - mp_time_ns n else 0) > (limit :: u64)
     \<longleftrightarrow> xs \<noteq> [] \<and> (\<forall>s \<in> set xs. mp_time_ns s \<le> now \<and> now - mp_time_ns s > limit)"
proof -
  have n: "n \<in> set xs" "\<forall>x \<in> set xs. mp_time_ns x \<le> mp_time_ns n"
    using newest_sample_spec [of xs] assms by auto
  have older: "mp_time_ns s \<le> now \<and> now - mp_time_ns s > limit"
    if "s \<in> set xs" "mp_time_ns n \<le> now \<and> now - mp_time_ns n > limit" for s
  proof -
    have le: "mp_time_ns s \<le> mp_time_ns n"
      using n(2) that(1) by (rule bspec)
    have now: "mp_time_ns n \<le> now"
      using that(2) by (rule conjunct1)
    have "mp_time_ns s \<le> now"
      using le now by (rule order_trans)
    moreover have "now - mp_time_ns n \<le> now - mp_time_ns s"
      using le now calculation by (simp add: word_le_nat_alt unat_sub)
    ultimately show ?thesis
      using that(2) less_le_trans by blast
  qed
  have "xs \<noteq> []"
    using n(1) by auto
  then show ?thesis
  proof (cases "mp_time_ns n \<le> now \<and> now - mp_time_ns n > limit")
    case True
    then show ?thesis
      using \<open>xs \<noteq> []\<close> older [OF _ True] by simp
  next
    case False
    then have "\<not> (if now \<ge> mp_time_ns n then now - mp_time_ns n else 0) > limit"
      by (cases "mp_time_ns n \<le> now") simp_all
    then show ?thesis
      using False n(1) by blast
  qed
qed

lemma firing_stale: "firing (evaluate_stale fl rule ctx) \<longleftrightarrow> fires_on_stale rule ctx"
proof -
  let ?c = "ak_stale (al_condition rule)"
  define now where "now = ac_evaluation_time_ns ctx"
  define found where "found = select_current_samples (ac_current ctx) (cs_metric_name ?c) (cs_required_tags ?c)"
  define past where "past = select_alert_metric_history ctx (cs_metric_name ?c) (cs_required_tags ?c)
    (if al_evaluation_window_ns rule = 0 then cs_max_age_ns ?c else al_evaluation_window_ns rule)"
  define xs where "xs = (if found = [] then past else found)"
  have "firing (evaluate_stale fl rule ctx) \<longleftrightarrow>
    (case newest_sample xs of None \<Rightarrow> False
     | Some n \<Rightarrow> (if now \<ge> mp_time_ns n then now - mp_time_ns n else 0) > cs_max_age_ns ?c)"
    unfolding evaluate_stale_def Let_def found_def [symmetric] past_def [symmetric] now_def [symmetric]
      xs_def [symmetric]
    by (simp split: option.split)
  also have "\<dots> \<longleftrightarrow> xs \<noteq> [] \<and> (\<forall>s \<in> set xs. mp_time_ns s \<le> now \<and> now - mp_time_ns s > cs_max_age_ns ?c)"
  proof (cases "newest_sample xs")
    case None
    then show ?thesis
      using newest_sample_spec [of xs] by simp
  next
    case (Some n)
    then show ?thesis
      using newest_age [where xs = xs and n = n and now = now and limit = "cs_max_age_ns ?c"]
      by (simp only: option.case)
  qed
  also have "\<dots> \<longleftrightarrow> fires_on_stale rule ctx"
  proof -
    have "set xs = (if reporting ctx (cs_metric_name ?c) (cs_required_tags ?c) = {}
        then matching ctx (cs_metric_name ?c) (cs_required_tags ?c)
          (if al_evaluation_window_ns rule = 0 then cs_max_age_ns ?c else al_evaluation_window_ns rule)
        else reporting ctx (cs_metric_name ?c) (cs_required_tags ?c))"
      by (simp only: xs_def found_def past_def reporting_empty flip: history_set current_set) simp
    then show ?thesis
      by (simp only: fires_on_stale_def Let_def now_def flip: set_empty)
  qed
  finally show ?thesis .
qed

lemma elapsed_positive: "(if b > a then b - a else 0 :: u64) = 0 \<longleftrightarrow> \<not> a < b"
  by auto

lemma firing_rate: "firing (evaluate_rate fl show_double rule ctx) \<longleftrightarrow> fires_on_rate fl rule ctx"
proof -
  let ?c = "ak_rate (al_condition rule)"
  define H where "H = select_alert_metric_history ctx (cr_metric_name ?c) (cr_required_tags ?c) (al_evaluation_window_ns rule)"
  show ?thesis
  proof (cases "length H < 2")
    case True
    have "\<not> mp_time_ns a < mp_time_ns b" if "oldest_sample H = Some a" "newest_sample H = Some b" for a b
    proof (cases H)
      case (Cons x xs)
      then show ?thesis
        using True that oldest_sample_spec [of H] newest_sample_spec [of H] by auto
    qed (use that in \<open>simp add: oldest_sample_def\<close>)
    then show ?thesis
      using True by (auto simp: evaluate_rate_def fires_on_rate_def Let_def simp flip: H_def)
  next
    case False
    then have "H \<noteq> []"
      by auto
    obtain a where a: "oldest_sample H = Some a"
      by (rule oldest_exists [OF \<open>H \<noteq> []\<close>])
    obtain b where b: "newest_sample H = Some b"
      by (rule newest_exists [OF \<open>H \<noteq> []\<close>])
    show ?thesis
      using False
      by (simp add: evaluate_rate_def fires_on_rate_def Let_def a b firing_gate elapsed_positive flip: H_def)
  qed
qed

lemma firing_trend: "firing (evaluate_trend fl rule ctx) \<longleftrightarrow> fires_on_trend fl rule ctx"
  by (auto simp: evaluate_trend_def fires_on_trend_def Let_def firing_gate)

lemma rule_suppressed_None:
  "rule_suppressed rule time = None \<longleftrightarrow>
     (\<forall>u \<in> set (al_suppressions rule). \<not> (su_start_time_ns u \<le> time \<and> time \<le> su_end_time_ns u))"
  by (auto simp: rule_suppressed_def find_None_iff active_at_def)

text \<open>
  C32. A rule fires exactly if it is enabled, no suppression interval contains the time of
  the evaluation, and its condition holds of the samples it selects: some reporting sample is on
  the wrong side of the threshold; no sample reports; all the samples are too old; the rate from
  the oldest to the newest sample crosses the limit; the classified trend is the expected one.
  Threshold, rate and trend rules also need samples that span the minimum duration.
\<close>

theorem alert_fires_iff:
  "firing (evaluate_alert_rule fl show_double rule ctx) \<longleftrightarrow>
     al_enabled rule
     \<and> (\<forall>u \<in> set (al_suppressions rule).
          \<not> (su_start_time_ns u \<le> ac_evaluation_time_ns ctx \<and> ac_evaluation_time_ns ctx \<le> su_end_time_ns u))
     \<and> (case ak_kind (al_condition rule) of
          AK_threshold \<Rightarrow> fires_on_threshold rule ctx
        | AK_missing \<Rightarrow> fires_on_missing rule ctx
        | AK_stale \<Rightarrow> fires_on_stale rule ctx
        | AK_rate_of_change \<Rightarrow> fires_on_rate fl rule ctx
        | AK_trend \<Rightarrow> fires_on_trend fl rule ctx)"
proof (cases "rule_suppressed rule (ac_evaluation_time_ns ctx)")
  case None
  then show ?thesis
    unfolding rule_suppressed_None [symmetric]
    by (auto simp: evaluate_alert_rule_def firing_threshold firing_missing firing_stale firing_rate firing_trend
        split: alert_condition_kind.split)
next
  case (Some reason)
  then show ?thesis
    unfolding rule_suppressed_None [symmetric] by (simp add: evaluate_alert_rule_def)
qed

definition sample_reading :: "string \<Rightarrow> rat \<Rightarrow> u64 \<Rightarrow> metric_sample" where
  "sample_reading name value time =
     \<lparr>mp_identity = make_metric_identity name om_empty, mp_kind = MK_gauge, mp_value = value, mp_time_ns = time,
      mp_unit = [], mp_description = []\<rparr>"

definition sample_rule :: "alert_condition \<Rightarrow> u64 \<Rightarrow> u64 \<Rightarrow> alert_rule" where
  "sample_rule condition window min_duration =
     \<lparr>al_id = ''r'', al_title = [], al_description = [], al_severity = SV_warning, al_condition = condition,
      al_evaluation_window_ns = window, al_min_duration_ns = min_duration, al_labels = [],
      al_suppressions = [], al_enabled = True\<rparr>"

definition sample_context :: "metric_sample list \<Rightarrow> metric_sample list \<Rightarrow> u64 \<Rightarrow> alert_context" where
  "sample_context current history now =
     \<lparr>ac_current = \<lparr>mn_samples = current, mn_capture_time_ns = now\<rparr>, ac_history = history,
      ac_evaluation_time_ns = now\<rparr>"

lemmas sample_alert_defs = sample_reading_def sample_rule_def sample_context_def make_metric_identity_def
  make_threshold_condition_def make_stale_condition_def condition_default_def selects_def tags_match_def

lemma alert_fires_iff_witness:
  "firing (evaluate_alert_rule id (\<lambda>_ _. [])
     (sample_rule (make_threshold_condition ''t'' CO_greater_than 5 om_empty) 0 0)
     (sample_context [sample_reading ''t'' 9 10] [] 10))"
  unfolding alert_fires_iff
  by (simp add: sample_alert_defs fires_on_threshold_def reporting_def spans_def compare_alert_value_def)

text \<open>
  The duration gate measures the span of all the samples in the window, not how long the condition
  has held: here one reading of 9 after a reading of 0 ten seconds earlier passes a gate of ten.
\<close>

lemma gate_counts_quiet_samples:
  "firing (evaluate_alert_rule fl show_double
     (sample_rule (make_threshold_condition ''t'' CO_greater_than 5 om_empty) 0 10)
     (sample_context [sample_reading ''t'' 9 10] [sample_reading ''t'' 0 0] 10))
   \<and> \<not> compare_alert_value 0 CO_greater_than 5"
proof -
  have "firing (evaluate_threshold show_double
     (sample_rule (make_threshold_condition ''t'' CO_greater_than 5 om_empty) 0 10)
     (sample_context [sample_reading ''t'' 9 10] [sample_reading ''t'' 0 0] 10))"
  proof -
    let ?ctx = "sample_context [sample_reading ''t'' 9 10] [sample_reading ''t'' 0 0] 10"
    have "matching ?ctx ''t'' om_empty 0 = {sample_reading ''t'' 0 0, sample_reading ''t'' 9 10}"
      by (auto simp: matching_def in_window_def sample_alert_defs word_le_nat_alt)
    moreover have "spans 10 {sample_reading ''t'' 0 0, sample_reading ''t'' 9 10}"
      by (simp add: spans_def sample_reading_def word_le_nat_alt)
    moreover have "sample_reading ''t'' 9 10 \<in> reporting ?ctx ''t'' om_empty"
      by (simp add: reporting_def sample_alert_defs)
    moreover have "compare_alert_value (mp_value (sample_reading ''t'' 9 10)) CO_greater_than 5"
      by (simp add: compare_alert_value_def sample_reading_def)
    ultimately show ?thesis
      unfolding firing_threshold fires_on_threshold_def Let_def
      by (auto simp: sample_rule_def make_threshold_condition_def)
  qed
  then show ?thesis
    by (simp add: evaluate_alert_rule_def rule_suppressed_def sample_rule_def
        make_threshold_condition_def compare_alert_value_def)
qed

text \<open>
  A staleness rule without a window looks for a metric that stopped reporting only among the
  samples that are young enough: it can say that there is no data, but never that it is stale.
\<close>

lemma stale_needs_window:
  assumes "ak_kind (al_condition rule) = AK_stale" and "al_evaluation_window_ns rule = 0"
    and "cs_max_age_ns (ak_stale (al_condition rule)) \<noteq> 0"
    and "reporting ctx (cs_metric_name (ak_stale (al_condition rule)))
           (cs_required_tags (ak_stale (al_condition rule))) = {}"
  shows "\<not> firing (evaluate_alert_rule fl show_double rule ctx)"
proof -
  let ?c = "ak_stale (al_condition rule)"
  let ?now = "ac_evaluation_time_ns ctx"
  have fresh: "\<not> (mp_time_ns s \<le> ?now \<and> ?now - mp_time_ns s > cs_max_age_ns ?c)"
    if "s \<in> matching ctx (cs_metric_name ?c) (cs_required_tags ?c) (cs_max_age_ns ?c)" for s
  proof -
    have window: "?now < cs_max_age_ns ?c \<or> ?now - cs_max_age_ns ?c \<le> mp_time_ns s" "mp_time_ns s \<le> ?now"
      using that assms(3) by (auto simp: matching_def in_window_def)
    have "?now - mp_time_ns s \<le> cs_max_age_ns ?c"
    proof (cases "?now < cs_max_age_ns ?c")
      case True
      then show ?thesis
        using window(2) by (simp add: word_le_nat_alt word_less_nat_alt unat_sub)
    next
      case False
      then show ?thesis
        using window by (simp add: word_le_nat_alt word_less_nat_alt unat_sub)
    qed
    then show ?thesis
      by (simp add: not_less)
  qed
  have "\<not> fires_on_stale rule ctx"
    unfolding fires_on_stale_def Let_def assms(2,4) using fresh by auto
  then show ?thesis
    using assms(1) by (simp add: evaluate_alert_rule_def firing_stale split: option.split)
qed

lemma count_evaluation_counts:
  "ay_total_rules (count_evaluation e s) = ay_total_rules s"
  "ay_inactive_rules (count_evaluation e s) = ay_inactive_rules s + (if ax_state e = AS_inactive then 1 else 0)"
  "ay_active_rules (count_evaluation e s) = ay_active_rules s + (if ax_state e = AS_active then 1 else 0)"
  "ay_suppressed_rules (count_evaluation e s) = ay_suppressed_rules s + (if ax_state e = AS_suppressed then 1 else 0)"
  "ay_no_data_rules (count_evaluation e s) = ay_no_data_rules s + (if ax_state e = AS_no_data then 1 else 0)"
  "ay_critical_active (count_evaluation e s)
     = ay_critical_active s + (if ax_state e = AS_active \<and> ax_severity e = SV_critical then 1 else 0)"
  "ay_warning_active (count_evaluation e s)
     = ay_warning_active s + (if ax_state e = AS_active \<and> ax_severity e = SV_warning then 1 else 0)"
  "ay_info_active (count_evaluation e s)
     = ay_info_active s + (if ax_state e = AS_active \<and> ax_severity e = SV_info then 1 else 0)"
  by (cases "ax_state e"; cases "ax_severity e"; simp add: count_evaluation_def count_severity_def Let_def)+

lemma fold_counts:
  assumes "\<And>e s. field (count_evaluation e s) = field s + (if P e then 1 else 0 :: nat)"
  shows "field (fold count_evaluation es s) = field s + length (filter P es)"
  by (induction es arbitrary: s) (simp_all add: assms)

lemmas evaluation_counts = count_evaluation_counts(2-) [THEN fold_counts]

text \<open>The summary partitions the evaluations by state, and the firing ones by severity.\<close>

lemma summary_counts:
  fixes es time
  defines "s \<equiv> summarize_alert_evaluations es time"
  shows "ay_total_rules s = length es"
    and "ay_inactive_rules s + ay_active_rules s + ay_suppressed_rules s + ay_no_data_rules s = length es"
    and "ay_active_rules s = length (firing_alerts es)"
    and "ay_critical_active s + ay_warning_active s + ay_info_active s = ay_active_rules s"
    and "ay_critical_active s = length (alerts_by_severity (firing_alerts es) SV_critical)"
proof -
  have "ay_total_rules (fold count_evaluation es r) = ay_total_rules r" for r
    by (induction es arbitrary: r) (simp_all add: count_evaluation_counts)
  then show "ay_total_rules s = length es"
    by (simp add: s_def summarize_alert_evaluations_def)
  show "ay_inactive_rules s + ay_active_rules s + ay_suppressed_rules s + ay_no_data_rules s = length es"
    unfolding s_def summarize_alert_evaluations_def evaluation_counts
    by (induction es) (auto intro: alert_state.exhaust)
  show "ay_active_rules s = length (firing_alerts es)"
    unfolding s_def summarize_alert_evaluations_def evaluation_counts
    by (simp add: firing_alerts_def firing_def [abs_def])
  show "ay_critical_active s + ay_warning_active s + ay_info_active s = ay_active_rules s"
    unfolding s_def summarize_alert_evaluations_def evaluation_counts
    by (induction es) (auto intro: alert_severity.exhaust)
  show "ay_critical_active s = length (alerts_by_severity (firing_alerts es) SV_critical)"
    unfolding s_def summarize_alert_evaluations_def evaluation_counts
    by (simp add: firing_alerts_def firing_def [abs_def] alerts_by_severity_def conj_commute)
qed

end
