(* ===== verification/Slo.thy ===== *)
theory Slo
  imports Metrics
begin

text \<open>
  Service level objectives over windows of good, bad and ignored events
  (\<open>src/diagnostics/slo_window.cpp\<close>): slices, the partition of an interval, error budgets, burn
  rates and their reports. Doubles are rationals rounded by \<open>fl\<close> and printed by \<open>show_double\<close>. The
  partition loop is a \<open>partial_function\<close>: its cursor may wrap, and then it does not return.
\<close>

section \<open>Data\<close>

datatype slo_event_kind = SE_good | SE_bad | SE_ignored

datatype slo_status = SL_unknown | SL_healthy | SL_warning | SL_exhausted

record slo_event =
  sv_time_ns :: u64
  sv_kind :: slo_event_kind
  sv_weight :: u64
  sv_source :: string
  sv_note :: string

record slo_objective =
  sj_id :: string
  sj_name :: string
  sj_target_ratio :: rat
  sj_window_ns :: u64
  sj_description :: string

record slo_slice =
  sx_start_time_ns :: u64
  sx_end_time_ns :: u64
  sx_good_events :: u64
  sx_bad_events :: u64
  sx_ignored_events :: u64
  sx_total_weight :: u64
  sx_bad_weight :: u64

record slo_budget =
  bu_objective :: slo_objective
  bu_evaluated_at_ns :: u64
  bu_window_start_ns :: u64
  bu_window_end_ns :: u64
  bu_good_events :: u64
  bu_bad_events :: u64
  bu_ignored_events :: u64
  bu_total_weight :: u64
  bu_bad_weight :: u64
  bu_success_ratio :: rat
  bu_error_ratio :: rat
  bu_allowed_error_ratio :: rat
  bu_budget_used_ratio :: rat
  bu_budget_remaining_ratio :: rat
  bu_burn_rate :: rat
  bu_status :: slo_status

record burn_window =
  bn_label :: string
  bn_window_ns :: u64
  bn_burn_rate :: rat
  bn_budget_used_ratio :: rat
  bn_status :: slo_status

record multi_window_report =
  mw_objective :: slo_objective
  mw_evaluated_at_ns :: u64
  mw_primary :: slo_budget
  mw_windows :: "burn_window list"
  mw_recommendation :: string

record slo_window =
  sw_objective :: slo_objective
  sw_events :: "slo_event list"

section \<open>The window\<close>

definition slo_window_of :: "slo_objective \<Rightarrow> slo_window" where
  "slo_window_of objective = \<lparr>sw_objective = objective, sw_events = []\<rparr>"

definition sw_add :: "slo_event \<Rightarrow> slo_window \<Rightarrow> slo_window" where
  "sw_add event w = w\<lparr>sw_events := sw_events w @ [event]\<rparr>"

definition sw_good :: "u64 \<Rightarrow> u64 \<Rightarrow> string \<Rightarrow> slo_window \<Rightarrow> slo_window" where
  "sw_good time weight source =
     sw_add \<lparr>sv_time_ns = time, sv_kind = SE_good, sv_weight = weight, sv_source = source, sv_note = []\<rparr>"

definition sw_bad :: "u64 \<Rightarrow> u64 \<Rightarrow> string \<Rightarrow> string \<Rightarrow> slo_window \<Rightarrow> slo_window" where
  "sw_bad time weight source note =
     sw_add \<lparr>sv_time_ns = time, sv_kind = SE_bad, sv_weight = weight, sv_source = source, sv_note = note\<rparr>"

definition sw_ignored :: "u64 \<Rightarrow> string \<Rightarrow> string \<Rightarrow> slo_window \<Rightarrow> slo_window" where
  "sw_ignored time source note =
     sw_add \<lparr>sv_time_ns = time, sv_kind = SE_ignored, sv_weight = 0, sv_source = source, sv_note = note\<rparr>"

definition sw_clear :: "slo_window \<Rightarrow> slo_window" where
  "sw_clear w = w\<lparr>sw_events := []\<rparr>"

definition events_between :: "slo_window \<Rightarrow> u64 \<Rightarrow> u64 \<Rightarrow> slo_event list" where
  "events_between w start_ns end_ns =
     sort_key sv_time_ns (filter (\<lambda>e. sv_time_ns e \<ge> start_ns \<and> sv_time_ns e \<le> end_ns) (sw_events w))"

definition add_event_to_slice :: "slo_event \<Rightarrow> slo_slice \<Rightarrow> slo_slice" where
  "add_event_to_slice event s = (case sv_kind event of
     SE_good \<Rightarrow> s\<lparr>sx_good_events := sx_good_events s + 1, sx_total_weight := sx_total_weight s + sv_weight event\<rparr>
   | SE_bad \<Rightarrow> s\<lparr>sx_bad_events := sx_bad_events s + 1, sx_total_weight := sx_total_weight s + sv_weight event,
       sx_bad_weight := sx_bad_weight s + sv_weight event\<rparr>
   | SE_ignored \<Rightarrow> s\<lparr>sx_ignored_events := sx_ignored_events s + 1\<rparr>)"

definition slice_start :: "u64 \<Rightarrow> u64 \<Rightarrow> slo_slice" where
  "slice_start start_ns end_ns =
     \<lparr>sx_start_time_ns = start_ns, sx_end_time_ns = end_ns, sx_good_events = 0, sx_bad_events = 0,
      sx_ignored_events = 0, sx_total_weight = 0, sx_bad_weight = 0\<rparr>"

definition slo_slice_of :: "slo_window \<Rightarrow> u64 \<Rightarrow> u64 \<Rightarrow> slo_slice" where
  "slo_slice_of w start_ns end_ns =
     fold (\<lambda>e s. if sv_time_ns e \<ge> start_ns \<and> sv_time_ns e \<le> end_ns then add_event_to_slice e s else s)
       (sw_events w) (slice_start start_ns end_ns)"

partial_function (option) partition_loop ::
  "slo_window \<Rightarrow> u64 \<Rightarrow> u64 \<Rightarrow> u64 \<Rightarrow> slo_slice list \<Rightarrow> slo_slice list option" where
  "partition_loop w cursor end_ns slice_ns slices =
     (if cursor \<le> end_ns then
        let nxt = (if cursor + slice_ns > end_ns then end_ns else cursor + slice_ns);
            slices = slices @ [slo_slice_of w cursor nxt]
        in if nxt = end_ns then Some slices else partition_loop w (nxt + 1) end_ns slice_ns slices
      else Some slices)"

definition slo_partition :: "slo_window \<Rightarrow> u64 \<Rightarrow> u64 \<Rightarrow> u64 \<Rightarrow> slo_slice list option" where
  "slo_partition w start_ns end_ns slice_ns =
     (if slice_ns = 0 \<or> end_ns < start_ns then Some [] else partition_loop w start_ns end_ns slice_ns [])"

section \<open>Budgets\<close>

definition slo_event_kind_name :: "slo_event_kind \<Rightarrow> string" where
  "slo_event_kind_name kind = (case kind of SE_good \<Rightarrow> ''good'' | SE_bad \<Rightarrow> ''bad'' | SE_ignored \<Rightarrow> ''ignored'')"

definition parse_slo_event_kind :: "string \<Rightarrow> slo_event_kind option" where
  "parse_slo_event_kind value =
     (if value = ''good'' then Some SE_good
      else if value = ''bad'' then Some SE_bad
      else if value = ''ignored'' then Some SE_ignored
      else None)"

definition slo_status_name :: "slo_status \<Rightarrow> string" where
  "slo_status_name s = (case s of
     SL_unknown \<Rightarrow> ''unknown''
   | SL_healthy \<Rightarrow> ''healthy''
   | SL_warning \<Rightarrow> ''warning''
   | SL_exhausted \<Rightarrow> ''exhausted'')"

definition make_availability_slo :: "string \<Rightarrow> string \<Rightarrow> rat \<Rightarrow> u64 \<Rightarrow> slo_objective" where
  "make_availability_slo i name target window =
     \<lparr>sj_id = i, sj_name = name, sj_target_ratio = target, sj_window_ns = window, sj_description = ''availability''\<rparr>"

definition make_latency_slo :: "string \<Rightarrow> string \<Rightarrow> rat \<Rightarrow> u64 \<Rightarrow> u64 \<Rightarrow> slo_objective" where
  "make_latency_slo i name target window threshold =
     \<lparr>sj_id = i, sj_name = name, sj_target_ratio = target, sj_window_ns = window,
      sj_description = ''latency <= '' @ dec threshold @ ''ns''\<rparr>"

definition allowed_error_ratio :: "(rat \<Rightarrow> rat) \<Rightarrow> rat \<Rightarrow> rat" where
  "allowed_error_ratio fl target = (if target \<ge> 1 then 0 else if target \<le> 0 then 1 else fl (1 - target))"

definition classify_budget :: "rat \<Rightarrow> slo_status" where
  "classify_budget used =
     (if used < 0 then SL_unknown
      else if used \<ge> 1 then SL_exhausted
      else if used \<ge> 3 / 4 then SL_warning
      else SL_healthy)"

definition window_start_for :: "slo_objective \<Rightarrow> u64 \<Rightarrow> u64" where
  "window_start_for objective now =
     (if sj_window_ns objective = 0 \<or> now < sj_window_ns objective then 0 else now - sj_window_ns objective)"

definition evaluate_slo_slice :: "(rat \<Rightarrow> rat) \<Rightarrow> slo_objective \<Rightarrow> slo_slice \<Rightarrow> u64 \<Rightarrow> slo_budget" where
  "evaluate_slo_slice fl objective s now =
     (let allowed = allowed_error_ratio fl (sj_target_ratio objective);
          b = \<lparr>bu_objective = objective, bu_evaluated_at_ns = now, bu_window_start_ns = sx_start_time_ns s,
               bu_window_end_ns = sx_end_time_ns s, bu_good_events = sx_good_events s,
               bu_bad_events = sx_bad_events s, bu_ignored_events = sx_ignored_events s,
               bu_total_weight = sx_total_weight s, bu_bad_weight = sx_bad_weight s, bu_success_ratio = 0,
               bu_error_ratio = 0, bu_allowed_error_ratio = allowed, bu_budget_used_ratio = 0,
               bu_budget_remaining_ratio = 0, bu_burn_rate = 0, bu_status = SL_unknown\<rparr>
      in if sx_total_weight s = 0 then b
         else
           let err = fl (double_of fl (sx_bad_weight s) / double_of fl (sx_total_weight s));
               used = (if allowed = 0 then (if err = 0 then 0 else 1) else fl (err / allowed))
           in b\<lparr>bu_error_ratio := err, bu_success_ratio := fl (1 - err), bu_budget_used_ratio := used,
                bu_budget_remaining_ratio := max 0 (fl (1 - used)), bu_burn_rate := used,
                bu_status := classify_budget used\<rparr>)"

definition sw_evaluate :: "(rat \<Rightarrow> rat) \<Rightarrow> slo_window \<Rightarrow> u64 \<Rightarrow> slo_budget" where
  "sw_evaluate fl w now =
     evaluate_slo_slice fl (sw_objective w) (slo_slice_of w (window_start_for (sw_objective w) now) now) now"

definition duration_label :: "u64 \<Rightarrow> string" where
  "duration_label ns =
     (if ns = 0 then ''all''
      else
        let seconds = ns div 1000000000
        in if seconds \<ge> 86400 \<and> seconds mod 86400 = 0 then dec (seconds div 86400) @ ''d''
           else if seconds \<ge> 3600 \<and> seconds mod 3600 = 0 then dec (seconds div 3600) @ ''h''
           else if seconds \<ge> 60 \<and> seconds mod 60 = 0 then dec (seconds div 60) @ ''m''
           else dec seconds @ ''s'')"

definition recommendation_for :: "slo_budget \<Rightarrow> burn_window list \<Rightarrow> string" where
  "recommendation_for primary windows =
     (if bu_status primary = SL_exhausted
      then ''error budget exhausted; stop risky changes and prioritize mitigation''
      else if list_ex (\<lambda>b. bn_status b = SL_exhausted \<and> bn_burn_rate b \<ge> 2) windows
      then ''fast burn detected; page the owning team and inspect recent deploys''
      else if bu_status primary = SL_warning
      then ''budget is under pressure; reduce risk and monitor the short windows''
      else if bu_status primary = SL_healthy then ''budget is healthy''
      else ''insufficient SLO data'')"

definition burn_window_for :: "(rat \<Rightarrow> rat) \<Rightarrow> slo_window \<Rightarrow> u64 \<Rightarrow> u64 \<Rightarrow> burn_window" where
  "burn_window_for fl w now duration =
     (let scoped = (sw_objective w)\<lparr>sj_window_ns := duration\<rparr>;
          start = (if duration = 0 \<or> now < duration then 0 else now - duration);
          status = evaluate_slo_slice fl scoped (slo_slice_of w start now) now
      in \<lparr>bn_label = duration_label duration, bn_window_ns = duration, bn_burn_rate = bu_burn_rate status,
          bn_budget_used_ratio = bu_budget_used_ratio status, bn_status = bu_status status\<rparr>)"

definition evaluate_multi_window_slo ::
  "(rat \<Rightarrow> rat) \<Rightarrow> slo_window \<Rightarrow> u64 \<Rightarrow> u64 list \<Rightarrow> multi_window_report" where
  "evaluate_multi_window_slo fl w now durations =
     (let primary = sw_evaluate fl w now; windows = map (burn_window_for fl w now) durations
      in \<lparr>mw_objective = sw_objective w, mw_evaluated_at_ns = now, mw_primary = primary, mw_windows = windows,
          mw_recommendation = recommendation_for primary windows\<rparr>)"

definition slo_from_latency_histogram :: "slo_objective \<Rightarrow> latency_histogram \<Rightarrow> u64 \<Rightarrow> slo_window" where
  "slo_from_latency_histogram objective h threshold =
     fold (\<lambda>v w. if lv_value_ns v \<le> threshold then sw_good (lv_time_ns v) 1 ''latency'' w
                 else sw_bad (lv_time_ns v) 1 ''latency'' ''above latency threshold'' w)
       (lh_observations h) (slo_window_of objective)"

definition slo_from_metric_samples :: "slo_objective \<Rightarrow> metric_sample list \<Rightarrow> rat \<Rightarrow> bool \<Rightarrow> slo_window" where
  "slo_from_metric_samples objective samples bad_threshold greater_is_bad =
     fold (\<lambda>s w.
         if (if greater_is_bad then mp_value s > bad_threshold else mp_value s < bad_threshold)
         then sw_bad (mp_time_ns s) 1 (mi_name (mp_identity s)) ''metric threshold failed'' w
         else sw_good (mp_time_ns s) 1 (mi_name (mp_identity s)) w)
       samples (slo_window_of objective)"

definition merge_slo_events :: "slo_event list \<Rightarrow> slo_event list \<Rightarrow> slo_event list" where
  "merge_slo_events left right =
     sort_key (\<lambda>e. (sv_time_ns e, slo_event_kind_name (sv_kind e))) (left @ right)"

section \<open>Reports\<close>

definition budget_json_object :: "(nat \<Rightarrow> rat \<Rightarrow> string) \<Rightarrow> slo_budget \<Rightarrow> json_object" where
  "budget_json_object show_double b =
     (let o1 = string_field [] ''id'' (sj_id (bu_objective b));
          o1 = string_field o1 ''name'' (sj_name (bu_objective b));
          o1 = raw_field o1 ''target_ratio'' (show_double 6 (sj_target_ratio (bu_objective b)));
          o1 = number_field o1 ''evaluated_at_ns'' (bu_evaluated_at_ns b);
          o1 = number_field o1 ''window_start_ns'' (bu_window_start_ns b);
          o1 = number_field o1 ''window_end_ns'' (bu_window_end_ns b);
          o1 = number_field o1 ''good_events'' (bu_good_events b);
          o1 = number_field o1 ''bad_events'' (bu_bad_events b);
          o1 = number_field o1 ''ignored_events'' (bu_ignored_events b);
          o1 = number_field o1 ''total_weight'' (bu_total_weight b);
          o1 = number_field o1 ''bad_weight'' (bu_bad_weight b);
          o1 = raw_field o1 ''success_ratio'' (show_double 6 (bu_success_ratio b));
          o1 = raw_field o1 ''error_ratio'' (show_double 6 (bu_error_ratio b));
          o1 = raw_field o1 ''allowed_error_ratio'' (show_double 6 (bu_allowed_error_ratio b));
          o1 = raw_field o1 ''budget_used_ratio'' (show_double 6 (bu_budget_used_ratio b));
          o1 = raw_field o1 ''budget_remaining_ratio'' (show_double 6 (bu_budget_remaining_ratio b));
          o1 = raw_field o1 ''burn_rate'' (show_double 6 (bu_burn_rate b))
      in string_field o1 ''status'' (slo_status_name (bu_status b)))"

definition burn_window_json_object :: "(nat \<Rightarrow> rat \<Rightarrow> string) \<Rightarrow> burn_window \<Rightarrow> json_object" where
  "burn_window_json_object show_double b =
     (let o1 = string_field [] ''label'' (bn_label b);
          o1 = number_field o1 ''window_ns'' (bn_window_ns b);
          o1 = raw_field o1 ''burn_rate'' (show_double 6 (bn_burn_rate b));
          o1 = raw_field o1 ''budget_used_ratio'' (show_double 6 (bn_budget_used_ratio b))
      in string_field o1 ''status'' (slo_status_name (bn_status b)))"

definition burn_windows_json :: "(nat \<Rightarrow> rat \<Rightarrow> string) \<Rightarrow> burn_window list \<Rightarrow> string" where
  "burn_windows_json show_double windows = render_json_array (map (burn_window_json_object show_double) windows)"

definition render_slo_budget_text :: "(nat \<Rightarrow> rat \<Rightarrow> string) \<Rightarrow> slo_budget \<Rightarrow> string" where
  "render_slo_budget_text show_double b =
     render_text_table
       \<lparr>tt_headers = [''slo'', ''status'', ''success'', ''error'', ''budget_used'', ''remaining'', ''good'', ''bad'', ''ignored''],
        tt_rows = [[sj_id (bu_objective b), slo_status_name (bu_status b), show_double 6 (bu_success_ratio b),
          show_double 6 (bu_error_ratio b), show_double 6 (bu_budget_used_ratio b),
          show_double 6 (bu_budget_remaining_ratio b), dec (bu_good_events b), dec (bu_bad_events b),
          dec (bu_ignored_events b)]]\<rparr>"

definition render_slo_budget_json :: "(nat \<Rightarrow> rat \<Rightarrow> string) \<Rightarrow> slo_budget \<Rightarrow> string" where
  "render_slo_budget_json show_double b = render_json_object (budget_json_object show_double b)"

definition render_multi_window_slo_text :: "(nat \<Rightarrow> rat \<Rightarrow> string) \<Rightarrow> multi_window_report \<Rightarrow> string" where
  "render_multi_window_slo_text show_double report =
     ''slo_primary'' @ newline @ render_slo_budget_text show_double (mw_primary report)
     @ ''slo_windows'' @ newline
     @ render_text_table
         \<lparr>tt_headers = [''window'', ''status'', ''burn_rate'', ''budget_used''],
          tt_rows = map (\<lambda>b. [bn_label b, slo_status_name (bn_status b), show_double 6 (bn_burn_rate b),
            show_double 6 (bn_budget_used_ratio b)]) (mw_windows report)\<rparr>
     @ ''recommendation: '' @ mw_recommendation report @ newline"

definition render_multi_window_slo_json :: "(nat \<Rightarrow> rat \<Rightarrow> string) \<Rightarrow> multi_window_report \<Rightarrow> string" where
  "render_multi_window_slo_json show_double report =
     (let root = string_field [] ''id'' (sj_id (mw_objective report));
          root = string_field root ''name'' (sj_name (mw_objective report));
          root = number_field root ''evaluated_at_ns'' (mw_evaluated_at_ns report);
          root = raw_field root ''primary'' (render_json_object (budget_json_object show_double (mw_primary report)));
          root = raw_field root ''windows'' (burn_windows_json show_double (mw_windows report))
      in render_json_object (string_field root ''recommendation'' (mw_recommendation report)))"

section \<open>What a slice counts\<close>

definition falls_in :: "u64 \<Rightarrow> u64 \<Rightarrow> slo_event \<Rightarrow> bool" where
  "falls_in start_ns end_ns e \<longleftrightarrow> start_ns \<le> sv_time_ns e \<and> sv_time_ns e \<le> end_ns"

text \<open>What one event adds to each of the five fields.\<close>

definition is_kind :: "slo_event_kind \<Rightarrow> slo_event \<Rightarrow> u64" where
  "is_kind kind e = (if sv_kind e = kind then 1 else 0)"

definition counted_weight :: "slo_event \<Rightarrow> u64" where
  "counted_weight e = (if sv_kind e = SE_ignored then 0 else sv_weight e)"

definition lost_weight :: "slo_event \<Rightarrow> u64" where
  "lost_weight e = (if sv_kind e = SE_bad then sv_weight e else 0)"

definition total_in :: "(slo_event \<Rightarrow> u64) \<Rightarrow> slo_window \<Rightarrow> u64 \<Rightarrow> u64 \<Rightarrow> u64" where
  "total_in f w start_ns end_ns = (\<Sum>e\<leftarrow>filter (falls_in start_ns end_ns) (sw_events w). f e)"

lemma add_event_fields:
  "sx_good_events (add_event_to_slice e s) = sx_good_events s + is_kind SE_good e"
  "sx_bad_events (add_event_to_slice e s) = sx_bad_events s + is_kind SE_bad e"
  "sx_ignored_events (add_event_to_slice e s) = sx_ignored_events s + is_kind SE_ignored e"
  "sx_total_weight (add_event_to_slice e s) = sx_total_weight s + counted_weight e"
  "sx_bad_weight (add_event_to_slice e s) = sx_bad_weight s + lost_weight e"
  "sx_start_time_ns (add_event_to_slice e s) = sx_start_time_ns s"
  "sx_end_time_ns (add_event_to_slice e s) = sx_end_time_ns s"
  by (cases "sv_kind e"; simp add: add_event_to_slice_def is_kind_def counted_weight_def lost_weight_def)+

lemma slice_fold:
  assumes "\<And>e s. field (add_event_to_slice e s) = field s + (f e :: u64)"
  shows "field (fold (\<lambda>e s. if sv_time_ns e \<ge> a \<and> sv_time_ns e \<le> b then add_event_to_slice e s else s) es s)
     = field s + (\<Sum>e\<leftarrow>filter (falls_in a b) es. f e)"
  by (induction es arbitrary: s) (simp_all add: assms falls_in_def add.assoc)

lemma slice_bounds:
  "sx_start_time_ns (slo_slice_of w a b) = a" "sx_end_time_ns (slo_slice_of w a b) = b"
proof -
  have "sx_start_time_ns (fold (\<lambda>e s. if sv_time_ns e \<ge> a \<and> sv_time_ns e \<le> b then add_event_to_slice e s else s) es s)
      = sx_start_time_ns s"
    "sx_end_time_ns (fold (\<lambda>e s. if sv_time_ns e \<ge> a \<and> sv_time_ns e \<le> b then add_event_to_slice e s else s) es s)
      = sx_end_time_ns s" for es s
    by (induction es arbitrary: s) (simp_all add: add_event_fields)
  then show "sx_start_time_ns (slo_slice_of w a b) = a" "sx_end_time_ns (slo_slice_of w a b) = b"
    by (simp_all add: slo_slice_of_def slice_start_def)
qed

lemma slice_totals:
  "sx_good_events (slo_slice_of w a b) = total_in (is_kind SE_good) w a b"
  "sx_bad_events (slo_slice_of w a b) = total_in (is_kind SE_bad) w a b"
  "sx_ignored_events (slo_slice_of w a b) = total_in (is_kind SE_ignored) w a b"
  "sx_total_weight (slo_slice_of w a b) = total_in counted_weight w a b"
  "sx_bad_weight (slo_slice_of w a b) = total_in lost_weight w a b"
  using add_event_fields(1-5) [THEN slice_fold, of a b "sw_events w" "slice_start a b"]
  by (simp_all add: slo_slice_of_def total_in_def slice_start_def)

section \<open>The partition of an interval\<close>

text \<open>Slices one after the other, from the start of the interval to its end, without gap or overlap.\<close>

fun tiles :: "u64 \<Rightarrow> u64 \<Rightarrow> slo_slice list \<Rightarrow> bool" where
  "tiles a b [] \<longleftrightarrow> False"
| "tiles a b [s] \<longleftrightarrow> sx_start_time_ns s = a \<and> sx_end_time_ns s = b \<and> a \<le> b"
| "tiles a b (s # t # ss) \<longleftrightarrow>
     sx_start_time_ns s = a \<and> a \<le> sx_end_time_ns s \<and> sx_end_time_ns s < b \<and> tiles (sx_end_time_ns s + 1) b (t # ss)"

lemma total_in_split:
  assumes "a \<le> m" "m < b"
  shows "total_in f w a b = total_in f w a m + total_in f w (m + 1) b"
proof -
  have m: "m + 1 \<le> t \<longleftrightarrow> \<not> t \<le> m" for t :: u64
    using assms(2) unat_succ [of m b] by (simp add: word_le_nat_alt) linarith
  have "(\<Sum>e\<leftarrow>filter (falls_in a b) es. f e)
      = (\<Sum>e\<leftarrow>filter (falls_in a m) es. f e) + (\<Sum>e\<leftarrow>filter (falls_in (m + 1) b) es. f e)" for es
  proof (induction es)
    case (Cons e es)
    have "sv_time_ns e \<le> m \<Longrightarrow> sv_time_ns e \<le> b" "\<not> sv_time_ns e \<le> m \<Longrightarrow> a \<le> sv_time_ns e"
      using assms by auto
    then show ?case
      using Cons by (cases "sv_time_ns e \<le> m") (simp_all add: falls_in_def m)
  qed simp
  then show ?thesis
    by (simp add: total_in_def)
qed

lemma tiles_total:
  "tiles a b ss \<Longrightarrow> (\<Sum>s\<leftarrow>ss. total_in f w (sx_start_time_ns s) (sx_end_time_ns s)) = total_in f w a b"
  by (induction a b ss rule: tiles.induct) (auto simp: total_in_split)

lemma partition_loop_tiles:
  assumes "cursor \<le> end_ns" and "slice_ns \<noteq> 0" and "unat end_ns + unat slice_ns < 18446744073709551616"
  shows "\<exists>ss. partition_loop w cursor end_ns slice_ns slices = Some (slices @ ss) \<and> tiles cursor end_ns ss
     \<and> (\<forall>s \<in> set ss. s = slo_slice_of w (sx_start_time_ns s) (sx_end_time_ns s))"
  using assms(1)
proof (induction "unat end_ns - unat cursor" arbitrary: cursor slices rule: less_induct)
  case less
  have sum: "unat (cursor + slice_ns) = unat cursor + unat slice_ns"
    using less.prems assms(3) by (simp add: word_le_nat_alt unat_word_ariths)
  define nxt where "nxt = (if cursor + slice_ns > end_ns then end_ns else cursor + slice_ns)"
  have nxt: "cursor \<le> nxt" "nxt \<le> end_ns"
    using less.prems sum by (auto simp: nxt_def word_le_nat_alt word_less_nat_alt)
  have step: "partition_loop w cursor end_ns slice_ns slices
      = (if nxt = end_ns then Some (slices @ [slo_slice_of w cursor nxt])
         else partition_loop w (nxt + 1) end_ns slice_ns (slices @ [slo_slice_of w cursor nxt]))"
    using less.prems by (subst partition_loop.simps) (simp add: Let_def nxt_def)
  show ?case
  proof (cases "nxt = end_ns")
    case True
    then show ?thesis
      using less.prems by (intro exI [of _ "[slo_slice_of w cursor nxt]"]) (simp add: step slice_bounds)
  next
    case False
    then have less_end: "nxt < end_ns"
      using nxt(2) by simp
    have after: "unat (nxt + 1) = Suc (unat nxt)"
      by (rule unat_succ [OF less_end])
    have le: "nxt + 1 \<le> end_ns"
      using after less_end by (simp add: word_le_nat_alt word_less_nat_alt)
    have "unat end_ns - unat (nxt + 1) < unat end_ns - unat cursor"
      using after nxt(1) less_end by (simp add: word_le_nat_alt word_less_nat_alt) 
    from less.hyps [OF this le, of "slices @ [slo_slice_of w cursor nxt]"]
    obtain ss where ss: "partition_loop w (nxt + 1) end_ns slice_ns (slices @ [slo_slice_of w cursor nxt])
        = Some (slices @ slo_slice_of w cursor nxt # ss)" "tiles (nxt + 1) end_ns ss"
      "\<forall>s \<in> set ss. s = slo_slice_of w (sx_start_time_ns s) (sx_end_time_ns s)"
      by auto
    have "tiles cursor end_ns (slo_slice_of w cursor nxt # ss)"
      using ss(2) nxt(1) less_end by (cases ss) (auto simp: slice_bounds)
    then show ?thesis
      using ss False by (intro exI [of _ "slo_slice_of w cursor nxt # ss"]) (simp add: step slice_bounds)
  qed
qed

text \<open>
  C34. If the end of the interval and the slice length together stay below the clock's
  range, the partition returns, its slices cover the interval one after the other without gap or
  overlap, each slice is what \<open>slice\<close> computes for its bounds, and the counts and weights of the
  slices add up to those of the whole interval.
\<close>

theorem slo_partition_exact:
  assumes "start_ns \<le> end_ns" and "slice_ns \<noteq> 0"
    and "unat end_ns + unat slice_ns < 18446744073709551616"
  shows "\<exists>ss. slo_partition w start_ns end_ns slice_ns = Some ss \<and> tiles start_ns end_ns ss
    \<and> (\<forall>s \<in> set ss. s = slo_slice_of w (sx_start_time_ns s) (sx_end_time_ns s))
    \<and> (\<Sum>s\<leftarrow>ss. sx_good_events s) = sx_good_events (slo_slice_of w start_ns end_ns)
    \<and> (\<Sum>s\<leftarrow>ss. sx_bad_events s) = sx_bad_events (slo_slice_of w start_ns end_ns)
    \<and> (\<Sum>s\<leftarrow>ss. sx_ignored_events s) = sx_ignored_events (slo_slice_of w start_ns end_ns)
    \<and> (\<Sum>s\<leftarrow>ss. sx_total_weight s) = sx_total_weight (slo_slice_of w start_ns end_ns)
    \<and> (\<Sum>s\<leftarrow>ss. sx_bad_weight s) = sx_bad_weight (slo_slice_of w start_ns end_ns)"
proof -
  obtain ss where ss: "partition_loop w start_ns end_ns slice_ns [] = Some ss" "tiles start_ns end_ns ss"
    "\<forall>s \<in> set ss. s = slo_slice_of w (sx_start_time_ns s) (sx_end_time_ns s)"
    using partition_loop_tiles [OF assms, of w "[]"] by auto
  have sums: "(\<Sum>s\<leftarrow>ss. field s) = field (slo_slice_of w start_ns end_ns)"
    if "\<And>a b. field (slo_slice_of w a b) = total_in f w a b" for field and f
  proof -
    have "(\<Sum>s\<leftarrow>ss. field s) = (\<Sum>s\<leftarrow>ss. total_in f w (sx_start_time_ns s) (sx_end_time_ns s))"
      using ss(3) that by (intro arg_cong [where f = sum_list] map_cong refl) metis
    then show ?thesis
      by (simp add: tiles_total [OF ss(2)] that)
  qed
  have "slo_partition w start_ns end_ns slice_ns = Some ss"
    using ss(1) assms(2) leD [OF assms(1)] by (simp add: slo_partition_def)
  then show ?thesis
    using ss(2,3) slice_totals [THEN sums] by blast
qed

lemma slo_partition_exact_witness:
  "\<exists>ss. slo_partition (sw_good 3 1 [] (slo_window_of (make_latency_slo [] [] 1 0 0))) 0 9 4 = Some ss
     \<and> tiles 0 9 ss \<and> (\<Sum>s\<leftarrow>ss. sx_good_events s) = 1"
  using slo_partition_exact [of 0 9 4 "sw_good 3 1 [] (slo_window_of (make_latency_slo [] [] 1 0 0))"]
  by (auto simp: slo_slice_of_def slice_start_def sw_good_def sw_add_def slo_window_of_def add_event_to_slice_def
      word_le_nat_alt)

text \<open>
  Beyond that bound the cursor wraps: an interval from 1 to the last instant with the longest
  slice is cut at 0, before its start, and the loop comes back to 1 for ever.
\<close>

lemma partition_loop_wraps:
  "partition_loop w cursor end_ns slice_ns slices = Some result \<Longrightarrow>
     \<not> (cursor = 1 \<and> end_ns = - 1 \<and> slice_ns = - 1)"
proof (rule partition_loop.raw_induct
    [where P = "\<lambda>w cursor end_ns slice_ns slices result. \<not> (cursor = 1 \<and> end_ns = - 1 \<and> slice_ns = - 1)"])
  fix loop and w and cursor end_ns slice_ns :: u64 and slices :: "slo_slice list" and y
  assume again: "\<And>w cursor end_ns slice_ns slices r. loop w cursor end_ns slice_ns slices = Some r \<Longrightarrow>
      \<not> (cursor = 1 \<and> end_ns = - 1 \<and> slice_ns = - 1)"
    and body: "(if cursor \<le> end_ns
      then let nxt = if end_ns < cursor + slice_ns then end_ns else cursor + slice_ns;
               slices = slices @ [slo_slice_of w cursor nxt]
           in if nxt = end_ns then Some slices else loop w (nxt + 1) end_ns slice_ns slices
      else Some slices) = Some y"
  show "\<not> (cursor = 1 \<and> end_ns = - 1 \<and> slice_ns = - 1)"
  proof
    assume args: "cursor = 1 \<and> end_ns = - 1 \<and> slice_ns = - 1"
    then have "loop w 1 (- 1) (- 1) (slices @ [slo_slice_of w 1 0]) = Some y"
      using body by (simp add: Let_def)
    from again [OF this] show False
      by simp
  qed
qed

lemma partition_diverges: "slo_partition w 1 (- 1) (- 1) = None"
  using partition_loop_wraps [of w 1 "- 1" "- 1" "[]"]
  by (cases "partition_loop w 1 (- 1) (- 1) []") (auto simp: slo_partition_def)

end
