(* ===== verification/Archive_Statistics.thy ===== *)
theory Archive_Statistics
  imports Collection Manifest_Diff Grouping
begin

text \<open>
  Statistics over a collection of archives (\<open>src/storage/archive_statistics.cpp\<close>): time buckets,
  device timelines, gaps, overlaps, sequence anomalies, payload percentiles and ranking, density
  and the matrix of devices and kinds. Doubles are rationals rounded by \<open>fl\<close>, printed with a number
  of decimals by \<open>show_double\<close>; \<open>std::sort\<close> is modelled as a stable sort.
\<close>

section \<open>Data\<close>

record time_bucket =
  tb_start_ns :: u64
  tb_end_ns :: u64
  tb_record_count :: u64
  tb_payload_bytes :: u64
  tb_archive_count :: u64

record timeline_point =
  tp_device :: device_id
  tp_capture_time_ns :: u64
  tp_sequence :: u32
  tp_payload_size :: u64
  tp_archive_path :: string

record device_timeline =
  tl_device :: device_id
  tl_points :: "timeline_point list"
  tl_first_time_ns :: u64
  tl_last_time_ns :: u64
  tl_total_payload_bytes :: u64

record archive_gap =
  ag_device :: device_id
  ag_previous_time_ns :: u64
  ag_next_time_ns :: u64
  ag_gap_ns :: u64
  ag_previous_archive :: string
  ag_next_archive :: string

record archive_overlap =
  ao_left_archive :: string
  ao_right_archive :: string
  ao_start_ns :: u64
  ao_end_ns :: u64
  ao_span_ns :: u64
  ao_left_records :: u64
  ao_right_records :: u64

record sequence_anomaly =
  sq_device :: device_id
  sq_previous_sequence :: u32
  sq_current_sequence :: u32
  sq_capture_time_ns :: u64
  sq_archive_path :: string
  sq_reason :: string

record payload_percentiles =
  pq_minimum :: u64
  pq_p50 :: u64
  pq_p90 :: u64
  pq_p99 :: u64
  pq_maximum :: u64
  pq_average :: rat

record payload_rank =
  pr_device :: device_id
  pr_record_count :: u64
  pr_payload_bytes :: u64
  pr_payload_share :: rat
  pr_average_payload_size :: rat

record density_summary =
  dn_archive_count :: u64
  dn_record_count :: u64
  dn_payload_bytes :: u64
  dn_records_per_archive :: rat
  dn_payload_bytes_per_archive :: rat
  dn_payload_bytes_per_record :: rat

record matrix_cell =
  mc_device :: device_id
  mc_kind :: packet_kind
  mc_record_count :: u64

record statistics_report =
  st_summary :: archive_summary
  st_time_buckets :: "time_bucket list"
  st_device_timelines :: "device_timeline list"
  st_gaps :: "archive_gap list"
  st_overlaps :: "archive_overlap list"
  st_sequence_anomalies :: "sequence_anomaly list"
  st_payload_ranking :: "payload_rank list"
  st_device_kind_matrix :: "matrix_cell list"
  st_payload_percentiles :: payload_percentiles
  st_density :: density_summary

definition real_of :: "(rat \<Rightarrow> rat) \<Rightarrow> u64 \<Rightarrow> rat" where
  "real_of fl w = fl (of_nat (unat w))"

definition ratio :: "(rat \<Rightarrow> rat) \<Rightarrow> u64 \<Rightarrow> u64 \<Rightarrow> rat" where
  "ratio fl a b = fl (real_of fl a / real_of fl b)"

section \<open>Time buckets\<close>

definition bucket_start :: "u64 \<Rightarrow> u64 \<Rightarrow> u64" where
  "bucket_start time width = (if width = 0 then time else time div width * width)"

definition fresh_bucket :: time_bucket where
  "fresh_bucket =
     \<lparr>tb_start_ns = 0, tb_end_ns = 0, tb_record_count = 0, tb_payload_bytes = 0, tb_archive_count = 0\<rparr>"

definition add_to_bucket :: "u64 \<Rightarrow> record_ref \<Rightarrow> time_bucket \<Rightarrow> time_bucket" where
  "add_to_bucket width ref b =
     (let start = bucket_start (cr_capture_time_ns ref) width;
          b = (if tb_record_count b = 0 then b\<lparr>tb_start_ns := start, tb_end_ns := start + width - 1\<rparr> else b)
      in b\<lparr>tb_record_count := tb_record_count b + 1, tb_payload_bytes := tb_payload_bytes b + cr_payload_size ref\<rparr>)"

definition count_archives :: "record_ref list \<Rightarrow> time_bucket \<Rightarrow> time_bucket" where
  "count_archives refs b =
     b\<lparr>tb_archive_count := of_nat (length (set_of (map cr_archive_ordinal
        (filter (\<lambda>r. cr_capture_time_ns r \<ge> tb_start_ns b \<and> cr_capture_time_ns r \<le> tb_end_ns b) refs))))\<rparr>"

definition build_archive_time_buckets :: "archive_collection \<Rightarrow> u64 \<Rightarrow> time_bucket list" where
  "build_archive_time_buckets c bucket_width =
     (let width = (if bucket_width = 0 then 1 else bucket_width)
      in map (count_archives (cx_records c))
           (om_values (group_by (\<lambda>r. bucket_start (cr_capture_time_ns r) width) fresh_bucket
             (add_to_bucket width) (cx_records c))))"

section \<open>Timelines, gaps and anomalies\<close>

definition make_timeline_point :: "record_ref \<Rightarrow> timeline_point" where
  "make_timeline_point ref =
     \<lparr>tp_device = cr_device ref, tp_capture_time_ns = cr_capture_time_ns ref, tp_sequence = cr_sequence ref,
      tp_payload_size = cr_payload_size ref, tp_archive_path = cr_path ref\<rparr>"

definition update_timeline :: "timeline_point \<Rightarrow> device_timeline \<Rightarrow> device_timeline" where
  "update_timeline p t =
     (let t = (if tl_points t = []
               then t\<lparr>tl_first_time_ns := tp_capture_time_ns p, tl_last_time_ns := tp_capture_time_ns p\<rparr>
               else t\<lparr>tl_first_time_ns := min (tl_first_time_ns t) (tp_capture_time_ns p),
                      tl_last_time_ns := max (tl_last_time_ns t) (tp_capture_time_ns p)\<rparr>)
      in t\<lparr>tl_total_payload_bytes := tl_total_payload_bytes t + tp_payload_size p, tl_points := tl_points t @ [p]\<rparr>)"

definition fresh_timeline :: device_timeline where
  "fresh_timeline =
     \<lparr>tl_device = 0, tl_points = [], tl_first_time_ns = 0, tl_last_time_ns = 0, tl_total_payload_bytes = 0\<rparr>"

definition add_to_timeline :: "record_ref \<Rightarrow> device_timeline \<Rightarrow> device_timeline" where
  "add_to_timeline ref t = update_timeline (make_timeline_point ref) (t\<lparr>tl_device := cr_device ref\<rparr>)"

definition point_order :: "timeline_point \<Rightarrow> u64 \<times> u32" where
  "point_order p = (tp_capture_time_ns p, tp_sequence p)"

definition timeline_values :: "archive_collection \<Rightarrow> device_timeline list" where
  "timeline_values c =
     map (\<lambda>t. t\<lparr>tl_points := sort_key point_order (tl_points t)\<rparr>)
       (om_values (group_by cr_device fresh_timeline add_to_timeline (cx_records c)))"

definition timeline_order :: "device_timeline \<Rightarrow> int \<times> u64" where
  "timeline_order t = (- int (length (tl_points t)), tl_device t)"

definition build_device_timelines :: "archive_collection \<Rightarrow> device_timeline list" where
  "build_device_timelines c = sort_key timeline_order (timeline_values c)"

text \<open>Each point with its predecessor.\<close>

definition successive :: "'a list \<Rightarrow> ('a \<times> 'a) list" where
  "successive xs = zip xs (tl xs)"

definition gap_between :: "u64 \<Rightarrow> device_timeline \<Rightarrow> timeline_point \<times> timeline_point \<Rightarrow> archive_gap list" where
  "gap_between threshold t pair =
     (let p = fst pair; q = snd pair; gap = tp_capture_time_ns q - tp_capture_time_ns p
      in if tp_capture_time_ns q < tp_capture_time_ns p then []
         else if gap \<le> threshold then []
         else [\<lparr>ag_device = tl_device t, ag_previous_time_ns = tp_capture_time_ns p,
                ag_next_time_ns = tp_capture_time_ns q, ag_gap_ns = gap,
                ag_previous_archive = tp_archive_path p, ag_next_archive = tp_archive_path q\<rparr>])"

definition gap_order :: "archive_gap \<Rightarrow> int \<times> u64" where
  "gap_order g = (- uint (ag_gap_ns g), ag_device g)"

definition detect_archive_gaps :: "archive_collection \<Rightarrow> u64 \<Rightarrow> archive_gap list" where
  "detect_archive_gaps c threshold =
     sort_key gap_order
       (concat (map (\<lambda>t. concat (map (gap_between threshold t) (successive (tl_points t)))) (build_device_timelines c)))"

definition anomaly_reason :: "u32 \<Rightarrow> u32 \<Rightarrow> string" where
  "anomaly_reason previous current =
     (if current = previous then ''duplicate sequence''
      else if current < previous then ''sequence moved backwards''
      else ''sequence gap'')"

definition anomaly_between :: "device_timeline \<Rightarrow> timeline_point \<times> timeline_point \<Rightarrow> sequence_anomaly list" where
  "anomaly_between t pair =
     (let p = fst pair; q = snd pair
      in if tp_sequence q \<noteq> tp_sequence p \<and> \<not> tp_sequence q < tp_sequence p
            \<and> \<not> tp_sequence q > tp_sequence p + 1
         then []
         else [\<lparr>sq_device = tl_device t, sq_previous_sequence = tp_sequence p, sq_current_sequence = tp_sequence q,
                sq_capture_time_ns = tp_capture_time_ns q, sq_archive_path = tp_archive_path q,
                sq_reason = anomaly_reason (tp_sequence p) (tp_sequence q)\<rparr>])"

definition anomaly_order :: "sequence_anomaly \<Rightarrow> u64 \<times> u64" where
  "anomaly_order a = (sq_device a, sq_capture_time_ns a)"

definition detect_sequence_anomalies :: "archive_collection \<Rightarrow> sequence_anomaly list" where
  "detect_sequence_anomalies c =
     sort_key anomaly_order
       (concat (map (\<lambda>t. concat (map (anomaly_between t) (successive (tl_points t)))) (build_device_timelines c)))"

section \<open>Overlaps\<close>

definition count_records_in_window :: "collection_entry \<Rightarrow> u64 \<Rightarrow> u64 \<Rightarrow> u64" where
  "count_records_in_window e start_ns end_ns =
     of_nat (length (filter (\<lambda>x. ix_capture_time_ns x \<ge> start_ns \<and> ix_capture_time_ns x \<le> end_ns)
       (ai_records (cl_index e))))"

definition archives_have_time_overlap :: "collection_entry \<Rightarrow> collection_entry \<Rightarrow> bool" where
  "archives_have_time_overlap left right \<longleftrightarrow>
     (let l = am_summary (cl_manifest left); r = am_summary (cl_manifest right)
      in as_record_count l \<noteq> 0 \<and> as_record_count r \<noteq> 0
         \<and> as_first_time_ns l \<le> as_last_time_ns r \<and> as_first_time_ns r \<le> as_last_time_ns l)"

definition make_overlap :: "collection_entry \<Rightarrow> collection_entry \<Rightarrow> archive_overlap" where
  "make_overlap left right =
     (let l = am_summary (cl_manifest left); r = am_summary (cl_manifest right);
          start = max (as_first_time_ns l) (as_first_time_ns r);
          fin = min (as_last_time_ns l) (as_last_time_ns r)
      in \<lparr>ao_left_archive = cl_path left, ao_right_archive = cl_path right, ao_start_ns = start, ao_end_ns = fin,
          ao_span_ns = (if fin \<ge> start then fin - start else 0),
          ao_left_records = count_records_in_window left start fin,
          ao_right_records = count_records_in_window right start fin\<rparr>)"

fun overlap_pairs :: "collection_entry list \<Rightarrow> archive_overlap list" where
  "overlap_pairs [] = []"
| "overlap_pairs (e # es) =
     map (make_overlap e) (filter (archives_have_time_overlap e) es) @ overlap_pairs es"

definition overlap_order :: "archive_overlap \<Rightarrow> int \<times> string \<times> string" where
  "overlap_order o1 = (- uint (ao_span_ns o1), ao_left_archive o1, ao_right_archive o1)"

definition detect_archive_overlaps :: "archive_collection \<Rightarrow> archive_overlap list" where
  "detect_archive_overlaps c = sort_key overlap_order (overlap_pairs (cx_archives c))"

section \<open>Payloads\<close>

definition percentile_value :: "(rat \<Rightarrow> rat) \<Rightarrow> u64 list \<Rightarrow> rat \<Rightarrow> u64" where
  "percentile_value fl values percentile =
     (if values = [] then 0
      else
        let rank = fl (fl percentile * fl (of_nat (length values - 1)));
            i = nat \<lfloor>fl (rank + 1 / 2)\<rfloor>
        in values ! (if i \<ge> length values then length values - 1 else i))"

definition calculate_payload_percentiles :: "(rat \<Rightarrow> rat) \<Rightarrow> archive_collection \<Rightarrow> payload_percentiles" where
  "calculate_payload_percentiles fl c =
     (if cx_records c = []
      then \<lparr>pq_minimum = 0, pq_p50 = 0, pq_p90 = 0, pq_p99 = 0, pq_maximum = 0, pq_average = 0\<rparr>
      else
        let sizes = sort (map cr_payload_size (cx_records c)); total = (\<Sum>s\<leftarrow>sizes. s)
        in \<lparr>pq_minimum = hd sizes, pq_p50 = percentile_value fl sizes (1 / 2),
            pq_p90 = percentile_value fl sizes (9 / 10), pq_p99 = percentile_value fl sizes (99 / 100),
            pq_maximum = last sizes, pq_average = fl (real_of fl total / fl (of_nat (length sizes)))\<rparr>)"

record mutable_rank =
  mk_record_count :: u64
  mk_payload_bytes :: u64

definition fresh_rank :: mutable_rank where
  "fresh_rank = \<lparr>mk_record_count = 0, mk_payload_bytes = 0\<rparr>"

definition add_to_rank :: "record_ref \<Rightarrow> mutable_rank \<Rightarrow> mutable_rank" where
  "add_to_rank ref r =
     \<lparr>mk_record_count = mk_record_count r + 1, mk_payload_bytes = mk_payload_bytes r + cr_payload_size ref\<rparr>"

definition rank_of :: "(rat \<Rightarrow> rat) \<Rightarrow> u64 \<Rightarrow> device_id \<times> mutable_rank \<Rightarrow> payload_rank" where
  "rank_of fl whole entry =
     (let r = snd entry
      in \<lparr>pr_device = fst entry, pr_record_count = mk_record_count r, pr_payload_bytes = mk_payload_bytes r,
          pr_payload_share = (if whole \<noteq> 0 then ratio fl (mk_payload_bytes r) whole else 0),
          pr_average_payload_size =
            (if mk_record_count r \<noteq> 0 then ratio fl (mk_payload_bytes r) (mk_record_count r) else 0)\<rparr>)"

definition rank_order :: "payload_rank \<Rightarrow> int \<times> int \<times> u64" where
  "rank_order r = (- uint (pr_payload_bytes r), - uint (pr_record_count r), pr_device r)"

definition rank_devices_by_payload :: "(rat \<Rightarrow> rat) \<Rightarrow> archive_collection \<Rightarrow> payload_rank list" where
  "rank_devices_by_payload fl c =
     (let total = (\<Sum>r\<leftarrow>cx_records c. cr_payload_size r)
      in sort_key rank_order
           (map (rank_of fl total) (om_entries (group_by cr_device fresh_rank add_to_rank (cx_records c)))))"

definition calculate_archive_density :: "(rat \<Rightarrow> rat) \<Rightarrow> archive_collection \<Rightarrow> density_summary" where
  "calculate_archive_density fl c =
     (let archives = of_nat (length (cx_archives c)); records = of_nat (length (cx_records c));
          payload = (\<Sum>r\<leftarrow>cx_records c. cr_payload_size r)
      in \<lparr>dn_archive_count = archives, dn_record_count = records, dn_payload_bytes = payload,
          dn_records_per_archive = (if archives \<noteq> 0 then ratio fl records archives else 0),
          dn_payload_bytes_per_archive = (if archives \<noteq> 0 then ratio fl payload archives else 0),
          dn_payload_bytes_per_record = (if records \<noteq> 0 then ratio fl payload records else 0)\<rparr>)"

definition archive_density_empty :: "density_summary \<Rightarrow> bool" where
  "archive_density_empty d \<longleftrightarrow> dn_archive_count d = 0 \<and> dn_record_count d = 0 \<and> dn_payload_bytes d = 0"

section \<open>The matrix and the report\<close>

text \<open>Loading may throw; a reference whose record is not found any more is skipped.\<close>

fun matrix_kinds :: "archive_files \<Rightarrow> record_ref list \<Rightarrow> error + (device_id \<times> packet_kind) list" where
  "matrix_kinds files [] = Inr []"
| "matrix_kinds files (ref # refs) =
     err_bind (load_collection_record files ref) (\<lambda>loaded.
     err_bind (matrix_kinds files refs) (\<lambda>keys.
       case loaded of
         None \<Rightarrow> Inr keys
       | Some r \<Rightarrow> Inr ((cr_device ref, p_kind (rec_packet r)) # keys)))"

definition build_device_kind_matrix :: "archive_files \<Rightarrow> archive_collection \<Rightarrow> error + matrix_cell list" where
  "build_device_kind_matrix files c =
     err_bind (matrix_kinds files (cx_records c)) (\<lambda>keys. Inr
       (sort_key (\<lambda>cell. (mc_device cell, kind_number (mc_kind cell)))
         (map (\<lambda>(key, n). \<lparr>mc_device = fst key, mc_kind = snd key, mc_record_count = n\<rparr>)
           (om_entries (group_by id (0 :: u64) (\<lambda>_ n. n + 1) keys)))))"

definition summarize_collection :: "archive_collection \<Rightarrow> archive_summary" where
  "summarize_collection c =
     (let times = map cr_capture_time_ns (cx_records c)
      in \<lparr>as_format_version = as_format_version (cx_summary c), as_record_count = of_nat (length (cx_records c)),
          as_first_time_ns = (if times = [] then 0 else foldl min (hd times) times),
          as_last_time_ns = (if times = [] then 0 else foldl max (hd times) times)\<rparr>)"

definition build_archive_statistics_report ::
  "(rat \<Rightarrow> rat) \<Rightarrow> archive_files \<Rightarrow> archive_collection \<Rightarrow> u64 \<Rightarrow> u64 \<Rightarrow> error + statistics_report" where
  "build_archive_statistics_report fl files c bucket_width gap_threshold =
     err_bind (build_device_kind_matrix files c) (\<lambda>matrix. Inr
       \<lparr>st_summary = summarize_collection c,
        st_time_buckets = build_archive_time_buckets c bucket_width,
        st_device_timelines = build_device_timelines c,
        st_gaps = detect_archive_gaps c gap_threshold,
        st_overlaps = detect_archive_overlaps c,
        st_sequence_anomalies = detect_sequence_anomalies c,
        st_payload_ranking = rank_devices_by_payload fl c,
        st_device_kind_matrix = matrix,
        st_payload_percentiles = calculate_payload_percentiles fl c,
        st_density = calculate_archive_density fl c\<rparr>)"

definition archive_statistics_report_empty :: "statistics_report \<Rightarrow> bool" where
  "archive_statistics_report_empty r \<longleftrightarrow>
     as_record_count (st_summary r) = 0 \<and> st_time_buckets r = [] \<and> st_device_timelines r = []
     \<and> st_gaps r = [] \<and> st_overlaps r = [] \<and> st_sequence_anomalies r = [] \<and> st_payload_ranking r = []
     \<and> st_device_kind_matrix r = [] \<and> archive_density_empty (st_density r)"

definition archive_statistics_report_has_findings :: "statistics_report \<Rightarrow> bool" where
  "archive_statistics_report_has_findings r \<longleftrightarrow>
     st_gaps r \<noteq> [] \<or> st_overlaps r \<noteq> [] \<or> st_sequence_anomalies r \<noteq> []"

section \<open>Rendering\<close>

definition render_archive_time_buckets :: "time_bucket list \<Rightarrow> string" where
  "render_archive_time_buckets buckets =
     ''archive_time_buckets'' @ newline
     @ concat (map (\<lambda>b. ''  bucket: start='' @ dec (tb_start_ns b) @ '' end='' @ dec (tb_end_ns b)
         @ '' records='' @ dec (tb_record_count b) @ '' payload_bytes='' @ dec (tb_payload_bytes b)
         @ '' archives='' @ dec (tb_archive_count b) @ newline) buckets)"

definition render_device_timelines :: "device_timeline list \<Rightarrow> string" where
  "render_device_timelines timelines =
     ''device_timelines'' @ newline
     @ concat (map (\<lambda>t. ''  device: '' @ dec (tl_device t) @ '' points='' @ dec_nat (length (tl_points t))
         @ '' first_time_ns='' @ dec (tl_first_time_ns t) @ '' last_time_ns='' @ dec (tl_last_time_ns t)
         @ '' payload_bytes='' @ dec (tl_total_payload_bytes t) @ newline
         @ concat (map (\<lambda>p. ''    point: time='' @ dec (tp_capture_time_ns p) @ '' sequence='' @ dec (tp_sequence p)
             @ '' payload_size='' @ dec (tp_payload_size p) @ '' archive='' @ tp_archive_path p @ newline)
             (tl_points t))) timelines)"

definition render_archive_gaps :: "archive_gap list \<Rightarrow> string" where
  "render_archive_gaps gaps =
     ''archive_gaps'' @ newline
     @ concat (map (\<lambda>g. ''  gap: device='' @ dec (ag_device g) @ '' previous='' @ dec (ag_previous_time_ns g)
         @ '' next='' @ dec (ag_next_time_ns g) @ '' gap_ns='' @ dec (ag_gap_ns g)
         @ '' previous_archive='' @ ag_previous_archive g @ '' next_archive='' @ ag_next_archive g @ newline) gaps)"

definition render_archive_overlaps :: "archive_overlap list \<Rightarrow> string" where
  "render_archive_overlaps overlaps =
     ''archive_overlaps'' @ newline
     @ concat (map (\<lambda>x. ''  overlap: left='' @ ao_left_archive x @ '' right='' @ ao_right_archive x
         @ '' start='' @ dec (ao_start_ns x) @ '' end='' @ dec (ao_end_ns x) @ '' span_ns='' @ dec (ao_span_ns x)
         @ '' left_records='' @ dec (ao_left_records x) @ '' right_records='' @ dec (ao_right_records x)
         @ newline) overlaps)"

definition render_sequence_anomalies :: "sequence_anomaly list \<Rightarrow> string" where
  "render_sequence_anomalies anomalies =
     ''sequence_anomalies'' @ newline
     @ concat (map (\<lambda>a. ''  anomaly: device='' @ dec (sq_device a)
         @ '' previous_sequence='' @ dec (sq_previous_sequence a)
         @ '' current_sequence='' @ dec (sq_current_sequence a)
         @ '' capture_time_ns='' @ dec (sq_capture_time_ns a) @ '' archive='' @ sq_archive_path a
         @ '' reason='' @ dquote @ sq_reason a @ dquote @ newline) anomalies)"

definition render_payload_percentiles :: "(nat \<Rightarrow> rat \<Rightarrow> string) \<Rightarrow> payload_percentiles \<Rightarrow> string" where
  "render_payload_percentiles show_double p =
     ''payload_percentiles'' @ newline @ ''  minimum: '' @ dec (pq_minimum p) @ newline
     @ ''  p50: '' @ dec (pq_p50 p) @ newline @ ''  p90: '' @ dec (pq_p90 p) @ newline
     @ ''  p99: '' @ dec (pq_p99 p) @ newline @ ''  maximum: '' @ dec (pq_maximum p) @ newline
     @ ''  average: '' @ show_double 2 (pq_average p) @ newline"

definition render_device_payload_ranking :: "(nat \<Rightarrow> rat \<Rightarrow> string) \<Rightarrow> payload_rank list \<Rightarrow> string" where
  "render_device_payload_ranking show_double ranking =
     ''device_payload_ranking'' @ newline
     @ concat (map (\<lambda>r. ''  device: '' @ dec (pr_device r) @ '' records='' @ dec (pr_record_count r)
         @ '' payload_bytes='' @ dec (pr_payload_bytes r) @ '' payload_share='' @ show_double 4 (pr_payload_share r)
         @ '' average_payload_size='' @ show_double 4 (pr_average_payload_size r) @ newline) ranking)"

definition render_archive_density :: "(nat \<Rightarrow> rat \<Rightarrow> string) \<Rightarrow> density_summary \<Rightarrow> string" where
  "render_archive_density show_double d =
     ''archive_density'' @ newline @ ''  archive_count: '' @ dec (dn_archive_count d) @ newline
     @ ''  record_count: '' @ dec (dn_record_count d) @ newline
     @ ''  payload_bytes: '' @ dec (dn_payload_bytes d) @ newline
     @ ''  records_per_archive: '' @ show_double 2 (dn_records_per_archive d) @ newline
     @ ''  payload_bytes_per_archive: '' @ show_double 2 (dn_payload_bytes_per_archive d) @ newline
     @ ''  payload_bytes_per_record: '' @ show_double 2 (dn_payload_bytes_per_record d) @ newline"

definition render_device_kind_matrix :: "matrix_cell list \<Rightarrow> string" where
  "render_device_kind_matrix matrix =
     ''device_kind_matrix'' @ newline
     @ concat (map (\<lambda>c. ''  cell: device='' @ dec (mc_device c) @ '' kind='' @ packet_kind_name (mc_kind c)
         @ '' records='' @ dec (mc_record_count c) @ newline) matrix)"

definition render_archive_statistics_report :: "(nat \<Rightarrow> rat \<Rightarrow> string) \<Rightarrow> statistics_report \<Rightarrow> string" where
  "render_archive_statistics_report show_double r =
     ''archive_statistics'' @ newline
     @ ''  records: '' @ dec (as_record_count (st_summary r)) @ newline
     @ ''  first_time_ns: '' @ dec (as_first_time_ns (st_summary r)) @ newline
     @ ''  last_time_ns: '' @ dec (as_last_time_ns (st_summary r)) @ newline
     @ ''  time_buckets: '' @ dec_nat (length (st_time_buckets r)) @ newline
     @ ''  device_timelines: '' @ dec_nat (length (st_device_timelines r)) @ newline
     @ ''  gaps: '' @ dec_nat (length (st_gaps r)) @ newline
     @ ''  overlaps: '' @ dec_nat (length (st_overlaps r)) @ newline
     @ ''  sequence_anomalies: '' @ dec_nat (length (st_sequence_anomalies r)) @ newline
     @ ''  payload_ranking: '' @ dec_nat (length (st_payload_ranking r)) @ newline
     @ ''  matrix_cells: '' @ dec_nat (length (st_device_kind_matrix r)) @ newline
     @ ''  density_archives: '' @ dec (dn_archive_count (st_density r)) @ newline
     @ render_payload_percentiles show_double (st_payload_percentiles r)
     @ render_device_payload_ranking show_double (st_payload_ranking r)
     @ render_archive_density show_double (st_density r)"

section \<open>Time buckets are exact\<close>

definition bucket_of_refs :: "u64 \<Rightarrow> u64 \<Rightarrow> record_ref list \<Rightarrow> time_bucket" where
  "bucket_of_refs start width refs =
     \<lparr>tb_start_ns = start, tb_end_ns = start + width - 1, tb_record_count = of_nat (length refs),
      tb_payload_bytes = (\<Sum>r\<leftarrow>refs. cr_payload_size r), tb_archive_count = 0\<rparr>"

lemma of_nat_u64_nonzero: "0 < n \<Longrightarrow> n < 18446744073709551616 \<Longrightarrow> (of_nat n :: u64) \<noteq> 0"
  using of_nat_u64_zero [of n] by simp

lemma bucket_of_refs_snoc:
  "(of_nat (length refs) :: u64) \<noteq> 0 \<Longrightarrow>
     add_to_bucket width r (bucket_of_refs start width refs) = bucket_of_refs start width (refs @ [r])"
  by (simp add: add_to_bucket_def bucket_of_refs_def Let_def)

lemma fold_bucket:
  assumes "\<And>r. r \<in> set refs \<Longrightarrow> bucket_start (cr_capture_time_ns r) width = start"
    and "length refs < 18446744073709551616" and "refs \<noteq> []"
  shows "fold (add_to_bucket width) refs fresh_bucket = bucket_of_refs start width refs"
  using assms
proof (induction refs rule: rev_induct)
  case (snoc r refs)
  show ?case
  proof (cases refs)
    case Nil
    then show ?thesis
      using snoc.prems(1) [of r]
      by (simp add: add_to_bucket_def fresh_bucket_def bucket_of_refs_def Let_def)
  next
    case (Cons x xs)
    have "fold (add_to_bucket width) refs fresh_bucket = bucket_of_refs start width refs"
    proof (rule snoc.IH)
      show "bucket_start (cr_capture_time_ns x) width = start" if "x \<in> set refs" for x
        using snoc.prems(1) that by simp
      show "length refs < 18446744073709551616" "refs \<noteq> []"
        using snoc.prems(2) Cons by simp_all
    qed
    moreover have "(of_nat (length refs) :: u64) \<noteq> 0"
      using snoc.prems(2) Cons by (intro of_nat_u64_nonzero) simp_all
    ultimately show ?thesis
      by (simp add: bucket_of_refs_snoc)
  qed
qed simp

lemma unat_bucket_start: "unat (bucket_start t w) = (unat t div unat w) * unat w" if "w \<noteq> 0"
proof -
  have "(unat t div unat w) * unat w \<le> unat t"
    by simp
  then have "(unat t div unat w) * unat w < 2 ^ LENGTH(64)"
    using unat_below [of t] by (rule le_less_trans)
  then have "unat (t div w * w) = unat (t div w) * unat w"
    using unat_mult_lem [of "t div w" w] by (simp add: unat_div)
  then show ?thesis
    using that by (simp add: bucket_start_def unat_div)
qed

text \<open>Without wrap-around the interval of a bucket is what its start says.\<close>

lemma in_bucket:
  assumes "w \<noteq> 0" and "unat t0 + unat w < 18446744073709551616"
  shows "bucket_start t0 w \<le> t \<and> t \<le> bucket_start t0 w + w - 1 \<longleftrightarrow> bucket_start t w = bucket_start t0 w"
proof -
  let ?W = "unat w" and ?q = "unat t0 div unat w"
  have W: "0 < ?W"
    using assms(1) by (simp add: unat_gt_0)
  have s: "unat (bucket_start t0 w) = ?q * ?W"
    using assms(1) by (rule unat_bucket_start)
  have le: "?q * ?W \<le> unat t0"
    by simp
  have sum: "unat (bucket_start t0 w + w) = ?q * ?W + ?W"
  proof -
    have "?q * ?W + ?W < 18446744073709551616"
      using assms(2) le by linarith
    then show ?thesis
      using unat_add_lem [of "bucket_start t0 w" w] s by simp
  qed
  then have "bucket_start t0 w + w \<noteq> 0"
    using W by (metis add_gr_0 unat_0 not_gr_zero)
  then have fin: "unat (bucket_start t0 w + w - 1) = ?q * ?W + ?W - 1"
    using sum by (simp add: unat_minus_one)
  have "bucket_start t0 w \<le> t \<and> t \<le> bucket_start t0 w + w - 1 \<longleftrightarrow> ?q * ?W \<le> unat t \<and> unat t < ?q * ?W + ?W"
    using W by (auto simp: word_le_nat_alt s fin)
  also have "\<dots> \<longleftrightarrow> unat t div ?W = ?q"
  proof
    assume "?q * ?W \<le> unat t \<and> unat t < ?q * ?W + ?W"
    then show "unat t div ?W = ?q"
      by (intro div_nat_eqI) (simp_all add: mult.commute add.commute)
  next
    assume "unat t div ?W = ?q"
    then show "?q * ?W \<le> unat t \<and> unat t < ?q * ?W + ?W"
      using W by (metis div_times_less_eq_dividend dividend_less_div_times add.commute)
  qed
  also have "\<dots> \<longleftrightarrow> bucket_start t w = bucket_start t0 w"
    using W unat_bucket_start [OF assms(1), of t] s by (auto simp: word_unat_eq_iff)
  finally show ?thesis .
qed

lemma set_of_length: "length (set_of ks) = card (set ks)"
  using distinct_card [OF set_of_distinct [of ks]] by simp

definition time_bucket_at :: "u64 \<Rightarrow> record_ref list \<Rightarrow> u64 \<Rightarrow> time_bucket" where
  "time_bucket_at width refs start =
     (let ms = members (\<lambda>r. bucket_start (cr_capture_time_ns r) width) refs start
      in \<lparr>tb_start_ns = start, tb_end_ns = start + width - 1, tb_record_count = of_nat (length ms),
          tb_payload_bytes = (\<Sum>r\<leftarrow>ms. cr_payload_size r),
          tb_archive_count = of_nat (card (cr_archive_ordinal ` set ms))\<rparr>)"

lemma time_buckets_exact:
  assumes "width \<noteq> 0" and "length (cx_records c) < 18446744073709551616"
    and "\<And>r. r \<in> set (cx_records c) \<Longrightarrow> unat (cr_capture_time_ns r) + unat width < 18446744073709551616"
  shows "build_archive_time_buckets c width
     = map (time_bucket_at width (cx_records c))
         (group_keys (\<lambda>r. bucket_start (cr_capture_time_ns r) width) (cx_records c))"
proof -
  let ?rs = "cx_records c"
  let ?key = "\<lambda>r. bucket_start (cr_capture_time_ns r) width"
  have one: "count_archives ?rs (fold (add_to_bucket width) (members ?key ?rs k) fresh_bucket) = time_bucket_at width ?rs k"
    if k: "k \<in> ?key ` set ?rs" for k
  proof -
    obtain r0 where r0: "r0 \<in> set ?rs" "?key r0 = k"
      using k by blast
    have fold: "fold (add_to_bucket width) (members ?key ?rs k) fresh_bucket = bucket_of_refs k width (members ?key ?rs k)"
    proof (rule fold_bucket)
      show "length (members ?key ?rs k) < 18446744073709551616"
        using assms(2) length_filter_le [of "\<lambda>r. ?key r = k" ?rs] by linarith
      show "members ?key ?rs k \<noteq> []"
        using r0 by (auto simp: filter_empty_conv)
    qed simp
    have "filter (\<lambda>r. cr_capture_time_ns r \<ge> k \<and> cr_capture_time_ns r \<le> k + width - 1) ?rs = members ?key ?rs k"
      using in_bucket [OF assms(1) assms(3) [OF r0(1)]] r0(2) by simp
    then show ?thesis
      by (simp add: fold count_archives_def bucket_of_refs_def time_bucket_at_def Let_def set_of_length)
  qed
  then show ?thesis
    using assms(1) by (simp add: build_archive_time_buckets_def group_values)
qed

text \<open>Near the end of the clock the end of a bucket wraps, and the bucket counts no archive at all.\<close>

lemma last_bucket_loses_archives:
  assumes "cx_records c = [r]" and "cr_capture_time_ns r = - 1"
  shows "map tb_archive_count (build_archive_time_buckets c 10) = [0]"
proof -
  have "bucket_start (- 1) 10 = 18446744073709551610"
    by (simp add: bucket_start_def word_unat_eq_iff unat_word_ariths unat_div)
  then show ?thesis
    by (simp add: assms build_archive_time_buckets_def group_values group_keys_def add_to_bucket_def
        fresh_bucket_def count_archives_def set_of_length Let_def word_le_nat_alt)
qed

section \<open>Gaps are exact\<close>

lemma successive_simps [simp]:
  "successive [] = []" "successive [x] = []" "successive (x # y # xs) = (x, y) # successive (y # xs)"
  by (simp_all add: successive_def)

lemma successive_sorted:
  assumes "sorted (map f xs)" and "a < (b :: 'a::linorder)"
  shows "(\<exists>(p, q) \<in> set (successive xs). f p = a \<and> f q = b) \<longleftrightarrow>
     a \<in> f ` set xs \<and> b \<in> f ` set xs \<and> (\<forall>x \<in> set xs. \<not> (a < f x \<and> f x < b))"
  using assms(1)
proof (induction xs rule: induct_list012)
  case (2 x)
  then show ?case
    using assms(2) by auto
next
  case (3 x y xs)
  have le: "f x \<le> f z" "f y \<le> f z" if "z \<in> set (y # xs)" for z
    using 3(3) that by auto
  show ?case
  proof (cases "f x = a \<and> f y \<noteq> a")
    case True
    then have above: "a < f z" if "z \<in> set (y # xs)" for z
      using le(2) [OF that] le(1) [of y] by auto
    have "(\<exists>(p, q) \<in> set (successive (y # xs)). f p = a \<and> f q = b) \<longleftrightarrow> False"
      using 3(2) 3(3) True above by (auto dest: set_zip_leftD simp: successive_def)
    then show ?thesis
      using True assms(2) le(2) above [of y] by (auto simp: not_less intro: antisym)
  next
    case False
    then have "(\<exists>(p, q) \<in> set (successive (x # y # xs)). f p = a \<and> f q = b)
        \<longleftrightarrow> (\<exists>(p, q) \<in> set (successive (y # xs)). f p = a \<and> f q = b)"
      using assms(2) by auto
    also have "\<dots> \<longleftrightarrow> a \<in> f ` set (y # xs) \<and> b \<in> f ` set (y # xs) \<and> (\<forall>z \<in> set (y # xs). \<not> (a < f z \<and> f z < b))"
      using 3(2) 3(3) by simp
    also have "\<dots> \<longleftrightarrow> a \<in> f ` set (x # y # xs) \<and> b \<in> f ` set (x # y # xs)
        \<and> (\<forall>z \<in> set (x # y # xs). \<not> (a < f z \<and> f z < b))"
    proof
      assume *: "a \<in> f ` set (y # xs) \<and> b \<in> f ` set (y # xs) \<and> (\<forall>z \<in> set (y # xs). \<not> (a < f z \<and> f z < b))"
      then have "f x \<le> a"
        using le(1) by auto
      then show "a \<in> f ` set (x # y # xs) \<and> b \<in> f ` set (x # y # xs)
          \<and> (\<forall>z \<in> set (x # y # xs). \<not> (a < f z \<and> f z < b))"
        using * by (auto simp: not_less)
    next
      assume *: "a \<in> f ` set (x # y # xs) \<and> b \<in> f ` set (x # y # xs)
          \<and> (\<forall>z \<in> set (x # y # xs). \<not> (a < f z \<and> f z < b))"
      then have "a \<in> f ` set (y # xs)"
        using False by auto
      moreover from this have "f x \<le> a"
        using le(1) by auto
      moreover from this have "f x \<noteq> b"
        using assms(2) by auto
      ultimately show "a \<in> f ` set (y # xs) \<and> b \<in> f ` set (y # xs)
          \<and> (\<forall>z \<in> set (y # xs). \<not> (a < f z \<and> f z < b))"
        using * by auto
    qed
    finally show ?thesis .
  qed
qed simp

lemma timeline_fold:
  "tl_points (fold add_to_timeline refs t) = tl_points t @ map make_timeline_point refs"
  by (induction refs arbitrary: t) (simp_all add: add_to_timeline_def update_timeline_def Let_def)

lemma timeline_fold_device:
  "refs \<noteq> [] \<Longrightarrow> (\<And>r. r \<in> set refs \<Longrightarrow> cr_device r = d) \<Longrightarrow> tl_device (fold add_to_timeline refs t) = d"
  by (induction refs rule: rev_induct) (simp_all add: add_to_timeline_def update_timeline_def Let_def)

definition device_points :: "archive_collection \<Rightarrow> device_id \<Rightarrow> timeline_point list" where
  "device_points c d = sort_key point_order (map make_timeline_point (members cr_device (cx_records c) d))"

lemma timelines_set:
  "(\<exists>t \<in> set (build_device_timelines c). P (tl_device t) (tl_points t))
     \<longleftrightarrow> (\<exists>d \<in> cr_device ` set (cx_records c). P d (device_points c d))"
proof -
  have device: "tl_device (fold add_to_timeline (members cr_device (cx_records c) d) fresh_timeline) = d"
    if "d \<in> cr_device ` set (cx_records c)" for d
    using that by (intro timeline_fold_device) (auto simp: filter_empty_conv)
  have "set (build_device_timelines c) = (\<lambda>d.
      (fold add_to_timeline (members cr_device (cx_records c) d) fresh_timeline)\<lparr>tl_points := device_points c d\<rparr>)
      ` (cr_device ` set (cx_records c))"
    by (simp add: build_device_timelines_def timeline_values_def group_values timeline_fold
        device_points_def fresh_timeline_def image_image)
  then show ?thesis
    using device by auto
qed

lemma device_points_sorted: "sorted (map tp_capture_time_ns (device_points c d))"
proof -
  have "sorted (map point_order (device_points c d))"
    by (simp add: device_points_def)
  then show ?thesis
    by (simp add: sorted_iff_nth_mono_less point_order_def) (meson less_imp_le)
qed

definition device_times :: "archive_collection \<Rightarrow> device_id \<Rightarrow> u64 set" where
  "device_times c d = cr_capture_time_ns ` {r \<in> set (cx_records c). cr_device r = d}"

lemma device_points_times: "tp_capture_time_ns ` set (device_points c d) = device_times c d"
  by (auto simp: device_points_def device_times_def make_timeline_point_def image_image)

lemma gap_between_has:
  "(\<exists>g \<in> set (gap_between threshold t pair).
      ag_device g = d \<and> ag_previous_time_ns g = a \<and> ag_next_time_ns g = b \<and> ag_gap_ns g = b - a)
   \<longleftrightarrow> tl_device t = d \<and> tp_capture_time_ns (fst pair) = a \<and> tp_capture_time_ns (snd pair) = b
     \<and> a \<le> b \<and> threshold < b - a"
  by (auto simp: gap_between_def Let_def not_less not_le)

lemma gaps_set:
  "set (detect_archive_gaps c threshold)
     = (\<Union>t \<in> set (build_device_timelines c). \<Union>pair \<in> set (successive (tl_points t)). set (gap_between threshold t pair))"
  by (simp add: detect_archive_gaps_def)

text \<open>
  C33. The gaps that are reported for a device are exactly the spans longer than the threshold between
  two of its records without a record of the device in between.
\<close>

theorem gaps_exact:
  "(\<exists>g \<in> set (detect_archive_gaps c threshold).
      ag_device g = d \<and> ag_previous_time_ns g = a \<and> ag_next_time_ns g = b \<and> ag_gap_ns g = b - a)
   \<longleftrightarrow> a \<in> device_times c d \<and> b \<in> device_times c d \<and> a < b \<and> threshold < b - a
     \<and> (\<forall>t \<in> device_times c d. \<not> (a < t \<and> t < b))"
proof -
  have one: "(\<exists>e \<in> S. e = d \<and> Q e) \<longleftrightarrow> d \<in> S \<and> Q d" for S Q
    by blast
  let ?gap = "\<lambda>p q. tp_capture_time_ns p = a \<and> tp_capture_time_ns q = b \<and> a \<le> b \<and> threshold < b - a"
  have "(\<exists>g \<in> set (detect_archive_gaps c threshold).
      ag_device g = d \<and> ag_previous_time_ns g = a \<and> ag_next_time_ns g = b \<and> ag_gap_ns g = b - a)
    \<longleftrightarrow> (\<exists>t \<in> set (build_device_timelines c). tl_device t = d \<and> (\<exists>(p, q) \<in> set (successive (tl_points t)). ?gap p q))"
    unfolding gaps_set bex_UN gap_between_has case_prod_beta by blast
  also have "\<dots> \<longleftrightarrow> d \<in> cr_device ` set (cx_records c) \<and> (\<exists>(p, q) \<in> set (successive (device_points c d)). ?gap p q)"
    unfolding timelines_set [of c "\<lambda>e ps. e = d \<and> (\<exists>(p, q) \<in> set (successive ps). ?gap p q)"] one ..
  also have "\<dots> \<longleftrightarrow> a < b \<and> threshold < b - a \<and> d \<in> cr_device ` set (cx_records c)
      \<and> (\<exists>(p, q) \<in> set (successive (device_points c d)). tp_capture_time_ns p = a \<and> tp_capture_time_ns q = b)"
    by (cases "a = b") auto
  also have "\<dots> \<longleftrightarrow> a < b \<and> threshold < b - a \<and> a \<in> device_times c d \<and> b \<in> device_times c d
      \<and> (\<forall>t \<in> device_times c d. \<not> (a < t \<and> t < b))"
  proof (cases "a < b")
    case True
    have "a \<in> device_times c d \<Longrightarrow> d \<in> cr_device ` set (cx_records c)"
      by (auto simp: device_times_def)
    then show ?thesis
      using successive_sorted [OF device_points_sorted [of c d] True] by (auto simp flip: device_points_times)
  qed simp
  finally show ?thesis
    by blast
qed

definition record_at :: "u64 \<Rightarrow> record_ref" where
  "record_at time =
     \<lparr>cr_path = [], cr_archive_ordinal = 0, cr_offset = 0, cr_capture_time_ns = time, cr_payload_size = 0,
      cr_device = 1, cr_sequence = 0\<rparr>"

definition collection_at :: "u64 list \<Rightarrow> archive_collection" where
  "collection_at ts =
     \<lparr>cx_archives = [], cx_records = map record_at ts, cx_records_by_device = om_empty,
      cx_summary = \<lparr>as_format_version = 0, as_record_count = 0, as_first_time_ns = 0, as_last_time_ns = 0\<rparr>\<rparr>"

lemma times_of_collection_at: "device_times (collection_at ts) 1 = set ts"
proof -
  have "{r \<in> record_at ` set ts. cr_device r = 1} = record_at ` set ts"
    by (auto simp: record_at_def)
  then show ?thesis
    by (simp add: device_times_def collection_at_def image_image) (simp add: record_at_def)
qed

lemma gaps_exact_witness:
  "\<exists>g \<in> set (detect_archive_gaps (collection_at [3, 9]) 5).
      ag_device g = 1 \<and> ag_previous_time_ns g = 3 \<and> ag_next_time_ns g = 9 \<and> ag_gap_ns g = 9 - 3"
  unfolding gaps_exact times_of_collection_at by (simp add: word_less_nat_alt)

end
