(* ===== verification/Repair_Plan.thy ===== *)
theory Repair_Plan
  imports Archive_Audit Recovery
begin

text \<open>
  Repair plans (\<open>src/storage/archive_repair_plan.cpp\<close>): what the audit and the salvage scan of an
  archive say about repairing it, and the execution of such a plan on a map from paths to bytes.
  Renaming a file that does not exist throws an exception of the standard library, which is a
  failure of its own here.
\<close>

section \<open>Data\<close>

datatype repair_action_kind =
    RK_no_op | RK_rewrite_from_readable_records | RK_rebuild_from_salvage | RK_quarantine_file | RK_verify_after_write

record planner_options =
  po_allow_salvage_scan :: bool
  po_quarantine_unreadable :: bool
  po_rewrite_when_header_mismatch :: bool
  po_rewrite_when_unordered :: bool
  po_output_directory :: string
  po_repaired_suffix :: string
  po_quarantine_suffix :: string

definition planner_options_default :: planner_options where
  "planner_options_default =
     \<lparr>po_allow_salvage_scan = True, po_quarantine_unreadable = True, po_rewrite_when_header_mismatch = True,
      po_rewrite_when_unordered = False, po_output_directory = [], po_repaired_suffix = ''.repaired.ath'',
      po_quarantine_suffix = ''.quarantine''\<rparr>"

record repair_action =
  ra_kind :: repair_action_kind
  ra_source_path :: string
  ra_output_path :: string
  ra_reason :: string
  ra_expected_records :: u64

record repair_plan =
  pl_source_path :: string
  pl_audit :: audit_report
  pl_salvage :: repair_report
  pl_actions :: "repair_action list"
  pl_readable_records :: u64
  pl_salvaged_records :: u64
  pl_uses_salvage :: bool

record repair_execution =
  re_plan :: repair_plan
  re_outputs :: "string list"
  re_warnings :: "string list"
  re_actions_executed :: u64
  re_records_written :: u64

datatype repair_failure = RF_error error | RF_filesystem

section \<open>Paths\<close>

text \<open>\<open>filename\<close> and \<open>parent_path\<close> of a path.\<close>

definition file_name :: "string \<Rightarrow> string" where
  "file_name path = rev (takeWhile (\<lambda>c. c \<noteq> CHR ''/'') (rev path))"

definition parent_path :: "string \<Rightarrow> string" where
  "parent_path path =
     (let slashed = dropWhile (\<lambda>c. c \<noteq> CHR ''/'') (rev path); stem = rev (dropWhile (\<lambda>c. c = CHR ''/'') slashed)
      in if stem = [] \<and> slashed \<noteq> [] then ''/'' else stem)"

definition output_for :: "string \<Rightarrow> planner_options \<Rightarrow> string \<Rightarrow> string" where
  "output_for source options ending =
     (let directory = (if po_output_directory options = [] then parent_path source else po_output_directory options)
      in path_join directory (file_name source @ ending))"

section \<open>Planning\<close>

definition has_check :: "audit_report \<Rightarrow> audit_check \<Rightarrow> bool" where
  "has_check audit check \<longleftrightarrow> list_ex (\<lambda>finding. fi_check finding = check) (ad_findings audit)"

definition has_error :: "audit_report \<Rightarrow> bool" where
  "has_error audit \<longleftrightarrow> list_ex (\<lambda>finding. fi_severity finding = AS_error) (ad_findings audit)"

definition make_action :: "repair_action_kind \<Rightarrow> string \<Rightarrow> string \<Rightarrow> string \<Rightarrow> u64 \<Rightarrow> repair_action" where
  "make_action kind source output reason expected =
     \<lparr>ra_kind = kind, ra_source_path = source, ra_output_path = output, ra_reason = reason,
      ra_expected_records = expected\<rparr>"

text \<open>\<open>scan_file\<close> of the repair scanner.\<close>

definition scan_file :: "archive_files \<Rightarrow> string \<Rightarrow> error + repair_report" where
  "scan_file files path =
     (case files path of
        None \<Rightarrow> Inl (Error EC_archive_corrupt ''failed to open file for repair scan'')
      | Some contents \<Rightarrow> Inr (scan_bytes decode_options_default contents))"

definition no_salvage :: repair_report where
  "no_salvage = \<lparr>rp_bytes_scanned = 0, rp_candidate_frames = 0, rp_rejected_frames = 0, rp_packets = []\<rparr>"

text \<open>The actions, once audit and salvage are known.\<close>

definition rewrite_reason :: "planner_options \<Rightarrow> audit_report \<Rightarrow> string option" where
  "rewrite_reason options audit =
     (if po_rewrite_when_unordered options \<and> has_check audit AC_ordered_timestamps
      then Some ''rewrite archive after timestamp ordering finding''
      else if po_rewrite_when_header_mismatch options \<and> has_check audit AC_header_matches_records
      then Some ''rewrite archive to refresh inconsistent header''
      else None)"

definition choose_actions :: "string \<Rightarrow> planner_options \<Rightarrow> repair_plan \<Rightarrow> repair_plan" where
  "choose_actions path options plan =
     (let repaired_output = output_for path options (po_repaired_suffix options)
      in if audit_report_ok (pl_audit plan)
         then plan\<lparr>pl_actions := [make_action RK_no_op path [] ''archive passed integrity audit''
                (pl_readable_records plan)]\<rparr>
         else if pl_salvaged_records plan > pl_readable_records plan
         then plan\<lparr>pl_uses_salvage := True, pl_actions :=
           [make_action RK_rebuild_from_salvage path repaired_output
              ''salvage scan found more packets than readable archive scan'' (pl_salvaged_records plan),
            make_action RK_verify_after_write repaired_output repaired_output ''verify rebuilt archive''
              (pl_salvaged_records plan)]\<rparr>
         else case (rewrite_reason options (pl_audit plan), ad_readable (pl_audit plan)) of
           (Some reason, True) \<Rightarrow> plan\<lparr>pl_actions :=
             [make_action RK_rewrite_from_readable_records path repaired_output reason (pl_readable_records plan),
              make_action RK_verify_after_write repaired_output repaired_output ''verify rewritten archive''
                (pl_readable_records plan)]\<rparr>
         | _ \<Rightarrow>
           if po_quarantine_unreadable options
           then plan\<lparr>pl_actions := [make_action RK_quarantine_file path
                  (output_for path options (po_quarantine_suffix options)) ''archive could not be safely repaired'' 0]\<rparr>
           else plan\<lparr>pl_actions := [make_action RK_no_op path [] ''repair planner found no enabled remediation''
                  (pl_readable_records plan)]\<rparr>)"

definition plan_archive_repair :: "archive_files \<Rightarrow> string \<Rightarrow> planner_options \<Rightarrow> error + repair_plan" where
  "plan_archive_repair files path options =
     (let audit = audit_archive_integrity files path audit_options_default;
          plan = \<lparr>pl_source_path = path, pl_audit = audit, pl_salvage = no_salvage, pl_actions = [],
                  pl_readable_records = ad_records_scanned audit, pl_salvaged_records = 0, pl_uses_salvage = False\<rparr>
      in if po_allow_salvage_scan options \<and> (\<not> ad_readable audit \<or> has_error audit)
         then err_bind (scan_file files path) (\<lambda>salvage.
           Inr (choose_actions path options
             (plan\<lparr>pl_salvage := salvage, pl_salvaged_records := of_nat (length (rp_packets salvage))\<rparr>)))
         else Inr (choose_actions path options plan))"

fun plan_archive_repairs :: "archive_files \<Rightarrow> string list \<Rightarrow> planner_options \<Rightarrow> error + repair_plan list" where
  "plan_archive_repairs files [] options = Inr []"
| "plan_archive_repairs files (path # paths) options =
     err_bind (plan_archive_repair files path options) (\<lambda>plan.
     err_bind (plan_archive_repairs files paths options) (\<lambda>plans. Inr (plan # plans)))"

section \<open>Executing a plan\<close>

definition validate_action :: "repair_plan \<Rightarrow> repair_action \<Rightarrow> string list" where
  "validate_action plan action =
     (if ra_kind action \<noteq> RK_no_op \<and> ra_output_path action = []
      then [''repair action requires an output path''] else []) @
     (if ra_kind action = RK_rebuild_from_salvage \<and> rp_packets (pl_salvage plan) = []
      then [''salvage rebuild action has no salvaged packets''] else []) @
     (if ra_kind action = RK_rewrite_from_readable_records \<and> \<not> ad_readable (pl_audit plan)
      then [''readable rewrite action cannot run on unreadable archive''] else [])"

definition validate_archive_repair_plan :: "repair_plan \<Rightarrow> string list" where
  "validate_archive_repair_plan plan =
     (if pl_source_path plan = [] then [''repair plan has empty source path''] else []) @
     (if pl_actions plan = [] then [''repair plan has no actions''] else []) @
     concat (map (validate_action plan) (pl_actions plan))"

definition ensure_can_write :: "archive_files \<Rightarrow> string \<Rightarrow> bool \<Rightarrow> error + archive_files" where
  "ensure_can_write files path can_overwrite =
     (if files path = None then Inr files
      else if \<not> can_overwrite then Inl (Error EC_invalid_argument ''repair output already exists'')
      else Inr (files(path := None)))"

text \<open>The loop that copies what the reader still finds, and the salvaged packets; both leave the writer.\<close>

function copy_loop :: "u64 \<Rightarrow> archive_writer \<Rightarrow> archive_reader \<Rightarrow> (error + u64) \<times> archive_writer" where
  "copy_loop written writer reader =
     (case ar_next reader of
        (Inl e, _) \<Rightarrow> (Inl e, writer)
      | (Inr None, _) \<Rightarrow> (Inr written, writer)
      | (Inr (Some r), reader') \<Rightarrow>
          (case aw_append (rec_capture_time_ns r) (rec_packet r) writer of
             (Inl e, writer) \<Rightarrow> (Inl e, writer)
           | (Inr _, writer) \<Rightarrow> copy_loop (written + 1) writer reader'))"
  by pat_completeness auto
termination
  by (relation "measure (\<lambda>(_, _, r). length (ar_file r) - ar_pos r)") (auto dest!: ar_next_progress [OF sym])

declare copy_loop.simps [simp del]

fun salvage_loop :: "salvaged_packet list \<Rightarrow> archive_writer \<Rightarrow> (error + unit) \<times> archive_writer" where
  "salvage_loop [] w = (Inr (), w)"
| "salvage_loop (item # items) w =
     (case aw_append (salvage_time item) (sv_packet item) w of
        (Inl e, w) \<Rightarrow> (Inl e, w) | (Inr _, w) \<Rightarrow> salvage_loop items w)"

text \<open>Closing the writer, or destroying it when the loop has thrown, leaves the file.\<close>

definition finish_file ::
  "archive_files \<Rightarrow> string \<Rightarrow> (error + 'a) \<times> archive_writer \<Rightarrow> (error + 'a) \<times> archive_files" where
  "finish_file files path run =
     (case run of
        (Inl e, writer) \<Rightarrow> (Inl e, files(path := Some (aw_file (aw_destroy writer))))
      | (Inr x, writer) \<Rightarrow>
          (case aw_close writer of
             (Inl e, writer) \<Rightarrow> (Inl e, files(path := Some (aw_file (aw_destroy writer))))
           | (Inr _, writer) \<Rightarrow> (Inr x, files(path := Some (aw_file writer)))))"

definition copy_readable_records :: "archive_files \<Rightarrow> string \<Rightarrow> string \<Rightarrow> (error + u64) \<times> archive_files" where
  "copy_readable_records files source output =
     (case open_archive files source of
        Inl e \<Rightarrow> (Inl e, files)
      | Inr reader \<Rightarrow> finish_file files output (copy_loop 0 aw_open reader))"

definition rebuild_archive :: "archive_files \<Rightarrow> string \<Rightarrow> repair_report \<Rightarrow> (error + unit) \<times> archive_files" where
  "rebuild_archive files output report = finish_file files output (salvage_loop (rp_packets report) aw_open)"

definition execute_action ::
  "repair_plan \<Rightarrow> bool \<Rightarrow> repair_action \<Rightarrow> repair_execution \<Rightarrow> archive_files \<Rightarrow>
   (repair_failure + repair_execution) \<times> archive_files" where
  "execute_action plan can_overwrite action report files =
     (let output = ra_output_path action;
          available = ensure_can_write files output can_overwrite;
          wrote = (\<lambda>n. report\<lparr>re_records_written := re_records_written report + n,
            re_outputs := re_outputs report @ [output]\<rparr>)
      in case ra_kind action of
           RK_no_op \<Rightarrow> (Inr report, files)
         | RK_rewrite_from_readable_records \<Rightarrow>
             (case available of
                Inl e \<Rightarrow> (Inl (RF_error e), files)
              | Inr files \<Rightarrow>
                  (case copy_readable_records files (ra_source_path action) output of
                     (Inl e, files) \<Rightarrow> (Inl (RF_error e), files)
                   | (Inr n, files) \<Rightarrow> (Inr (wrote n), files)))
         | RK_rebuild_from_salvage \<Rightarrow>
             (case available of
                Inl e \<Rightarrow> (Inl (RF_error e), files)
              | Inr files \<Rightarrow>
                  (case rebuild_archive files output (pl_salvage plan) of
                     (Inl e, files) \<Rightarrow> (Inl (RF_error e), files)
                   | (Inr _, files) \<Rightarrow> (Inr (wrote (of_nat (length (rp_packets (pl_salvage plan))))), files)))
         | RK_quarantine_file \<Rightarrow>
             (case available of
                Inl e \<Rightarrow> (Inl (RF_error e), files)
              | Inr files \<Rightarrow>
                  (case files (ra_source_path action) of
                     None \<Rightarrow> (Inl RF_filesystem, files)
                   | Some contents \<Rightarrow>
                       (Inr (report\<lparr>re_outputs := re_outputs report @ [output]\<rparr>),
                        (files(ra_source_path action := None))(output := Some contents))))
         | RK_verify_after_write \<Rightarrow>
             (Inr (if audit_report_ok (audit_archive_integrity files output audit_options_default) then report
                   else report\<lparr>re_warnings := re_warnings report @
                     [''verification audit reported findings for '' @ output]\<rparr>), files))"

fun execute_actions ::
  "repair_plan \<Rightarrow> bool \<Rightarrow> repair_action list \<Rightarrow> repair_execution \<Rightarrow> archive_files \<Rightarrow>
   (repair_failure + repair_execution) \<times> archive_files" where
  "execute_actions plan can_overwrite [] report files = (Inr report, files)"
| "execute_actions plan can_overwrite (action # actions) report files =
     (case execute_action plan can_overwrite action report files of
        (Inl e, files) \<Rightarrow> (Inl e, files)
      | (Inr report, files) \<Rightarrow>
          execute_actions plan can_overwrite actions
            (report\<lparr>re_actions_executed := re_actions_executed report + 1\<rparr>) files)"

definition execute_archive_repair_plan ::
  "repair_plan \<Rightarrow> bool \<Rightarrow> archive_files \<Rightarrow> (repair_failure + repair_execution) \<times> archive_files" where
  "execute_archive_repair_plan plan can_overwrite files =
     (if validate_archive_repair_plan plan \<noteq> []
      then (Inl (RF_error (Error EC_invalid_argument ''archive repair plan failed validation'')), files)
      else execute_actions plan can_overwrite (pl_actions plan)
        \<lparr>re_plan = plan, re_outputs = [], re_warnings = [], re_actions_executed = 0, re_records_written = 0\<rparr> files)"

section \<open>Text output\<close>

definition repair_action_name :: "repair_action_kind \<Rightarrow> string" where
  "repair_action_name kind =
     (case kind of
        RK_no_op \<Rightarrow> ''no_op''
      | RK_rewrite_from_readable_records \<Rightarrow> ''rewrite_from_readable_records''
      | RK_rebuild_from_salvage \<Rightarrow> ''rebuild_from_salvage''
      | RK_quarantine_file \<Rightarrow> ''quarantine_file''
      | RK_verify_after_write \<Rightarrow> ''verify_after_write'')"

definition render_archive_repair_plan :: "repair_plan \<Rightarrow> string" where
  "render_archive_repair_plan plan =
     ''archive_repair_plan'' @ newline @
     ''  source: '' @ pl_source_path plan @ newline @
     ''  readable_records: '' @ dec (pl_readable_records plan) @ newline @
     ''  salvaged_records: '' @ dec (pl_salvaged_records plan) @ newline @
     ''  uses_salvage: '' @ (if pl_uses_salvage plan then ''true'' else ''false'') @ newline @
     concat (map (\<lambda>action. ''  action: '' @ repair_action_name (ra_kind action) @
       '' source='' @ ra_source_path action @
       '' output='' @ ra_output_path action @
       '' expected_records='' @ dec (ra_expected_records action) @
       '' reason='' @ dquote @ ra_reason action @ dquote @ newline) (pl_actions plan))"

definition render_repair_execution_report :: "repair_execution \<Rightarrow> string" where
  "render_repair_execution_report report =
     ''repair_execution'' @ newline @
     ''  actions_executed: '' @ dec (re_actions_executed report) @ newline @
     ''  records_written: '' @ dec (re_records_written report) @ newline @
     concat (map (\<lambda>output. ''  output: '' @ output @ newline) (re_outputs report)) @
     concat (map (\<lambda>warning. ''  warning: '' @ warning @ newline) (re_warnings report))"

section \<open>Nothing is lost without overwriting\<close>

lemma ran_moved: "files q = Some b \<Longrightarrow> x \<in> ran files \<Longrightarrow> x \<notin> ran (files(q := None)) \<Longrightarrow> x = b"
  by (auto simp: ran_def split: if_splits) (metis option.inject)

lemma ensure_free: "ensure_can_write files p False = Inr files' \<longleftrightarrow> files' = files \<and> files p = None"
  by (auto simp: ensure_can_write_def)

lemma finish_file_keeps: "files p = None \<Longrightarrow> finish_file files p run = (res, files') \<Longrightarrow> ran files \<subseteq> ran files'"
  by (auto simp: finish_file_def ran_map_upd split: prod.splits sum.splits)

lemma execute_action_keeps:
  assumes "execute_action plan False action report files = (res, files')"
  shows "ran files \<subseteq> ran files'"
proof (cases "ra_kind action")
  case RK_rewrite_from_readable_records
  with assms show ?thesis
    by (auto simp: execute_action_def Let_def ensure_free copy_readable_records_def
        dest: finish_file_keeps split: sum.splits prod.splits)
next
  case RK_rebuild_from_salvage
  with assms show ?thesis
    by (auto simp: execute_action_def Let_def ensure_free rebuild_archive_def
        dest: finish_file_keeps split: sum.splits prod.splits)
next
  case RK_quarantine_file
  with assms show ?thesis
    by (auto simp: execute_action_def Let_def ensure_free ran_map_upd split: sum.splits option.splits
        dest: ran_moved)
qed (use assms in \<open>auto simp: execute_action_def Let_def\<close>)

lemma execute_actions_keep:
  "execute_actions plan False actions report files = (res, files') \<Longrightarrow> ran files \<subseteq> ran files'"
proof (induction actions arbitrary: report files)
  case (Cons action actions)
  then show ?case
    by (auto split: prod.splits sum.splits dest!: execute_action_keeps)
qed simp

text \<open>
  A plan that is executed without overwriting, whatever its actions and however it ends, keeps the
  contents of every file, though a quarantined file has another name afterwards.
\<close>

theorem repair_keeps_contents:
  "ran files \<subseteq> ran (snd (execute_archive_repair_plan plan False files))"
proof (cases "validate_archive_repair_plan plan = []")
  case True
  then show ?thesis
    using execute_actions_keep [OF surjective_pairing] by (simp add: execute_archive_repair_plan_def)
qed (simp add: execute_archive_repair_plan_def)

text \<open>
  With overwriting, a rewrite whose output is its own source, which is what an empty suffix gives,
  removes the archive before it opens it.
\<close>

lemma overwriting_destroys_source:
  assumes "files path = Some contents"
    and "ra_kind action = RK_rewrite_from_readable_records" "ra_source_path action = path" "ra_output_path action = path"
  shows "execute_action plan True action report files =
    (Inl (RF_error (Error EC_archive_corrupt ''failed to open archive for reading'')), files(path := None))"
  using assms by (simp add: execute_action_def ensure_can_write_def copy_readable_records_def open_archive_def Let_def)

lemma empty_suffix_names_source: "output_for ''store/a.ath'' (planner_options_default\<lparr>po_repaired_suffix := []\<rparr>) [] = ''store/a.ath''"
  by code_simp

section \<open>Rewriting what can be read\<close>

lemma copy_loop_run:
  "ar_records reader = Inr rs \<Longrightarrow> \<forall>r \<in> set rs. packet_ok (rec_packet r) \<Longrightarrow> aw_good w \<Longrightarrow>
   copy_loop n w reader = (Inr (n + of_nat (length rs)), aw_append_all (map capture_of rs) w)"
proof (induction rs arbitrary: n w reader)
  case Nil
  then show ?case
    by (auto simp: copy_loop.simps [of n w reader] ar_records.simps [of reader] aw_append_all_def err_bind_Inr_iff
        split: prod.splits sum.splits option.splits)
next
  case (Cons r rs)
  then obtain reader' where "ar_next reader = (Inr (Some r), reader')" and "ar_records reader' = Inr rs"
    using ar_records_Cons by blast
  with Cons show ?case
    by (simp add: copy_loop.simps [of n w reader] append_good aw_append_all_def)
qed

lemma finish_run:
  assumes "\<forall>c \<in> set cs. packet_ok (snd c)"
  shows "finish_file files path (Inr x, aw_append_all cs aw_open) = (Inr x, files(path \<mapsto> archive_of cs))"
  using append_all_close [OF assms] by (auto simp: finish_file_def)

definition with_header :: "archive_summary \<Rightarrow> capture list \<Rightarrow> bytes" where
  "with_header s cs = archive_magic @ archive_header s @ concat (map capture_bytes cs)"

lemma with_header_reads:
  assumes "files path = Some (with_header s cs)" and "storable cs"
  obtains reader where "open_archive files path = Inr reader" and "ar_records reader = Inr (records_from 36 cs)"
    and "ar_summary reader = s" and "ar_file reader = with_header s cs"
proof -
  let ?r = "\<lparr>ar_file = with_header s cs, ar_pos = 36, ar_failed = False, ar_summary = s\<rparr>"
  have "ar_records ?r = Inr (records_from (length (archive_magic @ archive_header s)) cs)"
    by (rule read_records [OF assms(2)]) (simp_all add: with_header_def)
  then show thesis
    using that [of ?r] assms(1) by (simp add: open_archive_def open_header with_header_def)
qed

lemma archive_of_header: "storable cs \<Longrightarrow> archive_of cs = with_header (fold summary_add (map fst cs) archive_summary_default) cs"
  using append_all_good [OF _ storable_ok, of aw_open cs]
  by (simp add: archive_of_def with_header_def aw_close_def aw_write_all_def aw_open_def overwrite_def)

lemma length_with_header: "length (with_header s cs) = length (with_header s' cs)"
  by (simp add: with_header_def)

lemma descents_sorted: "descents ts = 0 \<longleftrightarrow> sorted ts"
  by (induction ts rule: descents.induct) (auto simp: not_less intro: order.trans)

lemma map_time_records: "map rec_capture_time_ns (records_from pos cs) = map fst cs"
  by (induction pos cs rule: records_from.induct) simp_all

lemma length_records: "length (records_from pos cs) = length cs"
  by (induction pos cs rule: records_from.induct) simp_all

lemma nothing_oversized: "filter (oversized audit_options_default) rs = []"
  by (simp add: oversized_def audit_options_default_def)

lemma audit_with_header:
  assumes fit: "files_fit files" and contents: "files path = Some (with_header s cs)" and cs: "storable cs"
  defines "audit \<equiv> audit_archive_integrity files path audit_options_default"
  shows "length cs < 18446744073709551616" and "ad_readable audit" and "ad_records_scanned audit = of_nat (length cs)"
    and "audit_report_ok audit \<longleftrightarrow> sorted (map fst cs) \<and> as_record_count s = of_nat (length cs)"
    and "as_record_count s \<noteq> of_nat (length cs) \<Longrightarrow> has_check audit AC_header_matches_records"
proof -
  obtain reader where opened: "open_archive files path = Inr reader" and records: "ar_records reader = Inr (records_from 36 cs)"
    and header: "ar_summary reader = s"
    using contents cs by (rule with_header_reads)
  note audited = audit_of_records(2-5) [OF fit opened records, of audit_options_default, folded audit_def]
  have times: "map rec_capture_time_ns (records_from 36 cs) = map fst cs"
    by (rule map_time_records)
  have len: "length (records_from 36 cs) = length cs"
    by (rule length_records)
  have order: "ao_require_time_order audit_options_default"
    by (simp add: audit_options_default_def)
  show "length cs < 18446744073709551616" "ad_readable audit" "ad_records_scanned audit = of_nat (length cs)"
    using audited(1,2) audit_of_records(1) [OF fit opened records] by (simp_all add: len)
  show "audit_report_ok audit \<longleftrightarrow> sorted (map fst cs) \<and> as_record_count s = of_nat (length cs)"
    using audited(1,3)
    by (auto simp: audit_ok_iff times len order header nothing_oversized descents_sorted simp flip: length_0_conv)
  show "as_record_count s \<noteq> of_nat (length cs) \<Longrightarrow> has_check audit AC_header_matches_records"
    using audited(4) by (auto simp: has_check_def header len error_findings_def findings_by_severity_def list_ex_iff)
qed

lemma copy_run:
  assumes contents: "files path = Some (with_header s cs)" and cs: "storable cs"
  shows "copy_readable_records files path output = (Inr (of_nat (length cs)), files(output \<mapsto> archive_of cs))"
proof -
  obtain reader where opened: "open_archive files path = Inr reader" and records: "ar_records reader = Inr (records_from 36 cs)"
    using contents cs by (rule with_header_reads)
  have packets: "\<forall>r \<in> set (records_from 36 cs). packet_ok (rec_packet r)"
    using storable_ok [OF cs] set_records_from [of 36 cs] by fastforce
  have "copy_loop 0 aw_open reader = (Inr (of_nat (length cs)), aw_append_all cs aw_open)"
    using copy_loop_run [OF records packets, of aw_open 0]
    by (simp add: records_from_captures length_records) (simp add: aw_open_def)
  then show ?thesis
    by (simp add: copy_readable_records_def opened finish_run [OF storable_ok [OF cs]])
qed

lemma summary_record_count: "as_record_count (fold summary_add ts s) = as_record_count s + of_nat (length ts)"
  by (induction ts arbitrary: s) (simp_all add: summary_add_def Let_def)

lemma audit_written:
  assumes "files_fit files" and "files path = Some (archive_of cs)" and "storable cs"
  shows "audit_report_ok (audit_archive_integrity files path audit_options_default) \<longleftrightarrow> sorted (map fst cs)"
  using audit_with_header(4) [OF assms(1) _ assms(3), of path] assms(2)
  by (simp add: archive_of_header [OF assms(3)] summary_record_count archive_summary_default_def)

text \<open>
  C28. The archive a process leaves that dies before it closes it has a header that counts too few
  records. Planning its repair and executing the plan writes, next to it and touching no other file,
  the archive of exactly the captures it holds, and the verification finds nothing to report exactly
  if they are in order of time. The hypothesis on the salvage scan excludes payloads in which the
  scanner sees more packets than the reader does.
\<close>

theorem unclosed_archive_repaired:
  fixes cs :: "capture list" and options :: planner_options
  defines "output \<equiv> \<lambda>path. output_for path options (po_repaired_suffix options)"
  assumes fit: "files_fit files" and contents: "files path = Some (with_header s cs)" and cs: "storable cs"
    and header: "as_record_count s \<noteq> of_nat (length cs)" and enabled: "po_rewrite_when_header_mismatch options"
    and salvage: "length (rp_packets (scan_bytes decode_options_default (with_header s cs))) \<le> length cs"
    and free: "files (output path) = None" and paths: "path \<noteq> []" "output path \<noteq> []"
  shows "\<exists>plan report. plan_archive_repair files path options = Inr plan \<and>
    execute_archive_repair_plan plan False files = (Inr report, files(output path \<mapsto> archive_of cs)) \<and>
    re_outputs report = [output path] \<and> re_records_written report = of_nat (length cs) \<and>
    (re_warnings report = [] \<longleftrightarrow> sorted (map fst cs))"
proof -
  let ?audit = "audit_archive_integrity files path audit_options_default"
  note audit = audit_with_header [OF fit contents cs]
  have not_ok: "\<not> audit_report_ok ?audit"
    using audit(4) header by simp
  have readable: "ad_readable ?audit" "ad_records_scanned ?audit = of_nat (length cs)"
    by (rule audit)+
  have "rewrite_reason options ?audit \<noteq> None"
    using audit(5) [OF header] enabled by (simp add: rewrite_reason_def)
  then obtain reason where reason: "rewrite_reason options ?audit = Some reason" by blast
  have few: "\<not> (of_nat (length (rp_packets (scan_bytes decode_options_default (with_header s cs)))) :: u64) > of_nat (length cs)"
    using salvage audit(1) by (simp add: word_less_nat_alt unat_of_nat_u64)
  let ?actions = "[make_action RK_rewrite_from_readable_records path (output path) reason (of_nat (length cs)),
       make_action RK_verify_after_write (output path) (output path) ''verify rewritten archive'' (of_nat (length cs))]"
  have chosen: "pl_actions (choose_actions path options p) = ?actions \<and>
      pl_source_path (choose_actions path options p) = pl_source_path p \<and>
      pl_audit (choose_actions path options p) = pl_audit p"
    if "pl_audit p = ?audit" "pl_readable_records p = of_nat (length cs)"
      "\<not> pl_salvaged_records p > pl_readable_records p" for p
    using that not_ok readable reason by (simp add: choose_actions_def Let_def output_def)
  define base where "base = \<lparr>pl_source_path = path, pl_audit = ?audit, pl_salvage = no_salvage, pl_actions = [],
      pl_readable_records = of_nat (length cs), pl_salvaged_records = 0, pl_uses_salvage = False\<rparr>"
  define scanned where "scanned = (let found = scan_bytes decode_options_default (with_header s cs)
      in base\<lparr>pl_salvage := found, pl_salvaged_records := of_nat (length (rp_packets found))\<rparr>)"
  define p where
    "p = (if po_allow_salvage_scan options \<and> (\<not> ad_readable ?audit \<or> has_error ?audit) then scanned else base)"
  have plan: "plan_archive_repair files path options = Inr (choose_actions path options p)"
    unfolding plan_archive_repair_def Let_def p_def scanned_def base_def scan_file_def readable(2)
    by (simp add: contents readable(1))
  define plan where "plan = choose_actions path options p"
  have "pl_audit p = ?audit" "pl_readable_records p = of_nat (length cs)" "\<not> pl_salvaged_records p > pl_readable_records p"
    "pl_source_path p = path"
    using few by (simp_all add: p_def base_def scanned_def Let_def)
  with chosen [of p] have source: "pl_source_path plan = path" and pl_audit: "pl_audit plan = ?audit"
    and actions: "pl_actions plan = ?actions"
    by (simp_all add: plan_def)
  note plan = plan [folded plan_def]
  let ?files = "files(output path \<mapsto> archive_of cs)"
  have fits: "files_fit ?files"
    using fit contents length_with_header [of s cs]
    unfolding files_fit_def archive_of_header [OF cs] by auto metis
  have ok: "audit_report_ok (audit_archive_integrity ?files (output path) audit_options_default) \<longleftrightarrow> sorted (map fst cs)"
    by (rule audit_written [OF fits _ cs]) simp
  have valid: "validate_archive_repair_plan plan = []"
    using paths readable
    by (simp add: validate_archive_repair_plan_def validate_action_def source actions pl_audit make_action_def)
  have "execute_archive_repair_plan plan False files =
    (Inr \<lparr>re_plan = plan, re_outputs = [output path],
       re_warnings = (if sorted (map fst cs) then [] else [''verification audit reported findings for '' @ output path]),
       re_actions_executed = 2, re_records_written = of_nat (length cs)\<rparr>, ?files)"
    by (simp add: execute_archive_repair_plan_def valid actions execute_action_def make_action_def Let_def
        ensure_can_write_def free copy_run [where files = files and path = path, OF contents cs] ok)
  with plan show ?thesis by auto
qed

text \<open>One heartbeat, in an archive whose header was never patched.\<close>

abbreviation unclosed :: bytes where
  "unclosed \<equiv> with_header archive_summary_default [(5, beacon)]"

abbreviation unclosed_prefix :: bytes where
  "unclosed_prefix \<equiv>
     [65, 69, 84, 72, 65, 82, 67, 49, 1, 0, 0, 0, 0, 0, 0, 0, 0, 0, 0, 0, 0, 0, 0, 0, 0, 0, 0, 0, 0, 0, 0, 0, 0, 0, 0, 0,
      5, 0, 0, 0, 0, 0, 0, 0, 45, 0, 0, 0]"

lemma unclosed_prefix: "archive_magic @ archive_header archive_summary_default @ bw_u64 5 [] @ bw_u32 45 [] = unclosed_prefix"
  by code_simp

lemma unclosed_bytes: "\<exists>tail. unclosed = unclosed_prefix @ frame_of beacon @ tail \<and> length tail = 4"
  unfolding unclosed_prefix [symmetric]
  by (simp add: with_header_def capture_bytes_def record_bytes_split length_frame_of)

lemma unclosed_quiet: "\<forall>i < 48. take 4 (drop i (unclosed_prefix @ f)) \<noteq> bw_u32 packet_magic []"
proof -
  have upto: "{..<48 :: nat} = set
      [0, 1, 2, 3, 4, 5, 6, 7, 8, 9, 10, 11, 12, 13, 14, 15, 16, 17, 18, 19, 20, 21, 22, 23,
       24, 25, 26, 27, 28, 29, 30, 31, 32, 33, 34, 35, 36, 37, 38, 39, 40, 41, 42, 43, 44, 45, 46, 47]"
    by code_simp
  have "\<forall>i \<in> {..<48}. take 4 (drop i (unclosed_prefix @ f)) \<noteq> bw_u32 packet_magic []"
    by (simp add: magic_bytes upto)
  then show ?thesis by simp
qed

lemma unclosed_scan: "length (rp_packets (scan_bytes decode_options_default unclosed)) = 1"
proof -
  obtain tail where bytes: "unclosed = unclosed_prefix @ frame_of beacon @ tail" and tail: "length tail = 4"
    using unclosed_bytes by blast
  have len: "length unclosed = 97"
    by (simp add: bytes tail length_frame_of)
  have start: "scan_loop decode_options_default unclosed 0 report = scan_loop decode_options_default unclosed (0 + 48) report" for report
    by (rule scan_quiet) (use unclosed_quiet in \<open>simp add: bytes\<close>, simp add: len)
  have beacon: "accepted decode_options_default (frame_of beacon) beacon"
    by (simp add: accepted_def)
  have at: "drop (0 + 48) unclosed = frame_of beacon @ tail"
    by (simp add: bytes)
  have stop: "scan_loop decode_options_default unclosed 93 report = report" for report
    by (simp add: scan_loop.simps [of _ _ 93] len)
  show ?thesis
    using scan_accepted [OF beacon at, of "\<lparr>rp_bytes_scanned = of_nat (length unclosed), rp_candidate_frames = 0,
            rp_rejected_frames = 0, rp_packets = []\<rparr>"]
    by (auto simp: scan_bytes_def Let_def len start stop length_frame_of)
qed

lemma unclosed_archive_repaired_witness:
  "\<exists>plan report. plan_archive_repair [''a.ath'' \<mapsto> unclosed] ''a.ath'' planner_options_default = Inr plan \<and>
     execute_archive_repair_plan plan False [''a.ath'' \<mapsto> unclosed] =
       (Inr report, [''a.ath'' \<mapsto> unclosed, ''a.ath.repaired.ath'' \<mapsto> archive_of [(5, beacon)]]) \<and>
     re_outputs report = [''a.ath.repaired.ath''] \<and> re_records_written report = 1 \<and> re_warnings report = []"
proof -
  have out: "output_for ''a.ath'' planner_options_default (po_repaired_suffix planner_options_default) = ''a.ath.repaired.ath''"
    by code_simp
  have header: "as_record_count archive_summary_default = 0" and enabled: "po_rewrite_when_header_mismatch planner_options_default"
    by (simp_all add: archive_summary_default_def planner_options_default_def)
  have len: "length unclosed = 97"
    using unclosed_bytes by (auto simp: length_frame_of)
  have fit: "files_fit [''a.ath'' \<mapsto> unclosed]"
    by (simp add: files_fit_def len)
  have storable: "storable [(5, beacon)]"
    by (simp add: storable_def batchable_def length_frame_of)
  show ?thesis
    using unclosed_archive_repaired [where files = "[''a.ath'' \<mapsto> unclosed]" and path = "''a.ath''" and
        s = archive_summary_default and cs = "[(5, beacon)]" and options = planner_options_default]
    by (simp add: fit storable out unclosed_scan header enabled)
qed

end
