(* ===== verification/Rf_Types.thy ===== *)
theory Rf_Types
  imports Complex_Main Payload
begin

text \<open>
  The vocabulary of the radio-frequency code (\<open>src/rf/types.cpp\<close>, \<open>rf/types.hpp\<close>): half-open ranges of
  frequencies, and the conversion between spectrum frames, whose powers are tenths of a decibel in
  16 bits, and slices with powers in floating point. As elsewhere a double is a rational and \<open>fl\<close> is
  the rounding of the platform; \<open>show_fixed\<close> prints with a number of decimals.
\<close>

section \<open>Enumerations\<close>

datatype rf_service =
    RV_unknown | RV_amateur | RV_broadcast | RV_cellular | RV_navigation | RV_satellite | RV_aeronautical
  | RV_maritime | RV_land_mobile | RV_ism | RV_radar | RV_public_safety | RV_weather | RV_telemetry

datatype peak_shape = PH_unknown | PH_narrowband | PH_wideband | PH_flat_top | PH_multi_tone | PH_shoulder | PH_impulse

datatype interference_kind =
    IK_none | IK_co_channel | IK_adjacent_channel | IK_broadband_noise | IK_narrowband_carrier | IK_impulsive
  | IK_intermodulation | IK_overload | IK_unknown

datatype sweep_intent = SI_survey | SI_occupancy | SI_interference_hunt | SI_calibration | SI_compliance

datatype spectrum_scale = SC_dbm | SC_dbfs | SC_relative_db

definition rf_service_name :: "rf_service \<Rightarrow> string" where
  "rf_service_name service =
     (case service of
        RV_unknown \<Rightarrow> ''unknown'' | RV_amateur \<Rightarrow> ''amateur'' | RV_broadcast \<Rightarrow> ''broadcast''
      | RV_cellular \<Rightarrow> ''cellular'' | RV_navigation \<Rightarrow> ''navigation'' | RV_satellite \<Rightarrow> ''satellite''
      | RV_aeronautical \<Rightarrow> ''aeronautical'' | RV_maritime \<Rightarrow> ''maritime'' | RV_land_mobile \<Rightarrow> ''land_mobile''
      | RV_ism \<Rightarrow> ''ism'' | RV_radar \<Rightarrow> ''radar'' | RV_public_safety \<Rightarrow> ''public_safety''
      | RV_weather \<Rightarrow> ''weather'' | RV_telemetry \<Rightarrow> ''telemetry'')"

definition peak_shape_name :: "peak_shape \<Rightarrow> string" where
  "peak_shape_name shape =
     (case shape of
        PH_unknown \<Rightarrow> ''unknown'' | PH_narrowband \<Rightarrow> ''narrowband'' | PH_wideband \<Rightarrow> ''wideband''
      | PH_flat_top \<Rightarrow> ''flat_top'' | PH_multi_tone \<Rightarrow> ''multi_tone'' | PH_shoulder \<Rightarrow> ''shoulder''
      | PH_impulse \<Rightarrow> ''impulse'')"

definition interference_kind_name :: "interference_kind \<Rightarrow> string" where
  "interference_kind_name kind =
     (case kind of
        IK_none \<Rightarrow> ''none'' | IK_co_channel \<Rightarrow> ''co_channel'' | IK_adjacent_channel \<Rightarrow> ''adjacent_channel''
      | IK_broadband_noise \<Rightarrow> ''broadband_noise'' | IK_narrowband_carrier \<Rightarrow> ''narrowband_carrier''
      | IK_impulsive \<Rightarrow> ''impulsive'' | IK_intermodulation \<Rightarrow> ''intermodulation'' | IK_overload \<Rightarrow> ''overload''
      | IK_unknown \<Rightarrow> ''unknown'')"

section \<open>Ranges of frequencies\<close>

record frequency_range =
  fq_lower_hz :: u64
  fq_upper_hz :: u64

abbreviation hz_range :: "u64 \<Rightarrow> u64 \<Rightarrow> frequency_range" where
  "hz_range lower upper \<equiv> \<lparr>fq_lower_hz = lower, fq_upper_hz = upper\<rparr>"

definition range_empty :: "frequency_range \<Rightarrow> bool" where
  "range_empty r \<longleftrightarrow> fq_upper_hz r \<le> fq_lower_hz r"

definition width_hz :: "frequency_range \<Rightarrow> u64" where
  "width_hz r = (if fq_upper_hz r > fq_lower_hz r then fq_upper_hz r - fq_lower_hz r else 0)"

definition center_hz :: "frequency_range \<Rightarrow> u64" where
  "center_hz r = fq_lower_hz r + width_hz r div 2"

definition range_contains :: "frequency_range \<Rightarrow> u64 \<Rightarrow> bool" where
  "range_contains r frequency \<longleftrightarrow> frequency \<ge> fq_lower_hz r \<and> frequency < fq_upper_hz r"

definition range_overlaps :: "frequency_range \<Rightarrow> frequency_range \<Rightarrow> bool" where
  "range_overlaps r other \<longleftrightarrow> fq_lower_hz r < fq_upper_hz other \<and> fq_lower_hz other < fq_upper_hz r"

definition range_intersect :: "frequency_range \<Rightarrow> frequency_range \<Rightarrow> frequency_range option" where
  "range_intersect l r =
     (let result = hz_range (max (fq_lower_hz l) (fq_lower_hz r)) (min (fq_upper_hz l) (fq_upper_hz r))
      in if range_empty result then None else Some result)"

definition range_merge :: "frequency_range \<Rightarrow> frequency_range \<Rightarrow> frequency_range" where
  "range_merge l r =
     (if range_empty l then r
      else if range_empty r then l
      else hz_range (min (fq_lower_hz l) (fq_lower_hz r)) (max (fq_upper_hz l) (fq_upper_hz r)))"

text \<open>The frequencies of a range, as a set.\<close>

definition band :: "frequency_range \<Rightarrow> u64 set" where
  "band r = {fq_lower_hz r..<fq_upper_hz r}"

lemma band_contains [simp]: "range_contains r f \<longleftrightarrow> f \<in> band r"
  by (auto simp: range_contains_def band_def)

lemma band_empty [simp]: "range_empty r \<longleftrightarrow> band r = {}"
  by (simp add: range_empty_def band_def not_less)

lemma band_intersect: "(case range_intersect l r of None \<Rightarrow> {} | Some i \<Rightarrow> band i) = band l \<inter> band r"
  by (auto simp: range_intersect_def Let_def band_def)

lemma band_merge: "band l \<union> band r \<subseteq> band (range_merge l r)"
  by (auto simp: range_merge_def) (auto simp: band_def min_def max_def)

lemma overlaps_iff: "band l \<noteq> {} \<Longrightarrow> band r \<noteq> {} \<Longrightarrow> range_overlaps l r \<longleftrightarrow> band l \<inter> band r \<noteq> {}"
  by (auto simp: range_overlaps_def band_def)

lemma card_word_interval: "card {a..<b :: 'a::len word} = unat (if a < b then b - a else 0)"
proof (cases "a < b")
  case True
  have "unat ` {a..<b} = {unat a..<unat b}"
  proof (intro equalityI subsetI)
    fix n assume n: "n \<in> {unat a..<unat b}"
    then have "n < 2 ^ LENGTH('a)"
      using unsigned_less [of b] by (auto intro: less_trans)
    then have "unat (of_nat n :: 'a word) = n"
      by (simp add: unsigned_of_nat take_bit_nat_eq_self)
    then show "n \<in> unat ` {a..<b}"
      using n by (intro image_eqI [of _ _ "of_nat n"]) (simp_all add: word_le_nat_alt word_less_nat_alt)
  qed (auto simp: word_le_nat_alt word_less_nat_alt)
  then have "card {a..<b} = card {unat a..<unat b}"
    using card_image [of unat "{a..<b}"] by (metis inj_onI word_unat_eq_iff)
  then show ?thesis
    using True by (simp add: unat_sub less_imp_le)
qed auto

lemma card_band: "card (band r) = unat (width_hz r)"
  by (simp add: band_def width_hz_def card_word_interval)

section \<open>Spectrum frames and slices\<close>

record spectrum_point =
  sn_frequency_hz :: u64
  sn_power_dbm :: rat
  sn_noise_dbm :: rat

record spectrum_slice =
  ss_scale :: spectrum_scale
  ss_center_frequency_hz :: u64
  ss_span_hz :: u64
  ss_bin_width_hz :: u64
  ss_points :: "spectrum_point list"

definition clamp_dbm :: "(rat \<Rightarrow> rat) \<Rightarrow> rat \<Rightarrow> rat" where
  "clamp_dbm fl v =
     (if v > fl (32767 / 10) then fl (32767 / 10)
      else if v < fl (- 32768 / 10) then fl (- 32768 / 10)
      else v)"

definition bin_frequency :: "spectrum_frame \<Rightarrow> nat \<Rightarrow> u64" where
  "bin_frequency frame i =
     (if sf_bins frame = [] then sf_center_frequency_hz frame
      else
        let width = ucast (sf_bin_width_hz frame) :: u64;
            total_width = width * of_nat (length (sf_bins frame));
            lower = (if sf_center_frequency_hz frame \<ge> total_width div 2
                     then sf_center_frequency_hz frame - total_width div 2 else 0)
        in lower + of_nat i * width + width div 2)"

definition spectrum_slice_from_frame :: "(rat \<Rightarrow> rat) \<Rightarrow> spectrum_frame \<Rightarrow> spectrum_slice" where
  "spectrum_slice_from_frame fl frame =
     \<lparr>ss_scale = SC_dbm, ss_center_frequency_hz = sf_center_frequency_hz frame,
      ss_span_hz = ucast (sf_span_hz frame), ss_bin_width_hz = ucast (sf_bin_width_hz frame),
      ss_points = map (\<lambda>(i, bin).
        \<lparr>sn_frequency_hz = bin_frequency frame i,
         sn_power_dbm = fl (of_int (sint (sb_power_dbm_x10 bin)) / 10),
         sn_noise_dbm = fl (of_int (sint (sb_noise_dbm_x10 bin)) / 10)\<rparr>)
        (zip [0..<length (sf_bins frame)] (sf_bins frame))\<rparr>"

text \<open>\<open>std::llround\<close> rounds halves away from zero.\<close>

definition llround :: "rat \<Rightarrow> int" where
  "llround v = (if v < 0 then - \<lfloor>- v + 1 / 2\<rfloor> else \<lfloor>v + 1 / 2\<rfloor>)"

definition dbm_x10 :: "(rat \<Rightarrow> rat) \<Rightarrow> rat \<Rightarrow> u16" where
  "dbm_x10 fl v = of_int (llround (fl (clamp_dbm fl v * 10)))"

definition spectrum_frame_from_slice :: "(rat \<Rightarrow> rat) \<Rightarrow> spectrum_slice \<Rightarrow> spectrum_frame" where
  "spectrum_frame_from_slice fl spectrum =
     \<lparr>sf_center_frequency_hz = ss_center_frequency_hz spectrum,
      sf_span_hz = ucast (min (ss_span_hz spectrum) 4294967295),
      sf_bin_width_hz = ucast (min (ss_bin_width_hz spectrum) 65535),
      sf_bins = map (\<lambda>point. \<lparr>sb_power_dbm_x10 = dbm_x10 fl (sn_power_dbm point),
        sb_noise_dbm_x10 = dbm_x10 fl (sn_noise_dbm point)\<rparr>) (ss_points spectrum)\<rparr>"

section \<open>Text output\<close>

definition format_scaled :: "(rat \<Rightarrow> rat) \<Rightarrow> (nat \<Rightarrow> rat \<Rightarrow> string) \<Rightarrow> u64 \<Rightarrow> rat \<Rightarrow> string \<Rightarrow> nat \<Rightarrow> string" where
  "format_scaled fl show_fixed v divisor unit_name precision =
     show_fixed precision (fl (fl (of_nat (unat v)) / divisor)) @ unit_name"

definition format_frequency :: "(rat \<Rightarrow> rat) \<Rightarrow> (nat \<Rightarrow> rat \<Rightarrow> string) \<Rightarrow> u64 \<Rightarrow> string" where
  "format_frequency fl show_fixed f =
     (if f \<ge> 1000000000 then format_scaled fl show_fixed f 1000000000 '' GHz'' 6
      else if f \<ge> 1000000 then format_scaled fl show_fixed f 1000000 '' MHz'' 3
      else if f \<ge> 1000 then format_scaled fl show_fixed f 1000 '' kHz'' 3
      else dec f @ '' Hz'')"

definition format_range :: "(rat \<Rightarrow> rat) \<Rightarrow> (nat \<Rightarrow> rat \<Rightarrow> string) \<Rightarrow> frequency_range \<Rightarrow> string" where
  "format_range fl show_fixed r =
     format_frequency fl show_fixed (fq_lower_hz r) @ '' - '' @ format_frequency fl show_fixed (fq_upper_hz r)"

section \<open>The round trip of a frame\<close>

text \<open>What is needed of the rounding: the relative error of a double is far below this.\<close>

definition accurate :: "(rat \<Rightarrow> rat) \<Rightarrow> bool" where
  "accurate fl \<longleftrightarrow> fl 0 = 0 \<and> (\<forall>x. 1 / 100 \<le> \<bar>x\<bar> \<and> \<bar>x\<bar> \<le> 1000000 \<longrightarrow> \<bar>fl x - x\<bar> \<le> \<bar>x\<bar> / 1000000)"

lemma accurate_near:
  assumes "accurate fl" and "x = 0 \<or> 1 / 100 \<le> \<bar>x\<bar>" and "\<bar>x\<bar> \<le> 40000"
  shows "\<bar>fl x - x\<bar> \<le> 1 / 25"
proof (cases "x = 0")
  case False
  then have "\<bar>fl x - x\<bar> \<le> \<bar>x\<bar> / 1000000"
    using assms by (simp add: accurate_def)
  then show ?thesis
    using assms(3) by linarith
qed (use assms(1) in \<open>simp add: accurate_def\<close>)

lemma llround_near: "\<bar>v - of_int i\<bar> < 1 / 2 \<Longrightarrow> llround v = i"
proof -
  assume near: "\<bar>v - of_int i\<bar> < 1 / 2"
  then have "\<lfloor>v + 1 / 2\<rfloor> = i" "\<lfloor>- v + 1 / 2\<rfloor> = - i"
    unfolding floor_eq_iff by (safe; linarith)+
  then show ?thesis
    by (simp add: llround_def)
qed

lemma dbm_x10_tenth:
  fixes w :: u16
  assumes fl: "accurate fl"
  shows "dbm_x10 fl (fl (of_int (sint w) / 10)) = w"
proof -
  define x v :: rat where "x = of_int (sint w) / 10" and "v = fl x"
  have lo: "- 32768 \<le> sint w" and hi: "sint w \<le> 32767"
    using sint_greater_eq [of w] sint_less [of w] by simp_all
  have small: "sint w = 0 \<or> 1 \<le> \<bar>sint w\<bar>"
    by linarith
  have x: "x = 0 \<or> 1 / 10 \<le> \<bar>x\<bar>" "\<bar>x\<bar> \<le> 32768 / 10"
    using lo hi small by (auto simp: x_def abs_if simp del: of_int_sint)
  have v: "\<bar>v - x\<bar> \<le> 1 / 25"
    unfolding v_def by (rule accurate_near [OF fl]) (use x in auto)
  have limits: "\<bar>fl (32767 / 10) - 32767 / 10\<bar> \<le> 1 / 25" "\<bar>fl (- 32768 / 10) - - 32768 / 10\<bar> \<le> 1 / 25"
    by (rule accurate_near [OF fl]; simp)+
  have order: "\<not> fl (32767 / 10) < fl (- 32768 / 10)"
    using limits by linarith
  have clamp: "clamp_dbm fl v = v"
  proof (cases "sint w = 32767 \<or> sint w = - 32768")
    case True
    then show ?thesis
      using order by (auto simp: clamp_dbm_def v_def x_def simp del: of_int_sint)
  next
    case False
    then have "- 32767 / 10 \<le> x" "x \<le> 32766 / 10"
      using lo hi by (auto simp: x_def simp del: of_int_sint)
    then have "\<not> v > fl (32767 / 10)" "\<not> v < fl (- 32768 / 10)"
      using v limits by linarith+
    then show ?thesis
      by (simp add: clamp_dbm_def)
  qed
  have "v * 10 = 0 \<or> 1 / 100 \<le> \<bar>v * 10\<bar>"
    using x(1) v fl by (auto simp: v_def accurate_def abs_if split: if_splits)
  then have "\<bar>fl (v * 10) - v * 10\<bar> \<le> 1 / 25"
    by (rule accurate_near [OF fl]) (use x(2) v in linarith)
  moreover have "x * 10 = of_int (sint w)"
    by (simp add: x_def del: of_int_sint)
  ultimately have "llround (fl (v * 10)) = sint w"
    using v by (intro llround_near) linarith
  then show ?thesis
    unfolding x_def [symmetric] v_def [symmetric] by (simp add: dbm_x10_def clamp)
qed

text \<open>
  A spectrum frame that is turned into a slice and back is unchanged, if the rounding is accurate.
\<close>

theorem spectrum_slice_roundtrip:
  assumes "accurate fl"
  shows "spectrum_frame_from_slice fl (spectrum_slice_from_frame fl frame) = frame"
proof -
  have bin: "\<lparr>sb_power_dbm_x10 = dbm_x10 fl (fl (of_int (sint (sb_power_dbm_x10 b)) / 10)),
      sb_noise_dbm_x10 = dbm_x10 fl (fl (of_int (sint (sb_noise_dbm_x10 b)) / 10))\<rparr> = b" for b
    by (simp add: dbm_x10_tenth [OF assms] del: of_int_sint)
  have span: "ucast (min (ucast (sf_span_hz frame) :: u64) 4294967295) = sf_span_hz frame"
    using unat_u32_bound [of "sf_span_hz frame"]
    by (intro word_unat_eq_iff [THEN iffD2]) (simp add: min_def word_le_nat_alt unsigned_ucast_eq take_bit_nat_eq_self take_bit_word_eq_self)
  have width: "ucast (min (ucast (sf_bin_width_hz frame) :: u64) 65535) = sf_bin_width_hz frame"
    using unat_u16_bound [of "sf_bin_width_hz frame"]
    by (intro word_unat_eq_iff [THEN iffD2]) (simp add: min_def word_le_nat_alt unsigned_ucast_eq take_bit_nat_eq_self take_bit_word_eq_self)
  show ?thesis
    by (simp add: spectrum_frame_from_slice_def spectrum_slice_from_frame_def span width o_def case_prod_beta bin del: of_int_sint)
qed

end
