(* ===== verification/Spec2Isabelle.thy ===== *)
theory Spec2Isabelle
  imports
    Packet_Integrity Tlv Transform Batch Inspector Validator
    Stream_Parser Reassembler Session
    Archive_Roundtrip Recovery Range_Set
    Query_Parser Segment Retention Capacity Sampling Archive_Audit Payload
    Dispatch Ingest_Queue Batching Fleet_Registry Config Collector
    Device_Limiter Command_Lifecycle Ack_Tracker Backpressure Scheduler_Laws
    Manifest_Diff Alerts Slo Archive_Statistics Repair_Plan Rf_Types
begin

text \<open>
  A verification library for Aethon, a C++ toolkit that carries radio telemetry packets from
  devices to an archive. Paths below are relative to \<open>src/\<close> and to \<open>include/aethon/\<close>.

  The program. A packet is encoded into a frame (magic, length, body, checksum) and cut into a
  byte stream. The stream parser finds frames again in whatever chunks the transport delivers,
  the reassembler joins fragments of a message, the session tracker and the link monitor follow
  each device. The collector validates packets, observes their sessions, archives them and
  publishes events; the ingest queue, the batching policy, the task scheduler, per-device rate
  limits and backpressure stand in front of it. Archives are indexed, repaired and replayed. In
  the other direction the command journal sends commands to devices, with retries, and the
  acknowledgement tracker watches for their answers.

  The theories, bottom up.

  \<^item> \<open>Prelude\<close>: integers at their width, byte strings, error values (\<open>common/error.hpp\<close>,
    \<open>common/bytes\<close>), decimal and hexadecimal output, and the locale \<open>state_machine\<close>, through
    which every component with state gets its invariant on all runs. \<open>Ordered_Map\<close> is
    \<open>std::map\<close>: strictly sorted association lists as a type, iterated in key order. \<open>Selection\<close> is
    \<open>std::min_element\<close> and \<open>std::max_element\<close>, with the locale \<open>ranked\<close> for comparators that come from a key.

  \<^item> \<open>Binary\<close> (\<open>codec/binary_reader\<close>, \<open>codec/binary_writer\<close>): a reader is a function from a cursor to
    an error or a value and a cursor; \<open>decodes\<close> says that a reader consumes exactly the given
    bytes, and the locale \<open>codec\<close> packages a writer with its reader. \<open>Crc\<close> (\<open>codec/crc\<close>): the
    checksum register as a linear map; bursts of up to four bytes are detected
    (locale \<open>framed_checksum\<close>).

  \<^item> \<open>Types\<close> and \<open>Packet\<close> (\<open>protocol/types.hpp\<close>, \<open>protocol/packet\<close>): the packet with all its sections,
    \<open>encode_packet\<close> and \<open>decode_packet\<close> with every check in source order. \<open>Packet_Roundtrip\<close> proves that
    decoding inverts encoding, \<open>Packet_Integrity\<close> what acceptance says about the bytes.

  \<^item> \<open>Tlv\<close> (\<open>protocol/tlv\<close>), \<open>Transform\<close> (\<open>compression/compressor\<close>, \<open>crypto/crypto\<close>; locales
    \<open>lossless_compressor\<close>, \<open>limited_compressor\<close>, \<open>sealing\<close>), \<open>Batch\<close> (\<open>protocol/packet_builder\<close>,
    \<open>packet_batch\<close>, \<open>batch_codec\<close>), \<open>Inspector\<close> (\<open>protocol/inspector\<close>, \<open>version_matrix\<close>,
    \<open>negotiation\<close>), \<open>Validator\<close> (\<open>protocol/extension_registry\<close>, \<open>validator\<close>; locale \<open>keyed_registry\<close>).

  \<^item> \<open>Stream_Parser\<close> (\<open>stream/stream_parser\<close>): chunking is invisible, delivery in noise, the bound on
    the buffer, and the packet a false header loses. \<open>Reassembler\<close> (\<open>protocol/reassembler\<close>): the
    invariant of pending streams, and completion in any order of arrival. \<open>Session\<close>
    (\<open>stream/session_tracker\<close>, \<open>stream/link_monitor\<close>).

  \<^item> \<open>Archive\<close> and \<open>Archive_Roundtrip\<close> (\<open>storage/archive\<close>): a file is a list of bytes with a position;
    what is written is read back, corruption is reported, lookups in the index are right.
    \<open>Recovery\<close> (\<open>storage/repair\<close>, \<open>storage/record_cursor\<close>, \<open>replay/replay_engine\<close>). \<open>Range_Set\<close>
    (\<open>storage/range_set\<close>).

  \<^item> \<open>Aggregate\<close>: find an element or push one, then update it, with the locale \<open>tally\<close> for what such
    loops leave. \<open>Query\<close> (\<open>storage/query\<close>, \<open>storage/compaction\<close>): queries are exact, compaction keeps
    what it says, and the device it hides. \<open>Query_Parser\<close> (\<open>storage/query_parser\<close>): the query
    language reads back what is printed. \<open>Manifest\<close> (\<open>storage/manifest\<close>) and \<open>Catalog\<close>
    (\<open>storage/catalog\<close>): manifests are exact, the catalog finds every archive that matters.
    \<open>Segment\<close> (\<open>storage/segment\<close>), \<open>Retention\<close> (\<open>storage/retention\<close>, \<open>storage/retention_simulator\<close>) and
    \<open>Capacity\<close> (\<open>storage/capacity_forecast\<close>) plan over manifests and catalogs.
    \<open>Collection\<close> (\<open>storage/archive_collection\<close>): a search over several archives is the merge of the
    queries over each. \<open>Sampling\<close> (\<open>storage/archive_sampling\<close>): every mode of sampling is sound.
    \<open>Rotation\<close> (\<open>storage/archive_rotation\<close>): rotating archives keeps every capture and respects the
    limits of the policy. \<open>Repair_Plan\<close> (\<open>storage/archive_repair_plan\<close>): repairing loses no contents and
    restores an archive that was not closed. \<open>Archive_Audit\<close> (\<open>storage/archive_audit\<close>): which errors an audit finds, exactly.
    \<open>Manifest_Diff\<close> (\<open>storage/manifest_diff\<close>): what changed between two manifests adds up, by the locale
    \<open>keyed_diff\<close>. \<open>Grouping\<close>: what a loop that groups values by a key leaves. \<open>Archive_Statistics\<close>
    (\<open>storage/archive_statistics\<close>): time buckets count exactly, gaps are exactly the long silences.

  \<^item> \<open>Payload\<close> (\<open>telemetry/payload\<close>): the payload formats, with the locale \<open>exact_codec\<close> for readers that
    accept only what the writer writes. \<open>Rf_Types\<close> (\<open>rf/types\<close>): ranges of frequencies as sets, and
    spectrum frames through slices and back.

  \<^item> \<open>Json\<close> (\<open>diagnostics/json_writer\<close>, \<open>diagnostics/text_table\<close>): a reference reader gives back what the
    writer nests; the lines of a table align. \<open>Metrics\<close> (\<open>diagnostics/metrics\<close>): snapshots, series and the
    exact counts of the latency histogram. \<open>Alerts\<close> (\<open>diagnostics/alert_rules\<close>): when a rule fires.
    \<open>Slo\<close> (\<open>diagnostics/slo_window\<close>): the partition of an interval into slices, error budgets.

  \<^item> \<open>Dispatch\<close> (\<open>runtime/event_dispatcher\<close>, \<open>runtime/pipeline\<close>), \<open>Ingest_Queue\<close>
    (\<open>runtime/ingest_queue\<close>): invariant, conservation of packets, the order of removal. \<open>Batching\<close>
    (\<open>runtime/batching_policy\<close>): conservation of envelopes and what every closed batch satisfies.
    \<open>Fleet_Registry\<close> (\<open>runtime/fleet_registry\<close>): the registry against a reading of the calls.

  \<^item> \<open>Config\<close> (\<open>config/config_parser\<close>, \<open>config/schema\<close>, \<open>config/profile\<close>): the parser, the schema and the
    collector profile. \<open>Collector\<close> (\<open>runtime/collector\<close>, \<open>runtime/replay_driver\<close>) puts validator, link
    monitor, session tracker, archive and dispatcher together; its properties go from the packets
    that arrive to the events of a replay, through the archive file.

  \<^item> \<open>Identity\<close>: the scheme by which journal and scheduler hand out identities. \<open>Command_Journal\<close>
    (\<open>control/command_journal\<close>) holds the definitions, \<open>Command_Lifecycle\<close> the refinement of an
    abstract life cycle, termination of polling and what a dispatched packet says. \<open>Ack_Tracker\<close>
    (\<open>control/ack_tracker\<close>): records well formed, verdicts final, time-outs complete. \<open>Device_Limiter\<close>
    (\<open>control/device_limiter\<close>): exclusion of leases, the rate bound, and when waiting helps.
    \<open>Backpressure\<close> (\<open>control/backpressure_controller\<close>): accounts, monotone classification.

  \<^item> \<open>Scheduler\<close> (\<open>runtime/scheduler\<close>) holds the definitions, \<open>Scheduler_Laws\<close> the exact running counts,
    the tasks a lease hands out, and the cycle in the comparison of tasks.

  Conventions. A function that may throw returns \<open>error + 'a\<close>. Counters and times are words and
  wrap; sizes of containers in memory are natural numbers. Callbacks become logs of what they were
  called with, or functions on a world. Loops are recursive functions with a termination proof; no
  fuel is used in the models; the reference reader of JSON takes the length of its input as fuel,
  and \<open>fuel_within_length\<close> shows that this is enough. The loops over segments and over slices are partial
  functions, proved to return within their bounds. Renderers are strings, character by character. A floating-point value is a
  rational; how the platform rounds it is an argument \<open>fl\<close>, and how a stream prints it an argument
  \<open>show_double\<close>: what a property needs of \<open>fl\<close> it assumes by name.

  Bounds. Journal and scheduler number their entries with a 64-bit counter that wraps. Their run
  invariants are stated for runs of fewer than \<open>2^62\<close> calls whose explicit identities are below
  \<open>2^62\<close> (\<open>Identity.id_limit\<close>); the locale \<open>counted_machine\<close> carries the number of calls. Without the
  bound the invariants fail, as \<open>automatic_identity_overwrites\<close> shows.

  Not modelled. The file system beyond a byte list per archive (opening, I/O errors while
  reading), the delays of a replay, and, so far, the exports and text reports over
  archives, the incident and health reports, the band plan, sweep planner and calibration store,
  and the signal analysis, which computes on floating point. Infinities and NaN are not values of a double here. The applications, tests and fuzz targets are clients of the library.

  Where the statements describe a limit of the code rather than a guarantee (a lost packet after a
  false header, the device that stays listed, the byte limit that eviction can exceed, the record
  that cannot be read back and ends a replay, comparisons that ignore wrap-around, the identity
  that is overwritten, the cycle of the scheduler's comparison, the busy answer on which journal
  and tracker disagree, throttling that waiting never ends, the device that compaction hides, the
  forecast that forgets archives, the rotation and the repair that destroy their
  input, the key two metrics share, the
  duration gate that counts quiet samples, the partition that does not return), the text before them says so.
\<close>

end
